(* ===== verification/Sf_Prelude.thy ===== *)
theory Sf_Prelude
  imports Complex_Main "HOL-Library.Word" "HOL-Library.Char_ord" "HOL-Library.List_Lexorder"
begin

text \<open>
  Shared vocabulary of the development: the error code of \<open>libschnee/schnee/Error.h\<close>, byte
  arrays, the \<open>std::string\<close> searches the code uses, executions with undefined behaviour
  as values, and \<open>std::map\<close> as an association list sorted by its key.

  A \<open>std::string\<close> and a \<open>ByteArray\<close> are both a list of characters, a character
  being an octet.  A C string (\<open>const char *\<close>) ends at its first NUL; \<open>cstr\<close> cuts there.
\<close>

named_theorems sf_simps \<open>rewrite rules of the modelled operations\<close>
named_theorems sf_inv \<open>preservation of component invariants\<close>

subsection \<open>Machine integers\<close>

text \<open>
  What storing a 64 bit value in an \<open>int\<close> of 32 bits leaves of it: the low 32 bits, read as a
  two's complement number.
\<close>

definition to_int32 :: "int \<Rightarrow> int" where
  "to_int32 i = sint (word_of_int i :: 32 word)"

definition fits_int32 :: "int \<Rightarrow> bool" where
  "fits_int32 i \<longleftrightarrow> - (2 ^ 31) \<le> i \<and> i < 2 ^ 31"

lemma to_int32_eq: "to_int32 i = (i + 2 ^ 31) mod 2 ^ 32 - 2 ^ 31"
  by (simp add: to_int32_def int_word_sint)

lemma to_int32_id [simp]: "fits_int32 i \<Longrightarrow> to_int32 i = i"
  by (simp add: to_int32_eq fits_int32_def)

lemma to_int32_small [simp]: "to_int32 0 = 0" "to_int32 1 = 1"
  by (simp_all add: to_int32_eq)

lemma fits_to_int32 [simp]: "fits_int32 (to_int32 i)"
  using pos_mod_bound [of "2 ^ 32" "i + 2 ^ 31"] pos_mod_sign [of "2 ^ 32" "i + 2 ^ 31"]
  by (simp add: to_int32_eq fits_int32_def)

subsection \<open>Error codes\<close>

datatype error =
    NoError | NoPerm | NotFound | RevisionNotFound
  | InvalidArgument | ChannelError | Closed | Eof
  | ConnectionError | ConnectionReset | LiftError | HostOffline | TargetOffline
  | NotEnough | TooMuch
  | ExistsAlready
  | ServerError
  | TimeOut
  | NotSupported
  | NotInitialized | TryAgain
  | InvalidUri | BadProtocol | OldProtocol | NewProtocol
  | CouldNotConnectHost | AuthError | SignInError | TlsError
  | NoZeroConf | ZeroConfError
  | BufferFull | MultipleErrors
  | Loop | BadDeserialization
  | ReadError | WriteError | WrongState | Canceled | Other

abbreviation failed :: "error \<Rightarrow> bool" where
  "failed e \<equiv> e \<noteq> NoError"

subsection \<open>Executions that may go wrong\<close>

text \<open>
  C++ code can leave the defined part of the language: a null pointer is dereferenced, an
  array is read past its end, a dangling reference is used, an assertion fails.  Where the
  source can do this the model returns \<open>Fault\<close>, never an arbitrary value.
\<close>

datatype fault = NullDeref | OutOfBounds | UseAfterFree | AssertFailed

datatype 'a outcome = Done 'a | Fault fault

fun outcome_bind :: "'a outcome \<Rightarrow> ('a \<Rightarrow> 'b outcome) \<Rightarrow> 'b outcome" where
  "outcome_bind (Done x) f = f x"
| "outcome_bind (Fault e) f = Fault e"

lemma outcome_bind_Done [simp]:
  "outcome_bind m f = Done y \<longleftrightarrow> (\<exists>x. m = Done x \<and> f x = Done y)"
  by (cases m) auto

text \<open>The result of an execution that is known to be defined.\<close>

definition outcome_ok :: "'a outcome \<Rightarrow> bool" where
  "outcome_ok r = (case r of Done _ \<Rightarrow> True | Fault _ \<Rightarrow> False)"

definition outcome_the :: "'a \<Rightarrow> 'a outcome \<Rightarrow> 'a" where
  "outcome_the d r = (case r of Done x \<Rightarrow> x | Fault _ \<Rightarrow> d)"

lemma outcome_done: "outcome_ok r \<Longrightarrow> r = Done (outcome_the d r)"
  by (cases r) (simp_all add: outcome_ok_def outcome_the_def)

subsection \<open>Strings and byte arrays\<close>

type_synonym bytes = "char list"
type_synonym host_id = string
type_synonym time_ms = int

definition cstr :: "string \<Rightarrow> string" where
  "cstr s = takeWhile (\<lambda>c. c \<noteq> CHR 0x00) s"

lemma cstr_id [simp]: "CHR 0x00 \<notin> set s \<Longrightarrow> cstr s = s"
  by (auto simp: cstr_def takeWhile_eq_all_conv)

text \<open>\<open>std::string::find\<close> and \<open>rfind\<close> of one character; \<open>None\<close> is \<open>npos\<close>.\<close>

fun str_find :: "char \<Rightarrow> string \<Rightarrow> nat option" where
  "str_find c [] = None"
| "str_find c (x # xs) = (if x = c then Some 0 else map_option Suc (str_find c xs))"

fun str_rfind :: "char \<Rightarrow> string \<Rightarrow> nat option" where
  "str_rfind c [] = None"
| "str_rfind c (x # xs) =
     (case str_rfind c xs of Some i \<Rightarrow> Some (Suc i) | None \<Rightarrow> if x = c then Some 0 else None)"

text \<open>\<open>std::search\<close> and \<open>find\<close> of a string: what is before and from the first occurrence.\<close>

fun str_search :: "string \<Rightarrow> string \<Rightarrow> (string \<times> string) option" where
  "str_search pat [] = (if pat = [] then Some ([], []) else None)"
| "str_search pat (c # s) =
     (if take (length pat) (c # s) = pat then Some ([], c # s)
      else map_option (\<lambda>(a, b). (c # a, b)) (str_search pat s))"

lemma str_find_None [simp]: "str_find c s = None \<longleftrightarrow> c \<notin> set s"
  by (induction s) auto

lemma str_find_notin [simp]: "c \<notin> set s \<Longrightarrow> str_find c s = None"
  by simp

lemma str_rfind_None [simp]: "str_rfind c s = None \<longleftrightarrow> c \<notin> set s"
  by (induction s) (auto split: option.splits)

lemma str_rfind_notin [simp]: "c \<notin> set s \<Longrightarrow> str_rfind c s = None"
  by simp

lemma str_find_Some:
  "str_find c s = Some i \<longleftrightarrow> i < length s \<and> s ! i = c \<and> c \<notin> set (take i s)"
proof (induction s arbitrary: i)
  case (Cons x xs)
  then show ?case by (cases i) auto
qed simp

lemma str_find_append: "c \<notin> set s \<Longrightarrow> str_find c (s @ c # t) = Some (length s)"
  by (induction s) auto

lemma str_rfind_append: "c \<notin> set t \<Longrightarrow> str_rfind c (s @ c # t) = Some (length s)"
  by (induction s) (auto split: option.split simp flip: str_rfind_None)

lemma takeWhile_notin [simp]: "c \<notin> set xs \<Longrightarrow> takeWhile (\<lambda>x. x \<noteq> c) xs = xs"
  by (induction xs) auto

lemma takeWhile_not_in: "c \<notin> set xs \<Longrightarrow> takeWhile (\<lambda>x. x \<noteq> c) (xs @ c # ys) = xs"
  by (induction xs) auto

lemma dropWhile_not_in: "c \<notin> set xs \<Longrightarrow> dropWhile (\<lambda>x. x \<noteq> c) (xs @ c # ys) = c # ys"
  by (induction xs) auto

subsection \<open>\<open>std::map\<close> as a sorted association list\<close>

type_synonym ('k, 'v) smap = "('k \<times> 'v) list"

fun sm_insert :: "'k::linorder \<Rightarrow> 'v \<Rightarrow> ('k, 'v) smap \<Rightarrow> ('k, 'v) smap" where
  "sm_insert k v [] = [(k, v)]"
| "sm_insert k v ((k', v') # m) =
     (if k < k' then (k, v) # (k', v') # m
      else if k = k' then (k, v) # m
      else (k', v') # sm_insert k v m)"

definition sm_erase :: "'k \<Rightarrow> ('k, 'v) smap \<Rightarrow> ('k, 'v) smap" where
  "sm_erase k m = filter (\<lambda>p. fst p \<noteq> k) m"

definition sm_ok :: "('k::linorder, 'v) smap \<Rightarrow> bool" where
  "sm_ok m \<longleftrightarrow> sorted_wrt (<) (map fst m)"

lemma map_of_sm_insert [simp]: "map_of (sm_insert k v m) = (map_of m)(k \<mapsto> v)"
  by (induction k v m rule: sm_insert.induct) (auto simp: fun_eq_iff)

lemma map_of_sm_erase [simp]: "map_of (sm_erase k m) = (map_of m)(k := None)"
  by (induction m) (auto simp: sm_erase_def fun_eq_iff)

lemma keys_sm_insert: "fst ` set (sm_insert k v m) = insert k (fst ` set m)"
  by (induction k v m rule: sm_insert.induct) auto

lemma sm_ok_Nil [simp, intro]: "sm_ok []"
  by (simp add: sm_ok_def)

lemma sm_ok_Cons [simp]: "sm_ok ((k, v) # m) \<longleftrightarrow> (\<forall>j \<in> fst ` set m. k < j) \<and> sm_ok m"
  by (auto simp: sm_ok_def)

lemma sm_ok_insert [simp, intro]: "sm_ok m \<Longrightarrow> sm_ok (sm_insert k v m)"
  by (induction k v m rule: sm_insert.induct) (simp_all add: keys_sm_insert, fastforce)

lemma sm_ok_filter [simp, intro]: "sm_ok m \<Longrightarrow> sm_ok (filter P m)"
  by (auto simp: sm_ok_def sorted_wrt_map sorted_wrt_filter)

lemma sm_ok_erase [simp, intro]: "sm_ok m \<Longrightarrow> sm_ok (sm_erase k m)"
  by (simp add: sm_erase_def)

lemma sm_ok_distinct: "sm_ok m \<Longrightarrow> distinct (map fst m)"
  by (auto simp: sm_ok_def strict_sorted_iff)

lemma sm_lookup: "sm_ok m \<Longrightarrow> map_of m k = Some v \<longleftrightarrow> (k, v) \<in> set m"
  by (simp add: sm_ok_distinct)

lemma sm_erase_Nil [simp]: "sm_erase k [] = []"
  by (simp add: sm_erase_def)

lemma sm_erase_empty_iff: "sm_erase k m = [] \<longleftrightarrow> (\<forall>j. j \<noteq> k \<longrightarrow> map_of m j = None)"
proof -
  have "sm_erase k m = [] \<longleftrightarrow> (\<forall>p \<in> set m. fst p = k)"
    by (simp add: sm_erase_def filter_empty_conv)
  then show ?thesis by (auto simp: map_of_eq_None_iff)
qed

text \<open>\<open>rbegin\<close> of a non-empty map is the entry of the largest key.\<close>

lemma sm_last_max:
  assumes "sm_ok m" and "map_of m k = Some v"
  shows "k \<le> fst (last m)"
proof -
  from assms have "(k, v) \<in> set m" by (simp add: sm_lookup)
  then obtain i where i: "i < length m" "m ! i = (k, v)" by (auto simp: in_set_conv_nth)
  have "sorted (map fst m)" using assms(1) by (simp add: sm_ok_def strict_sorted_iff)
  then have "map fst m ! i \<le> map fst m ! (length m - 1)"
    using i by (intro sorted_nth_mono) auto
  moreover have "m \<noteq> []" using i by auto
  ultimately show ?thesis using i by (simp add: last_conv_nth)
qed

lemma sm_last_lookup:
  "sm_ok m \<Longrightarrow> m \<noteq> [] \<Longrightarrow> map_of m (fst (last m)) = Some (snd (last m))"
  by (simp add: sm_lookup)

end
