(* ===== verification/Sf_Path.thy ===== *)
theory Sf_Path
  imports Sf_Prelude
begin

text \<open>
  \<open>Path\<close> and \<open>Uri\<close> (\<open>libschnee/schnee/tools/Path.h\<close>, \<open>Path.cpp\<close>, \<open>Uri.h\<close>,
  \<open>Uri.cpp\<close>): the names under which data is shared and requested.  Both are keys of
  \<open>std::map\<close>, so their \<open>operator<\<close> is made the \<open>linorder\<close> of the type.
\<close>

subsection \<open>Paths\<close>

datatype path = Path (mPath: string)

definition path_empty :: "path \<Rightarrow> bool" where
  "path_empty p \<longleftrightarrow> mPath p = []"

definition path_isDefault :: "path \<Rightarrow> bool" where
  "path_isDefault p \<longleftrightarrow> mPath p = []"

definition path_head :: "path \<Rightarrow> string" where
  "path_head p =
     (case str_find (CHR ''/'') (mPath p) of
        None \<Rightarrow> mPath p
      | Some i \<Rightarrow> take i (mPath p))"

definition path_tail :: "path \<Rightarrow> string" where
  "path_tail p =
     (case str_rfind (CHR ''/'') (mPath p) of
        None \<Rightarrow> mPath p
      | Some i \<Rightarrow> drop (i + 1) (mPath p))"

definition path_hasSubPath :: "path \<Rightarrow> bool" where
  "path_hasSubPath p \<longleftrightarrow> str_find (CHR ''/'') (mPath p) \<noteq> None"

definition path_subPath :: "path \<Rightarrow> path" where
  "path_subPath p =
     (case str_find (CHR ''/'') (mPath p) of
        None \<Rightarrow> Path []
      | Some i \<Rightarrow> Path (drop (i + 1) (mPath p)))"

text \<open>
  \<open>boost::replace_all (s, "//", "/")\<close>: every occurrence found from left to right in the
  input is replaced; what a replacement produces is not searched again.
\<close>

fun replace_slashes :: "string \<Rightarrow> string" where
  "replace_slashes (c # d # s) =
     (if c = CHR ''/'' \<and> d = CHR ''/'' then CHR ''/'' # replace_slashes s
      else c # replace_slashes (d # s))"
| "replace_slashes s = s"

definition path_shrink :: "path \<Rightarrow> path" where
  "path_shrink p = Path (replace_slashes (mPath p))"

definition path_removeTrailingSlashes :: "path \<Rightarrow> path" where
  "path_removeTrailingSlashes p =
     (let c = length (takeWhile (\<lambda>x. x = CHR ''/'') (rev (mPath p)))
      in Path (take (length (mPath p) - c) (mPath p)))"

fun strip_dots :: "string \<Rightarrow> string" where
  "strip_dots s =
     (if 2 \<le> length s \<and> s ! (length s - 2) = CHR ''/'' \<and> s ! (length s - 1) = CHR ''.''
      then strip_dots (take (length s - 2) s) else s)"

declare strip_dots.simps [simp del]

definition path_normalize :: "path \<Rightarrow> path" where
  "path_normalize p =
     Path (strip_dots (mPath (path_removeTrailingSlashes (path_shrink p))))"

definition path_plus :: "path \<Rightarrow> path \<Rightarrow> path" where
  "path_plus a b = path_shrink (Path (mPath a @ ''/'' @ mPath b))"

definition path_lt :: "path \<Rightarrow> path \<Rightarrow> bool" where
  "path_lt p q \<longleftrightarrow> mPath p < mPath q"

instantiation path :: linorder
begin

definition less_path :: "path \<Rightarrow> path \<Rightarrow> bool" where
  "less_path p q \<longleftrightarrow> path_lt p q"

definition less_eq_path :: "path \<Rightarrow> path \<Rightarrow> bool" where
  "less_eq_path p q \<longleftrightarrow> mPath p \<le> mPath q"

instance
  by standard (auto simp: less_path_def path_lt_def less_eq_path_def path.expand)

end

lemma path_head_takeWhile: "path_head p = takeWhile (\<lambda>c. c \<noteq> CHR ''/'') (mPath p)"
proof (cases "str_find (CHR ''/'') (mPath p)")
  case None
  then show ?thesis by (simp add: path_head_def)
next
  case (Some i)
  then have i: "i < length (mPath p)" "mPath p ! i = CHR ''/''" "CHR ''/'' \<notin> set (take i (mPath p))"
    by (auto simp: str_find_Some)
  then have "mPath p = take i (mPath p) @ CHR ''/'' # drop (Suc i) (mPath p)"
    by (metis id_take_nth_drop)
  with i(3) have "takeWhile (\<lambda>c. c \<noteq> CHR ''/'') (mPath p) = take i (mPath p)"
    by (metis takeWhile_not_in)
  with Some show ?thesis by (simp add: path_head_def)
qed

lemma path_split:
  "mPath p = (if path_hasSubPath p then path_head p @ ''/'' @ mPath (path_subPath p)
              else path_head p)"
proof (cases "str_find (CHR ''/'') (mPath p)")
  case (Some i)
  then have "i < length (mPath p)" "mPath p ! i = CHR ''/''" by (auto simp: str_find_Some)
  then have "mPath p = take i (mPath p) @ CHR ''/'' # drop (Suc i) (mPath p)"
    by (metis id_take_nth_drop)
  with Some show ?thesis by (simp add: path_head_def path_subPath_def path_hasSubPath_def)
qed (simp add: path_head_def path_hasSubPath_def)

lemma path_head_no_slash: "CHR ''/'' \<notin> set (path_head p)"
  by (auto simp: path_head_takeWhile dest: set_takeWhileD)

lemma path_hasSubPath_iff: "path_hasSubPath p \<longleftrightarrow> CHR ''/'' \<in> set (mPath p)"
  by (simp add: path_hasSubPath_def)

lemma path_subPath_none: "\<not> path_hasSubPath p \<Longrightarrow> path_subPath p = Path []"
  by (auto simp: path_hasSubPath_def path_subPath_def)

text \<open>Adding a path below a share name is undone by \<open>head\<close> and \<open>subPath\<close>.\<close>

lemma replace_slashes_Cons: "c \<noteq> CHR ''/'' \<Longrightarrow> replace_slashes (c # s) = c # replace_slashes s"
  by (cases s) auto

lemma replace_slashes_prefix:
  "CHR ''/'' \<notin> set a \<Longrightarrow> replace_slashes (a @ s) = a @ replace_slashes s"
  by (induction a) (auto simp: replace_slashes_Cons)

lemma replace_slashes_hd: "replace_slashes (CHR ''/'' # s) = CHR ''/'' # replace_slashes
   (if s \<noteq> [] \<and> hd s = CHR ''/'' then tl s else s)"
  by (cases s) auto

definition has_double :: "string \<Rightarrow> bool" where
  "has_double s \<longleftrightarrow> (\<exists>u v. s = u @ ''//'' @ v)"

definition has_triple :: "string \<Rightarrow> bool" where
  "has_triple s \<longleftrightarrow> (\<exists>u v. s = u @ ''///'' @ v)"

lemma has_double_Cons:
  "has_double (c # s) \<longleftrightarrow> (c = CHR ''/'' \<and> s \<noteq> [] \<and> hd s = CHR ''/'') \<or> has_double s"
  by (auto simp: has_double_def Cons_eq_append_conv neq_Nil_conv) (metis append_Cons append_Nil)+

lemma has_triple_Cons: "has_triple s \<Longrightarrow> has_triple (c # s)"
  unfolding has_triple_def by (metis append_Cons)

lemma has_triple_hd: "has_triple (CHR ''/'' # CHR ''/'' # CHR ''/'' # s)"
  unfolding has_triple_def by (metis append_Cons append_Nil)

lemma hd_replace_slashes: "s \<noteq> [] \<Longrightarrow> replace_slashes s \<noteq> [] \<and> hd (replace_slashes s) = hd s"
  by (induction s rule: replace_slashes.induct) auto

lemma replace_slashes_no_double: "\<not> has_triple s \<Longrightarrow> \<not> has_double (replace_slashes s)"
proof (induction s rule: replace_slashes.induct)
  case (1 c d s)
  show ?case
  proof (cases "c = CHR ''/'' \<and> d = CHR ''/''")
    case True
    with 1 have nt: "\<not> has_triple s" and hd: "s = [] \<or> hd s \<noteq> CHR ''/''"
      by (auto dest: has_triple_Cons simp: neq_Nil_conv) (metis has_triple_hd hd_Cons_tl)
    with 1 True show ?thesis
      by (cases "s = []") (auto simp: has_double_Cons hd_replace_slashes)
  next
    case False
    with 1 show ?thesis
      using hd_replace_slashes [of "d # s"] has_triple_Cons [of "d # s" c]
      by (auto simp: has_double_Cons)
  qed
qed (auto simp: has_double_def)

lemma replace_slashes_id: "\<not> has_double s \<Longrightarrow> replace_slashes s = s"
  by (induction s rule: replace_slashes.induct) (auto simp: has_double_Cons)

lemma removeTrailing_last:
  "mPath (path_removeTrailingSlashes p) \<noteq> [] \<Longrightarrow>
     last (mPath (path_removeTrailingSlashes p)) \<noteq> CHR ''/''"
proof -
  assume ne: "mPath (path_removeTrailingSlashes p) \<noteq> []"
  let ?r = "rev (mPath p)"
  have "mPath (path_removeTrailingSlashes p) = rev (dropWhile (\<lambda>x. x = CHR ''/'') ?r)"
    by (simp add: path_removeTrailingSlashes_def Let_def dropWhile_eq_drop rev_drop)
  with ne show ?thesis
    using hd_dropWhile [of "\<lambda>x. x = CHR ''/''" ?r] by (auto simp: last_rev)
qed

text \<open>The loop of \<open>normalize\<close> leaves a path that does not end in \<open>/.\<close>.\<close>

lemma strip_dots_end: "\<not> (\<exists>u. strip_dots s = u @ ''/.'')"
proof (induction s rule: strip_dots.induct)
  case (1 s)
  show ?case
  proof (cases "2 \<le> length s \<and> s ! (length s - 2) = CHR ''/'' \<and> s ! (length s - 1) = CHR ''.''")
    case True
    then have "strip_dots s = strip_dots (take (length s - 2) s)"
      by (subst strip_dots.simps) simp
    with 1 [OF True] show ?thesis by simp
  next
    case False
    then have "strip_dots s = s" by (subst strip_dots.simps) auto
    with False show ?thesis by (auto simp: nth_append)
  qed
qed

lemma path_plus_head:
  "CHR ''/'' \<notin> set (mPath a) \<Longrightarrow> path_head (path_plus a b) = mPath a"
  by (simp add: path_plus_def path_shrink_def path_head_takeWhile replace_slashes_prefix
      replace_slashes_hd takeWhile_not_in)

lemma path_plus_subPath:
  assumes "CHR ''/'' \<notin> set (mPath a)" and "mPath b = [] \<or> hd (mPath b) \<noteq> CHR ''/''"
  shows "path_subPath (path_plus a b) = path_shrink b"
proof -
  have "mPath (path_plus a b) = mPath a @ CHR ''/'' # replace_slashes (mPath b)"
    using assms by (auto simp: path_plus_def path_shrink_def replace_slashes_prefix replace_slashes_hd)
  then show ?thesis
    using assms by (simp add: path_subPath_def str_find_append path_shrink_def)
qed

subsection \<open>Uris\<close>

text \<open>
  \<open>sf:Host:Path\<close>.  \<open>uri_set\<close> is \<open>Uri::set (const char *)\<close>: \<open>None\<close> is the null
  pointer; leading blanks and a leading \<open>sf:\<close> are skipped, the first colon of the rest
  ends the host.  \<open>uri_set_host\<close> is \<open>Uri::set (const char * host, const Path &)\<close>, which
  refuses a host with a colon and then leaves host and path of the object as they were.
\<close>

datatype uri = Uri (u_host: string) (u_path: path) (u_valid: bool)

definition uri_set :: "string option \<Rightarrow> bool \<times> uri" where
  "uri_set init =
     (case init of
        None \<Rightarrow> (False, Uri [] (Path []) False)
      | Some s \<Rightarrow>
          (let s1 = dropWhile (\<lambda>c. c = CHR '' '') (cstr s);
               s2 = (if 3 \<le> length s1 \<and> take 3 s1 = ''sf:'' then drop 3 s1 else s1)
           in case str_find (CHR '':'') s2 of
                None \<Rightarrow> (True, Uri [] (Path s2) True)
              | Some i \<Rightarrow> (True, Uri (take i s2) (Path (drop (i + 1) s2)) True)))"

definition uri_set_host :: "uri \<Rightarrow> string option \<Rightarrow> path \<Rightarrow> bool \<times> uri" where
  "uri_set_host u host p =
     (case host of
        None \<Rightarrow> (False, Uri [] (Path []) False)
      | Some h \<Rightarrow>
          if CHR '':'' \<in> set (cstr h) then (False, Uri (u_host u) (u_path u) False)
          else (True, Uri (cstr h) p True))"

definition uri_make :: "string \<Rightarrow> path \<Rightarrow> uri" where
  "uri_make h p = snd (uri_set_host (Uri [] (Path []) False) (Some h) p)"

definition uri_isDefault :: "uri \<Rightarrow> bool" where
  "uri_isDefault u \<longleftrightarrow> u = snd (uri_set None)"

definition uri_setHost :: "string \<Rightarrow> uri \<Rightarrow> uri" where
  "uri_setHost h u = Uri h (u_path u) (u_valid u)"

definition uri_setDefaultHost :: "string \<Rightarrow> uri \<Rightarrow> uri" where
  "uri_setDefaultHost h u = (if u_host u = [] then Uri h (u_path u) (u_valid u) else u)"

definition uri_toString :: "uri \<Rightarrow> string" where
  "uri_toString u = ''sf:'' @ u_host u @ '':'' @ mPath (u_path u)"

definition uri_lt :: "uri \<Rightarrow> uri \<Rightarrow> bool" where
  "uri_lt u v \<longleftrightarrow>
     (if \<not> u_valid u \<and> u_valid v then True
      else if u_valid u = u_valid v then
        (if u_host u < u_host v then True
         else if u_host u = u_host v then u_path u < u_path v
         else False)
      else False)"

instantiation uri :: linorder
begin

definition less_uri :: "uri \<Rightarrow> uri \<Rightarrow> bool" where
  "less_uri u v \<longleftrightarrow> uri_lt u v"

definition less_eq_uri :: "uri \<Rightarrow> uri \<Rightarrow> bool" where
  "less_eq_uri u v \<longleftrightarrow> uri_lt u v \<or> u = v"

instance
proof
  fix u v w :: uri
  show "u < v \<longleftrightarrow> u \<le> v \<and> \<not> v \<le> u"
    by (cases u; cases v) (auto simp: less_uri_def less_eq_uri_def uri_lt_def)
  show "u \<le> u" by (simp add: less_eq_uri_def)
  show "u \<le> v \<Longrightarrow> v \<le> w \<Longrightarrow> u \<le> w"
    by (cases u; cases v; cases w) (auto simp: less_eq_uri_def uri_lt_def split: if_splits)
  show "u \<le> v \<Longrightarrow> v \<le> u \<Longrightarrow> u = v"
    by (cases u; cases v) (auto simp: less_eq_uri_def uri_lt_def split: if_splits)
  show "u \<le> v \<or> v \<le> u"
    by (cases u; cases v) (auto simp: less_eq_uri_def uri_lt_def)
qed

end

lemma uri_make_inj:
  assumes "CHR '':'' \<notin> set h" "CHR 0x00 \<notin> set h"
  shows "uri_make h p = Uri h p True"
  using assms by (simp add: uri_make_def uri_set_host_def)

text \<open>A well-formed Uri is read back unchanged from its formatted form.\<close>

lemma uri_roundtrip:
  assumes "CHR '':'' \<notin> set (u_host u)" and "CHR 0x00 \<notin> set (u_host u) \<union> set (mPath (u_path u))"
    and "u_valid u"
  shows "uri_set (Some (uri_toString u)) = (True, u)"
proof -
  have "cstr (uri_toString u) = ''sf:'' @ u_host u @ '':'' @ mPath (u_path u)"
    using assms(2) by (simp add: uri_toString_def)
  then show ?thesis
    using assms(1,3) by (cases u) (simp add: uri_set_def str_find_append)
qed

lemma uri_roundtrip_witness:
  "uri_set (Some (uri_toString (Uri ''bob/x'' (Path ''a/b'') True))) =
     (True, Uri ''bob/x'' (Path ''a/b'') True)"
  by (rule uri_roundtrip) simp_all

end
