(* ===== verification/Sf_Bytes.thy ===== *)
theory Sf_Bytes
  imports Sf_Prelude
begin

unbundle bit_operations_syntax

text \<open>
  \<open>ByteArray\<close> (\<open>libschnee/schnee/tools/ByteArray.h\<close>, \<open>ByteArray.cpp\<close>) and the Base64 codec
  (\<open>tools/Base64.cpp\<close>).  The codec works on octets: \<open>b8\<close> reads a character as an 8 bit
  word, \<open>ch8\<close> goes back.  The decoder walks the input with an index, as the code does, so
  that its reads past the end of the string are visible as \<open>Fault OutOfBounds\<close>.
\<close>

subsection \<open>Byte arrays\<close>

definition ba_append :: "bytes \<Rightarrow> bytes \<Rightarrow> bytes" where
  "ba_append b other = b @ other"

text \<open>\<open>truncate\<close> is \<open>resize\<close>: it cuts, or pads with NUL.\<close>

definition ba_truncate :: "nat \<Rightarrow> bytes \<Rightarrow> bytes" where
  "ba_truncate pos b = take pos b @ replicate (pos - length b) (CHR 0x00)"

definition ba_l_truncate :: "nat \<Rightarrow> bytes \<Rightarrow> bytes outcome" where
  "ba_l_truncate pos b = (if pos \<le> length b then Done (drop pos b) else Fault AssertFailed)"

fun ba_printable :: "bytes \<Rightarrow> bool" where
  "ba_printable [] = True"
| "ba_printable (c # r) =
     (if c = CHR 0x09 \<or> c = CHR 0x0A \<or> c = CHR 0x0D then ba_printable r
      else if c = CHR 0x00 \<and> r = [] then ba_printable r
      else if of_char c < (0x20::nat) then False
      else ba_printable r)"

subsection \<open>Octets\<close>

definition b8 :: "char \<Rightarrow> 8 word" where
  "b8 c = word_of_nat (of_char c)"

definition ch8 :: "8 word \<Rightarrow> char" where
  "ch8 w = char_of (unat w)"

lemma ch8_b8 [simp]: "ch8 (b8 c) = c"
  by (simp add: ch8_def b8_def unat_of_nat)

lemma unat_octet: "unat (w :: 8 word) < 256"
  by (rule order_less_le_trans [OF unsigned_less]) simp

lemma b8_ch8 [simp]: "b8 (ch8 w) = w"
  by (simp add: ch8_def b8_def unat_octet)

subsection \<open>Base64\<close>

definition Base64Table :: string where
  "Base64Table = ''ABCDEFGHIJKLMNOPQRSTUVWXYZabcdefghijklmnopqrstuvwxyz0123456789+/''"

definition fillchar :: char where
  "fillchar = CHR ''=''"

text \<open>\<open>static_cast<char> (np)\<close>: all bits of \<open>npos\<close> set, cut to one octet.\<close>

definition np8 :: "8 word" where
  "np8 = 0xFF"

definition DecodeTable :: "char \<Rightarrow> 8 word" where
  "DecodeTable c =
     (let n = of_char c :: nat
      in if n = 43 then 62 else if n = 47 then 63
         else if 48 \<le> n \<and> n \<le> 57 then word_of_nat (n - 48 + 52)
         else if 65 \<le> n \<and> n \<le> 90 then word_of_nat (n - 65)
         else if 97 \<le> n \<and> n \<le> 122 then word_of_nat (n - 97 + 26)
         else np8)"

definition b64_char :: "8 word \<Rightarrow> char" where
  "b64_char w = Base64Table ! unat w"

fun b64_encode :: "bytes \<Rightarrow> string" where
  "b64_encode [] = []"
| "b64_encode [x] =
     [b64_char (drop_bit 2 (b8 x) AND 0x3f),
      b64_char (push_bit 4 (b8 x) AND 0x3f), fillchar, fillchar]"
| "b64_encode [x, y] =
     [b64_char (drop_bit 2 (b8 x) AND 0x3f),
      b64_char ((push_bit 4 (b8 x) AND 0x3f) OR (drop_bit 4 (b8 y) AND 0x0f)),
      b64_char (push_bit 2 (b8 y) AND 0x3f), fillchar]"
| "b64_encode (x # y # z # r) =
     [b64_char (drop_bit 2 (b8 x) AND 0x3f),
      b64_char ((push_bit 4 (b8 x) AND 0x3f) OR (drop_bit 4 (b8 y) AND 0x0f)),
      b64_char ((push_bit 2 (b8 y) AND 0x3f) OR (drop_bit 6 (b8 z) AND 0x03)),
      b64_char (b8 z AND 0x3f)] @ b64_encode r"

text \<open>The three copies of the encoder in the class: from a C array, a \<open>ByteArray\<close>, a string.\<close>

definition b64_encodeFromCArray :: "bytes \<Rightarrow> nat \<Rightarrow> string" where
  "b64_encodeFromCArray data len = b64_encode (take len data)"

definition b64_encodeFromArray :: "bytes \<Rightarrow> string" where
  "b64_encodeFromArray data = b64_encode data"

text \<open>
  The decoder.  \<open>b64_skip\<close> is \<open>do c = DecodeTable[data[i]] while (c == np && ++i < len)\<close>; it
  is entered with \<open>i < len\<close> and leaves with \<open>i = len\<close> only when \<open>c\<close> is still \<open>np\<close>.
  Reading \<open>data[len]\<close> of a \<open>const string\<close> gives NUL, one further is undefined.
  The second and the fourth \<open>do\<close> loop test \<open>c\<close> where they mean \<open>c1\<close>: they read once, as
  \<open>c = np\<close> there implies that \<open>i\<close> has already passed the end.
\<close>

function b64_skip :: "string \<Rightarrow> nat \<Rightarrow> 8 word \<times> nat" where
  "b64_skip d i =
     (let c = DecodeTable (d ! i)
      in if c \<noteq> np8 then (c, i)
         else if i + 1 < length d then b64_skip d (i + 1)
         else (c, i + 1))"
  by pat_completeness auto
termination
  by (relation "measure (\<lambda>(d, i). length d - i)") auto

declare b64_skip.simps [simp del]

definition b64_at :: "string \<Rightarrow> nat \<Rightarrow> 8 word outcome" where
  "b64_at d i =
     (if i < length d then Done (DecodeTable (d ! i))
      else if i = length d then Done (DecodeTable (CHR 0x00))
      else Fault OutOfBounds)"

lemma b64_skip_ge: "i \<le> snd (b64_skip d i)"
proof (induction d i rule: b64_skip.induct)
  case (1 d i)
  then show ?case by (subst b64_skip.simps) (auto simp: Let_def)
qed

function b64_decode_from :: "string \<Rightarrow> nat \<Rightarrow> bytes \<Rightarrow> bytes outcome" where
  "b64_decode_from d i ret =
     (if i < length d then
        (let c = fst (b64_skip d i); i1 = snd (b64_skip d i) + 1
         in case b64_at d i1 of
              Fault e \<Rightarrow> Fault e
            | Done c1 \<Rightarrow>
                (let ret1 = ret @ [ch8 (push_bit 2 c OR (drop_bit 4 c1 AND 3))]; i2 = i1 + 1
                 in if i2 < length d then
                      (if d ! i2 = fillchar then Done ret1
                       else let c2 = fst (b64_skip d i2); i3 = snd (b64_skip d i2) + 1;
                                ret2 = ret1 @ [ch8 ((push_bit 4 c1 AND 0xf0) OR (drop_bit 2 c2 AND 0xf))]
                            in if i3 < length d then
                                 (if d ! i3 = fillchar then Done ret2
                                  else b64_decode_from d (i3 + 1)
                                         (ret2 @ [ch8 ((push_bit 6 c2 AND 0xc0) OR DecodeTable (d ! i3))]))
                               else Done ret2)
                    else Done ret1))
      else Done ret)"
  by pat_completeness auto
termination
proof (relation "measure (\<lambda>(d, i, ret). length d - i)", goal_cases)
  case 1
  show ?case by simp
next
  case (2 d i ret c i1 c1 ret1 i2 c2 i3 ret2)
  then have "i < i3" using b64_skip_ge [of i d] b64_skip_ge [of i2 d] by simp
  with 2 show ?case by simp
qed

declare b64_decode_from.simps [simp del]

definition b64_decode :: "string \<Rightarrow> bytes outcome" where
  "b64_decode data = b64_decode_from data 0 []"

definition b64_decodeToArray :: "string \<Rightarrow> bytes outcome" where
  "b64_decodeToArray data = b64_decode_from data 0 []"

subsection \<open>The decoder undoes the encoder\<close>

lemma upt_64: "[0..<64] = [0, 1, 2, 3, 4, 5, 6, 7, 8, 9, 10, 11, 12, 13, 14, 15, 16, 17, 18, 19,
   20, 21, 22, 23, 24, 25, 26, 27, 28, 29, 30, 31, 32, 33, 34, 35, 36, 37, 38, 39,
   40, 41, 42, 43, 44, 45, 46, 47, 48, 49, 50, 51, 52, 53, 54, 55, 56, 57, 58, 59,
   60, 61, 62, 63]"
  by code_simp

lemma table_inverse: "map DecodeTable Base64Table = map word_of_nat [0..<64]"
  by (simp add: Base64Table_def DecodeTable_def Let_def upt_64)

lemma length_table: "length Base64Table = 64"
  by (simp add: Base64Table_def)

lemma fillchar_not_in_table: "fillchar \<notin> set Base64Table"
  by (simp add: Base64Table_def fillchar_def)

lemma sextet:
  assumes "unat w < 64"
  shows "DecodeTable (b64_char w) = w" "b64_char w \<noteq> fillchar" "w \<noteq> np8"
proof -
  have "map DecodeTable Base64Table ! unat w = map word_of_nat [0..<64] ! unat w"
    by (simp only: table_inverse)
  with assms show "DecodeTable (b64_char w) = w"
    by (simp add: b64_char_def length_table)
  show "b64_char w \<noteq> fillchar"
    using assms nth_mem [of "unat w" Base64Table] fillchar_not_in_table
    by (metis b64_char_def length_table)
  show "w \<noteq> np8" using assms by (auto simp: np8_def)
qed

lemma and_masks:
  "(x :: 8 word) AND 0x3f = take_bit 6 x" "x AND 0xf = take_bit 4 x" "x AND 3 = take_bit 2 x"
  by (simp_all add: take_bit_eq_mask mask_eq_exp_minus_1)

lemma high_masks:
  "push_bit 4 (x :: 8 word) AND 0xf0 = push_bit 4 x" "push_bit 6 x AND 0xc0 = push_bit 6 x"
  "(push_bit 4 x OR push_bit 4 y) AND 0xf0 = push_bit 4 x OR push_bit 4 y"
  "(push_bit 6 x OR push_bit 6 y) AND 0xc0 = push_bit 6 x OR push_bit 6 y"
proof -
  have m: "0xf0 = push_bit 4 (mask 4 :: 8 word)" "0xc0 = push_bit 6 (mask 2 :: 8 word)"
    by (simp_all add: mask_eq_exp_minus_1 push_bit_eq_mult)
  show "push_bit 4 x AND 0xf0 = push_bit 4 x"
    unfolding m by (rule bit_word_eqI) (auto simp: bit_simps)
  show "push_bit 6 x AND 0xc0 = push_bit 6 x"
    unfolding m by (rule bit_word_eqI) (auto simp: bit_simps)
  show "(push_bit 4 x OR push_bit 4 y) AND 0xf0 = push_bit 4 x OR push_bit 4 y"
    unfolding m by (rule bit_word_eqI) (auto simp: bit_simps)
  show "(push_bit 6 x OR push_bit 6 y) AND 0xc0 = push_bit 6 x OR push_bit 6 y"
    unfolding m by (rule bit_word_eqI) (auto simp: bit_simps)
qed

lemma sextet_take:
  "unat (take_bit 6 (w :: 8 word)) < 64"
  "unat (take_bit 6 v OR take_bit 4 w :: 8 word) < 64"
  "unat (take_bit 6 v OR take_bit 2 w :: 8 word) < 64"
proof -
  have t: "unat (take_bit 6 (u :: 8 word)) < 64" for u
    by (simp add: unsigned_take_bit_eq) (rule less_le_trans [OF take_bit_nat_less_exp], simp)
  have "take_bit 6 v OR take_bit 4 w = take_bit 6 (take_bit 6 v OR take_bit 4 w)"
    "take_bit 6 v OR take_bit 2 w = take_bit 6 (take_bit 6 v OR take_bit 2 w)"
    by (simp_all add: take_bit_or)
  then show "unat (take_bit 6 v OR take_bit 4 w) < 64" "unat (take_bit 6 v OR take_bit 2 w) < 64"
    using t by metis+
  show "unat (take_bit 6 w) < 64" by (rule t)
qed

lemma Suc_Suc_minus_2: "2 \<le> n \<Longrightarrow> Suc (Suc (n - 2)) = n"
  by simp

lemma octets_from_sextets:
  "push_bit 2 (take_bit 6 (drop_bit 2 a)) OR
     take_bit 2 (drop_bit 4 (take_bit 6 (push_bit 4 a) OR take_bit 4 (drop_bit 4 b))) = (a :: 8 word)"
  "push_bit 2 (take_bit 6 (drop_bit 2 a)) OR
     take_bit 2 (drop_bit 4 (take_bit 6 (push_bit 4 a))) = (a :: 8 word)"
  "push_bit 4 (take_bit 6 (push_bit 4 a) OR take_bit 4 (drop_bit 4 b)) OR
     take_bit 4 (drop_bit 2 (take_bit 6 (push_bit 2 b) OR take_bit 2 (drop_bit 6 c))) = (b :: 8 word)"
  "push_bit 4 (take_bit 6 (push_bit 4 a) OR take_bit 4 (drop_bit 4 b)) OR
     take_bit 4 (drop_bit 2 (take_bit 6 (push_bit 2 b))) = (b :: 8 word)"
  "push_bit 6 (take_bit 6 (push_bit 2 b) OR take_bit 2 (drop_bit 6 c)) OR take_bit 6 c = (c :: 8 word)"
  by (rule bit_word_eqI; auto simp: bit_simps Suc_Suc_minus_2 not_less)+

lemmas b64_group = sextet sextet_take and_masks high_masks octets_from_sextets [simplified]
  b64_skip.simps [of "_ @ _"] nth_append b64_at_def

lemma b64_decode_from_encode:
  "b64_decode_from (pre @ b64_encode xs) (length pre) ret = Done (ret @ xs)"
proof (induction xs arbitrary: pre ret rule: b64_encode.induct)
  case 1
  show ?case by (simp add: b64_decode_from.simps)
next
  case (2 x)
  show ?case
    by (subst b64_decode_from.simps) (simp add: b64_group Let_def)
next
  case (3 x y)
  show ?case
    by (subst b64_decode_from.simps) (simp add: b64_group Let_def)
next
  case (4 x y z r)
  let ?e = "take 4 (b64_encode (x # y # z # r))"
  have "b64_decode_from (pre @ b64_encode (x # y # z # r)) (length pre) ret =
      b64_decode_from ((pre @ ?e) @ b64_encode r) (length (pre @ ?e)) (ret @ [x, y, z])"
    by (subst b64_decode_from.simps) (simp add: b64_group Let_def)
  also have "\<dots> = Done (ret @ [x, y, z] @ r)"
    using 4 [of "pre @ ?e" "ret @ [x, y, z]"] by simp
  finally show ?case by simp
qed

text \<open>C33. Decoding what the encoder produced gives the bytes back, with no undefined read.\<close>

lemma b64_roundtrip: "b64_decodeToArray (b64_encodeFromArray data) = Done data"
  using b64_decode_from_encode [of "[]" data "[]"]
  by (simp add: b64_decodeToArray_def b64_encodeFromArray_def)

lemma b64_decode_from_trailing:
  assumes "length xs mod 3 = 0" and "DecodeTable c = np8"
  shows "b64_decode_from (pre @ b64_encode xs @ [c]) (length pre) ret = Fault OutOfBounds"
  using assms(1)
proof (induction xs arbitrary: pre ret rule: b64_encode.induct)
  case 1
  show ?case using assms(2)
    by (subst b64_decode_from.simps) (simp add: b64_skip.simps b64_at_def)
next
  case (4 x y z r)
  let ?e = "take 4 (b64_encode (x # y # z # r))"
  have "b64_decode_from (pre @ b64_encode (x # y # z # r) @ [c]) (length pre) ret =
      b64_decode_from ((pre @ ?e) @ b64_encode r @ [c]) (length (pre @ ?e)) (ret @ [x, y, z])"
    by (subst b64_decode_from.simps) (simp add: b64_group Let_def)
  also have "\<dots> = Fault OutOfBounds"
    using 4 by (intro "4.IH") simp
  finally show ?case .
qed simp_all

text \<open>
  A single character that is not of the alphabet after a complete text without padding, such
  as the newline many encoders append, makes the decoder read past the end of its input.
\<close>

lemma b64_trailing_newline:
  assumes "length data mod 3 = 0" and "DecodeTable c = np8"
  shows "b64_decodeToArray (b64_encodeFromArray data @ [c]) = Fault OutOfBounds"
  using b64_decode_from_trailing [OF assms, of "[]" "[]"]
  by (simp add: b64_decodeToArray_def b64_encodeFromArray_def)

lemma b64_trailing_newline_witness: "b64_decodeToArray (''QUJD'' @ [CHR 0x0A]) = Fault OutOfBounds"
proof -
  have "b64_encodeFromArray ''ABC'' = ''QUJD''" by code_simp
  moreover have "DecodeTable (CHR 0x0A) = np8" by (simp add: DecodeTable_def np8_def)
  ultimately show ?thesis using b64_trailing_newline [of "''ABC''" "CHR 0x0A"] by simp
qed

end
