(* ===== verification/Sf_Datagram.thy ===== *)
theory Sf_Datagram
  imports Sf_Prelude
begin

text \<open>
  The framing layer: \<open>Datagram\<close> (\<open>libschnee/schnee/p2p/Datagram.h\<close>, \<open>Datagram.cpp\<close>) puts a
  header and a content behind two big-endian 32 bit lengths, and \<open>DatagramReader\<close>
  (\<open>p2p/DatagramReader.h\<close>, \<open>DatagramReader.cpp\<close>) takes datagrams off a channel that
  delivers bytes in pieces of any size.  What a channel promises the reader is the locale
  \<open>byte_source\<close>; the channels of the program interpret it.
\<close>

subsection \<open>Lengths in network order\<close>

definition be32 :: "nat \<Rightarrow> bytes" where
  "be32 n = [char_of (n div 256 div 256 div 256), char_of (n div 256 div 256),
             char_of (n div 256), char_of n]"

definition rd32 :: "bytes \<Rightarrow> nat" where
  "rd32 b = ((of_char (b ! 0) * 256 + of_char (b ! 1)) * 256 + of_char (b ! 2)) * 256 + of_char (b ! 3)"

lemma length_be32 [simp]: "length (be32 n) = 4"
  by (simp add: be32_def)

lemma of_char_less: "of_char c < (256 :: nat)"
  by (metis char_of_char mod_less_divisor of_char_of zero_less_numeral)

lemma rd32_be32:
  assumes "n < 2 ^ 32"
  shows "rd32 (be32 n @ r) = n"
proof -
  have "n div 256 div 256 div 256 < 256"
    using assms by (simp add: div_mult2_eq [symmetric] less_mult_imp_div_less)
  then show ?thesis by (simp add: rd32_def be32_def)
qed

lemma char_of_step [simp]: "char_of (k * 256 + of_char c :: nat) = c"
proof -
  have "of_char (char_of (k * 256 + of_char c :: nat)) = (of_char c :: nat)"
    using of_char_less [of c] by simp
  then show ?thesis by (simp only: of_char_eq_iff)
qed

lemma div_step: "(k * 256 + of_char c) div 256 = (k :: nat)"
  using of_char_less [of c] by simp

lemma be32_rd32:
  assumes "length b = 4"
  shows "be32 (rd32 b) = b"
proof -
  obtain w x y z where b: "b = [w, x, y, z]"
    using assms by (auto simp: length_Suc_conv numeral_eq_Suc)
  have r: "rd32 b = ((of_char w * 256 + of_char x) * 256 + of_char y) * 256 + of_char z"
    by (simp add: rd32_def b)
  show ?thesis
    unfolding be32_def r div_step char_of_step by (simp add: b)
qed
lemma base256_less: "a < 256 \<Longrightarrow> k < n \<Longrightarrow> k * 256 + a < n * (256 :: nat)"
proof -
  assume "a < 256" "k < n"
  then have "k * 256 + a < k * 256 + 256" by simp
  also have "\<dots> = Suc k * 256" by simp
  also have "\<dots> \<le> n * 256" using \<open>k < n\<close> by (intro mult_le_mono1) simp
  finally show ?thesis .
qed

lemma rd32_less: "rd32 b < 2 ^ 32"
proof -
  have "rd32 b < 256 * 256 * 256 * 256"
    unfolding rd32_def by (intro base256_less of_char_less)
  then show ?thesis by simp
qed

abbreviation max_len :: nat where
  "max_len \<equiv> 2147483647"

subsection \<open>Datagrams\<close>

text \<open>Header and content are smart pointers and may be null.\<close>

record datagram =
  dg_header :: "bytes option"
  dg_content :: "bytes option"

fun ptr_size :: "bytes option \<Rightarrow> nat" where
  "ptr_size None = 0"
| "ptr_size (Some b) = length b"

fun ptr_bytes :: "bytes option \<Rightarrow> bytes" where
  "ptr_bytes None = []"
| "ptr_bytes (Some b) = b"

text \<open>
  \<open>encode\<close> returns the null pointer (here \<open>None\<close>) for a part that is too long; the
  \<open>assert (false)\<close> before that return is the debug build's abort.
\<close>

definition dg_encode :: "datagram \<Rightarrow> bytes option" where
  "dg_encode d =
     (let headerLength = ptr_size (dg_header d); contentLength = ptr_size (dg_content d)
      in if headerLength > max_len then None
         else if contentLength > max_len then None
         else Some (be32 headerLength @ be32 contentLength @
                    ptr_bytes (dg_header d) @ ptr_bytes (dg_content d)))"

definition dg_encodedSize :: "datagram \<Rightarrow> nat" where
  "dg_encodedSize d = 8 + ptr_size (dg_header d) + ptr_size (dg_content d)"

definition dg_contentSize :: "datagram \<Rightarrow> nat" where
  "dg_contentSize d = ptr_size (dg_content d)"

text \<open>
  \<open>decodeFrom\<close> compares the size of the source with \<open>headerLength + contentLength + 8\<close>, a
  sum of \<open>uint32_t\<close> values that wraps; the iterators that follow do not wrap, so a wrapped
  sum lets them run past the end of the source.
\<close>

definition dg_decodeFrom :: "bytes \<Rightarrow> (error + datagram \<times> nat) outcome" where
  "dg_decodeFrom source =
     (if length source < 8 then Done (Inl NotEnough)
      else
        let headerLength = rd32 source; contentLength = rd32 (drop 4 source)
        in if headerLength > max_len \<or> contentLength > max_len then Done (Inl InvalidArgument)
           else
             let need = (headerLength + contentLength + 8) mod 2 ^ 32
             in if length source \<ge> need then
                  (if 8 + headerLength + contentLength \<le> length source then
                     Done (Inr (\<lparr>dg_header = Some (take headerLength (drop 8 source)),
                                 dg_content = Some (take contentLength (drop (8 + headerLength) source))\<rparr>,
                                need))
                   else Fault OutOfBounds)
                else Done (Inl NotEnough))"

text \<open>
  A channel object behind its virtual functions: \<open>libschnee/schnee/net/Channel.h\<close>.  The
  state type \<open>'c\<close> is the implementing class's.
\<close>

record channel_info =
  ci_delay :: rat
  ci_virtual :: bool
  ci_authenticated :: bool

record 'c channel_vt =
  vt_error :: "'c \<Rightarrow> error"
  vt_write :: "bytes \<Rightarrow> 'c \<Rightarrow> error \<times> 'c"
  vt_read :: "int \<Rightarrow> 'c \<Rightarrow> bytes option \<times> 'c"
  vt_info :: "'c \<Rightarrow> channel_info"

definition dg_sendTo :: "'c channel_vt \<Rightarrow> datagram \<Rightarrow> 'c \<Rightarrow> error \<times> 'c" where
  "dg_sendTo vt d c =
     (if failed (vt_error vt c) then (vt_error vt c, c)
      else case dg_encode d of
             None \<Rightarrow> (TooMuch, c)
           | Some chunk \<Rightarrow> vt_write vt chunk c)"

definition dg_filled :: "datagram \<Rightarrow> datagram" where
  "dg_filled d = \<lparr>dg_header = Some (ptr_bytes (dg_header d)),
                  dg_content = Some (ptr_bytes (dg_content d))\<rparr>"

lemma length_ptr_bytes [simp]: "length (ptr_bytes p) = ptr_size p"
  by (cases p) auto

lemma ptr_bytes_empty [simp]: "ptr_size p = 0 \<Longrightarrow> ptr_bytes p = []"
  by (cases p) auto

lemma dg_encode_length: "dg_encode d = Some b \<Longrightarrow> length b = dg_encodedSize d"
  by (auto simp: dg_encode_def dg_encodedSize_def Let_def split: if_splits)

lemma dg_encode_Some:
  "dg_encode d = Some b \<longleftrightarrow>
     ptr_size (dg_header d) \<le> max_len \<and> ptr_size (dg_content d) \<le> max_len \<and>
     b = be32 (ptr_size (dg_header d)) @ be32 (ptr_size (dg_content d)) @
         ptr_bytes (dg_header d) @ ptr_bytes (dg_content d)"
  by (auto simp: dg_encode_def Let_def)

lemma datagram_decode_encode:
  assumes "dg_encode d = Some b" and "dg_encodedSize d < 2 ^ 32"
  shows "dg_decodeFrom (b @ rest) = Done (Inr (dg_filled d, dg_encodedSize d))"
proof -
  let ?h = "ptr_size (dg_header d)" and ?c = "ptr_size (dg_content d)"
  from assms(1) have b: "b = be32 ?h @ be32 ?c @ ptr_bytes (dg_header d) @ ptr_bytes (dg_content d)"
    and le: "?h \<le> max_len" "?c \<le> max_len" by (simp_all add: dg_encode_Some)
  have r: "rd32 (b @ rest) = ?h" "rd32 (drop 4 (b @ rest)) = ?c"
    using le by (simp_all add: b rd32_be32)
  have "(?h + ?c + 8) mod 2 ^ 32 = dg_encodedSize d"
    using assms(2) by (simp add: dg_encodedSize_def)
  with le r show ?thesis
    by (simp add: dg_decodeFrom_def Let_def dg_encodedSize_def b dg_filled_def)
qed

text \<open>C32. Decoding an encoded datagram gives it back and consumes exactly its bytes.\<close>

lemma datagram_roundtrip:
  assumes "dg_encode d = Some b" and "dg_encodedSize d < 2 ^ 32"
  shows "dg_decodeFrom (b @ rest) = Done (Inr (dg_filled d, dg_encodedSize d))"
  by (rule datagram_decode_encode [OF assms])

lemma datagram_roundtrip_witness:
  "dg_decodeFrom (the (dg_encode \<lparr>dg_header = Some ''ab'', dg_content = None\<rparr>) @ ''z'') =
     Done (Inr (dg_filled \<lparr>dg_header = Some ''ab'', dg_content = None\<rparr>, 10))"
proof -
  have "dg_encode \<lparr>dg_header = Some ''ab'', dg_content = None\<rparr> =
      Some (the (dg_encode \<lparr>dg_header = Some ''ab'', dg_content = None\<rparr>))"
    by (simp add: dg_encode_def)
  from datagram_roundtrip [OF this, of "''z''"] show ?thesis
    by (simp add: dg_encodedSize_def)
qed

text \<open>
  The two largest lengths the decoder accepts make its 32 bit sum wrap to 6, so that a
  short message passes the size check and is read beyond its end.
\<close>

lemma datagram_decode_overflow:
  assumes "length rest < 1000000"
  shows "dg_decodeFrom (be32 max_len @ be32 max_len @ rest) = Fault OutOfBounds"
  using assms by (simp add: dg_decodeFrom_def Let_def rd32_be32)

lemma datagram_decode_overflow_witness:
  "dg_decodeFrom (be32 max_len @ be32 max_len @ []) = Fault OutOfBounds"
  by (rule datagram_decode_overflow) simp

subsection \<open>The reader\<close>

datatype dr_phase = DR_WAITLENGTHS | DR_WAITHEADER | DR_WAITCONTENT | DR_ERROR

record dreader =
  dr_datagram :: datagram
  dr_buffer :: bytes
  dr_state :: dr_phase
  dr_headerLength :: nat
  dr_contentLength :: nat

definition dr_clear :: "dreader \<Rightarrow> dreader" where
  "dr_clear r = r\<lparr>dr_state := DR_WAITLENGTHS, dr_headerLength := 0, dr_contentLength := 0,
                  dr_buffer := []\<rparr>"

definition dr_init :: dreader where
  "dr_init = dr_clear \<lparr>dr_datagram = \<lparr>dg_header = None, dg_content = None\<rparr>, dr_buffer = [],
     dr_state = DR_WAITLENGTHS, dr_headerLength = 0, dr_contentLength = 0\<rparr>"

text \<open>
  \<open>fillBytes\<close> asserts that the buffer holds no more than is asked for.  The assertion is not a
  branch here: it holds at every call for a channel that never returns more than it is asked
  for (\<open>dr_read_keeps\<close> below, where \<open>dr_live\<close> contains the assertion of the next call).
\<close>

definition dr_fillBytes ::
  "(int \<Rightarrow> 'c \<Rightarrow> bytes option \<times> 'c) \<Rightarrow> nat \<Rightarrow> dreader \<Rightarrow> 'c \<Rightarrow> error \<times> dreader \<times> 'c" where
  "dr_fillBytes rd count r c =
     (if length (dr_buffer r) = count then (NoError, r, c)
      else
        let missing = count - length (dr_buffer r); res = rd (int missing) c
        in case fst res of
             None \<Rightarrow> (NotEnough, r, snd res)
           | Some data \<Rightarrow>
               if data = [] then (NotEnough, r, snd res)
               else
                 let r' = r\<lparr>dr_buffer := dr_buffer r @ data\<rparr>
                 in if length (dr_buffer r') < count then (NotEnough, r', snd res)
                    else (NoError, r', snd res))"

text \<open>
  \<open>read\<close> loops over a \<open>switch\<close> on the state; a pass returns or moves to the next state, so
  the loop is unrolled into one function per state, each entering the next.
\<close>

definition dr_read_content ::
  "(int \<Rightarrow> 'c \<Rightarrow> bytes option \<times> 'c) \<Rightarrow> dreader \<Rightarrow> 'c \<Rightarrow> error \<times> dreader \<times> 'c" where
  "dr_read_content rd r c =
     (case dr_fillBytes rd (dr_contentLength r) r c of (e, r1, c1) \<Rightarrow>
        if failed e then (e, r1, c1)
        else (NoError,
              r1\<lparr>dr_datagram := (dr_datagram r1)\<lparr>dg_content := Some (dr_buffer r1)\<rparr>,
                 dr_buffer := [], dr_state := DR_WAITLENGTHS\<rparr>, c1))"

definition dr_read_header ::
  "(int \<Rightarrow> 'c \<Rightarrow> bytes option \<times> 'c) \<Rightarrow> dreader \<Rightarrow> 'c \<Rightarrow> error \<times> dreader \<times> 'c" where
  "dr_read_header rd r c =
     (case dr_fillBytes rd (dr_headerLength r) r c of (e, r1, c1) \<Rightarrow>
        if failed e then (e, r1, c1)
        else dr_read_content rd
               (r1\<lparr>dr_datagram := (dr_datagram r1)\<lparr>dg_header := Some (dr_buffer r1)\<rparr>,
                  dr_buffer := [], dr_state := DR_WAITCONTENT\<rparr>) c1)"

definition dr_read_lengths ::
  "(int \<Rightarrow> 'c \<Rightarrow> bytes option \<times> 'c) \<Rightarrow> dreader \<Rightarrow> 'c \<Rightarrow> error \<times> dreader \<times> 'c" where
  "dr_read_lengths rd r c =
     (case dr_fillBytes rd 8 r c of (e, r1, c1) \<Rightarrow>
        if failed e then (e, r1, c1)
        else
          let r2 = r1\<lparr>dr_headerLength := rd32 (dr_buffer r1),
                      dr_contentLength := rd32 (drop 4 (dr_buffer r1))\<rparr>
          in if dr_headerLength r2 > max_len \<or> dr_contentLength r2 > max_len
             then (TooMuch, r2\<lparr>dr_state := DR_ERROR\<rparr>, c1)
             else dr_read_header rd (r2\<lparr>dr_state := DR_WAITHEADER, dr_buffer := []\<rparr>) c1)"

definition dr_read ::
  "(int \<Rightarrow> 'c \<Rightarrow> bytes option \<times> 'c) \<Rightarrow> dreader \<Rightarrow> 'c \<Rightarrow> error \<times> dreader \<times> 'c" where
  "dr_read rd r c =
     (case dr_state r of
        DR_WAITLENGTHS \<Rightarrow> dr_read_lengths rd r c
      | DR_WAITHEADER \<Rightarrow> dr_read_header rd r c
      | DR_WAITCONTENT \<Rightarrow> dr_read_content rd r c
      | DR_ERROR \<Rightarrow> (WrongState, r, c))"

text \<open>
  The callers' loop \<open>while ((e = reader.read (channel)) == NoError) push_back (datagram)\<close>.
  A channel that never runs dry would keep it going for ever: \<open>None\<close>.
\<close>

partial_function (option) dr_drain ::
  "(int \<Rightarrow> 'c \<Rightarrow> bytes option \<times> 'c) \<Rightarrow> dreader \<Rightarrow> 'c \<Rightarrow> datagram list \<Rightarrow>
   (datagram list \<times> error \<times> dreader \<times> 'c) option" where
  "dr_drain rd r c acc =
     (case dr_read rd r c of (e, r', c') \<Rightarrow>
        if failed e then Some (acc, e, r', c')
        else dr_drain rd r' c' (acc @ [dr_datagram r']))"

subsection \<open>What the reader is for: cutting a byte stream into datagrams\<close>

datatype dg_front = Need | TooBig | Full bytes bytes bytes

definition dg_split :: "bytes \<Rightarrow> dg_front" where
  "dg_split s =
     (if length s < 8 then Need
      else
        let h = rd32 s; c = rd32 (drop 4 s)
        in if h > max_len \<or> c > max_len then TooBig
           else if length s < 8 + h + c then Need
           else Full (take h (drop 8 s)) (take c (drop (8 + h) s)) (drop (8 + h + c) s))"

lemma dg_split_shorter: "dg_split s = Full h c r \<Longrightarrow> length r < length s"
  by (auto simp: dg_split_def Let_def split: if_splits)

function dg_parse :: "bytes \<Rightarrow> datagram list \<times> bytes \<times> error" where
  "dg_parse s =
     (case dg_split s of
        Need \<Rightarrow> ([], s, NotEnough)
      | TooBig \<Rightarrow> ([], s, TooMuch)
      | Full h c r \<Rightarrow>
          (case dg_parse r of (ds, rest, e) \<Rightarrow>
             (\<lparr>dg_header = Some h, dg_content = Some c\<rparr> # ds, rest, e)))"
  by pat_completeness auto
termination
  by (relation "measure length") (auto simp: dg_split_shorter)

declare dg_parse.simps [simp del]

lemma dg_parse_cases:
  "dg_split s = Need \<Longrightarrow> dg_parse s = ([], s, NotEnough)"
  "dg_split s = TooBig \<Longrightarrow> dg_parse s = ([], s, TooMuch)"
  "dg_split s = Full h c r \<Longrightarrow> dg_parse s =
     (\<lparr>dg_header = Some h, dg_content = Some c\<rparr> # fst (dg_parse r), snd (dg_parse r))"
  by (subst dg_parse.simps, simp split: prod.splits)+

text \<open>The bytes of the current datagram the reader has taken off the channel so far.\<close>

definition dr_pending :: "dreader \<Rightarrow> bytes" where
  "dr_pending r =
     (case dr_state r of
        DR_WAITHEADER \<Rightarrow> be32 (dr_headerLength r) @ be32 (dr_contentLength r) @ dr_buffer r
      | DR_WAITCONTENT \<Rightarrow> be32 (dr_headerLength r) @ be32 (dr_contentLength r) @
          ptr_bytes (dg_header (dr_datagram r)) @ dr_buffer r
      | _ \<Rightarrow> dr_buffer r)"

definition dr_lens :: "dreader \<Rightarrow> bool" where
  "dr_lens r \<longleftrightarrow> dr_headerLength r \<le> max_len \<and> dr_contentLength r \<le> max_len"

definition dr_ok :: "dreader \<Rightarrow> bool" where
  "dr_ok r \<longleftrightarrow>
     (case dr_state r of
        DR_WAITLENGTHS \<Rightarrow> length (dr_buffer r) < 8
      | DR_WAITHEADER \<Rightarrow> dr_lens r \<and> length (dr_buffer r) \<le> dr_headerLength r
      | DR_WAITCONTENT \<Rightarrow> dr_lens r \<and> length (dr_buffer r) \<le> dr_contentLength r \<and>
          (\<exists>h. dg_header (dr_datagram r) = Some h \<and> length h = dr_headerLength r)
      | DR_ERROR \<Rightarrow> False)"

text \<open>One read of the stream \<open>s\<close> the reader still has to cut: what it must do.\<close>

definition read_spec :: "bytes \<Rightarrow> error \<Rightarrow> dreader \<Rightarrow> bytes \<Rightarrow> bool" where
  "read_spec s e r left \<longleftrightarrow>
     (case dg_split s of
        Need \<Rightarrow> e = NotEnough \<and> dr_ok r \<and> dr_pending r = s \<and> left = []
      | TooBig \<Rightarrow> e = TooMuch \<and> dr_state r = DR_ERROR
      | Full h c rest \<Rightarrow> e = NoError \<and> dr_ok r \<and> dr_pending r = [] \<and> left = rest \<and>
          dr_datagram r = \<lparr>dg_header = Some h, dg_content = Some c\<rparr>)"

lemma dg_split_body:
  "h \<le> max_len \<Longrightarrow> c \<le> max_len \<Longrightarrow>
     dg_split (be32 h @ be32 c @ t) =
       (if length t < h + c then Need
        else Full (take h t) (take c (drop h t)) (drop (h + c) t))"
  by (simp add: dg_split_def Let_def rd32_be32)

lemma be32_be32_drop:
  assumes "8 \<le> length s"
  shows "be32 (rd32 s) @ be32 (rd32 (drop 4 s)) @ drop 8 s = s"
proof -
  have "rd32 s = rd32 (take 4 s)" "rd32 (drop 4 s) = rd32 (take 4 (drop 4 s))"
    using assms by (simp_all add: rd32_def)
  moreover have "length (take 4 s) = 4" "length (take 4 (drop 4 s)) = 4"
    using assms by simp_all
  ultimately have "be32 (rd32 s) = take 4 s" "be32 (rd32 (drop 4 s)) = take 4 (drop 4 s)"
    by (simp_all only: be32_rd32)
  moreover have "take 4 s @ take 4 (drop 4 s) @ drop 8 s = s"
    by (metis append_take_drop_id drop_drop numeral_plus_numeral semiring_norm(2,6,8))
  ultimately show ?thesis by simp
qed

text \<open>
  Over any channel that reads no more than it is asked for, \<open>dr_ok\<close> is kept, or the reader is in
  its state of error for good.
\<close>

definition reads_within :: "(int \<Rightarrow> 'c \<Rightarrow> bytes option \<times> 'c) \<Rightarrow> bool" where
  "reads_within rd \<longleftrightarrow> (\<forall>n c x. fst (rd n c) = Some x \<longrightarrow> length x \<le> nat n)"

definition dr_live :: "dreader \<Rightarrow> bool" where
  "dr_live r \<longleftrightarrow> dr_state r = DR_ERROR \<or> dr_ok r"

lemma fill_keeps:
  assumes "dr_fillBytes rd count r c = (e, r', c')" and "length (dr_buffer r) \<le> count"
    and "reads_within rd"
  shows "\<exists>b. r' = r\<lparr>dr_buffer := b\<rparr> \<and> length b \<le> count \<and> (e = NoError \<longleftrightarrow> length b = count)"
proof (cases "fst (rd (int (count - length (dr_buffer r))) c)")
  case None
  with assms(1,2) show ?thesis
    by (auto simp: dr_fillBytes_def split: if_splits intro: exI [of _ "dr_buffer r"])
next
  case (Some x)
  with assms(3) have "length x \<le> count - length (dr_buffer r)" by (fastforce simp: reads_within_def)
  with assms(2) have "length (dr_buffer r @ x) \<le> count" by simp
  with assms(1,2) Some show ?thesis
    by (auto simp: dr_fillBytes_def Let_def split: if_splits intro: exI [of _ "dr_buffer r"] exI [of _ "dr_buffer r @ x"])
qed

lemma content_keeps:
  assumes "dr_read_content rd r c = (e, r', c')" and "dr_ok r" and "dr_state r = DR_WAITCONTENT"
    and "reads_within rd"
  shows "dr_live r' \<and> (e = NoError \<longrightarrow> dg_header (dr_datagram r') \<noteq> None)"
proof -
  obtain e1 r1 c1 where f: "dr_fillBytes rd (dr_contentLength r) r c = (e1, r1, c1)" by (metis prod_cases3)
  have le: "length (dr_buffer r) \<le> dr_contentLength r" using assms(2,3) by (auto simp: dr_ok_def)
  obtain b where "r1 = r\<lparr>dr_buffer := b\<rparr>" "length b \<le> dr_contentLength r"
    using fill_keeps [OF f le assms(4)] by blast
  with assms(1-3) f show ?thesis
    by (auto simp: dr_read_content_def dr_live_def dr_ok_def dr_lens_def split: if_splits)
qed

lemma header_keeps:
  assumes "dr_read_header rd r c = (e, r', c')" and "dr_ok r" and "dr_state r = DR_WAITHEADER"
    and rd: "reads_within rd"
  shows "dr_live r' \<and> (e = NoError \<longrightarrow> dg_header (dr_datagram r') \<noteq> None)"
proof -
  obtain e1 r1 c1 where f: "dr_fillBytes rd (dr_headerLength r) r c = (e1, r1, c1)" by (metis prod_cases3)
  have le: "length (dr_buffer r) \<le> dr_headerLength r" using assms(2,3) by (auto simp: dr_ok_def)
  obtain b where b: "r1 = r\<lparr>dr_buffer := b\<rparr>" "length b \<le> dr_headerLength r" "e1 = NoError \<longleftrightarrow> length b = dr_headerLength r"
    using fill_keeps [OF f le rd] by blast
  show ?thesis
  proof (cases "e1 = NoError")
    case False
    with assms(1-3) f b show ?thesis by (auto simp: dr_read_header_def dr_live_def dr_ok_def dr_lens_def)
  next
    case True
    let ?r = "r1\<lparr>dr_datagram := (dr_datagram r1)\<lparr>dg_header := Some (dr_buffer r1)\<rparr>, dr_buffer := [],
      dr_state := DR_WAITCONTENT\<rparr>"
    have "dr_ok ?r" using assms(2,3) b True by (auto simp: dr_ok_def dr_lens_def)
    moreover have "dr_read_content rd ?r c1 = (e, r', c')" using assms(1) f True by (simp add: dr_read_header_def)
    ultimately show ?thesis using content_keeps [of rd ?r c1 e r' c'] rd by simp
  qed
qed

lemma dr_read_keeps:
  assumes "dr_read rd r c = (e, r', c')" and "dr_live r"
    and rd: "reads_within rd"
  shows "dr_live r' \<and> (e = NoError \<longrightarrow> dg_header (dr_datagram r') \<noteq> None)"
proof (cases "dr_state r")
  case DR_WAITLENGTHS
  obtain e1 r1 c1 where f: "dr_fillBytes rd 8 r c = (e1, r1, c1)" by (metis prod_cases3)
  have le: "length (dr_buffer r) \<le> 8" using assms(2) DR_WAITLENGTHS by (auto simp: dr_live_def dr_ok_def)
  obtain b where b: "r1 = r\<lparr>dr_buffer := b\<rparr>" "length b \<le> 8" "e1 = NoError \<longleftrightarrow> length b = 8" using fill_keeps [OF f le rd] by blast
  let ?r = "r\<lparr>dr_headerLength := rd32 b, dr_contentLength := rd32 (drop 4 b), dr_state := DR_WAITHEADER, dr_buffer := []\<rparr>"
  consider "e1 \<noteq> NoError" | "e1 = NoError" "rd32 b > max_len \<or> rd32 (drop 4 b) > max_len"
    | "e1 = NoError" "rd32 b \<le> max_len" "rd32 (drop 4 b) \<le> max_len" by linarith
  then show ?thesis
  proof cases
    case 3
    then have "dr_read_header rd ?r c1 = (e, r', c')"
      using assms(1) DR_WAITLENGTHS f b by (simp add: dr_read_def dr_read_lengths_def Let_def)
    moreover have "dr_ok ?r" using 3 by (simp add: dr_ok_def dr_lens_def)
    ultimately show ?thesis using header_keeps [of rd ?r c1 e r' c'] rd by simp
  qed (use assms(1,2) DR_WAITLENGTHS f b in \<open>auto simp: dr_read_def dr_read_lengths_def Let_def dr_live_def dr_ok_def dr_lens_def\<close>)
qed (use assms content_keeps [of rd r c e r' c'] header_keeps [of rd r c e r' c'] in \<open>auto simp: dr_read_def dr_live_def\<close>)

lemma rd32_take_8:
  "8 \<le> length s \<Longrightarrow> rd32 (take 8 s) = rd32 s \<and> rd32 (drop 4 (take 8 s)) = rd32 (drop 4 s)"
  by (simp add: rd32_def)

locale byte_source =
  fixes rd :: "int \<Rightarrow> 'c \<Rightarrow> bytes option \<times> 'c" and avail :: "'c \<Rightarrow> bytes"
  assumes rd_some: "0 < n \<Longrightarrow> avail c \<noteq> [] \<Longrightarrow> fst (rd n c) = Some (take (nat n) (avail c))"
    and rd_none: "0 < n \<Longrightarrow> avail c = [] \<Longrightarrow> fst (rd n c) = None \<or> fst (rd n c) = Some []"
    and rd_left: "0 < n \<Longrightarrow> avail (snd (rd n c)) = drop (nat n) (avail c)"
begin

lemma fill:
  assumes "length (dr_buffer r) \<le> count" and "dr_fillBytes rd count r c = (e, r', c')"
  shows "r' = r\<lparr>dr_buffer := take count (dr_buffer r @ avail c)\<rparr>"
    and "avail c' = drop count (dr_buffer r @ avail c)"
    and "e = (if count \<le> length (dr_buffer r @ avail c) then NoError else NotEnough)"
proof -
  have "r' = r\<lparr>dr_buffer := take count (dr_buffer r @ avail c)\<rparr> \<and>
      avail c' = drop count (dr_buffer r @ avail c) \<and>
      e = (if count \<le> length (dr_buffer r @ avail c) then NoError else NotEnough)"
  proof (cases "length (dr_buffer r) = count")
    case True
    with assms(2) show ?thesis by (auto simp: dr_fillBytes_def)
  next
    case False
    with assms(1) obtain m where m: "count = length (dr_buffer r) + m" "0 < m"
      by (metis le_add_diff_inverse le_neq_implies_less zero_less_diff)
    then have "0 < int m" by simp
    from rd_some [OF this, of c] rd_none [OF this, of c] rd_left [OF this, of c] assms(2) m
    show ?thesis
      by (cases "avail c = []")
        (auto simp: dr_fillBytes_def Let_def min_def split: option.splits if_splits)
  qed
  then show "r' = r\<lparr>dr_buffer := take count (dr_buffer r @ avail c)\<rparr>"
    and "avail c' = drop count (dr_buffer r @ avail c)"
    and "e = (if count \<le> length (dr_buffer r @ avail c) then NoError else NotEnough)"
    by blast+
qed

lemma content_step:
  assumes "dr_ok r" and "dr_state r = DR_WAITCONTENT" and "dr_read_content rd r c = (e, r', c')"
  shows "read_spec (dr_pending r @ avail c) e r' (avail c')"
proof -
  obtain h where h: "dg_header (dr_datagram r) = Some h" "length h = dr_headerLength r"
    and le: "dr_lens r" "length (dr_buffer r) \<le> dr_contentLength r"
    using assms(1,2) by (auto simp: dr_ok_def)
  obtain e1 r1 c1 where f: "dr_fillBytes rd (dr_contentLength r) r c = (e1, r1, c1)"
    by (metis prod_cases3)
  note fill [OF le(2) f]
  then show ?thesis
    using assms h le f
    by (auto simp: dr_read_content_def read_spec_def dr_pending_def dg_split_body dr_lens_def
        dr_ok_def min_def split: if_splits)
qed

lemma header_step:
  assumes "dr_ok r" and "dr_state r = DR_WAITHEADER" and "dr_read_header rd r c = (e, r', c')"
  shows "read_spec (dr_pending r @ avail c) e r' (avail c')"
proof -
  have le: "dr_lens r" "length (dr_buffer r) \<le> dr_headerLength r"
    using assms(1,2) by (auto simp: dr_ok_def)
  obtain e1 r1 c1 where f: "dr_fillBytes rd (dr_headerLength r) r c = (e1, r1, c1)"
    by (metis prod_cases3)
  note fl = fill [OF le(2) f]
  show ?thesis
  proof (cases "dr_headerLength r \<le> length (dr_buffer r @ avail c)")
    case False
    then show ?thesis
      using assms le f fl
      by (auto simp: dr_read_header_def read_spec_def dr_pending_def dg_split_body dr_lens_def dr_ok_def)
  next
    case True
    let ?r2 = "r1\<lparr>dr_datagram := (dr_datagram r1)\<lparr>dg_header := Some (dr_buffer r1)\<rparr>,
       dr_buffer := [], dr_state := DR_WAITCONTENT\<rparr>"
    have "dr_read_content rd ?r2 c1 = (e, r', c')" and ok: "dr_ok ?r2"
      using True assms le f fl by (auto simp: dr_read_header_def dr_ok_def dr_lens_def min_def)
    moreover have "dr_pending ?r2 @ avail c1 = dr_pending r @ avail c"
      using True assms le fl
      by (simp add: dr_pending_def)
    ultimately show ?thesis using content_step [OF ok, of c1 e r' c'] by simp
  qed
qed

lemma lengths_step:
  assumes "dr_ok r" and "dr_state r = DR_WAITLENGTHS" and "dr_read_lengths rd r c = (e, r', c')"
  shows "read_spec (dr_pending r @ avail c) e r' (avail c')"
proof -
  let ?s = "dr_buffer r @ avail c"
  have le: "length (dr_buffer r) \<le> 8" using assms(1,2) by (auto simp: dr_ok_def)
  obtain e1 r1 c1 where f: "dr_fillBytes rd 8 r c = (e1, r1, c1)"
    by (metis prod_cases3)
  note fl = fill [OF le f]
  show ?thesis
  proof (cases "8 \<le> length ?s")
    case False
    then show ?thesis
      using assms f fl
      by (auto simp: dr_read_lengths_def read_spec_def dr_pending_def dg_split_def dr_ok_def)
  next
    case True
    let ?r2 = "r1\<lparr>dr_headerLength := rd32 ?s, dr_contentLength := rd32 (drop 4 ?s),
       dr_state := DR_WAITHEADER, dr_buffer := []\<rparr>"
    have rd: "rd32 (take 8 ?s) = rd32 ?s" "rd32 (drop 4 (take 8 ?s)) = rd32 (drop 4 ?s)"
      using rd32_take_8 [OF True] by simp_all
    show ?thesis
    proof (cases "rd32 ?s > max_len \<or> rd32 (drop 4 ?s) > max_len")
      case big: True
      then show ?thesis
        using assms f fl True rd
        by (auto simp: dr_read_lengths_def read_spec_def dr_pending_def dg_split_def Let_def)
    next
      case False
      have "dr_read_header rd ?r2 c1 = (e, r', c')" and ok: "dr_ok ?r2"
        using False True assms f fl rd
        by (auto simp: dr_read_lengths_def Let_def dr_ok_def dr_lens_def not_less)
      moreover have "dr_pending ?r2 @ avail c1 = dr_pending r @ avail c"
        using True assms(2) fl be32_be32_drop [OF True] by (simp add: dr_pending_def)
      ultimately show ?thesis using header_step [OF ok, of c1 e r' c'] by simp
    qed
  qed
qed

lemma read_step:
  assumes "dr_ok r" and "dr_read rd r c = (e, r', c')"
  shows "read_spec (dr_pending r @ avail c) e r' (avail c')"
  using assms lengths_step header_step content_step
  by (cases "dr_state r") (auto simp: dr_read_def dr_ok_def)

text \<open>Draining a channel cuts everything it holds, and always comes to an end.\<close>

lemma drain_parse:
  assumes "dr_ok r" and "dg_parse (dr_pending r @ avail c) = (ds, rest, e)"
  shows "\<exists>r' c'. dr_drain rd r c acc = Some (acc @ ds, e, r', c') \<and>
     (e = NotEnough \<longrightarrow> dr_ok r' \<and> dr_pending r' = rest \<and> avail c' = []) \<and>
     (e = TooMuch \<longrightarrow> dr_state r' = DR_ERROR)"
  using assms
proof (induction "dr_pending r @ avail c" arbitrary: r c ds rest e acc rule: dg_parse.induct)
  case 1
  obtain e1 r1 c1 where rd: "dr_read rd r c = (e1, r1, c1)" by (metis prod_cases3)
  note st = read_step [OF "1.prems"(1) rd]
  show ?case
  proof (cases "dg_split (dr_pending r @ avail c)")
    case Need
    with st rd "1.prems"(2) show ?thesis
      by (subst dr_drain.simps) (auto simp: read_spec_def dg_parse_cases)
  next
    case TooBig
    with st rd "1.prems"(2) show ?thesis
      by (subst dr_drain.simps) (auto simp: read_spec_def dg_parse_cases)
  next
    case (Full h cn rst)
    obtain ds' where p: "dg_parse rst = (ds', rest, e)"
      and ds: "ds = \<lparr>dg_header = Some h, dg_content = Some cn\<rparr> # ds'"
      using "1.prems"(2) Full by (cases "dg_parse rst") (auto simp: dg_parse_cases)
    have r1: "e1 = NoError" "dr_ok r1" "dr_pending r1 @ avail c1 = rst"
      "dr_datagram r1 = \<lparr>dg_header = Some h, dg_content = Some cn\<rparr>"
      using st Full by (auto simp: read_spec_def)
    have "dg_split (dr_pending r @ avail c) = Full h cn (dr_pending r1 @ avail c1)"
      and "dg_parse (dr_pending r1 @ avail c1) = (ds', rest, e)"
      using Full p r1(3) by simp_all
    from "1.hyps" [OF this(1) r1(2) this(2), of "acc @ [dr_datagram r1]"]
    show ?thesis
      using rd r1 ds by (subst dr_drain.simps) auto
  qed
qed

end

subsection \<open>Streams in pieces\<close>

lemma rd32_append:
  "8 \<le> length a \<Longrightarrow> rd32 (a @ b) = rd32 a \<and> rd32 (drop 4 (a @ b)) = rd32 (drop 4 a)"
  using rd32_take_8 [of "a @ b"] rd32_take_8 [of a] by simp

lemma dg_split_long:
  assumes "8 \<le> length a"
  shows "dg_split (a @ b) =
     (let h = rd32 a; c = rd32 (drop 4 a)
      in if h > max_len \<or> c > max_len then TooBig
         else if length (a @ b) < 8 + h + c then Need
         else Full (take h (drop 8 (a @ b))) (take c (drop (8 + h) (a @ b))) (drop (8 + h + c) (a @ b)))"
  using assms rd32_append [OF assms, of b] by (simp add: dg_split_def)

lemma dg_split_append:
  assumes "dg_split a = Full h c r"
  shows "dg_split (a @ b) = Full h c (r @ b)"
proof -
  have "8 \<le> length a" using assms by (auto simp: dg_split_def not_less split: if_splits)
  with assms dg_split_long [of a "[]"] show ?thesis
    by (auto simp: dg_split_long Let_def split: if_splits)
qed

lemma dg_parse_append:
  "dg_parse a = (ds, rest, NotEnough) \<Longrightarrow>
     dg_parse (a @ b) = (ds @ fst (dg_parse (rest @ b)), snd (dg_parse (rest @ b)))"
proof (induction a arbitrary: ds rule: dg_parse.induct)
  case (1 a)
  show ?case
  proof (cases "dg_split a")
    case (Full h c r)
    with "1.prems" obtain ds' where p: "dg_parse r = (ds', rest, NotEnough)"
      and ds: "ds = \<lparr>dg_header = Some h, dg_content = Some c\<rparr> # ds'"
      by (cases "dg_parse r") (auto simp: dg_parse_cases)
    from "1.IH" [OF Full p] show ?thesis
      by (simp add: dg_parse_cases(3) [OF dg_split_append [OF Full]] ds)
  qed (use "1.prems" in \<open>auto simp: dg_parse_cases\<close>)
qed

lemma dg_parse_Nil [simp]: "dg_parse [] = ([], [], NotEnough)"
  by (simp add: dg_split_def dg_parse_cases)

lemma dg_parse_encode:
  assumes "dg_encode d = Some b"
  shows "dg_parse (b @ s) = (dg_filled d # fst (dg_parse s), snd (dg_parse s))"
proof -
  have "dg_split (b @ s) =
      Full (ptr_bytes (dg_header d)) (ptr_bytes (dg_content d)) s"
    using assms dg_split_body [of "ptr_size (dg_header d)" "ptr_size (dg_content d)"]
    by (auto simp: dg_encode_Some)
  then show ?thesis by (simp add: dg_parse_cases dg_filled_def)
qed

lemma dg_parse_error: "dg_parse s = (ds, rest, e) \<Longrightarrow> e = NotEnough \<or> e = TooMuch"
proof (induction s arbitrary: ds rule: dg_parse.induct)
  case (1 s)
  show ?case
  proof (cases "dg_split s")
    case (Full h c r)
    with "1.prems" have "dg_parse r = (fst (dg_parse r), rest, e)"
      by (cases "dg_parse r") (auto simp: dg_parse_cases)
    from "1.IH" [OF Full this] show ?thesis .
  qed (use "1.prems" in \<open>auto simp: dg_parse_cases\<close>)
qed

text \<open>Bytes behind an oversized length do not make it acceptable.\<close>

lemma dg_split_toobig:
  assumes "dg_split a = TooBig"
  shows "dg_split (a @ b) = TooBig"
proof -
  have "8 \<le> length a" using assms by (auto simp: dg_split_def not_less split: if_splits)
  with assms dg_split_long [of a "[]"] show ?thesis
    by (auto simp: dg_split_long Let_def split: if_splits)
qed

lemma dg_parse_toomuch:
  "dg_parse a = (ds, rest, TooMuch) \<Longrightarrow> snd (snd (dg_parse (a @ b))) = TooMuch"
proof (induction a arbitrary: ds rule: dg_parse.induct)
  case (1 a)
  show ?case
  proof (cases "dg_split a")
    case (Full h c r)
    with "1.prems" have "dg_parse r = (fst (dg_parse r), rest, TooMuch)"
      by (cases "dg_parse r") (auto simp: dg_parse_cases)
    from "1.IH" [OF Full this] show ?thesis
      by (simp add: dg_parse_cases(3) [OF dg_split_append [OF Full]])
  next
    case TooBig
    from dg_split_toobig [OF this] show ?thesis by (simp add: dg_parse_cases)
  qed (use "1.prems" in \<open>auto simp: dg_parse_cases\<close>)
qed

text \<open>The stream a sender writes: its datagrams one after the other.\<close>

fun dg_stream :: "datagram list \<Rightarrow> bytes option" where
  "dg_stream [] = Some []"
| "dg_stream (d # ds) =
     (case (dg_encode d, dg_stream ds) of (Some b, Some s) \<Rightarrow> Some (b @ s) | _ \<Rightarrow> None)"

lemma dg_parse_stream: "dg_stream ds = Some s \<Longrightarrow> dg_parse s = (map dg_filled ds, [], NotEnough)"
  by (induction ds arbitrary: s) (auto simp: dg_parse_encode split: option.splits)

lemma dr_ok_init [simp]: "dr_ok dr_init" and dr_pending_init [simp]: "dr_pending dr_init = []"
  by (simp_all add: dr_init_def dr_clear_def dr_ok_def dr_pending_def)

end
