(* ===== verification/Sf_IMChannel.thy ===== *)
theory Sf_IMChannel
  imports Sf_Bytes Sf_Datagram
begin

text \<open>
  \<open>IMChannel\<close> (\<open>libschnee/schnee/p2p/channels/IMChannel.h\<close>, \<open>IMChannel.cpp\<close>): a byte
  channel tunnelled through instant messages, and the message types of \<open>im/IMClient.h\<close> it
  uses.  The IM client behind it is the parameter \<open>snd\<close> (whether a message was accepted,
  and the client's next state).  Small content-free datagrams with a printable header travel
  as plain text, everything else as \<open>BNRY\<close> and Base64 in pieces of 1024 bytes.
\<close>

datatype online_state = OS_OFFLINE | OS_ONLINE | OS_UNKNOWN

datatype message_type = MT_CHAT | MT_ERROR | MT_GROUPCHAT | MT_HEADLINE | MT_NORMAL

record im_message =
  m_from :: string
  m_to :: string
  m_type :: message_type
  m_id :: string
  m_subject :: string
  m_body :: string

definition im_new_message :: im_message where
  "im_new_message = \<lparr>m_from = [], m_to = [], m_type = MT_NORMAL, m_id = [], m_subject = [], m_body = []\<rparr>"

text \<open>
  \<open>im_alive\<close>: the dispatcher pointer is not null; \<open>im_notified\<close> counts the calls of the
  \<open>changed\<close> delegate, which is set while \<open>im_hooked\<close>.
\<close>

record imchannel =
  im_alive :: bool
  im_peer :: string
  im_state :: online_state
  im_input :: bytes
  im_hooked :: bool
  im_notified :: nat

definition im_new :: "string \<Rightarrow> online_state \<Rightarrow> imchannel" where
  "im_new peer st = \<lparr>im_alive = True, im_peer = peer, im_state = st, im_input = [],
                     im_hooked = False, im_notified = 0\<rparr>"

definition im_error :: "imchannel \<Rightarrow> error" where
  "im_error ch = (if \<not> im_alive ch then Closed else NoError)"

datatype channel_state = CH_Unconnected | CH_Connecting | CH_Connected | CH_Closing | CH_Other

definition im_channel_state :: "imchannel \<Rightarrow> channel_state" where
  "im_channel_state ch = (if \<not> im_alive ch then CH_Unconnected else CH_Connected)"

definition im_info :: "(unit \<Rightarrow> bool) \<Rightarrow> imchannel \<Rightarrow> channel_info" where
  "im_info authenticated ch =
     \<lparr>ci_delay = -1, ci_virtual = True,
      ci_authenticated = (if im_alive ch then authenticated () else False)\<rparr>"

definition im_signal :: "imchannel \<Rightarrow> imchannel" where
  "im_signal ch = (if im_hooked ch then ch\<lparr>im_notified := im_notified ch + 1\<rparr> else ch)"

subsection \<open>Writing\<close>

text \<open>
  The result is the error code, the codes handed to the result callback, and the client.
  The binary loop sends pieces until one is refused; it never uses the callback.
\<close>

function im_write_binary ::
  "(im_message \<Rightarrow> 'w \<Rightarrow> bool \<times> 'w) \<Rightarrow> string \<Rightarrow> bytes \<Rightarrow> nat \<Rightarrow> 'w \<Rightarrow> error \<times> 'w" where
  "im_write_binary snd_msg peer data pos w =
     (if pos < length data then
        (let len = min (length data - pos) 1024;
             part = take len (drop pos data);
             r = snd_msg (im_new_message\<lparr>m_to := peer, m_body := ''BNRY'' @ b64_encodeFromArray part\<rparr>) w
         in if \<not> fst r then (WriteError, snd r)
            else im_write_binary snd_msg peer data (pos + 1024) (snd r))
      else (NoError, w))"
  by pat_completeness auto
termination
  by (relation "measure (\<lambda>(_, _, data, pos, _). length data - pos)") auto

declare im_write_binary.simps [simp del]

definition im_write ::
  "(im_message \<Rightarrow> 'w \<Rightarrow> bool \<times> 'w) \<Rightarrow> bytes \<Rightarrow> imchannel \<Rightarrow> 'w \<Rightarrow>
   (error \<times> error list \<times> 'w) outcome" where
  "im_write snd_msg data ch w =
     (if \<not> im_alive ch then Done (ChannelError, [], w)
      else
        let binary = (case im_write_binary snd_msg (im_peer ch) data 0 w of (e, w') \<Rightarrow> Done (e, [], w'))
        in if length data < 256 then
             (case dg_decodeFrom data of
                Fault f \<Rightarrow> Fault f
              | Done (Inl _) \<Rightarrow> Done (InvalidArgument, [], w)
              | Done (Inr (d, _)) \<Rightarrow>
                  if dg_contentSize d = 0 \<and> ba_printable (ptr_bytes (dg_header d)) then
                    (let r = snd_msg (im_new_message\<lparr>m_to := im_peer ch,
                                                      m_body := ptr_bytes (dg_header d)\<rparr>) w
                     in Done (if fst r then NoError else WriteError, [NoError], snd r))
                  else binary)
           else binary)"

subsection \<open>Reading\<close>

definition im_read :: "int \<Rightarrow> imchannel \<Rightarrow> bytes option \<times> imchannel" where
  "im_read maxSize ch =
     (if maxSize < 0 then (Some (im_input ch), ch\<lparr>im_input := []\<rparr>)
      else
        let size = length (im_input ch)
        in if maxSize \<le> 0 \<or> size = 0 then (None, ch)
           else if maxSize < int size then
             (Some (take (nat maxSize) (im_input ch)), ch\<lparr>im_input := drop (nat maxSize) (im_input ch)\<rparr>)
           else (Some (im_input ch), ch\<lparr>im_input := []\<rparr>))"

interpretation im: byte_source im_read im_input
  by unfold_locales (auto simp: im_read_def Let_def)

text \<open>Collects what is written, for a client that accepts every message.\<close>

definition im_collect :: "im_message \<Rightarrow> im_message list \<Rightarrow> bool \<times> im_message list" where
  "im_collect m w = (True, w @ [m])"

subsection \<open>What the dispatcher does to a channel\<close>

definition im_invalidate :: "imchannel \<Rightarrow> imchannel" where
  "im_invalidate ch = im_signal (ch\<lparr>im_alive := False, im_state := OS_OFFLINE\<rparr>)"

definition im_setState :: "online_state \<Rightarrow> imchannel \<Rightarrow> imchannel" where
  "im_setState st ch = (if st \<noteq> im_state ch then im_signal (ch\<lparr>im_state := st\<rparr>) else ch)"

definition im_pushMessage :: "im_message \<Rightarrow> imchannel \<Rightarrow> imchannel outcome" where
  "im_pushMessage m ch =
     (let body = m_body m
      in if length body > 3 \<and> take 4 body = ''BNRY'' then
           (case b64_decodeToArray (drop 4 body) of
              Fault f \<Rightarrow> Fault f
            | Done data \<Rightarrow> Done (im_signal (ch\<lparr>im_input := im_input ch @ data\<rparr>)))
         else
           (case dg_encode \<lparr>dg_header = Some body, dg_content = None\<rparr> of
              None \<Rightarrow> Fault AssertFailed
            | Some data \<Rightarrow> Done (im_signal (ch\<lparr>im_input := im_input ch @ data\<rparr>))))"

definition im_close :: "imchannel \<Rightarrow> imchannel \<times> error list" where
  "im_close ch = (ch, [NoError])"

fun im_push_all :: "im_message list \<Rightarrow> imchannel \<Rightarrow> imchannel outcome" where
  "im_push_all [] ch = Done ch"
| "im_push_all (m # ms) ch =
     (case im_pushMessage m ch of Fault f \<Rightarrow> Fault f | Done ch' \<Rightarrow> im_push_all ms ch')"

lemma im_input_signal [simp]: "im_input (im_signal ch) = im_input ch"
  by (simp add: im_signal_def)

lemma im_push_all_append:
  "im_push_all (xs @ ys) ch =
     (case im_push_all xs ch of Fault f \<Rightarrow> Fault f | Done ch' \<Rightarrow> im_push_all ys ch')"
  by (induction xs arbitrary: ch) (auto split: outcome.splits)

lemma im_push_binary:
  "im_pushMessage (im_new_message\<lparr>m_to := p, m_body := ''BNRY'' @ b64_encodeFromArray part\<rparr>) ch =
     Done (im_signal (ch\<lparr>im_input := im_input ch @ part\<rparr>))"
  using b64_decode_from_encode [of "[]" part "[]"]
  by (simp add: im_pushMessage_def b64_decodeToArray_def b64_encodeFromArray_def)

abbreviation im_piece :: "bytes \<Rightarrow> nat \<Rightarrow> bytes" where
  "im_piece data pos \<equiv> take (min (length data - pos) 1024) (drop pos data)"

lemma im_piece_rest: "im_piece data pos @ drop (pos + 1024) data = drop pos data"
  using append_take_drop_id [of 1024 "drop pos data"]
  by (cases "length data - pos \<le> 1024") (simp_all add: min_def add.commute)

lemma im_write_binary_step:
  assumes "pos < length data"
  shows "im_write_binary im_collect p data pos w =
    im_write_binary im_collect p data (pos + 1024)
      (w @ [im_new_message\<lparr>m_to := p, m_body := ''BNRY'' @ b64_encodeFromArray (im_piece data pos)\<rparr>])"
  using assms by (subst im_write_binary.simps) (simp add: im_collect_def Let_def)

lemma im_write_binary_collect:
  "\<exists>ms. im_write_binary im_collect p data pos w = (NoError, w @ ms) \<and>
     (\<forall>ch. \<exists>ch'. im_push_all ms ch = Done ch' \<and> im_input ch' = im_input ch @ drop pos data)"
proof (induction "length data - pos" arbitrary: pos w rule: less_induct)
  case less
  show ?case
  proof (cases "pos < length data")
    case False
    then show ?thesis by (subst im_write_binary.simps) auto
  next
    case True
    let ?m = "im_new_message\<lparr>m_to := p, m_body := ''BNRY'' @ b64_encodeFromArray (im_piece data pos)\<rparr>"
    have "length data - (pos + 1024) < length data - pos" using True by simp
    from less [OF this, of "w @ [?m]"] obtain ms
      where ms: "im_write_binary im_collect p data (pos + 1024) (w @ [?m]) = (NoError, (w @ [?m]) @ ms)"
      and rec: "\<And>ch. \<exists>ch'. im_push_all ms ch = Done ch' \<and> im_input ch' = im_input ch @ drop (pos + 1024) data"
      by blast
    have "\<exists>ch'. im_push_all (?m # ms) ch = Done ch' \<and> im_input ch' = im_input ch @ drop pos data" for ch
      using rec [of "im_signal (ch\<lparr>im_input := im_input ch @ im_piece data pos\<rparr>)"]
        im_piece_rest [of data pos]
      by (simp only: im_push_all.simps im_push_binary outcome.case) (auto simp flip: append.assoc)
    then show ?thesis
      using ms im_write_binary_step [OF True, of p w]
      by (metis append.assoc append_Cons append_Nil)
  qed
qed

text \<open>
  C31. Whatever bytes form one datagram, writing them to an IM channel whose client accepts
  messages and delivering these messages at the other side appends exactly the same bytes to
  the receiving channel's input.  The header must not imitate the binary marker.
\<close>

theorem im_transfer:
  assumes alive: "im_alive ch" and enc: "dg_encode d = Some data"
    and mark: "take 4 (ptr_bytes (dg_header d)) \<noteq> ''BNRY''"
  shows "\<exists>cb ms. im_write im_collect data ch [] = Done (NoError, cb, ms) \<and>
     (\<exists>rx'. im_push_all ms rx = Done rx' \<and> im_input rx' = im_input rx @ data)"
proof -
  obtain ms where bin: "im_write_binary im_collect (im_peer ch) data 0 [] = (NoError, ms)"
    and push: "\<exists>rx'. im_push_all ms rx = Done rx' \<and> im_input rx' = im_input rx @ data"
    using im_write_binary_collect [of "im_peer ch" data 0 "[]"] by auto
  show ?thesis
  proof (cases "length data < 256")
    case False
    with alive bin push show ?thesis by (simp add: im_write_def)
  next
    case True
    then have "dg_encodedSize d < 2 ^ 32" using dg_encode_length [OF enc] by simp
    then have dec: "dg_decodeFrom data = Done (Inr (dg_filled d, dg_encodedSize d))"
      using datagram_decode_encode [OF enc, of "[]"] by simp
    show ?thesis
    proof (cases "dg_contentSize (dg_filled d) = 0 \<and> ba_printable (ptr_bytes (dg_header d))")
      case False
      with alive bin push True dec show ?thesis by (auto simp: im_write_def dg_filled_def)
    next
      case plain: True
      then have data: "data = be32 (ptr_size (dg_header d)) @ be32 0 @ ptr_bytes (dg_header d)"
        and "ptr_size (dg_header d) \<le> max_len"
        using enc by (auto simp: dg_encode_Some dg_contentSize_def dg_filled_def)
      with alive plain True dec mark show ?thesis
        by (auto simp: im_write_def im_collect_def dg_filled_def im_pushMessage_def dg_encode_def
            im_new_message_def)
    qed
  qed
qed

lemma im_transfer_witness:
  "\<exists>cb ms. im_write im_collect (the (dg_encode \<lparr>dg_header = Some ''hello'', dg_content = Some ''xyz''\<rparr>))
       (im_new ''bob'' OS_ONLINE) [] = Done (NoError, cb, ms) \<and>
     (\<exists>rx'. im_push_all ms (im_new ''al'' OS_ONLINE) = Done rx' \<and>
        im_input rx' = im_input (im_new ''al'' OS_ONLINE) @
          the (dg_encode \<lparr>dg_header = Some ''hello'', dg_content = Some ''xyz''\<rparr>))"
  by (rule im_transfer [where d = "\<lparr>dg_header = Some ''hello'', dg_content = Some ''xyz''\<rparr>"])
    (simp_all add: im_new_def dg_encode_def)

fun im_deliver :: "bytes list \<Rightarrow> dreader \<Rightarrow> imchannel \<Rightarrow> datagram list \<Rightarrow>
   (datagram list \<times> error \<times> dreader \<times> imchannel) option" where
  "im_deliver [] r ch acc = dr_drain im_read r ch acc"
| "im_deliver (p # ps) r ch acc =
     (case dr_drain im_read r (ch\<lparr>im_input := im_input ch @ p\<rparr>) acc of
        None \<Rightarrow> None
      | Some (acc', e, r', ch') \<Rightarrow> im_deliver ps r' ch' acc')"

lemma im_deliver_parse:
  assumes "dr_ok r" and "dg_parse (dr_pending r @ im_input ch @ concat ps) = (ds, rest, NotEnough)"
  shows "\<exists>r' ch'. im_deliver ps r ch acc = Some (acc @ ds, NotEnough, r', ch')"
  using assms
proof (induction ps arbitrary: r ch acc ds)
  case Nil
  then show ?case
    using im.drain_parse [of r ch ds rest NotEnough acc] by auto
next
  case (Cons p ps)
  let ?ch = "ch\<lparr>im_input := im_input ch @ p\<rparr>"
  obtain ds1 rest1 e1 where p1: "dg_parse (dr_pending r @ im_input ?ch) = (ds1, rest1, e1)"
    by (metis prod_cases3)
  have e1: "e1 = NotEnough"
    using Cons.prems(2) dg_parse_toomuch [of "dr_pending r @ im_input ?ch" ds1 rest1 "concat ps"] p1
      dg_parse_error [OF p1]
    by auto
  obtain r' ch' where d: "dr_drain im_read r ?ch acc = Some (acc @ ds1, NotEnough, r', ch')"
    and ok: "dr_ok r'" "dr_pending r' = rest1" "im_input ch' = []"
    using im.drain_parse [OF Cons.prems(1) p1, of acc] e1 by auto
  obtain ds2 where ds2: "dg_parse (rest1 @ concat ps) = (ds2, rest, NotEnough)" "ds = ds1 @ ds2"
    using dg_parse_append [OF p1 [unfolded e1], of "concat ps"] Cons.prems(2)
    by (cases "dg_parse (rest1 @ concat ps)") auto
  with ok Cons.IH [of r' ch' ds2 "acc @ ds1"] d show ?case by auto
qed

text \<open>
  C19. However the bytes of a sender's datagrams are cut into deliveries, a reader that drains
  the channel after each delivery gets exactly the sender's datagrams, and waits for more.
\<close>

theorem im_reassembly:
  assumes "dg_stream ds = Some (concat ps)"
  shows "\<exists>r' ch'. im_deliver ps dr_init (im_new peer st) [] = Some (map dg_filled ds, NotEnough, r', ch')"
  using im_deliver_parse [of dr_init "im_new peer st" ps "map dg_filled ds" "[]" "[]"]
    dg_parse_stream [OF assms]
  by (simp add: im_new_def)

lemma im_reassembly_witness:
  "\<exists>r' ch'. im_deliver [take 3 (be32 1 @ be32 0 @ ''a''), drop 3 (be32 1 @ be32 0 @ ''a'')]
       dr_init (im_new ''al'' OS_ONLINE) [] =
     Some (map dg_filled [\<lparr>dg_header = Some ''a'', dg_content = None\<rparr>], NotEnough, r', ch')"
  by (rule im_reassembly) (simp add: dg_encode_def)

text \<open>
  A write that takes the binary way is accepted without ever running its result callback,
  although the small text way reports success to it.
\<close>

lemma im_binary_drops_callback:
  assumes "im_alive ch" and "length data \<ge> 256"
  shows "\<exists>e w'. im_write snd_msg data ch w = Done (e, [], w')"
  using assms by (auto simp: im_write_def split: prod.splits)

lemma im_binary_drops_callback_witness:
  "\<exists>e w'. im_write im_collect (replicate 300 (CHR ''x'')) (im_new ''bob'' OS_ONLINE) [] = Done (e, [], w')"
  by (rule im_binary_drops_callback) (simp_all add: im_new_def)

end
