(* ===== verification/Sf_Time.thy ===== *)
theory Sf_Time
  imports Sf_Prelude
begin

text \<open>
  Points in time (\<open>sf::Time\<close>, a \<open>boost::posix_time::ptime\<close> with its two infinities) and the
  timeout helpers of \<open>libschnee/schnee/sftypes.h\<close>, in milliseconds.
\<close>

datatype time = NegInf | At int | PosInf

instantiation time :: linorder
begin

fun less_time :: "time \<Rightarrow> time \<Rightarrow> bool" where
  "less_time NegInf t \<longleftrightarrow> t \<noteq> NegInf"
| "less_time (At x) (At y) \<longleftrightarrow> x < y"
| "less_time (At x) t \<longleftrightarrow> t = PosInf"
| "less_time PosInf t \<longleftrightarrow> False"

definition less_eq_time :: "time \<Rightarrow> time \<Rightarrow> bool" where
  "less_eq_time s t \<longleftrightarrow> s < t \<or> s = t"

instance
proof
  fix x y z :: time
  show "x < y \<longleftrightarrow> x \<le> y \<and> \<not> y \<le> x"
    by (cases x; cases y) (auto simp: less_eq_time_def)
  show "x \<le> x" by (simp add: less_eq_time_def)
  show "x \<le> y \<Longrightarrow> y \<le> z \<Longrightarrow> x \<le> z"
    by (cases x; cases y; cases z) (auto simp: less_eq_time_def)
  show "x \<le> y \<Longrightarrow> y \<le> x \<Longrightarrow> x = y"
    by (cases x; cases y) (auto simp: less_eq_time_def)
  show "x \<le> y \<or> y \<le> x"
    by (cases x; cases y) (auto simp: less_eq_time_def)
qed

end

definition futureInMs :: "int \<Rightarrow> int \<Rightarrow> time" where
  "futureInMs now ms = At (now + ms)"

definition regTimeOutMs :: "int \<Rightarrow> int \<Rightarrow> time" where
  "regTimeOutMs now ms = (if ms < 0 then PosInf else futureInMs now ms)"

lemma At_le [simp]: "At x \<le> At y \<longleftrightarrow> x \<le> y" and PosInf_le_At [simp]: "\<not> PosInf \<le> At y"
  and le_PosInf [simp]: "t \<le> PosInf" and NegInf_le [simp]: "NegInf \<le> t"
  by (auto simp: less_eq_time_def) (cases t; simp)+

end
