(* ===== verification/Sf_AsyncOp.thy ===== *)
theory Sf_AsyncOp
  imports Sf_Time
begin

text \<open>
  \<open>AsyncOpBase\<close> (\<open>libschnee/schnee/tools/async/AsyncOpBase.h\<close>, \<open>AsyncOpBase.cpp\<close>): the table
  of pending asynchronous operations every protocol component inherits.  Operations are found
  by id and leave the table when they are fetched, cancelled by key, or timed out; one timer
  is kept for the earliest of them.

  An operation carries its subclass's fields as \<open>op_data\<close> and its pointer value as
  \<open>op_addr\<close>, by which operations with equal timeouts are ordered.  The virtual \<open>onCancel\<close> is
  a parameter: it runs on the whole state \<open>'s\<close> of the owner (\<open>get\<close> and \<open>put\<close> give access to
  the inherited table), so it may itself add or fetch operations, as the code allows.
\<close>

record 'p aop =
  op_id :: int
  op_key :: int
  op_type :: int
  op_state :: int
  op_timeOut :: time
  op_addr :: nat
  op_data :: 'p

definition new_op :: "int \<Rightarrow> time \<Rightarrow> nat \<Rightarrow> 'p \<Rightarrow> 'p aop" where
  "new_op type t addr p = \<lparr>op_id = 0, op_key = 0, op_type = type, op_state = 0, op_timeOut = t,
                          op_addr = addr, op_data = p\<rparr>"

definition lastingTimeMs :: "int \<Rightarrow> rat \<Rightarrow> 'p aop \<Rightarrow> int" where
  "lastingTimeMs now factor op =
     (case op_timeOut op of
        PosInf \<Rightarrow> -1
      | NegInf \<Rightarrow> 0
      | At t \<Rightarrow> if t - now < 0 then 0 else \<lfloor>rat_of_int (t - now) * factor\<rfloor>)"

record 'p async_base =
  ab_ops :: "'p aop list"
  ab_map :: "(int, 'p aop) smap"
  ab_nextId :: int
  ab_count :: int
  ab_timer :: "time option"

definition ab_init :: "'p async_base" where
  "ab_init = \<lparr>ab_ops = [], ab_map = [], ab_nextId = 1, ab_count = 0, ab_timer = None\<rparr>"

text \<open>\<open>TimeOutComparator\<close>, and the \<open>std::set\<close> ordered by it.\<close>

definition op_before :: "'p aop \<Rightarrow> 'p aop \<Rightarrow> bool" where
  "op_before a b \<longleftrightarrow>
     (if op_timeOut a = op_timeOut b then op_addr a < op_addr b else op_timeOut a < op_timeOut b)"

fun ops_insert :: "'p aop \<Rightarrow> 'p aop list \<Rightarrow> 'p aop list" where
  "ops_insert a [] = [a]"
| "ops_insert a (b # bs) =
     (if op_before a b then a # b # bs
      else if op_before b a then b # ops_insert a bs
      else b # bs)"

definition ops_erase :: "'p aop \<Rightarrow> 'p aop list \<Rightarrow> 'p aop list" where
  "ops_erase a bs = filter (\<lambda>b. op_before a b \<or> op_before b a) bs"

subsection \<open>Operations\<close>

definition genFreeId :: "'p async_base \<Rightarrow> int \<times> 'p async_base" where
  "genFreeId b = (ab_nextId b, b\<lparr>ab_nextId := ab_nextId b + 1\<rparr>)"

definition addAsyncOp :: "'p aop \<Rightarrow> 'p async_base \<Rightarrow> int \<times> 'p async_base" where
  "addAsyncOp op b =
     (let op1 = (if op_id op = 0 then op\<lparr>op_id := ab_nextId b\<rparr> else op);
          b1 = (if op_id op = 0 then b\<lparr>ab_nextId := ab_nextId b + 1\<rparr> else b);
          ops = ops_insert op1 (ab_ops b1)
      in (op_id op1,
          b1\<lparr>ab_ops := ops,
             ab_map := sm_insert (op_id op1) op1 (ab_map b1),
             ab_count := ab_count b1 + 1,
             ab_timer := Some (op_timeOut (hd ops))\<rparr>))"

definition ab_remove :: "'p aop \<Rightarrow> int \<Rightarrow> 'p async_base \<Rightarrow> 'p async_base" where
  "ab_remove op i b =
     b\<lparr>ab_ops := ops_erase op (ab_ops b), ab_map := sm_erase i (ab_map b),
       ab_count := ab_count b - 1\<rparr>"

definition getReadyAsyncOp :: "int \<Rightarrow> 'p async_base \<Rightarrow> 'p aop option \<times> 'p async_base" where
  "getReadyAsyncOp i b =
     (case map_of (ab_map b) i of
        None \<Rightarrow> (None, b)
      | Some op \<Rightarrow> (Some op, ab_remove op i b))"

text \<open>The typed variants delete an operation of the wrong type or state.\<close>

definition getReadyAsyncOpOf :: "int \<Rightarrow> int \<Rightarrow> 'p async_base \<Rightarrow> 'p aop option \<times> 'p async_base" where
  "getReadyAsyncOpOf i type b =
     (case getReadyAsyncOp i b of
        (None, b') \<Rightarrow> (None, b')
      | (Some op, b') \<Rightarrow> if op_type op = type then (Some op, b') else (None, b'))"

definition getReadyAsyncOpInState ::
  "int \<Rightarrow> int \<Rightarrow> int \<Rightarrow> 'p async_base \<Rightarrow> 'p aop option \<times> 'p async_base" where
  "getReadyAsyncOpInState i type desired b =
     (case getReadyAsyncOpOf i type b of
        (None, b') \<Rightarrow> (None, b')
      | (Some op, b') \<Rightarrow> if op_state op \<noteq> desired then (None, b') else (Some op, b'))"

definition forEachAsyncOp :: "('p aop \<Rightarrow> 'a \<Rightarrow> 'a) \<Rightarrow> 'p async_base \<Rightarrow> 'a \<Rightarrow> 'a" where
  "forEachAsyncOp f b a = fold (\<lambda>p. f (snd p)) (ab_map b) a"

text \<open>
  \<open>cancelAsyncOps\<close> starts again at the first entry after every cancellation, since
  \<open>onCancel\<close> may have changed the table; \<open>onTimer\<close> likewise always looks at the first
  operation.  Handlers that keep adding operations would keep either busy for ever: \<open>None\<close>.
\<close>

partial_function (option) cancelAsyncOps ::
  "('s \<Rightarrow> 'p async_base) \<Rightarrow> ('p async_base \<Rightarrow> 's \<Rightarrow> 's) \<Rightarrow> (error \<Rightarrow> 'p aop \<Rightarrow> 's \<Rightarrow> 's) \<Rightarrow>
   int \<Rightarrow> error \<Rightarrow> 's \<Rightarrow> 's option" where
  "cancelAsyncOps get put h key err s =
     (case find (\<lambda>p. op_key (snd p) = key) (ab_map (get s)) of
        None \<Rightarrow> Some s
      | Some (i, op) \<Rightarrow>
          cancelAsyncOps get put h key err (h err op (put (ab_remove op i (get s)) s)))"

partial_function (option) expireAsyncOps ::
  "('s \<Rightarrow> 'p async_base) \<Rightarrow> ('p async_base \<Rightarrow> 's \<Rightarrow> 's) \<Rightarrow> (error \<Rightarrow> 'p aop \<Rightarrow> 's \<Rightarrow> 's) \<Rightarrow>
   time \<Rightarrow> 's \<Rightarrow> 's option" where
  "expireAsyncOps get put h ct s =
     (case ab_ops (get s) of
        [] \<Rightarrow> Some s
      | op # _ \<Rightarrow>
          if op_timeOut op \<le> ct then
            expireAsyncOps get put h ct (h TimeOut op (put (ab_remove op (op_id op) (get s)) s))
          else Some s)"

definition onTimer ::
  "('s \<Rightarrow> 'p async_base) \<Rightarrow> ('p async_base \<Rightarrow> 's \<Rightarrow> 's) \<Rightarrow> (error \<Rightarrow> 'p aop \<Rightarrow> 's \<Rightarrow> 's) \<Rightarrow>
   time \<Rightarrow> 's \<Rightarrow> 's option" where
  "onTimer get put h ct s =
     (case expireAsyncOps get put h ct (put ((get s)\<lparr>ab_timer := None\<rparr>) s) of
        None \<Rightarrow> None
      | Some s' \<Rightarrow>
          (case ab_ops (get s') of
             [] \<Rightarrow> Some s'
           | op # _ \<Rightarrow> Some (put ((get s')\<lparr>ab_timer := Some (op_timeOut op)\<rparr>) s')))"

subsection \<open>The table's invariant\<close>

text \<open>
  List and map hold the same operations, under their own ids, which are below the next id;
  the list is in order; a timer is armed no later than the first operation's timeout, so no
  pending operation can be forgotten.
\<close>

definition ab_same :: "'p async_base \<Rightarrow> bool" where
  "ab_same b \<longleftrightarrow>
     (\<forall>op. op \<in> set (ab_ops b) \<longleftrightarrow> map_of (ab_map b) (op_id op) = Some op) \<and>
     (\<forall>i op. map_of (ab_map b) i = Some op \<longrightarrow> op_id op = i \<and> 0 < i \<and> i < ab_nextId b) \<and>
     distinct (map op_addr (ab_ops b))"

definition ab_timed :: "'p async_base \<Rightarrow> bool" where
  "ab_timed b \<longleftrightarrow> (\<forall>op \<in> set (ab_ops b). \<exists>t. ab_timer b = Some t \<and> t \<le> op_timeOut op)"

definition ab_wf :: "'p async_base \<Rightarrow> bool" where
  "ab_wf b \<longleftrightarrow> sm_ok (ab_map b) \<and> sorted_wrt op_before (ab_ops b) \<and> ab_same b \<and>
     ab_count b = int (length (ab_map b)) \<and> 0 < ab_nextId b"

definition ab_ok :: "'p async_base \<Rightarrow> bool" where
  "ab_ok b \<longleftrightarrow> ab_wf b \<and> ab_timed b"

text \<open>An operation that may be added: allocated, not in the table, its id not in use.\<close>

definition op_fresh :: "'p aop \<Rightarrow> 'p async_base \<Rightarrow> bool" where
  "op_fresh op b \<longleftrightarrow> op_addr op \<notin> op_addr ` set (ab_ops b) \<and>
     (op_id op \<noteq> 0 \<longrightarrow> 0 < op_id op \<and> op_id op < ab_nextId b \<and> map_of (ab_map b) (op_id op) = None)"

lemma op_before_irrefl [simp]: "\<not> op_before a a"
  by (simp add: op_before_def)

lemma op_before_trans: "op_before a b \<Longrightarrow> op_before b c \<Longrightarrow> op_before a c"
  by (auto simp: op_before_def split: if_splits)

lemma op_before_total: "op_addr a \<noteq> op_addr b \<Longrightarrow> op_before a b \<or> op_before b a"
  by (auto simp: op_before_def)

lemma op_before_timeOut: "op_before a b \<Longrightarrow> op_timeOut a \<le> op_timeOut b"
  by (auto simp: op_before_def split: if_splits)

lemma set_ops_insert:
  "op_addr a \<notin> op_addr ` set bs \<Longrightarrow> set (ops_insert a bs) = insert a (set bs)"
  by (induction bs) (auto dest: op_before_total)

lemma ops_insert_sorted:
  assumes "sorted_wrt op_before bs" and "op_addr a \<notin> op_addr ` set bs"
  shows "sorted_wrt op_before (ops_insert a bs)"
  using assms
proof (induction bs)
  case (Cons b bs)
  then have "op_before a b \<or> op_before b a"
    using op_before_total [of a b] by auto
  with Cons show ?case
    by (auto simp: set_ops_insert dest: op_before_trans)
qed simp

lemma ops_insert_not_Nil [simp]: "ops_insert a bs \<noteq> []"
  by (cases bs) auto

lemma distinct_ops_insert:
  "op_addr a \<notin> op_addr ` set bs \<Longrightarrow> distinct (map op_addr bs) \<Longrightarrow>
     distinct (map op_addr (ops_insert a bs))"
  by (induction bs) (auto simp: set_ops_insert)

lemma ops_erase_eq:
  "distinct (map op_addr bs) \<Longrightarrow> a \<in> set bs \<Longrightarrow> ops_erase a bs = filter (\<lambda>b. b \<noteq> a) bs"
  unfolding ops_erase_def
  by (rule filter_cong) (auto dest: op_before_total simp: distinct_map inj_on_def)

lemma ab_wf_mapD:
  "ab_wf b \<Longrightarrow> map_of (ab_map b) i = Some op \<Longrightarrow> op \<in> set (ab_ops b) \<and> op_id op = i \<and> 0 < i \<and> i < ab_nextId b"
  unfolding ab_wf_def ab_same_def by blast

lemma ab_wf_opsD: "ab_wf b \<Longrightarrow> op \<in> set (ab_ops b) \<Longrightarrow> map_of (ab_map b) (op_id op) = Some op"
  unfolding ab_wf_def ab_same_def by blast

lemma ab_ok_init [simp, sf_inv]: "ab_ok ab_init"
  by (simp add: ab_ok_def ab_wf_def ab_same_def ab_timed_def ab_init_def)

lemma sm_erase_absent: "map_of m k = None \<Longrightarrow> sm_erase k m = m"
  by (simp add: sm_erase_def filter_id_conv map_of_eq_None_iff) force

lemma sm_erase_length: "sm_ok m \<Longrightarrow> map_of m k = Some v \<Longrightarrow> length m = Suc (length (sm_erase k m))"
proof (induction m)
  case (Cons p m)
  obtain j w where p: "p = (j, w)" by (cases p)
  show ?case
  proof (cases "j = k")
    case True
    with Cons.prems p have "map_of m k = None"
      by (auto simp: map_of_eq_None_iff)
    with True p show ?thesis by (simp add: sm_erase_def sm_erase_absent [unfolded sm_erase_def])
  next
    case False
    with Cons p show ?thesis by (simp add: sm_erase_def)
  qed
qed simp

lemma sm_insert_length: "map_of m k = None \<Longrightarrow> length (sm_insert k v m) = Suc (length m)"
  by (induction k v m rule: sm_insert.induct) (auto split: if_splits)

lemma ops_insert_hd_le:
  assumes "sorted_wrt op_before bs" and "op_addr a \<notin> op_addr ` set bs" and "x \<in> set (ops_insert a bs)"
  shows "op_timeOut (hd (ops_insert a bs)) \<le> op_timeOut x"
proof -
  have "sorted_wrt op_before (ops_insert a bs)" using assms(1,2) by (rule ops_insert_sorted)
  with assms(3) show ?thesis
    by (cases "ops_insert a bs") (auto dest: op_before_timeOut)
qed

subsection \<open>Every operation keeps the invariant\<close>

lemma ab_sameI:
  assumes "\<And>op. op \<in> set (ab_ops b) \<longleftrightarrow> map_of (ab_map b) (op_id op) = Some op"
    and "\<And>i op. map_of (ab_map b) i = Some op \<Longrightarrow> op_id op = i"
    and "\<And>i op. map_of (ab_map b) i = Some op \<Longrightarrow> 0 < i \<and> i < ab_nextId b"
    and "distinct (map op_addr (ab_ops b))"
  shows "ab_same b"
  unfolding ab_same_def using assms by blast

lemma ab_wf_memD: "ab_wf b \<Longrightarrow> op \<in> set (ab_ops b) \<longleftrightarrow> map_of (ab_map b) (op_id op) = Some op"
  unfolding ab_wf_def ab_same_def by blast

lemma ab_wf_idD: "ab_wf b \<Longrightarrow> map_of (ab_map b) i = Some op \<Longrightarrow> op_id op = i"
  and ab_wf_boundD: "ab_wf b \<Longrightarrow> map_of (ab_map b) i = Some op \<Longrightarrow> 0 < i \<and> i < ab_nextId b"
  unfolding ab_wf_def ab_same_def by blast+

lemma ab_wf_addrD: "ab_wf b \<Longrightarrow> distinct (map op_addr (ab_ops b))"
  unfolding ab_wf_def ab_same_def by blast

lemma ab_wf_headD:
  assumes "ab_wf b" and "ab_ops b = op # ops" and "x \<in> set (ab_ops b)"
  shows "op_timeOut op \<le> op_timeOut x"
proof -
  have "sorted_wrt op_before (op # ops)" using assms(1,2) by (simp add: ab_wf_def)
  with assms(2,3) show ?thesis by (auto dest: op_before_timeOut)
qed

lemma genFreeId_ok [sf_inv]:
  assumes "ab_ok b"
  shows "ab_ok (snd (genFreeId b))"
proof -
  have wf: "ab_wf b" using assms by (simp add: ab_ok_def)
  have "ab_same (snd (genFreeId b))"
    by (rule ab_sameI; simp add: genFreeId_def ab_wf_memD [OF wf] ab_wf_addrD [OF wf])
      (use ab_wf_idD [OF wf] ab_wf_boundD [OF wf] in \<open>force+\<close>)
  then show ?thesis using assms
    by (simp add: ab_ok_def ab_wf_def ab_timed_def genFreeId_def)
qed

lemma genFreeId_fresh:
  assumes "ab_ok b" and "genFreeId b = (i, b')" and "op_addr op \<notin> op_addr ` set (ab_ops b)" and "op_id op = i"
  shows "op_fresh op b'"
proof -
  have "map_of (ab_map b) (ab_nextId b) = None"
    using assms(1) by (cases "map_of (ab_map b) (ab_nextId b)") (auto simp: ab_ok_def dest: ab_wf_mapD)
  with assms show ?thesis by (auto simp: op_fresh_def genFreeId_def ab_ok_def ab_wf_def)
qed

lemma addAsyncOp_ok:
  assumes ok: "ab_ok b" and fresh: "op_fresh op b" and add: "addAsyncOp op b = (i, b')"
  shows "ab_ok b'" "map_of (ab_map b') = (map_of (ab_map b))(i \<mapsto> op\<lparr>op_id := i\<rparr>)" "i \<noteq> 0"
    "map_of (ab_map b) i = None" "0 < i \<and> i < ab_nextId b'"
proof -
  define n where "n = (if op_id op = 0 then ab_nextId b + 1 else ab_nextId b)"
  have wf: "ab_wf b" using ok by (simp add: ab_ok_def)
  have i: "i = (if op_id op = 0 then ab_nextId b else op_id op)"
    using add by (simp add: addAsyncOp_def Let_def split: if_splits)
  have none: "map_of (ab_map b) i = None"
    using fresh wf i by (cases "map_of (ab_map b) (ab_nextId b)")
      (auto simp: op_fresh_def dest: ab_wf_mapD split: if_splits)
  have pos: "0 < i" "i < n" "0 < n" "ab_nextId b \<le> n"
    using fresh wf i by (auto simp: op_fresh_def ab_wf_def n_def)
  let ?op = "op\<lparr>op_id := i\<rparr>"
  have addr: "op_addr ?op \<notin> op_addr ` set (ab_ops b)"
    using fresh by (simp add: op_fresh_def)
  have b': "b' = b\<lparr>ab_nextId := n, ab_ops := ops_insert ?op (ab_ops b),
      ab_map := sm_insert i ?op (ab_map b), ab_count := ab_count b + 1,
      ab_timer := Some (op_timeOut (hd (ops_insert ?op (ab_ops b))))\<rparr>"
    using add i by (auto simp: addAsyncOp_def Let_def n_def split: if_splits)
  show "map_of (ab_map b') = (map_of (ab_map b))(i \<mapsto> ?op)" using b' by simp
  show "i \<noteq> 0" "map_of (ab_map b) i = None" "0 < i \<and> i < ab_nextId b'"
    using pos none b' by auto
  have "ab_same b'"
  proof (rule ab_sameI)
    show "op \<in> set (ab_ops b') \<longleftrightarrow> map_of (ab_map b') (op_id op) = Some op" for op
      using addr none by (auto simp: b' set_ops_insert ab_wf_memD [OF wf])
    show "map_of (ab_map b') j = Some q \<Longrightarrow> op_id q = j" for j q
      using ab_wf_idD [OF wf] by (auto simp: b' split: if_splits)
    show "map_of (ab_map b') j = Some q \<Longrightarrow> 0 < j \<and> j < ab_nextId b'" for j q
      using ab_wf_boundD [OF wf, of j q] pos by (auto simp: b' split: if_splits)
    show "distinct (map op_addr (ab_ops b'))"
      using addr ab_wf_addrD [OF wf] by (simp add: b' distinct_ops_insert)
  qed
  moreover have "ab_timed b'"
    using wf addr ops_insert_hd_le [of "ab_ops b" ?op]
    by (auto simp: ab_timed_def b' ab_wf_def)
  ultimately show "ab_ok b'"
    using wf pos addr none
    by (simp add: ab_ok_def ab_wf_def b' ops_insert_sorted sm_insert_length)
qed

lemma ab_remove_props:
  assumes "ab_wf b" and "map_of (ab_map b) i = Some op"
  shows "ab_wf (ab_remove op i b)" "set (ab_ops (ab_remove op i b)) = set (ab_ops b) - {op}"
    "map_of (ab_map (ab_remove op i b)) = (map_of (ab_map b))(i := None)"
    "ab_timer (ab_remove op i b) = ab_timer b" "ab_nextId (ab_remove op i b) = ab_nextId b"
proof -
  from assms have op: "op \<in> set (ab_ops b)" "op_id op = i" by (auto dest: ab_wf_mapD)
  have er: "ops_erase op (ab_ops b) = filter (\<lambda>q. q \<noteq> op) (ab_ops b)"
    using assms(1) op by (intro ops_erase_eq) (auto simp: ab_wf_def ab_same_def)
  show "set (ab_ops (ab_remove op i b)) = set (ab_ops b) - {op}"
    by (auto simp: ab_remove_def er)
  show "map_of (ab_map (ab_remove op i b)) = (map_of (ab_map b))(i := None)"
    "ab_timer (ab_remove op i b) = ab_timer b" "ab_nextId (ab_remove op i b) = ab_nextId b"
    by (simp_all add: ab_remove_def)
  note wf = assms(1)
  have "ab_same (ab_remove op i b)"
  proof (rule ab_sameI)
    show "q \<in> set (ab_ops (ab_remove op i b)) \<longleftrightarrow>
        map_of (ab_map (ab_remove op i b)) (op_id q) = Some q" for q
      using assms(2) op(2) by (auto simp: ab_remove_def er ab_wf_memD [OF wf])
    show "map_of (ab_map (ab_remove op i b)) j = Some q \<Longrightarrow> op_id q = j" for j q
      using ab_wf_idD [OF wf] by (auto simp: ab_remove_def split: if_splits)
    show "map_of (ab_map (ab_remove op i b)) j = Some q \<Longrightarrow>
        0 < j \<and> j < ab_nextId (ab_remove op i b)" for j q
      using ab_wf_boundD [OF wf, of j q] by (auto simp: ab_remove_def split: if_splits)
    show "distinct (map op_addr (ab_ops (ab_remove op i b)))"
      using ab_wf_addrD [OF wf] by (simp add: ab_remove_def er distinct_map_filter)
  qed
  moreover have "int (length (ab_map b)) - 1 = int (length (sm_erase i (ab_map b)))"
    using assms by (simp add: ab_wf_def sm_erase_length)
  ultimately show "ab_wf (ab_remove op i b)"
    using assms(1) by (simp add: ab_wf_def ab_remove_def er sorted_wrt_filter)
qed

lemma ab_remove_ok:
  assumes "ab_ok b" and "map_of (ab_map b) i = Some op"
  shows "ab_ok (ab_remove op i b)"
  using assms ab_remove_props [of b i op]
  by (auto simp: ab_ok_def ab_timed_def)

lemma getReadyAsyncOp_ok [sf_inv]:
  "ab_ok b \<Longrightarrow> ab_ok (snd (getReadyAsyncOp i b))"
  by (auto simp: getReadyAsyncOp_def ab_remove_ok split: option.split)

lemma getReadyAsyncOpOf_ok [sf_inv]: "ab_ok b \<Longrightarrow> ab_ok (snd (getReadyAsyncOpOf i ty b))"
  using getReadyAsyncOp_ok [of b i]
  by (auto simp: getReadyAsyncOpOf_def split: prod.splits option.splits)

lemma getReadyAsyncOpInState_ok [sf_inv]:
  "ab_ok b \<Longrightarrow> ab_ok (snd (getReadyAsyncOpInState i ty st b))"
  using getReadyAsyncOpOf_ok [of b i ty]
  by (auto simp: getReadyAsyncOpInState_def split: prod.splits option.splits)

text \<open>Fetching an operation just added gives it back and leaves the other operations as they were.\<close>

lemma getReady_after_add:
  assumes "ab_ok b" and "op_fresh op b" and "addAsyncOp op b = (i, b')"
  shows "fst (getReadyAsyncOp i b') = Some (op\<lparr>op_id := i\<rparr>)"
    "map_of (ab_map (snd (getReadyAsyncOp i b'))) = map_of (ab_map b)"
    "set (ab_ops (snd (getReadyAsyncOp i b'))) = set (ab_ops b)"
    "fst (getReadyAsyncOp i (snd (getReadyAsyncOp i b'))) = None"
proof -
  note add = addAsyncOp_ok [OF assms]
  have m: "map_of (ab_map b') i = Some (op\<lparr>op_id := i\<rparr>)" using add(2) by simp
  have wf: "ab_wf b" "ab_wf b'" using assms(1) add(1) by (simp_all add: ab_ok_def)
  note rm = ab_remove_props [OF wf(2) m]
  show "fst (getReadyAsyncOp i b') = Some (op\<lparr>op_id := i\<rparr>)" using m by (simp add: getReadyAsyncOp_def)
  show map: "map_of (ab_map (snd (getReadyAsyncOp i b'))) = map_of (ab_map b)"
    using m rm(3) add(2,4) by (auto simp: getReadyAsyncOp_def fun_eq_iff)
  have "ab_wf (snd (getReadyAsyncOp i b'))" using m rm(1) by (simp add: getReadyAsyncOp_def)
  from ab_wf_memD [OF this] ab_wf_memD [OF wf(1)] map
  show "set (ab_ops (snd (getReadyAsyncOp i b'))) = set (ab_ops b)" by auto
  show "fst (getReadyAsyncOp i (snd (getReadyAsyncOp i b'))) = None"
    using map add(4) unfolding getReadyAsyncOp_def [of i "snd (getReadyAsyncOp i b')"] by simp
qed

subsection \<open>Cancelling and timing out\<close>

text \<open>
  The contract of an owner whose \<open>onCancel\<close> handlers leave the table alone: then cancelling
  and timing out come to an end and remove exactly the operations they should.
\<close>

locale cancel_handler =
  fixes get :: "'s \<Rightarrow> 'p async_base" and put :: "'p async_base \<Rightarrow> 's \<Rightarrow> 's"
    and h :: "error \<Rightarrow> 'p aop \<Rightarrow> 's \<Rightarrow> 's"
  assumes get_put [simp]: "get (put b s) = b"
    and get_handler [simp]: "get (h e op s) = get s"
begin

lemma cancel_removes:
  assumes "ab_ok (get s)"
  shows "\<exists>s'. cancelAsyncOps get put h key err s = Some s' \<and> ab_ok (get s') \<and>
     (\<forall>i. map_of (ab_map (get s')) i =
        (case map_of (ab_map (get s)) i of
           None \<Rightarrow> None | Some op \<Rightarrow> if op_key op = key then None else Some op))"
  using assms
proof (induction "length (ab_map (get s))" arbitrary: s rule: less_induct)
  case less
  show ?case
  proof (cases "find (\<lambda>p. op_key (snd p) = key) (ab_map (get s))")
    case None
    then have "map_of (ab_map (get s)) i = Some op \<Longrightarrow> op_key op \<noteq> key" for i op
      by (auto simp: find_None_iff dest: map_of_SomeD)
    with None less.prems show ?thesis
      by (subst cancelAsyncOps.simps) (auto split: option.split)
  next
    case (Some p)
    obtain i op where p: "p = (i, op)" by (cases p)
    have in_map: "(i, op) \<in> set (ab_map (get s))" and key: "op_key op = key"
      using Some p by (auto simp: find_Some_iff in_set_conv_nth) (metis snd_conv)
    have sm: "sm_ok (ab_map (get s))" using less.prems by (simp add: ab_ok_def ab_wf_def)
    have m: "map_of (ab_map (get s)) i = Some op" using in_map sm by (simp add: sm_lookup)
    define t where "t = h err op (put (ab_remove op i (get s)) s)"
    have gt: "get t = ab_remove op i (get s)" by (simp add: t_def)
    have "length (ab_map (get t)) < length (ab_map (get s))"
      using sm_erase_length [OF sm m] by (simp add: gt ab_remove_def)
    moreover have "ab_ok (get t)" using ab_remove_ok [OF less.prems m] by (simp add: gt)
    ultimately obtain s' where s': "cancelAsyncOps get put h key err t = Some s'" "ab_ok (get s')"
      "\<And>j. map_of (ab_map (get s')) j =
        (case map_of (ab_map (get t)) j of
           None \<Rightarrow> None | Some op \<Rightarrow> if op_key op = key then None else Some op)"
      using less.hyps by blast
    have "cancelAsyncOps get put h key err s = Some s'"
      using Some p s'(1) by (subst cancelAsyncOps.simps) (simp add: t_def)
    then show ?thesis
      using s'(2,3) m key by (auto simp: gt ab_remove_def)
  qed
qed

lemma expire_removes:
  assumes "ab_wf (get s)"
  shows "\<exists>s'. expireAsyncOps get put h ct s = Some s' \<and> ab_wf (get s') \<and>
     set (ab_ops (get s')) = {op \<in> set (ab_ops (get s)). ct < op_timeOut op}"
  using assms
proof (induction "length (ab_map (get s))" arbitrary: s rule: less_induct)
  case less
  show ?case
  proof (cases "ab_ops (get s)")
    case Nil
    with less.prems show ?thesis by (subst expireAsyncOps.simps) auto
  next
    case (Cons op ops)
    show ?thesis
    proof (cases "op_timeOut op \<le> ct")
      case False
      have "ct < op_timeOut op" using False by simp
      then have "\<forall>x \<in> set (ab_ops (get s)). ct < op_timeOut x"
        using ab_wf_headD [OF less.prems Cons] less_le_trans by blast
      then have "{x \<in> set (ab_ops (get s)). ct < op_timeOut x} = set (ab_ops (get s))" by blast
      moreover have "expireAsyncOps get put h ct s = Some s"
        using False Cons by (subst expireAsyncOps.simps) simp
      ultimately show ?thesis using less.prems by blast
    next
      case True
      have m: "map_of (ab_map (get s)) (op_id op) = Some op"
        using less.prems Cons by (intro ab_wf_opsD) auto
      have sm: "sm_ok (ab_map (get s))" using less.prems by (simp add: ab_wf_def)
      define t where "t = h TimeOut op (put (ab_remove op (op_id op) (get s)) s)"
      have gt: "get t = ab_remove op (op_id op) (get s)" by (simp add: t_def)
      note rm = ab_remove_props [OF less.prems m]
      have "length (ab_map (get t)) < length (ab_map (get s))"
        using sm_erase_length [OF sm m] by (simp add: gt ab_remove_def)
      moreover have "ab_wf (get t)" using rm(1) by (simp add: gt)
      ultimately obtain s' where s': "expireAsyncOps get put h ct t = Some s'" "ab_wf (get s')"
        "set (ab_ops (get s')) = {op \<in> set (ab_ops (get t)). ct < op_timeOut op}"
        using less.hyps by blast
      have "expireAsyncOps get put h ct s = Some s'"
        using Cons True s'(1) by (subst expireAsyncOps.simps) (simp add: t_def)
      moreover have "{x \<in> set (ab_ops (get t)). ct < op_timeOut x} =
          {x \<in> set (ab_ops (get s)). ct < op_timeOut x}"
        unfolding gt rm(2) using True by (auto simp flip: not_le)
      ultimately show ?thesis using s'(2,3) by blast
    qed
  qed
qed

text \<open>What every handler keeps, timing out keeps.\<close>

lemma expire_keeps:
  assumes step: "\<And>s op. P s \<Longrightarrow> ab_wf (get s) \<Longrightarrow> map_of (ab_map (get s)) (op_id op) = Some op \<Longrightarrow>
      P (h TimeOut op (put (ab_remove op (op_id op) (get s)) s))"
    and "P s" and "ab_wf (get s)" and "expireAsyncOps get put h ct s = Some s'"
  shows "P s'"
  using assms(2-)
proof (induction "length (ab_map (get s))" arbitrary: s rule: less_induct)
  case less
  show ?case
  proof (cases "ab_ops (get s)")
    case Nil
    with less.prems show ?thesis by (simp add: expireAsyncOps.simps [of get put h ct s])
  next
    case (Cons op ops)
    show ?thesis
    proof (cases "op_timeOut op \<le> ct")
      case False
      with less.prems Cons show ?thesis by (simp add: expireAsyncOps.simps [of get put h ct s])
    next
      case True
      have m: "map_of (ab_map (get s)) (op_id op) = Some op"
        using less.prems(2) Cons by (intro ab_wf_opsD) auto
      have sm: "sm_ok (ab_map (get s))" using less.prems(2) by (simp add: ab_wf_def)
      let ?t = "h TimeOut op (put (ab_remove op (op_id op) (get s)) s)"
      have "length (ab_map (get ?t)) < length (ab_map (get s))"
        using sm_erase_length [OF sm m] by (simp add: ab_remove_def)
      moreover have "expireAsyncOps get put h ct ?t = Some s'"
        using less.prems(3) Cons True by (simp add: expireAsyncOps.simps [of get put h ct s])
      moreover have "ab_wf (get ?t)" using ab_remove_props(1) [OF less.prems(2) m] by simp
      ultimately show ?thesis using less.hyps step [OF less.prems(1,2) m] by blast
    qed
  qed
qed

lemma cancel_keeps:
  assumes step: "\<And>s i op. P s \<Longrightarrow> ab_wf (get s) \<Longrightarrow> map_of (ab_map (get s)) i = Some op \<Longrightarrow>
      P (h err op (put (ab_remove op i (get s)) s))"
    and "P s" and "ab_wf (get s)" and "cancelAsyncOps get put h key err s = Some s'"
  shows "P s'"
  using assms(2-)
proof (induction "length (ab_map (get s))" arbitrary: s rule: less_induct)
  case less
  show ?case
  proof (cases "find (\<lambda>p. op_key (snd p) = key) (ab_map (get s))")
    case None
    with less.prems show ?thesis by (simp add: cancelAsyncOps.simps [of get put h key err s])
  next
    case (Some p)
    obtain i op where p: "p = (i, op)" by (cases p)
    have sm: "sm_ok (ab_map (get s))" using less.prems(2) by (simp add: ab_wf_def)
    have "(i, op) \<in> set (ab_map (get s))"
      using Some p by (auto simp: find_Some_iff)
    then have m: "map_of (ab_map (get s)) i = Some op" using sm by (simp add: sm_lookup)
    let ?t = "h err op (put (ab_remove op i (get s)) s)"
    have "length (ab_map (get ?t)) < length (ab_map (get s))"
      using sm_erase_length [OF sm m] by (simp add: ab_remove_def)
    moreover have "cancelAsyncOps get put h key err ?t = Some s'"
      using less.prems(3) Some p by (simp add: cancelAsyncOps.simps [of get put h key err s])
    moreover have "ab_wf (get ?t)" using ab_remove_props(1) [OF less.prems(2) m] by simp
    ultimately show ?thesis using less.hyps step [OF less.prems(1,2) m] by blast
  qed
qed

lemma timer_expires:
  assumes "ab_ok (get s)"
  shows "\<exists>s'. onTimer get put h ct s = Some s' \<and> ab_ok (get s') \<and>
     set (ab_ops (get s')) = {op \<in> set (ab_ops (get s)). ct < op_timeOut op}"
proof -
  let ?s = "put ((get s)\<lparr>ab_timer := None\<rparr>) s"
  have "ab_wf (get ?s)" using assms by (simp add: ab_ok_def ab_wf_def ab_same_def)
  from expire_removes [OF this, of ct] obtain s'
    where s': "expireAsyncOps get put h ct ?s = Some s'" "ab_wf (get s')"
      "set (ab_ops (get s')) = {op \<in> set (ab_ops (get s)). ct < op_timeOut op}"
    by auto
  show ?thesis
  proof (cases "ab_ops (get s')")
    case Nil
    with s' show ?thesis by (auto simp: onTimer_def ab_ok_def ab_timed_def)
  next
    case (Cons op ops)
    let ?b = "(get s')\<lparr>ab_timer := Some (op_timeOut op)\<rparr>"
    have "ab_timed ?b"
      using ab_wf_headD [OF s'(2) Cons] by (simp add: ab_timed_def)
    moreover have "ab_wf ?b" using s'(2) by (simp add: ab_wf_def ab_same_def)
    ultimately have "ab_ok ?b" by (simp add: ab_ok_def)
    with s' Cons show ?thesis by (simp add: onTimer_def)
  qed
qed

end

text \<open>
  The plain table, with handlers that record the cancellations and do nothing else, is the
  base class itself.
\<close>

definition base_get :: "'p async_base \<times> (error \<times> 'p aop) list \<Rightarrow> 'p async_base" where
  "base_get s = fst s"

definition base_put :: "'p async_base \<Rightarrow> 'p async_base \<times> (error \<times> 'p aop) list \<Rightarrow>
    'p async_base \<times> (error \<times> 'p aop) list" where
  "base_put b s = (b, snd s)"

definition base_onCancel :: "error \<Rightarrow> 'p aop \<Rightarrow> 'p async_base \<times> (error \<times> 'p aop) list \<Rightarrow>
    'p async_base \<times> (error \<times> 'p aop) list" where
  "base_onCancel e op s = (fst s, snd s @ [(e, op)])"

interpretation base: cancel_handler base_get base_put base_onCancel
  by unfold_locales (simp_all add: base_get_def base_put_def base_onCancel_def)

lemma ab_remove_hd:
  assumes "ab_wf b" and "ab_ops b = op # ops"
  shows "ab_ops (ab_remove op (op_id op) b) = ops"
proof -
  have "\<forall>x \<in> set ops. op_before op x" using assms by (simp add: ab_wf_def)
  then show ?thesis by (simp add: ab_remove_def ops_erase_def assms(2) filter_id_conv)
qed

lemma expire_log:
  assumes "ab_wf b"
  shows "\<exists>b'. expireAsyncOps base_get base_put base_onCancel ct (b, l) =
     Some (b', l @ map (Pair TimeOut) (takeWhile (\<lambda>op. op_timeOut op \<le> ct) (ab_ops b)))"
  using assms
proof (induction "ab_ops b" arbitrary: b l)
  case Nil
  then show ?case by (subst expireAsyncOps.simps) (auto simp: base_get_def)
next
  case (Cons op ops)
  have ops: "ab_ops b = op # ops" using Cons.hyps(2) by simp
  let ?b = "ab_remove op (op_id op) b"
  have "ab_wf ?b"
    using ab_remove_props(1) [OF Cons.prems ab_wf_opsD [OF Cons.prems, of op]] ops by simp
  from Cons.hyps(1) [OF ab_remove_hd [OF Cons.prems ops, symmetric] this, of "l @ [(TimeOut, op)]"]
  show ?case
    by (subst expireAsyncOps.simps)
      (auto simp: base_get_def base_put_def base_onCancel_def ops ab_remove_hd [OF Cons.prems ops])
qed

text \<open>
  C21. When the timer fires, exactly the operations whose timeout has come are removed and
  told so, in the order of their timeouts; the others stay, and a timer is armed again for
  what is left.
\<close>

theorem timer_fires:
  assumes "ab_ok b"
  shows "\<exists>b'. onTimer base_get base_put base_onCancel ct (b, []) =
       Some (b', map (Pair TimeOut) (takeWhile (\<lambda>op. op_timeOut op \<le> ct) (ab_ops b))) \<and>
     ab_ok b' \<and> set (ab_ops b') = {op \<in> set (ab_ops b). ct < op_timeOut op}"
proof -
  let ?b = "b\<lparr>ab_timer := None\<rparr>"
  have "ab_wf ?b" using assms by (simp add: ab_ok_def ab_wf_def ab_same_def)
  then obtain b1 where "expireAsyncOps base_get base_put base_onCancel ct (?b, []) =
      Some (b1, map (Pair TimeOut) (takeWhile (\<lambda>op. op_timeOut op \<le> ct) (ab_ops b)))"
    using expire_log [of ?b ct "[]"] by auto
  moreover obtain s' where "onTimer base_get base_put base_onCancel ct (b, []) = Some s'"
    "ab_ok (base_get s')" "set (ab_ops (base_get s')) = {op \<in> set (ab_ops b). ct < op_timeOut op}"
    using base.timer_expires [of "(b, [])" ct] assms by (auto simp: base_get_def)
  ultimately show ?thesis
    by (auto simp: onTimer_def base_get_def base_put_def split: list.splits)
qed

lemma timer_fires_witness:
  "\<exists>b'. onTimer base_get base_put base_onCancel (At 9)
       (snd (addAsyncOp (new_op 1 (At 5) 77 ()) ab_init), []) =
       Some (b', map (Pair TimeOut) (takeWhile (\<lambda>op. op_timeOut op \<le> At 9)
         (ab_ops (snd (addAsyncOp (new_op 1 (At 5) 77 ()) ab_init))))) \<and>
     ab_ok b' \<and> set (ab_ops b') = {op \<in> set (ab_ops (snd (addAsyncOp (new_op 1 (At 5) 77 ()) ab_init))). At 9 < op_timeOut op}"
proof -
  have "op_fresh (new_op 1 (At 5) 77 ()) ab_init"
    by (simp add: op_fresh_def new_op_def ab_init_def)
  from addAsyncOp_ok(1) [OF ab_ok_init this] show ?thesis
    by (intro timer_fires) (metis prod.collapse)
qed

text \<open>
  An operation added to a consistent table can be fetched once, is then gone, and all
  other operations are as before; the table is consistent and timed throughout.
\<close>

lemma op_lifecycle:
  assumes "ab_ok b" and "op_fresh op b" and "addAsyncOp op b = (i, b')"
  shows "ab_ok b' \<and> ab_ok (snd (getReadyAsyncOp i b')) \<and>
     fst (getReadyAsyncOp i b') = Some (op\<lparr>op_id := i\<rparr>) \<and>
     set (ab_ops (snd (getReadyAsyncOp i b'))) = set (ab_ops b) \<and>
     fst (getReadyAsyncOp i (snd (getReadyAsyncOp i b'))) = None"
  using getReady_after_add [OF assms] addAsyncOp_ok(1) [OF assms]
  by (simp add: getReadyAsyncOp_ok)

lemma op_lifecycle_witness:
  "\<exists>i b'. addAsyncOp (new_op 1 (At 5) 77 ()) ab_init = (i, b') \<and>
     fst (getReadyAsyncOp i b') = Some ((new_op 1 (At 5) 77 ())\<lparr>op_id := i\<rparr>)"
proof -
  obtain i b' where add: "addAsyncOp (new_op 1 (At 5) 77 ()) ab_init = (i, b')"
    by (cases "addAsyncOp (new_op 1 (At 5) 77 ()) ab_init")
  have "op_fresh (new_op 1 (At 5) 77 ()) ab_init"
    by (simp add: op_fresh_def new_op_def ab_init_def)
  from op_lifecycle [OF ab_ok_init this add] add show ?thesis by blast
qed

end
