(* ===== verification/Sf_ChannelHolder.thy ===== *)
theory Sf_ChannelHolder
  imports Sf_Datagram Sf_AsyncOp
begin

text \<open>
  \<open>ChannelHolder\<close> (\<open>libschnee/schnee/p2p/impl/ChannelHolder.h\<close>, \<open>ChannelHolder.cpp\<close>): all
  channels of a host, by id and by peer and level; datagram decoding, the closing handshake,
  and the idle timeout.  With it \<open>SmoothingFilter\<close> (\<open>p2p/impl/SmoothingFilter.h\<close>), which
  averages the delays measured on a channel (in exact arithmetic; the code rounds to
  \<open>float\<close>).

  Calls posted to the main loop (\<open>xcall\<close>, \<open>notifyAsync\<close>) are a list of tasks; delegates that
  are called directly are a list of events.  The text of commands is serialised JSON, read by
  a vendored parser: what it makes of a header is the field \<open>ev_cmd\<close> of the environment.
\<close>

subsection \<open>The smoothing filter\<close>

record smoothing =
  sf_pos :: nat
  sf_full :: nat
  sf_size :: nat
  sf_measure :: "rat list"

definition sf_new :: "nat \<Rightarrow> smoothing" where
  "sf_new n = \<lparr>sf_pos = 0, sf_full = 0, sf_size = n, sf_measure = replicate n 0\<rparr>"

definition sf_add :: "rat \<Rightarrow> smoothing \<Rightarrow> smoothing" where
  "sf_add x s =
     s\<lparr>sf_measure := (sf_measure s)[sf_pos s := x], sf_pos := (sf_pos s + 1) mod sf_size s,
       sf_full := (if sf_full s < sf_size s then sf_full s + 1 else sf_full s)\<rparr>"

definition sf_hasAvg :: "smoothing \<Rightarrow> bool" where
  "sf_hasAvg s \<longleftrightarrow> sf_full s > 0"

text \<open>No measurement: positive infinity, here \<open>None\<close>.\<close>

definition sf_avg :: "smoothing \<Rightarrow> rat option" where
  "sf_avg s =
     (if sf_full s = 0 then None
      else Some (sum_list (take (sf_full s) (sf_measure s)) / of_nat (sf_full s)))"

subsection \<open>State\<close>

record 'c receiver =
  rc_channel :: 'c
  rc_reader :: dreader
  rc_target :: host_id
  rc_closing :: int
  rc_requested :: bool
  rc_level :: int
  rc_utime :: int
  rc_delay :: smoothing

record peer_info =
  pi_best :: int
  pi_bestLevel :: int
  pi_channels :: "(int, int) smap"

datatype 'c h_task = TChange int | TClose int | TThrow 'c | TChanged int host_id int

datatype h_event = EvDatagram host_id string datagram | EvPong int int

record 'c holder =
  h_ops :: "int async_base"
  h_alloc :: nat
  h_channels :: "(int, 'c receiver) smap"
  h_nextId :: int
  h_peers :: "(host_id, peer_info) smap"
  h_hostId :: host_id
  h_closeTimeoutMs :: int
  h_channelTimeoutMs :: int
  h_checkIntervalMs :: int
  h_timer :: "time option"
  h_tasks :: "'c h_task list"
  h_events :: "h_event list"

text \<open>
  What a call meets: the clock, the channel class, the encoded commands, and how the
  JSON reader takes a header: \<open>None\<close> is a corrupt one, and the inner option of a ping or pong
  is its id if it deserialises.
\<close>

datatype hcmd = CmdClose | CmdPing "int option" | CmdPong "int option" | CmdOther string

record 'c env =
  ev_now :: int
  ev_vt :: "'c channel_vt"
  ev_stack :: "'c \<Rightarrow> string list"
  ev_close :: datagram
  ev_pong :: "int \<Rightarrow> datagram"
  ev_cmd :: "bytes \<Rightarrow> hcmd option"

abbreviation (input) CLOSE_CHANNEL :: int where "CLOSE_CHANNEL \<equiv> 1"

definition ch_new :: "int \<Rightarrow> 'c holder" where
  "ch_new now =
     \<lparr>h_ops = ab_init, h_alloc = 0, h_channels = [], h_nextId = 1, h_peers = [], h_hostId = [],
      h_closeTimeoutMs = 60000, h_channelTimeoutMs = 600000, h_checkIntervalMs = 60000,
      h_timer = Some (futureInMs now 60000), h_tasks = [], h_events = []\<rparr>"

definition ch_setHostId :: "host_id \<Rightarrow> 'c holder \<Rightarrow> 'c holder" where
  "ch_setHostId i h = h\<lparr>h_hostId := i\<rparr>"

definition ch_post :: "'c h_task \<Rightarrow> 'c holder \<Rightarrow> 'c holder" where
  "ch_post t h = h\<lparr>h_tasks := h_tasks h @ [t]\<rparr>"

definition ch_put :: "int \<Rightarrow> 'c receiver \<Rightarrow> 'c holder \<Rightarrow> 'c holder" where
  "ch_put i rc h = h\<lparr>h_channels := sm_insert i rc (h_channels h)\<rparr>"

abbreviation ch_recv :: "'c holder \<Rightarrow> int \<Rightarrow> 'c receiver option" where
  "ch_recv h i \<equiv> map_of (h_channels h) i"

abbreviation ch_peer :: "'c holder \<Rightarrow> host_id \<Rightarrow> peer_info option" where
  "ch_peer h host \<equiv> map_of (h_peers h) host"

subsection \<open>Removing and closing\<close>

definition removeChannelPeerConnection :: "host_id \<Rightarrow> int \<Rightarrow> int \<Rightarrow> 'c holder \<Rightarrow> error \<times> 'c holder" where
  "removeChannelPeerConnection host i level h =
     (case ch_peer h host of
        None \<Rightarrow> (NotFound, h)
      | Some info \<Rightarrow>
          let chs = sm_erase level (pi_channels info)
          in if pi_best info = i then
               (if chs = [] then (NoError, h\<lparr>h_peers := sm_erase host (h_peers h)\<rparr>)
                else (NoError, h\<lparr>h_peers := sm_insert host
                       (info\<lparr>pi_channels := chs, pi_best := snd (last chs), pi_bestLevel := fst (last chs)\<rparr>)
                       (h_peers h)\<rparr>))
             else (NoError, h\<lparr>h_peers := sm_insert host (info\<lparr>pi_channels := chs\<rparr>) (h_peers h)\<rparr>))"

definition removeChannel :: "int \<Rightarrow> 'c holder \<Rightarrow> error \<times> 'c holder" where
  "removeChannel i h =
     (case ch_recv h i of
        None \<Rightarrow> (NotFound, h)
      | Some rc \<Rightarrow>
          let h1 = snd (removeChannelPeerConnection (rc_target rc) i (rc_level rc) h);
              h2 = ch_post (TChanged i (rc_target rc) (rc_level rc)) h1;
              h3 = h2\<lparr>h_channels := sm_erase i (h_channels h2)\<rparr>
          in (NoError, ch_post (TThrow (rc_channel rc)) h3))"

definition ch_close :: "'c env \<Rightarrow> int \<Rightarrow> 'c holder \<Rightarrow> error \<times> 'c holder" where
  "ch_close E i h =
     (case ch_recv h i of
        None \<Rightarrow> (NotFound, h)
      | Some rc \<Rightarrow>
          if rc_closing rc \<noteq> 0 then (ExistsAlready, h)
          else
            let h1 = snd (removeChannelPeerConnection (rc_target rc) i (rc_level rc) h);
                h2 = ch_post (TChanged i (rc_target rc) (rc_level rc)) h1;
                (e, c) = dg_sendTo (ev_vt E) (ev_close E) (rc_channel rc)
            in if failed e then (e, snd (removeChannel i (ch_put i (rc\<lparr>rc_channel := c\<rparr>) h2)))
               else
                 let op = new_op CLOSE_CHANNEL (regTimeOutMs (ev_now E) (h_closeTimeoutMs h2)) (h_alloc h2) i;
                     (opId, b) = genFreeId (h_ops h2);
                     (_, b') = addAsyncOp (op\<lparr>op_id := opId\<rparr>) b
                 in (NoError, ch_put i (rc\<lparr>rc_channel := c, rc_closing := opId\<rparr>)
                                (h2\<lparr>h_ops := b', h_alloc := h_alloc h2 + 1\<rparr>)))"

fun ch_close_all :: "'c env \<Rightarrow> int list \<Rightarrow> 'c holder \<Rightarrow> 'c holder" where
  "ch_close_all E [] h = h"
| "ch_close_all E (i # is) h = ch_close_all E is (snd (ch_close E i h))"

definition closeChannelsToHost :: "'c env \<Rightarrow> host_id \<Rightarrow> 'c holder \<Rightarrow> error \<times> 'c holder" where
  "closeChannelsToHost E host h =
     (case ch_peer h host of
        None \<Rightarrow> (NotFound, h)
      | Some info \<Rightarrow> (NoError, ch_close_all E (map snd (pi_channels info)) h))"

definition closeRedundantChannelsToHost :: "'c env \<Rightarrow> host_id \<Rightarrow> 'c holder \<Rightarrow> error \<times> 'c holder" where
  "closeRedundantChannelsToHost E host h =
     (case ch_peer h host of
        None \<Rightarrow> (NotFound, h)
      | Some info \<Rightarrow> (NoError, ch_close_all E (tl (rev (map snd (pi_channels info)))) h))"

definition onCloseChannelError :: "int \<Rightarrow> 'c holder \<Rightarrow> 'c holder" where
  "onCloseChannelError i h =
     (if ch_recv h i = None then h else h\<lparr>h_channels := sm_erase i (h_channels h)\<rparr>)"

text \<open>\<open>onCancel\<close> of a \<open>CloseChannelOp\<close> and the timer of the inherited \<open>AsyncOpBase\<close>.\<close>

definition h_put_ops :: "int async_base \<Rightarrow> 'c holder \<Rightarrow> 'c holder" where
  "h_put_ops b h = h\<lparr>h_ops := b\<rparr>"

definition ch_onCancel :: "error \<Rightarrow> int aop \<Rightarrow> 'c holder \<Rightarrow> 'c holder" where
  "ch_onCancel reason op h = onCloseChannelError (op_data op) h"

definition ch_onTimer :: "time \<Rightarrow> 'c holder \<Rightarrow> 'c holder option" where
  "ch_onTimer ct h = onTimer h_ops h_put_ops ch_onCancel ct h"

definition ch_clear_one :: "'c env \<Rightarrow> int \<times> 'c receiver \<Rightarrow> 'c h_task" where
  "ch_clear_one E p =
     TThrow (if rc_closing (snd p) = 0
             then snd (dg_sendTo (ev_vt E) (ev_close E) (rc_channel (snd p)))
             else rc_channel (snd p))"

definition forceClear :: "'c env \<Rightarrow> 'c holder \<Rightarrow> 'c holder option" where
  "forceClear E h =
     cancelAsyncOps h_ops h_put_ops ch_onCancel 0 Canceled
       (h\<lparr>h_tasks := h_tasks h @ map (ch_clear_one E) (h_channels h), h_channels := [], h_peers := []\<rparr>)"

subsection \<open>Adding and finding\<close>

definition findChannel :: "host_id \<Rightarrow> int \<Rightarrow> 'c holder \<Rightarrow> int" where
  "findChannel host level h =
     (case ch_peer h host of
        None \<Rightarrow> 0
      | Some info \<Rightarrow> (case map_of (pi_channels info) level of None \<Rightarrow> 0 | Some i \<Rightarrow> i))"

definition findBestChannel :: "host_id \<Rightarrow> 'c holder \<Rightarrow> int" where
  "findBestChannel host h = (case ch_peer h host of None \<Rightarrow> 0 | Some info \<Rightarrow> pi_best info)"

definition findBestChannelLevel :: "host_id \<Rightarrow> 'c holder \<Rightarrow> int" where
  "findBestChannelLevel host h = (case ch_peer h host of None \<Rightarrow> 0 | Some info \<Rightarrow> pi_bestLevel info)"

text \<open>
  The end of \<open>add\<close> writes through \<open>info\<close>, the reference to the peer's entry it took before
  it closed an old channel; closing may have erased that entry.
\<close>

definition ch_enter :: "int \<Rightarrow> host_id \<Rightarrow> int \<Rightarrow> 'c holder \<Rightarrow> (int \<times> 'c holder) outcome" where
  "ch_enter i target level h =
     (case ch_peer h target of
        None \<Rightarrow> Fault UseAfterFree
      | Some info \<Rightarrow>
          let info1 = (if level > pi_bestLevel info then info\<lparr>pi_best := i, pi_bestLevel := level\<rparr> else info);
              info2 = info1\<lparr>pi_channels := sm_insert level i (pi_channels info1)\<rparr>
          in Done (i, ch_post (TChange i) (h\<lparr>h_peers := sm_insert target info2 (h_peers h)\<rparr>)))"

definition ch_add :: "'c env \<Rightarrow> 'c \<Rightarrow> host_id \<Rightarrow> bool \<Rightarrow> int \<Rightarrow> 'c holder \<Rightarrow> (int \<times> 'c holder) outcome" where
  "ch_add E channel target requested level h =
     (let i = h_nextId h;
          rc = \<lparr>rc_channel = channel, rc_reader = dr_init, rc_target = target, rc_closing = 0,
                rc_requested = requested, rc_level = level, rc_utime = ev_now E, rc_delay = sf_new 10\<rparr>;
          info = (case ch_peer h target of
                    None \<Rightarrow> \<lparr>pi_best = 0, pi_bestLevel = 0, pi_channels = []\<rparr> | Some info \<Rightarrow> info);
          h1 = (ch_put i rc h)\<lparr>h_nextId := i + 1, h_peers := sm_insert target info (h_peers h)\<rparr>
      in case map_of (pi_channels info) level of
           None \<Rightarrow> ch_enter i target level h1
         | Some old \<Rightarrow>
             (case ch_recv h1 old of
                None \<Rightarrow> Fault AssertFailed
              | Some existing \<Rightarrow>
                  let oldHadError = failed (vt_error (ev_vt E) (rc_channel existing))
                  in if \<not> oldHadError \<and>
                        (requested \<and> h_hostId h < target \<or> \<not> requested \<and> target < h_hostId h)
                     then Done (i, snd (ch_close E i h1))
                     else ch_enter i target level (snd (ch_close E old h1))))"

text \<open>Connection information.\<close>

record con_info =
  cn_target :: host_id
  cn_level :: int
  cn_delay :: "rat option"
  cn_virtual :: bool
  cn_id :: int
  cn_stack :: string

definition getStack :: "'c env \<Rightarrow> 'c \<Rightarrow> string" where
  "getStack E c =
     (case ev_stack E c of [] \<Rightarrow> [] | s # ss \<Rightarrow> fold (\<lambda>x acc. acc @ '','' @ x) ss s)"

definition ch_connections :: "'c env \<Rightarrow> 'c holder \<Rightarrow> con_info list" where
  "ch_connections E h =
     map (\<lambda>(i, r). \<lparr>cn_target = rc_target r, cn_level = rc_level r,
            cn_delay = (if ci_delay (vt_info (ev_vt E) (rc_channel r)) < 0 \<and> sf_hasAvg (rc_delay r)
                        then sf_avg (rc_delay r) else Some (ci_delay (vt_info (ev_vt E) (rc_channel r)))),
            cn_virtual = ci_virtual (vt_info (ev_vt E) (rc_channel r)), cn_id = i,
            cn_stack = getStack E (rc_channel r)\<rparr>)
       (filter (\<lambda>(i, r). rc_closing r = 0) (h_channels h))"

definition ch_connectionInfo :: "'c env \<Rightarrow> host_id \<Rightarrow> 'c holder \<Rightarrow> con_info option" where
  "ch_connectionInfo E target h =
     (case ch_peer h target of
        None \<Rightarrow> None
      | Some info \<Rightarrow>
          (case ch_recv h (pi_best info) of
             None \<Rightarrow> None
           | Some r \<Rightarrow>
               if rc_closing r \<noteq> 0 then None
               else Some \<lparr>cn_target = rc_target r, cn_level = rc_level r,
                      cn_delay = Some (ci_delay (vt_info (ev_vt E) (rc_channel r))),
                      cn_virtual = ci_virtual (vt_info (ev_vt E) (rc_channel r)), cn_id = pi_best info,
                      cn_stack = getStack E (rc_channel r)\<rparr>))"

subsection \<open>Sending and receiving\<close>

definition ch_send :: "'c env \<Rightarrow> int \<Rightarrow> datagram \<Rightarrow> bool \<Rightarrow> 'c holder \<Rightarrow> error \<times> 'c holder" where
  "ch_send E i d highLevel h =
     (case ch_recv h i of
        None \<Rightarrow> (NotFound, h)
      | Some rc \<Rightarrow>
          if rc_closing rc \<noteq> 0 then (Closed, h)
          else
            (case dg_encode d of
               None \<Rightarrow> (TooMuch, h)
             | Some encoded \<Rightarrow>
                 let rc1 = (if highLevel then rc\<lparr>rc_utime := ev_now E\<rparr> else rc);
                     (e, c) = vt_write (ev_vt E) encoded (rc_channel rc1)
                 in (e, ch_put i (rc1\<lparr>rc_channel := c\<rparr>) h)))"

definition addChannelPingMeasure :: "int \<Rightarrow> rat \<Rightarrow> 'c holder \<Rightarrow> error \<times> 'c holder" where
  "addChannelPingMeasure i seconds h =
     (case ch_recv h i of
        None \<Rightarrow> (NotFound, h)
      | Some rc \<Rightarrow>
          if rc_closing rc \<noteq> 0 then (Closed, h)
          else (NoError, ch_put i (rc\<lparr>rc_delay := sf_add seconds (rc_delay rc)\<rparr>) h))"

definition setChannelTimeout :: "int \<Rightarrow> 'c holder \<Rightarrow> 'c holder" where
  "setChannelTimeout ms h = h\<lparr>h_channelTimeoutMs := ms\<rparr>"

definition setChannelTimeoutCheckInterval :: "'c env \<Rightarrow> int \<Rightarrow> 'c holder \<Rightarrow> 'c holder" where
  "setChannelTimeoutCheckInterval E ms h =
     h\<lparr>h_checkIntervalMs := ms, h_timer := (if ms > 0 then Some (futureInMs (ev_now E) ms) else None)\<rparr>"

definition onReceivedCloseChannel :: "'c env \<Rightarrow> int \<Rightarrow> 'c holder \<Rightarrow> 'c holder" where
  "onReceivedCloseChannel E i h =
     (case ch_recv h i of
        None \<Rightarrow> h
      | Some rc \<Rightarrow>
          if rc_closing rc \<noteq> 0 then
            snd (removeChannel i
              (h\<lparr>h_ops := snd (getReadyAsyncOpOf (rc_closing rc) CLOSE_CHANNEL (h_ops h))\<rparr>))
          else
            snd (removeChannel i
              (ch_put i (rc\<lparr>rc_channel := snd (dg_sendTo (ev_vt E) (ev_close E) (rc_channel rc))\<rparr>) h)))"

text \<open>One received datagram; the flag is \<open>updatedUTime\<close>.\<close>

definition ch_process :: "'c env \<Rightarrow> int \<Rightarrow> host_id \<Rightarrow> datagram \<Rightarrow> bool \<times> 'c holder \<Rightarrow> bool \<times> 'c holder" where
  "ch_process E i sender d s =
     (case s of (updated, h) \<Rightarrow>
        (case ev_cmd E (ptr_bytes (dg_header d)) of
           None \<Rightarrow> (updated, snd (ch_close E i h))
         | Some CmdClose \<Rightarrow> (updated, onReceivedCloseChannel E i h)
         | Some (CmdPing None) \<Rightarrow> (updated, h)
         | Some (CmdPing (Some k)) \<Rightarrow> (updated, snd (ch_send E i (ev_pong E k) False h))
         | Some (CmdPong None) \<Rightarrow> (updated, h)
         | Some (CmdPong (Some k)) \<Rightarrow> (updated, h\<lparr>h_events := h_events h @ [EvPong i k]\<rparr>)
         | Some (CmdOther cmd) \<Rightarrow>
             let h1 = (if updated then h
                       else case ch_recv h i of
                              None \<Rightarrow> h
                            | Some rc \<Rightarrow> ch_put i (rc\<lparr>rc_utime := ev_now E\<rparr>) h)
             in (True, h1\<lparr>h_events := h_events h1 @ [EvDatagram sender cmd d]\<rparr>)))"

text \<open>
  The whole handler: \<open>None\<close> if the channel never runs dry.  After the first \<open>close\<close> the code
  asks \<open>receiver.channel->error ()\<close> through a reference into the map, from which the channel
  is gone if the closing message could not be sent.
\<close>

definition onChannelChange :: "'c env \<Rightarrow> int \<Rightarrow> 'c holder \<Rightarrow> 'c holder outcome option" where
  "onChannelChange E i h =
     (case ch_recv h i of
        None \<Rightarrow> Some (Done h)
      | Some rc \<Rightarrow>
          (case dr_drain (vt_read (ev_vt E)) (rc_reader rc) (rc_channel rc) [] of
             None \<Rightarrow> None
           | Some (received, e, reader, c) \<Rightarrow>
               let h1 = ch_put i (rc\<lparr>rc_reader := reader, rc_channel := c\<rparr>) h;
                   h2 = (if e \<noteq> NotEnough then snd (ch_close E i h1) else h1)
               in Some (case ch_recv h2 i of
                    None \<Rightarrow> Fault UseAfterFree
                  | Some rc2 \<Rightarrow>
                      let h3 = (if failed (vt_error (ev_vt E) (rc_channel rc2))
                                then snd (ch_close E i h2) else h2)
                      in Done (snd (fold (ch_process E i (rc_target rc)) received (False, h3))))))"

text \<open>
  The idle check: \<open>int dt\<close> keeps the low 32 bits of the difference.  Closing is posted.
\<close>

definition ch_idle :: "'c env \<Rightarrow> 'c holder \<Rightarrow> int \<times> 'c receiver \<Rightarrow> bool" where
  "ch_idle E h p \<longleftrightarrow> rc_closing (snd p) = 0 \<and>
     signed_take_bit 31 (ev_now E - rc_utime (snd p)) > h_channelTimeoutMs h"

definition onCheckForTimeoutedChannels :: "'c env \<Rightarrow> 'c holder \<Rightarrow> 'c holder" where
  "onCheckForTimeoutedChannels E h =
     h\<lparr>h_tasks := h_tasks h @
         (if h_channelTimeoutMs h > 0
          then map (\<lambda>p. TClose (fst p)) (filter (ch_idle E h) (h_channels h)) else []),
       h_timer := (if h_checkIntervalMs h > 0 then Some (futureInMs (ev_now E) (h_checkIntervalMs h))
                   else None)\<rparr>"

subsection \<open>The smoothing filter averages the last measurements\<close>

definition sf_is :: "nat \<Rightarrow> rat list \<Rightarrow> smoothing \<Rightarrow> bool" where
  "sf_is n xs s \<longleftrightarrow> sf_size s = n \<and> length (sf_measure s) = n \<and> sf_pos s = length xs mod n \<and>
     sf_full s = min (length xs) n \<and>
     (\<forall>j < length xs. length xs \<le> j + n \<longrightarrow> sf_measure s ! (j mod n) = xs ! j) \<and>
     sum_list (take (sf_full s) (sf_measure s)) = sum_list (drop (length xs - n) xs)"

lemma mod_window_neq:
  assumes "j < len" and "len < j + n"
  shows "j mod n \<noteq> len mod (n :: nat)"
proof
  assume "j mod n = len mod n"
  then have "n dvd len - j" using assms(1) mod_eq_dvd_iff_nat [of j len n] by simp
  then show False using assms by (auto dest: dvd_imp_le)
qed

lemma sum_list_update_rat:
  "k < length ns \<Longrightarrow> sum_list (ns[k := x]) = sum_list ns - ns ! k + (x :: rat)"
  by (induction ns arbitrary: k) (auto split: nat.split)

lemma sf_is_add:
  assumes inv: "sf_is n xs s" and n: "0 < n"
  shows "sf_is n (xs @ [x]) (sf_add x s)"
proof -
  let ?m = "sf_measure s" and ?p = "length xs mod n"
  have pos: "?p < length ?m" using inv n by (simp add: sf_is_def)
  have win: "?m[?p := x] ! (j mod n) = (xs @ [x]) ! j"
    if "j < Suc (length xs)" "Suc (length xs) \<le> j + n" for j
    using that inv pos mod_window_neq [of j "length xs" n]
    by (cases "j = length xs") (auto simp: sf_is_def nth_append)
  have sum: "sum_list (take (sf_full (sf_add x s)) (?m[?p := x])) =
      sum_list (drop (Suc (length xs) - n) (xs @ [x]))"
  proof (cases "length xs < n")
    case True
    then have "take (Suc (length xs)) (?m[?p := x]) = take (length xs) ?m @ [x]"
      using inv by (simp add: sf_is_def take_Suc_conv_app_nth)
    with True inv show ?thesis by (auto simp: sf_is_def sf_add_def)
  next
    case False
    then have old: "?m ! ?p = xs ! (length xs - n)"
      using inv n by (auto simp: sf_is_def le_mod_geq dest!: spec [of _ "length xs - n"])
    have "drop (length xs - n) xs = xs ! (length xs - n) # drop (Suc (length xs) - n) xs"
      using False n by (simp add: Cons_nth_drop_Suc Suc_diff_le)
    then show ?thesis
      using False inv pos old by (auto simp: sf_is_def sf_add_def sum_list_update_rat Suc_diff_le)
  qed
  show ?thesis
    using inv win sum by (auto simp: sf_is_def sf_add_def mod_Suc_eq)
qed

text \<open>
  After any measurements, the filter's average is the arithmetic mean of the last ten (or
  whatever its size is), and of all of them while there are fewer.
\<close>

lemma smoothing_average:
  assumes "0 < n" and "xs \<noteq> []"
  shows "sf_hasAvg (fold sf_add xs (sf_new n)) \<and>
     sf_avg (fold sf_add xs (sf_new n)) =
       Some (sum_list (drop (length xs - n) xs) / of_nat (min (length xs) n))"
proof -
  have "sf_is n xs (fold sf_add xs (sf_new n))"
  proof (induction xs rule: rev_induct)
    case Nil
    then show ?case by (simp add: sf_is_def sf_new_def)
  next
    case (snoc x xs)
    with assms(1) show ?case by (simp add: sf_is_add)
  qed
  with assms show ?thesis by (auto simp: sf_is_def sf_avg_def sf_hasAvg_def)
qed

lemma smoothing_average_witness:
  "sf_avg (fold sf_add [1, 2, 4] (sf_new 2)) = Some 3"
  using smoothing_average [of 2 "[1, 2, 4]"] by (simp add: numeral_eq_Suc)

end
