(* ===== verification/Sf_HolderInv.thy ===== *)
theory Sf_HolderInv
  imports Sf_ChannelHolder
begin

text \<open>
  The invariant of \<open>ChannelHolder\<close>: the best channel of a peer, and every channel listed
  for it by level, is in the channel table, is not closing, and leads to that peer at that
  level; every channel that is closing has its \<open>CloseChannelOp\<close> pending.  It holds in every
  state the operations reach.
\<close>

definition live :: "(int, 'c receiver) smap \<Rightarrow> int \<Rightarrow> host_id \<Rightarrow> int \<Rightarrow> bool" where
  "live chs i host l \<longleftrightarrow>
     (\<exists>rc. map_of chs i = Some rc \<and> rc_closing rc = 0 \<and> rc_target rc = host \<and> rc_level rc = l)"

definition peer_ok :: "(int, 'c receiver) smap \<Rightarrow> host_id \<Rightarrow> peer_info \<Rightarrow> bool" where
  "peer_ok chs host pe \<longleftrightarrow> sm_ok (pi_channels pe) \<and> live chs (pi_best pe) host (pi_bestLevel pe) \<and>
     0 < pi_bestLevel pe \<and>
     (\<forall>l i. map_of (pi_channels pe) l = Some i \<longrightarrow> live chs i host l \<and> 0 < l \<and> l \<le> pi_bestLevel pe)"

definition peers_ok :: "(int, 'c receiver) smap \<Rightarrow> (host_id, peer_info) smap \<Rightarrow> bool" where
  "peers_ok chs ps \<longleftrightarrow> sm_ok ps \<and> (\<forall>host pe. map_of ps host = Some pe \<longrightarrow> peer_ok chs host pe)"

definition close_pending :: "int async_base \<Rightarrow> int \<Rightarrow> int \<Rightarrow> bool" where
  "close_pending ops k i \<longleftrightarrow>
     (\<exists>op. map_of (ab_map ops) k = Some op \<and> op_data op = i \<and> op_type op = CLOSE_CHANNEL)"

definition chans_ok :: "int async_base \<Rightarrow> int \<Rightarrow> (int, 'c receiver) smap \<Rightarrow> bool" where
  "chans_ok ops n chs \<longleftrightarrow> sm_ok chs \<and>
     (\<forall>i rc. map_of chs i = Some rc \<longrightarrow> 0 < i \<and> i < n \<and>
        (rc_closing rc \<noteq> 0 \<longrightarrow> close_pending ops (rc_closing rc) i))"

text \<open>A channel whose close operation is pending is closing, or gone already.\<close>

definition ops_ok :: "int async_base \<Rightarrow> int \<Rightarrow> (int, 'c receiver) smap \<Rightarrow> bool" where
  "ops_ok ops n chs \<longleftrightarrow>
     (\<forall>k op. map_of (ab_map ops) k = Some op \<longrightarrow> op_data op < n \<and>
        (\<forall>rc. map_of chs (op_data op) = Some rc \<longrightarrow> rc_closing rc \<noteq> 0))"

definition alloc_ok :: "nat \<Rightarrow> int async_base \<Rightarrow> bool" where
  "alloc_ok a ops \<longleftrightarrow> (\<forall>op \<in> set (ab_ops ops). op_addr op < a)"

definition h_wf :: "'c holder \<Rightarrow> bool" where
  "h_wf h \<longleftrightarrow> chans_ok (h_ops h) (h_nextId h) (h_channels h) \<and> peers_ok (h_channels h) (h_peers h) \<and>
     alloc_ok (h_alloc h) (h_ops h) \<and> ab_wf (h_ops h) \<and> 0 < h_nextId h \<and>
     ops_ok (h_ops h) (h_nextId h) (h_channels h)"

definition h_ok :: "'c holder \<Rightarrow> bool" where
  "h_ok h \<longleftrightarrow> h_wf h \<and> ab_timed (h_ops h)"

lemma h_okD:
  "h_ok h \<Longrightarrow> ab_ok (h_ops h)" "h_ok h \<Longrightarrow> peers_ok (h_channels h) (h_peers h)"
  "h_ok h \<Longrightarrow> chans_ok (h_ops h) (h_nextId h) (h_channels h)"
  "h_ok h \<Longrightarrow> alloc_ok (h_alloc h) (h_ops h)" "h_ok h \<Longrightarrow> 0 < h_nextId h"
  "h_ok h \<Longrightarrow> ops_ok (h_ops h) (h_nextId h) (h_channels h)"
  by (simp_all add: h_ok_def h_wf_def ab_ok_def)

lemma h_okI:
  "ab_ok (h_ops h) \<Longrightarrow> peers_ok (h_channels h) (h_peers h) \<Longrightarrow>
   chans_ok (h_ops h) (h_nextId h) (h_channels h) \<Longrightarrow> alloc_ok (h_alloc h) (h_ops h) \<Longrightarrow>
   0 < h_nextId h \<Longrightarrow> ops_ok (h_ops h) (h_nextId h) (h_channels h) \<Longrightarrow> h_ok h"
  by (simp add: h_ok_def h_wf_def ab_ok_def)

subsection \<open>The channel table\<close>

lemma live_update [simp]:
  assumes "map_of chs i = Some rc" and "rc_closing rc' = rc_closing rc"
    and "rc_target rc' = rc_target rc" and "rc_level rc' = rc_level rc"
  shows "live (sm_insert i rc' chs) = live chs"
  using assms by (auto simp: live_def fun_eq_iff)

lemma peers_ok_update:
  assumes "peers_ok chs ps" and "map_of chs i = Some rc" and "rc_closing rc' = rc_closing rc"
    and "rc_target rc' = rc_target rc" and "rc_level rc' = rc_level rc"
  shows "peers_ok (sm_insert i rc' chs) ps"
  using assms by (simp add: peers_ok_def peer_ok_def)

definition detached :: "int \<Rightarrow> (host_id, peer_info) smap \<Rightarrow> bool" where
  "detached i ps \<longleftrightarrow>
     (\<forall>host pe. map_of ps host = Some pe \<longrightarrow> pi_best pe \<noteq> i \<and> (\<forall>l. map_of (pi_channels pe) l \<noteq> Some i))"

lemma live_other:
  "j \<noteq> i \<Longrightarrow> live (sm_insert i rc chs) j host l = live chs j host l"
  "j \<noteq> i \<Longrightarrow> live (sm_erase i chs) j host l = live chs j host l"
  by (simp_all add: live_def)

lemma peers_ok_detached:
  assumes "peers_ok chs ps" and "detached i ps"
  shows "peers_ok (sm_insert i rc chs) ps" "peers_ok (sm_erase i chs) ps"
  using assms unfolding peers_ok_def peer_ok_def detached_def
  by (metis live_other)+

lemma detached_new:
  assumes "peers_ok chs ps" and "map_of chs i = None"
  shows "detached i ps"
  using assms unfolding peers_ok_def peer_ok_def detached_def live_def by fastforce

lemma chans_ok_put:
  assumes "chans_ok ops n chs" and "0 < i" and "i < n"
    and "rc_closing rc \<noteq> 0 \<Longrightarrow> close_pending ops (rc_closing rc) i"
  shows "chans_ok ops n (sm_insert i rc chs)"
  using assms by (auto simp: chans_ok_def)

lemma chans_ok_update:
  assumes "chans_ok ops n chs" and "map_of chs i = Some rc" and "rc_closing rc' = rc_closing rc"
  shows "chans_ok ops n (sm_insert i rc' chs)"
  using assms by (intro chans_ok_put) (auto simp: chans_ok_def)

lemma chans_ok_erase: "chans_ok ops n chs \<Longrightarrow> chans_ok ops n (sm_erase i chs)"
  by (auto simp: chans_ok_def)

lemma chans_ok_ops:
  assumes "chans_ok ops n chs" and "\<And>k j. close_pending ops k j \<Longrightarrow> close_pending ops' k j" and "n \<le> n'"
  shows "chans_ok ops' n' chs"
  using assms by (fastforce simp: chans_ok_def)

lemma ops_ok_put:
  assumes "ops_ok ops n chs" and "rc_closing rc \<noteq> 0 \<or> (\<exists>rc0. map_of chs i = Some rc0 \<and> rc_closing rc = rc_closing rc0)"
  shows "ops_ok ops n (sm_insert i rc chs)"
  using assms by (auto simp: ops_ok_def)

lemma ops_ok_erase: "ops_ok ops n chs \<Longrightarrow> ops_ok ops n (sm_erase i chs)"
  by (auto simp: ops_ok_def)

lemma ops_ok_new: "ops_ok ops n chs \<Longrightarrow> ops_ok ops (n + 1) (sm_insert n rc chs)"
  by (fastforce simp: ops_ok_def)

lemma ops_ok_add:
  assumes "ops_ok ops n chs" and "map_of (ab_map ops') = (map_of (ab_map ops))(k \<mapsto> op)" and "op_data op < n"
    and "map_of chs (op_data op) = Some rc" and "rc_closing rc \<noteq> 0"
  shows "ops_ok ops' n chs"
  using assms by (auto simp: ops_ok_def)

lemma ops_ok_remove:
  assumes "ops_ok ops n chs" and "map_of (ab_map ops') = (map_of (ab_map ops))(k := None)"
  shows "ops_ok ops' n chs"
  using assms by (auto simp: ops_ok_def)

text \<open>A close operation and its channel leave together.\<close>

lemma chans_ok_drop:
  assumes "chans_ok ops n chs" and "map_of (ab_map ops') = (map_of (ab_map ops))(k := None)"
    and "\<And>op. map_of (ab_map ops) k = Some op \<Longrightarrow> op_data op = i"
  shows "chans_ok ops' n (sm_erase i chs)"
  using assms unfolding chans_ok_def close_pending_def
  by (auto split: if_splits)

subsection \<open>The peer table\<close>

definition peers_without :: "host_id \<Rightarrow> int \<Rightarrow> int \<Rightarrow> (host_id, peer_info) smap \<Rightarrow> (host_id, peer_info) smap" where
  "peers_without host i level ps =
     (case map_of ps host of
        None \<Rightarrow> ps
      | Some info \<Rightarrow>
          let chs = sm_erase level (pi_channels info)
          in if pi_best info = i then
               (if chs = [] then sm_erase host ps
                else sm_insert host
                       (info\<lparr>pi_channels := chs, pi_best := snd (last chs), pi_bestLevel := fst (last chs)\<rparr>) ps)
             else sm_insert host (info\<lparr>pi_channels := chs\<rparr>) ps)"

lemma removePeer_eq:
  "snd (removeChannelPeerConnection host i level h) = h\<lparr>h_peers := peers_without host i level (h_peers h)\<rparr>"
  by (cases h) (auto simp: peers_without_def removeChannelPeerConnection_def Let_def split: option.split)

lemmas peers_without_cases = peers_without_def

text \<open>Promoting the last of the remaining levels.\<close>

lemma peer_ok_promote:
  assumes "peer_ok chs host info" and "m = sm_erase level (pi_channels info)" and "m \<noteq> []"
  shows "peer_ok chs host (info\<lparr>pi_channels := m, pi_best := snd (last m), pi_bestLevel := fst (last m)\<rparr>)"
proof -
  have sm: "sm_ok m" using assms by (simp add: peer_ok_def)
  have "map_of (pi_channels info) (fst (last m)) = Some (snd (last m))"
    using sm_last_lookup [OF sm assms(3)] assms(2) by (simp split: if_splits)
  then show ?thesis
    using assms(1) sm sm_last_max [OF sm]
    by (auto simp: peer_ok_def assms(2) split: if_splits)
qed

lemma peers_without_ok:
  assumes "peers_ok chs ps"
  shows "peers_ok chs (peers_without host i level ps)"
proof (cases "map_of ps host")
  case None
  with assms show ?thesis by (simp add: peers_without_cases)
next
  case (Some info)
  let ?m = "sm_erase level (pi_channels info)"
  have p: "peer_ok chs host info" using assms Some by (simp add: peers_ok_def)
  have keep: "peer_ok chs host (info\<lparr>pi_channels := ?m\<rparr>)"
    using p by (auto simp: peer_ok_def split: if_splits)
  show ?thesis
    using assms Some keep peer_ok_promote [OF p refl, of level]
    by (auto simp: peers_without_cases peers_ok_def Let_def)
qed

lemma peers_without_detached:
  assumes ok: "peers_ok chs ps" and rc: "map_of chs i = Some rc"
  shows "detached i (peers_without (rc_target rc) i (rc_level rc) ps)"
proof -
  have p: "peer_ok chs host pe" if "map_of ps host = Some pe" for host pe
    using ok that by (simp add: peers_ok_def)
  have best: "host = rc_target rc" if "map_of ps host = Some pe" "pi_best pe = i" for host pe
    using p [OF that(1)] that(2) rc by (simp add: peer_ok_def live_def)
  have entry: "host = rc_target rc \<and> l = rc_level rc"
    if "map_of ps host = Some pe" "map_of (pi_channels pe) l = Some i" for host pe l
  proof -
    have "live chs i host l" using p [OF that(1)] that(2) by (simp add: peer_ok_def)
    with rc show ?thesis by (simp add: live_def)
  qed
  show ?thesis
  proof (cases "map_of ps (rc_target rc)")
    case None
    then show ?thesis using best entry by (auto simp: peers_without_cases detached_def)
  next
    case (Some info)
    let ?m = "sm_erase (rc_level rc) (pi_channels info)"
    have gone: "map_of ?m l \<noteq> Some i" for l
      using entry [OF Some, of l] by auto
    have "sm_ok ?m" using p [OF Some] by (simp add: peer_ok_def)
    then have last: "snd (last ?m) \<noteq> i" if "?m \<noteq> []"
      using sm_last_lookup [of ?m, OF _ that] gone [of "fst (last ?m)"] by auto
    show ?thesis unfolding detached_def
    proof (intro allI impI)
      fix host pe
      assume pe: "map_of (peers_without (rc_target rc) i (rc_level rc) ps) host = Some pe"
      show "pi_best pe \<noteq> i \<and> (\<forall>l. map_of (pi_channels pe) l \<noteq> Some i)"
      proof (cases "host = rc_target rc")
        case False
        then have "map_of ps host = Some pe"
          using pe Some by (simp add: peers_without_cases Let_def split: if_splits)
        with best entry False show ?thesis by blast
      next
        case True
        then have "pi_channels pe = ?m \<and> pi_best pe \<noteq> i"
          using pe Some last by (auto simp: peers_without_cases Let_def split: if_splits)
        with gone show ?thesis by simp
      qed
    qed
  qed
qed

subsection \<open>Every operation keeps the invariant\<close>

lemma h_ok_frame [simp]:
  "h_ok (ch_post t h) = h_ok h" "h_ok (h\<lparr>h_events := es\<rparr>) = h_ok h" "h_ok (h\<lparr>h_tasks := ts\<rparr>) = h_ok h"
  "h_ok (h\<lparr>h_timer := tm\<rparr>) = h_ok h" "h_ok (h\<lparr>h_hostId := i\<rparr>) = h_ok h"
  "h_ok (h\<lparr>h_channelTimeoutMs := n\<rparr>) = h_ok h" "h_ok (h\<lparr>h_checkIntervalMs := n\<rparr>) = h_ok h"
  by (simp_all add: h_ok_def h_wf_def ch_post_def)

lemma h_ok_new [simp, sf_inv]: "h_ok (ch_new now)"
  using ab_ok_init
  by (simp add: h_ok_def h_wf_def ch_new_def chans_ok_def peers_ok_def alloc_ok_def ab_ok_def ab_init_def ops_ok_def)

lemma h_ok_peers:
  "h_ok h \<Longrightarrow> h_ok (h\<lparr>h_peers := peers_without host i l (h_peers h)\<rparr>)"
  by (simp add: h_ok_def h_wf_def peers_without_ok)

lemma h_ok_update:
  assumes "h_ok h" and "ch_recv h i = Some rc" and "rc_closing rc' = rc_closing rc"
    and "rc_target rc' = rc_target rc" and "rc_level rc' = rc_level rc"
  shows "h_ok (ch_put i rc' h)"
  using assms peers_ok_update [of "h_channels h" "h_peers h" i rc rc'] chans_ok_update [of _ _ "h_channels h" i rc rc']
    ops_ok_put [of _ _ "h_channels h" rc' i]
  by (simp add: h_ok_def h_wf_def ch_put_def)

lemma ch_recv_put [simp]: "ch_recv (ch_put i rc h) j = (if j = i then Some rc else ch_recv h j)"
  by (simp add: ch_put_def)

lemma removeChannel_eq:
  "ch_recv h i = Some rc \<Longrightarrow> snd (removeChannel i h) =
     h\<lparr>h_peers := peers_without (rc_target rc) i (rc_level rc) (h_peers h),
       h_channels := sm_erase i (h_channels h),
       h_tasks := h_tasks h @ [TChanged i (rc_target rc) (rc_level rc), TThrow (rc_channel rc)]\<rparr>"
  by (simp add: removeChannel_def removePeer_eq Let_def ch_post_def)

lemma h_ok_removeChannel [sf_inv]:
  assumes "h_ok h"
  shows "h_ok (snd (removeChannel i h))"
proof (cases "ch_recv h i")
  case None
  with assms show ?thesis by (simp add: removeChannel_def)
next
  case (Some rc)
  note ok = h_okD [OF assms]
  show ?thesis
    unfolding removeChannel_eq [OF Some] using ok Some
    by (intro h_okI)
      (simp_all add: chans_ok_erase ops_ok_erase peers_ok_detached(2) peers_without_ok peers_without_detached)
qed

lemma ab_opsI:
  assumes "ab_ok b'" and "ab_ok b" and "map_of (ab_map b') = (map_of (ab_map b))(i \<mapsto> op)" and "op_id op = i"
  shows "set (ab_ops b') \<subseteq> insert op (set (ab_ops b))"
proof
  fix q
  assume "q \<in> set (ab_ops b')"
  then have "map_of (ab_map b') (op_id q) = Some q"
    using assms(1) ab_wf_opsD by (auto simp: ab_ok_def)
  then have "q = op \<or> map_of (ab_map b) (op_id q) = Some q"
    using assms(3) by (simp split: if_splits)
  then show "q \<in> insert op (set (ab_ops b))"
    using assms(2) ab_wf_mapD by (auto simp: ab_ok_def)
qed

text \<open>Starting the close operation of a channel that is in no peer's list.\<close>

lemma h_ok_start_close:
  assumes ok: "h_ok h" and rc: "ch_recv h i = Some rc" and det: "detached i (h_peers h)"
    and gen: "genFreeId (h_ops h) = (opId, b)"
    and add: "addAsyncOp (op\<lparr>op_id := opId\<rparr>) b = (k, b')"
    and op: "op_addr op = h_alloc h" "op_data op = i" "op_type op = CLOSE_CHANNEL"
  shows "h_ok (ch_put i (rc\<lparr>rc_channel := c, rc_closing := opId\<rparr>) (h\<lparr>h_ops := b', h_alloc := h_alloc h + 1\<rparr>))"
proof -
  note h = h_okD [OF ok]
  let ?op = "op\<lparr>op_id := opId\<rparr>"
  have b: "ab_ok b" using genFreeId_ok [OF h(1)] gen by simp
  have same: "ab_ops b = ab_ops (h_ops h)" "ab_map b = ab_map (h_ops h)" "opId = ab_nextId (h_ops h)"
    using gen by (auto simp: genFreeId_def)
  have "op_addr ?op \<notin> op_addr ` set (ab_ops (h_ops h))"
    using h(4) op(1) by (auto simp: alloc_ok_def)
  then have fresh: "op_fresh ?op b" using genFreeId_fresh [OF h(1) gen] by simp
  have pos: "0 < opId" using h(1) same(3) by (simp add: ab_ok_def ab_wf_def)
  note added = addAsyncOp_ok [OF b fresh add]
  have k: "k = opId" using add pos by (simp add: addAsyncOp_def Let_def)
  have pend: "close_pending (h_ops h) k' j \<Longrightarrow> close_pending b' k' j" for k' j
    using added(2,4) same(2) k by (auto simp: close_pending_def)
  then have ch: "chans_ok b' (h_nextId h) (h_channels h)"
    by (rule chans_ok_ops [OF h(3)]) (use pend in auto)
  have "close_pending b' opId i" using added(2) k op by (simp add: close_pending_def)
  moreover have "0 < i" "i < h_nextId h" using h(3) rc by (auto simp: chans_ok_def)
  ultimately have "chans_ok b' (h_nextId h)
      (sm_insert i (rc\<lparr>rc_channel := c, rc_closing := opId\<rparr>) (h_channels h))"
    using ch by (intro chans_ok_put) auto
  moreover have "alloc_ok (h_alloc h + 1) b'"
    using ab_opsI [OF added(1) b added(2)] h(4) op(1) same k
    by (fastforce simp: alloc_ok_def)
  moreover have "ops_ok b' (h_nextId h) (sm_insert i (rc\<lparr>rc_channel := c, rc_closing := opId\<rparr>) (h_channels h))"
  proof (rule ops_ok_add)
    show "ops_ok (h_ops h) (h_nextId h) (sm_insert i (rc\<lparr>rc_channel := c, rc_closing := opId\<rparr>) (h_channels h))"
      using h(6) by (rule ops_ok_put) (use pos in simp)
    show "map_of (ab_map b') = (map_of (ab_map (h_ops h)))(k \<mapsto> ?op\<lparr>op_id := k\<rparr>)"
      using added(2) by (simp only: same(2))
    show "map_of (sm_insert i (rc\<lparr>rc_channel := c, rc_closing := opId\<rparr>) (h_channels h)) (op_data (?op\<lparr>op_id := k\<rparr>)) =
        Some (rc\<lparr>rc_channel := c, rc_closing := opId\<rparr>)"
      using op(2) by simp
  qed (use op(2) pos \<open>i < h_nextId h\<close> in simp_all)
  ultimately show ?thesis
    using h added(1) peers_ok_detached(1) [OF h(2) det] by (intro h_okI) (simp_all add: ch_put_def)
qed

lemma h_ok_close [sf_inv]:
  assumes "h_ok h"
  shows "h_ok (snd (ch_close E i h))"
proof (cases "ch_recv h i")
  case None
  with assms show ?thesis by (simp add: ch_close_def)
next
  case (Some rc)
  define h2 where "h2 = ch_post (TChanged i (rc_target rc) (rc_level rc))
    (h\<lparr>h_peers := peers_without (rc_target rc) i (rc_level rc) (h_peers h)\<rparr>)"
  obtain e c where w: "dg_sendTo (ev_vt E) (ev_close E) (rc_channel rc) = (e, c)" by fastforce
  obtain opId b where gen: "genFreeId (h_ops h2) = (opId, b)" by fastforce
  define op where "op = new_op CLOSE_CHANNEL (regTimeOutMs (ev_now E) (h_closeTimeoutMs h2)) (h_alloc h2) i"
  obtain k b' where add: "addAsyncOp (op\<lparr>op_id := opId\<rparr>) b = (k, b')" by fastforce
  have ok2: "h_ok h2" using h_ok_peers [OF assms] by (simp add: h2_def)
  have rc2: "ch_recv h2 i = Some rc" using Some by (simp add: h2_def ch_post_def)
  have det: "detached i (h_peers h2)"
    using peers_without_detached [OF h_okD(2) [OF assms] Some] by (simp add: h2_def ch_post_def)
  have fail: "h_ok (snd (removeChannel i (ch_put i (rc\<lparr>rc_channel := c\<rparr>) h2)))"
    using h_ok_update [OF ok2 rc2] by (intro h_ok_removeChannel) simp
  have start: "h_ok (ch_put i (rc\<lparr>rc_channel := c, rc_closing := opId\<rparr>) (h2\<lparr>h_ops := b', h_alloc := h_alloc h2 + 1\<rparr>))"
    using h_ok_start_close [OF ok2 rc2 det gen add] by (simp add: op_def new_op_def)
  show ?thesis
    using Some assms fail start w gen add
    by (simp add: ch_close_def removePeer_eq h2_def [symmetric] op_def [symmetric] Let_def)
qed

lemma h_ok_close_all [sf_inv]: "h_ok h \<Longrightarrow> h_ok (ch_close_all E is h)"
  by (induction E "is" h rule: ch_close_all.induct) (simp_all add: h_ok_close)

lemma h_ok_closeChannelsToHost [sf_inv]: "h_ok h \<Longrightarrow> h_ok (snd (closeChannelsToHost E host h))"
  by (simp add: closeChannelsToHost_def h_ok_close_all split: option.split)

lemma h_ok_closeRedundant [sf_inv]: "h_ok h \<Longrightarrow> h_ok (snd (closeRedundantChannelsToHost E host h))"
  by (simp add: closeRedundantChannelsToHost_def h_ok_close_all split: option.split)

lemma h_ok_send [sf_inv]: "h_ok h \<Longrightarrow> h_ok (snd (ch_send E i d hl h))"
  using h_ok_update [of h i]
  by (auto simp: ch_send_def Let_def split: option.split prod.split)

lemma h_ok_measure [sf_inv]: "h_ok h \<Longrightarrow> h_ok (snd (addChannelPingMeasure i x h))"
  using h_ok_update [of h i] by (auto simp: addChannelPingMeasure_def split: option.split)

text \<open>Dropping a channel together with a close operation that is its own.\<close>

lemma h_wf_drop_op:
  assumes "h_wf h" and "map_of (ab_map (h_ops h)) k = Some op" and "op_data op = i"
    and "detached i (h_peers h)"
  shows "h_wf (h\<lparr>h_ops := ab_remove op k (h_ops h), h_channels := sm_erase i (h_channels h)\<rparr>)"
proof -
  have wf: "ab_wf (h_ops h)" using assms(1) by (simp add: h_wf_def)
  note rm = ab_remove_props [OF wf assms(2)]
  have "chans_ok (ab_remove op k (h_ops h)) (h_nextId h) (sm_erase i (h_channels h))"
    using assms(1-3) rm(3) by (intro chans_ok_drop [of "h_ops h" _ _ _ k]) (auto simp: h_wf_def)
  moreover have "alloc_ok (h_alloc h) (ab_remove op k (h_ops h))"
    using assms(1) rm(2) by (auto simp: h_wf_def alloc_ok_def)
  moreover have "ops_ok (ab_remove op k (h_ops h)) (h_nextId h) (sm_erase i (h_channels h))"
    using assms(1) rm(3) by (intro ops_ok_remove [OF ops_ok_erase]) (auto simp: h_wf_def)
  ultimately show ?thesis
    using assms(1,4) rm(1) peers_ok_detached(2) by (auto simp: h_wf_def)
qed

lemma closing_detached:
  assumes "peers_ok chs ps" and "map_of chs i = Some rc" and "rc_closing rc \<noteq> 0"
  shows "detached i ps"
  using assms unfolding peers_ok_def peer_ok_def detached_def live_def by fastforce

lemma close_pending_of:
  assumes "h_ok h" and "ch_recv h i = Some rc" and "rc_closing rc \<noteq> 0"
  obtains op where "map_of (ab_map (h_ops h)) (rc_closing rc) = Some op" "op_data op = i"
    "op_type op = CLOSE_CHANNEL"
  using h_okD(3) [OF assms(1)] assms(2,3) by (auto simp: chans_ok_def close_pending_def)

lemma peers_without_id:
  assumes "peers_ok chs ps" and "detached i ps"
  shows "peers_ok (sm_erase i chs) (peers_without host j l ps)"
  using peers_ok_detached(2) [OF assms] by (rule peers_without_ok)

lemma h_ok_receivedClose [sf_inv]:
  assumes "h_ok h"
  shows "h_ok (onReceivedCloseChannel E i h)"
proof (cases "ch_recv h i")
  case None
  with assms show ?thesis by (simp add: onReceivedCloseChannel_def)
next
  case (Some rc)
  show ?thesis
  proof (cases "rc_closing rc = 0")
    case True
    then show ?thesis
      using h_ok_update [OF assms Some] Some by (simp add: onReceivedCloseChannel_def h_ok_removeChannel)
  next
    case False
    then obtain op where op: "map_of (ab_map (h_ops h)) (rc_closing rc) = Some op" "op_data op = i"
      "op_type op = CLOSE_CHANNEL"
      using close_pending_of [OF assms Some] by blast
    let ?b = "ab_remove op (rc_closing rc) (h_ops h)"
    have get: "snd (getReadyAsyncOpOf (rc_closing rc) CLOSE_CHANNEL (h_ops h)) = ?b"
      using op by (simp add: getReadyAsyncOpOf_def getReadyAsyncOp_def)
    have det: "detached i (h_peers h)" using closing_detached [OF h_okD(2) [OF assms] Some False] .
    have "h_wf h" using assms by (simp add: h_ok_def)
    from h_wf_drop_op [OF this op(1,2) det] h_okD(2) [OF assms]
    have "h_wf (snd (removeChannel i (h\<lparr>h_ops := ?b\<rparr>)))"
      using Some det by (simp add: h_wf_def removeChannel_eq peers_without_id)
    moreover have "ab_timed ?b"
      using ab_remove_ok [OF h_okD(1) [OF assms] op(1)] by (simp add: ab_ok_def)
    ultimately show ?thesis
      using Some False by (simp add: onReceivedCloseChannel_def get h_ok_def removeChannel_eq)
  qed
qed

lemma h_ok_process [sf_inv]:
  assumes "h_ok (snd s)"
  shows "h_ok (snd (ch_process E i sender d s))"
proof -
  obtain u h where s: "s = (u, h)" by (cases s)
  have ok: "h_ok h" using assms s by simp
  have "h_ok (ch_put i (rc\<lparr>rc_utime := n\<rparr>) h)" if "ch_recv h i = Some rc" for rc n
    using h_ok_update [OF ok that] by simp
  then show ?thesis
    using ok by (auto simp: s ch_process_def Let_def h_ok_close h_ok_receivedClose h_ok_send
        split: option.split hcmd.split)
qed

lemma h_ok_process_all [sf_inv]: "h_ok (snd s) \<Longrightarrow> h_ok (snd (fold (ch_process E i sender) ds s))"
  by (induction ds arbitrary: s) (simp_all add: h_ok_process)

lemma h_ok_channelChange [sf_inv]:
  assumes "h_ok h" and "onChannelChange E i h = Some (Done h')"
  shows "h_ok h'"
proof (cases "ch_recv h i")
  case None
  with assms show ?thesis by (simp add: onChannelChange_def)
next
  case (Some rc)
  have upd: "h_ok (ch_put i (rc\<lparr>rc_reader := r, rc_channel := c\<rparr>) h)" for r c
    using h_ok_update [OF assms(1) Some] by simp
  show ?thesis
    using assms(2) Some
    by (auto simp: onChannelChange_def Let_def upd h_ok_close h_ok_process_all
        split: option.splits prod.splits if_splits)
qed

subsection \<open>Timing out and clearing\<close>

interpretation holder: cancel_handler h_ops h_put_ops ch_onCancel
  by unfold_locales (simp_all add: h_put_ops_def ch_onCancel_def onCloseChannelError_def)

lemma h_wf_onCancel:
  assumes "h_wf h" and "map_of (ab_map (h_ops h)) k = Some op"
  shows "h_wf (ch_onCancel e op (h_put_ops (ab_remove op k (h_ops h)) h))"
proof -
  let ?i = "op_data op"
  have ops: "ops_ok (h_ops h) (h_nextId h) (h_channels h)" and p: "peers_ok (h_channels h) (h_peers h)"
    using assms(1) by (simp_all add: h_wf_def)
  have "detached ?i (h_peers h)"
  proof (cases "ch_recv h ?i")
    case None
    with p show ?thesis by (rule detached_new)
  next
    case (Some rc)
    with ops assms(2) have "rc_closing rc \<noteq> 0" by (auto simp: ops_ok_def)
    with p Some show ?thesis by (rule closing_detached)
  qed
  from h_wf_drop_op [OF assms refl this] show ?thesis
    by (auto simp: ch_onCancel_def onCloseChannelError_def h_put_ops_def sm_erase_absent)
qed

lemma h_wf_timer [simp]:
  "h_wf (h_put_ops (b\<lparr>ab_timer := t\<rparr>) h) = h_wf (h_put_ops b h)" "h_put_ops (h_ops h) h = h"
proof -
  have "ab_same (b\<lparr>ab_timer := t\<rparr>) = ab_same b" "ops_ok (b\<lparr>ab_timer := t\<rparr>) m (h_channels h) = ops_ok b m (h_channels h)"
    "alloc_ok n (b\<lparr>ab_timer := t\<rparr>) = alloc_ok n b" "close_pending (b\<lparr>ab_timer := t\<rparr>) = close_pending b" for n m
    by (simp_all add: ab_same_def ops_ok_def alloc_ok_def close_pending_def fun_eq_iff)
  then show "h_wf (h_put_ops (b\<lparr>ab_timer := t\<rparr>) h) = h_wf (h_put_ops b h)"
    by (simp add: h_wf_def h_put_ops_def ab_wf_def chans_ok_def)
qed (simp add: h_put_ops_def)

lemma h_ok_timer [sf_inv]:
  assumes "h_ok h" and "ch_onTimer ct h = Some h'"
  shows "h_ok h'"
proof -
  let ?h = "h_put_ops ((h_ops h)\<lparr>ab_timer := None\<rparr>) h"
  have wf: "h_wf ?h" using assms(1) by (simp add: h_ok_def)
  then have ab: "ab_wf (h_ops ?h)" by (simp add: h_wf_def)
  obtain h1 where ex: "expireAsyncOps h_ops h_put_ops ch_onCancel ct ?h = Some h1"
    using holder.expire_removes [OF ab] by blast
  have "h_wf h1"
    using h_wf_onCancel wf ab ex by (rule holder.expire_keeps)
  then have "h_wf h'"
    using assms(2) ex
    by (auto simp: ch_onTimer_def onTimer_def split: list.splits)
  moreover have "ab_ok (h_ops h')"
    using holder.timer_expires [OF h_okD(1) [OF assms(1)], of ct] assms(2) by (auto simp: ch_onTimer_def)
  ultimately show ?thesis by (simp add: h_ok_def ab_ok_def)
qed

lemma h_ok_forceClear [sf_inv]:
  assumes "h_ok h" and "forceClear E h = Some h'"
  shows "h_ok h' \<and> h_channels h' = [] \<and> h_peers h' = []"
proof -
  let ?h = "h\<lparr>h_tasks := h_tasks h @ map (ch_clear_one E) (h_channels h), h_channels := [], h_peers := []\<rparr>"
  let ?P = "\<lambda>s. h_wf s \<and> h_channels s = [] \<and> h_peers s = []"
  have ab: "ab_wf (h_ops ?h)" "ab_ok (h_ops ?h)" using assms(1) by (simp_all add: h_ok_def h_wf_def ab_ok_def)
  have P: "?P ?h" using assms(1)
    by (simp add: h_ok_def h_wf_def chans_ok_def peers_ok_def ops_ok_def)
  have clear: "cancelAsyncOps h_ops h_put_ops ch_onCancel 0 Canceled ?h = Some h'"
    using assms(2) by (simp add: forceClear_def)
  have step: "?P (ch_onCancel Canceled op (h_put_ops (ab_remove op k (h_ops s)) s))"
    if "?P s" "ab_wf (h_ops s)" "map_of (ab_map (h_ops s)) k = Some op" for s k op
    using that h_wf_onCancel [of s k op Canceled]
    by (simp add: ch_onCancel_def onCloseChannelError_def h_put_ops_def)
  have "?P h'" using step P ab(1) clear by (rule holder.cancel_keeps)
  moreover have "ab_ok (h_ops h')"
    using holder.cancel_removes [OF ab(2), of 0 Canceled] clear by auto
  ultimately show ?thesis by (simp add: h_ok_def ab_ok_def)
qed

subsection \<open>Adding a channel\<close>

lemma peer_ok_enter:
  assumes "peer_ok chs host info \<or> info = \<lparr>pi_best = 0, pi_bestLevel = 0, pi_channels = []\<rparr>"
    and "live chs i host level" and "0 < level"
    and "info1 = (if level > pi_bestLevel info then info\<lparr>pi_best := i, pi_bestLevel := level\<rparr> else info)"
  shows "peer_ok chs host (info1\<lparr>pi_channels := sm_insert level i (pi_channels info1)\<rparr>)"
  using assms by (auto simp: peer_ok_def split: if_splits) force

definition enter_ok :: "int \<Rightarrow> host_id \<Rightarrow> int \<Rightarrow> 'c holder \<Rightarrow> bool" where
  "enter_ok i target level h \<longleftrightarrow> 0 < level \<and> live (h_channels h) i target level \<and>
     ab_ok (h_ops h) \<and> chans_ok (h_ops h) (h_nextId h) (h_channels h) \<and> alloc_ok (h_alloc h) (h_ops h) \<and>
     0 < h_nextId h \<and> ops_ok (h_ops h) (h_nextId h) (h_channels h) \<and> sm_ok (h_peers h) \<and>
     (\<forall>host pe. ch_peer h host = Some pe \<longrightarrow> peer_ok (h_channels h) host pe \<or>
        host = target \<and> pe = \<lparr>pi_best = 0, pi_bestLevel = 0, pi_channels = []\<rparr>)"

lemma h_ok_enter:
  assumes "enter_ok i target level h" and "ch_enter i target level h = Done (k, h')"
  shows "h_ok h'"
proof -
  obtain info where info: "ch_peer h target = Some info"
    using assms(2) by (auto simp: ch_enter_def split: option.splits)
  define info1 where "info1 = (if level > pi_bestLevel info then info\<lparr>pi_best := i, pi_bestLevel := level\<rparr> else info)"
  define info2 where "info2 = info1\<lparr>pi_channels := sm_insert level i (pi_channels info1)\<rparr>"
  have "peer_ok (h_channels h) target info2"
    unfolding info2_def using assms(1) info
    by (intro peer_ok_enter [of _ _ info _ level]) (auto simp: enter_ok_def info1_def)
  then have "peers_ok (h_channels h) (sm_insert target info2 (h_peers h))"
    using assms(1) by (auto simp: peers_ok_def enter_ok_def)
  moreover have "h' = ch_post (TChange i) (h\<lparr>h_peers := sm_insert target info2 (h_peers h)\<rparr>)"
    using assms(2) info by (auto simp: ch_enter_def Let_def info1_def info2_def)
  ultimately show ?thesis using assms(1) by (auto simp: enter_ok_def intro!: h_okI)
qed

lemma ch_close_frame:
  "j \<noteq> i \<Longrightarrow> ch_recv (snd (ch_close E i h)) j = ch_recv h j"
  "h_nextId (snd (ch_close E i h)) = h_nextId h"
  by (auto simp: ch_close_def removeChannel_def removePeer_eq Let_def ch_put_def ch_post_def
      split: option.split prod.split)

lemma chans_ok_new:
  assumes "chans_ok ops n chs" and "0 < n" and "rc_closing rc = 0"
  shows "chans_ok ops (n + 1) (sm_insert n rc chs)"
  using assms by (fastforce simp: chans_ok_def)

lemma chans_ok_next: "chans_ok ops n chs \<Longrightarrow> map_of chs n = None"
  by (cases "map_of chs n") (auto simp: chans_ok_def)

lemma h_ok_add [sf_inv]:
  assumes ok: "h_ok h" and level: "0 < level" and add: "ch_add E c target requested level h = Done (k, h')"
  shows "h_ok h'"
proof -
  let ?n = "h_nextId h"
  define rc where "rc = \<lparr>rc_channel = c, rc_reader = dr_init, rc_target = target, rc_closing = 0,
    rc_requested = requested, rc_level = level, rc_utime = ev_now E, rc_delay = sf_new 10\<rparr>"
  define info where "info = (case ch_peer h target of
    None \<Rightarrow> \<lparr>pi_best = 0, pi_bestLevel = 0, pi_channels = []\<rparr> | Some info \<Rightarrow> info)"
  define h1 where "h1 = (ch_put ?n rc h)\<lparr>h_nextId := ?n + 1, h_peers := sm_insert target info (h_peers h)\<rparr>"
  note h = h_okD [OF ok]
  have peers: "peers_ok (sm_insert ?n rc (h_channels h)) (h_peers h)"
    using h(2) chans_ok_next [OF h(3)] by (intro peers_ok_detached(1) detached_new)
  have live: "live (h_channels h1) ?n target level"
    by (simp add: h1_def ch_put_def live_def rc_def)
  have chs: "chans_ok (h_ops h) (?n + 1) (sm_insert ?n rc (h_channels h))"
    using h(3,5) by (rule chans_ok_new) (simp add: rc_def)
  have e1: "enter_ok ?n target level h1"
    using live level peers h ops_ok_new [OF h(6)] chs
    by (auto simp: enter_ok_def h1_def ch_put_def peers_ok_def info_def split: option.splits)
  have h1: "h_ok h1" if "map_of (pi_channels info) level \<noteq> None"
  proof -
    have "ch_peer h target = Some info" using that by (auto simp: info_def split: option.splits)
    with peers have "peers_ok (h_channels h1) (h_peers h1)"
      by (auto simp: h1_def ch_put_def peers_ok_def)
    with h chs ops_ok_new [OF h(6)] show ?thesis by (intro h_okI) (simp_all add: h1_def ch_put_def)
  qed
  show ?thesis
  proof (cases "map_of (pi_channels info) level")
    case None
    with add have "ch_enter ?n target level h1 = Done (k, h')"
      by (simp add: ch_add_def Let_def h1_def rc_def info_def)
    with e1 show ?thesis by (rule h_ok_enter)
  next
    case (Some old)
    have ok1: "h_ok h1" using h1 Some by simp
    have "old \<noteq> ?n"
    proof -
      have "ch_peer h target = Some info" using Some by (auto simp: info_def split: option.splits)
      with h(2) Some have "live (h_channels h) old target level" by (auto simp: peers_ok_def peer_ok_def)
      then show ?thesis using chans_ok_next [OF h(3)] by (auto simp: live_def)
    qed
    then have "live (h_channels (snd (ch_close E old h1))) ?n target level"
      using live ch_close_frame(1) [of ?n old E h1] by (simp add: live_def)
    then have e2: "enter_ok ?n target level (snd (ch_close E old h1))"
      using h_okD [OF h_ok_close [OF ok1]] level by (auto simp: enter_ok_def peers_ok_def)
    have "h' = snd (ch_close E ?n h1) \<or> ch_enter ?n target level (snd (ch_close E old h1)) = Done (k, h')"
      using add Some
      by (auto simp: ch_add_def Let_def info_def [symmetric] rc_def [symmetric] h1_def [symmetric]
          split: option.splits if_splits)
    then show ?thesis using h_ok_close [OF ok1] h_ok_enter [OF e2] by blast
  qed
qed

subsection \<open>Reachable states\<close>

text \<open>
  A step is one call from outside, with any environment; \<open>io\<close> is the network changing a
  channel object behind the holder's back.
\<close>

inductive h_step :: "'c holder \<Rightarrow> 'c holder \<Rightarrow> bool" where
  io: "ch_recv h i = Some rc \<Longrightarrow> h_step h (ch_put i (rc\<lparr>rc_channel := c\<rparr>) h)"
| host: "h_step h (ch_setHostId host h)"
| add: "0 < level \<Longrightarrow> ch_add E c target requested level h = Done (i, h') \<Longrightarrow> h_step h h'"
| close: "h_step h (snd (ch_close E i h))"
| closeHost: "h_step h (snd (closeChannelsToHost E host h))"
| closeRedundant: "h_step h (snd (closeRedundantChannelsToHost E host h))"
| clear: "forceClear E h = Some h' \<Longrightarrow> h_step h h'"
| send: "h_step h (snd (ch_send E i d highLevel h))"
| measure: "h_step h (snd (addChannelPingMeasure i x h))"
| timeout: "h_step h (setChannelTimeout n h)"
| interval: "h_step h (setChannelTimeoutCheckInterval E n h)"
| change: "onChannelChange E i h = Some (Done h') \<Longrightarrow> h_step h h'"
| idle: "h_step h (onCheckForTimeoutedChannels E h)"
| timer: "ch_onTimer ct h = Some h' \<Longrightarrow> h_step h h'"

inductive h_reach :: "'c holder \<Rightarrow> bool" where
  start: "h_reach (ch_new now)"
| step: "h_reach h \<Longrightarrow> h_step h h' \<Longrightarrow> h_reach h'"

lemma h_step_ok [sf_inv]: "h_step h h' \<Longrightarrow> h_ok h \<Longrightarrow> h_ok h'"
proof (induction rule: h_step.induct)
  case (io h i rc c)
  then show ?case using h_ok_update [of h i rc] by simp
next
  case (add level E c target requested h i h')
  show ?case using add(3,1,2) by (rule h_ok_add)
next
  case (change E i h h')
  show ?case using change(2,1) by (rule h_ok_channelChange)
next
  case (timer ct h h')
  show ?case using timer(2,1) by (rule h_ok_timer)
next
  case (clear E h h')
  then show ?case using h_ok_forceClear by blast
qed (auto intro: h_ok_close h_ok_closeChannelsToHost h_ok_closeRedundant h_ok_send h_ok_measure
    simp: ch_setHostId_def setChannelTimeout_def setChannelTimeoutCheckInterval_def onCheckForTimeoutedChannels_def)

lemma h_reach_ok: "h_reach h \<Longrightarrow> h_ok h"
  by (induction rule: h_reach.induct) (simp_all add: h_step_ok)

text \<open>What the callers of the holder rely on.\<close>

lemma h_ok_best:
  assumes "h_ok h" and "findBestChannel host h = i" and "i \<noteq> 0"
  obtains rc where "ch_recv h i = Some rc" "rc_closing rc = 0" "rc_target rc = host"
    "rc_level rc = findBestChannelLevel host h" "\<And>l. findChannel host l h \<noteq> 0 \<Longrightarrow> l \<le> rc_level rc"
proof -
  obtain pe where pe: "ch_peer h host = Some pe" "pi_best pe = i"
    using assms(2,3) by (auto simp: findBestChannel_def split: option.splits)
  have ok: "peer_ok (h_channels h) host pe" using h_okD(2) [OF assms(1)] pe(1) by (simp add: peers_ok_def)
  then obtain rc where rc: "ch_recv h i = Some rc" "rc_closing rc = 0" "rc_target rc = host" "rc_level rc = pi_bestLevel pe"
    using pe(2) by (auto simp: peer_ok_def live_def)
  have "l \<le> pi_bestLevel pe" if "findChannel host l h \<noteq> 0" for l
    using ok that pe(1) by (auto simp: findChannel_def peer_ok_def split: option.splits)
  with rc pe(1) show thesis by (intro that [of rc]) (simp_all add: findBestChannelLevel_def)
qed

lemma h_ok_find:
  assumes "h_ok h" and "findChannel host l h = i" and "i \<noteq> 0"
  shows "live (h_channels h) i host l"
proof -
  obtain pe where "ch_peer h host = Some pe" "map_of (pi_channels pe) l = Some i"
    using assms(2,3) by (auto simp: findChannel_def split: option.splits)
  with h_okD(2) [OF assms(1)] show ?thesis by (auto simp: peers_ok_def peer_ok_def)
qed

end
