(* ===== verification/Sf_HolderProps.thy ===== *)
theory Sf_HolderProps
  imports Sf_HolderInv
begin

text \<open>
  What \<open>ChannelHolder\<close> guarantees its users in every reachable state, and where its bookkeeping
  goes wrong: when a channel is replaced or refused for one of the same level, and when the
  closing message of a channel with a corrupt stream cannot be sent.
\<close>

text \<open>Environments for examples: a channel that takes every write, or refuses all.\<close>

definition demo_env :: "error \<Rightarrow> bytes \<Rightarrow> bytes env" where
  "demo_env wr cmd =
     \<lparr>ev_now = 0,
      ev_vt = \<lparr>vt_error = (\<lambda>_. NoError), vt_write = (\<lambda>_ c. (wr, c)),
               vt_read = (\<lambda>n c. (Some (take (nat n) c), drop (nat n) c)),
               vt_info = (\<lambda>_. \<lparr>ci_delay = -1, ci_virtual = False, ci_authenticated = False\<rparr>)\<rparr>,
      ev_stack = (\<lambda>_. [''tcp'']), ev_close = \<lparr>dg_header = Some cmd, dg_content = None\<rparr>,
      ev_pong = (\<lambda>_. \<lparr>dg_header = None, dg_content = None\<rparr>), ev_cmd = (\<lambda>_. None)\<rparr>"

definition demo_holder :: "bytes \<Rightarrow> bytes holder" where
  "demo_holder c =
     (case ch_add (demo_env NoError []) c ''b'' True 1 (ch_setHostId ''a'' (ch_new 0)) of
        Done (_, h) \<Rightarrow> h | Fault _ \<Rightarrow> ch_new 0)"

lemmas holder_eval = ch_add_def ch_enter_def ch_close_def removeChannelPeerConnection_def removeChannel_def
  ch_put_def ch_post_def sm_erase_def findChannel_def findBestChannel_def findBestChannelLevel_def
  demo_env_def ch_setHostId_def ch_new_def demo_holder_def

lemma demo_holder_reach: "h_reach (demo_holder c)"
proof -
  obtain i h where "ch_add (demo_env NoError []) c ''b'' True 1 (ch_setHostId ''a'' (ch_new 0)) = Done (i, h)"
    by (simp add: holder_eval)
  then show ?thesis
    using h_reach.step [OF h_reach.step [OF h_reach.start h_step.host] h_step.add, of 1]
    by (simp add: demo_holder_def)
qed

text \<open>
  C3. In every state the channel holder reaches, what \<open>findChannel\<close> and \<open>findBestChannel\<close> give
  for a host is an open channel of the holder to that host at that level, and no listed
  channel to the host has a higher level than the best one.
\<close>

theorem holder_best_channel:
  assumes "h_reach h"
  shows "(findBestChannel host h = 0 \<or>
       (\<exists>rc. ch_recv h (findBestChannel host h) = Some rc \<and> rc_closing rc = 0 \<and> rc_target rc = host \<and>
          rc_level rc = findBestChannelLevel host h)) \<and>
     (findChannel host l h = 0 \<or>
       (\<exists>rc. ch_recv h (findChannel host l h) = Some rc \<and> rc_closing rc = 0 \<and> rc_target rc = host \<and>
          rc_level rc = l) \<and> l \<le> findBestChannelLevel host h)"
proof -
  have ok: "h_ok h" using assms by (rule h_reach_ok)
  have "l \<le> findBestChannelLevel host h" if "findChannel host l h \<noteq> 0"
    using h_okD(2) [OF ok] that
    by (auto simp: findChannel_def findBestChannelLevel_def peers_ok_def peer_ok_def split: option.splits)
  with h_ok_find [OF ok refl] show ?thesis
    by (metis h_ok_best [OF ok refl] live_def)
qed

lemma holder_best_channel_witness:
  "findBestChannel ''b'' (demo_holder []) = 1 \<and> findChannel ''b'' 1 (demo_holder []) = 1 \<and>
   (\<exists>rc. ch_recv (demo_holder []) 1 = Some rc \<and> rc_closing rc = 0 \<and> rc_target rc = ''b'')"
  using holder_best_channel [OF demo_holder_reach [of "[]"], of "''b''" 1]
  by (auto simp: holder_eval)

text \<open>
  In every reachable state a channel that is closing has its close operation pending, so
  when the timer fires after the deadlines of all operations, no closing channel is left:
  a handshake the peer never answers does not keep a channel for ever.
\<close>

lemma closing_reaped:
  assumes "h_reach h" and "\<And>op. op \<in> set (ab_ops (h_ops h)) \<Longrightarrow> op_timeOut op \<le> ct"
  shows "\<exists>h'. ch_onTimer ct h = Some h' \<and> (\<forall>i rc. ch_recv h' i = Some rc \<longrightarrow> rc_closing rc = 0)"
proof -
  have ok: "h_ok h" using assms(1) by (rule h_reach_ok)
  obtain h' where h': "ch_onTimer ct h = Some h'"
    "set (ab_ops (h_ops h')) = {op \<in> set (ab_ops (h_ops h)). ct < op_timeOut op}"
    using holder.timer_expires [OF h_okD(1) [OF ok], of ct] by (auto simp: ch_onTimer_def)
  have ok': "h_ok h'" using ok h'(1) by (rule h_ok_timer)
  have "set (ab_ops (h_ops h')) = {}" unfolding h'(2) using assms(2) by (auto simp flip: not_le)
  then have "ab_ops (h_ops h') = []" by simp
  then have "map_of (ab_map (h_ops h')) k = None" for k
    using ab_wf_mapD [of "h_ops h'" k] h_okD(1) [OF ok']
    by (cases "map_of (ab_map (h_ops h')) k") (auto simp: ab_ok_def)
  then have "rc_closing rc = 0" if "ch_recv h' i = Some rc" for i rc
    using close_pending_of [OF ok' that] by fastforce
  with h'(1) show ?thesis by blast
qed

lemma closing_reaped_witness:
  "\<exists>h'. ch_onTimer PosInf (snd (ch_close (demo_env NoError []) 1 (demo_holder []))) = Some h' \<and>
     (\<forall>i rc. ch_recv h' i = Some rc \<longrightarrow> rc_closing rc = 0)"
  by (rule closing_reaped [OF h_reach.step [OF demo_holder_reach h_step.close]]) simp

text \<open>
  In every reachable state, sending over the best channel of a host gives the datagram's
  encoding to an open channel to that host and reports what that channel's write reports;
  the send is refused only without a channel or for an oversized datagram.
\<close>

lemma holder_send:
  assumes "h_reach h" and "findBestChannel host h \<noteq> 0" and "dg_encode d = Some b"
  shows "\<exists>rc. ch_recv h (findBestChannel host h) = Some rc \<and> rc_target rc = host \<and>
     fst (ch_send E (findBestChannel host h) d True h) = fst (vt_write (ev_vt E) b (rc_channel rc)) \<and>
     (\<exists>rc'. ch_recv (snd (ch_send E (findBestChannel host h) d True h)) (findBestChannel host h) = Some rc' \<and>
        rc_channel rc' = snd (vt_write (ev_vt E) b (rc_channel rc)) \<and> rc_utime rc' = ev_now E)"
proof -
  obtain rc where "ch_recv h (findBestChannel host h) = Some rc" "rc_closing rc = 0" "rc_target rc = host"
    using h_ok_best [OF h_reach_ok [OF assms(1)] refl assms(2)] by blast
  with assms(3) show ?thesis by (simp add: ch_send_def Let_def split: prod.split)
qed

lemma holder_send_witness:
  "fst (ch_send (demo_env BufferFull []) 1 \<lparr>dg_header = None, dg_content = None\<rparr> True (demo_holder [])) = BufferFull"
proof -
  have "findBestChannel ''b'' (demo_holder []) = 1" by (simp add: holder_eval)
  moreover have "dg_encode \<lparr>dg_header = None, dg_content = None\<rparr> = Some (be32 0 @ be32 0)"
    by (simp add: dg_encode_def)
  ultimately show ?thesis
    using holder_send [OF demo_holder_reach [of "[]"], of "''b''" "\<lparr>dg_header = None, dg_content = None\<rparr>"
        "be32 0 @ be32 0" "demo_env BufferFull []"]
    by (auto simp: demo_env_def)
qed

subsection \<open>Where the bookkeeping fails\<close>

text \<open>What closing does to the peer table, and to the other channels of it.\<close>

lemma ch_close_peers:
  assumes "ch_recv h i = Some rc" and "rc_closing rc = 0" and "ps = peers_without (rc_target rc) i (rc_level rc) (h_peers h)"
  shows "h_peers (snd (ch_close E i h)) = ps \<or>
     h_peers (snd (ch_close E i h)) = peers_without (rc_target rc) i (rc_level rc) ps"
  using assms
  by (cases "dg_sendTo (ev_vt E) (ev_close E) (rc_channel rc)")
    (auto simp: ch_close_def Let_def removePeer_eq removeChannel_eq ch_put_def ch_post_def split: prod.split)

lemma peers_without_gone:
  "map_of ps host = None \<Longrightarrow> map_of (peers_without host i l ps) host = None"
  "map_of ps host = Some info \<Longrightarrow> pi_channels info = [(l, i)] \<Longrightarrow> pi_best info = i \<Longrightarrow>
     map_of (peers_without host i l ps) host = None"
proof -
  have nil: "sm_erase l [(l, i)] = []" by (simp add: sm_erase_def)
  show "map_of ps host = None \<Longrightarrow> map_of (peers_without host i l ps) host = None"
    by (simp add: peers_without_cases)
  show "map_of ps host = Some info \<Longrightarrow> pi_channels info = [(l, i)] \<Longrightarrow> pi_best info = i \<Longrightarrow>
     map_of (peers_without host i l ps) host = None"
    by (simp add: peers_without_cases nil)
qed

lemma peers_without_entry:
  assumes "map_of ps host = Some info" and "pi_best info \<noteq> i"
  shows "map_of (peers_without host i l ps) host = Some (info\<lparr>pi_channels := sm_erase l (pi_channels info)\<rparr>)"
  using assms by (simp add: peers_without_cases Let_def)

text \<open>
  If a channel is added that replaces the only channel to its host (same level, the new
  one wins or the old one has an error), \<open>add\<close> goes on writing through a reference to the
  peer entry that closing the old channel has just erased.
\<close>

lemma add_replace_dangling:
  assumes "h_ok h" and "ch_peer h target = Some info" and "pi_channels info = [(level, old)]"
    and "pi_best info = old" and "ch_recv h old = Some rc"
    and "failed (vt_error (ev_vt E) (rc_channel rc)) \<or>
         \<not> (requested \<and> h_hostId h < target \<or> \<not> requested \<and> target < h_hostId h)"
  shows "ch_add E c target requested level h = Fault UseAfterFree"
proof -
  have "peer_ok (h_channels h) target info" using h_okD(2) [OF assms(1)] assms(2) by (simp add: peers_ok_def)
  then have "live (h_channels h) old target level" using assms(3) by (simp add: peer_ok_def)
  then have rc: "rc_closing rc = 0" "rc_target rc = target" "rc_level rc = level"
    using assms(5) by (auto simp: live_def)
  have "old \<noteq> h_nextId h" using chans_ok_next [OF h_okD(3) [OF assms(1)]] assms(5) by auto
  moreover have "ch_peer (snd (ch_close E old h1)) target = None"
    if "ch_recv h1 old = Some rc" "ch_peer h1 target = Some info" for h1
    using ch_close_peers [OF that(1) rc(1) refl, of E] peers_without_gone(2) [OF that(2) assms(3,4)]
      peers_without_gone(1) by (auto simp: rc)
  ultimately show ?thesis
    using assms(2-6) by (auto simp: ch_add_def ch_enter_def Let_def ch_put_def split: option.split)
qed

lemma add_replace_dangling_witness:
  "ch_add (demo_env NoError []) [] ''b'' False 1 (demo_holder []) = Fault UseAfterFree"
  by (rule add_replace_dangling [OF h_reach_ok [OF demo_holder_reach [of "[]"]],
        of "''b''" "\<lparr>pi_best = 1, pi_bestLevel = 1, pi_channels = [(1, 1)]\<rparr>" 1 1
          "the (ch_recv (demo_holder []) 1)"]) (simp_all add: holder_eval)

text \<open>
  If a new channel is refused in favour of an existing one of the same level, closing the
  new one takes the existing one off the peer's list: it stays open, but \<open>findChannel\<close> does
  not know it any more and \<open>closeChannel\<close> and \<open>closeChannelsToHost\<close> cannot reach it.
\<close>

lemma add_refused_forgets:
  assumes "h_ok h" and "ch_peer h target = Some info" and "map_of (pi_channels info) level = Some old"
    and "ch_recv h old = Some rc" and "\<not> failed (vt_error (ev_vt E) (rc_channel rc))"
    and "requested \<and> h_hostId h < target \<or> \<not> requested \<and> target < h_hostId h"
  shows "\<exists>h'. ch_add E c target requested level h = Done (h_nextId h, h') \<and>
     findChannel target level h' = 0 \<and> ch_recv h' old = Some rc \<and> rc_closing rc = 0"
proof -
  have "peer_ok (h_channels h) target info" using h_okD(2) [OF assms(1)] assms(2) by (simp add: peers_ok_def)
  then have rc: "rc_closing rc = 0" "pi_best info \<noteq> h_nextId h"
    using assms(3,4) chans_ok_next [OF h_okD(3) [OF assms(1)]] by (fastforce simp: peer_ok_def live_def)+
  have old: "old \<noteq> h_nextId h" using chans_ok_next [OF h_okD(3) [OF assms(1)]] assms(4) by auto
  have "findChannel target level (snd (ch_close E (h_nextId h) h1)) = 0"
    if h1: "ch_recv h1 (h_nextId h) = Some r" "rc_closing r = 0" "rc_target r = target" "rc_level r = level"
      "ch_peer h1 target = Some info" for h1 r
  proof -
    note e1 = peers_without_entry [OF h1(5) rc(2), of level]
    have "map_of (peers_without target (h_nextId h) level (peers_without target (h_nextId h) level (h_peers h1))) target =
        Some (info\<lparr>pi_channels := sm_erase level (sm_erase level (pi_channels info))\<rparr>)"
      using peers_without_entry [OF e1, of "h_nextId h" level] rc(2) by simp
    with e1 ch_close_peers [OF h1(1,2) refl, of E] h1(3,4) show ?thesis
      by (auto simp: findChannel_def)
  qed
  then show ?thesis
    using assms(2-6) rc(1) old ch_close_frame(1) [OF old, of E]
    by (auto simp: ch_add_def Let_def ch_put_def)
qed

lemma add_refused_forgets_witness:
  "\<exists>h'. ch_add (demo_env NoError []) [] ''b'' True 1 (demo_holder []) = Done (2, h') \<and>
     findChannel ''b'' 1 h' = 0 \<and> ch_recv h' 1 = ch_recv (demo_holder []) 1"
  using add_refused_forgets [OF h_reach_ok [OF demo_holder_reach [of "[]"]],
      of "''b''" "\<lparr>pi_best = 1, pi_bestLevel = 1, pi_channels = [(1, 1)]\<rparr>" 1 1
        "the (ch_recv (demo_holder []) 1)" "demo_env NoError []" True "[]"]
  by (simp add: holder_eval)

text \<open>
  When a channel's stream is corrupt and its closing message cannot be written, the handler
  uses the receiver record after \<open>close\<close> has removed it from the channel table.
\<close>

lemma change_use_after_free:
  assumes "ch_recv h i = Some rc" and "rc_closing rc = 0"
    and "dr_drain (vt_read (ev_vt E)) (rc_reader rc) (rc_channel rc) [] = Some (ds, e, r, c)" and "e \<noteq> NotEnough"
    and "failed (fst (dg_sendTo (ev_vt E) (ev_close E) c))"
  shows "onChannelChange E i h = Some (Fault UseAfterFree)"
  using assms
  by (auto simp: onChannelChange_def Let_def ch_close_def removeChannel_def removePeer_eq ch_put_def ch_post_def
      split: prod.split)

lemma change_use_after_free_witness:
  "onChannelChange (demo_env WriteError []) 1 (demo_holder [CHR 0xFF, CHR 0xFF, CHR 0xFF, CHR 0xFF, CHR 0xFF, CHR 0xFF, CHR 0xFF, CHR 0xFF]) = Some (Fault UseAfterFree)"
proof -
  let ?c = "[CHR 0xFF, CHR 0xFF, CHR 0xFF, CHR 0xFF, CHR 0xFF, CHR 0xFF, CHR 0xFF, CHR 0xFF]" and ?rd = "vt_read (ev_vt (demo_env WriteError []))"
  have "fst (dr_read ?rd dr_init ?c) = TooMuch \<and> snd (snd (dr_read ?rd dr_init ?c)) = []"
    by (simp add: dr_read_def dr_init_def dr_clear_def dr_read_lengths_def dr_fillBytes_def demo_env_def
        rd32_def)
  then have drain: "dr_drain ?rd dr_init ?c [] = Some ([], TooMuch, fst (snd (dr_read ?rd dr_init ?c)), [])"
    by (subst dr_drain.simps) (auto split: prod.split)
  show ?thesis
    by (rule change_use_after_free [where rc = "the (ch_recv (demo_holder ?c) 1)" and ds = "[]" and e = TooMuch
          and c = "[]"])
      (use drain in \<open>simp_all add: holder_eval dg_sendTo_def dg_encode_def\<close>)
qed

end
