(* ===== verification/Sf_Ping.thy ===== *)
theory Sf_Ping
  imports Sf_HolderInv "HOL-Library.Product_Lexorder"
begin

text \<open>
  Round trip measurement: \<open>ChannelPinger\<close> (\<open>libschnee/schnee/p2p/impl/ChannelPinger.h\<close>,
  \<open>ChannelPinger.cpp\<close>) pings the channels of a \<open>ChannelHolder\<close>, and the older
  \<open>PingProtocol\<close> (\<open>p2p/com/PingProtocol.h\<close>, \<open>PingProtocol.cpp\<close>) pings hosts.  Both keep the
  pings not answered yet in a map from the peer and the ping's id to the time it was sent.

  Times are in microseconds; \<open>total_milliseconds\<close> of a duration is its quotient by 1000,
  truncated towards zero (durations here are not negative).
\<close>

subsection \<open>\<open>ChannelPinger\<close>\<close>

record pinger =
  pg_holder :: bool
  pg_interval :: int
  pg_isPinging :: bool
  pg_timeoutMs :: int
  pg_call :: "time option"
  pg_nextId :: int
  pg_open :: "(int \<times> int, int) smap"
  pg_measures :: "(int \<times> int) list"

definition pg_new :: pinger where
  "pg_new = \<lparr>pg_holder = False, pg_interval = 10000, pg_isPinging = False, pg_timeoutMs = 60000,
             pg_call = None, pg_nextId = 1, pg_open = [], pg_measures = []\<rparr>"

definition pg_start :: "int \<Rightarrow> pinger \<Rightarrow> pinger" where
  "pg_start nowMs p =
     (if pg_isPinging p then p
      else p\<lparr>pg_isPinging := True, pg_call := Some (regTimeOutMs nowMs 10000)\<rparr>)"

definition pg_stop :: "pinger \<Rightarrow> pinger" where
  "pg_stop p = (if pg_isPinging p then p\<lparr>pg_call := None, pg_isPinging := False\<rparr> else p)"

definition pg_ping_one ::
  "'c env \<Rightarrow> (int \<Rightarrow> datagram) \<Rightarrow> int \<Rightarrow> con_info \<Rightarrow> pinger \<times> 'c holder \<Rightarrow> pinger \<times> 'c holder" where
  "pg_ping_one E ping nowUs info s =
     (case s of (p, h) \<Rightarrow>
        if cn_virtual info then (p, h)
        else
          let k = pg_nextId p; p1 = p\<lparr>pg_nextId := k + 1\<rparr>
          in case ch_send E (cn_id info) (ping k) False h of (e, h1) \<Rightarrow>
               (if failed e then p1 else p1\<lparr>pg_open := sm_insert (k, cn_id info) nowUs (pg_open p1)\<rparr>, h1))"

definition onDoPinging ::
  "'c env \<Rightarrow> (int \<Rightarrow> datagram) \<Rightarrow> int \<Rightarrow> pinger \<times> 'c holder \<Rightarrow> pinger \<times> 'c holder" where
  "onDoPinging E ping nowUs s =
     (case s of (p0, h) \<Rightarrow>
        let p = p0\<lparr>pg_call := None\<rparr>
        in if \<not> pg_holder p then (p\<lparr>pg_isPinging := False\<rparr>, h)
           else
             (case fold (pg_ping_one E ping nowUs) (ch_connections E h) (p, h) of (p1, h1) \<Rightarrow>
                (p1\<lparr>pg_open := filter (\<lambda>(k, t). \<not> (nowUs - t) div 1000 > pg_timeoutMs p1) (pg_open p1),
                    pg_call := Some (futureInMs (ev_now E) (pg_interval p1))\<rparr>, h1)))"

text \<open>The measured delay in microseconds is posted to the delegate.\<close>

definition onPong :: "int \<Rightarrow> int \<Rightarrow> int \<Rightarrow> pinger \<Rightarrow> pinger" where
  "onPong nowUs channelId pongId p =
     (case map_of (pg_open p) (pongId, channelId) of
        None \<Rightarrow> p
      | Some sent \<Rightarrow> p\<lparr>pg_measures := pg_measures p @ [(channelId, nowUs - sent)]\<rparr>)"

subsection \<open>\<open>PingProtocol\<close>\<close>

text \<open>\<open>send\<close> is the communication delegate's; what it was given is not kept here.\<close>

record ping_protocol =
  pp_nextId :: int
  pp_open :: "(host_id \<times> int, int) smap"
  pp_pongs :: "(host_id \<times> int \<times> int) list"

definition pp_new :: ping_protocol where
  "pp_new = \<lparr>pp_nextId = 1, pp_open = [], pp_pongs = []\<rparr>"

definition genPing :: "int \<Rightarrow> host_id \<Rightarrow> ping_protocol \<Rightarrow> int \<times> ping_protocol" where
  "genPing nowUs receiver p =
     (pp_nextId p, p\<lparr>pp_nextId := pp_nextId p + 1,
                     pp_open := sm_insert (receiver, pp_nextId p) nowUs (pp_open p)\<rparr>)"

definition sendPing ::
  "(host_id \<Rightarrow> datagram \<Rightarrow> error) \<Rightarrow> (int \<Rightarrow> datagram) \<Rightarrow> int \<Rightarrow> host_id \<Rightarrow> ping_protocol \<Rightarrow> error \<times> ping_protocol" where
  "sendPing send ping nowUs receiver p =
     (case genPing nowUs receiver p of (k, p1) \<Rightarrow>
        let err = send receiver (ping k)
        in (err, if failed err then p1\<lparr>pp_open := sm_erase (receiver, k) (pp_open p1)\<rparr> else p1))"

definition flushOld :: "int \<Rightarrow> int \<Rightarrow> ping_protocol \<Rightarrow> ping_protocol" where
  "flushOld nowUs thresholdInMs p =
     p\<lparr>pp_open := filter (\<lambda>e. \<not> snd e < nowUs - thresholdInMs * 1000) (pp_open p)\<rparr>"

definition pp_onPong :: "int \<Rightarrow> host_id \<Rightarrow> int \<Rightarrow> ping_protocol \<Rightarrow> ping_protocol" where
  "pp_onPong nowUs sender k p =
     (if k = 0 then p
      else case map_of (pp_open p) (sender, k) of
             None \<Rightarrow> p
           | Some sent \<Rightarrow>
               p\<lparr>pp_open := sm_erase (sender, k) (pp_open p), pp_pongs := pp_pongs p @ [(sender, nowUs - sent, k)]\<rparr>)"

subsection \<open>Properties\<close>

lemma onPong_open [simp]: "pg_open (onPong now ch k p) = pg_open p"
  by (simp add: onPong_def split: option.split)

lemma pg_ping_one_next: "pg_nextId p \<le> pg_nextId (fst (pg_ping_one E ping now info (p, h)))"
  by (simp add: pg_ping_one_def Let_def split: prod.split)

lemma pg_ping_one_ok: "h_ok h \<Longrightarrow> h_ok (snd (pg_ping_one E ping now info (p, h)))"
  using h_ok_send [of h E "cn_id info"]
  by (auto simp: pg_ping_one_def Let_def split: prod.split dest: sym) (metis snd_conv)

lemma onDoPinging_ok [sf_inv]:
  assumes "h_ok (snd s)"
  shows "h_ok (snd (onDoPinging E ping now s))"
proof -
  have "h_ok (snd t) \<Longrightarrow> h_ok (snd (fold (pg_ping_one E ping now) infos t))" for infos and t :: "pinger \<times> 'a holder"
  proof (induction infos arbitrary: t)
    case (Cons i infos)
    obtain p h where "t = (p, h)" by (cases t)
    with Cons.prems have "h_ok (snd (pg_ping_one E ping now i t))" by (simp add: pg_ping_one_ok)
    from Cons.IH [OF this] show ?case by simp
  qed simp
  from this [of "(_, snd s)"] assms show ?thesis
    by (auto simp: onDoPinging_def Let_def split: prod.splits) (metis snd_conv)
qed

text \<open>Any use of the protocol, whatever the network and the peers do.\<close>

inductive pp_reach :: "ping_protocol \<Rightarrow> bool" where
  new: "pp_reach pp_new"
| ping: "pp_reach p \<Longrightarrow> pp_reach (snd (sendPing snd_fn ping now host p))"
| gen: "pp_reach p \<Longrightarrow> pp_reach (snd (genPing now host p))"
| flush: "pp_reach p \<Longrightarrow> pp_reach (flushOld now ms p)"
| pong: "pp_reach p \<Longrightarrow> pp_reach (pp_onPong now host k p)"

abbreviation pong_key :: "host_id \<times> int \<times> int \<Rightarrow> host_id \<times> int" where
  "pong_key e \<equiv> (fst e, snd (snd e))"

definition pp_keys :: "int \<Rightarrow> (host_id \<times> int) set \<Rightarrow> (host_id \<times> int) set \<Rightarrow> bool" where
  "pp_keys n open_keys done_keys \<longleftrightarrow>
     (\<forall>key \<in> open_keys. snd key < n \<and> key \<notin> done_keys) \<and> (\<forall>key \<in> done_keys. snd key < n)"

definition pp_ok :: "ping_protocol \<Rightarrow> bool" where
  "pp_ok p \<longleftrightarrow> sm_ok (pp_open p) \<and> distinct (map pong_key (pp_pongs p)) \<and>
     pp_keys (pp_nextId p) (fst ` set (pp_open p)) (pong_key ` set (pp_pongs p))"

lemma pp_keys_fewer: "pp_keys n K D \<Longrightarrow> K' \<subseteq> K \<Longrightarrow> pp_keys n K' D"
  unfolding pp_keys_def by blast

lemma pp_keys_gen: "pp_keys n K D \<Longrightarrow> pp_keys (n + 1) (insert (host, n) K) D"
  unfolding pp_keys_def by fastforce

lemma pp_keys_done: "pp_keys n K D \<Longrightarrow> key \<in> K \<Longrightarrow> pp_keys n (K - {key}) (insert key D) \<and> key \<notin> D"
  unfolding pp_keys_def by blast

lemma keys_sm_erase: "fst ` set (sm_erase k m) = fst ` set m - {k}"
  by (auto simp: sm_erase_def image_iff)

lemma pp_ok_fewer:
  assumes "pp_ok p" and "fst ` set m \<subseteq> fst ` set (pp_open p)" and "sm_ok m"
  shows "pp_ok (p\<lparr>pp_open := m\<rparr>)"
  using assms(1,3) pp_keys_fewer [OF _ assms(2)] by (simp add: pp_ok_def)

lemma pp_ok_gen: "pp_ok p \<Longrightarrow> pp_ok (snd (genPing now host p))"
  by (simp add: pp_ok_def genPing_def keys_sm_insert pp_keys_gen)

lemma pp_ok_send: "pp_ok p \<Longrightarrow> pp_ok (snd (sendPing snd_fn ping now host p))"
proof -
  assume ok: "pp_ok p"
  obtain k p1 where gen: "genPing now host p = (k, p1)" by fastforce
  have ok1: "pp_ok p1" using pp_ok_gen [OF ok, of now host] gen by simp
  then have "sm_ok (sm_erase (host, k) (pp_open p1))" by (simp add: pp_ok_def)
  with ok1 have "pp_ok (p1\<lparr>pp_open := sm_erase (host, k) (pp_open p1)\<rparr>)"
    by (intro pp_ok_fewer) (auto simp: keys_sm_erase)
  with ok1 gen show ?thesis by (simp add: sendPing_def Let_def)
qed

lemma pp_ok_pong:
  assumes "pp_ok p"
  shows "pp_ok (pp_onPong now host k p)"
proof (cases "map_of (pp_open p) (host, k)")
  case None
  with assms show ?thesis by (simp add: pp_onPong_def)
next
  case (Some sent)
  then have "(host, k) \<in> fst ` set (pp_open p)" by (force dest: map_of_SomeD)
  from pp_keys_done [OF _ this] assms Some show ?thesis
    by (auto simp: pp_ok_def pp_onPong_def keys_sm_erase)
qed

lemma pp_reach_ok: "pp_reach p \<Longrightarrow> pp_ok p"
proof (induction rule: pp_reach.induct)
  case (flush p now ms)
  then show ?case unfolding flushOld_def by (intro pp_ok_fewer) (auto simp: pp_ok_def)
qed (simp_all add: pp_ok_gen pp_ok_send pp_ok_pong, simp add: pp_ok_def pp_new_def pp_keys_def)

text \<open>
  However pings, pongs and sweeps are interleaved, \<open>PingProtocol\<close> measures each ping at most
  once: no two reports carry the same host and ping id.
\<close>

lemma pong_measured_once:
  assumes "pp_reach p"
  shows "distinct (map (\<lambda>e. (fst e, snd (snd e))) (pp_pongs p))"
  using pp_reach_ok [OF assms] by (simp add: pp_ok_def)

lemma pong_measured_once_witness:
  "pp_pongs (pp_onPong 600 ''b'' 1 (pp_onPong 500 ''b'' 1 (snd (genPing 100 ''b'' pp_new)))) = [(''b'', 400, 1)] \<and>
   distinct (map (\<lambda>e. (fst e, snd (snd e)))
     (pp_pongs (pp_onPong 600 ''b'' 1 (pp_onPong 500 ''b'' 1 (snd (genPing 100 ''b'' pp_new))))))"
proof
  show "pp_pongs (pp_onPong 600 ''b'' 1 (pp_onPong 500 ''b'' 1 (snd (genPing 100 ''b'' pp_new)))) = [(''b'', 400, 1)]"
    by (simp add: genPing_def pp_new_def pp_onPong_def sm_erase_def)
qed (intro pong_measured_once pp_reach.intros)

text \<open>
  \<open>ChannelPinger\<close> never removes an answered ping: as long as the entry is not swept, a peer
  can repeat the same pong and every copy is counted as a measurement of its own, with the
  time since the one ping that was sent.
\<close>

lemma pong_counted_again:
  assumes "map_of (pg_open p) (k, ch) = Some sent"
  shows "pg_measures (fold (\<lambda>t. onPong t ch k) ts p) = pg_measures p @ map (\<lambda>t. (ch, t - sent)) ts"
  using assms
proof (induction ts arbitrary: p)
  case (Cons t ts)
  have "pg_measures (onPong t ch k p) = pg_measures p @ [(ch, t - sent)]"
    using Cons.prems by (simp add: onPong_def)
  with Cons.IH [of "onPong t ch k p"] Cons.prems show ?case by simp
qed simp

lemma pong_counted_again_witness:
  "pg_measures (fold (\<lambda>t. onPong t 7 1) [150, 900000] (pg_new\<lparr>pg_open := [((1, 7), 100)]\<rparr>)) = [(7, 50), (7, 899900)]"
  by (subst pong_counted_again) (simp_all add: pg_new_def)

end
