(* ===== verification/Sf_Multiplex.thy ===== *)
theory Sf_Multiplex
  imports Sf_Prelude
begin

text \<open>
  \<open>CommunicationMultiplex\<close> (\<open>libschnee/schnee/p2p/CommunicationMultiplex.h\<close>,
  \<open>CommunicationMultiplex.cpp\<close>): the table from command names to protocol components.  A
  component is a pointer (a natural number, \<open>std::set\<close> orders by it); its virtual functions are
  parameters: \<open>cmds\<close> lists the commands, and \<open>handle\<close> is \<open>handleRpc\<close> on the state \<open>'s\<close> of all
  components.  The constructor leaves the delegate pointer uninitialised, so a new object
  holds whatever was there: the argument of \<open>mx_new\<close>.
\<close>

record multiplex =
  mx_map :: "(string, nat) smap"
  mx_components :: "(nat, unit) smap"
  mx_delegate :: "nat option"
  mx_bound :: "(nat, nat option) smap"

definition mx_new :: "nat option \<Rightarrow> multiplex" where
  "mx_new garbage = \<lparr>mx_map = [], mx_components = [], mx_delegate = garbage, mx_bound = []\<rparr>"

definition mx_setCommunicationDelegate :: "nat option \<Rightarrow> multiplex \<Rightarrow> multiplex" where
  "mx_setCommunicationDelegate d m =
     m\<lparr>mx_delegate := d, mx_bound := fold (\<lambda>(c, _). sm_insert c d) (mx_components m) (mx_bound m)\<rparr>"

definition addComponent :: "(nat \<Rightarrow> string list) \<Rightarrow> nat \<Rightarrow> multiplex \<Rightarrow> error \<times> multiplex" where
  "addComponent cmds c m =
     (if \<exists>cmd \<in> set (cmds c). map_of (mx_map m) cmd \<noteq> None then (InvalidArgument, m)
      else (NoError, m\<lparr>mx_map := fold (\<lambda>cmd. sm_insert cmd c) (cmds c) (mx_map m),
                       mx_bound := sm_insert c (mx_delegate m) (mx_bound m),
                       mx_components := sm_insert c () (mx_components m)\<rparr>))"

definition delComponent :: "(nat \<Rightarrow> string list) \<Rightarrow> nat \<Rightarrow> multiplex \<Rightarrow> error \<times> multiplex" where
  "delComponent cmds c m =
     (if map_of (mx_components m) c = None then (NotFound, m)
      else (NoError, m\<lparr>mx_map := fold sm_erase (cmds c) (mx_map m),
                       mx_bound := sm_insert c None (mx_bound m),
                       mx_components := sm_erase c (mx_components m)\<rparr>))"

definition mx_list :: "multiplex \<Rightarrow> nat list" where
  "mx_list m = map fst (mx_components m)"

text \<open>\<open>None\<close> as header is a deserialisation that reports an error.\<close>

definition mx_dispatch ::
  "(nat \<Rightarrow> host_id \<Rightarrow> string \<Rightarrow> 'd \<Rightarrow> bytes \<Rightarrow> 's \<Rightarrow> bool \<times> 's) \<Rightarrow> host_id \<Rightarrow> string \<Rightarrow> 'd option \<Rightarrow> bytes \<Rightarrow>
   multiplex \<Rightarrow> 's \<Rightarrow> error \<times> 's" where
  "mx_dispatch handle sender cmd ds data m s =
     (if mx_delegate m = None then (NotInitialized, s)
      else case ds of
             None \<Rightarrow> (InvalidArgument, s)
           | Some d \<Rightarrow>
               (case map_of (mx_map m) cmd of
                  None \<Rightarrow> (NotFound, s)
                | Some c \<Rightarrow> (NoError, snd (handle c sender cmd d data s))))"

definition distChannelChange :: "(nat \<Rightarrow> host_id \<Rightarrow> 's \<Rightarrow> 's) \<Rightarrow> host_id \<Rightarrow> multiplex \<Rightarrow> 's \<Rightarrow> 's" where
  "distChannelChange change host m s =
     (if mx_delegate m = None then s else fold (\<lambda>(c, _). change c host) (mx_components m) s)"

subsection \<open>Routing is determined by the installed components\<close>

text \<open>
  A command is routed to a component exactly if that component is installed and declares it;
  two installed components never share a command.
\<close>

definition mx_ok :: "(nat \<Rightarrow> string list) \<Rightarrow> multiplex \<Rightarrow> bool" where
  "mx_ok cmds m \<longleftrightarrow> sm_ok (mx_components m) \<and>
     (\<forall>cmd c. map_of (mx_map m) cmd = Some c \<longleftrightarrow> map_of (mx_components m) c = Some () \<and> cmd \<in> set (cmds c))"

lemma map_of_fold_insert: "map_of (fold (\<lambda>k. sm_insert k v) ks m) k = (if k \<in> set ks then Some v else map_of m k)"
  by (induction ks arbitrary: m) auto

lemma map_of_fold_erase: "map_of (fold sm_erase ks m) k = (if k \<in> set ks then None else map_of m k)"
  by (induction ks arbitrary: m) auto

lemma mx_ok_routed: "mx_ok cmds m \<Longrightarrow> map_of (mx_map m) cmd = Some c \<longleftrightarrow>
    map_of (mx_components m) c = Some () \<and> cmd \<in> set (cmds c)"
  by (simp add: mx_ok_def)

lemma mx_ok_add [sf_inv]:
  assumes "mx_ok cmds m"
  shows "mx_ok cmds (snd (addComponent cmds c m))"
proof (cases "\<exists>cmd \<in> set (cmds c). map_of (mx_map m) cmd \<noteq> None")
  case True
  with assms show ?thesis by (simp add: addComponent_def)
next
  case False
  then have free: "map_of (mx_map m) cmd = None" if "cmd \<in> set (cmds c)" for cmd using that by auto
  have "map_of (mx_components m) d = Some () \<Longrightarrow> cmd \<in> set (cmds d) \<Longrightarrow> cmd \<in> set (cmds c) \<Longrightarrow> False" for cmd d
    using free mx_ok_routed [OF assms, of cmd d] by fastforce
  with assms False show ?thesis
    unfolding mx_ok_def addComponent_def by (auto simp: map_of_fold_insert)
qed

lemma mx_ok_del [sf_inv]:
  assumes "mx_ok cmds m"
  shows "mx_ok cmds (snd (delComponent cmds c m))"
proof (cases "map_of (mx_components m) c = None")
  case True
  with assms show ?thesis by (simp add: delComponent_def)
next
  case False
  then have owner: "map_of (mx_map m) cmd = Some c" if "cmd \<in> set (cmds c)" for cmd
    using mx_ok_routed [OF assms, of cmd c] that by auto
  have "map_of (fold sm_erase (cmds c) (mx_map m)) cmd = Some d \<longleftrightarrow>
      map_of (sm_erase c (mx_components m)) d = Some () \<and> cmd \<in> set (cmds d)" for cmd d
    using mx_ok_routed [OF assms, of cmd d] owner [of cmd] by (auto simp: map_of_fold_erase)
  with assms False show ?thesis by (auto simp: mx_ok_def delComponent_def)
qed

lemma mx_ok_new: "mx_ok cmds (mx_new g)"
  by (simp add: mx_ok_def mx_new_def)

lemma mx_ok_delegate: "mx_ok cmds m \<Longrightarrow> mx_ok cmds (mx_setCommunicationDelegate d m)"
  by (simp add: mx_ok_def mx_setCommunicationDelegate_def)

inductive mx_reach :: "(nat \<Rightarrow> string list) \<Rightarrow> multiplex \<Rightarrow> bool" for cmds where
  new: "mx_reach cmds (mx_new g)"
| delegate: "mx_reach cmds m \<Longrightarrow> mx_reach cmds (mx_setCommunicationDelegate d m)"
| add: "mx_reach cmds m \<Longrightarrow> mx_reach cmds (snd (addComponent cmds c m))"
| del: "mx_reach cmds m \<Longrightarrow> mx_reach cmds (snd (delComponent cmds c m))"

lemma mx_reach_ok: "mx_reach cmds m \<Longrightarrow> mx_ok cmds m"
  by (induction rule: mx_reach.induct) (simp_all add: mx_ok_new mx_ok_delegate mx_ok_add mx_ok_del)

text \<open>
  Whatever components were added and removed before, dispatching a command calls the
  handler of the one installed component that declares it, and answers \<open>NotFound\<close> without a
  call exactly if no installed component does.
\<close>

lemma dispatch_routes:
  assumes "mx_reach cmds m" and "mx_delegate m = Some g"
  shows "(\<forall>c. map_of (mx_components m) c = Some () \<and> cmd \<in> set (cmds c) \<longrightarrow>
       mx_dispatch handle sender cmd (Some d) data m s = (NoError, snd (handle c sender cmd d data s))) \<and>
     ((\<forall>c. map_of (mx_components m) c = Some () \<longrightarrow> cmd \<notin> set (cmds c)) \<longleftrightarrow>
       mx_dispatch handle sender cmd (Some d) data m s = (NotFound, s))"
proof -
  note ok = mx_ok_routed [OF mx_reach_ok [OF assms(1)]]
  have "map_of (mx_map m) cmd = None \<longleftrightarrow> (\<forall>c. map_of (mx_components m) c = Some () \<longrightarrow> cmd \<notin> set (cmds c))"
    using ok [of cmd] by (cases "map_of (mx_map m) cmd") auto
  with assms(2) show ?thesis
    by (auto simp: mx_dispatch_def simp flip: ok split: option.split)
qed

lemma dispatch_routes_witness:
  "mx_dispatch (\<lambda>c _ _ _ _ s. (True, c # s)) ''b'' ''ping'' (Some ()) []
     (snd (addComponent (\<lambda>c. [''ping'']) 7 (mx_new (Some 1)))) [] = (NoError, [7])"
proof -
  have "mx_reach (\<lambda>c. [''ping'']) (snd (addComponent (\<lambda>c. [''ping'']) 7 (mx_new (Some 1))))"
    by (intro mx_reach.intros)
  from dispatch_routes [OF this, of 1 "''ping''" "\<lambda>c _ _ _ _ s. (True, c # s)" "''b''" "()" "[]" "[]"]
  show ?thesis by (simp add: addComponent_def mx_new_def)
qed

text \<open>
  Removing a component gives the routing table from before it was added: no command of it
  stays behind, none of another component is lost.
\<close>

lemma component_removed:
  assumes "mx_reach cmds m" and "map_of (mx_components m) c = None" and "addComponent cmds c m = (NoError, m')"
  shows "fst (delComponent cmds c m') = NoError \<and>
     map_of (mx_map (snd (delComponent cmds c m'))) = map_of (mx_map m) \<and>
     map_of (mx_components (snd (delComponent cmds c m'))) = map_of (mx_components m)"
proof -
  have free: "map_of (mx_map m) cmd = None" if "cmd \<in> set (cmds c)" for cmd
    using assms(3) that by (auto simp: addComponent_def split: if_splits)
  have m': "m' = m\<lparr>mx_map := fold (\<lambda>cmd. sm_insert cmd c) (cmds c) (mx_map m),
      mx_bound := sm_insert c (mx_delegate m) (mx_bound m), mx_components := sm_insert c () (mx_components m)\<rparr>"
    using assms(3) by (simp add: addComponent_def split: if_splits)
  show ?thesis
    using assms(2) free
    by (auto simp: m' delComponent_def map_of_fold_erase map_of_fold_insert fun_eq_iff)
qed

lemma component_removed_witness:
  "map_of (mx_map (snd (delComponent (\<lambda>c. [''ping'', ''pong'']) 7
       (snd (addComponent (\<lambda>c. [''ping'', ''pong'']) 7 (mx_new (Some 1))))))) = map_of (mx_map (mx_new (Some 1)))"
  using component_removed [OF mx_reach.new [of "\<lambda>c. [''ping'', ''pong'']" "Some 1"], of 7
      "snd (addComponent (\<lambda>c. [''ping'', ''pong'']) 7 (mx_new (Some 1)))"]
  by (simp add: addComponent_def mx_new_def)

end
