(* ===== verification/Sf_ConnMgmt.thy ===== *)
theory Sf_ConnMgmt
  imports Sf_Ping Sf_Multiplex Sf_HolderProps
begin

text \<open>
  \<open>GenericConnectionManagement\<close> (\<open>libschnee/schnee/p2p/impl/GenericConnectionManagement.h\<close>,
  \<open>GenericConnectionManagement.cpp\<close>): it lifts the connection to a host over a ladder of
  channel providers, ordered by priority, and sends over the best channel there is.

  A provider is its virtual functions: \<open>pv_initial\<close> is \<open>providesInitialChannels\<close>, \<open>pv_create\<close>
  what \<open>createChannel\<close> returns for a host and a time budget.  The calls made are logged in
  \<open>cm_calls\<close>, the results posted to callers in \<open>cm_results\<close>.
\<close>

record provider =
  pv_initial :: bool
  pv_create :: "host_id \<Rightarrow> int \<Rightarrow> error"
  pv_protocol :: "nat option"

record lift_data =
  ld_last :: int
  ld_min :: int
  ld_target :: host_id
  ld_callback :: nat

abbreviation (input) LIFT_CONNECTION :: int where "LIFT_CONNECTION \<equiv> 1"

abbreviation (input) LS_Start :: int where "LS_Start \<equiv> 0"
abbreviation (input) LS_CreateInitial :: int where "LS_CreateInitial \<equiv> 1"
abbreviation (input) LS_Lift :: int where "LS_Lift \<equiv> 2"

record 'c conmgmt =
  cm_ops :: "lift_data async_base"
  cm_alloc :: nat
  cm_providers :: "(int, provider) smap"
  cm_hostId :: host_id
  cm_holder :: "'c holder"
  cm_pinger :: pinger
  cm_mx :: multiplex
  cm_calls :: "(int \<times> host_id \<times> bool \<times> int \<times> int) list"
  cm_results :: "(nat \<times> error) list"

definition cm_new :: "int \<Rightarrow> multiplex \<Rightarrow> 'c conmgmt" where
  "cm_new now mx =
     \<lparr>cm_ops = ab_init, cm_alloc = 0, cm_providers = [], cm_hostId = [], cm_holder = ch_new now,
      cm_pinger = pg_new\<lparr>pg_holder := True\<rparr>, cm_mx = mx, cm_calls = [], cm_results = []\<rparr>"

definition bestProvider :: "int \<Rightarrow> bool \<Rightarrow> (int, provider) smap \<Rightarrow> (int \<times> provider) option" where
  "bestProvider maxLevel initial ps =
     find (\<lambda>(l, pv). \<not> (initial \<and> \<not> pv_initial pv) \<and> \<not> (maxLevel \<ge> 0 \<and> l > maxLevel)) (rev ps)"

definition cm_add_op :: "lift_data aop \<Rightarrow> 'c conmgmt \<Rightarrow> 'c conmgmt" where
  "cm_add_op op s = s\<lparr>cm_ops := snd (addAsyncOp op (cm_ops s))\<rparr>"

definition cm_result :: "lift_data aop \<Rightarrow> error \<Rightarrow> 'c conmgmt \<Rightarrow> 'c conmgmt" where
  "cm_result op e s = s\<lparr>cm_results := cm_results s @ [(ld_callback (op_data op), e)]\<rparr>"

definition setLast :: "int \<Rightarrow> lift_data aop \<Rightarrow> lift_data aop" where
  "setLast l op = op\<lparr>op_data := (op_data op)\<lparr>ld_last := l\<rparr>\<rparr>"

text \<open>
  The two \<open>while (true)\<close> loops over the providers.  They end with an operation in the table
  (\<open>True\<close>) or without one; \<open>None\<close> is a loop that never ends.
\<close>

partial_function (option) initial_loop ::
  "int \<Rightarrow> lift_data aop \<Rightarrow> 'c conmgmt \<Rightarrow> (bool \<times> lift_data aop \<times> 'c conmgmt) option" where
  "initial_loop now op s =
     (case bestProvider (ld_last (op_data op) - 1) True (cm_providers s) of
        None \<Rightarrow> Some (False, op, s)
      | Some (l, pv) \<Rightarrow>
          let op1 = setLast l op;
              t = lastingTimeMs now (66 / 100) op1;
              e = pv_create pv (ld_target (op_data op1)) t;
              s1 = s\<lparr>cm_calls := cm_calls s @ [(l, ld_target (op_data op1), True, op_id op1, t)]\<rparr>
          in if failed e then initial_loop now op1 s1 else Some (True, op1, cm_add_op op1 s1))"

partial_function (option) lift_loop ::
  "int \<Rightarrow> int \<Rightarrow> lift_data aop \<Rightarrow> 'c conmgmt \<Rightarrow> (bool \<times> lift_data aop \<times> 'c conmgmt) option" where
  "lift_loop now level op s =
     (case bestProvider (ld_last (op_data op) - 1) False (cm_providers s) of
        None \<Rightarrow> Some (False, op, s)
      | Some (l, pv) \<Rightarrow>
          let op1 = setLast l op
          in if l \<le> level then Some (False, op1, s)
             else
               let t = lastingTimeMs now (66 / 100) op1;
                   e = pv_create pv (ld_target (op_data op1)) t;
                   s1 = s\<lparr>cm_calls := cm_calls s @ [(l, ld_target (op_data op1), False, op_id op1, t)]\<rparr>
               in if failed e then lift_loop now level op1 s1 else Some (True, op1, cm_add_op op1 s1))"

definition cm_lift :: "'c env \<Rightarrow> lift_data aop \<Rightarrow> 'c conmgmt \<Rightarrow> 'c conmgmt option" where
  "cm_lift E op s =
     (let level = findBestChannelLevel (ld_target (op_data op)) (cm_holder s)
      in if level = 0 then Some (cm_result op CouldNotConnectHost s)
         else
           (case lift_loop (ev_now E) level (op\<lparr>op_state := LS_Lift\<rparr>) s of
              None \<Rightarrow> None
            | Some (True, op1, s1) \<Rightarrow> Some s1
            | Some (False, op1, s1) \<Rightarrow>
                let s2 = cm_result op1 (if level < ld_min (op_data op1) then CouldNotConnectHost else NoError) s1
                in Some (s2\<lparr>cm_holder := snd (closeRedundantChannelsToHost E (ld_target (op_data op1)) (cm_holder s2))\<rparr>)))"

definition startLifting :: "'c env \<Rightarrow> lift_data aop \<Rightarrow> 'c conmgmt \<Rightarrow> 'c conmgmt option" where
  "startLifting E op s =
     (if findBestChannelLevel (ld_target (op_data op)) (cm_holder s) = 0 then
        (case initial_loop (ev_now E) (op\<lparr>op_state := LS_CreateInitial\<rparr>) s of
           None \<Rightarrow> None
         | Some (True, op1, s1) \<Rightarrow> Some s1
         | Some (False, op1, s1) \<Rightarrow> Some (cm_result op1 CouldNotConnectHost s1))
      else cm_lift E op s)"

definition liftToAtLeast ::
  "'c env \<Rightarrow> int \<Rightarrow> host_id \<Rightarrow> nat \<Rightarrow> int \<Rightarrow> 'c conmgmt \<Rightarrow> 'c conmgmt option" where
  "liftToAtLeast E level hostId callback timeOutMs s =
     (case genFreeId (cm_ops s) of (i, b) \<Rightarrow>
        let op = (new_op LIFT_CONNECTION (regTimeOutMs (ev_now E) timeOutMs) (cm_alloc s)
                   \<lparr>ld_last = -1, ld_min = level, ld_target = hostId, ld_callback = callback\<rparr>)
                 \<lparr>op_id := i, op_state := LS_Start\<rparr>
        in startLifting E op (s\<lparr>cm_ops := b, cm_alloc := cm_alloc s + 1\<rparr>))"

definition liftConnection :: "'c env \<Rightarrow> host_id \<Rightarrow> nat \<Rightarrow> int \<Rightarrow> 'c conmgmt \<Rightarrow> 'c conmgmt option" where
  "liftConnection E hostId callback timeOutMs s = liftToAtLeast E 1 hostId callback timeOutMs s"

definition onChannelCreate :: "'c env \<Rightarrow> error \<Rightarrow> bool \<Rightarrow> int \<Rightarrow> 'c conmgmt \<Rightarrow> 'c conmgmt option" where
  "onChannelCreate E result wasInitial i s =
     (case getReadyAsyncOpInState i LIFT_CONNECTION (if wasInitial then LS_CreateInitial else LS_Lift) (cm_ops s) of
        (None, b) \<Rightarrow> Some (s\<lparr>cm_ops := b\<rparr>)
      | (Some op, b) \<Rightarrow>
          let s1 = s\<lparr>cm_ops := b\<rparr>
          in if failed result then
               (if wasInitial then startLifting E (op\<lparr>op_state := LS_Start\<rparr>) s1 else cm_lift E op s1)
             else cm_lift E (if wasInitial then setLast (-1) op else op) s1)"

subsection \<open>The other operations\<close>

definition addChannelProvider ::
  "(nat \<Rightarrow> string list) \<Rightarrow> provider \<Rightarrow> int \<Rightarrow> 'c conmgmt \<Rightarrow> error \<times> 'c conmgmt" where
  "addChannelProvider cmds pv priority s =
     (if map_of (cm_providers s) priority \<noteq> None then (ExistsAlready, s)
      else
        let s1 = s\<lparr>cm_providers := sm_insert priority pv (cm_providers s)\<rparr>
        in case pv_protocol pv of
             None \<Rightarrow> (NoError, s1)
           | Some c \<Rightarrow> (case addComponent cmds c (cm_mx s1) of (e, m) \<Rightarrow> (e, s1\<lparr>cm_mx := m\<rparr>)))"

definition cm_uninit :: "(nat \<Rightarrow> string list) \<Rightarrow> 'c conmgmt \<Rightarrow> 'c conmgmt" where
  "cm_uninit cmds s =
     s\<lparr>cm_mx := fold (\<lambda>(_, pv) m. case pv_protocol pv of None \<Rightarrow> m | Some c \<Rightarrow> snd (delComponent cmds c m))
                     (cm_providers s) (cm_mx s)\<rparr>"

definition cm_clear :: "'c env \<Rightarrow> 'c conmgmt \<Rightarrow> 'c conmgmt option" where
  "cm_clear E s = map_option (\<lambda>h. s\<lparr>cm_holder := h\<rparr>) (forceClear E (cm_holder s))"

definition cm_clear_host :: "'c env \<Rightarrow> host_id \<Rightarrow> 'c conmgmt \<Rightarrow> 'c conmgmt" where
  "cm_clear_host E i s = s\<lparr>cm_holder := snd (closeChannelsToHost E i (cm_holder s))\<rparr>"

definition cm_setHostId :: "host_id \<Rightarrow> 'c conmgmt \<Rightarrow> 'c conmgmt" where
  "cm_setHostId i s = s\<lparr>cm_holder := ch_setHostId i (cm_holder s), cm_hostId := i\<rparr>"

definition cm_closeChannel :: "'c env \<Rightarrow> host_id \<Rightarrow> int \<Rightarrow> 'c conmgmt \<Rightarrow> error \<times> 'c conmgmt" where
  "cm_closeChannel E host level s =
     (let c = findChannel host level (cm_holder s)
      in if c = 0 then (NotFound, s)
         else case ch_close E c (cm_holder s) of (e, h) \<Rightarrow> (e, s\<lparr>cm_holder := h\<rparr>))"

definition cm_send :: "'c env \<Rightarrow> host_id \<Rightarrow> datagram \<Rightarrow> 'c conmgmt \<Rightarrow> error \<times> 'c conmgmt" where
  "cm_send E receiver d s =
     (let i = findBestChannel receiver (cm_holder s)
      in if i = 0 then (ConnectionError, s)
         else case ch_send E i d True (cm_holder s) of (e, h) \<Rightarrow> (e, s\<lparr>cm_holder := h\<rparr>))"

text \<open>Sending to a set, in its order; one loop iteration, then the loop.\<close>

definition cm_send_one :: "'c env \<Rightarrow> datagram \<Rightarrow> host_id \<Rightarrow> error \<times> 'c conmgmt \<Rightarrow> error \<times> 'c conmgmt" where
  "cm_send_one E d receiver acc =
     (case acc of (result, s) \<Rightarrow>
        (case cm_send E receiver d s of (err, s1) \<Rightarrow>
           (if failed err \<and> \<not> failed result then err
            else if failed err \<and> failed result then MultipleErrors else result, s1)))"

definition cm_send_all :: "'c env \<Rightarrow> host_id list \<Rightarrow> datagram \<Rightarrow> 'c conmgmt \<Rightarrow> error \<times> 'c conmgmt" where
  "cm_send_all E receivers d s = fold (cm_send_one E d) receivers (NoError, s)"

definition cm_channelLevel :: "host_id \<Rightarrow> 'c conmgmt \<Rightarrow> int" where
  "cm_channelLevel receiver s = findBestChannelLevel receiver (cm_holder s)"

text \<open>A channel came up: it is added, and the components in \<open>'s\<close> hear of it.\<close>

definition cm_onChannelCreated ::
  "(nat \<Rightarrow> host_id \<Rightarrow> 's \<Rightarrow> 's) \<Rightarrow> 'c env \<Rightarrow> host_id \<Rightarrow> 'c \<Rightarrow> bool \<Rightarrow> int \<Rightarrow> 'c conmgmt \<Rightarrow> 's \<Rightarrow>
   ('c conmgmt \<times> 's) outcome" where
  "cm_onChannelCreated change E target c requested level s x =
     (case ch_add E c target requested level (cm_holder s) of
        Fault f \<Rightarrow> Fault f
      | Done (_, h) \<Rightarrow> Done (s\<lparr>cm_holder := h\<rparr>, distChannelChange change target (cm_mx s) x))"

subsection \<open>Sending to several hosts\<close>

text \<open>The errors of the single sends, in order.\<close>

fun cm_errors :: "'c env \<Rightarrow> host_id list \<Rightarrow> datagram \<Rightarrow> 'c conmgmt \<Rightarrow> error list" where
  "cm_errors E [] d s = []"
| "cm_errors E (r # rs) d s =
     (if failed (fst (cm_send E r d s)) then [fst (cm_send E r d s)] else []) @
     cm_errors E rs d (snd (cm_send E r d s))"

definition error_summary :: "error \<Rightarrow> error list \<Rightarrow> error" where
  "error_summary result es =
     (case es of
        [] \<Rightarrow> result
      | [e] \<Rightarrow> if failed result then MultipleErrors else e
      | _ \<Rightarrow> MultipleErrors)"

lemma error_summary_append:
  "NoError \<notin> set es \<Longrightarrow> failed e \<Longrightarrow> error_summary (if failed r then MultipleErrors else e) es = error_summary r (e # es)"
  "error_summary NoError [] = NoError"
  by (auto simp: error_summary_def split: list.split)

lemma cm_errors_failed: "NoError \<notin> set (cm_errors E rs d s)"
  by (induction E rs d s rule: cm_errors.induct) auto

lemma cm_send_fold:
  "fst (fold (cm_send_one E d) rs (result, s)) = error_summary result (cm_errors E rs d s)"
proof (induction rs arbitrary: result s)
  case (Cons r rs)
  obtain e s1 where send: "cm_send E r d s = (e, s1)" by fastforce
  then have one: "cm_send_one E d r (result, s) =
      (if failed e then if failed result then MultipleErrors else e else result, s1)"
    by (auto simp: cm_send_one_def)
  show ?case
    using Cons.IH cm_errors_failed [of E rs d s1] send one
    by (auto simp: error_summary_append split: if_splits)
qed (simp add: error_summary_def)

text \<open>
  Sending to a set of hosts reports no error exactly if every send succeeded, the error of
  the one send that failed, and \<open>MultipleErrors\<close> if two or more failed.
\<close>

lemma send_all_errors:
  "fst (cm_send_all E rs d s) =
     (case cm_errors E rs d s of [] \<Rightarrow> NoError | [e] \<Rightarrow> e | _ \<Rightarrow> MultipleErrors)"
  unfolding cm_send_all_def cm_send_fold by (auto simp: error_summary_def split: list.split)

subsection \<open>Lifting ends\<close>

lemma bestProvider_Some:
  assumes "bestProvider m i ps = Some (l, pv)"
  shows "(l, pv) \<in> set ps \<and> (0 \<le> m \<longrightarrow> l \<le> m) \<and> (i \<longrightarrow> pv_initial pv)"
proof -
  from assms obtain k where "k < length (rev ps)" "rev ps ! k = (l, pv)"
    "\<not> (i \<and> \<not> pv_initial pv) \<and> \<not> (m \<ge> 0 \<and> l > m)"
    unfolding bestProvider_def find_Some_iff by auto
  then show ?thesis by (metis linorder_not_less nth_mem set_rev)
qed

lemma setLast_simps [simp]:
  "ld_last (op_data (setLast l op)) = l" "op_id (setLast l op) = op_id op"
  "ld_target (op_data (setLast l op)) = ld_target (op_data op)"
  "ld_min (op_data (setLast l op)) = ld_min (op_data op)"
  "ld_callback (op_data (setLast l op)) = ld_callback (op_data op)"
  "op_timeOut (setLast l op) = op_timeOut op" "op_addr (setLast l op) = op_addr op"
  "op_type (setLast l op) = op_type op" "op_state (setLast l op) = op_state op"
  "setLast l (setLast l' op) = setLast l op"
  by (simp_all add: setLast_def)

text \<open>How a loop over the providers may end: with the operation added, or given back.\<close>

definition loop_end :: "lift_data aop \<Rightarrow> 'c conmgmt \<Rightarrow> (bool \<times> lift_data aop \<times> 'c conmgmt) option \<Rightarrow> bool" where
  "loop_end op s r \<longleftrightarrow>
     (\<exists>l calls. r = Some (False, setLast l op, s\<lparr>cm_calls := calls\<rparr>) \<or>
        r = Some (True, setLast l op, cm_add_op (setLast l op) (s\<lparr>cm_calls := calls\<rparr>)))"

lemma loop_end_done: "loop_end op s (Some (False, op, s))" "loop_end op s (Some (False, setLast l op, s))"
proof -
  have "op = setLast (ld_last (op_data op)) op" "s = s\<lparr>cm_calls := cm_calls s\<rparr>"
    by (simp_all add: setLast_def)
  then show "loop_end op s (Some (False, op, s))" "loop_end op s (Some (False, setLast l op, s))"
    unfolding loop_end_def by metis+
qed

lemma loop_end_add: "loop_end op s (Some (True, setLast l op, cm_add_op (setLast l op) (s\<lparr>cm_calls := c\<rparr>)))"
  unfolding loop_end_def by blast

lemma loop_end_next: "loop_end (setLast l op) (s\<lparr>cm_calls := c\<rparr>) r \<Longrightarrow> loop_end op s r"
  unfolding loop_end_def by auto

lemma lift_loop_ends:
  assumes "1 \<le> level"
  shows "loop_end op s (lift_loop now level op s)"
proof -
  have pos: "loop_end op s (lift_loop now level op s)" if "1 \<le> ld_last (op_data op)" for op s
    using that
  proof (induction "nat (ld_last (op_data op))" arbitrary: op s rule: less_induct)
    case less
    show ?case
    proof (cases "bestProvider (ld_last (op_data op) - 1) False (cm_providers s)")
      case None
      then show ?thesis by (subst lift_loop.simps) (simp add: loop_end_done)
    next
      case (Some p)
      obtain l pv where p: "p = (l, pv)" by (cases p)
      have l: "l \<le> ld_last (op_data op) - 1" using bestProvider_Some [OF Some [unfolded p]] less.prems by auto
      have IH: "l > level \<Longrightarrow> loop_end op s (lift_loop now level (setLast l op) (s\<lparr>cm_calls := c\<rparr>))" for c
        using less.hyps [of "setLast l op" "s\<lparr>cm_calls := c\<rparr>"] l less.prems assms by (auto intro: loop_end_next)
      show ?thesis
        using Some p IH by (subst lift_loop.simps) (simp add: Let_def loop_end_done loop_end_add)
    qed
  qed
  show ?thesis
  proof (cases "bestProvider (ld_last (op_data op) - 1) False (cm_providers s)")
    case None
    then show ?thesis by (subst lift_loop.simps) (simp add: loop_end_done)
  next
    case (Some p)
    obtain l pv where p: "p = (l, pv)" by (cases p)
    have next_l: "l > level \<Longrightarrow> loop_end op s (lift_loop now level (setLast l op) (s\<lparr>cm_calls := c\<rparr>))" for c
      using pos [of "setLast l op" "s\<lparr>cm_calls := c\<rparr>"] assms by (auto intro: loop_end_next)
    then show ?thesis
      using Some p by (subst lift_loop.simps) (simp add: Let_def loop_end_done loop_end_add)
  qed
qed

lemma initial_loop_ends:
  assumes "\<forall>l \<in> fst ` set (cm_providers s). 0 < l"
  shows "loop_end op s (initial_loop now op s)"
proof -
  have pos: "loop_end op s (initial_loop now op s)"
    if "1 \<le> ld_last (op_data op)" "\<forall>l \<in> fst ` set (cm_providers s). 0 < l" for op and s :: "'a conmgmt"
    using that
  proof (induction "nat (ld_last (op_data op))" arbitrary: op s rule: less_induct)
    case less
    show ?case
    proof (cases "bestProvider (ld_last (op_data op) - 1) True (cm_providers s)")
      case None
      then show ?thesis by (subst initial_loop.simps) (simp add: loop_end_done)
    next
      case (Some p)
      obtain l pv where p: "p = (l, pv)" by (cases p)
      have "(l, pv) \<in> set (cm_providers s)" "l \<le> ld_last (op_data op) - 1"
        using bestProvider_Some [OF Some [unfolded p]] less.prems(1) by auto
      then have IH: "loop_end op s (initial_loop now (setLast l op) (s\<lparr>cm_calls := c\<rparr>))" for c
        using less.hyps [of "setLast l op" "s\<lparr>cm_calls := c\<rparr>"] less.prems
        by (force intro: loop_end_next)
      show ?thesis
        using Some p IH by (subst initial_loop.simps) (simp add: Let_def loop_end_add)
    qed
  qed
  show ?thesis
  proof (cases "bestProvider (ld_last (op_data op) - 1) True (cm_providers s)")
    case None
    then show ?thesis by (subst initial_loop.simps) (simp add: loop_end_done)
  next
    case (Some p)
    obtain l pv where p: "p = (l, pv)" by (cases p)
    have "0 < l" using bestProvider_Some [OF Some [unfolded p]] assms by force
    then have "loop_end op s (initial_loop now (setLast l op) (s\<lparr>cm_calls := c\<rparr>))" for c
      using pos [of "setLast l op" "s\<lparr>cm_calls := c\<rparr>"] assms by (auto intro: loop_end_next)
    then show ?thesis
      using Some p by (subst initial_loop.simps) (simp add: Let_def loop_end_add)
  qed
qed

lemma fresh_op:
  assumes "ab_ok b" and "genFreeId b = (i, b1)" and "\<forall>q \<in> set (ab_ops b). op_addr q < a"
    and "op_id op = i" and "op_addr op = a"
  shows "map_of (ab_map (snd (addAsyncOp op b1))) i = Some op"
proof -
  have "op_addr op \<notin> op_addr ` set (ab_ops b)" using assms(3,5) by auto
  then have "op_fresh op b1" using genFreeId_fresh [OF assms(1,2)] assms(4) by simp
  moreover have "ab_ok b1" using genFreeId_ok [OF assms(1)] assms(2) by simp
  moreover have "i \<noteq> 0" using assms(1,2) by (auto simp: genFreeId_def ab_ok_def ab_wf_def)
  ultimately show ?thesis
    using addAsyncOp_ok(2) [of b1 op] assms(4)
    by (cases "addAsyncOp op b1") (auto simp: addAsyncOp_def Let_def split: if_splits)
qed

text \<open>What becomes of an operation that is not in the table: a result, or an entry.\<close>

definition op_served :: "int \<Rightarrow> lift_data aop \<Rightarrow> 'c conmgmt \<Rightarrow> 'c conmgmt \<Rightarrow> bool" where
  "op_served level op s s' \<longleftrightarrow>
     (\<exists>e. cm_results s' = cm_results s @ [(ld_callback (op_data op), e)] \<and> cm_ops s' = cm_ops s \<and>
        (e = NoError \<longrightarrow> ld_min (op_data op) \<le> level) \<and> (e = NoError \<or> e = CouldNotConnectHost)) \<or>
     (\<exists>l st. cm_results s' = cm_results s \<and>
        cm_ops s' = snd (addAsyncOp ((setLast l op)\<lparr>op_state := st\<rparr>) (cm_ops s)))"

lemma setLast_state: "setLast l (op\<lparr>op_state := st\<rparr>) = (setLast l op)\<lparr>op_state := st\<rparr>"
  by (simp add: setLast_def)

lemma cm_lift_served:
  assumes "h_ok (cm_holder s)"
  shows "\<exists>s'. cm_lift E op s = Some s' \<and>
     op_served (findBestChannelLevel (ld_target (op_data op)) (cm_holder s)) op s s'"
proof (cases "findBestChannelLevel (ld_target (op_data op)) (cm_holder s) = 0")
  case True
  then show ?thesis by (auto simp: cm_lift_def cm_result_def op_served_def)
next
  case False
  let ?level = "findBestChannelLevel (ld_target (op_data op)) (cm_holder s)"
  have "1 \<le> ?level"
    using h_okD(2) [OF assms] False
    by (force simp: findBestChannelLevel_def peers_ok_def peer_ok_def split: option.splits)
  from lift_loop_ends [OF this, of "op\<lparr>op_state := LS_Lift\<rparr>" s "ev_now E"] False show ?thesis
    by (force simp: loop_end_def cm_lift_def cm_result_def op_served_def cm_add_op_def setLast_state Let_def)
qed

lemma startLifting_served:
  assumes "h_ok (cm_holder s)" and "\<forall>l \<in> fst ` set (cm_providers s). 0 < l"
  shows "\<exists>s'. startLifting E op s = Some s' \<and>
     op_served (findBestChannelLevel (ld_target (op_data op)) (cm_holder s)) op s s'"
proof (cases "findBestChannelLevel (ld_target (op_data op)) (cm_holder s) = 0")
  case True
  with initial_loop_ends [OF assms(2), of "op\<lparr>op_state := LS_CreateInitial\<rparr>" "ev_now E"] show ?thesis
    by (force simp: loop_end_def startLifting_def cm_result_def op_served_def cm_add_op_def setLast_state)
next
  case False
  with cm_lift_served [OF assms(1), of E op] show ?thesis by (simp add: startLifting_def)
qed

text \<open>
  C22. If every provider was added with a positive priority (the default priority of
  \<open>addChannelProvider\<close> is 0, with which lifting may never return: \<open>priority_zero_never_returns\<close>),
  the holder of the channels and the table of the operations are in order, then lifting a connection returns, and the
  caller is served: either its result is posted at once, \<open>NoError\<close> only if the host is reached at the
  demanded level or better, or its operation is in the table under the id just generated and
  with its deadline, for \<open>onChannelCreate\<close> or the timer to find.
\<close>

theorem lift_serves_caller:
  assumes "h_ok (cm_holder s)" and "\<forall>l \<in> fst ` set (cm_providers s). 0 < l"
    and "ab_ok (cm_ops s)" and "\<forall>q \<in> set (ab_ops (cm_ops s)). op_addr q < cm_alloc s"
  shows "\<exists>s'. liftToAtLeast E level host cb ms s = Some s' \<and>
     ((\<exists>e. cm_results s' = cm_results s @ [(cb, e)] \<and> ab_map (cm_ops s') = ab_map (cm_ops s) \<and>
         (e = NoError \<longrightarrow> level \<le> findBestChannelLevel host (cm_holder s))) \<or>
      (cm_results s' = cm_results s \<and>
        (\<exists>op. map_of (ab_map (cm_ops s')) (ab_nextId (cm_ops s)) = Some op \<and>
           ld_callback (op_data op) = cb \<and> ld_target (op_data op) = host \<and>
           op_timeOut op = regTimeOutMs (ev_now E) ms)))"
proof -
  obtain i b where gen: "genFreeId (cm_ops s) = (i, b)" by fastforce
  let ?s = "s\<lparr>cm_ops := b, cm_alloc := cm_alloc s + 1\<rparr>"
  define op where "op = (new_op LIFT_CONNECTION (regTimeOutMs (ev_now E) ms) (cm_alloc s)
      \<lparr>ld_last = -1, ld_min = level, ld_target = host, ld_callback = cb\<rparr>)\<lparr>op_id := i, op_state := LS_Start\<rparr>"
  have op: "op_id op = i" "op_addr op = cm_alloc s" "ld_min (op_data op) = level"
    "ld_target (op_data op) = host" "ld_callback (op_data op) = cb" "op_timeOut op = regTimeOutMs (ev_now E) ms"
    by (simp_all add: op_def new_op_def)
  have i: "i = ab_nextId (cm_ops s)" "ab_map b = ab_map (cm_ops s)" using gen by (auto simp: genFreeId_def)
  obtain s' where s': "startLifting E op ?s = Some s'"
    "op_served (findBestChannelLevel host (cm_holder s)) op ?s s'"
    using startLifting_served [of ?s E op] assms(1,2) op(4) by auto
  have lift: "liftToAtLeast E level host cb ms s = Some s'"
    using s'(1) gen by (simp add: liftToAtLeast_def op_def Let_def)
  have "map_of (ab_map (snd (addAsyncOp ((setLast l op)\<lparr>op_state := st\<rparr>) b))) i =
      Some ((setLast l op)\<lparr>op_state := st\<rparr>)" for l st
    using fresh_op [OF assms(3) gen assms(4), of "(setLast l op)\<lparr>op_state := st\<rparr>"] op by simp
  with lift s'(2) op i show ?thesis
    unfolding op_served_def by (auto intro!: exI [of _ s'])
qed

lemma lift_serves_caller_witness:
  "\<exists>s'. liftToAtLeast (demo_env NoError []) 2 ''b'' 5 1000
       ((cm_new 0 (mx_new None))\<lparr>cm_providers := [(1, \<lparr>pv_initial = True, pv_create = \<lambda>_ _. NotSupported, pv_protocol = None\<rparr>)]\<rparr>) = Some s' \<and>
     (cm_results s' = [] \<or> (\<exists>e. cm_results s' = [(5, e)] \<and> e \<noteq> NoError))"
proof -
  let ?s = "(cm_new 0 (mx_new None))\<lparr>cm_providers := [(1, \<lparr>pv_initial = True, pv_create = \<lambda>_ _. NotSupported, pv_protocol = None\<rparr>)]\<rparr>"
  have "h_ok (cm_holder ?s)" "ab_ok (cm_ops ?s)" "\<forall>l \<in> fst ` set (cm_providers ?s). 0 < l"
    "\<forall>q \<in> set (ab_ops (cm_ops ?s)). op_addr q < cm_alloc ?s"
    by (simp_all add: cm_new_def) (simp add: ab_init_def)
  from lift_serves_caller [OF this(1,3,2,4), of "demo_env NoError []" 2 "''b''" 5 1000] show ?thesis
    by (auto simp: cm_new_def findBestChannelLevel_def ch_new_def)
qed

text \<open>
  A provider of priority 0, the default of \<open>addChannelProvider\<close>, that offers initial channels
  and refuses at once keeps \<open>startLifting\<close> in its loop for ever: the bound for the next
  level is then -1, which \<open>bestProvider\<close> takes for no bound at all.
\<close>

lemma priority_zero_never_returns:
  assumes "cm_providers s = [(0, pv)]" and "pv_initial pv" and "\<And>h t. failed (pv_create pv h t)"
    and "findBestChannelLevel host (cm_holder s) = 0"
  shows "liftToAtLeast E level host cb ms s = None"
proof -
  have "\<not> (cm_providers s = [(0, pv)] \<and> ld_last (op_data op) \<in> {-1, 0})"
    if "initial_loop now op s = Some r" for now op and s :: "'a conmgmt" and r
  proof (rule initial_loop.raw_induct [OF _ that])
    fix loop :: "int \<Rightarrow> lift_data aop \<Rightarrow> 'a conmgmt \<Rightarrow> (bool \<times> lift_data aop \<times> 'a conmgmt) option"
      and now op r and s :: "'a conmgmt"
    assume IH: "\<And>now op s r. loop now op s = Some r \<Longrightarrow>
        \<not> (cm_providers s = [(0, pv)] \<and> ld_last (op_data op) \<in> {-1, 0})"
      and body: "(case bestProvider (ld_last (op_data op) - 1) True (cm_providers s) of
        None \<Rightarrow> Some (False, op, s)
      | Some (l, pv) \<Rightarrow>
          let op1 = setLast l op; t = lastingTimeMs now (66 / 100) op1;
              e = pv_create pv (ld_target (op_data op1)) t;
              s1 = s\<lparr>cm_calls := cm_calls s @ [(l, ld_target (op_data op1), True, op_id op1, t)]\<rparr>
          in if failed e then loop now op1 s1 else Some (True, op1, cm_add_op op1 s1)) = Some r"
    have "bestProvider (ld_last (op_data op) - 1) True (cm_providers s) = Some (0, pv)"
      if "cm_providers s = [(0, pv)] \<and> ld_last (op_data op) \<in> {-1, 0}"
      using that assms(2) by (auto simp: bestProvider_def)
    with body IH [of now "setLast 0 op" "s\<lparr>cm_calls := cm_calls s @
        [(0, ld_target (op_data op), True, op_id op, lastingTimeMs now (66 / 100) (setLast 0 op))]\<rparr>" r] assms(3)
    show "\<not> (cm_providers s = [(0, pv)] \<and> ld_last (op_data op) \<in> {-1, 0})"
      by (auto simp: Let_def)
  qed
  then have "initial_loop now op s = None" if "cm_providers s = [(0, pv)]" "ld_last (op_data op) = -1"
    for now op and s :: "'a conmgmt"
    using that by (cases "initial_loop now op s") auto
  with assms(1,4) show ?thesis
    by (simp add: liftToAtLeast_def startLifting_def new_op_def Let_def split: prod.split)
qed

lemma priority_zero_never_returns_witness:
  "liftToAtLeast (demo_env NoError []) 1 ''b'' 5 1000 ((cm_new 0 (mx_new None))\<lparr>cm_providers :=
     [(0, \<lparr>pv_initial = True, pv_create = \<lambda>_ _. NotSupported, pv_protocol = None\<rparr>)]\<rparr>) = None"
  by (rule priority_zero_never_returns [where pv = "\<lparr>pv_initial = True, pv_create = \<lambda>_ _. NotSupported, pv_protocol = None\<rparr>"])
    (simp_all add: cm_new_def findBestChannelLevel_def ch_new_def)

end
