(* ===== verification/Sf_DataSharing.thy ===== *)
theory Sf_DataSharing
  imports Sf_Path Sf_AsyncOp
begin

text \<open>
  The elements of the data sharing protocol
  (\<open>libschnee/schnee/p2p/DataSharingElements.h\<close>) and the promises data is served from
  (\<open>p2p/DataPromise.h\<close>, \<open>p2p/DataSharingServer.h\<close>).  How the structures are put into JSON is
  generated code; a message here is its structure.  \<open>isDefault\<close> of a range is generated
  too and compares with a default constructed one.
\<close>

subsection \<open>Elements\<close>

record data_desc =
  dd_mime :: string
  dd_storage :: string
  dd_user :: string

abbreviation no_desc :: data_desc where
  "no_desc \<equiv> \<lparr>dd_mime = [], dd_storage = [], dd_user = []\<rparr>"

record ds_range =
  r_from :: int
  r_to :: int

definition mk_range :: "int \<Rightarrow> int \<Rightarrow> ds_range" where
  "mk_range a b = \<lparr>r_from = a, r_to = b\<rparr>"

lemma mk_range_simps [simp]: "r_from (mk_range a b) = a" "r_to (mk_range a b) = b"
  by (simp_all add: mk_range_def)

definition r_isDefault :: "ds_range \<Rightarrow> bool" where
  "r_isDefault r \<longleftrightarrow> r_from r = 0 \<and> r_to r = 0"

definition r_isValid :: "ds_range \<Rightarrow> bool" where
  "r_isValid r \<longleftrightarrow> r_from r \<ge> 0 \<and> r_to r \<ge> 0 \<and> r_to r \<ge> r_from r"

definition r_length :: "ds_range \<Rightarrow> int" where
  "r_length r = r_to r - r_from r"

definition r_inRange :: "ds_range \<Rightarrow> ds_range \<Rightarrow> bool" where
  "r_inRange x r \<longleftrightarrow> r_isValid x \<and> r_from x \<ge> r_from r \<and> r_to x \<le> r_to r"

definition r_clip :: "int \<Rightarrow> ds_range \<Rightarrow> int" where
  "r_clip x r = (if x < r_from r then r_from r else if x > r_to r then r_to r else x)"

definition r_clipTo :: "ds_range \<Rightarrow> ds_range \<Rightarrow> ds_range" where
  "r_clipTo x r = mk_range (r_clip (r_from x) r) (r_clip (r_to x) r)"

datatype notify_mark = NT_NoMark | NT_SubscriptionCancel
datatype request_mark = RQ_NoMark | RQ_Transmission | RQ_TransmissionCancel
datatype reply_mark = RR_NoMark | RR_TransmissionStart | RR_Transmission | RR_TransmissionFinish | RR_TransmissionCancel
datatype subscribe_mark = SB_NoMark | SB_SubscriptionCancel

record ds_notify =
  nt_path :: path
  nt_revision :: int
  nt_size :: int
  nt_mark :: notify_mark

record ds_request =
  rq_id :: int
  rq_path :: path
  rq_user :: string
  rq_revision :: int
  rq_range :: ds_range
  rq_mark :: request_mark

record ds_request_reply =
  rr_path :: path
  rr_err :: error
  rr_id :: int
  rr_desc :: data_desc
  rr_revision :: int
  rr_range :: ds_range
  rr_mark :: reply_mark

record ds_subscribe =
  sb_id :: int
  sb_path :: path
  sb_mark :: subscribe_mark

record ds_subscribe_reply =
  sr_path :: path
  sr_err :: error
  sr_id :: int
  sr_desc :: data_desc

record ds_push =
  pu_id :: int
  pu_path :: path
  pu_revision :: int
  pu_range :: ds_range

record ds_push_reply =
  pr_path :: path
  pr_err :: error
  pr_id :: int

definition new_notify :: ds_notify where
  "new_notify = \<lparr>nt_path = Path [], nt_revision = 0, nt_size = 0, nt_mark = NT_NoMark\<rparr>"

definition new_request :: ds_request where
  "new_request = \<lparr>rq_id = 0, rq_path = Path [], rq_user = [], rq_revision = 0, rq_range = mk_range 0 0,
                  rq_mark = RQ_NoMark\<rparr>"

definition new_request_reply :: ds_request_reply where
  "new_request_reply = \<lparr>rr_path = Path [], rr_err = NoError, rr_id = 0, rr_desc = no_desc, rr_revision = 0,
                        rr_range = mk_range 0 0, rr_mark = RR_NoMark\<rparr>"

definition new_subscribe :: ds_subscribe where
  "new_subscribe = \<lparr>sb_id = 0, sb_path = Path [], sb_mark = SB_NoMark\<rparr>"

definition new_subscribe_reply :: ds_subscribe_reply where
  "new_subscribe_reply = \<lparr>sr_path = Path [], sr_err = NoError, sr_id = 0, sr_desc = no_desc\<rparr>"

definition new_push_reply :: "error \<Rightarrow> ds_push_reply" where
  "new_push_reply e = \<lparr>pr_path = Path [], pr_err = e, pr_id = 0\<rparr>"

text \<open>What goes over the wire, with the content of the datagram.\<close>

datatype ds_msg =
    MNotify ds_notify
  | MRequest ds_request
  | MRequestReply ds_request_reply bytes
  | MSubscribe ds_subscribe
  | MSubscribeReply ds_subscribe_reply
  | MPush ds_push bytes
  | MPushReply ds_push_reply

subsection \<open>Promises\<close>

text \<open>The virtual functions of a \<open>DataPromise\<close>; reading may leave the defined behaviour.\<close>

record data_promise =
  dp_ready :: bool
  dp_read :: "ds_range \<Rightarrow> (error \<times> bytes) outcome"
  dp_size :: int
  dp_desc :: data_desc

definition dp_read_all :: "data_promise \<Rightarrow> (error \<times> bytes) outcome" where
  "dp_read_all p = dp_read p (mk_range 0 (dp_size p))"

text \<open>
  \<open>ByteArrayPromise::read\<close> assigns from an iterator range without a check: outside the data,
  or with the ends swapped, it is undefined.
\<close>

definition byteArrayRead :: "bytes \<Rightarrow> ds_range \<Rightarrow> (error \<times> bytes) outcome" where
  "byteArrayRead mData r =
     (if 0 \<le> r_from r \<and> r_from r \<le> r_to r \<and> r_to r \<le> int (length mData)
      then Done (NoError, take (nat (r_to r - r_from r)) (drop (nat (r_from r)) mData))
      else Fault OutOfBounds)"

definition byteArrayPromise :: "bytes \<Rightarrow> data_desc \<Rightarrow> data_promise" where
  "byteArrayPromise mData desc =
     \<lparr>dp_ready = True, dp_read = byteArrayRead mData, dp_size = int (length mData), dp_desc = desc\<rparr>"

definition createDataPromise :: "bytes option \<Rightarrow> data_desc \<Rightarrow> data_promise option" where
  "createDataPromise mData desc =
     (case mData of None \<Rightarrow> None | Some d \<Rightarrow> Some (byteArrayPromise d desc))"

text \<open>
  A \<open>SharingPromise\<close>.  \<open>FixedSharingPromise\<close> declares a \<open>desc\<close> of its own but does not override
  \<open>dataDescription\<close>, which stays the empty one of the base class; a null \<open>mData\<close> is
  dereferenced by \<open>size\<close>.
\<close>

record sharing_promise =
  sp_data :: "path \<Rightarrow> string \<Rightarrow> data_promise option"
  sp_desc :: data_desc
  sp_size :: "int outcome"

definition fixedSharingPromise :: "data_promise option \<Rightarrow> sharing_promise" where
  "fixedSharingPromise mData =
     \<lparr>sp_data = (\<lambda>subPath user. mData), sp_desc = no_desc,
      sp_size = (case mData of None \<Rightarrow> Fault NullDeref | Some d \<Rightarrow> Done (dp_size d))\<rparr>"

definition createPromise :: "bytes option \<Rightarrow> sharing_promise" where
  "createPromise d = fixedSharingPromise (createDataPromise d no_desc)"

text \<open>A promise that reads anything inside its size without fault.\<close>

definition dp_sound :: "data_promise \<Rightarrow> bool" where
  "dp_sound p \<longleftrightarrow> 0 \<le> dp_size p \<and>
     (\<forall>r. r_inRange r (mk_range 0 (dp_size p)) \<longrightarrow>
        (\<exists>e d. dp_read p r = Done (e, d) \<and> int (length d) \<le> r_length r))"

lemma byteArray_sound [simp]: "dp_sound (byteArrayPromise d desc)"
  by (auto simp: dp_sound_def byteArrayPromise_def byteArrayRead_def r_inRange_def r_isValid_def r_length_def)

lemma read_all_sound: "dp_sound p \<Longrightarrow> \<exists>e d. dp_read_all p = Done (e, d)"
  unfolding dp_sound_def dp_read_all_def
  by (auto dest!: spec [of _ "mk_range 0 (dp_size p)"] simp: r_inRange_def r_isValid_def)

end
