(* ===== verification/Sf_DSServer.thy ===== *)
theory Sf_DSServer
  imports Sf_DataSharing
begin

text \<open>
  \<open>DataSharingServerImpl\<close> (\<open>libschnee/schnee/p2p/com/DataSharingServerImpl.h\<close>,
  \<open>DataSharingServerImpl.cpp\<close>): shares promises under paths, answers requests, sends
  transmissions chunk by chunk, and tells subscribers about new revisions.

  Datagrams sent are logged in \<open>sv_sent\<close>; what the communication delegate's \<open>send\<close> returns is
  the field \<open>se_send\<close> of the environment.  The updates given to a promise are \<open>sv_updates\<close>,
  posted calls of \<open>continueTransmission\<close> are \<open>sv_tasks\<close>.  The speed measurement, which only
  feeds those updates, is left out.

  A transmission keeps the 64 bit id of its request and the number of its chunks in an \<open>int\<close> of 32
  bits (\<open>to_int32\<close>).  The counters \<open>currentRevision\<close> and \<open>nextChunk\<close>, also of 32 bits, are
  unbounded here; they would overflow after \<open>2 ^ 31\<close> updates of one path or chunks of one
  transmission.
\<close>

record tr_info =
  ti_mark :: reply_mark
  ti_transferred :: int
  ti_error :: error
  ti_destination :: host_id
  ti_path :: path

record transmission =
  tr_revision :: int
  tr_range :: ds_range
  tr_info :: tr_info
  tr_requestId :: int
  tr_chunkSize :: int
  tr_count :: int
  tr_nextChunk :: int
  tr_promise :: data_promise

record shared_data =
  sd_promise :: "sharing_promise option"
  sd_revision :: int
  sd_subscribers :: "(host_id, unit) smap"

datatype sv_task = Continue error int | ContinueAt time int

abbreviation (input) TRANSMISSION :: int where "TRANSMISSION \<equiv> 1"

record ds_server =
  sv_ops :: "transmission async_base"
  sv_alloc :: nat
  sv_shared :: "(path, shared_data) smap"
  sv_timeoutMs :: int
  sv_sent :: "(host_id \<times> ds_msg) list"
  sv_tasks :: "sv_task list"
  sv_updates :: "(int \<times> tr_info) list"

record sv_env =
  se_now :: int
  se_perm :: "(host_id \<Rightarrow> path \<Rightarrow> bool) option"
  se_send :: "host_id \<Rightarrow> ds_msg \<Rightarrow> error"
  se_level :: "host_id \<Rightarrow> int"

definition sv_new :: ds_server where
  "sv_new = \<lparr>sv_ops = ab_init, sv_alloc = 0, sv_shared = [], sv_timeoutMs = 60000, sv_sent = [],
             sv_tasks = [], sv_updates = []\<rparr>"

definition sv_send :: "host_id \<Rightarrow> ds_msg \<Rightarrow> ds_server \<Rightarrow> ds_server" where
  "sv_send host m s = s\<lparr>sv_sent := sv_sent s @ [(host, m)]\<rparr>"

definition sv_send_set :: "(host_id, unit) smap \<Rightarrow> ds_msg \<Rightarrow> ds_server \<Rightarrow> ds_server" where
  "sv_send_set hosts m s = s\<lparr>sv_sent := sv_sent s @ map (\<lambda>(h, _). (h, m)) hosts\<rparr>"

definition sv_permits :: "sv_env \<Rightarrow> host_id \<Rightarrow> path \<Rightarrow> bool" where
  "sv_permits E host p = (case se_perm E of None \<Rightarrow> False | Some f \<Rightarrow> f host p)"

subsection \<open>Sharing\<close>

definition cancel_notify :: "path \<Rightarrow> ds_msg" where
  "cancel_notify p = MNotify (new_notify\<lparr>nt_path := p, nt_mark := NT_SubscriptionCancel\<rparr>)"

definition sv_shutdown :: "ds_server \<Rightarrow> ds_server" where
  "sv_shutdown s =
     (fold (\<lambda>(p, d). sv_send_set (sd_subscribers d) (cancel_notify p)) (sv_shared s) s)\<lparr>sv_shared := []\<rparr>"

definition sv_share :: "path \<Rightarrow> sharing_promise option \<Rightarrow> ds_server \<Rightarrow> error \<times> ds_server" where
  "sv_share p promise s =
     (if path_hasSubPath p then (NotSupported, s)
      else if map_of (sv_shared s) p \<noteq> None then (ExistsAlready, s)
      else (NoError, s\<lparr>sv_shared := sm_insert p
              \<lparr>sd_promise = promise, sd_revision = (if promise \<noteq> None then 1 else 0), sd_subscribers = []\<rparr>
              (sv_shared s)\<rparr>))"

definition notifySubscriber :: "path \<Rightarrow> ds_server \<Rightarrow> (error \<times> ds_server) outcome" where
  "notifySubscriber p s =
     (case map_of (sv_shared s) p of
        None \<Rightarrow> Done (NotFound, s)
      | Some d \<Rightarrow>
          (case sd_promise d of
             None \<Rightarrow> Fault NullDeref
           | Some sp \<Rightarrow>
               outcome_bind (sp_size sp) (\<lambda>size.
                 Done (NoError, sv_send_set (sd_subscribers d)
                   (MNotify (new_notify\<lparr>nt_path := p, nt_revision := sd_revision d, nt_size := size\<rparr>)) s))))"

definition sv_update :: "path \<Rightarrow> sharing_promise option \<Rightarrow> ds_server \<Rightarrow> (error \<times> ds_server) outcome" where
  "sv_update p promise s =
     (case promise of
        None \<Rightarrow> Done (InvalidArgument, s)
      | Some sp \<Rightarrow>
          (case map_of (sv_shared s) p of
             None \<Rightarrow> Done (NotFound, s)
           | Some d \<Rightarrow>
               let d' = d\<lparr>sd_revision := (if sd_revision d \<le> 0 then 1 else sd_revision d + 1),
                          sd_promise := Some sp\<rparr>
               in outcome_bind (notifySubscriber p (s\<lparr>sv_shared := sm_insert p d' (sv_shared s)\<rparr>))
                    (\<lambda>(_, s'). Done (NoError, s'))))"

definition sv_unShare :: "path \<Rightarrow> ds_server \<Rightarrow> error \<times> ds_server" where
  "sv_unShare p s =
     (case map_of (sv_shared s) p of
        None \<Rightarrow> (NotFound, s)
      | Some d \<Rightarrow>
          (NoError, (sv_send_set (sd_subscribers d) (cancel_notify p) s)
                      \<lparr>sv_shared := sm_erase p (sv_shared s)\<rparr>))"

definition cancelTransfer :: "int \<Rightarrow> ds_server \<Rightarrow> error \<times> ds_server" where
  "cancelTransfer i s =
     (case getReadyAsyncOp i (sv_ops s) of
        (None, b) \<Rightarrow> (NotFound, s)
      | (Some op, b) \<Rightarrow>
          let s1 = s\<lparr>sv_ops := snd (addAsyncOp op b)\<rparr>
          in if op_type op \<noteq> TRANSMISSION then (InvalidArgument, s1)
             else (NoError, s1\<lparr>sv_tasks := sv_tasks s1 @ [Continue Canceled i]\<rparr>))"

definition sv_shared_info :: "ds_server \<Rightarrow> (path \<times> int \<times> host_id list) list" where
  "sv_shared_info s = map (\<lambda>(p, d). (p, sd_revision d, map fst (sd_subscribers d))) (sv_shared s)"

definition sv_shared_at :: "path \<Rightarrow> ds_server \<Rightarrow> (int \<times> host_id list) option" where
  "sv_shared_at p s =
     (case map_of (sv_shared s) p of
        None \<Rightarrow> None | Some d \<Rightarrow> Some (sd_revision d, map fst (sd_subscribers d)))"

text \<open>A host went offline: it is told so and loses its subscriptions.\<close>

definition sv_drop_subscriber ::
  "host_id \<Rightarrow> path \<times> shared_data \<Rightarrow> (path \<times> shared_data) \<times> (host_id \<times> ds_msg) list" where
  "sv_drop_subscriber host e =
     (case e of (p, d) \<Rightarrow>
        if map_of (sd_subscribers d) host \<noteq> None
        then ((p, d\<lparr>sd_subscribers := sm_erase host (sd_subscribers d)\<rparr>), [(host, cancel_notify p)])
        else ((p, d), []))"

definition sv_onChannelChange :: "sv_env \<Rightarrow> host_id \<Rightarrow> ds_server \<Rightarrow> ds_server outcome" where
  "sv_onChannelChange E host s =
     (if se_level E host > 0 then Done s
      else if host = [] then Fault AssertFailed
      else Done (s\<lparr>sv_sent := sv_sent s @ concat (map (snd \<circ> sv_drop_subscriber host) (sv_shared s)),
                   sv_shared := map (fst \<circ> sv_drop_subscriber host) (sv_shared s)\<rparr>))"

subsection \<open>Requests\<close>

text \<open>
  The part of both request handlers that finds the promise.  The null test of the promise
  comes after \<open>data->dataDescription ()\<close> has been called if the request names no user.
\<close>

definition sv_find ::
  "sv_env \<Rightarrow> host_id \<Rightarrow> ds_request \<Rightarrow> ds_server \<Rightarrow> (error + data_promise \<times> int) outcome" where
  "sv_find E sender q s =
     (if \<not> sv_permits E sender (rq_path q) then Done (Inl NoPerm)
      else
        (case map_of (sv_shared s) (Path (path_head (rq_path q))) of
           None \<Rightarrow> Done (Inl NotFound)
         | Some info \<Rightarrow>
             let usedRevision = (if rq_revision q > 0 then rq_revision q else sd_revision info)
             in if sd_revision info \<noteq> usedRevision then Done (Inl RevisionNotFound)
                else
                  (case sd_promise info of
                     None \<Rightarrow> Fault NullDeref
                   | Some sp \<Rightarrow>
                       (case sp_data sp (path_subPath (rq_path q)) (rq_user q) of
                          None \<Rightarrow> if rq_user q = [] then Fault NullDeref else Done (Inl NotFound)
                        | Some data \<Rightarrow> Done (Inr (data, usedRevision))))))"

definition sv_request_answer ::
  "sv_env \<Rightarrow> host_id \<Rightarrow> ds_request \<Rightarrow> ds_server \<Rightarrow> (ds_request_reply \<times> bytes) outcome" where
  "sv_request_answer E sender q s =
     (let answer = new_request_reply\<lparr>rr_path := rq_path q, rr_id := rq_id q\<rparr>
      in outcome_bind (sv_find E sender q s) (\<lambda>r.
           case r of
             Inl e \<Rightarrow> Done (answer\<lparr>rr_err := e\<rparr>, [])
           | Inr (data, usedRevision) \<Rightarrow>
               if \<not> dp_ready data then Done (answer\<lparr>rr_err := NotSupported\<rparr>, [])
               else if \<not> r_isDefault (rq_range q) \<and> \<not> r_inRange (rq_range q) (mk_range 0 (dp_size data))
               then Done (answer\<lparr>rr_err := InvalidArgument\<rparr>, [])
               else
                 outcome_bind (if r_isDefault (rq_range q) then dp_read_all data else dp_read data (rq_range q))
                   (\<lambda>(_, content). Done (answer\<lparr>rr_err := NoError,
                      rr_desc := (dp_desc data)\<lparr>dd_user := (if rq_user q = [] then dd_user (dp_desc data) else rq_user q)\<rparr>,
                      rr_revision := usedRevision, rr_range := rq_range q\<rparr>, content))))"

text \<open>\<open>TransmissionFinder\<close>: by the request id alone.\<close>

definition findTransmissions :: "int \<Rightarrow> transmission async_base \<Rightarrow> int list" where
  "findTransmissions requestId b =
     rev (forEachAsyncOp (\<lambda>op acc. if op_type op = TRANSMISSION \<and> tr_requestId (op_data op) = requestId
                                   then op_id op # acc else acc) b [])"

definition sv_cancel_transmissions :: "int \<Rightarrow> ds_server \<Rightarrow> ds_server" where
  "sv_cancel_transmissions requestId s =
     s\<lparr>sv_ops := fold (\<lambda>i b. snd (getReadyAsyncOpOf i TRANSMISSION b))
                      (findTransmissions requestId (sv_ops s)) (sv_ops s)\<rparr>"

text \<open>
  \<open>usedRange = reply.range\<close> for a request with a range: \<open>reply\<close> is the new reply object, whose
  range is still the empty one.
\<close>

definition chunk_count :: "int \<Rightarrow> int \<Rightarrow> int" where
  "chunk_count len chunkSize =
     (if len = 0 then 1
      else if len mod chunkSize > 0 then len div chunkSize + 1 else len div chunkSize)"

definition sv_start_transmission ::
  "sv_env \<Rightarrow> host_id \<Rightarrow> ds_request \<Rightarrow> data_promise \<Rightarrow> int \<Rightarrow> ds_range \<Rightarrow> ds_request_reply \<Rightarrow>
   ds_server \<Rightarrow> ds_request_reply \<times> ds_server" where
  "sv_start_transmission E sender q data usedRevision usedRange reply s =
     (let info = \<lparr>ti_mark = RR_NoMark, ti_transferred = 0, ti_error = NoError, ti_destination = sender,
                  ti_path = rq_path q\<rparr>;
          t = \<lparr>tr_revision = usedRevision, tr_range = usedRange, tr_info = info\<lparr>ti_mark := RR_TransmissionStart\<rparr>,
               tr_requestId = to_int32 (rq_id q), tr_chunkSize = 8192,
               tr_count = (if dp_size data = -1 then -1 else to_int32 (chunk_count (r_length usedRange) 8192)),
               tr_nextChunk = 0, tr_promise = data\<rparr>;
          (i, b) = addAsyncOp (new_op TRANSMISSION (regTimeOutMs (se_now E) (sv_timeoutMs s)) (sv_alloc s) t) (sv_ops s)
      in (reply\<lparr>rr_mark := RR_TransmissionStart,
                rr_desc := (dp_desc data)\<lparr>dd_user := (if rq_user q = [] then dd_user (dp_desc data) else rq_user q)\<rparr>,
                rr_revision := usedRevision, rr_range := usedRange\<rparr>,
          s\<lparr>sv_ops := b, sv_alloc := sv_alloc s + 1, sv_tasks := sv_tasks s @ [Continue NoError i],
            sv_updates := sv_updates s @ [(i, tr_info t)]\<rparr>))"

definition onRequestTransmission :: "sv_env \<Rightarrow> host_id \<Rightarrow> ds_request \<Rightarrow> ds_server \<Rightarrow> ds_server outcome" where
  "onRequestTransmission E sender q s =
     (let reply = new_request_reply\<lparr>rr_id := rq_id q, rr_path := rq_path q\<rparr>
      in if rq_mark q = RQ_TransmissionCancel then Done (sv_cancel_transmissions (rq_id q) s)
         else
           outcome_bind (sv_find E sender q s) (\<lambda>r.
             case r of
               Inl e \<Rightarrow> Done (sv_send sender (MRequestReply (reply\<lparr>rr_err := e\<rparr>) []) s)
             | Inr (data, usedRevision) \<Rightarrow>
                 if \<not> r_isDefault (rq_range q) \<and> dp_size data \<noteq> -1 \<and>
                    \<not> r_inRange (rq_range q) (mk_range 0 (dp_size data))
                 then Done (sv_send sender (MRequestReply (reply\<lparr>rr_err := InvalidArgument\<rparr>) []) s)
                 else
                   let usedRange = (if \<not> r_isDefault (rq_range q) then rr_range reply
                                    else mk_range 0 (dp_size data));
                       (reply', s') = sv_start_transmission E sender q data usedRevision usedRange reply s
                   in Done (sv_send sender (MRequestReply reply' []) s')))"

definition sv_onRequest :: "sv_env \<Rightarrow> host_id \<Rightarrow> ds_request \<Rightarrow> ds_server \<Rightarrow> ds_server outcome" where
  "sv_onRequest E sender q s =
     (if rq_mark q = RQ_Transmission \<or> rq_mark q = RQ_TransmissionCancel then onRequestTransmission E sender q s
      else outcome_bind (sv_request_answer E sender q s)
             (\<lambda>(answer, content). Done (sv_send sender (MRequestReply answer content) s)))"

subsection \<open>Subscriptions and pushes\<close>

definition sv_onSubscribe :: "sv_env \<Rightarrow> host_id \<Rightarrow> ds_subscribe \<Rightarrow> ds_server \<Rightarrow> ds_server" where
  "sv_onSubscribe E sender q s =
     (let reply = new_subscribe_reply\<lparr>sr_id := sb_id q, sr_path := sb_path q\<rparr>
      in if sb_mark q = SB_SubscriptionCancel then
           (case map_of (sv_shared s) (sb_path q) of
              None \<Rightarrow> s
            | Some d \<Rightarrow>
                if map_of (sd_subscribers d) sender \<noteq> None
                then s\<lparr>sv_shared := sm_insert (sb_path q)
                        (d\<lparr>sd_subscribers := sm_erase sender (sd_subscribers d)\<rparr>) (sv_shared s)\<rparr>
                else s)
         else if \<not> sv_permits E sender (sb_path q) then
           sv_send sender (MSubscribeReply (reply\<lparr>sr_err := NoPerm\<rparr>)) s
         else
           (case map_of (sv_shared s) (sb_path q) of
              None \<Rightarrow> sv_send sender (MSubscribeReply (reply\<lparr>sr_err := NotFound\<rparr>)) s
            | Some d \<Rightarrow>
                sv_send sender (MSubscribeReply (reply\<lparr>sr_err := NoError,
                    sr_desc := (case sd_promise d of None \<Rightarrow> no_desc | Some sp \<Rightarrow> sp_desc sp)\<rparr>))
                  (s\<lparr>sv_shared := sm_insert (sb_path q)
                      (d\<lparr>sd_subscribers := sm_insert sender () (sd_subscribers d)\<rparr>) (sv_shared s)\<rparr>)))"

definition sv_onPush :: "host_id \<Rightarrow> ds_push \<Rightarrow> ds_server \<Rightarrow> ds_server" where
  "sv_onPush sender q s =
     sv_send sender (MPushReply ((new_push_reply NotSupported)\<lparr>pr_id := pu_id q, pr_path := pu_path q\<rparr>)) s"

subsection \<open>Transmissions\<close>

definition tr_update :: "int \<Rightarrow> tr_info \<Rightarrow> ds_server \<Rightarrow> ds_server" where
  "tr_update i info s = s\<lparr>sv_updates := sv_updates s @ [(i, info)]\<rparr>"

definition tr_abort :: "error \<Rightarrow> transmission aop \<Rightarrow> ds_server \<Rightarrow> ds_server" where
  "tr_abort lastError op s =
     (let t = op_data op;
          info = (tr_info t)\<lparr>ti_mark := RR_TransmissionCancel, ti_error := lastError\<rparr>;
          reply = new_request_reply\<lparr>rr_id := tr_requestId t, rr_path := ti_path (tr_info t),
                                    rr_mark := RR_TransmissionCancel, rr_err := ConnectionError\<rparr>
      in sv_send (ti_destination (tr_info t)) (MRequestReply reply []) (tr_update (op_id op) info s))"

definition tr_desired :: "transmission \<Rightarrow> ds_range" where
  "tr_desired t =
     (let start = r_from (tr_range t) + ti_transferred (tr_info t)
      in if r_to (tr_range t) = -1 then mk_range start (start + tr_chunkSize t)
         else mk_range start (min (r_to (tr_range t)) (start + tr_chunkSize t)))"

text \<open>Putting an operation back with a new deadline.\<close>

definition tr_again :: "sv_env \<Rightarrow> transmission aop \<Rightarrow> ds_server \<Rightarrow> ds_server" where
  "tr_again E op s =
     s\<lparr>sv_ops := snd (addAsyncOp (op\<lparr>op_timeOut := regTimeOutMs (se_now E) (sv_timeoutMs s)\<rparr>) (sv_ops s))\<rparr>"

definition tr_send_chunk :: "sv_env \<Rightarrow> transmission aop \<Rightarrow> ds_server \<Rightarrow> ds_server outcome" where
  "tr_send_chunk E op s =
     (let t = op_data op;
          last_chunk = (tr_nextChunk t = tr_count t - 1);
          desired = tr_desired t
      in outcome_bind (dp_read (tr_promise t) desired) (\<lambda>(readError, data).
           let mark = (if last_chunk \<or> readError = Eof then RR_TransmissionFinish else RR_Transmission);
               finished = (last_chunk \<or> readError = Eof);
               rerr = (if readError \<noteq> Eof \<and> failed readError then ReadError else NoError);
               r = new_request_reply\<lparr>rr_mark := mark, rr_id := tr_requestId t, rr_err := rerr,
                     rr_range := mk_range (r_from desired) (r_from desired + int (length data))\<rparr>;
               err = se_send E (ti_destination (tr_info t)) (MRequestReply r data);
               info = (tr_info t)\<lparr>ti_transferred := ti_transferred (tr_info t) + int (length data), ti_mark := mark,
                        ti_error := (if failed rerr then rerr else ti_error (tr_info t))\<rparr>;
               op' = op\<lparr>op_data := t\<lparr>tr_nextChunk := tr_nextChunk t + 1, tr_info := info\<rparr>\<rparr>;
               s' = tr_update (op_id op) info (sv_send (ti_destination (tr_info t)) (MRequestReply r data) s)
           in Done (if failed err \<or> failed rerr \<or> finished then s' else tr_again E op' s')))"

definition continueTransmission :: "sv_env \<Rightarrow> error \<Rightarrow> int \<Rightarrow> ds_server \<Rightarrow> ds_server outcome" where
  "continueTransmission E lastError i s =
     (case getReadyAsyncOpOf i TRANSMISSION (sv_ops s) of
        (None, b) \<Rightarrow> Done (s\<lparr>sv_ops := b\<rparr>)
      | (Some op, b) \<Rightarrow>
          let s1 = s\<lparr>sv_ops := b\<rparr>
          in if failed lastError then Done (tr_abort lastError op s1)
             else if \<not> dp_ready (tr_promise (op_data op)) then
               Done (tr_again E op (s1\<lparr>sv_tasks := sv_tasks s1 @ [ContinueAt (futureInMs (se_now E) 100) i]\<rparr>))
             else tr_send_chunk E op s1)"

text \<open>\<open>Transmission::onCancel\<close> of a transmission that timed out.\<close>

definition tr_onCancel :: "error \<Rightarrow> transmission aop \<Rightarrow> ds_server \<Rightarrow> ds_server" where
  "tr_onCancel reason op s =
     tr_update (op_id op) ((tr_info (op_data op))\<lparr>ti_mark := RR_TransmissionCancel, ti_error := reason\<rparr>) s"

end
