(* ===== verification/Sf_DSServerProps.thy ===== *)
theory Sf_DSServerProps
  imports Sf_DSServer
begin

text \<open>
  What \<open>DataSharingServerImpl\<close> does for its clients: requests are answered with exactly the
  shared bytes, a transmission delivers all of them in order; and five places where it does
  not do what it should.
\<close>

subsection \<open>Requests\<close>

definition demo_share :: "bytes \<Rightarrow> ds_server" where
  "demo_share c = snd (sv_share (Path ''f'') (Some (createPromise (Some c))) sv_new)"

definition demo_sv_env :: sv_env where
  "demo_sv_env = \<lparr>se_now = 0, se_perm = Some (\<lambda>_ _. True), se_send = (\<lambda>_ _. NoError), se_level = (\<lambda>_. 1)\<rparr>"

lemmas sv_eval = demo_share_def demo_sv_env_def sv_share_def sv_new_def createPromise_def fixedSharingPromise_def
  createDataPromise_def path_hasSubPath_def new_request_def path_head_def path_subPath_def sv_permits_def

text \<open>
  A permitted request for shared bytes is answered with exactly the bytes of its range, or
  all of them without a range, under the current revision; outside the data it is answered
  with \<open>InvalidArgument\<close>, for another revision with \<open>RevisionNotFound\<close>, and no content.
\<close>

lemma request_serves_bytes:
  assumes "map_of (sv_shared s) (Path (path_head (rq_path q))) = Some d"
    and "sd_promise d = Some (createPromise (Some data))" and "sv_permits E sender (rq_path q)"
  shows "\<exists>a content. sv_request_answer E sender q s = Done (a, content) \<and> rr_id a = rq_id q \<and> rr_path a = rq_path q \<and>
     (if rq_revision q > 0 \<and> rq_revision q \<noteq> sd_revision d then rr_err a = RevisionNotFound \<and> content = []
      else if r_isDefault (rq_range q) then rr_err a = NoError \<and> content = data \<and> rr_revision a = sd_revision d
      else if 0 \<le> r_from (rq_range q) \<and> r_from (rq_range q) \<le> r_to (rq_range q) \<and> r_to (rq_range q) \<le> int (length data)
      then rr_err a = NoError \<and> rr_range a = rq_range q \<and>
           content = take (nat (r_length (rq_range q))) (drop (nat (r_from (rq_range q))) data)
      else rr_err a = InvalidArgument \<and> content = [])"
  using assms
  by (auto simp: sv_request_answer_def sv_find_def Let_def createPromise_def fixedSharingPromise_def
      createDataPromise_def byteArrayPromise_def byteArrayRead_def dp_read_all_def r_inRange_def r_isValid_def
      r_length_def new_request_reply_def)

lemma request_serves_bytes_witness:
  "\<exists>a. sv_request_answer demo_sv_env ''b'' (new_request\<lparr>rq_path := Path ''f'', rq_range := mk_range 1 3\<rparr>)
     (demo_share ''abcde'') = Done (a, ''bc'') \<and> rr_err a = NoError"
  using request_serves_bytes [of "demo_share ''abcde''" "new_request\<lparr>rq_path := Path ''f'', rq_range := mk_range 1 3\<rparr>"
      "\<lparr>sd_promise = Some (createPromise (Some ''abcde'')), sd_revision = 1, sd_subscribers = []\<rparr>"
      "''abcde''" demo_sv_env "''b''"]
  by (auto simp: sv_eval r_isDefault_def r_length_def)

text \<open>
  C23. A permitted plain request for shared bytes, whatever its range, revision, sub path or user, has
  exactly one reply, to its sender, under its id and path, and changes nothing else: for another
  revision than the current one \<open>RevisionNotFound\<close>; without a range all the bytes; for a range
  inside the data exactly its bytes; for any other range, negative, reversed or too long,
  \<open>InvalidArgument\<close> and no content, so that nothing outside the data is read.
\<close>

theorem request_answered:
  assumes "map_of (sv_shared s) (Path (path_head (rq_path q))) = Some d"
    and "sd_promise d = Some (createPromise (Some data))" and "sv_permits E sender (rq_path q)"
    and "rq_mark q \<noteq> RQ_Transmission" and "rq_mark q \<noteq> RQ_TransmissionCancel"
  shows "\<exists>a content. sv_onRequest E sender q s = Done (sv_send sender (MRequestReply a content) s) \<and>
     rr_id a = rq_id q \<and> rr_path a = rq_path q \<and>
     (if rq_revision q > 0 \<and> rq_revision q \<noteq> sd_revision d then rr_err a = RevisionNotFound \<and> content = []
      else if r_isDefault (rq_range q) then rr_err a = NoError \<and> content = data \<and> rr_revision a = sd_revision d
      else if 0 \<le> r_from (rq_range q) \<and> r_from (rq_range q) \<le> r_to (rq_range q) \<and> r_to (rq_range q) \<le> int (length data)
      then rr_err a = NoError \<and> rr_range a = rq_range q \<and>
           content = take (nat (r_length (rq_range q))) (drop (nat (r_from (rq_range q))) data)
      else rr_err a = InvalidArgument \<and> content = [])"
    (is "\<exists>a content. _ a content \<and> ?P a content")
proof -
  have "sv_onRequest E sender q s = Done (sv_send sender (MRequestReply a content) s)"
    if "sv_request_answer E sender q s = Done (a, content)" for a content
    using that assms(4,5) by (simp add: sv_onRequest_def)
  note eq = this
  obtain a content where run: "sv_request_answer E sender q s = Done (a, content)" and rest: "?P a content"
    using request_serves_bytes [OF assms(1-3)] by (elim exE conjE) iprover
  show ?thesis by (rule exI [of _ a], rule exI [of _ content]) (rule conjI [OF eq [OF run] rest])
qed

lemma request_answered_witness:
  "\<exists>a. sv_onRequest demo_sv_env ''b'' (new_request\<lparr>rq_path := Path ''f'', rq_range := mk_range 1 3\<rparr>) (demo_share ''abcde'') =
     Done (sv_send ''b'' (MRequestReply a ''bc'') (demo_share ''abcde'')) \<and> rr_err a = NoError"
  using request_answered [of "demo_share ''abcde''" "new_request\<lparr>rq_path := Path ''f'', rq_range := mk_range 1 3\<rparr>"
      "\<lparr>sd_promise = Some (createPromise (Some ''abcde'')), sd_revision = 1, sd_subscribers = []\<rparr>"
      "''abcde''" demo_sv_env "''b''"]
  by (auto simp: sv_eval r_isDefault_def r_length_def)

subsection \<open>Transmissions\<close>

definition tr_chunk :: "bytes \<Rightarrow> nat \<Rightarrow> bytes" where
  "tr_chunk data k = take 8192 (drop (8192 * k) data)"

definition tr_chunks :: "bytes \<Rightarrow> nat" where
  "tr_chunks data = nat (chunk_count (int (length data)) 8192)"

definition chunk_msg :: "bytes \<Rightarrow> int \<Rightarrow> nat \<Rightarrow> ds_msg" where
  "chunk_msg data rid k =
     MRequestReply (new_request_reply\<lparr>rr_mark := (if Suc k = tr_chunks data then RR_TransmissionFinish else RR_Transmission),
       rr_id := rid, rr_range := mk_range (int (8192 * k)) (int (8192 * k + length (tr_chunk data k)))\<rparr>) (tr_chunk data k)"

lemma int_tr_chunks: "int (tr_chunks data) = chunk_count (int (length data)) 8192"
proof -
  have "0 \<le> chunk_count (int (length data)) 8192"
    by (simp add: chunk_count_def pos_imp_zdiv_nonneg_iff)
  then show ?thesis by (simp add: tr_chunks_def)
qed

lemma tr_chunks_cases:
  obtains q r where "length data = 8192 * q + r" "r < 8192"
    "tr_chunks data = (if q = 0 \<and> r = 0 then 1 else if 0 < r then q + 1 else q)"
proof -
  let ?n = "length data"
  have "int ?n mod 8192 = int (?n mod 8192)" "int ?n div 8192 = int (?n div 8192)"
    by (simp_all add: zdiv_int zmod_int)
  then have "chunk_count (int ?n) 8192 =
      int (if ?n = 0 then 1 else if 0 < ?n mod 8192 then ?n div 8192 + 1 else ?n div 8192)"
    unfolding chunk_count_def by simp
  then have "tr_chunks data = (if ?n = 0 then 1 else if 0 < ?n mod 8192 then ?n div 8192 + 1 else ?n div 8192)"
    by (simp only: tr_chunks_def nat_int)
  moreover have "?n = 8192 * (?n div 8192) + ?n mod 8192" "?n mod 8192 < 8192" by simp_all
  ultimately show thesis
    by (intro that [of "?n div 8192" "?n mod 8192"]) (auto simp: div_greater_zero_iff dest: dvd_imp_le)
qed

lemma tr_chunks_pos: "0 < tr_chunks data"
  by (rule tr_chunks_cases [of data]) (simp split: if_splits)

lemma tr_chunks_bound:
  "k < tr_chunks data \<Longrightarrow> 8192 * k \<le> length data"
  "Suc k < tr_chunks data \<Longrightarrow> 8192 * Suc k < length data"
  "length data \<le> 8192 * tr_chunks data"
  by (rule tr_chunks_cases [of data]; simp split: if_splits)+

lemma concat_chunks: "concat (map (tr_chunk data) [0..<k]) = take (8192 * k) data"
proof (induction k)
  case (Suc k)
  then show ?case
    by (simp add: tr_chunk_def) (metis add.commute take_add)
qed simp

lemma concat_all_chunks: "concat (map (tr_chunk data) [0..<tr_chunks data]) = data"
  using tr_chunks_bound(3) [of data] by (simp add: concat_chunks)

text \<open>A transmission of \<open>data\<close> that has sent \<open>k\<close> chunks.\<close>

definition tr_at :: "bytes \<Rightarrow> host_id \<Rightarrow> int \<Rightarrow> int \<Rightarrow> nat \<Rightarrow> ds_server \<Rightarrow> bool" where
  "tr_at data host rid i k s \<longleftrightarrow> ab_ok (sv_ops s) \<and>
     (\<exists>op desc. map_of (ab_map (sv_ops s)) i = Some op \<and> op_type op = TRANSMISSION \<and>
        tr_range (op_data op) = mk_range 0 (int (length data)) \<and> tr_chunkSize (op_data op) = 8192 \<and>
        tr_count (op_data op) = int (tr_chunks data) \<and> tr_nextChunk (op_data op) = int k \<and>
        tr_requestId (op_data op) = rid \<and> tr_promise (op_data op) = byteArrayPromise data desc \<and>
        ti_transferred (tr_info (op_data op)) = int (8192 * k) \<and> ti_destination (tr_info (op_data op)) = host)"

text \<open>Taking an operation out and putting a changed one back under its id.\<close>

lemma readd_ok:
  assumes "ab_ok b" and "map_of (ab_map b) i = Some op" and "op_id op' = i" and "op_addr op' = op_addr op"
  shows "ab_ok (snd (addAsyncOp op' (ab_remove op i b)))"
    "map_of (ab_map (snd (addAsyncOp op' (ab_remove op i b)))) = (map_of (ab_map b))(i \<mapsto> op')"
proof -
  have wf: "ab_wf b" using assms(1) by (simp add: ab_ok_def)
  note rm = ab_remove_props [OF wf assms(2)]
  have ok: "ab_ok (ab_remove op i b)" using ab_remove_ok [OF assms(1,2)] .
  have i: "0 < i" "i < ab_nextId b" using ab_wf_boundD [OF wf assms(2)] by simp_all
  have "op \<in> set (ab_ops b)" using ab_wf_mapD [OF wf assms(2)] by simp
  then have "op_addr op \<notin> op_addr ` (set (ab_ops b) - {op})"
    using ab_wf_addrD [OF wf] by (auto simp: distinct_map inj_on_def)
  then have fresh: "op_fresh op' (ab_remove op i b)"
    using assms(3,4) i rm(2,3,5) by (simp add: op_fresh_def)
  obtain j b' where add: "addAsyncOp op' (ab_remove op i b) = (j, b')" by fastforce
  have j: "j = i" using add i assms(3) by (simp add: addAsyncOp_def Let_def)
  have "op'\<lparr>op_id := i\<rparr> = op'" using assms(3) by simp
  with addAsyncOp_ok [OF ok fresh add] add j rm(3)
  show "ab_ok (snd (addAsyncOp op' (ab_remove op i b)))"
    "map_of (ab_map (snd (addAsyncOp op' (ab_remove op i b)))) = (map_of (ab_map b))(i \<mapsto> op')"
    by (simp_all add: fun_upd_upd)
qed

lemma tr_read_chunk:
  assumes "tr_range t = mk_range 0 (int (length data))" and "tr_chunkSize t = 8192"
    and "ti_transferred (tr_info t) = int (8192 * k)" and "tr_promise t = byteArrayPromise data desc"
    and "k < tr_chunks data"
  shows "tr_desired t = mk_range (int (8192 * k)) (int (8192 * k + length (tr_chunk data k)))"
    "dp_read (tr_promise t) (tr_desired t) = Done (NoError, tr_chunk data k)"
proof -
  note le = tr_chunks_bound(1) [OF assms(5)]
  have len: "length (tr_chunk data k) = min 8192 (length data - 8192 * k)"
    by (simp add: tr_chunk_def)
  show want: "tr_desired t = mk_range (int (8192 * k)) (int (8192 * k + length (tr_chunk data k)))"
    using assms(1-3) le by (auto simp: tr_desired_def Let_def len)
  show "dp_read (tr_promise t) (tr_desired t) = Done (NoError, tr_chunk data k)"
    using le by (auto simp: assms(4) want byteArrayPromise_def byteArrayRead_def len) (simp add: tr_chunk_def nat_mult_distrib min_def)
qed

lemma tr_step:
  assumes at: "tr_at data host rid i k s" and k: "k < tr_chunks data" and send: "\<And>h m. se_send E h m = NoError"
  shows "\<exists>s'. continueTransmission E NoError i s = Done s' \<and> sv_sent s' = sv_sent s @ [(host, chunk_msg data rid k)] \<and>
     sv_shared s' = sv_shared s \<and> ab_ok (sv_ops s') \<and>
     (if Suc k = tr_chunks data then map_of (ab_map (sv_ops s')) i = None else tr_at data host rid i (Suc k) s')"
proof -
  from at obtain op desc where ok: "ab_ok (sv_ops s)" and m: "map_of (ab_map (sv_ops s)) i = Some op"
    and op: "op_type op = TRANSMISSION" "tr_range (op_data op) = mk_range 0 (int (length data))"
      "tr_chunkSize (op_data op) = 8192" "tr_count (op_data op) = int (tr_chunks data)"
      "tr_nextChunk (op_data op) = int k" "tr_requestId (op_data op) = rid"
      "tr_promise (op_data op) = byteArrayPromise data desc"
      "ti_transferred (tr_info (op_data op)) = int (8192 * k)" "ti_destination (tr_info (op_data op)) = host"
    by (auto simp: tr_at_def)
  have wf: "ab_wf (sv_ops s)" using ok by (simp add: ab_ok_def)
  let ?b = "ab_remove op i (sv_ops s)" and ?s = "s\<lparr>sv_ops := ab_remove op i (sv_ops s)\<rparr>"
  have get: "getReadyAsyncOpOf i TRANSMISSION (sv_ops s) = (Some op, ?b)"
    using m op(1) by (simp add: getReadyAsyncOpOf_def getReadyAsyncOp_def)
  have last: "(tr_nextChunk (op_data op) = tr_count (op_data op) - 1) = (Suc k = tr_chunks data)"
    using op(4,5) by auto
  note read = tr_read_chunk [OF op(2,3,8,7) k]
  define op' where "op' = op\<lparr>op_data := (op_data op)\<lparr>tr_nextChunk := int k + 1,
      tr_info := (tr_info (op_data op))\<lparr>ti_transferred := int (8192 * k) + int (length (tr_chunk data k)),
        ti_mark := (if Suc k = tr_chunks data then RR_TransmissionFinish else RR_Transmission)\<rparr>\<rparr>\<rparr>"
  define s1 where "s1 = tr_update (op_id op) (tr_info (op_data op')) (sv_send host (chunk_msg data rid k) ?s)"
  have cont: "continueTransmission E NoError i s = Done (if Suc k = tr_chunks data then s1 else tr_again E op' s1)"
    using op read send
    by (simp add: continueTransmission_def get tr_send_chunk_def Let_def last op'_def s1_def chunk_msg_def
        byteArrayPromise_def new_request_reply_def)
  have id: "op_id op = i" using ab_wf_idD [OF wf m] .
  let ?op = "op'\<lparr>op_timeOut := regTimeOutMs (se_now E) (sv_timeoutMs s1)\<rparr>"
  have re: "ab_ok (snd (addAsyncOp ?op ?b))"
    "map_of (ab_map (snd (addAsyncOp ?op ?b))) = (map_of (ab_map (sv_ops s)))(i \<mapsto> ?op)"
    using readd_ok [OF ok m, of ?op] id by (simp_all add: op'_def)
  have ops: "sv_ops s1 = ?b" by (simp add: s1_def tr_update_def sv_send_def)
  have len: "length (tr_chunk data k) = 8192" if "Suc k \<noteq> tr_chunks data"
    using tr_chunks_bound(2) [of k data] that k by (simp add: tr_chunk_def)
  have "tr_at data host rid i (Suc k) (tr_again E op' s1)" if "Suc k \<noteq> tr_chunks data"
    using re op len [OF that] by (auto simp: tr_at_def tr_again_def ops op'_def)
  moreover have "ab_ok ?b" "map_of (ab_map ?b) i = None"
    using ab_remove_ok [OF ok m] ab_remove_props(3) [OF wf m] by simp_all
  moreover have "ab_ok (sv_ops (tr_again E op' s1))" using re(1) by (simp add: tr_again_def ops)
  moreover have "sv_sent s1 = sv_sent s @ [(host, chunk_msg data rid k)]" "sv_shared s1 = sv_shared s"
    "sv_sent (tr_again E op' s1) = sv_sent s1" "sv_shared (tr_again E op' s1) = sv_shared s1"
    by (simp_all add: s1_def tr_update_def sv_send_def tr_again_def)
  ultimately show ?thesis using cont ops by auto
qed

text \<open>The callback of each send continues the transmission, \<open>n\<close> times.\<close>

fun sv_continue :: "sv_env \<Rightarrow> int \<Rightarrow> nat \<Rightarrow> ds_server \<Rightarrow> ds_server outcome" where
  "sv_continue E i 0 s = Done s"
| "sv_continue E i (Suc n) s = outcome_bind (continueTransmission E NoError i s) (sv_continue E i n)"

lemma tr_run:
  assumes "tr_at data host rid i k s" and "k + n = tr_chunks data" and "\<And>h m. se_send E h m = NoError" and "0 < n"
  shows "\<exists>s'. sv_continue E i n s = Done s' \<and>
     sv_sent s' = sv_sent s @ map (\<lambda>j. (host, chunk_msg data rid j)) [k..<tr_chunks data] \<and>
     map_of (ab_map (sv_ops s')) i = None"
  using assms
proof (induction n arbitrary: k s)
  case (Suc n)
  have k: "k < tr_chunks data" using Suc.prems(2) by simp
  obtain s1 where s1: "continueTransmission E NoError i s = Done s1"
    "sv_sent s1 = sv_sent s @ [(host, chunk_msg data rid k)]"
    "if Suc k = tr_chunks data then map_of (ab_map (sv_ops s1)) i = None else tr_at data host rid i (Suc k) s1"
    using tr_step [OF Suc.prems(1) k Suc.prems(3)] by blast
  show ?case
  proof (cases n)
    case 0
    with s1 Suc.prems(2) show ?thesis by (auto simp: upt_rec)
  next
    case (Suc m)
    then have "tr_at data host rid i (Suc k) s1" using s1(3) Suc.prems(2) by (auto split: if_splits)
    from Suc.IH [OF this _ Suc.prems(3)] Suc Suc.prems(2) s1(1,2) show ?thesis
      by (auto simp: upt_rec [of k])
  qed
qed simp

definition sv_alloc_ok :: "ds_server \<Rightarrow> bool" where
  "sv_alloc_ok s \<longleftrightarrow> ab_ok (sv_ops s) \<and> (\<forall>op \<in> set (ab_ops (sv_ops s)). op_addr op < sv_alloc s)"

lemma add_new_op:
  assumes "ab_ok b" and "\<forall>op \<in> set (ab_ops b). op_addr op < a" and "addAsyncOp (new_op ty t a x) b = (i, b')"
  shows "ab_ok b' \<and> map_of (ab_map b') = (map_of (ab_map b))(i \<mapsto> (new_op ty t a x)\<lparr>op_id := i\<rparr>) \<and> map_of (ab_map b) i = None"
proof -
  have "op_fresh (new_op ty t a x) b" using assms(2) by (auto simp: op_fresh_def new_op_def)
  from addAsyncOp_ok [OF assms(1) this assms(3)] show ?thesis by blast
qed

lemma transmission_starts:
  assumes "map_of (sv_shared s) (Path (path_head (rq_path q))) = Some d"
    and "sd_promise d = Some (createPromise (Some data))" and "sv_permits E sender (rq_path q)"
    and "rq_revision q \<le> 0 \<or> rq_revision q = sd_revision d" and "rq_mark q = RQ_Transmission"
    and "r_isDefault (rq_range q)" and "sv_alloc_ok s" and "int (tr_chunks data) < 2 ^ 31"
  shows "\<exists>s1 i reply. sv_onRequest E sender q s = Done s1 \<and> sv_tasks s1 = sv_tasks s @ [Continue NoError i] \<and>
     sv_sent s1 = sv_sent s @ [(sender, MRequestReply reply [])] \<and> rr_mark reply = RR_TransmissionStart \<and>
     rr_id reply = rq_id q \<and> rr_range reply = mk_range 0 (int (length data)) \<and>
     rr_err reply = NoError \<and> tr_at data sender (to_int32 (rq_id q)) i 0 s1"
proof -
  let ?dp = "byteArrayPromise data no_desc" and ?r = "mk_range 0 (int (length data))"
  have find: "sv_find E sender q s = Done (Inr (?dp, sd_revision d))"
    using assms(1-4) by (auto simp: sv_find_def Let_def createPromise_def fixedSharingPromise_def createDataPromise_def)
  define info where "info = \<lparr>ti_mark = RR_TransmissionStart, ti_transferred = 0, ti_error = NoError,
    ti_destination = sender, ti_path = rq_path q\<rparr>"
  define t where "t = \<lparr>tr_revision = sd_revision d, tr_range = ?r, tr_info = info, tr_requestId = to_int32 (rq_id q),
    tr_chunkSize = 8192, tr_count = chunk_count (int (length data)) 8192, tr_nextChunk = 0, tr_promise = ?dp\<rparr>"
  define op where "op = new_op TRANSMISSION (regTimeOutMs (se_now E) (sv_timeoutMs s)) (sv_alloc s) t"
  obtain i b where add: "addAsyncOp op (sv_ops s) = (i, b)" by fastforce
  have added: "ab_ok b \<and> map_of (ab_map b) = (map_of (ab_map (sv_ops s)))(i \<mapsto> op\<lparr>op_id := i\<rparr>)"
    using add_new_op [of "sv_ops s" "sv_alloc s"] add assms(7) by (auto simp: op_def sv_alloc_ok_def)
  define s1 where "s1 = s\<lparr>sv_ops := b, sv_alloc := sv_alloc s + 1, sv_tasks := sv_tasks s @ [Continue NoError i],
    sv_updates := sv_updates s @ [(i, info)]\<rparr>"
  define reply where "reply = new_request_reply\<lparr>rr_id := rq_id q, rr_path := rq_path q,
    rr_mark := RR_TransmissionStart,
    rr_desc := no_desc\<lparr>dd_user := (if rq_user q = [] then [] else rq_user q)\<rparr>,
    rr_revision := sd_revision d, rr_range := ?r\<rparr>"
  have count: "to_int32 (chunk_count (int (length data)) 8192) = chunk_count (int (length data)) 8192"
    using assms(8) int_tr_chunks [of data] by (simp add: fits_int32_def)
  have size: "dp_size ?dp = int (length data)" "dp_desc ?dp = no_desc" by (simp_all add: byteArrayPromise_def)
  have start: "sv_start_transmission E sender q ?dp (sd_revision d) ?r
      (new_request_reply\<lparr>rr_id := rq_id q, rr_path := rq_path q\<rparr>) s = (reply, s1)"
    using add by (simp add: sv_start_transmission_def Let_def size count reply_def s1_def op_def t_def info_def r_length_def)
  have "sv_onRequest E sender q s = Done (sv_send sender (MRequestReply reply []) s1)"
    using assms(5,6) by (simp add: sv_onRequest_def onRequestTransmission_def Let_def find size start)
  moreover have "tr_at data sender (to_int32 (rq_id q)) i 0 (sv_send sender (MRequestReply reply []) s1)"
    using added by (simp add: tr_at_def s1_def sv_send_def op_def new_op_def t_def info_def int_tr_chunks) blast
  ultimately show ?thesis
    by (force simp: sv_send_def s1_def reply_def new_request_reply_def)
qed

lemma transmission_run:
  assumes "map_of (sv_shared s) (Path (path_head (rq_path q))) = Some d"
    and "sd_promise d = Some (createPromise (Some data))" and "sv_permits E sender (rq_path q)"
    and "rq_revision q \<le> 0 \<or> rq_revision q = sd_revision d" and "rq_mark q = RQ_Transmission"
    and "r_isDefault (rq_range q)" and "sv_alloc_ok s" and "int (tr_chunks data) < 2 ^ 31"
    and "\<And>h m. se_send E h m = NoError"
  shows "\<exists>s1 i s2 reply msgs. sv_onRequest E sender q s = Done s1 \<and>
     sv_continue E i (tr_chunks data) s1 = Done s2 \<and> map_of (ab_map (sv_ops s2)) i = None \<and>
     sv_sent s2 = sv_sent s @ (sender, MRequestReply reply []) #
       map (\<lambda>(r, c). (sender, MRequestReply r c)) msgs \<and>
     rr_mark reply = RR_TransmissionStart \<and> rr_id reply = rq_id q \<and> rr_range reply = mk_range 0 (int (length data)) \<and>
     rr_err reply = NoError \<and> (\<forall>m \<in> set msgs. rr_id (fst m) = to_int32 (rq_id q) \<and> rr_err (fst m) = NoError) \<and>
     concat (map snd msgs) = data \<and>
     map (rr_mark \<circ> fst) msgs = replicate (tr_chunks data - 1) RR_Transmission @ [RR_TransmissionFinish]"
proof -
  obtain s1 i reply where s1: "sv_onRequest E sender q s = Done s1"
    "sv_sent s1 = sv_sent s @ [(sender, MRequestReply reply [])]"
    "rr_mark reply = RR_TransmissionStart" "rr_id reply = rq_id q" "rr_range reply = mk_range 0 (int (length data))"
    "rr_err reply = NoError" "tr_at data sender (to_int32 (rq_id q)) i 0 s1"
    using transmission_starts [OF assms(1-8)] by blast
  obtain s2 where s2: "sv_continue E i (tr_chunks data) s1 = Done s2"
    "sv_sent s2 = sv_sent s1 @ map (\<lambda>j. (sender, chunk_msg data (to_int32 (rq_id q)) j)) [0..<tr_chunks data]"
    "map_of (ab_map (sv_ops s2)) i = None"
    using tr_run [OF s1(7) _ assms(9) tr_chunks_pos] by auto
  define head where "head k = (case chunk_msg data (to_int32 (rq_id q)) k of MRequestReply r c \<Rightarrow> r)" for k
  define msgs where "msgs = map (\<lambda>k. (head k, tr_chunk data k)) [0..<tr_chunks data]"
  have head: "chunk_msg data (to_int32 (rq_id q)) k = MRequestReply (head k) (tr_chunk data k)" for k
    by (simp add: head_def chunk_msg_def)
  have mark: "rr_mark (head k) = (if Suc k = tr_chunks data then RR_TransmissionFinish else RR_Transmission)" for k
    by (simp add: head_def chunk_msg_def)
  obtain n where n: "tr_chunks data = Suc n" using tr_chunks_pos [of data] by (cases "tr_chunks data") auto
  have "map (rr_mark \<circ> fst) msgs = map (\<lambda>k. if k = n then RR_TransmissionFinish else RR_Transmission) [0..<Suc n]"
    by (simp add: msgs_def mark n)
  also have "\<dots> = replicate n RR_Transmission @ [RR_TransmissionFinish]"
    by (rule nth_equalityI) (auto simp: nth_append less_Suc_eq simp del: upt_Suc)
  finally have marks: "map (rr_mark \<circ> fst) msgs = replicate (tr_chunks data - 1) RR_Transmission @ [RR_TransmissionFinish]"
    by (simp add: n)
  have "concat (map snd msgs) = data" using concat_all_chunks [of data] by (simp add: msgs_def comp_def)
  moreover have "sv_sent s2 = sv_sent s @ (sender, MRequestReply reply []) # map (\<lambda>(r, c). (sender, MRequestReply r c)) msgs"
    by (simp add: s2(2) s1(2) msgs_def head)
  moreover have "\<forall>m \<in> set msgs. rr_id (fst m) = to_int32 (rq_id q) \<and> rr_err (fst m) = NoError"
    by (auto simp: msgs_def head_def chunk_msg_def new_request_reply_def)
  ultimately show ?thesis using s1 s2 marks by blast
qed

text \<open>
  A transmission of shared bytes, its sends succeeding, announces itself and then delivers
  the data in order in chunks of 8192 bytes: the contents put together are the data, the last
  chunk and no other is marked \<open>TransmissionFinish\<close>, and the operation is then gone.
\<close>

lemma transmission_delivers:
  assumes "map_of (sv_shared s) (Path (path_head (rq_path q))) = Some d"
    and "sd_promise d = Some (createPromise (Some data))" and "sv_permits E sender (rq_path q)"
    and "rq_revision q \<le> 0 \<or> rq_revision q = sd_revision d" and "rq_mark q = RQ_Transmission"
    and "r_isDefault (rq_range q)" and "sv_alloc_ok s" and "int (tr_chunks data) < 2 ^ 31"
    and "\<And>h m. se_send E h m = NoError"
  shows "\<exists>s1 i s2 reply msgs. sv_onRequest E sender q s = Done s1 \<and>
     sv_continue E i (tr_chunks data) s1 = Done s2 \<and> map_of (ab_map (sv_ops s2)) i = None \<and>
     sv_sent s2 = sv_sent s @ (sender, MRequestReply reply []) #
       map (\<lambda>(r, c). (sender, MRequestReply r c)) msgs \<and>
     rr_mark reply = RR_TransmissionStart \<and> rr_range reply = mk_range 0 (int (length data)) \<and>
     concat (map snd msgs) = data \<and>
     map (rr_mark \<circ> fst) msgs = replicate (tr_chunks data - 1) RR_Transmission @ [RR_TransmissionFinish]"
  using transmission_run [OF assms] by blast

lemma demo_alloc: "sv_alloc_ok (demo_share c)"
  using ab_ok_init by (auto simp: sv_alloc_ok_def sv_eval split: if_splits) (simp add: ab_init_def)

lemma demo_chunks: "tr_chunks ''abcde'' = 1"
  by (simp add: tr_chunks_def chunk_count_def)

lemma transmission_delivers_witness:
  "\<exists>s1 i s2 msgs. sv_onRequest demo_sv_env ''b'' (new_request\<lparr>rq_path := Path ''f'', rq_mark := RQ_Transmission\<rparr>)
       (demo_share ''abcde'') = Done s1 \<and> sv_continue demo_sv_env i (tr_chunks ''abcde'') s1 = Done s2 \<and>
     concat (map snd (msgs :: (ds_request_reply \<times> bytes) list)) = ''abcde'' \<and>
     (\<exists>reply. sv_sent s2 = (''b'', MRequestReply reply []) # map (\<lambda>(r, c). (''b'', MRequestReply r c)) msgs)"
proof -
  let ?q = "new_request\<lparr>rq_path := Path ''f'', rq_mark := RQ_Transmission\<rparr>"
  have "map_of (sv_shared (demo_share ''abcde'')) (Path (path_head (rq_path ?q))) =
      Some \<lparr>sd_promise = Some (createPromise (Some ''abcde'')), sd_revision = 1, sd_subscribers = []\<rparr>"
    "sv_permits demo_sv_env ''b'' (rq_path ?q)" "r_isDefault (rq_range ?q)" "rq_mark ?q = RQ_Transmission"
    "rq_revision ?q \<le> 0" "sv_sent (demo_share ''abcde'') = []" "\<And>h m. se_send demo_sv_env h m = NoError"
    by (simp_all add: sv_eval r_isDefault_def)
  from transmission_delivers [OF this(1) _ this(2) _ this(4,3) demo_alloc _ this(7), of "''abcde''"] this(5,6)
  show ?thesis by (simp add: demo_chunks, metis)
qed

subsection \<open>Where it goes wrong\<close>

text \<open>
  Sharing a path without data is allowed (the stream has not started yet), but a permitted
  request for it dereferences the null promise.
\<close>

lemma share_without_data_faults:
  assumes "map_of (sv_shared s) p = None" and "\<not> path_hasSubPath p" and "sv_permits E sender p"
    and "rq_path q = p" and "rq_revision q \<le> 0" and "rq_mark q \<noteq> RQ_TransmissionCancel"
  shows "\<exists>s'. sv_share p None s = (NoError, s') \<and> sv_onRequest E sender q s' = Fault NullDeref"
proof -
  have "Path (path_head p) = p"
    using path_split [of p] assms(2) by (metis path.collapse)
  with assms show ?thesis
    by (cases "rq_mark q")
      (auto simp: sv_share_def sv_onRequest_def onRequestTransmission_def sv_request_answer_def sv_find_def Let_def)
qed

lemma share_without_data_faults_witness:
  "\<exists>s'. sv_share (Path ''f'') None sv_new = (NoError, s') \<and>
     sv_onRequest demo_sv_env ''b'' (new_request\<lparr>rq_path := Path ''f''\<rparr>) s' = Fault NullDeref"
  by (rule share_without_data_faults) (simp_all add: sv_eval)

text \<open>
  The id of the request is stored in an \<open>int\<close> of 32 bits: for an id beyond that the
  transmission is announced under the id of the request, but its chunks carry another one, and
  none of them belongs to the operation of the client.
\<close>

lemma long_id_loses_chunks:
  assumes "map_of (sv_shared s) (Path (path_head (rq_path q))) = Some d"
    and "sd_promise d = Some (createPromise (Some data))" and "sv_permits E sender (rq_path q)"
    and "rq_revision q \<le> 0 \<or> rq_revision q = sd_revision d" and "rq_mark q = RQ_Transmission"
    and "r_isDefault (rq_range q)" and "sv_alloc_ok s" and "int (tr_chunks data) < 2 ^ 31"
    and "\<And>h m. se_send E h m = NoError" and "\<not> fits_int32 (rq_id q)"
  shows "\<exists>s1 i s2 reply msgs. sv_onRequest E sender q s = Done s1 \<and>
     sv_continue E i (tr_chunks data) s1 = Done s2 \<and>
     sv_sent s2 = sv_sent s @ (sender, MRequestReply reply []) #
       map (\<lambda>(r, c). (sender, MRequestReply r c)) msgs \<and>
     rr_id reply = rq_id q \<and> concat (map snd msgs) = data \<and> (\<forall>m \<in> set msgs. rr_id (fst m) \<noteq> rq_id q)"
proof -
  have "to_int32 (rq_id q) \<noteq> rq_id q" using fits_to_int32 [of "rq_id q"] assms(10) by metis
  with transmission_run [OF assms(1-9)] show ?thesis by (metis (no_types, lifting))
qed

lemma long_id_loses_chunks_witness:
  "\<exists>s1 i s2 reply msgs. sv_onRequest demo_sv_env ''b''
       (new_request\<lparr>rq_id := 2 ^ 31, rq_path := Path ''f'', rq_mark := RQ_Transmission\<rparr>) (demo_share ''abcde'') = Done s1 \<and>
     sv_continue demo_sv_env i (tr_chunks ''abcde'') s1 = Done s2 \<and>
     sv_sent s2 = (''b'', MRequestReply reply []) # map (\<lambda>(r, c). (''b'', MRequestReply r c)) msgs \<and>
     (\<forall>m \<in> set (msgs :: (ds_request_reply \<times> bytes) list). rr_id (fst m) \<noteq> 2 ^ 31)"
proof -
  let ?q = "new_request\<lparr>rq_id := 2 ^ 31, rq_path := Path ''f'', rq_mark := RQ_Transmission\<rparr>"
  have "map_of (sv_shared (demo_share ''abcde'')) (Path (path_head (rq_path ?q))) =
      Some \<lparr>sd_promise = Some (createPromise (Some ''abcde'')), sd_revision = 1, sd_subscribers = []\<rparr>"
    "sv_permits demo_sv_env ''b'' (rq_path ?q)" "r_isDefault (rq_range ?q)" "rq_mark ?q = RQ_Transmission"
    "rq_revision ?q \<le> 0" "sv_sent (demo_share ''abcde'') = []" "\<And>h m. se_send demo_sv_env h m = NoError"
    "\<not> fits_int32 (rq_id ?q)"
    by (simp_all add: sv_eval r_isDefault_def fits_int32_def)
  from long_id_loses_chunks [OF this(1) _ this(2) _ this(4,3) demo_alloc _ this(7,8), of "''abcde''"] this(5,6)
  show ?thesis by (simp add: demo_chunks) metis
qed

text \<open>
  A transmission of a part of the data sends nothing: for a request with a range the code
  takes the range of the reply it has just created, so the transmission is announced with an
  empty range and finishes with one empty chunk.
\<close>

lemma ranged_transmission_is_empty:
  assumes "map_of (sv_shared s) (Path (path_head (rq_path q))) = Some d"
    and "sd_promise d = Some (createPromise (Some data))" and "sv_permits E sender (rq_path q)"
    and "rq_revision q \<le> 0" and "rq_mark q = RQ_Transmission" and "\<not> r_isDefault (rq_range q)"
    and "r_inRange (rq_range q) (mk_range 0 (int (length data)))" and "sv_alloc_ok s"
  shows "\<exists>s1 i s2 reply r. sv_onRequest E sender q s = Done s1 \<and> continueTransmission E NoError i s1 = Done s2 \<and>
     sv_sent s2 = sv_sent s @ [(sender, MRequestReply reply []), (sender, MRequestReply r [])] \<and>
     rr_err reply = NoError \<and> rr_range reply = mk_range 0 0 \<and> rr_mark r = RR_TransmissionFinish \<and> rr_err r = NoError"
proof -
  let ?dp = "byteArrayPromise data no_desc"
  have find: "sv_find E sender q s = Done (Inr (?dp, sd_revision d))"
    using assms(1-4) by (auto simp: sv_find_def Let_def createPromise_def fixedSharingPromise_def createDataPromise_def)
  have size: "dp_size ?dp = int (length data)" by (simp add: byteArrayPromise_def)
  let ?reply = "new_request_reply\<lparr>rr_id := rq_id q, rr_path := rq_path q\<rparr>"
  define info where "info = \<lparr>ti_mark = RR_TransmissionStart, ti_transferred = 0, ti_error = NoError,
    ti_destination = sender, ti_path = rq_path q\<rparr>"
  define t where "t = \<lparr>tr_revision = sd_revision d, tr_range = mk_range 0 0, tr_info = info, tr_requestId = to_int32 (rq_id q),
    tr_chunkSize = 8192, tr_count = 1, tr_nextChunk = 0, tr_promise = ?dp\<rparr>"
  define op where "op = new_op TRANSMISSION (regTimeOutMs (se_now E) (sv_timeoutMs s)) (sv_alloc s) t"
  obtain i b where add: "addAsyncOp op (sv_ops s) = (i, b)" by fastforce
  have m: "map_of (ab_map b) i = Some (op\<lparr>op_id := i\<rparr>)"
    using add_new_op [of "sv_ops s" "sv_alloc s"] add assms(8) by (auto simp: op_def sv_alloc_ok_def)
  obtain reply s1 where start: "sv_start_transmission E sender q ?dp (sd_revision d) (mk_range 0 0) ?reply s = (reply, s1)"
    by fastforce
  then have s1: "sv_ops s1 = b" "sv_sent s1 = sv_sent s" "rr_err reply = NoError" "rr_range reply = mk_range 0 0"
    using add by (auto simp: sv_start_transmission_def Let_def size op_def t_def info_def r_length_def chunk_count_def
        new_request_reply_def split: prod.splits)
  have req: "sv_onRequest E sender q s = Done (sv_send sender (MRequestReply reply []) s1)"
    using assms(5-7) start size
    by (simp add: sv_onRequest_def onRequestTransmission_def Let_def find new_request_reply_def)
  have get: "getReadyAsyncOpOf i TRANSMISSION b = (Some (op\<lparr>op_id := i\<rparr>), ab_remove (op\<lparr>op_id := i\<rparr>) i b)"
    using m by (simp add: getReadyAsyncOpOf_def getReadyAsyncOp_def op_def new_op_def)
  have desired: "tr_desired t = mk_range 0 0" by (simp add: tr_desired_def t_def info_def Let_def)
  have read: "dp_read ?dp (mk_range 0 0) = Done (NoError, [])" by (simp add: byteArrayPromise_def byteArrayRead_def)
  have prom: "tr_promise t = ?dp" "dp_ready ?dp" "tr_nextChunk t = tr_count t - 1" "op_data op = t"
    "ti_destination (tr_info t) = sender"
    by (simp_all add: t_def byteArrayPromise_def op_def new_op_def info_def)
  have "\<exists>s2 r. continueTransmission E NoError i (sv_send sender (MRequestReply reply []) s1) = Done s2 \<and>
      sv_sent s2 = sv_sent s @ [(sender, MRequestReply reply []), (sender, MRequestReply r [])] \<and>
      rr_mark r = RR_TransmissionFinish \<and> rr_err r = NoError"
    by (simp add: continueTransmission_def tr_send_chunk_def Let_def sv_send_def tr_update_def s1 get prom read desired
        new_request_reply_def)
  with req s1 show ?thesis by blast
qed

lemma ranged_transmission_is_empty_witness:
  "\<exists>s1 i s2 reply r. sv_onRequest demo_sv_env ''b''
       (new_request\<lparr>rq_path := Path ''f'', rq_mark := RQ_Transmission, rq_range := mk_range 1 4\<rparr>)
       (demo_share ''abcde'') = Done s1 \<and> continueTransmission demo_sv_env NoError i s1 = Done s2 \<and>
     sv_sent s2 = [(''b'', MRequestReply reply []), (''b'', MRequestReply r [])] \<and> rr_mark r = RR_TransmissionFinish"
proof -
  let ?q = "new_request\<lparr>rq_path := Path ''f'', rq_mark := RQ_Transmission, rq_range := mk_range 1 4\<rparr>"
  have "map_of (sv_shared (demo_share ''abcde'')) (Path (path_head (rq_path ?q))) =
      Some \<lparr>sd_promise = Some (createPromise (Some ''abcde'')), sd_revision = 1, sd_subscribers = []\<rparr>"
    "sv_permits demo_sv_env ''b'' (rq_path ?q)" "rq_revision ?q \<le> 0" "rq_mark ?q = RQ_Transmission"
    "\<not> r_isDefault (rq_range ?q)" "r_inRange (rq_range ?q) (mk_range 0 (int (length ''abcde'')))"
    "sv_sent (demo_share ''abcde'') = []"
    by (simp_all add: sv_eval r_isDefault_def r_inRange_def r_isValid_def)
  from ranged_transmission_is_empty [OF this(1) _ this(2-6) demo_alloc] this(7) show ?thesis
    by (simp, metis)
qed

lemma get_stays_gone: "map_of (ab_map b) i = None \<Longrightarrow> map_of (ab_map (snd (getReadyAsyncOpOf j ty b))) i = None"
  by (auto simp: getReadyAsyncOpOf_def getReadyAsyncOp_def ab_remove_def split: option.split)

lemma get_gone: "map_of (ab_map (snd (getReadyAsyncOpOf i ty b))) i = None"
  by (auto simp: getReadyAsyncOpOf_def getReadyAsyncOp_def ab_remove_def split: option.split)

lemma fold_get_stays: "map_of (ab_map b) i = None \<Longrightarrow>
    map_of (ab_map (fold (\<lambda>j b. snd (getReadyAsyncOpOf j ty b)) js b)) i = None"
  by (induction js arbitrary: b) (simp_all add: get_stays_gone)

lemma fold_get_gone: "i \<in> set js \<Longrightarrow>
    map_of (ab_map (fold (\<lambda>j b. snd (getReadyAsyncOpOf j ty b)) js b)) i = None"
  by (induction js arbitrary: b) (auto simp: fold_get_stays get_gone)

lemma fold_collect:
  "set (fold (\<lambda>p acc. if P (snd p) then f (snd p) # acc else acc) m acc) = set acc \<union> {f v | k v. (k, v) \<in> set m \<and> P v}"
  by (induction m arbitrary: acc) (simp, auto, blast+)

lemma set_findTransmissions:
  "set (findTransmissions rid b) =
     {op_id op | k op. (k, op) \<in> set (ab_map b) \<and> op_type op = TRANSMISSION \<and> tr_requestId (op_data op) = rid}"
  using fold_collect [of "\<lambda>op. op_type op = TRANSMISSION \<and> tr_requestId (op_data op) = rid" op_id "ab_map b" "[]"]
  by (simp add: findTransmissions_def forEachAsyncOp_def)

text \<open>
  A cancel request is matched by the request id alone, which every client counts from 1 for
  itself: a cancel from one host removes the transmissions with that id to all other hosts,
  and they are not told.
\<close>

lemma cancel_hits_other_hosts:
  assumes "ab_wf (sv_ops s)" and "map_of (ab_map (sv_ops s)) i = Some op" and "op_type op = TRANSMISSION"
    and "ti_destination (tr_info (op_data op)) = victim" and "sender \<noteq> victim"
    and "rq_mark q = RQ_TransmissionCancel" and "rq_id q = tr_requestId (op_data op)"
  shows "\<exists>s'. sv_onRequest E sender q s = Done s' \<and> map_of (ab_map (sv_ops s')) i = None \<and> sv_sent s' = sv_sent s \<and>
     sv_updates s' = sv_updates s"
proof -
  have "(i, op) \<in> set (ab_map (sv_ops s))" "op_id op = i"
    using assms(1,2) by (auto intro: map_of_SomeD ab_wf_idD)
  then have "i \<in> set (findTransmissions (rq_id q) (sv_ops s))"
    using assms(3,7) unfolding set_findTransmissions by force
  with assms(6) show ?thesis
    by (auto simp: sv_onRequest_def onRequestTransmission_def sv_cancel_transmissions_def fold_get_gone)
qed

lemma cancel_hits_other_hosts_witness:
  "\<exists>s1 i s'. sv_onRequest demo_sv_env ''b'' (new_request\<lparr>rq_id := 1, rq_path := Path ''f'', rq_mark := RQ_Transmission\<rparr>)
       (demo_share ''abcde'') = Done s1 \<and> map_of (ab_map (sv_ops s1)) i \<noteq> None \<and>
     sv_onRequest demo_sv_env ''evil'' (new_request\<lparr>rq_id := 1, rq_mark := RQ_TransmissionCancel\<rparr>) s1 = Done s' \<and>
     map_of (ab_map (sv_ops s')) i = None"
proof -
  let ?q = "new_request\<lparr>rq_id := 1, rq_path := Path ''f'', rq_mark := RQ_Transmission\<rparr>"
  have "map_of (sv_shared (demo_share ''abcde'')) (Path (path_head (rq_path ?q))) =
      Some \<lparr>sd_promise = Some (createPromise (Some ''abcde'')), sd_revision = 1, sd_subscribers = []\<rparr>"
    "sv_permits demo_sv_env ''b'' (rq_path ?q)" "r_isDefault (rq_range ?q)" "rq_mark ?q = RQ_Transmission"
    "rq_revision ?q \<le> 0" by (simp_all add: sv_eval r_isDefault_def)
  from transmission_starts [where data = "''abcde''", OF this(1) _ this(2) _ this(4,3) demo_alloc] this(5) demo_chunks
  obtain s1 i where s1: "sv_onRequest demo_sv_env ''b'' ?q (demo_share ''abcde'') = Done s1"
    "tr_at ''abcde'' ''b'' 1 i 0 s1" by (auto simp: fits_int32_def)
  from s1(2) obtain op where op: "ab_ok (sv_ops s1)" "map_of (ab_map (sv_ops s1)) i = Some op" "op_type op = TRANSMISSION"
    "ti_destination (tr_info (op_data op)) = ''b''" "tr_requestId (op_data op) = 1"
    unfolding tr_at_def by blast
  have "ab_wf (sv_ops s1)" using op(1) by (simp add: ab_ok_def)
  from cancel_hits_other_hosts [OF this op(2-4), of "''evil''" "new_request\<lparr>rq_id := 1, rq_mark := RQ_TransmissionCancel\<rparr>"
      demo_sv_env] s1(1) op(2,5)
  show ?thesis by fastforce
qed

subsection \<open>Subscriptions\<close>

definition subscribed :: "path \<Rightarrow> host_id \<Rightarrow> ds_server \<Rightarrow> bool" where
  "subscribed p host s \<longleftrightarrow> (\<exists>d. map_of (sv_shared s) p = Some d \<and> map_of (sd_subscribers d) host \<noteq> None)"

definition notified :: "path \<Rightarrow> host_id \<Rightarrow> ds_server \<Rightarrow> ds_server \<Rightarrow> bool" where
  "notified p host s s' \<longleftrightarrow>
     (\<exists>msgs n. sv_sent s' = sv_sent s @ msgs \<and> (host, MNotify n) \<in> set msgs \<and> nt_path n = p)"

lemma map_of_map_entry:
  assumes "\<And>e. fst (f e) = fst e"
  shows "map_of (map f m) p = map_option (\<lambda>d. snd (f (p, d))) (map_of m p)"
proof (induction m)
  case (Cons e m)
  obtain k v where e: "e = (k, v)" by (cases e)
  obtain w where "f (k, v) = (k, w)" using assms [of "(k, v)"] by (cases "f (k, v)") simp
  with Cons e show ?case by simp
qed simp

lemma drop_subscriber_fst: "fst (fst (sv_drop_subscriber host e)) = fst e"
  by (simp add: sv_drop_subscriber_def split: prod.split)

text \<open>
  Subscriptions follow the protocol: a permitted subscription to a shared path is confirmed
  and recorded, an update of the path notifies every recorded host of the new revision, and a
  host that goes offline is recorded nowhere afterwards, while all others are kept.
\<close>

lemma subscriptions_followed:
  assumes "map_of (sv_shared s) p = Some d"
  shows "(sv_permits E host p \<longrightarrow> sb_path q = p \<longrightarrow> sb_mark q = SB_NoMark \<longrightarrow>
       subscribed p host (sv_onSubscribe E host q s) \<and>
       (\<exists>r. sv_sent (sv_onSubscribe E host q s) = sv_sent s @ [(host, MSubscribeReply r)] \<and>
          sr_err r = NoError \<and> sr_id r = sb_id q)) \<and>
     (\<forall>data. \<exists>s'. sv_update p (Some (createPromise (Some data))) s = Done (NoError, s') \<and>
        (subscribed p host s \<longrightarrow> notified p host s s') \<and> subscribed p host s' = subscribed p host s \<and>
        (\<exists>d'. map_of (sv_shared s') p = Some d' \<and> sd_revision d' = max 1 (sd_revision d + 1))) \<and>
     (\<forall>off s'. sv_onChannelChange E off s = Done s' \<longrightarrow> \<not> 0 < se_level E off \<longrightarrow>
        \<not> subscribed p off s' \<and> (host \<noteq> off \<longrightarrow> subscribed p host s' = subscribed p host s))"
proof (intro conjI impI allI)
  assume "sv_permits E host p" "sb_path q = p" "sb_mark q = SB_NoMark"
  then show "subscribed p host (sv_onSubscribe E host q s)"
    "\<exists>r. sv_sent (sv_onSubscribe E host q s) = sv_sent s @ [(host, MSubscribeReply r)] \<and> sr_err r = NoError \<and> sr_id r = sb_id q"
    using assms by (simp_all add: sv_onSubscribe_def Let_def subscribed_def sv_send_def new_subscribe_reply_def)
next
  fix data
  show "\<exists>s'. sv_update p (Some (createPromise (Some data))) s = Done (NoError, s') \<and>
        (subscribed p host s \<longrightarrow> notified p host s s') \<and> subscribed p host s' = subscribed p host s \<and>
        (\<exists>d'. map_of (sv_shared s') p = Some d' \<and> sd_revision d' = max 1 (sd_revision d + 1))"
    using assms
    by (auto simp: sv_update_def Let_def notifySubscriber_def createPromise_def fixedSharingPromise_def
        createDataPromise_def subscribed_def sv_send_set_def notified_def new_notify_def
        dest!: map_of_SomeD intro: rev_image_eqI)
next
  fix off s'
  assume ch: "sv_onChannelChange E off s = Done s'" "\<not> 0 < se_level E off"
  then have "map_of (sv_shared s') p = Some (snd (fst (sv_drop_subscriber off (p, d))))"
    using assms 
      map_of_map_entry [where f = "\<lambda>e. fst (sv_drop_subscriber off e)" and m = "sv_shared s" and p = p]
    by (auto simp: sv_onChannelChange_def comp_def drop_subscriber_fst split: if_splits)
  then have d': "\<exists>d'. map_of (sv_shared s') p = Some d' \<and> map_of (sd_subscribers d') = (map_of (sd_subscribers d))(off := None)"
    by (cases "map_of (sd_subscribers d) off") (auto simp: sv_drop_subscriber_def fun_eq_iff)
  then show "\<not> subscribed p off s'" by (auto simp: subscribed_def)
  assume "host \<noteq> off"
  with d' assms show "subscribed p host s' = subscribed p host s" by (auto simp: subscribed_def)
qed

lemma subscriptions_followed_witness:
  "subscribed (Path ''f'') ''b'' (sv_onSubscribe demo_sv_env ''b'' (new_subscribe\<lparr>sb_path := Path ''f''\<rparr>) (demo_share ''abc''))"
proof -
  have m: "map_of (sv_shared (demo_share ''abc'')) (Path ''f'') =
      Some \<lparr>sd_promise = Some (createPromise (Some ''abc'')), sd_revision = 1, sd_subscribers = []\<rparr>"
    by (simp add: sv_eval)
  show ?thesis
    using subscriptions_followed [OF m, of demo_sv_env "''b''" "new_subscribe\<lparr>sb_path := Path ''f''\<rparr>"]
    by (simp add: new_subscribe_def sv_eval)
qed

end
