(* ===== verification/Sf_DSClient.thy ===== *)
theory Sf_DSClient
  imports Sf_DSServerProps
begin

text \<open>
  \<open>DataSharingClientImpl\<close> (\<open>libschnee/schnee/p2p/com/DataSharingClientImpl.h\<close>,
  \<open>DataSharingClientImpl.cpp\<close>): requests, subscriptions and pushes wait in the operation table
  for their replies; a transmission's request stays there until its last chunk.

  A callback is its number; every call of one, direct or posted, is logged in \<open>cl_calls\<close>.
\<close>

datatype cl_data =
    RequestOp nat bool path
  | SubscribeOp nat "nat option"
  | PushOp nat

abbreviation (input) REQUEST :: int where "REQUEST \<equiv> 1"
abbreviation (input) SUBSCRIBE :: int where "SUBSCRIBE \<equiv> 2"
abbreviation (input) PUSH :: int where "PUSH \<equiv> 3"

datatype cl_call =
    CallRequest nat host_id ds_request_reply bytes
  | CallSubscribe nat host_id ds_subscribe_reply
  | CallPush nat host_id ds_push_reply
  | CallNotify nat host_id ds_notify

record sub_info =
  si_desc :: data_desc
  si_delegate :: "nat option"

record ds_client =
  cl_ops :: "cl_data async_base"
  cl_alloc :: nat
  cl_hostKeys :: "(host_id, int) smap"
  cl_nextHostKey :: int
  cl_subs :: "(uri, sub_info) smap"
  cl_sent :: "(host_id \<times> ds_msg) list"
  cl_calls :: "cl_call list"

record cl_env =
  ce_now :: int
  ce_send :: "host_id \<Rightarrow> ds_msg \<Rightarrow> error"
  ce_level :: "host_id \<Rightarrow> int"

definition cl_new :: ds_client where
  "cl_new = \<lparr>cl_ops = ab_init, cl_alloc = 0, cl_hostKeys = [], cl_nextHostKey = 1, cl_subs = [],
             cl_sent = [], cl_calls = []\<rparr>"

definition cl_send :: "host_id \<Rightarrow> ds_msg \<Rightarrow> ds_client \<Rightarrow> ds_client" where
  "cl_send host m s = s\<lparr>cl_sent := cl_sent s @ [(host, m)]\<rparr>"

definition cl_call :: "cl_call \<Rightarrow> ds_client \<Rightarrow> ds_client" where
  "cl_call c s = s\<lparr>cl_calls := cl_calls s @ [c]\<rparr>"

definition hostKey :: "host_id \<Rightarrow> ds_client \<Rightarrow> int \<times> ds_client" where
  "hostKey i s =
     (case map_of (cl_hostKeys s) i of
        None \<Rightarrow> (cl_nextHostKey s, s\<lparr>cl_hostKeys := sm_insert i (cl_nextHostKey s) (cl_hostKeys s),
                                     cl_nextHostKey := cl_nextHostKey s + 1\<rparr>)
      | Some k \<Rightarrow> (k, s))"

definition unsubscribe :: "path \<Rightarrow> ds_msg" where
  "unsubscribe p = MSubscribe (new_subscribe\<lparr>sb_path := p, sb_mark := SB_SubscriptionCancel\<rparr>)"

definition cl_shutdown :: "ds_client \<Rightarrow> ds_client" where
  "cl_shutdown s =
     s\<lparr>cl_sent := cl_sent s @ map (\<lambda>(u, _). (u_host u, unsubscribe (u_path u))) (cl_subs s), cl_subs := []\<rparr>"

subsection \<open>Starting operations\<close>

text \<open>The common end: the operation enters the table if its message could be sent.\<close>

definition cl_start ::
  "cl_env \<Rightarrow> int \<Rightarrow> int \<Rightarrow> host_id \<Rightarrow> ds_msg \<Rightarrow> cl_data \<Rightarrow> int \<Rightarrow> ds_client \<Rightarrow> error \<times> ds_client" where
  "cl_start E i type src m op_dat timeOutMs s =
     (let err = ce_send E src m; s1 = cl_send src m s
      in if failed err then (err, s1)
         else
           (case hostKey src s1 of (key, s2) \<Rightarrow>
              let op = (new_op type (regTimeOutMs (ce_now E) timeOutMs) (cl_alloc s2) op_dat)\<lparr>op_id := i, op_key := key\<rparr>
              in (err, s2\<lparr>cl_ops := snd (addAsyncOp op (cl_ops s2)), cl_alloc := cl_alloc s2 + 1\<rparr>)))"

definition cl_request ::
  "cl_env \<Rightarrow> host_id \<Rightarrow> ds_request \<Rightarrow> nat \<Rightarrow> int \<Rightarrow> ds_client \<Rightarrow> (error \<times> int \<times> ds_client) outcome" where
  "cl_request E src q cb timeOutMs s =
     (if rq_id q \<noteq> 0 then Fault AssertFailed
      else
        (case genFreeId (cl_ops s) of (i, b) \<Rightarrow>
           (case cl_start E i REQUEST src (MRequest (q\<lparr>rq_id := i\<rparr>))
                   (RequestOp cb (rq_mark q = RQ_Transmission) (rq_path q)) timeOutMs (s\<lparr>cl_ops := b\<rparr>) of
              (err, s1) \<Rightarrow> Done (err, i, s1))))"

definition cancelTransmission :: "cl_env \<Rightarrow> host_id \<Rightarrow> int \<Rightarrow> path \<Rightarrow> ds_client \<Rightarrow> error \<times> ds_client" where
  "cancelTransmission E src i p s =
     (let m = MRequest (new_request\<lparr>rq_id := i, rq_path := p, rq_mark := RQ_TransmissionCancel\<rparr>)
      in (ce_send E src m, cl_send src m s))"

definition cl_subscribe ::
  "cl_env \<Rightarrow> host_id \<Rightarrow> ds_subscribe \<Rightarrow> nat \<Rightarrow> nat option \<Rightarrow> int \<Rightarrow> ds_client \<Rightarrow> error \<times> int \<times> ds_client" where
  "cl_subscribe E src q cb notDelegate timeOutMs s =
     (case genFreeId (cl_ops s) of (i, b) \<Rightarrow>
        (case cl_start E i SUBSCRIBE src (MSubscribe (q\<lparr>sb_id := i\<rparr>)) (SubscribeOp cb notDelegate) timeOutMs
                (s\<lparr>cl_ops := b\<rparr>) of
           (err, s1) \<Rightarrow> (err, i, s1)))"

definition cancelSubscription :: "uri \<Rightarrow> ds_client \<Rightarrow> error \<times> ds_client" where
  "cancelSubscription u s =
     (case map_of (cl_subs s) u of
        None \<Rightarrow> (NotFound, s)
      | Some _ \<Rightarrow> (NoError, (cl_send (u_host u) (unsubscribe (u_path u)) s)\<lparr>cl_subs := sm_erase u (cl_subs s)\<rparr>))"

definition cl_push ::
  "cl_env \<Rightarrow> host_id \<Rightarrow> ds_push \<Rightarrow> bytes \<Rightarrow> nat \<Rightarrow> int \<Rightarrow> ds_client \<Rightarrow> error \<times> int option \<times> ds_client" where
  "cl_push E user q content cb timeOutMs s =
     (if \<not> r_isDefault (pu_range q) then (NotSupported, None, s)
      else
        (case genFreeId (cl_ops s) of (i, b) \<Rightarrow>
           (case cl_start E i PUSH user (MPush (q\<lparr>pu_id := i\<rparr>) content) (PushOp cb) timeOutMs (s\<lparr>cl_ops := b\<rparr>) of
              (err, s1) \<Rightarrow> (err, Some i, s1))))"

subsection \<open>Ending without a reply\<close>

definition cl_put_ops :: "cl_data async_base \<Rightarrow> ds_client \<Rightarrow> ds_client" where
  "cl_put_ops b s = s\<lparr>cl_ops := b\<rparr>"

definition cl_onCancel :: "error \<Rightarrow> cl_data aop \<Rightarrow> ds_client \<Rightarrow> ds_client" where
  "cl_onCancel reason op s =
     (case op_data op of
        RequestOp cb tr p \<Rightarrow> cl_call (CallRequest cb [] (new_request_reply\<lparr>rr_path := p, rr_err := reason\<rparr>) []) s
      | SubscribeOp cb d \<Rightarrow> cl_call (CallSubscribe cb [] (new_subscribe_reply\<lparr>sr_err := reason\<rparr>)) s
      | PushOp cb \<Rightarrow> cl_call (CallPush cb [] (new_push_reply reason)) s)"

interpretation client: cancel_handler cl_ops cl_put_ops cl_onCancel
  by unfold_locales (simp_all add: cl_put_ops_def cl_onCancel_def cl_call_def split: cl_data.split)

definition cl_onTimer :: "time \<Rightarrow> ds_client \<Rightarrow> ds_client option" where
  "cl_onTimer ct s = onTimer cl_ops cl_put_ops cl_onCancel ct s"

definition cl_broken :: "host_id \<Rightarrow> uri \<times> sub_info \<Rightarrow> cl_call list" where
  "cl_broken host e =
     (if u_host (fst e) = host then
        (case si_delegate (snd e) of
           None \<Rightarrow> []
         | Some d \<Rightarrow> [CallNotify d host (new_notify\<lparr>nt_mark := NT_SubscriptionCancel, nt_path := u_path (fst e)\<rparr>)])
      else [])"

definition cl_onChannelChange :: "cl_env \<Rightarrow> host_id \<Rightarrow> ds_client \<Rightarrow> ds_client option" where
  "cl_onChannelChange E host s =
     (if ce_level E host > 0 then Some s
      else
        let s1 = s\<lparr>cl_calls := cl_calls s @ concat (map (cl_broken host) (cl_subs s)),
                   cl_subs := filter (\<lambda>e. u_host (fst e) \<noteq> host) (cl_subs s)\<rparr>
        in case hostKey host s1 of (key, s2) \<Rightarrow>
             cancelAsyncOps cl_ops cl_put_ops cl_onCancel key TargetOffline s2)"

subsection \<open>Replies\<close>

definition cl_onNotify :: "host_id \<Rightarrow> ds_notify \<Rightarrow> ds_client \<Rightarrow> ds_client" where
  "cl_onNotify sender n s =
     (case map_of (cl_subs s) (uri_make sender (nt_path n)) of
        None \<Rightarrow>
          if nt_mark n \<noteq> NT_SubscriptionCancel then cl_send sender (unsubscribe (nt_path n)) s else s
      | Some info \<Rightarrow>
          (case si_delegate info of None \<Rightarrow> s | Some d \<Rightarrow> cl_call (CallNotify d sender n) s))"

definition cl_onSubscribeReply :: "host_id \<Rightarrow> ds_subscribe_reply \<Rightarrow> ds_client \<Rightarrow> ds_client" where
  "cl_onSubscribeReply sender r s =
     (case getReadyAsyncOpOf (sr_id r) SUBSCRIBE (cl_ops s) of
        (Some op, b) \<Rightarrow>
          (case op_data op of
             SubscribeOp cb d \<Rightarrow>
               let s1 = s\<lparr>cl_ops := b\<rparr>;
                   s2 = (if sr_err r = NoError
                         then s1\<lparr>cl_subs := sm_insert (uri_make sender (sr_path r))
                                 \<lparr>si_desc = sr_desc r, si_delegate = d\<rparr> (cl_subs s1)\<rparr>
                         else s1)
               in cl_call (CallSubscribe cb sender r) s2
           | _ \<Rightarrow> s\<lparr>cl_ops := b\<rparr>)
      | (None, b) \<Rightarrow> s\<lparr>cl_ops := b\<rparr>)"

definition cl_follows :: "bool \<Rightarrow> reply_mark \<Rightarrow> bool" where
  "cl_follows isTransmission mark \<longleftrightarrow> isTransmission \<and> (mark = RR_Transmission \<or> mark = RR_TransmissionStart)"

definition cl_onRequestReply :: "cl_env \<Rightarrow> host_id \<Rightarrow> ds_request_reply \<Rightarrow> bytes \<Rightarrow> ds_client \<Rightarrow> ds_client" where
  "cl_onRequestReply E sender r content s =
     (case getReadyAsyncOpOf (rr_id r) REQUEST (cl_ops s) of
        (Some op, b) \<Rightarrow>
          (case op_data op of
             RequestOp cb isTransmission p \<Rightarrow>
               let r1 = (if path_isDefault (rr_path r) then r\<lparr>rr_path := p\<rparr> else r);
                   s1 = cl_call (CallRequest cb sender r1 content) (s\<lparr>cl_ops := b\<rparr>)
               in if cl_follows isTransmission (rr_mark r)
                  then s1\<lparr>cl_ops := snd (addAsyncOp (op\<lparr>op_timeOut := futureInMs (ce_now E) 10000\<rparr>) (cl_ops s1))\<rparr>
                  else s1
           | _ \<Rightarrow> s\<lparr>cl_ops := b\<rparr>)
      | (None, b) \<Rightarrow>
          let s1 = s\<lparr>cl_ops := b\<rparr>
          in if rr_mark r = RR_Transmission
             then cl_send sender (MRequest (new_request\<lparr>rq_path := rr_path r, rq_mark := RQ_TransmissionCancel,
                    rq_id := rr_id r\<rparr>)) s1
             else s1)"

definition cl_onPushReply :: "host_id \<Rightarrow> ds_push_reply \<Rightarrow> ds_client \<Rightarrow> ds_client" where
  "cl_onPushReply sender r s =
     (case getReadyAsyncOpOf (pr_id r) PUSH (cl_ops s) of
        (Some op, b) \<Rightarrow>
          (case op_data op of
             PushOp cb \<Rightarrow> cl_call (CallPush cb sender r) (s\<lparr>cl_ops := b\<rparr>)
           | _ \<Rightarrow> s\<lparr>cl_ops := b\<rparr>)
      | (None, b) \<Rightarrow> s\<lparr>cl_ops := b\<rparr>)"

subsection \<open>Properties\<close>

lemma hostKey_props:
  "hostKey host s = (key, s') \<Longrightarrow> map_of (cl_hostKeys s') host = Some key \<and> cl_ops s' = cl_ops s \<and>
     cl_subs s' = cl_subs s \<and> cl_calls s' = cl_calls s \<and> cl_sent s' = cl_sent s"
  by (auto simp: hostKey_def split: option.splits)

lemma map_of_filter_host:
  "map_of (filter (\<lambda>e. u_host (fst e) \<noteq> host) m) u = (if u_host u = host then None else map_of m u)"
  by (induction m) auto

text \<open>
  When a host goes offline, every pending operation that was started for it is removed
  with \<open>TargetOffline\<close> and every subscription at it is dropped; operations and subscriptions
  for other hosts are untouched, and the client returns.
\<close>

lemma offline_cancels:
  assumes "ab_ok (cl_ops s)" and "ce_level E host \<le> 0"
  shows "\<exists>s' key. cl_onChannelChange E host s = Some s' \<and> fst (hostKey host s) = key \<and> ab_ok (cl_ops s') \<and>
     (\<forall>i. map_of (ab_map (cl_ops s')) i =
        (case map_of (ab_map (cl_ops s)) i of
           None \<Rightarrow> None | Some op \<Rightarrow> if op_key op = key then None else Some op)) \<and>
     (\<forall>u. map_of (cl_subs s') u = (if u_host u = host then None else map_of (cl_subs s) u))"
proof -
  define s1 where "s1 = s\<lparr>cl_calls := cl_calls s @ concat (map (cl_broken host) (cl_subs s)),
    cl_subs := filter (\<lambda>e. u_host (fst e) \<noteq> host) (cl_subs s)\<rparr>"
  obtain key s2 where hk: "hostKey host s1 = (key, s2)" by fastforce
  have key: "fst (hostKey host s) = key" using hk by (auto simp: s1_def hostKey_def split: option.splits)
  have s2: "cl_ops s2 = cl_ops s" "cl_subs s2 = filter (\<lambda>e. u_host (fst e) \<noteq> host) (cl_subs s)"
    using hostKey_props [OF hk] by (simp_all add: s1_def)
  obtain s' where s': "cancelAsyncOps cl_ops cl_put_ops cl_onCancel key TargetOffline s2 = Some s'"
    "ab_ok (cl_ops s')" "\<forall>i. map_of (ab_map (cl_ops s')) i = (case map_of (ab_map (cl_ops s)) i of
           None \<Rightarrow> None | Some op \<Rightarrow> if op_key op = key then None else Some op)"
    using client.cancel_removes [of s2 key TargetOffline] assms(1) s2(1) by auto
  have subs: "cl_subs s' = cl_subs s2"
  proof -
    have step: "cl_subs (cl_onCancel TargetOffline op (cl_put_ops (ab_remove op i (cl_ops t)) t)) = cl_subs s2"
      if "cl_subs t = cl_subs s2" for t i op
      using that by (simp add: cl_onCancel_def cl_put_ops_def cl_call_def split: cl_data.split)
    have "ab_wf (cl_ops s2)" using assms(1) s2(1) by (simp add: ab_ok_def)
    from client.cancel_keeps [where P = "\<lambda>t. cl_subs t = cl_subs s2", OF step refl this s'(1)]
    show ?thesis .
  qed
  have "map_of (cl_subs s') u = (if u_host u = host then None else map_of (cl_subs s) u)" for u
    using subs s2(2) by (simp add: map_of_filter_host)
  moreover have "cl_onChannelChange E host s = Some s'"
    using assms(2) hk s'(1) by (simp add: cl_onChannelChange_def s1_def [symmetric] Let_def)
  ultimately show ?thesis using key s' by blast
qed

definition demo_cl_env :: cl_env where
  "demo_cl_env = \<lparr>ce_now = 0, ce_send = (\<lambda>_ _. NoError), ce_level = (\<lambda>_. 0)\<rparr>"

text \<open>A client with one transmission under way, requested from the host \<open>srv\<close>.\<close>

definition demo_client :: ds_client where
  "demo_client =
     (case cl_request demo_cl_env ''srv'' (new_request\<lparr>rq_path := Path ''f'', rq_mark := RQ_Transmission\<rparr>) 9 1000 cl_new of
        Done (_, _, s) \<Rightarrow> s | Fault _ \<Rightarrow> cl_new)"

lemma demo_client_eq:
  "demo_client = cl_new\<lparr>cl_ops := snd (addAsyncOp ((new_op REQUEST (At 1000) 0 (RequestOp 9 True (Path ''f'')))
       \<lparr>op_id := 1, op_key := 1\<rparr>) (snd (genFreeId ab_init))), cl_alloc := 1,
     cl_sent := [(''srv'', MRequest (new_request\<lparr>rq_id := 1, rq_path := Path ''f'', rq_mark := RQ_Transmission\<rparr>))],
     cl_hostKeys := [(''srv'', 1)], cl_nextHostKey := 2\<rparr>"
  by (simp add: demo_client_def cl_request_def cl_start_def hostKey_def cl_send_def demo_cl_env_def cl_new_def
      genFreeId_def new_request_def regTimeOutMs_def futureInMs_def Let_def ab_init_def)

lemma demo_client_op:
  "ab_ok (cl_ops demo_client)" "map_of (ab_map (cl_ops demo_client)) 1 =
     Some ((new_op REQUEST (At 1000) 0 (RequestOp 9 True (Path ''f'')))\<lparr>op_id := 1, op_key := 1\<rparr>)"
proof -
  let ?op = "(new_op REQUEST (At 1000) 0 (RequestOp 9 True (Path ''f'')))\<lparr>op_id := 1, op_key := 1\<rparr>"
  obtain b where gen: "genFreeId (ab_init :: cl_data async_base) = (1, b)" by (simp add: genFreeId_def ab_init_def)
  have "op_fresh ?op b"
    by (rule genFreeId_fresh [OF ab_ok_init gen]) (simp_all add: ab_init_def)
  moreover have "ab_ok b" using genFreeId_ok [OF ab_ok_init] gen by (metis snd_conv)
  moreover obtain k b' where add: "addAsyncOp ?op b = (k, b')" by fastforce
  moreover have "k = 1" using add by (simp add: addAsyncOp_def Let_def)
  ultimately have "ab_ok b'" "map_of (ab_map b') 1 = Some ?op"
    using addAsyncOp_ok(1,2) [of b ?op k b'] by simp_all
  then show "ab_ok (cl_ops demo_client)" "map_of (ab_map (cl_ops demo_client)) 1 = Some ?op"
    using gen add by (simp_all add: demo_client_eq)
qed

lemma offline_cancels_witness:
  "\<exists>s'. cl_onChannelChange demo_cl_env ''srv'' demo_client = Some s' \<and> map_of (ab_map (cl_ops s')) 1 = None"
  using offline_cancels [OF demo_client_op(1), of demo_cl_env "''srv''"] demo_client_op(2)
  by (fastforce simp: demo_cl_env_def demo_client_eq hostKey_def)

subsection \<open>Receiving a transmission\<close>

fun cl_receive :: "cl_env \<Rightarrow> host_id \<Rightarrow> (ds_request_reply \<times> bytes) list \<Rightarrow> ds_client \<Rightarrow> ds_client" where
  "cl_receive E sender [] s = s"
| "cl_receive E sender ((r, c) # msgs) s = cl_receive E sender msgs (cl_onRequestReply E sender r c s)"

definition filled_reply :: "path \<Rightarrow> ds_request_reply \<Rightarrow> ds_request_reply" where
  "filled_reply p r = (if path_isDefault (rr_path r) then r\<lparr>rr_path := p\<rparr> else r)"

definition follows :: "reply_mark \<Rightarrow> bool" where
  "follows m \<longleftrightarrow> m = RR_TransmissionStart \<or> m = RR_Transmission"

lemma receive_one:
  assumes ok: "ab_ok (cl_ops s)" and m: "map_of (ab_map (cl_ops s)) i = Some op" and ty: "op_type op = REQUEST"
    and data: "op_data op = RequestOp cb True p" and r: "rr_id r = i"
  shows "cl_calls (cl_onRequestReply E sender r c s) = cl_calls s @ [CallRequest cb sender (filled_reply p r) c]"
    "cl_sent (cl_onRequestReply E sender r c s) = cl_sent s" "ab_ok (cl_ops (cl_onRequestReply E sender r c s))"
    "\<not> follows (rr_mark r) \<Longrightarrow> map_of (ab_map (cl_ops (cl_onRequestReply E sender r c s))) i = None"
    "follows (rr_mark r) \<Longrightarrow> \<exists>op'. map_of (ab_map (cl_ops (cl_onRequestReply E sender r c s))) i = Some op' \<and>
       op_type op' = REQUEST \<and> op_data op' = RequestOp cb True p"
proof -
  let ?b = "ab_remove op i (cl_ops s)" and ?op = "op\<lparr>op_timeOut := futureInMs (ce_now E) 10000\<rparr>"
  have wf: "ab_wf (cl_ops s)" using ok by (simp add: ab_ok_def)
  have get: "getReadyAsyncOpOf i REQUEST (cl_ops s) = (Some op, ?b)"
    using m ty by (simp add: getReadyAsyncOpOf_def getReadyAsyncOp_def)
  have eq: "cl_onRequestReply E sender r c s =
     (let s1 = cl_call (CallRequest cb sender (filled_reply p r) c) (s\<lparr>cl_ops := ?b\<rparr>)
      in if follows (rr_mark r) then s1\<lparr>cl_ops := snd (addAsyncOp ?op ?b)\<rparr> else s1)"
    by (auto simp: cl_onRequestReply_def r get data Let_def cl_follows_def follows_def filled_reply_def cl_call_def)
  have id: "op_id ?op = i" using ab_wf_idD [OF wf m] by simp
  note re = readd_ok [OF ok m id, simplified]
  show "cl_calls (cl_onRequestReply E sender r c s) = cl_calls s @ [CallRequest cb sender (filled_reply p r) c]"
    "cl_sent (cl_onRequestReply E sender r c s) = cl_sent s"
    by (simp_all add: eq Let_def cl_call_def)
  show "ab_ok (cl_ops (cl_onRequestReply E sender r c s))"
    using re(1) ab_remove_ok [OF ok m] by (simp add: eq Let_def cl_call_def)
  show "\<not> follows (rr_mark r) \<Longrightarrow> map_of (ab_map (cl_ops (cl_onRequestReply E sender r c s))) i = None"
    using ab_remove_props(3) [OF wf m] by (simp add: eq Let_def cl_call_def)
  show "follows (rr_mark r) \<Longrightarrow> \<exists>op'. map_of (ab_map (cl_ops (cl_onRequestReply E sender r c s))) i = Some op' \<and>
       op_type op' = REQUEST \<and> op_data op' = RequestOp cb True p"
    using re(2) ty data by (simp add: eq Let_def cl_call_def)
qed

lemma receive_all:
  assumes "ab_ok (cl_ops s)" and "map_of (ab_map (cl_ops s)) i = Some op" and "op_type op = REQUEST"
    and "op_data op = RequestOp cb True p" and "\<forall>m \<in> set (msgs @ [(r, c)]). rr_id (fst m) = i"
    and "\<forall>m \<in> set msgs. follows (rr_mark (fst m))" and "\<not> follows (rr_mark r)"
  shows "cl_calls (cl_receive E sender (msgs @ [(r, c)]) s) =
       cl_calls s @ map (\<lambda>(r, c). CallRequest cb sender (filled_reply p r) c) (msgs @ [(r, c)]) \<and>
     map_of (ab_map (cl_ops (cl_receive E sender (msgs @ [(r, c)]) s))) i = None \<and>
     cl_sent (cl_receive E sender (msgs @ [(r, c)]) s) = cl_sent s"
  using assms
proof (induction msgs arbitrary: s op)
  case Nil
  then show ?case using receive_one [OF Nil(1-4), of r E sender c] by simp
next
  case (Cons m msgs)
  obtain r0 c0 where m: "m = (r0, c0)" by (cases m)
  have r0: "rr_id r0 = i" "follows (rr_mark r0)" using Cons.prems(5,6) m by simp_all
  note one = receive_one [OF Cons.prems(1-4) r0(1), of E sender c0]
  from one(5) [OF r0(2)] obtain op' where op': "map_of (ab_map (cl_ops (cl_onRequestReply E sender r0 c0 s))) i = Some op'"
    "op_type op' = REQUEST" "op_data op' = RequestOp cb True p" by blast
  from Cons.IH [OF one(3) op'] Cons.prems(5-7) show ?case by (simp add: m one(1,2))
qed

text \<open>
  What the client makes of a whole transmission: every reply becomes a call with it, an
  announcement of the size first, then the chunks.
\<close>

lemma transmission_received:
  assumes "map_of (sv_shared s) (Path (path_head (rq_path q))) = Some d"
    and "sd_promise d = Some (createPromise (Some data))" and "sv_permits E me (rq_path q)"
    and "rq_revision q \<le> 0 \<or> rq_revision q = sd_revision d" and "rq_mark q = RQ_Transmission"
    and "r_isDefault (rq_range q)" and "sv_alloc_ok s" and "int (tr_chunks data) < 2 ^ 31"
    and "\<And>h m. se_send E h m = NoError" and "fits_int32 (rq_id q)"
    and "ab_ok (cl_ops c)" and "map_of (ab_map (cl_ops c)) (rq_id q) = Some op" and "op_type op = REQUEST"
    and "op_data op = RequestOp cb True (rq_path q)"
  shows "\<exists>s1 i s2 msgs reply calls. sv_onRequest E me q s = Done s1 \<and> sv_continue E i (tr_chunks data) s1 = Done s2 \<and>
     sv_sent s2 = sv_sent s @ map (\<lambda>(r, x). (me, MRequestReply r x)) msgs \<and>
     cl_calls (cl_receive CE srv msgs c) = cl_calls c @ map (\<lambda>(r, x). CallRequest cb srv r x) ((reply, []) # calls) \<and>
     map_of (ab_map (cl_ops (cl_receive CE srv msgs c))) (rq_id q) = None \<and>
     rr_mark reply = RR_TransmissionStart \<and> rr_err reply = NoError \<and> rr_range reply = mk_range 0 (int (length data)) \<and>
     map (rr_mark \<circ> fst) calls = replicate (tr_chunks data - 1) RR_Transmission @ [RR_TransmissionFinish] \<and>
     (\<forall>m \<in> set calls. rr_err (fst m) = NoError) \<and> concat (map snd calls) = data"
proof -
  obtain s1 i s2 reply msgs where run: "sv_onRequest E me q s = Done s1" "sv_continue E i (tr_chunks data) s1 = Done s2"
    "sv_sent s2 = sv_sent s @ (me, MRequestReply reply []) # map (\<lambda>(r, c). (me, MRequestReply r c)) msgs"
    "rr_mark reply = RR_TransmissionStart" "rr_id reply = rq_id q" "rr_range reply = mk_range 0 (int (length data))"
    "rr_err reply = NoError" "concat (map snd msgs) = data"
    "map (rr_mark \<circ> fst) msgs = replicate (tr_chunks data - 1) RR_Transmission @ [RR_TransmissionFinish]"
    "\<forall>m \<in> set msgs. rr_id (fst m) = rq_id q \<and> rr_err (fst m) = NoError"
    using transmission_run [OF assms(1-9), unfolded to_int32_id [OF assms(10)]] by blast
  then obtain pre r x where msgs: "msgs = pre @ [(r, x)]"
    by (cases msgs rule: rev_cases) auto
  have marks: "\<forall>m \<in> set pre. follows (rr_mark (fst m))" "\<not> follows (rr_mark r)"
  proof -
    have "map (rr_mark \<circ> fst) pre = replicate (tr_chunks data - 1) RR_Transmission" "rr_mark r = RR_TransmissionFinish"
      using run(9) by (simp_all add: msgs)
    moreover have "set (replicate n RR_Transmission) \<subseteq> {RR_Transmission}" for n
      by (simp add: set_replicate_conv_if)
    ultimately have "set (map (rr_mark \<circ> fst) pre) \<subseteq> {RR_Transmission}" "rr_mark r = RR_TransmissionFinish"
      by simp_all
    then show "\<forall>m \<in> set pre. follows (rr_mark (fst m))" "\<not> follows (rr_mark r)"
      by (auto simp: follows_def)
  qed
  let ?all = "((reply, []) # pre) @ [(r, x)]" and ?fill = "filled_reply (rq_path q)"
  let ?calls = "map (\<lambda>(r, x). (?fill r, x)) msgs"
  have "\<forall>m \<in> set ?all. rr_id (fst m) = rq_id q" "\<forall>m \<in> set ((reply, []) # pre). follows (rr_mark (fst m))"
    using run(5,10) run(4) marks(1) by (auto simp: msgs follows_def)
  from receive_all [OF assms(11-14) this marks(2), of CE srv]
  have "cl_calls (cl_receive CE srv ?all c) = cl_calls c @ map (\<lambda>(r, x). CallRequest cb srv r x) ((?fill reply, []) # ?calls)"
    "map_of (ab_map (cl_ops (cl_receive CE srv ?all c))) (rq_id q) = None"
    by (simp_all add: case_prod_unfold comp_def msgs)
  moreover have "rr_mark (?fill y) = rr_mark y" "rr_err (?fill y) = rr_err y" "rr_range (?fill y) = rr_range y" for y
    by (simp_all add: filled_reply_def)
  moreover have "concat (map snd ?calls) = data" "map (rr_mark \<circ> fst) ?calls = map (rr_mark \<circ> fst) msgs"
    using run(8) by (simp_all add: msgs comp_def case_prod_unfold filled_reply_def)
  moreover have "\<forall>m \<in> set ?calls. rr_err (fst m) = NoError" using run(10) by (auto simp: filled_reply_def)
  moreover have "sv_sent s2 = sv_sent s @ map (\<lambda>(r, x). (me, MRequestReply r x)) ?all"
    by (simp add: run(3) msgs)
  ultimately show ?thesis using run(1,2,4,6,7,9) by metis
qed

text \<open>
  C1. From request to last chunk: if a client has a transmission pending under its id, and the
  replies the server's handlers send for that request are delivered to it in order, then its
  callback is called once for the announcement and once for every chunk, the contents it gets
  are together the shared data, and its operation is then gone.  The server keeps the id of the
  request and the number of chunks in an \<open>int\<close> of 32 bits: the id must lie in its range, as the
  first 2147483647 ids a client gives do (\<open>long_id_loses_chunks\<close> shows what else happens), and
  the data must have fewer than \<open>2 ^ 31\<close> chunks of 8192 bytes.  The request is for the whole data
  in its current revision, the sender has the permission, and sends succeed.
\<close>

theorem transmission_end_to_end:
  assumes "map_of (sv_shared s) (Path (path_head (rq_path q))) = Some d"
    and "sd_promise d = Some (createPromise (Some data))" and "sv_permits E me (rq_path q)"
    and "rq_revision q \<le> 0 \<or> rq_revision q = sd_revision d" and "rq_mark q = RQ_Transmission"
    and "r_isDefault (rq_range q)" and "sv_alloc_ok s" and "int (tr_chunks data) < 2 ^ 31"
    and "\<And>h m. se_send E h m = NoError" and "fits_int32 (rq_id q)"
    and "ab_ok (cl_ops c)" and "map_of (ab_map (cl_ops c)) (rq_id q) = Some op" and "op_type op = REQUEST"
    and "op_data op = RequestOp cb True (rq_path q)"
  shows "\<exists>s1 i s2 msgs calls. sv_onRequest E me q s = Done s1 \<and> sv_continue E i (tr_chunks data) s1 = Done s2 \<and>
     sv_sent s2 = sv_sent s @ map (\<lambda>(r, x). (me, MRequestReply r x)) msgs \<and>
     cl_calls (cl_receive CE srv msgs c) = cl_calls c @ map (\<lambda>(r, x). CallRequest cb srv r x) calls \<and>
     length calls = tr_chunks data + 1 \<and> concat (map snd calls) = data \<and>
     map_of (ab_map (cl_ops (cl_receive CE srv msgs c))) (rq_id q) = None"
proof -
  obtain s1 i s2 msgs reply calls where run: "sv_onRequest E me q s = Done s1" "sv_continue E i (tr_chunks data) s1 = Done s2"
    "sv_sent s2 = sv_sent s @ map (\<lambda>(r, x). (me, MRequestReply r x)) msgs"
    "cl_calls (cl_receive CE srv msgs c) = cl_calls c @ map (\<lambda>(r, x). CallRequest cb srv r x) ((reply, []) # calls)"
    "map_of (ab_map (cl_ops (cl_receive CE srv msgs c))) (rq_id q) = None"
    "map (rr_mark \<circ> fst) calls = replicate (tr_chunks data - 1) RR_Transmission @ [RR_TransmissionFinish]"
    "concat (map snd calls) = data"
    using transmission_received [OF assms, of CE srv] by blast
  moreover have "length ((reply, []) # calls) = tr_chunks data + 1"
    using arg_cong [OF run(6), of length] tr_chunks_pos [of data] by simp
  moreover have "concat (map snd ((reply, []) # calls)) = data" using run(7) by simp
  ultimately show ?thesis by blast
qed

lemma transmission_end_to_end_witness:
  "\<exists>s1 i s2 msgs calls. sv_onRequest demo_sv_env ''me'' (new_request\<lparr>rq_id := 1, rq_path := Path ''f'', rq_mark := RQ_Transmission\<rparr>)
       (demo_share ''abcde'') = Done s1 \<and> sv_continue demo_sv_env i (tr_chunks ''abcde'') s1 = Done s2 \<and>
     sv_sent s2 = map (\<lambda>(r, x). (''me'', MRequestReply r x)) msgs \<and>
     cl_calls (cl_receive demo_cl_env ''srv'' msgs demo_client) = map (\<lambda>(r, x). CallRequest 9 ''srv'' r x) calls \<and>
     concat (map snd calls) = ''abcde''"
proof -
  let ?q = "new_request\<lparr>rq_id := 1, rq_path := Path ''f'', rq_mark := RQ_Transmission\<rparr>"
  have s: "map_of (sv_shared (demo_share ''abcde'')) (Path (path_head (rq_path ?q))) =
      Some \<lparr>sd_promise = Some (createPromise (Some ''abcde'')), sd_revision = 1, sd_subscribers = []\<rparr>"
    "sv_permits demo_sv_env ''me'' (rq_path ?q)" "r_isDefault (rq_range ?q)" "rq_mark ?q = RQ_Transmission"
    "rq_revision ?q \<le> 0" "sv_sent (demo_share ''abcde'') = []" "\<And>h m. se_send demo_sv_env h m = NoError"
    "fits_int32 (rq_id ?q)"
    by (simp_all add: sv_eval r_isDefault_def fits_int32_def)
  have c: "cl_calls demo_client = []" by (simp add: demo_client_eq cl_new_def)
  let ?op = "(new_op REQUEST (At 1000) 0 (RequestOp 9 True (Path ''f'')))\<lparr>op_id := 1, op_key := 1\<rparr>"
  have op: "map_of (ab_map (cl_ops demo_client)) (rq_id ?q) = Some ?op" "op_type ?op = REQUEST"
    "op_data ?op = RequestOp 9 True (rq_path ?q)"
    by (simp_all add: demo_client_op(2) new_op_def)
  show ?thesis
    using transmission_end_to_end [where data = "''abcde''" and CE = demo_cl_env and srv = "''srv''",
        OF s(1) _ s(2) _ s(4,3) demo_alloc _ s(7,8) demo_client_op(1) op] s(5,6) c
    by (simp add: demo_chunks, metis)
qed

text \<open>
  A reply is matched by its id alone, not by who sends it or whether its kind fits: a push
  reply from any host with the id of a pending request deletes the request from the table
  without calling anybody back, and the answer that comes later is not recognised.
\<close>

lemma foreign_reply_drops_request:
  assumes "ab_ok (cl_ops s)" and "map_of (ab_map (cl_ops s)) i = Some op" and "op_type op = REQUEST"
    and "pr_id r = i" and "rr_id answer = i" and "rr_mark answer \<noteq> RR_Transmission"
  shows "cl_calls (cl_onPushReply anybody r s) = cl_calls s \<and>
     map_of (ab_map (cl_ops (cl_onPushReply anybody r s))) i = None \<and>
     cl_calls (cl_onRequestReply E server answer c (cl_onPushReply anybody r s)) = cl_calls s"
proof -
  have wf: "ab_wf (cl_ops s)" using assms(1) by (simp add: ab_ok_def)
  let ?b = "ab_remove op i (cl_ops s)"
  have "getReadyAsyncOpOf i PUSH (cl_ops s) = (None, ?b)"
    using assms(2,3) by (simp add: getReadyAsyncOpOf_def getReadyAsyncOp_def)
  then have push: "cl_onPushReply anybody r s = s\<lparr>cl_ops := ?b\<rparr>"
    using assms(4) by (simp add: cl_onPushReply_def)
  have "map_of (ab_map ?b) i = None" using ab_remove_props(3) [OF wf assms(2)] by simp
  then show ?thesis
    using assms(5,6) by (simp add: push cl_onRequestReply_def getReadyAsyncOpOf_def getReadyAsyncOp_def Let_def)
qed

lemma foreign_reply_drops_request_witness:
  "cl_calls (cl_onRequestReply demo_cl_env ''srv'' (new_request_reply\<lparr>rr_id := 1\<rparr>) ''abc''
     (cl_onPushReply ''evil'' ((new_push_reply NoError)\<lparr>pr_id := 1\<rparr>) demo_client)) = []"
proof -
  have "cl_calls demo_client = []" by (simp add: demo_client_eq cl_new_def)
  with foreign_reply_drops_request [OF demo_client_op, of "(new_push_reply NoError)\<lparr>pr_id := 1\<rparr>"
      "new_request_reply\<lparr>rr_id := 1\<rparr>" "''evil''" demo_cl_env "''srv''" "''abc''"]
  show ?thesis by (simp add: new_op_def new_push_reply_def new_request_reply_def)
qed

end
