(* ===== verification/Sf_Auth.thy ===== *)
theory Sf_Auth
  imports Sf_Datagram Sf_Time
begin

text \<open>
  \<open>Authentication\<close> (\<open>libschnee/schnee/p2p/Authentication.h\<close>, \<open>Authentication.cpp\<close>) and
  \<open>AuthProtocol\<close> (\<open>libschnee/schnee/p2p/channels/AuthProtocol.h\<close>, \<open>AuthProtocol.cpp\<close>):
  the handshake createChannel, createChannelAccept, channelAccept by which the two ends of a
  fresh channel agree on who they are and exchange certificates.

  Certificates are objects of the gnutls wrapper; what the code asks of them is the record
  \<open>x509\<close> of functions.  The text layout of the commands is that of the serialization library,
  which is not part of the repository: \<open>ae_enc\<close> and \<open>ae_dec\<close>.
\<close>

subsection \<open>Certificates\<close>

record 'k x509 =
  x_fingerprint :: "'k \<Rightarrow> string"
  x_export :: "'k \<Rightarrow> string"
  x_import :: "string \<Rightarrow> 'k option"
  x_selfsigned :: "string \<Rightarrow> 'k"
  x_commonName :: "'k \<Rightarrow> string"

datatype cert_type = CT_PEER | CT_ERROR

record 'k cert_info =
  ct_type :: cert_type
  ct_cert :: "'k option"

definition ci_fingerprint :: "'k x509 \<Rightarrow> 'k cert_info \<Rightarrow> string" where
  "ci_fingerprint X i = (case ct_cert i of None \<Rightarrow> [] | Some k \<Rightarrow> x_fingerprint X k)"

text \<open>\<open>au_hasKey\<close>: the pointer to the private key is set; the key itself is never looked at.\<close>

record 'k authentication =
  au_hasKey :: bool
  au_certificate :: "'k option"
  au_certs :: "(string, 'k cert_info) smap"
  au_keySet :: bool
  au_identity :: string
  au_fingerprint :: string

definition au_new :: "'k authentication" where
  "au_new = \<lparr>au_hasKey = False, au_certificate = None, au_certs = [], au_keySet = False,
             au_identity = [], au_fingerprint = []\<rparr>"

definition au_setIdentity :: "'k x509 \<Rightarrow> string \<Rightarrow> 'k authentication \<Rightarrow> 'k authentication" where
  "au_setIdentity X identity a =
     (let a1 = a\<lparr>au_identity := identity\<rparr>;
          dn = (case au_certificate a of None \<Rightarrow> [] | Some k \<Rightarrow> x_commonName X k)
      in if \<not> au_hasKey a \<or> dn \<noteq> identity
         then let k = x_selfsigned X identity
              in a1\<lparr>au_hasKey := True, au_certificate := Some k,
                    au_fingerprint := x_fingerprint X k, au_keySet := True\<rparr>
         else a1)"

definition au_update :: "string \<Rightarrow> 'k cert_info \<Rightarrow> 'k authentication \<Rightarrow> 'k authentication" where
  "au_update identity info a =
     (if ct_cert info = None \<or> ct_type info = CT_ERROR
      then a\<lparr>au_certs := sm_erase identity (au_certs a)\<rparr>
      else a\<lparr>au_certs := sm_insert identity info (au_certs a)\<rparr>)"

definition au_get :: "string \<Rightarrow> 'k authentication \<Rightarrow> 'k cert_info" where
  "au_get identity a =
     (case map_of (au_certs a) identity of
        None \<Rightarrow> \<lparr>ct_type = CT_ERROR, ct_cert = None\<rparr>
      | Some i \<Rightarrow> i)"

subsection \<open>Commands\<close>

record create_channel =
  cc_from :: host_id
  cc_to :: host_id
  cc_version :: string
  cc_toCertFp :: string

record create_channel_accept =
  ca_from :: host_id
  ca_to :: host_id
  ca_version :: string
  ca_cert :: string
  ca_toCertFp :: string

record channel_accept =
  ac_from :: host_id
  ac_to :: host_id
  ac_cert :: string

record channel_fail =
  cf_error :: error
  cf_msg :: string

datatype auth_cmd =
    CreateChannel create_channel
  | CreateChannelAccept create_channel_accept
  | ChannelAccept channel_accept
  | ChannelFail channel_fail

text \<open>
  A deserialization of a header: the constructor's error flag and command name, the string
  fields by name that can be read, and the error code of a decodable \<open>ChannelFail\<close>.
\<close>

record deserialization =
  ds_error :: bool
  ds_cmd :: string
  ds_field :: "string \<Rightarrow> string option"
  ds_fail :: "error option"

subsection \<open>The protocol object\<close>

datatype auth_state =
    SENT_CREATE_CHANNEL | WAIT_FOR_CREATE_CHANNEL | SENT_CREATE_CHANNEL_ACCEPT
  | FINISHED | TIMEOUT | AUTH_ERROR

text \<open>Calls posted to the main loop: of the own handlers, and of the finished delegate.\<close>

datatype auth_task = Task_ChannelChange | Task_Error error | Task_Finished error

text \<open>
  \<open>ap_hooked\<close>: the delegate \<open>changed\<close> of the channel is set to \<open>onChannelChange\<close>;
  \<open>ap_hasFinished\<close>: the delegate \<open>mFinished\<close> is set.
\<close>

record ('c, 'k) auth_proto =
  ap_me :: host_id
  ap_other :: host_id
  ap_otherCertFp :: string
  ap_otherCert :: string
  ap_channel :: 'c
  ap_hooked :: bool
  ap_wasActive :: bool
  ap_hasFinished :: bool
  ap_timer :: "time option"
  ap_state :: auth_state
  ap_reader :: dreader
  ap_auth :: "'k authentication option"
  ap_tasks :: "auth_task list"

record ('c, 'k) auth_env =
  ae_now :: int
  ae_vt :: "'c channel_vt"
  ae_x509 :: "'k x509"
  ae_enc :: "auth_cmd \<Rightarrow> bytes"
  ae_dec :: "bytes \<Rightarrow> deserialization"
  ae_version :: string

text \<open>The constructor leaves \<open>mState\<close> as it is found: \<open>st\<close>.\<close>

definition ap_init :: "'c \<Rightarrow> host_id \<Rightarrow> ('c, 'k) auth_proto \<Rightarrow> ('c, 'k) auth_proto" where
  "ap_init ch me p = p\<lparr>ap_timer := None, ap_me := me, ap_channel := ch, ap_hooked := False,
                       ap_wasActive := False\<rparr>"

definition ap_new :: "auth_state \<Rightarrow> 'c \<Rightarrow> host_id \<Rightarrow> ('c, 'k) auth_proto" where
  "ap_new st ch me =
     ap_init ch me
       \<lparr>ap_me = [], ap_other = [], ap_otherCertFp = [], ap_otherCert = [], ap_channel = ch,
        ap_hooked = False, ap_wasActive = False, ap_hasFinished = False, ap_timer = None,
        ap_state = st, ap_reader = dr_init, ap_auth = None, ap_tasks = []\<rparr>"

definition ap_setAuthentication :: "'k authentication \<Rightarrow> ('c, 'k) auth_proto \<Rightarrow> ('c, 'k) auth_proto" where
  "ap_setAuthentication a p = p\<lparr>ap_auth := Some a\<rparr>"

definition ap_post :: "auth_task \<Rightarrow> ('c, 'k) auth_proto \<Rightarrow> ('c, 'k) auth_proto" where
  "ap_post t p = p\<lparr>ap_tasks := ap_tasks p @ [t]\<rparr>"

text \<open>\<open>Datagram::fromCmd (cmd).sendTo (mChannel)\<close>.\<close>

definition ap_send :: "('c, 'k) auth_env \<Rightarrow> auth_cmd \<Rightarrow> ('c, 'k) auth_proto \<Rightarrow> error \<times> ('c, 'k) auth_proto" where
  "ap_send E m p =
     (case dg_sendTo (ae_vt E) \<lparr>dg_header = Some (ae_enc E m), dg_content = None\<rparr> (ap_channel p) of
        (e, c) \<Rightarrow> (e, p\<lparr>ap_channel := c\<rparr>))"

definition keyExchange :: "('c, 'k) auth_env \<Rightarrow> ('c, 'k) auth_proto \<Rightarrow> bool" where
  "keyExchange E p \<longleftrightarrow>
     ap_auth p \<noteq> None \<and> ci_authenticated (vt_info (ae_vt E) (ap_channel p))"

text \<open>\<open>mAuthentication->get (other).fingerprint ()\<close>: the pointer is not tested here.\<close>

definition ap_knownFp :: "('c, 'k) auth_env \<Rightarrow> host_id \<Rightarrow> ('c, 'k) auth_proto \<Rightarrow> string outcome" where
  "ap_knownFp E other p =
     (case ap_auth p of
        None \<Rightarrow> Fault NullDeref
      | Some a \<Rightarrow> Done (ci_fingerprint (ae_x509 E) (au_get other a)))"

definition ap_connect_with ::
  "('c, 'k) auth_env \<Rightarrow> host_id \<Rightarrow> int \<Rightarrow> string \<Rightarrow> ('c, 'k) auth_proto \<Rightarrow> ('c, 'k) auth_proto" where
  "ap_connect_with E other ms fp p =
     (let cmd = CreateChannel \<lparr>cc_from = ap_me p, cc_to = other, cc_version = ae_version E,
                               cc_toCertFp = fp\<rparr>;
          p1 = p\<lparr>ap_timer := None, ap_other := other, ap_hooked := True\<rparr>;
          (e, p2) = ap_send E cmd p1
      in if failed e
         then ap_post (Task_Error ConnectionError) (p2\<lparr>ap_state := AUTH_ERROR\<rparr>)
         else p2\<lparr>ap_state := SENT_CREATE_CHANNEL,
                 ap_timer := Some (regTimeOutMs (ae_now E) ms), ap_wasActive := True\<rparr>)"

definition ap_connect ::
  "('c, 'k) auth_env \<Rightarrow> host_id \<Rightarrow> int \<Rightarrow> ('c, 'k) auth_proto \<Rightarrow> ('c, 'k) auth_proto outcome" where
  "ap_connect E other ms p =
     outcome_bind (if keyExchange E p then ap_knownFp E other p else Done [])
       (\<lambda>fp. Done (ap_connect_with E other ms fp p))"

text \<open>Without an authentication there is no key exchange.\<close>

lemma ap_connect_Done: "\<exists>q. ap_connect E other ms p = Done q"
  by (auto simp: ap_connect_def ap_knownFp_def keyExchange_def)

definition ap_passive ::
  "('c, 'k) auth_env \<Rightarrow> host_id \<Rightarrow> int \<Rightarrow> ('c, 'k) auth_proto \<Rightarrow> ('c, 'k) auth_proto" where
  "ap_passive E other ms p =
     (ap_post Task_ChannelChange (p\<lparr>ap_other := other, ap_hooked := True\<rparr>))
       \<lparr>ap_state := WAIT_FOR_CREATE_CHANNEL, ap_timer := Some (regTimeOutMs (ae_now E) ms),
        ap_wasActive := False\<rparr>"

definition ap_onTimeOut :: "('c, 'k) auth_proto \<Rightarrow> ('c, 'k) auth_proto" where
  "ap_onTimeOut p =
     (if ap_state p = FINISHED then p
      else ap_post (Task_Finished TimeOut)
             (p\<lparr>ap_hooked := False, ap_state := TIMEOUT, ap_timer := None\<rparr>))"

definition ap_onError :: "('c, 'k) auth_env \<Rightarrow> error \<Rightarrow> ('c, 'k) auth_proto \<Rightarrow> ('c, 'k) auth_proto" where
  "ap_onError E err p =
     (let p1 = p\<lparr>ap_state := AUTH_ERROR, ap_hooked := False, ap_timer := None\<rparr>;
          cerr = vt_error (ae_vt E) (ap_channel p);
          err1 = (if failed cerr then cerr else err);
          err2 = (if \<not> failed err1 then ConnectionError else err1)
      in if \<not> ap_hasFinished p then p1 else ap_post (Task_Finished err2) p1)"

definition ap_onFinish :: "('c, 'k) auth_proto \<Rightarrow> ('c, 'k) auth_proto" where
  "ap_onFinish p =
     ap_post (Task_Finished NoError) (p\<lparr>ap_state := FINISHED, ap_timer := None, ap_hooked := False\<rparr>)"

text \<open>Reading an optional field into a member leaves it alone if the field is missing.\<close>

definition ap_checkParams ::
  "deserialization \<Rightarrow> string \<Rightarrow> bool \<Rightarrow> ('c, 'k) auth_proto \<Rightarrow> bool \<times> ('c, 'k) auth_proto" where
  "ap_checkParams d desired setOther p =
     (if ds_error d then (False, p)
      else if ds_cmd d \<noteq> desired then (False, p)
      else
        let p1 = (case ds_field d ''toCertFp'' of None \<Rightarrow> p | Some v \<Rightarrow> p\<lparr>ap_otherCertFp := v\<rparr>);
            p2 = (case ds_field d ''cert'' of None \<Rightarrow> p1 | Some v \<Rightarrow> p1\<lparr>ap_otherCert := v\<rparr>)
        in case (ds_field d ''from'', ds_field d ''to'') of
             (Some from, Some to) \<Rightarrow>
               if setOther then (to = ap_me p, p2\<lparr>ap_other := from\<rparr>)
               else (from = ap_other p \<and> to = ap_me p, p2)
           | _ \<Rightarrow> (False, p2))"

definition ap_updateOtherCert :: "('c, 'k) auth_env \<Rightarrow> ('c, 'k) auth_proto \<Rightarrow> ('c, 'k) auth_proto" where
  "ap_updateOtherCert E p =
     (case ap_auth p of
        None \<Rightarrow> p
      | Some a \<Rightarrow>
          if ap_otherCert p = [] then p
          else case x_import (ae_x509 E) (ap_otherCert p) of
                 None \<Rightarrow> p
               | Some k \<Rightarrow> p\<lparr>ap_auth := Some (au_update (ap_other p) \<lparr>ct_type = CT_PEER, ct_cert = Some k\<rparr> a)\<rparr>)"

text \<open>
  The certificate to send: only if the peer knows another fingerprint.  Neither the pointer to
  the authentication nor the one to its certificate is tested.
\<close>

definition ap_ownCert :: "('c, 'k) auth_env \<Rightarrow> ('c, 'k) auth_proto \<Rightarrow> string outcome" where
  "ap_ownCert E p =
     (case ap_auth p of
        None \<Rightarrow> Fault NullDeref
      | Some a \<Rightarrow>
          if ap_otherCertFp p = au_fingerprint a then Done []
          else case au_certificate a of None \<Rightarrow> Fault NullDeref | Some k \<Rightarrow> Done (x_export (ae_x509 E) k))"

text \<open>What the three states do with a message that is not the expected one.\<close>

definition ap_reject ::
  "('c, 'k) auth_env \<Rightarrow> deserialization \<Rightarrow> ('c, 'k) auth_proto \<Rightarrow> ('c, 'k) auth_proto" where
  "ap_reject E d p =
     (if \<not> (ds_cmd d = ''channelFail'' \<and> ds_fail d \<noteq> None)
      then ap_onError E BadProtocol
             (snd (ap_send E (ChannelFail \<lparr>cf_error = BadProtocol, cf_msg = []\<rparr>) p))
      else ap_onError E (the (ds_fail d)) p)"

definition ap_onAccepted ::
  "('c, 'k) auth_env \<Rightarrow> deserialization \<Rightarrow> ('c, 'k) auth_proto \<Rightarrow> ('c, 'k) auth_proto outcome" where
  "ap_onAccepted E d p =
     (let (ok, p1) = ap_checkParams d ''createChannelAccept'' False p
      in if \<not> ok then Done (ap_reject E d p1)
         else case (if keyExchange E p1 then ap_ownCert E p1 else Done []) of
                Fault f \<Rightarrow> Fault f
              | Done cert \<Rightarrow>
                  let p2 = (if keyExchange E p1 then ap_updateOtherCert E p1 else p1);
                      (e, p3) = ap_send E (ChannelAccept \<lparr>ac_from = ap_me p1, ac_to = ap_other p1,
                                                          ac_cert = cert\<rparr>) p2
                  in Done (if failed e then ap_onError E ConnectionError p3 else ap_onFinish p3))"

definition ap_onCreate ::
  "('c, 'k) auth_env \<Rightarrow> deserialization \<Rightarrow> ('c, 'k) auth_proto \<Rightarrow> ('c, 'k) auth_proto outcome" where
  "ap_onCreate E d p =
     (let (ok, p1) = ap_checkParams d ''createChannel'' (ap_other p = []) p
      in if \<not> ok then Done (ap_reject E d p1)
         else case (if keyExchange E p1 then ap_ownCert E p1 else Done []) of
                Fault f \<Rightarrow> Fault f
              | Done cert \<Rightarrow>
                  let (e, p2) = ap_send E (CreateChannelAccept
                        \<lparr>ca_from = ap_me p1, ca_to = ap_other p1, ca_version = ae_version E,
                         ca_cert = cert, ca_toCertFp = []\<rparr>) p1
                  in Done (if failed e then ap_onError E ConnectionError p2
                           else p2\<lparr>ap_state := SENT_CREATE_CHANNEL_ACCEPT\<rparr>))"

definition ap_onChannelAccept ::
  "('c, 'k) auth_env \<Rightarrow> deserialization \<Rightarrow> ('c, 'k) auth_proto \<Rightarrow> ('c, 'k) auth_proto" where
  "ap_onChannelAccept E d p =
     (let (ok, p1) = ap_checkParams d ''channelAccept'' False p
      in if \<not> ok then ap_reject E d p1
         else ap_onFinish (if keyExchange E p1 then ap_updateOtherCert E p1 else p1))"

text \<open>The header of a datagram that was read is never null; the model keeps the test anyway.\<close>

definition ap_onChannelChange ::
  "('c, 'k) auth_env \<Rightarrow> ('c, 'k) auth_proto \<Rightarrow> ('c, 'k) auth_proto outcome" where
  "ap_onChannelChange E p =
     (if ap_state p \<in> {AUTH_ERROR, TIMEOUT, FINISHED} then Done p
      else
        case dr_read (vt_read (ae_vt E)) (ap_reader p) (ap_channel p) of
          (e, r, c) \<Rightarrow>
            let p1 = p\<lparr>ap_reader := r, ap_channel := c\<rparr>
            in if e = NotEnough then Done p1
               else if failed e then Done (ap_onError E BadProtocol p1)
               else case dg_header (dr_datagram r) of
                      None \<Rightarrow> Fault NullDeref
                    | Some header \<Rightarrow>
                        let d = ae_dec E header
                        in case ap_state p of
                             SENT_CREATE_CHANNEL \<Rightarrow> ap_onAccepted E d p1
                           | WAIT_FOR_CREATE_CHANNEL \<Rightarrow> ap_onCreate E d p1
                           | SENT_CREATE_CHANNEL_ACCEPT \<Rightarrow> Done (ap_onChannelAccept E d p1)
                           | _ \<Rightarrow> Fault AssertFailed)"

text \<open>The main loop runs the first posted call; one for the delegate is handed to the owner.\<close>

definition ap_runTask ::
  "('c, 'k) auth_env \<Rightarrow> ('c, 'k) auth_proto \<Rightarrow> (error option \<times> ('c, 'k) auth_proto) outcome" where
  "ap_runTask E p =
     (case ap_tasks p of
        [] \<Rightarrow> Done (None, p)
      | Task_ChannelChange # ts \<Rightarrow>
          outcome_bind (ap_onChannelChange E (p\<lparr>ap_tasks := ts\<rparr>)) (\<lambda>q. Done (None, q))
      | Task_Error e # ts \<Rightarrow> Done (None, ap_onError E e (p\<lparr>ap_tasks := ts\<rparr>))
      | Task_Finished e # ts \<Rightarrow> Done (Some e, p\<lparr>ap_tasks := ts\<rparr>))"

subsection \<open>The authentication of an operation\<close>

text \<open>
  What happens to the \<open>AuthProtocol\<close> of a pending operation: the main loop runs a call it has
  posted, its timer fires, or its stream has changed.  The first may be a call of the finished
  delegate, which is a callback of the owner.
\<close>

datatype 'c auth_event = Auth_Run | Auth_TimeOut | Auth_Stream 'c

definition auth_event ::
  "('c, 'k) auth_env \<Rightarrow> 'c auth_event \<Rightarrow> ('c, 'k) auth_proto \<Rightarrow> (error option \<times> ('c, 'k) auth_proto) outcome" where
  "auth_event A ev p =
     (case ev of
        Auth_Run \<Rightarrow> ap_runTask A p
      | Auth_TimeOut \<Rightarrow> Done (None, if ap_timer p = None then p else ap_onTimeOut p)
      | Auth_Stream c \<Rightarrow>
          (let p1 = p\<lparr>ap_channel := c\<rparr>
           in if ap_hooked p then outcome_bind (ap_onChannelChange A p1) (\<lambda>q. Done (None, q))
              else Done (None, p1)))"

end
