(* ===== verification/Sf_AuthPair.thy ===== *)
theory Sf_AuthPair
  imports Sf_Auth
begin

text \<open>
  The two ends of a connection running \<open>AuthProtocol\<close> against each other: an active and a
  passive protocol object, each on its end of a reliable byte link that delivers what was
  written in order, in pieces of any size and at any time.  What is shown: the ends agree on
  who they are and on the certificates, and the handshake completes unless one of them times
  out.
\<close>

subsection \<open>A link\<close>

record link =
  ln_in :: bytes
  ln_out :: bytes
  ln_trusted :: bool

definition link_vt :: "link channel_vt" where
  "link_vt = \<lparr>vt_error = \<lambda>_. NoError,
     vt_write = \<lambda>b c. (NoError, c\<lparr>ln_out := ln_out c @ b\<rparr>),
     vt_read = \<lambda>n c. (Some (take (nat n) (ln_in c)), c\<lparr>ln_in := drop (nat n) (ln_in c)\<rparr>),
     vt_info = \<lambda>c. \<lparr>ci_delay = -1, ci_virtual = False, ci_authenticated = ln_trusted c\<rparr>\<rparr>"

lemma link_vt_simps [simp]:
  "vt_error link_vt c = NoError" "vt_write link_vt b c = (NoError, c\<lparr>ln_out := ln_out c @ b\<rparr>)"
  "vt_read link_vt n c = (Some (take (nat n) (ln_in c)), c\<lparr>ln_in := drop (nat n) (ln_in c)\<rparr>)"
  "ci_authenticated (vt_info link_vt c) = ln_trusted c"
  by (simp_all add: link_vt_def)

interpretation link: byte_source "vt_read link_vt" ln_in
  by unfold_locales simp_all

lemma fillBytes_keeps:
  "dr_fillBytes (vt_read link_vt) n r c = (e, r', c') \<Longrightarrow> ln_out c' = ln_out c \<and> ln_trusted c' = ln_trusted c"
  by (auto simp: dr_fillBytes_def Let_def split: if_splits)

lemma link_read_keeps:
  assumes "dr_read (vt_read link_vt) r c = (e, r', c')"
  shows "ln_out c' = ln_out c" and "ln_trusted c' = ln_trusted c"
proof -
  have content: "ln_out c' = ln_out c \<and> ln_trusted c' = ln_trusted c"
    if "dr_read_content (vt_read link_vt) r c = (e, r', c')" for r c e r' c'
    using that by (auto simp: dr_read_content_def split: prod.splits if_splits dest!: fillBytes_keeps)
  have header: "ln_out c' = ln_out c \<and> ln_trusted c' = ln_trusted c"
    if "dr_read_header (vt_read link_vt) r c = (e, r', c')" for r c e r' c'
    using that by (auto simp: dr_read_header_def split: prod.splits if_splits dest!: fillBytes_keeps content)
  have "ln_out c' = ln_out c \<and> ln_trusted c' = ln_trusted c"
    if "dr_read_lengths (vt_read link_vt) r c = (e, r', c')" for r c e r' c'
    using that by (auto simp: dr_read_lengths_def Let_def split: prod.splits if_splits
        dest!: fillBytes_keeps header)
  with content header show "ln_out c' = ln_out c" "ln_trusted c' = ln_trusted c"
    using assms by (auto simp: dr_read_def split: dr_phase.splits)
qed

subsection \<open>The two ends\<close>

text \<open>The fields a deserialization finds in a command the other end serialized.\<close>

fun auth_fields :: "auth_cmd \<Rightarrow> deserialization" where
  "auth_fields (CreateChannel c) =
     \<lparr>ds_error = False, ds_cmd = ''createChannel'',
      ds_field = [''from'' \<mapsto> cc_from c, ''to'' \<mapsto> cc_to c, ''version'' \<mapsto> cc_version c,
                  ''toCertFp'' \<mapsto> cc_toCertFp c], ds_fail = None\<rparr>"
| "auth_fields (CreateChannelAccept c) =
     \<lparr>ds_error = False, ds_cmd = ''createChannelAccept'',
      ds_field = [''from'' \<mapsto> ca_from c, ''to'' \<mapsto> ca_to c, ''version'' \<mapsto> ca_version c,
                  ''cert'' \<mapsto> ca_cert c, ''toCertFp'' \<mapsto> ca_toCertFp c], ds_fail = None\<rparr>"
| "auth_fields (ChannelAccept c) =
     \<lparr>ds_error = False, ds_cmd = ''channelAccept'',
      ds_field = [''from'' \<mapsto> ac_from c, ''to'' \<mapsto> ac_to c, ''cert'' \<mapsto> ac_cert c], ds_fail = None\<rparr>"
| "auth_fields (ChannelFail c) =
     \<lparr>ds_error = False, ds_cmd = ''channelFail'', ds_field = [''msg'' \<mapsto> cf_msg c],
      ds_fail = Some (cf_error c)\<rparr>"

text \<open>Data arrives at an end: the channel signals it if its delegate is set.\<close>

definition ap_receive ::
  "(link, 'k) auth_env \<Rightarrow> bytes \<Rightarrow> (link, 'k) auth_proto \<Rightarrow> (link, 'k) auth_proto outcome" where
  "ap_receive E x p =
     (let p1 = p\<lparr>ap_channel := (ap_channel p)\<lparr>ln_in := ln_in (ap_channel p) @ x\<rparr>\<rparr>
      in if ap_hooked p then ap_onChannelChange E p1 else Done p1)"

definition ap_sent :: "bytes \<Rightarrow> (link, 'k) auth_proto \<Rightarrow> (link, 'k) auth_proto" where
  "ap_sent y p = p\<lparr>ap_channel := (ap_channel p)\<lparr>ln_out := y\<rparr>\<rparr>"

type_synonym 'k auth_pair = "(link, 'k) auth_proto \<times> (link, 'k) auth_proto"

inductive pair_step :: "(link, 'k) auth_env \<Rightarrow> 'k auth_pair \<Rightarrow> 'k auth_pair \<Rightarrow> bool"
  for E :: "(link, 'k) auth_env" where
  to_passive: "ln_out (ap_channel A) = x @ y \<Longrightarrow> ap_receive E x B = Done B' \<Longrightarrow>
     pair_step E (A, B) (ap_sent y A, B')"
| to_active: "ln_out (ap_channel B) = x @ y \<Longrightarrow> ap_receive E x A = Done A' \<Longrightarrow>
     pair_step E (A, B) (A', ap_sent y B)"
| task_active: "ap_tasks A \<noteq> [] \<Longrightarrow> ap_runTask E A = Done (r, A') \<Longrightarrow> pair_step E (A, B) (A', B)"
| task_passive: "ap_tasks B \<noteq> [] \<Longrightarrow> ap_runTask E B = Done (r, B') \<Longrightarrow> pair_step E (A, B) (A, B')"
| timer_active: "ap_timer A \<noteq> None \<Longrightarrow> pair_step E (A, B) (ap_onTimeOut A, B)"
| timer_passive: "ap_timer B \<noteq> None \<Longrightarrow> pair_step E (A, B) (A, ap_onTimeOut B)"

inductive pair_reach :: "(link, 'k) auth_env \<Rightarrow> 'k auth_pair \<Rightarrow> 'k auth_pair \<Rightarrow> bool"
  for E :: "(link, 'k) auth_env" and AB :: "'k auth_pair" where
  start: "pair_reach E AB AB"
| step: "pair_reach E AB S \<Longrightarrow> pair_step E S S' \<Longrightarrow> pair_reach E AB S'"

text \<open>
  The setting of a handshake: host \<open>hs_a\<close> connects to \<open>hs_b\<close>, which waits for
  \<open>hs_expect\<close>, or for anyone if that is empty; \<open>hs_early\<close> bytes of the first message arrive
  before the passive side is started.
\<close>

record 'k handshake =
  hs_a :: host_id
  hs_b :: host_id
  hs_expect :: host_id
  hs_authA :: "'k authentication option"
  hs_authB :: "'k authentication option"
  hs_trustA :: bool
  hs_trustB :: bool
  hs_early :: nat
  hs_msA :: int
  hs_msB :: int

definition hs_end :: "auth_state \<Rightarrow> host_id \<Rightarrow> 'k authentication option \<Rightarrow> bool \<Rightarrow> (link, 'k) auth_proto" where
  "hs_end st me au trust =
     (ap_new st \<lparr>ln_in = [], ln_out = [], ln_trusted = trust\<rparr> me)\<lparr>ap_auth := au, ap_hasFinished := True\<rparr>"

definition hs_start :: "(link, 'k) auth_env \<Rightarrow> auth_state \<Rightarrow> 'k handshake \<Rightarrow> 'k auth_pair" where
  "hs_start E st H =
     (let p = hs_end st (hs_a H) (hs_authA H) (hs_trustA H);
          A = outcome_the p (ap_connect E (hs_b H) (hs_msA H) p);
          s = ln_out (ap_channel A);
          B = hs_end st (hs_b H) (hs_authB H) (hs_trustB H)
      in (ap_sent (drop (hs_early H) s) A,
          ap_passive E (hs_expect H) (hs_msB H)
            (B\<lparr>ap_channel := (ap_channel B)\<lparr>ln_in := take (hs_early H) s\<rparr>\<rparr>)))"

subsection \<open>The three messages\<close>

definition wire :: "(link, 'k) auth_env \<Rightarrow> auth_cmd \<Rightarrow> bytes" where
  "wire E m = be32 (length (ae_enc E m)) @ be32 0 @ ae_enc E m"

definition hs_keyA :: "'k handshake \<Rightarrow> bool" where
  "hs_keyA H \<longleftrightarrow> hs_authA H \<noteq> None \<and> hs_trustA H"

definition hs_keyB :: "'k handshake \<Rightarrow> bool" where
  "hs_keyB H \<longleftrightarrow> hs_authB H \<noteq> None \<and> hs_trustB H"

definition hs_knownFp :: "(link, 'k) auth_env \<Rightarrow> 'k handshake \<Rightarrow> string" where
  "hs_knownFp E H =
     (if hs_keyA H then ci_fingerprint (ae_x509 E) (au_get (hs_b H) (the (hs_authA H))) else [])"

definition hs_certB :: "(link, 'k) auth_env \<Rightarrow> 'k handshake \<Rightarrow> string" where
  "hs_certB E H =
     (if hs_keyB H \<and> hs_knownFp E H \<noteq> au_fingerprint (the (hs_authB H))
      then x_export (ae_x509 E) (the (au_certificate (the (hs_authB H)))) else [])"

definition hs_certA :: "(link, 'k) auth_env \<Rightarrow> 'k handshake \<Rightarrow> string" where
  "hs_certA E H =
     (if hs_keyA H \<and> au_fingerprint (the (hs_authA H)) \<noteq> []
      then x_export (ae_x509 E) (the (au_certificate (the (hs_authA H)))) else [])"

definition hs_m1 :: "(link, 'k) auth_env \<Rightarrow> 'k handshake \<Rightarrow> auth_cmd" where
  "hs_m1 E H = CreateChannel \<lparr>cc_from = hs_a H, cc_to = hs_b H, cc_version = ae_version E,
                              cc_toCertFp = hs_knownFp E H\<rparr>"

definition hs_m2 :: "(link, 'k) auth_env \<Rightarrow> 'k handshake \<Rightarrow> auth_cmd" where
  "hs_m2 E H = CreateChannelAccept \<lparr>ca_from = hs_b H, ca_to = hs_a H, ca_version = ae_version E,
                                    ca_cert = hs_certB E H, ca_toCertFp = []\<rparr>"

definition hs_m3 :: "(link, 'k) auth_env \<Rightarrow> 'k handshake \<Rightarrow> auth_cmd" where
  "hs_m3 E H = ChannelAccept \<lparr>ac_from = hs_a H, ac_to = hs_b H, ac_cert = hs_certA E H\<rparr>"

lemmas hs_messages = hs_m1_def hs_m2_def hs_m3_def

text \<open>The own certificate and its fingerprint are those \<open>setIdentity\<close> stores.\<close>

definition au_own :: "'k x509 \<Rightarrow> 'k authentication \<Rightarrow> bool" where
  "au_own X a \<longleftrightarrow> (\<exists>k. au_certificate a = Some k \<and> au_fingerprint a = x_fingerprint X k)"

definition hs_ok :: "(link, 'k) auth_env \<Rightarrow> 'k handshake \<Rightarrow> bool" where
  "hs_ok E H \<longleftrightarrow> ae_vt E = link_vt \<and> (hs_expect H = [] \<or> hs_expect H = hs_a H) \<and>
     (\<forall>a. hs_authA H = Some a \<longrightarrow> au_own (ae_x509 E) a) \<and>
     (\<forall>a. hs_authB H = Some a \<longrightarrow> au_own (ae_x509 E) a) \<and>
     (\<forall>m \<in> {hs_m1 E H, hs_m2 E H, hs_m3 E H}.
        ae_dec E (ae_enc E m) = auth_fields m \<and> length (ae_enc E m) \<le> max_len)"

text \<open>What an end has stored after it processed the peer's certificate.\<close>

definition hs_stored ::
  "(link, 'k) auth_env \<Rightarrow> host_id \<Rightarrow> string \<Rightarrow> bool \<Rightarrow> 'k authentication option \<Rightarrow> 'k authentication option" where
  "hs_stored E peer cert key au =
     (if \<not> key \<or> cert = [] then au
      else case x_import (ae_x509 E) cert of None \<Rightarrow> au
           | Some k \<Rightarrow> map_option (au_update peer \<lparr>ct_type = CT_PEER, ct_cert = Some k\<rparr>) au)"

subsection \<open>The invariant\<close>

datatype hs_phase = P_create | P_accept | P_final | P_done

fun hs_toA :: "(link, 'k) auth_env \<Rightarrow> 'k handshake \<Rightarrow> hs_phase \<Rightarrow> bytes" where
  "hs_toA E H P_accept = wire E (hs_m2 E H)"
| "hs_toA E H ph = []"

fun hs_toB :: "(link, 'k) auth_env \<Rightarrow> 'k handshake \<Rightarrow> hs_phase \<Rightarrow> bytes" where
  "hs_toB E H P_create = wire E (hs_m1 E H)"
| "hs_toB E H P_final = wire E (hs_m3 E H)"
| "hs_toB E H ph = []"

definition inflight :: "(link, 'k) auth_proto \<Rightarrow> (link, 'k) auth_proto \<Rightarrow> bytes" where
  "inflight p q = dr_pending (ap_reader p) @ ln_in (ap_channel p) @ ln_out (ap_channel q)"

definition hs_end_ok :: "bool \<Rightarrow> host_id \<Rightarrow> (link, 'k) auth_proto \<Rightarrow> bool" where
  "hs_end_ok t me p \<longleftrightarrow> ap_me p = me \<and> ap_hasFinished p \<and> ln_trusted (ap_channel p) = t \<and>
     (ap_hooked p \<longleftrightarrow> ap_state p \<notin> {FINISHED, TIMEOUT, AUTH_ERROR}) \<and>
     (ap_hooked p \<longrightarrow> dr_ok (ap_reader p) \<and> dg_split (dr_pending (ap_reader p)) = Need) \<and>
     (\<forall>e. Task_Error e \<notin> set (ap_tasks p))"

definition hs_sideA :: "(link, 'k) auth_env \<Rightarrow> 'k handshake \<Rightarrow> hs_phase \<Rightarrow> (link, 'k) auth_proto \<Rightarrow> bool" where
  "hs_sideA E H ph A \<longleftrightarrow> ap_other A = hs_b H \<and>
     (if ph \<in> {P_create, P_accept}
      then ap_state A \<in> {SENT_CREATE_CHANNEL, TIMEOUT} \<and> ap_auth A = hs_authA H \<and> ap_otherCert A = []
      else ap_state A = FINISHED \<and>
           ap_auth A = hs_stored E (hs_b H) (hs_certB E H) (hs_keyA H) (hs_authA H))"

definition hs_sideB :: "(link, 'k) auth_env \<Rightarrow> 'k handshake \<Rightarrow> hs_phase \<Rightarrow> (link, 'k) auth_proto \<Rightarrow> bool" where
  "hs_sideB E H ph B \<longleftrightarrow>
     (case ph of
        P_create \<Rightarrow> ap_state B \<in> {WAIT_FOR_CREATE_CHANNEL, TIMEOUT} \<and> ap_other B = hs_expect H \<and>
          ap_auth B = hs_authB H \<and> ap_otherCert B = []
      | P_done \<Rightarrow> ap_state B = FINISHED \<and> ap_other B = hs_a H \<and>
          ap_auth B = hs_stored E (hs_a H) (hs_certA E H) (hs_keyB H) (hs_authB H)
      | _ \<Rightarrow> ap_state B \<in> {SENT_CREATE_CHANNEL_ACCEPT, TIMEOUT} \<and> ap_other B = hs_a H \<and>
          ap_auth B = hs_authB H \<and> ap_otherCert B = [])"

definition hs_pre :: "(link, 'k) auth_env \<Rightarrow> 'k handshake \<Rightarrow> hs_phase \<Rightarrow> 'k auth_pair \<Rightarrow> bool" where
  "hs_pre E H ph S \<longleftrightarrow> (case S of (A, B) \<Rightarrow>
     hs_end_ok (hs_trustA H) (hs_a H) A \<and> hs_end_ok (hs_trustB H) (hs_b H) B \<and>
     hs_sideA E H ph A \<and> hs_sideB E H ph B \<and>
     (ap_hooked A \<longrightarrow> inflight A B = hs_toA E H ph) \<and> (ap_hooked B \<longrightarrow> inflight B A = hs_toB E H ph))"

text \<open>Nothing that arrived is left unread, unless the handler is still to be called.\<close>

definition ap_read_up :: "(link, 'k) auth_proto \<Rightarrow> bool" where
  "ap_read_up p \<longleftrightarrow>
     (ap_hooked p \<longrightarrow> ln_in (ap_channel p) = [] \<or> Task_ChannelChange \<in> set (ap_tasks p))"

definition hs_inv :: "(link, 'k) auth_env \<Rightarrow> 'k handshake \<Rightarrow> 'k auth_pair \<Rightarrow> bool" where
  "hs_inv E H S \<longleftrightarrow> (\<exists>ph. hs_pre E H ph S) \<and> ap_read_up (fst S) \<and> ap_read_up (snd S)"

subsection \<open>One delivery\<close>

lemma wire_encode:
  "length (ae_enc E m) \<le> max_len \<Longrightarrow>
     dg_encode \<lparr>dg_header = Some (ae_enc E m), dg_content = None\<rparr> = Some (wire E m)"
  by (simp add: dg_encode_Some wire_def)

lemma wire_split:
  assumes "length (ae_enc E m) \<le> max_len" and "s @ t = wire E m"
  shows "dg_split s = (if t = [] then Full (ae_enc E m) [] [] else Need)"
proof -
  have whole: "dg_split (s @ t) = Full (ae_enc E m) [] []"
    using assms by (simp add: wire_def dg_split_body)
  show ?thesis
  proof (cases "dg_split s")
    case (Full h c r)
    with whole dg_split_append [OF Full, of t] show ?thesis by simp
  next
    case TooBig
    with whole dg_split_toobig [OF TooBig, of t] show ?thesis by simp
  qed (use whole in auto)
qed

text \<open>The handler on part of a message, and on the last part of it.\<close>

lemma change_partial:
  assumes "ae_vt E = link_vt" and "dr_ok (ap_reader p)" and "ap_state p \<notin> {AUTH_ERROR, TIMEOUT, FINISHED}"
    and "dg_split (dr_pending (ap_reader p) @ ln_in (ap_channel p)) = Need"
  shows "\<exists>r c. ap_onChannelChange E p = Done (p\<lparr>ap_reader := r, ap_channel := c\<rparr>) \<and> dr_ok r \<and>
     dr_pending r = dr_pending (ap_reader p) @ ln_in (ap_channel p) \<and> ln_in c = [] \<and>
     ln_out c = ln_out (ap_channel p) \<and> ln_trusted c = ln_trusted (ap_channel p)"
proof -
  obtain e r c where rd: "dr_read (vt_read link_vt) (ap_reader p) (ap_channel p) = (e, r, c)"
    by (metis prod_cases3)
  from link.read_step [OF assms(2) rd] link_read_keeps [OF rd] rd assms show ?thesis
    by (intro exI [of _ r] exI [of _ c]) (simp add: read_spec_def ap_onChannelChange_def)
qed

definition ap_dispatch ::
  "(link, 'k) auth_env \<Rightarrow> deserialization \<Rightarrow> (link, 'k) auth_proto \<Rightarrow> (link, 'k) auth_proto outcome" where
  "ap_dispatch E d p =
     (case ap_state p of
        SENT_CREATE_CHANNEL \<Rightarrow> ap_onAccepted E d p
      | WAIT_FOR_CREATE_CHANNEL \<Rightarrow> ap_onCreate E d p
      | SENT_CREATE_CHANNEL_ACCEPT \<Rightarrow> Done (ap_onChannelAccept E d p)
      | _ \<Rightarrow> Fault AssertFailed)"

lemma change_complete:
  assumes "ae_vt E = link_vt" and "dr_ok (ap_reader p)" and "ap_state p \<notin> {AUTH_ERROR, TIMEOUT, FINISHED}"
    and "dg_split (dr_pending (ap_reader p) @ ln_in (ap_channel p)) = Full h cn []"
  shows "\<exists>r c. ap_onChannelChange E p = ap_dispatch E (ae_dec E h) (p\<lparr>ap_reader := r, ap_channel := c\<rparr>) \<and>
     dr_ok r \<and> dr_pending r = [] \<and> ln_in c = [] \<and>
     ln_out c = ln_out (ap_channel p) \<and> ln_trusted c = ln_trusted (ap_channel p)"
proof -
  obtain e r c where rd: "dr_read (vt_read link_vt) (ap_reader p) (ap_channel p) = (e, r, c)"
    by (metis prod_cases3)
  from link.read_step [OF assms(2) rd] link_read_keeps [OF rd] rd assms show ?thesis
    by (intro exI [of _ r] exI [of _ c])
      (simp add: read_spec_def ap_onChannelChange_def ap_dispatch_def Let_def)
qed

lemma send_link:
  assumes "ae_vt E = link_vt" and "length (ae_enc E m) \<le> max_len"
  shows "ap_send E m p =
     (NoError, p\<lparr>ap_channel := (ap_channel p)\<lparr>ln_out := ln_out (ap_channel p) @ wire E m\<rparr>\<rparr>)"
  using assms by (simp add: ap_send_def dg_sendTo_def wire_encode)

text \<open>What the three handlers do with the message they wait for.\<close>

lemma hs_ownCert:
  assumes "hs_ok E H" and "ap_auth p = hs_authA H \<and> key = hs_keyA H \<or> ap_auth p = hs_authB H \<and> key = hs_keyB H"
    and "key"
  shows "ap_ownCert E p = Done (if ap_otherCertFp p = au_fingerprint (the (ap_auth p)) then []
     else x_export (ae_x509 E) (the (au_certificate (the (ap_auth p)))))"
  using assms by (auto simp: ap_ownCert_def hs_keyA_def hs_keyB_def hs_ok_def au_own_def)

lemma dispatch_create:
  assumes "hs_ok E H" and "ap_state p = WAIT_FOR_CREATE_CHANNEL" and "ap_me p = hs_b H"
    and "ap_other p = hs_expect H" and "ap_auth p = hs_authB H"
    and "ln_trusted (ap_channel p) = hs_trustB H"
  shows "ap_dispatch E (ae_dec E (ae_enc E (hs_m1 E H))) p = Done (p\<lparr>ap_other := hs_a H,
     ap_otherCertFp := hs_knownFp E H, ap_state := SENT_CREATE_CHANNEL_ACCEPT,
     ap_channel := (ap_channel p)\<lparr>ln_out := ln_out (ap_channel p) @ wire E (hs_m2 E H)\<rparr>\<rparr>)"
proof -
  have check: "ap_checkParams (ae_dec E (ae_enc E (hs_m1 E H))) ''createChannel'' (ap_other p = []) p =
      (True, p\<lparr>ap_other := hs_a H, ap_otherCertFp := hs_knownFp E H\<rparr>)"
    using assms by (auto simp: hs_ok_def hs_m1_def ap_checkParams_def Let_def)
  let ?p = "p\<lparr>ap_other := hs_a H, ap_otherCertFp := hs_knownFp E H\<rparr>"
  have key: "keyExchange E ?p = hs_keyB H"
    using assms by (simp add: keyExchange_def hs_keyB_def hs_ok_def)
  have cert: "(if keyExchange E ?p then ap_ownCert E ?p else Done []) = Done (hs_certB E H)"
    using hs_ownCert [OF assms(1), of ?p "hs_keyB H"] assms(5) by (simp add: key hs_certB_def)
  have m2: "CreateChannelAccept \<lparr>ca_from = hs_b H, ca_to = hs_a H, ca_version = ae_version E,
      ca_cert = hs_certB E H, ca_toCertFp = []\<rparr> = hs_m2 E H" by (simp add: hs_m2_def)
  show ?thesis
    using assms check cert m2
    by (simp add: ap_dispatch_def ap_onCreate_def send_link hs_ok_def)
qed

lemma dispatch_accept:
  assumes "hs_ok E H" and "ap_state p = SENT_CREATE_CHANNEL" and "ap_me p = hs_a H"
    and "ap_other p = hs_b H" and "ap_auth p = hs_authA H" and "ap_otherCert p = []"
    and "ln_trusted (ap_channel p) = hs_trustA H"
  shows "\<exists>fp. ap_dispatch E (ae_dec E (ae_enc E (hs_m2 E H))) p = Done (ap_onFinish (p\<lparr>
     ap_otherCertFp := fp, ap_otherCert := hs_certB E H,
     ap_auth := hs_stored E (hs_b H) (hs_certB E H) (hs_keyA H) (hs_authA H),
     ap_channel := (ap_channel p)\<lparr>ln_out := ln_out (ap_channel p) @ wire E (hs_m3 E H)\<rparr>\<rparr>))"
proof -
  have check: "ap_checkParams (ae_dec E (ae_enc E (hs_m2 E H))) ''createChannelAccept'' False p =
      (True, p\<lparr>ap_otherCertFp := [], ap_otherCert := hs_certB E H\<rparr>)"
    using assms by (auto simp: hs_ok_def hs_m2_def ap_checkParams_def Let_def)
  let ?p = "p\<lparr>ap_otherCertFp := [], ap_otherCert := hs_certB E H\<rparr>"
  have key: "keyExchange E ?p = hs_keyA H"
    using assms by (simp add: keyExchange_def hs_keyA_def hs_ok_def)
  have cert: "(if keyExchange E ?p then ap_ownCert E ?p else Done []) = Done (hs_certA E H)"
    using hs_ownCert [OF assms(1), of ?p "hs_keyA H"] assms(5) by (auto simp: key hs_certA_def)
  have upd: "(if keyExchange E ?p then ap_updateOtherCert E ?p else ?p) =
      ?p\<lparr>ap_auth := hs_stored E (hs_b H) (hs_certB E H) (hs_keyA H) (hs_authA H)\<rparr>"
    using assms by (auto simp: key hs_stored_def ap_updateOtherCert_def hs_keyA_def split: option.split)
  have m3: "ChannelAccept \<lparr>ac_from = hs_a H, ac_to = hs_b H, ac_cert = hs_certA E H\<rparr> = hs_m3 E H"
    by (simp add: hs_m3_def)
  show ?thesis
    using assms check cert m3 upd
    by (intro exI [of _ "[]"]) (simp add: ap_dispatch_def ap_onAccepted_def send_link hs_ok_def)
qed

lemma dispatch_final:
  assumes "hs_ok E H" and "ap_state p = SENT_CREATE_CHANNEL_ACCEPT" and "ap_me p = hs_b H"
    and "ap_other p = hs_a H" and "ap_auth p = hs_authB H" and "ap_otherCert p = []"
    and "ln_trusted (ap_channel p) = hs_trustB H"
  shows "ap_dispatch E (ae_dec E (ae_enc E (hs_m3 E H))) p = Done (ap_onFinish (p\<lparr>
     ap_otherCert := hs_certA E H,
     ap_auth := hs_stored E (hs_a H) (hs_certA E H) (hs_keyB H) (hs_authB H)\<rparr>))"
proof -
  have check: "ap_checkParams (ae_dec E (ae_enc E (hs_m3 E H))) ''channelAccept'' False p =
      (True, p\<lparr>ap_otherCert := hs_certA E H\<rparr>)"
    using assms by (auto simp: hs_ok_def hs_m3_def ap_checkParams_def Let_def)
  let ?p = "p\<lparr>ap_otherCert := hs_certA E H\<rparr>"
  have key: "keyExchange E ?p = hs_keyB H"
    using assms by (simp add: keyExchange_def hs_keyB_def hs_ok_def)
  have upd: "(if keyExchange E ?p then ap_updateOtherCert E ?p else ?p) =
      ?p\<lparr>ap_auth := hs_stored E (hs_a H) (hs_certA E H) (hs_keyB H) (hs_authB H)\<rparr>"
    using assms by (auto simp: key hs_stored_def ap_updateOtherCert_def hs_keyB_def split: option.split)
  show ?thesis
    using assms check upd by (simp add: ap_dispatch_def ap_onChannelAccept_def)
qed

subsection \<open>Every step keeps the invariant\<close>

lemmas hs_defs = hs_pre_def hs_end_ok_def hs_sideA_def hs_sideB_def inflight_def

lemma dg_split_Nil [simp]: "dg_split [] = Need"
  by (simp add: dg_split_def)

text \<open>A handler that is called when its state is final does nothing.\<close>

lemma change_unhooked:
  "hs_end_ok t me p \<Longrightarrow> \<not> ap_hooked p \<Longrightarrow> ap_onChannelChange E p = Done p"
  by (auto simp: hs_end_ok_def ap_onChannelChange_def)

lemma hs_pre_partial:
  assumes "dr_pending r = dr_pending (ap_reader p) @ ln_in (ap_channel p)" and "ln_in c = []" and "dr_ok r"
    and "dg_split (dr_pending (ap_reader p) @ ln_in (ap_channel p)) = Need"
    and "ln_out c = ln_out (ap_channel p)" and "ln_trusted c = ln_trusted (ap_channel p)"
  shows "hs_pre E H ph (p, q) \<Longrightarrow> hs_pre E H ph (p\<lparr>ap_reader := r, ap_channel := c\<rparr>, q)"
    and "hs_pre E H ph (q, p) \<Longrightarrow> hs_pre E H ph (q, p\<lparr>ap_reader := r, ap_channel := c\<rparr>)"
  using assms by (cases ph; simp add: hs_defs)+

lemma change_result:
  "r = Done p' \<Longrightarrow> Q p' ph' \<Longrightarrow> R p' ph' \<Longrightarrow> \<exists>p' ph'. r = Done p' \<and> Q p' ph' \<and> R p' ph'"
  by blast

text \<open>How an end that has received all of a message moves the handshake on.\<close>

fun hs_nextA :: "hs_phase \<Rightarrow> hs_phase" where
  "hs_nextA P_accept = P_final"
| "hs_nextA ph = ph"

fun hs_nextB :: "hs_phase \<Rightarrow> hs_phase" where
  "hs_nextB P_create = P_accept"
| "hs_nextB P_final = P_done"
| "hs_nextB ph = ph"

lemma change_active:
  assumes ok: "hs_ok E H" and pre: "hs_pre E H ph (A, B)"
  shows "\<exists>A' ph'. ap_onChannelChange E A = Done A' \<and> hs_pre E H ph' (A', B) \<and>
     ((ap_hooked A' \<longrightarrow> ln_in (ap_channel A') = []) \<and>
      (ap_hooked A \<and> ln_out (ap_channel B) = [] \<longrightarrow> ph' = hs_nextA ph \<and> ap_state A' \<noteq> TIMEOUT))"
proof (cases "ap_hooked A")
  case True
  then have A: "ap_state A = SENT_CREATE_CHANNEL" "dr_ok (ap_reader A)" "ap_other A = hs_b H"
      "ap_auth A = hs_authA H" "ap_otherCert A = []" "ap_me A = hs_a H"
      "ln_trusted (ap_channel A) = hs_trustA H"
    and ph: "ph = P_create \<or> ph = P_accept" and fl: "inflight A B = hs_toA E H ph"
    using pre by (auto simp: hs_defs split: if_splits)
  let ?s = "dr_pending (ap_reader A) @ ln_in (ap_channel A)"
  have vt: "ae_vt E = link_vt" and len: "length (ae_enc E (hs_m2 E H)) \<le> max_len"
    using ok by (simp_all add: hs_ok_def)
  show ?thesis
  proof (cases "ph = P_accept \<and> ln_out (ap_channel B) = []")
    case True
    then have "dg_split ?s = Full (ae_enc E (hs_m2 E H)) [] []"
      using wire_split [OF len, of ?s "[]"] fl by (simp add: inflight_def)
    from change_complete [OF vt A(2) _ this] A(1) obtain r c where
      c: "ap_onChannelChange E A = ap_dispatch E (ae_dec E (ae_enc E (hs_m2 E H)))
            (A\<lparr>ap_reader := r, ap_channel := c\<rparr>)" "dr_ok r" "dr_pending r = []" "ln_in c = []"
         "ln_out c = ln_out (ap_channel A)" "ln_trusted c = ln_trusted (ap_channel A)" by auto
    obtain fp where A': "ap_onChannelChange E A = Done (ap_onFinish (A\<lparr>ap_reader := r, ap_channel := c,
       ap_otherCertFp := fp, ap_otherCert := hs_certB E H,
       ap_auth := hs_stored E (hs_b H) (hs_certB E H) (hs_keyA H) (hs_authA H),
       ap_channel := c\<lparr>ln_out := ln_out c @ wire E (hs_m3 E H)\<rparr>\<rparr>))"
      using dispatch_accept [OF ok, of "A\<lparr>ap_reader := r, ap_channel := c\<rparr>"] A c by auto
    show ?thesis
      by (rule change_result [where ph' = P_final, OF A'])
        (use pre A c True in \<open>auto simp: hs_defs ap_onFinish_def ap_post_def\<close>)
  next
    case False
    then have need: "dg_split ?s = Need"
      using ph fl wire_split [OF len, of ?s "ln_out (ap_channel B)"] by (auto simp: inflight_def)
    from change_partial [OF vt A(2) _ need] A(1) obtain r c where
      c: "ap_onChannelChange E A = Done (A\<lparr>ap_reader := r, ap_channel := c\<rparr>)" "dr_ok r"
         "dr_pending r = ?s" "ln_in c = []" "ln_out c = ln_out (ap_channel A)"
         "ln_trusted c = ln_trusted (ap_channel A)" by auto
    show ?thesis
      by (rule change_result [where ph' = ph and Q = "\<lambda>A ph. hs_pre E H ph (A, B)", OF c(1)
            hs_pre_partial(1) [OF c(3,4,2) need c(5,6) pre]])
        (use False ph A c(4) in auto)
  qed
next
  case False
  then have "ap_onChannelChange E A = Done A"
    using pre by (auto simp: hs_pre_def intro: change_unhooked)
  with pre False show ?thesis by blast
qed

lemma change_passive:
  assumes ok: "hs_ok E H" and pre: "hs_pre E H ph (A, B)"
  shows "\<exists>B' ph'. ap_onChannelChange E B = Done B' \<and> hs_pre E H ph' (A, B') \<and>
     ((ap_hooked B' \<longrightarrow> ln_in (ap_channel B') = []) \<and>
      (ap_hooked B \<and> ln_out (ap_channel A) = [] \<longrightarrow> ph' = hs_nextB ph \<and> ap_state B' \<noteq> TIMEOUT))"
proof (cases "ap_hooked B")
  case True
  have vt: "ae_vt E = link_vt" using ok by (simp add: hs_ok_def)
  have B: "ap_state B \<notin> {AUTH_ERROR, TIMEOUT, FINISHED}" "dr_ok (ap_reader B)"
    and fl: "inflight B A = hs_toB E H ph" "ap_me B = hs_b H" "ln_trusted (ap_channel B) = hs_trustB H"
    using pre True by (auto simp: hs_defs)
  let ?s = "dr_pending (ap_reader B) @ ln_in (ap_channel B)"
  have len: "length (ae_enc E (hs_m1 E H)) \<le> max_len" "length (ae_enc E (hs_m3 E H)) \<le> max_len"
    using ok by (simp_all add: hs_ok_def)
  have split: "dg_split ?s = (if ln_out (ap_channel A) = [] \<and> ph = P_create then Full (ae_enc E (hs_m1 E H)) [] []
      else if ln_out (ap_channel A) = [] \<and> ph = P_final then Full (ae_enc E (hs_m3 E H)) [] [] else Need)"
    using fl wire_split [OF len(1), of ?s "ln_out (ap_channel A)"] wire_split [OF len(2), of ?s "ln_out (ap_channel A)"]
    by (cases ph) (auto simp: inflight_def)
  consider (create) "ln_out (ap_channel A) = []" "ph = P_create" | (final) "ln_out (ap_channel A) = []" "ph = P_final"
    | (part) "dg_split ?s = Need" using split by (auto split: if_splits)
  then show ?thesis
  proof cases
    case create
    with split change_complete [OF vt B(2,1), of "ae_enc E (hs_m1 E H)" "[]"] obtain r c where
      c: "ap_onChannelChange E B = ap_dispatch E (ae_dec E (ae_enc E (hs_m1 E H)))
            (B\<lparr>ap_reader := r, ap_channel := c\<rparr>)" "dr_ok r" "dr_pending r = []" "ln_in c = []"
         "ln_out c = ln_out (ap_channel B)" "ln_trusted c = ln_trusted (ap_channel B)" by auto
    have B': "ap_onChannelChange E B = Done (B\<lparr>ap_reader := r, ap_channel := c, ap_other := hs_a H,
       ap_otherCertFp := hs_knownFp E H, ap_state := SENT_CREATE_CHANNEL_ACCEPT,
       ap_channel := c\<lparr>ln_out := ln_out c @ wire E (hs_m2 E H)\<rparr>\<rparr>)"
      using dispatch_create [OF ok, of "B\<lparr>ap_reader := r, ap_channel := c\<rparr>"] c create pre True
      by (auto simp: hs_defs)
    show ?thesis
      by (rule change_result [where ph' = P_accept, OF B'])
        (use pre c create True in \<open>auto simp: hs_defs\<close>)
  next
    case final
    with split change_complete [OF vt B(2,1), of "ae_enc E (hs_m3 E H)" "[]"] obtain r c where
      c: "ap_onChannelChange E B = ap_dispatch E (ae_dec E (ae_enc E (hs_m3 E H)))
            (B\<lparr>ap_reader := r, ap_channel := c\<rparr>)" "dr_ok r" "dr_pending r = []" "ln_in c = []"
         "ln_out c = ln_out (ap_channel B)" "ln_trusted c = ln_trusted (ap_channel B)" by auto
    have B': "ap_onChannelChange E B = Done (ap_onFinish (B\<lparr>ap_reader := r, ap_channel := c,
       ap_otherCert := hs_certA E H,
       ap_auth := hs_stored E (hs_a H) (hs_certA E H) (hs_keyB H) (hs_authB H)\<rparr>))"
      using dispatch_final [OF ok, of "B\<lparr>ap_reader := r, ap_channel := c\<rparr>"] c final pre True
      by (auto simp: hs_defs)
    show ?thesis
      by (rule change_result [where ph' = P_done, OF B'])
        (use pre c final True in \<open>auto simp: hs_defs ap_onFinish_def ap_post_def\<close>)
  next
    case part
    then have need: "dg_split ?s = Need" by simp
    from change_partial [OF vt B(2,1) need] obtain r c where
      c: "ap_onChannelChange E B = Done (B\<lparr>ap_reader := r, ap_channel := c\<rparr>)" "dr_ok r"
         "dr_pending r = ?s" "ln_in c = []" "ln_out c = ln_out (ap_channel B)"
         "ln_trusted c = ln_trusted (ap_channel B)" by auto
    show ?thesis
      by (rule change_result [where ph' = ph and Q = "\<lambda>B ph. hs_pre E H ph (A, B)", OF c(1)
            hs_pre_partial(2) [OF c(3,4,2) need c(5,6) pre]])
        (use split need c(4) B in \<open>cases ph; auto split: if_splits\<close>)
  qed
next
  case False
  then have "ap_onChannelChange E B = Done B"
    using pre by (auto simp: hs_pre_def intro: change_unhooked)
  with pre False show ?thesis by blast
qed

lemma receive_passive:
  assumes "hs_ok E H" and "hs_pre E H ph (A, B)" and "ln_out (ap_channel A) = x @ y"
  shows "\<exists>B' ph'. ap_receive E x B = Done B' \<and> hs_pre E H ph' (ap_sent y A, B') \<and> ap_read_up B'"
proof -
  let ?B = "B\<lparr>ap_channel := (ap_channel B)\<lparr>ln_in := ln_in (ap_channel B) @ x\<rparr>\<rparr>"
  have pre: "hs_pre E H ph (ap_sent y A, ?B)"
    using assms(2,3) by (cases ph; simp add: hs_defs ap_sent_def)
  show ?thesis
  proof (cases "ap_hooked B")
    case True
    with change_passive [OF assms(1) pre] show ?thesis
      by (auto simp: ap_receive_def ap_read_up_def)
  next
    case False
    with pre show ?thesis by (auto simp: ap_receive_def ap_read_up_def)
  qed
qed

lemma receive_active:
  assumes "hs_ok E H" and "hs_pre E H ph (A, B)" and "ln_out (ap_channel B) = x @ y"
  shows "\<exists>A' ph'. ap_receive E x A = Done A' \<and> hs_pre E H ph' (A', ap_sent y B) \<and> ap_read_up A'"
proof -
  let ?A = "A\<lparr>ap_channel := (ap_channel A)\<lparr>ln_in := ln_in (ap_channel A) @ x\<rparr>\<rparr>"
  have pre: "hs_pre E H ph (?A, ap_sent y B)"
    using assms(2,3) by (cases ph; simp add: hs_defs ap_sent_def)
  show ?thesis
  proof (cases "ap_hooked A")
    case True
    with change_active [OF assms(1) pre] show ?thesis
      by (auto simp: ap_receive_def ap_read_up_def)
  next
    case False
    with pre show ?thesis by (auto simp: ap_receive_def ap_read_up_def)
  qed
qed

lemma hs_pre_tasks:
  assumes "set ts \<subseteq> set (ap_tasks p)"
  shows "hs_pre E H ph (p, q) \<Longrightarrow> hs_pre E H ph (p\<lparr>ap_tasks := ts\<rparr>, q)"
    and "hs_pre E H ph (q, p) \<Longrightarrow> hs_pre E H ph (q, p\<lparr>ap_tasks := ts\<rparr>)"
proof -
  have "hs_end_ok t me p \<Longrightarrow> hs_end_ok t me (p\<lparr>ap_tasks := ts\<rparr>)" for t me
    using assms by (auto simp: hs_end_ok_def)
  moreover have "hs_sideA E H ph (p\<lparr>ap_tasks := ts\<rparr>) = hs_sideA E H ph p"
    "hs_sideB E H ph (p\<lparr>ap_tasks := ts\<rparr>) = hs_sideB E H ph p"
    "inflight (p\<lparr>ap_tasks := ts\<rparr>) q = inflight p q" "inflight q (p\<lparr>ap_tasks := ts\<rparr>) = inflight q p"
    by (simp_all add: hs_sideA_def hs_sideB_def inflight_def split: hs_phase.split)
  ultimately show "hs_pre E H ph (p, q) \<Longrightarrow> hs_pre E H ph (p\<lparr>ap_tasks := ts\<rparr>, q)"
    and "hs_pre E H ph (q, p) \<Longrightarrow> hs_pre E H ph (q, p\<lparr>ap_tasks := ts\<rparr>)"
    by (simp_all add: hs_pre_def)
qed

lemma hs_pre_no_error:
  "hs_pre E H ph (p, q) \<Longrightarrow> Task_Error e \<notin> set (ap_tasks p) \<and> Task_Error e \<notin> set (ap_tasks q)"
  by (simp add: hs_defs)

lemma task_passive:
  assumes "hs_ok E H" and "hs_pre E H ph (A, B)" and "ap_read_up B"
  shows "\<exists>r B' ph'. ap_runTask E B = Done (r, B') \<and> hs_pre E H ph' (A, B') \<and> ap_read_up B'"
proof (cases "ap_tasks B")
  case (Cons t ts)
  have pre: "hs_pre E H ph (A, B\<lparr>ap_tasks := ts\<rparr>)"
    using Cons assms(2) by (auto intro: hs_pre_tasks)
  show ?thesis
  proof (cases t)
    case Task_ChannelChange
    with change_passive [OF assms(1) pre] Cons show ?thesis
      by (auto simp: ap_runTask_def ap_read_up_def)
  next
    case (Task_Error e)
    with Cons hs_pre_no_error [OF assms(2), of e] show ?thesis by simp
  next
    case (Task_Finished e)
    with Cons pre assms(3) show ?thesis by (auto simp: ap_runTask_def ap_read_up_def)
  qed
qed (use assms in \<open>auto simp: ap_runTask_def\<close>)

lemma task_active:
  assumes "hs_ok E H" and "hs_pre E H ph (A, B)" and "ap_read_up A"
  shows "\<exists>r A' ph'. ap_runTask E A = Done (r, A') \<and> hs_pre E H ph' (A', B) \<and> ap_read_up A'"
proof (cases "ap_tasks A")
  case (Cons t ts)
  have pre: "hs_pre E H ph (A\<lparr>ap_tasks := ts\<rparr>, B)"
    using Cons assms(2) by (auto intro: hs_pre_tasks)
  show ?thesis
  proof (cases t)
    case Task_ChannelChange
    with change_active [OF assms(1) pre] Cons show ?thesis
      by (auto simp: ap_runTask_def ap_read_up_def)
  next
    case (Task_Error e)
    with Cons hs_pre_no_error [OF assms(2), of e] show ?thesis by simp
  next
    case (Task_Finished e)
    with Cons pre assms(3) show ?thesis by (auto simp: ap_runTask_def ap_read_up_def)
  qed
qed (use assms in \<open>auto simp: ap_runTask_def\<close>)

lemma onTimeOut_simps:
  "inflight (ap_onTimeOut p) q = inflight p q" "inflight q (ap_onTimeOut p) = inflight q p"
  "ap_hooked (ap_onTimeOut p) \<Longrightarrow> ap_hooked p"
  by (auto simp: inflight_def ap_onTimeOut_def ap_post_def split: if_splits)

lemma timeout_keeps:
  assumes "hs_pre E H ph (A, B)"
  shows "hs_pre E H ph (ap_onTimeOut A, B)" and "hs_pre E H ph (A, ap_onTimeOut B)"
proof -
  have ok: "hs_end_ok t me p \<Longrightarrow> hs_end_ok t me (ap_onTimeOut p)" for t me and p :: "(link, 'a) auth_proto"
    by (auto simp: hs_end_ok_def ap_onTimeOut_def ap_post_def)
  have "hs_sideA E H ph A \<Longrightarrow> hs_sideA E H ph (ap_onTimeOut A)"
    by (auto simp: hs_sideA_def ap_onTimeOut_def ap_post_def split: if_splits)
  moreover have "hs_sideB E H ph B \<Longrightarrow> hs_sideB E H ph (ap_onTimeOut B)"
    by (cases ph) (auto simp: hs_sideB_def ap_onTimeOut_def ap_post_def)
  ultimately show "hs_pre E H ph (ap_onTimeOut A, B)" "hs_pre E H ph (A, ap_onTimeOut B)"
    using assms onTimeOut_simps(3) [of A] onTimeOut_simps(3) [of B] ok [of _ _ A] ok [of _ _ B]
    by (simp_all add: hs_pre_def onTimeOut_simps(1,2))
qed

lemma read_up_timeout: "ap_read_up p \<Longrightarrow> ap_read_up (ap_onTimeOut p)"
  by (simp add: ap_read_up_def ap_onTimeOut_def ap_post_def)

lemma read_up_sent [simp]: "ap_read_up (ap_sent y p) = ap_read_up p"
  by (simp add: ap_read_up_def ap_sent_def)

lemma hs_inv_step:
  assumes ok: "hs_ok E H" and inv: "hs_inv E H S" and step: "pair_step E S S'"
  shows "hs_inv E H S'"
proof -
  obtain A B ph where S: "S = (A, B)" and pre: "hs_pre E H ph (A, B)" and up: "ap_read_up A" "ap_read_up B"
    using inv by (cases S) (auto simp: hs_inv_def)
  from step show ?thesis
  proof (cases rule: pair_step.cases)
    case (to_passive A' x y B0 B')
    with S receive_passive [OF ok pre] up show ?thesis by (fastforce simp: hs_inv_def)
  next
    case (to_active B0 x y A0 A')
    with S receive_active [OF ok pre] up show ?thesis by (fastforce simp: hs_inv_def)
  next
    case (task_active A0 r A' B0)
    with S Sf_AuthPair.task_active [OF ok pre up(1)] up show ?thesis by (fastforce simp: hs_inv_def)
  next
    case (task_passive B0 r B' A0)
    with S Sf_AuthPair.task_passive [OF ok pre up(2)] up show ?thesis by (fastforce simp: hs_inv_def)
  next
    case timer_active
    with S timeout_keeps [OF pre] up show ?thesis by (auto simp: hs_inv_def read_up_timeout)
  next
    case timer_passive
    with S timeout_keeps [OF pre] up show ?thesis by (auto simp: hs_inv_def read_up_timeout)
  qed
qed

lemma hs_start_pre:
  assumes "hs_ok E H"
  shows "hs_pre E H P_create (hs_start E st H)"
    and "ap_read_up (fst (hs_start E st H))" and "ap_read_up (snd (hs_start E st H))"
    and "ap_hooked (fst (hs_start E st H))" and "ap_hooked (snd (hs_start E st H))"
proof -
  have m1: "CreateChannel \<lparr>cc_from = hs_a H, cc_to = hs_b H, cc_version = ae_version E,
      cc_toCertFp = hs_knownFp E H\<rparr> = hs_m1 E H" by (simp add: hs_m1_def)
  let ?p = "hs_end st (hs_a H) (hs_authA H) (hs_trustA H)"
  have p: "ap_me ?p = hs_a H" "ap_auth ?p = hs_authA H" "ln_trusted (ap_channel ?p) = hs_trustA H"
    "ln_out (ap_channel ?p) = []" "ln_in (ap_channel ?p) = []"
    by (simp_all add: hs_end_def ap_new_def ap_init_def)
  have vt: "ae_vt E = link_vt" and len: "length (ae_enc E (hs_m1 E H)) \<le> max_len"
    using assms by (simp_all add: hs_ok_def)
  have key: "keyExchange E ?p = hs_keyA H"
    by (simp add: keyExchange_def hs_keyA_def p vt)
  have fp: "(if hs_keyA H then ap_knownFp E (hs_b H) ?p else Done []) = Done (hs_knownFp E H)"
    using p(2) by (auto simp: hs_knownFp_def ap_knownFp_def hs_keyA_def)
  have A: "ap_connect E (hs_b H) (hs_msA H) ?p =
      Done (?p\<lparr>ap_timer := Some (regTimeOutMs (ae_now E) (hs_msA H)),
        ap_other := hs_b H, ap_hooked := True, ap_state := SENT_CREATE_CHANNEL, ap_wasActive := True,
        ap_channel := \<lparr>ln_in = [], ln_out = wire E (hs_m1 E H), ln_trusted = hs_trustA H\<rparr>\<rparr>)"
    unfolding ap_connect_def ap_connect_with_def Let_def p(1,2) key fp outcome_bind.simps m1 send_link [OF vt len]
    using p by simp
  show "hs_pre E H P_create (hs_start E st H)"
    unfolding hs_start_def Let_def A outcome_the_def outcome.case
    by (simp add: hs_defs ap_sent_def hs_end_def ap_new_def ap_init_def ap_passive_def ap_post_def)
  show "ap_read_up (fst (hs_start E st H))" "ap_read_up (snd (hs_start E st H))"
    "ap_hooked (fst (hs_start E st H))" "ap_hooked (snd (hs_start E st H))"
    unfolding hs_start_def Let_def A outcome_the_def outcome.case
    by (simp_all add: ap_read_up_def ap_sent_def ap_passive_def ap_post_def)
qed

lemma hs_inv_start: "hs_ok E H \<Longrightarrow> hs_inv E H (hs_start E st H)"
  using hs_start_pre [of E H st] unfolding hs_inv_def by blast

lemma hs_inv_reach:
  "pair_reach E (hs_start E st H) S \<Longrightarrow> hs_ok E H \<Longrightarrow> hs_inv E H S"
  by (induction rule: pair_reach.induct) (auto intro: hs_inv_start hs_inv_step)

subsection \<open>Agreement\<close>

lemma map_of_sm_insert_same: "map_of (sm_insert k v m) k = Some v"
  by (simp add: map_of_sm_insert)

definition x509_ok :: "'k x509 \<Rightarrow> bool" where
  "x509_ok X \<longleftrightarrow> (\<forall>k. x_import X (x_export X k) = Some k \<and> x_export X k \<noteq> [] \<and> x_fingerprint X k \<noteq> [])"

lemma stored_passive:
  assumes "hs_ok E H" and "x509_ok (ae_x509 E)" and "hs_keyA H" and "hs_keyB H"
  shows "\<exists>a k. hs_stored E (hs_a H) (hs_certA E H) (hs_keyB H) (hs_authB H) = Some a \<and>
     au_certificate (the (hs_authA H)) = Some k \<and> ct_cert (au_get (hs_a H) a) = Some k"
proof -
  obtain aA aB where a: "hs_authA H = Some aA" "hs_authB H = Some aB"
    using assms(3,4) by (auto simp: hs_keyA_def hs_keyB_def)
  obtain k where k: "au_certificate aA = Some k" "au_fingerprint aA = x_fingerprint (ae_x509 E) k"
    using assms(1) a by (auto simp: hs_ok_def au_own_def)
  have "hs_certA E H = x_export (ae_x509 E) k"
    using assms(2,3) a k by (auto simp: hs_certA_def x509_ok_def)
  then show ?thesis
    using assms a k by (simp add: hs_stored_def x509_ok_def au_update_def au_get_def map_of_sm_insert_same)
qed

lemma stored_active:
  assumes "hs_ok E H" and "x509_ok (ae_x509 E)" and "hs_keyA H" and "hs_keyB H"
  shows "\<exists>a. hs_stored E (hs_b H) (hs_certB E H) (hs_keyA H) (hs_authA H) = Some a \<and>
     ci_fingerprint (ae_x509 E) (au_get (hs_b H) a) = au_fingerprint (the (hs_authB H))"
proof -
  obtain aA aB where a: "hs_authA H = Some aA" "hs_authB H = Some aB"
    using assms(3,4) by (auto simp: hs_keyA_def hs_keyB_def)
  obtain k where k: "au_certificate aB = Some k" "au_fingerprint aB = x_fingerprint (ae_x509 E) k"
    using assms(1) a by (auto simp: hs_ok_def au_own_def)
  show ?thesis
  proof (cases "hs_knownFp E H = au_fingerprint aB")
    case True
    then show ?thesis
      using assms(3,4) a by (simp add: hs_stored_def hs_certB_def hs_knownFp_def)
  next
    case False
    then have "hs_certB E H = x_export (ae_x509 E) k"
      using assms(4) a k by (simp add: hs_certB_def)
    then show ?thesis
      using assms a k by (simp add: hs_stored_def x509_ok_def au_update_def au_get_def
          map_of_sm_insert_same ci_fingerprint_def)
  qed
qed

text \<open>
  C18. However deliveries, posted calls and timeouts interleave, the passive end finishes only after
  the active one, an end that is finished takes the other for who it is, and if both exchange
  keys the passive end has then stored the active one's certificate and the active end knows the
  passive one's fingerprint.
\<close>

theorem auth_agreement:
  assumes "hs_ok E H" and "pair_reach E (hs_start E st H) (A, B)"
  shows "ap_state A \<noteq> AUTH_ERROR \<and> ap_state B \<noteq> AUTH_ERROR \<and>
    (ap_state B = FINISHED \<longrightarrow> ap_state A = FINISHED) \<and>
    (ap_state A = FINISHED \<longrightarrow> ap_other A = hs_b H \<and> ap_other B = hs_a H \<and>
       ap_state B \<in> {SENT_CREATE_CHANNEL_ACCEPT, FINISHED, TIMEOUT}) \<and>
    (hs_keyA H \<and> hs_keyB H \<and> x509_ok (ae_x509 E) \<longrightarrow>
      (ap_state A = FINISHED \<longrightarrow> (\<exists>a. ap_auth A = Some a \<and>
         ci_fingerprint (ae_x509 E) (au_get (hs_b H) a) = au_fingerprint (the (hs_authB H)))) \<and>
      (ap_state B = FINISHED \<longrightarrow> (\<exists>b k. ap_auth B = Some b \<and>
         au_certificate (the (hs_authA H)) = Some k \<and> ct_cert (au_get (hs_a H) b) = Some k)))"
proof -
  obtain ph where pre: "hs_pre E H ph (A, B)"
    using hs_inv_reach [OF assms(2,1)] by (auto simp: hs_inv_def)
  then show ?thesis
    using stored_active [OF assms(1)] stored_passive [OF assms(1)]
    by (cases ph) (auto simp: hs_pre_def hs_sideA_def hs_sideB_def)
qed

text \<open>
  C29. When everything written was delivered and no posted call is open, both ends are finished,
  unless one of them has timed out.
\<close>

theorem auth_completes:
  assumes "hs_ok E H" and "pair_reach E (hs_start E st H) (A, B)"
    and "ln_out (ap_channel A) = []" and "ln_out (ap_channel B) = []"
    and "ap_tasks A = []" and "ap_tasks B = []"
  shows "(ap_state A = FINISHED \<and> ap_state B = FINISHED) \<or> ap_state A = TIMEOUT \<or> ap_state B = TIMEOUT"
proof -
  obtain ph where pre: "hs_pre E H ph (A, B)" and up: "ap_read_up A" "ap_read_up B"
    using hs_inv_reach [OF assms(2,1)] by (auto simp: hs_inv_def)
  have len: "length (ae_enc E (hs_m1 E H)) \<le> max_len" "length (ae_enc E (hs_m2 E H)) \<le> max_len"
    "length (ae_enc E (hs_m3 E H)) \<le> max_len" using assms(1) by (simp_all add: hs_ok_def)
  have full: "dg_split (wire E m) \<noteq> Need" if "length (ae_enc E m) \<le> max_len" for m
    using wire_split [OF that, of "wire E m" "[]"] by simp
  have idle: "dg_split (inflight p q) = Need"
    if "ap_hooked p" "ap_read_up p" "ap_tasks p = []" "ln_out (ap_channel q) = []" "hs_end_ok t me p" for p q t me
    using that by (simp add: inflight_def ap_read_up_def hs_end_ok_def)
  have A: "ap_hooked A \<Longrightarrow> dg_split (hs_toA E H ph) = Need"
    using idle [OF _ up(1) assms(5,4)] pre by (auto simp: hs_pre_def)
  have B: "ap_hooked B \<Longrightarrow> dg_split (hs_toB E H ph) = Need"
    using idle [OF _ up(2) assms(6,3)] pre by (auto simp: hs_pre_def)
  have st: "ap_hooked A \<longleftrightarrow> ap_state A \<notin> {FINISHED, TIMEOUT, AUTH_ERROR}"
    "ap_hooked B \<longleftrightarrow> ap_state B \<notin> {FINISHED, TIMEOUT, AUTH_ERROR}"
    "hs_sideA E H ph A" "hs_sideB E H ph B"
    using pre by (simp_all add: hs_pre_def hs_end_ok_def)
  show ?thesis
  proof (cases ph)
    case P_create
    with B st full [OF len(1)] show ?thesis by (auto simp: hs_sideB_def)
  next
    case P_accept
    with A st full [OF len(2)] show ?thesis by (auto simp: hs_sideA_def)
  next
    case P_final
    with B st full [OF len(3)] show ?thesis by (auto simp: hs_sideB_def)
  next
    case P_done
    with st show ?thesis by (auto simp: hs_sideA_def hs_sideB_def)
  qed
qed

subsection \<open>A handshake that runs\<close>

definition demo_x509 :: "string x509" where
  "demo_x509 = \<lparr>x_fingerprint = \<lambda>k. CHR ''F'' # k, x_export = \<lambda>k. CHR ''C'' # k,
     x_import = \<lambda>s. if s \<noteq> [] \<and> hd s = CHR ''C'' then Some (tl s) else None,
     x_selfsigned = \<lambda>s. s, x_commonName = \<lambda>k. k\<rparr>"

fun demo_cut :: "string \<Rightarrow> bytes \<Rightarrow> string list" where
  "demo_cut acc [] = []"
| "demo_cut acc (c # r) = (if c = CHR 0x00 then acc # demo_cut [] r else demo_cut (acc @ [c]) r)"

fun demo_enc :: "auth_cmd \<Rightarrow> bytes" where
  "demo_enc (CreateChannel c) =
     CHR ''1'' # concat (map (\<lambda>s. s @ [CHR 0x00]) [cc_from c, cc_to c, cc_version c, cc_toCertFp c])"
| "demo_enc (CreateChannelAccept c) =
     CHR ''2'' # concat (map (\<lambda>s. s @ [CHR 0x00]) [ca_from c, ca_to c, ca_version c, ca_cert c, ca_toCertFp c])"
| "demo_enc (ChannelAccept c) =
     CHR ''3'' # concat (map (\<lambda>s. s @ [CHR 0x00]) [ac_from c, ac_to c, ac_cert c])"
| "demo_enc (ChannelFail c) = [CHR ''4'']"

definition demo_dec :: "bytes \<Rightarrow> deserialization" where
  "demo_dec b = auth_fields (let f = demo_cut [] (tl b) in
     if hd b = CHR ''1'' then CreateChannel \<lparr>cc_from = f ! 0, cc_to = f ! 1, cc_version = f ! 2, cc_toCertFp = f ! 3\<rparr>
     else if hd b = CHR ''2'' then CreateChannelAccept \<lparr>ca_from = f ! 0, ca_to = f ! 1, ca_version = f ! 2,
       ca_cert = f ! 3, ca_toCertFp = f ! 4\<rparr>
     else if hd b = CHR ''3'' then ChannelAccept \<lparr>ac_from = f ! 0, ac_to = f ! 1, ac_cert = f ! 2\<rparr>
     else ChannelFail \<lparr>cf_error = Other, cf_msg = []\<rparr>)"

definition demo_auth_env :: "(link, string) auth_env" where
  "demo_auth_env = \<lparr>ae_now = 0, ae_vt = link_vt, ae_x509 = demo_x509, ae_enc = demo_enc,
     ae_dec = demo_dec, ae_version = ''v''\<rparr>"

definition demo_handshake :: "string handshake" where
  "demo_handshake = \<lparr>hs_a = ''a'', hs_b = ''b'', hs_expect = [],
     hs_authA = Some (au_setIdentity demo_x509 ''a'' au_new),
     hs_authB = Some (au_setIdentity demo_x509 ''b'' au_new),
     hs_trustA = True, hs_trustB = True, hs_early = 3, hs_msA = 1000, hs_msB = 1000\<rparr>"

lemma demo_ok: "hs_ok demo_auth_env demo_handshake" "x509_ok demo_x509"
  "hs_keyA demo_handshake" "hs_keyB demo_handshake"
  by (simp_all add: hs_ok_def x509_ok_def hs_keyA_def hs_keyB_def demo_auth_env_def demo_handshake_def
      demo_x509_def au_own_def hs_messages au_setIdentity_def au_new_def Let_def hs_knownFp_def
      hs_certA_def hs_certB_def demo_dec_def ci_fingerprint_def au_get_def)

lemma run_passive:
  assumes "hs_ok E H" and "hs_pre E H ph (A, B)" and "ap_hooked B"
  shows "\<exists>B'. ap_receive E (ln_out (ap_channel A)) B = Done B' \<and>
     hs_pre E H (hs_nextB ph) (ap_sent [] A, B') \<and> ap_state B' \<noteq> TIMEOUT"
proof -
  let ?B = "B\<lparr>ap_channel := (ap_channel B)\<lparr>ln_in := ln_in (ap_channel B) @ ln_out (ap_channel A)\<rparr>\<rparr>"
  have pre: "hs_pre E H ph (ap_sent [] A, ?B)"
    using assms(2) by (cases ph; simp add: hs_defs ap_sent_def)
  have "ln_out (ap_channel (ap_sent [] A)) = []" by (simp add: ap_sent_def)
  with change_passive [OF assms(1) pre] assms(3) show ?thesis
    by (auto simp: ap_receive_def)
qed

lemma run_active:
  assumes "hs_ok E H" and "hs_pre E H ph (A, B)" and "ap_hooked A"
  shows "\<exists>A'. ap_receive E (ln_out (ap_channel B)) A = Done A' \<and>
     hs_pre E H (hs_nextA ph) (A', ap_sent [] B) \<and> ap_state A' \<noteq> TIMEOUT"
proof -
  let ?A = "A\<lparr>ap_channel := (ap_channel A)\<lparr>ln_in := ln_in (ap_channel A) @ ln_out (ap_channel B)\<rparr>\<rparr>"
  have pre: "hs_pre E H ph (?A, ap_sent [] B)"
    using assms(2) by (cases ph; simp add: hs_defs ap_sent_def)
  have "ln_out (ap_channel (ap_sent [] B)) = []" by (simp add: ap_sent_def)
  with change_active [OF assms(1) pre] assms(3) show ?thesis
    by (auto simp: ap_receive_def)
qed

lemma sent_simps [simp]:
  "ap_hooked (ap_sent y p) = ap_hooked p" "ap_state (ap_sent y p) = ap_state p"
  "ap_tasks (ap_sent y p) = ap_tasks p" "ln_out (ap_channel (ap_sent y p)) = y"
  by (simp_all add: ap_sent_def)

text \<open>In the end the posted calls only report to the owners.\<close>

lemma run_tasks:
  assumes "pair_reach E S0 (A, B)" and "hs_pre E H P_done (A, B)"
  shows "pair_reach E S0 (A\<lparr>ap_tasks := []\<rparr>, B\<lparr>ap_tasks := []\<rparr>)"
proof -
  have un: "hs_end_ok (hs_trustA H) (hs_a H) A" "hs_end_ok (hs_trustB H) (hs_b H) B"
    "ap_state A = FINISHED" "ap_state B = FINISHED"
    using assms(2) by (simp_all add: hs_pre_def hs_sideA_def hs_sideB_def)
  have run: "\<exists>r. ap_runTask E (p\<lparr>ap_tasks := t # ts\<rparr>) = Done (r, p\<lparr>ap_tasks := ts\<rparr>)"
    if "ap_state p = FINISHED" "t \<noteq> Task_Error e" "\<forall>e. t \<noteq> Task_Error e" for p :: "(link, 'a) auth_proto" and t ts e
    using that by (cases t) (auto simp: ap_runTask_def ap_onChannelChange_def)
  have A: "pair_reach E S0 (A\<lparr>ap_tasks := []\<rparr>, B)"
    if "pair_reach E S0 (A\<lparr>ap_tasks := ts\<rparr>, B)" "\<forall>e. Task_Error e \<notin> set ts" for ts
    using that
  proof (induction ts)
    case (Cons t ts)
    from run [OF un(3), of t Other ts] Cons.prems(2)
    obtain r where "ap_runTask E (A\<lparr>ap_tasks := t # ts\<rparr>) = Done (r, A\<lparr>ap_tasks := ts\<rparr>)" by auto
    then have "pair_step E (A\<lparr>ap_tasks := t # ts\<rparr>, B) (A\<lparr>ap_tasks := ts\<rparr>, B)"
      by (intro pair_step.task_active [where r = r]) simp_all
    with Cons show ?case by (auto intro: pair_reach.step)
  qed simp
  have B: "pair_reach E S0 (A', B\<lparr>ap_tasks := []\<rparr>)"
    if "pair_reach E S0 (A', B\<lparr>ap_tasks := ts\<rparr>)" "\<forall>e. Task_Error e \<notin> set ts" for ts A'
    using that
  proof (induction ts)
    case (Cons t ts)
    from run [OF un(4), of t Other ts] Cons.prems(2)
    obtain r where "ap_runTask E (B\<lparr>ap_tasks := t # ts\<rparr>) = Done (r, B\<lparr>ap_tasks := ts\<rparr>)" by auto
    then have "pair_step E (A', B\<lparr>ap_tasks := t # ts\<rparr>) (A', B\<lparr>ap_tasks := ts\<rparr>)"
      by (intro pair_step.task_passive [where r = r]) simp_all
    with Cons show ?case by (auto intro: pair_reach.step)
  qed simp
  show ?thesis
    using A [of "ap_tasks A"] B [of _ "ap_tasks B"] assms(1) un(1,2) by (simp add: hs_end_ok_def)
qed

lemma handshake_runs:
  assumes "hs_ok E H"
  shows "\<exists>A B. pair_reach E (hs_start E st H) (A, B) \<and> ap_state A = FINISHED \<and> ap_state B = FINISHED \<and>
     ln_out (ap_channel A) = [] \<and> ln_out (ap_channel B) = [] \<and> ap_tasks A = [] \<and> ap_tasks B = []"
proof -
  obtain A0 B0 where S0: "hs_start E st H = (A0, B0)" by fastforce
  have pre0: "hs_pre E H P_create (A0, B0)" and h0: "ap_hooked A0" "ap_hooked B0"
    using hs_start_pre [OF assms, of st] by (simp_all add: S0)
  obtain B1 where B1: "ap_receive E (ln_out (ap_channel A0)) B0 = Done B1"
    and pre1: "hs_pre E H P_accept (ap_sent [] A0, B1)" and st1: "ap_state B1 \<noteq> TIMEOUT"
    using run_passive [OF assms pre0 h0(2)] by auto
  obtain A2 where A2: "ap_receive E (ln_out (ap_channel B1)) (ap_sent [] A0) = Done A2"
    and pre2: "hs_pre E H P_final (A2, ap_sent [] B1)"
    using run_active [OF assms pre1] h0 by auto
  have "ap_hooked (ap_sent [] B1)"
    using pre2 st1 by (auto simp: hs_pre_def hs_end_ok_def hs_sideB_def)
  then obtain B3 where B3: "ap_receive E (ln_out (ap_channel A2)) (ap_sent [] B1) = Done B3"
    and pre3: "hs_pre E H P_done (ap_sent [] A2, B3)"
    using run_passive [OF assms pre2] by auto
  have "pair_reach E (hs_start E st H) (ap_sent [] A0, B1)"
    using pair_step.to_passive [OF _ B1, of A0 "[]"] S0 by (auto intro: pair_reach.intros)
  moreover have "pair_step E (ap_sent [] A0, B1) (A2, ap_sent [] B1)"
    using pair_step.to_active [OF _ A2] by simp
  moreover have "pair_step E (A2, ap_sent [] B1) (ap_sent [] A2, B3)"
    using pair_step.to_passive [OF _ B3] by simp
  ultimately have reach3: "pair_reach E (hs_start E st H) (ap_sent [] A2, B3)"
    by (blast intro: pair_reach.step)
  have fin: "ap_state A2 = FINISHED" "ap_state B3 = FINISHED" "\<not> ap_hooked A2" "\<not> ap_hooked B3"
    using pre3 by (simp_all add: hs_pre_def hs_sideA_def hs_sideB_def hs_end_ok_def)
  define A4 where "A4 = (ap_sent [] A2)\<lparr>ap_channel := (ap_channel (ap_sent [] A2))
     \<lparr>ln_in := ln_in (ap_channel A2) @ ln_out (ap_channel B3)\<rparr>\<rparr>"
  have A4: "ap_receive E (ln_out (ap_channel B3)) (ap_sent [] A2) = Done A4" "ap_state A4 = FINISHED"
    "ln_out (ap_channel A4) = []"
    using fin by (simp_all add: A4_def ap_receive_def ap_sent_def)
  have "hs_pre E H P_done (A4, ap_sent [] B3)"
    using pre3 fin by (simp add: A4_def hs_pre_def hs_end_ok_def hs_sideA_def hs_sideB_def ap_sent_def)
  moreover have "pair_reach E (hs_start E st H) (A4, ap_sent [] B3)"
    using pair_step.to_active [where y = "[]", OF _ A4(1)] reach3 by (auto intro: pair_reach.step)
  ultimately have "pair_reach E (hs_start E st H) (A4\<lparr>ap_tasks := []\<rparr>, (ap_sent [] B3)\<lparr>ap_tasks := []\<rparr>)"
    by (blast intro: run_tasks)
  then show ?thesis
    using fin A4 by (intro exI [of _ "A4\<lparr>ap_tasks := []\<rparr>"] exI [of _ "(ap_sent [] B3)\<lparr>ap_tasks := []\<rparr>"])
      (simp add: ap_sent_def)
qed

text \<open>The theorems above on the handshake of two hosts with fresh identities.\<close>

lemma auth_agreement_witness:
  "\<exists>A B. pair_reach demo_auth_env (hs_start demo_auth_env TIMEOUT demo_handshake) (A, B) \<and>
     ap_state B = FINISHED \<and> ap_other A = ''b'' \<and> ap_other B = ''a'' \<and>
     (\<exists>b. ap_auth B = Some b \<and> ct_cert (au_get ''a'' b) = Some ''a'')"
proof -
  obtain A B where r: "pair_reach demo_auth_env (hs_start demo_auth_env TIMEOUT demo_handshake) (A, B)"
    and fin: "ap_state B = FINISHED" using handshake_runs [OF demo_ok(1)] by blast
  have "hs_a demo_handshake = ''a''" "hs_b demo_handshake = ''b''" "ae_x509 demo_auth_env = demo_x509"
    "au_certificate (the (hs_authA demo_handshake)) = Some ''a''"
    by (simp_all add: demo_handshake_def demo_auth_env_def au_setIdentity_def au_new_def Let_def demo_x509_def)
  with auth_agreement [OF demo_ok(1) r] fin demo_ok(2-4) r show ?thesis by auto
qed

lemma auth_completes_witness:
  "\<exists>A B. pair_reach demo_auth_env (hs_start demo_auth_env TIMEOUT demo_handshake) (A, B) \<and>
     ln_out (ap_channel A) = [] \<and> ln_out (ap_channel B) = [] \<and> ap_tasks A = [] \<and> ap_tasks B = [] \<and>
     ap_state A \<noteq> TIMEOUT \<and> ap_state B \<noteq> TIMEOUT \<and> ap_state A = FINISHED"
proof -
  obtain A B where r: "pair_reach demo_auth_env (hs_start demo_auth_env TIMEOUT demo_handshake) (A, B)"
    "ap_state A = FINISHED" "ap_state B = FINISHED" "ln_out (ap_channel A) = []" "ln_out (ap_channel B) = []"
    "ap_tasks A = []" "ap_tasks B = []" using handshake_runs [OF demo_ok(1)] by blast
  then have "ap_state A \<noteq> TIMEOUT" "ap_state B \<noteq> TIMEOUT" by simp_all
  moreover from this auth_completes [OF demo_ok(1) r(1,4-7)] have "ap_state A = FINISHED" by blast
  ultimately show ?thesis using r(1,4-7) by blast
qed

end
