(* ===== verification/Sf_XML.thy ===== *)
theory Sf_XML
  imports Sf_Prelude
begin

text \<open>
  XML chunks (\<open>libschnee/schnee/tools/XMLChunk.h\<close>, \<open>XMLChunk.cpp\<close>): the tree the XMPP code
  works on, its construction from a parsed document, entities, and the scanners that find out
  how much of a stream makes a complete tag or element.

  The parser itself is the third-party rapidxml: a parameter from a C string to its node tree,
  \<open>None\<close> for a parse error.
\<close>

subsection \<open>Chunks\<close>

datatype xml_chunk =
  XMLChunk (xc_name: string) (xc_ns: string) (xc_text: string)
    (xc_attributes: "(string, string) smap") (xc_error: bool) (xc_children: "xml_chunk list")

definition xc_new :: xml_chunk where
  "xc_new = XMLChunk [] [] [] [] False []"

definition errChunk :: xml_chunk where
  "errChunk = XMLChunk [] [] [] [] True []"

text \<open>The result and the out parameter \<open>wasSet\<close>.\<close>

definition getAttribute :: "string \<Rightarrow> xml_chunk \<Rightarrow> string \<times> bool" where
  "getAttribute name c =
     (case map_of (xc_attributes c) name of None \<Rightarrow> ([], False) | Some v \<Rightarrow> (v, True))"

definition hasChildWithName :: "string \<Rightarrow> xml_chunk \<Rightarrow> bool" where
  "hasChildWithName name c \<longleftrightarrow> list_ex (\<lambda>ch. xc_name ch = name) (xc_children c)"

definition getHasChild :: "string \<Rightarrow> xml_chunk \<Rightarrow> xml_chunk option" where
  "getHasChild name c = find (\<lambda>ch. xc_name ch = name) (xc_children c)"

definition getChild :: "string \<Rightarrow> xml_chunk \<Rightarrow> xml_chunk" where
  "getChild name c =
     (if xc_error c then errChunk
      else case getHasChild name c of None \<Rightarrow> errChunk | Some ch \<Rightarrow> ch)"

definition getChildren :: "string \<Rightarrow> xml_chunk \<Rightarrow> xml_chunk list" where
  "getChildren name c = filter (\<lambda>ch. xc_name ch = name) (xc_children c)"

definition getChildText :: "string \<Rightarrow> xml_chunk \<Rightarrow> string \<times> bool" where
  "getChildText name c =
     (case getHasChild name c of None \<Rightarrow> ([], False) | Some ch \<Rightarrow> (xc_text ch, True))"

subsection \<open>Conversion of a parsed tree\<close>

datatype rx_type =
    RX_document | RX_element | RX_data | RX_cdata | RX_comment | RX_declaration | RX_doctype | RX_pi

datatype rx_node =
  RX (rx_type: rx_type) (rx_name: string) (rx_value: string)
    (rx_attributes: "(string \<times> string) list") (rx_children: "rx_node list")

definition sm_insert_new :: "string \<Rightarrow> string \<Rightarrow> (string, string) smap \<Rightarrow> (string, string) smap" where
  "sm_insert_new k v m = (if map_of m k = None then sm_insert k v m else m)"

fun convertAttributes :: "(string \<times> string) list \<Rightarrow> xml_chunk \<Rightarrow> xml_chunk" where
  "convertAttributes [] t = t"
| "convertAttributes ((n, v) # r) (XMLChunk name ns txt attrs err chs) =
     convertAttributes r
       (if n = ''xmlns'' then XMLChunk name v txt attrs err chs
        else XMLChunk name ns txt (sm_insert_new n v attrs) err chs)"

fun xc_addChild :: "xml_chunk \<Rightarrow> xml_chunk \<Rightarrow> xml_chunk" where
  "xc_addChild ch (XMLChunk name ns txt attrs err chs) = XMLChunk name ns txt attrs err (chs @ [ch])"

fun xc_addText :: "string \<Rightarrow> xml_chunk \<Rightarrow> xml_chunk" where
  "xc_addText s (XMLChunk name ns txt attrs err chs) = XMLChunk name ns (txt @ s) attrs err chs"

fun convertTree :: "rx_node \<Rightarrow> xml_chunk outcome" and
    convertNodes :: "rx_node list \<Rightarrow> xml_chunk \<Rightarrow> xml_chunk outcome" where
  "convertTree (RX ty name val attrs subs) =
     (if ty \<noteq> RX_document \<and> ty \<noteq> RX_element then Done errChunk
      else convertNodes subs (convertAttributes attrs (XMLChunk name [] [] [] False [])))"
| "convertNodes [] target = Done target"
| "convertNodes (n # r) target =
     (case rx_type n of
        RX_document \<Rightarrow>
          (case convertTree n of
             Fault f \<Rightarrow> Fault f
           | Done ch \<Rightarrow> if xc_error ch then Done errChunk else convertNodes r (xc_addChild ch target))
      | RX_element \<Rightarrow>
          (case convertTree n of
             Fault f \<Rightarrow> Fault f
           | Done ch \<Rightarrow> if xc_error ch then Done errChunk else convertNodes r (xc_addChild ch target))
      | RX_data \<Rightarrow> convertNodes r (xc_addText (rx_value n) target)
      | RX_cdata \<Rightarrow> Fault AssertFailed
      | _ \<Rightarrow> convertNodes r target)"

text \<open>The data is copied into a C string before it is parsed.\<close>

definition parseDocument :: "(string \<Rightarrow> rx_node option) \<Rightarrow> bytes \<Rightarrow> xml_chunk outcome" where
  "parseDocument rx data =
     (case rx (cstr data) of None \<Rightarrow> Done errChunk | Some doc \<Rightarrow> convertTree doc)"

subsection \<open>Entities\<close>

text \<open>\<open>boost::algorithm::replace_all\<close>: from left to right, what was put in is not scanned again.\<close>

function replace_all :: "string \<Rightarrow> string \<Rightarrow> string \<Rightarrow> string" where
  "replace_all pat rep [] = []"
| "replace_all pat rep (c # s) =
     (if pat \<noteq> [] \<and> take (length pat) (c # s) = pat
      then rep @ replace_all pat rep (drop (length pat) (c # s))
      else c # replace_all pat rep s)"
  by pat_completeness auto
termination
  by (relation "measure (\<lambda>(pat, rep, s). length s)") (auto simp: Suc_le_eq)

definition encEntities :: "bool \<Rightarrow> string \<Rightarrow> string" where
  "encEntities withQuotes data =
     (let s1 = replace_all ''&'' ''&amp;'' data;
          s2 = replace_all ''>'' ''&gt;'' s1;
          s3 = replace_all ''<'' ''&lt;'' s2;
          s4 = (if withQuotes then replace_all [CHR 0x22] ''&quot;'' s3 else s3)
      in if withQuotes then replace_all [CHR 0x27] ''&apos;'' s4 else s4)"

definition decEntities :: "string \<Rightarrow> string" where
  "decEntities data =
     (let s1 = replace_all ''&amp;'' ''&'' data;
          s2 = replace_all ''&gt;'' ''>'' s1;
          s3 = replace_all ''&lt;'' ''<'' s2;
          s4 = replace_all ''&quot;'' [CHR 0x22] s3
      in replace_all ''&apos;'' [CHR 0x27] s4)"

subsection \<open>Scanners\<close>

definition is_white :: "char \<Rightarrow> bool" where
  "is_white c \<longleftrightarrow> c = CHR '' '' \<or> c = CHR 0x09 \<or> c = CHR 0x0A"

definition beginOfNext :: "bytes \<Rightarrow> nat" where
  "beginOfNext txt = length (takeWhile is_white txt)"

text \<open>The loop variables of \<open>completionDetection\<close>.\<close>

record cd_state =
  inCommentary :: bool
  inText :: bool
  inTextType :: bool
  inTag :: bool
  inSpecialTag :: bool
  cd_depth :: int

definition cd_init :: cd_state where
  "cd_init = \<lparr>inCommentary = False, inText = False, inTextType = False, inTag = False,
              inSpecialTag = False, cd_depth = 0\<rparr>"

definition char_at :: "bytes \<Rightarrow> nat \<Rightarrow> char" where
  "char_at r k = (if k < length r then r ! k else CHR 0x00)"

text \<open>
  One pass of the loop on the character \<open>c\<close> with the three that follow (NUL behind the end): it
  returns an error code, or ends with the position after \<open>skip\<close> more characters, or goes on
  behind those.
\<close>

datatype cd_pass = CD_Error int | CD_Ready nat | CD_Next nat cd_state

definition cd_tag :: "cd_state \<Rightarrow> char \<Rightarrow> char \<Rightarrow> cd_pass" where
  "cd_tag s c d =
     (let skip = (if c = CHR ''/'' \<and> d = CHR ''>'' then 1 else 0);
          s1 = (if c = CHR ''<'' then
                  s\<lparr>cd_depth := (if d = CHR ''/'' then cd_depth s - 1 else cd_depth s + 1), inTag := True\<rparr>
                else if skip = 1 then s\<lparr>cd_depth := cd_depth s - 1, inTag := False\<rparr>
                else if c = CHR ''>'' then s\<lparr>inTag := False\<rparr>
                else s)
      in if c = CHR ''<'' \<and> inTag s then CD_Error (-4)
         else if c = CHR ''>'' \<and> \<not> inTag s then CD_Error (-5)
         else if c = CHR ''/'' \<and> d = CHR ''>'' \<and> \<not> inTag s then CD_Error (-6)
         else if cd_depth s1 < 0 then CD_Error (-7)
         else if cd_depth s1 = 0 \<and> \<not> inTag s1 then CD_Ready skip
         else CD_Next skip s1)"

definition cd_begin :: "cd_state \<Rightarrow> char \<Rightarrow> char \<Rightarrow> char \<Rightarrow> char \<Rightarrow> cd_pass" where
  "cd_begin s c d e f =
     (if c = CHR ''<'' \<and> d = CHR ''!'' \<and> e = CHR ''-'' \<and> f = CHR ''-'' then
        CD_Next 3 (s\<lparr>inCommentary := True\<rparr>)
      else if c = CHR ''<'' \<and> d = CHR ''?'' then CD_Next 1 (s\<lparr>inSpecialTag := True\<rparr>)
      else if c = CHR 0x22 then CD_Next 0 (s\<lparr>inText := True, inTextType := False\<rparr>)
      else if c = CHR 0x27 then CD_Next 0 (s\<lparr>inText := True, inTextType := True\<rparr>)
      else cd_tag s c d)"

definition cd_pass :: "cd_state \<Rightarrow> char \<Rightarrow> char \<Rightarrow> char \<Rightarrow> char \<Rightarrow> cd_pass" where
  "cd_pass s c d e f =
     (if c = CHR 0x00 then CD_Error (-8)
      else if inCommentary s then
        (if c = CHR ''-'' \<and> d = CHR ''-'' \<and> e = CHR ''>'' then CD_Next 2 (s\<lparr>inCommentary := False\<rparr>)
         else CD_Next 0 s)
      else if inSpecialTag s then
        (if c = CHR ''?'' \<and> d = CHR ''>'' then CD_Next 1 (s\<lparr>inSpecialTag := False\<rparr>)
         else CD_Next 0 s)
      else if inText s then
        CD_Next 0
          (if (c = CHR 0x22 \<and> \<not> inTextType s) \<or> (c = CHR 0x27 \<and> inTextType s)
           then s\<lparr>inText := False\<rparr> else s)
      else cd_begin s c d e f)"

function cd_loop :: "nat \<Rightarrow> cd_state \<Rightarrow> bytes \<Rightarrow> int" where
  "cd_loop i s [] = 0"
| "cd_loop i s (c # r) =
     (case cd_pass s c (char_at r 0) (char_at r 1) (char_at r 2) of
        CD_Error code \<Rightarrow> code
      | CD_Ready skip \<Rightarrow> int (i + skip) + 1
      | CD_Next skip s' \<Rightarrow> cd_loop (i + skip + 1) s' (drop skip r))"
  by pat_completeness auto
termination
  by (relation "measure (\<lambda>(i, s, t). length t)") auto

text \<open>\<open>txt[b + 1]\<close> is read before the length is compared.\<close>

definition completionDetection :: "bytes \<Rightarrow> int outcome" where
  "completionDetection txt =
     (let b = beginOfNext txt
      in if b = length txt then Done 0
         else if txt ! b \<noteq> CHR ''<'' then Done (-2)
         else if b + 1 \<ge> length txt then Fault OutOfBounds
         else if txt ! (b + 1) = CHR 0x00 then Done 0
         else Done (cd_loop b cd_init (drop b txt)))"

text \<open>\<open>ft_quote\<close>: whether the scan is inside a quotation, and of which kind.\<close>

definition ft_quote :: "char \<Rightarrow> bool \<times> bool \<Rightarrow> bool \<times> bool" where
  "ft_quote c q =
     (case q of (inT, ty) \<Rightarrow>
        if c = CHR 0x22 then
          (if inT \<and> \<not> ty then (False, ty) else if \<not> inT then (True, False) else (inT, ty))
        else if c = CHR 0x27 then
          (if inT \<and> ty then (False, ty) else if \<not> inT then (True, True) else (inT, ty))
        else (inT, ty))"

fun ft_loop :: "nat \<Rightarrow> bool \<times> bool \<Rightarrow> bytes \<Rightarrow> int" where
  "ft_loop i q [] = 0"
| "ft_loop i q (c # r) =
     (let q1 = ft_quote c q
      in if c = CHR ''>'' \<and> \<not> fst q1 then int i + 1 else ft_loop (i + 1) q1 r)"

definition fullTag :: "bytes \<Rightarrow> int" where
  "fullTag text =
     (let b = beginOfNext text
      in if b = length text then 0
         else if text ! b \<noteq> CHR ''<'' then -1
         else ft_loop b (False, False) (drop b text))"

text \<open>
  The int \<open>fullTag\<close> returns is kept in a \<open>size_t\<close>, so that -1 passes the test for an error;
  as the text does not begin with \<open><\<close> then, the comparison of the beginning fails.  The last
  two characters are taken at \<open>l - 2\<close> from the start of the text, not of the tag.
\<close>

definition xmlBeginning :: "bytes \<Rightarrow> int" where
  "xmlBeginning text =
     (let b = beginOfNext text; e = fullTag text
      in if e = 0 then 0
         else if e < 0 then -2
         else let l = nat e - b
              in if l < 6 then -1
                 else if take 5 (drop b text) \<noteq> ''<?xml'' then -2
                 else if take 2 (drop (l - 2) text) \<noteq> ''?>'' then -3
                 else int l)"

end
