(* ===== verification/Sf_Entities.thy ===== *)
theory Sf_Entities
  imports Sf_XML
begin

text \<open>
  What the entity functions of \<open>XMLChunk.cpp\<close> do: encoding replaces every special character by
  its entity, and decoding takes the entities out again, the ampersand first.
\<close>

fun enc_char :: "bool \<Rightarrow> char \<Rightarrow> string" where
  "enc_char q c =
     (if c = CHR ''&'' then ''&amp;'' else if c = CHR ''>'' then ''&gt;'' else if c = CHR ''<'' then ''&lt;''
      else if q \<and> c = CHR 0x22 then ''&quot;'' else if q \<and> c = CHR 0x27 then ''&apos;'' else [c])"

declare enc_char.simps [simp del]

lemma replace_char:
  "replace_all [p] rep s = concat (map (\<lambda>c. if c = p then rep else [c]) s)"
  by (induction s) auto

lemma replace_char_map:
  "replace_all [p] rep (concat (map f s)) = concat (map (\<lambda>x. replace_all [p] rep (f x)) s)"
  by (induction s) (simp_all add: replace_char)

lemma encEntities_map: "encEntities q s = concat (map (enc_char q) s)"
proof -
  have "replace_all ''&'' ''&amp;'' s = concat (map (\<lambda>c. if c = CHR ''&'' then ''&amp;'' else [c]) s)"
    by (rule replace_char)
  moreover have "(\<lambda>x. replace_all [CHR 0x27] ''&apos;'' (replace_all [CHR 0x22] ''&quot;'' (enc_char False x))) =
      enc_char True"
    "(\<lambda>x. replace_all ''<'' ''&lt;'' (replace_all ''>'' ''&gt;'' (if x = CHR ''&'' then ''&amp;'' else [x]))) = enc_char False"
    by (auto simp: fun_eq_iff replace_char enc_char.simps)
  ultimately show ?thesis
    by (cases q) (simp_all add: encEntities_def Let_def replace_char_map)
qed

text \<open>A text cut into entities and single characters other than the ampersand.\<close>

definition entity :: "string \<Rightarrow> bool" where
  "entity t \<longleftrightarrow> (\<exists>v. t = ''&'' @ v @ '';'' \<and> CHR ''&'' \<notin> set v \<and> CHR '';'' \<notin> set v)"

definition token :: "string \<Rightarrow> bool" where
  "token t \<longleftrightarrow> entity t \<or> (\<exists>c. t = [c] \<and> c \<noteq> CHR ''&'')"

lemma entity_prefix:
  assumes "entity p" and "entity t" and "take (length p) (t @ r) = p"
  shows "t = p"
proof -
  obtain v w where p: "p = ''&'' @ v @ '';''" "CHR '';'' \<notin> set v" and t: "t = ''&'' @ w @ '';''" "CHR '';'' \<notin> set w"
    using assms(1,2) by (auto simp: entity_def)
  from assms(3) have "w @ CHR '';'' # r = v @ CHR '';'' # drop (length p) (t @ r)"
    unfolding p t by (metis append.assoc append_Cons append_Nil append_take_drop_id list.inject)
  then have "takeWhile (\<lambda>c. c \<noteq> CHR '';'') (w @ CHR '';'' # r) = takeWhile (\<lambda>c. c \<noteq> CHR '';'') (v @ CHR '';'' # drop (length p) (t @ r))"
    by simp
  with p(2) t(2) show ?thesis by (simp add: p t takeWhile_not_in)
qed

lemma replace_skip:
  assumes "CHR ''&'' \<notin> set u"
  shows "replace_all (CHR ''&'' # p) rep (u @ r) = u @ replace_all (CHR ''&'' # p) rep r"
  using assms by (induction u) auto

lemma replace_tokens:
  assumes "entity p" and "\<forall>t \<in> set ts. token t"
  shows "replace_all p rep (concat ts) = concat (map (\<lambda>t. if t = p then rep else t) ts)"
  using assms(2)
proof (induction ts)
  case (Cons t ts)
  obtain v where p: "p = CHR ''&'' # v @ '';''" using assms(1) by (auto simp: entity_def)
  consider (plain) c where "t = [c]" "c \<noteq> CHR ''&''" | (ent) "entity t" using Cons.prems by (auto simp: token_def)
  then show ?case
  proof cases
    case plain
    with Cons show ?thesis by (auto simp: p)
  next
    case ent
    then obtain w where t: "t = CHR ''&'' # w @ '';''" "CHR ''&'' \<notin> set (w @ '';'')" by (auto simp: entity_def)
    show ?thesis
    proof (cases "t = p")
      case True
      have "replace_all p rep (p @ concat ts) = rep @ replace_all p rep (concat ts)"
        by (subst p) (simp add: p)
      with True Cons show ?thesis by simp
    next
      case False
      then have "take (length p) (t @ concat ts) \<noteq> p" using entity_prefix [OF assms(1) ent] by blast
      then have "replace_all p rep (t @ concat ts) = CHR ''&'' # replace_all p rep ((w @ '';'') @ concat ts)"
        unfolding t by simp
      also have "\<dots> = t @ replace_all p rep (concat ts)"
        unfolding p by (subst replace_skip) (use t in auto)
      finally show ?thesis using False Cons by simp
    qed
  qed
qed simp

lemma entityI: "CHR ''&'' \<notin> set v \<Longrightarrow> CHR '';'' \<notin> set v \<Longrightarrow> entity (''&'' @ v @ '';'')"
  by (auto simp: entity_def)

lemma entities [simp]:
  "entity ''&amp;''" "entity ''&gt;''" "entity ''&lt;''" "entity ''&quot;''" "entity ''&apos;''"
  using entityI [of "''amp''"] entityI [of "''gt''"] entityI [of "''lt''"] entityI [of "''quot''"]
    entityI [of "''apos''"] by simp_all

subsection \<open>Decoding what was encoded\<close>

lemma enc_char_token: "c \<noteq> CHR ''&'' \<Longrightarrow> token (enc_char q c)"
  by (simp add: enc_char.simps token_def)

text \<open>The four replacements behind that of the ampersand.\<close>

definition decRest :: "string \<Rightarrow> string" where
  "decRest s = replace_all ''&apos;'' [CHR 0x27] (replace_all ''&quot;'' [CHR 0x22]
     (replace_all ''&lt;'' ''<'' (replace_all ''&gt;'' ''>'' s)))"

lemma decEntities_rest: "decEntities s = decRest (replace_all ''&amp;'' ''&'' s)"
  by (simp add: decEntities_def decRest_def Let_def)

lemma replace_enc:
  assumes "\<forall>c \<in> set s. c \<noteq> CHR ''&''" and "entity p" and "\<And>c. c \<noteq> CHR ''&'' \<Longrightarrow> token (f c)"
  shows "replace_all p rep (concat (map f s)) = concat (map (\<lambda>c. if f c = p then rep else f c) s)"
proof -
  have "\<forall>t \<in> set (map f s). token t" using assms(1,3) by auto
  from replace_tokens [OF assms(2) this, of rep] show ?thesis by (simp add: o_def)
qed

lemma decRest_enc:
  assumes "CHR ''&'' \<notin> set s"
  shows "decRest (concat (map (enc_char q) s)) = s"
proof -
  have amp: "\<forall>c \<in> set s. c \<noteq> CHR ''&''" using assms by auto
  define f1 where "f1 c = (if enc_char q c = ''&gt;'' then ''>'' else enc_char q c)" for c
  define f2 where "f2 c = (if f1 c = ''&lt;'' then ''<'' else f1 c)" for c
  define f3 where "f3 c = (if f2 c = ''&quot;'' then [CHR 0x22] else f2 c)" for c
  define f4 where "f4 c = (if f3 c = ''&apos;'' then [CHR 0x27] else f3 c)" for c
  have t: "token (enc_char q c)" "token (f1 c)" "token (f2 c)" "token (f3 c)" if "c \<noteq> CHR ''&''" for c
    using enc_char_token [OF that, of q] by (simp_all add: f1_def f2_def f3_def token_def)
  have f4: "f4 c = [c]" if "c \<noteq> CHR ''&''" for c
    using that by (simp add: f4_def f3_def f2_def f1_def enc_char.simps)
  have "decRest (concat (map (enc_char q) s)) = concat (map f4 s)"
    unfolding decRest_def
    by (simp add: replace_enc [OF amp _ t(1)] replace_enc [OF amp _ t(2)] replace_enc [OF amp _ t(3)]
        replace_enc [OF amp _ t(4)] flip: f1_def f2_def f3_def f4_def)
  also have "\<dots> = concat (map (\<lambda>c. [c]) s)"
    using f4 amp by (intro arg_cong [where f = concat] map_cong) auto
  also have "\<dots> = s" by simp
  finally show ?thesis .
qed

lemma decEntities_enc:
  assumes "CHR ''&'' \<notin> set s"
  shows "decEntities (encEntities q s) = s"
proof -
  have amp: "\<forall>c \<in> set s. c \<noteq> CHR ''&''" using assms by auto
  have "replace_all ''&amp;'' ''&'' (concat (map (enc_char q) s)) =
      concat (map (\<lambda>c. if enc_char q c = ''&amp;'' then ''&'' else enc_char q c) s)"
    by (rule replace_enc [OF amp]) (simp_all add: enc_char_token)
  also have "\<dots> = concat (map (enc_char q) s)"
    using amp by (intro arg_cong [where f = concat] map_cong) (auto simp: enc_char.simps)
  finally show ?thesis
    using decRest_enc [OF assms] by (simp add: decEntities_rest encEntities_map)
qed

text \<open>
  Text without ampersands is encoded into text without angle brackets, and without quotes if
  asked for, and decoding gives it back.
\<close>

lemma entities_roundtrip:
  assumes "CHR ''&'' \<notin> set s"
  shows "decEntities (encEntities q s) = s \<and>
     set (encEntities q s) \<inter> {CHR ''<'', CHR ''>''} = {} \<and>
     (q \<longrightarrow> set (encEntities q s) \<inter> {CHR 0x22, CHR 0x27} = {})"
proof -
  have "set (enc_char q c) \<inter> {CHR ''<'', CHR ''>''} = {}" "q \<Longrightarrow> set (enc_char q c) \<inter> {CHR 0x22, CHR 0x27} = {}" for c
    by (auto simp: enc_char.simps)
  then show ?thesis
    using decEntities_enc [OF assms] by (auto simp: encEntities_map; blast)
qed

lemma entities_roundtrip_witness: "decEntities (encEntities True ''a<b;gt'') = ''a<b;gt''"
  using entities_roundtrip [of "''a<b;gt''" True] by simp

text \<open>
  Decoding replaces the ampersand entity first and scans what it put in again: text that was
  encoded twice is decoded twice, so that decoding does not undo encoding.
\<close>

lemma entities_decoded_twice:
  assumes "CHR ''&'' \<notin> set s"
  shows "decEntities (encEntities q (encEntities q' s)) = s"
proof -
  define toks where "toks c = (if enc_char q' c = [c] then [enc_char q c]
     else ''&amp;'' # map (\<lambda>x. [x]) (tl (enc_char q' c)))" for c
  have enc: "concat (map (enc_char q) (enc_char q' c)) = concat (toks c)"
    and tok: "\<forall>t \<in> set (toks c). token t"
    and amp: "concat (map (\<lambda>t. if t = ''&amp;'' then ''&'' else t) (toks c)) = enc_char (q \<or> q') c"
    if "c \<noteq> CHR ''&''" for c
    using that by (auto simp: toks_def enc_char.simps token_def)
  have ne: "\<forall>c \<in> set s. c \<noteq> CHR ''&''" using assms by auto
  have "encEntities q (encEntities q' s) = concat (map (\<lambda>c. concat (map (enc_char q) (enc_char q' c))) s)"
    unfolding encEntities_map by (induction s) simp_all
  also have "\<dots> = concat (concat (map toks s))"
    using ne by (induction s) (simp_all add: enc)
  finally have twice: "encEntities q (encEntities q' s) = concat (concat (map toks s))" .
  have "\<forall>t \<in> set (concat (map toks s)). token t"
  proof
    fix t assume "t \<in> set (concat (map toks s))"
    then obtain c where "c \<in> set s" "t \<in> set (toks c)" by auto
    then show "token t" using ne tok by blast
  qed
  from replace_tokens [OF entities(1) this, of "''&''"]
  have "replace_all ''&amp;'' ''&'' (encEntities q (encEntities q' s)) =
      concat (map (\<lambda>t. if t = ''&amp;'' then ''&'' else t) (concat (map toks s)))"
    by (simp add: twice)
  also have "\<dots> = concat (map (enc_char (q \<or> q')) s)"
    using ne by (induction s) (simp_all add: amp)
  finally show ?thesis
    using decRest_enc [OF assms, of "q \<or> q'"] by (simp add: decEntities_rest)
qed

lemma entities_decoded_twice_witness: "decEntities (encEntities False (encEntities True ''a<b'')) = ''a<b''"
  by (rule entities_decoded_twice) simp

end
