(* ===== verification/Sf_XMLProps.thy ===== *)
theory Sf_XMLProps
  imports Sf_XML
begin

text \<open>
  What the scanners of \<open>XMLChunk.cpp\<close> find: \<open>completionDetection\<close> on the text of an element,
  that a verdict does not change when more input arrives, and where entities round trip.
\<close>

lemmas cd_passes = cd_pass_def cd_begin_def cd_tag_def Let_def

subsection \<open>Elements and their text\<close>

datatype xml_item = Txt string | Sub string "(string \<times> string) list" "xml_item list"

definition print_attr :: "string \<times> string \<Rightarrow> string" where
  "print_attr a = '' '' @ fst a @ ''='' @ [CHR 0x22] @ snd a @ [CHR 0x22]"

fun print_item :: "xml_item \<Rightarrow> string" and print_items :: "xml_item list \<Rightarrow> string" where
  "print_item (Txt t) = t"
| "print_item (Sub n as xs) =
     ''<'' @ n @ concat (map print_attr as) @
     (if xs = [] then ''/>'' else ''>'' @ print_items xs @ ''</'' @ n @ ''>'')"
| "print_items [] = []"
| "print_items (x # xs) = print_item x @ print_items xs"

definition plain_char :: "char \<Rightarrow> bool" where
  "plain_char c \<longleftrightarrow> c \<notin> {CHR 0x00, CHR ''<'', CHR ''>'', CHR 0x22, CHR 0x27, CHR ''/''}"

definition name_ok :: "string \<Rightarrow> bool" where
  "name_ok n \<longleftrightarrow> n \<noteq> [] \<and> (\<forall>c \<in> set n. plain_char c) \<and> hd n \<noteq> CHR ''!'' \<and> hd n \<noteq> CHR ''?''"

definition attr_ok :: "string \<times> string \<Rightarrow> bool" where
  "attr_ok a \<longleftrightarrow> (\<forall>c \<in> set (fst a). plain_char c) \<and> (\<forall>c \<in> set (snd a). c \<noteq> CHR 0x22 \<and> c \<noteq> CHR 0x00)"

fun item_ok :: "xml_item \<Rightarrow> bool" where
  "item_ok (Txt t) \<longleftrightarrow> (\<forall>c \<in> set t. plain_char c)"
| "item_ok (Sub n as xs) \<longleftrightarrow> name_ok n \<and> (\<forall>a \<in> set as. attr_ok a) \<and> (\<forall>x \<in> set xs. item_ok x)"

definition cd_st :: "int \<Rightarrow> bool \<Rightarrow> bool \<Rightarrow> cd_state" where
  "cd_st d tag ty = \<lparr>inCommentary = False, inText = False, inTextType = ty, inTag = tag,
                     inSpecialTag = False, cd_depth = d\<rparr>"

definition cd_quoted :: "int \<Rightarrow> cd_state" where
  "cd_quoted d = \<lparr>inCommentary = False, inText = True, inTextType = False, inTag = True,
                  inSpecialTag = False, cd_depth = d\<rparr>"

lemma cd_st_simps [simp]:
  "inCommentary (cd_st d tag ty) = False" "inText (cd_st d tag ty) = False" "inTextType (cd_st d tag ty) = ty"
  "inTag (cd_st d tag ty) = tag" "inSpecialTag (cd_st d tag ty) = False" "cd_depth (cd_st d tag ty) = d"
  "(cd_st d tag ty)\<lparr>cd_depth := d', inTag := tag'\<rparr> = cd_st d' tag' ty"
  "(cd_st d tag ty)\<lparr>inTag := tag'\<rparr> = cd_st d tag' ty"
  "(cd_st d True ty)\<lparr>inText := True, inTextType := False\<rparr> = cd_quoted d"
  "inCommentary (cd_quoted d) = False" "inText (cd_quoted d) = True" "inTextType (cd_quoted d) = False"
  "inSpecialTag (cd_quoted d) = False" "(cd_quoted d)\<lparr>inText := False\<rparr> = cd_st d True False"
  by (simp_all add: cd_st_def cd_quoted_def)

lemmas cd_step = cd_loop.simps(2) [of _ "cd_st _ _ _"] cd_loop.simps(2) [of _ "cd_quoted _"]
declare cd_loop.simps(2) [simp del]

lemma cd_plain:
  "\<forall>c \<in> set w. plain_char c \<Longrightarrow> 0 \<le> d \<Longrightarrow> tag \<or> 0 < d \<Longrightarrow>
     cd_loop i (cd_st d tag ty) (w @ r) = cd_loop (i + length w) (cd_st d tag ty) r"
proof (induction w arbitrary: i)
  case (Cons c w)
  have "cd_loop i (cd_st d tag ty) (c # w @ r) = cd_loop (i + 1) (cd_st d tag ty) (w @ r)"
    using Cons.prems by (auto simp: cd_step plain_char_def Let_def cd_passes)
  with Cons show ?case by simp
qed simp

lemma cd_value:
  "\<forall>c \<in> set v. c \<noteq> CHR 0x22 \<and> c \<noteq> CHR 0x00 \<Longrightarrow>
     cd_loop i (cd_quoted d) (v @ CHR 0x22 # r) = cd_loop (i + length v + 1) (cd_st d True False) r"
  by (induction v arbitrary: i) (simp_all add: cd_step cd_passes)

lemma cd_attr:
  assumes "attr_ok a" and "0 \<le> d"
  shows "cd_loop i (cd_st d True ty) (print_attr a @ r) =
     cd_loop (i + length (print_attr a)) (cd_st d True False) r"
proof -
  have "\<forall>c \<in> set ('' '' @ fst a @ ''=''). plain_char c"
    using assms(1) by (auto simp: attr_ok_def plain_char_def)
  from cd_plain [OF this assms(2), of True i ty "CHR 0x22 # snd a @ CHR 0x22 # r"]
  have "cd_loop i (cd_st d True ty) (print_attr a @ r) =
      cd_loop (i + length (fst a) + 2) (cd_st d True ty) (CHR 0x22 # snd a @ CHR 0x22 # r)"
    by (simp add: print_attr_def)
  also have "\<dots> = cd_loop (i + length (fst a) + 3) (cd_quoted d) (snd a @ CHR 0x22 # r)"
    by (simp add: cd_step cd_passes eval_nat_numeral)
  also have "\<dots> = cd_loop (i + length (fst a) + 3 + length (snd a) + 1) (cd_st d True False) r"
    using assms(1) by (intro cd_value) (simp add: attr_ok_def)
  finally show ?thesis by (simp add: print_attr_def eval_nat_numeral ac_simps)
qed

lemma cd_attrs:
  "\<forall>a \<in> set as. attr_ok a \<Longrightarrow> 0 \<le> d \<Longrightarrow> \<exists>ty'. \<forall>r.
     cd_loop i (cd_st d True ty) (concat (map print_attr as) @ r) =
     cd_loop (i + length (concat (map print_attr as))) (cd_st d True ty') r"
proof (induction as arbitrary: i ty)
  case (Cons a as)
  from Cons.IH [of "i + length (print_attr a)" False] Cons.prems obtain ty' where
    "\<And>r. cd_loop (i + length (print_attr a)) (cd_st d True False) (concat (map print_attr as) @ r) =
      cd_loop (i + length (print_attr a) + length (concat (map print_attr as))) (cd_st d True ty') r"
    by auto
  then show ?case
    using Cons.prems by (intro exI [of _ ty']) (simp add: cd_attr add.assoc)
qed auto

text \<open>From before an element to behind its opening name, and behind its attributes.\<close>

lemma cd_open:
  assumes "name_ok n" and "\<forall>a \<in> set as. attr_ok a" and "0 \<le> d"
  shows "\<exists>ty'. \<forall>r. cd_loop i (cd_st d False ty) (''<'' @ n @ concat (map print_attr as) @ r) =
     cd_loop (i + 1 + length n + length (concat (map print_attr as))) (cd_st (d + 1) True ty') r"
proof -
  obtain c m where n: "n = c # m" using assms(1) by (cases n) (auto simp: name_ok_def)
  have c: "plain_char c" "c \<noteq> CHR ''!''" "c \<noteq> CHR ''?''" "\<forall>c \<in> set n. plain_char c"
    using assms(1) by (auto simp: n name_ok_def)
  have step: "cd_loop i (cd_st d False ty) (CHR ''<'' # n @ t) = cd_loop (i + 1) (cd_st (d + 1) True ty) (n @ t)" for t
    using c(1-3) assms(3) by (auto simp: n cd_step plain_char_def Let_def cd_passes char_at_def)
  obtain ty' where "\<And>r. cd_loop (i + 1 + length n) (cd_st (d + 1) True ty) (concat (map print_attr as) @ r) =
     cd_loop (i + 1 + length n + length (concat (map print_attr as))) (cd_st (d + 1) True ty') r"
    using cd_attrs [OF assms(2), of "d + 1" "i + 1 + length n" ty] assms(3) by auto
  then show ?thesis
    using step cd_plain [OF c(4), of "d + 1" True "i + 1" ty] assms(3)
    by (intro exI [of _ ty']) simp
qed

text \<open>Behind an element: the scan is over at depth 0, or goes on outside of a tag.\<close>

definition cd_after :: "nat \<Rightarrow> int \<Rightarrow> bool \<Rightarrow> bytes \<Rightarrow> int" where
  "cd_after i d ty r = (if d = 0 then int i else cd_loop i (cd_st d False ty) r)"

lemma cd_close_tag:
  assumes "name_ok n" and "0 \<le> d"
  shows "cd_loop i (cd_st (d + 1) False ty) (''</'' @ n @ ''>'' @ r) = cd_after (i + length n + 3) d ty r"
proof -
  have c: "\<forall>c \<in> set n. plain_char c" "n \<noteq> []" "plain_char (hd n)" using assms(1) by (auto simp: name_ok_def)
  have "cd_loop i (cd_st (d + 1) False ty) (''</'' @ n @ ''>'' @ r) =
      cd_loop (i + 1) (cd_st d True ty) (CHR ''/'' # n @ CHR ''>'' # r)"
    using assms(2) by (simp add: cd_step Let_def cd_passes char_at_def)
  also have "\<dots> = cd_loop (i + 2) (cd_st d True ty) (n @ CHR ''>'' # r)"
    using c assms(2) by (cases n) (auto simp: cd_step Let_def cd_passes char_at_def plain_char_def)
  also have "\<dots> = cd_loop (i + 2 + length n) (cd_st d True ty) (CHR ''>'' # r)"
    by (rule cd_plain [OF c(1) assms(2)]) simp
  also have "\<dots> = cd_after (i + length n + 3) d ty r"
    using assms(2) by (simp add: cd_step Let_def cd_passes cd_after_def eval_nat_numeral)
  finally show ?thesis .
qed

lemma cd_short:
  "0 \<le> d \<Longrightarrow> cd_loop i (cd_st (d + 1) True ty) (''/>'' @ r) = cd_after (i + 2) d ty r"
  by (simp add: cd_step Let_def cd_passes cd_after_def char_at_def)

lemma cd_end_open:
  "0 \<le> d \<Longrightarrow> cd_loop i (cd_st (d + 1) True ty) (''>'' @ r) = cd_loop (i + 1) (cd_st (d + 1) False ty) r"
  by (simp add: cd_step Let_def cd_passes)

lemma cd_item:
  "item_ok x \<Longrightarrow> 0 \<le> d \<Longrightarrow> (\<exists>n as xs. x = Sub n as xs) \<or> 0 < d \<Longrightarrow>
     \<exists>ty'. \<forall>r. cd_loop i (cd_st d False ty) (print_item x @ r) = cd_after (i + length (print_item x)) d ty' r"
  "\<forall>x \<in> set xs. item_ok x \<Longrightarrow> 0 < d \<Longrightarrow>
     \<exists>ty'. \<forall>r. cd_loop i (cd_st d False ty) (print_items xs @ r) =
       cd_loop (i + length (print_items xs)) (cd_st d False ty') r"
proof (induction x and xs arbitrary: d i ty and d i ty rule: print_item_print_items.induct)
  case (1 t)
  then show ?case by (auto simp: cd_plain cd_after_def)
next
  case (2 n as xs)
  let ?l = "1 + length n + length (concat (map print_attr as))"
  obtain ty1 where open_: "\<And>r. cd_loop i (cd_st d False ty) (''<'' @ n @ concat (map print_attr as) @ r) =
     cd_loop (i + ?l) (cd_st (d + 1) True ty1) r"
    using cd_open [of n as d i ty] "2.prems" by (auto simp: ac_simps)
  show ?case
  proof (cases "xs = []")
    case True
    then show ?thesis
      using open_ "2.prems"(2) cd_short [of d "i + ?l" ty1]
      by (intro exI [of _ ty1]) (simp add: ac_simps eval_nat_numeral)
  next
    case False
    obtain ty2 where sub: "\<And>r. cd_loop (i + ?l + 1) (cd_st (d + 1) False ty1) (print_items xs @ r) =
       cd_loop (i + ?l + 1 + length (print_items xs)) (cd_st (d + 1) False ty2) r"
      using "2.IH" [OF False, of "d + 1" "i + ?l + 1" ty1] "2.prems" by auto
    have "name_ok n" using "2.prems" by simp
    then show ?thesis
      using False open_ sub "2.prems"(2) cd_end_open [of d "i + ?l" ty1]
        cd_close_tag [of n d "i + ?l + 1 + length (print_items xs)" ty2]
      by (intro exI [of _ ty2]) (simp add: ac_simps eval_nat_numeral)
  qed
next
  case (4 x xs)
  from "4.IH"(1) [of d i ty] "4.prems" obtain ty1 where
    one: "\<And>r. cd_loop i (cd_st d False ty) (print_item x @ r) =
      cd_loop (i + length (print_item x)) (cd_st d False ty1) r" by (auto simp: cd_after_def)
  from "4.IH"(2) [of d "i + length (print_item x)" ty1] "4.prems" obtain ty2 where
    "\<And>r. cd_loop (i + length (print_item x)) (cd_st d False ty1) (print_items xs @ r) =
      cd_loop (i + length (print_item x) + length (print_items xs)) (cd_st d False ty2) r" by auto
  with one show ?case by (intro exI [of _ ty2]) (simp add: ac_simps)
qed auto

lemma beginOfNext_white:
  assumes "\<forall>c \<in> set w. is_white c" and "\<not> is_white c"
  shows "beginOfNext (w @ c # r) = length w"
  using assms by (induction w) (simp_all add: beginOfNext_def)

lemma cd_init_st: "cd_init = cd_st 0 False False"
  by (simp add: cd_init_def cd_st_def)

text \<open>
  C35. On the text of an element without quotes, apostrophes and slashes outside of its attribute
  values, white space before it and anything behind it, the detection gives exactly the end of
  the element.  What \<open>item_ok\<close> leaves out: names of elements and attributes and the text between tags hold
  no angle bracket, no quotation mark, no apostrophe, no slash and no zero byte, a name of an element
  does not begin with an exclamation or question mark, and an attribute value, which is written in quotation marks,
  holds no quotation mark and no zero byte.  Attribute values may hold angle brackets, apostrophes
  and slashes, elements may be nested and be closed in the short way.  The exclusions are needed: an apostrophe
  in the text hides the end (\<open>apostrophe_hides_end\<close>).
\<close>

theorem completion_of_element:
  assumes "item_ok (Sub n as xs)" and "\<forall>c \<in> set w. is_white c"
  shows "completionDetection (w @ print_item (Sub n as xs) @ rest) =
     Done (int (length w + length (print_item (Sub n as xs))))"
proof -
  let ?p = "print_item (Sub n as xs)"
  obtain c m where n: "n = c # m" "plain_char c" using assms(1) by (cases n) (auto simp: name_ok_def)
  obtain t where p: "?p = CHR ''<'' # c # t" using n by simp
  have lt: "\<not> is_white (CHR ''<'')" by (simp add: is_white_def)
  have b: "beginOfNext (w @ ?p @ rest) = length w"
    unfolding p by (simp add: beginOfNext_white [OF assms(2) lt])
  obtain ty where "\<forall>r. cd_loop (length w) (cd_st 0 False False) (?p @ r) = cd_after (length w + length ?p) 0 ty r"
    using cd_item(1) [OF assms(1), of 0 "length w" False] by auto
  then have "cd_loop (length w) cd_init (?p @ rest) = int (length w + length ?p)"
    by (simp add: cd_after_def cd_init_st del: print_item.simps)
  then show ?thesis
    unfolding completionDetection_def Let_def b
    using n(2) by (simp add: p nth_append plain_char_def del: print_item.simps)
qed

lemma completion_of_element_witness:
  "completionDetection ('' '' @ print_item (Sub ''a'' [(''x'', ''1>2/>'')] [Sub ''b'' [] [], Txt ''hi'']) @ ''<c'') = Done 24"
proof -
  have ok: "item_ok (Sub ''a'' [(''x'', ''1>2/>'')] [Sub ''b'' [] [], Txt ''hi''])"
    by (simp add: name_ok_def attr_ok_def plain_char_def)
  have "\<forall>c \<in> set '' ''. is_white c" by (simp add: is_white_def)
  from completion_of_element [OF ok this, of "''<c''"] show ?thesis by (simp add: print_attr_def)
qed

subsection \<open>More input\<close>

lemma char_at_append: "k < length r \<Longrightarrow> char_at (r @ m) k = char_at r k"
  by (simp add: char_at_def nth_append)

lemma char_at_nonzero: "char_at r k \<noteq> CHR 0x00 \<Longrightarrow> k < length r"
  by (auto simp: char_at_def split: if_splits)

text \<open>A pass only skips characters that are there, and an error code is negative.\<close>

lemma cd_tag_cases:
  "cd_tag s (CHR ''<'') d =
     (if inTag s then CD_Error (-4)
      else if (if d = CHR ''/'' then cd_depth s - 1 else cd_depth s + 1) < 0 then CD_Error (-7)
      else CD_Next 0 (s\<lparr>cd_depth := (if d = CHR ''/'' then cd_depth s - 1 else cd_depth s + 1), inTag := True\<rparr>))"
  "cd_tag s (CHR ''/'') (CHR ''>'') =
     (if \<not> inTag s then CD_Error (-6) else if cd_depth s - 1 < 0 then CD_Error (-7)
      else if cd_depth s - 1 = 0 then CD_Ready 1
      else CD_Next 1 (s\<lparr>cd_depth := cd_depth s - 1, inTag := False\<rparr>))"
  "cd_tag s (CHR ''>'') d =
     (if \<not> inTag s then CD_Error (-5) else if cd_depth s < 0 then CD_Error (-7)
      else if cd_depth s = 0 then CD_Ready 0 else CD_Next 0 (s\<lparr>inTag := False\<rparr>))"
  "c \<noteq> CHR ''<'' \<Longrightarrow> c \<noteq> CHR ''>'' \<Longrightarrow> \<not> (c = CHR ''/'' \<and> d = CHR ''>'') \<Longrightarrow> cd_tag s c d =
     (if cd_depth s < 0 then CD_Error (-7)
      else if cd_depth s = 0 \<and> \<not> inTag s then CD_Ready 0 else CD_Next 0 s)"
  by (simp_all add: cd_tag_def Let_def) auto

lemma cd_tag_needs:
  "cd_tag s c d = CD_Next k s' \<Longrightarrow> k = 0 \<or> k = 1 \<and> d \<noteq> CHR 0x00"
  "cd_tag s c d = CD_Ready k \<Longrightarrow> k = 0 \<or> k = 1 \<and> d \<noteq> CHR 0x00"
  "cd_tag s c d = CD_Error code \<Longrightarrow> code < 0"
proof -
  consider "c = CHR ''<''" | "c = CHR ''/'' \<and> d = CHR ''>''" | "c = CHR ''>''"
    | "c \<noteq> CHR ''<''" "c \<noteq> CHR ''>''" "\<not> (c = CHR ''/'' \<and> d = CHR ''>'')" by blast
  then have "(case cd_tag s c d of CD_Error code \<Rightarrow> code < 0 | CD_Ready k \<Rightarrow> k = 0 \<or> k = 1 \<and> d \<noteq> CHR 0x00
      | CD_Next k s' \<Rightarrow> k = 0 \<or> k = 1 \<and> d \<noteq> CHR 0x00)"
    by cases (simp_all add: cd_tag_cases)
  then show "cd_tag s c d = CD_Next k s' \<Longrightarrow> k = 0 \<or> k = 1 \<and> d \<noteq> CHR 0x00"
    and "cd_tag s c d = CD_Ready k \<Longrightarrow> k = 0 \<or> k = 1 \<and> d \<noteq> CHR 0x00"
    and "cd_tag s c d = CD_Error code \<Longrightarrow> code < 0"
    by simp_all
qed

lemma cd_begin_needs:
  "cd_begin s c d e f = CD_Next k s' \<Longrightarrow>
     k = 0 \<or> k = 1 \<and> d \<noteq> CHR 0x00 \<or> k = 3 \<and> d \<noteq> CHR 0x00 \<and> e \<noteq> CHR 0x00 \<and> f \<noteq> CHR 0x00"
  "cd_begin s c d e f = CD_Ready k \<Longrightarrow> k = 0 \<or> k = 1 \<and> d \<noteq> CHR 0x00"
  "cd_begin s c d e f = CD_Error code \<Longrightarrow> code < 0"
  by (auto simp: cd_begin_def dest: cd_tag_needs split: if_splits)

lemma cd_pass_needs:
  "cd_pass s c d e f = CD_Next k s' \<Longrightarrow>
     k = 0 \<or> k = 1 \<and> d \<noteq> CHR 0x00 \<or> k = 2 \<and> d \<noteq> CHR 0x00 \<and> e \<noteq> CHR 0x00 \<or>
     k = 3 \<and> d \<noteq> CHR 0x00 \<and> e \<noteq> CHR 0x00 \<and> f \<noteq> CHR 0x00"
  "cd_pass s c d e f = CD_Ready k \<Longrightarrow> k = 0 \<or> k = 1 \<and> d \<noteq> CHR 0x00"
  "cd_pass s c d e f = CD_Error code \<Longrightarrow> code < 0"
  by (auto simp: cd_pass_def dest: cd_begin_needs split: if_splits)

lemma cd_pass_skip:
  shows "cd_pass s c (char_at r 0) (char_at r 1) (char_at r 2) = CD_Next k s' \<Longrightarrow> k \<le> length r"
    and "cd_pass s c (char_at r 0) (char_at r 1) (char_at r 2) = CD_Ready k \<Longrightarrow> k \<le> length r"
proof -
  have "k \<le> length r" if "k = 0 \<or> k = 1 \<and> char_at r 0 \<noteq> CHR 0x00 \<or> k = 2 \<and> char_at r 1 \<noteq> CHR 0x00 \<or>
      k = 3 \<and> char_at r 2 \<noteq> CHR 0x00" for k
    using that char_at_nonzero [of r 0] char_at_nonzero [of r 1] char_at_nonzero [of r 2] by linarith
  then show "cd_pass s c (char_at r 0) (char_at r 1) (char_at r 2) = CD_Next k s' \<Longrightarrow> k \<le> length r"
    and "cd_pass s c (char_at r 0) (char_at r 1) (char_at r 2) = CD_Ready k \<Longrightarrow> k \<le> length r"
    by (blast dest: cd_pass_needs)+
qed

lemma cd_loop_bounds: "cd_loop i s t \<le> int (i + length t) \<and> (0 < cd_loop i s t \<longrightarrow> int i < cd_loop i s t)"
proof (induction i s t rule: cd_loop.induct)
  case (2 i s c r)
  show ?case
  proof (cases "cd_pass s c (char_at r 0) (char_at r 1) (char_at r 2)")
    case (CD_Error code)
    with cd_pass_needs(3) [OF CD_Error] show ?thesis by (simp add: cd_loop.simps(2))
  next
    case (CD_Ready k)
    with cd_pass_skip(2) [OF CD_Ready] show ?thesis by (simp add: cd_loop.simps(2))
  next
    case (CD_Next k s')
    with cd_pass_skip(1) [OF CD_Next] "2.IH" [OF CD_Next] show ?thesis
      by (auto simp: cd_loop.simps(2))
  qed
qed simp

text \<open>A comment or special tag of which too little is there is not decided.\<close>

lemma cd_short_comment:
  assumes "inCommentary s" and "length r < 3"
  shows "cd_loop i s r \<le> 0"
proof -
  have pass: "cd_loop i s (c # r) = (if c = CHR 0x00 then -8 else cd_loop (i + 1) s r)" if "length r < 2" for c r i
  proof -
    have "char_at r 1 = CHR 0x00" using that by (simp add: char_at_def)
    with assms(1) show ?thesis by (simp add: cd_loop.simps(2) cd_pass_def)
  qed
  have "r = [] \<or> (\<exists>x. r = [x]) \<or> (\<exists>x y. r = [x, y])"
    using assms(2) by (cases r; cases "tl r") auto
  then show ?thesis by (auto simp: pass)
qed

lemma cd_short_special: "inSpecialTag s \<Longrightarrow> \<not> inCommentary s \<Longrightarrow> length r < 2 \<Longrightarrow> cd_loop i s r \<le> 0"
  by (cases r) (auto simp: cd_loop.simps(2) cd_pass_def char_at_def)

lemma cd_short_open:
  assumes "inTag s" and "\<not> inCommentary s" and "\<not> inSpecialTag s" and "\<not> inText s" and "0 \<le> cd_depth s"
    and "r = [] \<or> r = ''!'' \<or> r = ''!-''"
  shows "cd_loop i s r \<le> 0"
  using assms by (auto simp: cd_loop.simps(2) cd_passes)

text \<open>What a pass makes of characters that were missing.\<close>

lemma cd_tag_ready_append:
  assumes "cd_tag s c d = CD_Ready k" and "c = CHR ''/'' \<Longrightarrow> d' = d"
  shows "cd_tag s c d' = CD_Ready k"
  using assms by (cases "c = CHR ''/''") (auto simp: cd_tag_def Let_def split: if_splits)

lemma cd_pass_ready_append:
  assumes "cd_pass s c d e f = CD_Ready k" and "c = CHR ''/'' \<Longrightarrow> d' = d"
  shows "cd_pass s c d' e' f' = CD_Ready k"
proof -
  have n: "c \<noteq> CHR 0x00" "\<not> inCommentary s" "\<not> inSpecialTag s" "\<not> inText s" "cd_begin s c d e f = CD_Ready k"
    using assms(1) by (auto simp: cd_pass_def split: if_splits)
  then have q: "c \<noteq> CHR 0x22" "c \<noteq> CHR 0x27" "cd_tag s c d = CD_Ready k"
    by (auto simp: cd_begin_def split: if_splits)
  moreover from q(3) have "c \<noteq> CHR ''<''" by (auto simp: cd_tag_def Let_def split: if_splits)
  ultimately have "cd_begin s c d' e' f' = CD_Ready k"
    using cd_tag_ready_append [OF q(3) assms(2)] by (simp add: cd_begin_def)
  with n show ?thesis by (simp add: cd_pass_def)
qed

lemma cd_pass_next_append:
  assumes "cd_pass s c (char_at r 0) (char_at r 1) (char_at r 2) = CD_Next k s'"
    and "0 < cd_loop (i + k + 1) s' (drop k r)"
  shows "cd_pass s c (char_at (r @ m) 0) (char_at (r @ m) 1) (char_at (r @ m) 2) = CD_Next k s'"
proof -
  have ne: "r \<noteq> []" using assms(2) by (cases r) auto
  then have d: "char_at (r @ m) 0 = char_at r 0" by (simp add: char_at_append)
  consider (same) "char_at (r @ m) 1 = char_at r 1" "char_at (r @ m) 2 = char_at r 2"
    | (short) "length r < 3" by (metis char_at_append linorder_not_less numeral_3_eq_3 one_less_numeral_iff
        order_less_le_trans semiring_norm(77) lessI numeral_2_eq_2)
  then show ?thesis
  proof cases
    case same
    with assms(1) d show ?thesis by simp
  next
    case short
    have nz: "c \<noteq> CHR 0x00" using assms(1) by (auto simp: cd_pass_def)
    show ?thesis
    proof (cases "inCommentary s \<or> inSpecialTag s \<or> inText s")
      case True
      then show ?thesis
        using assms d short cd_short_comment [of s r "i + 1"] nz
        by (auto simp: cd_pass_def split: if_splits)
    next
      case False
      then have b: "cd_begin s c (char_at r 0) (char_at r 1) (char_at r 2) = CD_Next k s'"
        using assms(1) nz by (simp add: cd_pass_def)
      have "cd_begin s c (char_at (r @ m) 0) (char_at (r @ m) 1) (char_at (r @ m) 2) = CD_Next k s'"
      proof (cases "c = CHR ''<'' \<and> char_at r 0 = CHR ''!'' \<and> (length r < 2 \<or> char_at r 1 = CHR ''-'')")
        case True
        have "r = ''!'' \<or> r = ''!-''"
          using True short ne by (cases r; cases "tl r") (auto simp: char_at_def split: if_splits)
        moreover have "char_at r 2 = CHR 0x00" using short by (simp add: char_at_def)
        with b True have "cd_tag s c (char_at r 0) = CD_Next k s'" by (simp add: cd_begin_def)
        with True have "k = 0" "inTag s'" "0 \<le> cd_depth s'" "inCommentary s' = inCommentary s"
          "inSpecialTag s' = inSpecialTag s" "inText s' = inText s"
          by (auto simp: cd_tag_cases split: if_splits)
        ultimately have "cd_loop (i + k + 1) s' (drop k r) \<le> 0"
          using False cd_short_open [of s' r "i + 1"] by auto
        with assms(2) show ?thesis by simp
      next
        case no: False
        then have "char_at (r @ m) 1 = char_at r 1" if "c = CHR ''<''" "char_at r 0 = CHR ''!''"
          using that by (simp add: char_at_append)
        with b no d show ?thesis by (auto simp: cd_begin_def split: if_splits)
      qed
      with False nz show ?thesis by (simp add: cd_pass_def)
    qed
  qed
qed

lemma cd_loop_append:
  "0 < cd_loop i s t \<Longrightarrow> t ! (nat (cd_loop i s t) - 1 - i) \<noteq> CHR ''/'' \<Longrightarrow>
     cd_loop i s (t @ m) = cd_loop i s t"
proof (induction i s t rule: cd_loop.induct)
  case (2 i s c r)
  show ?case
  proof (cases "cd_pass s c (char_at r 0) (char_at r 1) (char_at r 2)")
    case (CD_Error code)
    with cd_pass_needs(3) [OF CD_Error] "2.prems"(1) show ?thesis by (simp add: cd_loop.simps(2))
  next
    case (CD_Ready k)
    have "c = CHR ''/'' \<Longrightarrow> r \<noteq> []"
      using "2.prems"(2) CD_Ready cd_pass_skip(2) [OF CD_Ready] by (auto simp: cd_loop.simps(2))
    then have "c = CHR ''/'' \<Longrightarrow> char_at (r @ m) 0 = char_at r 0" by (simp add: char_at_append)
    from cd_pass_ready_append [OF CD_Ready this] CD_Ready show ?thesis
      by (simp add: cd_loop.simps(2))
  next
    case (CD_Next k s')
    have res: "cd_loop i s (c # r) = cd_loop (i + k + 1) s' (drop k r)"
      using CD_Next by (simp add: cd_loop.simps(2))
    with "2.prems"(1) have pos: "0 < cd_loop (i + k + 1) s' (drop k r)" by simp
    with cd_loop_bounds [of "i + k + 1" s' "drop k r"]
    have gt: "i + k + 1 < nat (cd_loop (i + k + 1) s' (drop k r))" by linarith
    have k: "k \<le> length r" by (rule cd_pass_skip(1) [OF CD_Next])
    have "(c # r) ! (nat (cd_loop (i + k + 1) s' (drop k r)) - 1 - i) =
        drop k r ! (nat (cd_loop (i + k + 1) s' (drop k r)) - 1 - (i + k + 1))"
      using gt k by (simp add: nth_Cons')
    with "2.prems"(2) res have "drop k r ! (nat (cd_loop (i + k + 1) s' (drop k r)) - 1 - (i + k + 1)) \<noteq> CHR ''/''"
      by simp
    from "2.IH" [OF CD_Next pos this]
    have "cd_loop (i + k + 1) s' (drop k (r @ m)) = cd_loop (i + k + 1) s' (drop k r)"
      using k by simp
    with cd_pass_next_append [OF CD_Next pos, of m] res show ?thesis
      by (simp add: cd_loop.simps(2))
  qed
qed simp

lemma beginOfNext_append:
  "beginOfNext a < length a \<Longrightarrow> beginOfNext (a @ m) = beginOfNext a"
  by (induction a) (auto simp: beginOfNext_def)

lemma beginOfNext_le: "beginOfNext a \<le> length a"
  by (simp add: beginOfNext_def length_takeWhile_le)

lemma completion_pos:
  assumes "completionDetection input = Done n" and "0 < n"
  shows "beginOfNext input + 1 < length input" and "input ! beginOfNext input = CHR ''<''"
    and "input ! (beginOfNext input + 1) \<noteq> CHR 0x00"
    and "n = cd_loop (beginOfNext input) cd_init (drop (beginOfNext input) input)"
  using assms beginOfNext_le [of input] by (auto simp: completionDetection_def Let_def split: if_splits)

lemma completion_le: "completionDetection input = Done n \<Longrightarrow> n \<le> int (length input)"
  using cd_loop_bounds [of "beginOfNext input" cd_init "drop (beginOfNext input) input"] beginOfNext_le [of input]
  by (auto simp: completionDetection_def Let_def split: if_splits)

lemma completion_detected_append:
  assumes "completionDetection input = Done n" and "0 < n" and "input ! (nat n - 1) \<noteq> CHR ''/''"
  shows "completionDetection (input @ later) = Done n"
proof -
  let ?b = "beginOfNext input"
  note p = completion_pos [OF assms(1,2)]
  have n: "?b < nat n" using cd_loop_bounds [of ?b cd_init "drop ?b input"] p(4) assms(2) by linarith
  then have "drop ?b input ! (nat n - 1 - ?b) \<noteq> CHR ''/''" using assms(3) p(1) by simp
  then have "cd_loop ?b cd_init (drop ?b input @ later) = n"
    using cd_loop_append [of ?b cd_init "drop ?b input" later] p(4) assms(2) by simp
  moreover have "beginOfNext (input @ later) = ?b" using p(1) by (intro beginOfNext_append) simp
  ultimately show ?thesis
    using p(1-3) by (simp add: completionDetection_def nth_append)
qed

text \<open>
  C36. If an end was detected and the last character before it is not a slash, then it lies in the
  input and is not moved by any input that arrives behind it.  With a slash it may move
  (\<open>slash_end_moves\<close>: \<open><!---->/\<close> is taken for complete).
\<close>

theorem completion_stable:
  assumes "completionDetection input = Done n" and "0 < n" and "input ! (nat n - 1) \<noteq> CHR ''/''"
  shows "nat n \<le> length input \<and> completionDetection (input @ later) = Done n"
  using completion_detected_append [OF assms] completion_le [OF assms(1)] by simp

lemma completion_stable_witness: "completionDetection (''<a/>'' @ ''>'') = Done 4"
proof -
  have "completionDetection ''<a/>'' = Done 4" by code_simp
  from completion_stable [OF this, of "''>''"] show ?thesis by simp
qed

lemma slash_end_moves:
  "completionDetection ''<!---->/'' = Done 8" "completionDetection (''<!---->/'' @ ''>'') = Done (- 6)"
  by code_simp+

text \<open>
  An apostrophe in the text of an element starts a quotation for the detection: the element is
  not found complete whatever follows, until a second apostrophe comes.
\<close>

lemma apostrophe_hides_end:
  assumes "name_ok n" and "\<forall>c \<in> set t. plain_char c" and "\<forall>c \<in> set rest. c \<noteq> CHR 0x27 \<and> c \<noteq> CHR 0x00"
  shows "completionDetection (''<'' @ n @ ''>'' @ t @ CHR 0x27 # rest) = Done 0"
proof -
  let ?s = "\<lparr>inCommentary = False, inText = True, inTextType = True, inTag = False, inSpecialTag = False, cd_depth = 1\<rparr>"
  have quoted: "cd_loop i ?s r = 0" if "\<forall>c \<in> set r. c \<noteq> CHR 0x27 \<and> c \<noteq> CHR 0x00" for i r
    using that by (induction r arbitrary: i) (simp_all add: cd_loop.simps(2) cd_pass_def)
  obtain ty where o: "\<And>r. cd_loop 0 (cd_st 0 False False) (''<'' @ n @ r) = cd_loop (1 + length n) (cd_st 1 True ty) r"
    using cd_open [OF assms(1), of "[]" 0 0 False] by auto
  have "cd_loop 0 cd_init (''<'' @ n @ ''>'' @ t @ CHR 0x27 # rest) =
      cd_loop (1 + length n) (cd_st 1 True ty) (''>'' @ t @ CHR 0x27 # rest)"
    unfolding cd_init_st by (rule o)
  also have "\<dots> = cd_loop (2 + length n) (cd_st 1 False ty) (t @ CHR 0x27 # rest)"
    using cd_end_open [of 0 "1 + length n" ty "t @ CHR 0x27 # rest"] by simp
  also have "\<dots> = cd_loop (2 + length n + length t) (cd_st 1 False ty) (CHR 0x27 # rest)"
    by (rule cd_plain [OF assms(2)]) simp_all
  also have "\<dots> = cd_loop (3 + length n + length t) ?s rest"
    by (simp add: cd_step cd_passes eval_nat_numeral) (simp add: cd_st_def)
  also have "\<dots> = 0" by (rule quoted [OF assms(3)])
  finally have res: "cd_loop 0 cd_init (''<'' @ n @ ''>'' @ t @ CHR 0x27 # rest) = 0" .
  obtain c m where n: "n = c # m" "plain_char c" using assms(1) by (cases n) (auto simp: name_ok_def)
  have "beginOfNext (''<'' @ n @ ''>'' @ t @ CHR 0x27 # rest) = 0"
    by (simp add: beginOfNext_def is_white_def)
  with res n show ?thesis by (simp add: completionDetection_def plain_char_def)
qed

lemma apostrophe_hides_end_witness:
  "completionDetection (''<b>it'' @ CHR 0x27 # ''s</b><b/>'') = Done 0"
  using apostrophe_hides_end [of "''b''" "''it''" "''s</b><b/>''"]
  by (simp add: name_ok_def plain_char_def)

end
