(* ===== verification/Sf_XMLStream.thy ===== *)
theory Sf_XMLStream
  imports Sf_XMLProps Sf_Bytes
begin

text \<open>
  The decoder of XML streams (\<open>libschnee/schnee/im/xmpp/XMLStreamDecoder.h\<close>,
  \<open>XMLStreamDecoder.cpp\<close>): it takes pieces of input as they come and hands out the opening
  element and each complete child element.  The delegates are an event log; a delegate that
  writes to or resets the decoder it is called from is not modelled.  The parser of documents
  is the parameter \<open>rx\<close> of \<open>Sf_XML\<close>.
\<close>

datatype xs_state = XS_Start | XS_ReadXmlBegin | XS_ReadOpener | XS_Closed | XS_Error

datatype xs_event = XS_StateChange xs_state | XS_ChunkRead xml_chunk

record xs_decoder =
  xs_state :: xs_state
  xs_opener :: xml_chunk
  xs_buffer :: bytes
  xs_hasChunkRead :: bool
  xs_hasStateChange :: bool
  xs_error :: error
  xs_errorText :: string
  xs_events :: "xs_event list"

definition xs_new :: xs_decoder where
  "xs_new = \<lparr>xs_state = XS_Start, xs_opener = xc_new, xs_buffer = [], xs_hasChunkRead = False,
             xs_hasStateChange = False, xs_error = NoError, xs_errorText = [], xs_events = []\<rparr>"

definition xs_reset :: "xs_decoder \<Rightarrow> xs_decoder" where
  "xs_reset d = d\<lparr>xs_state := XS_Start, xs_error := NoError, xs_errorText := [], xs_buffer := [],
                  xs_opener := errChunk\<rparr>"

definition xs_resetToPureStream :: "xs_decoder \<Rightarrow> xs_decoder" where
  "xs_resetToPureStream d =
     d\<lparr>xs_state := XS_ReadOpener, xs_error := NoError, xs_errorText := [], xs_buffer := [],
       xs_opener := errChunk\<rparr>"

definition skipWhiteSpaces :: "bytes \<Rightarrow> bytes outcome" where
  "skipWhiteSpaces buffer = ba_l_truncate (length (takeWhile is_white buffer)) buffer"

definition findWhiteSpace :: "string \<Rightarrow> nat option" where
  "findWhiteSpace s = (let p = length (takeWhile (\<lambda>c. \<not> is_white c) s) in if p < length s then Some p else None)"

text \<open>The result is the error code or the element.\<close>

definition fillElement :: "(string \<Rightarrow> rx_node option) \<Rightarrow> bytes \<Rightarrow> nat \<Rightarrow> (error + xml_chunk) outcome" where
  "fillElement rx start len =
     (let prep = take len start
      in if length prep < 2 then Done (Inl BadDeserialization)
         else if drop (length prep - 2) prep = ''/>'' then Done (Inl BadDeserialization)
         else if prep ! 0 \<noteq> CHR ''<'' then Done (Inl BadDeserialization)
         else
           let name = (case findWhiteSpace prep of
                         None \<Rightarrow> take (length prep - 2) (drop 1 prep)
                       | Some np \<Rightarrow> take (np - 1) (drop 1 prep))
           in outcome_bind (parseDocument rx (prep @ ''</'' @ name @ ''>'')) (\<lambda>chunk.
                if xc_error chunk \<or> length (xc_children chunk) \<noteq> 1 then Done (Inl BadDeserialization)
                else Done (Inr (xc_children chunk ! 0))))"

definition xs_fail :: "error \<Rightarrow> string \<Rightarrow> xs_decoder \<Rightarrow> xs_decoder" where
  "xs_fail e msg d = d\<lparr>xs_errorText := msg, xs_error := e, xs_state := XS_Error\<rparr>"

definition xs_consume :: "int \<Rightarrow> xs_decoder \<Rightarrow> xs_decoder outcome" where
  "xs_consume code d =
     outcome_bind (ba_l_truncate (nat code) (xs_buffer d)) (\<lambda>b. Done (d\<lparr>xs_buffer := b\<rparr>))"

definition xs_chunk :: "xml_chunk \<Rightarrow> xs_decoder \<Rightarrow> xs_decoder" where
  "xs_chunk c d = (if xs_hasChunkRead d then d\<lparr>xs_events := xs_events d @ [XS_ChunkRead c]\<rparr> else d)"

text \<open>
  One pass of the loop of \<open>handleData\<close> behind the skipping of white space: whether it goes on
  (\<open>continue\<close>) or returns to wait for more input, and the decoder.
\<close>

definition xs_step :: "(string \<Rightarrow> rx_node option) \<Rightarrow> xs_decoder \<Rightarrow> (bool \<times> xs_decoder) outcome" where
  "xs_step rx d =
     (case xs_state d of
        XS_Start \<Rightarrow>
          let code = xmlBeginning (xs_buffer d)
          in if code = 0 then Done (False, d)
             else if code < 0 then Done (True, xs_fail BadDeserialization ''Invalid XML Begin'' d)
             else outcome_bind (xs_consume code d) (\<lambda>d1. Done (True, d1\<lparr>xs_state := XS_ReadXmlBegin\<rparr>))
      | XS_ReadXmlBegin \<Rightarrow>
          let code = fullTag (xs_buffer d)
          in if code < 0 then Done (True, xs_fail BadDeserialization ''Invalid Start Element'' d)
             else if code = 0 then Done (False, d)
             else outcome_bind (fillElement rx (xs_buffer d) (nat code)) (\<lambda>r. case r of
                    Inl e \<Rightarrow> Done (True, xs_fail e ''Invalid Start element'' d)
                  | Inr opener \<Rightarrow>
                      outcome_bind (xs_consume code (d\<lparr>xs_opener := opener\<rparr>)) (\<lambda>d1.
                        Done (True, d1\<lparr>xs_state := XS_ReadOpener\<rparr>)))
      | XS_ReadOpener \<Rightarrow>
          let code = fullTag (xs_buffer d)
          in if code < 0 then Done (True, xs_fail BadDeserialization ''InvalidElement'' d)
             else if code = 0 then Done (False, d)
             else if length (xs_buffer d) < 2 then Fault OutOfBounds
             else if xs_buffer d ! 0 = CHR ''<'' \<and> xs_buffer d ! 1 = CHR ''/'' then
               outcome_bind (xs_consume code d) (\<lambda>d1. Done (True, d1\<lparr>xs_state := XS_Closed\<rparr>))
             else outcome_bind (completionDetection (xs_buffer d)) (\<lambda>code2.
               if code2 < 0 then Done (True, xs_fail BadDeserialization ''Invalid Element'' d)
               else if code2 = 0 then Done (False, d)
               else outcome_bind (parseDocument rx (take (nat code2) (xs_buffer d))) (\<lambda>chunk.
                 if xc_error chunk \<or> length (xc_children chunk) \<noteq> 1
                 then Done (True, xs_fail BadDeserialization ''Invalid Element'' d)
                 else outcome_bind (xs_consume code2 (xs_chunk (xc_children chunk ! 0) d)) (\<lambda>d1.
                   Done (True, d1))))
      | _ \<Rightarrow> Fault AssertFailed)"

definition xs_notify :: "xs_state \<Rightarrow> xs_decoder \<Rightarrow> xs_decoder" where
  "xs_notify prev d =
     (if xs_state d \<noteq> prev \<and> xs_hasStateChange d
      then d\<lparr>xs_events := xs_events d @ [XS_StateChange (xs_state d)]\<rparr> else d)"

definition xs_skip :: "xs_decoder \<Rightarrow> xs_decoder outcome" where
  "xs_skip d = outcome_bind (skipWhiteSpaces (xs_buffer d)) (\<lambda>b. Done (d\<lparr>xs_buffer := b\<rparr>))"

text \<open>The codes of the scanners never exceed the text, so that the truncations are allowed.\<close>

lemma ft_loop_bounds: "ft_loop i q s \<le> int (i + length s) \<and> 0 \<le> ft_loop i q s \<and> (ft_loop i q s \<noteq> 0 \<longrightarrow> int i < ft_loop i q s)"
  by (induction i q s rule: ft_loop.induct) (auto simp: Let_def)

lemma fullTag_le: "fullTag b \<le> int (length b)"
  using ft_loop_bounds [of "beginOfNext b" "(False, False)" "drop (beginOfNext b) b"] beginOfNext_le [of b]
  by (auto simp: fullTag_def Let_def split: if_splits)

lemma xmlBeginning_le: "xmlBeginning b \<le> int (length b)"
  using fullTag_le [of b] by (auto simp: xmlBeginning_def Let_def split: if_splits)

lemma xs_skip_Done: "xs_skip d = Done (d\<lparr>xs_buffer := dropWhile is_white (xs_buffer d)\<rparr>)"
  by (simp add: xs_skip_def skipWhiteSpaces_def ba_l_truncate_def length_takeWhile_le dropWhile_eq_drop)

lemma xs_consume_Done:
  "code \<le> int (length (xs_buffer d)) \<Longrightarrow> xs_consume code d = Done (d\<lparr>xs_buffer := drop (nat code) (xs_buffer d)\<rparr>)"
  by (simp add: xs_consume_def ba_l_truncate_def)

lemma xs_simps [simp]:
  "xs_state (xs_notify b d) = xs_state d" "xs_buffer (xs_notify b d) = xs_buffer d"
  "xs_state (xs_fail e m d) = XS_Error" "xs_state (xs_chunk c d) = xs_state d"
  "xs_buffer (xs_chunk c d) = xs_buffer d"
  by (simp_all add: xs_notify_def xs_fail_def xs_chunk_def)

text \<open>The pass with its truncations carried out.\<close>

lemma xs_step_eq:
  "xs_step rx d =
     (case xs_state d of
        XS_Start \<Rightarrow>
          let code = xmlBeginning (xs_buffer d)
          in if code = 0 then Done (False, d)
             else if code < 0 then Done (True, xs_fail BadDeserialization ''Invalid XML Begin'' d)
             else Done (True, d\<lparr>xs_buffer := drop (nat code) (xs_buffer d), xs_state := XS_ReadXmlBegin\<rparr>)
      | XS_ReadXmlBegin \<Rightarrow>
          let code = fullTag (xs_buffer d)
          in if code < 0 then Done (True, xs_fail BadDeserialization ''Invalid Start Element'' d)
             else if code = 0 then Done (False, d)
             else (case fillElement rx (xs_buffer d) (nat code) of
                     Fault f \<Rightarrow> Fault f
                   | Done (Inl e) \<Rightarrow> Done (True, xs_fail e ''Invalid Start element'' d)
                   | Done (Inr opener) \<Rightarrow> Done (True, d\<lparr>xs_opener := opener,
                       xs_buffer := drop (nat code) (xs_buffer d), xs_state := XS_ReadOpener\<rparr>))
      | XS_ReadOpener \<Rightarrow>
          let code = fullTag (xs_buffer d)
          in if code < 0 then Done (True, xs_fail BadDeserialization ''InvalidElement'' d)
             else if code = 0 then Done (False, d)
             else if length (xs_buffer d) < 2 then Fault OutOfBounds
             else if xs_buffer d ! 0 = CHR ''<'' \<and> xs_buffer d ! 1 = CHR ''/'' then
               Done (True, d\<lparr>xs_buffer := drop (nat code) (xs_buffer d), xs_state := XS_Closed\<rparr>)
             else (case completionDetection (xs_buffer d) of
                     Fault f \<Rightarrow> Fault f
                   | Done code2 \<Rightarrow>
               if code2 < 0 then Done (True, xs_fail BadDeserialization ''Invalid Element'' d)
               else if code2 = 0 then Done (False, d)
               else (case parseDocument rx (take (nat code2) (xs_buffer d)) of
                       Fault f \<Rightarrow> Fault f
                     | Done chunk \<Rightarrow>
                 if xc_error chunk \<or> length (xc_children chunk) \<noteq> 1
                 then Done (True, xs_fail BadDeserialization ''Invalid Element'' d)
                 else Done (True, (xs_chunk (xc_children chunk ! 0) d)\<lparr>xs_buffer := drop (nat code2) (xs_buffer d)\<rparr>)))
      | _ \<Rightarrow> Fault AssertFailed)"
  using fullTag_le [of "xs_buffer d"] xmlBeginning_le [of "xs_buffer d"] completion_le [of "xs_buffer d"]
  by (auto simp: xs_step_def Let_def xs_consume_Done split: xs_state.split outcome.split sum.split)

lemma completion_nonempty: "completionDetection b = Done n \<Longrightarrow> 0 < n \<Longrightarrow> b \<noteq> []"
  using completion_pos(1) by fastforce

text \<open>A pass that goes on comes to a later state or consumes input.\<close>

fun xs_rank :: "xs_state \<Rightarrow> nat" where
  "xs_rank XS_Start = 3"
| "xs_rank XS_ReadXmlBegin = 2"
| "xs_rank XS_ReadOpener = 1"
| "xs_rank _ = 0"

lemma xs_step_progress:
  assumes "xs_step rx d = Done (True, d')"
  shows "xs_rank (xs_state d') < xs_rank (xs_state d) \<or>
     xs_state d' = xs_state d \<and> length (xs_buffer d') < length (xs_buffer d)"
  using assms completion_nonempty [of "xs_buffer d"]
  by (cases "xs_state d") (auto simp: xs_step_eq Let_def split: if_splits sum.splits outcome.splits)

function xs_handle :: "(string \<Rightarrow> rx_node option) \<Rightarrow> xs_state \<Rightarrow> xs_decoder \<Rightarrow> xs_decoder outcome" where
  "xs_handle rx prev d =
     (let d1 = xs_notify prev d
      in if xs_state d1 = XS_Closed \<or> xs_state d1 = XS_Error then Done d1
         else case outcome_bind (xs_skip d1) (xs_step rx) of
                Fault f \<Rightarrow> Fault f
              | Done (go, d2) \<Rightarrow> if go then xs_handle rx (xs_state d1) d2 else Done d2)"
  by pat_completeness auto
termination
proof (relation "measures [\<lambda>(rx, b, d). xs_rank (xs_state d), \<lambda>(rx, b, d). length (xs_buffer d)]")
  fix rx prev d d1 x go and d2 :: xs_decoder
  assume "d1 = xs_notify prev d" and "\<not> (xs_state d1 = XS_Closed \<or> xs_state d1 = XS_Error)"
    and "outcome_bind (xs_skip d1) (xs_step rx) = Done x" and "(go, d2) = x" and "go"
  then have "xs_step rx (d1\<lparr>xs_buffer := dropWhile is_white (xs_buffer d)\<rparr>) = Done (True, d2)"
    "d1 = xs_notify prev d" by (auto simp: xs_skip_Done)
  with xs_step_progress [OF this(1)] length_dropWhile_le [of is_white "xs_buffer d"]
  show "((rx, xs_state d1, d2), rx, prev, d)
    \<in> measures [\<lambda>(rx, b, d). xs_rank (xs_state d), \<lambda>(rx, b, d). length (xs_buffer d)]"
    by auto
qed simp

declare xs_handle.simps [simp del]

definition xs_onWrite :: "(string \<Rightarrow> rx_node option) \<Rightarrow> bytes \<Rightarrow> xs_decoder \<Rightarrow> (error \<times> xs_decoder) outcome" where
  "xs_onWrite rx data d =
     outcome_bind (xs_handle rx (xs_state d) (d\<lparr>xs_buffer := xs_buffer d @ data\<rparr>)) (\<lambda>d1.
       Done (if xs_state d1 = XS_Error then xs_error d1 else NoError, d1))"

subsection \<open>Input in pieces\<close>

text \<open>What the decoder relies on in the parser: a document it accepts does not end in a slash.\<close>

definition rx_ok :: "(string \<Rightarrow> rx_node option) \<Rightarrow> bool" where
  "rx_ok rx \<longleftrightarrow> (\<forall>s doc. rx s = Some doc \<longrightarrow> s \<noteq> [] \<longrightarrow> last s \<noteq> CHR ''/'')"

lemma ft_loop_append: "0 < ft_loop i q a \<Longrightarrow> ft_loop i q (a @ b) = ft_loop i q a"
proof (induction i q a rule: ft_loop.induct)
  case (2 i q c r)
  then show ?case by (cases "c = CHR ''>'' \<and> \<not> fst (ft_quote c q)") (auto simp: Let_def)
qed simp

lemma fullTag_begun: "fullTag a \<noteq> 0 \<Longrightarrow> beginOfNext a < length a"
  using beginOfNext_le [of a] by (cases "beginOfNext a = length a") (auto simp: fullTag_def Let_def)

lemma fullTag_append:
  assumes "fullTag a \<noteq> 0"
  shows "fullTag (a @ b) = fullTag a"
proof -
  have lt: "beginOfNext a < length a"
    by (rule fullTag_begun [OF assms])
  with beginOfNext_append [OF lt, of b] ft_loop_append [of "beginOfNext a" "(False, False)" "drop (beginOfNext a) a" b]
    ft_loop_bounds [of "beginOfNext a" "(False, False)" "drop (beginOfNext a) a"] assms
  show ?thesis by (auto simp: fullTag_def Let_def nth_append)
qed

lemma take_drop_append: "n + k \<le> length a \<Longrightarrow> take n (drop k (a @ b)) = take n (drop k a)"
  by simp

lemma xmlBeginning_append:
  assumes "xmlBeginning a \<noteq> 0"
  shows "xmlBeginning (a @ b) = xmlBeginning a"
proof -
  have e: "fullTag a \<noteq> 0" using assms by (auto simp: xmlBeginning_def)
  note eqs = xmlBeginning_def Let_def beginOfNext_append [OF fullTag_begun [OF e]] fullTag_append [OF e]
  show ?thesis
  proof (cases "fullTag a < 0 \<or> nat (fullTag a) - beginOfNext a < 6")
    case True
    then show ?thesis unfolding eqs by (elim disjE) (simp_all only: if_True if_cancel)
  next
    case False
    then have "5 + beginOfNext a \<le> length a" "2 + (nat (fullTag a) - beginOfNext a - 2) \<le> length a"
      using fullTag_le [of a] by linarith+
    then show ?thesis unfolding eqs by (simp only: take_drop_append)
  qed
qed

lemma cd_pass_no_nul:
  assumes "cd_pass s c (char_at r 0) (char_at r 1) (char_at r 2) = CD_Next k s'"
  shows "c \<noteq> CHR 0x00" and "CHR 0x00 \<notin> set (take k r)"
proof -
  show "c \<noteq> CHR 0x00" using assms by (auto simp: cd_pass_def)
  have k: "k \<le> length r" by (rule cd_pass_skip(1) [OF assms])
  show "CHR 0x00 \<notin> set (take k r)"
  proof
    assume "CHR 0x00 \<in> set (take k r)"
    then obtain j where j: "j < k" "r ! j = CHR 0x00" by (auto simp: in_set_conv_nth)
    then have "char_at r j = CHR 0x00" using k by (simp add: char_at_def)
    moreover have "k \<le> 3" using cd_pass_needs(1) [OF assms] by linarith
    then have "j = 0 \<or> j = 1 \<or> j = 2" using j(1) by linarith
    ultimately show False using cd_pass_needs(1) [OF assms] j(1) by (elim disjE) simp_all
  qed
qed

text \<open>The part of the input that makes a complete element has no NUL in it.\<close>

lemma cd_loop_no_nul:
  "0 < cd_loop i s t \<Longrightarrow> CHR 0x00 \<notin> set (take (nat (cd_loop i s t) - i) t)"
proof (induction i s t rule: cd_loop.induct)
  case (2 i s c r)
  show ?case
  proof (cases "cd_pass s c (char_at r 0) (char_at r 1) (char_at r 2)")
    case (CD_Error code)
    with cd_pass_needs(3) [OF CD_Error] "2.prems" show ?thesis by (simp add: cd_loop.simps(2))
  next
    case (CD_Ready k)
    have c: "c \<noteq> CHR 0x00" using CD_Ready by (auto simp: cd_pass_def)
    have "CHR 0x00 \<notin> set (take k r)"
      using cd_pass_needs(2) [OF CD_Ready] char_at_nonzero [of r 0]
      by (cases r) (auto simp: char_at_def)
    moreover have "nat (int (i + k) + 1) - i = Suc k" by simp
    ultimately show ?thesis using CD_Ready c by (simp add: cd_loop.simps(2))
  next
    case (CD_Next k s')
    have res: "cd_loop i s (c # r) = cd_loop (i + k + 1) s' (drop k r)"
      using CD_Next by (simp add: cd_loop.simps(2))
    with "2.prems" have pos: "0 < cd_loop (i + k + 1) s' (drop k r)" by simp
    with cd_loop_bounds [of "i + k + 1" s' "drop k r"]
    have gt: "i + k + 1 < nat (cd_loop (i + k + 1) s' (drop k r))" by linarith
    then obtain n where n: "nat (cd_loop (i + k + 1) s' (drop k r)) = i + k + 1 + n" by (metis less_imp_add_positive)
    then have "nat (cd_loop (i + k + 1) s' (drop k r)) - i = Suc (k + n)"
      "nat (cd_loop (i + k + 1) s' (drop k r)) - (i + k + 1) = n" by simp_all
    then show ?thesis
      using "2.IH" [OF CD_Next pos] cd_pass_no_nul [OF CD_Next] by (auto simp: res take_add)
  qed
qed simp

lemma completion_no_nul:
  assumes "completionDetection b = Done n" and "0 < n"
  shows "CHR 0x00 \<notin> set (take (nat n) b)"
proof -
  let ?w = "beginOfNext b"
  have n: "n = cd_loop ?w cd_init (drop ?w b)" by (rule completion_pos(4) [OF assms])
  then have gt: "?w < nat n" using cd_loop_bounds [of ?w cd_init "drop ?w b"] assms(2) by linarith
  have "take ?w b = takeWhile is_white b" unfolding beginOfNext_def by (rule takeWhile_eq_take [symmetric])
  then have "CHR 0x00 \<notin> set (take ?w b)" by (auto simp: is_white_def dest: set_takeWhileD)
  moreover have "take (nat n) b = take ?w b @ take (nat n - ?w) (drop ?w b)"
    using gt take_add [of ?w "nat n - ?w" b] by simp
  moreover have "CHR 0x00 \<notin> set (take (nat n - ?w) (drop ?w b))"
    using cd_loop_no_nul [of ?w cd_init "drop ?w b"] assms(2) unfolding n [symmetric] by blast
  ultimately show ?thesis by (metis Un_iff set_append)
qed

lemma completion_append:
  assumes "completionDetection b = Done n" and "0 < n" and "rx_ok rx"
    and "parseDocument rx (take (nat n) b) = Done chunk" and "\<not> xc_error chunk"
  shows "completionDetection (b @ later) = Done n"
proof -
  have len: "nat n \<le> length b" using completion_le [OF assms(1)] by simp
  have cut: "cstr (take (nat n) b) = take (nat n) b" by (rule cstr_id [OF completion_no_nul [OF assms(1,2)]])
  obtain doc where "rx (take (nat n) b) = Some doc"
    using assms(4,5) unfolding parseDocument_def cut by (auto simp: errChunk_def split: option.splits)
  moreover have "take (nat n) b \<noteq> []" using assms(2) len by auto
  ultimately have "last (take (nat n) b) \<noteq> CHR ''/''" using assms(3) unfolding rx_ok_def by blast
  moreover have "last (take (nat n) b) = b ! (nat n - 1)"
    using len assms(2) by (subst last_conv_nth) auto
  ultimately show ?thesis
    using completion_detected_append [OF assms(1,2)] by simp
qed

definition xs_more :: "bytes \<Rightarrow> xs_decoder \<Rightarrow> xs_decoder" where
  "xs_more b d = d\<lparr>xs_buffer := xs_buffer d @ b\<rparr>"

lemma xs_more_simps [simp]:
  "xs_state (xs_more b d) = xs_state d" "xs_buffer (xs_more b d) = xs_buffer d @ b"
  "xs_notify p (xs_more b d) = xs_more b (xs_notify p d)"
  by (simp_all add: xs_more_def xs_notify_def)

text \<open>A pass that went on without an error does the same when more input is there.\<close>

lemma xs_step_more:
  assumes "rx_ok rx" and "xs_step rx d = Done (True, d')" and "xs_state d' \<noteq> XS_Error"
  shows "xs_step rx (xs_more b d) = Done (True, xs_more b d')"
proof (cases "xs_state d")
  case XS_Start
  with assms(2,3) have c: "0 < xmlBeginning (xs_buffer d)"
    and d': "d' = d\<lparr>xs_buffer := drop (nat (xmlBeginning (xs_buffer d))) (xs_buffer d), xs_state := XS_ReadXmlBegin\<rparr>"
    by (auto simp: xs_step_eq Let_def split: if_splits)
  then show ?thesis
    using XS_Start xmlBeginning_append [of "xs_buffer d" b] xmlBeginning_le [of "xs_buffer d"]
    by (simp add: xs_step_eq Let_def) (simp add: xs_more_def)
next
  case XS_ReadXmlBegin
  with assms(2,3) obtain opener where c: "0 < fullTag (xs_buffer d)"
    and f: "fillElement rx (xs_buffer d) (nat (fullTag (xs_buffer d))) = Done (Inr opener)"
    and d': "d' = d\<lparr>xs_opener := opener, xs_buffer := drop (nat (fullTag (xs_buffer d))) (xs_buffer d),
      xs_state := XS_ReadOpener\<rparr>"
    by (auto simp: xs_step_eq Let_def split: if_splits outcome.splits sum.splits)
  have "fillElement rx (xs_buffer d @ b) (nat (fullTag (xs_buffer d))) = Done (Inr opener)"
    using f fullTag_le [of "xs_buffer d"] by (simp add: fillElement_def)
  then show ?thesis
    using XS_ReadXmlBegin c d' fullTag_append [of "xs_buffer d" b] fullTag_le [of "xs_buffer d"]
    by (simp add: xs_step_eq Let_def) (simp add: xs_more_def)
next
  case XS_ReadOpener
  let ?x = "xs_buffer d"
  have c: "0 < fullTag ?x" and l: "2 \<le> length ?x"
    using assms(2,3) XS_ReadOpener by (auto simp: xs_step_eq Let_def split: if_splits)
  have same: "fullTag (?x @ b) = fullTag ?x" "(?x @ b) ! 0 = ?x ! 0" "(?x @ b) ! 1 = ?x ! 1"
    using c l fullTag_append [of ?x b] by (auto simp: nth_append)
  show ?thesis
  proof (cases "?x ! 0 = CHR ''<'' \<and> ?x ! 1 = CHR ''/''")
    case True
    with assms(2) XS_ReadOpener c l have "d' = d\<lparr>xs_buffer := drop (nat (fullTag ?x)) ?x, xs_state := XS_Closed\<rparr>"
      by (auto simp: xs_step_eq Let_def split: if_splits)
    then show ?thesis
      using True XS_ReadOpener c l same fullTag_le [of ?x]
      by (simp add: xs_step_eq Let_def) (simp add: xs_more_def)
  next
    case False
    with assms(2,3) XS_ReadOpener c l obtain n chunk where n: "completionDetection ?x = Done n" "0 < n"
      and p: "parseDocument rx (take (nat n) ?x) = Done chunk" "\<not> xc_error chunk" "length (xc_children chunk) = 1"
      and d': "d' = (xs_chunk (xc_children chunk ! 0) d)\<lparr>xs_buffer := drop (nat n) ?x\<rparr>"
      by (auto simp: xs_step_eq Let_def split: if_splits outcome.splits)
    have le: "nat n \<le> length ?x" using completion_le [OF n(1)] by simp
    have "completionDetection (?x @ b) = Done n" by (rule completion_append [OF n assms(1) p(1,2)])
    then show ?thesis
      using False XS_ReadOpener c l same n p d' le
      by (auto simp: xs_step_eq Let_def xs_more_def xs_chunk_def)
  qed
qed (use assms(2) in \<open>auto simp: xs_step_eq\<close>)

lemma xs_step_wait: "xs_step rx d = Done (False, d') \<Longrightarrow> d' = d"
  by (cases "xs_state d") (auto simp: xs_step_eq Let_def split: if_splits outcome.splits sum.splits)

lemma xs_step_nonempty: "xs_step rx d = Done (True, d') \<Longrightarrow> xs_buffer d \<noteq> []"
  by (cases "xs_state d") (auto simp: xs_step_eq xmlBeginning_def fullTag_def beginOfNext_def)

lemma xs_handle_error: "xs_state d = XS_Error \<Longrightarrow> xs_handle rx p d = Done (xs_notify p d)"
  by (simp add: xs_handle.simps)

lemma dropWhile_twice: "dropWhile P (dropWhile P x @ b) = dropWhile P (x @ b)"
  by (induction x) auto

lemma dropWhile_append_left: "dropWhile P x \<noteq> [] \<Longrightarrow> dropWhile P (x @ b) = dropWhile P x @ b"
  by (induction x) auto

text \<open>The loop in terms of the pass.\<close>

lemma xs_handle_eq:
  "xs_handle rx p d =
     (if xs_state d = XS_Closed \<or> xs_state d = XS_Error then Done (xs_notify p d)
      else case xs_step rx ((xs_notify p d)\<lparr>xs_buffer := dropWhile is_white (xs_buffer d)\<rparr>) of
             Fault f \<Rightarrow> Fault f
           | Done (go, d2) \<Rightarrow> if go then xs_handle rx (xs_state d) d2 else Done d2)"
  by (subst xs_handle.simps) (simp add: xs_skip_Done Let_def split: outcome.split)

lemma xs_handle_more:
  "xs_handle rx p d = Done d1 \<Longrightarrow> rx_ok rx \<Longrightarrow> xs_state d1 \<noteq> XS_Error \<Longrightarrow>
     xs_handle rx (xs_state d1) (xs_more b d1) = xs_handle rx p (xs_more b d)"
proof (induction rx p d arbitrary: d1 rule: xs_handle.induct)
  case (1 rx p d)
  let ?d = "xs_notify p d"
  let ?s = "?d\<lparr>xs_buffer := dropWhile is_white (xs_buffer d)\<rparr>"
  have self: "xs_state e = q \<Longrightarrow> xs_notify q e = e" for e q by (simp add: xs_notify_def)
  show ?case
  proof (cases "xs_state d = XS_Closed \<or> xs_state d = XS_Error")
    case True
    with "1.prems"(1) have "d1 = ?d" by (simp add: xs_handle_eq)
    with True show ?thesis
      by (simp add: xs_handle_eq [of rx p] xs_handle_eq [of rx "xs_state d"])
        (simp add: xs_notify_def)
  next
    case False
    then obtain go d2 where st: "xs_step rx ?s = Done (go, d2)"
      and d1: "if go then xs_handle rx (xs_state d) d2 = Done d1 else d1 = d2"
      using "1.prems"(1) by (auto simp: xs_handle_eq [of rx p] split: outcome.splits if_splits)
    show ?thesis
    proof (cases go)
      case True
      then have st: "xs_step rx ?s = Done (True, d2)" and h: "xs_handle rx (xs_state d) d2 = Done d1"
        using st d1 by simp_all
      have ok: "xs_state d2 \<noteq> XS_Error"
        using h "1.prems"(3) by (auto simp: xs_handle_error)
      have ne: "dropWhile is_white (xs_buffer d) \<noteq> []" using xs_step_nonempty [OF st] by simp
      have "(xs_notify p (xs_more b d))\<lparr>xs_buffer := dropWhile is_white (xs_buffer (xs_more b d))\<rparr> = xs_more b ?s"
        by (simp add: dropWhile_append_left [OF ne]) (simp add: xs_more_def)
      then have "xs_handle rx p (xs_more b d) = xs_handle rx (xs_state d) (xs_more b d2)"
        using False xs_step_more [OF "1.prems"(2) st ok, of b] by (simp add: xs_handle_eq [of rx p])
      moreover have "xs_handle rx (xs_state d1) (xs_more b d1) = xs_handle rx (xs_state d) (xs_more b d2)"
        using "1.IH" [of ?d "(True, d2)" True d2 d1] False st h "1.prems"(2,3) by (simp add: xs_skip_Done)
      ultimately show ?thesis by simp
    next
      case no: False
      then have s: "d1 = ?s" using st d1 xs_step_wait by auto
      then have sd: "xs_state d1 = xs_state d" by simp
      from s have "(xs_notify (xs_state d1) (xs_more b d1))\<lparr>xs_buffer := dropWhile is_white (xs_buffer (xs_more b d1))\<rparr> =
          (xs_notify p (xs_more b d))\<lparr>xs_buffer := dropWhile is_white (xs_buffer (xs_more b d))\<rparr>"
        by (simp add: dropWhile_twice self) (simp add: xs_more_def self)
      then show ?thesis
        using False unfolding xs_handle_eq [of rx p "xs_more b d"] xs_handle_eq [of rx "xs_state d1" "xs_more b d1"]
        by (simp only: xs_more_simps(1) sd simp_thms if_False)
    qed
  qed
qed

text \<open>
  C25. If a first piece of input is decoded without an error, then writing a second piece gives
  the same as writing both at once: the same elements and state changes in the same order, the
  same state and the same input left.
\<close>

theorem stream_pieces:
  assumes "rx_ok rx" and "xs_onWrite rx a d = Done (e, d1)" and "xs_state d1 \<noteq> XS_Error"
  shows "e = NoError \<and> xs_onWrite rx b d1 = xs_onWrite rx (a @ b) d"
proof -
  have h: "xs_handle rx (xs_state d) (xs_more a d) = Done d1" and "e = NoError"
    using assms(2,3) by (auto simp: xs_onWrite_def xs_more_def)
  moreover have "xs_more b (xs_more a d) = xs_more (a @ b) d" by (simp add: xs_more_def)
  ultimately show ?thesis
    using xs_handle_more [OF h assms(1,3), of b] by (simp add: xs_onWrite_def xs_more_def)
qed

definition demo_rx :: "string \<Rightarrow> rx_node option" where
  "demo_rx s = (if s \<noteq> [] \<and> last s = CHR ''>'' then Some (RX RX_document [] [] [] [RX RX_element s [] [] []]) else None)"

lemma stream_pieces_witness:
  "\<exists>d1. xs_onWrite demo_rx ''<a/> <b'' (xs_resetToPureStream xs_new) = Done (NoError, d1) \<and>
     xs_onWrite demo_rx ''/>'' d1 = xs_onWrite demo_rx ''<a/> <b/>'' (xs_resetToPureStream xs_new)"
proof -
  have ok: "rx_ok demo_rx" by (simp add: rx_ok_def demo_rx_def)
  have "case xs_onWrite demo_rx ''<a/> <b'' (xs_resetToPureStream xs_new) of
      Done (e, d1) \<Rightarrow> xs_state d1 = XS_ReadOpener | _ \<Rightarrow> False" by code_simp
  then obtain e d1 where d1: "xs_onWrite demo_rx ''<a/> <b'' (xs_resetToPureStream xs_new) = Done (e, d1)"
    "xs_state d1 \<noteq> XS_Error" by (auto split: outcome.splits prod.splits)
  from stream_pieces [OF ok d1, of "''/>''"] d1(1) show ?thesis by auto
qed

end
