(* ===== verification/Sf_Http.thy ===== *)
theory Sf_Http
  imports Sf_Bytes
begin

text \<open>
  HTTP (\<open>libschnee/schnee/net/http\<close>): URLs (\<open>Url.h\<close>, \<open>Url.cpp\<close>), the builder of requests
  (\<open>HttpRequest.h\<close>, \<open>HttpRequest.cpp\<close>) and the parser of responses (\<open>HttpResponse.h\<close>,
  \<open>impl/HttpResponseParser.h\<close>, \<open>impl/HttpResponseParser.cpp\<close>).

  \<open>boost::lexical_cast\<close> to a number is a parameter from the text to \<open>None\<close>, a bad cast, or the
  number.  \<open>sscanf\<close> of the C library is modelled for the three formats in use; a number that does
  not fit its variable is undefined behaviour there.
\<close>

subsection \<open>URLs\<close>

record url =
  u_protocol :: string
  u_host :: string
  u_path :: string
  u_query :: string

definition tolower :: "char \<Rightarrow> char" where
  "tolower c = (let n = of_char c :: nat in if 65 \<le> n \<and> n \<le> 90 then char_of (n + 32) else c)"

definition toupper :: "char \<Rightarrow> char" where
  "toupper c = (let n = of_char c :: nat in if 97 \<le> n \<and> n \<le> 122 then char_of (n - 32) else c)"

definition url_parse :: "string \<Rightarrow> url" where
  "url_parse s =
     (let (protocol, rest) =
            (case str_search ''://'' s of
               None \<Rightarrow> (''http'', s)
             | Some (a, b) \<Rightarrow> (map tolower a, drop 3 b));
          host = takeWhile (\<lambda>c. c \<noteq> CHR ''/'') rest;
          from_path = dropWhile (\<lambda>c. c \<noteq> CHR ''/'') rest;
          path = takeWhile (\<lambda>c. c \<noteq> CHR ''?'') from_path;
          from_query = dropWhile (\<lambda>c. c \<noteq> CHR ''?'') from_path
      in \<lparr>u_protocol = protocol, u_host = map tolower host, u_path = path, u_query = drop 1 from_query\<rparr>)"

definition url_toString :: "url \<Rightarrow> string" where
  "url_toString u =
     u_protocol u @ ''://'' @ u_host u @ u_path u @ (if u_query u = [] then [] else ''?'' @ u_query u)"

definition url_pureHost :: "url \<Rightarrow> string" where
  "url_pureHost u = (case str_find (CHR '':'') (u_host u) of None \<Rightarrow> u_host u | Some p \<Rightarrow> take p (u_host u))"

definition url_port :: "(string \<Rightarrow> int option) \<Rightarrow> url \<Rightarrow> int" where
  "url_port lexical_cast u =
     (case str_find (CHR '':'') (u_host u) of
        Some p \<Rightarrow> (case lexical_cast (drop (p + 1) (u_host u)) of Some n \<Rightarrow> n | None \<Rightarrow> 0)
      | None \<Rightarrow> if u_protocol u = ''http'' then 80 else if u_protocol u = ''https'' then 443 else 0)"

subsection \<open>Requests\<close>

datatype http_version = HTTP_UNKNOWN | HTTP_10 | HTTP_11

definition crlf :: string where
  "crlf = [CHR 0x0D, CHR 0x0A]"

record http_request =
  hr_destination :: bytes
  hr_url :: url
  hr_started :: bool
  hr_ended :: bool
  hr_hasContent :: bool

definition hr_new :: http_request where
  "hr_new = \<lparr>hr_destination = [], hr_url = \<lparr>u_protocol = [], u_host = [], u_path = [], u_query = []\<rparr>,
             hr_started = False, hr_ended = False, hr_hasContent = False\<rparr>"

definition hr_put :: "string \<Rightarrow> http_request \<Rightarrow> http_request" where
  "hr_put s r = r\<lparr>hr_destination := hr_destination r @ s\<rparr>"

definition hr_addHeader :: "string \<Rightarrow> string \<Rightarrow> http_request \<Rightarrow> http_request" where
  "hr_addHeader key val r = hr_put (key @ '': '' @ val @ crlf) r"

definition hr_start :: "string \<Rightarrow> url \<Rightarrow> http_version \<Rightarrow> http_request \<Rightarrow> http_request" where
  "hr_start meth u version r =
     (let r1 = (hr_put (map toupper meth @ '' '') r)\<lparr>hr_url := u\<rparr>;
          r2 = (if u_query u = [] then hr_put (u_path u @ '' '') r1
                else hr_put (u_path u @ ''?'' @ u_query u) r1);
          r3 = hr_put (if version = HTTP_11 then ''HTTP/1.1'' else ''HTTP/1.0'') r2;
          r4 = (hr_put crlf r3)\<lparr>hr_started := True\<rparr>
      in if version = HTTP_11 then hr_addHeader ''Host'' (u_host u) r4 else r4)"

definition hr_end :: "http_request \<Rightarrow> http_request" where
  "hr_end r = (hr_put crlf r)\<lparr>hr_ended := True\<rparr>"

fun dec_string :: "nat \<Rightarrow> string" where
  "dec_string n = (if n < 10 then [char_of (48 + n)] else dec_string (n div 10) @ [char_of (48 + n mod 10)])"

declare dec_string.simps [simp del]

definition hr_addContent :: "bytes \<Rightarrow> http_request \<Rightarrow> http_request" where
  "hr_addContent content r =
     (hr_put content (hr_put crlf (hr_addHeader ''Content-Length'' (dec_string (length content)) r)))
       \<lparr>hr_hasContent := True\<rparr>"

definition hr_result :: "http_request \<Rightarrow> bytes" where
  "hr_result r = hr_destination r"

subsection \<open>Numbers as \<open>sscanf\<close> reads them\<close>

definition is_cspace :: "char \<Rightarrow> bool" where
  "is_cspace c \<longleftrightarrow> c = CHR '' '' \<or> (9 \<le> (of_char c :: nat) \<and> (of_char c :: nat) \<le> 13)"

definition digit_value :: "nat \<Rightarrow> char \<Rightarrow> nat option" where
  "digit_value base c =
     (let n = of_char c :: nat;
          v = (if 48 \<le> n \<and> n \<le> 57 then Some (n - 48)
               else if 97 \<le> n \<and> n \<le> 122 then Some (n - 87)
               else if 65 \<le> n \<and> n \<le> 90 then Some (n - 55) else None)
      in case v of Some d \<Rightarrow> if d < base then Some d else None | None \<Rightarrow> None)"

text \<open>The digits at the front, \<open>None\<close> if there are none.\<close>

definition scan_digits :: "nat \<Rightarrow> string \<Rightarrow> nat option" where
  "scan_digits base s =
     (let ds = takeWhile (\<lambda>c. digit_value base c \<noteq> None) s
      in if ds = [] then None
         else Some (foldl (\<lambda>n c. n * base + the (digit_value base c)) 0 ds))"

definition scan_sign :: "string \<Rightarrow> int \<times> string" where
  "scan_sign s = (case s of c # r \<Rightarrow> if c = CHR ''-'' then (-1, r) else if c = CHR ''+'' then (1, r) else (1, s)
                          | [] \<Rightarrow> (1, s))"

definition scan_d :: "string \<Rightarrow> int option" where
  "scan_d s =
     (let (sign, r) = scan_sign (dropWhile is_cspace s)
      in map_option (\<lambda>n. sign * int n) (scan_digits 10 r))"

definition scan_x :: "string \<Rightarrow> int option" where
  "scan_x s =
     (let (sign, r) = scan_sign (dropWhile is_cspace s);
          r1 = (if take 2 r = ''0x'' \<or> take 2 r = ''0X'' then drop 2 r else r)
      in map_option (\<lambda>n. sign * int n) (scan_digits 16 r1))"

text \<open>
  \<open>sscanf (line, "HTTP/1.x %d", ..)\<close>: a blank of the format skips any white space.  The value
  is \<open>None\<close> if nothing was converted.
\<close>

definition scan_http :: "string \<Rightarrow> string \<Rightarrow> int option" where
  "scan_http protocol line =
     (if take (length protocol) line = protocol then scan_d (drop (length protocol) line) else None)"

subsection \<open>The parser of responses\<close>

record http_response =
  rs_resultCode :: int
  rs_httpVersion :: http_version
  rs_headers :: "(string, string) smap"
  rs_data :: "bytes option"
  rs_authenticated :: bool

definition rs_new :: http_response where
  "rs_new = \<lparr>rs_resultCode = 0, rs_httpVersion = HTTP_UNKNOWN, rs_headers = [], rs_data = None,
             rs_authenticated = False\<rparr>"

datatype hp_state =
    HP_START | HP_INHEADERS | HP_INCONTENT | HP_INCONTENT_CHUNKBEGIN | HP_INCONTENT_CHUNK | HP_INFOOTERS

record http_parser =
  hp_nextScanLinePos :: nat
  hp_contentLength :: nat
  hp_contentLengthSet :: bool
  hp_chunkedEncoding :: bool
  hp_state :: hp_state
  hp_ready :: bool
  hp_result :: error
  hp_input :: bytes
  hp_response :: http_response

text \<open>The constructor does not set \<open>mChunkedEncoding\<close>: it is what was in the memory before.\<close>

definition hp_new :: "bool \<Rightarrow> http_parser" where
  "hp_new garbage =
     \<lparr>hp_nextScanLinePos = 0, hp_contentLength = 0, hp_contentLengthSet = False,
      hp_chunkedEncoding = garbage, hp_state = HP_START, hp_ready = False, hp_result = NoError,
      hp_input = [], hp_response = rs_new\<rparr>"

definition hp_fail :: "error \<Rightarrow> http_parser \<Rightarrow> http_parser" where
  "hp_fail e p = p\<lparr>hp_ready := True, hp_result := e\<rparr>"

text \<open>The scan for the end of a line from position \<open>i\<close>, on the input from there on.\<close>

datatype hp_found = Scan_Nul nat | Scan_Line nat nat | Scan_None nat

fun hp_scan :: "nat \<Rightarrow> bytes \<Rightarrow> hp_found" where
  "hp_scan i (c # d # r) =
     (if c = CHR 0x00 then Scan_Nul i
      else if c = CHR 0x0A \<or> (c = CHR 0x0D \<and> d = CHR 0x0A)
           then Scan_Line i (i + (if c = CHR 0x0D then 2 else 1))
      else hp_scan (i + 1) (d # r))"
| "hp_scan i s = Scan_None i"

text \<open>The result and the out parameter: a line that is not found leaves it alone.\<close>

definition hp_consumeLine :: "string \<Rightarrow> http_parser \<Rightarrow> (bool \<times> string \<times> http_parser) outcome" where
  "hp_consumeLine line p =
     (case hp_scan (hp_nextScanLinePos p) (drop (hp_nextScanLinePos p) (hp_input p)) of
        Scan_Nul i \<Rightarrow> Done (True, line, p\<lparr>hp_nextScanLinePos := i, hp_ready := True, hp_result := BadProtocol\<rparr>)
      | Scan_Line i skip \<Rightarrow>
          outcome_bind (ba_l_truncate skip (hp_input p)) (\<lambda>b.
            Done (True, take i (hp_input p), p\<lparr>hp_input := b, hp_nextScanLinePos := 0\<rparr>))
      | Scan_None i \<Rightarrow> Done (False, line, p\<lparr>hp_nextScanLinePos := i\<rparr>))"

definition splitHeader :: "string \<Rightarrow> (string \<times> string) option" where
  "splitHeader s =
     (case str_find (CHR '':'') s of
        None \<Rightarrow> None
      | Some i \<Rightarrow>
          let v = dropWhile (\<lambda>c. c = CHR '' '') (drop (i + 1) s)
          in if v = [] \<or> hd v = CHR 0x00 then None else Some (take i s, v))"

definition hp_onStartLine :: "string \<Rightarrow> http_parser \<Rightarrow> (bool \<times> http_parser) outcome" where
  "hp_onStartLine line p =
     (let l = cstr line;
          parsed = (case scan_http ''HTTP/1.0'' l of
                      Some n \<Rightarrow> Some (n, HTTP_10)
                    | None \<Rightarrow> map_option (\<lambda>n. (n, HTTP_11)) (scan_http ''HTTP/1.1'' l))
      in case parsed of
           None \<Rightarrow> Done (False, hp_fail BadProtocol p)
         | Some (n, version) \<Rightarrow>
             if n < -2147483648 \<or> 2147483647 < n then Fault OutOfBounds
             else let p1 = p\<lparr>hp_response := (hp_response p)\<lparr>rs_resultCode := n, rs_httpVersion := version\<rparr>\<rparr>
                  in Done (True, if n = 100 then p1 else p1\<lparr>hp_state := HP_INHEADERS\<rparr>))"

definition hp_onHeadersEnd :: "(string \<Rightarrow> nat option) \<Rightarrow> http_parser \<Rightarrow> bool \<times> http_parser" where
  "hp_onHeadersEnd lexical_cast p =
     (let headers = rs_headers (hp_response p);
          p1 = p\<lparr>hp_state := HP_INCONTENT\<rparr>;
          p2 = (case map_of headers ''Content-Length'' of
                  None \<Rightarrow> p1
                | Some cl \<Rightarrow> (case lexical_cast cl of
                    None \<Rightarrow> p1
                  | Some n \<Rightarrow> p1\<lparr>hp_contentLength := n, hp_contentLengthSet := True\<rparr>));
          p3 = (case map_of headers ''Transfer-Encoding'' of
                  None \<Rightarrow> p2
                | Some te \<Rightarrow>
                    if te = ''chunked'' \<or> te = ''Chunked'' \<or> te = ''CHUNKED''
                    then p2\<lparr>hp_chunkedEncoding := True, hp_state := HP_INCONTENT_CHUNKBEGIN\<rparr>
                    else p2)
      in if \<not> hp_contentLengthSet p3 \<and> \<not> hp_chunkedEncoding p3 then (False, hp_fail BadProtocol p3)
         else (True, p3))"

definition hp_onHeader :: "string \<Rightarrow> http_parser \<Rightarrow> bool \<times> http_parser" where
  "hp_onHeader line p =
     (case splitHeader line of
        None \<Rightarrow> (False, hp_fail BadProtocol p)
      | Some (key, val) \<Rightarrow>
          (True, p\<lparr>hp_response := (hp_response p)
                     \<lparr>rs_headers := sm_insert key val (rs_headers (hp_response p))\<rparr>\<rparr>))"

definition hp_onContent :: "http_parser \<Rightarrow> bool \<times> http_parser" where
  "hp_onContent p =
     (if length (hp_input p) < hp_contentLength p then (False, p)
      else (False, p\<lparr>hp_response := (hp_response p)\<lparr>rs_data := Some (take (hp_contentLength p) (hp_input p))\<rparr>,
                     hp_input := drop (hp_contentLength p) (hp_input p),
                     hp_ready := True, hp_result := NoError\<rparr>))"

definition hp_onChunkLine :: "string \<Rightarrow> http_parser \<Rightarrow> (bool \<times> http_parser) outcome" where
  "hp_onChunkLine line p =
     (if line = [] then Done (True, p)
      else case scan_x (cstr line) of
             None \<Rightarrow> Done (False, hp_fail BadProtocol p)
           | Some n \<Rightarrow>
               if 2 ^ 32 \<le> \<bar>n\<bar> then Fault OutOfBounds
               else let l = nat (n mod 2 ^ 32)
                    in if l = 0 then Done (True, p\<lparr>hp_state := HP_INFOOTERS\<rparr>)
                       else Done (True, p\<lparr>hp_contentLength := l, hp_state := HP_INCONTENT_CHUNK\<rparr>))"

definition hp_onChunk :: "http_parser \<Rightarrow> bool \<times> http_parser" where
  "hp_onChunk p =
     (if length (hp_input p) < hp_contentLength p then (False, p)
      else
        let old = (case rs_data (hp_response p) of None \<Rightarrow> [] | Some d \<Rightarrow> d)
        in (True, p\<lparr>hp_response := (hp_response p)\<lparr>rs_data := Some (old @ take (hp_contentLength p) (hp_input p))\<rparr>,
                    hp_input := drop (hp_contentLength p) (hp_input p),
                    hp_state := HP_INCONTENT_CHUNKBEGIN\<rparr>))"

text \<open>
  One pass of the loop of \<open>consume\<close>, with the local variable \<open>line\<close>: whether it goes on, the
  line, and the parser.
\<close>

definition hp_pass ::
  "(string \<Rightarrow> nat option) \<Rightarrow> string \<Rightarrow> http_parser \<Rightarrow> (bool \<times> string \<times> http_parser) outcome" where
  "hp_pass lexical_cast line p =
     (case hp_state p of
        HP_START \<Rightarrow>
          if hp_input p = [] then Done (False, line, p)
          else outcome_bind (hp_consumeLine line p) (\<lambda>(suc, line1, p1).
            if \<not> suc \<or> hp_ready p1 then Done (False, line1, p1)
            else outcome_bind (hp_onStartLine line1 p1) (\<lambda>(go, p2). Done (go, line1, p2)))
      | HP_INHEADERS \<Rightarrow>
          if hp_input p = [] then Done (False, line, p)
          else outcome_bind (hp_consumeLine line p) (\<lambda>(suc, line1, p1).
            if \<not> suc \<or> hp_ready p1 then Done (False, line1, p1)
            else let (go, p2) = (if line1 = [] then hp_onHeadersEnd lexical_cast p1 else hp_onHeader line1 p1)
                 in Done (go, line1, p2))
      | HP_INCONTENT \<Rightarrow> (let (go, p1) = hp_onContent p in Done (go, line, p1))
      | HP_INCONTENT_CHUNKBEGIN \<Rightarrow>
          if hp_input p = [] then Done (False, line, p)
          else outcome_bind (hp_consumeLine line p) (\<lambda>(suc, line1, p1).
            if \<not> suc then Done (False, line1, hp_fail BadProtocol p1)
            else outcome_bind (hp_onChunkLine line1 p1) (\<lambda>(go, p2). Done (go, line1, p2)))
      | HP_INCONTENT_CHUNK \<Rightarrow> (let (go, p1) = hp_onChunk p in Done (go, line, p1))
      | HP_INFOOTERS \<Rightarrow>
          outcome_bind (hp_consumeLine line p) (\<lambda>(suc, line1, p1).
            if \<not> suc \<or> hp_ready p1 then Done (False, line1, p1)
            else if line1 = [] then Done (False, line1, p1\<lparr>hp_ready := True\<rparr>)
            else Done (True, line1, p1)))"

text \<open>The loop itself may not end: \<open>None\<close>.\<close>

partial_function (option) hp_loop ::
  "(string \<Rightarrow> nat option) \<Rightarrow> string \<Rightarrow> http_parser \<Rightarrow> http_parser outcome option" where
  "hp_loop lexical_cast line p =
     (case hp_pass lexical_cast line p of
        Fault f \<Rightarrow> Some (Fault f)
      | Done r \<Rightarrow>
          if fst r then hp_loop lexical_cast (fst (snd r)) (snd (snd r)) else Some (Done (snd (snd r))))"

definition hp_consume :: "(string \<Rightarrow> nat option) \<Rightarrow> http_parser \<Rightarrow> http_parser outcome option" where
  "hp_consume lexical_cast p = hp_loop lexical_cast [] p"

definition hp_push :: "(string \<Rightarrow> nat option) \<Rightarrow> bytes \<Rightarrow> http_parser \<Rightarrow> http_parser outcome option" where
  "hp_push lexical_cast data p =
     (let p1 = p\<lparr>hp_input := hp_input p @ data\<rparr>
      in if length (hp_input p1) > 16777216 then Some (Done (p1\<lparr>hp_ready := True, hp_result := TooMuch\<rparr>))
         else hp_consume lexical_cast p1)"

end
