(* ===== verification/Sf_HttpProps.thy ===== *)
theory Sf_HttpProps
  imports Sf_Http
begin

text \<open>
  URLs are normalised once and for all by parsing, and what the request lines made of them look
  like.
\<close>

subsection \<open>URLs and request lines\<close>

lemma str_search_Some:
  "str_search pat s = Some (a, b) \<Longrightarrow> s = a @ b \<and> take (length pat) b = pat"
  by (induction pat s arbitrary: a b rule: str_search.induct) (auto split: if_splits)

lemma tolower_special [simp]:
  "tolower c = CHR '':'' \<longleftrightarrow> c = CHR '':''" "tolower c = CHR ''/'' \<longleftrightarrow> c = CHR ''/''" "tolower (tolower c) = tolower c"
proof -
  have "tolower c = c \<or> (\<exists>n. 97 \<le> n \<and> n \<le> 122 \<and> tolower c = char_of (n :: nat) \<and> 65 \<le> (of_char c :: nat) \<and> (of_char c :: nat) \<le> 90)"
    by (auto simp: tolower_def Let_def intro!: exI [of _ "of_char c + 32"])
  moreover have "(of_char (CHR '':'') :: nat) = 58" "(of_char (CHR ''/'') :: nat) = 47" by simp_all
  ultimately show "tolower c = CHR '':'' \<longleftrightarrow> c = CHR '':''" "tolower c = CHR ''/'' \<longleftrightarrow> c = CHR ''/''"
    "tolower (tolower c) = tolower c"
    by (auto simp: char_of_eq_iff tolower_def Let_def)
qed

lemma toupper_special:
  "toupper c = CHR '' '' \<longleftrightarrow> c = CHR '' ''" "toupper c = CHR 0x0D \<longleftrightarrow> c = CHR 0x0D"
proof -
  have "toupper c = c \<or> 65 \<le> (of_char (toupper c) :: nat) \<and> 97 \<le> (of_char c :: nat)"
    by (auto simp: toupper_def Let_def)
  moreover have "(of_char (CHR '' '') :: nat) = 32" "(of_char (CHR 0x0D) :: nat) = 13" by simp_all
  ultimately show "toupper c = CHR '' '' \<longleftrightarrow> c = CHR '' ''" "toupper c = CHR 0x0D \<longleftrightarrow> c = CHR 0x0D"
    by (auto; fastforce)+
qed

lemma str_search_lower:
  "str_search ''://'' (a @ ''://'' @ b) = Some (a, ''://'' @ b) \<Longrightarrow>
     str_search ''://'' (map tolower a @ ''://'' @ b') = Some (map tolower a, ''://'' @ b')"
proof (induction a)
  case (Cons c a)
  let ?n = "length ''://''"
  have ne: "take ?n (c # a @ ''://'' @ b) \<noteq> ''://''"
    using Cons.prems by (cases "take ?n (c # a @ ''://'' @ b) = ''://''") simp_all
  then have s: "str_search ''://'' (a @ ''://'' @ b) = Some (a, ''://'' @ b)"
    using Cons.prems by (simp del: length_Cons) (auto split: prod.splits)
  from ne have "take ?n (tolower c # map tolower a @ ''://'' @ b') \<noteq> ''://''"
    by (cases a rule: remdups_adj.cases) auto
  with Cons.IH [OF s] show ?case by (simp del: length_Cons)
qed simp

lemma url_parse_parts:
  assumes "str_search ''://'' (p @ ''://'' @ h @ x) = Some (p, ''://'' @ h @ x)"
    and "CHR ''/'' \<notin> set h" and "x = [] \<or> hd x = CHR ''/''"
  shows "url_parse (p @ ''://'' @ h @ x) =
     \<lparr>u_protocol = map tolower p, u_host = map tolower h, u_path = takeWhile (\<lambda>c. c \<noteq> CHR ''?'') x,
      u_query = drop 1 (dropWhile (\<lambda>c. c \<noteq> CHR ''?'') x)\<rparr>"
proof -
  have "takeWhile (\<lambda>c. c \<noteq> CHR ''/'') (h @ x) = h" "dropWhile (\<lambda>c. c \<noteq> CHR ''/'') (h @ x) = x"
    using assms(2,3) by (induction h) (cases x; auto)+
  with assms(1) show ?thesis by (simp add: url_parse_def Let_def)
qed

text \<open>
  Printing the URL a text was parsed to and parsing it again gives the same URL, for every
  text: parsing is a normalisation.
\<close>

lemma url_normal: "url_parse (url_toString (url_parse s)) = url_parse s"
proof -
  obtain p rest where parse: "url_parse s = (let from_path = dropWhile (\<lambda>c. c \<noteq> CHR ''/'') rest in
      \<lparr>u_protocol = p, u_host = map tolower (takeWhile (\<lambda>c. c \<noteq> CHR ''/'') rest),
       u_path = takeWhile (\<lambda>c. c \<noteq> CHR ''?'') from_path,
       u_query = drop 1 (dropWhile (\<lambda>c. c \<noteq> CHR ''?'') from_path)\<rparr>)"
    and p: "\<And>r. str_search ''://'' (p @ ''://'' @ r) = Some (p, ''://'' @ r)" "map tolower p = p"
  proof (cases "str_search ''://'' s")
    case None
    then show ?thesis
      by (intro that [of s "''http''"]) (simp_all add: url_parse_def Let_def tolower_def)
  next
    case (Some ab)
    obtain a b where ab: "ab = (a, b)" by fastforce
    from str_search_Some [OF Some [unfolded ab]] have s: "s = a @ ''://'' @ drop 3 b"
      by (metis append_take_drop_id length_Cons list.size(3) numeral_3_eq_3)
    then have "str_search ''://'' (a @ ''://'' @ drop 3 b) = Some (a, ''://'' @ drop 3 b)"
      using Some ab str_search_Some [OF Some [unfolded ab]] by simp
    from str_search_lower [OF this] Some ab show ?thesis
      by (intro that [of "drop 3 b" "map tolower a"]) (simp_all add: url_parse_def Let_def o_def)
  qed
  define x where "x = dropWhile (\<lambda>c. c \<noteq> CHR ''/'') rest"
  define h where "h = takeWhile (\<lambda>c. c \<noteq> CHR ''/'') rest"
  define path where "path = takeWhile (\<lambda>c. c \<noteq> CHR ''?'') x"
  define query where "query = drop 1 (dropWhile (\<lambda>c. c \<noteq> CHR ''?'') x)"
  let ?q = "if query = [] then [] else ''?'' @ query"
  have h: "CHR ''/'' \<notin> set (map tolower h)"
  proof
    assume "CHR ''/'' \<in> set (map tolower h)"
    then have "CHR ''/'' \<in> tolower ` set h" by simp
    then obtain c where "c \<in> set h" "CHR ''/'' = tolower c" by blast
    with tolower_special(2) [of c] show False by (auto simp: h_def dest: set_takeWhileD)
  qed
  have x: "x = [] \<or> hd x = CHR ''/''" using hd_dropWhile [of "\<lambda>c. c \<noteq> CHR ''/''" rest] by (auto simp: x_def)
  have path: "CHR ''?'' \<notin> set path" by (auto simp: path_def dest: set_takeWhileD)
  have px: "path @ ?q = [] \<or> hd (path @ ?q) = CHR ''/''"
    using x by (cases x) (auto simp: path_def query_def)
  have cut: "takeWhile (\<lambda>c. c \<noteq> CHR ''?'') (path @ ?q) = path" "drop 1 (dropWhile (\<lambda>c. c \<noteq> CHR ''?'') (path @ ?q)) = query"
  proof -
    have "takeWhile (\<lambda>c. c \<noteq> CHR ''?'') (path @ r) = path @ takeWhile (\<lambda>c. c \<noteq> CHR ''?'') r"
      "dropWhile (\<lambda>c. c \<noteq> CHR ''?'') (path @ r) = dropWhile (\<lambda>c. c \<noteq> CHR ''?'') r" for r
      using path by (induction path) auto
    then show "takeWhile (\<lambda>c. c \<noteq> CHR ''?'') (path @ ?q) = path"
      "drop 1 (dropWhile (\<lambda>c. c \<noteq> CHR ''?'') (path @ ?q)) = query" by simp_all
  qed
  have u: "url_parse s = \<lparr>u_protocol = p, u_host = map tolower h, u_path = path, u_query = query\<rparr>"
    by (simp add: parse Let_def x_def h_def path_def query_def)
  have printed: "url_toString (url_parse s) = p @ ''://'' @ map tolower h @ (path @ ?q)"
    by (simp add: u url_toString_def)
  have idem: "map tolower (map tolower h) = map tolower h" by (simp add: o_def)
  show ?thesis
    unfolding printed url_parse_parts [OF p(1) h px] p(2) cut idem by (rule u [symmetric])
qed

text \<open>
  The request line of a URL without blanks has its two separating blanks only if the URL has
  no query: with a query the version is glued to it.
\<close>

lemma request_line_blanks:
  assumes "CHR '' '' \<notin> set meth" and "CHR '' '' \<notin> set (u_path u)" and "CHR '' '' \<notin> set (u_query u)"
    and "CHR 0x0D \<notin> set meth \<union> set (u_path u) \<union> set (u_query u)"
  shows "count_list (takeWhile (\<lambda>c. c \<noteq> CHR 0x0D) (hr_result (hr_start meth u version hr_new))) (CHR '' '') =
     (if u_query u = [] then 2 else 1)"
proof -
  let ?line = "map toupper meth @ '' '' @ u_path u @
     (if u_query u = [] then '' '' else ''?'' @ u_query u) @ (if version = HTTP_11 then ''HTTP/1.1'' else ''HTTP/1.0'')"
  have "\<exists>rest. hr_result (hr_start meth u version hr_new) = ?line @ CHR 0x0D # rest"
    by (cases "u_query u = []"; cases "version = HTTP_11")
      (simp_all add: hr_result_def hr_start_def hr_put_def hr_addHeader_def hr_new_def crlf_def Let_def)
  then obtain rest where dest: "hr_result (hr_start meth u version hr_new) = ?line @ CHR 0x0D # rest" by blast
  have "CHR 0x0D = toupper c \<longleftrightarrow> c = CHR 0x0D" "CHR '' '' = toupper c \<longleftrightarrow> c = CHR '' ''" for c
    by (metis toupper_special(2), metis toupper_special(1))
  then have head: "CHR 0x0D \<notin> set (map toupper meth)" "CHR '' '' \<notin> set (map toupper meth)"
    using assms(1,4) by (simp_all add: image_iff)
  have "CHR 0x0D \<notin> set ?line" using head(1) assms(4) by (cases "u_query u = []"; cases "version = HTTP_11") simp_all
  then have cut: "takeWhile (\<lambda>c. c \<noteq> CHR 0x0D) (?line @ CHR 0x0D # rest) = ?line"
    by (intro takeWhile_not_in)
  have zero: "count_list (map toupper meth) (CHR '' '') = 0" "count_list (u_path u) (CHR '' '') = 0"
    "count_list (u_query u) (CHR '' '') = 0"
    using head(2) assms(2,3) by (simp_all add: count_list_0_iff)
  show ?thesis
    unfolding dest cut by (cases "u_query u = []"; cases "version = HTTP_11") (simp_all add: zero)
qed

lemma request_line_blanks_witness:
  "count_list (takeWhile (\<lambda>c. c \<noteq> CHR 0x0D) (hr_result (hr_start ''get'' (url_parse ''http://h/p?q'') HTTP_11 hr_new)))
     (CHR '' '') = 1"
proof -
  have u: "url_parse ''http://h/p?q'' = \<lparr>u_protocol = ''http'', u_host = ''h'', u_path = ''/p'', u_query = ''q''\<rparr>"
    by code_simp
  show ?thesis using request_line_blanks [of "''get''" "url_parse ''http://h/p?q''" HTTP_11] by (simp add: u)
qed

end
