(* ===== verification/Sf_HttpPieces.thy ===== *)
theory Sf_HttpPieces
  imports Sf_Http
begin

text \<open>
  The parser of responses (\<open>net/http/impl/HttpResponseParser.cpp\<close>) reads a response the same way
  however the connection cuts it, up to where chunked content begins; there a chunk line that is
  cut makes it give up.
\<close>

subsection \<open>Responses in pieces\<close>

definition hp_ext :: "bytes \<Rightarrow> http_parser \<Rightarrow> http_parser" where
  "hp_ext b p = p\<lparr>hp_input := hp_input p @ b\<rparr>"

lemma hp_ext_sel [simp]:
  "hp_input (hp_ext b p) = hp_input p @ b" "hp_nextScanLinePos (hp_ext b p) = hp_nextScanLinePos p"
  "hp_state (hp_ext b p) = hp_state p" "hp_ready (hp_ext b p) = hp_ready p"
  "hp_response (hp_ext b p) = hp_response p" "hp_contentLength (hp_ext b p) = hp_contentLength p"
  "hp_chunkedEncoding (hp_ext b p) = hp_chunkedEncoding p" "hp_contentLengthSet (hp_ext b p) = hp_contentLengthSet p"
  by (simp_all add: hp_ext_def)

lemma hp_scan_bounds:
  "hp_scan i s = Scan_Line j skip \<Longrightarrow> i \<le> j \<and> j < skip \<and> skip \<le> i + length s"
  "hp_scan i s = Scan_None j \<Longrightarrow> i \<le> j \<and> j \<le> i + length s"
  by (induction i s rule: hp_scan.induct) (auto split: if_splits)

lemma hp_scan_append:
  "hp_scan i s = Scan_Line j skip \<Longrightarrow> hp_scan i (s @ b) = Scan_Line j skip"
  "hp_scan i s = Scan_Nul j \<Longrightarrow> hp_scan i (s @ b) = Scan_Nul j"
  "hp_scan i s = Scan_None j \<Longrightarrow> hp_scan i (s @ b) = hp_scan j (drop (j - i) (s @ b))"
proof -
  show "hp_scan i s = Scan_Line j skip \<Longrightarrow> hp_scan i (s @ b) = Scan_Line j skip"
    by (induction i s rule: hp_scan.induct) (auto split: if_splits)
  show "hp_scan i s = Scan_Nul j \<Longrightarrow> hp_scan i (s @ b) = Scan_Nul j"
    by (induction i s rule: hp_scan.induct) (auto split: if_splits)
  show "hp_scan i s = Scan_None j \<Longrightarrow> hp_scan i (s @ b) = hp_scan j (drop (j - i) (s @ b))"
  proof (induction i s rule: hp_scan.induct)
    case (1 i c d r)
    then have *: "c \<noteq> CHR 0x00" "\<not> (c = CHR 0x0A \<or> c = CHR 0x0D \<and> d = CHR 0x0A)" "hp_scan (i + 1) (d # r) = Scan_None j"
      by (auto split: if_splits)
    from hp_scan_bounds(2) [OF *(3)] have "j - i = Suc (j - (i + 1))" by arith
    with 1(1) [OF *] * show ?case by auto
  qed simp_all
qed

text \<open>The scan position never runs past the input, and is at its start when a chunk is awaited.\<close>

definition hp_posOk :: "http_parser \<Rightarrow> bool" where
  "hp_posOk p \<longleftrightarrow> hp_nextScanLinePos p \<le> length (hp_input p) \<and>
     (hp_state p = HP_INCONTENT_CHUNK \<longrightarrow> hp_nextScanLinePos p = 0)"

lemma hp_line_found:
  assumes "hp_consumeLine l p = Done (True, l1, p1)" and "\<not> hp_ready p1" and "hp_posOk p"
  shows "hp_consumeLine l' (hp_ext b p) = Done (True, l1, hp_ext b p1)" and "hp_nextScanLinePos p1 = 0"
    and "length (hp_input p1) \<le> length (hp_input p)" and "hp_state p1 = hp_state p"
proof -
  obtain j skip where scan: "hp_scan (hp_nextScanLinePos p) (drop (hp_nextScanLinePos p) (hp_input p)) = Scan_Line j skip"
    using assms by (auto simp: hp_consumeLine_def split: hp_found.splits)
  from hp_scan_bounds(1) [OF this] assms(3) have bounds: "skip \<le> length (hp_input p)" "j \<le> length (hp_input p)"
    by (auto simp: hp_posOk_def)
  have l1: "l1 = take j (hp_input p)" and p1: "p1 = p\<lparr>hp_input := drop skip (hp_input p), hp_nextScanLinePos := 0\<rparr>"
    using assms(1) scan bounds by (auto simp: hp_consumeLine_def ba_l_truncate_def)
  show "hp_consumeLine l' (hp_ext b p) = Done (True, l1, hp_ext b p1)"
    using hp_scan_append(1) [OF scan, of b] bounds assms(3)
    by (simp add: hp_consumeLine_def ba_l_truncate_def l1 p1 hp_posOk_def hp_ext_def)
  show "hp_nextScanLinePos p1 = 0" "length (hp_input p1) \<le> length (hp_input p)" "hp_state p1 = hp_state p"
    by (simp_all add: p1)
qed

lemma hp_line_missing:
  assumes "hp_consumeLine l p = Done (False, l1, p1)" and "hp_posOk p" and "hp_state p \<noteq> HP_INCONTENT_CHUNK"
  shows "l1 = l" and "hp_consumeLine l (hp_ext b p) = hp_consumeLine l (hp_ext b p1)" and "hp_posOk p1"
    and "hp_input p1 = hp_input p" and "hp_state p1 = hp_state p"
proof -
  obtain j where scan: "hp_scan (hp_nextScanLinePos p) (drop (hp_nextScanLinePos p) (hp_input p)) = Scan_None j"
    using assms by (auto simp: hp_consumeLine_def ba_l_truncate_def split: hp_found.splits if_splits)
  have eq: "l1 = l" "p1 = p\<lparr>hp_nextScanLinePos := j\<rparr>" using assms(1) scan by (simp_all add: hp_consumeLine_def)
  from hp_scan_bounds(2) [OF scan] assms(2)
  have bounds: "hp_nextScanLinePos p \<le> j" "j \<le> length (hp_input p)" by (auto simp: hp_posOk_def)
  show "l1 = l" "hp_posOk p1" "hp_input p1 = hp_input p" "hp_state p1 = hp_state p"
    using eq bounds assms(3) by (simp_all add: hp_posOk_def)
  have "hp_scan (hp_nextScanLinePos p) (drop (hp_nextScanLinePos p) (hp_input p @ b)) = hp_scan j (drop j (hp_input p @ b))"
    using hp_scan_append(3) [OF scan, of b] bounds assms(2) by (simp add: hp_posOk_def)
  then show "hp_consumeLine l (hp_ext b p) = hp_consumeLine l (hp_ext b p1)"
    by (simp add: hp_consumeLine_def eq hp_ext_def split: hp_found.splits)
qed

text \<open>What a handler does not depend on the input, unless it takes from it.\<close>

lemma hp_handlers_ext:
  "hp_onStartLine l p = Done (go, p1) \<Longrightarrow>
     hp_onStartLine l (hp_ext b p) = Done (go, hp_ext b p1) \<and> hp_input p1 = hp_input p \<and>
     hp_nextScanLinePos p1 = hp_nextScanLinePos p \<and> (hp_ready p \<longrightarrow> hp_ready p1) \<and>
     hp_state p1 \<in> {hp_state p, HP_INHEADERS} \<and> (\<not> go \<longrightarrow> hp_ready p1)"
  by (auto simp: hp_onStartLine_def Let_def hp_fail_def hp_ext_def split: option.splits if_splits)

lemma hp_header_ext:
  "hp_onHeader l p = (go, p1) \<Longrightarrow>
     hp_onHeader l (hp_ext b p) = (go, hp_ext b p1) \<and> hp_input p1 = hp_input p \<and>
     hp_nextScanLinePos p1 = hp_nextScanLinePos p \<and> (hp_ready p \<longrightarrow> hp_ready p1) \<and>
     hp_state p1 = hp_state p \<and> (\<not> go \<longrightarrow> hp_ready p1)"
  by (auto simp: hp_onHeader_def hp_fail_def hp_ext_def split: option.splits)

lemma hp_headersEnd_ext:
  "hp_onHeadersEnd lc p = (go, p1) \<Longrightarrow>
     hp_onHeadersEnd lc (hp_ext b p) = (go, hp_ext b p1) \<and> hp_input p1 = hp_input p \<and>
     hp_nextScanLinePos p1 = hp_nextScanLinePos p \<and> (hp_ready p \<longrightarrow> hp_ready p1) \<and>
     hp_state p1 \<noteq> HP_INCONTENT_CHUNK \<and> (\<not> go \<longrightarrow> hp_ready p1)"
proof -
  define chunked where "chunked te \<longleftrightarrow> te = ''chunked'' \<or> te = ''Chunked'' \<or> te = ''CHUNKED''" for te
  assume "hp_onHeadersEnd lc p = (go, p1)"
  then show ?thesis
    unfolding hp_onHeadersEnd_def Let_def hp_fail_def hp_ext_def chunked_def [symmetric]
    by (cases "map_of (rs_headers (hp_response p)) ''Content-Length''"; cases "map_of (rs_headers (hp_response p)) ''Transfer-Encoding''")
      (auto split: option.splits if_splits)
qed

lemma hp_chunkLine_ext:
  "hp_onChunkLine l p = Done (go, p1) \<Longrightarrow>
     hp_onChunkLine l (hp_ext b p) = Done (go, hp_ext b p1) \<and> hp_input p1 = hp_input p \<and>
     hp_nextScanLinePos p1 = hp_nextScanLinePos p \<and> (hp_ready p \<longrightarrow> hp_ready p1) \<and>
     hp_state p1 \<in> {hp_state p, HP_INFOOTERS, HP_INCONTENT_CHUNK} \<and> (\<not> go \<longrightarrow> hp_ready p1)"
  by (auto simp: hp_onChunkLine_def Let_def hp_fail_def hp_ext_def split: option.splits if_splits)

lemma hp_chunk_ext:
  "hp_onChunk p = (True, p1) \<Longrightarrow>
     hp_onChunk (hp_ext b p) = (True, hp_ext b p1) \<and> length (hp_input p1) \<le> length (hp_input p) \<and>
     hp_nextScanLinePos p1 = hp_nextScanLinePos p \<and> hp_ready p1 = hp_ready p \<and> hp_state p1 = HP_INCONTENT_CHUNKBEGIN"
  by (auto simp: hp_onChunk_def Let_def hp_ext_def split: if_splits)

lemma hp_consumeLine_ready:
  "hp_consumeLine l p = Done (suc, l1, p1) \<Longrightarrow> hp_ready p \<Longrightarrow> hp_ready p1"
  by (auto simp: hp_consumeLine_def ba_l_truncate_def split: hp_found.splits if_splits)

lemma hp_pass_ready:
  assumes pass: "hp_pass lc l p = Done (go, l1, p1)" and "hp_ready p" shows "hp_ready p1"
proof (cases "hp_state p")
  case HP_START
  with assms show ?thesis
    by (auto simp: hp_pass_def split: if_splits dest: hp_consumeLine_ready)
next
  case HP_INHEADERS
  with assms show ?thesis
    by (auto simp: hp_pass_def split: if_splits dest: hp_consumeLine_ready)
next
  case HP_INCONTENT
  with assms show ?thesis by (auto simp: hp_pass_def hp_onContent_def split: if_splits)
next
  case HP_INCONTENT_CHUNKBEGIN
  with assms show ?thesis
    by (auto simp: hp_pass_def hp_fail_def split: if_splits dest: hp_consumeLine_ready hp_chunkLine_ext)
next
  case HP_INCONTENT_CHUNK
  with assms show ?thesis by (auto simp: hp_pass_def hp_onChunk_def Let_def split: if_splits)
next
  case HP_INFOOTERS
  with assms show ?thesis
    by (auto simp: hp_pass_def split: if_splits dest: hp_consumeLine_ready)
qed

definition hp_late :: "hp_state \<Rightarrow> bool" where
  "hp_late s \<longleftrightarrow> s \<in> {HP_INCONTENT_CHUNKBEGIN, HP_INCONTENT_CHUNK, HP_INFOOTERS}"

lemma hp_pass_go:
  assumes pass: "hp_pass lc l p = Done (True, l1, p1)" and ready: "\<not> hp_ready p1" and pos: "hp_posOk p"
  shows "hp_pass lc l (hp_ext b p) = Done (True, l1, hp_ext b p1) \<and> hp_posOk p1 \<and>
    length (hp_input p1) \<le> length (hp_input p) \<and> (hp_late (hp_state p) \<longrightarrow> hp_late (hp_state p1))"
proof (cases "hp_state p")
  case HP_START
  with pass obtain l0 p0 where line: "hp_consumeLine l p = Done (True, l0, p0)" "\<not> hp_ready p0"
    and h: "hp_onStartLine l0 p0 = Done (True, p1)" "l1 = l0" and ne: "hp_input p \<noteq> []"
    by (auto simp: hp_pass_def split: if_splits)
  from hp_line_found(1) [OF line pos, of l b] hp_line_found(2-) [OF line pos] hp_handlers_ext [OF h(1), of b] HP_START ne line(2) show ?thesis
    by (simp add: hp_pass_def h(2) hp_posOk_def hp_late_def)
next
  case HP_INHEADERS
  with pass obtain p0 where line: "hp_consumeLine l p = Done (True, l1, p0)" "\<not> hp_ready p0"
    and h: "(if l1 = [] then hp_onHeadersEnd lc p0 else hp_onHeader l1 p0) = (True, p1)"
    and ne: "hp_input p \<noteq> []"
    by (auto simp: hp_pass_def split: if_splits prod.splits)
  note found = hp_line_found(1) [OF line pos, of l b] hp_line_found(2-) [OF line pos]
  show ?thesis
  proof (cases "l1 = []")
    case True
    with h have "hp_onHeadersEnd lc p0 = (True, p1)" by simp
    from hp_headersEnd_ext [OF this, of b] found HP_INHEADERS ne line(2) True show ?thesis
      by (simp add: hp_pass_def hp_posOk_def hp_late_def)
  next
    case False
    with h have "hp_onHeader l1 p0 = (True, p1)" by simp
    from hp_header_ext [OF this, of b] found HP_INHEADERS ne line(2) False show ?thesis
      by (simp add: hp_pass_def hp_posOk_def hp_late_def)
  qed
next
  case HP_INCONTENT
  with pass show ?thesis by (auto simp: hp_pass_def hp_onContent_def split: if_splits)
next
  case HP_INCONTENT_CHUNKBEGIN
  with pass obtain l0 p0 where line: "hp_consumeLine l p = Done (True, l0, p0)"
    and h: "hp_onChunkLine l0 p0 = Done (True, p1)" "l1 = l0" and ne: "hp_input p \<noteq> []"
    by (auto simp: hp_pass_def split: if_splits)
  from hp_chunkLine_ext [OF h(1), of b] ready have "\<not> hp_ready p0" by auto
  from hp_line_found(1) [OF line this pos, of l b] hp_line_found(2-) [OF line this pos] hp_chunkLine_ext [OF h(1), of b] HP_INCONTENT_CHUNKBEGIN ne show ?thesis
    by (auto simp: hp_pass_def h(2) hp_posOk_def hp_late_def)
next
  case HP_INCONTENT_CHUNK
  with pass have "hp_onChunk p = (True, p1)" "l1 = l" by (auto simp: hp_pass_def split: prod.splits)
  with hp_chunk_ext [OF this(1), of b] HP_INCONTENT_CHUNK pos show ?thesis
    by (simp add: hp_pass_def hp_posOk_def hp_late_def)
next
  case HP_INFOOTERS
  with pass ready obtain line: "hp_consumeLine l p = Done (True, l1, p1)" and "l1 \<noteq> []"
    by (auto simp: hp_pass_def split: if_splits)
  with hp_line_found(1) [OF line ready pos, of l b] hp_line_found(2-) [OF line ready pos] HP_INFOOTERS ready show ?thesis
    by (simp add: hp_pass_def hp_posOk_def hp_late_def)
qed

lemma hp_pass_stop:
  assumes pass: "hp_pass lc l p = Done (False, l1, p1)" and ready: "\<not> hp_ready p1" and pos: "hp_posOk p"
  shows "l1 = l \<and> hp_pass lc l (hp_ext b p) = hp_pass lc l (hp_ext b p1) \<and> hp_posOk p1 \<and>
    hp_input p1 = hp_input p \<and> hp_state p1 = hp_state p"
proof (cases "p1 = p \<and> l1 = l")
  case True
  with pos show ?thesis by simp
next
  case moved: False
  have line: "hp_consumeLine l p = Done (False, l1, p1) \<and> hp_state p \<noteq> HP_INCONTENT_CHUNK \<and> hp_state p \<noteq> HP_INCONTENT
      \<and> hp_state p \<noteq> HP_INCONTENT_CHUNKBEGIN \<and> (hp_state p = HP_INFOOTERS \<or> hp_input p \<noteq> [])"
  proof (cases "hp_state p")
    case HP_START
    with pass ready moved show ?thesis
      by (auto simp: hp_pass_def split: if_splits dest: hp_handlers_ext [where b = "[]"])
  next
    case HP_INHEADERS
    with pass ready moved show ?thesis
      by (auto simp: hp_pass_def split: if_splits prod.splits dest: hp_header_ext [where b = "[]"] hp_headersEnd_ext [where b = "[]"])
  next
    case HP_INCONTENT
    with pass ready moved show ?thesis by (auto simp: hp_pass_def hp_onContent_def split: if_splits)
  next
    case HP_INCONTENT_CHUNKBEGIN
    with pass ready moved show ?thesis
      by (auto simp: hp_pass_def hp_fail_def split: if_splits dest: hp_chunkLine_ext [where b = "[]"])
  next
    case HP_INCONTENT_CHUNK
    with pass ready moved show ?thesis by (auto simp: hp_pass_def hp_onChunk_def Let_def split: if_splits)
  next
    case HP_INFOOTERS
    have "p1\<lparr>hp_ready := True\<rparr> \<noteq> p1" using ready by (cases p1) simp
    with HP_INFOOTERS pass ready moved show ?thesis by (auto simp: hp_pass_def split: if_splits)
  qed
  note missing = hp_line_missing(2) [OF conjunct1 [OF line] pos conjunct1 [OF conjunct2 [OF line]], of b] hp_line_missing(1,3-) [OF conjunct1 [OF line] pos conjunct1 [OF conjunct2 [OF line]]]
  have "hp_pass lc l (hp_ext b p) = hp_pass lc l (hp_ext b p1)"
    using missing line by (cases "hp_state p") (auto simp: hp_pass_def)
  with missing line show ?thesis by simp
qed

lemma hp_consumeLine_line:
  "hp_consumeLine l p = hp_consumeLine l' p \<or>
   (\<exists>suc q. hp_consumeLine l p = Done (suc, l, q) \<and> hp_consumeLine l' p = Done (suc, l', q) \<and> (suc \<longrightarrow> hp_ready q))"
  by (auto simp: hp_consumeLine_def split: hp_found.splits)

lemma hp_pass_line:
  assumes "\<not> hp_late (hp_state p)"
  shows "hp_pass lc l p = hp_pass lc l' p \<or>
    (\<exists>q. hp_pass lc l p = Done (False, l, q) \<and> hp_pass lc l' p = Done (False, l', q))"
  using hp_consumeLine_line [of l p l']
proof
  assume "hp_consumeLine l p = hp_consumeLine l' p"
  with assms show ?thesis by (cases "hp_state p") (simp_all add: hp_pass_def hp_late_def hp_onContent_def)
next
  assume "\<exists>suc q. hp_consumeLine l p = Done (suc, l, q) \<and> hp_consumeLine l' p = Done (suc, l', q) \<and> (suc \<longrightarrow> hp_ready q)"
  then obtain suc q where "hp_consumeLine l p = Done (suc, l, q)" "hp_consumeLine l' p = Done (suc, l', q)" "suc \<longrightarrow> hp_ready q"
    by blast
  with assms show ?thesis
    by (cases "hp_state p"; cases "hp_input p = []") (simp_all add: hp_pass_def hp_late_def hp_onContent_def del: outcome_bind_Done)
qed

lemma hp_loop_line:
  assumes "\<not> hp_late (hp_state p)" shows "hp_loop lc l p = hp_loop lc l' p"
  using hp_pass_line [OF assms, of lc l l']
  by (subst (1 2) hp_loop.simps) auto

text \<open>What the loop keeps, and that it can be resumed where it stopped.\<close>

lemma hp_loop_ready:
  assumes "hp_loop lc l p = Some (Done q)" and "hp_ready p" shows "hp_ready q"
proof -
  have "r = Done q \<longrightarrow> hp_ready p \<longrightarrow> hp_ready q" if "hp_loop lc l p = Some r" for lc l p r q
  proof (rule hp_loop.raw_induct [OF _ that])
    fix loop lc l p r
    assume IH: "\<And>lc l p r. loop lc l p = Some r \<Longrightarrow> r = Done q \<longrightarrow> hp_ready p \<longrightarrow> hp_ready q"
      and body: "(case hp_pass lc l p of Fault f \<Rightarrow> Some (Fault f)
        | Done r \<Rightarrow> if fst r then loop lc (fst (snd r)) (snd (snd r)) else Some (Done (snd (snd r)))) = Some r"
    show "r = Done q \<longrightarrow> hp_ready p \<longrightarrow> hp_ready q"
    proof (cases "hp_pass lc l p")
      case (Done x)
      obtain go l1 p1 where x: "x = (go, l1, p1)" by (cases x) auto
      with Done body hp_pass_ready [OF Done [unfolded x]] IH [of lc l1 p1 r] show ?thesis
        by (cases go) auto
    qed (use body in auto)
  qed
  with assms show ?thesis by blast
qed

lemma hp_loop_resume:
  assumes "hp_loop lc l p = Some (Done q)" and "\<not> hp_ready q" and "hp_posOk p"
  shows "hp_posOk q \<and> length (hp_input q) \<le> length (hp_input p) \<and> (hp_late (hp_state p) \<longrightarrow> hp_late (hp_state q)) \<and>
    (\<exists>l'. hp_loop lc l (hp_ext b p) = hp_loop lc l' (hp_ext b q))"
proof -
  let ?R = "\<lambda>lc l p. hp_posOk q \<and> length (hp_input q) \<le> length (hp_input p) \<and>
    (hp_late (hp_state p) \<longrightarrow> hp_late (hp_state q)) \<and> (\<exists>l'. hp_loop lc l (hp_ext b p) = hp_loop lc l' (hp_ext b q))"
  have "r = Done q \<longrightarrow> hp_loop lc l p = Some r \<longrightarrow> hp_posOk p \<longrightarrow> ?R lc l p" if "hp_loop lc l p = Some r" for lc l p r
  proof (rule hp_loop.raw_induct [OF _ that])
    fix loop lc l p r
    assume IH: "\<And>lc l p r. loop lc l p = Some r \<Longrightarrow>
        r = Done q \<longrightarrow> hp_loop lc l p = Some r \<longrightarrow> hp_posOk p \<longrightarrow> ?R lc l p"
      and body: "(case hp_pass lc l p of Fault f \<Rightarrow> Some (Fault f)
        | Done r \<Rightarrow> if fst r then loop lc (fst (snd r)) (snd (snd r)) else Some (Done (snd (snd r)))) = Some r"
    show "r = Done q \<longrightarrow> hp_loop lc l p = Some r \<longrightarrow> hp_posOk p \<longrightarrow> ?R lc l p"
    proof (intro impI)
      assume r: "r = Done q" and run: "hp_loop lc l p = Some r" and pos: "hp_posOk p"
      from body r obtain go l1 p1 where pass: "hp_pass lc l p = Done (go, l1, p1)"
        by (cases "hp_pass lc l p") auto
      show "?R lc l p"
      proof (cases go)
        case True
        with body pass have rec: "loop lc l1 p1 = Some r" by simp
        from run pass True have run1: "hp_loop lc l1 p1 = Some r" by (subst (asm) hp_loop.simps) simp
        with hp_loop_ready r assms(2) have "\<not> hp_ready p1" by blast
        with hp_pass_go [OF _ this pos] pass True
        have go: "hp_pass lc l (hp_ext b p) = Done (True, l1, hp_ext b p1)" "hp_posOk p1"
          "length (hp_input p1) \<le> length (hp_input p)" "hp_late (hp_state p) \<longrightarrow> hp_late (hp_state p1)" by auto
        from IH [OF rec] r run1 go have R: "?R lc l1 p1" by blast
        from go have "hp_loop lc l (hp_ext b p) = hp_loop lc l1 (hp_ext b p1)" by (subst hp_loop.simps) simp
        with R go show ?thesis by auto
      next
        case False
        with body pass r have "p1 = q" by simp
        with pass False have "hp_pass lc l p = Done (False, l1, q)" by simp
        from hp_pass_stop [OF this assms(2) pos, of b]
        have stop: "hp_pass lc l (hp_ext b p) = hp_pass lc l (hp_ext b q)" "hp_posOk q" "hp_input q = hp_input p"
          "hp_state q = hp_state p" by simp_all
        from stop(1) have "hp_loop lc l (hp_ext b p) = hp_loop lc l (hp_ext b q)"
          by (subst (1 2) hp_loop.simps) simp
        with stop show ?thesis by auto
      qed
    qed
  qed
  with assms show ?thesis by blast
qed

text \<open>The pushes of several pieces, one after the other.\<close>

fun hp_feed :: "(string \<Rightarrow> nat option) \<Rightarrow> bytes list \<Rightarrow> http_parser \<Rightarrow> http_parser outcome option" where
  "hp_feed lc [] p = Some (Done p)"
| "hp_feed lc (d # ds) p =
     (case hp_push lc d p of Some (Done q) \<Rightarrow> hp_feed lc ds q | r \<Rightarrow> r)"

lemma push_ext: "length (hp_input y) + length x \<le> 16777216 \<Longrightarrow> hp_push lc x y = hp_loop lc [] (hp_ext x y)"
  by (simp add: hp_push_def hp_consume_def hp_ext_def)

lemma hp_push_resume:
  assumes push: "hp_push lc d p = Some (Done q)" and ready: "\<not> hp_ready q" and pos: "hp_posOk p"
    and small: "length (hp_input p) + length d + length b \<le> 16777216"
  shows "hp_posOk q" and "length (hp_input q) \<le> length (hp_input p) + length d"
    and "hp_late (hp_state p) \<longrightarrow> hp_late (hp_state q)"
    and "\<not> hp_late (hp_state q) \<Longrightarrow> hp_push lc b q = hp_push lc (d @ b) p"
proof -
  from push push_ext [of p d lc] small have loop: "hp_loop lc [] (hp_ext d p) = Some (Done q)" by simp
  have pos': "hp_posOk (hp_ext d p)" using pos by (auto simp: hp_posOk_def)
  from hp_loop_resume [OF loop ready pos', of b]
  show res: "hp_posOk q" "length (hp_input q) \<le> length (hp_input p) + length d"
    "hp_late (hp_state p) \<longrightarrow> hp_late (hp_state q)" by simp_all
  assume early: "\<not> hp_late (hp_state q)"
  from hp_loop_resume [OF loop ready pos', of b] obtain l'
    where "hp_loop lc [] (hp_ext b (hp_ext d p)) = hp_loop lc l' (hp_ext b q)" by blast
  moreover have "hp_ext b (hp_ext d p) = hp_ext (d @ b) p" by (simp add: hp_ext_def)
  moreover have "hp_loop lc l' (hp_ext b q) = hp_loop lc [] (hp_ext b q)"
    using early by (intro hp_loop_line) simp
  ultimately show "hp_push lc b q = hp_push lc (d @ b) p"
    using push_ext [of q b lc] push_ext [of p "d @ b" lc] small res(2) by simp
qed

lemma hp_feed_Cons:
  "hp_feed lc (d # ds) p = Some (Done q) \<Longrightarrow> \<exists>p1. hp_push lc d p = Some (Done p1) \<and> hp_feed lc ds p1 = Some (Done q)"
  by (auto split: option.splits outcome.splits)

lemma hp_feed_ready: "hp_feed lc ds p = Some (Done q) \<Longrightarrow> hp_ready p \<Longrightarrow> hp_ready q"
proof (induction ds arbitrary: p)
  case (Cons d ds)
  from hp_feed_Cons [OF Cons.prems(1)] obtain p1
    where p1: "hp_push lc d p = Some (Done p1)" "hp_feed lc ds p1 = Some (Done q)" by blast
  have "hp_ready p1"
    using p1(1) Cons.prems(2) hp_loop_ready [of lc "[]" "hp_ext d p" p1]
    by (auto simp: hp_push_def hp_consume_def Let_def hp_ext_def split: if_splits)
  with Cons.IH p1(2) show ?case by blast
qed simp

lemma hp_feed_resume:
  assumes "hp_feed lc ds p = Some (Done q)" and "\<not> hp_ready q" and "hp_posOk p"
    and "length (hp_input p) + length (concat ds) + length b \<le> 16777216"
  shows "(hp_late (hp_state p) \<longrightarrow> hp_late (hp_state q)) \<and>
    (\<not> hp_late (hp_state q) \<longrightarrow> hp_push lc b q = hp_push lc (concat ds @ b) p)"
  using assms
proof (induction ds arbitrary: p)
  case (Cons d ds)
  from hp_feed_Cons [OF Cons.prems(1)] obtain p1
    where p1: "hp_push lc d p = Some (Done p1)" "hp_feed lc ds p1 = Some (Done q)" by blast
  from hp_feed_ready [OF p1(2)] Cons.prems(2) have ready: "\<not> hp_ready p1" by blast
  note one = hp_push_resume [OF p1(1) ready Cons.prems(3), of "concat ds @ b"]
  from Cons.IH [OF p1(2) Cons.prems(2)] one Cons.prems(4) show ?case by auto
qed simp

text \<open>
  C24. A response is parsed the same however the connection cuts it: as long as the parser waits
  for more and no chunked content has begun, the next piece does what it would have done had
  everything arrived in one piece.
\<close>

theorem response_pieces:
  assumes "hp_feed lexical_cast ds (hp_new garbage) = Some (Done p)" and "\<not> hp_ready p"
    and "hp_state p \<in> {HP_START, HP_INHEADERS, HP_INCONTENT}"
    and "length (concat ds) + length d \<le> 16777216"
  shows "hp_push lexical_cast d p = hp_push lexical_cast (concat ds @ d) (hp_new garbage)"
proof -
  have "hp_posOk (hp_new garbage)" "hp_input (hp_new garbage) = []" by (simp_all add: hp_posOk_def hp_new_def)
  moreover have "\<not> hp_late (hp_state p)" using assms(3) by (auto simp: hp_late_def)
  ultimately show ?thesis using hp_feed_resume [OF assms(1,2), of d] assms(4) by simp
qed

lemma response_pieces_witness:
  "let lc = (\<lambda>s. if s = ''2'' then Some 2 else None); a = ''HTTP/1.1 200 OK'' @ crlf;
       d = ''Content-Length: 2'' @ crlf @ crlf @ ''ok'';
       p = (hp_new False)\<lparr>hp_state := HP_INHEADERS, hp_response := rs_new\<lparr>rs_resultCode := 200, rs_httpVersion := HTTP_11\<rparr>\<rparr>
   in hp_feed lc [a] (hp_new False) = Some (Done p) \<and> hp_push lc d p = hp_push lc (a @ d) (hp_new False)"
proof -
  let ?lc = "\<lambda>s. if s = ''2'' then Some 2 else None"
  let ?a = "''HTTP/1.1 200 OK'' @ crlf"
  let ?d = "''Content-Length: 2'' @ crlf @ crlf @ ''ok''"
  let ?p = "(hp_new False)\<lparr>hp_state := HP_INHEADERS, hp_response := rs_new\<lparr>rs_resultCode := 200, rs_httpVersion := HTTP_11\<rparr>\<rparr>"
  have "hp_push ?lc ?a (hp_new False) = hp_loop ?lc [] (hp_ext ?a (hp_new False))"
    by (rule push_ext) (simp add: hp_new_def crlf_def)
  moreover have "hp_pass ?lc [] (hp_ext ?a (hp_new False)) = Done (True, ''HTTP/1.1 200 OK'', ?p)" by code_simp
  then have "hp_loop ?lc [] (hp_ext ?a (hp_new False)) = hp_loop ?lc ''HTTP/1.1 200 OK'' ?p"
    by (subst hp_loop.simps) simp
  moreover have "hp_loop ?lc ''HTTP/1.1 200 OK'' ?p = Some (Done ?p)"
    by (subst hp_loop.simps) (simp add: hp_pass_def hp_new_def)
  ultimately have feed: "hp_feed ?lc [?a] (hp_new False) = Some (Done ?p)" by simp
  have "hp_push ?lc ?d ?p = hp_push ?lc (concat [?a] @ ?d) (hp_new False)"
    by (rule response_pieces [OF feed]) (simp_all add: hp_new_def crlf_def)
  with feed show ?thesis by (simp add: Let_def)
qed

subsection \<open>Chunk lines\<close>

lemma hp_scan_no_line:
  "CHR 0x0A \<notin> set s \<Longrightarrow> CHR 0x00 \<notin> set s \<Longrightarrow> \<exists>j. hp_scan i s = Scan_None j"
  by (induction i s rule: hp_scan.induct) auto

lemma hp_scan_nul:
  "CHR 0x0A \<notin> set u \<Longrightarrow> CHR 0x00 \<notin> set u \<Longrightarrow> r \<noteq> [] \<Longrightarrow> hp_scan i (u @ CHR 0x00 # r) = Scan_Nul (i + length u)"
proof (induction u arbitrary: i)
  case Nil
  then show ?case by (cases r) simp_all
next
  case (Cons c u)
  then show ?case by (cases u) auto
qed

text \<open>
  Where a chunk begins the parser gives up with BadProtocol if the line with the size of the
  chunk has not arrived as a whole.
\<close>

lemma chunk_line_cut:
  assumes "hp_state p = HP_INCONTENT_CHUNKBEGIN" and "hp_input p = []" and "hp_nextScanLinePos p = 0"
    and "d \<noteq> []" and "CHR 0x0A \<notin> set d" and "CHR 0x00 \<notin> set d" and "length d \<le> 16777216"
  shows "\<exists>q. hp_push lexical_cast d p = Some (Done q) \<and> hp_ready q \<and> hp_result q = BadProtocol"
proof -
  from hp_scan_no_line [OF assms(5,6)] obtain j where "hp_scan 0 d = Scan_None j" by blast
  with assms have "hp_pass lexical_cast [] (hp_ext d p) = Done (False, [], hp_fail BadProtocol ((hp_ext d p)\<lparr>hp_nextScanLinePos := j\<rparr>))"
    by (simp add: hp_pass_def hp_consumeLine_def del: outcome_bind_Done)
  with assms(2,7) show ?thesis by (subst push_ext, simp, subst hp_loop.simps) (simp add: hp_fail_def)
qed

lemma chunk_line_cut_witness:
  "\<exists>q. hp_push (\<lambda>_. None) [CHR ''5'', CHR 0x0D] ((hp_new False)\<lparr>hp_state := HP_INCONTENT_CHUNKBEGIN\<rparr>) = Some (Done q) \<and>
       hp_ready q \<and> hp_result q = BadProtocol"
  by (rule chunk_line_cut) (simp_all add: hp_new_def)

text \<open>
  A zero byte in the line with the size of a chunk makes the parser loop forever.
\<close>

lemma chunk_line_nul:
  assumes "hp_state p = HP_INCONTENT_CHUNKBEGIN" and "hp_input p = []" and "hp_nextScanLinePos p = 0"
    and "CHR 0x0A \<notin> set u" and "CHR 0x00 \<notin> set u" and "r \<noteq> []"
    and "length u + length r < 16777216"
  shows "hp_push lexical_cast (u @ CHR 0x00 # r) p = None"
proof -
  let ?stuck = "\<lambda>l q. l = [] \<and> hp_state q = HP_INCONTENT_CHUNKBEGIN \<and> hp_input q = u @ CHR 0x00 # r \<and>
    (hp_nextScanLinePos q = 0 \<or> hp_nextScanLinePos q = length u)"
  have pass: "\<exists>q1. hp_pass lc l q = Done (True, [], q1) \<and> ?stuck [] q1" if "?stuck l q" for lc l q
  proof -
    have "hp_scan (hp_nextScanLinePos q) (drop (hp_nextScanLinePos q) (hp_input q)) = Scan_Nul (length u)"
      using that hp_scan_nul [OF assms(4,5,6), of 0] hp_scan_nul [of "[]" r "length u"] assms(6) by auto
    with that show ?thesis
      by (simp add: hp_pass_def hp_consumeLine_def hp_onChunkLine_def del: outcome_bind_Done)
  qed
  have "\<not> ?stuck l q" if "hp_loop lc l q = Some x" for lc l q x
  proof (rule hp_loop.raw_induct [OF _ that])
    fix loop lc l q x
    assume IH: "\<And>lc l q x. loop lc l q = Some x \<Longrightarrow> \<not> ?stuck l q"
      and body: "(case hp_pass lc l q of Fault f \<Rightarrow> Some (Fault f)
        | Done r \<Rightarrow> if fst r then loop lc (fst (snd r)) (snd (snd r)) else Some (Done (snd (snd r)))) = Some x"
    show "\<not> ?stuck l q"
    proof
      assume "?stuck l q"
      from pass [OF this, of lc] obtain q1 where q1: "hp_pass lc l q = Done (True, [], q1)" "?stuck [] q1" by blast
      with body have "loop lc [] q1 = Some x" by simp
      from IH [OF this] q1(2) show False by blast
    qed
  qed
  then have "hp_loop lexical_cast [] (hp_ext (u @ CHR 0x00 # r) p) = None"
    using assms(1-3) by (cases "hp_loop lexical_cast [] (hp_ext (u @ CHR 0x00 # r) p)") fastforce+
  with assms(2,7) show ?thesis by (subst push_ext) simp_all
qed

lemma chunk_line_nul_witness:
  "hp_push (\<lambda>_. None) (''5'' @ CHR 0x00 # [CHR 0x0A]) ((hp_new False)\<lparr>hp_state := HP_INCONTENT_CHUNKBEGIN\<rparr>) = None"
  by (rule chunk_line_nul) (simp_all add: hp_new_def)

end
