(* ===== verification/Sf_AsyncSpec.thy ===== *)
theory Sf_AsyncSpec
  imports Sf_AsyncOp "HOL-Library.Multiset"
begin

text \<open>
  What the table of operations (\<open>tools/async/AsyncOpBase\<close>) promises, as an abstract map from ids
  to operations that knows neither the list ordered by timeouts nor its timer, and the refinement
  of it.  Also the table as a bag, and changes of an operation while it is in the table.
\<close>

subsection \<open>The table as a bag\<close>

lemma mset_ops_insert:
  "op_addr a \<notin> op_addr ` set bs \<Longrightarrow> mset (ops_insert a bs) = add_mset a (mset bs)"
  by (induction bs) (auto dest: op_before_total)

lemma mset_addAsyncOp:
  assumes "op_fresh op b" and "op_id op \<noteq> 0"
  shows "mset (ab_ops (snd (addAsyncOp op b))) = add_mset op (mset (ab_ops b))"
    "ab_nextId (snd (addAsyncOp op b)) = ab_nextId b"
  using assms by (simp_all add: addAsyncOp_def Let_def op_fresh_def mset_ops_insert)

lemma mset_ab_remove:
  assumes "ab_wf b" and "map_of (ab_map b) i = Some op"
  shows "mset (ab_ops b) = add_mset op (mset (ab_ops (ab_remove op i b)))"
proof -
  from assms have op: "op \<in> set (ab_ops b)" by (auto dest: ab_wf_mapD)
  have "distinct (map op_addr (ab_ops b))" using assms(1) by (rule ab_wf_addrD)
  then have d: "distinct (ab_ops b)" by (simp add: distinct_map)
  have er: "ab_ops (ab_remove op i b) = filter (\<lambda>q. q \<noteq> op) (ab_ops b)"
    using assms(1) op by (simp add: ab_remove_def ops_erase_eq [OF ab_wf_addrD])
  have "mset (ab_ops (ab_remove op i b)) = mset_set (set (ab_ops b) - {op})"
    using d by (simp add: er mset_set_set [symmetric]) (simp add: set_diff_eq)
  with op d show ?thesis by (simp add: mset_set_set [symmetric] mset_set.remove)
qed

subsection \<open>Changing an operation in place\<close>

text \<open>The table holds pointers: what an operation points to may change while it is in the table.\<close>

definition ab_modify :: "int \<Rightarrow> ('p \<Rightarrow> 'p) \<Rightarrow> 'p async_base \<Rightarrow> 'p async_base" where
  "ab_modify i f b =
     (let g = (\<lambda>op. if op_id op = i then op\<lparr>op_data := f (op_data op)\<rparr> else op)
      in b\<lparr>ab_ops := map g (ab_ops b), ab_map := map (\<lambda>(j, op). (j, g op)) (ab_map b)\<rparr>)"

lemma op_before_data [simp]:
  "op_before (if P then op\<lparr>op_data := x\<rparr> else op) (if Q then op'\<lparr>op_data := y\<rparr> else op') \<longleftrightarrow> op_before op op'"
  by (simp add: op_before_def)

lemma ab_modify_ok:
  assumes "ab_ok b"
  shows "ab_ok (ab_modify i f b)"
    "map_of (ab_map (ab_modify i f b)) j =
       map_option (\<lambda>op. if j = i then op\<lparr>op_data := f (op_data op)\<rparr> else op) (map_of (ab_map b) j)"
    "ab_nextId (ab_modify i f b) = ab_nextId b"
    "ab_ops (ab_modify i f b) = map (\<lambda>op. if op_id op = i then op\<lparr>op_data := f (op_data op)\<rparr> else op) (ab_ops b)"
proof -
  let ?g = "\<lambda>op. if op_id op = i then op\<lparr>op_data := f (op_data op)\<rparr> else op"
  have wf: "ab_wf b" using assms by (simp add: ab_ok_def)
  show ops: "ab_ops (ab_modify i f b) = map ?g (ab_ops b)" and next_id: "ab_nextId (ab_modify i f b) = ab_nextId b"
    by (simp_all add: ab_modify_def Let_def)
  have raw: "map_of (ab_map (ab_modify i f b)) j = map_option ?g (map_of (ab_map b) j)" for j
    by (simp add: ab_modify_def Let_def map_of_map)
  show lookup: "map_of (ab_map (ab_modify i f b)) j =
      map_option (\<lambda>op. if j = i then op\<lparr>op_data := f (op_data op)\<rparr> else op) (map_of (ab_map b) j)" for j
    using ab_wf_idD [OF wf, of j] by (cases "map_of (ab_map b) j") (auto simp: raw)
  have id: "op_id (?g op) = op_id op" and addr: "op_addr (?g op) = op_addr op" for op :: "'a aop" by simp_all
  have "ab_same (ab_modify i f b)"
  proof (rule ab_sameI)
    fix op
    show "op \<in> set (ab_ops (ab_modify i f b)) \<longleftrightarrow> map_of (ab_map (ab_modify i f b)) (op_id op) = Some op"
    proof
      assume "op \<in> set (ab_ops (ab_modify i f b))"
      then obtain q where q: "q \<in> set (ab_ops b)" "op = ?g q" by (auto simp: ops)
      then have "map_of (ab_map b) (op_id q) = Some q" "op_id op = op_id q"
        using ab_wf_memD [OF wf, of q] by simp_all
      then show "map_of (ab_map (ab_modify i f b)) (op_id op) = Some op"
        by (simp only: raw option.map q(2))
    next
      assume "map_of (ab_map (ab_modify i f b)) (op_id op) = Some op"
      then obtain q where q: "map_of (ab_map b) (op_id op) = Some q" "op = ?g q" by (auto simp: raw)
      from ab_wf_mapD [OF wf q(1)] q(2) show "op \<in> set (ab_ops (ab_modify i f b))" unfolding ops by simp
    qed
  next
    show "map_of (ab_map (ab_modify i f b)) j = Some op \<Longrightarrow> op_id op = j" for j op
      using ab_wf_idD [OF wf, of j] by (auto simp: lookup split: if_splits)
    show "map_of (ab_map (ab_modify i f b)) j = Some op \<Longrightarrow> 0 < j \<and> j < ab_nextId (ab_modify i f b)" for j op
      using ab_wf_boundD [OF wf, of j] by (auto simp: lookup next_id)
    have "op_addr \<circ> ?g = (op_addr :: 'a aop \<Rightarrow> nat)" by (simp add: fun_eq_iff)
    then show "distinct (map op_addr (ab_ops (ab_modify i f b)))"
      unfolding ops map_map using ab_wf_addrD [OF wf] by simp
  qed
  moreover have "sorted_wrt op_before (map ?g (ab_ops b))"
    using wf by (simp add: sorted_wrt_map ab_wf_def)
  moreover have "map fst (ab_map (ab_modify i f b)) = map fst (ab_map b)"
    by (auto simp: ab_modify_def Let_def)
  then have "sm_ok (ab_map (ab_modify i f b))" using wf by (simp add: sm_ok_def ab_wf_def)
  moreover have "ab_timed (ab_modify i f b)"
    using assms by (auto simp: ab_timed_def ops ab_ok_def) (auto simp: ab_modify_def)
  ultimately show "ab_ok (ab_modify i f b)"
    using wf by (simp add: ab_ok_def ab_wf_def ops next_id) (simp add: ab_modify_def)
qed

subsection \<open>The abstract table\<close>

text \<open>Calls of the owner; \<open>Table_Timer\<close> is the timer that fires at a time.\<close>

datatype 'p table_call = Table_Gen | Table_Add "'p aop" | Table_Get int | Table_Timer time

datatype 'p table_result = Got_Id int | Got_Op "'p aop option" | Timed_Out "'p aop set"

type_synonym 'p table = "int \<times> (int \<rightharpoonup> 'p aop)"

definition spec_step :: "'p table_call \<Rightarrow> 'p table \<Rightarrow> 'p table_result \<times> 'p table" where
  "spec_step call t =
     (case t of (n, m) \<Rightarrow>
        (case call of
           Table_Gen \<Rightarrow> (Got_Id n, n + 1, m)
         | Table_Add op \<Rightarrow>
             (if op_id op = 0 then (Got_Id n, n + 1, m(n \<mapsto> op\<lparr>op_id := n\<rparr>))
              else (Got_Id (op_id op), n, m(op_id op \<mapsto> op)))
         | Table_Get i \<Rightarrow> (Got_Op (m i), n, m(i := None))
         | Table_Timer ct \<Rightarrow>
             (Timed_Out {op \<in> ran m. op_timeOut op \<le> ct}, n,
              (\<lambda>i. case m i of None \<Rightarrow> None | Some op \<Rightarrow> if op_timeOut op \<le> ct then None else Some op))))"

text \<open>What a caller has to see to: an operation that is added is new, and so is its id.\<close>

definition call_ok :: "'p table_call \<Rightarrow> 'p table \<Rightarrow> bool" where
  "call_ok call t \<longleftrightarrow>
     (\<forall>op. call = Table_Add op \<longrightarrow> op_addr op \<notin> op_addr ` ran (snd t) \<and>
        (op_id op \<noteq> 0 \<longrightarrow> 0 < op_id op \<and> op_id op < fst t \<and> snd t (op_id op) = None))"

definition table_step :: "'p table_call \<Rightarrow> 'p async_base \<Rightarrow> ('p table_result \<times> 'p async_base) option" where
  "table_step call b =
     (case call of
        Table_Gen \<Rightarrow> (case genFreeId b of (i, b') \<Rightarrow> Some (Got_Id i, b'))
      | Table_Add op \<Rightarrow> (case addAsyncOp op b of (i, b') \<Rightarrow> Some (Got_Id i, b'))
      | Table_Get i \<Rightarrow> (case getReadyAsyncOp i b of (r, b') \<Rightarrow> Some (Got_Op r, b'))
      | Table_Timer ct \<Rightarrow>
          (case onTimer base_get base_put base_onCancel ct (b, []) of
             None \<Rightarrow> None
           | Some (b', l) \<Rightarrow> Some (Timed_Out (snd ` set l), b')))"

definition ab_abs :: "'p async_base \<Rightarrow> 'p table" where
  "ab_abs b = (ab_nextId b, map_of (ab_map b))"

lemma ran_table: "ab_wf b \<Longrightarrow> ran (map_of (ab_map b)) = set (ab_ops b)"
  using ab_wf_memD [of b] ab_wf_idD [of b] by (fastforce simp: ran_def)

lemma takeWhile_timeOut:
  assumes "sorted_wrt op_before ops"
  shows "set (takeWhile (\<lambda>op. op_timeOut op \<le> ct) ops) = {op \<in> set ops. op_timeOut op \<le> ct}"
  using assms
proof (induction ops)
  case (Cons op ops)
  then have "\<forall>q \<in> set ops. op_timeOut op \<le> op_timeOut q" by (auto dest: op_before_timeOut)
  with Cons show ?case by (auto dest: order_trans)
qed simp

lemma timer_nextId:
  assumes "ab_ok b" and "onTimer base_get base_put base_onCancel ct (b, []) = Some s'"
  shows "ab_nextId (base_get s') = ab_nextId b"
proof -
  let ?s = "base_put ((base_get (b, []))\<lparr>ab_timer := None\<rparr>) (b, [])"
  have wf: "ab_wf (base_get ?s)" using assms(1) by (simp add: ab_ok_def ab_wf_def ab_same_def base_get_def base_put_def)
  obtain t where t: "expireAsyncOps base_get base_put base_onCancel ct ?s = Some t"
    using base.expire_removes [OF wf] by blast
  have "ab_nextId (base_get t) = ab_nextId b"
    by (rule base.expire_keeps [where P = "\<lambda>s. ab_nextId (base_get s) = ab_nextId b", OF _ _ wf t])
      (simp_all add: base_get_def base_put_def base_onCancel_def ab_remove_def)
  with t assms(2) show ?thesis
    by (auto simp: onTimer_def base_get_def base_put_def split: list.splits)
qed

lemma table_step_refines:
  assumes ok: "ab_ok b" and call: "call_ok call (ab_abs b)"
  shows "\<exists>r b'. table_step call b = Some (r, b') \<and> ab_ok b' \<and> spec_step call (ab_abs b) = (r, ab_abs b')"
proof (cases call)
  case Table_Gen
  with ok show ?thesis
    using genFreeId_ok [OF ok] by (auto simp: table_step_def spec_step_def ab_abs_def genFreeId_def)
next
  case (Table_Add op)
  have wf: "ab_wf b" using ok by (simp add: ab_ok_def)
  have fresh: "op_fresh op b" using call ran_table [OF wf] by (auto simp: Table_Add call_ok_def op_fresh_def ab_abs_def)
  obtain i b' where add: "addAsyncOp op b = (i, b')" by fastforce
  note added = addAsyncOp_ok [OF ok fresh add]
  have i: "i = (if op_id op = 0 then ab_nextId b else op_id op)"
    "ab_nextId b' = (if op_id op = 0 then ab_nextId b + 1 else ab_nextId b)"
    using add by (auto simp: addAsyncOp_def Let_def split: if_splits)
  have "op\<lparr>op_id := op_id op\<rparr> = op" by simp
  with added i show ?thesis
    by (auto simp: Table_Add table_step_def spec_step_def ab_abs_def add)
next
  case (Table_Get i)
  show ?thesis
    using getReadyAsyncOp_ok [OF ok, of i]
    by (cases "map_of (ab_map b) i")
      (auto simp: Table_Get table_step_def spec_step_def ab_abs_def getReadyAsyncOp_def ab_remove_def fun_eq_iff)
next
  case (Table_Timer ct)
  from timer_fires [OF ok, of ct] obtain b' where b':
    "onTimer base_get base_put base_onCancel ct (b, []) =
       Some (b', map (Pair TimeOut) (takeWhile (\<lambda>op. op_timeOut op \<le> ct) (ab_ops b)))"
    "ab_ok b'" "set (ab_ops b') = {op \<in> set (ab_ops b). ct < op_timeOut op}" by blast
  have wf: "ab_wf b" "ab_wf b'" using ok b'(2) by (simp_all add: ab_ok_def)
  have due: "snd ` set (map (Pair TimeOut) (takeWhile (\<lambda>op. op_timeOut op \<le> ct) (ab_ops b))) =
      {op \<in> ran (map_of (ab_map b)). op_timeOut op \<le> ct}"
    using wf(1) takeWhile_timeOut [of "ab_ops b" ct] by (auto simp: ran_table [OF wf(1)] ab_wf_def image_image)
  have "map_of (ab_map b') i = (case map_of (ab_map b) i of None \<Rightarrow> None
      | Some op \<Rightarrow> if op_timeOut op \<le> ct then None else Some op)" for i
  proof (cases "map_of (ab_map b') i")
    case None
    show ?thesis
    proof (cases "map_of (ab_map b) i")
      case (Some op)
      with ab_wf_mapD [OF wf(1) Some] ab_wf_memD [OF wf(2), of op] None b'(3)
      have "\<not> ct < op_timeOut op" by auto
      with None Some show ?thesis by (simp add: not_less)
    qed (use None in simp)
  next
    case (Some op)
    from ab_wf_mapD [OF wf(2) this] b'(3) have "op \<in> set (ab_ops b)" "op_id op = i" "ct < op_timeOut op" by auto
    with ab_wf_memD [OF wf(1), of op] have "map_of (ab_map b) i = Some op" by simp
    with Some \<open>ct < op_timeOut op\<close> show ?thesis by simp
  qed
  then have "map_of (ab_map b') = (\<lambda>i. case map_of (ab_map b) i of None \<Rightarrow> None
      | Some op \<Rightarrow> if op_timeOut op \<le> ct then None else Some op)" by blast
  with b' due timer_nextId [OF ok b'(1)] show ?thesis
    by (simp add: Table_Timer table_step_def spec_step_def ab_abs_def base_get_def del: set_map)
qed

fun spec_run :: "'p table_call list \<Rightarrow> 'p table \<Rightarrow> 'p table_result list \<times> 'p table" where
  "spec_run [] t = ([], t)"
| "spec_run (c # cs) t =
     (case spec_step c t of (r, t1) \<Rightarrow> (case spec_run cs t1 of (rs, t2) \<Rightarrow> (r # rs, t2)))"

fun table_run :: "'p table_call list \<Rightarrow> 'p async_base \<Rightarrow> ('p table_result list \<times> 'p async_base) option" where
  "table_run [] b = Some ([], b)"
| "table_run (c # cs) b =
     (case table_step c b of
        None \<Rightarrow> None
      | Some (r, b1) \<Rightarrow> map_option (\<lambda>(rs, b2). (r # rs, b2)) (table_run cs b1))"

fun calls_ok :: "'p table_call list \<Rightarrow> 'p table \<Rightarrow> bool" where
  "calls_ok [] t \<longleftrightarrow> True"
| "calls_ok (c # cs) t \<longleftrightarrow> call_ok c t \<and> calls_ok cs (snd (spec_step c t))"

text \<open>
  C20. The table of operations refines a map from ids to operations: whatever sequence of calls an
  owner makes, each call returns, with the result the map gives, and the table stands for the map
  in the end.
\<close>

theorem table_refines_map:
  assumes "ab_ok b" and "calls_ok cs (ab_abs b)"
  shows "\<exists>b'. table_run cs b = Some (fst (spec_run cs (ab_abs b)), b') \<and> ab_ok b' \<and>
     snd (spec_run cs (ab_abs b)) = ab_abs b'"
  using assms
proof (induction cs arbitrary: b)
  case (Cons c cs)
  from table_step_refines [OF Cons.prems(1), of c] Cons.prems(2) obtain r b1
    where "table_step c b = Some (r, b1)" "ab_ok b1" "spec_step c (ab_abs b) = (r, ab_abs b1)" by auto
  with Cons.IH [of b1] Cons.prems(2) show ?case by (auto split: prod.split)
qed simp

lemma table_refines_map_witness:
  "\<exists>b'. table_run [Table_Gen, Table_Add (new_op 1 (At 5) 7 ()), Table_Timer (At 9), Table_Get 2] ab_init =
     Some ([Got_Id 1, Got_Id 2, Timed_Out {(new_op 1 (At 5) 7 ())\<lparr>op_id := 2\<rparr>}, Got_Op None], b')"
proof -
  let ?cs = "[Table_Gen, Table_Add (new_op 1 (At 5) 7 ()), Table_Timer (At 9), Table_Get 2]"
  have abs: "ab_abs (ab_init :: unit async_base) = (1, Map.empty)" by (simp add: ab_abs_def ab_init_def)
  have run: "fst (spec_run ?cs (ab_abs ab_init)) =
      [Got_Id 1, Got_Id 2, Timed_Out {(new_op 1 (At 5) 7 ())\<lparr>op_id := 2\<rparr>}, Got_Op None]"
    by (auto simp: abs spec_step_def new_op_def ran_def)
  have "calls_ok ?cs (ab_abs ab_init)" by (simp add: abs call_ok_def spec_step_def new_op_def)
  from table_refines_map [OF ab_ok_init this] run show ?thesis by auto
qed

subsection \<open>What the timer keeps\<close>

text \<open>
  An owner whose table is a field of its own: its handlers work on the rest.  What holds of a state
  with a table that is in order, and is kept when an operation is taken out and cancelled, is kept
  by the timer.
\<close>

locale table_owner = cancel_handler get put h
  for get :: "'s \<Rightarrow> 'p async_base" and put :: "'p async_base \<Rightarrow> 's \<Rightarrow> 's" and h :: "error \<Rightarrow> 'p aop \<Rightarrow> 's \<Rightarrow> 's" +
  assumes put_put [simp]: "put b (put b' s) = put b s"
    and put_get [simp]: "put (get s) s = s"
    and put_handler: "put b (h e op s) = h e op (put b s)"
begin

lemma timer_keeps:
  assumes run: "onTimer get put h ct s = Some s'" and P: "P s" and ok: "\<And>s. P s \<Longrightarrow> ab_ok (get s)"
    and step: "\<And>s op. P s \<Longrightarrow> map_of (ab_map (get s)) (op_id op) = Some op \<Longrightarrow>
      P (h TimeOut op (put (ab_remove op (op_id op) (get s)) s))"
    and same: "\<And>s b. P s \<Longrightarrow> ab_ok b \<Longrightarrow> ab_ops b = ab_ops (get s) \<Longrightarrow> ab_map b = ab_map (get s) \<Longrightarrow>
      ab_nextId b = ab_nextId (get s) \<Longrightarrow> P (put b s)"
  shows "P s'"
proof -
  let ?arm = "\<lambda>b. b\<lparr>ab_timer := Some NegInf\<rparr>"
  let ?Q = "\<lambda>r. P (put (?arm (get r)) r)"
  let ?s = "put ((get s)\<lparr>ab_timer := None\<rparr>) s"
  have armed: "ab_ok (?arm b)" if "ab_wf b" for b :: "'p async_base"
    using that by (simp add: ab_ok_def ab_wf_def ab_same_def ab_timed_def)
  have okP: "ab_ok (get s)" by (rule ok [OF P])
  have wf: "ab_wf (get ?s)" using okP by (simp add: ab_ok_def ab_wf_def ab_same_def)
  obtain q where q: "expireAsyncOps get put h ct ?s = Some q" "ab_wf (get q)" using expire_removes [OF wf] by blast
  have Q: "?Q q"
  proof (rule expire_keeps [where P = ?Q, OF _ _ wf q(1)])
    have "P (put (?arm (get s)) s)" by (rule same [OF P armed]) (use okP in \<open>simp_all add: ab_ok_def\<close>)
    then show "?Q ?s" by simp
  next
    fix r op
    assume Q: "?Q r" and look: "map_of (ab_map (get r)) (op_id op) = Some op"
    let ?r = "put (?arm (get r)) r"
    have "map_of (ab_map (get ?r)) (op_id op) = Some op" using look by simp
    have "ab_remove op i (?arm b) = ?arm (ab_remove op i b)" for i b by (simp add: ab_remove_def)
    with step [OF Q \<open>map_of (ab_map (get ?r)) (op_id op) = Some op\<close>]
    show "?Q (h TimeOut op (put (ab_remove op (op_id op) (get r)) r))" by (simp add: put_handler)
  qed
  obtain b where s': "s' = put b q" and b: "ab_ops b = ab_ops (get q)" "ab_map b = ab_map (get q)" "ab_nextId b = ab_nextId (get q)"
  proof (cases "ab_ops (get q)")
    case Nil
    then have "s' = put (get q) q" using run q(1) by (simp add: onTimer_def)
    then show thesis by (rule that) simp_all
  next
    case (Cons op ops)
    then have "s' = put ((get q)\<lparr>ab_timer := Some (op_timeOut op)\<rparr>) q" using run q(1) by (simp add: onTimer_def)
    then show thesis by (rule that) simp_all
  qed
  obtain t where "onTimer get put h ct s = Some t" "ab_ok (get t)" using timer_expires [OF okP, of ct] by blast
  then have "ab_ok (get (put b q))" using run by (simp flip: s')
  then have "ab_ok b" by simp
  from same [OF Q this] b show ?thesis by (simp add: s')
qed

end

end
