(* ===== verification/Sf_TCPConnect.thy ===== *)
theory Sf_TCPConnect
  imports Sf_AsyncSpec
begin

text \<open>
  \<open>TCPConnectProtocol\<close> (\<open>libschnee/schnee/p2p/com/TCPConnectProtocol.h\<close>, \<open>TCPConnectProtocol.cpp\<close>):
  peers ask each other for the address and port of their TCP servers.

  Callbacks are values of a type \<open>'cb\<close> of the client; a call of one is an entry of
  \<open>tp_calls\<close>, a message sent one of \<open>tp_sent\<close>.
\<close>

record connect_details =
  dt_port :: int
  dt_addresses :: "string list"
  dt_error :: error

definition new_details :: connect_details where
  "new_details = \<lparr>dt_port = -1, dt_addresses = [], dt_error = ServerError\<rparr>"

datatype tcp_msg = RequestConnectDetails int | ConnectDetailsReply int connect_details

text \<open>\<open>tp_own\<close> is a shared pointer, null until \<open>setOwnDetails\<close> is called.\<close>

record 'cb tcp_protocol =
  tp_ops :: "'cb option async_base"
  tp_alloc :: nat
  tp_own :: "connect_details option"
  tp_sent :: "(host_id \<times> tcp_msg) list"
  tp_calls :: "('cb \<times> error \<times> connect_details) list"

definition tp_new :: "'cb tcp_protocol" where
  "tp_new = \<lparr>tp_ops = ab_init, tp_alloc = 0, tp_own = None, tp_sent = [], tp_calls = []\<rparr>"

definition setOwnDetails :: "connect_details option \<Rightarrow> 'cb tcp_protocol \<Rightarrow> 'cb tcp_protocol" where
  "setOwnDetails details p =
     (case details of None \<Rightarrow> p\<lparr>tp_own := Some new_details\<rparr> | Some d \<Rightarrow> p\<lparr>tp_own := Some d\<rparr>)"

definition requestDetails ::
  "int \<Rightarrow> (host_id \<Rightarrow> tcp_msg \<Rightarrow> error) \<Rightarrow> host_id \<Rightarrow> 'cb option \<Rightarrow> int \<Rightarrow> 'cb tcp_protocol \<Rightarrow>
   error \<times> 'cb tcp_protocol" where
  "requestDetails now send target cb timeOutMs p =
     (case genFreeId (tp_ops p) of (i, b) \<Rightarrow>
        let m = RequestConnectDetails i;
            p1 = p\<lparr>tp_ops := b, tp_sent := tp_sent p @ [(target, m)]\<rparr>;
            e = send target m
        in if failed e then (e, p1)
           else
             let op = (new_op 0 (regTimeOutMs now timeOutMs) (tp_alloc p1) cb)\<lparr>op_id := i\<rparr>
             in (NoError, p1\<lparr>tp_ops := snd (addAsyncOp op (tp_ops p1)), tp_alloc := tp_alloc p1 + 1\<rparr>))"

definition tp_onCancel :: "error \<Rightarrow> 'cb option aop \<Rightarrow> 'cb tcp_protocol \<Rightarrow> 'cb tcp_protocol" where
  "tp_onCancel reason op p =
     (case op_data op of None \<Rightarrow> p
      | Some cb \<Rightarrow> p\<lparr>tp_calls := tp_calls p @ [(cb, reason, new_details)]\<rparr>)"

definition tp_put_ops :: "'cb option async_base \<Rightarrow> 'cb tcp_protocol \<Rightarrow> 'cb tcp_protocol" where
  "tp_put_ops b p = p\<lparr>tp_ops := b\<rparr>"

interpretation protocol: table_owner tp_ops tp_put_ops tp_onCancel
  by unfold_locales (simp_all add: tp_put_ops_def tp_onCancel_def split: option.split)

definition tp_onTimer :: "time \<Rightarrow> 'cb tcp_protocol \<Rightarrow> 'cb tcp_protocol option" where
  "tp_onTimer ct p = onTimer tp_ops tp_put_ops tp_onCancel ct p"

definition tp_onRequest :: "host_id \<Rightarrow> int \<Rightarrow> 'cb tcp_protocol \<Rightarrow> 'cb tcp_protocol outcome" where
  "tp_onRequest sender i p =
     (case tp_own p of
        None \<Rightarrow> Fault NullDeref
      | Some own \<Rightarrow> Done (p\<lparr>tp_sent := tp_sent p @ [(sender, ConnectDetailsReply i own)]\<rparr>))"

text \<open>The sender of a reply is not looked at.\<close>

definition tp_onReply :: "host_id \<Rightarrow> int \<Rightarrow> connect_details \<Rightarrow> 'cb tcp_protocol \<Rightarrow> 'cb tcp_protocol" where
  "tp_onReply sender i d p =
     (case getReadyAsyncOp i (tp_ops p) of
        (None, b) \<Rightarrow> p\<lparr>tp_ops := b\<rparr>
      | (Some op, b) \<Rightarrow>
          (case op_data op of
             None \<Rightarrow> p\<lparr>tp_ops := b\<rparr>
           | Some cb \<Rightarrow> p\<lparr>tp_ops := b, tp_calls := tp_calls p @ [(cb, dt_error d, d)]\<rparr>))"

subsection \<open>A request and its reply\<close>

definition tp_ok :: "'cb tcp_protocol \<Rightarrow> bool" where
  "tp_ok p \<longleftrightarrow> ab_ok (tp_ops p) \<and> (\<forall>op \<in> set (ab_ops (tp_ops p)). op_addr op < tp_alloc p)"

lemma tp_ok_new [simp, sf_inv]: "tp_ok tp_new"
  by (simp add: tp_ok_def tp_new_def) (simp add: ab_init_def)

lemma setOwnDetails_ok [sf_inv]: "tp_ok p \<Longrightarrow> tp_ok (setOwnDetails d p)"
  by (simp add: tp_ok_def setOwnDetails_def split: option.split)

lemma requestDetails_sent:
  assumes "tp_ok p" and "send target (RequestConnectDetails (ab_nextId (tp_ops p))) = NoError"
  shows "\<exists>op. fst (requestDetails now send target cb ms p) = NoError \<and>
     tp_ok (snd (requestDetails now send target cb ms p)) \<and>
     map_of (ab_map (tp_ops (snd (requestDetails now send target cb ms p)))) =
       (map_of (ab_map (tp_ops p)))(ab_nextId (tp_ops p) \<mapsto> op) \<and>
     op_data op = cb \<and> op_timeOut op = regTimeOutMs now ms \<and>
     tp_sent (snd (requestDetails now send target cb ms p)) =
       tp_sent p @ [(target, RequestConnectDetails (ab_nextId (tp_ops p)))] \<and>
     tp_calls (snd (requestDetails now send target cb ms p)) = tp_calls p \<and>
     tp_own (snd (requestDetails now send target cb ms p)) = tp_own p"
proof -
  let ?i = "ab_nextId (tp_ops p)"
  let ?b = "(tp_ops p)\<lparr>ab_nextId := ?i + 1\<rparr>"
  let ?op = "(new_op 0 (regTimeOutMs now ms) (tp_alloc p) cb)\<lparr>op_id := ?i\<rparr>"
  have gen: "genFreeId (tp_ops p) = (?i, ?b)" by (simp add: genFreeId_def)
  have ok: "ab_ok ?b" using genFreeId_ok [of "tp_ops p"] assms(1) gen by (simp add: tp_ok_def)
  have "op_addr ?op \<notin> op_addr ` set (ab_ops (tp_ops p))"
    using assms(1) by (auto simp: tp_ok_def new_op_def)
  then have fresh: "op_fresh ?op ?b"
    using genFreeId_fresh [OF _ gen, of ?op] assms(1) by (simp add: tp_ok_def)
  obtain j b' where add: "addAsyncOp ?op ?b = (j, b')" by fastforce
  have "?i \<noteq> 0" using assms(1) by (auto simp: tp_ok_def ab_ok_def ab_wf_def)
  then have j: "j = ?i" using add by (simp add: addAsyncOp_def Let_def new_op_def)
  note added = addAsyncOp_ok [OF ok fresh add]
  have res: "requestDetails now send target cb ms p =
      (NoError, p\<lparr>tp_ops := b', tp_alloc := tp_alloc p + 1, tp_sent := tp_sent p @ [(target, RequestConnectDetails ?i)]\<rparr>)"
    using assms(2) add by (simp add: requestDetails_def gen Let_def)
  have wf: "ab_wf b'" "ab_wf ?b" using added(1) ok by (simp_all add: ab_ok_def)
  have "op_addr q < tp_alloc p + 1" if q: "q \<in> set (ab_ops b')" for q
  proof -
    have "map_of (ab_map b') (op_id q) = Some q" using ab_wf_memD [OF wf(1)] q by blast
    then have "q = ?op \<or> q \<in> set (ab_ops ?b)"
      using added(2) ab_wf_memD [OF wf(2), of q] by (auto simp: j split: if_splits)
    then show ?thesis using assms(1) by (auto simp: tp_ok_def new_op_def)
  qed
  with added(1) have "tp_ok (snd (requestDetails now send target cb ms p))" by (simp add: res tp_ok_def)
  moreover have "map_of (ab_map b') = (map_of (ab_map (tp_ops p)))(?i \<mapsto> ?op)" using added(2) by (simp add: j)
  ultimately show ?thesis by (intro exI [of _ ?op]) (simp add: res new_op_def)
qed

text \<open>
  A request that is answered by the other peer reaches its callback with exactly the details
  the other peer has set, and is then no longer pending.
\<close>

lemma details_delivered:
  assumes "tp_ok p" and "send target (RequestConnectDetails i) = NoError" and "i = ab_nextId (tp_ops p)"
    and "tp_own q = Some own"
  shows "\<exists>p' q'. requestDetails now send target (Some cb) ms p = (NoError, p') \<and>
     tp_sent p' = tp_sent p @ [(target, RequestConnectDetails i)] \<and>
     tp_onRequest me i q = Done q' \<and> tp_sent q' = tp_sent q @ [(me, ConnectDetailsReply i own)] \<and>
     tp_calls (tp_onReply target i own p') = tp_calls p @ [(cb, dt_error own, own)] \<and>
     map_of (ab_map (tp_ops (tp_onReply target i own p'))) = map_of (ab_map (tp_ops p))"
proof -
  obtain p' where p': "requestDetails now send target (Some cb) ms p = (NoError, p')"
    using requestDetails_sent [OF assms(1), of send target now "Some cb" ms] assms(2,3)
    by (cases "requestDetails now send target (Some cb) ms p") auto
  from requestDetails_sent [OF assms(1), of send target now "Some cb" ms] assms(2,3) p'
  obtain op where op: "map_of (ab_map (tp_ops p')) = (map_of (ab_map (tp_ops p)))(i \<mapsto> op)" "op_data op = Some cb"
    "tp_sent p' = tp_sent p @ [(target, RequestConnectDetails i)]" "tp_calls p' = tp_calls p" by auto
  have none: "map_of (ab_map (tp_ops p)) i = None"
    using assms(1,3) ab_wf_boundD [of "tp_ops p" i] by (cases "map_of (ab_map (tp_ops p)) i") (auto simp: tp_ok_def ab_ok_def)
  have "map_of (ab_map (tp_ops (tp_onReply target i own p'))) = map_of (ab_map (tp_ops p))"
    using op(1,2) none by (auto simp: tp_onReply_def getReadyAsyncOp_def ab_remove_def fun_eq_iff)
  moreover have "tp_calls (tp_onReply target i own p') = tp_calls p @ [(cb, dt_error own, own)]"
    using op by (simp add: tp_onReply_def getReadyAsyncOp_def)
  ultimately show ?thesis using p' op(3) assms(4) by (simp add: tp_onRequest_def)
qed

lemma details_delivered_witness:
  "let d = \<lparr>dt_port = 80, dt_addresses = [''h''], dt_error = NoError\<rparr>;
       p = tp_new :: nat tcp_protocol; q = setOwnDetails (Some d) p
   in \<exists>p' q'. requestDetails 5 (\<lambda>_ _. NoError) ''b'' (Some 7) 100 p = (NoError, p') \<and>
        tp_sent p' = tp_sent p @ [(''b'', RequestConnectDetails 1)] \<and>
        tp_onRequest ''a'' 1 q = Done q' \<and> tp_sent q' = tp_sent q @ [(''a'', ConnectDetailsReply 1 d)] \<and>
        tp_calls (tp_onReply ''b'' 1 d p') = tp_calls p @ [(7, dt_error d, d)] \<and>
        map_of (ab_map (tp_ops (tp_onReply ''b'' 1 d p'))) = map_of (ab_map (tp_ops p))"
  unfolding Let_def
  by (rule details_delivered) (simp_all add: setOwnDetails_def, simp add: tp_new_def ab_init_def)

text \<open>A request that arrives before the own details are set dereferences null.\<close>

lemma request_before_start_faults: "tp_onRequest sender i tp_new = Fault NullDeref"
  by (simp add: tp_onRequest_def tp_new_def)

end
