(* ===== verification/Sf_TCPConnector.thy ===== *)
theory Sf_TCPConnector
  imports Sf_TCPConnect Sf_Auth Sf_AsyncSpec
begin

text \<open>
  \<open>TCPChannelConnector\<close> (\<open>libschnee/schnee/p2p/channels/TCPChannelConnector.h\<close>,
  \<open>TCPChannelConnector.cpp\<close>): the provider of TCP channels.  To create a channel it asks the
  peer for its addresses, tries one after the other, encrypts the connection and authenticates
  it; connections that come in are encrypted and authenticated as well.

  Sockets, TLS channels and the server are operating system and gnutls objects: what they answer
  is the environment's, TLS channels are named by numbers, and a callback given to one of them is
  an entry of \<open>tn_pending\<close> until it is called.  Callbacks that \<open>aOpMemFun\<close> makes carry the id of
  the operation and the type and state it had; calls posted to the main loop are \<open>tn_tasks\<close>.
\<close>

subsection \<open>Operations and callbacks\<close>

abbreviation (input) CREATE_TCP :: int where "CREATE_TCP \<equiv> 1"
abbreviation (input) ACCEPT_TCP :: int where "ACCEPT_TCP \<equiv> 2"

datatype create_state = TC_Null | TC_Start | TC_AwaitTcpInfo | TC_Connecting | TC_TlsHandshaking | TC_Authenticating

datatype accept_state = TA_Null | TA_TlsHandshaking | TA_Authenticating

fun create_code :: "create_state \<Rightarrow> int" where
  "create_code TC_Null = 0"
| "create_code TC_Start = 1"
| "create_code TC_AwaitTcpInfo = 2"
| "create_code TC_Connecting = 3"
| "create_code TC_TlsHandshaking = 4"
| "create_code TC_Authenticating = 5"

fun accept_code :: "accept_state \<Rightarrow> int" where
  "accept_code TA_Null = 0"
| "accept_code TA_TlsHandshaking = 1"
| "accept_code TA_Authenticating = 2"

datatype tcp_kind =
    K_startConnecting | K_onTcpConnectResult | K_connectNext | K_onConnect | K_onTlsHandshake
  | K_onAuthProtocolFinished | K_onAcceptTlsHandshake | K_onAcceptAuthFinished

record tcp_cb =
  cb_kind :: tcp_kind
  cb_id :: int
  cb_type :: int
  cb_state :: int

text \<open>
  \<open>tc_next\<close> is the position of the iterator \<open>nextAddress\<close>; an \<open>AuthProtocol\<close> that was not yet
  initialised is \<open>None\<close>.  \<open>tc_socket\<close> and \<open>tc_tls\<close> are names of objects.
\<close>

record ('c, 'k) tcp_create =
  tc_target :: host_id
  tc_callback :: "nat option"
  tc_details :: connect_details
  tc_next :: nat
  tc_socket :: "nat option"
  tc_tls :: "nat option"
  tc_authp :: "('c, 'k) auth_proto option"
  tc_finished :: "tcp_cb option"
  tc_failedAuth :: bool
  tc_failedEnc :: bool

record ('c, 'k) tcp_accept =
  ta_target :: host_id
  ta_socket :: "nat option"
  ta_tls :: "nat option"
  ta_authp :: "('c, 'k) auth_proto option"
  ta_finished :: "tcp_cb option"
  ta_failedAuth :: bool

datatype ('c, 'k) tcp_data = Create "('c, 'k) tcp_create" | Accept "('c, 'k) tcp_accept"

definition new_create :: "host_id \<Rightarrow> nat option \<Rightarrow> ('c, 'k) tcp_create" where
  "new_create target cb =
     \<lparr>tc_target = target, tc_callback = cb, tc_details = new_details, tc_next = 0, tc_socket = None,
      tc_tls = None, tc_authp = None, tc_finished = None, tc_failedAuth = False, tc_failedEnc = False\<rparr>"

definition new_accept :: "nat \<Rightarrow> nat \<Rightarrow> ('c, 'k) tcp_accept" where
  "new_accept socket tls =
     \<lparr>ta_target = [], ta_socket = Some socket, ta_tls = Some tls, ta_authp = None,
      ta_finished = None, ta_failedAuth = False\<rparr>"

subsection \<open>The connector\<close>

text \<open>
  \<open>tn_results\<close>: calls of result callbacks; \<open>tn_created\<close>: calls of \<open>mChannelCreated\<close>;
  \<open>tn_connects\<close>: calls of \<open>connectToHost\<close>.  \<open>tn_objects\<close> is the name of the next object.
\<close>

record ('c, 'k) tcp_connector =
  tn_ops :: "('c, 'k) tcp_data async_base"
  tn_alloc :: nat
  tn_protocol :: "tcp_cb tcp_protocol"
  tn_server :: "int option"
  tn_hostId :: host_id
  tn_addresses :: "string list"
  tn_timeOutMs :: int
  tn_auth :: "'k authentication option"
  tn_tasks :: "(tcp_cb \<times> error) list"
  tn_pending :: "tcp_cb list"
  tn_objects :: nat
  tn_results :: "(nat \<times> error) list"
  tn_created :: "(host_id \<times> nat \<times> bool) list"
  tn_connects :: "(string \<times> int \<times> int) list"

record ('c, 'k) tcp_env =
  te_now :: int
  te_send :: "host_id \<Rightarrow> tcp_msg \<Rightarrow> error"
  te_listen :: "int \<Rightarrow> int option"
  te_localAddresses :: "string list"
  te_clientHandshake :: "nat \<Rightarrow> bool \<Rightarrow> host_id \<Rightarrow> error"
  te_serverHandshake :: "nat \<Rightarrow> bool \<Rightarrow> error"
  te_authenticate :: "nat \<Rightarrow> 'k option \<Rightarrow> host_id \<Rightarrow> error"
  te_peerCertificate :: "nat \<Rightarrow> 'k option"
  te_stream :: "nat \<Rightarrow> 'c"
  te_authState :: auth_state
  te_authEnv :: "('c, 'k) auth_env"

definition tn_new :: "('c, 'k) tcp_connector" where
  "tn_new = \<lparr>tn_ops = ab_init, tn_alloc = 0, tn_protocol = tp_new, tn_server = None, tn_hostId = [],
             tn_addresses = [], tn_timeOutMs = 10000, tn_auth = None, tn_tasks = [], tn_pending = [],
             tn_objects = 0, tn_results = [], tn_created = [], tn_connects = []\<rparr>"

definition tn_start :: "('c, 'k) tcp_env \<Rightarrow> int \<Rightarrow> ('c, 'k) tcp_connector \<Rightarrow> error \<times> ('c, 'k) tcp_connector" where
  "tn_start E port s =
     (case te_listen E port of
        None \<Rightarrow> (ServerError, s\<lparr>tn_protocol := setOwnDetails None (tn_protocol s)\<rparr>)
      | Some p \<Rightarrow>
          let addresses = te_localAddresses E;
              details = \<lparr>dt_port = p, dt_addresses = addresses, dt_error = NoError\<rparr>
          in (NoError, s\<lparr>tn_server := Some p, tn_addresses := addresses,
                         tn_protocol := setOwnDetails (Some details) (tn_protocol s)\<rparr>))"

definition tn_stop :: "('c, 'k) tcp_connector \<Rightarrow> ('c, 'k) tcp_connector" where
  "tn_stop s = s\<lparr>tn_server := None\<rparr>"

definition tn_setTimeOut :: "int \<Rightarrow> ('c, 'k) tcp_connector \<Rightarrow> ('c, 'k) tcp_connector" where
  "tn_setTimeOut ms s = s\<lparr>tn_timeOutMs := ms\<rparr>"

definition tn_setHostId :: "host_id \<Rightarrow> ('c, 'k) tcp_connector \<Rightarrow> ('c, 'k) tcp_connector" where
  "tn_setHostId i s = s\<lparr>tn_hostId := i\<rparr>"

definition tn_setAuthentication :: "'k authentication option \<Rightarrow> ('c, 'k) tcp_connector \<Rightarrow> ('c, 'k) tcp_connector" where
  "tn_setAuthentication a s = s\<lparr>tn_auth := a\<rparr>"

definition authenticationEnabled :: "('c, 'k) tcp_connector \<Rightarrow> bool" where
  "authenticationEnabled s \<longleftrightarrow> tn_auth s \<noteq> None"

subsection \<open>Building blocks\<close>

definition aOpMemFun :: "tcp_kind \<Rightarrow> 'd aop \<Rightarrow> tcp_cb" where
  "aOpMemFun k op = \<lparr>cb_kind = k, cb_id = op_id op, cb_type = op_type op, cb_state = op_state op\<rparr>"

definition tn_add :: "('c, 'k) tcp_data aop \<Rightarrow> ('c, 'k) tcp_connector \<Rightarrow> ('c, 'k) tcp_connector" where
  "tn_add op s = s\<lparr>tn_ops := snd (addAsyncOp op (tn_ops s))\<rparr>"

definition tn_notify :: "nat option \<Rightarrow> error \<Rightarrow> ('c, 'k) tcp_connector \<Rightarrow> ('c, 'k) tcp_connector" where
  "tn_notify cb e s = (case cb of None \<Rightarrow> s | Some n \<Rightarrow> s\<lparr>tn_results := tn_results s @ [(n, e)]\<rparr>)"

definition tn_post :: "tcp_cb \<Rightarrow> error \<Rightarrow> ('c, 'k) tcp_connector \<Rightarrow> ('c, 'k) tcp_connector" where
  "tn_post cb e s = s\<lparr>tn_tasks := tn_tasks s @ [(cb, e)]\<rparr>"

definition tn_await :: "tcp_cb \<Rightarrow> ('c, 'k) tcp_connector \<Rightarrow> ('c, 'k) tcp_connector" where
  "tn_await cb s = s\<lparr>tn_pending := tn_pending s @ [cb]\<rparr>"

text \<open>\<open>AuthProtocol::init\<close> on the member of an operation.\<close>

definition auth_init ::
  "('c, 'k) tcp_env \<Rightarrow> nat \<Rightarrow> host_id \<Rightarrow> ('c, 'k) auth_proto option \<Rightarrow> ('c, 'k) auth_proto" where
  "auth_init E tls me p =
     (case p of None \<Rightarrow> ap_new (te_authState E) (te_stream E tls) me | Some q \<Rightarrow> ap_init (te_stream E tls) me q)"

subsection \<open>Creating a channel\<close>

definition tn_createChannel ::
  "('c, 'k) tcp_env \<Rightarrow> host_id \<Rightarrow> nat option \<Rightarrow> int \<Rightarrow> ('c, 'k) tcp_connector \<Rightarrow> error \<times> ('c, 'k) tcp_connector" where
  "tn_createChannel E target cb timeOutMs s =
     (case genFreeId (tn_ops s) of (i, b) \<Rightarrow>
        let op = (new_op CREATE_TCP (regTimeOutMs (te_now E) timeOutMs) (tn_alloc s) (Create (new_create target cb)))
                   \<lparr>op_id := i, op_state := create_code TC_Start\<rparr>;
            s1 = tn_add op (s\<lparr>tn_ops := b, tn_alloc := tn_alloc s + 1\<rparr>)
        in (NoError, tn_post (aOpMemFun K_startConnecting op) NoError s1))"

definition startConnecting ::
  "('c, 'k) tcp_env \<Rightarrow> ('c, 'k) tcp_data aop \<Rightarrow> ('c, 'k) tcp_create \<Rightarrow> ('c, 'k) tcp_connector \<Rightarrow> ('c, 'k) tcp_connector" where
  "startConnecting E op c s =
     (let timeMs = lastingTimeMs (te_now E) (1 / 2) op;
          op1 = op\<lparr>op_state := create_code TC_AwaitTcpInfo\<rparr>;
          (e, p) = requestDetails (te_now E) (te_send E) (tc_target c)
                     (Some (aOpMemFun K_onTcpConnectResult op1)) timeMs (tn_protocol s);
          s1 = s\<lparr>tn_protocol := p\<rparr>
      in if failed e then tn_notify (tc_callback c) e s1 else tn_add op1 s1)"

definition onTcpConnectResult ::
  "('c, 'k) tcp_data aop \<Rightarrow> ('c, 'k) tcp_create \<Rightarrow> error \<Rightarrow> connect_details \<Rightarrow> ('c, 'k) tcp_connector \<Rightarrow>
   ('c, 'k) tcp_connector" where
  "onTcpConnectResult op c result details s =
     (if failed result then tn_notify (tc_callback c) result s
      else
        let op1 = op\<lparr>op_data := Create (c\<lparr>tc_details := details, tc_next := 0\<rparr>),
                     op_state := create_code TC_Connecting\<rparr>
        in tn_post (aOpMemFun K_connectNext op1) NoError (tn_add op1 s))"

definition connectNext ::
  "('c, 'k) tcp_env \<Rightarrow> ('c, 'k) tcp_data aop \<Rightarrow> ('c, 'k) tcp_create \<Rightarrow> ('c, 'k) tcp_connector \<Rightarrow>
   ('c, 'k) tcp_connector outcome" where
  "connectNext E op c s =
     (if tc_next c = length (dt_addresses (tc_details c)) then
        Done (tn_notify (tc_callback c) (if tc_failedAuth c then AuthError else CouldNotConnectHost) s)
      else if length (dt_addresses (tc_details c)) < tc_next c then Fault OutOfBounds
      else
        let address = dt_addresses (tc_details c) ! tc_next c;
            op1 = op\<lparr>op_data := Create (c\<lparr>tc_socket := Some (tn_objects s), tc_next := tc_next c + 1\<rparr>)\<rparr>;
            leftTime = lastingTimeMs (te_now E) (66 / 100) op1;
            s1 = s\<lparr>tn_objects := tn_objects s + 1,
                   tn_connects := tn_connects s @ [(address, dt_port (tc_details c), leftTime)]\<rparr>
        in Done (tn_add op1 (tn_await (aOpMemFun K_onConnect op1) s1)))"

definition onConnect ::
  "('c, 'k) tcp_env \<Rightarrow> ('c, 'k) tcp_data aop \<Rightarrow> ('c, 'k) tcp_create \<Rightarrow> error \<Rightarrow> ('c, 'k) tcp_connector \<Rightarrow>
   ('c, 'k) tcp_connector outcome" where
  "onConnect E op c result s =
     (if failed result then connectNext E op c s
      else
        let tls = tn_objects s;
            op1 = op\<lparr>op_data := Create (c\<lparr>tc_tls := Some tls\<rparr>), op_state := create_code TC_TlsHandshaking\<rparr>;
            cb = aOpMemFun K_onTlsHandshake op1;
            e = te_clientHandshake E tls (authenticationEnabled s) (tc_target c);
            s1 = s\<lparr>tn_objects := tls + 1\<rparr>
        in Done (tn_add op1 (if failed e then tn_post cb e s1 else tn_await cb s1)))"

definition onTlsHandshake ::
  "('c, 'k) tcp_env \<Rightarrow> ('c, 'k) tcp_data aop \<Rightarrow> ('c, 'k) tcp_create \<Rightarrow> error \<Rightarrow> ('c, 'k) tcp_connector \<Rightarrow>
   ('c, 'k) tcp_connector outcome" where
  "onTlsHandshake E op c result s =
     (if failed result then
        (let c1 = c\<lparr>tc_failedEnc := True, tc_tls := None\<rparr> in connectNext E (op\<lparr>op_data := Create c1\<rparr>) c1 s)
      else
        case tc_tls c of
          None \<Rightarrow> Fault NullDeref
        | Some tls \<Rightarrow>
            (let authenticate =
               (let op1 = op\<lparr>op_state := create_code TC_Authenticating\<rparr>
                in outcome_bind
                     (ap_connect (te_authEnv E) (tc_target c) (lastingTimeMs (te_now E) (66 / 100) op1)
                       ((auth_init E tls (tn_hostId s) (tc_authp c))\<lparr>ap_hasFinished := True\<rparr>))
                     (\<lambda>p. Done (tn_add (op1\<lparr>op_data := Create (c\<lparr>tc_authp := Some p,
                                 tc_finished := Some (aOpMemFun K_onAuthProtocolFinished op1)\<rparr>)\<rparr>) s)))
             in case tn_auth s of
                  None \<Rightarrow> authenticate
                | Some a \<Rightarrow>
                    let info = au_get (tc_target c) a
                    in if ct_type info \<noteq> CT_PEER then Done (tn_notify (tc_callback c) AuthError s)
                       else if failed (te_authenticate E tls (ct_cert info) (tc_target c))
                       then connectNext E op c s
                       else authenticate))"

definition onAuthProtocolFinished ::
  "('c, 'k) tcp_env \<Rightarrow> ('c, 'k) tcp_data aop \<Rightarrow> ('c, 'k) tcp_create \<Rightarrow> error \<Rightarrow> ('c, 'k) tcp_connector \<Rightarrow>
   ('c, 'k) tcp_connector outcome" where
  "onAuthProtocolFinished E op c result s =
     (if failed result then
        (let c1 = c\<lparr>tc_failedAuth := True\<rparr>
         in connectNext E (op\<lparr>op_data := Create c1, op_state := create_code TC_Connecting\<rparr>) c1 s)
      else
        case tc_tls c of
          None \<Rightarrow> Fault NullDeref
        | Some tls \<Rightarrow>
            Done (tn_notify (tc_callback c) NoError
              (s\<lparr>tn_created := tn_created s @ [(tc_target c, tls, True)]\<rparr>)))"

subsection \<open>Accepting a connection\<close>

definition onNewConnection ::
  "('c, 'k) tcp_env \<Rightarrow> ('c, 'k) tcp_connector \<Rightarrow> ('c, 'k) tcp_connector" where
  "onNewConnection E s =
     (let socket = tn_objects s; tls = socket + 1; s1 = s\<lparr>tn_objects := socket + 2\<rparr>
      in if tn_hostId s = [] then s1
         else case genFreeId (tn_ops s1) of (i, b) \<Rightarrow>
           let op = (new_op ACCEPT_TCP (regTimeOutMs (te_now E) (tn_timeOutMs s)) (tn_alloc s1)
                       (Accept (new_accept socket tls)))\<lparr>op_id := i, op_state := accept_code TA_TlsHandshaking\<rparr>;
               s2 = s1\<lparr>tn_ops := b, tn_alloc := tn_alloc s1 + 1\<rparr>;
               e = te_serverHandshake E tls (authenticationEnabled s)
           in if failed e then s2
              else tn_add op (tn_await (aOpMemFun K_onAcceptTlsHandshake op) s2))"

definition onAcceptTlsHandshake ::
  "('c, 'k) tcp_env \<Rightarrow> ('c, 'k) tcp_data aop \<Rightarrow> ('c, 'k) tcp_accept \<Rightarrow> error \<Rightarrow> ('c, 'k) tcp_connector \<Rightarrow>
   ('c, 'k) tcp_connector outcome" where
  "onAcceptTlsHandshake E op a result s =
     (if failed result then Done s
      else
        case ta_tls a of
          None \<Rightarrow> Fault NullDeref
        | Some tls \<Rightarrow>
            (let authenticate = (\<lambda>target.
               let op1 = op\<lparr>op_state := accept_code TA_Authenticating\<rparr>;
                   p = ap_passive (te_authEnv E) [] (-1)
                         ((auth_init E tls (tn_hostId s) (ta_authp a))\<lparr>ap_hasFinished := True\<rparr>)
               in tn_add (op1\<lparr>op_data := Accept (a\<lparr>ta_target := target, ta_authp := Some p,
                                ta_finished := Some (aOpMemFun K_onAcceptAuthFinished op1)\<rparr>)\<rparr>) s)
             in case tn_auth s of
                  None \<Rightarrow> Done (authenticate (ta_target a))
                | Some au \<Rightarrow>
                    (case te_peerCertificate E tls of
                       None \<Rightarrow> Done s
                     | Some k \<Rightarrow>
                         let target = x_commonName (ae_x509 (te_authEnv E)) k;
                             info = au_get target au
                         in if ct_type info \<noteq> CT_PEER then Done s
                            else if failed (te_authenticate E tls (ct_cert info) target) then Done s
                            else Done (authenticate target))))"

text \<open>A failed result is only written to the log.\<close>

definition onAcceptAuthFinished ::
  "('c, 'k) tcp_data aop \<Rightarrow> ('c, 'k) tcp_accept \<Rightarrow> error \<Rightarrow> ('c, 'k) tcp_connector \<Rightarrow> ('c, 'k) tcp_connector outcome" where
  "onAcceptAuthFinished op a result s =
     (case (ta_authp a, ta_tls a) of
        (Some p, Some tls) \<Rightarrow>
          if authenticationEnabled s \<and> ap_other p \<noteq> ta_target a then Done s
          else Done (s\<lparr>tn_created := tn_created s @ [(ap_other p, tls, False)]\<rparr>)
      | _ \<Rightarrow> Fault NullDeref)"

subsection \<open>Running callbacks\<close>

text \<open>\<open>executeOpCheck\<close>; a handler on an operation of the other class would be a wrong cast.\<close>

definition tn_handler ::
  "('c, 'k) tcp_env \<Rightarrow> tcp_kind \<Rightarrow> ('c, 'k) tcp_data aop \<Rightarrow> error \<Rightarrow> connect_details \<Rightarrow> ('c, 'k) tcp_connector \<Rightarrow>
   ('c, 'k) tcp_connector outcome" where
  "tn_handler E k op e d s =
     (case (k, op_data op) of
        (K_startConnecting, Create c) \<Rightarrow> Done (startConnecting E op c s)
      | (K_onTcpConnectResult, Create c) \<Rightarrow> Done (onTcpConnectResult op c e d s)
      | (K_connectNext, Create c) \<Rightarrow> connectNext E op c s
      | (K_onConnect, Create c) \<Rightarrow> onConnect E op c e s
      | (K_onTlsHandshake, Create c) \<Rightarrow> onTlsHandshake E op c e s
      | (K_onAuthProtocolFinished, Create c) \<Rightarrow> onAuthProtocolFinished E op c e s
      | (K_onAcceptTlsHandshake, Accept a) \<Rightarrow> onAcceptTlsHandshake E op a e s
      | (K_onAcceptAuthFinished, Accept a) \<Rightarrow> onAcceptAuthFinished op a e s
      | _ \<Rightarrow> Fault AssertFailed)"

definition executeOpCheck ::
  "('c, 'k) tcp_env \<Rightarrow> tcp_cb \<Rightarrow> error \<Rightarrow> connect_details \<Rightarrow> ('c, 'k) tcp_connector \<Rightarrow>
   ('c, 'k) tcp_connector outcome" where
  "executeOpCheck E cb e d s =
     (case getReadyAsyncOpInState (cb_id cb) (cb_type cb) (cb_state cb) (tn_ops s) of
        (None, b) \<Rightarrow> Done (s\<lparr>tn_ops := b\<rparr>)
      | (Some op, b) \<Rightarrow> tn_handler E (cb_kind cb) op e d (s\<lparr>tn_ops := b\<rparr>))"

definition tn_put_ops :: "('c, 'k) tcp_data async_base \<Rightarrow> ('c, 'k) tcp_connector \<Rightarrow> ('c, 'k) tcp_connector" where
  "tn_put_ops b s = s\<lparr>tn_ops := b\<rparr>"

definition tn_onCancel :: "error \<Rightarrow> ('c, 'k) tcp_data aop \<Rightarrow> ('c, 'k) tcp_connector \<Rightarrow> ('c, 'k) tcp_connector" where
  "tn_onCancel reason op s =
     (case op_data op of Create c \<Rightarrow> tn_notify (tc_callback c) reason s | Accept _ \<Rightarrow> s)"

interpretation connector: table_owner tn_ops tn_put_ops tn_onCancel
  by unfold_locales
    (simp_all add: tn_put_ops_def tn_onCancel_def tn_notify_def split: tcp_data.split option.split)

definition tn_onTimer :: "time \<Rightarrow> ('c, 'k) tcp_connector \<Rightarrow> ('c, 'k) tcp_connector option" where
  "tn_onTimer ct s = onTimer tn_ops tn_put_ops tn_onCancel ct s"

subsection \<open>The protocol's side\<close>

text \<open>The callbacks that the protocol calls, in order.\<close>

fun tn_runCalls ::
  "('c, 'k) tcp_env \<Rightarrow> (tcp_cb \<times> error \<times> connect_details) list \<Rightarrow> ('c, 'k) tcp_connector \<Rightarrow>
   ('c, 'k) tcp_connector outcome" where
  "tn_runCalls E [] s = Done s"
| "tn_runCalls E ((cb, e, d) # calls) s = outcome_bind (executeOpCheck E cb e d s) (tn_runCalls E calls)"

definition tn_protocolDo ::
  "('c, 'k) tcp_env \<Rightarrow> tcp_cb tcp_protocol \<Rightarrow> ('c, 'k) tcp_connector \<Rightarrow> ('c, 'k) tcp_connector outcome" where
  "tn_protocolDo E p s = tn_runCalls E (tp_calls p) (s\<lparr>tn_protocol := p\<lparr>tp_calls := []\<rparr>\<rparr>)"

definition tn_onRpc ::
  "('c, 'k) tcp_env \<Rightarrow> host_id \<Rightarrow> tcp_msg \<Rightarrow> ('c, 'k) tcp_connector \<Rightarrow> ('c, 'k) tcp_connector outcome" where
  "tn_onRpc E sender m s =
     (case m of
        RequestConnectDetails i \<Rightarrow>
          outcome_bind (tp_onRequest sender i (tn_protocol s)) (\<lambda>p. Done (s\<lparr>tn_protocol := p\<rparr>))
      | ConnectDetailsReply i d \<Rightarrow> tn_protocolDo E (tp_onReply sender i d (tn_protocol s)) s)"

subsection \<open>The authentication of an operation\<close>

fun authp_of :: "('c, 'k) tcp_data \<Rightarrow> ('c, 'k) auth_proto option" where
  "authp_of (Create c) = tc_authp c"
| "authp_of (Accept a) = ta_authp a"

fun finished_of :: "('c, 'k) tcp_data \<Rightarrow> tcp_cb option" where
  "finished_of (Create c) = tc_finished c"
| "finished_of (Accept a) = ta_finished a"

fun set_authp :: "('c, 'k) auth_proto \<Rightarrow> ('c, 'k) tcp_data \<Rightarrow> ('c, 'k) tcp_data" where
  "set_authp p (Create c) = Create (c\<lparr>tc_authp := Some p\<rparr>)"
| "set_authp p (Accept a) = Accept (a\<lparr>ta_authp := Some p\<rparr>)"

definition tn_authEvent ::
  "('c, 'k) tcp_env \<Rightarrow> int \<Rightarrow> 'c auth_event \<Rightarrow> ('c, 'k) tcp_connector \<Rightarrow> ('c, 'k) tcp_connector outcome" where
  "tn_authEvent E i ev s =
     (case map_of (ab_map (tn_ops s)) i of
        None \<Rightarrow> Done s
      | Some op \<Rightarrow>
          (case authp_of (op_data op) of
             None \<Rightarrow> Done s
           | Some p \<Rightarrow>
               outcome_bind (auth_event (te_authEnv E) ev p) (\<lambda>(r, q).
                 let s1 = s\<lparr>tn_ops := ab_modify i (set_authp q) (tn_ops s)\<rparr>
                 in case (r, finished_of (op_data op)) of
                      (Some e, Some cb) \<Rightarrow> executeOpCheck E cb e new_details s1
                    | _ \<Rightarrow> Done s1)))"

subsection \<open>Runs of the connector\<close>

text \<open>
  A step is a call of the owner, a posted call, an answer of a socket or TLS channel, a message
  or timer of the protocol, a connection that comes in, an event of an authentication, or the
  timer.  \<open>tcp_run E s cbs s'\<close>: a run from \<open>s\<close> to \<open>s'\<close> in which channels were requested with the
  callbacks \<open>cbs\<close>, each step at a time of its own.
\<close>

definition env_at :: "int \<Rightarrow> ('c, 'k) tcp_env \<Rightarrow> ('c, 'k) tcp_env" where
  "env_at now E = E\<lparr>te_now := now\<rparr>"

inductive tcp_step ::
  "('c, 'k) tcp_env \<Rightarrow> ('c, 'k) tcp_connector \<Rightarrow> nat list \<Rightarrow> ('c, 'k) tcp_connector \<Rightarrow> bool"
  for E :: "('c, 'k) tcp_env" where
  create: "tn_createChannel (env_at now E) target cb ms s = (e, s') \<Longrightarrow>
     tcp_step E s (case cb of None \<Rightarrow> [] | Some n \<Rightarrow> [n]) s'"
| task: "tn_tasks s = (cb, e) # ts \<Longrightarrow>
     executeOpCheck (env_at now E) cb e new_details (s\<lparr>tn_tasks := ts\<rparr>) = Done s' \<Longrightarrow> tcp_step E s [] s'"
| answer: "tn_pending s = xs @ cb # ys \<Longrightarrow>
     executeOpCheck (env_at now E) cb e new_details (s\<lparr>tn_pending := xs @ ys\<rparr>) = Done s' \<Longrightarrow> tcp_step E s [] s'"
| rpc: "tn_onRpc (env_at now E) sender m s = Done s' \<Longrightarrow> tcp_step E s [] s'"
| protocol_timer: "tp_onTimer ct (tn_protocol s) = Some p \<Longrightarrow>
     tn_protocolDo (env_at now E) p s = Done s' \<Longrightarrow> tcp_step E s [] s'"
| connection: "onNewConnection (env_at now E) s = s' \<Longrightarrow> tcp_step E s [] s'"
| auth: "tn_authEvent (env_at now E) i ev s = Done s' \<Longrightarrow> tcp_step E s [] s'"
| timer: "tn_onTimer ct s = Some s' \<Longrightarrow> tcp_step E s [] s'"

inductive tcp_run ::
  "('c, 'k) tcp_env \<Rightarrow> ('c, 'k) tcp_connector \<Rightarrow> nat list \<Rightarrow> ('c, 'k) tcp_connector \<Rightarrow> bool"
  for E :: "('c, 'k) tcp_env" where
  refl: "tcp_run E s [] s"
| step: "tcp_run E s cbs s' \<Longrightarrow> tcp_step E s' new s'' \<Longrightarrow> tcp_run E s (cbs @ new) s''"

end
