(* ===== verification/Sf_AuthQuiet.thy ===== *)
theory Sf_AuthQuiet
  imports Sf_Auth
begin

text \<open>
  An \<open>AuthProtocol\<close> (\<open>p2p/channels/AuthProtocol.cpp\<close>) announces its end at most once per start:
  at most one call of the finished delegate is ever on its way, only in a final state, and a
  final state is not left by anything but a new start.
\<close>

definition is_end :: "auth_task \<Rightarrow> bool" where
  "is_end t \<longleftrightarrow> t \<noteq> Task_ChannelChange"

definition ap_ends :: "('c, 'k) auth_proto \<Rightarrow> nat" where
  "ap_ends p = length (filter is_end (ap_tasks p))"

definition ap_done :: "('c, 'k) auth_proto \<Rightarrow> bool" where
  "ap_done p \<longleftrightarrow> ap_state p \<in> {AUTH_ERROR, TIMEOUT, FINISHED}"

definition ap_quiet :: "('c, 'k) auth_proto \<Rightarrow> bool" where
  "ap_quiet p \<longleftrightarrow> ap_ends p \<le> 1 \<and> (if ap_done p then ap_timer p = None else ap_ends p = 0)"

text \<open>Nothing will be announced any more.\<close>

definition ap_idle :: "('c, 'k) auth_proto \<Rightarrow> bool" where
  "ap_idle p \<longleftrightarrow> ap_done p \<and> ap_timer p = None \<and> ap_ends p = 0"

lemma is_end_simps [simp]: "\<not> is_end Task_ChannelChange" "is_end (Task_Error e)" "is_end (Task_Finished e)"
  by (simp_all add: is_end_def)

lemma ap_send_fields [simp]:
  "ap_tasks (snd (ap_send E m p)) = ap_tasks p" "ap_state (snd (ap_send E m p)) = ap_state p"
  "ap_timer (snd (ap_send E m p)) = ap_timer p"
  by (simp_all add: ap_send_def split: prod.split)

lemma ap_send_fieldsD:
  "ap_send E m p = (e, q) \<Longrightarrow> ap_tasks q = ap_tasks p \<and> ap_state q = ap_state p \<and> ap_timer q = ap_timer p"
  by (auto simp: ap_send_def split: prod.splits)

lemma ap_ends_cong: "ap_tasks p = ap_tasks q \<Longrightarrow> ap_ends p = ap_ends q"
  by (simp add: ap_ends_def)

lemma ap_onError_quiet [sf_inv]: "ap_ends p = 0 \<Longrightarrow> ap_quiet (ap_onError E e p)"
  by (simp add: ap_onError_def Let_def ap_quiet_def ap_ends_def ap_done_def ap_post_def)

lemma ap_onFinish_quiet [sf_inv]: "ap_ends p = 0 \<Longrightarrow> ap_quiet (ap_onFinish p)"
  by (simp add: ap_onFinish_def ap_quiet_def ap_ends_def ap_done_def ap_post_def)

lemma ap_reject_quiet [sf_inv]: "ap_ends p = 0 \<Longrightarrow> ap_quiet (ap_reject E d p)"
  by (simp add: ap_reject_def ap_onError_quiet ap_ends_def)

lemma ap_checkParams_fields:
  "ap_checkParams d desired setOther p = (ok, q) \<Longrightarrow>
     ap_tasks q = ap_tasks p \<and> ap_state q = ap_state p \<and> ap_timer q = ap_timer p"
  by (auto simp: ap_checkParams_def Let_def split: if_splits option.splits)

lemma ap_updateOtherCert_fields [simp]:
  "ap_tasks (ap_updateOtherCert E p) = ap_tasks p" "ap_state (ap_updateOtherCert E p) = ap_state p"
  "ap_timer (ap_updateOtherCert E p) = ap_timer p"
  by (simp_all add: ap_updateOtherCert_def split: option.split)

lemma ap_onAccepted_quiet:
  assumes "ap_onAccepted E d p = Done q" and "ap_ends p = 0"
  shows "ap_quiet q"
proof -
  obtain ok p1 where p1: "ap_checkParams d ''createChannelAccept'' False p = (ok, p1)" by fastforce
  from ap_checkParams_fields [OF this] assms(2) have e1: "ap_ends p1 = 0" by (simp add: ap_ends_def)
  show ?thesis
  proof (cases ok)
    case False
    with assms(1) p1 e1 show ?thesis by (auto simp: ap_onAccepted_def intro: ap_reject_quiet)
  next
    case True
    have "ap_quiet (ap_onError E ConnectionError p3)" "ap_quiet (ap_onFinish p3)"
      if "ap_send E m p2 = (e, p3)" "ap_ends p2 = 0" for m e p2 p3
      using ap_send_fieldsD [OF that(1)] that(2) by (simp_all add: ap_onError_quiet ap_onFinish_quiet ap_ends_def)
    note sent = this
    have "ap_ends (ap_updateOtherCert E p1) = 0" using e1 by (simp add: ap_ends_def)
    with assms(1) p1 True e1 show ?thesis
      by (auto dest: sent simp: ap_onAccepted_def Let_def split: prod.splits outcome.splits if_splits)
  qed
qed

lemma ap_onCreate_quiet:
  assumes "ap_onCreate E d p = Done q" and "ap_ends p = 0"
  shows "ap_quiet q"
proof -
  obtain ok p1 where p1: "ap_checkParams d ''createChannel'' (ap_other p = []) p = (ok, p1)" by fastforce
  from ap_checkParams_fields [OF this] assms(2) have e1: "ap_ends p1 = 0" by (simp add: ap_ends_def)
  show ?thesis
  proof (cases ok)
    case False
    with assms(1) p1 e1 show ?thesis by (auto simp: ap_onCreate_def intro: ap_reject_quiet)
  next
    case True
    have "ap_quiet (ap_onError E ConnectionError p2)" "ap_quiet (p2\<lparr>ap_state := SENT_CREATE_CHANNEL_ACCEPT\<rparr>)"
      if "ap_send E m p1 = (e, p2)" for m e p2
      using ap_send_fieldsD [OF that] e1
      by (simp_all add: ap_onError_quiet ap_ends_def) (simp add: ap_quiet_def ap_ends_def ap_done_def)
    note sent = this
    from assms(1) p1 True show ?thesis
      by (auto dest: sent simp: ap_onCreate_def Let_def split: prod.splits outcome.splits if_splits)
  qed
qed

lemma ap_onChannelAccept_quiet: "ap_ends p = 0 \<Longrightarrow> ap_quiet (ap_onChannelAccept E d p)"
  by (auto simp: ap_onChannelAccept_def Let_def ap_ends_def dest!: ap_checkParams_fields
      intro!: ap_reject_quiet ap_onFinish_quiet split: prod.split)

lemma ap_change_quiet [sf_inv]:
  assumes "ap_onChannelChange E p = Done q" and "ap_quiet p"
  shows "ap_quiet q \<and> (ap_done p \<longrightarrow> q = p)"
proof (cases "ap_done p")
  case True
  with assms show ?thesis by (simp add: ap_onChannelChange_def ap_done_def)
next
  case False
  with assms(2) have e: "ap_ends p = 0" by (simp add: ap_quiet_def)
  obtain e r c where rd: "dr_read (vt_read (ae_vt E)) (ap_reader p) (ap_channel p) = (e, r, c)" by (metis prod_cases3)
  let ?p = "p\<lparr>ap_reader := r, ap_channel := c\<rparr>"
  have e': "ap_ends ?p = 0" using e by (simp add: ap_ends_def)
  have quiet: "ap_quiet ?p" using assms(2) by (auto simp: ap_quiet_def ap_ends_def ap_done_def split: if_splits)
  have "ap_quiet q"
  proof (cases "e = NotEnough \<or> failed e")
    case True
    with assms(1) False rd quiet e' show ?thesis
      by (cases "e = NotEnough") (auto simp: ap_onChannelChange_def ap_done_def Let_def ap_onError_quiet)
  next
    case False
    with assms(1) \<open>\<not> ap_done p\<close> rd e' show ?thesis
      by (auto simp: ap_onChannelChange_def ap_done_def Let_def ap_onChannelAccept_quiet
          dest: ap_onAccepted_quiet ap_onCreate_quiet split: option.splits auth_state.splits)
  qed
  with False show ?thesis by simp
qed

lemma ap_run_quiet [sf_inv]:
  assumes "ap_runTask E p = Done (r, q)" and "ap_quiet p"
  shows "ap_quiet q \<and> (ap_idle p \<longrightarrow> r = None \<and> ap_idle q) \<and> (r \<noteq> None \<longrightarrow> ap_idle q)"
proof (cases "ap_tasks p")
  case Nil
  with assms show ?thesis by (simp add: ap_runTask_def)
next
  case (Cons t ts)
  let ?p = "p\<lparr>ap_tasks := ts\<rparr>"
  show ?thesis
  proof (cases t)
    case Task_ChannelChange
    have quiet: "ap_quiet ?p" using assms(2) Cons Task_ChannelChange by (auto simp: ap_quiet_def ap_ends_def ap_done_def split: if_splits)
    from assms(1) Cons Task_ChannelChange have "ap_onChannelChange E ?p = Done q" "r = None" by (auto simp: ap_runTask_def)
    with ap_change_quiet [OF this(1) quiet] Cons Task_ChannelChange show ?thesis
      by (auto simp: ap_idle_def ap_done_def ap_ends_def)
  next
    case (Task_Error e)
    with Cons assms(2) have "ap_ends ?p = 0" "\<not> ap_idle p"
      by (auto simp: ap_quiet_def ap_ends_def ap_idle_def split: if_splits)
    with assms(1) Cons Task_Error show ?thesis by (auto simp: ap_runTask_def ap_onError_quiet)
  next
    case (Task_Finished e)
    with Cons assms(2) have "ap_ends ?p = 0" "\<not> ap_idle p" "ap_done p" "ap_timer p = None"
      by (auto simp: ap_quiet_def ap_ends_def ap_idle_def split: if_splits)
    with assms(1) Cons Task_Finished show ?thesis by (auto simp: ap_runTask_def ap_quiet_def ap_idle_def ap_done_def)
  qed
qed

lemma ap_timeOut_quiet [sf_inv]:
  assumes "ap_quiet p" and "ap_timer p \<noteq> None" shows "ap_quiet (ap_onTimeOut p)"
  using assms by (auto simp: ap_quiet_def ap_onTimeOut_def ap_post_def ap_ends_def ap_done_def split: if_splits)

lemma ap_connect_quiet [sf_inv]:
  assumes "ap_connect E other ms p = Done q" and e: "ap_ends p = 0"
  shows "ap_quiet q"
proof -
  let ?p1 = "p\<lparr>ap_timer := None, ap_other := other, ap_hooked := True\<rparr>"
  have "ap_quiet (if failed err then ap_post (Task_Error ConnectionError) (p2\<lparr>ap_state := AUTH_ERROR\<rparr>)
      else p2\<lparr>ap_state := SENT_CREATE_CHANNEL, ap_timer := t, ap_wasActive := True\<rparr>)"
    if "ap_send E m ?p1 = (err, p2)" for m err p2 t
    using ap_send_fieldsD [OF that] e by (simp add: ap_quiet_def ap_post_def ap_ends_def ap_done_def)
  then have "ap_quiet (ap_connect_with E other ms fp p)" for fp
    by (simp add: ap_connect_with_def Let_def split: prod.split)
  with assms(1) show ?thesis
    by (auto simp: ap_connect_def ap_knownFp_def split: if_splits option.splits)
qed

lemma ap_passive_quiet [sf_inv]: "ap_ends p = 0 \<Longrightarrow> ap_quiet (ap_passive E other ms p)"
  by (simp add: ap_passive_def ap_quiet_def ap_post_def ap_ends_def ap_done_def)

lemma ap_idle_quiet: "ap_idle p \<Longrightarrow> ap_quiet p"
  by (simp add: ap_idle_def ap_quiet_def)

lemma ap_init_ends [simp]: "ap_ends (ap_init ch me p) = ap_ends p"
  by (simp add: ap_ends_def ap_init_def)

lemma ap_new_ends [simp]: "ap_ends (ap_new st ch me) = 0"
  by (simp add: ap_ends_def ap_new_def ap_init_def)

end
