(* ===== verification/Sf_TCPProps.thy ===== *)
theory Sf_TCPProps
  imports Sf_TCPConnector Sf_AuthQuiet
begin

text \<open>
  What holds in every run of the connector of \<open>p2p/channels/TCPChannelConnector.cpp\<close>: a pending
  operation has exactly one continuation, of its own kind; whoever asked for a channel is answered
  exactly once; and with certificates in use a channel is only announced for a host whose stored
  certificate was found at the other end.
\<close>

subsection \<open>The invariant\<close>

definition proto_cbs :: "tcp_cb tcp_protocol \<Rightarrow> tcp_cb multiset" where
  "proto_cbs p = (\<Sum>op \<in># mset (ab_ops (tp_ops p)). case op_data op of None \<Rightarrow> {#} | Some cb \<Rightarrow> {#cb#})"

text \<open>All callbacks that are still to come.\<close>

definition outs :: "('c, 'k) tcp_connector \<Rightarrow> tcp_cb multiset" where
  "outs s = mset (map fst (tn_tasks s)) + mset (tn_pending s) + proto_cbs (tn_protocol s)"

fun owner :: "('c, 'k) tcp_data \<Rightarrow> nat multiset" where
  "owner (Create c) = (case tc_callback c of None \<Rightarrow> {#} | Some n \<Rightarrow> {#n#})"
| "owner (Accept a) = {#}"

text \<open>The callers that were answered, and those whose operation is pending.\<close>

definition owed :: "('c, 'k) tcp_connector \<Rightarrow> nat multiset" where
  "owed s = mset (map fst (tn_results s)) + (\<Sum>op \<in># mset (ab_ops (tn_ops s)). owner (op_data op))"

definition vouched :: "('c, 'k) tcp_env \<Rightarrow> 'k authentication option \<Rightarrow> nat \<Rightarrow> host_id \<Rightarrow> bool" where
  "vouched E au tls host \<longleftrightarrow>
     (\<forall>a. au = Some a \<longrightarrow> ct_type (au_get host a) = CT_PEER \<and>
        te_authenticate E tls (ct_cert (au_get host a)) host = NoError)"

fun kind_ok :: "tcp_kind \<Rightarrow> ('c, 'k) tcp_data \<Rightarrow> int \<Rightarrow> bool" where
  "kind_ok K_startConnecting (Create c) st \<longleftrightarrow> st = 1"
| "kind_ok K_onTcpConnectResult (Create c) st \<longleftrightarrow> st = 2"
| "kind_ok K_connectNext (Create c) st \<longleftrightarrow> st = 3"
| "kind_ok K_onConnect (Create c) st \<longleftrightarrow> st = 3 \<or> st = 4"
| "kind_ok K_onTlsHandshake (Create c) st \<longleftrightarrow> st = 4 \<and> tc_tls c \<noteq> None"
| "kind_ok K_onAcceptTlsHandshake (Accept a) st \<longleftrightarrow> st = 1 \<and> ta_tls a \<noteq> None"
| "kind_ok k d st \<longleftrightarrow> False"

definition cb_fits :: "('c, 'k) tcp_data aop \<Rightarrow> tcp_cb \<Rightarrow> bool" where
  "cb_fits op cb \<longleftrightarrow> cb = aOpMemFun (cb_kind cb) op \<and> kind_ok (cb_kind cb) (op_data op) (op_state op)"

definition authenticating :: "('c, 'k) tcp_data aop \<Rightarrow> bool" where
  "authenticating op \<longleftrightarrow> op_state op = (case op_data op of Create _ \<Rightarrow> 5 | Accept _ \<Rightarrow> 2)"

definition op_ok :: "(nat \<Rightarrow> host_id \<Rightarrow> bool) \<Rightarrow> ('c, 'k) tcp_data aop \<Rightarrow> bool" where
  "op_ok V op \<longleftrightarrow>
     (case op_data op of
        Create c \<Rightarrow> op_type op = 1 \<and> tc_next c \<le> length (dt_addresses (tc_details c)) \<and>
          (if op_state op = 5
           then \<exists>p t. tc_authp c = Some p \<and> ap_quiet p \<and> tc_finished c = Some (aOpMemFun K_onAuthProtocolFinished op) \<and>
             tc_tls c = Some t \<and> V t (tc_target c)
           else \<forall>p. tc_authp c = Some p \<longrightarrow> ap_idle p)
      | Accept a \<Rightarrow> op_type op = 2 \<and>
          (if op_state op = 2
           then \<exists>p t. ta_authp a = Some p \<and> ap_quiet p \<and> ta_finished a = Some (aOpMemFun K_onAcceptAuthFinished op) \<and>
             ta_tls a = Some t \<and> V t (ta_target a)
           else ta_authp a = None))"

definition conts :: "tcp_cb multiset \<Rightarrow> int \<Rightarrow> tcp_cb multiset" where
  "conts M i = filter_mset (\<lambda>cb. cb_id cb = i) M"

definition op_waits :: "tcp_cb multiset \<Rightarrow> ('c, 'k) tcp_data aop \<Rightarrow> bool" where
  "op_waits M op \<longleftrightarrow>
     (if authenticating op then conts M (op_id op) = {#}
      else \<exists>cb. conts M (op_id op) = {#cb#} \<and> cb_fits op cb)"

text \<open>\<open>X\<close>: callbacks that were taken from where they waited and are about to be run.\<close>

definition tcp_core :: "('c, 'k) tcp_env \<Rightarrow> tcp_cb multiset \<Rightarrow> ('c, 'k) tcp_connector \<Rightarrow> bool" where
  "tcp_core E X s \<longleftrightarrow>
     tp_ok (tn_protocol s) \<and> tp_calls (tn_protocol s) = [] \<and>
     (\<forall>op \<in> set (ab_ops (tn_ops s)). op_addr op < tn_alloc s \<and> op_ok (vouched E (tn_auth s)) op \<and>
        op_waits (outs s + X) op) \<and>
     (\<forall>cb \<in># outs s + X. cb_id cb < ab_nextId (tn_ops s)) \<and>
     (\<forall>(h, t, a) \<in> set (tn_created s). vouched E (tn_auth s) t h)"

definition tcp_inv :: "('c, 'k) tcp_env \<Rightarrow> tcp_cb multiset \<Rightarrow> ('c, 'k) tcp_connector \<Rightarrow> bool" where
  "tcp_inv E X s \<longleftrightarrow> ab_ok (tn_ops s) \<and> tcp_core E X s"

text \<open>An operation that was taken from the table, with its continuation.\<close>

definition detached ::
  "('c, 'k) tcp_env \<Rightarrow> tcp_cb multiset \<Rightarrow> ('c, 'k) tcp_data aop \<Rightarrow> ('c, 'k) tcp_connector \<Rightarrow> bool" where
  "detached E X op s \<longleftrightarrow> tcp_inv E X s \<and> map_of (ab_map (tn_ops s)) (op_id op) = None \<and>
     0 < op_id op \<and> op_id op < ab_nextId (tn_ops s) \<and> op_addr op < tn_alloc s \<and>
     op_addr op \<notin> op_addr ` set (ab_ops (tn_ops s)) \<and> conts (outs s + X) (op_id op) = {#}"

definition good ::
  "('c, 'k) tcp_env \<Rightarrow> tcp_cb multiset \<Rightarrow> nat multiset \<Rightarrow> ('c, 'k) tcp_connector outcome \<Rightarrow> bool" where
  "good E X n r \<longleftrightarrow> (\<exists>s. r = Done s \<and> tcp_inv E X s \<and> owed s = n)"

lemma vouched_at [simp]: "vouched (env_at now E) = vouched E"
  by (simp add: vouched_def env_at_def fun_eq_iff)

lemma tcp_core_at [simp]: "tcp_core (env_at now E) = tcp_core E"
  by (simp add: tcp_core_def fun_eq_iff)

lemma tcp_inv_at [simp]: "tcp_inv (env_at now E) = tcp_inv E"
  by (simp add: tcp_inv_def fun_eq_iff)

lemma good_at [simp]: "good (env_at now E) = good E"
  by (simp add: good_def fun_eq_iff)

lemma detached_at [simp]: "detached (env_at now E) = detached E"
  by (simp add: detached_def fun_eq_iff)

lemma conts_simps [simp]:
  "conts {#} i = {#}" "conts (M + N) i = conts M i + conts N i"
  "conts (add_mset cb M) i = (if cb_id cb = i then add_mset cb (conts M i) else conts M i)"
  by (simp_all add: conts_def)

lemma cb_fits_id: "cb_fits op cb \<Longrightarrow> cb_id cb = op_id op"
  by (auto simp: cb_fits_def aOpMemFun_def) (metis tcp_cb.select_convs(2))

lemma tn_notify_fields [simp]:
  "tn_ops (tn_notify cb e s) = tn_ops s" "tn_alloc (tn_notify cb e s) = tn_alloc s"
  "tn_protocol (tn_notify cb e s) = tn_protocol s" "tn_auth (tn_notify cb e s) = tn_auth s"
  "tn_tasks (tn_notify cb e s) = tn_tasks s" "tn_pending (tn_notify cb e s) = tn_pending s"
  "tn_created (tn_notify cb e s) = tn_created s" "outs (tn_notify cb e s) = outs s"
  by (simp_all add: tn_notify_def outs_def split: option.split)

lemma tcp_inv_notify [simp]: "tcp_inv E X (tn_notify cb e s) \<longleftrightarrow> tcp_inv E X s"
  by (simp add: tcp_inv_def tcp_core_def)

lemma owed_notify [simp]:
  "owed (tn_notify cb e s) = owed s + (case cb of None \<Rightarrow> {#} | Some n \<Rightarrow> {#n#})"
  by (simp add: owed_def tn_notify_def split: option.split)

lemma good_notify:
  "tcp_inv E X s \<Longrightarrow> good E X (owed s + owner (Create c)) (Done (tn_notify (tc_callback c) e s))"
  by (simp add: good_def)

subsection \<open>Taking an operation and putting it back\<close>

lemma readd:
  assumes det: "detached E X op s"
    and same: "tn_ops s2 = tn_ops s" "tn_alloc s2 = tn_alloc s" "tn_auth s2 = tn_auth s"
      "tn_created s2 = tn_created s" "tn_results s2 = tn_results s"
    and prot: "tp_ok (tn_protocol s2)" "tp_calls (tn_protocol s2) = []"
    and op': "op_id op' = op_id op" "op_addr op' = op_addr op" "op_ok (vouched E (tn_auth s)) op'"
    and C: "outs s2 = outs s + C" "if authenticating op' then C = {#} else \<exists>cb. C = {#cb#} \<and> cb_fits op' cb"
  shows "tcp_inv E X (tn_add op' s2) \<and> owed (tn_add op' s2) = owed s + owner (op_data op')"
proof -
  have inv: "tcp_inv E X s" using det by (simp add: detached_def)
  have ok: "ab_ok (tn_ops s)" and wf: "ab_wf (tn_ops s)" using inv by (simp_all add: tcp_inv_def ab_ok_def)
  have id: "op_id op' \<noteq> 0" "op_id op' < ab_nextId (tn_ops s)" using det op' by (auto simp: detached_def)
  have fresh: "op_fresh op' (tn_ops s)" using det op' by (simp add: detached_def op_fresh_def)
  obtain i b where add: "addAsyncOp op' (tn_ops s) = (i, b)" by fastforce
  note bag = mset_addAsyncOp [OF fresh id(1), unfolded add snd_conv]
  have okb: "ab_ok b" by (rule addAsyncOp_ok [OF ok fresh add])
  have res: "tn_add op' s2 = s2\<lparr>tn_ops := b\<rparr>" using same add by (simp add: tn_add_def)
  have outs2: "outs (tn_add op' s2) = outs s + C" using C(1) by (simp add: res outs_def)
  have Cid: "\<forall>cb \<in># C. cb_id cb = op_id op'" using C(2) by (auto dest: cb_fits_id split: if_splits)
  have none: "op_id q \<noteq> op_id op'" if "q \<in> set (ab_ops (tn_ops s))" for q
    using det ab_wf_opsD [OF wf that] by (auto simp: detached_def op'(1))
  have Cj: "conts C j = {#}" if "j \<noteq> op_id op'" for j
    using Cid that by (auto simp: conts_def filter_mset_eq_mempty_iff)
  have "op_waits (outs s + C + X) q" if q: "q \<in> set (ab_ops b)" for q
  proof (cases "q \<in> set (ab_ops (tn_ops s))")
    case True
    then have "op_waits (outs s + X) q" using inv by (auto simp: tcp_inv_def tcp_core_def)
    moreover have "conts (outs s + C + X) (op_id q) = conts (outs s + X) (op_id q)"
      using Cj [OF none [OF True]] by simp
    ultimately show ?thesis by (simp only: op_waits_def)
  next
    case False
    then have q: "q = op'" using q bag(1) by (metis insert_iff set_mset_add_mset_insert set_mset_mset)
    have "conts (outs s + X) (op_id op') = {#}" using det op'(1) by (simp add: detached_def)
    with C(2) show ?thesis by (auto simp: q op_waits_def dest: cb_fits_id split: if_splits)
  qed
  moreover have "set (ab_ops b) = insert op' (set (ab_ops (tn_ops s)))" using bag(1) by (metis set_mset_add_mset_insert set_mset_mset)
  moreover have "\<forall>cb \<in># outs s + C + X. cb_id cb < ab_nextId b"
    using inv Cid id(2) bag(2) by (auto simp: tcp_inv_def tcp_core_def)
  ultimately have "tcp_inv E X (tn_add op' s2)"
    using inv okb det op' prot same unfolding tcp_inv_def tcp_core_def outs2
    by (auto simp: res detached_def)
  then show ?thesis using bag(1) same by (simp add: res owed_def)
qed

lemma take_op:
  assumes inv: "tcp_inv E (X + C) s" and look: "map_of (ab_map (tn_ops s)) i = Some op"
    and empty: "conts (outs s + X) i = {#}" and C: "conts C i = C"
  shows "detached E X op (s\<lparr>tn_ops := ab_remove op i (tn_ops s)\<rparr>)"
    and "owed (s\<lparr>tn_ops := ab_remove op i (tn_ops s)\<rparr>) + owner (op_data op) = owed s"
    and "op \<in> set (ab_ops (tn_ops s))" and "op_id op = i"
proof -
  have ok: "ab_ok (tn_ops s)" and wf: "ab_wf (tn_ops s)" using inv by (simp_all add: tcp_inv_def ab_ok_def)
  from ab_wf_mapD [OF wf look] show op: "op \<in> set (ab_ops (tn_ops s))" "op_id op = i" by simp_all
  note bag = mset_ab_remove [OF wf look]
  then show "owed (s\<lparr>tn_ops := ab_remove op i (tn_ops s)\<rparr>) + owner (op_data op) = owed s"
    by (simp add: owed_def)
  let ?b = "ab_remove op i (tn_ops s)"
  let ?s = "s\<lparr>tn_ops := ?b\<rparr>"
  have outs: "outs ?s = outs s" by (simp add: outs_def)
  note rm = ab_remove_props [OF wf look]
  have Ci: "cb_id cb = i" if "cb \<in># C" for cb
  proof -
    have "cb \<in># conts C i" using that C by simp
    then show ?thesis by (simp add: conts_def)
  qed
  have waits: "op_waits (outs s + X) q" if q: "q \<in> set (ab_ops ?b)" for q
  proof -
    have q': "q \<in> set (ab_ops (tn_ops s))" "q \<noteq> op" using q rm(2) by auto
    have "op_id q \<noteq> i" using q' look ab_wf_opsD [OF wf q'(1)] by auto
    then have "conts C (op_id q) = {#}" using Ci by (auto simp: conts_def filter_mset_eq_mempty_iff)
    then have "conts (outs s + (X + C)) (op_id q) = conts (outs s + X) (op_id q)" by simp
    moreover have "op_waits (outs s + (X + C)) q" using inv q'(1) by (simp add: tcp_inv_def tcp_core_def)
    ultimately show ?thesis by (simp only: op_waits_def)
  qed
  have "tcp_inv E X ?s"
    using inv waits rm ab_remove_ok [OF ok look] by (auto simp: tcp_inv_def tcp_core_def outs)
  moreover have "op_addr op \<notin> op_addr ` set (ab_ops ?b)"
    using ab_wf_addrD [OF wf] op rm(2) by (auto simp: distinct_map inj_on_def)
  ultimately show "detached E X op ?s"
    using inv op empty rm ab_wf_boundD [OF wf look]
    by (auto simp: detached_def outs tcp_inv_def tcp_core_def)
qed

subsection \<open>Every handler keeps it\<close>

lemma requestDetails_cbs:
  assumes "tp_ok p" and "send target (RequestConnectDetails (ab_nextId (tp_ops p))) = NoError"
  shows "proto_cbs (snd (requestDetails now send target cb ms p)) =
     proto_cbs p + (case cb of None \<Rightarrow> {#} | Some cb \<Rightarrow> {#cb#})"
proof -
  let ?i = "ab_nextId (tp_ops p)"
  let ?op = "(new_op 0 (regTimeOutMs now ms) (tp_alloc p) cb)\<lparr>op_id := ?i\<rparr>"
  have "?i \<noteq> 0" using assms(1) by (auto simp: tp_ok_def ab_ok_def ab_wf_def)
  moreover have addr: "op_addr ?op \<notin> op_addr ` set (ab_ops (tp_ops p))"
    using assms(1) by (auto simp: tp_ok_def new_op_def)
  have gen: "genFreeId (tp_ops p) = (?i, snd (genFreeId (tp_ops p)))" by (simp add: genFreeId_def)
  have "op_fresh ?op (snd (genFreeId (tp_ops p)))"
    by (rule genFreeId_fresh [OF _ gen addr]) (use assms(1) in \<open>simp_all add: tp_ok_def\<close>)
  ultimately have "mset (ab_ops (snd (addAsyncOp ?op (snd (genFreeId (tp_ops p)))))) = add_mset ?op (mset (ab_ops (tp_ops p)))"
    using mset_addAsyncOp(1) [of ?op "snd (genFreeId (tp_ops p))"] by (simp add: genFreeId_def)
  then show ?thesis
    using assms(2) by (simp add: requestDetails_def Let_def proto_cbs_def genFreeId_def) (simp add: new_op_def)
qed

lemma outs_await [simp]: "outs (tn_await cb s) = outs s + {#cb#}"
  and outs_post [simp]: "outs (tn_post cb e s) = outs s + {#cb#}"
  by (simp_all add: outs_def tn_await_def tn_post_def)

lemma await_fields [simp]:
  "tn_ops (tn_await cb s) = tn_ops s" "tn_alloc (tn_await cb s) = tn_alloc s" "tn_auth (tn_await cb s) = tn_auth s"
  "tn_created (tn_await cb s) = tn_created s" "tn_results (tn_await cb s) = tn_results s"
  "tn_protocol (tn_await cb s) = tn_protocol s"
  "tn_ops (tn_post cb e s) = tn_ops s" "tn_alloc (tn_post cb e s) = tn_alloc s" "tn_auth (tn_post cb e s) = tn_auth s"
  "tn_created (tn_post cb e s) = tn_created s" "tn_results (tn_post cb e s) = tn_results s"
  "tn_protocol (tn_post cb e s) = tn_protocol s"
  by (simp_all add: tn_await_def tn_post_def)

lemma detached_inv: "detached E X op s \<Longrightarrow> tcp_inv E X s"
  by (simp add: detached_def)

lemma detached_protocol: "detached E X op s \<Longrightarrow> tp_ok (tn_protocol s) \<and> tp_calls (tn_protocol s) = []"
  by (simp add: detached_def tcp_inv_def tcp_core_def)

lemma aOpMemFun_simps [simp]:
  "cb_kind (aOpMemFun k op) = k" "cb_id (aOpMemFun k op) = op_id op" "cb_type (aOpMemFun k op) = op_type op"
  "cb_state (aOpMemFun k op) = op_state op" "aOpMemFun k (op\<lparr>op_data := d\<rparr>) = aOpMemFun k op"
  by (simp_all add: aOpMemFun_def)

text \<open>An operation of creation that waits for something else than its authentication.\<close>

definition create_waits :: "('c, 'k) tcp_data aop \<Rightarrow> ('c, 'k) tcp_create \<Rightarrow> bool" where
  "create_waits op c \<longleftrightarrow> op_type op = 1 \<and> tc_next c \<le> length (dt_addresses (tc_details c)) \<and>
     (\<forall>p. tc_authp c = Some p \<longrightarrow> ap_idle p)"

lemma readd_create:
  assumes det: "detached E X op s" and waits: "create_waits op c"
    and k: "kind_ok k (Create c) st"
    and same: "tn_ops s2 = tn_ops s" "tn_alloc s2 = tn_alloc s" "tn_auth s2 = tn_auth s"
      "tn_created s2 = tn_created s" "tn_results s2 = tn_results s"
    and prot: "tp_ok (tn_protocol s2)" "tp_calls (tn_protocol s2) = []"
    and C: "outs s2 = outs s + {#aOpMemFun k (op\<lparr>op_state := st\<rparr>)#}"
  shows "good E X (owed s + owner (Create c)) (Done (tn_add (op\<lparr>op_data := Create c, op_state := st\<rparr>) s2))"
proof -
  have st: "st \<noteq> 5" using k by (cases k) auto
  let ?op = "op\<lparr>op_data := Create c, op_state := st\<rparr>"
  have "op_ok (vouched E (tn_auth s)) ?op" using waits st by (auto simp: op_ok_def create_waits_def)
  moreover have "\<not> authenticating ?op" using st by (simp add: authenticating_def)
  moreover have "cb_fits ?op (aOpMemFun k (op\<lparr>op_state := st\<rparr>))"
    using k by (simp add: cb_fits_def aOpMemFun_def)
  ultimately have "tcp_inv E X (tn_add ?op s2) \<and> owed (tn_add ?op s2) = owed s + owner (op_data ?op)"
    using C by (intro readd [OF det same prot]) auto
  then show ?thesis by (simp add: good_def)
qed

lemma connectNext_good:
  assumes det: "detached E X op s" and waits: "create_waits op c" and st: "op_state op = 3 \<or> op_state op = 4"
  shows "good E X (owed s + owner (Create c)) (connectNext E op c s)"
proof (cases "tc_next c = length (dt_addresses (tc_details c))")
  case True
  then show ?thesis
    using good_notify [OF detached_inv [OF det], of c AuthError] good_notify [OF detached_inv [OF det], of c CouldNotConnectHost]
    by (simp add: connectNext_def)
next
  case False
  with waits have less: "tc_next c < length (dt_addresses (tc_details c))" by (simp add: create_waits_def)
  let ?c = "c\<lparr>tc_socket := Some (tn_objects s), tc_next := tc_next c + 1\<rparr>"
  let ?op = "op\<lparr>op_data := Create ?c\<rparr>"
  let ?s1 = "s\<lparr>tn_objects := tn_objects s + 1,
      tn_connects := tn_connects s @ [(dt_addresses (tc_details c) ! tc_next c, dt_port (tc_details c),
        lastingTimeMs (te_now E) (66 / 100) ?op)]\<rparr>"
  have "create_waits op ?c" using waits less by (simp add: create_waits_def)
  moreover have "kind_ok K_onConnect (Create ?c) (op_state op)" using st by simp
  moreover have "outs ?s1 = outs s" by (simp add: outs_def)
  moreover have eq: "op\<lparr>op_data := Create ?c, op_state := op_state op\<rparr> = ?op" by simp
  ultimately have "good E X (owed s + owner (Create ?c)) (Done (tn_add ?op (tn_await (aOpMemFun K_onConnect ?op) ?s1)))"
    using readd_create [OF det, of ?c K_onConnect "op_state op" "tn_await (aOpMemFun K_onConnect ?op) ?s1"]
      detached_protocol [OF det] by simp
  then show ?thesis using False less by (simp add: connectNext_def Let_def)
qed

lemma tn_post_or_await:
  "outs (if P then tn_post cb e s else tn_await cb s) = outs s + {#cb#}"
  "tn_ops (if P then tn_post cb e s else tn_await cb s) = tn_ops s"
  "tn_alloc (if P then tn_post cb e s else tn_await cb s) = tn_alloc s"
  "tn_auth (if P then tn_post cb e s else tn_await cb s) = tn_auth s"
  "tn_created (if P then tn_post cb e s else tn_await cb s) = tn_created s"
  "tn_results (if P then tn_post cb e s else tn_await cb s) = tn_results s"
  "tn_protocol (if P then tn_post cb e s else tn_await cb s) = tn_protocol s"
  by simp_all

lemma onConnect_good:
  assumes det: "detached E X op s" and waits: "create_waits op c" and st: "op_state op = 3 \<or> op_state op = 4"
  shows "good E X (owed s + owner (Create c)) (onConnect E op c e s)"
proof (cases "failed e")
  case True
  then show ?thesis using connectNext_good [OF assms] by (simp add: onConnect_def)
next
  case False
  let ?c = "c\<lparr>tc_tls := Some (tn_objects s)\<rparr>"
  let ?op = "op\<lparr>op_data := Create ?c, op_state := 4\<rparr>"
  let ?cb = "aOpMemFun K_onTlsHandshake ?op"
  let ?e = "te_clientHandshake E (tn_objects s) (authenticationEnabled s) (tc_target c)"
  let ?s1 = "s\<lparr>tn_objects := tn_objects s + 1\<rparr>"
  have "create_waits op ?c" using waits by (simp add: create_waits_def)
  moreover have "?cb = aOpMemFun K_onTlsHandshake (op\<lparr>op_state := 4\<rparr>)" by (simp add: aOpMemFun_def)
  moreover have "outs ?s1 = outs s" by (simp add: outs_def)
  ultimately have "good E X (owed s + owner (Create ?c)) (Done (tn_add ?op (if failed ?e then tn_post ?cb ?e ?s1 else tn_await ?cb ?s1)))"
    using detached_protocol [OF det]
    by (intro readd_create [OF det, where k = K_onTlsHandshake]) (simp_all add: tn_post_or_await)
  then show ?thesis using False by (cases "failed ?e") (simp_all add: onConnect_def Let_def)
qed

lemma startConnecting_good:
  assumes det: "detached E X op s" and waits: "create_waits op c" and st: "op_state op = 1"
    and op: "op_data op = Create c"
  shows "good E X (owed s + owner (Create c)) (Done (startConnecting E op c s))"
proof -
  let ?op = "op\<lparr>op_state := 2\<rparr>"
  let ?cb = "aOpMemFun K_onTcpConnectResult ?op"
  let ?ms = "lastingTimeMs (te_now E) (1 / 2) op"
  let ?req = "requestDetails (te_now E) (te_send E) (tc_target c) (Some ?cb) ?ms (tn_protocol s)"
  let ?s1 = "s\<lparr>tn_protocol := snd ?req\<rparr>"
  note prot = detached_protocol [OF det]
  show ?thesis
  proof (cases "failed (fst ?req)")
    case True
    then have "tp_ops (snd ?req) = snd (genFreeId (tp_ops (tn_protocol s)))" "tp_alloc (snd ?req) = tp_alloc (tn_protocol s)"
      "tp_calls (snd ?req) = []"
      using prot by (auto simp: requestDetails_def Let_def split: prod.splits)
    then have "tp_ok (snd ?req)" "proto_cbs (snd ?req) = proto_cbs (tn_protocol s)" "tp_calls (snd ?req) = []"
      using prot genFreeId_ok [of "tp_ops (tn_protocol s)"]
      by (auto simp: tp_ok_def proto_cbs_def genFreeId_def)
    then have "tcp_inv E X ?s1" "owed ?s1 = owed s"
      using detached_inv [OF det] by (simp_all add: tcp_inv_def tcp_core_def outs_def owed_def)
    with True good_notify [of E X ?s1 c] show ?thesis
      by (simp add: startConnecting_def Let_def case_prod_beta)
  next
    case False
    let ?i = "ab_nextId (tp_ops (tn_protocol s))"
    have send: "te_send E (tc_target c) (RequestConnectDetails ?i) = NoError"
      using False by (auto simp: requestDetails_def Let_def genFreeId_def split: if_splits prod.splits)
    have ok: "tp_ok (snd ?req) \<and> tp_calls (snd ?req) = []"
      using requestDetails_sent [of "tn_protocol s" "te_send E" "tc_target c" "te_now E" "Some ?cb" ?ms] send prot by auto
    have cbs: "proto_cbs (snd ?req) = proto_cbs (tn_protocol s) + {#?cb#}"
      using requestDetails_cbs [of "tn_protocol s" "te_send E" "tc_target c" "te_now E" "Some ?cb" ?ms] send prot by simp
    have "good E X (owed s + owner (Create c)) (Done (tn_add (op\<lparr>op_data := Create c, op_state := 2\<rparr>) ?s1))"
      using ok cbs waits by (intro readd_create [OF det, of c K_onTcpConnectResult]) (simp_all add: outs_def)
    moreover have "op\<lparr>op_data := Create c, op_state := 2\<rparr> = ?op" using op by (cases op) simp
    ultimately show ?thesis using False by (simp add: startConnecting_def Let_def case_prod_beta)
  qed
qed

lemma onTcpConnectResult_good:
  assumes det: "detached E X op s" and waits: "create_waits op c"
  shows "good E X (owed s + owner (Create c)) (Done (onTcpConnectResult op c e d s))"
proof (cases "failed e")
  case True
  then show ?thesis using good_notify [OF detached_inv [OF det], of c e] by (simp add: onTcpConnectResult_def)
next
  case False
  let ?c = "c\<lparr>tc_details := d, tc_next := 0\<rparr>"
  let ?op = "op\<lparr>op_data := Create ?c, op_state := 3\<rparr>"
  have swap: "tn_post cb x (tn_add q s) = tn_add q (tn_post cb x s)" for cb x q
    by (simp add: tn_post_def tn_add_def)
  have "good E X (owed s + owner (Create ?c)) (Done (tn_add ?op (tn_post (aOpMemFun K_connectNext ?op) NoError s)))"
    using detached_protocol [OF det] waits
    by (intro readd_create [OF det, where k = K_connectNext]) (simp_all add: create_waits_def aOpMemFun_def)
  then show ?thesis using False by (simp add: onTcpConnectResult_def Let_def swap)
qed

lemma auth_init_ends:
  assumes "\<forall>p. x = Some p \<longrightarrow> ap_idle p"
  shows "ap_ends ((auth_init E t h x)\<lparr>ap_hasFinished := b\<rparr>) = 0"
proof -
  have "ap_ends (auth_init E t h x) = 0"
    using assms by (auto simp: auth_init_def ap_idle_def split: option.split)
  then show ?thesis by (simp add: ap_ends_def)
qed

lemma detached_op [simp]:
  "detached E X (op\<lparr>op_data := d\<rparr>) s = detached E X op s" "detached E X (op\<lparr>op_state := st\<rparr>) s = detached E X op s"
  by (simp_all add: detached_def)

lemma onTlsHandshake_good:
  assumes det: "detached E X op s" and waits: "create_waits op c" and st: "op_state op = 4" and tls: "tc_tls c = Some t"
  shows "good E X (owed s + owner (Create c)) (onTlsHandshake E op c e s)"
proof (cases "failed e")
  case True
  let ?c = "c\<lparr>tc_failedEnc := True, tc_tls := None\<rparr>"
  have "good E X (owed s + owner (Create ?c)) (connectNext E (op\<lparr>op_data := Create ?c\<rparr>) ?c s)"
    using det waits st by (intro connectNext_good) (simp_all add: create_waits_def)
  with True show ?thesis by (simp add: onTlsHandshake_def Let_def)
next
  case False
  let ?op1 = "op\<lparr>op_state := 5\<rparr>"
  obtain p where p: "ap_connect (te_authEnv E) (tc_target c) (lastingTimeMs (te_now E) (66 / 100) ?op1)
      ((auth_init E t (tn_hostId s) (tc_authp c))\<lparr>ap_hasFinished := True\<rparr>) = Done p"
    using ap_connect_Done by blast
  let ?c = "c\<lparr>tc_authp := Some p, tc_finished := Some (aOpMemFun K_onAuthProtocolFinished ?op1)\<rparr>"
  let ?op = "?op1\<lparr>op_data := Create ?c\<rparr>"
  have auth: "good E X (owed s + owner (Create c)) (Done (tn_add ?op s))" if V: "vouched E (tn_auth s) t (tc_target c)"
  proof -
    have "ap_quiet p" by (rule ap_connect_quiet [OF p]) (use waits in \<open>simp add: create_waits_def auth_init_ends\<close>)
    then have "op_ok (vouched E (tn_auth s)) ?op"
      using waits tls V by (simp add: op_ok_def create_waits_def aOpMemFun_def)
    moreover have "authenticating ?op" by (simp add: authenticating_def)
    ultimately have "tcp_inv E X (tn_add ?op s) \<and> owed (tn_add ?op s) = owed s + owner (op_data ?op)"
      using detached_protocol [OF det] by (intro readd [OF det, where C = "{#}"]) simp_all
    then show ?thesis by (simp add: good_def)
  qed
  have next_address: "good E X (owed s + owner (Create c)) (connectNext E op c s)"
    using det waits st by (intro connectNext_good) simp_all
  show ?thesis
  proof (cases "tn_auth s")
    case None
    then have "vouched E (tn_auth s) t (tc_target c)" by (simp add: vouched_def)
    from auth [OF this] False tls None p show ?thesis by (simp add: onTlsHandshake_def Let_def)
  next
    case (Some a)
    consider "ct_type (au_get (tc_target c) a) \<noteq> CT_PEER"
      | "ct_type (au_get (tc_target c) a) = CT_PEER" "failed (te_authenticate E t (ct_cert (au_get (tc_target c) a)) (tc_target c))"
      | "ct_type (au_get (tc_target c) a) = CT_PEER" "te_authenticate E t (ct_cert (au_get (tc_target c) a)) (tc_target c) = NoError"
      by blast
    then show ?thesis
    proof cases
      case 1
      with False tls Some good_notify [OF detached_inv [OF det], of c AuthError] show ?thesis
        by (simp add: onTlsHandshake_def Let_def)
    next
      case 2
      with False tls Some next_address show ?thesis by (simp add: onTlsHandshake_def Let_def)
    next
      case 3
      with Some have "vouched E (tn_auth s) t (tc_target c)" by (simp add: vouched_def)
      from auth [OF this] 3 False tls Some p show ?thesis by (simp add: onTlsHandshake_def Let_def)
    qed
  qed
qed

lemma tcp_inv_created:
  assumes "tcp_inv E X s" and "vouched E (tn_auth s) t h"
  shows "tcp_inv E X (s\<lparr>tn_created := tn_created s @ [(h, t, a)]\<rparr>)"
    "owed (s\<lparr>tn_created := tn_created s @ [(h, t, a)]\<rparr>) = owed s"
proof -
  have "outs (s\<lparr>tn_created := tn_created s @ [(h, t, a)]\<rparr>) = outs s" by (simp add: outs_def)
  with assms show "tcp_inv E X (s\<lparr>tn_created := tn_created s @ [(h, t, a)]\<rparr>)"
    by (simp add: tcp_inv_def tcp_core_def)
  show "owed (s\<lparr>tn_created := tn_created s @ [(h, t, a)]\<rparr>) = owed s" by (simp add: owed_def)
qed

lemma onAuthProtocolFinished_good:
  assumes det: "detached E X op s" and waits: "create_waits op c" and tls: "tc_tls c = Some t"
    and V: "vouched E (tn_auth s) t (tc_target c)"
  shows "good E X (owed s + owner (Create c)) (onAuthProtocolFinished E op c e s)"
proof (cases "failed e")
  case True
  let ?c = "c\<lparr>tc_failedAuth := True\<rparr>"
  have "good E X (owed s + owner (Create ?c)) (connectNext E (op\<lparr>op_data := Create ?c, op_state := 3\<rparr>) ?c s)"
    using det waits by (intro connectNext_good) (simp_all add: create_waits_def)
  with True show ?thesis by (simp add: onAuthProtocolFinished_def Let_def)
next
  case False
  note inv = tcp_inv_created [OF detached_inv [OF det] V, of True]
  from good_notify [OF inv(1), of c NoError] False tls inv(2) show ?thesis
    by (simp add: onAuthProtocolFinished_def)
qed

lemma onAcceptTlsHandshake_good:
  assumes det: "detached E X op s" and op: "op_type op = 2" "ta_authp a = None" and tls: "ta_tls a = Some t"
  shows "good E X (owed s) (onAcceptTlsHandshake E op a e s)"
proof -
  have stop: "good E X (owed s) (Done s)" using detached_inv [OF det] by (simp add: good_def)
  let ?op1 = "op\<lparr>op_state := 2\<rparr>"
  let ?p = "ap_passive (te_authEnv E) [] (-1) ((auth_init E t (tn_hostId s) (ta_authp a))\<lparr>ap_hasFinished := True\<rparr>)"
  let ?op = "\<lambda>h. ?op1\<lparr>op_data := Accept (a\<lparr>ta_target := h, ta_authp := Some ?p,
      ta_finished := Some (aOpMemFun K_onAcceptAuthFinished ?op1)\<rparr>)\<rparr>"
  have auth: "good E X (owed s) (Done (tn_add (?op h) s))" if V: "vouched E (tn_auth s) t h" for h
  proof -
    have "ap_quiet ?p" using op by (intro ap_passive_quiet auth_init_ends) simp
    then have "op_ok (vouched E (tn_auth s)) (?op h)"
      using op tls V by (simp add: op_ok_def aOpMemFun_def)
    moreover have "authenticating (?op h)" by (simp add: authenticating_def)
    ultimately have "tcp_inv E X (tn_add (?op h) s) \<and> owed (tn_add (?op h) s) = owed s + owner (op_data (?op h))"
      using detached_protocol [OF det] by (intro readd [OF det, where C = "{#}"]) simp_all
    then show ?thesis by (simp add: good_def)
  qed
  show ?thesis
  proof (cases "failed e \<or> tn_auth s \<noteq> None \<and> te_peerCertificate E t = None")
    case True
    with tls stop show ?thesis by (auto simp: onAcceptTlsHandshake_def Let_def)
  next
    case False
    show ?thesis
    proof (cases "tn_auth s")
      case None
      then have "vouched E (tn_auth s) t (ta_target a)" by (simp add: vouched_def)
      from auth [OF this] False tls None show ?thesis by (simp add: onAcceptTlsHandshake_def Let_def)
    next
      case (Some au)
      with False obtain k where k: "te_peerCertificate E t = Some k" by auto
      let ?h = "x_commonName (ae_x509 (te_authEnv E)) k"
      show ?thesis
      proof (cases "vouched E (tn_auth s) t ?h")
        case True
        with auth [OF True] False tls Some k show ?thesis
          by (auto simp: onAcceptTlsHandshake_def Let_def vouched_def)
      next
        case not: False
        with stop False tls Some k show ?thesis
          by (auto simp: onAcceptTlsHandshake_def Let_def vouched_def)
      qed
    qed
  qed
qed

lemma onAcceptAuthFinished_good:
  assumes det: "detached E X op s" and a: "ta_authp a = Some p" "ta_tls a = Some t" and V: "vouched E (tn_auth s) t (ta_target a)"
  shows "good E X (owed s) (onAcceptAuthFinished op a e s)"
proof -
  have "vouched E (tn_auth s) t (ap_other p)" if "\<not> (authenticationEnabled s \<and> ap_other p \<noteq> ta_target a)"
    using that V by (auto simp: authenticationEnabled_def vouched_def)
  with tcp_inv_created [OF detached_inv [OF det]] detached_inv [OF det] a show ?thesis
    by (auto simp: onAcceptAuthFinished_def good_def)
qed

subsection \<open>Callbacks\<close>

lemma fetch_fitting:
  assumes "map_of (ab_map b) i = Some op" and "op_type op = ty" and "op_state op = st"
  shows "getReadyAsyncOpInState i ty st b = (Some op, ab_remove op i b)"
  using assms by (simp add: getReadyAsyncOpInState_def getReadyAsyncOpOf_def getReadyAsyncOp_def)

lemma fetch_missing:
  "map_of (ab_map b) i = None \<Longrightarrow> getReadyAsyncOpInState i ty st b = (None, b)"
  by (simp add: getReadyAsyncOpInState_def getReadyAsyncOpOf_def getReadyAsyncOp_def)

lemma handler_good:
  assumes det: "detached E X op s" and ok: "op_ok V op" and fits: "cb_fits op cb" and wait: "\<not> authenticating op"
  shows "good E X (owed s + owner (op_data op)) (tn_handler E (cb_kind cb) op e d s)"
proof (cases "op_data op")
  case (Create c)
  with wait have st: "op_state op \<noteq> 5" by (simp add: authenticating_def)
  with ok Create have waits: "create_waits op c" by (simp add: op_ok_def create_waits_def)
  have k: "kind_ok (cb_kind cb) (Create c) (op_state op)" using fits Create by (simp add: cb_fits_def)
  show ?thesis
  proof (cases "cb_kind cb")
    case K_startConnecting
    with k startConnecting_good [OF det waits] Create show ?thesis by (simp add: tn_handler_def)
  next
    case K_onTcpConnectResult
    with onTcpConnectResult_good [OF det waits] Create show ?thesis by (simp add: tn_handler_def)
  next
    case K_connectNext
    with k connectNext_good [OF det waits] Create show ?thesis by (simp add: tn_handler_def)
  next
    case K_onConnect
    with k onConnect_good [OF det waits] Create show ?thesis by (simp add: tn_handler_def)
  next
    case K_onTlsHandshake
    with k obtain t where "op_state op = 4" "tc_tls c = Some t" by auto
    with K_onTlsHandshake onTlsHandshake_good [OF det waits] Create show ?thesis by (simp add: tn_handler_def)
  qed (use k in simp_all)
next
  case (Accept a)
  have k: "kind_ok (cb_kind cb) (Accept a) (op_state op)" using fits Accept by (simp add: cb_fits_def)
  then have kind: "cb_kind cb = K_onAcceptTlsHandshake" by (cases "cb_kind cb") simp_all
  with k obtain t where "op_state op = 1" "ta_tls a = Some t" by auto
  with ok Accept kind onAcceptTlsHandshake_good [OF det, of a t e] show ?thesis
    by (simp add: tn_handler_def op_ok_def)
qed

lemma executeOpCheck_good:
  assumes inv: "tcp_inv E (X + {#cb#}) s"
  shows "good E X (owed s) (executeOpCheck E cb e d s)"
proof (cases "map_of (ab_map (tn_ops s)) (cb_id cb)")
  case None
  have wf: "ab_wf (tn_ops s)" using inv by (simp add: tcp_inv_def ab_ok_def)
  have "op_waits (outs s + X) op" if op: "op \<in> set (ab_ops (tn_ops s))" for op
  proof -
    have "op_waits (outs s + (X + {#cb#})) op" using inv op by (auto simp: tcp_inv_def tcp_core_def)
    moreover have "op_id op \<noteq> cb_id cb" using ab_wf_opsD [OF wf op] None by auto
    then have "conts (outs s + (X + {#cb#})) (op_id op) = conts (outs s + X) (op_id op)" by simp
    ultimately show ?thesis by (simp only: op_waits_def)
  qed
  then have "tcp_inv E X s" using inv by (auto simp: tcp_inv_def tcp_core_def)
  with None show ?thesis by (simp add: executeOpCheck_def fetch_missing good_def)
next
  case (Some op)
  have wf: "ab_wf (tn_ops s)" using inv by (simp add: tcp_inv_def ab_ok_def)
  from ab_wf_mapD [OF wf Some] have op: "op \<in> set (ab_ops (tn_ops s))" "op_id op = cb_id cb" by simp_all
  have ok: "op_ok (vouched E (tn_auth s)) op" and waits: "op_waits (outs s + (X + {#cb#})) op"
    using inv op(1) by (auto simp: tcp_inv_def tcp_core_def)
  from waits op(2) have "\<not> authenticating op" by (auto simp: op_waits_def split: if_splits)
  moreover from this waits obtain cb' where cb': "conts (outs s + (X + {#cb#})) (op_id op) = {#cb'#}" "cb_fits op cb'"
    by (auto simp: op_waits_def)
  then have eq: "conts (outs s + X) (cb_id cb) = {#}" "cb' = cb" using op(2) by auto
  have C: "conts {#cb#} (cb_id cb) = {#cb#}" by simp
  have fits: "cb_fits op cb" using cb' eq by simp
  then have ts: "op_type op = cb_type cb" "op_state op = cb_state cb" by (auto simp: cb_fits_def aOpMemFun_def) (metis tcp_cb.select_convs)+
  note taken = take_op [OF inv Some eq(1) C]
  from handler_good [OF taken(1) ok fits] \<open>\<not> authenticating op\<close> taken(2) show ?thesis
    by (simp add: executeOpCheck_def fetch_fitting [OF Some ts])
qed

lemma runCalls_good:
  assumes "tcp_inv E (X + mset (map fst calls)) s"
  shows "good E X (owed s) (tn_runCalls E calls s)"
  using assms
proof (induction calls arbitrary: s)
  case (Cons call calls)
  obtain cb e d where call: "call = (cb, e, d)" by (cases call)
  from Cons.prems call have "tcp_inv E (X + mset (map fst calls) + {#cb#}) s" by (simp add: ac_simps)
  from executeOpCheck_good [OF this, of e d] obtain s1
    where "executeOpCheck E cb e d s = Done s1" "tcp_inv E (X + mset (map fst calls)) s1" "owed s1 = owed s"
    by (auto simp: good_def)
  with Cons.IH [of s1] call show ?case by simp
qed (simp add: good_def)

subsection \<open>Every step keeps it\<close>

lemma detached_fresh:
  assumes inv: "tcp_inv E X s" and gen: "genFreeId (tn_ops s) = (i, b)" and op: "op_id op = i" "op_addr op = tn_alloc s"
    and s1: "tn_ops s1 = b" "tn_alloc s1 = tn_alloc s + 1" "tn_protocol s1 = tn_protocol s" "tn_auth s1 = tn_auth s"
      "tn_tasks s1 = tn_tasks s" "tn_pending s1 = tn_pending s" "tn_created s1 = tn_created s" "tn_results s1 = tn_results s"
  shows "detached E X op s1" and "owed s1 = owed s"
proof -
  have b: "b = (tn_ops s)\<lparr>ab_nextId := i + 1\<rparr>" "i = ab_nextId (tn_ops s)" using gen by (auto simp: genFreeId_def)
  have ok: "ab_ok (tn_ops s)" and wf: "ab_wf (tn_ops s)" using inv by (simp_all add: tcp_inv_def ab_ok_def)
  have okb: "ab_ok b" using genFreeId_ok [OF ok] gen by simp
  have outs: "outs s1 = outs s" using s1 by (simp add: outs_def)
  have none: "map_of (ab_map (tn_ops s)) i = None"
    using ab_wf_boundD [OF wf, of i] b(2) by (cases "map_of (ab_map (tn_ops s)) i") auto
  have later: "\<forall>cb \<in># outs s + X. cb_id cb < i" using inv b(2) by (simp add: tcp_inv_def tcp_core_def)
  then have "conts (outs s + X) i = {#}" unfolding conts_def filter_mset_eq_mempty_iff by blast
  moreover have "0 < i" using wf b(2) by (simp add: ab_wf_def)
  moreover have "op_addr op \<notin> op_addr ` set (ab_ops (tn_ops s))"
    using inv op(2) by (auto simp: tcp_inv_def tcp_core_def)
  moreover have ops: "ab_ops b = ab_ops (tn_ops s)" "ab_nextId b = i + 1" by (simp_all add: b(1))
  have "cb_id cb < i + 1" if "cb \<in># outs s + X" for cb using later that by force
  then have "tcp_inv E X s1"
    using inv okb unfolding tcp_inv_def tcp_core_def outs s1 ops by (auto simp: less_Suc_eq)
  ultimately show "detached E X op s1"
    using none s1 op by (simp add: detached_def outs b(1))
  show "owed s1 = owed s" using s1 b(1) by (simp add: owed_def)
qed

lemma tn_post_add: "tn_post cb x (tn_add q s) = tn_add q (tn_post cb x s)"
  by (simp add: tn_post_def tn_add_def)

lemma create_good:
  fixes s s' :: "('c, 'k) tcp_connector"
  assumes inv: "tcp_inv E X s" and run: "tn_createChannel E target cb ms s = (e, s')"
  shows "tcp_inv E X s' \<and> owed s' = owed s + (case cb of None \<Rightarrow> {#} | Some n \<Rightarrow> {#n#})"
proof -
  obtain i b where gen: "genFreeId (tn_ops s) = (i, b)" by fastforce
  define c where "c = (new_create target cb :: ('c, 'k) tcp_create)"
  define op where "op = (new_op 1 (regTimeOutMs (te_now E) ms) (tn_alloc s) (Create c))\<lparr>op_id := i, op_state := 1\<rparr>"
  let ?s1 = "s\<lparr>tn_ops := b, tn_alloc := tn_alloc s + 1\<rparr>"
  let ?cb = "aOpMemFun K_startConnecting op"
  have fields: "op_id op = i" "op_addr op = tn_alloc s" "op_type op = 1"
    "op_data op = Create c" "op_state op = 1" by (simp_all add: op_def new_op_def)
  have eq: "op\<lparr>op_data := Create c, op_state := 1\<rparr> = op" "op\<lparr>op_state := 1\<rparr> = op" by (simp_all add: op_def new_op_def)
  have det: "detached E X op ?s1" "owed ?s1 = owed s"
    by (rule detached_fresh [OF inv gen fields(1,2)]; simp)+
  have "create_waits op c" using fields by (simp add: create_waits_def c_def new_create_def)
  then have "good E X (owed ?s1 + owner (Create c)) (Done (tn_add (op\<lparr>op_data := Create c, op_state := 1\<rparr>) (tn_post ?cb NoError ?s1)))"
    using detached_protocol [OF det(1)] eq(2) by (intro readd_create [OF det(1), where k = K_startConnecting]) simp_all
  moreover have "s' = tn_add op (tn_post ?cb NoError ?s1)"
    using run by (auto simp: tn_createChannel_def gen Let_def tn_post_add op_def c_def)
  ultimately show ?thesis using det(2) eq(1) by (simp add: good_def c_def new_create_def)
qed

lemma connection_good:
  fixes s :: "('c, 'k) tcp_connector"
  assumes inv: "tcp_inv E X s"
  shows "tcp_inv E X (onNewConnection E s) \<and> owed (onNewConnection E s) = owed s"
proof -
  obtain i b where gen: "genFreeId (tn_ops s) = (i, b)" by fastforce
  define a where "a = (new_accept (tn_objects s) (tn_objects s + 1) :: ('c, 'k) tcp_accept)"
  define op where "op = (new_op 2 (regTimeOutMs (te_now E) (tn_timeOutMs s)) (tn_alloc s) (Accept a))\<lparr>op_id := i, op_state := 1\<rparr>"
  let ?s0 = "s\<lparr>tn_objects := tn_objects s + 2\<rparr>"
  let ?s1 = "?s0\<lparr>tn_ops := b, tn_alloc := tn_alloc s + 1\<rparr>"
  let ?cb = "aOpMemFun K_onAcceptTlsHandshake op"
  have fields: "op_id op = i" "op_addr op = tn_alloc s" "op_type op = 2"
    "op_data op = Accept a" "op_state op = 1" by (simp_all add: op_def new_op_def)
  have det: "detached E X op ?s1" "owed ?s1 = owed s"
    by (rule detached_fresh [OF inv gen fields(1,2)]; simp)+
  have "op_ok (vouched E (tn_auth s)) op" using fields by (simp add: op_ok_def a_def new_accept_def)
  moreover have "\<not> authenticating op" using fields by (simp add: authenticating_def)
  moreover have "cb_fits op ?cb" using fields by (simp add: cb_fits_def a_def new_accept_def)
  ultimately have "tcp_inv E X (tn_add op (tn_await ?cb ?s1)) \<and>
      owed (tn_add op (tn_await ?cb ?s1)) = owed ?s1 + owner (op_data op)"
    using detached_protocol [OF det(1)] by (intro readd [OF det(1), where C = "{#?cb#}"]) auto
  moreover have "outs ?s0 = outs s" "owed ?s0 = owed s" by (simp_all add: outs_def owed_def)
  then have "tcp_inv E X ?s0 \<and> owed ?s0 = owed s" using inv by (simp add: tcp_inv_def tcp_core_def)
  moreover have "tcp_inv E X ?s1" by (rule detached_inv [OF det(1)])
  moreover have "onNewConnection E s = (if tn_hostId s = [] then ?s0
      else if failed (te_serverHandshake E (tn_objects s + 1) (authenticationEnabled s)) then ?s1
      else tn_add op (tn_await ?cb ?s1))"
    by (simp add: onNewConnection_def gen Let_def op_def a_def)
  ultimately show ?thesis
    using det(2) fields(4) by simp
qed

lemma protocolDo_good:
  assumes inv: "tcp_inv E {#} s" and p: "tp_ok p" "proto_cbs p + mset (map fst (tp_calls p)) = proto_cbs (tn_protocol s)"
  shows "good E {#} (owed s) (tn_protocolDo E p s)"
proof -
  let ?s = "s\<lparr>tn_protocol := p\<lparr>tp_calls := []\<rparr>\<rparr>"
  have "outs ?s + mset (map fst (tp_calls p)) = outs s" using p(2) by (simp add: outs_def proto_cbs_def ac_simps)
  moreover have "tp_ok (p\<lparr>tp_calls := []\<rparr>)" using p(1) by (simp add: tp_ok_def)
  ultimately have "tcp_inv E ({#} + mset (map fst (tp_calls p))) ?s"
    using inv by (simp add: tcp_inv_def tcp_core_def)
  from runCalls_good [OF this] show ?thesis by (simp add: tn_protocolDo_def owed_def)
qed

lemma reply_cbs:
  assumes "tp_ok p" and "tp_calls p = []"
  shows "tp_ok (tp_onReply sender i d p)"
    "proto_cbs (tp_onReply sender i d p) + mset (map fst (tp_calls (tp_onReply sender i d p))) = proto_cbs p"
proof -
  have ok: "ab_ok (tp_ops p)" and wf: "ab_wf (tp_ops p)" using assms(1) by (simp_all add: tp_ok_def ab_ok_def)
  have "tp_ok (tp_onReply sender i d p) \<and>
    proto_cbs (tp_onReply sender i d p) + mset (map fst (tp_calls (tp_onReply sender i d p))) = proto_cbs p"
  proof (cases "map_of (ab_map (tp_ops p)) i")
    case None
    with assms show ?thesis by (simp add: tp_onReply_def getReadyAsyncOp_def)
  next
    case (Some op)
    note rm = ab_remove_props(2) [OF wf Some] ab_remove_ok [OF ok Some] mset_ab_remove [OF wf Some]
    with assms Some show ?thesis
      by (cases "op_data op") (auto simp: tp_onReply_def getReadyAsyncOp_def tp_ok_def proto_cbs_def)
  qed
  then show "tp_ok (tp_onReply sender i d p)"
    "proto_cbs (tp_onReply sender i d p) + mset (map fst (tp_calls (tp_onReply sender i d p))) = proto_cbs p" by simp_all
qed

lemma protocol_timer_cbs:
  assumes "tp_ok p" and "tp_calls p = []" and run: "tp_onTimer ct p = Some p'"
  shows "tp_ok p'" "proto_cbs p' + mset (map fst (tp_calls p')) = proto_cbs p"
proof -
  let ?P = "\<lambda>q. tp_ok q \<and> proto_cbs q + mset (map fst (tp_calls q)) = proto_cbs p"
  have "?P p'"
  proof (rule protocol.timer_keeps [OF run [unfolded tp_onTimer_def], where P = ?P])
    show "?P p" using assms(1,2) by simp
  next
    show "ab_ok (tp_ops q)" if "?P q" for q using that by (simp add: tp_ok_def)
  next
    fix r op assume P: "?P r" and look: "map_of (ab_map (tp_ops r)) (op_id op) = Some op"
    have ok: "ab_ok (tp_ops r)" using P by (simp add: tp_ok_def)
    then have wf: "ab_wf (tp_ops r)" by (simp add: ab_ok_def)
    note rm = ab_remove_props(2) [OF wf look] mset_ab_remove [OF wf look] ab_remove_ok [OF ok look]
    with P show "?P (tp_onCancel TimeOut op (tp_put_ops (ab_remove op (op_id op) (tp_ops r)) r))"
      by (cases "op_data op") (auto simp: tp_onCancel_def tp_put_ops_def proto_cbs_def tp_ok_def)
  next
    show "?P (tp_put_ops b q)" if "?P q" "ab_ok b" "ab_ops b = ab_ops (tp_ops q)" for q b
      using that by (simp add: tp_put_ops_def proto_cbs_def tp_ok_def)
  qed
  then show "tp_ok p'" "proto_cbs p' + mset (map fst (tp_calls p')) = proto_cbs p" by simp_all
qed

lemma auth_event_quiet:
  assumes "auth_event A ev p = Done (r, q)" and "ap_quiet p"
  shows "ap_quiet q \<and> (ap_idle p \<longrightarrow> r = None \<and> ap_idle q) \<and> (r \<noteq> None \<longrightarrow> ap_idle q)"
proof (cases ev)
  case Auth_Run
  with assms ap_run_quiet [of A p r q] show ?thesis by (simp add: auth_event_def)
next
  case Auth_TimeOut
  with assms ap_timeOut_quiet [of p] show ?thesis by (auto simp: auth_event_def ap_idle_def)
next
  case (Auth_Stream c)
  let ?p = "p\<lparr>ap_channel := c\<rparr>"
  have p: "ap_quiet ?p \<longleftrightarrow> ap_quiet p" "ap_idle ?p \<longleftrightarrow> ap_idle p" "ap_done ?p \<longleftrightarrow> ap_done p"
    by (simp_all add: ap_quiet_def ap_idle_def ap_done_def ap_ends_def)
  show ?thesis
  proof (cases "ap_hooked p")
    case True
    with Auth_Stream assms(1) have "ap_onChannelChange A ?p = Done q" "r = None" by (auto simp: auth_event_def Let_def)
    with ap_change_quiet [OF this(1)] assms(2) p show ?thesis by (auto simp: ap_idle_def)
  next
    case False
    with Auth_Stream assms p show ?thesis by (auto simp: auth_event_def Let_def)
  qed
qed

lemma set_authp_simps [simp]:
  "owner (set_authp q d) = owner d" "kind_ok k (set_authp q d) st = kind_ok k d st"
  "authenticating (op\<lparr>op_data := set_authp q (op_data op)\<rparr>) = authenticating op"
  by (cases d; cases k; simp)+ (cases "op_data op"; simp add: authenticating_def)

lemma modify_inv:
  fixes s :: "('c, 'k) tcp_connector"
  assumes inv: "tcp_inv E X s" and look: "map_of (ab_map (tn_ops s)) i = Some op"
    and p: "authp_of (op_data op) = Some p" and q: "ap_quiet q" "\<not> authenticating op \<Longrightarrow> ap_idle q"
  defines "s1 \<equiv> s\<lparr>tn_ops := ab_modify i (set_authp q) (tn_ops s)\<rparr>"
  shows "tcp_inv E X s1" "owed s1 = owed s"
    "map_of (ab_map (tn_ops s1)) i = Some (op\<lparr>op_data := set_authp q (op_data op)\<rparr>)"
proof -
  let ?g = "\<lambda>op :: ('c, 'k) tcp_data aop. if op_id op = i then op\<lparr>op_data := set_authp q (op_data op)\<rparr> else op"
  have ok: "ab_ok (tn_ops s)" and wf: "ab_wf (tn_ops s)" using inv by (simp_all add: tcp_inv_def ab_ok_def)
  note m = ab_modify_ok [OF ok, of i "set_authp q"]
  from ab_wf_mapD [OF wf look] have op: "op \<in> set (ab_ops (tn_ops s))" "op_id op = i" by simp_all
  have only: "o' = op" if "o' \<in> set (ab_ops (tn_ops s))" "op_id o' = i" for o'
    using ab_wf_opsD [OF wf that(1)] that(2) look by simp
  have outs: "outs s1 = outs s" by (simp add: s1_def outs_def)
  have fits: "cb_fits (o'\<lparr>op_data := set_authp q (op_data o')\<rparr>) cb = cb_fits o' cb" for o' cb
    by (simp add: cb_fits_def)
  have waits: "op_waits M (o'\<lparr>op_data := set_authp q (op_data o')\<rparr>) = op_waits M o'" for o' M
    by (simp add: op_waits_def fits)
  have "op_ok (vouched E (tn_auth s)) op" using inv op by (simp add: tcp_inv_def tcp_core_def)
  then have okq: "op_ok (vouched E (tn_auth s)) (op\<lparr>op_data := set_authp q (op_data op)\<rparr>)"
    using q p by (cases "op_data op") (auto simp: op_ok_def authenticating_def split: if_splits)
  have "op_addr x < tn_alloc s \<and> op_ok (vouched E (tn_auth s)) x \<and> op_waits (outs s + X) x"
    if x: "x \<in> set (map ?g (ab_ops (tn_ops s)))" for x
  proof -
    from x obtain o' where o': "o' \<in> set (ab_ops (tn_ops s))" "x = ?g o'" by auto
    then have old: "op_addr o' < tn_alloc s \<and> op_ok (vouched E (tn_auth s)) o' \<and> op_waits (outs s + X) o'"
      using inv by (simp add: tcp_inv_def tcp_core_def)
    show ?thesis
    proof (cases "op_id o' = i")
      case True
      with only [OF o'(1)] old o'(2) okq show ?thesis by (simp add: waits)
    next
      case False
      with old o'(2) show ?thesis by simp
    qed
  qed
  then show "tcp_inv E X s1"
    using inv m(1,3) unfolding tcp_inv_def tcp_core_def outs by (simp add: s1_def m(4))
  have "image_mset (\<lambda>op. owner (op_data op)) (image_mset ?g M) = image_mset (\<lambda>op. owner (op_data op)) M" for M
    by (simp add: multiset.map_comp o_def) (rule image_mset_cong, simp)
  then show "owed s1 = owed s" by (simp add: owed_def s1_def m(4))
  show "map_of (ab_map (tn_ops s1)) i = Some (op\<lparr>op_data := set_authp q (op_data op)\<rparr>)"
    using look by (simp add: s1_def m(2))
qed

lemma authEvent_good:
  assumes inv: "tcp_inv E X s" and run: "tn_authEvent E i ev s = r"
  shows "good E X (owed s) r \<or> (\<exists>f p op. r = Fault f \<and> map_of (ab_map (tn_ops s)) i = Some op \<and>
     authp_of (op_data op) = Some p \<and> auth_event (te_authEnv E) ev p = Fault f)"
proof (cases "map_of (ab_map (tn_ops s)) i")
  case None
  with inv run show ?thesis by (auto simp: tn_authEvent_def good_def)
next
  case look: (Some op)
  show ?thesis
  proof (cases "authp_of (op_data op)")
    case None
    with look inv run show ?thesis by (auto simp: tn_authEvent_def good_def)
  next
    case p: (Some p)
    show ?thesis
    proof (cases "auth_event (te_authEnv E) ev p")
      case (Fault f)
      with look p run show ?thesis by (auto simp: tn_authEvent_def)
    next
      case (Done x)
      obtain e q where x: "x = (e, q)" by (cases x)
      have ok: "ab_ok (tn_ops s)" and wf: "ab_wf (tn_ops s)" using inv by (simp_all add: tcp_inv_def ab_ok_def)
      from ab_wf_mapD [OF wf look] have op: "op \<in> set (ab_ops (tn_ops s))" "op_id op = i" by simp_all
      with inv have opok: "op_ok (vouched E (tn_auth s)) op" and waits: "op_waits (outs s + X) op"
        by (simp_all add: tcp_inv_def tcp_core_def)
      have quiet: "ap_quiet p" and idle: "\<not> authenticating op \<Longrightarrow> ap_idle p"
        using opok p by (cases "op_data op"; auto simp: op_ok_def authenticating_def ap_idle_quiet split: if_splits)+
      from auth_event_quiet [OF Done [unfolded x] quiet] idle
      have q: "ap_quiet q" "\<not> authenticating op \<Longrightarrow> ap_idle q \<and> e = None" "e \<noteq> None \<Longrightarrow> ap_idle q" by auto
      let ?s1 = "s\<lparr>tn_ops := ab_modify i (set_authp q) (tn_ops s)\<rparr>"
      let ?op = "op\<lparr>op_data := set_authp q (op_data op)\<rparr>"
      have s1: "tcp_inv E X ?s1" "owed ?s1 = owed s" "map_of (ab_map (tn_ops ?s1)) i = Some ?op"
        using modify_inv [OF inv look p q(1)] q(2) by simp_all
      show ?thesis
      proof (cases e)
        case None
        with look p Done x run s1 show ?thesis by (auto simp: tn_authEvent_def good_def Let_def)
      next
        case (Some err)
        with q have auth: "authenticating op" "ap_idle q" by auto
        with waits have empty: "conts (outs ?s1 + X) i = {#}" by (simp add: op_waits_def op(2) outs_def)
        have inv0: "tcp_inv E (X + {#}) ?s1" and C: "conts {#} i = {#}" using s1(1) by simp_all
        note taken = take_op [OF inv0 s1(3) empty C]
        let ?s2 = "?s1\<lparr>tn_ops := ab_remove ?op i (tn_ops ?s1)\<rparr>"
        have au: "tn_auth ?s2 = tn_auth s" by simp
        show ?thesis
        proof (cases "op_data op")
          case (Create c)
          with opok auth p obtain t where c: "op_type op = 1" "op_state op = 5" "tc_tls c = Some t"
            "tc_finished c = Some (aOpMemFun K_onAuthProtocolFinished op)" "vouched E (tn_auth s) t (tc_target c)"
            "tc_next c \<le> length (dt_addresses (tc_details c))"
            by (auto simp: op_ok_def authenticating_def)
          let ?c = "c\<lparr>tc_authp := Some q\<rparr>"
          have "create_waits ?op ?c" using c auth(2) by (simp add: create_waits_def)
          from onAuthProtocolFinished_good [OF taken(1) this, of t err] c(3,5)
          have "good E X (owed ?s2 + owner (Create ?c)) (onAuthProtocolFinished E ?op ?c err ?s2)" by simp
          moreover have "getReadyAsyncOpInState i 1 5 (tn_ops ?s1) = (Some ?op, ab_remove ?op i (tn_ops ?s1))"
            using fetch_fitting [OF s1(3)] c by simp
          ultimately show ?thesis
            using look p Done x Some Create c op(2) run taken(2) s1(2)
            by (auto simp: tn_authEvent_def Let_def executeOpCheck_def tn_handler_def)
        next
          case (Accept a)
          with opok auth p obtain t where a: "op_type op = 2" "op_state op = 2" "ta_tls a = Some t"
            "ta_finished a = Some (aOpMemFun K_onAcceptAuthFinished op)" "vouched E (tn_auth s) t (ta_target a)"
            by (auto simp: op_ok_def authenticating_def)
          let ?a = "a\<lparr>ta_authp := Some q\<rparr>"
          from onAcceptAuthFinished_good [OF taken(1), of ?a q t err] a(3,5)
          have "good E X (owed ?s2) (onAcceptAuthFinished ?op ?a err ?s2)" by simp
          moreover have "getReadyAsyncOpInState i 2 2 (tn_ops ?s1) = (Some ?op, ab_remove ?op i (tn_ops ?s1))"
            using fetch_fitting [OF s1(3)] a by simp
          ultimately show ?thesis
            using look p Done x Some Accept a op(2) run taken(2) s1(2)
            by (auto simp: tn_authEvent_def Let_def executeOpCheck_def tn_handler_def)
        qed
      qed
    qed
  qed
qed

lemma timer_good:
  assumes inv: "tcp_inv E X s" and run: "tn_onTimer ct s = Some s'"
  shows "tcp_inv E X s' \<and> owed s' = owed s"
proof (rule connector.timer_keeps [OF run [unfolded tn_onTimer_def], where P = "\<lambda>r. tcp_inv E X r \<and> owed r = owed s"])
  show "tcp_inv E X s \<and> owed s = owed s" using inv by simp
next
  fix r assume "tcp_inv E X r \<and> owed r = owed s"
  then show "ab_ok (tn_ops r)" by (simp add: tcp_inv_def)
next
  fix r op
  assume P: "tcp_inv E X r \<and> owed r = owed s" and look: "map_of (ab_map (tn_ops r)) (op_id op) = Some op"
  let ?b = "ab_remove op (op_id op) (tn_ops r)"
  have ok: "ab_ok (tn_ops r)" using P by (simp add: tcp_inv_def)
  then have wf: "ab_wf (tn_ops r)" by (simp add: ab_ok_def)
  have "outs (tn_put_ops ?b r) = outs r" by (simp add: outs_def tn_put_ops_def)
  then have "tcp_core E X (tn_put_ops ?b r)"
    using P ab_remove_props(2,5) [OF wf look] by (simp add: tcp_core_def tcp_inv_def tn_put_ops_def)
  moreover have "owed (tn_put_ops ?b r) + owner (op_data op) = owed r"
    using mset_ab_remove [OF wf look] by (simp add: owed_def tn_put_ops_def)
  moreover have "ab_ok (tn_ops (tn_put_ops ?b r))" using ab_remove_ok [OF ok look] by simp
  ultimately show "tcp_inv E X (tn_onCancel TimeOut op (tn_put_ops ?b r)) \<and>
      owed (tn_onCancel TimeOut op (tn_put_ops ?b r)) = owed s"
    using P by (cases "op_data op") (simp_all add: tn_onCancel_def tcp_core_def tcp_inv_def)
next
  fix r b
  assume "tcp_inv E X r \<and> owed r = owed s" "ab_ok b" "ab_ops b = ab_ops (tn_ops r)" "ab_nextId b = ab_nextId (tn_ops r)"
  then show "tcp_inv E X (tn_put_ops b r) \<and> owed (tn_put_ops b r) = owed s"
    by (simp add: tcp_inv_def tcp_core_def owed_def outs_def tn_put_ops_def)
qed

lemma rpc_good:
  assumes inv: "tcp_inv E {#} s" and own: "tp_own (tn_protocol s) = None \<Longrightarrow> \<forall>i. m \<noteq> RequestConnectDetails i"
  shows "good E {#} (owed s) (tn_onRpc E sender m s)"
proof (cases m)
  case (RequestConnectDetails i)
  with own obtain d where d: "tp_own (tn_protocol s) = Some d" by (cases "tp_own (tn_protocol s)") auto
  let ?p = "(tn_protocol s)\<lparr>tp_sent := tp_sent (tn_protocol s) @ [(sender, ConnectDetailsReply i d)]\<rparr>"
  have "outs (s\<lparr>tn_protocol := ?p\<rparr>) = outs s" by (simp add: outs_def proto_cbs_def)
  with inv have "tcp_inv E {#} (s\<lparr>tn_protocol := ?p\<rparr>)" by (simp add: tcp_inv_def tcp_core_def tp_ok_def)
  with d RequestConnectDetails show ?thesis by (simp add: tn_onRpc_def tp_onRequest_def good_def owed_def)
next
  case (ConnectDetailsReply i d)
  have "tp_ok (tn_protocol s)" "tp_calls (tn_protocol s) = []" using inv by (simp_all add: tcp_inv_def tcp_core_def)
  from protocolDo_good [OF inv reply_cbs [OF this]] ConnectDetailsReply show ?thesis by (simp add: tn_onRpc_def)
qed

lemma task_good:
  assumes inv: "tcp_inv E {#} s" and t: "tn_tasks s = (cb, e) # ts"
  shows "good E {#} (owed s) (executeOpCheck E cb e' d (s\<lparr>tn_tasks := ts\<rparr>))"
proof -
  let ?s = "s\<lparr>tn_tasks := ts\<rparr>"
  have "outs s = outs ?s + {#cb#}" using t by (simp add: outs_def)
  with inv have "tcp_inv E ({#} + {#cb#}) ?s" by (simp add: tcp_inv_def tcp_core_def)
  from executeOpCheck_good [OF this] show ?thesis by (simp add: owed_def)
qed

lemma answer_good:
  assumes inv: "tcp_inv E {#} s" and t: "tn_pending s = xs @ cb # ys"
  shows "good E {#} (owed s) (executeOpCheck E cb e d (s\<lparr>tn_pending := xs @ ys\<rparr>))"
proof -
  let ?s = "s\<lparr>tn_pending := xs @ ys\<rparr>"
  have "outs s = outs ?s + {#cb#}" using t by (simp add: outs_def)
  with inv have "tcp_inv E ({#} + {#cb#}) ?s" by (simp add: tcp_inv_def tcp_core_def)
  from executeOpCheck_good [OF this] show ?thesis by (simp add: owed_def)
qed

lemma step_good:
  assumes "tcp_step E s new s'" and inv: "tcp_inv E {#} s"
  shows "tcp_inv E {#} s' \<and> owed s' = owed s + mset new"
  using assms(1)
proof cases
  case (create now target cb ms e)
  with create_good [of "env_at now E" "{#}" s target cb ms e s'] inv show ?thesis
    by (auto split: option.split)
next
  case (task cb e ts now)
  with task_good [of "env_at now E" s cb e ts e new_details] inv show ?thesis by (simp add: good_def)
next
  case (answer xs cb ys now e)
  with answer_good [of "env_at now E" s xs cb ys e new_details] inv show ?thesis by (simp add: good_def)
next
  case (rpc now sender m)
  have "\<forall>i. m \<noteq> RequestConnectDetails i" if "tp_own (tn_protocol s) = None"
    using rpc(2) that by (auto simp: tn_onRpc_def tp_onRequest_def)
  with rpc rpc_good [of "env_at now E" s m sender] inv show ?thesis by (auto simp: good_def)
next
  case (protocol_timer ct p now)
  have "tp_ok (tn_protocol s)" "tp_calls (tn_protocol s) = []" using inv by (simp_all add: tcp_inv_def tcp_core_def)
  with protocolDo_good [of "env_at now E" s p] protocol_timer_cbs [of "tn_protocol s" ct p] protocol_timer inv
  show ?thesis by (simp add: good_def)
next
  case (connection now)
  with connection_good [of "env_at now E" "{#}" s] inv show ?thesis by simp
next
  case (auth now i ev)
  with authEvent_good [of "env_at now E" "{#}" s i ev "Done s'"] inv show ?thesis by (simp add: good_def)
next
  case (timer ct)
  with timer_good [OF inv] show ?thesis by simp
qed

lemma run_good:
  assumes "tcp_run E s cbs s'" and "tcp_inv E {#} s"
  shows "tcp_inv E {#} s' \<and> owed s' = owed s + mset cbs"
  using assms by induction (auto dest: step_good)

text \<open>A connector that has been set up and not used yet.\<close>

definition tn_ready :: "('c, 'k) tcp_connector \<Rightarrow> bool" where
  "tn_ready s \<longleftrightarrow> (\<exists>E port i a ms. s = tn_setTimeOut ms (tn_setAuthentication a (tn_setHostId i (snd (tn_start E port tn_new)))))"

lemma ab_init_ops [simp]: "ab_ops ab_init = []"
  by (simp add: ab_init_def)

lemma ready_inv:
  assumes "tn_ready s" shows "tcp_inv E {#} s" "owed s = {#}"
proof -
  have "\<exists>d. tn_protocol s = setOwnDetails d tp_new" "tn_ops s = ab_init" "tn_created s = []" "tn_results s = []"
    "tn_tasks s = []" "tn_pending s = []"
    using assms by (auto simp: tn_ready_def tn_new_def tn_start_def Let_def tn_setTimeOut_def tn_setAuthentication_def
        tn_setHostId_def split: option.split)
  moreover have "proto_cbs (setOwnDetails d tp_new) = {#}" "tp_calls (setOwnDetails d tp_new) = []" for d
    by (simp_all add: proto_cbs_def setOwnDetails_def tp_new_def ab_init_def split: option.split)
  moreover note setOwnDetails_ok [OF tp_ok_new]
  ultimately show "tcp_inv E {#} s" "owed s = {#}" by (auto simp: tcp_inv_def tcp_core_def owed_def outs_def)
qed

subsection \<open>What follows\<close>

text \<open>
  A connector with a certificate stored for the host without a name, and the run of a connection
  that comes in: it is encrypted and found to be that host, and its authentication times out.
\<close>

definition demo_tcp_env :: "(unit, nat) tcp_env" where
  "demo_tcp_env =
     \<lparr>te_now = 0, te_send = (\<lambda>_ _. NoError), te_listen = (\<lambda>p. Some 80), te_localAddresses = [''1.2.3.4''],
      te_clientHandshake = (\<lambda>_ _ _. NoError), te_serverHandshake = (\<lambda>_ _. NoError),
      te_authenticate = (\<lambda>_ _ _. NoError), te_peerCertificate = (\<lambda>_. Some 3), te_stream = (\<lambda>_. ()),
      te_authState = AUTH_ERROR,
      te_authEnv = \<lparr>ae_now = 0,
        ae_vt = \<lparr>vt_error = (\<lambda>_. NoError), vt_write = (\<lambda>_ _. (NoError, ())), vt_read = (\<lambda>_ _. (None, ())),
                 vt_info = (\<lambda>_. \<lparr>ci_delay = 0, ci_virtual = False, ci_authenticated = True\<rparr>)\<rparr>,
        ae_x509 = \<lparr>x_fingerprint = (\<lambda>_. []), x_export = (\<lambda>_. []), x_import = (\<lambda>_. None),
                   x_selfsigned = (\<lambda>_. 0), x_commonName = (\<lambda>_. [])\<rparr>,
        ae_enc = (\<lambda>_. []), ae_dec = (\<lambda>_. \<lparr>ds_error = True, ds_cmd = [], ds_field = (\<lambda>_. None), ds_fail = None\<rparr>),
        ae_version = []\<rparr>\<rparr>"

definition demo_certs :: "nat authentication" where
  "demo_certs = au_update [] \<lparr>ct_type = CT_PEER, ct_cert = Some 3\<rparr> au_new"

definition demo_tcp :: "(unit, nat) tcp_connector" where
  "demo_tcp = tn_setTimeOut 500 (tn_setAuthentication (Some demo_certs) (tn_setHostId ''me'' (snd (tn_start demo_tcp_env 80 tn_new))))"

definition demo_done :: "(unit, nat) tcp_connector outcome \<Rightarrow> (unit, nat) tcp_connector" where
  "demo_done r = (case r of Done s \<Rightarrow> s | Fault _ \<Rightarrow> tn_new)"

definition demo_tcp1 :: "(unit, nat) tcp_connector" where
  "demo_tcp1 = onNewConnection (env_at 5 demo_tcp_env) demo_tcp"

definition demo_tcp2 :: "(unit, nat) tcp_connector" where
  "demo_tcp2 = demo_done (executeOpCheck (env_at 6 demo_tcp_env) (hd (tn_pending demo_tcp1)) NoError new_details
     (demo_tcp1\<lparr>tn_pending := []\<rparr>))"

definition demo_tcp3 :: "(unit, nat) tcp_connector" where
  "demo_tcp3 = demo_done (tn_authEvent (env_at 7 demo_tcp_env) 1 Auth_TimeOut demo_tcp2)"

definition demo_tcp4 :: "(unit, nat) tcp_connector" where
  "demo_tcp4 = demo_done (tn_authEvent (env_at 8 demo_tcp_env) 1 Auth_Run demo_tcp3)"

definition demo_tcp5 :: "(unit, nat) tcp_connector" where
  "demo_tcp5 = demo_done (tn_authEvent (env_at 9 demo_tcp_env) 1 Auth_Run demo_tcp4)"

lemma demo_run: "tn_ready demo_tcp" "tcp_run demo_tcp_env demo_tcp [] demo_tcp5"
  "tcp_run demo_tcp_env demo_tcp [] demo_tcp1"
proof -
  show "tn_ready demo_tcp" unfolding tn_ready_def demo_tcp_def by blast
  have 1: "tcp_step demo_tcp_env demo_tcp [] demo_tcp1" unfolding demo_tcp1_def
    by (rule tcp_step.connection [of 5 demo_tcp_env demo_tcp, OF HOL.refl])
  have "tn_pending demo_tcp1 = [] @ hd (tn_pending demo_tcp1) # []"
    "executeOpCheck (env_at 6 demo_tcp_env) (hd (tn_pending demo_tcp1)) NoError new_details
       (demo_tcp1\<lparr>tn_pending := [] @ []\<rparr>) = Done demo_tcp2"
    by code_simp+
  then have 2: "tcp_step demo_tcp_env demo_tcp1 [] demo_tcp2" by (rule tcp_step.answer)
  have "tn_authEvent (env_at 7 demo_tcp_env) 1 Auth_TimeOut demo_tcp2 = Done demo_tcp3"
    "tn_authEvent (env_at 8 demo_tcp_env) 1 Auth_Run demo_tcp3 = Done demo_tcp4"
    "tn_authEvent (env_at 9 demo_tcp_env) 1 Auth_Run demo_tcp4 = Done demo_tcp5"
    by code_simp+
  then have 3: "tcp_step demo_tcp_env demo_tcp2 [] demo_tcp3" "tcp_step demo_tcp_env demo_tcp3 [] demo_tcp4"
    "tcp_step demo_tcp_env demo_tcp4 [] demo_tcp5"
    by (blast intro: tcp_step.auth)+
  note one = tcp_run.step [OF tcp_run.refl 1, simplified]
  then show "tcp_run demo_tcp_env demo_tcp [] demo_tcp1" .
  show "tcp_run demo_tcp_env demo_tcp [] demo_tcp5"
    using tcp_run.step [OF tcp_run.step [OF tcp_run.step [OF tcp_run.step [OF one 2] 3(1)] 3(2)] 3(3)] by simp
qed

lemma demo_outcome: "tn_auth demo_tcp5 = Some demo_certs" "tn_created demo_tcp5 = [([], 1, False)]"
  by code_simp+

text \<open>
  C4. Whoever asked the connector for a channel is either answered exactly once or still has a
  pending operation, and no one else is answered, in every run.
\<close>

theorem tcp_answered_once:
  assumes "tn_ready s" and "tcp_run E s cbs s'"
  shows "mset (map fst (tn_results s')) + (\<Sum>op \<in># mset (ab_ops (tn_ops s')). owner (op_data op)) = mset cbs"
  using run_good [OF assms(2) ready_inv(1) [OF assms(1)]] ready_inv(2) [OF assms(1)]
  by (simp add: owed_def)

lemma tcp_answered_once_witness:
  "mset (map fst (tn_results (snd (tn_createChannel (env_at 3 demo_tcp_env) ''b'' (Some 7) 100 demo_tcp)))) +
     (\<Sum>op \<in># mset (ab_ops (tn_ops (snd (tn_createChannel (env_at 3 demo_tcp_env) ''b'' (Some 7) 100 demo_tcp)))). owner (op_data op)) = {#7#}"
proof -
  have "tcp_step demo_tcp_env demo_tcp [7] (snd (tn_createChannel (env_at 3 demo_tcp_env) ''b'' (Some 7) 100 demo_tcp))"
    using tcp_step.create [of 3 demo_tcp_env "''b''" "Some 7" 100 demo_tcp] by (metis option.simps(5) prod.collapse)
  from tcp_answered_once [OF demo_run(1) tcp_run.step [OF tcp_run.refl this]] show ?thesis by simp
qed

text \<open>
  C16. With certificates in use the connector announces a channel only if the host it announces
  has a stored peer certificate, and the TLS channel was authenticated with it for that host.
\<close>

theorem tcp_announces_vouched:
  assumes "tn_ready s" and "tcp_run E s cbs s'" and "tn_auth s' = Some a"
  shows "list_all (\<lambda>(host, tls, active). ct_type (au_get host a) = CT_PEER \<and>
     te_authenticate E tls (ct_cert (au_get host a)) host = NoError) (tn_created s')"
proof -
  have "tcp_inv E {#} s'" using run_good [OF assms(2) ready_inv(1) [OF assms(1)]] by simp
  with assms(3) show ?thesis by (auto simp: list_all_iff tcp_inv_def tcp_core_def vouched_def)
qed

lemma tcp_announces_vouched_witness:
  "list_all (\<lambda>(host, tls, active). ct_type (au_get host demo_certs) = CT_PEER \<and>
     te_authenticate demo_tcp_env tls (ct_cert (au_get host demo_certs)) host = NoError) [([], 1, False)]"
  using tcp_announces_vouched [OF demo_run(1,2) demo_outcome(1)] by (simp only: demo_outcome(2))

text \<open>
  Without certificates a connection that comes in is announced whether or not its
  authentication failed: the handler of the result does not return on a failure.
\<close>

lemma tcp_accept_ignores_failure:
  assumes "tn_auth s = None" and "ta_authp a = Some p" and "ta_tls a = Some t"
  shows "onAcceptAuthFinished op a e s = Done (s\<lparr>tn_created := tn_created s @ [(ap_other p, t, False)]\<rparr>)"
  using assms by (simp add: onAcceptAuthFinished_def authenticationEnabled_def)

end
