(* ===== verification/Sf_HttpPool.thy ===== *)
theory Sf_HttpPool
  imports Sf_Http Sf_AsyncSpec "HOL-Library.Product_Lexorder"
begin

text \<open>
  \<open>HttpConnectionManager\<close> (\<open>libschnee/schnee/net/http/impl/HttpConnectionManager.h\<close>,
  \<open>HttpConnectionManager.cpp\<close>): the pool of connections to HTTP servers.  A request for a
  connection is served by one that was given back, or by a new one.

  Connections are shared: they are numbers, and \<open>hm_conns\<close> is the store.  A callback of a requester
  is the id that the requester has bound to it.  What sockets and TLS channels answer is the
  environment's; a callback given to one of them is an entry of \<open>hm_awaits\<close>, calls posted to the
  main loop are \<open>hm_tasks\<close>, and the calls that \<open>onCancel\<close> makes at once are \<open>hm_calls\<close>.
\<close>

subsection \<open>Connections\<close>

text \<open>
  \<open>hc_changed\<close> is what the channel's delegate \<open>changed\<close> is bound to; \<open>hc_in\<close> and \<open>hc_error\<close> are
  what the channel has received and its error.
\<close>

datatype http_watch = Watch_Pool int | Watch_Context int

record http_conn =
  hc_host :: string
  hc_pureHost :: string
  hc_protocol :: string
  hc_inputBuffer :: bytes
  hc_tls :: bool
  hc_changed :: "http_watch option"
  hc_in :: bytes
  hc_error :: error

type_synonym con_id = "string \<times> string"

definition con_key :: "http_conn \<Rightarrow> con_id" where
  "con_key c = (hc_protocol c, hc_host c)"

definition url_key :: "url \<Rightarrow> con_id" where
  "url_key u = (u_protocol u, u_host u)"

subsection \<open>The manager\<close>

abbreviation (input) ESTABLISH_CONNECTION :: int where "ESTABLISH_CONNECTION \<equiv> 1"
abbreviation (input) PENDING_CONNECTION :: int where "PENDING_CONNECTION \<equiv> 2"

abbreviation (input) WAIT_TCP_CONNECT :: int where "WAIT_TCP_CONNECT \<equiv> 1"
abbreviation (input) WAIT_TLS :: int where "WAIT_TLS \<equiv> 2"

datatype pool_data = Establish (pd_connection: nat) int | Pooled (pd_connection: nat)

datatype pool_task = Call_Back int error "nat option" | Throw_Away nat | Remove_Pending con_id int

datatype pool_await = Await_Tcp int | Await_Tls int

record http_pool =
  hm_ops :: "pool_data async_base"
  hm_alloc :: nat
  hm_conns :: "nat \<Rightarrow> http_conn"
  hm_next :: nat
  hm_pending :: "(con_id, int list) smap"
  hm_count :: int
  hm_created :: int
  hm_generalTimeoutMs :: int
  hm_awaits :: "pool_await list"
  hm_tasks :: "pool_task list"
  hm_calls :: "(int \<times> error \<times> nat option) list"

text \<open>\<open>he_int\<close> and \<open>he_nat\<close> are the casts from text to a number; \<open>he_memory\<close> is what memory held.\<close>

record http_env =
  he_now :: int
  he_connect :: "string \<Rightarrow> int \<Rightarrow> int \<Rightarrow> error"
  he_handshake :: "nat \<Rightarrow> string \<Rightarrow> error"
  he_write :: "nat \<Rightarrow> bytes \<Rightarrow> error"
  he_authenticated :: "nat \<Rightarrow> bool"
  he_int :: "string \<Rightarrow> int option"
  he_nat :: "string \<Rightarrow> nat option"
  he_memory :: bool

definition no_conn :: http_conn where
  "no_conn = \<lparr>hc_host = [], hc_pureHost = [], hc_protocol = [], hc_inputBuffer = [], hc_tls = False,
              hc_changed = None, hc_in = [], hc_error = NoError\<rparr>"

definition hm_new :: http_pool where
  "hm_new = \<lparr>hm_ops = ab_init, hm_alloc = 0, hm_conns = (\<lambda>_. no_conn), hm_next = 0, hm_pending = [],
             hm_count = 0, hm_created = 0, hm_generalTimeoutMs = 30000, hm_awaits = [], hm_tasks = [],
             hm_calls = []\<rparr>"

definition hm_post :: "pool_task \<Rightarrow> http_pool \<Rightarrow> http_pool" where
  "hm_post t s = s\<lparr>hm_tasks := hm_tasks s @ [t]\<rparr>"

definition hm_add :: "pool_data aop \<Rightarrow> http_pool \<Rightarrow> http_pool" where
  "hm_add op s = s\<lparr>hm_ops := snd (addAsyncOp op (hm_ops s))\<rparr>"

definition hm_set_conn :: "nat \<Rightarrow> http_conn \<Rightarrow> http_pool \<Rightarrow> http_pool" where
  "hm_set_conn c x s = s\<lparr>hm_conns := (hm_conns s)(c := x)\<rparr>"

subsection \<open>Requesting a connection\<close>

text \<open>The loop over the list of pooled connections: the one found, and what is left of the list.\<close>

fun hm_takePooled :: "int list \<Rightarrow> http_pool \<Rightarrow> (pool_data aop option \<times> int list) \<times> http_pool" where
  "hm_takePooled [] s = ((None, []), s)"
| "hm_takePooled (i # ids) s =
     (case getReadyAsyncOpOf i PENDING_CONNECTION (hm_ops s) of
        (r, b) \<Rightarrow>
          let s1 = s\<lparr>hm_ops := b, hm_count := hm_count s - 1\<rparr>
          in case r of Some op \<Rightarrow> ((Some op, ids), s1) | None \<Rightarrow> hm_takePooled ids s1)"

definition hm_establish :: "http_env \<Rightarrow> url \<Rightarrow> int \<Rightarrow> int \<Rightarrow> http_pool \<Rightarrow> http_pool" where
  "hm_establish E u timeOutMs cb s =
     (if u_protocol u \<noteq> ''http'' \<and> u_protocol u \<noteq> ''https'' then
        hm_post (Call_Back cb NotSupported None) (s\<lparr>hm_alloc := hm_alloc s + 1\<rparr>)
      else
        let c = hm_next s;
            con = no_conn\<lparr>hc_host := u_host u, hc_pureHost := url_pureHost u, hc_protocol := u_protocol u\<rparr>;
            (i, b) = genFreeId (hm_ops s);
            op = (new_op ESTABLISH_CONNECTION (regTimeOutMs (he_now E) timeOutMs) (hm_alloc s) (Establish c cb))
                   \<lparr>op_id := i, op_state := WAIT_TCP_CONNECT\<rparr>;
            s1 = hm_set_conn c con (s\<lparr>hm_ops := b, hm_alloc := hm_alloc s + 1, hm_next := c + 1\<rparr>);
            e = he_connect E (url_pureHost u) (url_port (he_int E) u) timeOutMs
        in if failed e then hm_post (Call_Back cb e None) s1
           else hm_add op (s1\<lparr>hm_awaits := hm_awaits s1 @ [Await_Tcp i]\<rparr>))"

definition requestConnection :: "http_env \<Rightarrow> url \<Rightarrow> int \<Rightarrow> int \<Rightarrow> http_pool \<Rightarrow> http_pool" where
  "requestConnection E u timeOutMs cb s =
     (case map_of (hm_pending s) (url_key u) of
        None \<Rightarrow> hm_establish E u timeOutMs cb s
      | Some ids \<Rightarrow>
          (case hm_takePooled ids s of
             ((Some op, rest), s1) \<Rightarrow>
               hm_post (Call_Back cb NoError (Some (pd_connection (op_data op))))
                 (s1\<lparr>hm_pending := sm_insert (url_key u) rest (hm_pending s1)\<rparr>)
           | ((None, _), s1) \<Rightarrow>
               hm_establish E u timeOutMs cb (s1\<lparr>hm_pending := sm_erase (url_key u) (hm_pending s1)\<rparr>)))"

subsection \<open>Giving a connection back\<close>

definition addToPendingConnections :: "con_id \<Rightarrow> int \<Rightarrow> http_pool \<Rightarrow> http_pool" where
  "addToPendingConnections k i s =
     s\<lparr>hm_pending := sm_insert k ((case map_of (hm_pending s) k of None \<Rightarrow> [] | Some ids \<Rightarrow> ids) @ [i]) (hm_pending s),
       hm_count := hm_count s + 1\<rparr>"

definition removeFromPendingConnectionsExplicit :: "con_id \<Rightarrow> int \<Rightarrow> http_pool \<Rightarrow> http_pool" where
  "removeFromPendingConnectionsExplicit k i s =
     (case map_of (hm_pending s) k of
        None \<Rightarrow> s
      | Some ids \<Rightarrow>
          if i \<in> set ids then
            let rest = remove1 i ids
            in s\<lparr>hm_pending := (if rest = [] then sm_erase k (hm_pending s) else sm_insert k rest (hm_pending s)),
                 hm_count := hm_count s - 1\<rparr>
          else s)"

text \<open>A null connection comes with an error only.\<close>

definition giveBack :: "http_env \<Rightarrow> error \<Rightarrow> nat option \<Rightarrow> http_pool \<Rightarrow> http_pool outcome" where
  "giveBack E lastResult connection s =
     (if failed lastResult then
        Done (case connection of None \<Rightarrow> s | Some c \<Rightarrow> hm_post (Throw_Away c) s)
      else case connection of
        None \<Rightarrow> Fault NullDeref
      | Some c \<Rightarrow>
          let (i, b) = genFreeId (hm_ops s);
              op = (new_op PENDING_CONNECTION (regTimeOutMs (he_now E) (hm_generalTimeoutMs s)) (hm_alloc s) (Pooled c))
                     \<lparr>op_id := i\<rparr>;
              s1 = s\<lparr>hm_ops := b, hm_alloc := hm_alloc s + 1\<rparr>;
              s2 = hm_set_conn c ((hm_conns s1 c)\<lparr>hc_changed := Some (Watch_Pool i)\<rparr>) s1;
              s3 = addToPendingConnections (con_key (hm_conns s2 c)) i s2
          in Done (hm_add op s3))"

subsection \<open>Establishing a connection\<close>

definition doFinish :: "error \<Rightarrow> nat \<Rightarrow> int \<Rightarrow> http_pool \<Rightarrow> http_pool" where
  "doFinish result c cb s =
     (if failed result then hm_post (Call_Back cb result None) (hm_post (Throw_Away c) s)
      else hm_post (Call_Back cb result (Some c)) (s\<lparr>hm_created := hm_created s + 1\<rparr>))"

text \<open>
  The result of \<open>clientHandshake\<close> is not looked at: if it fails at once its callback never comes.
  An operation of the right type with the data of the other class would be a wrong cast.
\<close>

definition hm_onTcpConnect :: "http_env \<Rightarrow> error \<Rightarrow> int \<Rightarrow> http_pool \<Rightarrow> http_pool outcome" where
  "hm_onTcpConnect E result i s =
     (case getReadyAsyncOpInState i ESTABLISH_CONNECTION WAIT_TCP_CONNECT (hm_ops s) of
        (None, b) \<Rightarrow> Done (s\<lparr>hm_ops := b\<rparr>)
      | (Some op, b) \<Rightarrow>
          let s1 = s\<lparr>hm_ops := b\<rparr>
          in case op_data op of
               Pooled _ \<Rightarrow> Fault AssertFailed
             | Establish c cb \<Rightarrow>
                 if failed result then Done (doFinish result c cb s1)
                 else if hc_protocol (hm_conns s1 c) = ''https'' then
                   let s2 = hm_set_conn c ((hm_conns s1 c)\<lparr>hc_tls := True\<rparr>) s1;
                       e = he_handshake E c (hc_pureHost (hm_conns s1 c));
                       s3 = (if failed e then s2 else s2\<lparr>hm_awaits := hm_awaits s2 @ [Await_Tls i]\<rparr>)
                   in Done (hm_add (op\<lparr>op_state := WAIT_TLS\<rparr>) s3)
                 else Done (doFinish result c cb s1))"

definition hm_onTlsHandshake :: "error \<Rightarrow> int \<Rightarrow> http_pool \<Rightarrow> http_pool outcome" where
  "hm_onTlsHandshake result i s =
     (case getReadyAsyncOpInState i ESTABLISH_CONNECTION WAIT_TLS (hm_ops s) of
        (None, b) \<Rightarrow> Done (s\<lparr>hm_ops := b\<rparr>)
      | (Some op, b) \<Rightarrow>
          (case op_data op of
             Pooled _ \<Rightarrow> Fault AssertFailed
           | Establish c cb \<Rightarrow> Done (doFinish result c cb (s\<lparr>hm_ops := b\<rparr>))))"

subsection \<open>What happens to a pooled connection\<close>

text \<open>\<open>read\<close> empties the channel.\<close>

definition hm_onChannelChange :: "int \<Rightarrow> http_pool \<Rightarrow> http_pool" where
  "hm_onChannelChange i s =
     (case getReadyAsyncOpOf i PENDING_CONNECTION (hm_ops s) of
        (None, b) \<Rightarrow> s\<lparr>hm_ops := b\<rparr>
      | (Some op, b) \<Rightarrow>
          let c = pd_connection (op_data op);
              x = hm_conns s c;
              s1 = hm_set_conn c (x\<lparr>hc_inputBuffer := hc_inputBuffer x @ hc_in x, hc_in := []\<rparr>) (s\<lparr>hm_ops := b\<rparr>)
          in if failed (hc_error x)
             then removeFromPendingConnectionsExplicit (con_key x) (op_id op) (hm_post (Throw_Away c) s1)
             else hm_add op s1)"

definition hm_onCancel :: "error \<Rightarrow> pool_data aop \<Rightarrow> http_pool \<Rightarrow> http_pool" where
  "hm_onCancel reason op s =
     (case op_data op of
        Establish c cb \<Rightarrow> s\<lparr>hm_calls := hm_calls s @ [(cb, reason, None)]\<rparr>
      | Pooled c \<Rightarrow> hm_post (Remove_Pending (con_key (hm_conns s c)) (op_id op)) s)"

definition hm_put_ops :: "pool_data async_base \<Rightarrow> http_pool \<Rightarrow> http_pool" where
  "hm_put_ops b s = s\<lparr>hm_ops := b\<rparr>"

interpretation pool: table_owner hm_ops hm_put_ops hm_onCancel
  by unfold_locales (simp_all add: hm_put_ops_def hm_onCancel_def hm_post_def split: pool_data.split)

definition hm_onTimer :: "time \<Rightarrow> http_pool \<Rightarrow> http_pool option" where
  "hm_onTimer ct s = onTimer hm_ops hm_put_ops hm_onCancel ct s"

end
