(* ===== verification/Sf_HttpContext.thy ===== *)
theory Sf_HttpContext
  imports Sf_HttpPool
begin

text \<open>
  \<open>HttpContext\<close> (\<open>libschnee/schnee/net/http/HttpContext.h\<close>, \<open>HttpContext.cpp\<close>): requests over the
  connections of the pool.  A request waits for a connection, writes itself to it, feeds what
  arrives to the parser of responses, and gives the connection back.

  A result callback of the user is a number, an empty one is \<open>None\<close>; the posted calls of them are
  \<open>hx_tasks\<close>, the calls made \<open>hx_answers\<close>, the writes to channels \<open>hx_writes\<close>, with the URL that was
  asked for and the connection written to.
\<close>

abbreviation (input) GET_OPERATION :: int where "GET_OPERATION \<equiv> 1"
abbreviation (input) HG_WAITCONNECT :: int where "HG_WAITCONNECT \<equiv> 1"
abbreviation (input) HG_RECEIVE :: int where "HG_RECEIVE \<equiv> 2"

text \<open>
  \<open>hg_response\<close>: whether the response was created; it is the destination of the parser then, whose
  \<open>hp_response\<close> is what the shared pointer points to.
\<close>

record get_op =
  hg_request :: "bytes option"
  hg_callback :: "nat option"
  hg_url :: url
  hg_con :: "nat option"
  hg_response :: bool
  hg_parser :: http_parser
  hg_finished :: bool

definition response_of :: "get_op \<Rightarrow> http_response option" where
  "response_of g = (if hg_response g then Some (hp_response (hg_parser g)) else None)"

record http_context =
  hx_ops :: "get_op async_base"
  hx_alloc :: nat
  hx_pool :: http_pool
  hx_tasks :: "(nat option \<times> error \<times> http_response option) list"
  hx_answers :: "(nat \<times> error \<times> http_response option) list"
  hx_writes :: "(url \<times> http_conn \<times> bytes) list"

definition hx_new :: http_context where
  "hx_new = \<lparr>hx_ops = ab_init, hx_alloc = 0, hx_pool = hm_new, hx_tasks = [], hx_answers = [], hx_writes = []\<rparr>"

definition hx_add :: "get_op aop \<Rightarrow> http_context \<Rightarrow> http_context" where
  "hx_add op s = s\<lparr>hx_ops := snd (addAsyncOp op (hx_ops s))\<rparr>"

subsection \<open>Starting a request\<close>

definition hx_request ::
  "http_env \<Rightarrow> http_request \<Rightarrow> int \<Rightarrow> nat option \<Rightarrow> http_context \<Rightarrow> http_context" where
  "hx_request E r timeOutMs cb s =
     (case genFreeId (hx_ops s) of (i, b) \<Rightarrow>
        let g = \<lparr>hg_request = Some (hr_result r), hg_callback = cb, hg_url = hr_url r, hg_con = None,
                 hg_response = False, hg_parser = hp_new (he_memory E), hg_finished = False\<rparr>;
            op = (new_op GET_OPERATION (regTimeOutMs (he_now E) timeOutMs) (hx_alloc s) g)
                   \<lparr>op_id := i, op_state := HG_WAITCONNECT\<rparr>;
            s1 = s\<lparr>hx_ops := b, hx_alloc := hx_alloc s + 1,
                   hx_pool := requestConnection E (hr_url r) timeOutMs i (hx_pool s)\<rparr>
        in hx_add op s1)"

definition hx_get :: "http_env \<Rightarrow> url \<Rightarrow> int \<Rightarrow> nat option \<Rightarrow> http_context \<Rightarrow> http_context" where
  "hx_get E u timeOutMs cb s = hx_request E (hr_end (hr_start ''GET'' u HTTP_11 hr_new)) timeOutMs cb s"

subsection \<open>Finishing one\<close>

text \<open>The input buffers of the parser and the connection change places.\<close>

definition swap_input :: "nat \<Rightarrow> get_op \<Rightarrow> http_context \<Rightarrow> get_op \<times> http_context" where
  "swap_input c g s =
     (let x = hm_conns (hx_pool s) c
      in (g\<lparr>hg_parser := (hg_parser g)\<lparr>hp_input := hc_inputBuffer x\<rparr>\<rparr>,
          s\<lparr>hx_pool := hm_set_conn c (x\<lparr>hc_inputBuffer := hp_input (hg_parser g)\<rparr>) (hx_pool s)\<rparr>))"

definition hx_finish :: "http_env \<Rightarrow> error \<Rightarrow> get_op \<Rightarrow> http_context \<Rightarrow> http_context outcome" where
  "hx_finish E result g s =
     (let s1 = s\<lparr>hx_tasks := hx_tasks s @ [(hg_callback g, result, response_of g)]\<rparr>;
          s2 = (case hg_con g of None \<Rightarrow> s1 | Some c \<Rightarrow> snd (swap_input c g s1))
      in outcome_bind (giveBack E result (hg_con g) (hx_pool s2)) (\<lambda>p. Done (s2\<lparr>hx_pool := p\<rparr>)))"

subsection \<open>A connection is there\<close>

definition hx_onConnect ::
  "http_env \<Rightarrow> error \<Rightarrow> nat option \<Rightarrow> int \<Rightarrow> http_context \<Rightarrow> http_context outcome" where
  "hx_onConnect E result con i s =
     (case getReadyAsyncOpInState i GET_OPERATION HG_WAITCONNECT (hx_ops s) of
        (None, b) \<Rightarrow> Done (s\<lparr>hx_ops := b\<rparr>)
      | (Some op, b) \<Rightarrow>
          let s1 = s\<lparr>hx_ops := b\<rparr>; g = op_data op
          in if failed result then hx_finish E result g s1
             else case con of
               None \<Rightarrow> Fault NullDeref
             | Some c \<Rightarrow>
                 let x = hm_conns (hx_pool s1) c;
                     s2 = s1\<lparr>hx_pool := hm_set_conn c (x\<lparr>hc_changed := Some (Watch_Context i)\<rparr>) (hx_pool s1)\<rparr>;
                     g1 = g\<lparr>hg_con := Some c, hg_response := True,
                            hg_parser := (hg_parser g)\<lparr>hp_response := rs_new\<lparr>rs_authenticated := he_authenticated E c\<rparr>\<rparr>\<rparr>;
                     (g2, s3) = swap_input c g1 s2
                 in case hg_request g2 of
                      None \<Rightarrow> Fault NullDeref
                    | Some bytes \<Rightarrow>
                        let e = he_write E c bytes;
                            s4 = s3\<lparr>hx_writes := hx_writes s3 @ [(hg_url g2, hm_conns (hx_pool s3) c, bytes)]\<rparr>;
                            g3 = g2\<lparr>hg_request := None\<rparr>
                        in if failed e then hx_finish E e g3 s4
                           else Done (hx_add (op\<lparr>op_state := HG_RECEIVE, op_data := g3\<rparr>) s4))"

subsection \<open>The channel of a request changed\<close>

text \<open>\<open>None\<close>: the parser does not come to an end.\<close>

definition hx_onChanged :: "http_env \<Rightarrow> int \<Rightarrow> http_context \<Rightarrow> http_context outcome option" where
  "hx_onChanged E i s =
     (case getReadyAsyncOpInState i GET_OPERATION HG_RECEIVE (hx_ops s) of
        (None, b) \<Rightarrow> Some (Done (s\<lparr>hx_ops := b\<rparr>))
      | (Some op, b) \<Rightarrow>
          let s1 = s\<lparr>hx_ops := b\<rparr>; g = op_data op
          in if hg_finished g then Some (Done (hx_add op s1))
             else case hg_con g of
               None \<Rightarrow> Some (Fault NullDeref)
             | Some c \<Rightarrow>
                 let x = hm_conns (hx_pool s1) c;
                     s2 = s1\<lparr>hx_pool := hm_set_conn c (x\<lparr>hc_in := []\<rparr>) (hx_pool s1)\<rparr>
                 in if hc_in x \<noteq> [] then
                      (case hp_push (he_nat E) (hc_in x) (hg_parser g) of
                         None \<Rightarrow> None
                       | Some (Fault f) \<Rightarrow> Some (Fault f)
                       | Some (Done p) \<Rightarrow>
                           let g1 = g\<lparr>hg_parser := p\<rparr>
                           in if hp_ready p then Some (hx_finish E (hp_result p) g1 s2)
                              else Some (Done (hx_add (op\<lparr>op_data := g1\<rparr>) s2)))
                    else if failed (hc_error x) then Some (hx_finish E (hc_error x) g s2)
                    else Some (Done (hx_add op s2)))"

definition hx_onCancel :: "error \<Rightarrow> get_op aop \<Rightarrow> http_context \<Rightarrow> http_context" where
  "hx_onCancel reason op s =
     (case hg_callback (op_data op) of
        None \<Rightarrow> s
      | Some n \<Rightarrow> s\<lparr>hx_answers := hx_answers s @ [(n, reason, response_of (op_data op))]\<rparr>)"

definition hx_put_ops :: "get_op async_base \<Rightarrow> http_context \<Rightarrow> http_context" where
  "hx_put_ops b s = s\<lparr>hx_ops := b\<rparr>"

interpretation context_ops: table_owner hx_ops hx_put_ops hx_onCancel
  by unfold_locales (simp_all add: hx_put_ops_def hx_onCancel_def split: option.split)

definition hx_onTimer :: "time \<Rightarrow> http_context \<Rightarrow> http_context option" where
  "hx_onTimer ct s = onTimer hx_ops hx_put_ops hx_onCancel ct s"

subsection \<open>The calls of the main loop\<close>

text \<open>
  The first call that was posted: of a user's callback (calling an empty one is an exception that
  nobody catches), or one of the pool's.
\<close>

definition hx_runTask :: "http_context \<Rightarrow> http_context outcome" where
  "hx_runTask s =
     (case hx_tasks s of
        [] \<Rightarrow> Done s
      | (None, e, r) # ts \<Rightarrow> Fault NullDeref
      | (Some n, e, r) # ts \<Rightarrow> Done (s\<lparr>hx_tasks := ts, hx_answers := hx_answers s @ [(n, e, r)]\<rparr>))"

definition hx_runPoolTask :: "http_env \<Rightarrow> http_context \<Rightarrow> http_context outcome" where
  "hx_runPoolTask E s =
     (let p = hx_pool s
      in case hm_tasks p of
           [] \<Rightarrow> Done s
         | t # ts \<Rightarrow>
             let s1 = s\<lparr>hx_pool := p\<lparr>hm_tasks := ts\<rparr>\<rparr>
             in case t of
                  Call_Back i e con \<Rightarrow> hx_onConnect E e con i s1
                | Throw_Away c \<Rightarrow> Done s1
                | Remove_Pending k i \<Rightarrow>
                    Done (s1\<lparr>hx_pool := removeFromPendingConnectionsExplicit k i (hx_pool s1)\<rparr>))"

text \<open>The calls that \<open>onCancel\<close> of the pool's operations makes.\<close>

fun hx_runCalls ::
  "http_env \<Rightarrow> (int \<times> error \<times> nat option) list \<Rightarrow> http_context \<Rightarrow> http_context outcome" where
  "hx_runCalls E [] s = Done s"
| "hx_runCalls E ((i, e, con) # calls) s = outcome_bind (hx_onConnect E e con i s) (hx_runCalls E calls)"

definition hx_poolTimer :: "http_env \<Rightarrow> time \<Rightarrow> http_context \<Rightarrow> http_context outcome option" where
  "hx_poolTimer E ct s =
     (case hm_onTimer ct (hx_pool s) of
        None \<Rightarrow> None
      | Some p \<Rightarrow> Some (hx_runCalls E (hm_calls p) (s\<lparr>hx_pool := p\<lparr>hm_calls := []\<rparr>\<rparr>)))"

text \<open>A socket or TLS channel calls back.\<close>

definition hx_await :: "http_env \<Rightarrow> error \<Rightarrow> pool_await \<Rightarrow> http_pool \<Rightarrow> http_pool outcome" where
  "hx_await E e a p =
     (case a of Await_Tcp i \<Rightarrow> hm_onTcpConnect E e i p | Await_Tls i \<Rightarrow> hm_onTlsHandshake e i p)"

text \<open>Something arrives on a channel, or it fails; then its delegate is called.\<close>

definition hx_channel ::
  "http_env \<Rightarrow> nat \<Rightarrow> bytes \<Rightarrow> error \<Rightarrow> http_context \<Rightarrow> http_context outcome option" where
  "hx_channel E c bytes e s =
     (let x = hm_conns (hx_pool s) c;
          s1 = s\<lparr>hx_pool := hm_set_conn c (x\<lparr>hc_in := hc_in x @ bytes, hc_error := e\<rparr>) (hx_pool s)\<rparr>
      in case hc_changed x of
           None \<Rightarrow> Some (Done s1)
         | Some (Watch_Pool i) \<Rightarrow> Some (Done (s1\<lparr>hx_pool := hm_onChannelChange i (hx_pool s1)\<rparr>))
         | Some (Watch_Context i) \<Rightarrow> hx_onChanged E i s1)"

subsection \<open>Runs\<close>

text \<open>
  \<open>http_run E s cbs s'\<close>: a run from \<open>s\<close> to \<open>s'\<close> in which requests were made with the callbacks \<open>cbs\<close>,
  each step at a time of its own.
\<close>

definition http_at :: "int \<Rightarrow> http_env \<Rightarrow> http_env" where
  "http_at now E = E\<lparr>he_now := now\<rparr>"

inductive http_step :: "http_env \<Rightarrow> http_context \<Rightarrow> nat list \<Rightarrow> http_context \<Rightarrow> bool"
  for E :: http_env where
  http_request: "http_step E s (case cb of None \<Rightarrow> [] | Some n \<Rightarrow> [n]) (hx_request (http_at now E) r ms cb s)"
| http_task: "hx_runTask s = Done s' \<Longrightarrow> http_step E s [] s'"
| http_pool_task: "hx_runPoolTask (http_at now E) s = Done s' \<Longrightarrow> http_step E s [] s'"
| http_await: "hm_awaits (hx_pool s) = xs @ a # ys \<Longrightarrow>
     hx_await (http_at now E) e a ((hx_pool s)\<lparr>hm_awaits := xs @ ys\<rparr>) = Done p \<Longrightarrow>
     http_step E s [] (s\<lparr>hx_pool := p\<rparr>)"
| http_channel: "hx_channel (http_at now E) c bytes e s = Some (Done s') \<Longrightarrow> http_step E s [] s'"
| http_timer: "hx_onTimer ct s = Some s' \<Longrightarrow> http_step E s [] s'"
| http_pool_timer: "hx_poolTimer (http_at now E) ct s = Some (Done s') \<Longrightarrow> http_step E s [] s'"

inductive http_run :: "http_env \<Rightarrow> http_context \<Rightarrow> nat list \<Rightarrow> http_context \<Rightarrow> bool"
  for E :: http_env where
  http_refl: "http_run E s [] s"
| http_step: "http_run E s cbs s' \<Longrightarrow> http_step E s' new s'' \<Longrightarrow> http_run E s (cbs @ new) s''"

end
