(* ===== verification/Sf_HttpPoolInv.thy ===== *)
theory Sf_HttpPoolInv
  imports Sf_HttpContext
begin

text \<open>
  The invariant of the pool of \<open>net/http/impl/HttpConnectionManager.cpp\<close> and its preservation by
  every operation: the lists of pooled connections and their count agree with the operations,
  every connection is held in one place only, every callback that was given to the pool is kept
  until it is called, and it is called with a connection to the host that was asked for.
\<close>

subsection \<open>The lists of pooled connections\<close>

definition listed :: "(con_id, int list) smap \<Rightarrow> int multiset" where
  "listed m = (\<Sum>p \<in># mset m. mset (snd p))"

definition ids_of :: "con_id \<Rightarrow> (con_id, int list) smap \<Rightarrow> int list" where
  "ids_of k m = (case map_of m k of None \<Rightarrow> [] | Some ids \<Rightarrow> ids)"

lemma sm_less_None: "\<forall>j \<in> fst ` set m. (k::'k::linorder) < j \<Longrightarrow> map_of m k = None"
  by (auto simp: map_of_eq_None_iff)

lemma listed_insert:
  assumes "sm_ok m"
  shows "listed (sm_insert k ids m) + mset (ids_of k m) = listed m + mset ids"
  using assms
proof (induction k ids m rule: sm_insert.induct)
  case (2 k ids k' ids' m)
  then show ?case
    using sm_less_None [of m k'] by (auto simp: listed_def ids_of_def less_trans sm_less_None split: option.splits)
qed (simp add: listed_def ids_of_def)

lemma listed_erase:
  assumes "sm_ok m"
  shows "listed (sm_erase k m) + mset (ids_of k m) = listed m"
  using assms
proof (induction m)
  case (Cons p m)
  obtain k' ids where p: "p = (k', ids)" by (cases p)
  show ?case
  proof (cases "k' = k")
    case True
    then have "map_of m k = None" using Cons.prems p by (auto intro: sm_less_None)
    then show ?thesis using True p by (simp add: listed_def ids_of_def sm_erase_def sm_erase_absent [unfolded sm_erase_def])
  next
    case False
    then show ?thesis using Cons p by (simp add: listed_def ids_of_def sm_erase_def)
  qed
qed (simp add: listed_def ids_of_def)

lemma in_listed:
  assumes "sm_ok m"
  shows "i \<in># listed m \<longleftrightarrow> (\<exists>k. i \<in> set (ids_of k m))"
  using assms
proof (induction m)
  case (Cons p m)
  obtain k ids where p: "p = (k, ids)" by (cases p)
  have none: "map_of m k = None" using Cons.prems p by (auto intro: sm_less_None)
  have "i \<in># listed (p # m) \<longleftrightarrow> i \<in> set ids \<or> (\<exists>j. i \<in> set (ids_of j m))"
    using Cons p by (simp add: listed_def)
  moreover have "ids_of j (p # m) = (if j = k then ids else ids_of j m)" for j
    using p by (auto simp: ids_of_def)
  moreover have "ids_of k m = []" using none by (simp add: ids_of_def)
  ultimately show ?case by (metis empty_iff empty_set)
qed (simp add: listed_def ids_of_def)

lemma ids_of_update [simp]:
  "ids_of j (sm_insert k ids m) = (if j = k then ids else ids_of j m)"
  "ids_of j (sm_erase k m) = (if j = k then [] else ids_of j m)"
  by (simp_all add: ids_of_def)

text \<open>Each id is listed once, under one key.\<close>

definition lists_ok :: "(con_id, int list) smap \<Rightarrow> bool" where
  "lists_ok m \<longleftrightarrow> sm_ok m \<and> (\<forall>i. count (listed m) i \<le> 1)"

lemma lists_okD: "lists_ok m \<Longrightarrow> sm_ok m" "lists_ok m \<Longrightarrow> count (listed m) i \<le> 1"
  by (simp_all add: lists_ok_def)

lemma ids_of_subset: "sm_ok m \<Longrightarrow> mset (ids_of k m) \<subseteq># listed m"
  using listed_erase [of m k] by (metis mset_subset_eq_add_right)

lemma listed_once:
  assumes "lists_ok m" and "i \<in> set (ids_of k m)" and "i \<in> set (ids_of j m)"
  shows "j = k"
proof (rule ccontr)
  assume "j \<noteq> k"
  note sm = lists_okD(1) [OF assms(1)]
  have "mset (ids_of j (sm_erase k m)) \<subseteq># listed (sm_erase k m)" by (rule ids_of_subset) (use sm in simp)
  then have "i \<in># listed (sm_erase k m)" using assms(3) \<open>j \<noteq> k\<close> by (auto dest: mset_subset_eqD)
  moreover have "i \<in># mset (ids_of k m)" using assms(2) by simp
  ultimately have "2 \<le> count (listed m) i"
    unfolding listed_erase [OF sm, of k, symmetric] count_union
    by (metis One_nat_def Suc_1 Suc_leI add_mono count_greater_zero_iff one_add_one)
  with lists_okD(2) [OF assms(1), of i] show False by simp
qed

lemma ids_of_distinct: "lists_ok m \<Longrightarrow> distinct (ids_of k m)"
proof -
  assume ok: "lists_ok m"
  have "count (mset (ids_of k m)) i \<le> 1" for i
    using mset_subset_eq_count [OF ids_of_subset [OF lists_okD(1) [OF ok], of k], of i] lists_okD(2) [OF ok, of i] by simp
  then show ?thesis by (auto simp: distinct_count_atmost_1 le_Suc_eq)
qed

lemma lists_ok_shrink:
  assumes "lists_ok m" and "mset ids \<subseteq># mset (ids_of k m)"
  shows "lists_ok (sm_insert k ids m)"
    "listed (sm_insert k ids m) + (mset (ids_of k m) - mset ids) = listed m"
proof -
  note sm = lists_okD(1) [OF assms(1)]
  have eq: "mset (ids_of k m) = mset ids + (mset (ids_of k m) - mset ids)" using assms(2) by simp
  show sum: "listed (sm_insert k ids m) + (mset (ids_of k m) - mset ids) = listed m"
  proof -
    have "listed (sm_insert k ids m) + (mset (ids_of k m) - mset ids) + mset ids = listed m + mset ids"
      using listed_insert [OF sm, of k ids] eq by (metis union_assoc union_commute)
    then show ?thesis by (rule add_right_imp_eq)
  qed
  have "count (listed (sm_insert k ids m)) i \<le> 1" for i
    using lists_okD(2) [OF assms(1), of i] by (simp flip: sum)
  then show "lists_ok (sm_insert k ids m)" using sm by (simp add: lists_ok_def)
qed

lemma lists_ok_erase:
  assumes "lists_ok m"
  shows "lists_ok (sm_erase k m)"
proof -
  have "count (listed (sm_erase k m)) i \<le> 1" for i
    using lists_okD(2) [OF assms, of i] by (simp flip: listed_erase [OF lists_okD(1) [OF assms], of k])
  then show ?thesis using lists_okD(1) [OF assms] by (simp add: lists_ok_def)
qed

lemma lists_ok_append:
  assumes "lists_ok m" and "i \<notin># listed m"
  shows "lists_ok (sm_insert k (ids_of k m @ [i]) m)"
    "listed (sm_insert k (ids_of k m @ [i]) m) = add_mset i (listed m)"
proof -
  note sm = lists_okD(1) [OF assms(1)]
  show sum: "listed (sm_insert k (ids_of k m @ [i]) m) = add_mset i (listed m)"
    using listed_insert [OF sm, of k "ids_of k m @ [i]"] by simp
  have "count (add_mset i (listed m)) j \<le> 1" for j
    using lists_okD(2) [OF assms(1), of j] assms(2) by (auto simp: not_in_iff)
  then show "lists_ok (sm_insert k (ids_of k m @ [i]) m)" using sm by (simp add: lists_ok_def sum)
qed

subsection \<open>The invariant\<close>

fun await_id :: "pool_await \<Rightarrow> int" where
  "await_id (Await_Tcp i) = i"
| "await_id (Await_Tls i) = i"

fun await_state :: "pool_await \<Rightarrow> int" where
  "await_state (Await_Tcp i) = WAIT_TCP_CONNECT"
| "await_state (Await_Tls i) = WAIT_TLS"

text \<open>A connection to an https server is encrypted when it is used.\<close>

definition secure :: "http_conn \<Rightarrow> bool" where
  "secure x \<longleftrightarrow> (hc_protocol x = ''https'' \<longrightarrow> hc_tls x)"

text \<open>
  \<open>W\<close>: for which server a requester wants a connection.  \<open>X\<close>: connections held outside of the pool.
\<close>

definition data_ok :: "(int \<Rightarrow> con_id) \<Rightarrow> http_pool \<Rightarrow> pool_data aop \<Rightarrow> bool" where
  "data_ok W s op \<longleftrightarrow>
     (case op_data op of
        Establish c cb \<Rightarrow> op_type op = 1 \<and> con_key (hm_conns s c) = W cb \<and>
          (op_state op = 1 \<or> op_state op = 2 \<and> secure (hm_conns s c))
      | Pooled c \<Rightarrow> op_type op = 2 \<and> secure (hm_conns s c) \<and>
          op_id op \<in> set (ids_of (con_key (hm_conns s c)) (hm_pending s)))"

definition placed :: "(int \<Rightarrow> con_id) \<Rightarrow> http_pool \<Rightarrow> pool_data aop \<Rightarrow> bool" where
  "placed W s op \<longleftrightarrow> op_addr op < hm_alloc s \<and> data_ok W s op \<and>
     (\<forall>a \<in> set (hm_awaits s). await_id a = op_id op \<longrightarrow> op_type op = 1 \<and> await_state a = op_state op) \<and>
     (\<forall>k. op_id op \<in> set (ids_of k (hm_pending s)) \<longrightarrow>
        op_type op = 2 \<and> k = con_key (hm_conns s (pd_connection (op_data op)))) \<and>
     (\<forall>c. hc_changed (hm_conns s c) = Some (Watch_Pool (op_id op)) \<longrightarrow> op_type op = 2) \<and>
     (\<forall>k. Remove_Pending k (op_id op) \<notin> set (hm_tasks s))"

definition task_ok :: "(int \<Rightarrow> con_id) \<Rightarrow> http_pool \<Rightarrow> pool_task \<Rightarrow> bool" where
  "task_ok W s t \<longleftrightarrow>
     (case t of
        Call_Back cb e con \<Rightarrow>
          (case con of None \<Rightarrow> failed e
           | Some c \<Rightarrow> e = NoError \<and> con_key (hm_conns s c) = W cb \<and> secure (hm_conns s c))
      | Throw_Away c \<Rightarrow> True
      | Remove_Pending k i \<Rightarrow> i < ab_nextId (hm_ops s))"

fun task_conns :: "pool_task \<Rightarrow> nat multiset" where
  "task_conns (Call_Back cb e (Some c)) = {#c#}"
| "task_conns _ = {#}"

fun task_tokens :: "pool_task \<Rightarrow> int multiset" where
  "task_tokens (Call_Back cb e con) = {#cb#}"
| "task_tokens _ = {#}"

fun data_tokens :: "pool_data \<Rightarrow> int multiset" where
  "data_tokens (Establish c cb) = {#cb#}"
| "data_tokens (Pooled c) = {#}"

definition pool_conns :: "http_pool \<Rightarrow> nat multiset" where
  "pool_conns s = image_mset (\<lambda>op. pd_connection (op_data op)) (mset (ab_ops (hm_ops s))) +
     (\<Sum>t \<in># mset (hm_tasks s). task_conns t)"

text \<open>The callbacks the pool owes.\<close>

definition pool_tokens :: "http_pool \<Rightarrow> int multiset" where
  "pool_tokens s = (\<Sum>op \<in># mset (ab_ops (hm_ops s)). data_tokens (op_data op)) +
     (\<Sum>t \<in># mset (hm_tasks s). task_tokens t) + mset (map fst (hm_calls s))"

definition pool_lists :: "http_pool \<Rightarrow> bool" where
  "pool_lists s \<longleftrightarrow> lists_ok (hm_pending s) \<and> hm_count s = int (size (listed (hm_pending s))) \<and>
     (\<forall>i \<in># listed (hm_pending s). i < ab_nextId (hm_ops s))"

definition pool_waits :: "http_pool \<Rightarrow> bool" where
  "pool_waits s \<longleftrightarrow> distinct (map await_id (hm_awaits s)) \<and>
     (\<forall>a \<in> set (hm_awaits s). await_id a < ab_nextId (hm_ops s)) \<and>
     (\<forall>c i. hc_changed (hm_conns s c) = Some (Watch_Pool i) \<longrightarrow> i < ab_nextId (hm_ops s))"

definition pool_apart :: "nat multiset \<Rightarrow> http_pool \<Rightarrow> bool" where
  "pool_apart X s \<longleftrightarrow> (\<forall>c. count (pool_conns s + X) c \<le> 1) \<and> (\<forall>c \<in># pool_conns s + X. c < hm_next s)"

definition pool_core :: "(int \<Rightarrow> con_id) \<Rightarrow> nat multiset \<Rightarrow> http_pool \<Rightarrow> bool" where
  "pool_core W X s \<longleftrightarrow> pool_lists s \<and> pool_waits s \<and> pool_apart X s \<and>
     (\<forall>t \<in> set (hm_tasks s). task_ok W s t) \<and> (\<forall>(cb, e, con) \<in> set (hm_calls s). failed e \<and> con = None)"

definition pool_inv :: "(int \<Rightarrow> con_id) \<Rightarrow> nat multiset \<Rightarrow> http_pool \<Rightarrow> bool" where
  "pool_inv W X s \<longleftrightarrow> ab_ok (hm_ops s) \<and> (\<forall>op \<in> set (ab_ops (hm_ops s)). placed W s op) \<and> pool_core W X s"

text \<open>What a requester may rely on for the connections it holds.\<close>

definition pool_frame :: "nat multiset \<Rightarrow> http_pool \<Rightarrow> http_pool \<Rightarrow> bool" where
  "pool_frame X s s' \<longleftrightarrow>
     (\<forall>c \<in># X. con_key (hm_conns s' c) = con_key (hm_conns s c) \<and> hc_tls (hm_conns s' c) = hc_tls (hm_conns s c)) \<and>
     (\<forall>c i. hc_changed (hm_conns s' c) = Some (Watch_Context i) \<longrightarrow> hc_changed (hm_conns s c) = Some (Watch_Context i))"

lemma pool_frame_refl [simp, intro]: "pool_frame X s s"
  by (simp add: pool_frame_def)

lemma pool_frame_trans: "pool_frame X s t \<Longrightarrow> pool_frame X t u \<Longrightarrow> pool_frame X s u"
  by (auto simp: pool_frame_def)

lemma pool_frame_conns: "hm_conns s' = hm_conns s \<Longrightarrow> pool_frame X s s'"
  by (simp add: pool_frame_def)

text \<open>What an operation does: the invariant with its effect on the callbacks owed.\<close>

definition pool_to ::
  "(int \<Rightarrow> con_id) \<Rightarrow> nat multiset \<Rightarrow> int multiset \<Rightarrow> http_pool \<Rightarrow> http_pool \<Rightarrow> bool" where
  "pool_to W X T s s' \<longleftrightarrow> pool_inv W X s' \<and> pool_tokens s' = T \<and> pool_frame X s s'"

lemma placedD:
  assumes "placed W s op"
  shows "op_addr op < hm_alloc s" "data_ok W s op"
    "a \<in> set (hm_awaits s) \<Longrightarrow> await_id a = op_id op \<Longrightarrow> op_type op = 1"
    "a \<in> set (hm_awaits s) \<Longrightarrow> await_id a = op_id op \<Longrightarrow> op_state op = await_state a"
    "op_id op \<in> set (ids_of k (hm_pending s)) \<Longrightarrow> op_type op = 2"
    "op_id op \<in> set (ids_of k (hm_pending s)) \<Longrightarrow> con_key (hm_conns s (pd_connection (op_data op))) = k"
    "hc_changed (hm_conns s c) = Some (Watch_Pool (op_id op)) \<Longrightarrow> op_type op = 2"
    "Remove_Pending k (op_id op) \<notin> set (hm_tasks s)"
  using assms unfolding placed_def by (blast, blast, blast, metis, blast, blast, blast, blast)

lemma placed_mono:
  assumes pl: "placed W s op" and "hm_alloc s \<le> hm_alloc s'" "set (hm_awaits s') \<subseteq> set (hm_awaits s)"
    "hm_pending s' = hm_pending s" "set (hm_tasks s') \<subseteq> set (hm_tasks s)"
    and conns: "\<And>c. con_key (hm_conns s' c) = con_key (hm_conns s c)"
    "\<And>c. secure (hm_conns s c) \<Longrightarrow> secure (hm_conns s' c)"
    "\<And>c. hc_changed (hm_conns s' c) = hc_changed (hm_conns s c)"
  shows "placed W s' op"
proof -
  have "data_ok W s' op"
    using placedD(2) [OF pl] unfolding data_ok_def assms(4) conns(1) by (cases "op_data op") (auto intro: conns(2))
  then show ?thesis
    using pl assms(2,3,5) unfolding placed_def assms(4) conns(1,3) by (meson less_le_trans subsetD)
qed

subsection \<open>Taking an operation and putting it back\<close>

lemma pool_invD:
  assumes "pool_inv W X s"
  shows "ab_ok (hm_ops s)" "ab_wf (hm_ops s)" "op \<in> set (ab_ops (hm_ops s)) \<Longrightarrow> placed W s op" "pool_core W X s"
    "pool_lists s" "pool_waits s" "pool_apart X s"
  using assms by (auto simp: pool_inv_def ab_ok_def pool_core_def)

text \<open>The table is all that changes, and the ids given out.\<close>

lemma pool_core_table:
  assumes "pool_core W X s" and "ab_nextId (hm_ops s) \<le> ab_nextId b"
    and "image_mset (\<lambda>op. pd_connection (op_data op)) (mset (ab_ops b)) + Y =
       image_mset (\<lambda>op. pd_connection (op_data op)) (mset (ab_ops (hm_ops s))) + X"
    and "n \<ge> hm_alloc s"
  shows "pool_core W Y (s\<lparr>hm_ops := b, hm_alloc := n\<rparr>)"
proof -
  have "pool_conns (s\<lparr>hm_ops := b, hm_alloc := n\<rparr>) + Y = pool_conns s + X"
    using assms(3) by (simp add: pool_conns_def ac_simps)
  then have "pool_apart Y (s\<lparr>hm_ops := b, hm_alloc := n\<rparr>)"
    using assms(1) unfolding pool_core_def pool_apart_def by simp
  moreover have "pool_lists (s\<lparr>hm_ops := b, hm_alloc := n\<rparr>)"
    using assms(1,2) by (auto simp: pool_core_def pool_lists_def)
  moreover have "pool_waits (s\<lparr>hm_ops := b, hm_alloc := n\<rparr>)"
    using assms(1,2) by (simp add: pool_core_def pool_waits_def) (meson less_le_trans)
  moreover have "task_ok W s t \<Longrightarrow> task_ok W (s\<lparr>hm_ops := b, hm_alloc := n\<rparr>) t" for t
    using assms(2) by (auto simp: task_ok_def split: pool_task.splits option.splits)
  ultimately show ?thesis using assms(1) by (simp add: pool_core_def)
qed

lemma task_ok_cong:
  "hm_conns s' = hm_conns s \<Longrightarrow> ab_nextId (hm_ops s') = ab_nextId (hm_ops s) \<Longrightarrow> task_ok W s' t \<longleftrightarrow> task_ok W s t"
  by (simp add: task_ok_def cong: pool_task.case_cong option.case_cong)

lemma data_ok_cong:
  "hm_conns s' = hm_conns s \<Longrightarrow> hm_pending s' = hm_pending s \<Longrightarrow> data_ok W s' op \<longleftrightarrow> data_ok W s op"
  by (simp add: data_ok_def cong: pool_data.case_cong)

lemma hm_post_fields [simp]:
  "hm_ops (hm_post t s) = hm_ops s" "hm_alloc (hm_post t s) = hm_alloc s" "hm_conns (hm_post t s) = hm_conns s"
  "hm_next (hm_post t s) = hm_next s" "hm_pending (hm_post t s) = hm_pending s" "hm_count (hm_post t s) = hm_count s"
  "hm_awaits (hm_post t s) = hm_awaits s" "hm_tasks (hm_post t s) = hm_tasks s @ [t]" "hm_calls (hm_post t s) = hm_calls s"
  by (simp_all add: hm_post_def)

lemma placed_table [simp]: "placed W (s\<lparr>hm_ops := b\<rparr>) op \<longleftrightarrow> placed W s op"
  by (simp add: placed_def data_ok_def split: pool_data.split)

lemma pool_take:
  assumes inv: "pool_inv W X s" and look: "map_of (ab_map (hm_ops s)) i = Some op"
  shows "pool_inv W (add_mset (pd_connection (op_data op)) X) (s\<lparr>hm_ops := ab_remove op i (hm_ops s)\<rparr>)"
    "pool_tokens s = pool_tokens (s\<lparr>hm_ops := ab_remove op i (hm_ops s)\<rparr>) + data_tokens (op_data op)"
    "placed W s op" "op_id op = i" "0 < i" "i < ab_nextId (hm_ops s)"
    "op_addr op \<notin> op_addr ` set (ab_ops (ab_remove op i (hm_ops s)))"
    "map_of (ab_map (ab_remove op i (hm_ops s))) i = None"
proof -
  note wf = pool_invD(2) [OF inv]
  from ab_wf_mapD [OF wf look] have op: "op \<in> set (ab_ops (hm_ops s))" by simp
  from ab_wf_mapD [OF wf look] show "op_id op = i" "0 < i" "i < ab_nextId (hm_ops s)" by simp_all
  show "placed W s op" by (rule pool_invD(3) [OF inv op])
  note bag = mset_ab_remove [OF wf look] and rm = ab_remove_props [OF wf look]
  show "pool_tokens s = pool_tokens (s\<lparr>hm_ops := ab_remove op i (hm_ops s)\<rparr>) + data_tokens (op_data op)"
    using bag by (simp add: pool_tokens_def)
  have "pool_core W (add_mset (pd_connection (op_data op)) X) (s\<lparr>hm_ops := ab_remove op i (hm_ops s), hm_alloc := hm_alloc s\<rparr>)"
    using bag rm(5) by (intro pool_core_table [OF pool_invD(4) [OF inv]]) simp_all
  then have core: "pool_core W (add_mset (pd_connection (op_data op)) X) (s\<lparr>hm_ops := ab_remove op i (hm_ops s)\<rparr>)" by simp
  show "pool_inv W (add_mset (pd_connection (op_data op)) X) (s\<lparr>hm_ops := ab_remove op i (hm_ops s)\<rparr>)"
    unfolding pool_inv_def
    using ab_remove_ok [OF pool_invD(1) [OF inv] look] core pool_invD(3) [OF inv] rm(2) by auto
  show "op_addr op \<notin> op_addr ` set (ab_ops (ab_remove op i (hm_ops s)))"
    using ab_wf_addrD [OF wf] op rm(2) by (auto simp: distinct_map inj_on_def)
  show "map_of (ab_map (ab_remove op i (hm_ops s))) i = None" using rm(3) by simp
qed

lemma pool_put:
  assumes inv: "pool_inv W (add_mset (pd_connection (op_data op)) X) s" and placed: "placed W s op"
    and id: "0 < op_id op" "op_id op < ab_nextId (hm_ops s)" "map_of (ab_map (hm_ops s)) (op_id op) = None"
    and addr: "op_addr op \<notin> op_addr ` set (ab_ops (hm_ops s))"
  shows "pool_inv W X (hm_add op s)" "pool_tokens (hm_add op s) = pool_tokens s + data_tokens (op_data op)"
    "hm_conns (hm_add op s) = hm_conns s"
proof -
  have fresh: "op_fresh op (hm_ops s)" using id addr by (simp add: op_fresh_def)
  obtain j b where add: "addAsyncOp op (hm_ops s) = (j, b)" by fastforce
  have nz: "op_id op \<noteq> 0" using id(1) by simp
  note bag = mset_addAsyncOp [OF fresh nz, unfolded add snd_conv]
  have okb: "ab_ok b" by (rule addAsyncOp_ok [OF pool_invD(1) [OF inv] fresh add])
  have res: "hm_add op s = s\<lparr>hm_ops := b\<rparr>" using add by (simp add: hm_add_def)
  have "pool_core W X (s\<lparr>hm_ops := b, hm_alloc := hm_alloc s\<rparr>)"
    using bag by (intro pool_core_table [OF pool_invD(4) [OF inv]]) simp_all
  then have core: "pool_core W X (s\<lparr>hm_ops := b\<rparr>)" by simp
  have "set (ab_ops b) = insert op (set (ab_ops (hm_ops s)))" using bag(1) by (metis set_mset_add_mset_insert set_mset_mset)
  then show "pool_inv W X (hm_add op s)"
    using core okb placed pool_invD(3) [OF inv] by (auto simp: res pool_inv_def)
  show "pool_tokens (hm_add op s) = pool_tokens s + data_tokens (op_data op)" using bag(1) by (simp add: res pool_tokens_def)
  show "hm_conns (hm_add op s) = hm_conns s" by (simp add: res)
qed

lemma pool_drop:
  assumes "pool_inv W (Y + X) s"
  shows "pool_inv W X s"
proof -
  have "count (pool_conns s + X) c \<le> count (pool_conns s + (Y + X)) c" for c by simp
  moreover note pool_invD(7) [OF assms]
  ultimately have "pool_apart X s" unfolding pool_apart_def by (meson le_trans mset_subset_eq_add_right union_iff)
  with assms show ?thesis by (simp add: pool_inv_def pool_core_def)
qed

lemma held_once:
  assumes "pool_inv W (add_mset c X) s"
  shows "c \<notin># X"
proof
  assume "c \<in># X"
  then have "2 \<le> count (pool_conns s + add_mset c X) c" by (simp add: Suc_le_eq)
  moreover have "count (pool_conns s + add_mset c X) c \<le> 1" using pool_invD(7) [OF assms] unfolding pool_apart_def by blast
  ultimately show False by linarith
qed

text \<open>Posted calls.\<close>

lemma pool_post:
  assumes inv: "pool_inv W (task_conns t + X) s" and t: "task_ok W s t"
    and rm: "\<And>k op. op \<in> set (ab_ops (hm_ops s)) \<Longrightarrow> t \<noteq> Remove_Pending k (op_id op)"
  shows "pool_inv W X (hm_post t s)" "pool_tokens (hm_post t s) = pool_tokens s + task_tokens t"
proof -
  have "pool_conns (hm_post t s) + X = pool_conns s + (task_conns t + X)" by (simp add: pool_conns_def)
  then have "pool_apart X (hm_post t s)"
    using pool_invD(7) [OF inv] unfolding pool_apart_def hm_post_fields by presburger
  moreover have "task_ok W (hm_post t s) u = task_ok W s u" for u by (rule task_ok_cong) simp_all
  moreover have "placed W (hm_post t s) op" if "op \<in> set (ab_ops (hm_ops s))" for op
    using pool_invD(3) [OF inv that] rm [OF that] data_ok_cong [of "hm_post t s" s W op]
    by (simp add: placed_def) blast
  ultimately show "pool_inv W X (hm_post t s)"
    using inv t by (simp add: pool_inv_def pool_core_def pool_lists_def pool_waits_def)
  show "pool_tokens (hm_post t s) = pool_tokens s + task_tokens t" by (simp add: pool_tokens_def)
qed

text \<open>The first call that was posted is run.\<close>

lemma pool_run:
  assumes inv: "pool_inv W X s" and ts: "hm_tasks s = t # ts"
  shows "pool_inv W (task_conns t + X) (s\<lparr>hm_tasks := ts\<rparr>)"
    "pool_tokens s = pool_tokens (s\<lparr>hm_tasks := ts\<rparr>) + task_tokens t" "task_ok W (s\<lparr>hm_tasks := ts\<rparr>) t"
proof -
  let ?s = "s\<lparr>hm_tasks := ts\<rparr>"
  have "pool_conns s + X = pool_conns ?s + (task_conns t + X)" by (simp add: pool_conns_def ts)
  moreover have "hm_next ?s = hm_next s" by simp
  ultimately have "pool_apart (task_conns t + X) ?s"
    using pool_invD(7) [OF inv] unfolding pool_apart_def by presburger
  moreover have task: "task_ok W ?s u = task_ok W s u" for u by (rule task_ok_cong) simp_all
  moreover have "placed W ?s op" if "op \<in> set (ab_ops (hm_ops s))" for op
    using pool_invD(3) [OF inv that] data_ok_cong [of ?s s W op] by (simp add: placed_def ts)
  ultimately show "pool_inv W (task_conns t + X) ?s"
    using inv by (simp add: pool_inv_def pool_core_def pool_lists_def pool_waits_def ts)
  show "pool_tokens s = pool_tokens ?s + task_tokens t" by (simp add: pool_tokens_def ts)
  show "task_ok W ?s t" using inv by (simp add: task pool_inv_def pool_core_def ts)
qed

text \<open>A connection changes, but not what it is connected to.\<close>

lemma pool_set_conn:
  assumes inv: "pool_inv W X s"
    and x: "con_key x = con_key (hm_conns s c)" "hc_tls (hm_conns s c) \<longrightarrow> hc_tls x"
    and watch: "\<And>i. hc_changed x = Some (Watch_Pool i) \<Longrightarrow> hc_changed (hm_conns s c) = Some (Watch_Pool i) \<or>
      i < ab_nextId (hm_ops s) \<and> map_of (ab_map (hm_ops s)) i = None"
  shows "pool_inv W X (hm_set_conn c x s)" "pool_tokens (hm_set_conn c x s) = pool_tokens s"
proof -
  let ?s = "hm_set_conn c x s"
  have fields: "hm_ops ?s = hm_ops s" "hm_alloc ?s = hm_alloc s" "hm_next ?s = hm_next s" "hm_pending ?s = hm_pending s"
    "hm_count ?s = hm_count s" "hm_awaits ?s = hm_awaits s" "hm_tasks ?s = hm_tasks s" "hm_calls ?s = hm_calls s"
    by (simp_all add: hm_set_conn_def)
  have key: "con_key (hm_conns ?s d) = con_key (hm_conns s d)" for d using x(1) by (simp add: hm_set_conn_def)
  have sec: "secure (hm_conns s d) \<Longrightarrow> secure (hm_conns ?s d)" for d
    using x by (auto simp: hm_set_conn_def secure_def con_key_def)
  have w: "hc_changed (hm_conns ?s d) = Some (Watch_Pool i) \<Longrightarrow> hc_changed (hm_conns s d) = Some (Watch_Pool i) \<or>
      i < ab_nextId (hm_ops s) \<and> map_of (ab_map (hm_ops s)) i = None" for d i
    using watch [of i] by (cases "d = c") (simp_all add: hm_set_conn_def)
  note wf = pool_invD(2) [OF inv]
  have "placed W ?s op" if op: "op \<in> set (ab_ops (hm_ops s))" for op
  proof -
    have pl: "placed W s op" by (rule pool_invD(3) [OF inv op])
    then have "data_ok W ?s op" unfolding placed_def data_ok_def fields key by (auto split: pool_data.splits intro: sec)
    moreover have "hc_changed (hm_conns ?s d) = Some (Watch_Pool (op_id op)) \<Longrightarrow> op_type op = 2" for d
      using w [of d "op_id op"] pl ab_wf_opsD [OF wf op] by (auto simp: placed_def)
    ultimately show ?thesis using pl by (simp add: placed_def fields key)
  qed
  moreover have "task_ok W s t \<Longrightarrow> task_ok W ?s t" for t
    unfolding task_ok_def fields key by (auto split: pool_task.splits option.splits intro: sec)
  moreover have "pool_waits ?s"
    using pool_invD(6) [OF inv] w unfolding pool_waits_def fields by blast
  moreover have "pool_conns ?s = pool_conns s" by (simp add: pool_conns_def fields)
  ultimately show "pool_inv W X ?s"
    using inv by (simp add: pool_inv_def pool_core_def pool_lists_def pool_apart_def fields)
  show "pool_tokens ?s = pool_tokens s" by (simp add: pool_tokens_def fields)
qed

text \<open>The lists of pooled connections lose ids of operations that are gone.\<close>

lemma pool_shrink:
  assumes inv: "pool_inv W X s"
    and m: "lists_ok m" "listed m + D = listed (hm_pending s)"
    and sub: "\<And>k. set (ids_of k m) \<subseteq> set (ids_of k (hm_pending s))"
    and gone: "\<And>k op. op \<in> set (ab_ops (hm_ops s)) \<Longrightarrow> op_id op \<in> set (ids_of k (hm_pending s)) \<Longrightarrow> op_id op \<in> set (ids_of k m)"
  shows "pool_inv W X (s\<lparr>hm_pending := m, hm_count := hm_count s - int (size D)\<rparr>)"
    "pool_tokens (s\<lparr>hm_pending := m, hm_count := hm_count s - int (size D)\<rparr>) = pool_tokens s"
proof -
  let ?s = "s\<lparr>hm_pending := m, hm_count := hm_count s - int (size D)\<rparr>"
  have "size (listed (hm_pending s)) = size (listed m) + size D" by (simp flip: m(2))
  moreover have "i \<in># listed m \<Longrightarrow> i \<in># listed (hm_pending s)" for i by (simp flip: m(2))
  ultimately have "pool_lists ?s" using pool_invD(5) [OF inv] m(1) by (simp add: pool_lists_def)
  moreover have "placed W ?s op" if op: "op \<in> set (ab_ops (hm_ops s))" for op
  proof -
    have pl: "placed W s op" by (rule pool_invD(3) [OF inv op])
    then have "data_ok W ?s op" using gone [OF op] by (auto simp: placed_def data_ok_def split: pool_data.splits)
    with pl show ?thesis using subsetD [OF sub] unfolding placed_def by (simp del: split_paired_All) blast
  qed
  moreover have "task_ok W ?s t = task_ok W s t" for t by (rule task_ok_cong) simp_all
  moreover have "pool_conns ?s = pool_conns s" by (simp add: pool_conns_def)
  ultimately show "pool_inv W X ?s"
    using inv by (simp add: pool_inv_def pool_core_def pool_waits_def pool_apart_def)
  show "pool_tokens ?s = pool_tokens s" by (simp add: pool_tokens_def)
qed

text \<open>A new id is not in use anywhere.\<close>

lemma pool_fresh:
  assumes inv: "pool_inv W X s" and i: "i = ab_nextId (hm_ops s)" and b: "b = snd (genFreeId (hm_ops s))"
  shows "pool_inv W X (s\<lparr>hm_ops := b, hm_alloc := hm_alloc s + 1\<rparr>)"
    "pool_tokens (s\<lparr>hm_ops := b, hm_alloc := hm_alloc s + 1\<rparr>) = pool_tokens s"
    "0 < i" "i < ab_nextId b" "map_of (ab_map b) i = None"
    "i \<notin># listed (hm_pending s)" "i \<notin> set (ids_of k (hm_pending s))" "a \<in> set (hm_awaits s) \<Longrightarrow> await_id a \<noteq> i"
    "hc_changed (hm_conns s c) \<noteq> Some (Watch_Pool i)" "Remove_Pending k i \<notin> set (hm_tasks s)"
    "op \<in> set (ab_ops b) \<Longrightarrow> op_addr op < hm_alloc s" "ab_ops b = ab_ops (hm_ops s)"
proof -
  note wf = pool_invD(2) [OF inv]
  show "0 < i" using wf by (simp add: i ab_wf_def)
  have same: "ab_map b = ab_map (hm_ops s)" "ab_nextId b = i + 1" by (simp_all add: b i genFreeId_def)
  show ops: "ab_ops b = ab_ops (hm_ops s)" by (simp add: b genFreeId_def)
  show "i < ab_nextId b" by (simp add: same)
  show "map_of (ab_map b) i = None"
    using ab_wf_boundD [OF wf, of i] by (cases "map_of (ab_map (hm_ops s)) i") (auto simp: same i)
  have okb: "ab_ok b" unfolding b by (rule genFreeId_ok [OF pool_invD(1) [OF inv]])
  let ?s = "s\<lparr>hm_ops := b, hm_alloc := hm_alloc s + 1\<rparr>"
  have "pool_core W X ?s"
    by (rule pool_core_table [OF pool_invD(4) [OF inv]]) (simp_all add: same ops i)
  moreover have "placed W ?s op" if "op \<in> set (ab_ops b)" for op
    using pool_invD(3) [OF inv, of op] that data_ok_cong [of ?s s W op] by (auto simp: placed_def ops)
  ultimately show "pool_inv W X ?s" using okb by (simp add: pool_inv_def)
  show "pool_tokens ?s = pool_tokens s" by (simp add: pool_tokens_def ops)
  show nl: "i \<notin># listed (hm_pending s)" using pool_invD(5) [OF inv] by (auto simp: pool_lists_def i)
  then show "i \<notin> set (ids_of k (hm_pending s))"
    using in_listed [of "hm_pending s" i] pool_invD(5) [OF inv] unfolding pool_lists_def lists_ok_def by blast
  show "a \<in> set (hm_awaits s) \<Longrightarrow> await_id a \<noteq> i" using pool_invD(6) [OF inv] by (auto simp: pool_waits_def i)
  show "hc_changed (hm_conns s c) \<noteq> Some (Watch_Pool i)" using pool_invD(6) [OF inv] by (auto simp: pool_waits_def i)
  have "task_ok W s (Remove_Pending k i) \<Longrightarrow> False" by (simp add: task_ok_def i)
  then show "Remove_Pending k i \<notin> set (hm_tasks s)" using pool_invD(4) [OF inv] by (auto simp: pool_core_def)
  show "op \<in> set (ab_ops b) \<Longrightarrow> op_addr op < hm_alloc s"
    using pool_invD(3) [OF inv, of op] by (simp add: ops placed_def)
qed

end
