(* ===== verification/Sf_HttpPoolOps.thy ===== *)
theory Sf_HttpPoolOps
  imports Sf_HttpPoolInv
begin

text \<open>
  Every operation of the pool of \<open>net/http/impl/HttpConnectionManager.cpp\<close> keeps its invariant and
  accounts for the callbacks it owes.
\<close>

subsection \<open>Requesting a connection\<close>

lemma takePooled_cases:
  assumes "\<And>i op. i \<in> set ids \<Longrightarrow> map_of (ab_map (hm_ops s)) i = Some op \<Longrightarrow> op_type op = 2"
    and "hm_takePooled ids s = ((r, rest), s')"
  shows "(r = None \<and> rest = [] \<and> s' = s\<lparr>hm_count := hm_count s - int (length ids)\<rparr> \<and>
      (\<forall>i \<in> set ids. map_of (ab_map (hm_ops s)) i = None)) \<or>
    (\<exists>before i op. ids = before @ i # rest \<and> r = Some op \<and> map_of (ab_map (hm_ops s)) i = Some op \<and>
      (\<forall>j \<in> set before. map_of (ab_map (hm_ops s)) j = None) \<and>
      s' = s\<lparr>hm_ops := ab_remove op i (hm_ops s), hm_count := hm_count s - int (length before + 1)\<rparr>)"
  using assms
proof (induction ids arbitrary: s)
  case (Cons i ids)
  show ?case
  proof (cases "map_of (ab_map (hm_ops s)) i")
    case (Some op)
    with Cons.prems(1) [of i op] have "op_type op = 2" by simp
    then show ?thesis using Some Cons.prems(2)
      by (intro disjI2 exI [of _ "[]"] exI [of _ i] exI [of _ op]) (simp add: getReadyAsyncOpOf_def getReadyAsyncOp_def)
  next
    case None
    let ?s = "s\<lparr>hm_count := hm_count s - 1\<rparr>"
    have "hm_takePooled ids ?s = ((r, rest), s')"
      using None Cons.prems(2) by (simp add: getReadyAsyncOpOf_def getReadyAsyncOp_def)
    from Cons.IH [OF _ this] Cons.prems(1)
    consider "r = None" "rest = []" "s' = ?s\<lparr>hm_count := hm_count s - 1 - int (length ids)\<rparr>"
        "\<forall>i \<in> set ids. map_of (ab_map (hm_ops s)) i = None"
      | before j op where "ids = before @ j # rest" "r = Some op" "map_of (ab_map (hm_ops s)) j = Some op"
        "\<forall>j \<in> set before. map_of (ab_map (hm_ops s)) j = None"
        "s' = ?s\<lparr>hm_ops := ab_remove op j (hm_ops s), hm_count := hm_count s - 1 - int (length before + 1)\<rparr>"
      by fastforce
    then show ?thesis
    proof cases
      case 1
      then show ?thesis using None by simp
    next
      case (2 before j op)
      then show ?thesis using None by (intro disjI2 exI [of _ "i # before"] exI [of _ j] exI [of _ op]) simp
    qed
  qed
qed simp

lemma op_conn_in: "op \<in> set (ab_ops (hm_ops s)) \<Longrightarrow> pd_connection (op_data op) \<in># pool_conns s"
  by (auto simp: pool_conns_def)

lemma task_conn_in: "Call_Back cb e (Some c) \<in> set (hm_tasks s) \<Longrightarrow> c \<in># pool_conns s"
  by (fastforce simp: pool_conns_def)

lemma pool_new_conn:
  assumes inv: "pool_inv W X s" and con: "hc_changed con = None"
  defines "s' \<equiv> hm_set_conn (hm_next s) con (s\<lparr>hm_next := hm_next s + 1\<rparr>)"
  shows "pool_inv W (add_mset (hm_next s) X) s'" "pool_tokens s' = pool_tokens s" "pool_frame X s s'"
proof -
  have fields: "hm_ops s' = hm_ops s" "hm_alloc s' = hm_alloc s" "hm_next s' = hm_next s + 1" "hm_pending s' = hm_pending s"
    "hm_count s' = hm_count s" "hm_awaits s' = hm_awaits s" "hm_tasks s' = hm_tasks s" "hm_calls s' = hm_calls s"
    by (simp_all add: s'_def hm_set_conn_def)
  have conns: "hm_conns s' d = (if d = hm_next s then con else hm_conns s d)" for d
    by (simp add: s'_def hm_set_conn_def)
  have apart: "\<forall>c \<in># pool_conns s + X. c < hm_next s" "\<forall>c. count (pool_conns s + X) c \<le> 1"
    using pool_invD(7) [OF inv] by (simp_all add: pool_apart_def)
  have pc: "pool_conns s' = pool_conns s" by (simp add: pool_conns_def fields)
  have new: "count (pool_conns s + X) (hm_next s) = 0" using apart(1) by (metis count_eq_zero_iff less_irrefl)
  have "count (pool_conns s + add_mset (hm_next s) X) c \<le> 1" for c
    using apart(2) new by (cases "c = hm_next s") simp_all
  then have "pool_apart (add_mset (hm_next s) X) s'"
    using apart(1) by (auto simp: pool_apart_def pc fields less_Suc_eq)
  moreover have "placed W s' op" if op: "op \<in> set (ab_ops (hm_ops s))" for op
  proof -
    have "pd_connection (op_data op) < hm_next s" using op_conn_in [OF op] apart(1) by simp
    then have eq: "hm_conns s' (pd_connection (op_data op)) = hm_conns s (pd_connection (op_data op))" by (simp add: conns)
    have pl: "placed W s op" by (rule pool_invD(3) [OF inv op])
    have "data_ok W s' op" using pl eq by (cases "op_data op") (simp_all add: placed_def data_ok_def fields)
    moreover have "hc_changed (hm_conns s' d) = Some (Watch_Pool (op_id op)) \<Longrightarrow> op_type op = 2" for d
      using pl con by (auto simp: placed_def conns split: if_splits)
    ultimately show ?thesis using pl eq by (simp add: placed_def fields)
  qed
  moreover have "task_ok W s' t" if t: "t \<in> set (hm_tasks s)" for t
  proof -
    have ok: "task_ok W s t" using inv t by (simp add: pool_inv_def pool_core_def)
    show ?thesis
    proof (cases t)
      case (Call_Back cb e con')
      show ?thesis
      proof (cases con')
        case (Some c)
        with Call_Back t task_conn_in apart(1) have "c < hm_next s" by fastforce
        with ok Call_Back Some show ?thesis by (simp add: task_ok_def conns)
      qed (use ok Call_Back in \<open>simp add: task_ok_def\<close>)
    qed (use ok in \<open>simp_all add: task_ok_def fields\<close>)
  qed
  moreover have "pool_waits s'" using pool_invD(6) [OF inv] con by (simp add: pool_waits_def fields conns)
  ultimately show "pool_inv W (add_mset (hm_next s) X) s'"
    using inv by (simp add: pool_inv_def pool_core_def pool_lists_def fields)
  show "pool_tokens s' = pool_tokens s" by (simp add: pool_tokens_def fields)
  have "c \<in># X \<Longrightarrow> c \<noteq> hm_next s" for c using apart(1) by auto
  then show "pool_frame X s s'" using con by (simp add: pool_frame_def conns)
qed

text \<open>A callback is given to a socket.\<close>

lemma pool_await:
  assumes inv: "pool_inv W X s" and a: "await_id a < ab_nextId (hm_ops s)" "await_id a \<notin> await_id ` set (hm_awaits s)"
    and none: "map_of (ab_map (hm_ops s)) (await_id a) = None"
  defines "s' \<equiv> s\<lparr>hm_awaits := hm_awaits s @ [a]\<rparr>"
  shows "pool_inv W X s'" "pool_tokens s' = pool_tokens s"
proof -
  have "placed W s' op" if op: "op \<in> set (ab_ops (hm_ops s))" for op
  proof -
    have "await_id a \<noteq> op_id op" using none ab_wf_opsD [OF pool_invD(2) [OF inv] op] by auto
    then show ?thesis
      using pool_invD(3) [OF inv op] data_ok_cong [of s' s W op] by (auto simp: placed_def s'_def)
  qed
  moreover have "task_ok W s' t = task_ok W s t" for t by (rule task_ok_cong) (simp_all add: s'_def)
  moreover have "pool_conns s' = pool_conns s" by (simp add: pool_conns_def s'_def)
  moreover have "pool_waits s'" using pool_invD(6) [OF inv] a by (auto simp: pool_waits_def s'_def)
  ultimately show "pool_inv W X s'"
    using inv by (simp add: pool_inv_def pool_core_def pool_apart_def pool_lists_def) (simp add: s'_def)
  show "pool_tokens s' = pool_tokens s" by (simp add: pool_tokens_def s'_def)
qed

lemma establish_ok:
  assumes inv: "pool_inv W X s" and W: "W cb = url_key u"
  shows "pool_to W X (add_mset cb (pool_tokens s)) s (hm_establish E u ms cb s)"
proof (cases "u_protocol u \<noteq> ''http'' \<and> u_protocol u \<noteq> ''https''")
  case True
  let ?s = "s\<lparr>hm_alloc := hm_alloc s + 1\<rparr>"
  have core: "pool_core W X (s\<lparr>hm_ops := hm_ops s, hm_alloc := hm_alloc s + 1\<rparr>)"
    by (rule pool_core_table [OF pool_invD(4) [OF inv]]) simp_all
  have "placed W ?s op" if "op \<in> set (ab_ops (hm_ops s))" for op
    using pool_invD(3) [OF inv that] data_ok_cong [of ?s s W op] by (simp add: placed_def)
  then have "pool_inv W X ?s" using core pool_invD(1) [OF inv] by (simp add: pool_inv_def)
  then have "pool_inv W (task_conns (Call_Back cb NotSupported None) + X) ?s" by simp
  from pool_post [OF this] show ?thesis
    using True by (simp add: hm_establish_def pool_to_def task_ok_def pool_frame_conns pool_tokens_def)
next
  case False
  let ?i = "ab_nextId (hm_ops s)" and ?c = "hm_next s"
  let ?con = "no_conn\<lparr>hc_host := u_host u, hc_pureHost := url_pureHost u, hc_protocol := u_protocol u\<rparr>"
  let ?op = "(new_op ESTABLISH_CONNECTION (regTimeOutMs (he_now E) ms) (hm_alloc s) (Establish ?c cb))
      \<lparr>op_id := ?i, op_state := WAIT_TCP_CONNECT\<rparr>"
  define b where "b = snd (genFreeId (hm_ops s))"
  define t where "t = s\<lparr>hm_ops := b, hm_alloc := hm_alloc s + 1\<rparr>"
  define s1 where "s1 = hm_set_conn (hm_next t) ?con (t\<lparr>hm_next := hm_next t + 1\<rparr>)"
  note fresh = pool_fresh [OF inv HOL.refl b_def, folded t_def]
  have "hc_changed ?con = None" by (simp add: no_conn_def)
  note new = pool_new_conn [OF fresh(1) this, folded s1_def]
  have next_t: "hm_next t = ?c" by (simp add: t_def)
  have "pool_frame X s t" by (rule pool_frame_conns) (simp add: t_def)
  then have frame: "pool_frame X s s1" using new(3) by (rule pool_frame_trans)
  show ?thesis
  proof (cases "failed (he_connect E (url_pureHost u) (url_port (he_int E) u) ms)")
    case fail: True
    define e where "e = he_connect E (url_pureHost u) (url_port (he_int E) u) ms"
    have "pool_inv W (task_conns (Call_Back cb e None) + X) s1"
      using pool_drop [of W "{#?c#}" X s1] new(1) next_t by simp
    from pool_post [OF this] fail have "pool_inv W X (hm_post (Call_Back cb e None) s1)"
      "pool_tokens (hm_post (Call_Back cb e None) s1) = add_mset cb (pool_tokens s)"
      using new(2) fresh(2) by (simp_all add: task_ok_def e_def)
    moreover have "hm_establish E u ms cb s = hm_post (Call_Back cb e None) s1"
      using False fail by (auto simp: hm_establish_def Let_def genFreeId_def e_def s1_def t_def b_def)
    ultimately show ?thesis using frame by (simp add: pool_to_def pool_frame_def)
  next
    case okay: False
    define s2 where "s2 = s1\<lparr>hm_awaits := hm_awaits s1 @ [Await_Tcp ?i]\<rparr>"
    have f1: "hm_ops s1 = b" "hm_awaits s1 = hm_awaits s" "hm_pending s1 = hm_pending s" "hm_tasks s1 = hm_tasks s"
      "hm_alloc s1 = hm_alloc s + 1" "hm_conns s1 = (hm_conns s)(?c := ?con)"
      by (simp_all add: s1_def t_def hm_set_conn_def)
    have ids: "await_id (Await_Tcp ?i) < ab_nextId (hm_ops s1)" "await_id (Await_Tcp ?i) \<notin> await_id ` set (hm_awaits s1)"
      "map_of (ab_map (hm_ops s1)) (await_id (Await_Tcp ?i)) = None"
      using fresh(4,5) fresh(8) by (simp_all add: f1) (metis imageE)
    note aw = pool_await [OF new(1) ids, folded s2_def]
    have "placed W s2 ?op"
      using fresh(7-10) W by (auto simp: placed_def data_ok_def s2_def f1 new_op_def con_key_def url_key_def no_conn_def)
    moreover have "op_addr ?op \<notin> op_addr ` set (ab_ops (hm_ops s2))"
    proof -
      have "\<forall>q \<in> set (ab_ops b). op_addr q < hm_alloc s" by (intro ballI fresh(11))
      then show ?thesis by (auto simp: s2_def f1 new_op_def)
    qed
    ultimately have "pool_inv W X (hm_add ?op s2)" "pool_tokens (hm_add ?op s2) = add_mset cb (pool_tokens s)"
        "hm_conns (hm_add ?op s2) = hm_conns s2"
      using pool_put [of W ?op X s2] aw new(2) fresh(2-5) next_t by (simp_all add: s2_def f1 new_op_def)
    moreover have "hm_establish E u ms cb s = hm_add ?op s2"
      using False okay by (auto simp: hm_establish_def Let_def genFreeId_def s2_def s1_def t_def b_def hm_set_conn_def)
    moreover have "pool_frame X s (hm_add ?op s2)"
      using frame \<open>hm_conns (hm_add ?op s2) = hm_conns s2\<close> by (simp add: pool_frame_def s2_def)
    ultimately show ?thesis by (simp add: pool_to_def)
  qed
qed

lemma requestConnection_ok:
  assumes inv: "pool_inv W X s" and W: "W cb = url_key u"
  shows "pool_to W X (add_mset cb (pool_tokens s)) s (requestConnection E u ms cb s)"
proof (cases "map_of (hm_pending s) (url_key u)")
  case None
  then show ?thesis using establish_ok [OF inv W] by (simp add: requestConnection_def)
next
  case (Some ids)
  let ?k = "url_key u"
  have ids: "ids_of ?k (hm_pending s) = ids" using Some by (simp add: ids_of_def)
  note wf = pool_invD(2) [OF inv]
  have lists: "lists_ok (hm_pending s)" using pool_invD(5) [OF inv] by (simp add: pool_lists_def)
  have typed: "op_type op = 2 \<and> con_key (hm_conns s (pd_connection (op_data op))) = ?k"
    if "i \<in> set ids" "map_of (ab_map (hm_ops s)) i = Some op" for i op
  proof -
    have "op_id op = i" "op \<in> set (ab_ops (hm_ops s))" using ab_wf_mapD [OF wf that(2)] by simp_all
    then show ?thesis using placedD(5,6) [OF pool_invD(3) [OF inv, of op]] that(1) ids by blast
  qed
  obtain r rest s1 where take: "hm_takePooled ids s = ((r, rest), s1)" by (metis prod.exhaust)
  from takePooled_cases [OF _ take] typed
  consider "r = None" "rest = []" "s1 = s\<lparr>hm_count := hm_count s - int (length ids)\<rparr>"
      "\<forall>i \<in> set ids. map_of (ab_map (hm_ops s)) i = None"
    | before i op where "ids = before @ i # rest" "r = Some op" "map_of (ab_map (hm_ops s)) i = Some op"
      "\<forall>j \<in> set before. map_of (ab_map (hm_ops s)) j = None"
      "s1 = s\<lparr>hm_ops := ab_remove op i (hm_ops s), hm_count := hm_count s - int (length before + 1)\<rparr>"
    by blast
  then show ?thesis
  proof cases
    case 1
    let ?m = "sm_erase ?k (hm_pending s)"
    have "listed ?m + mset ids = listed (hm_pending s)"
      using listed_erase [OF lists_okD(1) [OF lists], of ?k] by (simp add: ids)
    moreover have "set (ids_of j ?m) \<subseteq> set (ids_of j (hm_pending s))" for j by simp
    moreover have "op_id q \<in> set (ids_of j ?m)"
      if "q \<in> set (ab_ops (hm_ops s))" "op_id q \<in> set (ids_of j (hm_pending s))" for j q
      using that 1(4) ab_wf_opsD [OF wf that(1)] ids by (cases "j = ?k") auto
    ultimately have "pool_inv W X (s\<lparr>hm_pending := ?m, hm_count := hm_count s - int (length ids)\<rparr>)"
      "pool_tokens (s\<lparr>hm_pending := ?m, hm_count := hm_count s - int (length ids)\<rparr>) = pool_tokens s"
      using pool_shrink [OF inv lists_ok_erase [OF lists], of ?k "mset ids"] by simp_all
    moreover have "pool_frame X s (s\<lparr>hm_pending := ?m, hm_count := hm_count s - int (length ids)\<rparr>)"
      by (rule pool_frame_conns) simp
    ultimately have "pool_to W X (add_mset cb (pool_tokens s)) s
        (hm_establish E u ms cb (s\<lparr>hm_pending := ?m, hm_count := hm_count s - int (length ids)\<rparr>))"
      using establish_ok [of W X "s\<lparr>hm_pending := ?m, hm_count := hm_count s - int (length ids)\<rparr>" cb u E ms] W
      by (auto simp: pool_to_def intro: pool_frame_trans)
    moreover have "requestConnection E u ms cb s = hm_establish E u ms cb (s1\<lparr>hm_pending := ?m\<rparr>)"
      using 1 take Some by (simp add: requestConnection_def)
    moreover have "s1\<lparr>hm_pending := ?m\<rparr> = s\<lparr>hm_pending := ?m, hm_count := hm_count s - int (length ids)\<rparr>"
      using 1(3) by simp
    ultimately show ?thesis by metis
  next
    case (2 before i op)
    let ?c = "pd_connection (op_data op)" and ?D = "mset (before @ [i])"
    let ?m = "sm_insert ?k rest (hm_pending s)"
    define t where "t = s\<lparr>hm_ops := ab_remove op i (hm_ops s)\<rparr>"
    note tk = pool_take [OF inv 2(3), folded t_def]
    note rm = ab_remove_props [OF wf 2(3)]
    have ops: "set (ab_ops (hm_ops t)) = set (ab_ops (hm_ops s)) - {op}" using rm(2) by (simp add: t_def)
    have sub: "mset rest \<subseteq># mset (ids_of ?k (hm_pending s))" "mset (ids_of ?k (hm_pending s)) - mset rest = ?D"
      by (simp_all add: ids 2(1))
    note sh = lists_ok_shrink [OF lists sub(1)]
    have gone: "op_id q \<in> set (ids_of j ?m)" if "q \<in> set (ab_ops (hm_ops t))" "op_id q \<in> set (ids_of j (hm_pending t))" for j q
    proof -
      have q: "map_of (ab_map (hm_ops s)) (op_id q) = Some q" "q \<noteq> op"
        using that(1) ab_wf_opsD [OF wf] by (auto simp: ops)
      then have "op_id q \<noteq> i" "op_id q \<notin> set before" using 2(3,4) by auto
      then show ?thesis using that(2) ids 2(1) by (auto simp: t_def split: if_splits)
    qed
    have sub': "set (ids_of j ?m) \<subseteq> set (ids_of j (hm_pending t))" for j
      using ids 2(1) by (auto simp: t_def)
    have "listed ?m + ?D = listed (hm_pending t)" using sh(2) sub(2) by (simp add: t_def)
    note shr = pool_shrink [OF tk(1) sh(1) this sub' gone]
    define t1 where "t1 = t\<lparr>hm_pending := ?m, hm_count := hm_count t - int (size ?D)\<rparr>"
    have "data_ok W s op" using tk(3) by (simp add: placed_def)
    then have sec: "secure (hm_conns s ?c)" using typed [of i op] 2(1,3) by (cases "op_data op") (auto simp: data_ok_def)
    let ?task = "Call_Back cb NoError (Some ?c)"
    have "pool_inv W (task_conns ?task + X) t1" using shr(1) by (simp add: t1_def)
    moreover have "task_ok W t1 ?task" using typed [of i op] 2(1,3) W sec by (simp add: task_ok_def t1_def t_def)
    ultimately have "pool_inv W X (hm_post ?task t1)" "pool_tokens (hm_post ?task t1) = pool_tokens t1 + {#cb#}"
      using pool_post [of W ?task X t1] by simp_all
    moreover have "data_tokens (op_data op) = {#}"
      using typed [of i op] 2(1,3) \<open>data_ok W s op\<close> by (cases "op_data op") (auto simp: data_ok_def)
    moreover have "requestConnection E u ms cb s = hm_post ?task (s1\<lparr>hm_pending := sm_insert ?k rest (hm_pending s1)\<rparr>)"
      using Some take 2(2) by (simp add: requestConnection_def)
    moreover have "s1\<lparr>hm_pending := sm_insert ?k rest (hm_pending s1)\<rparr> = t1" using 2(5) by (simp add: t1_def t_def)
    moreover have "pool_frame X s (hm_post ?task t1)" by (rule pool_frame_conns) (simp add: t1_def t_def)
    ultimately show ?thesis using tk(2) shr(2) by (simp add: pool_to_def) (simp add: t1_def)
  qed
qed

subsection \<open>Giving a connection back\<close>

lemma pool_list_new:
  assumes inv: "pool_inv W X s" and new: "i < ab_nextId (hm_ops s)" "map_of (ab_map (hm_ops s)) i = None" "i \<notin># listed (hm_pending s)"
  shows "pool_inv W X (addToPendingConnections k i s)"
    "pool_tokens (addToPendingConnections k i s) = pool_tokens s"
proof -
  let ?m = "sm_insert k (ids_of k (hm_pending s) @ [i]) (hm_pending s)"
  let ?s = "addToPendingConnections k i s"
  have s': "?s = s\<lparr>hm_pending := ?m, hm_count := hm_count s + 1\<rparr>"
    by (simp add: addToPendingConnections_def ids_of_def)
  have fields: "hm_ops ?s = hm_ops s" "hm_alloc ?s = hm_alloc s" "hm_next ?s = hm_next s" "hm_pending ?s = ?m"
    "hm_count ?s = hm_count s + 1" "hm_awaits ?s = hm_awaits s" "hm_tasks ?s = hm_tasks s" "hm_calls ?s = hm_calls s"
    "hm_conns ?s = hm_conns s"
    by (simp_all add: s')
  have lists: "lists_ok (hm_pending s)" using pool_invD(5) [OF inv] by (simp add: pool_lists_def)
  note ap = lists_ok_append [OF lists new(3), of k]
  have "pool_lists ?s" using pool_invD(5) [OF inv] ap new(1) unfolding pool_lists_def fields by simp
  moreover have "placed W ?s op" if op: "op \<in> set (ab_ops (hm_ops s))" for op
  proof -
    have i: "op_id op \<noteq> i" using new(2) ab_wf_opsD [OF pool_invD(2) [OF inv] op] by auto
    then have eq: "op_id op \<in> set (ids_of j ?m) \<longleftrightarrow> op_id op \<in> set (ids_of j (hm_pending s))" for j by simp
    have pl: "placed W s op" by (rule pool_invD(3) [OF inv op])
    then have "data_ok W ?s op"
      unfolding placed_def data_ok_def fields eq by simp
    with pl show ?thesis unfolding placed_def fields eq by simp
  qed
  moreover have "task_ok W ?s t = task_ok W s t" for t by (rule task_ok_cong) (simp_all add: fields)
  moreover have "pool_conns ?s = pool_conns s" by (simp add: pool_conns_def fields)
  ultimately show "pool_inv W X ?s"
    using inv by (simp add: pool_inv_def pool_core_def pool_apart_def pool_waits_def fields)
  show "pool_tokens ?s = pool_tokens s" by (simp add: pool_tokens_def fields)
qed

lemma giveBack_ok:
  assumes inv: "pool_inv W ((case con of None \<Rightarrow> {#} | Some c \<Rightarrow> {#c#}) + X) s"
    and con: "e = NoError \<Longrightarrow> \<exists>c. con = Some c \<and> secure (hm_conns s c)"
  shows "\<exists>s'. giveBack E e con s = Done s' \<and> pool_to W X (pool_tokens s) s s'"
proof (cases "failed e")
  case True
  show ?thesis
  proof (cases con)
    case None
    with True inv show ?thesis by (simp add: giveBack_def pool_to_def)
  next
    case (Some c)
    have "pool_inv W (task_conns (Throw_Away c) + X) s"
      using pool_drop [of W "{#c#}" X s] inv Some by simp
    from pool_post [OF this] True Some show ?thesis
      by (simp add: giveBack_def pool_to_def task_ok_def pool_frame_conns)
  qed
next
  case False
  then obtain c where c: "con = Some c" "secure (hm_conns s c)" using con by auto
  let ?i = "ab_nextId (hm_ops s)"
  let ?op = "(new_op PENDING_CONNECTION (regTimeOutMs (he_now E) (hm_generalTimeoutMs s)) (hm_alloc s) (Pooled c))\<lparr>op_id := ?i\<rparr>"
  define b where "b = snd (genFreeId (hm_ops s))"
  define t where "t = s\<lparr>hm_ops := b, hm_alloc := hm_alloc s + 1\<rparr>"
  define x where "x = (hm_conns s c)\<lparr>hc_changed := Some (Watch_Pool ?i)\<rparr>"
  define t2 where "t2 = hm_set_conn c x t"
  define t3 where "t3 = addToPendingConnections (con_key x) ?i t2"
  have inv': "pool_inv W (add_mset c X) s" using inv c(1) by simp
  note fresh = pool_fresh [OF inv' HOL.refl b_def, folded t_def]
  have ft: "hm_ops t = b" "hm_conns t = hm_conns s" "hm_pending t = hm_pending s" "hm_alloc t = hm_alloc s + 1"
    "hm_awaits t = hm_awaits s" "hm_tasks t = hm_tasks s" by (simp_all add: t_def)
  have "pool_inv W (add_mset c X) t2 \<and> pool_tokens t2 = pool_tokens t"
    unfolding t2_def using fresh(4,5)
    by (intro conjI pool_set_conn [OF fresh(1)]) (auto simp: x_def con_key_def ft)
  then have t2: "pool_inv W (add_mset c X) t2" "pool_tokens t2 = pool_tokens s" using fresh(2) by simp_all
  have f2: "hm_ops t2 = b" "hm_conns t2 = (hm_conns s)(c := x)" "hm_pending t2 = hm_pending s" "hm_alloc t2 = hm_alloc s + 1"
    "hm_awaits t2 = hm_awaits s" "hm_tasks t2 = hm_tasks s" by (simp_all add: t2_def hm_set_conn_def ft)
  have "pool_inv W (add_mset c X) t3 \<and> pool_tokens t3 = pool_tokens s"
    unfolding t3_def using pool_list_new [OF t2(1), of ?i "con_key x"] fresh(4,5,6) t2(2) by (simp add: f2)
  then have t3: "pool_inv W (add_mset c X) t3" "pool_tokens t3 = pool_tokens s" by simp_all
  have f3: "hm_ops t3 = b" "hm_conns t3 = (hm_conns s)(c := x)" "hm_alloc t3 = hm_alloc s + 1"
    "hm_pending t3 = sm_insert (con_key x) (ids_of (con_key x) (hm_pending s) @ [?i]) (hm_pending s)"
    "hm_awaits t3 = hm_awaits s" "hm_tasks t3 = hm_tasks s" by (simp_all add: t3_def addToPendingConnections_def f2 ids_of_def)
  have "secure x" using c(2) by (simp add: x_def secure_def)
  then have "placed W t3 ?op"
    using fresh(7,8,10) by (auto simp: placed_def data_ok_def f3 new_op_def split: if_splits)
  moreover have "op_addr ?op \<notin> op_addr ` set (ab_ops (hm_ops t3))"
  proof -
    have "\<forall>q \<in> set (ab_ops b). op_addr q < hm_alloc s" by (intro ballI fresh(11))
    then show ?thesis by (auto simp: f3 new_op_def)
  qed
  ultimately have "pool_inv W X (hm_add ?op t3)" "pool_tokens (hm_add ?op t3) = pool_tokens s" "hm_conns (hm_add ?op t3) = hm_conns t3"
    using pool_put [of W ?op X t3] t3 fresh(3,4,5) by (simp_all add: f3 new_op_def)
  moreover have "giveBack E e con s = Done (hm_add ?op t3)"
    using False c(1) by (simp add: giveBack_def genFreeId_def t3_def t2_def t_def b_def x_def Let_def hm_set_conn_def)
  moreover have "pool_frame X s (hm_add ?op t3)"
    using \<open>hm_conns (hm_add ?op t3) = hm_conns t3\<close> by (auto simp: pool_frame_def f3 x_def con_key_def)
  ultimately show ?thesis by (simp add: pool_to_def)
qed

subsection \<open>Establishing a connection\<close>

lemma pool_inv_created [simp]: "pool_inv W X (s\<lparr>hm_created := n\<rparr>) \<longleftrightarrow> pool_inv W X s"
  "pool_tokens (s\<lparr>hm_created := n\<rparr>) = pool_tokens s"
proof -
  let ?s = "s\<lparr>hm_created := n\<rparr>"
  have "task_ok W ?s t = task_ok W s t" for t by (rule task_ok_cong) simp_all
  moreover have "placed W ?s op = placed W s op" for op using data_ok_cong [of ?s s W op] by (simp add: placed_def)
  ultimately show "pool_inv W X ?s \<longleftrightarrow> pool_inv W X s"
    by (simp add: pool_inv_def pool_core_def pool_lists_def pool_waits_def pool_apart_def pool_conns_def)
qed (simp add: pool_tokens_def)

lemma doFinish_ok:
  assumes inv: "pool_inv W (add_mset c X) s"
    and c: "result = NoError \<Longrightarrow> con_key (hm_conns s c) = W cb \<and> secure (hm_conns s c)"
  shows "pool_to W X (add_mset cb (pool_tokens s)) s (doFinish result c cb s)"
proof (cases "failed result")
  case True
  have "pool_inv W (task_conns (Throw_Away c) + X) s" using pool_drop [of W "{#c#}" X s] inv by simp
  from pool_post [OF this] have "pool_inv W (task_conns (Call_Back cb result None) + X) (hm_post (Throw_Away c) s)"
    "pool_tokens (hm_post (Throw_Away c) s) = pool_tokens s"
    by (simp_all add: task_ok_def)
  from pool_post [OF this(1)] this(2) True show ?thesis
    by (simp add: doFinish_def pool_to_def task_ok_def pool_frame_conns)
next
  case False
  let ?s = "s\<lparr>hm_created := hm_created s + 1\<rparr>"
  have "pool_inv W (task_conns (Call_Back cb NoError (Some c)) + X) ?s" using inv by simp
  from pool_post [OF this] c False show ?thesis
    by (simp add: doFinish_def pool_to_def task_ok_def pool_frame_conns)
qed

text \<open>The callback of a socket is taken.\<close>

lemma pool_await_take:
  assumes inv: "pool_inv W X s" and a: "hm_awaits s = xs @ a # ys"
  defines "s' \<equiv> s\<lparr>hm_awaits := xs @ ys\<rparr>"
  shows "pool_inv W X s'" "pool_tokens s' = pool_tokens s" "await_id a < ab_nextId (hm_ops s')"
    "await_id a \<notin> await_id ` set (hm_awaits s')"
    "map_of (ab_map (hm_ops s')) (await_id a) = Some op \<Longrightarrow> op_type op = 1 \<and> op_state op = await_state a"
proof -
  have "placed W s' op" if "op \<in> set (ab_ops (hm_ops s))" for op
    using pool_invD(3) [OF inv that] data_ok_cong [of s' s W op] by (auto simp: placed_def s'_def a)
  moreover have "task_ok W s' t = task_ok W s t" for t by (rule task_ok_cong) (simp_all add: s'_def)
  moreover have "pool_conns s' = pool_conns s" by (simp add: pool_conns_def s'_def)
  moreover have waits: "pool_waits s" by (rule pool_invD(6) [OF inv])
  then have "pool_waits s'" by (auto simp: pool_waits_def s'_def a)
  ultimately show "pool_inv W X s'"
    using inv by (simp add: pool_inv_def pool_core_def pool_apart_def pool_lists_def) (simp add: s'_def)
  show "pool_tokens s' = pool_tokens s" by (simp add: pool_tokens_def s'_def)
  show "await_id a < ab_nextId (hm_ops s')" "await_id a \<notin> await_id ` set (hm_awaits s')"
    using waits by (auto simp: pool_waits_def s'_def a)
  assume "map_of (ab_map (hm_ops s')) (await_id a) = Some op"
  then have "op \<in> set (ab_ops (hm_ops s))" "op_id op = await_id a"
    using ab_wf_mapD [OF pool_invD(2) [OF inv]] by (auto simp: s'_def)
  with placedD(3,4) [OF pool_invD(3) [OF inv], of op a] a show "op_type op = 1 \<and> op_state op = await_state a" by auto
qed

lemma onTcpConnect_ok:
  assumes inv: "pool_inv W X s" and i: "i \<notin> await_id ` set (hm_awaits s)"
    and op: "\<And>op. map_of (ab_map (hm_ops s)) i = Some op \<Longrightarrow> op_type op = 1 \<and> op_state op = 1"
  shows "\<exists>p. hm_onTcpConnect E e i s = Done p \<and> pool_to W X (pool_tokens s) s p"
proof (cases "map_of (ab_map (hm_ops s)) i")
  case None
  then show ?thesis using inv
    by (simp add: hm_onTcpConnect_def getReadyAsyncOpInState_def getReadyAsyncOpOf_def getReadyAsyncOp_def pool_to_def)
next
  case (Some op)
  define t where "t = s\<lparr>hm_ops := ab_remove op i (hm_ops s)\<rparr>"
  note ty = assms(3) [OF Some]
  note tk = pool_take [OF inv Some, folded t_def]
  obtain c cb where d: "op_data op = Establish c cb"
    using placedD(2) [OF tk(3)] ty by (cases "op_data op") (auto simp: data_ok_def)
  have key: "con_key (hm_conns s c) = W cb" using placedD(2) [OF tk(3)] by (simp add: data_ok_def d)
  have tk1: "pool_inv W (add_mset c X) t" and tk2: "pool_tokens s = add_mset cb (pool_tokens t)" using tk(1,2) d by simp_all
  have ft: "hm_conns t = hm_conns s" "hm_ops t = ab_remove op i (hm_ops s)" "hm_awaits t = hm_awaits s"
    "hm_pending t = hm_pending s" "hm_tasks t = hm_tasks s" "hm_alloc t = hm_alloc s" by (simp_all add: t_def)
  have fr: "pool_frame X s t" by (rule pool_frame_conns) (simp add: ft)
  have run: "hm_onTcpConnect E e i s =
      (if failed e then Done (doFinish e c cb t)
       else if hc_protocol (hm_conns t c) = ''https'' then
         let s2 = hm_set_conn c ((hm_conns t c)\<lparr>hc_tls := True\<rparr>) t;
             s3 = (if failed (he_handshake E c (hc_pureHost (hm_conns t c))) then s2
                   else s2\<lparr>hm_awaits := hm_awaits s2 @ [Await_Tls i]\<rparr>)
         in Done (hm_add (op\<lparr>op_state := WAIT_TLS\<rparr>) s3)
       else Done (doFinish e c cb t))"
    using Some ty d by (simp add: hm_onTcpConnect_def getReadyAsyncOpInState_def getReadyAsyncOpOf_def getReadyAsyncOp_def t_def Let_def)
  show ?thesis
  proof (cases "failed e \<or> hc_protocol (hm_conns t c) \<noteq> ''https''")
    case True
    then have "pool_to W X (pool_tokens s) t (doFinish e c cb t)"
      using doFinish_ok [OF tk1, of e cb] key by (auto simp: tk2 ft secure_def)
    then show ?thesis using True fr by (auto simp: run pool_to_def intro: pool_frame_trans)
  next
    case False
    define x where "x = (hm_conns t c)\<lparr>hc_tls := True\<rparr>"
    define s2 where "s2 = hm_set_conn c x t"
    define s3 where "s3 = (if failed (he_handshake E c (hc_pureHost (hm_conns t c))) then s2
                   else s2\<lparr>hm_awaits := hm_awaits s2 @ [Await_Tls i]\<rparr>)"
    have "pool_inv W (add_mset c X) s2 \<and> pool_tokens s2 = pool_tokens t"
      unfolding s2_def by (intro conjI pool_set_conn [OF tk1]) (auto simp: x_def con_key_def)
    then have s2: "pool_inv W (add_mset c X) s2" "pool_tokens s2 = pool_tokens t" by simp_all
    have f2: "hm_ops s2 = hm_ops t" "hm_awaits s2 = hm_awaits s" "hm_pending s2 = hm_pending s" "hm_tasks s2 = hm_tasks s"
      "hm_alloc s2 = hm_alloc s" "hm_conns s2 = (hm_conns s)(c := x)" by (simp_all add: s2_def hm_set_conn_def ft)
    have none: "map_of (ab_map (hm_ops s2)) i = None" "i < ab_nextId (hm_ops s2)"
      using tk(6,8) by (simp_all add: f2 ft) (simp add: ab_remove_def)
    have s3: "pool_inv W (add_mset c X) s3" "pool_tokens s3 = pool_tokens t"
      using pool_await [OF s2(1), of "Await_Tls i"] s2 i none by (simp_all add: s3_def f2)
    have f3: "hm_ops s3 = hm_ops t" "set (hm_awaits s3) \<subseteq> insert (Await_Tls i) (set (hm_awaits s))" "hm_pending s3 = hm_pending s"
      "hm_tasks s3 = hm_tasks s" "hm_alloc s3 = hm_alloc s" "hm_conns s3 = (hm_conns s)(c := x)"
      by (auto simp: s3_def f2)
    let ?op = "op\<lparr>op_state := WAIT_TLS\<rparr>"
    have id: "op_id op = i" by (rule tk(4))
    have "hc_changed (hm_conns s3 d) = hc_changed (hm_conns s d)" for d by (simp add: f3(6) x_def ft)
    moreover have "data_ok W s3 ?op" using key ty by (simp add: data_ok_def d f3(6) x_def con_key_def secure_def ft)
    moreover have "\<forall>a \<in> set (hm_awaits s3). await_id a = i \<longrightarrow> a = Await_Tls i" using f3(2) i by auto
    ultimately have "placed W s3 ?op"
      using tk(3) ty unfolding placed_def by (simp add: f3 id) (metis await_state.simps(2))
    then have "pool_inv W X (hm_add ?op s3)" "pool_tokens (hm_add ?op s3) = pool_tokens s" "hm_conns (hm_add ?op s3) = hm_conns s3"
      using pool_put [of W ?op X s3] s3 d none tk(5,7) id by (simp_all add: f3(1) f2(1) ft tk2)
    moreover have "hm_onTcpConnect E e i s = Done (hm_add ?op s3)"
      unfolding run s3_def s2_def x_def using False by (simp add: Let_def)
    moreover have "c \<notin># X"
      by (rule held_once [OF tk1])
    then have "pool_frame X s (hm_add ?op s3)"
      using \<open>hm_conns (hm_add ?op s3) = hm_conns s3\<close> by (auto simp: pool_frame_def f3(6) x_def con_key_def ft)
    ultimately show ?thesis by (simp add: pool_to_def)
  qed
qed

lemma onTlsHandshake_ok:
  assumes inv: "pool_inv W X s"
    and op: "\<And>op. map_of (ab_map (hm_ops s)) i = Some op \<Longrightarrow> op_type op = 1 \<and> op_state op = 2"
  shows "\<exists>p. hm_onTlsHandshake e i s = Done p \<and> pool_to W X (pool_tokens s) s p"
proof (cases "map_of (ab_map (hm_ops s)) i")
  case None
  then show ?thesis using inv
    by (simp add: hm_onTlsHandshake_def getReadyAsyncOpInState_def getReadyAsyncOpOf_def getReadyAsyncOp_def pool_to_def)
next
  case (Some op)
  define t where "t = s\<lparr>hm_ops := ab_remove op i (hm_ops s)\<rparr>"
  note ty = assms(2) [OF Some]
  note tk = pool_take [OF inv Some, folded t_def]
  obtain c cb where d: "op_data op = Establish c cb"
    using placedD(2) [OF tk(3)] ty by (cases "op_data op") (auto simp: data_ok_def)
  have "con_key (hm_conns t c) = W cb \<and> secure (hm_conns t c)"
    using placedD(2) [OF tk(3)] ty by (simp add: data_ok_def d t_def)
  moreover have "pool_inv W (add_mset c X) t" "pool_tokens s = add_mset cb (pool_tokens t)" using tk(1,2) d by simp_all
  ultimately have "pool_to W X (pool_tokens s) t (doFinish e c cb t)" using doFinish_ok [of W c X t e cb] by simp
  moreover have "pool_frame X s t" by (rule pool_frame_conns) (simp add: t_def)
  moreover have "hm_onTlsHandshake e i s = Done (doFinish e c cb t)"
    using Some ty d by (simp add: hm_onTlsHandshake_def getReadyAsyncOpInState_def getReadyAsyncOpOf_def getReadyAsyncOp_def t_def)
  ultimately show ?thesis by (auto simp: pool_to_def intro: pool_frame_trans)
qed

lemma pool_await_ok:
  assumes "pool_inv W X s" and "hm_awaits s = xs @ a # ys"
  shows "\<exists>p. hx_await E e a (s\<lparr>hm_awaits := xs @ ys\<rparr>) = Done p \<and> pool_to W X (pool_tokens s) s p"
proof -
  let ?s = "s\<lparr>hm_awaits := xs @ ys\<rparr>"
  note a = pool_await_take [OF assms]
  have "\<exists>p. hx_await E e a ?s = Done p \<and> pool_to W X (pool_tokens ?s) ?s p"
  proof (cases a)
    case (Await_Tcp i)
    with onTcpConnect_ok [OF a(1), of i E e] a(4,5) show ?thesis by (auto simp: hx_await_def)
  next
    case (Await_Tls i)
    with onTlsHandshake_ok [OF a(1), of i e] a(5) show ?thesis by (auto simp: hx_await_def)
  qed
  moreover have "pool_frame X s ?s" by (rule pool_frame_conns) simp
  ultimately show ?thesis using a(2) by (auto simp: pool_to_def intro: pool_frame_trans)
qed

subsection \<open>Pooled connections\<close>

lemma removePending_ok:
  assumes inv: "pool_inv W X s" and none: "map_of (ab_map (hm_ops s)) i = None"
  shows "pool_to W X (pool_tokens s) s (removeFromPendingConnectionsExplicit k i s)"
proof (cases "i \<in> set (ids_of k (hm_pending s))")
  case False
  then have "removeFromPendingConnectionsExplicit k i s = s"
    by (simp add: removeFromPendingConnectionsExplicit_def ids_of_def split: option.splits)
  then show ?thesis using inv by (simp add: pool_to_def)
next
  case True
  let ?ids = "ids_of k (hm_pending s)" and ?rest = "remove1 i (ids_of k (hm_pending s))"
  define m where "m = (if ?rest = [] then sm_erase k (hm_pending s) else sm_insert k ?rest (hm_pending s))"
  have lists: "lists_ok (hm_pending s)" using pool_invD(5) [OF inv] by (simp add: pool_lists_def)
  have D: "mset ?ids - mset ?rest = {#i#}" using True by (simp add: insert_DiffM2 multiset_eq_iff)
  have sub: "mset ?rest \<subseteq># mset ?ids" by simp
  have m_ids: "ids_of j m = (if j = k then ?rest else ids_of j (hm_pending s))" for j by (simp add: m_def)
  have "lists_ok m" using lists_ok_shrink(1) [OF lists sub] lists_ok_erase [OF lists] by (simp add: m_def)
  moreover have "listed m + {#i#} = listed (hm_pending s)"
  proof (cases "?rest = []")
    case True
    then have "mset ?ids = {#i#}" using D by simp
    then show ?thesis using listed_erase [OF lists_okD(1) [OF lists], of k] True by (simp add: m_def)
  next
    case False
    have "listed (sm_insert k ?rest (hm_pending s)) + {#i#} = listed (hm_pending s)"
      using lists_ok_shrink(2) [OF lists sub] unfolding D .
    then show ?thesis using False by (simp add: m_def)
  qed
  moreover have "set (ids_of j m) \<subseteq> set (ids_of j (hm_pending s))" for j
    by (simp add: m_ids set_remove1_subset)
  moreover have "op_id q \<in> set (ids_of j m)"
    if "q \<in> set (ab_ops (hm_ops s))" "op_id q \<in> set (ids_of j (hm_pending s))" for j q
  proof -
    have "op_id q \<noteq> i" using none ab_wf_opsD [OF pool_invD(2) [OF inv] that(1)] by auto
    then show ?thesis using that(2) by (auto simp: m_ids)
  qed
  ultimately have "pool_inv W X (s\<lparr>hm_pending := m, hm_count := hm_count s - 1\<rparr>)"
    "pool_tokens (s\<lparr>hm_pending := m, hm_count := hm_count s - 1\<rparr>) = pool_tokens s"
    using pool_shrink [OF inv, of m "{#i#}"] by simp_all
  moreover have "removeFromPendingConnectionsExplicit k i s = s\<lparr>hm_pending := m, hm_count := hm_count s - 1\<rparr>"
    using True by (cases "map_of (hm_pending s) k")
      (simp_all add: removeFromPendingConnectionsExplicit_def ids_of_def m_def Let_def)
  moreover have "pool_frame X s (s\<lparr>hm_pending := m, hm_count := hm_count s - 1\<rparr>)" by (rule pool_frame_conns) simp
  ultimately show ?thesis by (simp add: pool_to_def)
qed

lemma channelChange_ok:
  assumes inv: "pool_inv W X s" and watch: "hc_changed (hm_conns s c') = Some (Watch_Pool i)"
  shows "pool_to W X (pool_tokens s) s (hm_onChannelChange i s)"
proof (cases "map_of (ab_map (hm_ops s)) i")
  case None
  then show ?thesis using inv
    by (simp add: hm_onChannelChange_def getReadyAsyncOpOf_def getReadyAsyncOp_def pool_to_def)
next
  case (Some op)
  define t where "t = s\<lparr>hm_ops := ab_remove op i (hm_ops s)\<rparr>"
  note tk = pool_take [OF inv Some, folded t_def]
  have ty: "op_type op = 2" using placedD(7) [OF tk(3)] watch by (simp add: tk(4))
  obtain c where d: "op_data op = Pooled c"
    using placedD(2) [OF tk(3)] ty by (cases "op_data op") (auto simp: data_ok_def)
  define x where "x = (hm_conns s c)\<lparr>hc_inputBuffer := hc_inputBuffer (hm_conns s c) @ hc_in (hm_conns s c), hc_in := []\<rparr>"
  define s1 where "s1 = hm_set_conn c x t"
  have tk1: "pool_inv W (add_mset c X) t" and tk2: "pool_tokens s = pool_tokens t" using tk(1,2) d by simp_all
  have ft: "hm_conns t = hm_conns s" "hm_ops t = ab_remove op i (hm_ops s)" by (simp_all add: t_def)
  have "pool_inv W (add_mset c X) s1 \<and> pool_tokens s1 = pool_tokens t"
    unfolding s1_def by (intro conjI pool_set_conn [OF tk1]) (auto simp: x_def con_key_def ft)
  then have s1: "pool_inv W (add_mset c X) s1" "pool_tokens s1 = pool_tokens s" using tk2 by simp_all
  have f1: "hm_ops s1 = hm_ops t" "hm_awaits s1 = hm_awaits s" "hm_pending s1 = hm_pending s" "hm_tasks s1 = hm_tasks s"
      "hm_alloc s1 = hm_alloc s" "hm_conns s1 = (hm_conns s)(c := x)" by (simp_all add: s1_def hm_set_conn_def t_def)
  have fr: "pool_frame X s s1" by (auto simp: pool_frame_def f1 x_def con_key_def)
  have run: "hm_onChannelChange i s =
      (if failed (hc_error (hm_conns s c))
       then removeFromPendingConnectionsExplicit (con_key (hm_conns s c)) (op_id op) (hm_post (Throw_Away c) s1)
       else hm_add op s1)"
    using Some ty d
    by (simp add: hm_onChannelChange_def getReadyAsyncOpOf_def getReadyAsyncOp_def Let_def s1_def x_def t_def)
  show ?thesis
  proof (cases "failed (hc_error (hm_conns s c))")
    case True
    let ?s2 = "hm_post (Throw_Away c) s1"
    have "pool_inv W (task_conns (Throw_Away c) + X) s1" using pool_drop [of W "{#c#}" X s1] s1 by simp
    from pool_post [OF this] have s2: "pool_inv W X ?s2" "pool_tokens ?s2 = pool_tokens s"
      by (simp_all add: task_ok_def s1)
    have "map_of (ab_map (hm_ops ?s2)) (op_id op) = None" using tk(8) by (simp add: f1 ft tk(4))
    from removePending_ok [OF s2(1) this, of "con_key (hm_conns s c)"] show ?thesis
      using True fr s2(2) by (auto simp: run pool_to_def pool_frame_def)
  next
    case False
    have "placed W s1 op"
    proof -
      have "hc_changed (hm_conns s1 e) = hc_changed (hm_conns s e)" "con_key (hm_conns s1 e) = con_key (hm_conns s e)"
        "secure (hm_conns s1 e) = secure (hm_conns s e)" for e
        by (simp_all add: f1 x_def con_key_def secure_def)
      with tk(3) show ?thesis by (intro placed_mono [of W s op s1]) (simp_all add: f1(2-5))
    qed
    then have "pool_inv W X (hm_add op s1)" "pool_tokens (hm_add op s1) = pool_tokens s" "hm_conns (hm_add op s1) = hm_conns s1"
      using pool_put [of W op X s1] s1 d tk(4-8) by (simp_all add: f1 ft) (simp_all add: ab_remove_def)
    then show ?thesis using False fr by (simp add: run pool_to_def pool_frame_def)
  qed
qed

subsection \<open>Timing out\<close>

lemma pool_inv_timer:
  assumes inv: "pool_inv W X s" and b: "ab_ok b" "ab_ops b = ab_ops (hm_ops s)" "ab_nextId b = ab_nextId (hm_ops s)"
  shows "pool_inv W X (s\<lparr>hm_ops := b\<rparr>)" "pool_tokens (s\<lparr>hm_ops := b\<rparr>) = pool_tokens s"
proof -
  have "pool_core W X (s\<lparr>hm_ops := b, hm_alloc := hm_alloc s\<rparr>)"
    by (rule pool_core_table [OF pool_invD(4) [OF inv]]) (simp_all add: b)
  then show "pool_inv W X (s\<lparr>hm_ops := b\<rparr>)" using inv b by (simp add: pool_inv_def)
  show "pool_tokens (s\<lparr>hm_ops := b\<rparr>) = pool_tokens s" by (simp add: pool_tokens_def b)
qed

lemma onCancel_ok:
  assumes inv: "pool_inv W X s" and look: "map_of (ab_map (hm_ops s)) (op_id op) = Some op" and e: "failed e"
  shows "pool_to W X (pool_tokens s) s (hm_onCancel e op (s\<lparr>hm_ops := ab_remove op (op_id op) (hm_ops s)\<rparr>))"
proof -
  define t where "t = s\<lparr>hm_ops := ab_remove op (op_id op) (hm_ops s)\<rparr>"
  note tk = pool_take [OF inv look, folded t_def]
  have fr: "pool_frame X s t" by (rule pool_frame_conns) (simp add: t_def)
  have invt: "pool_inv W X t" using pool_drop [of W "{#pd_connection (op_data op)#}" X t] tk(1) by simp
  show ?thesis
  proof (cases "op_data op")
    case (Establish c cb)
    let ?s = "t\<lparr>hm_calls := hm_calls t @ [(cb, e, None)]\<rparr>"
    have "placed W ?s op \<longleftrightarrow> placed W t op" for op using data_ok_cong [of ?s t W op] by (simp add: placed_def)
    moreover have "task_ok W ?s u = task_ok W t u" for u by (rule task_ok_cong) simp_all
    moreover have "pool_conns ?s = pool_conns t" by (simp add: pool_conns_def)
    ultimately have "pool_inv W X ?s"
      using invt e unfolding pool_inv_def pool_core_def pool_lists_def pool_waits_def pool_apart_def by simp
    moreover have "pool_tokens ?s = pool_tokens s" using tk(2) by (simp add: Establish) (simp add: pool_tokens_def)
    moreover have "pool_frame X s ?s" using fr by (simp add: pool_frame_def)
    ultimately show ?thesis unfolding t_def [symmetric] by (simp add: pool_to_def hm_onCancel_def Establish)
  next
    case (Pooled c)
    let ?t = "Remove_Pending (con_key (hm_conns t c)) (op_id op)"
    have ops: "set (ab_ops (hm_ops t)) = set (ab_ops (hm_ops s)) - {op}" "ab_nextId (hm_ops t) = ab_nextId (hm_ops s)"
      using ab_remove_props(2,5) [OF pool_invD(2) [OF inv] look] by (simp_all add: t_def)
    have "?t \<noteq> Remove_Pending k (op_id q)" if q: "q \<in> set (ab_ops (hm_ops t))" for k q
    proof
      assume "?t = Remove_Pending k (op_id q)"
      then have id: "op_id q = op_id op" by simp
      have "q \<in> set (ab_ops (hm_ops s))" "q \<noteq> op" using q ops(1) by simp_all
      with ab_wf_opsD [OF pool_invD(2) [OF inv] this(1)] look show False unfolding id by simp
    qed
    moreover have "task_ok W t ?t" using tk(6) by (simp add: task_ok_def ops)
    ultimately have "pool_inv W X (hm_post ?t t)" "pool_tokens (hm_post ?t t) = pool_tokens s"
      using pool_post [of W ?t X t] invt tk(2) by (simp_all add: Pooled)
    then show ?thesis using fr unfolding t_def [symmetric] by (simp add: pool_to_def hm_onCancel_def Pooled pool_frame_def)
  qed
qed

lemma expire_ok:
  assumes inv: "pool_inv W X s" and run: "hm_onTimer ct s = Some s'"
  shows "pool_to W X (pool_tokens s) s s'"
proof (rule pool.timer_keeps [OF run [unfolded hm_onTimer_def], where P = "pool_to W X (pool_tokens s) s"])
  show "pool_to W X (pool_tokens s) s s" using inv by (simp add: pool_to_def)
next
  fix r assume "pool_to W X (pool_tokens s) s r"
  then show "ab_ok (hm_ops r)" by (auto simp: pool_to_def dest: pool_invD(1))
next
  fix r op
  assume P: "pool_to W X (pool_tokens s) s r" and look: "map_of (ab_map (hm_ops r)) (op_id op) = Some op"
  with onCancel_ok [of W X r op TimeOut]
  show "pool_to W X (pool_tokens s) s (hm_onCancel TimeOut op (hm_put_ops (ab_remove op (op_id op) (hm_ops r)) r))"
    by (auto simp: pool_to_def hm_put_ops_def intro: pool_frame_trans)
next
  fix r b
  assume "pool_to W X (pool_tokens s) s r" "ab_ok b" "ab_ops b = ab_ops (hm_ops r)" "ab_nextId b = ab_nextId (hm_ops r)"
  then show "pool_to W X (pool_tokens s) s (hm_put_ops b r)"
    using pool_inv_timer [of W X r b] by (auto simp: pool_to_def hm_put_ops_def pool_frame_def)
qed

lemma pool_inv_new: "pool_inv W {#} hm_new" "pool_tokens hm_new = {#}"
  by (simp_all add: pool_inv_def pool_core_def pool_lists_def pool_waits_def pool_apart_def pool_conns_def pool_tokens_def
      hm_new_def lists_ok_def listed_def no_conn_def) (simp_all add: ab_init_def)

text \<open>The callbacks that \<open>onCancel\<close> called are handed to the requester.\<close>

lemma pool_calls_ok:
  assumes inv: "pool_inv W X s" and "hm_calls s = calls"
  shows "pool_inv W X (s\<lparr>hm_calls := []\<rparr>)" "pool_tokens s = pool_tokens (s\<lparr>hm_calls := []\<rparr>) + mset (map fst calls)"
    "pool_frame X s (s\<lparr>hm_calls := []\<rparr>)"
proof -
  let ?s = "s\<lparr>hm_calls := []\<rparr>"
  have "placed W ?s op \<longleftrightarrow> placed W s op" for op using data_ok_cong [of ?s s W op] by (simp add: placed_def)
  moreover have "task_ok W ?s u = task_ok W s u" for u by (rule task_ok_cong) simp_all
  moreover have "pool_conns ?s = pool_conns s" by (simp add: pool_conns_def)
  ultimately show "pool_inv W X ?s"
    using inv unfolding pool_inv_def pool_core_def pool_lists_def pool_waits_def pool_apart_def by simp
  show "pool_tokens s = pool_tokens ?s + mset (map fst calls)" by (simp add: pool_tokens_def assms(2))
qed (simp add: pool_frame_conns)

end
