(* ===== verification/Sf_HttpRuns.thy ===== *)
theory Sf_HttpRuns
  imports Sf_HttpPoolOps
begin

text \<open>
  What holds in every run of \<open>net/http/HttpContext.cpp\<close> over its pool of connections: every request is
  answered exactly once, a connection is used by one request at a time, and a request is written
  to a connection to the server of its URL only, encrypted if the URL says so.
\<close>

subsection \<open>The invariant\<close>

abbreviation con_set :: "nat option \<Rightarrow> nat multiset" where
  "con_set con \<equiv> (case con of None \<Rightarrow> {#} | Some c \<Rightarrow> {#c#})"

definition held :: "http_context \<Rightarrow> nat multiset" where
  "held s = (\<Sum>op \<in># mset (ab_ops (hx_ops s)). con_set (hg_con (op_data op)))"

text \<open>The callers that were answered, that will be by a posted call, and whose request is pending.\<close>

definition hx_owed :: "http_context \<Rightarrow> nat multiset" where
  "hx_owed s = mset (map fst (hx_answers s)) + (\<Sum>t \<in># mset (hx_tasks s). con_set (fst t)) +
     (\<Sum>op \<in># mset (ab_ops (hx_ops s)). con_set (hg_callback (op_data op)))"

definition get_ok :: "(int \<Rightarrow> con_id) \<Rightarrow> http_context \<Rightarrow> get_op aop \<Rightarrow> bool" where
  "get_ok W s op \<longleftrightarrow> op_addr op < hx_alloc s \<and> op_type op = 1 \<and> W (op_id op) = url_key (hg_url (op_data op)) \<and>
     \<not> hg_finished (op_data op) \<and>
     (op_state op = 1 \<and> hg_con (op_data op) = None \<and> hg_request (op_data op) \<noteq> None \<or>
      op_state op = 2 \<and> (\<exists>c. hg_con (op_data op) = Some c \<and>
        con_key (hm_conns (hx_pool s) c) = url_key (hg_url (op_data op)) \<and> secure (hm_conns (hx_pool s) c)))"

text \<open>\<open>M\<close>: the callbacks still to come, which are those of the requests that wait for a connection.\<close>

definition get_waits :: "int multiset \<Rightarrow> get_op aop \<Rightarrow> bool" where
  "get_waits M op \<longleftrightarrow> count M (op_id op) = (if op_state op = 1 then 1 else 0)"

definition watches_ok :: "http_context \<Rightarrow> bool" where
  "watches_ok s \<longleftrightarrow> (\<forall>c i. hc_changed (hm_conns (hx_pool s) c) = Some (Watch_Context i) \<longrightarrow>
     i < ab_nextId (hx_ops s) \<and> (\<forall>op. map_of (ab_map (hx_ops s)) i = Some op \<longrightarrow> op_state op = 2))"

definition writes_ok :: "http_context \<Rightarrow> bool" where
  "writes_ok s \<longleftrightarrow> (\<forall>(u, x, bytes) \<in> set (hx_writes s). con_key x = url_key u \<and> secure x)"

text \<open>\<open>X\<close>: connections in the hands of a handler; \<open>T\<close>: callbacks that are being called.\<close>

definition hx_core :: "(int \<Rightarrow> con_id) \<Rightarrow> nat multiset \<Rightarrow> int multiset \<Rightarrow> http_context \<Rightarrow> bool" where
  "hx_core W X T s \<longleftrightarrow> pool_inv W (held s + X) (hx_pool s) \<and>
     (\<forall>op \<in> set (ab_ops (hx_ops s)). get_ok W s op \<and> get_waits (pool_tokens (hx_pool s) + T) op) \<and>
     (\<forall>i \<in># pool_tokens (hx_pool s) + T. i < ab_nextId (hx_ops s)) \<and> watches_ok s \<and> writes_ok s"

definition hx_inv :: "(int \<Rightarrow> con_id) \<Rightarrow> nat multiset \<Rightarrow> int multiset \<Rightarrow> http_context \<Rightarrow> bool" where
  "hx_inv W X T s \<longleftrightarrow> ab_ok (hx_ops s) \<and> hx_core W X T s"

lemma hx_invD:
  assumes "hx_inv W X T s"
  shows "ab_ok (hx_ops s)" "ab_wf (hx_ops s)" "hx_core W X T s" "pool_inv W (held s + X) (hx_pool s)"
    "op \<in> set (ab_ops (hx_ops s)) \<Longrightarrow> get_ok W s op" "watches_ok s" "writes_ok s"
    "op \<in> set (ab_ops (hx_ops s)) \<Longrightarrow> get_waits (pool_tokens (hx_pool s) + T) op"
  using assms by (auto simp: hx_inv_def ab_ok_def hx_core_def)

lemma get_ok_cong:
  "hx_alloc s' = hx_alloc s \<Longrightarrow> hm_conns (hx_pool s') = hm_conns (hx_pool s) \<Longrightarrow> get_ok W s' op \<longleftrightarrow> get_ok W s op"
  by (simp add: get_ok_def)

lemma get_ok_table [simp]: "get_ok W (s\<lparr>hx_ops := b\<rparr>) op \<longleftrightarrow> get_ok W s op"
  by (simp add: get_ok_def)

subsection \<open>Taking a request and putting it back\<close>

lemma hx_take:
  assumes inv: "hx_inv W X T s" and look: "map_of (ab_map (hx_ops s)) i = Some op"
  defines "s' \<equiv> s\<lparr>hx_ops := ab_remove op i (hx_ops s)\<rparr>"
  shows "hx_inv W (con_set (hg_con (op_data op)) + X) T s'"
    "hx_owed s = hx_owed s' + con_set (hg_callback (op_data op))"
    "get_ok W s op" "get_waits (pool_tokens (hx_pool s) + T) op" "op_id op = i" "0 < i" "i < ab_nextId (hx_ops s')"
    "op_addr op \<notin> op_addr ` set (ab_ops (hx_ops s'))" "map_of (ab_map (hx_ops s')) i = None"
proof -
  note wf = hx_invD(2) [OF inv]
  from ab_wf_mapD [OF wf look] have op: "op \<in> set (ab_ops (hx_ops s))" by simp
  note bag = mset_ab_remove [OF wf look] and rm = ab_remove_props [OF wf look]
  from ab_wf_mapD [OF wf look] rm(5) show "op_id op = i" "0 < i" "i < ab_nextId (hx_ops s')" by (simp_all add: s'_def)
  show "get_ok W s op" by (rule hx_invD(5) [OF inv op])
  show "get_waits (pool_tokens (hx_pool s) + T) op" by (rule hx_invD(8) [OF inv op])
  show "hx_owed s = hx_owed s' + con_set (hg_callback (op_data op))"
    using bag by (simp add: hx_owed_def s'_def)
  have held: "held s = held s' + con_set (hg_con (op_data op))" using bag by (simp add: held_def s'_def)
  have sub: "set (ab_ops (hx_ops s')) \<subseteq> set (ab_ops (hx_ops s))" using rm(2) by (auto simp: s'_def)
  have "pool_inv W (held s' + (con_set (hg_con (op_data op)) + X)) (hx_pool s')"
    using hx_invD(4) [OF inv] unfolding held by (simp add: ac_simps s'_def)
  moreover have "get_ok W s' q" if "q \<in> set (ab_ops (hx_ops s'))" for q
    using hx_invD(5) [OF inv, of q] that sub by (auto simp: s'_def)
  moreover have "get_waits (pool_tokens (hx_pool s') + T) q" if "q \<in> set (ab_ops (hx_ops s'))" for q
    using hx_invD(8) [OF inv, of q] that sub by (auto simp: s'_def)
  moreover have "watches_ok s'" using hx_invD(6) [OF inv] rm(3,5) by (auto simp: watches_ok_def s'_def)
  moreover have "writes_ok s'" using hx_invD(7) [OF inv] by (simp add: writes_ok_def s'_def)
  moreover have "\<forall>j \<in># pool_tokens (hx_pool s') + T. j < ab_nextId (hx_ops s')"
    using hx_invD(3) [OF inv] rm(5) by (simp add: hx_core_def s'_def)
  moreover have "ab_ok (hx_ops s')" using ab_remove_ok [OF hx_invD(1) [OF inv] look] by (simp add: s'_def)
  ultimately show "hx_inv W (con_set (hg_con (op_data op)) + X) T s'" by (simp add: hx_inv_def hx_core_def)
  show "op_addr op \<notin> op_addr ` set (ab_ops (hx_ops s'))"
    using ab_wf_addrD [OF wf] op rm(2) by (auto simp: distinct_map inj_on_def s'_def)
  show "map_of (ab_map (hx_ops s')) i = None" using rm(3) by (simp add: s'_def)
qed

lemma hx_put:
  assumes inv: "hx_inv W (con_set (hg_con (op_data op)) + X) T s"
    and ok: "get_ok W s op" "get_waits (pool_tokens (hx_pool s) + T) op"
    and id: "0 < op_id op" "op_id op < ab_nextId (hx_ops s)" "map_of (ab_map (hx_ops s)) (op_id op) = None"
    and addr: "op_addr op \<notin> op_addr ` set (ab_ops (hx_ops s))"
    and watch: "\<And>c. hc_changed (hm_conns (hx_pool s) c) = Some (Watch_Context (op_id op)) \<Longrightarrow> op_state op = 2"
  shows "hx_inv W X T (hx_add op s)" "hx_owed (hx_add op s) = hx_owed s + con_set (hg_callback (op_data op))"
proof -
  have fresh: "op_fresh op (hx_ops s)" using id addr by (simp add: op_fresh_def)
  obtain j b where add: "addAsyncOp op (hx_ops s) = (j, b)" by fastforce
  have nz: "op_id op \<noteq> 0" using id(1) by simp
  have j: "j = op_id op" using add nz by (simp add: addAsyncOp_def Let_def)
  note bag = mset_addAsyncOp [OF fresh nz, unfolded add snd_conv]
  note ad = addAsyncOp_ok [OF hx_invD(1) [OF inv] fresh add]
  let ?s = "hx_add op s"
  have res: "?s = s\<lparr>hx_ops := b\<rparr>" using add by (simp add: hx_add_def)
  have set: "set (ab_ops b) = insert op (set (ab_ops (hx_ops s)))" using bag(1) by (metis set_mset_add_mset_insert set_mset_mset)
  have "held ?s = held s + con_set (hg_con (op_data op))" using bag(1) by (simp add: held_def res)
  then have "pool_inv W (held ?s + X) (hx_pool ?s)" using hx_invD(4) [OF inv] by (simp add: ac_simps res)
  moreover have "get_ok W ?s q" if "q \<in> set (ab_ops (hx_ops ?s))" for q
    using hx_invD(5) [OF inv, of q] ok(1) that set by (auto simp: res)
  moreover have "get_waits (pool_tokens (hx_pool ?s) + T) q" if "q \<in> set (ab_ops (hx_ops ?s))" for q
    using hx_invD(8) [OF inv, of q] ok(2) that set by (auto simp: res)
  moreover have "watches_ok ?s"
    using hx_invD(6) [OF inv] ad(2) bag(2) watch unfolding watches_ok_def res by (auto simp: j split: if_splits)
  moreover have "writes_ok ?s" using hx_invD(7) [OF inv] by (simp add: writes_ok_def res)
  moreover have "\<forall>j \<in># pool_tokens (hx_pool ?s) + T. j < ab_nextId (hx_ops ?s)"
    using hx_invD(3) [OF inv] bag(2) by (simp add: hx_core_def res)
  ultimately show "hx_inv W X T ?s" using ad(1) by (simp add: hx_inv_def hx_core_def res)
  show "hx_owed ?s = hx_owed s + con_set (hg_callback (op_data op))" using bag(1) by (simp add: hx_owed_def res)
qed

text \<open>The pool does something.\<close>

lemma hx_pool_step:
  assumes inv: "hx_inv W X T s" and p: "pool_inv W (held s + Y) p" "pool_frame (held s) (hx_pool s) p"
    and tokens: "pool_tokens p + T' = pool_tokens (hx_pool s) + T"
  shows "hx_inv W Y T' (s\<lparr>hx_pool := p\<rparr>)" "hx_owed (s\<lparr>hx_pool := p\<rparr>) = hx_owed s"
proof -
  let ?s = "s\<lparr>hx_pool := p\<rparr>"
  have "get_ok W ?s op" if op: "op \<in> set (ab_ops (hx_ops s))" for op
  proof -
    have ok: "get_ok W s op" by (rule hx_invD(5) [OF inv op])
    have "c \<in># held s" if "hg_con (op_data op) = Some c" for c
      using op that unfolding held_def by force
    then have "con_key (hm_conns p c) = con_key (hm_conns (hx_pool s) c) \<and> secure (hm_conns p c) = secure (hm_conns (hx_pool s) c)"
      if "hg_con (op_data op) = Some c" for c
      using p(2) that by (auto simp: pool_frame_def secure_def con_key_def)
    with ok show ?thesis by (auto simp: get_ok_def)
  qed
  moreover have "watches_ok ?s" using hx_invD(6) [OF inv] p(2) unfolding watches_ok_def pool_frame_def by simp blast
  moreover have "writes_ok ?s" using hx_invD(7) [OF inv] by (simp add: writes_ok_def)
  moreover have "held ?s = held s" by (simp add: held_def)
  ultimately show "hx_inv W Y T' ?s"
    using inv p(1) unfolding hx_inv_def hx_core_def by (simp add: tokens)
  show "hx_owed ?s = hx_owed s" by (simp add: hx_owed_def)
qed

lemma pool_frame_mono: "pool_frame X s s' \<Longrightarrow> set_mset Y \<subseteq> set_mset X \<Longrightarrow> pool_frame Y s s'"
  by (auto simp: pool_frame_def)

text \<open>A callback whose request is gone.\<close>

lemma hx_forget:
  assumes "hx_inv W X (add_mset i T) s" and "map_of (ab_map (hx_ops s)) i = None"
  shows "hx_inv W X T s"
proof -
  have "get_waits (pool_tokens (hx_pool s) + T) op" if "op \<in> set (ab_ops (hx_ops s))" for op
  proof -
    have "op_id op \<noteq> i" using assms(2) ab_wf_opsD [OF hx_invD(2) [OF assms(1)] that] by auto
    then show ?thesis using hx_invD(8) [OF assms(1) that] by (simp add: get_waits_def)
  qed
  then show ?thesis using assms(1) by (simp add: hx_inv_def hx_core_def)
qed

subsection \<open>Every handler keeps it\<close>

text \<open>A connection changes in the hands of a handler.\<close>

lemma hx_set_conn:
  assumes inv: "hx_inv W X T s" and x: "con_key x = con_key (hm_conns (hx_pool s) c)" "hc_tls x = hc_tls (hm_conns (hx_pool s) c)"
    and watch: "hc_changed x = hc_changed (hm_conns (hx_pool s) c)"
  shows "hx_inv W X T (s\<lparr>hx_pool := hm_set_conn c x (hx_pool s)\<rparr>)"
    "hx_owed (s\<lparr>hx_pool := hm_set_conn c x (hx_pool s)\<rparr>) = hx_owed s"
proof -
  let ?p = "hm_set_conn c x (hx_pool s)"
  have "pool_inv W (held s + X) ?p \<and> pool_tokens ?p = pool_tokens (hx_pool s)"
    by (intro conjI pool_set_conn [OF hx_invD(4) [OF inv]]) (simp_all add: x watch)
  moreover have "pool_frame (held s) (hx_pool s) ?p"
    using x watch by (auto simp: pool_frame_def hm_set_conn_def)
  ultimately show "hx_inv W X T (s\<lparr>hx_pool := ?p\<rparr>)" "hx_owed (s\<lparr>hx_pool := ?p\<rparr>) = hx_owed s"
    using hx_pool_step [OF inv, of X ?p T] by simp_all
qed

text \<open>A handler comes to an end with the invariant and its effect on the callers.\<close>

definition hx_good ::
  "(int \<Rightarrow> con_id) \<Rightarrow> int multiset \<Rightarrow> nat multiset \<Rightarrow> http_context outcome \<Rightarrow> bool" where
  "hx_good W T n r \<longleftrightarrow> (\<exists>s. r = Done s \<and> hx_inv W {#} T s \<and> hx_owed s = n)"

lemma hx_inv_tasks [simp]: "hx_inv W X T (s\<lparr>hx_tasks := ts\<rparr>) \<longleftrightarrow> hx_inv W X T s"
proof -
  have "get_ok W (s\<lparr>hx_tasks := ts\<rparr>) op = get_ok W s op" for op by (simp add: get_ok_def)
  then show ?thesis by (simp add: hx_inv_def hx_core_def held_def watches_ok_def writes_ok_def)
qed

lemma hx_inv_answers [simp]: "hx_inv W X T (s\<lparr>hx_answers := as\<rparr>) \<longleftrightarrow> hx_inv W X T s"
proof -
  have "get_ok W (s\<lparr>hx_answers := as\<rparr>) op = get_ok W s op" for op by (simp add: get_ok_def)
  then show ?thesis by (simp add: hx_inv_def hx_core_def held_def watches_ok_def writes_ok_def)
qed

lemma hx_finish_good:
  assumes inv: "hx_inv W (con_set (hg_con g)) T s"
    and con: "result = NoError \<Longrightarrow> \<exists>c. hg_con g = Some c \<and> secure (hm_conns (hx_pool s) c)"
  shows "hx_good W T (hx_owed s + con_set (hg_callback g)) (hx_finish E result g s)"
proof -
  define s1 where "s1 = s\<lparr>hx_tasks := hx_tasks s @ [(hg_callback g, result, response_of g)]\<rparr>"
  define s2 where "s2 = (case hg_con g of None \<Rightarrow> s1 | Some c \<Rightarrow> snd (swap_input c g s1))"
  have s1: "hx_inv W (con_set (hg_con g)) T s1" "hx_owed s1 = hx_owed s + con_set (hg_callback g)"
    using inv by (simp_all add: s1_def) (simp add: hx_owed_def)
  have s2: "hx_inv W (con_set (hg_con g)) T s2 \<and> hx_owed s2 = hx_owed s1"
    using hx_set_conn [OF s1(1)] s1(1)
    by (cases "hg_con g") (simp_all add: s2_def swap_input_def Let_def con_key_def)
  have "\<exists>c. hg_con g = Some c \<and> secure (hm_conns (hx_pool s2) c)" if "result = NoError"
    using con [OF that] by (auto simp: s2_def s1_def swap_input_def Let_def hm_set_conn_def secure_def)
  moreover have "pool_inv W (con_set (hg_con g) + held s2) (hx_pool s2)"
    using hx_invD(4) [OF conjunct1 [OF s2]] by (simp add: ac_simps)
  ultimately obtain p where p: "giveBack E result (hg_con g) (hx_pool s2) = Done p"
    "pool_inv W (held s2) p" "pool_tokens p = pool_tokens (hx_pool s2)" "pool_frame (held s2) (hx_pool s2) p"
    using giveBack_ok [of W "hg_con g" "held s2" "hx_pool s2" result E] by (auto simp: pool_to_def)
  have "hx_finish E result g s = Done (s2\<lparr>hx_pool := p\<rparr>)"
    using p(1) by (simp add: hx_finish_def Let_def flip: s1_def s2_def)
  moreover have "hx_inv W {#} T (s2\<lparr>hx_pool := p\<rparr>)" "hx_owed (s2\<lparr>hx_pool := p\<rparr>) = hx_owed s2"
    using hx_pool_step [OF conjunct1 [OF s2], of "{#}" p T] p by simp_all
  ultimately show ?thesis using s2 s1(2) by (simp add: hx_good_def)
qed

lemma hx_drop:
  assumes "hx_inv W (Y + X) T s"
  shows "hx_inv W X T s"
proof -
  have "pool_inv W (Y + (held s + X)) (hx_pool s)" using hx_invD(4) [OF assms] by (simp add: ac_simps)
  then show ?thesis using assms pool_drop unfolding hx_inv_def hx_core_def by blast
qed

lemma hx_watch:
  assumes inv: "hx_inv W X T s" and i: "i < ab_nextId (hx_ops s)" "map_of (ab_map (hx_ops s)) i = None"
    and x: "x = (hm_conns (hx_pool s) c)\<lparr>hc_changed := Some (Watch_Context i)\<rparr>"
  defines "s' \<equiv> s\<lparr>hx_pool := hm_set_conn c x (hx_pool s)\<rparr>"
  shows "hx_inv W X T s'" "hx_owed s' = hx_owed s"
proof -
  have fields: "hx_ops s' = hx_ops s" "hx_alloc s' = hx_alloc s" "hx_writes s' = hx_writes s"
    "hm_conns (hx_pool s') = (hm_conns (hx_pool s))(c := x)" by (simp_all add: s'_def hm_set_conn_def)
  have "pool_inv W (held s + X) (hm_set_conn c x (hx_pool s)) \<and>
      pool_tokens (hm_set_conn c x (hx_pool s)) = pool_tokens (hx_pool s)"
    by (intro conjI pool_set_conn [OF hx_invD(4) [OF inv]]) (simp_all add: x con_key_def)
  then have p: "pool_inv W (held s + X) (hx_pool s') \<and> pool_tokens (hx_pool s') = pool_tokens (hx_pool s)"
    by (simp add: s'_def)
  have "con_key (hm_conns (hx_pool s') e) = con_key (hm_conns (hx_pool s) e)"
    "secure (hm_conns (hx_pool s') e) = secure (hm_conns (hx_pool s) e)" for e
    by (simp_all add: fields x con_key_def secure_def)
  then have "get_ok W s' op \<longleftrightarrow> get_ok W s op" for op by (simp add: get_ok_def fields(2))
  moreover have "watches_ok s'" using hx_invD(6) [OF inv] i by (simp add: watches_ok_def fields x)
  moreover have "writes_ok s'" using hx_invD(7) [OF inv] by (simp add: writes_ok_def fields)
  moreover have "held s' = held s" by (simp add: held_def fields)
  ultimately show "hx_inv W X T s'" using inv p by (simp add: hx_inv_def hx_core_def fields)
  show "hx_owed s' = hx_owed s" by (simp add: hx_owed_def s'_def)
qed

lemma hx_written:
  assumes inv: "hx_inv W X T s" and "con_key x = url_key u" "secure x"
  shows "hx_inv W X T (s\<lparr>hx_writes := hx_writes s @ [(u, x, bytes)]\<rparr>)"
    "hx_owed (s\<lparr>hx_writes := hx_writes s @ [(u, x, bytes)]\<rparr>) = hx_owed s"
proof -
  let ?s = "s\<lparr>hx_writes := hx_writes s @ [(u, x, bytes)]\<rparr>"
  have "get_ok W ?s op = get_ok W s op" for op by (simp add: get_ok_def)
  moreover have "writes_ok ?s" using hx_invD(7) [OF inv] assms(2,3) by (auto simp: writes_ok_def)
  ultimately show "hx_inv W X T ?s" using inv by (simp add: hx_inv_def hx_core_def held_def watches_ok_def)
qed (simp add: hx_owed_def)

lemma hx_onConnect_good:
  assumes inv: "hx_inv W (con_set con) (add_mset i T) s"
    and con: "case con of None \<Rightarrow> failed result
      | Some c \<Rightarrow> result = NoError \<and> con_key (hm_conns (hx_pool s) c) = W i \<and> secure (hm_conns (hx_pool s) c)"
  shows "hx_good W T (hx_owed s) (hx_onConnect E result con i s)"
proof (cases "map_of (ab_map (hx_ops s)) i")
  case None
  have "hx_inv W {#} T s" using hx_drop [of W "con_set con" "{#}"] hx_forget [OF inv None] by simp
  then show ?thesis using None
    by (simp add: hx_onConnect_def getReadyAsyncOpInState_def getReadyAsyncOpOf_def getReadyAsyncOp_def hx_good_def)
next
  case (Some op)
  define s1 where "s1 = s\<lparr>hx_ops := ab_remove op i (hx_ops s)\<rparr>"
  define g where "g = op_data op"
  note tk = hx_take [OF inv Some, folded s1_def g_def]
  have st: "op_state op = 1" using tk(4) by (simp add: get_waits_def tk(5) split: if_splits)
  then obtain bytes where g: "hg_con g = None" "hg_request g = Some bytes" "op_type op = 1" "\<not> hg_finished g" "W i = url_key (hg_url g)"
    using tk(3) by (auto simp: get_ok_def tk(5) g_def)
  have inv1: "hx_inv W (con_set con) T s1" using hx_forget [OF _ tk(9)] tk(1) g(1) by simp
  have get: "getReadyAsyncOpInState i GET_OPERATION HG_WAITCONNECT (hx_ops s) = (Some op, ab_remove op i (hx_ops s))"
    using Some g(3) st by (simp add: getReadyAsyncOpInState_def getReadyAsyncOpOf_def getReadyAsyncOp_def)
  show ?thesis
  proof (cases con)
    case None
    then have "hx_onConnect E result con i s = hx_finish E result g s1"
      using con get by (simp add: hx_onConnect_def s1_def g_def Let_def)
    moreover have "hx_good W T (hx_owed s1 + con_set (hg_callback g)) (hx_finish E result g s1)"
      using inv1 None con g(1) by (intro hx_finish_good) auto
    ultimately show ?thesis using tk(2) by simp
  next
    case (Some c)
    define x where "x = (hm_conns (hx_pool s1) c)\<lparr>hc_changed := Some (Watch_Context i)\<rparr>"
    define s2 where "s2 = s1\<lparr>hx_pool := hm_set_conn c x (hx_pool s1)\<rparr>"
    define g1 where "g1 = g\<lparr>hg_con := Some c, hg_response := True,
       hg_parser := (hg_parser g)\<lparr>hp_response := rs_new\<lparr>rs_authenticated := he_authenticated E c\<rparr>\<rparr>\<rparr>"
    define y where "y = x\<lparr>hc_inputBuffer := hp_input (hg_parser g1)\<rparr>"
    define s3 where "s3 = s2\<lparr>hx_pool := hm_set_conn c y (hx_pool s2)\<rparr>"
    define g2 where "g2 = g1\<lparr>hg_parser := (hg_parser g1)\<lparr>hp_input := hc_inputBuffer x\<rparr>\<rparr>"
    define s4 where "s4 = s3\<lparr>hx_writes := hx_writes s3 @ [(hg_url g2, y, bytes)]\<rparr>"
    define g3 where "g3 = g2\<lparr>hg_request := None\<rparr>"
    have c: "con_key (hm_conns (hx_pool s1) c) = url_key (hg_url g)" "secure (hm_conns (hx_pool s1) c)" "result = NoError"
      using con g(5) by (simp_all add: Some s1_def)
    have i: "i < ab_nextId (hx_ops s1)" by (rule tk(7))
    have s2: "hx_inv W {#c#} T s2" "hx_owed s2 = hx_owed s1"
      using hx_watch [OF inv1 i tk(9) x_def] by (simp_all add: s2_def Some)
    have at2: "hm_conns (hx_pool s2) c = x" by (simp add: s2_def hm_set_conn_def)
    have s3: "hx_inv W {#c#} T s3" "hx_owed s3 = hx_owed s1"
      using hx_set_conn [OF s2(1), of y c] s2(2) by (simp_all add: s3_def at2 y_def con_key_def)
    have at3: "hm_conns (hx_pool s3) c = y" by (simp add: s3_def hm_set_conn_def)
    have y: "con_key y = url_key (hg_url g2)" "secure y"
      using c by (simp_all add: y_def x_def con_key_def secure_def g2_def g1_def)
    have s4: "hx_inv W {#c#} T s4" "hx_owed s4 = hx_owed s1"
      using hx_written [OF s3(1) y] s3(2) by (simp_all add: s4_def)
    have swap: "swap_input c g1 s2 = (g2, s3)" by (simp add: swap_input_def Let_def at2 g2_def s3_def y_def)
    have req: "hg_request g2 = Some bytes" by (simp add: g2_def g1_def g(2))
    have run: "hx_onConnect E result con i s =
        (if failed (he_write E c bytes) then hx_finish E (he_write E c bytes) g3 s4
         else Done (hx_add (op\<lparr>op_state := HG_RECEIVE, op_data := g3\<rparr>) s4))"
      unfolding hx_onConnect_def get prod.case option.case Let_def s1_def [symmetric] g_def [symmetric] Some
        x_def [symmetric] s2_def [symmetric] g1_def [symmetric] swap req at3 s4_def [symmetric] g3_def [symmetric]
      by (simp add: c(3))
    have cb: "hg_callback g3 = hg_callback g" "hg_con g3 = Some c" by (simp_all add: g3_def g2_def g1_def)
    show ?thesis
    proof (cases "failed (he_write E c bytes)")
      case True
      then show ?thesis
        using hx_finish_good [of W g3 T s4 "he_write E c bytes" E] s4 cb tk(2) by (simp add: run)
    next
      case False
      let ?op = "op\<lparr>op_state := HG_RECEIVE, op_data := g3\<rparr>"
      have f4: "hx_ops s4 = hx_ops s1" "hx_alloc s4 = hx_alloc s" "hm_conns (hx_pool s4) c = y" "hx_alloc s1 = hx_alloc s"
        by (simp_all add: s4_def s3_def s2_def s1_def hm_set_conn_def)
      have "get_ok W s4 ?op"
        using tk(3) y g by (auto simp: get_ok_def f4 g3_def g2_def g1_def g_def tk(5))
      moreover have "pool_tokens (hx_pool s4) = pool_tokens (hx_pool s)"
        by (simp add: s4_def s3_def s2_def s1_def pool_tokens_def hm_set_conn_def)
      then have "get_waits (pool_tokens (hx_pool s4) + T) ?op"
        using tk(4) st by (simp add: get_waits_def tk(5))
      ultimately have "hx_inv W {#} T (hx_add ?op s4)" "hx_owed (hx_add ?op s4) = hx_owed s1 + con_set (hg_callback g)"
        using hx_put [of W ?op "{#}" T s4] s4 cb tk(5-9) by (simp_all add: f4)
      then show ?thesis using False tk(2) by (simp add: run hx_good_def)
    qed
  qed
qed

text \<open>A request goes on with its connection: it waits for more, or it is finished.\<close>

definition parser_fault :: "http_env \<Rightarrow> http_context outcome \<Rightarrow> bool" where
  "parser_fault E r \<longleftrightarrow> (\<exists>f bytes p. r = Fault f \<and> hp_push (he_nat E) bytes p = Some (Fault f))"

lemma parser_faultI: "hp_push (he_nat E) bytes p = Some (Fault f) \<Longrightarrow> parser_fault E (Fault f)"
  by (auto simp: parser_fault_def)

lemma parser_fault_Done [simp]: "\<not> parser_fault E (Done s)"
  by (simp add: parser_fault_def)

lemma hx_onChanged_good:
  assumes inv: "hx_inv W {#} T s" and watch: "hc_changed (hm_conns (hx_pool s) c') = Some (Watch_Context i)"
    and run: "hx_onChanged E i s = Some r"
  shows "hx_good W T (hx_owed s) r \<or> parser_fault E r"
proof (cases "map_of (ab_map (hx_ops s)) i")
  case None
  then show ?thesis using run inv
    by (auto simp: hx_onChanged_def getReadyAsyncOpInState_def getReadyAsyncOpOf_def getReadyAsyncOp_def hx_good_def)
next
  case (Some op)
  define s1 where "s1 = s\<lparr>hx_ops := ab_remove op i (hx_ops s)\<rparr>"
  define g where "g = op_data op"
  note tk = hx_take [OF inv Some, folded s1_def g_def]
  have st: "op_state op = 2" using hx_invD(6) [OF inv] watch Some unfolding watches_ok_def by blast
  from tk(3) st obtain c where g: "hg_con g = Some c" "op_type op = 1" "\<not> hg_finished g" "secure (hm_conns (hx_pool s1) c)"
    by (auto simp: get_ok_def g_def s1_def)
  have get: "getReadyAsyncOpInState i GET_OPERATION HG_RECEIVE (hx_ops s) = (Some op, ab_remove op i (hx_ops s))"
    using Some g(2) st by (simp add: getReadyAsyncOpInState_def getReadyAsyncOpOf_def getReadyAsyncOp_def)
  define x where "x = hm_conns (hx_pool s1) c"
  define s2 where "s2 = s1\<lparr>hx_pool := hm_set_conn c (x\<lparr>hc_in := []\<rparr>) (hx_pool s1)\<rparr>"
  have s2: "hx_inv W {#c#} T s2" "hx_owed s2 = hx_owed s1"
    using hx_set_conn [of W "{#c#}" T s1 "x\<lparr>hc_in := []\<rparr>" c] tk(1) g(1)
    by (simp_all add: s2_def x_def con_key_def)
  have at2: "hm_conns (hx_pool s2) c = x\<lparr>hc_in := []\<rparr>" by (simp add: s2_def hm_set_conn_def)
  have f2: "hx_ops s2 = hx_ops s1" "hx_alloc s2 = hx_alloc s" "pool_tokens (hx_pool s2) = pool_tokens (hx_pool s)"
    by (simp_all add: s2_def s1_def pool_tokens_def hm_set_conn_def)
  have finish: "hx_good W T (hx_owed s) (hx_finish E e g' s2)"
    if "hg_con g' = Some c" "hg_callback g' = hg_callback g" for e g'
    using hx_finish_good [of W g' T s2 e E] s2 tk(2) g(4) that by (simp add: at2 x_def secure_def)
  have put: "hx_good W T (hx_owed s) (Done (hx_add (op\<lparr>op_data := g'\<rparr>) s2))"
    if g': "hg_con g' = Some c" "hg_callback g' = hg_callback g" "hg_url g' = hg_url g" "\<not> hg_finished g'" for g'
  proof -
    have "get_ok W s2 (op\<lparr>op_data := g'\<rparr>)"
      using tk(3) g g' st by (auto simp: get_ok_def f2 at2 g_def x_def s1_def secure_def con_key_def)
    moreover have "get_waits (pool_tokens (hx_pool s2) + T) (op\<lparr>op_data := g'\<rparr>)"
      using tk(4) by (simp add: get_waits_def f2)
    ultimately show ?thesis
      using hx_put [of W "op\<lparr>op_data := g'\<rparr>" "{#}" T s2] s2 g' tk(2,5-9) st by (simp add: f2 hx_good_def)
  qed
  have "op\<lparr>op_data := g\<rparr> = op" by (simp add: g_def)
  then have put0: "hx_good W T (hx_owed s) (Done (hx_add op s2))" using put [of g] g(1,3) by simp
  show ?thesis
    using run g put0
    unfolding hx_onChanged_def get prod.case option.case Let_def s1_def [symmetric] g_def [symmetric] g(1)
    unfolding option.case x_def [symmetric] s2_def [symmetric]
    by (auto simp: put finish g intro: parser_faultI split: if_splits option.splits outcome.splits)
qed

text \<open>A channel that calls back; \<open>hc_changed\<close> says whom.\<close>

lemma hx_channel_good:
  assumes inv: "hx_inv W {#} {#} s" and run: "hx_channel E c bytes e s = Some r"
  shows "hx_good W {#} (hx_owed s) r \<or> parser_fault E r"
proof -
  define x where "x = hm_conns (hx_pool s) c"
  define s1 where "s1 = s\<lparr>hx_pool := hm_set_conn c (x\<lparr>hc_in := hc_in x @ bytes, hc_error := e\<rparr>) (hx_pool s)\<rparr>"
  have s1: "hx_inv W {#} {#} s1" "hx_owed s1 = hx_owed s"
    using hx_set_conn [OF inv, of "x\<lparr>hc_in := hc_in x @ bytes, hc_error := e\<rparr>" c]
    by (simp_all add: s1_def x_def con_key_def)
  have at1: "hc_changed (hm_conns (hx_pool s1) c) = hc_changed x" by (simp add: s1_def hm_set_conn_def)
  note run = run [unfolded hx_channel_def Let_def x_def [symmetric] s1_def [symmetric]]
  show ?thesis
  proof (cases "hc_changed x")
    case None
    then show ?thesis using run s1 by (auto simp: hx_good_def)
  next
    case (Some w)
    show ?thesis
    proof (cases w)
      case (Watch_Pool i)
      have "pool_to W (held s1) (pool_tokens (hx_pool s1)) (hx_pool s1) (hm_onChannelChange i (hx_pool s1))"
        using channelChange_ok [of W "held s1" "hx_pool s1" c i] hx_invD(4) [OF s1(1)] at1 by (simp add: Some Watch_Pool)
      moreover have "r = Done (s1\<lparr>hx_pool := hm_onChannelChange i (hx_pool s1)\<rparr>)" using run by (simp add: Some Watch_Pool)
      ultimately show ?thesis
        using hx_pool_step [OF s1(1), of "{#}" "hm_onChannelChange i (hx_pool s1)" "{#}"] s1(2)
        by (simp add: pool_to_def hx_good_def)
    next
      case (Watch_Context i)
      then show ?thesis using hx_onChanged_good [OF s1(1), of c i E r] run s1(2) at1 by (simp add: Some)
    qed
  qed
qed

subsection \<open>New requests\<close>

lemma pool_inv_wants:
  assumes inv: "pool_inv W X s" and W': "\<And>i. i \<in># pool_tokens s \<Longrightarrow> W' i = W i"
  shows "pool_inv W' X s"
proof -
  have "placed W' s op" if op: "op \<in> set (ab_ops (hm_ops s))" for op
  proof -
    have "cb \<in># pool_tokens s" if "op_data op = Establish c cb" for c cb
      using op that by (force simp: pool_tokens_def)
    then have "data_ok W' s op \<longleftrightarrow> data_ok W s op"
      by (cases "op_data op") (simp_all add: data_ok_def W')
    with pool_invD(3) [OF inv op] show ?thesis by (simp add: placed_def)
  qed
  moreover have "task_ok W' s t" if t: "t \<in> set (hm_tasks s)" for t
  proof -
    have "i \<in># pool_tokens s" if "t = Call_Back i e con" for i e con
      using t that by (force simp: pool_tokens_def)
    then have "task_ok W' s t \<longleftrightarrow> task_ok W s t"
      by (cases t) (simp_all add: task_ok_def W' split: option.split)
    with inv t show ?thesis by (simp add: pool_inv_def pool_core_def)
  qed
  ultimately show ?thesis using inv by (simp add: pool_inv_def pool_core_def)
qed

lemma hx_request_good:
  assumes inv: "hx_inv W {#} {#} s"
  shows "hx_inv (W(ab_nextId (hx_ops s) := url_key (hr_url r))) {#} {#} (hx_request E r ms cb s)"
    "hx_owed (hx_request E r ms cb s) = hx_owed s + con_set cb"
proof -
  let ?i = "ab_nextId (hx_ops s)" and ?W = "W(ab_nextId (hx_ops s) := url_key (hr_url r))"
  let ?g = "\<lparr>hg_request = Some (hr_result r), hg_callback = cb, hg_url = hr_url r, hg_con = None,
     hg_response = False, hg_parser = hp_new (he_memory E), hg_finished = False\<rparr>"
  let ?op = "(new_op GET_OPERATION (regTimeOutMs (he_now E) ms) (hx_alloc s) ?g)\<lparr>op_id := ?i, op_state := HG_WAITCONNECT\<rparr>"
  define p where "p = requestConnection E (hr_url r) ms ?i (hx_pool s)"
  define b where "b = snd (genFreeId (hx_ops s))"
  define t where "t = s\<lparr>hx_ops := b, hx_alloc := hx_alloc s + 1\<rparr>"
  define u where "u = t\<lparr>hx_pool := p\<rparr>"
  have res: "hx_request E r ms cb s = hx_add ?op u"
    by (simp add: hx_request_def genFreeId_def Let_def u_def t_def p_def b_def)
  have b: "ab_ops b = ab_ops (hx_ops s)" "ab_map b = ab_map (hx_ops s)" "ab_nextId b = ?i + 1" "ab_ok b"
    using genFreeId_ok [OF hx_invD(1) [OF inv]] by (simp_all add: b_def genFreeId_def)
  note wf = hx_invD(2) [OF inv]
  have tok: "j < ?i" if "j \<in># pool_tokens (hx_pool s)" for j
    using hx_invD(3) [OF inv] that by (auto simp: hx_core_def)
  have ops: "op_id q < ?i" "op_addr q < hx_alloc s" if "q \<in> set (ab_ops (hx_ops s))" for q
    using ab_wf_mapD [OF wf ab_wf_opsD [OF wf that]] hx_invD(5) [OF inv that] by (auto simp: get_ok_def)
  have none: "map_of (ab_map (hx_ops s)) ?i = None"
    using ab_wf_mapD [OF wf, of ?i] by (cases "map_of (ab_map (hx_ops s)) ?i") auto
  have "pool_inv ?W (held s) (hx_pool s)"
    using pool_inv_wants [of W "held s" "hx_pool s" ?W] hx_invD(4) [OF inv] tok by fastforce
  then have p: "pool_inv ?W (held s) p" "pool_tokens p = add_mset ?i (pool_tokens (hx_pool s))" "pool_frame (held s) (hx_pool s) p"
    using requestConnection_ok [of ?W "held s" "hx_pool s" ?i "hr_url r" E ms] by (simp_all add: pool_to_def p_def)
  have t: "hx_inv ?W {#} {#?i#} t"
  proof -
    have "get_ok ?W t q \<and> get_waits (pool_tokens (hx_pool t) + {#?i#}) q" if "q \<in> set (ab_ops (hx_ops t))" for q
      using hx_invD(5,8) [OF inv, of q] ops [of q] that by (auto simp: get_ok_def get_waits_def t_def b)
    moreover have "watches_ok t" using hx_invD(6) [OF inv] by (auto simp: watches_ok_def t_def b) force+
    moreover have "j < ab_nextId (hx_ops t)" if "j \<in># pool_tokens (hx_pool t) + {#?i#}" for j
      using tok [of j] that by (auto simp: t_def b)
    ultimately show ?thesis
      using hx_invD(7) [OF inv] \<open>pool_inv ?W (held s) (hx_pool s)\<close> b(4)
      by (simp add: hx_inv_def hx_core_def t_def held_def writes_ok_def b)
  qed
  have held: "held t = held s" "hx_pool t = hx_pool s" by (simp_all add: held_def t_def b)
  have u: "hx_inv ?W {#} {#} u" "hx_owed u = hx_owed s"
    using hx_pool_step [OF t, of "{#}" p "{#}"] p by (simp_all add: u_def held) (simp add: hx_owed_def t_def b)
  have fu: "hx_ops u = b" "hx_alloc u = hx_alloc s + 1" "hx_pool u = p" by (simp_all add: u_def t_def)
  have "count (pool_tokens (hx_pool s)) ?i = 0" using tok [of ?i] by (auto simp flip: not_in_iff)
  then have "get_waits (pool_tokens (hx_pool u) + {#}) ?op" by (simp add: get_waits_def fu p(2))
  moreover have "get_ok ?W u ?op" by (simp add: get_ok_def fu new_op_def)
  moreover have "hc_changed (hm_conns (hx_pool u) c) \<noteq> Some (Watch_Context ?i)" for c
    using hx_invD(6) [OF inv] p(3) unfolding watches_ok_def pool_frame_def fu by blast
  moreover have "0 < ?i" using wf by (simp add: ab_wf_def)
  moreover have "hx_alloc s \<notin> op_addr ` set (ab_ops (hx_ops s))" using ops(2) by force
  ultimately have "hx_inv ?W {#} {#} (hx_add ?op u)" "hx_owed (hx_add ?op u) = hx_owed u + con_set cb"
    using hx_put [of ?W ?op "{#}" "{#}" u] u none by (simp_all add: fu b new_op_def)
  then show "hx_inv ?W {#} {#} (hx_request E r ms cb s)" "hx_owed (hx_request E r ms cb s) = hx_owed s + con_set cb"
    using u(2) by (simp_all only: res)
qed

subsection \<open>The calls of the main loop\<close>

lemma hx_runCalls_good:
  assumes "hx_inv W {#} (mset (map fst calls)) s" and "\<And>i e con. (i, e, con) \<in> set calls \<Longrightarrow> failed e \<and> con = None"
  shows "hx_good W {#} (hx_owed s) (hx_runCalls E calls s)"
  using assms
proof (induction calls arbitrary: s)
  case (Cons call calls)
  obtain i e where call: "call = (i, e, None)" "failed e" using Cons.prems(2) by (cases call) auto
  have "hx_good W (mset (map fst calls)) (hx_owed s) (hx_onConnect E e None i s)"
    using hx_onConnect_good [of W None i "mset (map fst calls)" s e E] Cons.prems(1) call by simp
  then obtain t where t: "hx_onConnect E e None i s = Done t" "hx_inv W {#} (mset (map fst calls)) t" "hx_owed t = hx_owed s"
    by (auto simp: hx_good_def)
  have "hx_good W {#} (hx_owed t) (hx_runCalls E calls t)"
    by (rule Cons.IH [OF t(2)]) (use Cons.prems(2) in auto)
  then show ?case using t by (simp add: call)
qed (simp add: hx_good_def)

lemma hx_poolTimer_good:
  assumes inv: "hx_inv W {#} {#} s" and run: "hx_poolTimer E ct s = Some r"
  shows "hx_good W {#} (hx_owed s) r"
proof -
  obtain p where p: "hm_onTimer ct (hx_pool s) = Some p" "r = hx_runCalls E (hm_calls p) (s\<lparr>hx_pool := p\<lparr>hm_calls := []\<rparr>\<rparr>)"
    using run by (auto simp: hx_poolTimer_def split: option.splits)
  let ?p = "p\<lparr>hm_calls := []\<rparr>" and ?T = "mset (map fst (hm_calls p))"
  have P: "pool_inv W (held s) p" "pool_tokens p = pool_tokens (hx_pool s)" "pool_frame (held s) (hx_pool s) p"
    using expire_ok [OF _ p(1)] hx_invD(4) [OF inv] by (auto simp: pool_to_def)
  note calls = pool_calls_ok [OF P(1) HOL.refl]
  have "hx_inv W {#} ?T (s\<lparr>hx_pool := ?p\<rparr>)" "hx_owed (s\<lparr>hx_pool := ?p\<rparr>) = hx_owed s"
    using hx_pool_step [OF inv, of "{#}" ?p ?T] calls P(2) pool_frame_trans [OF P(3) calls(3)] by simp_all
  moreover have "failed e \<and> con = None" if "(i, e, con) \<in> set (hm_calls p)" for i e con
    using P(1) that unfolding pool_inv_def pool_core_def by blast
  ultimately show ?thesis using hx_runCalls_good [of W "hm_calls p" "s\<lparr>hx_pool := ?p\<rparr>" E] p(2) by simp
qed

lemma hx_await_good:
  assumes inv: "hx_inv W {#} {#} s" and "hm_awaits (hx_pool s) = xs @ a # ys"
  shows "\<exists>p. hx_await E e a ((hx_pool s)\<lparr>hm_awaits := xs @ ys\<rparr>) = Done p \<and> hx_good W {#} (hx_owed s) (Done (s\<lparr>hx_pool := p\<rparr>))"
proof -
  obtain p where p: "hx_await E e a ((hx_pool s)\<lparr>hm_awaits := xs @ ys\<rparr>) = Done p"
    "pool_to W (held s) (pool_tokens (hx_pool s)) (hx_pool s) p"
    using pool_await_ok [OF _ assms(2), of W "held s" E e] hx_invD(4) [OF inv] by auto
  then show ?thesis using hx_pool_step [OF inv, of "{#}" p "{#}"] by (simp add: pool_to_def hx_good_def)
qed

lemma hx_runTask_good:
  assumes inv: "hx_inv W {#} {#} s" and run: "hx_runTask s = Done s'"
  shows "hx_good W {#} (hx_owed s) (Done s')"
proof (cases "hx_tasks s")
  case (Cons t ts)
  then obtain n e r where t: "t = (Some n, e, r)" using run by (cases t; cases "fst t") (auto simp: hx_runTask_def)
  then have s': "s' = s\<lparr>hx_tasks := ts, hx_answers := hx_answers s @ [(n, e, r)]\<rparr>" using run Cons by (simp add: hx_runTask_def)
  have "hx_inv W {#} {#} (s\<lparr>hx_tasks := ts\<rparr>\<lparr>hx_answers := hx_answers (s\<lparr>hx_tasks := ts\<rparr>) @ [(n, e, r)]\<rparr>)"
    using inv by simp
  moreover have "hx_owed s' = hx_owed s" unfolding s' by (simp add: hx_owed_def Cons t)
  ultimately show ?thesis by (simp add: s' hx_good_def)
qed (use assms in \<open>simp add: hx_runTask_def hx_good_def\<close>)

lemma hx_runPoolTask_good:
  assumes inv: "hx_inv W {#} {#} s"
  shows "hx_good W {#} (hx_owed s) (hx_runPoolTask E s)"
proof (cases "hm_tasks (hx_pool s)")
  case Nil
  then show ?thesis using inv by (simp add: hx_runPoolTask_def hx_good_def)
next
  case (Cons t ts)
  let ?p = "(hx_pool s)\<lparr>hm_tasks := ts\<rparr>" and ?s = "s\<lparr>hx_pool := (hx_pool s)\<lparr>hm_tasks := ts\<rparr>\<rparr>"
  have "pool_inv W (held s) (hx_pool s)" using hx_invD(4) [OF inv] by simp
  note pr = pool_run [OF this Cons]
  have s1: "hx_inv W (task_conns t) (task_tokens t) ?s" "hx_owed ?s = hx_owed s"
    using hx_pool_step [OF inv, of "task_conns t" ?p "task_tokens t"] pr(1,2)
    by (simp_all add: pool_frame_conns ac_simps)
  have run: "hx_runPoolTask E s = (case t of
      Call_Back i e con \<Rightarrow> hx_onConnect E e con i ?s
    | Throw_Away c \<Rightarrow> Done ?s
    | Remove_Pending k i \<Rightarrow> Done (?s\<lparr>hx_pool := removeFromPendingConnectionsExplicit k i ?p\<rparr>))"
    by (simp add: hx_runPoolTask_def Cons Let_def split: pool_task.split)
  show ?thesis
  proof (cases t)
    case (Call_Back i e con)
    have "task_conns t = con_set con" "task_tokens t = {#i#}" by (cases con; simp add: Call_Back)+
    moreover have "case con of None \<Rightarrow> failed e
        | Some c \<Rightarrow> e = NoError \<and> con_key (hm_conns (hx_pool ?s) c) = W i \<and> secure (hm_conns (hx_pool ?s) c)"
      using pr(3) by (cases con) (simp_all add: task_ok_def Call_Back)
    ultimately have "hx_good W {#} (hx_owed ?s) (hx_onConnect E e con i ?s)"
      using s1(1) by (intro hx_onConnect_good) simp_all
    then show ?thesis unfolding run s1(2) by (simp add: Call_Back)
  next
    case (Throw_Away c)
    then show ?thesis using s1 by (simp add: run hx_good_def)
  next
    case (Remove_Pending k i)
    have p0: "pool_inv W (held s) (hx_pool s)" using hx_invD(4) [OF inv] by simp
    have "map_of (ab_map (hm_ops (hx_pool s))) i \<noteq> Some op" for op
    proof
      assume "map_of (ab_map (hm_ops (hx_pool s))) i = Some op"
      from ab_wf_mapD [OF pool_invD(2) [OF p0] this] have "placed W (hx_pool s) op" "op_id op = i"
        using pool_invD(3) [OF p0] by blast+
      with placedD(8) [OF this(1), of k] show False by (simp add: Cons Remove_Pending)
    qed
    then have "map_of (ab_map (hm_ops ?p)) i = None" by (simp add: option.exhaust_sel) (metis not_None_eq)
    then have "pool_to W (held ?s) (pool_tokens ?p) ?p (removeFromPendingConnectionsExplicit k i ?p)"
      using removePending_ok [of W "held ?s" ?p i k] hx_invD(4) [OF s1(1)] by (simp add: Remove_Pending)
    then show ?thesis
      using hx_pool_step [OF s1(1), of "{#}" _ "{#}"] s1(2) by (simp add: run Remove_Pending pool_to_def hx_good_def)
  qed
qed

subsection \<open>Requests that time out\<close>

lemma hx_cancel_good:
  assumes inv: "hx_inv W {#} T s" and look: "map_of (ab_map (hx_ops s)) i = Some op"
  shows "hx_good W T (hx_owed s) (Done (hx_onCancel e op (s\<lparr>hx_ops := ab_remove op i (hx_ops s)\<rparr>)))"
proof -
  define t where "t = s\<lparr>hx_ops := ab_remove op i (hx_ops s)\<rparr>"
  note tk = hx_take [OF inv look, folded t_def]
  have "hx_inv W {#} T t" using hx_drop [OF tk(1)] .
  then have "hx_inv W {#} T (hx_onCancel e op t)" by (simp add: hx_onCancel_def split: option.split)
  moreover have "hx_owed (hx_onCancel e op t) = hx_owed s"
    unfolding tk(2) by (simp add: hx_onCancel_def hx_owed_def split: option.split)
  ultimately show ?thesis by (simp add: hx_good_def t_def)
qed

lemma hx_timer_good:
  assumes inv: "hx_inv W {#} T s" and run: "hx_onTimer ct s = Some s'"
  shows "hx_good W T (hx_owed s) (Done s')"
proof (rule context_ops.timer_keeps [OF run [unfolded hx_onTimer_def], where P = "\<lambda>r. hx_good W T (hx_owed s) (Done r)"])
  show "hx_good W T (hx_owed s) (Done s)" using inv by (simp add: hx_good_def)
next
  fix r assume "hx_good W T (hx_owed s) (Done r)"
  then show "ab_ok (hx_ops r)" by (auto simp: hx_good_def dest: hx_invD(1))
next
  fix r op
  assume P: "hx_good W T (hx_owed s) (Done r)" and look: "map_of (ab_map (hx_ops r)) (op_id op) = Some op"
  with hx_cancel_good [of W T r "op_id op" op TimeOut]
  show "hx_good W T (hx_owed s) (Done (hx_onCancel TimeOut op (hx_put_ops (ab_remove op (op_id op) (hx_ops r)) r)))"
    by (simp add: hx_good_def hx_put_ops_def)
next
  fix r b
  assume "hx_good W T (hx_owed s) (Done r)" "ab_ok b" "ab_ops b = ab_ops (hx_ops r)" "ab_map b = ab_map (hx_ops r)"
    "ab_nextId b = ab_nextId (hx_ops r)"
  then show "hx_good W T (hx_owed s) (Done (hx_put_ops b r))"
    by (simp add: hx_good_def hx_put_ops_def hx_inv_def hx_core_def held_def watches_ok_def writes_ok_def hx_owed_def)
qed

subsection \<open>Runs\<close>

lemma hx_inv_new: "hx_inv W {#} {#} hx_new" "hx_owed hx_new = {#}"
proof -
  have "ab_ops (ab_init :: get_op async_base) = []" "ab_map (ab_init :: get_op async_base) = []" by (simp_all add: ab_init_def)
  then show "hx_inv W {#} {#} hx_new" "hx_owed hx_new = {#}"
    using pool_inv_new
    by (simp_all add: hx_inv_def hx_core_def hx_new_def held_def watches_ok_def writes_ok_def hx_owed_def)
      (simp add: hm_new_def no_conn_def)
qed

lemma http_step_inv:
  assumes "http_step E s new s'" and "hx_inv W {#} {#} s"
  shows "\<exists>W'. hx_inv W' {#} {#} s' \<and> hx_owed s' = hx_owed s + mset new"
  using assms
proof cases
  case (http_request cb now r ms)
  then show ?thesis using hx_request_good [OF assms(2), where r = r and E = "http_at now E" and ms = ms and cb = cb]
    by (cases cb) auto
next
  case http_task
  with hx_runTask_good [OF assms(2)] show ?thesis by (auto simp: hx_good_def)
next
  case (http_pool_task now)
  with hx_runPoolTask_good [OF assms(2), of "http_at now E"] show ?thesis by (auto simp: hx_good_def)
next
  case (http_await xs a ys now e p)
  with hx_await_good [OF assms(2) http_await(3), of "http_at now E" e] show ?thesis by (auto simp: hx_good_def)
next
  case (http_channel now c bytes e)
  with hx_channel_good [OF assms(2) http_channel(2)] show ?thesis by (auto simp: hx_good_def)
next
  case (http_timer ct)
  with hx_timer_good [OF assms(2) http_timer(2)] show ?thesis by (auto simp: hx_good_def)
next
  case (http_pool_timer now ct)
  with hx_poolTimer_good [OF assms(2) http_pool_timer(2)] show ?thesis by (auto simp: hx_good_def)
qed

lemma http_run_inv:
  assumes "http_run E s cbs s'" and "hx_inv W {#} {#} s"
  shows "\<exists>W'. hx_inv W' {#} {#} s' \<and> hx_owed s' = hx_owed s + mset cbs"
  using assms
proof induction
  case (http_step s cbs s' new s'')
  then obtain W' where "hx_inv W' {#} {#} s'" "hx_owed s' = hx_owed s + mset cbs" by blast
  with http_step_inv [OF http_step(2)] show ?case by fastforce
qed auto

end
