(* ===== verification/Sf_HttpService.thy ===== *)
theory Sf_HttpService
  imports Sf_HttpRuns
begin

text \<open>
  What the requests of \<open>net/http/HttpContext.cpp\<close> may rely on, in every run.
\<close>

subsection \<open>A run\<close>

text \<open>An https request: the connection is made and encrypted, the request written, and the channel closes.\<close>

definition demo_http :: http_env where
  "demo_http = \<lparr>he_now = 0, he_connect = (\<lambda>_ _ _. NoError), he_handshake = (\<lambda>_ _. NoError), he_write = (\<lambda>_ _. NoError),
     he_authenticated = (\<lambda>_. True), he_int = (\<lambda>_. Some 443), he_nat = (\<lambda>_. None), he_memory = False\<rparr>"

definition demo_url :: url where
  "demo_url = url_parse ''https://host/page''"

definition demo_step :: "nat \<Rightarrow> http_context \<Rightarrow> http_context" where
  "demo_step n s =
     (let E = http_at 0 demo_http;
          await = (\<lambda>a. s\<lparr>hx_pool := outcome_the hm_new (hx_await E NoError a ((hx_pool s)\<lparr>hm_awaits := []\<rparr>))\<rparr>)
      in if n = 0 then hx_get E demo_url 1000 (Some 7) s
         else if n = 1 then await (Await_Tcp 1)
         else if n = 2 then await (Await_Tls 1)
         else if n = 3 then outcome_the hx_new (hx_runPoolTask E s)
         else if n = 4 then outcome_the hx_new (the (hx_channel E 0 [] Closed s))
         else outcome_the hx_new (hx_runTask s))"

fun demo_state :: "nat \<Rightarrow> http_context" where
  "demo_state n = (if n = 0 then hx_new else demo_step (n - 1) (demo_state (n - 1)))"

declare demo_state.simps [simp del]

lemma demo_step_simps:
  "demo_state 1 = hx_get (http_at 0 demo_http) demo_url 1000 (Some 7) hx_new"
  "demo_state 2 = (demo_state 1)\<lparr>hx_pool := outcome_the hm_new
     (hx_await (http_at 0 demo_http) NoError (Await_Tcp 1) ((hx_pool (demo_state 1))\<lparr>hm_awaits := []\<rparr>))\<rparr>"
  "demo_state 3 = (demo_state 2)\<lparr>hx_pool := outcome_the hm_new
     (hx_await (http_at 0 demo_http) NoError (Await_Tls 1) ((hx_pool (demo_state 2))\<lparr>hm_awaits := []\<rparr>))\<rparr>"
  "demo_state 4 = outcome_the hx_new (hx_runPoolTask (http_at 0 demo_http) (demo_state 3))"
  "demo_state 5 = outcome_the hx_new (the (hx_channel (http_at 0 demo_http) 0 [] Closed (demo_state 4)))"
  "demo_state 6 = outcome_the hx_new (hx_runTask (demo_state 5))"
  by (subst demo_state.simps, simp add: demo_step_def Let_def demo_state.simps [of 0])+

lemma demo_oks:
  "outcome_ok (hx_await (http_at 0 demo_http) NoError (Await_Tcp 1) ((hx_pool (demo_state 1))\<lparr>hm_awaits := []\<rparr>))"
  "outcome_ok (hx_await (http_at 0 demo_http) NoError (Await_Tls 1) ((hx_pool (demo_state 2))\<lparr>hm_awaits := []\<rparr>))"
  "outcome_ok (hx_runPoolTask (http_at 0 demo_http) (demo_state 3))"
  "hx_channel (http_at 0 demo_http) 0 [] Closed (demo_state 4) \<noteq> None"
  "outcome_ok (the (hx_channel (http_at 0 demo_http) 0 [] Closed (demo_state 4)))"
  "outcome_ok (hx_runTask (demo_state 5))"
  by code_simp+

lemma demo_ends:
  "hm_awaits (hx_pool (demo_state 1)) = [Await_Tcp 1]" "hm_awaits (hx_pool (demo_state 2)) = [Await_Tls 1]"
  "map fst (hx_answers (demo_state 6)) = [7]" "length (hx_writes (demo_state 6)) = 1" "hx_tasks (demo_state 6) = []"
  "ab_ops (hx_ops (demo_state 6)) = []"
  by code_simp+

lemma http_run_quiet: "http_run E s cbs t \<Longrightarrow> http_step E t [] u \<Longrightarrow> http_run E s cbs u"
  using http_run.http_step [of E s cbs t "[]" u] by simp

lemma http_demo_start: "http_run demo_http hx_new [7] (demo_state 1)"
proof -
  have "http_step demo_http hx_new [7] (demo_state 1)"
    unfolding demo_step_simps(1) hx_get_def
    using http_step.http_request [of demo_http hx_new "Some 7" 0 "hr_end (hr_start ''GET'' demo_url HTTP_11 hr_new)" 1000]
    by simp
  from http_run.http_step [OF http_run.http_refl this] show ?thesis by simp
qed

lemma http_demo_run: "http_run demo_http hx_new [7] (demo_state 6)"
proof -
  have r2: "http_step demo_http (demo_state 1) [] (demo_state 2)"
    unfolding demo_step_simps(2)
    by (rule http_step.http_await [where xs = "[]" and ys = "[]"])
      (simp only: demo_ends(1) append.simps, simp only: append.simps outcome_done [OF demo_oks(1), symmetric])
  have r3: "http_step demo_http (demo_state 2) [] (demo_state 3)"
    unfolding demo_step_simps(3)
    by (rule http_step.http_await [where xs = "[]" and ys = "[]"])
      (simp only: demo_ends(2) append.simps, simp only: append.simps outcome_done [OF demo_oks(2), symmetric])
  have r4: "http_step demo_http (demo_state 3) [] (demo_state 4)"
    unfolding demo_step_simps(4) by (rule http_step.http_pool_task [OF outcome_done [OF demo_oks(3)]])
  have "hx_channel (http_at 0 demo_http) 0 [] Closed (demo_state 4) = Some (Done (demo_state 5))"
    unfolding demo_step_simps(5) outcome_done [OF demo_oks(5), symmetric] using demo_oks(4) by (rule option.collapse [symmetric])
  then have r5: "http_step demo_http (demo_state 4) [] (demo_state 5)" by (rule http_step.http_channel)
  have r6: "http_step demo_http (demo_state 5) [] (demo_state 6)"
    unfolding demo_step_simps(6) by (rule http_step.http_task [OF outcome_done [OF demo_oks(6)]])
  show ?thesis
    by (rule http_run_quiet [OF http_run_quiet [OF http_run_quiet [OF http_run_quiet [OF http_run_quiet [OF http_demo_start r2] r3] r4] r5] r6])
qed

subsection \<open>Every request is answered once\<close>

text \<open>
  C5. In every run each callback that was given with a request has been called exactly once, or is posted to be
  called, or its request is still pending with its deadline, and nothing else is called.
\<close>

theorem http_answered_once:
  assumes "http_run E hx_new cbs s"
  shows "mset cbs = mset (map fst (hx_answers s)) + (\<Sum>t \<in># mset (hx_tasks s). con_set (fst t)) +
      (\<Sum>op \<in># mset (ab_ops (hx_ops s)). con_set (hg_callback (op_data op)))"
proof -
  obtain W where "hx_inv W {#} {#} s" "hx_owed s = mset cbs"
    using http_run_inv [OF assms hx_inv_new(1)] by (auto simp: hx_inv_new(2))
  then show ?thesis by (simp add: hx_owed_def)
qed

lemma http_answered_once_witness: "mset (map fst (hx_answers (demo_state 6))) = mset [7]"
  using http_answered_once [OF http_demo_run] by (simp add: demo_ends(5,6))

subsection \<open>Connections\<close>

text \<open>
  C28. In every run a connection is in one place at most: held by one request, pooled under one id, being established, or
  on its way to one requester.
\<close>

theorem http_connections_apart:
  assumes "http_run E hx_new cbs s"
  shows "count (held s + pool_conns (hx_pool s)) c \<le> 1"
proof -
  obtain W where "hx_inv W {#} {#} s" using http_run_inv [OF assms hx_inv_new(1)] by blast
  from pool_invD(7) [OF hx_invD(4) [OF this]] show ?thesis by (simp add: pool_apart_def add.commute)
qed

lemma http_connections_apart_witness: "count (held (demo_state 6) + pool_conns (hx_pool (demo_state 6))) 0 \<le> 1"
  by (rule http_connections_apart [OF http_demo_run])

text \<open>
  C17. In every run a request is written only to a connection to the host of its URL, with the protocol of its URL, and
  if that is https the connection's channel is a TLS channel.
\<close>

theorem http_writes_safe:
  assumes "http_run E hx_new cbs s" and "(u, x, bytes) \<in> set (hx_writes s)"
  shows "hc_host x = u_host u \<and> hc_protocol x = u_protocol u \<and> (u_protocol u = ''https'' \<longrightarrow> hc_tls x)"
proof -
  obtain W where "hx_inv W {#} {#} s" using http_run_inv [OF assms(1) hx_inv_new(1)] by blast
  from hx_invD(7) [OF this] assms(2) have "con_key x = url_key u" "secure x" by (auto simp: writes_ok_def)
  then show ?thesis by (simp add: con_key_def url_key_def secure_def)
qed

lemma http_writes_safe_witness: "hc_tls (fst (snd (hd (hx_writes (demo_state 6)))))"
proof -
  obtain u x bytes ws where w: "hx_writes (demo_state 6) = (u, x, bytes) # ws"
    using demo_ends(4) by (cases "hx_writes (demo_state 6)") auto
  have "u_protocol (fst (hd (hx_writes (demo_state 6)))) = ''https''" by code_simp
  then show ?thesis using http_writes_safe [OF http_demo_run, of u x bytes] by (simp add: w)
qed

text \<open>
  In every run the lists of pooled connections are right: their number is the count, no id is listed twice, and every
  pooled connection is listed under its server, and only there.
\<close>

lemma http_pool_lists:
  assumes "http_run E hx_new cbs s" and "p = hx_pool s"
  shows "hm_count p = int (size (listed (hm_pending p))) \<and> (\<forall>i. count (listed (hm_pending p)) i \<le> 1) \<and>
    (\<forall>op \<in> set (ab_ops (hm_ops p)). op_type op = 2 \<longrightarrow>
      (\<forall>k. op_id op \<in> set (ids_of k (hm_pending p)) \<longleftrightarrow> k = con_key (hm_conns p (pd_connection (op_data op)))))"
proof -
  obtain W where inv: "pool_inv W (held s) p"
    using http_run_inv [OF assms(1) hx_inv_new(1)] by (auto simp: assms(2) dest!: hx_invD(4))
  have "op_id op \<in> set (ids_of k (hm_pending p)) \<longleftrightarrow> k = con_key (hm_conns p (pd_connection (op_data op)))"
    if op: "op \<in> set (ab_ops (hm_ops p))" and ty: "op_type op = 2" for op k
  proof -
    note pl = placedD [OF pool_invD(3) [OF inv op]]
    have "op_id op \<in> set (ids_of (con_key (hm_conns p (pd_connection (op_data op)))) (hm_pending p))"
      using pl(2) ty by (cases "op_data op") (simp_all add: data_ok_def)
    then show ?thesis using pl(6) [of k] by blast
  qed
  then show ?thesis using pool_invD(5) [OF inv] by (simp add: pool_lists_def lists_ok_def)
qed

lemma http_pool_lists_witness: "hm_count (hx_pool (demo_state 6)) = int (size (listed (hm_pending (hx_pool (demo_state 6)))))"
  by (rule http_pool_lists [OF http_demo_run HOL.refl, THEN conjunct1])

subsection \<open>No handler fails\<close>

text \<open>
  In every run the callbacks of sockets and TLS channels, the posted calls of the pool and the timers return
  without dereferencing null or casting wrongly; what a channel delivers does so unless the parser fails on it.
\<close>

lemma http_handlers_return:
  assumes "http_run E hx_new cbs s"
  shows "(\<exists>s'. hx_runPoolTask F s = Done s') \<and>
    (\<forall>xs a ys e. hm_awaits (hx_pool s) = xs @ a # ys \<longrightarrow>
      (\<exists>p. hx_await F e a ((hx_pool s)\<lparr>hm_awaits := xs @ ys\<rparr>) = Done p)) \<and>
    (\<forall>ct. \<exists>s'. hx_onTimer ct s = Some s') \<and> (\<forall>ct. \<exists>s'. hx_poolTimer F ct s = Some (Done s')) \<and>
    (\<forall>c bytes e f. hx_channel F c bytes e s = Some (Fault f) \<longrightarrow> (\<exists>data p. hp_push (he_nat F) data p = Some (Fault f)))"
proof -
  obtain W where inv: "hx_inv W {#} {#} s" using http_run_inv [OF assms hx_inv_new(1)] by blast
  have "\<exists>s'. hx_runPoolTask F s = Done s'" using hx_runPoolTask_good [OF inv] by (auto simp: hx_good_def)
  moreover have "\<exists>p. hx_await F e a ((hx_pool s)\<lparr>hm_awaits := xs @ ys\<rparr>) = Done p" if "hm_awaits (hx_pool s) = xs @ a # ys"
    for xs a ys e using hx_await_good [OF inv that] by blast
  moreover have "\<exists>s'. hx_onTimer ct s = Some s'" for ct
    using context_ops.timer_expires [OF hx_invD(1) [OF inv], of ct] by (auto simp: hx_onTimer_def)
  moreover have "\<exists>s'. hx_poolTimer F ct s = Some (Done s')" for ct
  proof -
    obtain p where "hm_onTimer ct (hx_pool s) = Some p"
      using pool.timer_expires [OF pool_invD(1) [OF hx_invD(4) [OF inv]], of ct] by (auto simp: hm_onTimer_def)
    then obtain r where r: "hx_poolTimer F ct s = Some r" by (auto simp: hx_poolTimer_def)
    with hx_poolTimer_good [OF inv r] show ?thesis by (auto simp: hx_good_def)
  qed
  moreover have "\<exists>data p. hp_push (he_nat F) data p = Some (Fault f)" if "hx_channel F c bytes e s = Some (Fault f)"
    for c bytes e f using hx_channel_good [OF inv that] by (auto simp: hx_good_def parser_fault_def)
  ultimately show ?thesis by blast
qed

lemma http_handlers_return_witness:
  "\<exists>p. hx_await demo_http NoError (Await_Tcp 1) ((hx_pool (demo_state 1))\<lparr>hm_awaits := [] @ []\<rparr>) = Done p"
proof -
  have "hm_awaits (hx_pool (demo_state 1)) = [] @ Await_Tcp 1 # []" by (simp only: demo_ends(1) append.simps)
  then show ?thesis using http_handlers_return [OF http_demo_start, of demo_http] by blast
qed

subsection \<open>What goes wrong\<close>

text \<open>A request without a callback ends with the call of an empty function.\<close>

lemma empty_callback_faults: "hx_tasks s = (None, e, r) # ts \<Longrightarrow> hx_runTask s = Fault NullDeref"
  by (simp add: hx_runTask_def)

text \<open>A handshake that fails at once is not noticed: the connection waits for its deadline.\<close>

lemma handshake_failure_ignored:
  assumes "map_of (ab_map (hm_ops s)) i = Some op" and "op_type op = 1" "op_state op = 1" "op_data op = Establish c cb"
    and "hc_protocol (hm_conns s c) = ''https''" and "failed (he_handshake E c (hc_pureHost (hm_conns s c)))"
  shows "\<exists>s'. hm_onTcpConnect E NoError i s = Done s' \<and> hm_tasks s' = hm_tasks s \<and> hm_awaits s' = hm_awaits s"
  using assms
  by (simp add: hm_onTcpConnect_def getReadyAsyncOpInState_def getReadyAsyncOpOf_def getReadyAsyncOp_def Let_def
      hm_set_conn_def hm_add_def)

end
