(* ===== verification/Sf_IMDispatcher.thy ===== *)
theory Sf_IMDispatcher
  imports Sf_IMChannel Sf_Auth Sf_AsyncSpec
begin

text \<open>
  \<open>IMDispatcher\<close> (\<open>libschnee/schnee/p2p/channels/IMDispatcher.h\<close>, \<open>IMDispatcher.cpp\<close>): channels made
  of instant messages, and who is online.  The data it exchanges with the client of instant
  messages is that of \<open>im/IMClient.h\<close> and \<open>p2p/PresenceManagement.h\<close>.

  Channels are shared: they are numbers, \<open>di_store\<close> holds them, and an entry of \<open>di_channels\<close> may be a
  null pointer.  The client is a pointer that is set or not; what it is told is logged in
  \<open>di_client_calls\<close>, what it answers is the environment's.  Calls of delegates and callbacks, posted
  or not, are logged in \<open>di_calls\<close>.  What an \<open>AuthProtocol\<close> reads and writes is the stream \<open>de_stream\<close> of its channel.
\<close>

subsection \<open>What is known of others\<close>

datatype presence_state = PS_UNKNOWN | PS_CHAT | PS_AWAY | PS_EXTENDED_AWAY | PS_DO_NOT_DISTURB | PS_OFFLINE

datatype connection_state = CS_OFFLINE | CS_CONNECTING | CS_AUTHENTICATING | CS_CONNECTED | CS_ERROR

datatype subscription_state = SS_NONE | SS_TO | SS_FROM | SS_BOTH

record client_presence =
  cp_id :: string
  cp_presence :: presence_state

record contact_info =
  co_id :: string
  co_name :: string
  co_state :: subscription_state
  co_waitForSubscription :: bool
  co_error :: bool
  co_errorText :: string
  co_hide :: bool
  co_presences :: "client_presence list"

record host_info =
  hi_hostId :: host_id
  hi_userId :: string
  hi_name :: string
  hi_client :: string
  hi_features :: "string list"

record user_info =
  us_userId :: string
  us_name :: string
  us_waitForSubscription :: bool
  us_error :: bool
  us_errorText :: string

definition hi_new :: host_info where
  "hi_new = \<lparr>hi_hostId = [], hi_userId = [], hi_name = [], hi_client = [], hi_features = []\<rparr>"

definition us_new :: user_info where
  "us_new = \<lparr>us_userId = [], us_name = [], us_waitForSubscription = False, us_error = False, us_errorText = []\<rparr>"

subsection \<open>The dispatcher\<close>

abbreviation (input) CREATE_CHANNEL :: int where "CREATE_CHANNEL \<equiv> 1"
abbreviation (input) RESPOND_CHANNEL :: int where "RESPOND_CHANNEL \<equiv> 2"
abbreviation (input) AwaitAuth :: int where "AwaitAuth \<equiv> 1"

text \<open>The second kind of operation keeps its state in a member of its own: always \<open>AwaitAuth\<close>.\<close>

record ('c, 'k) im_create =
  ic_target :: host_id
  ic_callback :: "nat option"
  ic_auth :: "('c, 'k) auth_proto"
  ic_channel :: nat

record ('c, 'k) im_respond =
  ir_source :: host_id
  ir_auth :: "('c, 'k) auth_proto"
  ir_channel :: nat

datatype ('c, 'k) im_data = Im_Create "('c, 'k) im_create" | Im_Respond "('c, 'k) im_respond"

datatype client_call =
    Client_Create string | Client_Delete | Client_Identity string string | Client_SetFeatures "string list"
  | Client_ConnectionString string | Client_Password string | Client_Connect | Client_Disconnect
  | Client_Presence presence_state string | Client_UpdateRoster | Client_Send im_message
  | Client_Features host_id | Client_Subscribe string | Client_SubscriptionReply string bool bool
  | Client_Remove string

datatype dispatcher_call =
    Peers_Changed | Online_Changed online_state | Channel_Created host_id nat bool | Create_Result nat error
  | Subscribe_Request string | Stream_Error string | Features_Result nat error

record ('c, 'k) im_dispatcher =
  di_ops :: "('c, 'k) im_data async_base"
  di_alloc :: nat
  di_client :: bool
  di_roster :: "(string, contact_info) smap"
  di_hosts :: "(host_id, host_info) smap"
  di_users :: "(string, user_info) smap"
  di_hostId :: host_id
  di_timeOutMs :: int
  di_auth :: "'k authentication option"
  di_clientName :: string
  di_features :: "string list"
  di_channels :: "(host_id, nat option) smap"
  di_store :: "nat \<Rightarrow> imchannel"
  di_next :: nat
  di_client_calls :: "client_call list"
  di_calls :: "dispatcher_call list"

text \<open>\<open>de_connected\<close>, \<open>de_roster\<close> and \<open>de_ownId\<close>: what the client says of itself; \<open>de_subscribes\<close>: the
  delegate \<open>mSubscribeRequest\<close> is set.\<close>

record ('c, 'k) im_env =
  de_now :: int
  de_create :: "string \<Rightarrow> bool"
  de_connected :: bool
  de_ownId :: host_id
  de_roster :: "(string, contact_info) smap"
  de_answer :: "client_call \<Rightarrow> error"
  de_subscribes :: bool
  de_stream :: "nat \<Rightarrow> 'c"
  de_authState :: auth_state
  de_authEnv :: "('c, 'k) auth_env"

definition di_new :: "('c, 'k) im_dispatcher" where
  "di_new = \<lparr>di_ops = ab_init, di_alloc = 0, di_client = False, di_roster = [], di_hosts = [], di_users = [],
             di_hostId = [], di_timeOutMs = 10000, di_auth = None, di_clientName = [], di_features = [],
             di_channels = [], di_store = (\<lambda>_. im_new [] OS_OFFLINE), di_next = 0, di_client_calls = [],
             di_calls = []\<rparr>"

definition di_tell :: "client_call list \<Rightarrow> ('c, 'k) im_dispatcher \<Rightarrow> ('c, 'k) im_dispatcher" where
  "di_tell cs s = s\<lparr>di_client_calls := di_client_calls s @ cs\<rparr>"

definition di_call :: "dispatcher_call \<Rightarrow> ('c, 'k) im_dispatcher \<Rightarrow> ('c, 'k) im_dispatcher" where
  "di_call c s = s\<lparr>di_calls := di_calls s @ [c]\<rparr>"

definition di_result :: "nat option \<Rightarrow> error \<Rightarrow> ('c, 'k) im_dispatcher \<Rightarrow> ('c, 'k) im_dispatcher" where
  "di_result cb e s = (case cb of None \<Rightarrow> s | Some n \<Rightarrow> di_call (Create_Result n e) s)"

definition di_add :: "('c, 'k) im_data aop \<Rightarrow> ('c, 'k) im_dispatcher \<Rightarrow> ('c, 'k) im_dispatcher" where
  "di_add op s = s\<lparr>di_ops := snd (addAsyncOp op (di_ops s))\<rparr>"

definition di_update :: "nat \<Rightarrow> (imchannel \<Rightarrow> imchannel) \<Rightarrow> ('c, 'k) im_dispatcher \<Rightarrow> ('c, 'k) im_dispatcher" where
  "di_update c f s = s\<lparr>di_store := (di_store s)(c := f (di_store s c))\<rparr>"

text \<open>A loop over all channels of the map.\<close>

fun over_channels ::
  "(host_id \<Rightarrow> imchannel \<Rightarrow> imchannel) \<Rightarrow> (host_id, nat option) smap \<Rightarrow> ('c, 'k) im_dispatcher \<Rightarrow>
   ('c, 'k) im_dispatcher outcome" where
  "over_channels f [] s = Done s"
| "over_channels f ((h, None) # m) s = Fault NullDeref"
| "over_channels f ((h, Some c) # m) s = over_channels f m (di_update c (f h) s)"

subsection \<open>Presence\<close>

definition di_setAuthentication :: "'k authentication option \<Rightarrow> ('c, 'k) im_dispatcher \<Rightarrow> ('c, 'k) im_dispatcher" where
  "di_setAuthentication a s = s\<lparr>di_auth := a\<rparr>"

definition di_setOwnFeature :: "string \<Rightarrow> string list \<Rightarrow> ('c, 'k) im_dispatcher \<Rightarrow> error \<times> ('c, 'k) im_dispatcher" where
  "di_setOwnFeature client features s = (NoError, s\<lparr>di_clientName := client, di_features := features\<rparr>)"

definition di_online :: "('c, 'k) im_env \<Rightarrow> ('c, 'k) im_dispatcher \<Rightarrow> online_state" where
  "di_online E s = (if di_client s \<and> de_connected E then OS_ONLINE else OS_OFFLINE)"

definition di_onlineState :: "host_id \<Rightarrow> ('c, 'k) im_dispatcher \<Rightarrow> online_state" where
  "di_onlineState h s = (case map_of (di_hosts s) h of None \<Rightarrow> OS_OFFLINE | Some _ \<Rightarrow> OS_ONLINE)"

definition di_hostsOf :: "string \<Rightarrow> ('c, 'k) im_dispatcher \<Rightarrow> (host_id, host_info) smap" where
  "di_hostsOf user s = filter (\<lambda>p. hi_userId (snd p) = user) (di_hosts s)"

definition di_hostInfo :: "host_id \<Rightarrow> ('c, 'k) im_dispatcher \<Rightarrow> host_info" where
  "di_hostInfo h s = (case map_of (di_hosts s) h of None \<Rightarrow> hi_new | Some i \<Rightarrow> i)"

definition di_disconnect :: "('c, 'k) im_dispatcher \<Rightarrow> ('c, 'k) im_dispatcher outcome" where
  "di_disconnect s =
     outcome_bind (over_channels (\<lambda>_. im_invalidate) (di_channels s) s) (\<lambda>s1.
       let s2 = s1\<lparr>di_channels := []\<rparr>;
           s3 = (if di_client s2 then di_tell [Client_Disconnect] s2 else s2)
       in Done (di_call Peers_Changed (s3\<lparr>di_hosts := [], di_users := []\<rparr>)))"

definition di_connect :: "('c, 'k) im_dispatcher \<Rightarrow> (error \<times> ('c, 'k) im_dispatcher) outcome" where
  "di_connect s =
     (if \<not> di_client s then Done (NotInitialized, s)
      else outcome_bind (di_disconnect s) (\<lambda>s1. Done (NoError, di_tell [Client_Connect] s1)))"

definition di_setConnectionString ::
  "('c, 'k) im_env \<Rightarrow> string \<Rightarrow> string \<Rightarrow> ('c, 'k) im_dispatcher \<Rightarrow> (error \<times> ('c, 'k) im_dispatcher) outcome" where
  "di_setConnectionString E str password s =
     outcome_bind (if di_client s then di_disconnect s else Done s) (\<lambda>s1.
       let s2 = (if di_client s1 then di_tell [Client_Delete] (s1\<lparr>di_client := False\<rparr>) else s1)
       in case str_search ''://'' str of
            None \<Rightarrow> Done (InvalidArgument, s2)
          | Some (protocol, _) \<Rightarrow>
              if \<not> de_create E protocol then Done (InvalidArgument, s2)
              else Done (NoError,
                (di_tell ([Client_Create protocol, Client_Identity (di_clientName s2) ''bot'',
                    Client_SetFeatures (di_features s2), Client_ConnectionString str] @
                    (if password \<noteq> [] then [Client_Password password] else []) @
                    [Client_ConnectionString str]) (s2\<lparr>di_client := True\<rparr>))\<lparr>di_hostId := de_ownId E\<rparr>))"

subsection \<open>Contacts\<close>

text \<open>What only goes on to the client.\<close>

definition di_ask :: "('c, 'k) im_env \<Rightarrow> client_call \<Rightarrow> ('c, 'k) im_dispatcher \<Rightarrow> error \<times> ('c, 'k) im_dispatcher" where
  "di_ask E c s = (if \<not> di_client s then (ConnectionError, s) else (de_answer E c, di_tell [c] s))"

definition di_updateFeatures ::
  "('c, 'k) im_env \<Rightarrow> host_id \<Rightarrow> ('c, 'k) im_dispatcher \<Rightarrow> error \<times> ('c, 'k) im_dispatcher" where
  "di_updateFeatures E h s =
     (if map_of (di_hosts s) h = None then (NotFound, s) else di_ask E (Client_Features h) s)"

text \<open>The request for features is answered; \<open>cb\<close> is the callback that was given with it.\<close>

definition di_onFeatures ::
  "error \<Rightarrow> string \<Rightarrow> string list \<Rightarrow> host_id \<Rightarrow> nat option \<Rightarrow> ('c, 'k) im_dispatcher \<Rightarrow> ('c, 'k) im_dispatcher" where
  "di_onFeatures result client features h cb s =
     (let notify = (\<lambda>e. case cb of None \<Rightarrow> s | Some n \<Rightarrow> di_call (Features_Result n e) s)
      in if failed result then notify result
         else case map_of (di_hosts s) h of
           None \<Rightarrow> notify NotFound
         | Some i \<Rightarrow>
             di_call Peers_Changed
               (s\<lparr>di_hosts := sm_insert h (i\<lparr>hi_client := client, hi_features := features\<rparr>) (di_hosts s)\<rparr>))"

definition di_onSubscribeRequest ::
  "('c, 'k) im_env \<Rightarrow> string \<Rightarrow> ('c, 'k) im_dispatcher \<Rightarrow> ('c, 'k) im_dispatcher outcome" where
  "di_onSubscribeRequest E from s =
     (if de_subscribes E then Done (di_call (Subscribe_Request from) s)
      else if \<not> di_client s then Fault NullDeref
      else Done (di_tell [Client_SubscriptionReply from False False] s))"

definition di_onStreamError :: "string \<Rightarrow> ('c, 'k) im_dispatcher \<Rightarrow> ('c, 'k) im_dispatcher" where
  "di_onStreamError msg s = di_call (Stream_Error msg) s"

fun online_of :: "connection_state \<Rightarrow> online_state" where
  "online_of CS_CONNECTED = OS_ONLINE"
| "online_of CS_OFFLINE = OS_OFFLINE"
| "online_of CS_ERROR = OS_OFFLINE"
| "online_of _ = OS_UNKNOWN"

definition di_onConnectionState ::
  "connection_state \<Rightarrow> ('c, 'k) im_dispatcher \<Rightarrow> ('c, 'k) im_dispatcher outcome" where
  "di_onConnectionState st s =
     outcome_bind
       (if st = CS_CONNECTED then
          (if \<not> di_client s then Fault NullDeref
           else Done (di_tell [Client_Presence PS_CHAT ''Schneeflocke (http://sflx.net)'', Client_UpdateRoster] s))
        else outcome_bind (over_channels (\<lambda>_. im_setState OS_OFFLINE) (di_channels s) s) (\<lambda>s1.
          Done (di_call Peers_Changed (s1\<lparr>di_hosts := [], di_users := [], di_roster := []\<rparr>))))
       (\<lambda>s2. Done (di_call (Online_Changed (online_of st)) s2))"

definition splitHostId :: "host_id \<Rightarrow> string \<times> string" where
  "splitHostId h = (case str_rfind CHR ''/'' h of None \<Rightarrow> (h, []) | Some p \<Rightarrow> (take p h, drop (p + 1) h))"

definition getResourceName :: "host_id \<Rightarrow> string" where
  "getResourceName h = snd (splitHostId h)"

definition add_presence ::
  "host_id \<Rightarrow> string \<Rightarrow> client_presence \<Rightarrow> (host_id, host_info) smap \<Rightarrow> (host_id, host_info) smap" where
  "add_presence own user p hosts =
     (if cp_presence p = PS_OFFLINE \<or> cp_id p = own then hosts
      else
        let i = (case map_of hosts (cp_id p) of None \<Rightarrow> hi_new | Some i \<Rightarrow> i)
        in sm_insert (cp_id p)
             (i\<lparr>hi_hostId := cp_id p, hi_userId := user, hi_name := getResourceName (cp_id p)\<rparr>) hosts)"

definition add_contact ::
  "host_id \<Rightarrow> contact_info \<Rightarrow> (string, user_info) smap \<times> (host_id, host_info) smap \<Rightarrow>
   (string, user_info) smap \<times> (host_id, host_info) smap" where
  "add_contact own info uh =
     (case uh of (users, hosts) \<Rightarrow>
        if co_hide info then (users, hosts)
        else
          (sm_insert (co_id info)
             ((case map_of users (co_id info) of None \<Rightarrow> us_new | Some u \<Rightarrow> u)
                \<lparr>us_userId := co_id info, us_name := co_name info,
                 us_waitForSubscription := co_waitForSubscription info, us_error := co_error info,
                 us_errorText := co_errorText info\<rparr>) users,
           fold (add_presence own (co_id info)) (co_presences info) hosts))"

definition di_onRoster :: "('c, 'k) im_env \<Rightarrow> ('c, 'k) im_dispatcher \<Rightarrow> ('c, 'k) im_dispatcher outcome" where
  "di_onRoster E s =
     (if \<not> di_client s then Done s
      else
        let (users, hosts) = fold (\<lambda>p. add_contact (di_hostId s) (snd p)) (de_roster E) ([], []);
            s1 = s\<lparr>di_roster := de_roster E, di_users := users, di_hosts := hosts\<rparr>
        in outcome_bind (over_channels (\<lambda>h. im_setState (di_onlineState h s1)) (di_channels s1) s1)
             (\<lambda>s2. Done (di_call Peers_Changed s2)))"

subsection \<open>Channels\<close>

text \<open>A new channel: its number and the dispatcher that has it in its store.\<close>

definition di_newChannel :: "host_id \<Rightarrow> ('c, 'k) im_dispatcher \<Rightarrow> nat \<times> ('c, 'k) im_dispatcher" where
  "di_newChannel h s =
     (di_next s, s\<lparr>di_store := (di_store s)(di_next s := im_new h (di_onlineState h s)), di_next := di_next s + 1\<rparr>)"

definition im_auth_init ::
  "('c, 'k) im_env \<Rightarrow> nat \<Rightarrow> 'k authentication option \<Rightarrow> ('c, 'k) auth_proto" where
  "im_auth_init E c a =
     (ap_new (de_authState E) (de_stream E c) (de_ownId E))\<lparr>ap_auth := a, ap_hasFinished := True\<rparr>"

definition di_createChannel ::
  "('c, 'k) im_env \<Rightarrow> host_id \<Rightarrow> nat option \<Rightarrow> int \<Rightarrow> ('c, 'k) im_dispatcher \<Rightarrow>
   (error \<times> ('c, 'k) im_dispatcher) outcome" where
  "di_createChannel E target cb timeOutMs s =
     (if \<not> di_client s then Done (InvalidArgument, s)
      else outcome_bind
        (case map_of (di_channels s) target of
           None \<Rightarrow> Done s
         | Some None \<Rightarrow> Fault NullDeref
         | Some (Some c) \<Rightarrow> Done ((di_update c im_invalidate s)\<lparr>di_channels := sm_erase target (di_channels s)\<rparr>))
        (\<lambda>s1. case genFreeId (di_ops s1) of (i, b) \<Rightarrow>
           let (c, s2) = di_newChannel target (s1\<lparr>di_ops := b, di_alloc := di_alloc s1 + 1\<rparr>)
           in outcome_bind (ap_connect (de_authEnv E) target timeOutMs (im_auth_init E c (di_auth s))) (\<lambda>p.
           let op = (new_op CREATE_CHANNEL (regTimeOutMs (de_now E) timeOutMs) (di_alloc s1)
                       (Im_Create \<lparr>ic_target = target, ic_callback = cb, ic_auth = p, ic_channel = c\<rparr>))
                      \<lparr>op_id := i, op_state := AwaitAuth\<rparr>
           in Done (NoError, di_add op (s2\<lparr>di_channels := sm_insert target (Some c) (di_channels s2)\<rparr>)))))"

text \<open>
  The test \<open>mChannels[h] == channel\<close>: \<open>operator []\<close> inserts a null pointer for a key that is not there.
\<close>

definition di_forget :: "host_id \<Rightarrow> nat \<Rightarrow> ('c, 'k) im_dispatcher \<Rightarrow> ('c, 'k) im_dispatcher" where
  "di_forget h c s =
     (case map_of (di_channels s) h of
        None \<Rightarrow> s\<lparr>di_channels := sm_insert h None (di_channels s)\<rparr>
      | Some x \<Rightarrow> if x = Some c then s\<lparr>di_channels := sm_erase h (di_channels s)\<rparr> else s)"

definition di_onOpCanceled :: "host_id \<Rightarrow> nat \<Rightarrow> ('c, 'k) im_dispatcher \<Rightarrow> ('c, 'k) im_dispatcher" where
  "di_onOpCanceled h c s = di_update c im_invalidate (di_forget h c s)"

definition di_onCancel :: "error \<Rightarrow> ('c, 'k) im_data aop \<Rightarrow> ('c, 'k) im_dispatcher \<Rightarrow> ('c, 'k) im_dispatcher" where
  "di_onCancel reason op s =
     (case op_data op of
        Im_Create x \<Rightarrow> di_result (ic_callback x) reason (di_onOpCanceled (ic_target x) (ic_channel x) s)
      | Im_Respond x \<Rightarrow> di_onOpCanceled (ir_source x) (ir_channel x) s)"

definition di_onAuthCreating ::
  "error \<Rightarrow> int \<Rightarrow> ('c, 'k) im_dispatcher \<Rightarrow> ('c, 'k) im_dispatcher outcome" where
  "di_onAuthCreating err i s =
     (case getReadyAsyncOpOf i CREATE_CHANNEL (di_ops s) of
        (None, b) \<Rightarrow> Done (s\<lparr>di_ops := b\<rparr>)
      | (Some op, b) \<Rightarrow>
          let s1 = s\<lparr>di_ops := b\<rparr>
          in if op_state op \<noteq> AwaitAuth then Done s1
             else case op_data op of
               Im_Respond _ \<Rightarrow> Fault AssertFailed
             | Im_Create x \<Rightarrow>
                 Done (if failed err then
                         di_result (ic_callback x) AuthError
                           (di_forget (ic_target x) (ic_channel x) (di_update (ic_channel x) im_invalidate s1))
                       else
                         di_result (ic_callback x) NoError
                           (di_call (Channel_Created (ic_target x) (ic_channel x) True) s1)))"

definition di_onAuthResponding ::
  "error \<Rightarrow> int \<Rightarrow> ('c, 'k) im_dispatcher \<Rightarrow> ('c, 'k) im_dispatcher outcome" where
  "di_onAuthResponding err i s =
     (case getReadyAsyncOpOf i RESPOND_CHANNEL (di_ops s) of
        (None, b) \<Rightarrow> Done (s\<lparr>di_ops := b\<rparr>)
      | (Some op, b) \<Rightarrow>
          let s1 = s\<lparr>di_ops := b\<rparr>
          in case op_data op of
               Im_Create _ \<Rightarrow> Fault AssertFailed
             | Im_Respond x \<Rightarrow>
                 Done (if failed err then
                         di_forget (ir_source x) (ir_channel x) (di_update (ir_channel x) im_invalidate s1)
                       else di_call (Channel_Created (ir_source x) (ir_channel x) False) s1))"

subsection \<open>Messages\<close>

definition di_send :: "('c, 'k) im_env \<Rightarrow> im_message \<Rightarrow> ('c, 'k) im_dispatcher \<Rightarrow> bool \<times> ('c, 'k) im_dispatcher" where
  "di_send E m s = (if di_client s then (de_answer E (Client_Send m) = NoError, di_tell [Client_Send m] s) else (False, s))"

definition cannot_chat :: string where
  "cannot_chat =
     ''This is a schneeflocke client who cannot chat! See http://sflx.net for more information! :)''"

definition isCreateChannel :: "('c, 'k) im_env \<Rightarrow> im_message \<Rightarrow> bool" where
  "isCreateChannel E m =
     (let d = ae_dec (de_authEnv E) (m_body m) in \<not> ds_error d \<and> ds_cmd d = ''createChannel'')"

definition di_push :: "im_message \<Rightarrow> nat \<Rightarrow> ('c, 'k) im_dispatcher \<Rightarrow> ('c, 'k) im_dispatcher outcome" where
  "di_push m c s = outcome_bind (im_pushMessage m (di_store s c)) (\<lambda>ch. Done (di_update c (\<lambda>_. ch) s))"

definition di_respond :: "('c, 'k) im_env \<Rightarrow> host_id \<Rightarrow> ('c, 'k) im_dispatcher \<Rightarrow> nat \<times> ('c, 'k) im_dispatcher" where
  "di_respond E source s =
     (case genFreeId (di_ops s) of (i, b) \<Rightarrow>
        let (c, s1) = di_newChannel source (s\<lparr>di_ops := b, di_alloc := di_alloc s + 1\<rparr>);
            p = ap_passive (de_authEnv E) source 30000 (im_auth_init E c (di_auth s));
            op = (new_op RESPOND_CHANNEL (regTimeOutMs (de_now E) (di_timeOutMs s)) (di_alloc s)
                    (Im_Respond \<lparr>ir_source = source, ir_auth = p, ir_channel = c\<rparr>))\<lparr>op_id := i\<rparr>
        in (c, di_add op (s1\<lparr>di_channels := sm_insert source (Some c) (di_channels s1)\<rparr>)))"

definition di_onMessage :: "('c, 'k) im_env \<Rightarrow> im_message \<Rightarrow> ('c, 'k) im_dispatcher \<Rightarrow> ('c, 'k) im_dispatcher outcome" where
  "di_onMessage E m s =
     (let entry = map_of (di_channels s) (m_from m)
      in if isCreateChannel E m then
           (if \<not> di_client s then Fault NullDeref
            else outcome_bind
              (case entry of
                 None \<Rightarrow> Done s
               | Some None \<Rightarrow> Fault NullDeref
               | Some (Some c) \<Rightarrow> Done (di_update c im_invalidate s))
              (\<lambda>s1. case di_respond E (m_from m) s1 of (c, s2) \<Rightarrow> di_push m c s2))
         else case entry of
           None \<Rightarrow>
             if \<not> di_client s then Fault NullDeref
             else Done (di_tell [Client_Send (im_new_message\<lparr>m_to := m_from m, m_body := cannot_chat,
                                                             m_id := m_id m, m_type := m_type m\<rparr>)] s)
         | Some None \<Rightarrow> Fault NullDeref
         | Some (Some c) \<Rightarrow> di_push m c s)"

subsection \<open>Pending operations\<close>

fun im_auth_of :: "('c, 'k) im_data \<Rightarrow> ('c, 'k) auth_proto" where
  "im_auth_of (Im_Create x) = ic_auth x"
| "im_auth_of (Im_Respond x) = ir_auth x"

fun im_set_auth :: "('c, 'k) auth_proto \<Rightarrow> ('c, 'k) im_data \<Rightarrow> ('c, 'k) im_data" where
  "im_set_auth p (Im_Create x) = Im_Create (x\<lparr>ic_auth := p\<rparr>)"
| "im_set_auth p (Im_Respond x) = Im_Respond (x\<lparr>ir_auth := p\<rparr>)"

definition di_onAuth :: "error \<Rightarrow> ('c, 'k) im_data aop \<Rightarrow> ('c, 'k) im_dispatcher \<Rightarrow> ('c, 'k) im_dispatcher outcome" where
  "di_onAuth e op s =
     (case op_data op of
        Im_Create _ \<Rightarrow> di_onAuthCreating e (op_id op) s
      | Im_Respond _ \<Rightarrow> di_onAuthResponding e (op_id op) s)"

definition di_authEvent ::
  "('c, 'k) im_env \<Rightarrow> int \<Rightarrow> 'c auth_event \<Rightarrow> ('c, 'k) im_dispatcher \<Rightarrow> ('c, 'k) im_dispatcher outcome" where
  "di_authEvent E i ev s =
     (case map_of (ab_map (di_ops s)) i of
        None \<Rightarrow> Done s
      | Some op \<Rightarrow>
          outcome_bind (auth_event (de_authEnv E) ev (im_auth_of (op_data op))) (\<lambda>(r, q).
            let s1 = s\<lparr>di_ops := ab_modify i (im_set_auth q) (di_ops s)\<rparr>
            in case r of None \<Rightarrow> Done s1 | Some e \<Rightarrow> di_onAuth e op s1))"

definition di_put_ops :: "('c, 'k) im_data async_base \<Rightarrow> ('c, 'k) im_dispatcher \<Rightarrow> ('c, 'k) im_dispatcher" where
  "di_put_ops b s = s\<lparr>di_ops := b\<rparr>"

lemmas di_frame_defs = di_put_ops_def di_onCancel_def di_onOpCanceled_def di_forget_def di_update_def di_result_def di_call_def

interpretation dispatcher: table_owner di_ops di_put_ops di_onCancel
  by unfold_locales (simp_all add: di_frame_defs split: im_data.split option.split)

definition di_onTimer :: "time \<Rightarrow> ('c, 'k) im_dispatcher \<Rightarrow> ('c, 'k) im_dispatcher option" where
  "di_onTimer ct s = onTimer di_ops di_put_ops di_onCancel ct s"

subsection \<open>Runs\<close>

text \<open>
  A step is a call of the owner, a signal of the client, an event of an authentication, or the timer,
  each at a time and with answers of the client of its own.  \<open>im_run E s cbs s'\<close>: channels were requested
  with the callbacks \<open>cbs\<close>, and the requests were accepted.
\<close>

inductive im_step :: "('c, 'k) im_dispatcher \<Rightarrow> nat list \<Rightarrow> ('c, 'k) im_dispatcher \<Rightarrow> bool" where
  im_create: "di_createChannel E target cb ms s = Done (e, s') \<Longrightarrow>
     im_step s (case cb of None \<Rightarrow> [] | Some n \<Rightarrow> if failed e then [] else [n]) s'"
| im_setup: "di_setConnectionString E str password s = Done (e, s') \<Longrightarrow> im_step s [] s'"
| im_connect: "di_connect s = Done (e, s') \<Longrightarrow> im_step s [] s'"
| im_disconnect: "di_disconnect s = Done s' \<Longrightarrow> im_step s [] s'"
| im_authentication: "di_setAuthentication a s = s' \<Longrightarrow> im_step s [] s'"
| im_feature: "di_setOwnFeature client features s = (e, s') \<Longrightarrow> im_step s [] s'"
| im_ask: "di_ask E c s = (e, s') \<Longrightarrow> im_step s [] s'"
| im_update: "di_updateFeatures E h s = (e, s') \<Longrightarrow> im_step s [] s'"
| im_features: "di_onFeatures e client features h cb s = s' \<Longrightarrow> im_step s [] s'"
| im_subscribe: "di_onSubscribeRequest E from s = Done s' \<Longrightarrow> im_step s [] s'"
| im_streamError: "di_onStreamError msg s = s' \<Longrightarrow> im_step s [] s'"
| im_state: "di_onConnectionState st s = Done s' \<Longrightarrow> im_step s [] s'"
| im_roster: "di_onRoster E s = Done s' \<Longrightarrow> im_step s [] s'"
| im_message: "di_onMessage E m s = Done s' \<Longrightarrow> im_step s [] s'"
| im_auth: "di_authEvent E i ev s = Done s' \<Longrightarrow> im_step s [] s'"
| im_timer: "di_onTimer ct s = Some s' \<Longrightarrow> im_step s [] s'"

inductive im_run :: "('c, 'k) im_dispatcher \<Rightarrow> nat list \<Rightarrow> ('c, 'k) im_dispatcher \<Rightarrow> bool" where
  im_refl: "im_run s [] s"
| im_more: "im_run s cbs s' \<Longrightarrow> im_step s' new s'' \<Longrightarrow> im_run s (cbs @ new) s''"

end
