(* ===== verification/Sf_IMRuns.thy ===== *)
theory Sf_IMRuns
  imports Sf_IMDispatcher
begin

text \<open>
  What holds in every run of \<open>p2p/channels/IMDispatcher.cpp\<close>: every caller of \<open>createChannel\<close> is answered
  once, no channel is announced twice, and the map of channels holds exactly the channels that are
  not closed.
\<close>

subsection \<open>The invariant\<close>

fun result_of :: "dispatcher_call \<Rightarrow> nat multiset" where
  "result_of (Create_Result n e) = {#n#}"
| "result_of _ = {#}"

fun announced_of :: "dispatcher_call \<Rightarrow> nat multiset" where
  "announced_of (Channel_Created h c a) = {#c#}"
| "announced_of _ = {#}"

fun data_cb :: "('c, 'k) im_data \<Rightarrow> nat multiset" where
  "data_cb (Im_Create x) = (case ic_callback x of None \<Rightarrow> {#} | Some n \<Rightarrow> {#n#})"
| "data_cb (Im_Respond x) = {#}"

fun data_channel :: "('c, 'k) im_data \<Rightarrow> nat" where
  "data_channel (Im_Create x) = ic_channel x"
| "data_channel (Im_Respond x) = ir_channel x"

fun data_peer :: "('c, 'k) im_data \<Rightarrow> host_id" where
  "data_peer (Im_Create x) = ic_target x"
| "data_peer (Im_Respond x) = ir_source x"

fun data_type :: "('c, 'k) im_data \<Rightarrow> int" where
  "data_type (Im_Create x) = 1"
| "data_type (Im_Respond x) = 2"

definition im_owed :: "('c, 'k) im_dispatcher \<Rightarrow> nat multiset" where
  "im_owed s = (\<Sum>c \<in># mset (di_calls s). result_of c) + (\<Sum>op \<in># mset (ab_ops (di_ops s)). data_cb (op_data op))"

text \<open>The channels that were announced, and those that may be.\<close>

definition im_named :: "('c, 'k) im_dispatcher \<Rightarrow> nat multiset" where
  "im_named s = (\<Sum>c \<in># mset (di_calls s). announced_of c) + (\<Sum>op \<in># mset (ab_ops (di_ops s)). {#data_channel (op_data op)#})"

definition im_op_ok :: "('c, 'k) im_dispatcher \<Rightarrow> ('c, 'k) im_data aop \<Rightarrow> bool" where
  "im_op_ok s op \<longleftrightarrow> op_addr op < di_alloc s \<and> op_type op = data_type (op_data op) \<and>
     (op_type op = 1 \<longrightarrow> op_state op = 1) \<and> im_peer (di_store s (data_channel (op_data op))) = data_peer (op_data op)"

text \<open>The map holds the channels that are not closed, under their peers.\<close>

definition live_map :: "('c, 'k) im_dispatcher \<Rightarrow> bool" where
  "live_map s \<longleftrightarrow> (\<forall>h c. map_of (di_channels s) h = Some (Some c) \<longleftrightarrow>
     c < di_next s \<and> im_alive (di_store s c) \<and> im_peer (di_store s c) = h)"

definition im_names_ok :: "nat multiset \<Rightarrow> ('c, 'k) im_dispatcher \<Rightarrow> bool" where
  "im_names_ok X s \<longleftrightarrow> (\<forall>c. count (im_named s + X) c \<le> 1) \<and> (\<forall>c \<in># im_named s + X. c < di_next s)"

definition im_core :: "nat multiset \<Rightarrow> ('c, 'k) im_dispatcher \<Rightarrow> bool" where
  "im_core X s \<longleftrightarrow> (\<forall>op \<in> set (ab_ops (di_ops s)). im_op_ok s op) \<and> sm_ok (di_channels s) \<and> im_names_ok X s"

text \<open>\<open>X\<close>: channels in the hands of a handler.\<close>

definition im_inv :: "nat multiset \<Rightarrow> ('c, 'k) im_dispatcher \<Rightarrow> bool" where
  "im_inv X s \<longleftrightarrow> ab_ok (di_ops s) \<and> im_core X s \<and> live_map s"

lemma im_invD:
  assumes "im_inv X s"
  shows "ab_ok (di_ops s)" "ab_wf (di_ops s)" "op \<in> set (ab_ops (di_ops s)) \<Longrightarrow> im_op_ok s op" "sm_ok (di_channels s)"
    "im_names_ok X s" "live_map s" "im_core X s"
  using assms by (auto simp: im_inv_def im_core_def ab_ok_def)

lemma live_mapD:
  "live_map s \<Longrightarrow> map_of (di_channels s) h = Some (Some c) \<longleftrightarrow>
     c < di_next s \<and> im_alive (di_store s c) \<and> im_peer (di_store s c) = h"
  unfolding live_map_def by blast

text \<open>A step that leaves the operations and the channels alone, and answers and announces nothing.\<close>

lemma im_inv_frame:
  assumes "di_ops t = di_ops s" "di_alloc t = di_alloc s" "di_channels t = di_channels s" "di_store t = di_store s"
    "di_next t = di_next s" "(\<Sum>c \<in># mset (di_calls t). result_of c) = (\<Sum>c \<in># mset (di_calls s). result_of c)"
    "(\<Sum>c \<in># mset (di_calls t). announced_of c) = (\<Sum>c \<in># mset (di_calls s). announced_of c)"
  shows "im_inv X t \<longleftrightarrow> im_inv X s" "im_owed t = im_owed s"
proof -
  have "im_op_ok t op \<longleftrightarrow> im_op_ok s op" for op by (simp add: im_op_ok_def assms)
  moreover have "im_named t = im_named s" by (simp only: im_named_def assms)
  ultimately show "im_inv X t \<longleftrightarrow> im_inv X s" by (simp add: im_inv_def im_core_def live_map_def im_names_ok_def assms)
  show "im_owed t = im_owed s" by (simp only: im_owed_def assms)
qed

lemma di_call_fields [simp]:
  "di_ops (di_call c s) = di_ops s" "di_alloc (di_call c s) = di_alloc s" "di_channels (di_call c s) = di_channels s"
  "di_store (di_call c s) = di_store s" "di_next (di_call c s) = di_next s" "di_calls (di_call c s) = di_calls s @ [c]"
  "di_client (di_call c s) = di_client s" "di_hosts (di_call c s) = di_hosts s"
  by (simp_all add: di_call_def)

lemma di_tell_fields [simp]:
  "di_ops (di_tell cs s) = di_ops s" "di_alloc (di_tell cs s) = di_alloc s" "di_channels (di_tell cs s) = di_channels s"
  "di_store (di_tell cs s) = di_store s" "di_next (di_tell cs s) = di_next s" "di_calls (di_tell cs s) = di_calls s"
  "di_client (di_tell cs s) = di_client s" "di_hosts (di_tell cs s) = di_hosts s"
  by (simp_all add: di_tell_def)

text \<open>How a handler ends.\<close>

definition im_good :: "nat multiset \<Rightarrow> nat multiset \<Rightarrow> ('c, 'k) im_dispatcher \<Rightarrow> bool" where
  "im_good X n s \<longleftrightarrow> im_inv X s \<and> im_owed s = n"

lemma im_good_frame:
  assumes "im_good X n s" "di_ops t = di_ops s" "di_alloc t = di_alloc s" "di_channels t = di_channels s"
    "di_store t = di_store s" "di_next t = di_next s"
    "(\<Sum>c \<in># mset (di_calls t). result_of c) = (\<Sum>c \<in># mset (di_calls s). result_of c)"
    "(\<Sum>c \<in># mset (di_calls t). announced_of c) = (\<Sum>c \<in># mset (di_calls s). announced_of c)"
  shows "im_good X n t"
  using assms(1) im_inv_frame [OF assms(2-)] by (simp add: im_good_def)

subsection \<open>Channels change\<close>

lemma im_fields [simp]:
  "im_peer (im_invalidate ch) = im_peer ch" "im_alive (im_invalidate ch) = False"
  "im_peer (im_setState st ch) = im_peer ch" "im_alive (im_setState st ch) = im_alive ch"
  "im_peer (im_new h st) = h" "im_alive (im_new h st)"
  by (simp_all add: im_invalidate_def im_setState_def im_signal_def im_new_def)

lemma im_push_fields:
  assumes "im_pushMessage m ch = Done ch'"
  shows "im_peer ch' = im_peer ch" "im_alive ch' = im_alive ch"
  using assms by (auto simp: im_pushMessage_def Let_def im_signal_def split: if_splits outcome.splits option.splits)

lemma im_good_store:
  assumes good: "im_good X n s" and "\<And>c. im_peer (st c) = im_peer (di_store s c)" "\<And>c. im_alive (st c) = im_alive (di_store s c)"
  shows "im_good X n (s\<lparr>di_store := st\<rparr>)"
proof -
  let ?s = "s\<lparr>di_store := st\<rparr>"
  have "im_op_ok ?s op \<longleftrightarrow> im_op_ok s op" for op by (simp add: im_op_ok_def assms)
  moreover have "im_named ?s = im_named s" "im_owed ?s = im_owed s" by (simp_all add: im_named_def im_owed_def)
  ultimately show ?thesis
    using good by (simp add: im_good_def im_inv_def im_core_def live_map_def im_names_ok_def assms(2,3))
qed

text \<open>The channels of a map, if each is there once, and no null pointer.\<close>

lemma over_channels_done:
  assumes "over_channels f m s = Done s'" and "distinct (map snd m)"
  shows "\<exists>st. s' = s\<lparr>di_store := st\<rparr> \<and> (\<forall>h c. (h, Some c) \<in> set m \<longrightarrow> st c = f h (di_store s c)) \<and>
    (\<forall>c. Some c \<notin> snd ` set m \<longrightarrow> st c = di_store s c) \<and> None \<notin> snd ` set m"
  using assms
proof (induction f m s rule: over_channels.induct)
  case (1 f s)
  then show ?case by (intro exI [of _ "di_store s"]) simp
next
  case (3 f h c m s)
  then obtain st where st: "s' = (di_update c (f h) s)\<lparr>di_store := st\<rparr>"
    "\<forall>k d. (k, Some d) \<in> set m \<longrightarrow> st d = f k (di_store (di_update c (f h) s) d)"
    "\<forall>d. Some d \<notin> snd ` set m \<longrightarrow> st d = di_store (di_update c (f h) s) d" "None \<notin> snd ` set m" by auto
  have c: "Some c \<notin> snd ` set m" using 3(3) by simp
  then have "st c = f h (di_store s c)" using st(3) by (simp add: di_update_def)
  moreover have "st d = f k (di_store s d)" if "(k, Some d) \<in> set m" for k d
    using st(2) that c by (force simp: di_update_def)
  moreover have "st d = di_store s d" if "d \<noteq> c" "Some d \<notin> snd ` set m" for d
    using st(3) that by (simp add: di_update_def)
  moreover have "s' = s\<lparr>di_store := st\<rparr>" using st(1) by (simp add: di_update_def)
  ultimately show ?case using st(4) by auto
qed simp

lemma live_map_distinct:
  assumes "live_map s" and "sm_ok (di_channels s)" and "None \<notin> snd ` set (di_channels s)"
  shows "distinct (map snd (di_channels s))"
proof -
  have "h = h'" if "(h, x) \<in> set (di_channels s)" "(h', x) \<in> set (di_channels s)" for h h' x
  proof (cases x)
    case None
    then show ?thesis using that assms(3) by force
  next
    case (Some c)
    then show ?thesis using that assms(1,2) unfolding live_map_def by (metis sm_lookup)
  qed
  then have "inj_on snd (set (di_channels s))" by (auto simp: inj_on_def)
  moreover have "distinct (di_channels s)" using sm_ok_distinct [OF assms(2)] by (simp add: distinct_map)
  ultimately show ?thesis by (simp add: distinct_map)
qed

lemma over_channels_null: "over_channels f m s = Done s' \<Longrightarrow> None \<notin> snd ` set m"
  by (induction f m s rule: over_channels.induct) auto

lemma over_live:
  assumes inv: "im_inv X s" and run: "over_channels f (di_channels s) s = Done s'"
  obtains st where "s' = s\<lparr>di_store := st\<rparr>"
    "\<And>h c. map_of (di_channels s) h = Some (Some c) \<Longrightarrow> st c = f h (di_store s c)"
    "\<And>c. \<not> (c < di_next s \<and> im_alive (di_store s c)) \<Longrightarrow> st c = di_store s c"
proof -
  have null: "None \<notin> snd ` set (di_channels s)" by (rule over_channels_null [OF run])
  have look: "map_of (di_channels s) h = Some x \<longleftrightarrow> (h, x) \<in> set (di_channels s)" for h x
    by (rule sm_lookup [OF im_invD(4) [OF inv]])
  obtain st where st: "s' = s\<lparr>di_store := st\<rparr>" "\<forall>h c. (h, Some c) \<in> set (di_channels s) \<longrightarrow> st c = f h (di_store s c)"
    "\<forall>c. Some c \<notin> snd ` set (di_channels s) \<longrightarrow> st c = di_store s c"
    using over_channels_done [OF run live_map_distinct [OF im_invD(6,4) [OF inv] null]] by blast
  have "Some c \<notin> snd ` set (di_channels s)" if "\<not> (c < di_next s \<and> im_alive (di_store s c))" for c
  proof
    assume "Some c \<in> snd ` set (di_channels s)"
    then obtain h where "map_of (di_channels s) h = Some (Some c)" by (force simp: look)
    then show False using im_invD(6) [OF inv] that by (auto simp: live_map_def)
  qed
  with st look that show thesis by metis
qed

subsection \<open>Operations come and go\<close>

lemma im_take:
  assumes inv: "im_inv X s" and look: "map_of (ab_map (di_ops s)) i = Some op"
  defines "t \<equiv> s\<lparr>di_ops := ab_remove op i (di_ops s)\<rparr>"
  shows "im_inv (add_mset (data_channel (op_data op)) X) t" "im_owed s = im_owed t + data_cb (op_data op)" "im_op_ok s op"
    "im_peer (di_store t (data_channel (op_data op))) = data_peer (op_data op)"
proof -
  note wf = im_invD(2) [OF inv]
  note bag = mset_ab_remove [OF wf look] and rm = ab_remove_props [OF wf look]
  have "op \<in> set (ab_ops (di_ops s))" using ab_wf_mapD [OF wf look] by simp
  then show ok: "im_op_ok s op" by (rule im_invD(3) [OF inv])
  then show "im_peer (di_store t (data_channel (op_data op))) = data_peer (op_data op)" by (simp add: im_op_ok_def t_def)
  show "im_owed s = im_owed t + data_cb (op_data op)" using bag by (simp add: im_owed_def t_def)
  have "im_named s = add_mset (data_channel (op_data op)) (im_named t)" using bag by (simp add: im_named_def t_def)
  then have eq: "im_named t + add_mset (data_channel (op_data op)) X = im_named s + X" by simp
  have "im_names_ok (add_mset (data_channel (op_data op)) X) t"
    using im_invD(5) [OF inv] unfolding im_names_ok_def eq by (simp add: t_def)
  moreover have "im_op_ok t q" if "q \<in> set (ab_ops (di_ops t))" for q
    using im_invD(3) [OF inv, of q] that rm(2) by (auto simp: im_op_ok_def t_def)
  moreover have "ab_ok (di_ops t)" using ab_remove_ok [OF im_invD(1) [OF inv] look] by (simp add: t_def)
  moreover have "live_map t" using im_invD(6) [OF inv] by (simp add: live_map_def t_def)
  ultimately show "im_inv (add_mset (data_channel (op_data op)) X) t"
    using im_invD(4) [OF inv] by (simp add: im_inv_def im_core_def t_def)
qed

lemma im_result_good:
  assumes "im_good X n s"
  shows "im_good X (n + (case cb of None \<Rightarrow> {#} | Some m \<Rightarrow> {#m#})) (di_result cb e s)"
proof (cases cb)
  case (Some m)
  let ?t = "di_call (Create_Result m e) s"
  have "im_op_ok ?t op \<longleftrightarrow> im_op_ok s op" for op by (simp add: im_op_ok_def)
  moreover have "im_named ?t = im_named s" by (simp add: im_named_def)
  moreover have "im_owed ?t = im_owed s + {#m#}" by (simp add: im_owed_def)
  ultimately show ?thesis
    using assms by (simp add: Some di_result_def im_good_def im_inv_def im_core_def im_names_ok_def live_map_def)
qed (use assms in \<open>simp add: di_result_def\<close>)

lemma im_announce_good:
  assumes "im_good (add_mset c X) n s"
  shows "im_good X n (di_call (Channel_Created h c a) s)"
proof -
  let ?t = "di_call (Channel_Created h c a) s"
  have "im_op_ok ?t op \<longleftrightarrow> im_op_ok s op" for op by (simp add: im_op_ok_def)
  moreover have "im_named ?t + X = im_named s + add_mset c X" by (simp add: im_named_def)
  moreover have "im_owed ?t = im_owed s" by (simp add: im_owed_def)
  ultimately show ?thesis
    using assms unfolding im_good_def im_inv_def im_core_def im_names_ok_def live_map_def by simp
qed

text \<open>An operation fails: its channel is closed and taken out of the map.\<close>

lemma forget_update: "di_forget h c (di_update c f s) = di_update c f (di_forget h c s)"
  by (simp add: di_forget_def di_update_def split: option.split)

lemma im_forget_good:
  assumes good: "im_good (add_mset c X) n s" and peer: "im_peer (di_store s c) = h"
  shows "im_good X n (di_update c im_invalidate (di_forget h c s))"
proof -
  let ?t = "di_update c im_invalidate (di_forget h c s)"
  have f: "di_ops ?t = di_ops s" "di_alloc ?t = di_alloc s" "di_next ?t = di_next s" "di_calls ?t = di_calls s"
    "di_store ?t = (di_store s)(c := im_invalidate (di_store s c))"
    by (simp_all add: di_forget_def di_update_def split: option.split)
  have inv: "im_inv (add_mset c X) s" using good by (simp add: im_good_def)
  have op: "im_op_ok ?t q \<longleftrightarrow> im_op_ok s q" for q by (auto simp: im_op_ok_def f)
  have named: "im_named ?t = im_named s" and owed: "im_owed ?t = im_owed s" by (simp_all only: im_named_def im_owed_def f)
  have "im_names_ok X s"
  proof -
    have "count (im_named s + X) d \<le> count (im_named s + add_mset c X) d" for d by simp
    then show ?thesis using im_invD(5) [OF inv] unfolding im_names_ok_def by (auto intro: order_trans)
  qed
  then have names: "im_names_ok X ?t" unfolding im_names_ok_def named f(3) .
  have sm: "sm_ok (di_channels ?t)"
    using im_invD(4) [OF inv] by (simp add: di_forget_def di_update_def split: option.split)
  note at = live_mapD [OF im_invD(6) [OF inv]]
  have "map_of (di_channels ?t) k = Some (Some d) \<longleftrightarrow> d \<noteq> c \<and> map_of (di_channels s) k = Some (Some d)" for k d
  proof -
    have other: "map_of (di_channels s) k \<noteq> Some (Some c)" if "k \<noteq> h" using that peer by (simp add: at)
    have ch: "di_channels ?t = (case map_of (di_channels s) h of None \<Rightarrow> sm_insert h None (di_channels s)
        | Some x \<Rightarrow> if x = Some c then sm_erase h (di_channels s) else di_channels s)"
      by (simp add: di_forget_def di_update_def split: option.split)
    show ?thesis
    proof (cases "k = h")
      case True
      then show ?thesis unfolding ch by (cases "map_of (di_channels s) h") auto
    next
      case False
      with other have "d \<noteq> c" if "map_of (di_channels s) k = Some (Some d)" using that by auto
      with False show ?thesis unfolding ch by (cases "map_of (di_channels s) h") auto
    qed
  qed
  then have "map_of (di_channels ?t) k = Some (Some d) \<longleftrightarrow> d < di_next ?t \<and> im_alive (di_store ?t d) \<and> im_peer (di_store ?t d) = k"
    for k d by (cases "d = c") (simp_all only: f at, simp_all)
  then have "live_map ?t" by (simp add: live_map_def)
  then show ?thesis using inv names sm owed good by (simp add: im_good_def im_inv_def im_core_def f op)
qed

text \<open>A new channel and its operation, when no channel to the host is open any more.\<close>

definition live_but :: "host_id \<Rightarrow> ('c, 'k) im_dispatcher \<Rightarrow> bool" where
  "live_but h s \<longleftrightarrow> (\<forall>k c. k \<noteq> h \<and> map_of (di_channels s) k = Some (Some c) \<longleftrightarrow>
     c < di_next s \<and> im_alive (di_store s c) \<and> im_peer (di_store s c) = k)"

lemma live_but_none:
  assumes "live_map s" and "\<And>c. map_of (di_channels s) h \<noteq> Some (Some c)"
  shows "live_but h s"
  using assms unfolding live_map_def live_but_def by blast

lemma live_but_closed:
  assumes live: "live_map s" and c: "map_of (di_channels s) h = Some (Some c)"
    and m: "\<And>k. k \<noteq> h \<Longrightarrow> map_of m k = map_of (di_channels s) k"
  shows "live_but h ((di_update c im_invalidate s)\<lparr>di_channels := m\<rparr>)"
proof -
  let ?t = "(di_update c im_invalidate s)\<lparr>di_channels := m\<rparr>"
  have f: "di_channels ?t = m" "di_next ?t = di_next s" "di_store ?t = (di_store s)(c := im_invalidate (di_store s c))"
    by (simp_all add: di_update_def)
  note at = live_mapD [OF live]
  have "(k \<noteq> h \<and> map_of (di_channels ?t) k = Some (Some d)) \<longleftrightarrow>
      d < di_next ?t \<and> im_alive (di_store ?t d) \<and> im_peer (di_store ?t d) = k" for k d
  proof (cases "d = c")
    case True
    have "k = h" if "map_of (di_channels s) k = Some (Some c)" using that c by (simp add: at)
    then show ?thesis using True m [of k] unfolding f by auto
  next
    case False
    have "(k \<noteq> h \<and> map_of m k = Some (Some d)) \<longleftrightarrow> map_of (di_channels s) k = Some (Some d)"
      using c m [of k] False by (cases "k = h") auto
    then show ?thesis using False unfolding f by (simp add: at)
  qed
  then show ?thesis by (simp add: live_but_def)
qed

lemma im_enter_good:
  fixes s :: "('c, 'k) im_dispatcher" and os :: online_state
  assumes ok: "ab_ok (di_ops s)" and core: "im_core {#} s" and live: "live_but h s"
    and d: "data_channel d = di_next s" "data_peer d = h" and st: "data_type d = 1 \<Longrightarrow> st = 1"
    and op: "op = (new_op (data_type d) t (di_alloc s) d)\<lparr>op_id := i, op_state := st\<rparr>" and gen: "genFreeId (di_ops s) = (i, b)"
  defines "s' \<equiv> di_add op (s\<lparr>di_ops := b, di_alloc := di_alloc s + 1, di_store := (di_store s)(di_next s := im_new h os),
    di_next := di_next s + 1, di_channels := sm_insert h (Some (di_next s)) (di_channels s)\<rparr>)"
  shows "im_good {#} (im_owed s + data_cb d) s'"
proof -
  have okb: "ab_ok b" using genFreeId_ok [OF ok] gen by simp
  have b: "ab_ops b = ab_ops (di_ops s)" using gen by (auto simp: genFreeId_def)
  have ops: "im_op_ok s q" if "q \<in> set (ab_ops (di_ops s))" for q using core that by (simp add: im_core_def)
  have "op_addr op \<notin> op_addr ` set (ab_ops (di_ops s))" using ops by (force simp: op new_op_def im_op_ok_def)
  then have fresh: "op_fresh op b" by (rule genFreeId_fresh [OF ok gen]) (simp add: op new_op_def)
  have nz: "op_id op \<noteq> 0" using ok gen by (auto simp: op genFreeId_def ab_ok_def ab_wf_def)
  obtain j b' where add: "addAsyncOp op b = (j, b')" by fastforce
  note bag = mset_addAsyncOp [OF fresh nz, unfolded add snd_conv]
  have okb': "ab_ok b'" using addAsyncOp_ok(1) [OF okb fresh add] .
  have f: "di_ops s' = b'" "di_alloc s' = di_alloc s + 1" "di_calls s' = di_calls s" "di_next s' = di_next s + 1"
    "di_store s' = (di_store s)(di_next s := im_new h os)"
    "di_channels s' = sm_insert h (Some (di_next s)) (di_channels s)"
    by (simp_all add: s'_def di_add_def add)
  have set: "set (ab_ops b') = insert op (set (ab_ops (di_ops s)))"
    using bag(1) b by (metis set_mset_add_mset_insert set_mset_mset)
  have named: "im_named s' = add_mset (di_next s) (im_named s)"
    using bag(1) by (simp add: im_named_def f b d(1) op new_op_def)
  have owed: "im_owed s' = im_owed s + data_cb d" using bag(1) by (simp add: im_owed_def f b op new_op_def)
  have names: "im_names_ok {#} s" using core by (simp add: im_core_def)
  then have "count (im_named s) (di_next s) = 0" by (auto simp: im_names_ok_def simp flip: not_in_iff)
  then have names': "im_names_ok {#} s'"
    using names by (auto simp: im_names_ok_def named f)
  have "im_op_ok s' q" if "q \<in> set (ab_ops (di_ops s'))" for q
  proof (cases "q = op")
    case True
    then show ?thesis using d st by (simp add: im_op_ok_def f op new_op_def)
  next
    case False
    then have q: "q \<in> set (ab_ops (di_ops s))" using that set f(1) by simp
    then have "data_channel (op_data q) \<in># im_named s" by (force simp: im_named_def)
    then have "data_channel (op_data q) < di_next s" using names by (simp add: im_names_ok_def)
    then show ?thesis using ops [OF q] by (auto simp: im_op_ok_def f)
  qed
  moreover have "live_map s'"
  proof -
    have "map_of (di_channels s') k = Some (Some c) \<longleftrightarrow>
        c < di_next s' \<and> im_alive (di_store s' c) \<and> im_peer (di_store s' c) = k" for k c
      using live [unfolded live_but_def, rule_format, of k c] by (cases "c = di_next s") (auto simp: f)
    then show ?thesis by (simp add: live_map_def)
  qed
  moreover have "sm_ok (di_channels s')" using core by (simp add: f im_core_def)
  ultimately show ?thesis using okb' names' owed f(1) by (simp add: im_good_def im_inv_def im_core_def)
qed

subsection \<open>Every step keeps it\<close>

lemma di_disconnect_good:
  assumes good: "im_good {#} n s" and run: "di_disconnect s = Done s'"
  shows "im_good {#} n s'"
proof -
  have inv: "im_inv {#} s" using good by (simp add: im_good_def)
  obtain s1 where s1: "over_channels (\<lambda>_. im_invalidate) (di_channels s) s = Done s1" using run by (auto simp: di_disconnect_def)
  obtain st where st: "s1 = s\<lparr>di_store := st\<rparr>"
    "\<And>h c. map_of (di_channels s) h = Some (Some c) \<Longrightarrow> st c = im_invalidate (di_store s c)"
    "\<And>c. \<not> (c < di_next s \<and> im_alive (di_store s c)) \<Longrightarrow> st c = di_store s c"
    using over_live [OF inv s1] by blast
  have peer: "im_peer (st c) = im_peer (di_store s c)" and dead: "c < di_next s \<Longrightarrow> \<not> im_alive (st c)" for c
    using st(2) [of "im_peer (di_store s c)" c] st(3) [of c] live_mapD [OF im_invD(6) [OF inv], of "im_peer (di_store s c)" c]
    by (cases "c < di_next s \<and> im_alive (di_store s c)"; simp)+
  let ?t = "s\<lparr>di_store := st, di_channels := []\<rparr>"
  have "im_op_ok ?t op \<longleftrightarrow> im_op_ok s op" for op by (simp add: im_op_ok_def peer)
  moreover have "im_named ?t = im_named s" "im_owed ?t = im_owed s" by (simp_all add: im_named_def im_owed_def)
  moreover have "live_map ?t" using dead by (auto simp: live_map_def)
  ultimately have "im_good {#} n ?t" using good by (simp add: im_good_def im_inv_def im_core_def im_names_ok_def)
  then show ?thesis
    by (rule im_good_frame) (use run s1 st(1) in \<open>auto simp: di_disconnect_def Let_def split: if_splits\<close>)
qed

lemma di_setState_good:
  assumes good: "im_good {#} n s" and run: "over_channels (\<lambda>h. im_setState (f h)) (di_channels s) s = Done s'"
  shows "im_good {#} n s'"
proof -
  have inv: "im_inv {#} s" using good by (simp add: im_good_def)
  obtain st where st: "s' = s\<lparr>di_store := st\<rparr>"
    "\<And>h c. map_of (di_channels s) h = Some (Some c) \<Longrightarrow> st c = im_setState (f h) (di_store s c)"
    "\<And>c. \<not> (c < di_next s \<and> im_alive (di_store s c)) \<Longrightarrow> st c = di_store s c"
    using over_live [OF inv run] by blast
  have "im_peer (st c) = im_peer (di_store s c) \<and> im_alive (st c) = im_alive (di_store s c)" for c
    using st(2) [of "im_peer (di_store s c)" c] st(3) [of c] live_mapD [OF im_invD(6) [OF inv], of "im_peer (di_store s c)" c]
    by (cases "c < di_next s \<and> im_alive (di_store s c)") simp_all
  then show ?thesis unfolding st(1) by (intro im_good_store [OF good]) simp_all
qed

lemma di_push_good:
  assumes good: "im_good X n s" and run: "di_push m c s = Done s'"
  shows "im_good X n s'"
proof -
  obtain ch where "im_pushMessage m (di_store s c) = Done ch" "s' = s\<lparr>di_store := (di_store s)(c := ch)\<rparr>"
    using run by (auto simp: di_push_def di_update_def)
  moreover have "im_good X n (s\<lparr>di_store := (di_store s)(c := ch)\<rparr>)"
    using im_push_fields [OF calculation(1)] by (intro im_good_store [OF good]) simp_all
  ultimately show ?thesis by simp
qed

lemma di_onAuthCreating_good:
  assumes good: "im_good {#} n s" and run: "di_onAuthCreating e i s = Done s'"
    and ty: "\<And>op. map_of (ab_map (di_ops s)) i = Some op \<Longrightarrow> op_type op = 1"
  shows "im_good {#} n s'"
proof (cases "map_of (ab_map (di_ops s)) i")
  case None
  then show ?thesis using run good by (simp add: di_onAuthCreating_def getReadyAsyncOpOf_def getReadyAsyncOp_def)
next
  case (Some op)
  define t where "t = s\<lparr>di_ops := ab_remove op i (di_ops s)\<rparr>"
  have inv: "im_inv {#} s" using good by (simp add: im_good_def)
  note tk = im_take [OF inv Some, folded t_def]
  show ?thesis
  proof (cases "op_data op")
    case (Im_Respond x)
    then show ?thesis using ty [OF Some] tk(3) by (simp add: im_op_ok_def)
  next
    case (Im_Create x)
    let ?cb = "case ic_callback x of None \<Rightarrow> {#} | Some m \<Rightarrow> {#m#}"
    have t: "im_good (add_mset (ic_channel x) {#}) (im_owed t) t" "n = im_owed t + ?cb"
      using tk(1,2) good by (simp_all add: im_good_def Im_Create)
    have "s' = (if failed e then di_result (ic_callback x) AuthError
          (di_update (ic_channel x) im_invalidate (di_forget (ic_target x) (ic_channel x) t))
        else di_result (ic_callback x) NoError (di_call (Channel_Created (ic_target x) (ic_channel x) True) t))"
      using run Some tk(3)
      by (cases "failed e")
        (simp_all add: di_onAuthCreating_def getReadyAsyncOpOf_def getReadyAsyncOp_def im_op_ok_def Im_Create t_def forget_update)
    moreover have "im_good {#} n (di_result (ic_callback x) AuthError
        (di_update (ic_channel x) im_invalidate (di_forget (ic_target x) (ic_channel x) t)))"
      unfolding t(2) by (intro im_result_good im_forget_good [OF t(1)]) (use tk(4) in \<open>simp add: Im_Create\<close>)
    moreover have "im_good {#} n (di_result (ic_callback x) NoError (di_call (Channel_Created (ic_target x) (ic_channel x) True) t))"
      unfolding t(2) by (intro im_result_good im_announce_good t(1))
    ultimately show ?thesis by simp
  qed
qed

lemma di_onAuthResponding_good:
  assumes good: "im_good {#} n s" and run: "di_onAuthResponding e i s = Done s'"
    and ty: "\<And>op. map_of (ab_map (di_ops s)) i = Some op \<Longrightarrow> op_type op = 2"
  shows "im_good {#} n s'"
proof (cases "map_of (ab_map (di_ops s)) i")
  case None
  then show ?thesis using run good by (simp add: di_onAuthResponding_def getReadyAsyncOpOf_def getReadyAsyncOp_def)
next
  case (Some op)
  define t where "t = s\<lparr>di_ops := ab_remove op i (di_ops s)\<rparr>"
  have inv: "im_inv {#} s" using good by (simp add: im_good_def)
  note tk = im_take [OF inv Some, folded t_def]
  show ?thesis
  proof (cases "op_data op")
    case (Im_Create x)
    then show ?thesis using ty [OF Some] tk(3) by (simp add: im_op_ok_def)
  next
    case (Im_Respond x)
    have t: "im_good (add_mset (ir_channel x) {#}) n t" using tk(1,2) good by (simp add: im_good_def Im_Respond)
    have "s' = (if failed e then di_update (ir_channel x) im_invalidate (di_forget (ir_source x) (ir_channel x) t)
        else di_call (Channel_Created (ir_source x) (ir_channel x) False) t)"
      using run Some tk(3)
      by (cases "failed e")
        (simp_all add: di_onAuthResponding_def getReadyAsyncOpOf_def getReadyAsyncOp_def im_op_ok_def Im_Respond t_def forget_update)
    moreover have "im_good {#} n (di_update (ir_channel x) im_invalidate (di_forget (ir_source x) (ir_channel x) t))"
      by (rule im_forget_good [OF t]) (use tk(4) in \<open>simp add: Im_Respond\<close>)
    ultimately show ?thesis using im_announce_good [OF t] by simp
  qed
qed

lemma di_cancel_good:
  assumes good: "im_good {#} n s" and look: "map_of (ab_map (di_ops s)) i = Some op"
  shows "im_good {#} n (di_onCancel e op (s\<lparr>di_ops := ab_remove op i (di_ops s)\<rparr>))"
proof -
  define t where "t = s\<lparr>di_ops := ab_remove op i (di_ops s)\<rparr>"
  have inv: "im_inv {#} s" using good by (simp add: im_good_def)
  note tk = im_take [OF inv look, folded t_def]
  have t: "im_good (add_mset (data_channel (op_data op)) {#}) (im_owed t) t" "n = im_owed t + data_cb (op_data op)"
    using tk(1,2) good by (simp_all add: im_good_def)
  have "im_good {#} (im_owed t) (di_onOpCanceled (data_peer (op_data op)) (data_channel (op_data op)) t)"
    unfolding di_onOpCanceled_def by (rule im_forget_good [OF t(1) tk(4)])
  from im_result_good [OF this] this t(2) show ?thesis
    unfolding t_def [symmetric] by (cases "op_data op") (simp_all add: di_onCancel_def)
qed

lemma di_timer_good:
  assumes good: "im_good {#} n s" and run: "di_onTimer ct s = Some s'"
  shows "im_good {#} n s'"
proof (rule dispatcher.timer_keeps [OF run [unfolded di_onTimer_def], where P = "im_good {#} n"])
  show "im_good {#} n s" by (rule good)
next
  fix r :: "('a, 'b) im_dispatcher" assume "im_good {#} n r"
  then show "ab_ok (di_ops r)" by (simp add: im_good_def im_inv_def)
next
  fix r :: "('a, 'b) im_dispatcher" and op
  assume "im_good {#} n r" "map_of (ab_map (di_ops r)) (op_id op) = Some op"
  from di_cancel_good [OF this] show "im_good {#} n (di_onCancel TimeOut op (di_put_ops (ab_remove op (op_id op) (di_ops r)) r))"
    by (simp add: di_put_ops_def)
next
  fix r :: "('a, 'b) im_dispatcher" and b
  assume "im_good {#} n r" "ab_ok b" "ab_ops b = ab_ops (di_ops r)"
  then show "im_good {#} n (di_put_ops b r)"
    by (simp add: im_good_def im_inv_def im_core_def im_owed_def im_names_ok_def im_named_def live_map_def im_op_ok_def di_put_ops_def)
qed

text \<open>The authentication of an operation changes, nothing else of it.\<close>

lemma im_set_auth_same [simp]:
  "data_cb (im_set_auth p d) = data_cb d" "data_channel (im_set_auth p d) = data_channel d"
  "data_peer (im_set_auth p d) = data_peer d" "data_type (im_set_auth p d) = data_type d"
  by (cases d; simp)+

lemma di_authEvent_good:
  assumes good: "im_good {#} n s" and run: "di_authEvent E i ev s = Done s'"
  shows "im_good {#} n s'"
proof (cases "map_of (ab_map (di_ops s)) i")
  case None
  then show ?thesis using run good by (simp add: di_authEvent_def)
next
  case (Some op)
  then obtain r q where ev: "auth_event (de_authEnv E) ev (im_auth_of (op_data op)) = Done (r, q)"
    using run by (auto simp: di_authEvent_def)
  define t where "t = s\<lparr>di_ops := ab_modify i (im_set_auth q) (di_ops s)\<rparr>"
  let ?g = "\<lambda>op. if op_id op = i then op\<lparr>op_data := im_set_auth q (op_data op)\<rparr> else op"
  have inv: "im_inv {#} s" using good by (simp add: im_good_def)
  note m = ab_modify_ok [OF im_invD(1) [OF inv], of i "im_set_auth q"]
  have ops: "ab_ops (di_ops t) = map ?g (ab_ops (di_ops s))" using m(4) by (simp add: t_def)
  have same: "data_cb (op_data (?g op)) = data_cb (op_data op)" "data_channel (op_data (?g op)) = data_channel (op_data op)"
    "im_op_ok t (?g op) \<longleftrightarrow> im_op_ok s op" for op
    by (auto simp: im_op_ok_def t_def)
  have "im_owed t = im_owed s" "im_named t = im_named s"
    by (simp_all only: im_owed_def im_named_def ops mset_map image_mset.compositionality comp_def same) (simp_all add: t_def)
  moreover have "\<forall>op \<in> set (ab_ops (di_ops t)). im_op_ok t op" using im_invD(3) [OF inv] same(3) unfolding ops by force
  ultimately have t: "im_good {#} n t"
    using good m(1) unfolding im_good_def im_inv_def im_core_def im_names_ok_def live_map_def by (simp add: t_def)
  have i: "op_id op = i" "im_op_ok s op" "op_type (?g op) = op_type op"
    using ab_wf_mapD [OF im_invD(2) [OF inv] Some] im_invD(3) [OF inv] by auto
  have look: "op_type q = op_type op" if "map_of (ab_map (di_ops t)) i = Some q" for q
    using m(2) [of i] Some that by (auto simp: t_def)
  have run': "case r of None \<Rightarrow> s' = t | Some e \<Rightarrow> di_onAuth e op t = Done s'"
    using run Some ev by (cases r) (simp_all add: di_authEvent_def t_def)
  show ?thesis
  proof (cases r)
    case None
    then show ?thesis using run' t by simp
  next
    case (Some e)
    then have on: "di_onAuth e op t = Done s'" using run' by simp
    show ?thesis
    proof (cases "op_data op")
      case (Im_Create x)
      with on i(1) have "di_onAuthCreating e i t = Done s'" by (simp add: di_onAuth_def)
      from di_onAuthCreating_good [OF t this] look i(2) show ?thesis by (simp add: im_op_ok_def Im_Create)
    next
      case (Im_Respond x)
      with on i(1) have "di_onAuthResponding e i t = Done s'" by (simp add: di_onAuth_def)
      from di_onAuthResponding_good [OF t this] look i(2) show ?thesis by (simp add: im_op_ok_def Im_Respond)
    qed
  qed
qed

text \<open>A channel that is replaced is closed first.\<close>

lemma im_close_core:
  assumes good: "im_good {#} n s" and t: "t = (di_update c im_invalidate s)\<lparr>di_channels := m\<rparr>" and m: "sm_ok m"
  shows "ab_ok (di_ops t)" "im_core {#} t" "im_owed t = n"
proof -
  have f: "di_ops t = di_ops s" "di_alloc t = di_alloc s" "di_next t = di_next s" "di_calls t = di_calls s"
    "di_store t = (di_store s)(c := im_invalidate (di_store s c))" by (simp_all add: t di_update_def)
  have "im_op_ok t op \<longleftrightarrow> im_op_ok s op" for op by (auto simp: im_op_ok_def f)
  moreover have "im_named t = im_named s" "im_owed t = im_owed s" by (simp_all only: im_named_def im_owed_def f)
  ultimately show "ab_ok (di_ops t)" "im_core {#} t" "im_owed t = n"
    using good m by (simp_all add: im_good_def im_inv_def im_core_def im_names_ok_def f) (simp add: t)
qed

lemma di_createChannel_good:
  assumes good: "im_good {#} n s" and run: "di_createChannel E target cb ms s = Done (e, s')"
  shows "im_good {#} (n + (if failed e then {#} else case cb of None \<Rightarrow> {#} | Some m \<Rightarrow> {#m#})) s'"
proof (cases "di_client s")
  case False
  then show ?thesis using run good by (simp add: di_createChannel_def)
next
  case True
  have inv: "im_inv {#} s" using good by (simp add: im_good_def)
  have none: "map_of (di_channels s) target \<noteq> Some None" using run True by (auto simp: di_createChannel_def)
  define s1 where "s1 = (case map_of (di_channels s) target of
      Some (Some c) \<Rightarrow> (di_update c im_invalidate s)\<lparr>di_channels := sm_erase target (di_channels s)\<rparr> | _ \<Rightarrow> s)"
  have "ab_ok (di_ops s1) \<and> im_core {#} s1 \<and> im_owed s1 = n \<and> live_but target s1"
  proof (cases "map_of (di_channels s) target")
    case None
    have "live_but target s" by (rule live_but_none [OF im_invD(6) [OF inv]]) (simp add: None)
    then show ?thesis using None good by (simp add: s1_def im_good_def im_inv_def)
  next
    case (Some x)
    then obtain c where c: "map_of (di_channels s) target = Some (Some c)" using none by (cases x) auto
    then have eq: "s1 = (di_update c im_invalidate s)\<lparr>di_channels := sm_erase target (di_channels s)\<rparr>" by (simp add: s1_def)
    have "live_but target s1" unfolding eq by (rule live_but_closed [OF im_invD(6) [OF inv] c]) simp
    then show ?thesis using im_close_core [OF good eq] im_invD(4) [OF inv] by simp
  qed
  then have s1: "ab_ok (di_ops s1)" "im_core {#} s1" "im_owed s1 = n" "live_but target s1" by simp_all
  obtain i b where gen: "genFreeId (di_ops s1) = (i, b)" by fastforce
  obtain p where p: "ap_connect (de_authEnv E) target ms (im_auth_init E (di_next s1) (di_auth s)) = Done p"
    using ap_connect_Done by blast
  let ?d = "Im_Create \<lparr>ic_target = target, ic_callback = cb, ic_auth = p, ic_channel = di_next s1\<rparr>"
  let ?op = "(new_op (data_type ?d) (regTimeOutMs (de_now E) ms) (di_alloc s1) ?d)\<lparr>op_id := i, op_state := 1\<rparr>"
  have "e = NoError \<and> s' = di_add ?op (s1\<lparr>di_ops := b, di_alloc := di_alloc s1 + 1,
      di_store := (di_store s1)(di_next s1 := im_new target (di_onlineState target s1)), di_next := di_next s1 + 1,
      di_channels := sm_insert target (Some (di_next s1)) (di_channels s1)\<rparr>)"
    using run True none gen p
    by (cases "map_of (di_channels s) target")
      (auto simp: di_createChannel_def s1_def Let_def di_newChannel_def di_onlineState_def split: option.splits)
  with im_enter_good [OF s1(1,2,4), where d = ?d and op = ?op, OF _ _ _ HOL.refl gen] s1(3)
  show ?thesis by simp
qed

lemma di_respond_good:
  assumes t: "ab_ok (di_ops t)" "im_core {#} t" "im_owed t = n" "live_but source t" and run: "di_respond E source t = (c, s')"
  shows "im_good {#} n s'"
proof -
  obtain i b where gen: "genFreeId (di_ops t) = (i, b)" by fastforce
  let ?d = "Im_Respond \<lparr>ir_source = source,
    ir_auth = ap_passive (de_authEnv E) source 30000 (im_auth_init E (di_next t) (di_auth t)), ir_channel = di_next t\<rparr>"
  let ?op = "(new_op (data_type ?d) (regTimeOutMs (de_now E) (di_timeOutMs t)) (di_alloc t) ?d)\<lparr>op_id := i, op_state := 0\<rparr>"
  have "s' = di_add ?op (t\<lparr>di_ops := b, di_alloc := di_alloc t + 1,
      di_store := (di_store t)(di_next t := im_new source (di_onlineState source t)), di_next := di_next t + 1,
      di_channels := sm_insert source (Some (di_next t)) (di_channels t)\<rparr>)"
    using run gen by (auto simp: di_respond_def Let_def di_newChannel_def di_onlineState_def new_op_def)
  with im_enter_good [OF t(1,2,4), where d = ?d and op = ?op, OF _ _ _ HOL.refl gen] t(3)
  show ?thesis by simp
qed

lemma di_onMessage_good:
  assumes good: "im_good {#} n s" and run: "di_onMessage E m s = Done s'"
  shows "im_good {#} n s'"
proof -
  have inv: "im_inv {#} s" using good by (simp add: im_good_def)
  let ?h = "m_from m"
  show ?thesis
  proof (cases "isCreateChannel E m")
    case False
    then show ?thesis
      using run im_good_frame [OF good, of s'] di_push_good [OF good]
      by (auto simp: di_onMessage_def split: option.splits if_splits)
  next
    case True
    then obtain s1 where s1: "(case map_of (di_channels s) ?h of None \<Rightarrow> Done s | Some None \<Rightarrow> Fault NullDeref
        | Some (Some c) \<Rightarrow> Done (di_update c im_invalidate s)) = Done s1"
      and push: "di_push m (fst (di_respond E ?h s1)) (snd (di_respond E ?h s1)) = Done s'"
      using run by (auto simp: di_onMessage_def Let_def case_prod_beta split: if_splits)
    have "ab_ok (di_ops s1) \<and> im_core {#} s1 \<and> im_owed s1 = n \<and> live_but ?h s1"
    proof (cases "map_of (di_channels s) ?h")
      case None
      have "live_but ?h s" by (rule live_but_none [OF im_invD(6) [OF inv]]) (simp add: None)
      then show ?thesis using None s1 good by (simp add: im_good_def im_inv_def)
    next
      case (Some x)
      then obtain c where c: "map_of (di_channels s) ?h = Some (Some c)" using s1 by (cases x) auto
      then have eq: "s1 = (di_update c im_invalidate s)\<lparr>di_channels := di_channels s\<rparr>" using s1 by (auto simp: di_update_def)
      have "live_but ?h s1" unfolding eq by (rule live_but_closed [OF im_invD(6) [OF inv] c]) simp
      then show ?thesis using im_close_core [OF good eq] im_invD(4) [OF inv] by simp
    qed
    then have t: "ab_ok (di_ops s1)" "im_core {#} s1" "im_owed s1 = n" "live_but ?h s1" by simp_all
    obtain c s2 where "di_respond E ?h s1 = (c, s2)" by fastforce
    with di_respond_good [OF t this] push show ?thesis by (auto intro: di_push_good)
  qed
qed

lemma di_setConnectionString_good:
  assumes good: "im_good {#} n s" and run: "di_setConnectionString E str password s = Done (e, s')"
  shows "im_good {#} n s'"
proof -
  obtain s1 where s1: "(if di_client s then di_disconnect s else Done s) = Done s1"
    using run by (auto simp: di_setConnectionString_def)
  have "im_good {#} n s1" using s1 good by (auto split: if_splits intro: di_disconnect_good)
  then show ?thesis
    by (rule im_good_frame) (use run s1 in \<open>auto simp: di_setConnectionString_def Let_def split: if_splits option.splits\<close>)
qed

lemma im_step_good:
  assumes "im_step s new s'" and good: "im_good {#} n s"
  shows "im_good {#} (n + mset new) s'"
  using assms(1)
proof cases
  case (im_create E target cb ms e)
  from di_createChannel_good [OF good im_create(2)] im_create(1) show ?thesis by (cases cb; simp split: if_splits)
next
  case (im_setup E str password e)
  with di_setConnectionString_good [OF good] show ?thesis by simp
next
  case (im_connect e)
  then obtain s1 where "s' = s \<or> di_disconnect s = Done s1 \<and> s' = di_tell [Client_Connect] s1"
    by (auto simp: di_connect_def split: if_splits)
  moreover have "im_good {#} n (di_tell [Client_Connect] s1)" if "di_disconnect s = Done s1"
    by (rule im_good_frame [OF di_disconnect_good [OF good that]]) simp_all
  ultimately show ?thesis using good im_connect(1) by auto
next
  case im_disconnect
  with di_disconnect_good [OF good] show ?thesis by simp
next
  case (im_state st)
  have setState: "im_good {#} n s2" if "over_channels (\<lambda>_. im_setState OS_OFFLINE) (di_channels s) s = Done s2" for s2
    using di_setState_good [OF good, of "\<lambda>_. OS_OFFLINE"] that by simp
  show ?thesis
  proof (cases "st = CS_CONNECTED")
    case True
    then show ?thesis using im_state im_good_frame [OF good, of s'] by (auto simp: di_onConnectionState_def split: if_splits)
  next
    case False
    then obtain s2 where s2: "over_channels (\<lambda>_. im_setState OS_OFFLINE) (di_channels s) s = Done s2"
      "s' = di_call (Online_Changed (online_of st)) (di_call Peers_Changed (s2\<lparr>di_hosts := [], di_users := [], di_roster := []\<rparr>))"
      using im_state by (auto simp: di_onConnectionState_def)
    have "im_good {#} n s'" by (rule im_good_frame [OF setState [OF s2(1)]]) (simp_all add: s2(2))
    then show ?thesis by (simp add: im_state(1))
  qed
next
  case (im_roster E)
  show ?thesis
  proof (cases "di_client s")
    case True
    obtain users hosts where uh: "fold (\<lambda>p. add_contact (di_hostId s) (snd p)) (de_roster E) ([], []) = (users, hosts)" by fastforce
    define s1 where "s1 = s\<lparr>di_roster := de_roster E, di_users := users, di_hosts := hosts\<rparr>"
    obtain s2 where s2: "over_channels (\<lambda>h. im_setState (di_onlineState h s1)) (di_channels s1) s1 = Done s2"
      "s' = di_call Peers_Changed s2"
      using im_roster True uh by (auto simp: di_onRoster_def s1_def Let_def)
    have "im_good {#} n s1" by (rule im_good_frame [OF good]) (simp_all add: s1_def)
    from di_setState_good [OF this s2(1)] have "im_good {#} n s2" .
    then have "im_good {#} n s'" by (rule im_good_frame) (simp_all add: s2(2))
    then show ?thesis by (simp add: im_roster(1))
  qed (use im_roster good in \<open>simp add: di_onRoster_def\<close>)
next
  case (im_message E m)
  with di_onMessage_good [OF good] show ?thesis by simp
next
  case (im_auth E i ev)
  with di_authEvent_good [OF good] show ?thesis by simp
next
  case (im_timer ct)
  with di_timer_good [OF good] show ?thesis by simp
qed (use im_good_frame [OF good, of s'] in
  \<open>auto simp: di_setAuthentication_def di_setOwnFeature_def di_ask_def di_updateFeatures_def di_onFeatures_def Let_def
     di_onSubscribeRequest_def di_onStreamError_def split: if_splits option.splits\<close>)

lemma im_good_new: "im_good {#} {#} di_new"
proof -
  have "ab_ops (ab_init :: ('a, 'b) im_data async_base) = []" by (simp add: ab_init_def)
  then show "im_good {#} {#} (di_new :: ('a, 'b) im_dispatcher)"
    by (simp add: im_good_def im_inv_def im_core_def im_names_ok_def im_named_def im_owed_def live_map_def di_new_def)
qed

lemma im_run_good:
  assumes "im_run s cbs s'" and "im_good {#} n s"
  shows "im_good {#} (n + mset cbs) s'"
  using assms
proof (induction rule: im_run.induct)
  case (im_more s cbs s' new s'')
  then have "im_good {#} (n + mset cbs) s'" by blast
  from im_step_good [OF im_more(2) this] show ?case by (simp add: ac_simps)
qed simp

end
