(* ===== verification/Sf_IMProps.thy ===== *)
theory Sf_IMProps
  imports Sf_IMRuns
begin

text \<open>
  What users of \<open>p2p/channels/IMDispatcher.cpp\<close> may rely on, and what they may not.
\<close>

subsection \<open>A run\<close>

text \<open>A channel is requested, the client goes offline, and the authentication of the channel fails.\<close>

definition demo_im :: "(unit, nat) im_env" where
  "demo_im =
     \<lparr>de_now = 0, de_create = (\<lambda>_. True), de_connected = True, de_ownId = ''me'', de_roster = [], de_answer = (\<lambda>_. NoError),
      de_subscribes = False, de_stream = (\<lambda>_. ()), de_authState = AUTH_ERROR,
      de_authEnv = \<lparr>ae_now = 0,
        ae_vt = \<lparr>vt_error = (\<lambda>_. Closed), vt_write = (\<lambda>_ _. (NoError, ())), vt_read = (\<lambda>_ _. (None, ())),
                 vt_info = (\<lambda>_. \<lparr>ci_delay = 0, ci_virtual = False, ci_authenticated = True\<rparr>)\<rparr>,
        ae_x509 = \<lparr>x_fingerprint = (\<lambda>_. []), x_export = (\<lambda>_. []), x_import = (\<lambda>_. None),
                   x_selfsigned = (\<lambda>_. 0), x_commonName = (\<lambda>_. [])\<rparr>,
        ae_enc = (\<lambda>_. []), ae_dec = (\<lambda>_. \<lparr>ds_error = True, ds_cmd = [], ds_field = (\<lambda>_. None), ds_fail = None\<rparr>),
        ae_version = []\<rparr>\<rparr>"

definition demo_im1 :: "(unit, nat) im_dispatcher" where
  "demo_im1 = snd (outcome_the (NoError, di_new) (di_setConnectionString demo_im ''xmpp://me'' [] di_new))"

definition demo_im2 :: "(unit, nat) im_dispatcher" where
  "demo_im2 = snd (outcome_the (NoError, di_new) (di_createChannel demo_im ''b'' (Some 7) 1000 demo_im1))"

definition demo_im3 :: "(unit, nat) im_dispatcher" where
  "demo_im3 = outcome_the di_new (di_disconnect demo_im2)"

definition demo_im4 :: "(unit, nat) im_dispatcher" where
  "demo_im4 = outcome_the di_new (di_authEvent demo_im 1 Auth_Run demo_im3)"

definition demo_im5 :: "(unit, nat) im_dispatcher" where
  "demo_im5 = outcome_the di_new (di_authEvent demo_im 1 Auth_Run demo_im4)"

lemma demo_im_ok:
  "outcome_ok (di_setConnectionString demo_im ''xmpp://me'' [] di_new)"
  "outcome_ok (di_createChannel demo_im ''b'' (Some 7) 1000 demo_im1)"
  "fst (outcome_the (NoError, di_new) (di_createChannel demo_im ''b'' (Some 7) 1000 demo_im1)) = NoError"
  "outcome_ok (di_disconnect demo_im2)" "outcome_ok (di_authEvent demo_im 1 Auth_Run demo_im3)"
  "outcome_ok (di_authEvent demo_im 1 Auth_Run demo_im4)"
  by code_simp+

lemma demo_im_run: "im_run di_new [7] demo_im2" "im_run di_new [7] demo_im3" "im_run di_new [7] demo_im5"
proof -
  let ?r = "outcome_the (NoError, di_new) (di_setConnectionString demo_im ''xmpp://me'' [] di_new)"
  have "di_setConnectionString demo_im ''xmpp://me'' [] di_new = Done (fst ?r, demo_im1)"
    unfolding demo_im1_def prod.collapse by (rule outcome_done [OF demo_im_ok(1)])
  then have "im_step di_new [] demo_im1" by (rule im_step.im_setup)
  from im_more [OF im_refl this] have 1: "im_run di_new [] demo_im1" by simp
  have "di_createChannel demo_im ''b'' (Some 7) 1000 demo_im1 = Done (NoError, demo_im2)"
    using outcome_done [OF demo_im_ok(2), of "(NoError, di_new)"] demo_im_ok(3)
    unfolding demo_im2_def by (metis prod.collapse)
  from im_step.im_create [OF this] have "im_step demo_im1 [7] demo_im2" by simp
  from im_more [OF 1 this] show 2: "im_run di_new [7] demo_im2" by simp
  have "im_step demo_im2 [] demo_im3" unfolding demo_im3_def by (rule im_step.im_disconnect [OF outcome_done [OF demo_im_ok(4)]])
  from im_more [OF 2 this] show 3: "im_run di_new [7] demo_im3" by simp
  have "im_step demo_im3 [] demo_im4" unfolding demo_im4_def by (rule im_step.im_auth [OF outcome_done [OF demo_im_ok(5)]])
  from im_more [OF 3 this] have 4: "im_run di_new [7] demo_im4" by simp
  have "im_step demo_im4 [] demo_im5" unfolding demo_im5_def by (rule im_step.im_auth [OF outcome_done [OF demo_im_ok(6)]])
  from im_more [OF 4 this] show "im_run di_new [7] demo_im5" by simp
qed

subsection \<open>Requests for channels\<close>

text \<open>
  C6. In every run of the dispatcher each caller of createChannel whose request was accepted has been called exactly
  once, or its operation is pending, and nobody else is called.
\<close>

theorem im_answered_once:
  assumes "im_run di_new cbs s"
  shows "mset cbs = (\<Sum>c \<in># mset (di_calls s). result_of c) + (\<Sum>op \<in># mset (ab_ops (di_ops s)). data_cb (op_data op))"
  using im_run_good [OF assms im_good_new] by (simp add: im_good_def im_owed_def)

lemma im_answered_once_witness: "(\<Sum>c \<in># mset (di_calls demo_im5). result_of c) = mset [7]"
proof -
  have "ab_ops (di_ops demo_im5) = []" by code_simp
  then show ?thesis using im_answered_once [OF demo_im_run(3)] by simp
qed

text \<open>
  C26. In every run the map of channels holds exactly the channels that were not closed, each under its peer, so there is
  at most one open channel to a host, and no channel is announced twice.
\<close>

theorem im_channels_current:
  assumes "im_run di_new cbs s"
  shows "(map_of (di_channels s) h = Some (Some c) \<longleftrightarrow> c < di_next s \<and> im_alive (di_store s c) \<and> im_peer (di_store s c) = h) \<and>
    count (\<Sum>d \<in># mset (di_calls s). announced_of d) c \<le> 1"
proof -
  have inv: "im_inv {#} s" using im_run_good [OF assms im_good_new] by (simp add: im_good_def)
  have "count (im_named s + {#}) c \<le> 1" using im_invD(5) [OF inv] unfolding im_names_ok_def by blast
  then show ?thesis using live_mapD [OF im_invD(6) [OF inv]] by (simp add: im_named_def)
qed

lemma im_channels_current_witness: "map_of (di_channels demo_im2) ''b'' = Some (Some 0)"
proof -
  have "0 < di_next demo_im2 \<and> im_alive (di_store demo_im2 0) \<and> im_peer (di_store demo_im2 0) = ''b''" by code_simp
  then show ?thesis using im_channels_current [OF demo_im_run(1), of "''b''" 0] by simp
qed

subsection \<open>Null pointers in the map\<close>

lemma over_channels_faults: "None \<in> snd ` set m \<Longrightarrow> over_channels f m s = Fault NullDeref"
  by (induction f m s rule: over_channels.induct) auto

text \<open>
  C37. If a channel cannot be authenticated after the map of channels was cleared by disconnecting, the dispatcher is left with a
  null pointer in the map, and disconnecting, connecting again and the next update of the roster dereference it.
\<close>

theorem im_null_channel:
  assumes run: "im_run di_new cbs s" and look: "map_of (ab_map (di_ops s)) i = Some op" and x: "op_data op = Im_Create x"
    and none: "map_of (di_channels s) (ic_target x) = None" and client: "di_client s" and e: "failed e"
  shows "\<exists>t. di_onAuthCreating e i s = Done t \<and> map_of (di_channels t) (ic_target x) = Some None \<and>
    di_disconnect t = Fault NullDeref \<and> di_connect t = Fault NullDeref \<and> di_onRoster E t = Fault NullDeref"
proof -
  have inv: "im_inv {#} s" using im_run_good [OF run im_good_new] by (simp add: im_good_def)
  have "op \<in> set (ab_ops (di_ops s))" using ab_wf_mapD [OF im_invD(2) [OF inv] look] by simp
  from im_invD(3) [OF inv this] have ty: "op_type op = 1" "op_state op = 1" by (simp_all add: im_op_ok_def x)
  define t where "t = di_result (ic_callback x) AuthError (di_forget (ic_target x) (ic_channel x)
    (di_update (ic_channel x) im_invalidate (s\<lparr>di_ops := ab_remove op i (di_ops s)\<rparr>)))"
  have run: "di_onAuthCreating e i s = Done t"
    using look ty e by (simp add: di_onAuthCreating_def getReadyAsyncOpOf_def getReadyAsyncOp_def x Let_def t_def)
  have ch: "di_channels t = sm_insert (ic_target x) None (di_channels s)"
    using none by (cases "ic_callback x") (simp_all add: t_def di_result_def di_forget_def di_update_def)
  have cl: "di_client t" using client none
    by (cases "ic_callback x") (simp_all add: t_def di_result_def di_forget_def di_update_def)
  have at: "map_of (di_channels t) (ic_target x) = Some None" by (simp add: ch)
  then have "None \<in> snd ` set (di_channels t)" by (force dest: map_of_SomeD)
  note fault = over_channels_faults [OF this]
  have "di_disconnect t = Fault NullDeref" by (simp add: di_disconnect_def fault)
  moreover have "di_onRoster E t = Fault NullDeref"
    using cl by (auto simp: di_onRoster_def Let_def fault split: prod.split)
  ultimately show ?thesis using run at cl by (simp add: di_connect_def)
qed

lemma im_null_channel_witness:
  "\<exists>t. di_onAuthCreating TimeOut 1 demo_im3 = Done t \<and> di_connect t = Fault NullDeref"
proof -
  define op where "op = hd (ab_ops (di_ops demo_im3))"
  obtain x where x: "op_data op = Im_Create x" "ic_target x = ''b''"
  proof -
    have "case op_data op of Im_Create x \<Rightarrow> ic_target x = ''b'' | _ \<Rightarrow> False" unfolding op_def by code_simp
    then show thesis using that by (cases "op_data op") simp_all
  qed
  have "op_id op = 1" "ab_ops (di_ops demo_im3) \<noteq> []" unfolding op_def by code_simp+
  then have "op \<in> set (ab_ops (di_ops demo_im3))" by (simp add: op_def)
  moreover have "ab_wf (di_ops demo_im3)"
    using im_run_good [OF demo_im_run(2) im_good_new] by (auto simp: im_good_def dest: im_invD(2))
  ultimately have "map_of (ab_map (di_ops demo_im3)) 1 = Some op" using ab_wf_opsD \<open>op_id op = 1\<close> by metis
  moreover have "map_of (di_channels demo_im3) (ic_target x) = None" "di_client demo_im3" unfolding x(2) by code_simp+
  ultimately show ?thesis using im_null_channel [OF demo_im_run(2) _ x(1), of 1 TimeOut] by blast
qed

subsection \<open>Who is online\<close>

text \<open>A presence that is shown: not offline, and not the own one.\<close>

definition shown :: "host_id \<Rightarrow> client_presence \<Rightarrow> bool" where
  "shown own p \<longleftrightarrow> cp_presence p \<noteq> PS_OFFLINE \<and> cp_id p \<noteq> own"

definition host_ok :: "host_id \<Rightarrow> contact_info set \<Rightarrow> host_id \<Rightarrow> host_info \<Rightarrow> bool" where
  "host_ok own C h i \<longleftrightarrow> hi_hostId i = h \<and> hi_name i = getResourceName h \<and>
     (\<exists>info \<in> C. hi_userId i = co_id info \<and> (\<exists>p \<in> set (co_presences info). shown own p \<and> cp_id p = h))"

definition shown_hosts :: "host_id \<Rightarrow> client_presence list \<Rightarrow> host_id set" where
  "shown_hosts own ps = cp_id ` {p \<in> set ps. shown own p}"

text \<open>The hosts and users found so far are those of the contacts \<open>C\<close> seen so far.\<close>

definition roster_inv :: "host_id \<Rightarrow> contact_info set \<Rightarrow> (string, user_info) smap \<times> (host_id, host_info) smap \<Rightarrow> bool" where
  "roster_inv own C uh \<longleftrightarrow>
     dom (map_of (snd uh)) = (\<Union>info \<in> C. shown_hosts own (co_presences info)) \<and>
     (\<forall>h i. map_of (snd uh) h = Some i \<longrightarrow> host_ok own C h i) \<and>
     dom (map_of (fst uh)) = co_id ` C \<and>
     (\<forall>u x. map_of (fst uh) u = Some x \<longrightarrow> us_userId x = u \<and> (\<exists>info \<in> C. co_id info = u \<and> us_name x = co_name info))"

lemma add_presence_at:
  "map_of (add_presence own u p hosts) h =
     (if shown own p \<and> cp_id p = h
      then Some ((case map_of hosts h of None \<Rightarrow> hi_new | Some i \<Rightarrow> i)
        \<lparr>hi_hostId := h, hi_userId := u, hi_name := getResourceName h\<rparr>)
      else map_of hosts h)"
  by (auto simp: add_presence_def shown_def Let_def)

lemma fold_presence_dom:
  "dom (map_of (fold (add_presence own u) ps hosts)) = dom (map_of hosts) \<union> shown_hosts own ps"
proof (induction ps arbitrary: hosts)
  case (Cons p ps)
  have "dom (map_of (add_presence own u p hosts)) = dom (map_of hosts) \<union> shown_hosts own [p]"
    by (auto simp: dom_def add_presence_at shown_hosts_def)
  then show ?case by (auto simp: Cons.IH shown_hosts_def)
qed (simp add: shown_hosts_def)

lemma fold_presence_ok:
  assumes "map_of (fold (add_presence own (co_id info)) ps hosts) h = Some i" and "set ps \<subseteq> set (co_presences info)"
    and "info \<in> C" and "\<And>h i. map_of hosts h = Some i \<Longrightarrow> host_ok own C h i"
  shows "host_ok own C h i"
  using assms
proof (induction ps arbitrary: hosts)
  case (Cons p ps)
  have "host_ok own C k j" if "map_of (add_presence own (co_id info) p hosts) k = Some j" for k j
  proof (cases "shown own p \<and> cp_id p = k")
    case True
    then show ?thesis using that Cons.prems(2,3) by (auto simp: add_presence_at host_ok_def)
  next
    case False
    then show ?thesis using that Cons.prems(4) by (auto simp: add_presence_at split: if_splits)
  qed
  with Cons.IH [OF _ _ Cons.prems(3)] Cons.prems(1,2) show ?case by simp
qed simp

lemma add_contact_inv:
  assumes inv: "roster_inv own C uh"
  shows "roster_inv own (if co_hide info then C else insert info C) (add_contact own info uh)"
proof (cases "co_hide info")
  case True
  then show ?thesis using inv by (simp add: add_contact_def split: prod.split)
next
  case False
  obtain users hosts where uh: "uh = (users, hosts)" by fastforce
  let ?C = "insert info C" and ?hosts = "fold (add_presence own (co_id info)) (co_presences info) hosts"
  have mono: "host_ok own ?C h i" if "map_of hosts h = Some i" for h i
    using inv that unfolding roster_inv_def uh host_ok_def by auto
  have "host_ok own ?C h i" if "map_of ?hosts h = Some i" for h i
    by (rule fold_presence_ok [OF that subset_refl insertI1 mono])
  moreover have "dom (map_of ?hosts) = (\<Union>info \<in> ?C. shown_hosts own (co_presences info))"
    using inv by (auto simp: fold_presence_dom roster_inv_def uh)
  ultimately show ?thesis
    using inv False by (auto simp: roster_inv_def uh add_contact_def split: if_splits)
qed

lemma fold_contacts:
  "roster_inv own C uh \<Longrightarrow>
     roster_inv own (C \<union> {info \<in> snd ` set m. \<not> co_hide info}) (fold (\<lambda>p. add_contact own (snd p)) m uh)"
proof (induction m arbitrary: C uh)
  case (Cons p m)
  have "(if co_hide (snd p) then C else insert (snd p) C) \<union> {info \<in> snd ` set m. \<not> co_hide info} =
      C \<union> {info \<in> snd ` set (p # m). \<not> co_hide info}" by auto
  with Cons.IH [OF add_contact_inv [OF Cons.prems, of "snd p"]] show ?case by simp
qed simp

text \<open>
  C30. After an update of the roster the known hosts are exactly the presences of visible contacts that are not offline and
  not the own one, each with the user it belongs to, the users are exactly the visible contacts, and every channel
  is online if and only if its peer is.
\<close>

theorem im_roster_shown:
  assumes run: "im_run di_new cbs s" and client: "di_client s" and roster: "di_onRoster E s = Done s'"
    and visible: "visible = {info \<in> snd ` set (de_roster E). \<not> co_hide info}"
  shows "roster_inv (di_hostId s) visible (di_users s', di_hosts s') \<and>
    (\<forall>h c. map_of (di_channels s') h = Some (Some c) \<longrightarrow>
       im_state (di_store s' c) = (if map_of (di_hosts s') h = None then OS_OFFLINE else OS_ONLINE))"
proof -
  have good: "im_good {#} (mset cbs) s" using im_run_good [OF run im_good_new] by simp
  obtain users hosts where uh: "fold (\<lambda>p. add_contact (di_hostId s) (snd p)) (de_roster E) ([], []) = (users, hosts)" by fastforce
  define s1 where "s1 = s\<lparr>di_roster := de_roster E, di_users := users, di_hosts := hosts\<rparr>"
  obtain s2 where s2: "over_channels (\<lambda>h. im_setState (di_onlineState h s1)) (di_channels s1) s1 = Done s2"
    "s' = di_call Peers_Changed s2"
    using roster client uh by (auto simp: di_onRoster_def s1_def Let_def)
  have "im_good {#} (mset cbs) s1" by (rule im_good_frame [OF good]) (simp_all add: s1_def)
  then have inv: "im_inv {#} s1" by (simp add: im_good_def)
  obtain st where st: "s2 = s1\<lparr>di_store := st\<rparr>"
    "\<And>h c. map_of (di_channels s1) h = Some (Some c) \<Longrightarrow> st c = im_setState (di_onlineState h s1) (di_store s1 c)"
    using over_live [OF inv s2(1)] by metis
  have "im_state (im_setState o' ch) = o'" for o' ch by (simp add: im_setState_def im_signal_def)
  then have "im_state (st c) = (if map_of hosts h = None then OS_OFFLINE else OS_ONLINE)"
    if "map_of (di_channels s1) h = Some (Some c)" for h c
    using st(2) [OF that] by (simp add: di_onlineState_def s1_def split: option.split)
  moreover have "roster_inv (di_hostId s) visible (users, hosts)"
    using fold_contacts [of "di_hostId s" "{}" "([], [])" "de_roster E"] uh by (simp add: roster_inv_def visible)
  moreover have "di_users s' = users" "di_hosts s' = hosts" "di_channels s' = di_channels s1" "di_store s' = st"
    by (simp_all add: s2(2) st(1) s1_def di_call_def)
  ultimately show ?thesis by simp
qed

definition demo_roster :: "(string, contact_info) smap" where
  "demo_roster = [(''b'', \<lparr>co_id = ''b'', co_name = ''B'', co_state = SS_BOTH, co_waitForSubscription = False, co_error = False,
     co_errorText = [], co_hide = False, co_presences = [\<lparr>cp_id = ''b/x'', cp_presence = PS_CHAT\<rparr>]\<rparr>)]"

lemma im_roster_shown_witness:
  "\<exists>s'. di_onRoster (demo_im\<lparr>de_roster := demo_roster\<rparr>) demo_im2 = Done s' \<and> map_of (di_hosts s') ''b/x'' \<noteq> None"
proof -
  let ?E = "demo_im\<lparr>de_roster := demo_roster\<rparr>"
  define s' where "s' = outcome_the di_new (di_onRoster ?E demo_im2)"
  have "outcome_ok (di_onRoster ?E demo_im2)" by code_simp
  then have s': "di_onRoster ?E demo_im2 = Done s'" unfolding s'_def by (rule outcome_done)
  have client: "di_client demo_im2" and own: "di_hostId demo_im2 = ''me''" by code_simp+
  let ?visible = "{info \<in> snd ` set (de_roster ?E). \<not> co_hide info}"
  have "''b/x'' \<in> (\<Union>info \<in> ?visible. shown_hosts ''me'' (co_presences info))"
    by (auto simp: demo_roster_def shown_hosts_def shown_def image_iff)
  then have "''b/x'' \<in> dom (map_of (di_hosts s'))"
    using im_roster_shown [OF demo_im_run(1) client s' HOL.refl] unfolding own roster_inv_def by simp
  then show ?thesis using s' by (auto simp: dom_def)
qed

text \<open>A host id is its user and its resource.\<close>

lemma splitHostId_join: "CHR ''/'' \<notin> set r \<Longrightarrow> splitHostId (u @ ''/'' @ r) = (u, r)"
  using str_rfind_append [of "CHR ''/''" r u] by (simp add: splitHostId_def)

subsection \<open>Where messages go\<close>

text \<open>
  A message that asks for a channel gives its sender a new channel, which is the only open one to it from then on; any other
  message changes nothing but the channel of its sender, and if there is none it is answered.
\<close>

lemma im_message_routed:
  assumes run: "im_run di_new cbs s" and message: "di_onMessage E m s = Done s'"
  shows "(isCreateChannel E m \<longrightarrow> map_of (di_channels s') (m_from m) = Some (Some (di_next s)) \<and>
      (\<forall>c. c < di_next s \<and> im_peer (di_store s' c) = m_from m \<longrightarrow> \<not> im_alive (di_store s' c)) \<and>
      (\<forall>h. h \<noteq> m_from m \<longrightarrow> map_of (di_channels s') h = map_of (di_channels s) h)) \<and>
    (\<not> isCreateChannel E m \<longrightarrow> di_channels s' = di_channels s \<and>
      (\<forall>c. map_of (di_channels s) (m_from m) \<noteq> Some (Some c) \<longrightarrow> di_store s' c = di_store s c) \<and>
      (map_of (di_channels s) (m_from m) = None \<longrightarrow> di_client_calls s' = di_client_calls s @
        [Client_Send (im_new_message\<lparr>m_to := m_from m, m_body := cannot_chat, m_id := m_id m, m_type := m_type m\<rparr>)]))"
proof (cases "isCreateChannel E m")
  case False
  then show ?thesis
    using message by (auto simp: di_onMessage_def di_push_def di_update_def di_tell_def split: option.splits if_splits)
next
  case True
  let ?h = "m_from m"
  have "im_good {#} (mset cbs) s" using im_run_good [OF run im_good_new] by simp
  from di_onMessage_good [OF this message] have live: "live_map s'" by (auto simp: im_good_def dest: im_invD(6))
  obtain s1 where s1: "(case map_of (di_channels s) ?h of None \<Rightarrow> Done s | Some None \<Rightarrow> Fault NullDeref
      | Some (Some c) \<Rightarrow> Done (di_update c im_invalidate s)) = Done s1"
    and push: "di_push m (fst (di_respond E ?h s1)) (snd (di_respond E ?h s1)) = Done s'"
    using message True by (auto simp: di_onMessage_def Let_def case_prod_beta split: if_splits)
  have same: "di_next s1 = di_next s" "di_channels s1 = di_channels s"
    using s1 by (auto simp: di_update_def split: option.splits)
  have "di_channels s' = sm_insert ?h (Some (di_next s)) (di_channels s)"
    using push same by (auto simp: di_push_def di_update_def di_respond_def Let_def di_newChannel_def di_add_def genFreeId_def)
  then have ch: "map_of (di_channels s') = (map_of (di_channels s))(?h \<mapsto> Some (di_next s))" by simp
  have "\<not> im_alive (di_store s' c)" if "c < di_next s" "im_peer (di_store s' c) = ?h" for c
  proof
    assume "im_alive (di_store s' c)"
    moreover have "di_next s < di_next s'" using live_mapD [OF live, of ?h "di_next s"] ch by simp
    ultimately have "map_of (di_channels s') ?h = Some (Some c)" using live_mapD [OF live, of ?h c] that by simp
    then show False using ch that(1) by simp
  qed
  then show ?thesis using True ch by simp
qed

lemma im_message_routed_witness:
  "\<exists>s'. di_onMessage demo_im (im_new_message\<lparr>m_from := ''c''\<rparr>) demo_im2 = Done s' \<and> di_channels s' = di_channels demo_im2"
proof -
  let ?m = "im_new_message\<lparr>m_from := ''c''\<rparr>"
  have "outcome_ok (di_onMessage demo_im ?m demo_im2)" by code_simp
  then have run: "di_onMessage demo_im ?m demo_im2 = Done (outcome_the di_new (di_onMessage demo_im ?m demo_im2))"
    by (rule outcome_done)
  have "\<not> isCreateChannel demo_im ?m" by code_simp
  then show ?thesis using im_message_routed [OF demo_im_run(1) run] run by blast
qed

end
