(* ===== verification/Sf_ArgSplit.thy ===== *)
theory Sf_ArgSplit
  imports Sf_Prelude
begin

text \<open>
  The splitter for command lines, \<open>libschnee/schnee/tools/ArgSplit.cpp\<close>: the loop of \<open>argSplit\<close>
  with its two flags and the word under construction.  What a quoted word must look like to
  come back as it was is \<open>quote_arg\<close>.
\<close>

record arg_state =
  as_quoted :: bool
  as_escaped :: bool
  as_build :: string
  as_args :: "string list"

definition arg_start :: arg_state where
  "arg_start = \<lparr>as_quoted = False, as_escaped = False, as_build = [], as_args = []\<rparr>"

definition arg_push :: "arg_state \<Rightarrow> arg_state" where
  "arg_push s = (if as_build s \<noteq> [] then s\<lparr>as_args := as_args s @ [as_build s]\<rparr> else s)"

definition arg_char :: "char \<Rightarrow> arg_state \<Rightarrow> arg_state" where
  "arg_char c s =
     (if c = CHR '' '' \<and> \<not> as_quoted s then (arg_push s)\<lparr>as_build := []\<rparr>
      else if c = CHR 0x22 \<and> \<not> as_escaped s then s\<lparr>as_quoted := \<not> as_quoted s\<rparr>
      else if c = CHR 0x22 \<and> as_escaped s then s\<lparr>as_build := as_build s @ [CHR 0x22], as_escaped := False\<rparr>
      else if c = CHR 0x5C \<and> \<not> as_escaped s then s\<lparr>as_escaped := True\<rparr>
      else if c = CHR 0x5C \<and> as_escaped s then s\<lparr>as_build := as_build s @ [CHR 0x5C], as_escaped := False\<rparr>
      else s\<lparr>as_build := as_build s @ [c], as_escaped := False\<rparr>)"

definition argSplit :: "string \<Rightarrow> string list" where
  "argSplit input = as_args (arg_push (fold arg_char input arg_start))"

subsection \<open>Quoting\<close>

definition escape_char :: "char \<Rightarrow> string" where
  "escape_char c = (if c = CHR 0x22 \<or> c = CHR 0x5C then [CHR 0x5C, c] else [c])"

definition quote_arg :: "string \<Rightarrow> string" where
  "quote_arg w = CHR 0x22 # concat (map escape_char w) @ [CHR 0x22]"

definition quote_args :: "string list \<Rightarrow> string" where
  "quote_args ws = concat (map (\<lambda>w. quote_arg w @ '' '') ws)"

text \<open>Between two words the flags are down and nothing is under construction.\<close>

definition arg_between :: "string list \<Rightarrow> arg_state" where
  "arg_between ws = arg_start\<lparr>as_args := ws\<rparr>"

lemma fold_escape_char:
  "as_quoted s \<Longrightarrow> \<not> as_escaped s \<Longrightarrow> fold arg_char (escape_char c) s = s\<lparr>as_build := as_build s @ [c]\<rparr>"
  by (simp add: escape_char_def arg_char_def)

lemma fold_escape_word:
  "as_quoted s \<Longrightarrow> \<not> as_escaped s \<Longrightarrow>
   fold arg_char (concat (map escape_char w)) s = s\<lparr>as_build := as_build s @ w\<rparr>"
  by (induction w arbitrary: s) (simp_all add: fold_escape_char)

lemma fold_quote_arg:
  "w \<noteq> [] \<Longrightarrow> fold arg_char (quote_arg w @ '' '') (arg_between ws) = arg_between (ws @ [w])"
  by (simp add: quote_arg_def arg_char_def [of "CHR 0x22"] arg_between_def arg_start_def fold_escape_word)
    (simp add: arg_char_def arg_push_def)

lemma fold_quote_args:
  "[] \<notin> set us \<Longrightarrow> fold arg_char (quote_args us) (arg_between ws) = arg_between (ws @ us)"
proof (induction us arbitrary: ws)
  case Nil
  then show ?case by (simp add: quote_args_def)
next
  case (Cons u us)
  have "quote_args (u # us) = (quote_arg u @ '' '') @ quote_args us" by (simp add: quote_args_def)
  then show ?case using Cons.IH [of "ws @ [u]"] Cons.prems fold_quote_arg [of u ws] by auto
qed

text \<open>
  C40. A command line made of quoted words none of which is empty, each with its quotation marks and
  backslashes escaped, is split into exactly these words, whatever other characters (blanks
  included) they hold.  An empty word is lost: \<open>argsplit_nonempty\<close>.
\<close>

theorem argsplit_roundtrip:
  assumes "[] \<notin> set ws"
  shows "argSplit (quote_args ws) = ws"
  using fold_quote_args [OF assms, of "[]"]
  by (simp add: argSplit_def arg_between_def arg_start_def arg_push_def)

lemma argsplit_roundtrip_witness:
  "argSplit (quote_args [''copy'', ''my file'', [CHR 0x22, CHR 0x5C]]) = [''copy'', ''my file'', [CHR 0x22, CHR 0x5C]]"
  by (rule argsplit_roundtrip) simp

text \<open>Whatever is typed, no argument is empty: an empty quoted word is lost.\<close>

lemma arg_char_nonempty: "[] \<notin> set (as_args s) \<Longrightarrow> [] \<notin> set (as_args (arg_char c s))"
  by (auto simp: arg_char_def arg_push_def)

lemma argsplit_nonempty: "[] \<notin> set (argSplit input)"
proof -
  have "[] \<notin> set (as_args (fold arg_char input s))" if "[] \<notin> set (as_args s)" for s
    using that by (induction input arbitrary: s) (simp_all add: arg_char_nonempty)
  from this [of arg_start] show ?thesis by (auto simp: argSplit_def arg_push_def arg_start_def)
qed

lemma empty_argument_lost: "argSplit [CHR ''a'', CHR '' '', CHR 0x22, CHR 0x22] = [''a'']"
  by (simp add: argSplit_def arg_char_def arg_push_def arg_start_def)

text \<open>
  A blank after a backslash splits all the same, and the backslash is still in force for the
  character behind the blank: here it makes the opening quotation mark a literal one.
\<close>

lemma escaped_blank_splits:
  "argSplit [CHR ''a'', CHR 0x5C, CHR '' '', CHR 0x22, CHR ''b'', CHR '' '', CHR ''c''] = [''a'', [CHR 0x22, CHR ''b''], ''c'']"
  by (simp add: argSplit_def arg_char_def arg_push_def arg_start_def)

end
