(* ===== verification/Sf_Listing.thy ===== *)
theory Sf_Listing
  imports Sf_Prelude
begin

text \<open>
  Directory listings: \<open>libflocke/flocke/filesharing/file_io/DirectoryListing\<close>,
  \<open>RecursiveDirectoryListing\<close> and the wrappers of \<open>libschnee/schnee/tools/FileTools\<close> they use.

  The file system is not part of the program: the record \<open>file_system\<close> holds what the calls of
  \<open>boost::filesystem\<close> answer; a file that cannot be opened has no content.  The iterator over a recursive listing is its stack; a pair of
  C++ iterators \<open>(pos, end)\<close> is the list of the entries from \<open>pos\<close> to \<open>end\<close>, and the back of
  the stack is the head of the list.  Sums of sizes are mathematical integers.
\<close>

subsection \<open>Entries\<close>

datatype entry_type = EFile | EDirectory

record dir_entry =
  de_name :: string
  de_type :: entry_type
  de_size :: int

datatype rec_entry =
  RecEntry (re_name: string) (re_type: entry_type) (re_size: int) (re_entries: "rec_entry list")

definition rec_entry_of :: "dir_entry \<Rightarrow> rec_entry" where
  "rec_entry_of e = RecEntry (de_name e) (de_type e) (de_size e) []"

fun sizeSum :: "rec_entry list \<Rightarrow> int" where
  "sizeSum [] = 0"
| "sizeSum (RecEntry n t s es # l) = (if t = EFile then s else sizeSum es) + sizeSum l"

subsection \<open>The file system\<close>

datatype dir_item = IsFile int | IsDir | IsOther | ItemLoop | ItemError

record file_system =
  fs_exists :: "string \<Rightarrow> bool"
  fs_isDirectory :: "string \<Rightarrow> bool"
  fs_isSymlink :: "string \<Rightarrow> bool"
  fs_isRegular :: "string \<Rightarrow> bool"
  fs_fileSize :: "string \<Rightarrow> int"
  fs_content :: "string \<Rightarrow> bytes option"
  fs_iterate :: "string \<Rightarrow> (string \<times> dir_item) list option"

abbreviation (input) gDirectoryDelimiter :: string where
  "gDirectoryDelimiter \<equiv> ''/''"

text \<open>One turn of the loop of \<open>listDirectory\<close>: the entry, and whether an error is counted.\<close>

definition list_item :: "string \<times> dir_item \<Rightarrow> dir_entry option \<times> bool" where
  "list_item i =
     (case snd i of
        IsFile n \<Rightarrow> (Some \<lparr>de_name = fst i, de_type = EFile, de_size = n\<rparr>, False)
      | IsDir \<Rightarrow> (Some \<lparr>de_name = fst i, de_type = EDirectory, de_size = 0\<rparr>, False)
      | IsOther \<Rightarrow> (None, False)
      | ItemLoop \<Rightarrow> (None, False)
      | ItemError \<Rightarrow> (None, True))"

definition listDirectory :: "file_system \<Rightarrow> string \<Rightarrow> error \<times> dir_entry list" where
  "listDirectory F directory =
     (if \<not> fs_isDirectory F directory then (InvalidArgument, [])
      else
        (case fs_iterate F directory of
           None \<Rightarrow> (NotFound, [])
         | Some items \<Rightarrow>
             (if \<exists>i \<in> set items. snd (list_item i) then MultipleErrors else NoError,
              List.map_filter (fst \<circ> list_item) items)))"

subsection \<open>The iterator\<close>

type_synonym list_iter = "rec_entry list list"

definition it_begin :: "rec_entry list \<Rightarrow> list_iter" where
  "it_begin es = (if es = [] then [] else [es])"

abbreviation (input) it_end :: list_iter where
  "it_end \<equiv> []"

text \<open>The loop of \<open>operator++\<close>, which leaves directories that are finished.\<close>

fun it_settle :: "list_iter \<Rightarrow> list_iter outcome" where
  "it_settle [] = Done []"
| "it_settle ([] # st) =
     (case st of
        [] \<Rightarrow> Done []
      | cur # st' \<Rightarrow> if cur = [] then Fault OutOfBounds else it_settle (tl cur # st'))"
| "it_settle ((e # es) # st) = Done ((e # es) # st)"

definition it_next :: "list_iter \<Rightarrow> list_iter outcome" where
  "it_next st =
     (case st of
        [] \<Rightarrow> Done []
      | cur # st' \<Rightarrow>
          (case cur of
             [] \<Rightarrow> Fault AssertFailed
           | e # es \<Rightarrow>
               if re_type e = EDirectory then it_settle (re_entries e # (e # es) # st') else it_settle (es # st')))"

text \<open>\<open>operator*\<close> and \<open>path\<close>.\<close>

definition it_deref :: "list_iter \<Rightarrow> rec_entry outcome" where
  "it_deref st = (case st of (e # es) # _ \<Rightarrow> Done e | _ \<Rightarrow> Fault OutOfBounds)"

fun join_path :: "string list \<Rightarrow> string" where
  "join_path [] = []"
| "join_path [n] = n"
| "join_path (n # ns) = n @ ''/'' @ join_path ns"

definition it_path :: "list_iter \<Rightarrow> string outcome" where
  "it_path st =
     (if [] \<in> set st then Fault OutOfBounds else Done (join_path (map (re_name \<circ> hd) (rev st))))"

subsection \<open>What a walk visits\<close>

text \<open>The reference: every entry with its path, a directory before its entries.\<close>

fun walk :: "string list \<Rightarrow> rec_entry list \<Rightarrow> (string \<times> rec_entry) list" where
  "walk up [] = []"
| "walk up (RecEntry n t s es # l) =
     (join_path (up @ [n]), RecEntry n t s es) #
     (if t = EDirectory then walk (up @ [n]) es else []) @ walk up l"

text \<open>What an iterator has still to visit: its top, then what follows the directories it is in.\<close>

fun it_above :: "list_iter \<Rightarrow> (string \<times> rec_entry) list" where
  "it_above [] = []"
| "it_above (es # st) = walk (map (re_name \<circ> hd) (rev st)) (tl es) @ it_above st"

definition it_rest :: "list_iter \<Rightarrow> (string \<times> rec_entry) list" where
  "it_rest st =
     (case st of [] \<Rightarrow> [] | es # st' \<Rightarrow> walk (map (re_name \<circ> hd) (rev st')) es @ it_above st')"

abbreviation it_ok :: "list_iter \<Rightarrow> bool" where
  "it_ok st \<equiv> [] \<notin> set st"

lemma it_settle_rest:
  assumes "st \<noteq> []" and "it_ok (tl st)"
  obtains st' where "it_settle st = Done st'" "it_ok st'" "it_rest st' = it_rest st"
  using assms
proof (induction st arbitrary: thesis rule: it_settle.induct)
  case (2 st)
  show ?case
  proof (cases st)
    case Nil
    then show ?thesis using 2 by (simp add: it_rest_def)
  next
    case (Cons cur st')
    then have cur: "cur \<noteq> []" using 2(4) by auto
    obtain st1 where st1: "it_settle (tl cur # st') = Done st1" "it_ok st1" "it_rest st1 = it_rest (tl cur # st')"
      using 2(1) [OF Cons cur] 2(4) Cons by auto
    then show ?thesis using 2(2) Cons cur by (simp add: it_rest_def)
  qed
qed simp_all

lemma walk_hd: "es \<noteq> [] \<Longrightarrow> walk up es =
  (join_path (up @ [re_name (hd es)]), hd es) #
  (if re_type (hd es) = EDirectory then walk (up @ [re_name (hd es)]) (re_entries (hd es)) else []) @ walk up (tl es)"
  by (cases "(up, es)" rule: walk.cases) auto

lemma it_next_rest:
  assumes "st \<noteq> []" and "it_ok st"
  obtains e p st' where "it_deref st = Done e" "it_path st = Done p" "it_next st = Done st'" "it_ok st'"
    "it_rest st = (p, e) # it_rest st'"
proof -
  obtain e es st0 where st: "st = (e # es) # st0" using assms by (cases st; cases "hd st") auto
  let ?st = "if re_type e = EDirectory then re_entries e # (e # es) # st0 else es # st0"
  have "?st \<noteq> []" "it_ok (tl ?st)" using assms(2) st by auto
  then obtain st' where st': "it_settle ?st = Done st'" "it_ok st'" "it_rest st' = it_rest ?st"
    by (rule it_settle_rest)
  have "it_rest st = (join_path (map (re_name \<circ> hd) (rev st)), e) # it_rest ?st"
    by (simp add: st it_rest_def walk_hd [of "e # es"])
  then show thesis using st' assms(2) by (intro that [of e _ st']) (auto simp: st it_deref_def it_path_def it_next_def)
qed

lemma it_begin_rest: "it_rest (it_begin es) = walk [] es"
  by (simp add: it_begin_def it_rest_def)

lemma it_begin_ok: "it_ok (it_begin es)"
  by (simp add: it_begin_def)

lemma it_rest_Nil: "it_ok st \<Longrightarrow> it_rest st = [] \<longleftrightarrow> st = []"
  by (cases "st = []") (auto simp: it_rest_def elim: it_next_rest)

text \<open>The loop over a listing: \<open>for (i = begin (); i != end (); ++i)\<close>.\<close>

partial_function (option) it_all :: "list_iter \<Rightarrow> (string \<times> rec_entry) list outcome option" where
  "it_all st =
     (if st = [] then Some (Done [])
      else
        (case (it_path st, it_deref st, it_next st) of
           (Done p, Done e, Done st') \<Rightarrow>
             Option.bind (it_all st') (\<lambda>r. Some (outcome_bind r (\<lambda>l. Done ((p, e) # l))))
         | _ \<Rightarrow> Some (Fault OutOfBounds)))"

text \<open>
  C38. The loop with the iterator over a recursive listing ends and visits every entry once, with
  its path: the entries in order, a directory before what it contains; it never goes out of
  bounds, empty directories and directories at the end of their parents included.
\<close>

theorem listing_walk: "it_all (it_begin es) = Some (Done (walk [] es))"
proof -
  have "it_all st = Some (Done (it_rest st))" if "it_ok st" for st
    using that
  proof (induction "length (it_rest st)" arbitrary: st)
    case 0
    then have "st = []" by (simp add: it_rest_Nil)
    then show ?case by (simp add: it_all.simps it_rest_def)
  next
    case (Suc n)
    then have "st \<noteq> []" by (auto simp: it_rest_def)
    then obtain e p st' where "it_deref st = Done e" "it_path st = Done p" "it_next st = Done st'" "it_ok st'"
      "it_rest st = (p, e) # it_rest st'" using Suc.prems by (rule it_next_rest)
    then show ?case using Suc.hyps \<open>st \<noteq> []\<close> by (subst it_all.simps) simp
  qed
  from this [OF it_begin_ok] show ?thesis by (simp add: it_begin_rest)
qed

text \<open>The sum of the sizes is that of the files a walk visits.\<close>

definition is_file :: "string \<times> rec_entry \<Rightarrow> bool" where
  "is_file x = (re_type (snd x) = EFile)"

definition files_size :: "(string \<times> rec_entry) list \<Rightarrow> int" where
  "files_size l = sum_list (map (re_size \<circ> snd) (filter is_file l))"

lemma files_size_simps [simp]:
  "files_size [] = 0"
  "files_size (x # l) = (if is_file x then re_size (snd x) else 0) + files_size l"
  "files_size (k @ l) = files_size k + files_size l"
  by (simp_all add: files_size_def)

lemma sizeSum_walk: "sizeSum es = files_size (walk up es)"
proof (induction up es rule: walk.induct)
  case (2 up n t s es l)
  then show ?case by (cases t) (simp_all add: is_file_def)
qed simp

end
