(* ===== verification/Sf_Globber.thy ===== *)
theory Sf_Globber
  imports Sf_Listing Sf_AsyncSpec "HOL-Library.Sublist"
begin

text \<open>
  \<open>libflocke/flocke/filesharing/file_io/Globber\<close>: recursive listings, built in slices by a
  work thread.

  A \<open>WorkPoint\<close> holds an iterator to the entry to expand; no vector of entries changes once it
  is filled, so the iterator stays valid and is modelled by its position, a path of indices
  from the root of the listing.  The readings of the clock within one slice are a function of
  their number.  A posted call of \<open>continueGlobbing\<close> is its id in \<open>gl_work\<close>.
\<close>

subsection \<open>Positions in a listing\<close>

definition set_entries :: "rec_entry list \<Rightarrow> rec_entry \<Rightarrow> rec_entry" where
  "set_entries es e = RecEntry (re_name e) (re_type e) (re_size e) es"

fun get_entries :: "nat list \<Rightarrow> rec_entry list \<Rightarrow> rec_entry list option" where
  "get_entries [] es = Some es"
| "get_entries (i # p) es = (if i < length es then get_entries p (re_entries (es ! i)) else None)"

fun upd_entries :: "nat list \<Rightarrow> (rec_entry list \<Rightarrow> rec_entry list) \<Rightarrow> rec_entry list \<Rightarrow> rec_entry list" where
  "upd_entries [] f es = f es"
| "upd_entries (i # p) f es =
     (if i < length es then es[i := set_entries (upd_entries p f (re_entries (es ! i))) (es ! i)] else es)"

subsection \<open>The globber\<close>

type_synonym work_point = "nat list \<times> string"

record glob_op =
  go_begin :: bool
  go_listing :: "rec_entry list"
  go_queue :: "work_point list"
  go_callback :: nat
  go_directory :: string

abbreviation (input) GLOB :: int where "GLOB \<equiv> 1"

record globber =
  gl_ops :: "glob_op async_base"
  gl_alloc :: nat
  gl_work :: "int list"
  gl_calls :: "(nat \<times> error \<times> rec_entry list option) list"
  gl_timeOutMs :: int

definition gl_new :: globber where
  "gl_new = \<lparr>gl_ops = ab_init, gl_alloc = 0, gl_work = [], gl_calls = [], gl_timeOutMs = 30000\<rparr>"

definition gl_call :: "nat \<Rightarrow> error \<Rightarrow> rec_entry list option \<Rightarrow> globber \<Rightarrow> globber" where
  "gl_call cb e l s = s\<lparr>gl_calls := gl_calls s @ [(cb, e, l)]\<rparr>"

definition gl_put :: "glob_op async_base \<Rightarrow> globber \<Rightarrow> globber" where
  "gl_put b s = s\<lparr>gl_ops := b\<rparr>"

definition glob :: "file_system \<Rightarrow> int \<Rightarrow> string \<Rightarrow> nat \<Rightarrow> int \<Rightarrow> globber \<Rightarrow> error \<times> globber" where
  "glob F now directory callback timeOutMs s =
     (if \<not> fs_isDirectory F directory then (InvalidArgument, s)
      else
        (case genFreeId (gl_ops s) of (i, b) \<Rightarrow>
           let t = (if timeOutMs < 0 then gl_timeOutMs s else timeOutMs);
               g = \<lparr>go_begin = True, go_listing = [], go_queue = [], go_callback = callback, go_directory = directory\<rparr>;
               op = (new_op GLOB (regTimeOutMs now t) (gl_alloc s) g)\<lparr>op_id := i\<rparr>
           in (NoError, s\<lparr>gl_ops := snd (addAsyncOp op b), gl_alloc := gl_alloc s + 1, gl_work := gl_work s @ [i]\<rparr>)))"

definition sub_path :: "string \<Rightarrow> string \<Rightarrow> string" where
  "sub_path directory name = directory @ gDirectoryDelimiter @ name"

definition glob_points :: "file_system \<Rightarrow> string \<Rightarrow> nat list \<Rightarrow> rec_entry list \<Rightarrow> work_point list" where
  "glob_points F directory p target =
     concat (map (\<lambda>(i, e).
       if re_type e = EDirectory \<and> \<not> fs_isSymlink F (sub_path directory (re_name e))
       then [(p @ [i], sub_path directory (re_name e))] else []) (enumerate 0 target))"

definition glob_expand :: "file_system \<Rightarrow> string \<Rightarrow> nat list \<Rightarrow> glob_op \<Rightarrow> error + glob_op" where
  "glob_expand F directory p op =
     (case listDirectory F directory of (e, es) \<Rightarrow>
        if failed e then Inl e
        else
          let l = upd_entries p (\<lambda>target. target @ map rec_entry_of es) (go_listing op);
              target = (case get_entries p l of None \<Rightarrow> [] | Some x \<Rightarrow> x)
          in Inr (op\<lparr>go_listing := l, go_queue := go_queue op @ glob_points F directory p target\<rparr>))"

datatype glob_end = Paused glob_op | Answered error glob_op

partial_function (option) glob_loop ::
  "file_system \<Rightarrow> (nat \<Rightarrow> int) \<Rightarrow> time \<Rightarrow> time \<Rightarrow> nat \<Rightarrow> glob_op \<Rightarrow> glob_end option" where
  "glob_loop F clock stop timeOut n op =
     (case go_queue op of
        [] \<Rightarrow> Some (Answered NoError op)
      | (p, d) # q \<Rightarrow>
          if stop < At (clock n) then Some (Paused op)
          else if timeOut < At (clock (n + 1)) then Some (Answered TimeOut op)
          else
            (case glob_expand F d p (op\<lparr>go_queue := q\<rparr>) of
               Inl e \<Rightarrow> Some (Answered e (op\<lparr>go_queue := q\<rparr>))
             | Inr op' \<Rightarrow> glob_loop F clock stop timeOut (n + 2) op'))"

definition glob_slice :: "file_system \<Rightarrow> (nat \<Rightarrow> int) \<Rightarrow> time \<Rightarrow> glob_op \<Rightarrow> glob_end option" where
  "glob_slice F clock timeOut g =
     (let stop = futureInMs (clock 0) 50
      in case (if go_begin g then glob_expand F (go_directory g) [] g else Inr g) of
           Inl e \<Rightarrow> Some (Answered e g)
         | Inr g1 \<Rightarrow> glob_loop F clock stop timeOut 1 (g1\<lparr>go_begin := False\<rparr>))"

definition continueGlobbing :: "file_system \<Rightarrow> (nat \<Rightarrow> int) \<Rightarrow> int \<Rightarrow> globber \<Rightarrow> globber option" where
  "continueGlobbing F clock i s =
     (case getReadyAsyncOpOf i GLOB (gl_ops s) of
        (None, b) \<Rightarrow> Some (gl_put b s)
      | (Some op, b) \<Rightarrow>
          (case glob_slice F clock (op_timeOut op) (op_data op) of
             None \<Rightarrow> None
           | Some (Answered e g) \<Rightarrow> Some (gl_call (go_callback g) e (Some (go_listing g)) (gl_put b s))
           | Some (Paused g) \<Rightarrow>
               Some (s\<lparr>gl_ops := snd (addAsyncOp (op\<lparr>op_data := g\<rparr>) b), gl_work := gl_work s @ [i]\<rparr>)))"

text \<open>\<open>GlobOp::onCancel\<close> of an operation that timed out between two slices.\<close>

definition gl_onCancel :: "error \<Rightarrow> glob_op aop \<Rightarrow> globber \<Rightarrow> globber" where
  "gl_onCancel reason op s = gl_call (go_callback (op_data op)) reason None s"

interpretation globber: table_owner gl_ops gl_put gl_onCancel
  by unfold_locales (simp_all add: gl_put_def gl_onCancel_def gl_call_def)

definition gl_onTimer :: "time \<Rightarrow> globber \<Rightarrow> globber option" where
  "gl_onTimer ct s = onTimer gl_ops gl_put gl_onCancel ct s"

subsection \<open>Lemmas on positions\<close>

lemma set_entries_simps [simp]:
  "re_entries (set_entries es e) = es" "set_entries xs (set_entries es e) = set_entries xs e"
  "set_entries (re_entries e) e = e"
  by (simp_all add: set_entries_def)

lemma length_upd_entries: "p \<noteq> [] \<Longrightarrow> length (upd_entries p f es) = length es"
  by (cases p) auto

lemma upd_append: "upd_entries (p @ q) f es = upd_entries p (upd_entries q f) es"
  by (induction p arbitrary: es) auto

lemma upd_upd: "upd_entries p f (upd_entries p g es) = upd_entries p (f \<circ> g) es"
  by (induction p arbitrary: es) auto

lemma get_append: "get_entries (p @ q) es = Option.bind (get_entries p es) (get_entries q)"
  by (induction p arbitrary: es) auto

lemma get_upd_same: "get_entries p es = Some x \<Longrightarrow> get_entries p (upd_entries p f es) = Some (f x)"
  by (induction p arbitrary: es) (auto split: if_splits)

lemma parallel_Cons: "parallel (i # p) (j # q) \<longleftrightarrow> i \<noteq> j \<or> parallel p q"
  by (auto simp: parallel_def)

lemma get_upd_other: "parallel p q \<Longrightarrow> get_entries q (upd_entries p f es) = get_entries q es"
proof (induction p arbitrary: q es)
  case (Cons i p)
  then obtain j q' where q: "q = j # q'" by (cases q) auto
  show ?case
  proof (cases "i = j")
    case True
    then show ?thesis using Cons q by (simp add: parallel_Cons)
  next
    case False
    then show ?thesis by (simp add: q)
  qed
qed simp

lemma upd_comm:
  "parallel p q \<Longrightarrow> upd_entries p f (upd_entries q g es) = upd_entries q g (upd_entries p f es)"
proof (induction p arbitrary: q es)
  case (Cons i p)
  then obtain j q' where q: "q = j # q'" by (cases q) auto
  show ?case
  proof (cases "i = j")
    case True
    then have "parallel p q'" using Cons.prems q by (simp add: parallel_Cons)
    then show ?thesis using Cons.IH True q by simp
  next
    case False
    then show ?thesis by (simp add: q list_update_swap)
  qed
qed simp

end
