(* ===== verification/Sf_GlobProps.thy ===== *)
theory Sf_GlobProps
  imports Sf_Globber
begin

text \<open>
  A directory tree as the file system shows it, the recursive listing it should give, and the
  proof that globbing in slices gives this listing, however the slices are cut.
\<close>

datatype fs_tree = TFile string int | TDir string bool "fs_tree list"

definition tree_entry :: "fs_tree \<Rightarrow> dir_entry" where
  "tree_entry t =
     (case t of
        TFile n s \<Rightarrow> \<lparr>de_name = n, de_type = EFile, de_size = s\<rparr>
      | TDir n link ts \<Rightarrow> \<lparr>de_name = n, de_type = EDirectory, de_size = 0\<rparr>)"

text \<open>What lies below a directory of the file system; a symbolic link is not followed.\<close>

fun fs_below :: "file_system \<Rightarrow> string \<Rightarrow> fs_tree list \<Rightarrow> bool" where
  "fs_below F d [] = True"
| "fs_below F d (TFile n s # l) = fs_below F d l"
| "fs_below F d (TDir n link ts # l) =
     (fs_isSymlink F (sub_path d n) = link \<and>
      (\<not> link \<longrightarrow> listDirectory F (sub_path d n) = (NoError, map tree_entry ts) \<and> fs_below F (sub_path d n) ts) \<and>
      fs_below F d l)"

definition fs_shows :: "file_system \<Rightarrow> string \<Rightarrow> fs_tree list \<Rightarrow> bool" where
  "fs_shows F d ts \<longleftrightarrow> listDirectory F d = (NoError, map tree_entry ts) \<and> fs_below F d ts"

text \<open>The recursive listing, the reference for the globber.\<close>

fun full :: "fs_tree list \<Rightarrow> rec_entry list" where
  "full [] = []"
| "full (TFile n s # l) = RecEntry n EFile s [] # full l"
| "full (TDir n link ts # l) = RecEntry n EDirectory 0 (if link then [] else full ts) # full l"

fun weight :: "fs_tree list \<Rightarrow> nat" where
  "weight [] = 0"
| "weight (TFile n s # l) = weight l"
| "weight (TDir n link ts # l) = (if link then 0 else Suc (weight ts)) + weight l"

definition plain :: "fs_tree list \<Rightarrow> rec_entry list" where
  "plain ts = map (rec_entry_of \<circ> tree_entry) ts"

subsection \<open>One expansion\<close>

text \<open>The points an expansion adds, with the trees they stand for; \<open>k\<close> is the index of the head.\<close>

fun tree_points :: "nat \<Rightarrow> string \<Rightarrow> nat list \<Rightarrow> fs_tree list \<Rightarrow> (work_point \<times> fs_tree list) list" where
  "tree_points k d p [] = []"
| "tree_points k d p (TFile n s # l) = tree_points (Suc k) d p l"
| "tree_points k d p (TDir n link ts # l) =
     (if link then [] else [((p @ [k], sub_path d n), ts)]) @ tree_points (Suc k) d p l"

definition fill :: "(work_point \<times> fs_tree list) \<Rightarrow> rec_entry list \<Rightarrow> rec_entry list" where
  "fill x = upd_entries (fst (fst x)) (\<lambda>_. full (snd x))"

lemma glob_points_tree:
  "fs_below F d ts \<Longrightarrow> concat (map (\<lambda>(i, e).
       if re_type e = EDirectory \<and> \<not> fs_isSymlink F (sub_path d (re_name e))
       then [(p @ [i], sub_path d (re_name e))] else []) (enumerate k (plain ts))) = map fst (tree_points k d p ts)"
proof (induction k d p ts rule: tree_points.induct)
  case (3 k d p n link ts l)
  then show ?case by (simp add: plain_def tree_entry_def rec_entry_of_def)
qed (simp_all add: plain_def tree_entry_def rec_entry_of_def)

lemma tree_points_props:
  assumes "x \<in> set (tree_points k d p ts)" and "fs_below F d ts"
  shows "\<exists>i n. k \<le> i \<and> i < k + length ts \<and> fst (fst x) = p @ [i] \<and> snd (fst x) = sub_path d n \<and>
     fs_shows F (sub_path d n) (snd x) \<and> weight (snd x) < weight ts"
  using assms
proof (induction k d p ts rule: tree_points.induct)
  case (2 k d p n s l)
  then show ?case by (auto simp: Suc_le_eq)
next
  case (3 k d p n link ts l)
  show ?case
  proof (cases "x \<in> set (tree_points (Suc k) d p l)")
    case True
    with 3 obtain i m where "Suc k \<le> i" "i < Suc k + length l" "fst (fst x) = p @ [i]" "snd (fst x) = sub_path d m"
      "fs_shows F (sub_path d m) (snd x)" "weight (snd x) < weight l" by auto
    then show ?thesis by (intro exI [of _ i] exI [of _ m]) auto
  next
    case False
    then show ?thesis using 3(2,3) by (intro exI [of _ k] exI [of _ n]) (auto simp: fs_shows_def split: if_splits)
  qed
qed simp

lemma weight_points: "sum_list (map (\<lambda>x. Suc (weight (snd x))) (tree_points k d p ts)) = weight ts"
  by (induction k d p ts rule: tree_points.induct) auto

lemma parallel_snoc: "i \<noteq> j \<Longrightarrow> parallel (p @ [i]) (p @ [j])"
  by (simp add: parallel_def)

lemma parallel_below: "parallel p q \<Longrightarrow> parallel (p @ r) q"
  using parallel_append [of p q r "[]"] by simp

lemma points_parallel:
  "fs_below F d ts \<Longrightarrow> sorted_wrt (\<lambda>x y. parallel (fst (fst x)) (fst (fst y))) (tree_points k d p ts)"
proof (induction k d p ts rule: tree_points.induct)
  case (3 k d p n link ts l)
  have "parallel (p @ [k]) (fst (fst y))" if "y \<in> set (tree_points (Suc k) d p l)" for y
    using tree_points_props [OF that, of F] 3(2) by (auto intro!: parallel_snoc)
  with 3 show ?case by simp
qed simp_all

text \<open>Filling the points of an expansion in turn fills the directory.\<close>

lemma fill_points:
  assumes "length pre = k"
  shows "fold fill (tree_points k d [] ts) (pre @ plain ts) = pre @ full ts"
  using assms
proof (induction k d "[] :: nat list" ts arbitrary: pre rule: tree_points.induct)
  case (1 k d)
  then show ?case by (simp add: plain_def)
next
  case (2 k d n s l)
  then show ?case using 2(1) [of "pre @ [RecEntry n EFile s []]"]
    by (simp add: plain_def tree_entry_def rec_entry_of_def)
next
  case (3 k d n link ts l)
  let ?e = "RecEntry n EDirectory 0 (if link then [] else full ts)"
  have "fold fill (if link then [] else [(([k], sub_path d n), ts)]) (pre @ plain (TDir n link ts # l)) =
      (pre @ [?e]) @ plain l"
    using 3(2) by (simp add: plain_def tree_entry_def rec_entry_of_def fill_def nth_append list_update_append set_entries_def)
  then show ?case using 3(1) [of "pre @ [?e]"] 3(2) by (cases link) simp_all
qed

lemma tree_points_shift: "tree_points k d p ts = map (\<lambda>((q, n), t). ((p @ q, n), t)) (tree_points k d [] ts)"
  by (induction k d "[] :: nat list" ts rule: tree_points.induct) auto

lemma fold_fill_below:
  "fold fill (map (\<lambda>((q, n), t). ((p @ q, n), t)) xs) (upd_entries p f es) = upd_entries p (fold fill xs \<circ> f) es"
proof (induction xs arbitrary: f)
  case (Cons x xs)
  obtain q n t where x: "x = ((q, n), t)" by (metis surj_pair)
  have "fill ((p @ q, n), t) (upd_entries p f es) = upd_entries p (fill x \<circ> f) es"
    by (simp add: x fill_def upd_append upd_upd)
  then show ?case using Cons [of "fill x \<circ> f"] by (simp add: x comp_def)
qed simp

lemma fill_expanded:
  "fold fill (tree_points 0 d p ts) (upd_entries p (\<lambda>_. plain ts) es) = upd_entries p (\<lambda>_. full ts) es"
  using fill_points [of "[]" 0 d ts] by (simp add: tree_points_shift [of 0 d p] fold_fill_below comp_def)

subsection \<open>The invariant of an operation\<close>

definition glob_at :: "file_system \<Rightarrow> rec_entry list \<Rightarrow> (work_point \<times> fs_tree list) list \<Rightarrow> glob_op \<Rightarrow> bool" where
  "glob_at F goal pend op \<longleftrightarrow> go_queue op = map fst pend \<and>
     (\<forall>x \<in> set pend. fs_shows F (snd (fst x)) (snd x) \<and> get_entries (fst (fst x)) (go_listing op) = Some []) \<and>
     sorted_wrt (\<lambda>x y. parallel (fst (fst x)) (fst (fst y))) pend \<and>
     fold fill pend (go_listing op) = goal"

definition pend_weight :: "(work_point \<times> fs_tree list) list \<Rightarrow> nat" where
  "pend_weight pend = sum_list (map (\<lambda>x. Suc (weight (snd x))) pend)"

lemma fold_fill_comm:
  "\<forall>x \<in> set xs. parallel p (fst (fst x)) \<Longrightarrow> fold fill xs (upd_entries p f es) = upd_entries p f (fold fill xs es)"
proof (induction xs arbitrary: es)
  case (Cons x xs)
  then have "fill x (upd_entries p f es) = upd_entries p f (fill x es)" by (simp add: fill_def upd_comm [of p])
  then show ?case using Cons by simp
qed simp

lemma fold_fill_swap:
  "\<forall>x \<in> set xs. \<forall>y \<in> set ys. parallel (fst (fst x)) (fst (fst y)) \<Longrightarrow>
   fold fill ys (fold fill xs es) = fold fill xs (fold fill ys es)"
proof (induction xs arbitrary: es)
  case (Cons x xs)
  have "fold fill ys (fill x es') = fill x (fold fill ys es')" for es'
    unfolding fill_def [of x] by (rule fold_fill_comm) (use Cons.prems in auto)
  then show ?case using Cons by simp
qed simp

lemma expand_at:
  assumes at: "glob_at F goal (((p, d), ts) # pend) op"
  shows "\<exists>op'. glob_expand F d p (op\<lparr>go_queue := map fst pend\<rparr>) = Inr op' \<and>
     glob_at F goal (pend @ tree_points 0 d p ts) op' \<and> go_callback op' = go_callback op \<and>
     go_directory op' = go_directory op \<and> go_begin op' = go_begin op"
proof -
  from at have shows_: "listDirectory F d = (NoError, map tree_entry ts)" "fs_below F d ts"
    and here: "get_entries p (go_listing op) = Some []"
    and par: "\<forall>y \<in> set pend. parallel p (fst (fst y))" "sorted_wrt (\<lambda>x y. parallel (fst (fst x)) (fst (fst y))) pend"
    and goal: "fold fill pend (upd_entries p (\<lambda>_. full ts) (go_listing op)) = goal"
    by (auto simp: glob_at_def fs_shows_def fill_def)
  let ?l = "upd_entries p (\<lambda>_. plain ts) (go_listing op)" and ?new = "tree_points 0 d p ts"
  have "upd_entries p (\<lambda>target. target @ plain ts) es = upd_entries p (\<lambda>_. plain ts) es"
    if "get_entries p es = Some []" for es using that
    by (induction p arbitrary: es) (auto split: if_splits)
  then have l: "upd_entries p (\<lambda>target. target @ map rec_entry_of (map tree_entry ts)) (go_listing op) = ?l"
    using here by (simp add: plain_def comp_def)
  have target: "get_entries p ?l = Some (plain ts)" using get_upd_same [OF here] by simp
  have points: "glob_points F d p (plain ts) = map fst ?new"
    unfolding glob_points_def by (rule glob_points_tree [OF shows_(2)])
  define op' where "op' = op\<lparr>go_listing := ?l, go_queue := map fst (pend @ ?new)\<rparr>"
  have "glob_expand F d p (op\<lparr>go_queue := map fst pend\<rparr>) = Inr op'"
    using l target points by (simp add: glob_expand_def shows_(1) Let_def op'_def)
  moreover have "glob_at F goal (pend @ ?new) op'"
    unfolding glob_at_def
  proof (intro conjI ballI)
    fix x assume x: "x \<in> set (pend @ ?new)"
    show "fs_shows F (snd (fst x)) (snd x)"
      using x at tree_points_props [OF _ shows_(2), of x 0 p] by (auto simp: glob_at_def)
    show "get_entries (fst (fst x)) (go_listing op') = Some []"
    proof (cases "x \<in> set pend")
      case True
      then show ?thesis using par(1) at by (auto simp: op'_def get_upd_other glob_at_def)
    next
      case False
      then obtain i n where i: "i < length ts" "fst (fst x) = p @ [i]"
        using x tree_points_props [OF _ shows_(2), of x 0 p] by auto
      then have "re_entries (plain ts ! i) = []" by (simp add: plain_def rec_entry_of_def)
      then show ?thesis using i target by (simp add: op'_def get_append plain_def)
    qed
  next
    have "parallel (fst (fst x)) (fst (fst y))" if x: "x \<in> set pend" and y: "y \<in> set ?new" for x y
    proof -
      obtain i where "fst (fst y) = p @ [i]" using tree_points_props [OF y shows_(2)] by blast
      then show ?thesis using par(1) x parallel_below [of p "fst (fst x)" "[i]"] by (auto simp: parallel_commute)
    qed
    note across = this
    show "sorted_wrt (\<lambda>x y. parallel (fst (fst x)) (fst (fst y))) (pend @ ?new)"
      using par(2) points_parallel [OF shows_(2)] across by (simp add: sorted_wrt_append)
    have "fold fill ?new (fold fill pend ?l) = fold fill pend (fold fill ?new ?l)"
      by (rule fold_fill_swap) (use across in blast)
    then show "fold fill (pend @ ?new) (go_listing op') = goal" using goal by (simp add: op'_def fill_expanded)
  qed (simp add: op'_def)
  ultimately show ?thesis by (auto simp: op'_def)
qed

text \<open>An operation that is before its first slice, or in the middle of the tree.\<close>

definition glob_good :: "file_system \<Rightarrow> rec_entry list \<Rightarrow> glob_op \<Rightarrow> bool" where
  "glob_good F goal g \<longleftrightarrow>
     (if go_begin g then go_queue g = [] \<and> go_listing g = [] \<and> (\<exists>ts. fs_shows F (go_directory g) ts \<and> full ts = goal)
      else \<exists>pend. glob_at F goal pend g)"

definition end_good :: "file_system \<Rightarrow> rec_entry list \<Rightarrow> glob_op \<Rightarrow> glob_end \<Rightarrow> bool" where
  "end_good F goal g r \<longleftrightarrow>
     (case r of
        Paused g' \<Rightarrow> glob_good F goal g' \<and> go_callback g' = go_callback g \<and> go_directory g' = go_directory g
      | Answered e g' \<Rightarrow> go_callback g' = go_callback g \<and>
          (e = NoError \<and> go_listing g' = goal \<or> e = TimeOut))"

lemma end_good_cong:
  "go_callback g' = go_callback g \<Longrightarrow> go_directory g' = go_directory g \<Longrightarrow> end_good F goal g' = end_good F goal g"
  by (simp add: end_good_def fun_eq_iff split: glob_end.split)

lemma glob_loop_good:
  assumes "glob_at F goal pend g" and "\<not> go_begin g"
  shows "\<exists>r. glob_loop F clock stop timeOut n g = Some r \<and> end_good F goal g r"
  using assms
proof (induction "pend_weight pend" arbitrary: pend g n rule: less_induct)
  case less
  show ?case
  proof (cases pend)
    case Nil
    then show ?thesis using less.prems
      by (subst glob_loop.simps) (simp add: glob_at_def end_good_def)
  next
    case (Cons x rest)
    then obtain p d ts where x: "pend = ((p, d), ts) # rest" by (cases x) auto
    have q: "go_queue g = (p, d) # map fst rest" using less.prems by (simp add: glob_at_def x)
    obtain g' where g': "glob_expand F d p (g\<lparr>go_queue := map fst rest\<rparr>) = Inr g'"
      "glob_at F goal (rest @ tree_points 0 d p ts) g'" "go_callback g' = go_callback g"
      "go_directory g' = go_directory g" "go_begin g' = go_begin g"
      using expand_at [of F goal p d ts rest g] less.prems x by auto
    have "pend_weight (rest @ tree_points 0 d p ts) < pend_weight pend"
      using weight_points [of 0 d p ts] by (simp add: pend_weight_def x)
    then obtain r where r: "glob_loop F clock stop timeOut (n + 2) g' = Some r" "end_good F goal g' r"
      using less.hyps [OF _ g'(2), of "n + 2"] less.prems(2) g'(5) by auto
    have "end_good F goal g r" using r(2) end_good_cong [OF g'(3,4)] by simp
    moreover have "glob_good F goal g" using less.prems by (auto simp: glob_good_def)
    then have "end_good F goal g (Paused g)" "end_good F goal g (Answered TimeOut g)"
      by (simp_all add: end_good_def)
    ultimately show ?thesis using g'(1) r(1) by (subst glob_loop.simps) (simp add: q)
  qed
qed

lemma glob_slice_good:
  assumes "glob_good F goal g"
  shows "\<exists>r. glob_slice F clock timeOut g = Some r \<and> end_good F goal g r"
proof (cases "go_begin g")
  case True
  then obtain ts where ts: "go_queue g = []" "go_listing g = []" "fs_shows F (go_directory g) ts" "full ts = goal"
    using assms by (auto simp: glob_good_def)
  let ?g = "g\<lparr>go_queue := [([], go_directory g)]\<rparr>"
  have "glob_at F goal [(([], go_directory g), ts)] ?g"
    using ts by (simp add: glob_at_def fill_def)
  moreover have same: "?g\<lparr>go_queue := map fst []\<rparr> = g" using ts(1) by simp
  ultimately have "glob_at F goal ((([], go_directory g), ts) # []) ?g" by simp
  from expand_at [OF this] ts(1) obtain g' where g': "glob_expand F (go_directory g) [] g = Inr g'"
    "glob_at F goal (tree_points 0 (go_directory g) [] ts) g'" "go_callback g' = go_callback g"
    "go_directory g' = go_directory g"
    by (simp add: same [simplified]) blast
  have "glob_at F goal (tree_points 0 (go_directory g) [] ts) (g'\<lparr>go_begin := False\<rparr>)"
    using g'(2) by (simp add: glob_at_def)
  from glob_loop_good [OF this] show ?thesis using g' True end_good_cong [of "g'\<lparr>go_begin := False\<rparr>" g]
    by (simp add: glob_slice_def Let_def)
next
  case False
  then obtain pend where pend: "glob_at F goal pend g" using assms by (auto simp: glob_good_def)
  then have "glob_at F goal pend (g\<lparr>go_begin := False\<rparr>)" by (simp add: glob_at_def)
  from glob_loop_good [OF this] show ?thesis using False end_good_cong [of "g\<lparr>go_begin := False\<rparr>" g]
    by (simp add: glob_slice_def Let_def)
qed

subsection \<open>Runs of the globber\<close>

text \<open>
  What happens to a globber: it is asked, the work thread runs a posted slice (any id and any
  readings of the clock), its timer fires.
\<close>

datatype gl_event = AskGlob int string nat int | WorkSlice "nat \<Rightarrow> int" int | GlobTimer time

fun gl_step :: "file_system \<Rightarrow> gl_event \<Rightarrow> globber \<Rightarrow> globber option" where
  "gl_step F (AskGlob now d cb t) s = Some (snd (glob F now d cb t s))"
| "gl_step F (WorkSlice clock i) s = continueGlobbing F clock i s"
| "gl_step F (GlobTimer ct) s = gl_onTimer ct s"

fun gl_run :: "file_system \<Rightarrow> gl_event list \<Rightarrow> globber \<Rightarrow> globber option" where
  "gl_run F [] s = Some s"
| "gl_run F (e # es) s = Option.bind (gl_step F e s) (gl_run F es)"

text \<open>The requests of a run that are accepted: callback and directory.\<close>

definition accepted :: "file_system \<Rightarrow> gl_event list \<Rightarrow> (nat \<times> string) list" where
  "accepted F es = concat (map (\<lambda>e. case e of
     AskGlob now d cb t \<Rightarrow> if fs_isDirectory F d then [(cb, d)] else [] | _ \<Rightarrow> []) es)"

definition gl_owed :: "globber \<Rightarrow> nat multiset" where
  "gl_owed s = image_mset fst (mset (gl_calls s)) + image_mset (\<lambda>op. go_callback (op_data op)) (mset (ab_ops (gl_ops s)))"

definition glob_op_ok :: "file_system \<Rightarrow> (string \<Rightarrow> fs_tree list) \<Rightarrow> (nat \<times> string) set \<Rightarrow> glob_op \<Rightarrow> bool" where
  "glob_op_ok F tree A g \<longleftrightarrow>
     (go_callback g, go_directory g) \<in> A \<and> glob_good F (full (tree (go_directory g))) g"

definition glob_call_ok :: "(string \<Rightarrow> fs_tree list) \<Rightarrow> (nat \<times> string) set \<Rightarrow> nat \<times> error \<times> rec_entry list option \<Rightarrow> bool" where
  "glob_call_ok tree A c \<longleftrightarrow>
     (case c of (cb, e, l) \<Rightarrow> e = TimeOut \<or> e = NoError \<and> (\<exists>d. (cb, d) \<in> A \<and> l = Some (full (tree d))))"

definition gl_good :: "file_system \<Rightarrow> (string \<Rightarrow> fs_tree list) \<Rightarrow> (nat \<times> string) set \<Rightarrow> nat multiset \<Rightarrow> globber \<Rightarrow> bool" where
  "gl_good F tree A n s \<longleftrightarrow> ab_ok (gl_ops s) \<and>
     (\<forall>op \<in> set (ab_ops (gl_ops s)). op_type op = GLOB \<and> op_addr op < gl_alloc s \<and> glob_op_ok F tree A (op_data op)) \<and>
     (\<forall>c \<in> set (gl_calls s). glob_call_ok tree A c) \<and> gl_owed s = n"

lemma gl_good_new: "gl_good F tree A {#} gl_new"
  by (simp add: gl_good_def gl_new_def gl_owed_def ab_init_def ab_ok_init [unfolded ab_init_def])

lemma gl_good_more: "gl_good F tree A n s \<Longrightarrow> A \<subseteq> B \<Longrightarrow> gl_good F tree B n s"
  unfolding gl_good_def glob_op_ok_def glob_call_ok_def by (auto split: prod.splits) blast+

text \<open>An operation taken out, and its callback called.\<close>

lemma gl_taken:
  assumes "gl_good F tree A n s" and "map_of (ab_map (gl_ops s)) i = Some op"
  shows "gl_good F tree A (n - {#go_callback (op_data op)#}) (gl_put (ab_remove op i (gl_ops s)) s)"
    "go_callback (op_data op) \<in># n" "op_type op = GLOB" "op_addr op < gl_alloc s" "glob_op_ok F tree A (op_data op)"
proof -
  have wf: "ab_wf (gl_ops s)" using assms(1) by (simp add: gl_good_def ab_ok_def)
  note bag = mset_ab_remove [OF wf assms(2)]
  have op: "op \<in> set (ab_ops (gl_ops s))" using ab_wf_mapD [OF wf assms(2)] by blast
  then show "op_type op = GLOB" "op_addr op < gl_alloc s" "glob_op_ok F tree A (op_data op)"
    using assms(1) by (auto simp: gl_good_def)
  have "set (ab_ops (ab_remove op i (gl_ops s))) \<subseteq> set (ab_ops (gl_ops s))"
    by (auto simp: ab_remove_def ops_erase_def)
  moreover have "ab_ok (ab_remove op i (gl_ops s))"
    using ab_remove_ok assms by (auto simp: gl_good_def)
  moreover have owed: "n = add_mset (go_callback (op_data op)) (gl_owed (gl_put (ab_remove op i (gl_ops s)) s))"
    using assms(1) bag by (simp add: gl_good_def gl_owed_def gl_put_def)
  ultimately show "gl_good F tree A (n - {#go_callback (op_data op)#}) (gl_put (ab_remove op i (gl_ops s)) s)"
    using assms(1) by (auto simp: gl_good_def gl_put_def)
  show "go_callback (op_data op) \<in># n" by (simp add: owed)
qed

lemma gl_answered:
  assumes "gl_good F tree A n s" and "glob_call_ok tree A (cb, e, l)"
  shows "gl_good F tree A (add_mset cb n) (gl_call cb e l s)"
  using assms by (auto simp: gl_good_def gl_call_def gl_owed_def)

text \<open>An operation put in, new or back.\<close>

lemma gl_added:
  assumes "gl_good F tree A n s" and "op_fresh op (gl_ops s)" and "op_id op \<noteq> 0" and "op_type op = GLOB"
    and "op_addr op < k" and "gl_alloc s \<le> k" and "glob_op_ok F tree A (op_data op)"
  shows "gl_good F tree A (add_mset (go_callback (op_data op)) n)
    (s\<lparr>gl_ops := snd (addAsyncOp op (gl_ops s)), gl_alloc := k, gl_work := w\<rparr>)"
proof -
  note bag = mset_addAsyncOp(1) [OF assms(2,3)]
  obtain j b where add: "addAsyncOp op (gl_ops s) = (j, b)" by fastforce
  have "set (ab_ops b) = insert op (set (ab_ops (gl_ops s)))"
    using bag by (metis add set_mset_add_mset_insert set_mset_mset snd_conv)
  moreover have "ab_ok b" using addAsyncOp_ok(1) [OF _ assms(2) add] assms(1) by (simp add: gl_good_def)
  ultimately show ?thesis using assms bag by (auto simp: gl_good_def gl_owed_def add)
qed

lemma glob_step_good:
  assumes good: "gl_good F tree A n s" and shows_: "fs_isDirectory F d \<longrightarrow> fs_shows F d (tree d)"
    and A: "set (accepted F [AskGlob now d cb t]) \<subseteq> A"
  shows "gl_good F tree A (n + image_mset fst (mset (accepted F [AskGlob now d cb t]))) (snd (glob F now d cb t s))"
proof (cases "fs_isDirectory F d")
  case True
  obtain i b where gen: "genFreeId (gl_ops s) = (i, b)" by fastforce
  define g where "g = \<lparr>go_begin = True, go_listing = [], go_queue = [], go_callback = cb, go_directory = d\<rparr>"
  define op where "op = (new_op GLOB (regTimeOutMs now (if t < 0 then gl_timeOutMs s else t)) (gl_alloc s) g)\<lparr>op_id := i\<rparr>"
  have ok: "ab_ok (gl_ops s)" and addrs: "\<forall>q \<in> set (ab_ops (gl_ops s)). op_addr q < gl_alloc s"
    using good by (simp_all add: gl_good_def)
  have fresh: "op_fresh op b"
    by (rule genFreeId_fresh [OF ok gen]) (use addrs in \<open>auto simp: op_def new_op_def\<close>)
  have "ab_ok b" using genFreeId_ok [OF ok] gen by simp
  moreover have "ab_ops b = ab_ops (gl_ops s)" "i \<noteq> 0"
    using gen ok by (auto simp: genFreeId_def ab_ok_def ab_wf_def)
  ultimately have "gl_good F tree A n (gl_put b s)" using good by (simp add: gl_good_def gl_put_def gl_owed_def)
  moreover have "glob_op_ok F tree A (op_data op)" "op_type op = GLOB" "op_addr op = gl_alloc s" "op_id op = i"
    "go_callback (op_data op) = cb"
    using A True shows_ by (auto simp: op_def new_op_def g_def glob_op_ok_def glob_good_def accepted_def)
  ultimately have "gl_good F tree A (add_mset cb n)
      (s\<lparr>gl_ops := snd (addAsyncOp op b), gl_alloc := gl_alloc s + 1, gl_work := gl_work s @ [i]\<rparr>)"
    using gl_added [of F tree A n "gl_put b s" op "gl_alloc s + 1" "gl_work s @ [i]"] fresh \<open>i \<noteq> 0\<close>
    by (simp add: gl_put_def)
  moreover have "snd (glob F now d cb t s) =
      s\<lparr>gl_ops := snd (addAsyncOp op b), gl_alloc := gl_alloc s + 1, gl_work := gl_work s @ [i]\<rparr>"
    using True gen by (simp add: glob_def Let_def op_def g_def)
  ultimately show ?thesis using True by (simp add: accepted_def)
next
  case False
  then show ?thesis using good by (simp add: glob_def accepted_def)
qed

lemma continue_good:
  assumes good: "gl_good F tree A n s"
  shows "\<exists>s'. continueGlobbing F clock i s = Some s' \<and> gl_good F tree A n s'"
proof (cases "map_of (ab_map (gl_ops s)) i")
  case None
  have "gl_put (gl_ops s) s = s" by (simp add: gl_put_def)
  then show ?thesis using None good by (simp add: continueGlobbing_def getReadyAsyncOpOf_def getReadyAsyncOp_def)
next
  case (Some op)
  let ?b = "ab_remove op i (gl_ops s)" and ?g = "op_data op"
  note take = gl_taken [OF good Some]
  have get: "getReadyAsyncOpOf i GLOB (gl_ops s) = (Some op, ?b)"
    using Some take(3) by (simp add: getReadyAsyncOpOf_def getReadyAsyncOp_def)
  have ok: "ab_ok (gl_ops s)" and wf: "ab_wf (gl_ops s)" using good by (simp_all add: gl_good_def ab_ok_def)
  obtain r where r: "glob_slice F clock (op_timeOut op) ?g = Some r"
    "end_good F (full (tree (go_directory ?g))) ?g r"
    using glob_slice_good [of F _ ?g clock "op_timeOut op"] take(5) unfolding glob_op_ok_def by blast
  show ?thesis
  proof (cases r)
    case (Answered e g)
    then have "glob_call_ok tree A (go_callback ?g, e, Some (go_listing g))" "go_callback g = go_callback ?g"
      using r(2) take(5) by (auto simp: end_good_def glob_call_ok_def glob_op_ok_def)
    with gl_answered [OF take(1) this(1)] take(2) show ?thesis
      using r(1) get Answered by (simp add: continueGlobbing_def)
  next
    case (Paused g)
    let ?op = "op\<lparr>op_data := g\<rparr>"
    have g: "glob_op_ok F tree A g" "go_callback g = go_callback ?g"
      using r(2) take(5) Paused by (auto simp: end_good_def glob_op_ok_def)
    have i: "0 < i" "i < ab_nextId (gl_ops s)" "op_id op = i" "op \<in> set (ab_ops (gl_ops s))"
      using ab_wf_mapD [OF wf Some] by auto
    note rm = ab_remove_props [OF wf Some]
    have "op_fresh ?op ?b"
      using i rm ab_wf_addrD [OF wf] by (auto simp: op_fresh_def distinct_map inj_on_def)
    with gl_added [OF take(1), of ?op "gl_alloc s" "gl_work s @ [i]"] take(2-4) g i
    have "gl_good F tree A n (s\<lparr>gl_ops := snd (addAsyncOp ?op ?b), gl_work := gl_work s @ [i]\<rparr>)"
      by (simp add: gl_put_def)
    then show ?thesis using r(1) get Paused by (simp add: continueGlobbing_def)
  qed
qed

lemma gl_timer_good:
  assumes good: "gl_good F tree A n s"
  shows "\<exists>s'. gl_onTimer ct s = Some s' \<and> gl_good F tree A n s'"
proof -
  have "ab_ok (gl_ops s)" using good by (simp add: gl_good_def)
  then obtain s' where s': "onTimer gl_ops gl_put gl_onCancel ct s = Some s'" using globber.timer_expires by blast
  have "gl_good F tree A n s'"
  proof (rule globber.timer_keeps [where P = "gl_good F tree A n", OF s' good])
    fix r op assume r: "gl_good F tree A n r" "map_of (ab_map (gl_ops r)) (op_id op) = Some op"
    have "glob_call_ok tree A (go_callback (op_data op), TimeOut, None)" by (simp add: glob_call_ok_def)
    from gl_answered [OF gl_taken(1) [OF r] this] gl_taken(2) [OF r]
    show "gl_good F tree A n (gl_onCancel TimeOut op (gl_put (ab_remove op (op_id op) (gl_ops r)) r))"
      by (simp add: gl_onCancel_def)
  qed (auto simp: gl_good_def gl_put_def gl_owed_def)
  then show ?thesis using s' by (simp add: gl_onTimer_def)
qed

lemma gl_run_good:
  assumes "gl_good F tree A n s" and "set (accepted F es) \<subseteq> A"
    and "\<And>now d cb t. AskGlob now d cb t \<in> set es \<Longrightarrow> fs_isDirectory F d \<Longrightarrow> fs_shows F d (tree d)"
  shows "\<exists>s'. gl_run F es s = Some s' \<and> gl_good F tree A (n + image_mset fst (mset (accepted F es))) s'"
  using assms
proof (induction es arbitrary: n s)
  case Nil
  then show ?case by (simp add: accepted_def)
next
  case (Cons e es)
  have acc: "accepted F (e # es) = accepted F [e] @ accepted F es" by (simp add: accepted_def)
  have "\<exists>s1. gl_step F e s = Some s1 \<and> gl_good F tree A (n + image_mset fst (mset (accepted F [e]))) s1"
  proof (cases e)
    case (AskGlob now d cb t)
    then have "fs_isDirectory F d \<longrightarrow> fs_shows F d (tree d)" using Cons.prems(3) [of now d cb t] by simp
    from glob_step_good [OF Cons.prems(1) this, of now cb t] show ?thesis
      using AskGlob Cons.prems(2) acc by simp
  next
    case (WorkSlice clock i)
    then show ?thesis using continue_good [OF Cons.prems(1), of clock i] by (simp add: accepted_def)
  next
    case (GlobTimer ct)
    then show ?thesis using gl_timer_good [OF Cons.prems(1), of ct] by (simp add: accepted_def)
  qed
  then obtain s1 where s1: "gl_step F e s = Some s1" "gl_good F tree A (n + image_mset fst (mset (accepted F [e]))) s1"
    by blast
  have "\<exists>s'. gl_run F es s1 = Some s' \<and>
      gl_good F tree A (n + image_mset fst (mset (accepted F [e])) + image_mset fst (mset (accepted F es))) s'"
    by (rule Cons.IH [OF s1(2)]) (use Cons.prems(2,3) acc in \<open>auto\<close>)
  then show ?case using s1(1) acc by (simp add: add.assoc)
qed

text \<open>
  C8. In every run of a globber over a file system that shows a tree below each directory it is
  asked for, the work thread's slices end however the clock cuts them, each accepted request is
  answered once or still pending, and an answer is a timeout or the recursive listing of the
  whole tree, symbolic links not followed.
\<close>

theorem glob_lists_tree:
  assumes "\<And>now d cb t. AskGlob now d cb t \<in> set es \<Longrightarrow> fs_isDirectory F d \<Longrightarrow> fs_shows F d (tree d)"
  shows "\<exists>s. gl_run F es gl_new = Some s \<and>
     (\<forall>(cb, e, l) \<in> set (gl_calls s). e = TimeOut \<or>
        e = NoError \<and> (\<exists>d. (cb, d) \<in> set (accepted F es) \<and> l = Some (full (tree d)))) \<and>
     mset (map fst (gl_calls s)) + image_mset (\<lambda>op. go_callback (op_data op)) (mset (ab_ops (gl_ops s))) =
       mset (map fst (accepted F es))"
proof -
  obtain s where s: "gl_run F es gl_new = Some s"
    "gl_good F tree (set (accepted F es)) ({#} + image_mset fst (mset (accepted F es))) s"
    using gl_run_good [of F tree "set (accepted F es)" "{#}" gl_new es] gl_good_new assms by blast
  then show ?thesis by (auto simp: gl_good_def glob_call_ok_def gl_owed_def)
qed

definition demo_fs :: file_system where
  "demo_fs = \<lparr>fs_exists = (\<lambda>_. True), fs_isDirectory = (\<lambda>d. d = ''r'' \<or> d = ''r/s''), fs_isSymlink = (\<lambda>d. d = ''r/l''),
     fs_isRegular = (\<lambda>_. True), fs_fileSize = (\<lambda>_. 3), fs_content = (\<lambda>_. Some ''abc''),
     fs_iterate = (\<lambda>d. if d = ''r'' then Some [(''a'', IsFile 3), (''s'', IsDir), (''p'', IsOther), (''l'', IsDir)]
                       else Some [(''b'', IsFile 4)])\<rparr>"

definition demo_tree :: "fs_tree list" where
  "demo_tree = [TFile ''a'' 3, TDir ''s'' False [TFile ''b'' 4], TDir ''l'' True []]"

lemma demo_fs_shows: "fs_shows demo_fs ''r'' demo_tree"
  by (simp add: fs_shows_def demo_fs_def demo_tree_def listDirectory_def list_item_def List.map_filter_def
      tree_entry_def sub_path_def)

lemma glob_lists_tree_witness:
  "\<exists>s. gl_run demo_fs [AskGlob 0 ''r'' 7 (-1), WorkSlice (\<lambda>n. 60 * int n) 1, WorkSlice (\<lambda>n. 60) 1] gl_new = Some s \<and>
     mset (map fst (gl_calls s)) + image_mset (\<lambda>op. go_callback (op_data op)) (mset (ab_ops (gl_ops s))) = {#7#}"
proof -
  let ?es = "[AskGlob 0 ''r'' 7 (-1), WorkSlice (\<lambda>n. 60 * int n) 1, WorkSlice (\<lambda>n. 60) 1]"
  have "mset (map fst (accepted demo_fs ?es)) = {#7#}" by (simp add: accepted_def demo_fs_def)
  moreover have "fs_shows demo_fs d demo_tree" if "AskGlob now d cb t \<in> set ?es" for now d cb t
    using that demo_fs_shows by simp
  ultimately show ?thesis using glob_lists_tree [of ?es demo_fs "\<lambda>_. demo_tree"] by auto
qed

end
