(* ===== verification/Sf_Transfer.thy ===== *)
theory Sf_Transfer
  imports Sf_Listing Sf_DSClient
begin

text \<open>
  Downloads: \<open>libflocke/flocke/filesharing/file_io/FileTransfer\<close> and \<open>DirectoryTransfer\<close>.

  What a transfer asks of others is a list of actions: a transmission is cancelled at its
  sender, the delegate \<open>stateChanged\<close> is called or posted.  The destination file is what has
  been written into it; whether a file can be opened, how many bytes of a block are written
  and whether a directory can be created is up to the environment.  The measurement of the
  speed is left out.
\<close>

datatype tf_type = DIR_TRANSFER | FILE_TRANSFER

datatype tf_state =
    TS_NoState | TS_Starting | TS_Transferring | TS_TransferredListing | TS_PendingFiles
  | TS_Finished | TS_Canceled | TS_Error

datatype tf_update = UT_Changed | UT_Added | UT_Removed

record transfer_info =
  tf_state :: tf_state
  tf_type :: tf_type
  tf_source :: host_id
  tf_receiver :: host_id
  tf_uri :: uri
  tf_filename :: string
  tf_desc :: data_desc
  tf_size :: int
  tf_transferred :: int
  tf_error :: error
  tf_parent :: int

definition new_transfer :: "tf_type \<Rightarrow> int \<Rightarrow> transfer_info" where
  "new_transfer ty parent =
     \<lparr>tf_state = TS_NoState, tf_type = ty, tf_source = [], tf_receiver = [], tf_uri = uri_make [] (Path []),
      tf_filename = [], tf_desc = no_desc, tf_size = 0, tf_transferred = 0, tf_error = NoError, tf_parent = parent\<rparr>"

definition errorState :: "error \<Rightarrow> transfer_info \<Rightarrow> transfer_info" where
  "errorState e i = i\<lparr>tf_state := TS_Error, tf_error := e\<rparr>"

datatype tf_action =
    CancelTransmission host_id int path
  | StateChanged
  | PostStateChanged

record tf_env =
  te_exists :: "string \<Rightarrow> bool"
  te_fopen :: "string \<Rightarrow> bool"
  te_fwrite :: "bytes \<Rightarrow> bytes \<Rightarrow> nat"
  te_mkdir :: "string \<Rightarrow> error"
  te_request :: "host_id \<Rightarrow> ds_request \<Rightarrow> error"
  te_decode :: "bytes \<Rightarrow> rec_entry list option"

definition tf_ended :: "transfer_info \<Rightarrow> bool" where
  "tf_ended i \<longleftrightarrow> tf_state i = TS_Canceled \<or> tf_state i = TS_Error \<or> tf_state i = TS_Finished"

text \<open>What both kinds answer to a reply that finds them ended by an error or cancelled.\<close>

definition tf_refuse :: "host_id \<Rightarrow> ds_request_reply \<Rightarrow> transfer_info \<Rightarrow> tf_action list" where
  "tf_refuse sender r i =
     (if (tf_state i = TS_Error \<or> tf_state i = TS_Canceled) \<and> rr_mark r \<noteq> RR_TransmissionCancel
      then [CancelTransmission sender (rr_id r) (rr_path r)] else []) @ [StateChanged]"

definition strange_mark :: "reply_mark \<Rightarrow> bool" where
  "strange_mark m \<longleftrightarrow> m \<noteq> RR_TransmissionStart \<and> m \<noteq> RR_TransmissionFinish \<and> m \<noteq> RR_Transmission"

subsection \<open>Files\<close>

record file_transfer =
  ft_info :: transfer_info
  ft_open :: bool
  ft_written :: bytes
  ft_id :: int

definition ft_new :: "int \<Rightarrow> file_transfer" where
  "ft_new parent = \<lparr>ft_info = new_transfer FILE_TRANSFER parent, ft_open = False, ft_written = [], ft_id = 0\<rparr>"

definition ft_request :: "uri \<Rightarrow> ds_request" where
  "ft_request u = new_request\<lparr>rq_path := u_path u, rq_mark := RQ_Transmission, rq_user := ''file''\<rparr>"

definition ft_start :: "tf_env \<Rightarrow> uri \<Rightarrow> string \<Rightarrow> file_transfer \<Rightarrow> error \<times> file_transfer" where
  "ft_start E u destinationFileName t =
     (if te_exists E destinationFileName then (ExistsAlready, t)
      else
        let err = te_request E (u_host u) (ft_request u)
        in if failed err then (err, t\<lparr>ft_info := errorState err (ft_info t)\<rparr>)
           else (NoError, t\<lparr>ft_info := (ft_info t)\<lparr>tf_state := TS_Starting, tf_uri := u,
                              tf_filename := destinationFileName, tf_source := u_host u\<rparr>\<rparr>))"

definition ft_cancel :: "error \<Rightarrow> file_transfer \<Rightarrow> tf_action list \<times> file_transfer" where
  "ft_cancel cause t =
     (let i = ft_info t
      in if tf_state i = TS_Finished \<or> tf_state i = TS_Error then ([], t)
         else
           ((if tf_state i = TS_Transferring then [CancelTransmission (u_host (tf_uri i)) (ft_id t) (Path [])] else [])
              @ [PostStateChanged],
            t\<lparr>ft_info := (if failed cause then errorState cause i else i\<lparr>tf_state := TS_Canceled\<rparr>)\<rparr>))"

definition ft_cleanup :: "file_transfer \<Rightarrow> file_transfer" where
  "ft_cleanup t = t\<lparr>ft_open := False\<rparr>"

definition ft_set :: "tf_state \<Rightarrow> file_transfer \<Rightarrow> file_transfer" where
  "ft_set st t = t\<lparr>ft_info := (ft_info t)\<lparr>tf_state := st\<rparr>\<rparr>"

definition ft_transferring :: "tf_env \<Rightarrow> ds_request_reply \<Rightarrow> bytes \<Rightarrow> file_transfer \<Rightarrow> file_transfer outcome" where
  "ft_transferring E r data t =
     (if strange_mark (rr_mark r) then Done (ft_set TS_Canceled t)
      else if data \<noteq> [] \<and> \<not> ft_open t then Fault NullDeref
      else
        let w = (if data = [] then 0 else te_fwrite E (ft_written t) data);
            t1 = t\<lparr>ft_written := ft_written t @ take w data\<rparr>
        in if data \<noteq> [] \<and> w \<noteq> length data then Done (ft_set TS_Error t1)
           else
             let t2 = t1\<lparr>ft_info := (ft_info t1)\<lparr>tf_transferred := tf_transferred (ft_info t1) + int w\<rparr>\<rparr>
             in if rr_mark r = RR_TransmissionFinish
                then Done (if tf_transferred (ft_info t2) \<noteq> tf_size (ft_info t2) then ft_set TS_Error t2
                           else ft_set TS_Finished t2)
                else Done t2)"

definition ft_starting :: "tf_env \<Rightarrow> ds_request_reply \<Rightarrow> bytes \<Rightarrow> file_transfer \<Rightarrow> file_transfer outcome" where
  "ft_starting E r data t =
     (if tf_transferred (ft_info t) \<noteq> 0 then Fault AssertFailed
      else if rr_mark r \<noteq> RR_TransmissionStart \<or> r_from (rr_range r) \<noteq> 0 then Done (ft_set TS_Canceled t)
      else
        let t1 = t\<lparr>ft_info := (ft_info t)\<lparr>tf_desc := rr_desc r, tf_size := r_length (rr_range r)\<rparr>\<rparr>
        in if \<not> te_fopen E (tf_filename (ft_info t1)) then Done (ft_set TS_Canceled t1)
           else ft_transferring E r data (ft_set TS_Transferring (t1\<lparr>ft_open := True, ft_written := []\<rparr>)))"

definition ft_handle :: "tf_env \<Rightarrow> ds_request_reply \<Rightarrow> bytes \<Rightarrow> file_transfer \<Rightarrow> file_transfer outcome" where
  "ft_handle E r data t =
     (if failed (rr_err r) then
        Done (ft_cleanup (if tf_state (ft_info t) = TS_Canceled then t
                          else t\<lparr>ft_info := errorState (rr_err r) (ft_info t)\<rparr>))
      else
        let t1 = (if rr_mark r = RR_TransmissionCancel then ft_set TS_Canceled t else t);
            t2 = (if ft_id t1 = 0 then t1\<lparr>ft_id := rr_id r\<rparr> else t1)
        in if tf_state (ft_info t2) = TS_Canceled then Done t2
           else
             outcome_bind
               (case tf_state (ft_info t2) of
                  TS_Starting \<Rightarrow> ft_starting E r data t2
                | TS_Transferring \<Rightarrow> ft_transferring E r data t2
                | _ \<Rightarrow> Done t2)
               (\<lambda>t3. Done (if tf_ended (ft_info t3) then ft_cleanup t3 else t3)))"

definition ft_onRequestReply ::
  "tf_env \<Rightarrow> host_id \<Rightarrow> ds_request_reply \<Rightarrow> bytes \<Rightarrow> file_transfer \<Rightarrow> (tf_action list \<times> file_transfer) outcome" where
  "ft_onRequestReply E sender r data t =
     outcome_bind (ft_handle E r data t) (\<lambda>t'. Done (tf_refuse sender r (ft_info t'), t'))"

subsection \<open>Directories\<close>

record dir_transfer =
  dt_info :: transfer_info
  dt_uri :: uri
  dt_listingData :: bytes
  dt_listing :: "rec_entry list"
  dt_iter :: list_iter

definition dt_new :: dir_transfer where
  "dt_new = \<lparr>dt_info = new_transfer DIR_TRANSFER 0, dt_uri = uri_make [] (Path []), dt_listingData = [],
             dt_listing = [], dt_iter = []\<rparr>"

definition dt_request :: "uri \<Rightarrow> ds_request" where
  "dt_request u = new_request\<lparr>rq_path := u_path u, rq_mark := RQ_Transmission, rq_user := ''glob''\<rparr>"

definition dt_start :: "tf_env \<Rightarrow> uri \<Rightarrow> string \<Rightarrow> dir_transfer \<Rightarrow> error \<times> dir_transfer" where
  "dt_start E u destinationDirName t =
     (let e = te_mkdir E destinationDirName
      in if failed e then (e, t\<lparr>dt_info := errorState e (dt_info t)\<rparr>)
         else
           let e' = te_request E (u_host u) (dt_request u)
           in if failed e' then (e', t\<lparr>dt_info := errorState e' (dt_info t)\<rparr>)
              else (NoError, t\<lparr>dt_info := (dt_info t)\<lparr>tf_state := TS_Starting, tf_uri := u,
                                 tf_filename := destinationDirName, tf_source := u_host u\<rparr>, dt_uri := u\<rparr>))"

text \<open>The loop of \<open>nextTransfer\<close> to the next file, creating the directories on its way.\<close>

datatype dt_found = AtEnd | AtFile string string int | MkdirFailed error

definition dt_destination :: "string \<Rightarrow> string \<Rightarrow> string" where
  "dt_destination dir p = dir @ gDirectoryDelimiter @ p"

partial_function (option) dt_seek ::
  "tf_env \<Rightarrow> string \<Rightarrow> list_iter \<Rightarrow> (dt_found \<times> string list \<times> list_iter) outcome option" where
  "dt_seek E dir it =
     (if it = it_end then Some (Done (AtEnd, [], it))
      else
        (case (it_path it, it_deref it) of
           (Done p, Done e) \<Rightarrow>
             if re_type e \<noteq> EDirectory then Some (Done (AtFile p (dt_destination dir p) (re_size e), [], it))
             else if failed (te_mkdir E (dt_destination dir p))
             then Some (Done (MkdirFailed (te_mkdir E (dt_destination dir p)), [], it))
             else
               (case it_next it of
                  Done it' \<Rightarrow>
                    Option.bind (dt_seek E dir it') (\<lambda>r.
                      Some (outcome_bind r (\<lambda>(f, made, it2). Done (f, dt_destination dir p # made, it2))))
                | Fault x \<Rightarrow> Some (Fault x))
         | _ \<Rightarrow> Some (Fault OutOfBounds)))"

type_synonym transfer_task = "uri \<times> string"

definition dt_set :: "tf_state \<Rightarrow> dir_transfer \<Rightarrow> dir_transfer" where
  "dt_set st t = t\<lparr>dt_info := (dt_info t)\<lparr>tf_state := st\<rparr>\<rparr>"

text \<open>What a call of \<open>nextTransfer\<close> answers: its error, the task, the created directories.\<close>

type_synonym next_result = "error \<times> transfer_task option \<times> string list \<times> tf_action list \<times> dir_transfer"

definition dt_nextTransfer :: "tf_env \<Rightarrow> dir_transfer \<Rightarrow> next_result outcome option" where
  "dt_nextTransfer E t0 =
     (if tf_state (dt_info t0) = TS_Finished then Some (Done (Eof, None, [], [], t0))
      else
        let t = (if tf_state (dt_info t0) = TS_TransferredListing then dt_set TS_PendingFiles t0 else t0)
        in if tf_state (dt_info t) \<noteq> TS_PendingFiles then Some (Done (InvalidArgument, None, [], [], t))
           else
             Option.bind (dt_seek E (tf_filename (dt_info t)) (dt_iter t)) (\<lambda>r. Some (outcome_bind r (\<lambda>(f, made, it).
               let t1 = t\<lparr>dt_iter := it\<rparr>
               in case f of
                    AtEnd \<Rightarrow> Done (Eof, None, made, [PostStateChanged], dt_set TS_Finished t1)
                  | MkdirFailed e \<Rightarrow> Done (e, None, made, [], t1)
                  | AtFile p dest n \<Rightarrow>
                      outcome_bind (it_next it) (\<lambda>it'.
                        Done (NoError, Some (uri_make (u_host (dt_uri t)) (path_plus (u_path (dt_uri t)) (Path p)), dest),
                              made, [PostStateChanged],
                              t1\<lparr>dt_iter := it', dt_info := (dt_info t1)\<lparr>tf_transferred := tf_transferred (dt_info t1) + n\<rparr>\<rparr>))))))"

definition dt_cancel :: "error \<Rightarrow> dir_transfer \<Rightarrow> tf_action list \<times> dir_transfer" where
  "dt_cancel e t =
     ([PostStateChanged],
      t\<lparr>dt_info := (if failed e then errorState e (dt_info t) else (dt_info t)\<lparr>tf_state := TS_Canceled\<rparr>)\<rparr>)"

definition dt_transferring :: "tf_env \<Rightarrow> ds_request_reply \<Rightarrow> bytes \<Rightarrow> dir_transfer \<Rightarrow> dir_transfer" where
  "dt_transferring E r data t =
     (if strange_mark (rr_mark r) then dt_set TS_Canceled t
      else
        let t1 = t\<lparr>dt_listingData := dt_listingData t @ data,
                   dt_info := (dt_info t)\<lparr>tf_transferred := tf_transferred (dt_info t) + int (length data)\<rparr>\<rparr>
        in if rr_mark r \<noteq> RR_TransmissionFinish then t1
           else
             (case te_decode E (dt_listingData t1) of
                None \<Rightarrow> t1\<lparr>dt_info := errorState BadDeserialization (dt_info t1)\<rparr>
              | Some es \<Rightarrow>
                  t1\<lparr>dt_listing := es, dt_iter := it_begin es,
                     dt_info := (dt_info t1)\<lparr>tf_state := TS_TransferredListing, tf_size := sizeSum es,
                                             tf_transferred := 0\<rparr>\<rparr>))"

definition dt_starting :: "tf_env \<Rightarrow> ds_request_reply \<Rightarrow> bytes \<Rightarrow> dir_transfer \<Rightarrow> dir_transfer outcome" where
  "dt_starting E r data t =
     (if tf_transferred (dt_info t) \<noteq> 0 then Fault AssertFailed
      else if rr_mark r \<noteq> RR_TransmissionStart \<or> r_from (rr_range r) \<noteq> 0 then Done (dt_set TS_Canceled t)
      else
        let t1 = t\<lparr>dt_info := (dt_info t)\<lparr>tf_desc := rr_desc r, tf_size := r_length (rr_range r),
                                          tf_state := TS_Transferring\<rparr>\<rparr>
        in Done (dt_transferring E r data t1))"

definition dt_handle :: "tf_env \<Rightarrow> ds_request_reply \<Rightarrow> bytes \<Rightarrow> dir_transfer \<Rightarrow> dir_transfer outcome" where
  "dt_handle E r data t =
     (if failed (rr_err r) then Done (t\<lparr>dt_info := errorState (rr_err r) (dt_info t)\<rparr>)
      else
        let t1 = (if rr_mark r = RR_TransmissionCancel then dt_set TS_Canceled t else t)
        in case tf_state (dt_info t1) of
             TS_Starting \<Rightarrow> dt_starting E r data t1
           | TS_Transferring \<Rightarrow> Done (dt_transferring E r data t1)
           | _ \<Rightarrow> Done t1)"

definition dt_onRequestReply ::
  "tf_env \<Rightarrow> host_id \<Rightarrow> ds_request_reply \<Rightarrow> bytes \<Rightarrow> dir_transfer \<Rightarrow> (tf_action list \<times> dir_transfer) outcome" where
  "dt_onRequestReply E sender r data t =
     outcome_bind (dt_handle E r data t) (\<lambda>t'. Done (tf_refuse sender r (dt_info t'), t'))"

end
