(* ===== verification/Sf_TransferProps.thy ===== *)
theory Sf_TransferProps
  imports Sf_Transfer
begin

text \<open>
  What downloads achieve: a file arrives as it was shared, a finished transfer has written what
  was announced, and a directory transfer hands out exactly the files of its listing.
\<close>

lemmas ft_simps = ft_set_def ft_cleanup_def errorState_def tf_ended_def strange_mark_def

subsection \<open>Receiving a file\<close>

text \<open>The calls of the data sharing client for a file transfer's request, in order.\<close>

fun ft_receive :: "tf_env \<Rightarrow> cl_call list \<Rightarrow> file_transfer \<Rightarrow> file_transfer outcome" where
  "ft_receive E [] t = Done t"
| "ft_receive E (CallRequest cb h r x # cs) t =
     outcome_bind (ft_onRequestReply E h r x t) (\<lambda>(_, t'). ft_receive E cs t')"
| "ft_receive E (_ # cs) t = ft_receive E cs t"

text \<open>A transfer under way that has written all it was sent.\<close>

definition ft_at :: "int \<Rightarrow> bytes \<Rightarrow> file_transfer \<Rightarrow> bool" where
  "ft_at n done_so_far t \<longleftrightarrow> tf_state (ft_info t) = TS_Transferring \<and> ft_open t \<and> ft_written t = done_so_far \<and>
     tf_transferred (ft_info t) = int (length done_so_far) \<and> tf_size (ft_info t) = n"

lemma ft_chunk:
  assumes "ft_at n d t" and "rr_err r = NoError" and "te_fwrite E d x = length x"
  shows "rr_mark r = RR_Transmission \<Longrightarrow>
       \<exists>t' a. ft_onRequestReply E h r x t = Done (a, t') \<and> ft_at n (d @ x) t'"
    "rr_mark r = RR_TransmissionFinish \<Longrightarrow> n = int (length (d @ x)) \<Longrightarrow>
       \<exists>t' a. ft_onRequestReply E h r x t = Done (a, t') \<and> tf_state (ft_info t') = TS_Finished \<and>
         ft_written t' = d @ x \<and> tf_transferred (ft_info t') = n"
  using assms by (auto simp: ft_at_def ft_onRequestReply_def ft_handle_def ft_transferring_def ft_simps Let_def)

lemma ft_chunks:
  assumes "ft_at n d t" and "map (rr_mark \<circ> fst) calls = replicate k RR_Transmission @ [RR_TransmissionFinish]"
    and "\<forall>m \<in> set calls. rr_err (fst m) = NoError" and "\<And>w x. te_fwrite E w x = length x"
    and "n = int (length (d @ concat (map snd calls)))"
  shows "\<exists>t'. ft_receive E (map (\<lambda>(r, x). CallRequest cb h r x) calls) t = Done t' \<and>
     tf_state (ft_info t') = TS_Finished \<and> ft_written t' = d @ concat (map snd calls) \<and> tf_transferred (ft_info t') = n"
  using assms(1-3,5)
proof (induction k arbitrary: d t calls)
  case 0
  then obtain r x where "calls = [(r, x)]" "rr_mark r = RR_TransmissionFinish" "rr_err r = NoError"
    by (cases calls) auto
  then show ?case using ft_chunk(2) [OF 0(1), of r E x h] 0(4) assms(4) by auto
next
  case (Suc k)
  then obtain r x rest where calls: "calls = (r, x) # rest" "rr_mark r = RR_Transmission" "rr_err r = NoError"
    by (cases calls) auto
  obtain t' a where t': "ft_onRequestReply E h r x t = Done (a, t')" "ft_at n (d @ x) t'"
    using ft_chunk(1) [OF Suc(2) calls(3) assms(4) calls(2)] by blast
  from Suc.IH [OF t'(2)] Suc.prems calls t'(1) show ?case by auto
qed

lemma ft_announced:
  assumes "tf_state (ft_info t) = TS_Starting" and "tf_transferred (ft_info t) = 0"
    and "te_fopen E (tf_filename (ft_info t))"
    and "rr_mark r = RR_TransmissionStart" and "rr_err r = NoError" and "rr_range r = mk_range 0 n"
  shows "\<exists>t' a. ft_onRequestReply E h r [] t = Done (a, t') \<and> ft_at n [] t'"
  using assms
  by (auto simp: ft_at_def ft_onRequestReply_def ft_handle_def ft_starting_def ft_transferring_def ft_simps
      Let_def r_length_def)

text \<open>
  C7. A file transfer end to end: its request is answered by the server that shares the file's
  bytes, the replies go through the client's operation table to the transfer, and at the end
  the transfer is finished and has written exactly these bytes, in order.  The id of the
  operation must be in the range of 32 bits, to which the server cuts it, and the file must have
  fewer than \<open>2 ^ 31\<close> chunks of 8192 bytes; the sender has the permission, sends succeed, and the
  file can be opened and written.
\<close>

theorem file_downloaded:
  assumes "map_of (sv_shared s) (Path (path_head (u_path u))) = Some d"
    and "sd_promise d = Some (createPromise (Some data))" and "sv_permits E me (u_path u)"
    and "sv_alloc_ok s" and "int (tr_chunks data) < 2 ^ 31" and "\<And>h m. se_send E h m = NoError"
    and "fits_int32 i" and "ab_ok (cl_ops c)" and "map_of (ab_map (cl_ops c)) i = Some op" and "op_type op = REQUEST"
    and "op_data op = RequestOp cb True (u_path u)"
    and "tf_state (ft_info t) = TS_Starting" and "tf_transferred (ft_info t) = 0"
    and "te_fopen TE (tf_filename (ft_info t))" and "\<And>w x. te_fwrite TE w x = length x"
  shows "\<exists>s1 j s2 msgs calls t'. sv_onRequest E me ((ft_request u)\<lparr>rq_id := i\<rparr>) s = Done s1 \<and>
     sv_continue E j (tr_chunks data) s1 = Done s2 \<and>
     sv_sent s2 = sv_sent s @ map (\<lambda>(r, x). (me, MRequestReply r x)) msgs \<and>
     cl_calls (cl_receive CE srv msgs c) = cl_calls c @ calls \<and> ft_receive TE calls t = Done t' \<and>
     tf_state (ft_info t') = TS_Finished \<and> ft_written t' = data \<and> tf_transferred (ft_info t') = int (length data)"
proof -
  let ?q = "(ft_request u)\<lparr>rq_id := i\<rparr>"
  have q: "rq_path ?q = u_path u" "rq_revision ?q \<le> 0 \<or> rq_revision ?q = sd_revision d" "rq_mark ?q = RQ_Transmission"
    "r_isDefault (rq_range ?q)" "rq_id ?q = i"
    by (simp_all add: ft_request_def new_request_def r_isDefault_def)
  obtain s1 j s2 msgs reply calls where run: "sv_onRequest E me ?q s = Done s1" "sv_continue E j (tr_chunks data) s1 = Done s2"
    "sv_sent s2 = sv_sent s @ map (\<lambda>(r, x). (me, MRequestReply r x)) msgs"
    "cl_calls (cl_receive CE srv msgs c) = cl_calls c @ map (\<lambda>(r, x). CallRequest cb srv r x) ((reply, []) # calls)"
    and calls: "rr_mark reply = RR_TransmissionStart" "rr_err reply = NoError" "rr_range reply = mk_range 0 (int (length data))"
    "map (rr_mark \<circ> fst) calls = replicate (tr_chunks data - 1) RR_Transmission @ [RR_TransmissionFinish]"
    "\<forall>m \<in> set calls. rr_err (fst m) = NoError" "concat (map snd calls) = data"
    using transmission_received [of s ?q d data E me c op cb CE srv] assms(1-11) q by auto
  obtain t1 a where t1: "ft_onRequestReply TE srv reply [] t = Done (a, t1)" "ft_at (int (length data)) [] t1"
    using ft_announced [OF assms(12-14) calls(1-3)] by blast
  obtain t' where "ft_receive TE (map (\<lambda>(r, x). CallRequest cb srv r x) calls) t1 = Done t'"
    "tf_state (ft_info t') = TS_Finished" "ft_written t' = data" "tf_transferred (ft_info t') = int (length data)"
    using ft_chunks [OF t1(2) calls(4,5) assms(15), of cb srv] calls(6) by auto
  then show ?thesis using run t1(1) by fastforce
qed

definition demo_tf_env :: tf_env where
  "demo_tf_env = \<lparr>te_exists = (\<lambda>_. False), te_fopen = (\<lambda>_. True), te_fwrite = (\<lambda>_ x. length x), te_mkdir = (\<lambda>_. NoError),
     te_request = (\<lambda>_ _. NoError), te_decode = (\<lambda>_. None)\<rparr>"

definition demo_file :: file_transfer where
  "demo_file = snd (ft_start demo_tf_env (Uri ''srv'' (Path ''f'') True) ''out'' (ft_new 0))"

lemma demo_file_starting: "tf_state (ft_info demo_file) = TS_Starting" "tf_transferred (ft_info demo_file) = 0"
  by (simp_all add: demo_file_def ft_start_def demo_tf_env_def ft_new_def new_transfer_def)

lemma file_downloaded_witness:
  "\<exists>s1 j s2 msgs calls t'. sv_onRequest demo_sv_env ''me'' ((ft_request (Uri ''srv'' (Path ''f'') True))\<lparr>rq_id := 1\<rparr>)
       (demo_share ''abcde'') = Done s1 \<and> sv_continue demo_sv_env j (tr_chunks ''abcde'') s1 = Done s2 \<and>
     sv_sent s2 = map (\<lambda>(r, x). (''me'', MRequestReply r x)) msgs \<and>
     cl_calls (cl_receive demo_cl_env ''srv'' msgs demo_client) = calls \<and> ft_receive demo_tf_env calls demo_file = Done t' \<and>
     tf_state (ft_info t') = TS_Finished \<and> ft_written t' = ''abcde'' \<and> tf_transferred (ft_info t') = 5"
proof -
  let ?u = "Uri ''srv'' (Path ''f'') True"
  have s: "map_of (sv_shared (demo_share ''abcde'')) (Path (path_head (u_path ?u))) =
      Some \<lparr>sd_promise = Some (createPromise (Some ''abcde'')), sd_revision = 1, sd_subscribers = []\<rparr>"
    "sv_permits demo_sv_env ''me'' (u_path ?u)" "sv_sent (demo_share ''abcde'') = []"
    "\<And>h m. se_send demo_sv_env h m = NoError"
    by (simp_all add: sv_eval)
  have c: "cl_calls demo_client = []" by (simp add: demo_client_eq cl_new_def)
  have env: "te_fopen demo_tf_env (tf_filename (ft_info demo_file))" "\<And>w x. te_fwrite demo_tf_env w x = length x"
    by (simp_all add: demo_tf_env_def)
  show ?thesis
    using file_downloaded [OF s(1) _ s(2) demo_alloc _ s(4) _ demo_client_op _ _ demo_file_starting env, of "''abcde''" 9 demo_cl_env "''srv''"]
    by (simp add: s(3) c new_op_def demo_chunks fits_int32_def)
qed

subsection \<open>Any replies, in any order\<close>

datatype ft_event = FtReply host_id ds_request_reply bytes | FtCancel error

fun ft_run :: "tf_env \<Rightarrow> ft_event list \<Rightarrow> file_transfer \<Rightarrow> file_transfer outcome" where
  "ft_run E [] t = Done t"
| "ft_run E (FtReply h r x # es) t = outcome_bind (ft_onRequestReply E h r x t) (\<lambda>(_, t'). ft_run E es t')"
| "ft_run E (FtCancel e # es) t = ft_run E es (snd (ft_cancel e t))"

definition ft_ok :: "file_transfer \<Rightarrow> bool" where
  "ft_ok t \<longleftrightarrow>
     (tf_state (ft_info t) = TS_Starting \<longrightarrow> tf_transferred (ft_info t) = 0) \<and>
     (tf_state (ft_info t) = TS_Transferring \<longrightarrow>
        ft_open t \<and> tf_transferred (ft_info t) = int (length (ft_written t))) \<and>
     (tf_state (ft_info t) = TS_Finished \<longrightarrow>
        tf_size (ft_info t) = int (length (ft_written t)) \<and> tf_transferred (ft_info t) = tf_size (ft_info t))"

lemma ft_transferring_ok:
  assumes "ft_ok t" and "tf_state (ft_info t) = TS_Transferring"
  shows "\<exists>t'. ft_transferring E r x t = Done t' \<and> ft_ok t'"
  using assms by (auto simp: ft_transferring_def ft_ok_def ft_simps Let_def)

lemma ft_starting_ok:
  assumes "ft_ok t" and "tf_state (ft_info t) = TS_Starting"
  shows "\<exists>t'. ft_starting E r x t = Done t' \<and> ft_ok t'"
proof -
  let ?t = "ft_set TS_Transferring (t\<lparr>ft_info := (ft_info t)\<lparr>tf_desc := rr_desc r, tf_size := r_length (rr_range r)\<rparr>,
    ft_open := True, ft_written := []\<rparr>)"
  have "ft_ok ?t" "tf_state (ft_info ?t) = TS_Transferring" using assms by (simp_all add: ft_ok_def ft_set_def)
  from ft_transferring_ok [OF this, of E r x] assms show ?thesis
    by (auto simp: ft_starting_def Let_def ft_ok_def ft_set_def)
qed

lemma ft_cleanup_ok: "ft_ok t \<Longrightarrow> tf_state (ft_info t) \<noteq> TS_Transferring \<Longrightarrow> ft_ok (ft_cleanup t)"
  by (simp add: ft_ok_def ft_cleanup_def)

lemma ft_reply_ok: "ft_ok t \<Longrightarrow> \<exists>a t'. ft_onRequestReply E h r x t = Done (a, t') \<and> ft_ok t'"
proof -
  assume ok: "ft_ok t"
  define t1 where "t1 = (if rr_mark r = RR_TransmissionCancel then ft_set TS_Canceled t else t)"
  define t2 where "t2 = (if ft_id t1 = 0 then t1\<lparr>ft_id := rr_id r\<rparr> else t1)"
  have t2: "ft_ok t2" using ok by (simp add: t2_def t1_def ft_ok_def ft_set_def)
  have "\<exists>t'. ft_handle E r x t = Done t' \<and> ft_ok t'"
  proof (cases "failed (rr_err r) \<or> tf_state (ft_info t2) = TS_Canceled")
    case True
    then show ?thesis using ok t2
      by (auto simp: ft_handle_def t1_def [symmetric] t2_def [symmetric] Let_def)
        (auto simp: ft_ok_def ft_simps)
  next
    case False
    obtain t3 where "(case tf_state (ft_info t2) of TS_Starting \<Rightarrow> ft_starting E r x t2
        | TS_Transferring \<Rightarrow> ft_transferring E r x t2 | _ \<Rightarrow> Done t2) = Done t3" "ft_ok t3"
      using ft_starting_ok [OF t2, of E r x] ft_transferring_ok [OF t2, of E r x] t2 by (cases "tf_state (ft_info t2)") auto
    then have "ft_handle E r x t = Done (if tf_ended (ft_info t3) then ft_cleanup t3 else t3)"
      unfolding ft_handle_def Let_def t1_def [symmetric] t2_def [symmetric] using False by simp
    then show ?thesis using \<open>ft_ok t3\<close> by (auto simp: tf_ended_def intro!: ft_cleanup_ok)
  qed
  then show ?thesis by (auto simp: ft_onRequestReply_def)
qed

lemma ft_cancel_ok: "ft_ok t \<Longrightarrow> ft_ok (snd (ft_cancel e t))"
  by (simp add: ft_cancel_def ft_ok_def Let_def errorState_def)

text \<open>
  C9. Whatever replies arrive and whenever it is cancelled, a file transfer never writes to a
  file it has not opened and fails no assertion; and if it says that it is finished, the file
  has exactly the size that was announced.
\<close>

theorem file_finished_complete:
  assumes "ft_start E u f (ft_new parent) = (NoError, t)"
  shows "\<exists>t'. ft_run E es t = Done t' \<and>
     (tf_state (ft_info t') = TS_Transferring \<longrightarrow> ft_open t') \<and>
     (tf_state (ft_info t') = TS_Finished \<longrightarrow> int (length (ft_written t')) = tf_size (ft_info t'))"
proof -
  have run: "\<exists>t'. ft_run E es t = Done t' \<and> ft_ok t'" if "ft_ok t" for t
    using that
  proof (induction es arbitrary: t)
    case (Cons e es)
    show ?case
    proof (cases e)
      case (FtReply h r x)
      then show ?thesis using ft_reply_ok [OF Cons.prems, of E h r x] Cons.IH by auto
    next
      case (FtCancel c)
      then show ?thesis using Cons.IH [OF ft_cancel_ok [OF Cons.prems]] by simp
    qed
  qed simp
  have "ft_ok t" using assms by (auto simp: ft_start_def ft_new_def new_transfer_def ft_ok_def Let_def split: if_splits)
  from run [OF this] show ?thesis by (auto simp: ft_ok_def)
qed

lemma file_finished_complete_witness:
  "\<exists>t'. ft_run demo_tf_env [FtReply ''srv'' (new_request_reply\<lparr>rr_mark := RR_Transmission\<rparr>) ''x'', FtCancel NoError] demo_file = Done t' \<and>
     (tf_state (ft_info t') = TS_Transferring \<longrightarrow> ft_open t') \<and>
     (tf_state (ft_info t') = TS_Finished \<longrightarrow> int (length (ft_written t')) = tf_size (ft_info t'))"
  by (rule file_finished_complete [of _ "Uri ''srv'' (Path ''f'') True" "''out''" 0])
    (simp add: demo_file_def ft_start_def demo_tf_env_def Let_def)

end
