(* ===== verification/Sf_DirTransfer.thy ===== *)
theory Sf_DirTransfer
  imports Sf_TransferProps
begin

text \<open>
  Directory transfers: the listing arrives in pieces, is decoded, and \<open>nextTransfer\<close> hands out
  one file after the other, making the directories on its way.
\<close>

definition not_file :: "string \<times> rec_entry \<Rightarrow> bool" where
  "not_file x \<longleftrightarrow> \<not> is_file x"

definition found_at :: "string \<Rightarrow> (string \<times> rec_entry) list \<Rightarrow> dt_found" where
  "found_at dir l = (case l of [] \<Rightarrow> AtEnd | (p, e) # _ \<Rightarrow> AtFile p (dt_destination dir p) (re_size e))"

lemma dt_seek_found:
  assumes "it_ok st" and "\<And>d. te_mkdir E d = NoError"
  shows "\<exists>it. dt_seek E dir st = Some (Done (found_at dir (it_rest it),
       map (dt_destination dir \<circ> fst) (takeWhile not_file (it_rest st)), it)) \<and>
     it_ok it \<and> it_rest it = dropWhile not_file (it_rest st)"
  using assms(1)
proof (induction "length (it_rest st)" arbitrary: st)
  case 0
  then have "st = []" by (simp add: it_rest_Nil)
  then show ?case by (simp add: dt_seek.simps it_rest_def found_at_def)
next
  case (Suc n)
  then have ne: "st \<noteq> []" by (auto simp: it_rest_def)
  from ne Suc.prems obtain e p st' where st: "it_deref st = Done e" "it_path st = Done p" "it_next st = Done st'"
    "it_ok st'" "it_rest st = (p, e) # it_rest st'" by (rule it_next_rest)
  show ?case
  proof (cases "re_type e = EDirectory")
    case True
    then obtain it where "dt_seek E dir st' = Some (Done (found_at dir (it_rest it),
        map (dt_destination dir \<circ> fst) (takeWhile not_file (it_rest st')), it))" "it_ok it"
      "it_rest it = dropWhile not_file (it_rest st')"
      using Suc.hyps(1) [of st'] Suc.hyps(2) st(4,5) by auto
    then show ?thesis using True st ne by (subst dt_seek.simps) (simp add: assms(2) not_file_def is_file_def)
  next
    case False
    then show ?thesis using st ne Suc.prems
      by (subst dt_seek.simps) (cases "re_type e", simp_all add: not_file_def is_file_def found_at_def)
  qed
qed

text \<open>The tasks a transfer from \<open>u\<close> into \<open>dir\<close> is expected to hand out.\<close>

definition dt_task :: "uri \<Rightarrow> string \<Rightarrow> string \<times> rec_entry \<Rightarrow> transfer_task" where
  "dt_task u dir x = (uri_make (u_host u) (path_plus (u_path u) (Path (fst x))), dt_destination dir (fst x))"

definition dt_at :: "(string \<times> rec_entry) list \<Rightarrow> dir_transfer \<Rightarrow> bool" where
  "dt_at l t \<longleftrightarrow> (tf_state (dt_info t) = TS_TransferredListing \<or> tf_state (dt_info t) = TS_PendingFiles) \<and>
     it_ok (dt_iter t) \<and> filter is_file (it_rest (dt_iter t)) = l"

lemma filter_after_skip: "filter is_file l = filter is_file (dropWhile not_file l)"
  by (induction l) (auto simp: not_file_def)

lemma dropWhile_not_file: "dropWhile not_file l = [] \<longleftrightarrow> filter is_file l = []"
  "dropWhile not_file l = x # k \<Longrightarrow> is_file x \<and> filter is_file l = x # filter is_file k"
  by (induction l) (auto simp: not_file_def split: if_splits)

lemma dt_next_file:
  assumes at: "dt_at (x # l) t" and mk: "\<And>d. te_mkdir E d = NoError"
  shows "\<exists>made t'. dt_nextTransfer E t =
       Some (Done (NoError, Some (dt_task (dt_uri t) (tf_filename (dt_info t)) x), made, [PostStateChanged], t')) \<and>
     dt_at l t' \<and> dt_uri t' = dt_uri t \<and> tf_filename (dt_info t') = tf_filename (dt_info t) \<and>
     tf_size (dt_info t') = tf_size (dt_info t) \<and>
     tf_transferred (dt_info t') = tf_transferred (dt_info t) + re_size (snd x)"
proof -
  let ?dir = "tf_filename (dt_info t)"
  obtain it where it: "dt_seek E ?dir (dt_iter t) = Some (Done (found_at ?dir (it_rest it),
      map (dt_destination ?dir \<circ> fst) (takeWhile not_file (it_rest (dt_iter t))), it))" "it_ok it"
    "it_rest it = dropWhile not_file (it_rest (dt_iter t))"
    using dt_seek_found [where E = E, OF _ mk] at unfolding dt_at_def by blast
  have "it_rest it \<noteq> []" using at by (simp only: it(3) dropWhile_not_file(1) dt_at_def) simp
  then have "it \<noteq> []" by (auto simp: it_rest_def)
  from this it(2) obtain e p it' where it': "it_deref it = Done e" "it_path it = Done p" "it_next it = Done it'"
    "it_ok it'" "it_rest it = (p, e) # it_rest it'" by (rule it_next_rest)
  have "(p, e) = x" "filter is_file (it_rest it') = l"
    using dropWhile_not_file(2) [of "it_rest (dt_iter t)" "(p, e)" "it_rest it'"] it(3) it'(5) at by (simp_all add: dt_at_def)
  moreover have "dt_seek E ?dir (dt_iter t) = Some (Done (AtFile p (dt_destination ?dir p) (re_size e),
      map (dt_destination ?dir \<circ> fst) (takeWhile not_file (it_rest (dt_iter t))), it))"
    using it(1) unfolding it'(5) by (simp add: found_at_def)
  moreover have "tf_state (dt_info t) \<noteq> TS_Finished"
    "tf_state (dt_info (if tf_state (dt_info t) = TS_TransferredListing then dt_set TS_PendingFiles t else t)) = TS_PendingFiles"
    using at by (auto simp: dt_at_def dt_set_def)
  ultimately show ?thesis using it'(3,4)
    by (auto simp: dt_nextTransfer_def Let_def dt_set_def dt_task_def dt_at_def)
qed

lemma dt_next_none:
  assumes at: "dt_at [] t" and mk: "\<And>d. te_mkdir E d = NoError"
  shows "\<exists>made t'. dt_nextTransfer E t = Some (Done (Eof, None, made, [PostStateChanged], t')) \<and>
     tf_state (dt_info t') = TS_Finished \<and> tf_size (dt_info t') = tf_size (dt_info t) \<and>
     tf_transferred (dt_info t') = tf_transferred (dt_info t)"
proof -
  let ?dir = "tf_filename (dt_info t)"
  obtain it where it: "dt_seek E ?dir (dt_iter t) = Some (Done (found_at ?dir (it_rest it),
      map (dt_destination ?dir \<circ> fst) (takeWhile not_file (it_rest (dt_iter t))), it))" "it_ok it"
    "it_rest it = dropWhile not_file (it_rest (dt_iter t))"
    using dt_seek_found [where E = E, OF _ mk] at unfolding dt_at_def by blast
  have none: "it_rest it = []" using at by (simp only: it(3) dropWhile_not_file(1) dt_at_def)
  have "dt_seek E ?dir (dt_iter t) = Some (Done (AtEnd,
      map (dt_destination ?dir \<circ> fst) (takeWhile not_file (it_rest (dt_iter t))), it))"
    using it(1) unfolding none by (simp add: found_at_def)
  moreover have "tf_state (dt_info t) \<noteq> TS_Finished"
    "tf_state (dt_info (if tf_state (dt_info t) = TS_TransferredListing then dt_set TS_PendingFiles t else t)) = TS_PendingFiles"
    using at by (auto simp: dt_at_def dt_set_def)
  ultimately show ?thesis by (auto simp: dt_nextTransfer_def Let_def dt_set_def)
qed

subsection \<open>The whole directory\<close>

text \<open>The replies with the listing, then the given number of calls of \<open>nextTransfer\<close>.\<close>

fun dt_receive :: "tf_env \<Rightarrow> host_id \<Rightarrow> (ds_request_reply \<times> bytes) list \<Rightarrow> dir_transfer \<Rightarrow> dir_transfer outcome" where
  "dt_receive E h [] t = Done t"
| "dt_receive E h ((r, x) # rs) t =
     outcome_bind (dt_onRequestReply E h r x t) (\<lambda>(_, t'). dt_receive E h rs t')"

fun dt_tasks :: "tf_env \<Rightarrow> nat \<Rightarrow> dir_transfer \<Rightarrow> (transfer_task list \<times> dir_transfer) outcome option" where
  "dt_tasks E 0 t = Some (Done ([], t))"
| "dt_tasks E (Suc n) t =
     (case dt_nextTransfer E t of
        Some (Done (NoError, Some task, _, _, t')) \<Rightarrow>
          Option.bind (dt_tasks E n t') (\<lambda>r. Some (outcome_bind r (\<lambda>(ts, t2). Done (task # ts, t2))))
      | _ \<Rightarrow> None)"

lemma dt_tasks_all:
  assumes mk: "\<And>d. te_mkdir E d = NoError"
  shows "dt_at l t \<Longrightarrow> \<exists>t'. dt_tasks E (length l) t =
       Some (Done (map (dt_task (dt_uri t) (tf_filename (dt_info t))) l, t')) \<and>
     dt_at [] t' \<and> tf_size (dt_info t') = tf_size (dt_info t) \<and>
     tf_transferred (dt_info t') = tf_transferred (dt_info t) + files_size l"
proof (induction l arbitrary: t)
  case (Cons x l)
  obtain made t1 where t1: "dt_nextTransfer E t =
      Some (Done (NoError, Some (dt_task (dt_uri t) (tf_filename (dt_info t)) x), made, [PostStateChanged], t1))"
    "dt_at l t1" "dt_uri t1 = dt_uri t" "tf_filename (dt_info t1) = tf_filename (dt_info t)"
    "tf_size (dt_info t1) = tf_size (dt_info t)" "tf_transferred (dt_info t1) = tf_transferred (dt_info t) + re_size (snd x)"
    using dt_next_file [OF Cons.prems mk] by blast
  have "x \<in> set (filter is_file (it_rest (dt_iter t)))" using Cons.prems by (simp add: dt_at_def)
  then have "is_file x" by simp
  then show ?case using Cons.IH [OF t1(2)] t1 by auto
qed simp

definition dt_listing_at :: "bytes \<Rightarrow> dir_transfer \<Rightarrow> bool" where
  "dt_listing_at d t \<longleftrightarrow> tf_state (dt_info t) = TS_Transferring \<and> dt_listingData t = d"

lemma dt_chunk:
  assumes "dt_listing_at d t" and "rr_err r = NoError"
  shows "rr_mark r = RR_Transmission \<Longrightarrow>
       \<exists>a t'. dt_onRequestReply E h r x t = Done (a, t') \<and> dt_listing_at (d @ x) t' \<and> dt_uri t' = dt_uri t \<and>
         tf_filename (dt_info t') = tf_filename (dt_info t)"
    "rr_mark r = RR_TransmissionFinish \<Longrightarrow> te_decode E (d @ x) = Some es \<Longrightarrow>
       \<exists>a t'. dt_onRequestReply E h r x t = Done (a, t') \<and> dt_at (filter is_file (walk [] es)) t' \<and> dt_uri t' = dt_uri t \<and>
         tf_filename (dt_info t') = tf_filename (dt_info t) \<and>
         tf_size (dt_info t') = sizeSum es \<and> tf_transferred (dt_info t') = 0"
  using assms
  by (auto simp: dt_listing_at_def dt_at_def dt_onRequestReply_def dt_handle_def dt_transferring_def
      strange_mark_def Let_def it_begin_rest it_begin_ok)

lemma dt_chunks:
  assumes "dt_listing_at d t" and "map (rr_mark \<circ> fst) rs = replicate k RR_Transmission @ [RR_TransmissionFinish]"
    and "\<forall>m \<in> set rs. rr_err (fst m) = NoError" and "te_decode E (d @ concat (map snd rs)) = Some es"
  shows "\<exists>t'. dt_receive E h rs t = Done t' \<and> dt_at (filter is_file (walk [] es)) t' \<and> dt_uri t' = dt_uri t \<and>
     tf_filename (dt_info t') = tf_filename (dt_info t) \<and> tf_size (dt_info t') = sizeSum es \<and> tf_transferred (dt_info t') = 0"
  using assms
proof (induction k arbitrary: d t rs)
  case 0
  then obtain r x where "rs = [(r, x)]" "rr_mark r = RR_TransmissionFinish" "rr_err r = NoError"
    by (cases rs) auto
  then show ?case using dt_chunk(2) [OF 0(1), of r E x es h] 0(4) by auto
next
  case (Suc k)
  then obtain r x rest where rs: "rs = (r, x) # rest" "rr_mark r = RR_Transmission" "rr_err r = NoError"
    by (cases rs) auto
  obtain a t' where t': "dt_onRequestReply E h r x t = Done (a, t')" "dt_listing_at (d @ x) t'" "dt_uri t' = dt_uri t"
    "tf_filename (dt_info t') = tf_filename (dt_info t)"
    using dt_chunk(1) [OF Suc(2) rs(3,2)] by blast
  from Suc.IH [OF t'(2)] Suc.prems rs t' show ?case by auto
qed

text \<open>
  C14. A directory download: when the pieces of the encoded listing have arrived in order behind
  their announcement, as many calls of \<open>nextTransfer\<close> as the listing has files hand out exactly
  these files, each once, with their paths below the requested uri and below the destination
  directory; the next call says that nothing is left, and the transfer is then finished with
  the sum of the sizes as its count of transferred bytes.
\<close>

theorem directory_handed_out:
  assumes "dt_start E u dir dt_new = (NoError, t)" and "\<And>d. te_mkdir E d = NoError"
    and "rr_mark r = RR_TransmissionStart" and "rr_err r = NoError" and "r_from (rr_range r) = 0"
    and "map (rr_mark \<circ> fst) rs = replicate k RR_Transmission @ [RR_TransmissionFinish]"
    and "\<forall>m \<in> set rs. rr_err (fst m) = NoError" and "te_decode E (concat (map snd rs)) = Some es"
    and "files = filter is_file (walk [] es)"
  shows "\<exists>t1 t2 t3 made acts. dt_receive E h ((r, []) # rs) t = Done t1 \<and>
     dt_tasks E (length files) t1 = Some (Done (map (dt_task u dir) files, t2)) \<and>
     dt_nextTransfer E t2 = Some (Done (Eof, None, made, acts, t3)) \<and>
     tf_state (dt_info t3) = TS_Finished \<and> tf_transferred (dt_info t3) = sizeSum es \<and> tf_size (dt_info t3) = sizeSum es"
proof -
  have t: "tf_state (dt_info t) = TS_Starting" "tf_transferred (dt_info t) = 0" "dt_listingData t = []"
    "dt_uri t = u" "tf_filename (dt_info t) = dir"
    using assms(1) by (auto simp: dt_start_def dt_new_def new_transfer_def Let_def split: if_splits)
  obtain a t0 where t0: "dt_onRequestReply E h r [] t = Done (a, t0)" "dt_listing_at [] t0" "dt_uri t0 = u"
    "tf_filename (dt_info t0) = dir"
    using t assms(3-5)
    by (auto simp: dt_onRequestReply_def dt_handle_def dt_starting_def dt_transferring_def strange_mark_def
        Let_def dt_listing_at_def)
  obtain t1 where t1: "dt_receive E h rs t0 = Done t1" "dt_at files t1" "dt_uri t1 = u" "tf_filename (dt_info t1) = dir"
    "tf_size (dt_info t1) = sizeSum es" "tf_transferred (dt_info t1) = 0"
    using dt_chunks [OF t0(2) assms(6,7), of E es h] assms(8,9) t0 by auto
  obtain t2 where t2: "dt_tasks E (length files) t1 = Some (Done (map (dt_task u dir) files, t2))" "dt_at [] t2"
    "tf_size (dt_info t2) = sizeSum es" "tf_transferred (dt_info t2) = files_size files"
    using dt_tasks_all [OF assms(2) t1(2)] t1(3-6) by auto
  have "files_size files = sizeSum es" using sizeSum_walk [of es "[]"] by (simp add: assms(9) files_size_def)
  moreover have "dt_receive E h ((r, []) # rs) t = Done t1" using t0(1) t1(1) by simp
  ultimately show ?thesis using dt_next_none [OF t2(2) assms(2)] t2 by metis
qed

definition demo_dir_env :: tf_env where
  "demo_dir_env = demo_tf_env\<lparr>te_decode :=
     (\<lambda>_. Some [RecEntry ''a'' EFile 3 [], RecEntry ''d'' EDirectory 0 [RecEntry ''b'' EFile 4 [], RecEntry ''e'' EDirectory 0 []]])\<rparr>"

lemma directory_handed_out_witness:
  "\<exists>t1 t2 made acts t3. dt_receive demo_dir_env ''srv''
       [(new_request_reply\<lparr>rr_mark := RR_TransmissionStart\<rparr>, []), (new_request_reply\<lparr>rr_mark := RR_TransmissionFinish\<rparr>, ''{}'')]
       (snd (dt_start demo_dir_env (Uri ''srv'' (Path ''f'') True) ''out'' dt_new)) = Done t1 \<and>
     dt_tasks demo_dir_env 2 t1 = Some (Done (map (dt_task (Uri ''srv'' (Path ''f'') True) ''out'')
       [(''a'', RecEntry ''a'' EFile 3 []), (''d/b'', RecEntry ''b'' EFile 4 [])], t2)) \<and>
     dt_nextTransfer demo_dir_env t2 = Some (Done (Eof, None, made, acts, t3)) \<and> tf_transferred (dt_info t3) = 7"
proof -
  let ?r = "new_request_reply\<lparr>rr_mark := RR_TransmissionStart\<rparr>"
    and ?rs = "[(new_request_reply\<lparr>rr_mark := RR_TransmissionFinish\<rparr>, ''{}'')]" and ?u = "Uri ''srv'' (Path ''f'') True"
    and ?es = "[RecEntry ''a'' EFile 3 [], RecEntry ''d'' EDirectory 0 [RecEntry ''b'' EFile 4 [], RecEntry ''e'' EDirectory 0 []]]"
    and ?files = "[(''a'', RecEntry ''a'' EFile 3 []), (''d/b'', RecEntry ''b'' EFile 4 [])]"
  have "dt_start demo_dir_env ?u ''out'' dt_new = (NoError, snd (dt_start demo_dir_env ?u ''out'' dt_new))"
    by (simp add: dt_start_def demo_dir_env_def demo_tf_env_def Let_def)
  moreover have "\<And>d. te_mkdir demo_dir_env d = NoError" "te_decode demo_dir_env (concat (map snd ?rs)) = Some ?es"
    by (simp_all add: demo_dir_env_def demo_tf_env_def)
  moreover have "?files = filter is_file (walk [] ?es)" by (simp add: is_file_def)
  moreover have "rr_err ?r = NoError" "r_from (rr_range ?r) = 0" "\<forall>m \<in> set ?rs. rr_err (fst m) = NoError"
    "map (rr_mark \<circ> fst) ?rs = replicate 0 RR_Transmission @ [RR_TransmissionFinish]"
    by (simp_all add: new_request_reply_def)
  moreover have "rr_mark ?r = RR_TransmissionStart" "length ?files = 2" "sizeSum ?es = 7" by simp_all
  ultimately show ?thesis by (metis directory_handed_out)
qed

text \<open>
  The names in a listing come from the other host and are not checked: an entry that climbs
  with \<open>..\<close> is handed out with a destination outside the directory of the transfer.
\<close>

lemma listing_leaves_directory:
  assumes "dt_at ((''../.profile'', e) # l) t" and "tf_filename (dt_info t) = ''out''" and "\<And>d. te_mkdir E d = NoError"
  shows "\<exists>u made acts t'. dt_nextTransfer E t = Some (Done (NoError, Some (u, ''out/../.profile''), made, acts, t'))"
  using dt_next_file [OF assms(1,3)] assms(2) by (auto simp: dt_task_def dt_destination_def)

text \<open>A finished directory transfer that is cancelled is a cancelled one.\<close>

lemma finished_directory_cancelled:
  "tf_state (dt_info t) = TS_Finished \<Longrightarrow> tf_state (dt_info (snd (dt_cancel NoError t))) = TS_Canceled"
  by (simp add: dt_cancel_def)

end
