(* ===== verification/Sf_Promises.thy ===== *)
theory Sf_Promises
  imports Sf_Listing Sf_DSServer
begin

text \<open>
  What shared files and directories are served from:
  \<open>libflocke/flocke/filesharing/file_io/FileSharingPromise\<close>, \<open>GlobPromise\<close> and
  \<open>DirectorySharingPromise\<close>, and the check of \<open>tools/FileTools\<close> for dangerous paths.
\<close>

subsection \<open>Files\<close>

record file_promise =
  fp_name :: string
  fp_size :: int
  fp_position :: int
  fp_file :: "bytes option"
  fp_error :: error

definition fp_new :: "file_system \<Rightarrow> string \<Rightarrow> file_promise" where
  "fp_new F name =
     (let p = \<lparr>fp_name = name, fp_size = 0, fp_position = 0, fp_file = None, fp_error = NoError\<rparr>
      in if \<not> fs_exists F name then p\<lparr>fp_error := NotFound\<rparr>
         else if \<not> fs_isRegular F name then p\<lparr>fp_error := InvalidArgument\<rparr>
         else p\<lparr>fp_size := fs_fileSize F name\<rparr>)"

definition fp_openFile :: "file_system \<Rightarrow> file_promise \<Rightarrow> file_promise" where
  "fp_openFile F p =
     (if failed (fp_error p) \<or> fp_file p \<noteq> None then p
      else
        (case fs_content F (fp_name p) of
           None \<Rightarrow> p\<lparr>fp_error := ReadError\<rparr>
         | Some c \<Rightarrow> p\<lparr>fp_file := Some c, fp_position := 0\<rparr>))"

text \<open>
  The destination is resized before it is filled, so a short read leaves zeros at its end; an
  error stays for all later reads.
\<close>

definition fp_read :: "file_system \<Rightarrow> ds_range \<Rightarrow> file_promise \<Rightarrow> (error \<times> bytes \<times> file_promise) outcome" where
  "fp_read F r p0 =
     (let p = (if fp_file p0 = None \<and> \<not> failed (fp_error p0) then fp_openFile F p0 else p0)
      in if failed (fp_error p) then Done (fp_error p, [], p)
         else
           (case fp_file p of
              None \<Rightarrow> Fault NullDeref
            | Some c \<Rightarrow>
                if r_length r < 0 \<or> r_from r < 0 then Fault OutOfBounds
                else
                  let p1 = p\<lparr>fp_position := r_from r\<rparr>; n = nat (r_length r)
                  in if n = 0 then Done (NoError, [], p1)
                     else
                       let got = take n (drop (nat (r_from r)) c);
                           e = (if length got \<noteq> n then ReadError else NoError)
                       in Done (e, got @ replicate (n - length got) (CHR 0x00),
                                p1\<lparr>fp_error := e, fp_position := fp_position p1 + int (length got)\<rparr>)))"

text \<open>The promise as the server sees it, each read as the first one.\<close>

definition file_data_promise :: "file_system \<Rightarrow> string \<Rightarrow> data_promise" where
  "file_data_promise F name =
     \<lparr>dp_ready = True,
      dp_read = (\<lambda>r. outcome_bind (fp_read F r (fp_new F name)) (\<lambda>(e, d, _). Done (e, d))),
      dp_size = fp_size (fp_new F name), dp_desc = no_desc\<rparr>"

fun fp_reads :: "file_system \<Rightarrow> ds_range list \<Rightarrow> file_promise \<Rightarrow> (error \<times> bytes) list outcome" where
  "fp_reads F [] p = Done []"
| "fp_reads F (r # rs) p =
     outcome_bind (fp_read F r p) (\<lambda>(e, d, p'). outcome_bind (fp_reads F rs p') (\<lambda>l. Done ((e, d) # l)))"

fun dp_reads :: "data_promise \<Rightarrow> ds_range list \<Rightarrow> (error \<times> bytes) list outcome" where
  "dp_reads p [] = Done []"
| "dp_reads p (r # rs) = outcome_bind (dp_read p r) (\<lambda>x. outcome_bind (dp_reads p rs) (\<lambda>l. Done (x # l)))"

lemma fp_read_slice:
  assumes "fp_file p = Some c \<or> fp_file p = None \<and> fs_content F (fp_name p) = Some c" and "fp_error p = NoError"
    and "r_inRange r (mk_range 0 (int (length c)))"
  shows "\<exists>p'. fp_read F r p = Done (NoError, take (nat (r_length r)) (drop (nat (r_from r)) c), p') \<and>
     fp_file p' = Some c \<and> fp_error p' = NoError"
  using assms by (auto simp: fp_read_def fp_openFile_def r_inRange_def r_isValid_def r_length_def Let_def)

text \<open>
  C39. A shared file is served like the same bytes in memory: for a regular file that does not
  change, any sequence of reads inside its size, in any order, gives what the same reads of a
  \<open>ByteArrayPromise\<close> of its content give.
\<close>

theorem file_promise_serves:
  assumes "fs_exists F name" and "fs_isRegular F name" and "fs_content F name = Some c"
    and "fs_fileSize F name = int (length c)" and "\<forall>r \<in> set rs. r_inRange r (mk_range 0 (dp_size (byteArrayPromise c no_desc)))"
  shows "fp_reads F rs (fp_new F name) = dp_reads (byteArrayPromise c no_desc) rs \<and>
     dp_size (file_data_promise F name) = dp_size (byteArrayPromise c no_desc)"
proof -
  have "fp_reads F rs p = dp_reads (byteArrayPromise c no_desc) rs"
    if "fp_file p = Some c \<or> fp_file p = None \<and> fs_content F (fp_name p) = Some c" "fp_error p = NoError" for p
    using that assms(5)
  proof (induction rs arbitrary: p)
    case (Cons r rs)
    have r: "r_inRange r (mk_range 0 (int (length c)))" using Cons.prems(3) by (simp add: byteArrayPromise_def)
    obtain p' where p': "fp_read F r p = Done (NoError, take (nat (r_length r)) (drop (nat (r_from r)) c), p')"
      "fp_file p' = Some c" "fp_error p' = NoError"
      using fp_read_slice [OF Cons.prems(1,2) r] by blast
    have "dp_read (byteArrayPromise c no_desc) r = Done (NoError, take (nat (r_length r)) (drop (nat (r_from r)) c))"
      using r by (simp add: byteArrayPromise_def byteArrayRead_def r_inRange_def r_isValid_def r_length_def)
    then show ?case using Cons.IH [of p'] Cons.prems(3) p' by simp
  qed simp
  moreover have "fp_file (fp_new F name) = None" "fp_name (fp_new F name) = name" "fp_error (fp_new F name) = NoError"
    "fp_size (fp_new F name) = int (length c)"
    using assms(1,2,4) by (simp_all add: fp_new_def Let_def)
  ultimately show ?thesis using assms(3) by (simp add: file_data_promise_def byteArrayPromise_def)
qed

definition demo_files :: file_system where
  "demo_files = \<lparr>fs_exists = (\<lambda>_. True), fs_isDirectory = (\<lambda>d. d = ''dir''), fs_isSymlink = (\<lambda>_. False),
     fs_isRegular = (\<lambda>d. d \<noteq> ''dir''), fs_fileSize = (\<lambda>_. 5), fs_content = (\<lambda>_. Some ''abcde''),
     fs_iterate = (\<lambda>_. Some [(''f'', IsFile 5)])\<rparr>"

lemma file_promise_serves_witness:
  "fp_reads demo_files [mk_range 3 5, mk_range 0 2] (fp_new demo_files ''f'') =
     dp_reads (byteArrayPromise ''abcde'' no_desc) [mk_range 3 5, mk_range 0 2]"
  using file_promise_serves [of demo_files "''f''" "''abcde''" "[mk_range 3 5, mk_range 0 2]"]
  by (simp add: demo_files_def byteArrayPromise_def r_inRange_def r_isValid_def)

text \<open>A read past the end poisons the promise: what could be read before no longer can.\<close>

lemma short_read_stays:
  assumes "fp_file p = Some c" and "fp_error p = NoError" and "r_from r = 0" and "int (length c) < r_to r"
  shows "\<exists>d p'. fp_read F r p = Done (ReadError, d, p') \<and> fp_read F q p' = Done (ReadError, [], p')"
  using assms by (auto simp: fp_read_def r_length_def Let_def)

subsection \<open>Recursive listings\<close>

record glob_promise =
  gp_ready :: bool
  gp_error :: error
  gp_data :: bytes

definition gp_new :: "error \<Rightarrow> glob_promise" where
  "gp_new e = \<lparr>gp_ready = failed e, gp_error = e, gp_data = []\<rparr>"

definition gp_onGlobResult :: "(rec_entry list \<Rightarrow> bytes) \<Rightarrow> error \<Rightarrow> rec_entry list option \<Rightarrow> glob_promise \<Rightarrow> glob_promise outcome" where
  "gp_onGlobResult encode e listing p =
     (let p1 = p\<lparr>gp_error := e, gp_ready := True\<rparr>
      in if failed e then Done p1
         else (case listing of None \<Rightarrow> Fault NullDeref | Some l \<Rightarrow> Done (p1\<lparr>gp_data := encode l\<rparr>)))"

definition gp_size :: "glob_promise \<Rightarrow> int" where
  "gp_size p = (if \<not> gp_ready p \<or> failed (gp_error p) then -1 else int (length (gp_data p)))"

definition gp_read :: "ds_range \<Rightarrow> glob_promise \<Rightarrow> (error \<times> bytes) outcome" where
  "gp_read rng p =
     (if \<not> gp_ready p then Fault AssertFailed
      else if failed (gp_error p) then Done (gp_error p, [])
      else if \<not> r_isValid rng then Done (InvalidArgument, [])
      else
        let size = int (length (gp_data p)); r = r_clipTo rng (mk_range 0 size)
        in Done (if r_to r = size then Eof else NoError,
                 take (nat (r_to r - r_from r)) (drop (nat (r_from r)) (gp_data p))))"

definition glob_data_promise :: "glob_promise \<Rightarrow> data_promise" where
  "glob_data_promise p = \<lparr>dp_ready = gp_ready p, dp_read = (\<lambda>r. gp_read r p), dp_size = gp_size p, dp_desc = no_desc\<rparr>"

text \<open>Reading window after window until the end is reported gives the whole text.\<close>

lemma gp_window:
  assumes "gp_ready p" and "gp_error p = NoError" and "m \<le> length (gp_data p)"
  shows "gp_read (mk_range (int m) (int (m + n))) p =
    Done (if length (gp_data p) \<le> m + n then Eof else NoError, take n (drop m (gp_data p)))"
  using assms by (auto simp: gp_read_def r_isValid_def r_clipTo_def r_clip_def Let_def)

subsection \<open>Directories\<close>

definition has_infix :: "string \<Rightarrow> string \<Rightarrow> bool" where
  "has_infix pattern s \<longleftrightarrow> str_search pattern s \<noteq> None"

definition checkDangerousPath :: "string \<Rightarrow> bool" where
  "checkDangerousPath p \<longleftrightarrow> has_infix ''/../'' p \<or> has_infix [CHR 0x5C, CHR ''.'', CHR ''.'', CHR 0x5C] p"

record dir_promise =
  dsp_dirName :: string
  dsp_error :: error

definition dsp_new :: "file_system \<Rightarrow> string \<Rightarrow> dir_promise" where
  "dsp_new F dirName =
     (if \<not> fs_exists F dirName then \<lparr>dsp_dirName = [], dsp_error = NotFound\<rparr>
      else \<lparr>dsp_dirName = dirName, dsp_error = (if \<not> fs_isDirectory F dirName then InvalidArgument else NoError)\<rparr>)"

definition dsp_osPath :: "path \<Rightarrow> dir_promise \<Rightarrow> string" where
  "dsp_osPath subPath p = dsp_dirName p @ gDirectoryDelimiter @ mPath subPath"

datatype served = ServeListing "dir_entry list" | ServeFile string | ServeGlob string

definition dsp_listing :: "file_system \<Rightarrow> path \<Rightarrow> dir_promise \<Rightarrow> served option" where
  "dsp_listing F sub p =
     (case listDirectory F (dsp_osPath sub p) of (e, es) \<Rightarrow> if failed e then None else Some (ServeListing es))"

definition dsp_subFile :: "path \<Rightarrow> dir_promise \<Rightarrow> served option" where
  "dsp_subFile sub p = (if failed (dsp_error p) then None else Some (ServeFile (dsp_osPath sub p)))"

text \<open>\<open>data\<close>: a path that looks dangerous is reported in the log, and served like any other.\<close>

definition dsp_data :: "file_system \<Rightarrow> path \<Rightarrow> string \<Rightarrow> dir_promise \<Rightarrow> served option" where
  "dsp_data F subPath user p =
     (if user = [] then
        (case dsp_listing F subPath p of Some x \<Rightarrow> Some x | None \<Rightarrow> dsp_subFile subPath p)
      else if user = ''list'' then dsp_listing F subPath p
      else if user = ''file'' then dsp_subFile subPath p
      else if user = ''glob'' then Some (ServeGlob (dsp_osPath subPath p))
      else None)"

text \<open>
  Every path below a shared directory is served, those that climb out of it too: the warning
  about a dangerous path has no consequence, and a path that starts with \<open>..\<close> is not even
  found dangerous.
\<close>

lemma directory_not_confined:
  assumes "fs_exists F dir" and "fs_isDirectory F dir"
  shows "dsp_data F (Path sub) ''file'' (dsp_new F dir) = Some (ServeFile (dir @ ''/'' @ sub)) \<and>
     checkDangerousPath ''a/../../secret'' \<and> \<not> checkDangerousPath ''../secret''"
  using assms
  by (simp add: dsp_data_def dsp_subFile_def dsp_new_def dsp_osPath_def checkDangerousPath_def has_infix_def)

end
