(* ===== verification/Sf_FileSharing.thy ===== *)
theory Sf_FileSharing
  imports Sf_Promises Sf_Transfer
begin

text \<open>
  Sharing files: \<open>libflocke/flocke/sharedlists/SharedListServer\<close>,
  \<open>libflocke/flocke/filesharing/FileSharing\<close> and the permission check of the application,
  \<open>apps/schneeflocke/src/Model.cpp\<close>, on top of the data sharing server.

  How listings become JSON is the environment's.  Calls of the delegate \<open>updatedTransfer\<close> are
  logged, the posted ones apart.
\<close>

record shared_element =
  se_path :: path
  se_size :: int
  se_desc :: data_desc

type_synonym shared_list = "(string, shared_element) smap"

record list_server =
  sl_initialized :: bool
  sl_list :: shared_list

record share_info =
  sh_shareName :: string
  sh_fileName :: string
  sh_size :: int
  sh_whom :: "(string, unit) smap"
  sh_forAll :: bool
  sh_path :: path
  sh_type :: entry_type
  sh_promise :: sharing_promise

record file_sharing =
  fh_infos :: "(string, share_info) smap"
  fh_transfers :: "(int, transfer_info) smap"
  fh_initialized :: bool
  fh_server :: ds_server
  fh_listServer :: list_server
  fh_updates :: "(int \<times> tf_update \<times> transfer_info) list"
  fh_posted :: "(int \<times> tf_update \<times> transfer_info) list"

record share_env =
  he_fs :: file_system
  he_encodeShared :: "shared_list \<Rightarrow> bytes"
  he_encodeListing :: "dir_entry list \<Rightarrow> bytes"

definition fh_new :: "ds_server \<Rightarrow> file_sharing" where
  "fh_new sv = \<lparr>fh_infos = [], fh_transfers = [], fh_initialized = False, fh_server = sv,
               fh_listServer = \<lparr>sl_initialized = False, sl_list = []\<rparr>, fh_updates = [], fh_posted = []\<rparr>"

subsection \<open>The shared list\<close>

abbreviation gSharedName :: path where
  "gSharedName \<equiv> Path ''shared''"

definition sl_promise :: "share_env \<Rightarrow> file_sharing \<Rightarrow> sharing_promise" where
  "sl_promise E s = createPromise (Some (he_encodeShared E (sl_list (fh_listServer s))))"

definition fh_on_server :: "(ds_server \<Rightarrow> error \<times> ds_server) \<Rightarrow> file_sharing \<Rightarrow> error \<times> file_sharing" where
  "fh_on_server f s = (case f (fh_server s) of (e, sv) \<Rightarrow> (e, s\<lparr>fh_server := sv\<rparr>))"

definition fh_set_list :: "shared_list \<Rightarrow> file_sharing \<Rightarrow> file_sharing" where
  "fh_set_list l s = s\<lparr>fh_listServer := (fh_listServer s)\<lparr>sl_list := l\<rparr>\<rparr>"

definition sl_update :: "share_env \<Rightarrow> file_sharing \<Rightarrow> (error \<times> file_sharing) outcome" where
  "sl_update E s =
     outcome_bind (sv_update gSharedName (Some (sl_promise E s)) (fh_server s))
       (\<lambda>(e, sv). Done (e, s\<lparr>fh_server := sv\<rparr>))"

definition sl_uninit :: "file_sharing \<Rightarrow> error \<times> file_sharing" where
  "sl_uninit s =
     (if \<not> sl_initialized (fh_listServer s) then (NoError, s)
      else fh_on_server (sv_unShare gSharedName) (s\<lparr>fh_listServer := \<lparr>sl_initialized = False, sl_list = []\<rparr>\<rparr>))"

definition sl_init :: "share_env \<Rightarrow> file_sharing \<Rightarrow> error \<times> file_sharing" where
  "sl_init E s0 =
     (let s = snd (sl_uninit s0)
      in case fh_on_server (sv_share gSharedName (Some (sl_promise E s))) s of (err, s1) \<Rightarrow>
           if failed err then (err, s1)
           else (NoError, s1\<lparr>fh_listServer := (fh_listServer s1)\<lparr>sl_initialized := True\<rparr>\<rparr>))"

definition sl_add :: "share_env \<Rightarrow> string \<Rightarrow> shared_element \<Rightarrow> file_sharing \<Rightarrow> (error \<times> file_sharing) outcome" where
  "sl_add E shareName el s =
     (if map_of (sl_list (fh_listServer s)) shareName \<noteq> None then Done (ExistsAlready, s)
      else sl_update E (fh_set_list (sm_insert shareName el (sl_list (fh_listServer s))) s))"

definition sl_remove :: "share_env \<Rightarrow> string \<Rightarrow> file_sharing \<Rightarrow> (error \<times> file_sharing) outcome" where
  "sl_remove E shareName s =
     (if map_of (sl_list (fh_listServer s)) shareName = None then Done (NotFound, s)
      else sl_update E (fh_set_list (sm_erase shareName (sl_list (fh_listServer s))) s))"

definition sl_clear :: "share_env \<Rightarrow> file_sharing \<Rightarrow> (error \<times> file_sharing) outcome" where
  "sl_clear E s = sl_update E (fh_set_list [] s)"

subsection \<open>Sharing\<close>

text \<open>The name a share gets: forbidden characters replaced, a number added if it is taken.\<close>

definition replace_char :: "char \<Rightarrow> char \<Rightarrow> string \<Rightarrow> string" where
  "replace_char c r src = map (\<lambda>x. if x = c then r else x) src"

fun show_nat :: "nat \<Rightarrow> string" where
  "show_nat n = (if n < 10 then [char_of (48 + n)] else show_nat (n div 10) @ [char_of (48 + n mod 10)])"

declare show_nat.simps [simp del]

fun number_path :: "ds_server \<Rightarrow> string \<Rightarrow> nat \<Rightarrow> nat \<Rightarrow> path" where
  "number_path sv fit i 0 = Path (take 255 (cstr fit @ ''_'' @ show_nat (i - 1)))"
| "number_path sv fit i (Suc n) =
     (let candidate = Path (take 255 (cstr fit @ ''_'' @ show_nat i))
      in if sv_shared_at candidate sv = None then candidate else number_path sv fit (i + 1) n)"

definition createPath :: "string \<Rightarrow> ds_server \<Rightarrow> path" where
  "createPath shareName sv =
     (let fit = replace_char (CHR '':'') (CHR ''_'') (replace_char (CHR ''/'') (CHR ''_'') shareName);
          candidate = Path fit
      in if sv_shared_at candidate sv = None then candidate
         else number_path sv (if length fit > 250 then take 250 fit else fit) 0 10)"

text \<open>The promises of a directory and of a file, as the server sees them, with their errors and sizes.\<close>

definition served_promise :: "share_env \<Rightarrow> served \<Rightarrow> data_promise" where
  "served_promise E x =
     (case x of
        ServeListing es \<Rightarrow> byteArrayPromise (he_encodeListing E es) no_desc
      | ServeFile name \<Rightarrow> file_data_promise (he_fs E) name
      | ServeGlob dir \<Rightarrow>
          glob_data_promise (gp_new (if fs_isDirectory (he_fs E) dir then NoError else InvalidArgument)))"

definition dir_sharing_promise :: "share_env \<Rightarrow> dir_promise \<Rightarrow> sharing_promise" where
  "dir_sharing_promise E p =
     \<lparr>sp_data = (\<lambda>sub user. map_option (served_promise E) (dsp_data (he_fs E) sub user p)),
      sp_desc = no_desc, sp_size = Done (-1)\<rparr>"

definition load_promise :: "share_env \<Rightarrow> string \<Rightarrow> error \<times> int \<times> sharing_promise" where
  "load_promise E fileName =
     (if fs_isDirectory (he_fs E) fileName then
        let dp = dsp_new (he_fs E) fileName in (dsp_error dp, -1, dir_sharing_promise E dp)
      else
        let fp = fp_new (he_fs E) fileName
        in (fp_error fp, fp_size fp, fixedSharingPromise (Some (file_data_promise (he_fs E) fileName))))"

definition fh_share ::
  "share_env \<Rightarrow> string \<Rightarrow> string \<Rightarrow> bool \<Rightarrow> (string, unit) smap \<Rightarrow> file_sharing \<Rightarrow> (error \<times> file_sharing) outcome" where
  "fh_share E shareName fileName forAll whom s =
     (if \<not> fh_initialized s then Done (NotInitialized, s)
      else if map_of (fh_infos s) shareName \<noteq> None then Done (ExistsAlready, s)
      else
        let p = createPath shareName (fh_server s); dir = fs_isDirectory (he_fs E) fileName
        in case load_promise E fileName of (perr, n, promise) \<Rightarrow>
             if failed perr then Done (perr, s)
             else
               (case fh_on_server (sv_share p (Some promise)) s of (err, s1) \<Rightarrow>
                  if failed err then Done (err, s1)
                  else
                    let desc = no_desc\<lparr>dd_user := (if dir then ''dir'' else ''file'')\<rparr>
                    in outcome_bind (sl_add E shareName \<lparr>se_path = p, se_size = n, se_desc = desc\<rparr> s1) (\<lambda>(err2, s2).
                         if failed err2 then Done (err2, snd (fh_on_server (sv_unShare p) s2))
                         else
                           let info = \<lparr>sh_shareName = shareName, sh_fileName = fileName, sh_size = n, sh_whom = whom,
                                       sh_forAll = forAll, sh_path = p,
                                       sh_type = (if dir then EDirectory else EFile), sh_promise = promise\<rparr>
                           in Done (NoError, s2\<lparr>fh_infos := sm_insert shareName info (fh_infos s2)\<rparr>))))"

definition fh_unshare :: "share_env \<Rightarrow> string \<Rightarrow> file_sharing \<Rightarrow> (error \<times> file_sharing) outcome" where
  "fh_unshare E shareName s =
     (case map_of (fh_infos s) shareName of
        None \<Rightarrow> Done (NotFound, s)
      | Some info \<Rightarrow>
          (case fh_on_server (sv_unShare (sh_path info)) s of (err, s1) \<Rightarrow>
             if failed err
             then Done (err, s1\<lparr>fh_infos := sm_insert shareName (info\<lparr>sh_forAll := False, sh_whom := []\<rparr>) (fh_infos s1)\<rparr>)
             else outcome_bind (sl_remove E shareName (s1\<lparr>fh_infos := sm_erase shareName (fh_infos s1)\<rparr>))
                    (\<lambda>(_, s2). Done (NoError, s2))))"

definition fh_editShare ::
  "share_env \<Rightarrow> string \<Rightarrow> string \<Rightarrow> bool \<Rightarrow> (string, unit) smap \<Rightarrow> file_sharing \<Rightarrow> (error \<times> file_sharing) outcome" where
  "fh_editShare E shareName fileName forAll whom s =
     outcome_bind (fh_unshare E shareName s) (\<lambda>(e, s1).
       if e \<noteq> NoError \<and> e \<noteq> NotFound then Done (e, s1) else fh_share E shareName fileName forAll whom s1)"

definition fh_putInfo :: "string \<Rightarrow> file_sharing \<Rightarrow> error \<times> share_info option" where
  "fh_putInfo shareName s =
     (case map_of (fh_infos s) shareName of None \<Rightarrow> (NotFound, None) | Some i \<Rightarrow> (NoError, Some i))"

definition fh_shared :: "file_sharing \<Rightarrow> share_info list" where
  "fh_shared s = map snd (fh_infos s)"

definition fh_checkPermissions :: "string \<Rightarrow> string \<Rightarrow> file_sharing \<Rightarrow> error" where
  "fh_checkPermissions user shareName s =
     (case map_of (fh_infos s) shareName of
        None \<Rightarrow> NotFound
      | Some info \<Rightarrow> if sh_forAll info then NoError
                     else if map_of (sh_whom info) user \<noteq> None then NoError else NoPerm)"

subsection \<open>Outgoing transfers\<close>

definition fh_cancelTransfer :: "int \<Rightarrow> file_sharing \<Rightarrow> error \<times> file_sharing" where
  "fh_cancelTransfer i s =
     (if map_of (fh_transfers s) i = None then (NotFound, s)
      else (NoError, snd (fh_on_server (cancelTransfer i) s)))"

definition fh_removeFinishedTransfers :: "file_sharing \<Rightarrow> file_sharing" where
  "fh_removeFinishedTransfers s =
     s\<lparr>fh_posted := fh_posted s @ map (\<lambda>(i, t). (i, UT_Removed, new_transfer FILE_TRANSFER 0))
                                     (filter (\<lambda>(i, t). tf_ended t) (fh_transfers s)),
       fh_transfers := filter (\<lambda>(i, t). \<not> tf_ended t) (fh_transfers s)\<rparr>"

text \<open>\<open>weak_ptr<FileSharingPromise>\<close> that may have gone: description, size and file name.\<close>

definition fh_onUpdate ::
  "int \<Rightarrow> tr_info \<Rightarrow> (data_desc \<times> int \<times> string) option \<Rightarrow> file_sharing \<Rightarrow> file_sharing outcome" where
  "fh_onUpdate i info promise s =
     (let known = map_of (fh_transfers s) i;
          change = (if known = None then UT_Added else UT_Changed);
          t0 = (case known of None \<Rightarrow> new_transfer FILE_TRANSFER 0 | Some t \<Rightarrow> t);
          t = t0\<lparr>tf_transferred := ti_transferred info, tf_type := FILE_TRANSFER\<rparr>;
          put = (\<lambda>t. Done (s\<lparr>fh_transfers := sm_insert i t (fh_transfers s), fh_updates := fh_updates s @ [(i, change, t)]\<rparr>))
      in case ti_mark info of
           RR_Transmission \<Rightarrow> put (t\<lparr>tf_state := TS_Transferring\<rparr>)
         | RR_TransmissionStart \<Rightarrow>
             let t1 = (case promise of
                         None \<Rightarrow> t
                       | Some (desc, n, name) \<Rightarrow> t\<lparr>tf_desc := desc, tf_size := n, tf_filename := name\<rparr>)
             in put (t1\<lparr>tf_receiver := ti_destination info, tf_state := TS_Starting, tf_uri := uri_make [] (ti_path info)\<rparr>)
         | RR_TransmissionFinish \<Rightarrow> put (t\<lparr>tf_state := TS_Finished\<rparr>)
         | RR_TransmissionCancel \<Rightarrow> put (t\<lparr>tf_state := TS_Canceled\<rparr>)
         | RR_NoMark \<Rightarrow> Fault AssertFailed)"

subsection \<open>The application's permission check\<close>

definition onCheckPermissions :: "(host_id \<Rightarrow> string) \<Rightarrow> file_sharing \<Rightarrow> host_id \<Rightarrow> path \<Rightarrow> bool" where
  "onCheckPermissions userOf s host p =
     (if gSharedName = p then True
      else \<not> failed (fh_checkPermissions (userOf host) (path_head p) s))"

definition fixResourceName :: "string \<Rightarrow> string" where
  "fixResourceName s =
     (let result = filter (\<lambda>c. c \<noteq> CHR ''/'' \<and> c \<noteq> CHR ''.'' \<and> c \<noteq> CHR ''_'' \<and> c \<noteq> CHR '' '' \<and>
                               32 \<le> (of_char c :: nat) \<and> (of_char c :: nat) < 128) (take 64 s)
      in if result = [] then ''SF'' else result)"

end
