(* ===== verification/Sf_SharingProps.thy ===== *)
theory Sf_SharingProps
  imports Sf_FileSharing
begin

text \<open>
  What a file sharing keeps in every run: its infos, the shares of the data sharing server and
  the published list agree; and whom the permission check of the application lets read them.
\<close>

subsection \<open>The shares of the server\<close>

definition sv_proms :: "ds_server \<Rightarrow> path \<Rightarrow> sharing_promise option option" where
  "sv_proms s p = map_option sd_promise (map_of (sv_shared s) p)"

lemma sv_share_proms:
  assumes "sv_share p pr s = (e, s')"
  shows "e = NoError \<and> sv_proms s p = None \<and> sv_proms s' = (sv_proms s)(p := Some pr) \<or> failed e \<and> s' = s"
  using assms by (auto simp: sv_share_def sv_proms_def fun_eq_iff split: if_splits)

lemma sv_unShare_proms:
  assumes "sv_unShare p s = (e, s')"
  shows "e = NoError \<and> sv_proms s p \<noteq> None \<and> sv_proms s' = (sv_proms s)(p := None) \<or>
    e = NotFound \<and> sv_proms s p = None \<and> s' = s"
  using assms by (auto simp: sv_unShare_def sv_proms_def fun_eq_iff split: option.splits)

lemma sv_update_proms:
  assumes "sv_proms s p \<noteq> None" and "sp_size sp = Done n"
  shows "\<exists>s'. sv_update p (Some sp) s = Done (NoError, s') \<and> sv_proms s' = (sv_proms s)(p := Some (Some sp))"
  using assms
  by (auto simp: sv_update_def sv_proms_def notifySubscriber_def sv_send_set_def Let_def fun_eq_iff)

lemma sv_onSubscribe_proms: "sv_proms (sv_onSubscribe E h q s) = sv_proms s"
  by (auto simp: sv_onSubscribe_def sv_proms_def sv_send_def Let_def fun_eq_iff split: option.splits)

lemma sv_onChannelChange_proms:
  assumes "sv_onChannelChange E h s = Done s'"
  shows "sv_proms s' = sv_proms s"
proof -
  have "map_option sd_promise (map_of (map (fst \<circ> sv_drop_subscriber h) m) p) = map_option sd_promise (map_of m p)" for m p
  proof (induction m)
    case (Cons e m)
    obtain x l where "sv_drop_subscriber h e = ((fst e, x), l)" "sd_promise x = sd_promise (snd e)"
      by (cases "map_of (sd_subscribers (snd e)) h = None"; cases e) (auto simp: sv_drop_subscriber_def)
    then show ?case using Cons by (cases e) simp
  qed simp
  then show ?thesis using assms by (auto simp: sv_onChannelChange_def sv_proms_def fun_eq_iff split: if_splits)
qed

subsection \<open>Runs\<close>

datatype fh_event =
    FhShare string string bool "(string, unit) smap"
  | FhEdit string string bool "(string, unit) smap"
  | FhUnshare string
  | FhSubscribe sv_env host_id ds_subscribe
  | FhOffline sv_env host_id

fun fh_step :: "share_env \<Rightarrow> fh_event \<Rightarrow> file_sharing \<Rightarrow> file_sharing outcome" where
  "fh_step E (FhShare n f a w) s = outcome_bind (fh_share E n f a w s) (\<lambda>(_, s'). Done s')"
| "fh_step E (FhEdit n f a w) s = outcome_bind (fh_editShare E n f a w s) (\<lambda>(_, s'). Done s')"
| "fh_step E (FhUnshare n) s = outcome_bind (fh_unshare E n s) (\<lambda>(_, s'). Done s')"
| "fh_step E (FhSubscribe V h q) s = Done (s\<lparr>fh_server := sv_onSubscribe V h q (fh_server s)\<rparr>)"
| "fh_step E (FhOffline V h) s =
     outcome_bind (sv_onChannelChange V h (fh_server s)) (\<lambda>sv. Done (s\<lparr>fh_server := sv\<rparr>))"

fun fh_run :: "share_env \<Rightarrow> fh_event list \<Rightarrow> file_sharing \<Rightarrow> file_sharing outcome" where
  "fh_run E [] s = Done s"
| "fh_run E (e # es) s = outcome_bind (fh_step E e s) (fh_run E es)"

text \<open>As the application starts it: the list is published, then the file sharing initialised.\<close>

definition fh_started :: "share_env \<Rightarrow> file_sharing" where
  "fh_started E = (snd (sl_init E (fh_new sv_new)))\<lparr>fh_initialized := True\<rparr>"

definition named_event :: "fh_event \<Rightarrow> bool" where
  "named_event e \<longleftrightarrow> (case e of FhOffline V h \<Rightarrow> h \<noteq> [] | _ \<Rightarrow> True)"

subsection \<open>The invariant\<close>

definition fh_infos_ok :: "file_sharing \<Rightarrow> bool" where
  "fh_infos_ok s \<longleftrightarrow>
     (\<forall>n i. map_of (fh_infos s) n = Some i \<longrightarrow> sh_shareName i = n \<and> sh_path i \<noteq> gSharedName \<and>
        sv_proms (fh_server s) (sh_path i) = Some (Some (sh_promise i))) \<and>
     (\<forall>n n' i i'. map_of (fh_infos s) n = Some i \<longrightarrow> map_of (fh_infos s) n' = Some i' \<longrightarrow> sh_path i = sh_path i' \<longrightarrow> n = n') \<and>
     (\<forall>p. sv_proms (fh_server s) p \<noteq> None \<longrightarrow> p = gSharedName \<or>
        (\<exists>n i. map_of (fh_infos s) n = Some i \<and> sh_path i = p))"

lemma fh_infos_okI:
  assumes "\<And>n i. map_of (fh_infos s) n = Some i \<Longrightarrow> sh_shareName i = n \<and> sh_path i \<noteq> gSharedName \<and>
        sv_proms (fh_server s) (sh_path i) = Some (Some (sh_promise i))"
    and "\<And>n n' i i'. map_of (fh_infos s) n = Some i \<Longrightarrow> map_of (fh_infos s) n' = Some i' \<Longrightarrow> sh_path i = sh_path i' \<Longrightarrow> n = n'"
    and "\<And>p. sv_proms (fh_server s) p \<noteq> None \<Longrightarrow> p \<noteq> gSharedName \<Longrightarrow> \<exists>n i. map_of (fh_infos s) n = Some i \<and> sh_path i = p"
  shows "fh_infos_ok s"
  unfolding fh_infos_ok_def using assms by blast

lemma fh_infos_okD:
  assumes "fh_infos_ok s" and "map_of (fh_infos s) n = Some i"
  shows "sh_shareName i = n" and "sh_path i \<noteq> gSharedName" and "sv_proms (fh_server s) (sh_path i) = Some (Some (sh_promise i))"
  using assms unfolding fh_infos_ok_def by blast+

lemma fh_infos_inj:
  assumes "fh_infos_ok s" and "map_of (fh_infos s) n = Some i" and "map_of (fh_infos s) n' = Some i'" and "sh_path i = sh_path i'"
  shows "n = n'"
  using assms unfolding fh_infos_ok_def by blast

lemma fh_infos_cover:
  assumes "fh_infos_ok s" and "sv_proms (fh_server s) p \<noteq> None" and "p \<noteq> gSharedName"
  shows "\<exists>n i. map_of (fh_infos s) n = Some i \<and> sh_path i = p"
  using assms unfolding fh_infos_ok_def by blast

definition fh_listed :: "file_sharing \<Rightarrow> bool" where
  "fh_listed s \<longleftrightarrow> (\<forall>n. map_option se_path (map_of (sl_list (fh_listServer s)) n) =
                       map_option sh_path (map_of (fh_infos s) n))"

definition fh_published :: "share_env \<Rightarrow> file_sharing \<Rightarrow> bool" where
  "fh_published E s \<longleftrightarrow> sv_proms (fh_server s) gSharedName = Some (Some (sl_promise E s))"

definition fh_ok :: "share_env \<Rightarrow> file_sharing \<Rightarrow> bool" where
  "fh_ok E s \<longleftrightarrow> fh_initialized s \<and> fh_infos_ok s \<and> fh_listed s \<and> fh_published E s"

lemma fh_started_ok: "fh_ok E (fh_started E)"
  by (simp add: fh_ok_def fh_started_def sl_init_def sl_uninit_def fh_new_def fh_on_server_def sv_share_def sv_new_def
      path_hasSubPath_iff fh_infos_ok_def fh_listed_def fh_published_def sl_promise_def sv_proms_def Let_def)

text \<open>Publishing after the list has changed.\<close>

lemma sl_update_ok:
  assumes "sv_proms (fh_server s) gSharedName \<noteq> None"
  shows "\<exists>sv. sl_update E s = Done (NoError, s\<lparr>fh_server := sv\<rparr>) \<and>
     sv_proms sv = (sv_proms (fh_server s))(gSharedName := Some (Some (sl_promise E s)))"
proof -
  obtain n where "sp_size (sl_promise E s) = Done n"
    by (simp add: sl_promise_def createPromise_def fixedSharingPromise_def createDataPromise_def)
  from sv_update_proms [OF assms this] show ?thesis by (auto simp: sl_update_def)
qed

lemma fh_unshare_ok:
  assumes "fh_ok E s"
  shows "\<exists>e s'. fh_unshare E n s = Done (e, s') \<and> fh_ok E s' \<and> e = (if map_of (fh_infos s) n = None then NotFound else NoError) \<and>
     map_of (fh_infos s') n = None"
proof (cases "map_of (fh_infos s) n")
  case None
  then show ?thesis using assms by (simp add: fh_unshare_def)
next
  case (Some info)
  let ?p = "sh_path info"
  have ok: "fh_infos_ok s" using assms by (simp add: fh_ok_def)
  have info: "sv_proms (fh_server s) ?p = Some (Some (sh_promise info))" "?p \<noteq> gSharedName"
    using assms Some by (auto simp: fh_ok_def fh_infos_ok_def)
  obtain e sv where un: "sv_unShare ?p (fh_server s) = (e, sv)" by fastforce
  from sv_unShare_proms [OF un] info have sv: "e = NoError" "sv_proms sv = (sv_proms (fh_server s))(?p := None)" by auto
  let ?s1 = "s\<lparr>fh_server := sv, fh_infos := sm_erase n (fh_infos s)\<rparr>"
  let ?s2 = "fh_set_list (sm_erase n (sl_list (fh_listServer s))) ?s1"
  have "map_option se_path (map_of (sl_list (fh_listServer s)) n) = Some ?p"
    using assms Some by (simp add: fh_ok_def fh_listed_def)
  then obtain el where listed: "map_of (sl_list (fh_listServer s)) n = Some el" by auto
  have "sv_proms (fh_server ?s2) gSharedName \<noteq> None"
    using assms sv(2) info(2) by (simp add: fh_set_list_def fh_ok_def fh_published_def)
  from sl_update_ok [OF this, of E] obtain sv' where sv': "sl_update E ?s2 = Done (NoError, ?s2\<lparr>fh_server := sv'\<rparr>)"
    "sv_proms sv' = (sv_proms sv)(gSharedName := Some (Some (sl_promise E ?s2)))"
    by (auto simp: fh_set_list_def)
  have run: "fh_unshare E n s = Done (NoError, ?s2\<lparr>fh_server := sv'\<rparr>)"
    using Some un sv(1) listed sv'(1) by (simp add: fh_unshare_def fh_on_server_def sl_remove_def)
  define t where "t = ?s2\<lparr>fh_server := sv'\<rparr>"
  have proms: "sv_proms (fh_server t) = ((sv_proms (fh_server s))(?p := None))(gSharedName := Some (Some (sl_promise E ?s2)))"
    by (simp add: t_def sv'(2) sv(2))
  have infos: "map_of (fh_infos t) m = (if m = n then None else map_of (fh_infos s) m)" for m
    by (simp add: t_def fh_set_list_def)
  have "fh_infos_ok t"
  proof (rule fh_infos_okI)
    fix m j assume "map_of (fh_infos t) m = Some j"
    then have j: "m \<noteq> n" "map_of (fh_infos s) m = Some j" by (simp_all add: infos split: if_splits)
    from fh_infos_okD [OF ok j(2)] fh_infos_inj [OF ok j(2) Some] j(1)
    show "sh_shareName j = m \<and> sh_path j \<noteq> gSharedName \<and> sv_proms (fh_server t) (sh_path j) = Some (Some (sh_promise j))"
      by (auto simp: proms)
  next
    fix m m' j j' assume "map_of (fh_infos t) m = Some j" "map_of (fh_infos t) m' = Some j'" "sh_path j = sh_path j'"
    then show "m = m'" using fh_infos_inj [OF ok, of m j m' j'] by (simp add: infos split: if_splits)
  next
    fix p assume "sv_proms (fh_server t) p \<noteq> None" "p \<noteq> gSharedName"
    then have "sv_proms (fh_server s) p \<noteq> None" "p \<noteq> ?p" by (auto simp: proms split: if_splits)
    then obtain m j where "map_of (fh_infos s) m = Some j" "sh_path j = p"
      using fh_infos_cover [OF ok _ \<open>p \<noteq> gSharedName\<close>] by blast
    then show "\<exists>m j. map_of (fh_infos t) m = Some j \<and> sh_path j = p"
      using Some \<open>p \<noteq> ?p\<close> by (intro exI [of _ m] exI [of _ j]) (auto simp: infos)
  qed
  moreover have init: "fh_initialized t" using assms by (simp add: t_def fh_ok_def fh_set_list_def)
  moreover have "fh_listed t" using assms by (auto simp: t_def fh_ok_def fh_listed_def fh_set_list_def)
  moreover have "fh_published E t"
    unfolding fh_published_def proms by (simp add: t_def sl_promise_def fh_set_list_def)
  ultimately show ?thesis using run infos [of n] Some init
    by (intro exI [of _ NoError] exI [of _ t]) (simp add: fh_ok_def t_def [symmetric])
qed

lemma fh_share_ok:
  assumes ok: "fh_ok E s"
  shows "\<exists>e s'. fh_share E n f a w s = Done (e, s') \<and> fh_ok E s' \<and>
     (if e = NoError then \<exists>i. map_of (fh_infos s) n = None \<and> fh_infos s' = sm_insert n i (fh_infos s) \<and>
        sh_forAll i = a \<and> sh_whom i = w \<and> sh_fileName i = f \<and> sh_path i = createPath n (fh_server s)
      else s' = s)"
proof -
  let ?p = "createPath n (fh_server s)"
  obtain perr size promise where load: "load_promise E f = (perr, size, promise)" by (cases "load_promise E f") auto
  obtain e sv where share: "sv_share ?p (Some promise) (fh_server s) = (e, sv)" by fastforce
  have init: "fh_initialized s" and iok: "fh_infos_ok s" using ok by (simp_all add: fh_ok_def)
  show ?thesis
  proof (cases "map_of (fh_infos s) n \<noteq> None \<or> failed perr \<or> failed e")
    case True
    then show ?thesis using ok init load share sv_share_proms [OF share]
      by (auto simp: fh_share_def Let_def fh_on_server_def)
  next
    case False
    with sv_share_proms [OF share] have sv: "sv_proms (fh_server s) ?p = None"
      "sv_proms sv = (sv_proms (fh_server s))(?p := Some (Some promise))" by auto
    have "map_option se_path (map_of (sl_list (fh_listServer s)) n) = None"
      using ok False by (simp add: fh_ok_def fh_listed_def)
    then have new: "?p \<noteq> gSharedName" "map_of (sl_list (fh_listServer s)) n = None"
      using sv(1) ok by (auto simp: fh_ok_def fh_published_def)
    define el where "el = \<lparr>se_path = ?p, se_size = size,
      se_desc = no_desc\<lparr>dd_user := (if fs_isDirectory (he_fs E) f then ''dir'' else ''file'')\<rparr>\<rparr>"
    define i where "i = \<lparr>sh_shareName = n, sh_fileName = f, sh_size = size, sh_whom = w, sh_forAll = a, sh_path = ?p,
      sh_type = (if fs_isDirectory (he_fs E) f then EDirectory else EFile), sh_promise = promise\<rparr>"
    define s1 where "s1 = fh_set_list (sm_insert n el (sl_list (fh_listServer s))) (s\<lparr>fh_server := sv\<rparr>)"
    have "sv_proms (fh_server s1) gSharedName \<noteq> None"
      using ok sv(2) new(1) by (simp add: s1_def fh_set_list_def fh_ok_def fh_published_def)
    from sl_update_ok [OF this, of E] obtain sv' where sv': "sl_update E s1 = Done (NoError, s1\<lparr>fh_server := sv'\<rparr>)"
      "sv_proms sv' = (sv_proms sv)(gSharedName := Some (Some (sl_promise E s1)))"
      by (auto simp: s1_def fh_set_list_def)
    define t where "t = s1\<lparr>fh_server := sv', fh_infos := sm_insert n i (fh_infos s)\<rparr>"
    have "sl_add E n el (s\<lparr>fh_server := sv\<rparr>) = Done (NoError, s1\<lparr>fh_server := sv'\<rparr>)"
      using new(2) sv'(1) by (simp add: sl_add_def s1_def)
    then have run: "fh_share E n f a w s = Done (NoError, t)"
      using False init load share
      by (simp add: fh_share_def Let_def fh_on_server_def el_def i_def t_def s1_def fh_set_list_def)
    have proms: "sv_proms (fh_server t) =
        ((sv_proms (fh_server s))(?p := Some (Some promise)))(gSharedName := Some (Some (sl_promise E s1)))"
      by (simp add: t_def sv'(2) sv(2))
    have infos: "fh_infos t = sm_insert n i (fh_infos s)" "sh_path i = ?p" "sh_promise i = promise" "sh_shareName i = n"
      by (simp_all add: t_def i_def)
    have old: "sh_path j \<noteq> ?p" if "map_of (fh_infos s) m = Some j" for m j
    proof -
      have "sv_proms (fh_server s) (sh_path j) = Some (Some (sh_promise j))"
        using that ok unfolding fh_ok_def fh_infos_ok_def by blast
      then show ?thesis using sv(1) by auto
    qed
    have none: "map_of (fh_infos s) n = None" using False by simp
    have in_new: "m = n \<and> j = i \<or> m \<noteq> n \<and> map_of (fh_infos s) m = Some j" if "map_of (fh_infos t) m = Some j" for m j
      using that by (simp add: infos(1) split: if_splits)
    have "fh_infos_ok t"
    proof (rule fh_infos_okI)
      fix m j assume "map_of (fh_infos t) m = Some j"
      from in_new [OF this] show "sh_shareName j = m \<and> sh_path j \<noteq> gSharedName \<and> sv_proms (fh_server t) (sh_path j) = Some (Some (sh_promise j))"
        using infos(2-4) new(1) fh_infos_okD [OF iok, of m j] old [of m j] by (auto simp: proms)
    next
      fix m m' j j' assume a: "map_of (fh_infos t) m = Some j" "map_of (fh_infos t) m' = Some j'" "sh_path j = sh_path j'"
      show "m = m'"
      proof (rule ccontr)
        assume "m \<noteq> m'"
        from in_new [OF a(1)] in_new [OF a(2)] \<open>m \<noteq> m'\<close>
        consider "map_of (fh_infos s) m = Some j" "map_of (fh_infos s) m' = Some j'"
          | "j = i" "map_of (fh_infos s) m' = Some j'" | "map_of (fh_infos s) m = Some j" "j' = i"
          by blast
        then show False
        proof cases
          case 1
          from fh_infos_inj [OF iok this a(3)] show False using \<open>m \<noteq> m'\<close> by simp
        next
          case 2
          then show False using old [of m' j'] a(3) infos(2) by simp
        next
          case 3
          then show False using old [of m j] a(3) infos(2) by simp
        qed
      qed
    next
      fix p assume p: "sv_proms (fh_server t) p \<noteq> None" "p \<noteq> gSharedName"
      show "\<exists>m j. map_of (fh_infos t) m = Some j \<and> sh_path j = p"
      proof (cases "p = ?p")
        case True
        then show ?thesis using infos(1,2) by (intro exI [of _ n] exI [of _ i]) simp
      next
        case False
        then obtain m j where "map_of (fh_infos s) m = Some j" "sh_path j = p"
          using fh_infos_cover [OF iok _ p(2)] p by (auto simp: proms)
        then show ?thesis using none infos(1) by (intro exI [of _ m] exI [of _ j]) auto
      qed
    qed
    moreover have "fh_listed t"
      using ok by (auto simp: fh_ok_def fh_listed_def t_def s1_def fh_set_list_def el_def i_def)
    moreover have "fh_published E t"
      unfolding fh_published_def proms by (simp add: t_def s1_def sl_promise_def fh_set_list_def)
    moreover have "fh_initialized t" using init by (simp add: t_def s1_def fh_set_list_def)
    moreover have "sh_forAll i = a" "sh_whom i = w" "sh_fileName i = f" by (simp_all add: i_def)
    ultimately show ?thesis using run infos False by (auto simp: fh_ok_def)
  qed
qed

lemma fh_server_ok:
  assumes "fh_ok E s" and "sv_proms sv = sv_proms (fh_server s)"
  shows "fh_ok E (s\<lparr>fh_server := sv\<rparr>)"
  using assms by (simp add: fh_ok_def fh_infos_ok_def fh_listed_def fh_published_def sl_promise_def)

lemma fh_step_ok:
  assumes "fh_ok E s" and "named_event e"
  shows "\<exists>s'. fh_step E e s = Done s' \<and> fh_ok E s'"
proof (cases e)
  case (FhShare n f a w)
  then show ?thesis using fh_share_ok [OF assms(1), of n f a w] by auto
next
  case (FhEdit n f a w)
  obtain x s1 where un: "fh_unshare E n s = Done (x, s1)" "fh_ok E s1" "x = NoError \<or> x = NotFound"
    using fh_unshare_ok [OF assms(1), of n] by (auto split: if_splits)
  then show ?thesis using fh_share_ok [OF un(2), of n f a w] FhEdit by (auto simp: fh_editShare_def)
next
  case (FhUnshare n)
  then show ?thesis using fh_unshare_ok [OF assms(1), of n] by auto
next
  case (FhSubscribe V h q)
  then show ?thesis using fh_server_ok [OF assms(1)] by (simp add: sv_onSubscribe_proms)
next
  case (FhOffline V h)
  then obtain sv where "sv_onChannelChange V h (fh_server s) = Done sv"
    using assms(2) by (cases "0 < se_level V h") (auto simp: sv_onChannelChange_def named_event_def)
  then show ?thesis using fh_server_ok [OF assms(1)] FhOffline sv_onChannelChange_proms by auto
qed

lemma fh_run_ok:
  "fh_ok E s \<Longrightarrow> \<forall>e \<in> set es. named_event e \<Longrightarrow> \<exists>s'. fh_run E es s = Done s' \<and> fh_ok E s'"
proof (induction es arbitrary: s)
  case (Cons e es)
  then obtain s1 where "fh_step E e s = Done s1" "fh_ok E s1" using fh_step_ok [of E s e] by auto
  then show ?case using Cons by simp
qed simp

text \<open>
  C11. In every run of sharing, changing and unsharing, with subscriptions and disconnects of other
  hosts in between, what the server shares is exactly the published list and the promises of the
  files that are shared now, each under a path of its own, and the list tells for each name that
  path: nothing that was unshared stays accessible, and no operation faults.
\<close>

theorem sharing_consistent:
  assumes "\<forall>e \<in> set es. named_event e"
  shows "\<exists>s. fh_run E es (fh_started E) = Done s \<and>
     (\<forall>p. sv_proms (fh_server s) p \<noteq> None \<longleftrightarrow>
        p = gSharedName \<or> (\<exists>n i. map_of (fh_infos s) n = Some i \<and> sh_path i = p)) \<and>
     (\<forall>n i. map_of (fh_infos s) n = Some i \<longrightarrow> sv_proms (fh_server s) (sh_path i) = Some (Some (sh_promise i))) \<and>
     (\<forall>n n' i i'. map_of (fh_infos s) n = Some i \<and> map_of (fh_infos s) n' = Some i' \<and> sh_path i = sh_path i' \<longrightarrow> n = n') \<and>
     (\<forall>n. map_option se_path (map_of (sl_list (fh_listServer s)) n) = map_option sh_path (map_of (fh_infos s) n)) \<and>
     sv_proms (fh_server s) gSharedName = Some (Some (createPromise (Some (he_encodeShared E (sl_list (fh_listServer s))))))"
proof -
  obtain s where "fh_run E es (fh_started E) = Done s" "fh_ok E s" using fh_run_ok [OF fh_started_ok assms] by blast
  moreover from this(2) have "sv_proms (fh_server s) p \<noteq> None \<longleftrightarrow>
      p = gSharedName \<or> (\<exists>n i. map_of (fh_infos s) n = Some i \<and> sh_path i = p)" for p
    unfolding fh_ok_def fh_infos_ok_def fh_published_def by blast
  ultimately show ?thesis by (auto simp: fh_ok_def fh_infos_ok_def fh_listed_def fh_published_def sl_promise_def)
qed

definition demo_share_env :: share_env where
  "demo_share_env = \<lparr>he_fs = demo_files, he_encodeShared = (\<lambda>l. concat (map fst l)), he_encodeListing = (\<lambda>_. [])\<rparr>"

lemma sharing_consistent_witness:
  "\<exists>s. fh_run demo_share_env [FhShare ''f'' ''f'' True [], FhEdit ''f'' ''g'' False [(''u'', ())], FhUnshare ''f'']
       (fh_started demo_share_env) = Done s \<and>
     sv_proms (fh_server s) gSharedName = Some (Some (createPromise (Some (he_encodeShared demo_share_env (sl_list (fh_listServer s))))))"
  using sharing_consistent [of "[FhShare ''f'' ''f'' True [], FhEdit ''f'' ''g'' False [(''u'', ())], FhUnshare ''f'']" demo_share_env]
  by (auto simp: named_event_def)

subsection \<open>Who may read\<close>

text \<open>
  C12. A share that is not open to all and whose path is its name is read only by those it is meant
  for: if the user of a host is not among its users, then every request of this host for it or for
  something below it, a plain one and one that starts a transmission, and every subscription to it
  has one reply, which is \<open>NoPerm\<close> without content, and changes nothing else in the server: no
  transmission is started and no subscriber entered.  (A share with \<open>forAll\<close> is open to
  everybody, whatever its users.)
\<close>

theorem sharing_refuses:
  assumes "\<forall>e \<in> set es. named_event e" and "fh_run E es (fh_started E) = Done s"
    and "map_of (fh_infos s) n = Some i" and "sh_path i = Path n" and "\<not> sh_forAll i"
    and "map_of (sh_whom i) (userOf host) = None"
    and "se_perm V = Some (onCheckPermissions userOf s)"
  shows "(path_head (rq_path q) = n \<longrightarrow> rq_mark q \<noteq> RQ_TransmissionCancel \<longrightarrow>
       (\<exists>a. sv_onRequest V host q (fh_server s) = Done (sv_send host (MRequestReply a []) (fh_server s)) \<and>
          rr_err a = NoPerm \<and> rr_id a = rq_id q)) \<and>
     (path_head (sb_path b) = n \<longrightarrow> sb_mark b \<noteq> SB_SubscriptionCancel \<longrightarrow>
       (\<exists>r. sv_onSubscribe V host b (fh_server s) = sv_send host (MSubscribeReply r) (fh_server s) \<and>
          sr_err r = NoPerm \<and> sr_id r = sb_id b))"
proof -
  have "fh_ok E s" using fh_run_ok [OF fh_started_ok assms(1), of E] assms(2) by auto
  then have "Path n \<noteq> gSharedName" using assms(3,4) by (auto simp: fh_ok_def fh_infos_ok_def)
  then have "n \<noteq> ''shared''" by simp
  then have "gSharedName \<noteq> p" if "path_head p = n" for p using that by (auto simp: path_head_def)
  then have refused: "\<not> sv_permits V host p" if "path_head p = n" for p
    using that assms(3,5-7) by (simp add: sv_permits_def onCheckPermissions_def fh_checkPermissions_def)
  have "\<exists>a. sv_onRequest V host q (fh_server s) = Done (sv_send host (MRequestReply a []) (fh_server s)) \<and>
      rr_err a = NoPerm \<and> rr_id a = rq_id q" if "path_head (rq_path q) = n" "rq_mark q \<noteq> RQ_TransmissionCancel"
    using refused [OF that(1)] that(2)
    by (auto simp: sv_onRequest_def onRequestTransmission_def sv_request_answer_def sv_find_def Let_def)
  moreover have "\<exists>r. sv_onSubscribe V host b (fh_server s) = sv_send host (MSubscribeReply r) (fh_server s) \<and>
      sr_err r = NoPerm \<and> sr_id r = sb_id b" if "path_head (sb_path b) = n" "sb_mark b \<noteq> SB_SubscriptionCancel"
    using refused [OF that(1)] that(2) by (auto simp: sv_onSubscribe_def Let_def)
  ultimately show ?thesis by blast
qed

definition demo_reader :: "file_sharing \<Rightarrow> sv_env" where
  "demo_reader s = \<lparr>se_now = 0, se_perm = Some (onCheckPermissions (\<lambda>h. h) s), se_send = (\<lambda>_ _. NoError), se_level = (\<lambda>_. 0)\<rparr>"

lemma sharing_refuses_witness:
  "\<exists>s a. fh_run demo_share_env [FhShare ''f'' ''f'' False [(''u'', ())]] (fh_started demo_share_env) = Done s \<and>
     sv_onRequest (demo_reader s) ''v'' (new_request\<lparr>rq_path := Path ''f'', rq_mark := RQ_Transmission\<rparr>) (fh_server s) =
       Done (sv_send ''v'' (MRequestReply a []) (fh_server s)) \<and> rr_err a = NoPerm"
proof -
  let ?es = "[FhShare ''f'' ''f'' False [(''u'', ())]]"
  have named: "\<forall>e \<in> set ?es. named_event e" by (simp add: named_event_def)
  have "case fh_run demo_share_env ?es (fh_started demo_share_env) of
      Done s \<Rightarrow> (case map_of (fh_infos s) ''f'' of
          Some i \<Rightarrow> sh_path i = Path ''f'' \<and> \<not> sh_forAll i \<and> map_of (sh_whom i) ''v'' = None | None \<Rightarrow> False)
    | Fault f \<Rightarrow> False"
    by code_simp
  then obtain s i where run: "fh_run demo_share_env ?es (fh_started demo_share_env) = Done s"
    and i: "map_of (fh_infos s) ''f'' = Some i" "sh_path i = Path ''f''" "\<not> sh_forAll i" "map_of (sh_whom i) ''v'' = None"
    by (auto split: outcome.splits option.splits)
  let ?q = "new_request\<lparr>rq_path := Path ''f'', rq_mark := RQ_Transmission\<rparr>"
  have "path_head (rq_path ?q) = ''f''" "rq_mark ?q \<noteq> RQ_TransmissionCancel" by code_simp+
  moreover have "se_perm (demo_reader s) = Some (onCheckPermissions (\<lambda>h. h) s)" by (simp add: demo_reader_def)
  ultimately show ?thesis
    using sharing_refuses [OF named run i(1-3), of "\<lambda>h. h" "''v''" "demo_reader s" ?q] run i(4) by blast
qed

text \<open>
  The check goes by the first part of the path, the shares by the path they were given: a share
  whose name had characters replaced is read under the permissions of another one, or by nobody.
\<close>

lemma permission_confused:
  "case fh_run demo_share_env [FhShare ''a:b'' ''f'' False [], FhShare ''a_b'' ''g'' True []] (fh_started demo_share_env) of
     Done s \<Rightarrow> map_option sh_path (map_of (fh_infos s) ''a:b'') = Some (Path ''a_b'') \<and>
       map_option sh_path (map_of (fh_infos s) ''a_b'') = Some (Path ''a_b_0'') \<and>
       fh_checkPermissions ''v'' ''a:b'' s = NoPerm \<and>
       onCheckPermissions (\<lambda>h. h) s ''v'' (Path ''a_b'') \<and>
       \<not> onCheckPermissions (\<lambda>h. h) s ''v'' (Path ''a_b_0'')
   | Fault f \<Rightarrow> False"
  by code_simp

lemma renamed_share_unreachable:
  assumes "map_of (fh_infos s) (path_head (sh_path i)) = None" and "sh_path i \<noteq> gSharedName"
  shows "\<not> onCheckPermissions userOf s host (sh_path i)"
  using assms by (simp add: onCheckPermissions_def fh_checkPermissions_def)

text \<open>What was not published stays in the list: a second try is refused.\<close>

lemma failed_add_stays:
  assumes "sv_proms (fh_server s) gSharedName = None" and "map_of (sl_list (fh_listServer s)) n = None"
  shows "\<exists>s'. sl_add E n el s = Done (NotFound, s') \<and> map_of (sl_list (fh_listServer s')) n = Some el \<and>
     sl_add E n el s' = Done (ExistsAlready, s')"
  using assms by (auto simp: sl_add_def sl_update_def sv_update_def sv_proms_def fh_set_list_def)

text \<open>\<open>fixResourceName\<close> keeps 64 characters, one more than it means to.\<close>

lemma resource_name_64: "length (fixResourceName (replicate 64 (CHR ''a''))) = 64"
  by code_simp

end
