(* ===== verification/Sf_Tracker.thy ===== *)
theory Sf_Tracker
  imports Sf_DSClient Sf_FileSharing
begin

text \<open>
  Following what another host shares: \<open>libflocke/flocke/objsync/DataTracker\<close> and, on top of it,
  \<open>libflocke/flocke/sharedlists/SharedListTracker\<close>, over the data sharing client.

  A \<open>TrackInfo\<close> is held by shared pointers, from the map and from the callbacks that were given to
  the client: it is an entry of a heap, and its number is the callback's.  What a tracker tells its
  user is the list of its calls, which are always the last thing that a handler does.
\<close>

subsection \<open>The tracker\<close>

datatype track_state = TrNone | TrEstablishing | TrTracking | TrLost | TrError | TrToDelete

text \<open>The two bits of \<open>awaiting\<close>, which nothing reads, are apart.\<close>

record track_info =
  ki_state :: track_state
  ki_uri :: uri
  ki_awaitSubscribe :: bool
  ki_awaitRequest :: bool
  ki_revision :: int

record data_tracker =
  dk_heap :: "(nat, track_info) smap"
  dk_alloc :: nat
  dk_tracked :: "(uri, nat) smap"
  dk_client :: ds_client

datatype track_call = DataUpdated uri int bytes | TrackChanged uri track_state

definition dk_new :: "ds_client \<Rightarrow> data_tracker" where
  "dk_new c = \<lparr>dk_heap = [], dk_alloc = 0, dk_tracked = [], dk_client = c\<rparr>"

definition dk_put :: "nat \<Rightarrow> track_info \<Rightarrow> data_tracker \<Rightarrow> data_tracker" where
  "dk_put n i s = s\<lparr>dk_heap := sm_insert n i (dk_heap s)\<rparr>"

definition dk_track :: "cl_env \<Rightarrow> uri \<Rightarrow> data_tracker \<Rightarrow> error \<times> data_tracker" where
  "dk_track E u s =
     (let n = dk_alloc s
      in case cl_subscribe E (u_host u) (new_subscribe\<lparr>sb_path := u_path u\<rparr>) n (Some n) 10000 (dk_client s) of
           (err, _, c) \<Rightarrow>
             let s1 = s\<lparr>dk_client := c, dk_alloc := n + 1\<rparr>
             in if failed err then (err, s1)
                else (NoError, (dk_put n \<lparr>ki_state = TrEstablishing, ki_uri = u, ki_awaitSubscribe = True,
                                        ki_awaitRequest = False, ki_revision = -1\<rparr> s1)
                               \<lparr>dk_tracked := sm_insert u n (dk_tracked s1)\<rparr>))"

definition dk_untrack :: "uri \<Rightarrow> data_tracker \<Rightarrow> (error \<times> data_tracker) outcome" where
  "dk_untrack u s =
     (case map_of (dk_tracked s) u of
        None \<Rightarrow> Done (NotFound, s)
      | Some n \<Rightarrow>
          (case map_of (dk_heap s) n of
             None \<Rightarrow> Fault NullDeref
           | Some i \<Rightarrow>
               let s1 = dk_put n (i\<lparr>ki_state := TrToDelete\<rparr>) s
               in Done (NoError, s1\<lparr>dk_client := snd (cancelSubscription u (dk_client s1)),
                                    dk_tracked := sm_erase u (dk_tracked s1)\<rparr>)))"

text \<open>The request that fetches the data.\<close>

definition dk_request :: "cl_env \<Rightarrow> nat \<Rightarrow> track_info \<Rightarrow> data_tracker \<Rightarrow> (error \<times> data_tracker) outcome" where
  "dk_request E n i s =
     outcome_bind (cl_request E (u_host (ki_uri i)) (new_request\<lparr>rq_path := u_path (ki_uri i)\<rparr>) n 10000 (dk_client s))
       (\<lambda>(err, _, c). Done (err, s\<lparr>dk_client := c\<rparr>))"

definition dk_onSubscribeReply ::
  "cl_env \<Rightarrow> ds_subscribe_reply \<Rightarrow> nat \<Rightarrow> data_tracker \<Rightarrow> (track_call list \<times> data_tracker) outcome" where
  "dk_onSubscribeReply E reply n s =
     (case map_of (dk_heap s) n of
        None \<Rightarrow> Fault NullDeref
      | Some i0 \<Rightarrow>
          let i = i0\<lparr>ki_awaitSubscribe := False\<rparr>
          in if ki_state i = TrToDelete \<or> ki_state i = TrError then Done ([], dk_put n i s)
             else if failed (sr_err reply) then
               Done ([TrackChanged (ki_uri i) TrError], dk_put n (i\<lparr>ki_state := TrError\<rparr>) s)
             else
               outcome_bind (dk_request E n i s) (\<lambda>(err, s1).
                 if failed err then Done ([TrackChanged (ki_uri i) TrError], dk_put n (i\<lparr>ki_state := TrError\<rparr>) s1)
                 else Done ([], dk_put n (i\<lparr>ki_awaitRequest := True\<rparr>) s1)))"

definition dk_onRequestReply ::
  "ds_request_reply \<Rightarrow> bytes \<Rightarrow> nat \<Rightarrow> data_tracker \<Rightarrow> (track_call list \<times> data_tracker) outcome" where
  "dk_onRequestReply reply content n s =
     (case map_of (dk_heap s) n of
        None \<Rightarrow> Fault NullDeref
      | Some i0 \<Rightarrow>
          let i = i0\<lparr>ki_awaitRequest := False\<rparr>
          in if ki_state i = TrToDelete \<or> ki_state i = TrError then Done ([], dk_put n i s)
             else if failed (rr_err reply) then
               Done ([TrackChanged (ki_uri i) TrError], dk_put n (i\<lparr>ki_state := TrError\<rparr>) s)
             else if ki_state i = TrEstablishing then
               Done ([TrackChanged (ki_uri i) TrTracking, DataUpdated (ki_uri i) (rr_revision reply) content],
                     dk_put n (i\<lparr>ki_state := TrTracking, ki_revision := rr_revision reply\<rparr>) s)
             else Done ([DataUpdated (ki_uri i) (rr_revision reply) content], dk_put n i s))"

definition dk_onNotify ::
  "cl_env \<Rightarrow> ds_notify \<Rightarrow> nat \<Rightarrow> data_tracker \<Rightarrow> (track_call list \<times> data_tracker) outcome" where
  "dk_onNotify E notif n s =
     (case map_of (dk_heap s) n of
        None \<Rightarrow> Fault NullDeref
      | Some i \<Rightarrow>
          if nt_mark notif = NT_SubscriptionCancel then
            Done ([TrackChanged (ki_uri i) TrLost], dk_put n (i\<lparr>ki_state := TrLost\<rparr>) s)
          else if nt_revision notif > ki_revision i then
            outcome_bind (dk_request E n i s) (\<lambda>(err, s1).
              if failed err then Done ([TrackChanged (ki_uri i) TrError], dk_put n (i\<lparr>ki_state := TrError\<rparr>) s1)
              else Done ([], dk_put n (i\<lparr>ki_awaitRequest := True\<rparr>) s1))
          else Done ([], s))"

text \<open>A call of the client, by the number of the info that its callback is bound to.\<close>

definition dk_called :: "cl_env \<Rightarrow> cl_call \<Rightarrow> data_tracker \<Rightarrow> (track_call list \<times> data_tracker) outcome" where
  "dk_called E c s =
     (case c of
        CallSubscribe n sender reply \<Rightarrow> dk_onSubscribeReply E reply n s
      | CallRequest n sender reply content \<Rightarrow> dk_onRequestReply reply content n s
      | CallNotify n sender notif \<Rightarrow> dk_onNotify E notif n s
      | CallPush n sender reply \<Rightarrow> Fault NullDeref)"

subsection \<open>The shared lists\<close>

datatype list_call = TrackingUpdate host_id shared_list | LostTracking host_id error

record list_tracker =
  lt_tracker :: data_tracker
  lt_lists :: "(host_id, shared_list) smap"
  lt_calls :: "list_call list"

record list_env =
  le_client :: cl_env
  le_decode :: "bytes \<Rightarrow> shared_list option"

definition lt_new :: "ds_client \<Rightarrow> list_tracker" where
  "lt_new c = \<lparr>lt_tracker = dk_new c, lt_lists = [], lt_calls = []\<rparr>"

definition lt_trackShared :: "list_env \<Rightarrow> host_id \<Rightarrow> list_tracker \<Rightarrow> error \<times> list_tracker" where
  "lt_trackShared E host s =
     (case dk_track (le_client E) (uri_make host gSharedName) (lt_tracker s) of (e, k) \<Rightarrow> (e, s\<lparr>lt_tracker := k\<rparr>))"

definition lt_untrackShared :: "host_id \<Rightarrow> list_tracker \<Rightarrow> (error \<times> list_tracker) outcome" where
  "lt_untrackShared host s =
     outcome_bind (dk_untrack (uri_make host gSharedName) (lt_tracker s)) (\<lambda>(e, k). Done (e, s\<lparr>lt_tracker := k\<rparr>))"

definition lt_onDataUpdate :: "list_env \<Rightarrow> uri \<Rightarrow> bytes \<Rightarrow> list_tracker \<Rightarrow> list_tracker outcome" where
  "lt_onDataUpdate E u data s =
     (if u_path u \<noteq> gSharedName then Fault AssertFailed
      else
        (case le_decode E data of
           Some l \<Rightarrow> Done (s\<lparr>lt_lists := sm_insert (u_host u) l (lt_lists s),
                            lt_calls := lt_calls s @ [TrackingUpdate (u_host u) l]\<rparr>)
         | None \<Rightarrow>
             outcome_bind (dk_untrack u (lt_tracker s)) (\<lambda>(_, k).
               Done (s\<lparr>lt_tracker := k, lt_calls := lt_calls s @ [LostTracking (u_host u) BadDeserialization]\<rparr>))))"

definition lt_onStateChange :: "uri \<Rightarrow> track_state \<Rightarrow> list_tracker \<Rightarrow> list_tracker outcome" where
  "lt_onStateChange u st s =
     (if u_path u \<noteq> gSharedName then Fault AssertFailed
      else if st \<noteq> TrTracking
      then Done (s\<lparr>lt_lists := sm_erase (u_host u) (lt_lists s), lt_calls := lt_calls s @ [LostTracking (u_host u) Other]\<rparr>)
      else Done s)"

fun lt_told :: "list_env \<Rightarrow> track_call list \<Rightarrow> list_tracker \<Rightarrow> list_tracker outcome" where
  "lt_told E [] s = Done s"
| "lt_told E (DataUpdated u r d # cs) s = outcome_bind (lt_onDataUpdate E u d s) (lt_told E cs)"
| "lt_told E (TrackChanged u st # cs) s = outcome_bind (lt_onStateChange u st s) (lt_told E cs)"

definition lt_called :: "list_env \<Rightarrow> cl_call \<Rightarrow> list_tracker \<Rightarrow> list_tracker outcome" where
  "lt_called E c s =
     outcome_bind (dk_called (le_client E) c (lt_tracker s)) (\<lambda>(calls, k). lt_told E calls (s\<lparr>lt_tracker := k\<rparr>))"

end
