(* ===== verification/Sf_TrackRuns.thy ===== *)
theory Sf_TrackRuns
  imports Sf_SharingProps Sf_Tracker
begin

text \<open>
  One host that shares files and another that tracks its list, over a network that delivers in
  order: the file sharing with its servers at one end, the client with the list tracker at the
  other, the messages under way in both directions and the callbacks posted to the main loop.
  What a server tells one of its subscribers, whatever is shared meanwhile.
\<close>

subsection \<open>What a subscriber is told\<close>

definition sv_rev :: "ds_server \<Rightarrow> int" where
  "sv_rev s = (case map_of (sv_shared s) gSharedName of None \<Rightarrow> 0 | Some d \<Rightarrow> sd_revision d)"

text \<open>The host subscribes at most to the list.\<close>

definition sv_alone :: "host_id \<Rightarrow> ds_server \<Rightarrow> bool" where
  "sv_alone me s \<longleftrightarrow> (\<forall>p. p \<noteq> gSharedName \<longrightarrow> \<not> subscribed p me s)"

definition sv_to :: "host_id \<Rightarrow> ds_server \<Rightarrow> ds_msg list" where
  "sv_to me s = map snd (filter (\<lambda>x. fst x = me) (sv_sent s))"

definition list_note :: "ds_msg \<Rightarrow> bool" where
  "list_note m \<longleftrightarrow> (case m of MNotify n \<Rightarrow> nt_path n = gSharedName \<and> nt_mark n = NT_NoMark | _ \<Rightarrow> False)"

definition note_rev :: "ds_msg \<Rightarrow> int" where
  "note_rev m = (case m of MNotify n \<Rightarrow> nt_revision n | _ \<Rightarrow> 0)"

abbreviation listens :: "host_id \<Rightarrow> file_sharing \<Rightarrow> bool" where
  "listens me s \<equiv> subscribed gSharedName me (fh_server s)"

definition told :: "host_id \<Rightarrow> file_sharing \<Rightarrow> ds_msg list \<Rightarrow> file_sharing \<Rightarrow> bool" where
  "told me s ms s' \<longleftrightarrow> sv_alone me (fh_server s') \<and> listens me s' = listens me s \<and>
     sv_to me (fh_server s') = sv_to me (fh_server s) @ ms \<and> list_all list_note ms \<and>
     (\<not> listens me s \<longrightarrow> ms = []) \<and> sorted_wrt (\<le>) (map note_rev ms) \<and>
     (\<forall>m \<in> set ms. sv_rev (fh_server s) < note_rev m \<and> note_rev m \<le> sv_rev (fh_server s')) \<and>
     sv_rev (fh_server s) \<le> sv_rev (fh_server s') \<and>
     (listens me s \<and> ms = [] \<longrightarrow> sl_list (fh_listServer s') = sl_list (fh_listServer s))"

lemma told_refl: "sv_alone me (fh_server s) \<Longrightarrow> told me s [] s"
  by (simp add: told_def)

lemma told_trans:
  assumes "told me s ms s1" and "told me s1 ms' s2"
  shows "told me s (ms @ ms') s2"
  using assms by (fastforce simp: told_def sorted_wrt_append)

lemma told_same:
  assumes "sv_alone me (fh_server s)" and "sv_alone me (fh_server s')"
    and "listens me s' = listens me s" and "sv_to me (fh_server s') = sv_to me (fh_server s)"
    and "sv_rev (fh_server s') = sv_rev (fh_server s)" and "fh_listServer s' = fh_listServer s"
  shows "told me s [] s'"
  using assms by (simp add: told_def)

lemma sv_to_send_set:
  "sv_to me (sv_send_set hosts m s) = sv_to me s @ replicate (length (filter (\<lambda>x. fst x = me) hosts)) m"
  by (induction hosts) (auto simp: sv_to_def sv_send_set_def split: if_splits)

lemma not_subscriber: "map_of hosts me = None \<Longrightarrow> filter (\<lambda>x. fst x = me) hosts = []"
  by (auto simp: map_of_eq_None_iff filter_empty_conv image_iff)

lemma is_subscriber: "map_of hosts me \<noteq> None \<Longrightarrow> filter (\<lambda>x. fst x = me) hosts \<noteq> []"
  by (auto simp: map_of_eq_None_iff filter_empty_conv image_iff)

lemma share_told:
  assumes "fh_on_server (sv_share p pr) s = (e, s')" and "sv_alone me (fh_server s)"
    and "sv_proms (fh_server s) gSharedName \<noteq> None"
  shows "told me s [] s'"
proof -
  obtain sv where sv: "sv_share p pr (fh_server s) = (e, sv)" "s' = s\<lparr>fh_server := sv\<rparr>"
    using assms(1) by (auto simp: fh_on_server_def split: prod.splits)
  show ?thesis
    using sv assms(2,3)
    by (intro told_same)
      (auto simp: sv_share_def sv_alone_def subscribed_def sv_to_def sv_rev_def sv_proms_def split: if_splits)
qed

lemma unShare_told:
  assumes "fh_on_server (sv_unShare p) s = (e, s')" and "sv_alone me (fh_server s)" and "p \<noteq> gSharedName"
  shows "told me s [] s'"
proof -
  obtain sv where sv: "sv_unShare p (fh_server s) = (e, sv)" "s' = s\<lparr>fh_server := sv\<rparr>"
    using assms(1) by (auto simp: fh_on_server_def split: prod.splits)
  show ?thesis
  proof (cases "map_of (sv_shared (fh_server s)) p")
    case None
    then show ?thesis using sv assms(2) by (intro told_same) (auto simp: sv_unShare_def)
  next
    case (Some d)
    then have "map_of (sd_subscribers d) me = None"
      using assms(2,3) unfolding sv_alone_def subscribed_def by blast
    from not_subscriber [OF this]
    have "sv_to me (sv_send_set (sd_subscribers d) m t) = sv_to me t" for m t by (simp add: sv_to_send_set)
    moreover have sv_eq: "sv = (sv_send_set (sd_subscribers d) (cancel_notify p) (fh_server s))
        \<lparr>sv_shared := sm_erase p (sv_shared (fh_server s))\<rparr>"
      using sv(1) Some by (simp add: sv_unShare_def)
    ultimately have "sv_to me sv = sv_to me (fh_server s)" by (simp add: sv_to_def)
    moreover have shared: "map_of (sv_shared sv) q = (if q = p then None else map_of (sv_shared (fh_server s)) q)" for q
      by (simp add: sv_eq)
    have "sv_alone me sv" using assms(2) unfolding sv_alone_def subscribed_def shared by (auto split: if_splits)
    moreover have "sv_rev sv = sv_rev (fh_server s)" using assms(3) by (simp add: sv_rev_def shared)
    moreover have "subscribed gSharedName me sv = subscribed gSharedName me (fh_server s)"
      using assms(3) by (simp add: subscribed_def shared)
    ultimately show ?thesis using assms(2) sv(2) by (intro told_same) simp_all
  qed
qed

lemma update_told:
  assumes "sl_update E (fh_set_list l s) = Done (e, s')" and "sv_alone me (fh_server s)"
    and "sv_proms (fh_server s) gSharedName \<noteq> None"
  shows "\<exists>ms. told me s ms s'"
proof -
  obtain d where d: "map_of (sv_shared (fh_server s)) gSharedName = Some d" using assms(3) by (auto simp: sv_proms_def)
  obtain n where n: "sp_size (sl_promise E (fh_set_list l s)) = Done n"
    by (simp add: sl_promise_def createPromise_def fixedSharingPromise_def createDataPromise_def)
  define r where "r = (if sd_revision d \<le> 0 then 1 else sd_revision d + 1)"
  define m where "m = MNotify (new_notify\<lparr>nt_path := gSharedName, nt_revision := r, nt_size := n\<rparr>)"
  define sv where "sv = sv_send_set (sd_subscribers d) m ((fh_server s)\<lparr>sv_shared := sm_insert gSharedName
      (d\<lparr>sd_revision := r, sd_promise := Some (sl_promise E (fh_set_list l s))\<rparr>) (sv_shared (fh_server s))\<rparr>)"
  have s': "s' = (fh_set_list l s)\<lparr>fh_server := sv\<rparr>"
    using assms(1) d n
    by (auto simp: sl_update_def sv_update_def notifySubscriber_def Let_def fh_set_list_def sv_def m_def r_def)
  let ?ms = "replicate (length (filter (\<lambda>x. fst x = me) (sd_subscribers d))) m"
  have r: "sd_revision d < r" by (simp add: r_def)
  have m: "list_note m" "note_rev m = r" by (simp_all add: m_def list_note_def note_rev_def new_notify_def)
  have to: "sv_to me sv = sv_to me (fh_server s) @ ?ms"
    unfolding sv_def sv_to_send_set by (simp add: sv_to_def)
  have shared: "sv_shared sv = sm_insert gSharedName
      (d\<lparr>sd_revision := r, sd_promise := Some (sl_promise E (fh_set_list l s))\<rparr>) (sv_shared (fh_server s))"
    by (simp add: sv_def sv_send_set_def)
  have rev: "sv_rev sv = r" "sv_rev (fh_server s) = sd_revision d" by (simp_all add: sv_rev_def shared d)
  have sub: "subscribed p me sv = subscribed p me (fh_server s)" for p using d by (auto simp: subscribed_def shared)
  have listens: "listens me s \<longleftrightarrow> ?ms \<noteq> []"
    using d not_subscriber [of "sd_subscribers d" me] is_subscriber [of "sd_subscribers d" me]
    by (cases "map_of (sd_subscribers d) me = None") (simp_all add: subscribed_def)
  have "told me s ?ms s'"
    using r m to rev sub listens assms(2)
    by (auto simp: told_def s' sv_alone_def list_all_iff sorted_wrt_iff_nth_less)
  then show ?thesis ..
qed

lemma published_shared: "fh_ok E s \<Longrightarrow> sv_proms (fh_server s) gSharedName \<noteq> None"
  by (simp add: fh_ok_def fh_published_def)

lemma told_trans_ex: "told me s ms s1 \<Longrightarrow> \<exists>ms'. told me s1 ms' s2 \<Longrightarrow> \<exists>ms'. told me s ms' s2"
  using told_trans by blast

lemma told_infos: "told me s ms (s'\<lparr>fh_infos := i\<rparr>) = told me s ms s'"
  by (simp add: told_def)

lemma told_infos_from: "told me (s\<lparr>fh_infos := i\<rparr>) ms s' = told me s ms s'"
  by (simp add: told_def)

lemma unshare_told:
  assumes "fh_ok E s" and "fh_unshare E n s = Done (e, s')" and "sv_alone me (fh_server s)"
  shows "\<exists>ms. told me s ms s'"
proof (cases "map_of (fh_infos s) n")
  case None
  then show ?thesis using assms told_refl by (auto simp: fh_unshare_def)
next
  case (Some info)
  have p: "sh_path info \<noteq> gSharedName" "sv_proms (fh_server s) (sh_path info) \<noteq> None"
    using fh_infos_okD(2,3) [OF _ Some] assms(1) by (auto simp: fh_ok_def)
  obtain err s1 where un: "fh_on_server (sv_unShare (sh_path info)) s = (err, s1)" by fastforce
  then obtain sv where sv: "sv_unShare (sh_path info) (fh_server s) = (err, sv)" "s1 = s\<lparr>fh_server := sv\<rparr>"
    by (auto simp: fh_on_server_def split: prod.splits)
  from sv_unShare_proms [OF sv(1)] p have e: "err = NoError" "sv_proms sv gSharedName \<noteq> None"
    using published_shared [OF assms(1)] by auto
  note t1 = unShare_told [OF un assms(3) p(1)]
  let ?s = "s1\<lparr>fh_infos := sm_erase n (fh_infos s1)\<rparr>"
  obtain e2 where rm: "sl_remove E n ?s = Done (e2, s')"
    using assms(2) Some un e(1) by (cases "sl_remove E n ?s") (auto simp: fh_unshare_def)
  have alone: "sv_alone me (fh_server ?s)" using t1 by (simp add: told_def)
  have "\<exists>ms. told me ?s ms s'"
  proof (cases "map_of (sl_list (fh_listServer ?s)) n = None")
    case True
    then show ?thesis using rm told_refl [OF alone] by (auto simp: sl_remove_def)
  next
    case False
    then have "sl_update E (fh_set_list (sm_erase n (sl_list (fh_listServer ?s))) ?s) = Done (e2, s')"
      using rm by (auto simp: sl_remove_def)
    from update_told [OF this alone] e(2) sv(2) show ?thesis by simp
  qed
  then show ?thesis using told_trans_ex [OF t1] by (simp add: told_infos_from)
qed

lemma share_file_told:
  assumes "fh_ok E s" and "fh_share E n f a w s = Done (e, s')" and "sv_alone me (fh_server s)"
  shows "\<exists>ms. told me s ms s'"
proof -
  let ?p = "createPath n (fh_server s)"
  obtain perr size promise where load: "load_promise E f = (perr, size, promise)" by (cases "load_promise E f") auto
  obtain err s1 where sh: "fh_on_server (sv_share ?p (Some promise)) s = (err, s1)" by fastforce
  then obtain sv where sv: "sv_share ?p (Some promise) (fh_server s) = (err, sv)" "s1 = s\<lparr>fh_server := sv\<rparr>"
    by (auto simp: fh_on_server_def split: prod.splits)
  have init: "fh_initialized s" using assms(1) by (simp add: fh_ok_def)
  show ?thesis
  proof (cases "map_of (fh_infos s) n \<noteq> None \<or> failed perr \<or> failed err")
    case True
    then have "s' = s" using assms(2) init load sh sv sv_share_proms [OF sv(1)]
      by (auto simp: fh_share_def Let_def split: if_splits)
    then show ?thesis using told_refl [OF assms(3)] by blast
  next
    case False
    with sv_share_proms [OF sv(1)] have p: "sv_proms (fh_server s) ?p = None"
      "sv_proms sv gSharedName \<noteq> None" using published_shared [OF assms(1)] by (auto simp del: fun_upd_apply simp: fun_upd_def)
    have new: "?p \<noteq> gSharedName" using p(1) published_shared [OF assms(1)] by auto
    note t1 = share_told [OF sh assms(3) published_shared [OF assms(1)]]
    define el where "el = \<lparr>se_path = ?p, se_size = size,
      se_desc = no_desc\<lparr>dd_user := (if fs_isDirectory (he_fs E) f then ''dir'' else ''file'')\<rparr>\<rparr>"
    obtain e2 s2 where add: "sl_add E n el s1 = Done (e2, s2)"
      using assms(2) False init load sh by (cases "sl_add E n el s1") (auto simp: fh_share_def Let_def el_def split: prod.splits)
    have alone: "sv_alone me (fh_server s1)" using t1 by (simp add: told_def)
    have t2: "\<exists>ms. told me s1 ms s2"
    proof (cases "map_of (sl_list (fh_listServer s1)) n = None")
      case False
      then show ?thesis using add told_refl [OF alone] by (auto simp: sl_add_def)
    next
      case True
      then have "sl_update E (fh_set_list (sm_insert n el (sl_list (fh_listServer s1))) s1) = Done (e2, s2)"
        using add by (simp add: sl_add_def)
      from update_told [OF this alone] p(2) sv(2) show ?thesis by simp
    qed
    then obtain ms where ms: "told me s ms s2" using told_trans_ex [OF t1] by blast
    then have alone2: "sv_alone me (fh_server s2)" by (simp add: told_def)
    show ?thesis
    proof (cases "failed e2")
      case True
      then have "s' = snd (fh_on_server (sv_unShare ?p) s2)"
        using assms(2) False init load sh add by (simp add: fh_share_def Let_def el_def)
      then show ?thesis
        using unShare_told [OF _ alone2 new] told_trans [OF ms]
        by (cases "fh_on_server (sv_unShare ?p) s2") auto
    next
      case ok: False
      then obtain i where "s' = s2\<lparr>fh_infos := i\<rparr>"
        using assms(2) False init load sh add by (auto simp: fh_share_def Let_def el_def)
      then show ?thesis using ms by (auto simp: told_infos)
    qed
  qed
qed

text \<open>What the sharing host does on its own, and what others ask of it.\<close>

definition others_event :: "host_id \<Rightarrow> fh_event \<Rightarrow> bool" where
  "others_event me e \<longleftrightarrow> named_event e \<and>
     (case e of FhSubscribe V h q \<Rightarrow> h \<noteq> me | FhOffline V h \<Rightarrow> h \<noteq> me | _ \<Rightarrow> True)"

lemma other_subscribe_told:
  assumes "h \<noteq> me" and "sv_alone me (fh_server s)"
  shows "told me s [] (s\<lparr>fh_server := sv_onSubscribe V h q (fh_server s)\<rparr>)"
proof -
  let ?sv = "sv_onSubscribe V h q (fh_server s)"
  have "subscribed p me ?sv = subscribed p me (fh_server s)" for p
    using assms(1) by (auto simp: subscribed_def sv_onSubscribe_def sv_send_def Let_def split: option.splits)
  moreover have "sv_to me ?sv = sv_to me (fh_server s)" "sv_rev ?sv = sv_rev (fh_server s)"
    using assms(1) by (auto simp: sv_to_def sv_rev_def sv_onSubscribe_def sv_send_def Let_def split: option.splits)
  ultimately show ?thesis using assms(2) by (intro told_same) (simp_all add: sv_alone_def)
qed

lemma other_offline_told:
  assumes "h \<noteq> me" and "sv_alone me (fh_server s)" and "sv_onChannelChange V h (fh_server s) = Done sv"
  shows "told me s [] (s\<lparr>fh_server := sv\<rparr>)"
proof (cases "se_level V h > 0")
  case True
  then show ?thesis using assms by (intro told_same) (auto simp: sv_onChannelChange_def)
next
  case False
  then have sv: "sv = (fh_server s)\<lparr>sv_sent := sv_sent (fh_server s) @ concat (map (snd \<circ> sv_drop_subscriber h) (sv_shared (fh_server s))),
      sv_shared := map (fst \<circ> sv_drop_subscriber h) (sv_shared (fh_server s))\<rparr>"
    using assms(3) by (auto simp: sv_onChannelChange_def split: if_splits)
  have sent: "filter (\<lambda>x. fst x = me) (snd (sv_drop_subscriber h e)) = []" for e
    using assms(1) by (simp add: sv_drop_subscriber_def split: prod.split)
  have "filter (\<lambda>x. fst x = me) (concat (map (snd \<circ> sv_drop_subscriber h) m)) = []" for m
    by (induction m) (simp_all add: sent)
  then have to: "sv_to me sv = sv_to me (fh_server s)" by (simp add: sv_to_def sv)
  have shared: "map_of (sv_shared sv) p = map_option (\<lambda>d. snd (fst (sv_drop_subscriber h (p, d)))) (map_of (sv_shared (fh_server s)) p)" for p
    using map_of_map_entry [where f = "\<lambda>e. fst (sv_drop_subscriber h e)" and m = "sv_shared (fh_server s)" and p = p]
    by (simp add: sv comp_def drop_subscriber_fst)
  have d: "map_of (sd_subscribers (snd (fst (sv_drop_subscriber h (p, d))))) me = map_of (sd_subscribers d) me"
    "sd_revision (snd (fst (sv_drop_subscriber h (p, d)))) = sd_revision d" for p d
    using assms(1) by (simp_all add: sv_drop_subscriber_def)
  have "subscribed p me sv = subscribed p me (fh_server s)" for p by (auto simp: subscribed_def shared d)
  moreover have "sv_rev sv = sv_rev (fh_server s)" by (simp add: sv_rev_def shared d split: option.split)
  ultimately show ?thesis using assms(2) to by (intro told_same) (simp_all add: sv_alone_def)
qed

lemma step_told:
  assumes "fh_ok E s" and "others_event me e" and "sv_alone me (fh_server s)"
  shows "\<exists>s' ms. fh_step E e s = Done s' \<and> fh_ok E s' \<and> told me s ms s'"
proof -
  obtain s' where s': "fh_step E e s = Done s'" "fh_ok E s'"
    using fh_step_ok [OF assms(1)] assms(2) by (auto simp: others_event_def)
  have "\<exists>ms. told me s ms s'"
  proof (cases e)
    case (FhShare n f a w)
    then obtain x where "fh_share E n f a w s = Done (x, s')"
      using s'(1) by (cases "fh_share E n f a w s") auto
    from share_file_told [OF assms(1) this assms(3)] show ?thesis .
  next
    case (FhUnshare n)
    then obtain x where "fh_unshare E n s = Done (x, s')" using s'(1) by (cases "fh_unshare E n s") auto
    from unshare_told [OF assms(1) this assms(3)] show ?thesis .
  next
    case (FhEdit n f a w)
    obtain x s1 where un: "fh_unshare E n s = Done (x, s1)" "fh_ok E s1" "x = NoError \<or> x = NotFound"
      using fh_unshare_ok [OF assms(1), of n] by (auto split: if_splits)
    then obtain y where sh: "fh_share E n f a w s1 = Done (y, s')"
      using s'(1) FhEdit by (cases "fh_share E n f a w s1") (auto simp: fh_editShare_def)
    obtain ms where ms: "told me s ms s1" using unshare_told [OF assms(1) un(1) assms(3)] by blast
    then have "sv_alone me (fh_server s1)" by (simp add: told_def)
    from told_trans_ex [OF ms share_file_told [OF un(2) sh this]] show ?thesis .
  next
    case (FhSubscribe V h q)
    then show ?thesis using s'(1) assms(2) other_subscribe_told [OF _ assms(3)] by (auto simp: others_event_def)
  next
    case (FhOffline V h)
    then obtain sv where "sv_onChannelChange V h (fh_server s) = Done sv" "s' = s\<lparr>fh_server := sv\<rparr>"
      using s'(1) by (cases "sv_onChannelChange V h (fh_server s)") auto
    then show ?thesis using FhOffline assms(2) other_offline_told [OF _ assms(3)] by (auto simp: others_event_def)
  qed
  then show ?thesis using s' by blast
qed

subsection \<open>The two hosts\<close>

record joint =
  jo_fs :: file_sharing
  jo_lt :: list_tracker
  jo_up :: "ds_msg list"
  jo_down :: "ds_msg list"
  jo_posted :: "cl_call list"

record joint_env =
  je_share :: share_env
  je_list :: list_env
  je_server :: sv_env
  je_user :: "host_id \<Rightarrow> string"
  je_me :: host_id
  je_srv :: host_id

abbreviation jo_server :: "joint \<Rightarrow> ds_server" where
  "jo_server J \<equiv> fh_server (jo_fs J)"

abbreviation lt_client :: "list_tracker \<Rightarrow> ds_client" where
  "lt_client l \<equiv> dk_client (lt_tracker l)"

abbreviation jo_client :: "joint \<Rightarrow> ds_client" where
  "jo_client J \<equiv> lt_client (jo_lt J)"

definition lt_set_client :: "ds_client \<Rightarrow> list_tracker \<Rightarrow> list_tracker" where
  "lt_set_client c l = l\<lparr>lt_tracker := (lt_tracker l)\<lparr>dk_client := c\<rparr>\<rparr>"

text \<open>What an end sent goes into the network; what is meant for other hosts is not followed.\<close>

definition jo_from_server :: "joint_env \<Rightarrow> file_sharing \<Rightarrow> joint \<Rightarrow> joint" where
  "jo_from_server E fs J =
     J\<lparr>jo_fs := fs\<lparr>fh_server := (fh_server fs)\<lparr>sv_sent := []\<rparr>\<rparr>,
       jo_down := jo_down J @ sv_to (je_me E) (fh_server fs)\<rparr>"

definition jo_from_client :: "joint_env \<Rightarrow> list_tracker \<Rightarrow> joint \<Rightarrow> joint" where
  "jo_from_client E l J =
     J\<lparr>jo_lt := lt_set_client ((lt_client l)\<lparr>cl_sent := [], cl_calls := []\<rparr>) l,
       jo_up := jo_up J @ map snd (filter (\<lambda>x. fst x = je_srv E) (cl_sent (lt_client l))),
       jo_posted := jo_posted J @ cl_calls (lt_client l)\<rparr>"

text \<open>The server asks the application for permission.\<close>

definition jo_server_env :: "joint_env \<Rightarrow> joint \<Rightarrow> sv_env" where
  "jo_server_env E J = (je_server E)\<lparr>se_perm := Some (onCheckPermissions (je_user E) (jo_fs J))\<rparr>"

definition jo_set_server :: "ds_server \<Rightarrow> joint \<Rightarrow> file_sharing" where
  "jo_set_server sv J = (jo_fs J)\<lparr>fh_server := sv\<rparr>"

fun jo_serve :: "joint_env \<Rightarrow> ds_msg \<Rightarrow> joint \<Rightarrow> joint outcome" where
  "jo_serve E (MRequest q) J =
     outcome_bind (sv_onRequest (jo_server_env E J) (je_me E) q (jo_server J))
       (\<lambda>sv. Done (jo_from_server E (jo_set_server sv J) J))"
| "jo_serve E (MSubscribe q) J =
     Done (jo_from_server E (jo_set_server (sv_onSubscribe (jo_server_env E J) (je_me E) q (jo_server J)) J) J)"
| "jo_serve E (MPush q c) J =
     Done (jo_from_server E (jo_set_server (sv_onPush (je_me E) q (jo_server J)) J) J)"
| "jo_serve E _ J = Done J"

text \<open>Replies are passed on by posted calls, notifications at once.\<close>

fun lt_all :: "list_env \<Rightarrow> cl_call list \<Rightarrow> list_tracker \<Rightarrow> list_tracker outcome" where
  "lt_all E [] l = Done l"
| "lt_all E (c # cs) l = outcome_bind (lt_called E c l) (lt_all E cs)"

fun jo_receive :: "joint_env \<Rightarrow> ds_msg \<Rightarrow> joint \<Rightarrow> joint outcome" where
  "jo_receive E (MNotify n) J =
     (let c = cl_onNotify (je_srv E) n (jo_client J)
      in outcome_bind (lt_all (je_list E) (cl_calls c) (lt_set_client (c\<lparr>cl_calls := []\<rparr>) (jo_lt J)))
           (\<lambda>l. Done (jo_from_client E l J)))"
| "jo_receive E (MSubscribeReply r) J =
     Done (jo_from_client E (lt_set_client (cl_onSubscribeReply (je_srv E) r (jo_client J)) (jo_lt J)) J)"
| "jo_receive E (MRequestReply r c) J =
     Done (jo_from_client E (lt_set_client
       (cl_onRequestReply (le_client (je_list E)) (je_srv E) r c (jo_client J)) (jo_lt J)) J)"
| "jo_receive E (MPushReply r) J =
     Done (jo_from_client E (lt_set_client (cl_onPushReply (je_srv E) r (jo_client J)) (jo_lt J)) J)"
| "jo_receive E _ J = Done J"

datatype jo_event = JoShare fh_event | JoUp | JoDown | JoCall

fun jo_step :: "joint_env \<Rightarrow> jo_event \<Rightarrow> joint \<Rightarrow> joint outcome" where
  "jo_step E (JoShare e) J =
     outcome_bind (fh_step (je_share E) e (jo_fs J)) (\<lambda>fs. Done (jo_from_server E fs J))"
| "jo_step E JoUp J = (case jo_up J of [] \<Rightarrow> Done J | m # ms \<Rightarrow> jo_serve E m (J\<lparr>jo_up := ms\<rparr>))"
| "jo_step E JoDown J = (case jo_down J of [] \<Rightarrow> Done J | m # ms \<Rightarrow> jo_receive E m (J\<lparr>jo_down := ms\<rparr>))"
| "jo_step E JoCall J =
     (case jo_posted J of
        [] \<Rightarrow> Done J
      | c # cs \<Rightarrow>
          outcome_bind (lt_called (je_list E) c (jo_lt J)) (\<lambda>l. Done (jo_from_client E l (J\<lparr>jo_posted := cs\<rparr>))))"

fun jo_run :: "joint_env \<Rightarrow> jo_event list \<Rightarrow> joint \<Rightarrow> joint outcome" where
  "jo_run E [] J = Done J"
| "jo_run E (e # es) J = outcome_bind (jo_step E e J) (jo_run E es)"

text \<open>The sharing host is started, and the other one begins to track it.\<close>

definition jo_start :: "joint_env \<Rightarrow> joint" where
  "jo_start E =
     jo_from_client E (snd (lt_trackShared (je_list E) (je_srv E) (lt_new cl_new)))
       \<lparr>jo_fs = fh_started (je_share E), jo_lt = lt_new cl_new, jo_up = [], jo_down = [], jo_posted = []\<rparr>"

definition jo_quiet :: "joint \<Rightarrow> bool" where
  "jo_quiet J \<longleftrightarrow> jo_up J = [] \<and> jo_down J = [] \<and> jo_posted J = []"

lemma jo_run_append: "jo_run E (es @ es') J = outcome_bind (jo_run E es J) (jo_run E es')"
proof (induction es arbitrary: J)
  case (Cons e es)
  then show ?case by (cases "jo_step E e J") simp_all
qed simp

end
