(* ===== verification/Sf_TrackProps.thy ===== *)
theory Sf_TrackProps
  imports Sf_TrackRuns
begin

text \<open>
  The list that is shown is the list that is shared: the invariant of the joint runs of a sharing
  host and a tracking one, and what follows from it.
\<close>

subsection \<open>The client\<close>

definition cl_pend :: "ds_client \<Rightarrow> int \<Rightarrow> (int \<times> cl_data) option" where
  "cl_pend c i = map_option (\<lambda>op. (op_type op, op_data op)) (map_of (ab_map (cl_ops c)) i)"

definition cl_ok :: "ds_client \<Rightarrow> bool" where
  "cl_ok c \<longleftrightarrow> ab_ok (cl_ops c) \<and> (\<forall>i op. map_of (ab_map (cl_ops c)) i = Some op \<longrightarrow> op_addr op < cl_alloc c)"

lemma cl_same [simp]:
  "cl_pend (c\<lparr>cl_calls := x\<rparr>) = cl_pend c" "cl_pend (c\<lparr>cl_sent := y\<rparr>) = cl_pend c"
  "cl_pend (c\<lparr>cl_subs := z\<rparr>) = cl_pend c" "cl_ok (c\<lparr>cl_calls := x\<rparr>) = cl_ok c"
  "cl_ok (c\<lparr>cl_sent := y\<rparr>) = cl_ok c" "cl_ok (c\<lparr>cl_subs := z\<rparr>) = cl_ok c"
  by (simp_all add: cl_pend_def cl_ok_def fun_eq_iff)

lemma cl_start_ok:
  assumes "cl_ok c" and "genFreeId (cl_ops c) = (i, b)" and "\<And>h m. ce_send E h m = NoError"
  shows "\<exists>c'. cl_start E i ty src m d t (c\<lparr>cl_ops := b\<rparr>) = (NoError, c') \<and> cl_ok c' \<and> cl_pend c i = None \<and>
     cl_pend c' = (cl_pend c)(i \<mapsto> (ty, d)) \<and> cl_sent c' = cl_sent c @ [(src, m)] \<and> cl_calls c' = cl_calls c \<and>
     cl_subs c' = cl_subs c"
proof -
  let ?c1 = "cl_send src m (c\<lparr>cl_ops := b\<rparr>)"
  obtain key c2 where hk: "hostKey src ?c1 = (key, c2)" by fastforce
  have c2: "cl_ops c2 = b" "cl_sent c2 = cl_sent c @ [(src, m)]" "cl_calls c2 = cl_calls c" "cl_subs c2 = cl_subs c"
    "cl_alloc c2 = cl_alloc c"
    using hk by (auto simp: hostKey_def cl_send_def split: option.splits)
  let ?op = "(new_op ty (regTimeOutMs (ce_now E) t) (cl_alloc c2) d)\<lparr>op_id := i, op_key := key\<rparr>"
  have bm: "ab_map b = ab_map (cl_ops c)" "ab_ops b = ab_ops (cl_ops c)"
    using assms(2) by (auto simp: genFreeId_def)
  have "ab_wf (cl_ops c)" using assms(1) by (simp add: cl_ok_def ab_ok_def)
  then have "op_addr ?op \<notin> op_addr ` set (ab_ops (cl_ops c))"
    using assms(1) ab_wf_opsD by (fastforce simp: cl_ok_def c2(5) new_op_def)
  moreover have okc: "ab_ok (cl_ops c)" using assms(1) by (simp add: cl_ok_def)
  ultimately have fresh: "op_fresh ?op b" using genFreeId_fresh [OF _ assms(2)] by simp
  have okb: "ab_ok b" using genFreeId_ok [OF okc] assms(2) by simp
  obtain k b' where add: "addAsyncOp ?op b = (k, b')" by fastforce
  note added = addAsyncOp_ok [OF okb fresh add]
  have "i \<noteq> 0" using okc assms(2) by (auto simp: genFreeId_def ab_ok_def ab_wf_def)
  then have "k = i" using add by (auto simp: addAsyncOp_def Let_def)
  note added = added [unfolded this]
  let ?c' = "c2\<lparr>cl_ops := b', cl_alloc := cl_alloc c2 + 1\<rparr>"
  have map: "map_of (ab_map b') = (map_of (ab_map (cl_ops c)))(i \<mapsto> ?op\<lparr>op_id := i\<rparr>)"
    using added(2) unfolding bm .
  have "cl_ok ?c'"
    using added(1) map assms(1) by (auto simp: cl_ok_def c2(5) new_op_def less_SucI split: if_splits)
  moreover have "cl_pend ?c' = (cl_pend c)(i \<mapsto> (ty, d))"
    by (auto simp: cl_pend_def fun_eq_iff map new_op_def)
  moreover have "cl_pend c i = None" using added(4) bm by (simp add: cl_pend_def)
  moreover have "cl_start E i ty src m d t (c\<lparr>cl_ops := b\<rparr>) = (NoError, ?c')"
    using hk add c2(1) assms(3) by (simp add: cl_start_def Let_def)
  ultimately show ?thesis using c2 by auto
qed

lemma cl_request_ok:
  assumes "cl_ok c" and "\<And>h m. ce_send E h m = NoError" and "rq_id q = 0"
  shows "\<exists>i c'. cl_request E src q cb t c = Done (NoError, i, c') \<and> cl_ok c' \<and> cl_pend c i = None \<and>
     cl_pend c' = (cl_pend c)(i \<mapsto> (REQUEST, RequestOp cb (rq_mark q = RQ_Transmission) (rq_path q))) \<and>
     cl_sent c' = cl_sent c @ [(src, MRequest (q\<lparr>rq_id := i\<rparr>))] \<and> cl_calls c' = cl_calls c \<and> cl_subs c' = cl_subs c"
proof -
  obtain i b where g: "genFreeId (cl_ops c) = (i, b)" by fastforce
  from cl_start_ok [OF assms(1) g assms(2), where ty = REQUEST and src = src and m = "MRequest (q\<lparr>rq_id := i\<rparr>)"
      and d = "RequestOp cb (rq_mark q = RQ_Transmission) (rq_path q)" and t = t]
  show ?thesis using assms(3) g by (auto simp: cl_request_def)
qed

lemma cl_subscribe_ok:
  assumes "cl_ok c" and "\<And>h m. ce_send E h m = NoError"
  shows "\<exists>i c'. cl_subscribe E src q cb d t c = (NoError, i, c') \<and> cl_ok c' \<and> cl_pend c i = None \<and>
     cl_pend c' = (cl_pend c)(i \<mapsto> (SUBSCRIBE, SubscribeOp cb d)) \<and>
     cl_sent c' = cl_sent c @ [(src, MSubscribe (q\<lparr>sb_id := i\<rparr>))] \<and> cl_calls c' = cl_calls c \<and> cl_subs c' = cl_subs c"
proof -
  obtain i b where g: "genFreeId (cl_ops c) = (i, b)" by fastforce
  from cl_start_ok [OF assms(1) g assms(2), where ty = SUBSCRIBE and src = src and m = "MSubscribe (q\<lparr>sb_id := i\<rparr>)"
      and d = "SubscribeOp cb d" and t = t]
  show ?thesis using g by (auto simp: cl_subscribe_def)
qed

lemma cl_get:
  assumes "cl_ok c" and "cl_pend c i = Some (ty, d)"
  shows "\<exists>op b. getReadyAsyncOpOf i ty (cl_ops c) = (Some op, b) \<and> op_data op = d \<and> cl_ok (c\<lparr>cl_ops := b\<rparr>) \<and>
     cl_pend (c\<lparr>cl_ops := b\<rparr>) = (cl_pend c)(i := None)"
proof -
  obtain op where op: "map_of (ab_map (cl_ops c)) i = Some op" "op_type op = ty" "op_data op = d"
    using assms(2) by (auto simp: cl_pend_def)
  let ?b = "ab_remove op i (cl_ops c)"
  have ok: "ab_ok (cl_ops c)" using assms(1) by (simp add: cl_ok_def)
  then have "ab_wf (cl_ops c)" by (simp add: ab_ok_def)
  note rm = ab_remove_props(3) [OF this op(1)]
  have "getReadyAsyncOpOf i ty (cl_ops c) = (Some op, ?b)"
    using op by (simp add: getReadyAsyncOpOf_def getReadyAsyncOp_def)
  moreover have "cl_ok (c\<lparr>cl_ops := ?b\<rparr>)"
    using assms(1) ab_remove_ok [OF ok op(1)] by (auto simp: cl_ok_def rm split: if_splits)
  moreover have "cl_pend (c\<lparr>cl_ops := ?b\<rparr>) = (cl_pend c)(i := None)"
    by (auto simp: cl_pend_def fun_eq_iff rm)
  ultimately show ?thesis using op(3) by blast
qed

lemma cl_reply_ok:
  assumes "cl_ok c" and "cl_pend c (rr_id r) = Some (REQUEST, RequestOp cb False p)"
  shows "\<exists>c'. cl_onRequestReply E sender r x c = c' \<and> cl_ok c' \<and> cl_pend c' = (cl_pend c)(rr_id r := None) \<and>
     cl_calls c' = cl_calls c @ [CallRequest cb sender (filled_reply p r) x] \<and> cl_sent c' = cl_sent c \<and> cl_subs c' = cl_subs c"
proof -
  obtain op b where "getReadyAsyncOpOf (rr_id r) REQUEST (cl_ops c) = (Some op, b)" "op_data op = RequestOp cb False p"
    "cl_ok (c\<lparr>cl_ops := b\<rparr>)" "cl_pend (c\<lparr>cl_ops := b\<rparr>) = (cl_pend c)(rr_id r := None)"
    using cl_get [OF assms] by blast
  then show ?thesis
    by (simp add: cl_onRequestReply_def cl_follows_def Let_def cl_call_def filled_reply_def)
qed

lemma cl_subscribed_ok:
  assumes "cl_ok c" and "cl_pend c (sr_id r) = Some (SUBSCRIBE, SubscribeOp cb d)" and "sr_err r = NoError"
  shows "\<exists>c' si. cl_onSubscribeReply sender r c = c' \<and> cl_ok c' \<and> cl_pend c' = (cl_pend c)(sr_id r := None) \<and>
     cl_calls c' = cl_calls c @ [CallSubscribe cb sender r] \<and> cl_sent c' = cl_sent c \<and> si_delegate si = d \<and>
     map_of (cl_subs c') (uri_make sender (sr_path r)) = Some si"
proof -
  obtain op b where "getReadyAsyncOpOf (sr_id r) SUBSCRIBE (cl_ops c) = (Some op, b)" "op_data op = SubscribeOp cb d"
    "cl_ok (c\<lparr>cl_ops := b\<rparr>)" "cl_pend (c\<lparr>cl_ops := b\<rparr>) = (cl_pend c)(sr_id r := None)"
    using cl_get [OF assms(1,2)] by blast
  then show ?thesis
    using assms(3) by (auto simp: cl_onSubscribeReply_def Let_def cl_call_def)
qed

subsection \<open>The tracker\<close>

definition list_request :: "int \<Rightarrow> ds_msg" where
  "list_request i = MRequest (new_request\<lparr>rq_path := gSharedName, rq_id := i\<rparr>)"

definition lt_following :: "host_id \<Rightarrow> track_info \<Rightarrow> list_tracker \<Rightarrow> bool" where
  "lt_following srv info l \<longleftrightarrow> map_of (dk_heap (lt_tracker l)) 0 = Some info \<and>
     ki_uri info = Uri srv gSharedName True \<and> (ki_state info = TrEstablishing \<or> ki_state info = TrTracking) \<and>
     cl_ok (lt_client l)"

abbreviation list_op :: "int \<times> cl_data" where
  "list_op \<equiv> (REQUEST, RequestOp 0 False gSharedName)"

text \<open>The tracker has asked for the list again.\<close>

definition lt_asked :: "host_id \<Rightarrow> int \<Rightarrow> int \<Rightarrow> list_tracker \<Rightarrow> list_tracker \<Rightarrow> bool" where
  "lt_asked srv i rv l l' \<longleftrightarrow> (\<exists>info. lt_following srv info l' \<and> ki_revision info = rv) \<and>
     cl_pend (lt_client l) i = None \<and> cl_pend (lt_client l') = (cl_pend (lt_client l))(i \<mapsto> list_op) \<and>
     cl_sent (lt_client l') = cl_sent (lt_client l) @ [(srv, list_request i)] \<and>
     cl_calls (lt_client l') = cl_calls (lt_client l) \<and> cl_subs (lt_client l') = cl_subs (lt_client l) \<and>
     lt_lists l' = lt_lists l"

lemma dk_request_ok:
  assumes "lt_following srv info l" and "\<And>h m. ce_send E h m = NoError" and "ki_uri info' = ki_uri info"
  shows "\<exists>i c. dk_request E 0 info' (lt_tracker l) = Done (NoError, (lt_tracker l)\<lparr>dk_client := c\<rparr>) \<and> cl_ok c \<and>
     cl_pend (lt_client l) i = None \<and> cl_pend c = (cl_pend (lt_client l))(i \<mapsto> list_op) \<and>
     cl_sent c = cl_sent (lt_client l) @ [(srv, list_request i)] \<and> cl_calls c = cl_calls (lt_client l) \<and>
     cl_subs c = cl_subs (lt_client l)"
proof -
  have "cl_ok (lt_client l)" using assms(1) by (simp add: lt_following_def)
  from cl_request_ok [OF this assms(2), of "new_request\<lparr>rq_path := gSharedName\<rparr>" srv 0 10000] assms(1,3)
  show ?thesis by (auto simp: dk_request_def lt_following_def new_request_def list_request_def)
qed

lemma called_subscribed:
  assumes "lt_following srv info l" and "\<And>h m. ce_send (le_client E) h m = NoError" and "sr_err r = NoError"
  shows "\<exists>l' i. lt_called E (CallSubscribe 0 h r) l = Done l' \<and> lt_asked srv i (ki_revision info) l l'"
proof -
  let ?i = "info\<lparr>ki_awaitSubscribe := False\<rparr>"
  obtain i c where c: "dk_request (le_client E) 0 ?i (lt_tracker l) = Done (NoError, (lt_tracker l)\<lparr>dk_client := c\<rparr>)" "cl_ok c"
    "cl_pend (lt_client l) i = None" "cl_pend c = (cl_pend (lt_client l))(i \<mapsto> list_op)"
    "cl_sent c = cl_sent (lt_client l) @ [(srv, list_request i)]" "cl_calls c = cl_calls (lt_client l)"
    "cl_subs c = cl_subs (lt_client l)"
    using dk_request_ok [OF assms(1,2), of ?i] by auto
  have info: "map_of (dk_heap (lt_tracker l)) 0 = Some info" "\<not> (ki_state info = TrToDelete \<or> ki_state info = TrError)"
    using assms(1) by (auto simp: lt_following_def)
  have "lt_called E (CallSubscribe 0 h r) l =
      Done (l\<lparr>lt_tracker := dk_put 0 (?i\<lparr>ki_awaitRequest := True\<rparr>) ((lt_tracker l)\<lparr>dk_client := c\<rparr>)\<rparr>)"
    using c(1) info assms(3) by (simp add: lt_called_def dk_called_def dk_onSubscribeReply_def Let_def)
  then show ?thesis using c(2-7) assms(1) by (auto simp: lt_asked_def lt_following_def dk_put_def)
qed

lemma called_notify:
  assumes "lt_following srv info l" and "\<And>h m. ce_send (le_client E) h m = NoError"
    and "nt_mark n = NT_NoMark" and "ki_revision info < nt_revision n"
  shows "\<exists>l' i. lt_called E (CallNotify 0 h n) l = Done l' \<and> lt_asked srv i (ki_revision info) l l'"
proof -
  obtain i c where c: "dk_request (le_client E) 0 info (lt_tracker l) = Done (NoError, (lt_tracker l)\<lparr>dk_client := c\<rparr>)" "cl_ok c"
    "cl_pend (lt_client l) i = None" "cl_pend c = (cl_pend (lt_client l))(i \<mapsto> list_op)"
    "cl_sent c = cl_sent (lt_client l) @ [(srv, list_request i)]" "cl_calls c = cl_calls (lt_client l)"
    "cl_subs c = cl_subs (lt_client l)"
    using dk_request_ok [OF assms(1,2), of info] by auto
  have info: "map_of (dk_heap (lt_tracker l)) 0 = Some info" using assms(1) by (simp add: lt_following_def)
  have "lt_called E (CallNotify 0 h n) l =
      Done (l\<lparr>lt_tracker := dk_put 0 (info\<lparr>ki_awaitRequest := True\<rparr>) ((lt_tracker l)\<lparr>dk_client := c\<rparr>)\<rparr>)"
    using c(1) info assms(3,4) by (simp add: lt_called_def dk_called_def dk_onNotify_def)
  then show ?thesis using c(2-7) assms(1) by (auto simp: lt_asked_def lt_following_def dk_put_def)
qed

lemma called_reply:
  assumes "lt_following srv info l" and "rr_err r = NoError" and "le_decode E x = Some lst"
  shows "\<exists>l' info'. lt_called E (CallRequest 0 h r x) l = Done l' \<and> lt_following srv info' l' \<and>
     (ki_revision info' = ki_revision info \<or> ki_revision info' = rr_revision r) \<and>
     lt_client l' = lt_client l \<and> lt_lists l' = sm_insert srv lst (lt_lists l)"
proof -
  have info: "map_of (dk_heap (lt_tracker l)) 0 = Some info" "ki_state info = TrEstablishing \<or> ki_state info = TrTracking"
    using assms(1) by (auto simp: lt_following_def)
  show ?thesis
  proof (cases "ki_state info = TrEstablishing")
    case True
    then show ?thesis using assms info(1)
      by (auto simp: lt_called_def dk_called_def dk_onRequestReply_def Let_def dk_put_def lt_following_def
          lt_onStateChange_def lt_onDataUpdate_def)
  next
    case False
    then show ?thesis using assms info
      by (auto simp: lt_called_def dk_called_def dk_onRequestReply_def Let_def dk_put_def lt_following_def
          lt_onDataUpdate_def)
  qed
qed

subsection \<open>The invariant\<close>

fun msg_revs :: "ds_msg \<Rightarrow> (int \<times> bool) list" where
  "msg_revs (MNotify n) = [(nt_revision n, True)]"
| "msg_revs (MRequestReply r x) = [(rr_revision r, False)]"
| "msg_revs _ = []"

fun call_revs :: "cl_call \<Rightarrow> (int \<times> bool) list" where
  "call_revs (CallRequest cb h r x) = [(rr_revision r, False)]"
| "call_revs _ = []"

text \<open>The revisions under way: a notification is behind no reply of its revision or a later one.\<close>

definition rev_before :: "int \<times> bool \<Rightarrow> int \<times> bool \<Rightarrow> bool" where
  "rev_before x y \<longleftrightarrow> (if snd y \<and> \<not> snd x then fst x < fst y else fst x \<le> fst y)"

definition jo_revs :: "joint \<Rightarrow> (int \<times> bool) list" where
  "jo_revs J = concat (map call_revs (jo_posted J)) @ concat (map msg_revs (jo_down J))"

text \<open>The lists under way.\<close>

fun msg_lists :: "list_env \<Rightarrow> ds_msg \<Rightarrow> shared_list option list" where
  "msg_lists E (MRequestReply r x) = [le_decode E x]"
| "msg_lists E _ = []"

fun call_lists :: "list_env \<Rightarrow> cl_call \<Rightarrow> shared_list option list" where
  "call_lists E (CallRequest cb h r x) = [le_decode E x]"
| "call_lists E _ = []"

definition jo_coming :: "list_env \<Rightarrow> joint \<Rightarrow> shared_list option list" where
  "jo_coming E J = concat (map (call_lists E) (jo_posted J)) @ concat (map (msg_lists E) (jo_down J))"

fun list_reply :: "list_env \<Rightarrow> ds_msg \<Rightarrow> bool" where
  "list_reply E (MRequestReply r x) \<longleftrightarrow> rr_err r = NoError \<and> le_decode E x \<noteq> None"
| "list_reply E _ \<longleftrightarrow> False"

fun list_call :: "list_env \<Rightarrow> cl_call \<Rightarrow> bool" where
  "list_call E (CallSubscribe n h r) \<longleftrightarrow> n = 0 \<and> sr_err r = NoError"
| "list_call E (CallRequest n h r x) \<longleftrightarrow> n = 0 \<and> rr_err r = NoError \<and> le_decode E x \<noteq> None"
| "list_call E _ \<longleftrightarrow> False"

fun up_ids :: "ds_msg \<Rightarrow> int list" where
  "up_ids (MRequest q) = [rq_id q]"
| "up_ids _ = []"

fun down_ids :: "ds_msg \<Rightarrow> int list" where
  "down_ids (MRequestReply r x) = [rr_id r]"
| "down_ids _ = []"

definition jo_ids :: "joint \<Rightarrow> int list" where
  "jo_ids J = concat (map up_ids (jo_up J)) @ concat (map down_ids (jo_down J))"

fun will_ask :: "cl_call \<Rightarrow> bool" where
  "will_ask (CallSubscribe n h r) \<longleftrightarrow> True"
| "will_ask _ \<longleftrightarrow> False"

definition jo_busy :: "joint \<Rightarrow> bool" where
  "jo_busy J \<longleftrightarrow> jo_up J \<noteq> [] \<or> list_ex list_note (jo_down J) \<or> list_ex will_ask (jo_posted J)"

definition jo_current :: "joint_env \<Rightarrow> joint \<Rightarrow> bool" where
  "jo_current E J \<longleftrightarrow> last (map_of (lt_lists (jo_lt J)) (je_srv E) # jo_coming (je_list E) J) =
     Some (sl_list (fh_listServer (jo_fs J)))"

abbreviation sub_op :: "int \<times> cl_data" where
  "sub_op \<equiv> (SUBSCRIBE, SubscribeOp 0 (Some 0))"

definition jo_asking :: "joint_env \<Rightarrow> joint \<Rightarrow> bool" where
  "jo_asking E J \<longleftrightarrow> (\<exists>q. jo_up J = [MSubscribe q] \<and> jo_down J = [] \<and> jo_posted J = [] \<and> sb_path q = gSharedName \<and>
     sb_mark q = SB_NoMark \<and> cl_pend (jo_client J) (sb_id q) = Some sub_op \<and> \<not> listens (je_me E) (jo_fs J))"

definition jo_accepted :: "joint_env \<Rightarrow> joint \<Rightarrow> bool" where
  "jo_accepted E J \<longleftrightarrow> (\<exists>r ns. jo_up J = [] \<and> jo_posted J = [] \<and> jo_down J = MSubscribeReply r # ns \<and>
     list_all list_note ns \<and> sr_err r = NoError \<and> sr_path r = gSharedName \<and>
     cl_pend (jo_client J) (sr_id r) = Some sub_op \<and> listens (je_me E) (jo_fs J))"

definition jo_following :: "joint_env \<Rightarrow> joint \<Rightarrow> bool" where
  "jo_following E J \<longleftrightarrow> listens (je_me E) (jo_fs J) \<and>
     (\<exists>si. map_of (cl_subs (jo_client J)) (Uri (je_srv E) gSharedName True) = Some si \<and> si_delegate si = Some 0) \<and>
     list_all (\<lambda>m. \<exists>i. m = list_request i) (jo_up J) \<and>
     list_all (\<lambda>m. list_note m \<or> list_reply (je_list E) m) (jo_down J) \<and>
     list_all (list_call (je_list E)) (jo_posted J) \<and> distinct (jo_ids J) \<and>
     (\<forall>i \<in> set (jo_ids J). cl_pend (jo_client J) i = Some list_op) \<and> (jo_busy J \<or> jo_current E J)"

definition jo_ordered :: "int \<Rightarrow> joint \<Rightarrow> bool" where
  "jo_ordered rv J \<longleftrightarrow> sorted_wrt rev_before ((rv, False) # jo_revs J) \<and>
     rv \<le> sv_rev (jo_server J) \<and> (\<forall>x \<in> set (jo_revs J). fst x \<le> sv_rev (jo_server J))"

definition jo_ok :: "joint_env \<Rightarrow> joint \<Rightarrow> bool" where
  "jo_ok E J \<longleftrightarrow> fh_ok (je_share E) (jo_fs J) \<and> sv_alone (je_me E) (jo_server J) \<and> sv_sent (jo_server J) = [] \<and>
     cl_sent (jo_client J) = [] \<and> cl_calls (jo_client J) = [] \<and>
     (\<exists>info. lt_following (je_srv E) info (jo_lt J) \<and> jo_ordered (ki_revision info) J) \<and>
     (jo_asking E J \<or> jo_accepted E J \<or> jo_following E J)"

text \<open>What the other parts have to do: sending works, and a list is read back from its text.\<close>

definition je_ok :: "joint_env \<Rightarrow> bool" where
  "je_ok E \<longleftrightarrow> (\<forall>h m. ce_send (le_client (je_list E)) h m = NoError) \<and>
     (\<forall>l. le_decode (je_list E) (he_encodeShared (je_share E) l) = Some l) \<and>
     CHR '':'' \<notin> set (je_srv E) \<and> CHR 0x00 \<notin> set (je_srv E)"

text \<open>How much is still to be delivered; every delivery makes it less.\<close>

fun msg_weight :: "ds_msg \<Rightarrow> nat" where
  "msg_weight (MSubscribe q) = 10"
| "msg_weight (MSubscribeReply r) = 9"
| "msg_weight (MNotify n) = 6"
| "msg_weight (MRequest q) = 5"
| "msg_weight (MRequestReply r x) = 3"
| "msg_weight _ = 1"

fun call_weight :: "cl_call \<Rightarrow> nat" where
  "call_weight (CallSubscribe n h r) = 8"
| "call_weight _ = 2"

definition jo_weight :: "joint \<Rightarrow> nat" where
  "jo_weight J = sum_list (map msg_weight (jo_up J)) + sum_list (map msg_weight (jo_down J)) +
     sum_list (map call_weight (jo_posted J))"

subsection \<open>The invariant holds\<close>

lemma rev_before_trans: "rev_before (a, False) x \<Longrightarrow> \<not> snd x \<Longrightarrow> rev_before x y \<Longrightarrow> rev_before (a, False) y"
  by (auto simp: rev_before_def split: if_splits)

lemma note_revs: "list_all list_note ms \<Longrightarrow> concat (map msg_revs ms) = map (\<lambda>m. (note_rev m, True)) ms"
  by (induction ms) (auto simp: list_note_def note_rev_def split: ds_msg.splits)

lemma note_lists: "list_all list_note ms \<Longrightarrow> concat (map (msg_lists E) ms) = []"
  by (induction ms) (auto simp: list_note_def split: ds_msg.splits)

lemma note_ids: "list_all list_note ms \<Longrightarrow> concat (map down_ids ms) = []"
  by (induction ms) (auto simp: list_note_def split: ds_msg.splits)

lemma ordered_notes:
  assumes "jo_ordered rv J" and "told me (jo_fs J) ms fs" and "jo_revs J' = jo_revs J @ map (\<lambda>m. (note_rev m, True)) ms"
    and "sv_rev (jo_server J') = sv_rev (fh_server fs)"
  shows "jo_ordered rv J'"
proof -
  have ms: "sorted_wrt (\<le>) (map note_rev ms)" "sv_rev (jo_server J) \<le> sv_rev (fh_server fs)"
    "\<forall>m \<in> set ms. sv_rev (jo_server J) < note_rev m \<and> note_rev m \<le> sv_rev (fh_server fs)"
    using assms(2) by (simp_all add: told_def)
  have "sorted_wrt rev_before (map (\<lambda>m. (note_rev m, True)) ms)"
    using ms(1) by (simp add: sorted_wrt_map rev_before_def)
  moreover have "rev_before x (note_rev m, True)"
    if "fst x \<le> sv_rev (jo_server J)" "m \<in> set ms" for x m
    using ms(3) that by (fastforce simp: rev_before_def)
  ultimately show ?thesis
    using assms(1,3,4) ms(2,3) by (fastforce simp: jo_ordered_def sorted_wrt_append)
qed

lemma sv_view_sent [simp]:
  "sv_alone me (sv\<lparr>sv_sent := x\<rparr>) = sv_alone me sv" "subscribed p me (sv\<lparr>sv_sent := x\<rparr>) = subscribed p me sv"
  "sv_rev (sv\<lparr>sv_sent := x\<rparr>) = sv_rev sv" "sv_proms (sv\<lparr>sv_sent := x\<rparr>) = sv_proms sv"
  by (simp_all add: sv_alone_def subscribed_def sv_rev_def sv_proms_def fun_eq_iff)

lemma fh_ok_sent [simp]: "fh_ok E (s\<lparr>fh_server := (fh_server s)\<lparr>sv_sent := x\<rparr>\<rparr>) = fh_ok E s"
  by (simp add: fh_ok_def fh_infos_ok_def fh_listed_def fh_published_def sl_promise_def)

lemma jo_from_server_fields [simp]:
  "jo_lt (jo_from_server E fs J) = jo_lt J" "jo_up (jo_from_server E fs J) = jo_up J"
  "jo_posted (jo_from_server E fs J) = jo_posted J"
  "jo_down (jo_from_server E fs J) = jo_down J @ sv_to (je_me E) (fh_server fs)"
  "jo_fs (jo_from_server E fs J) = fs\<lparr>fh_server := (fh_server fs)\<lparr>sv_sent := []\<rparr>\<rparr>"
  by (simp_all add: jo_from_server_def)

lemma share_step_ok:
  assumes "jo_ok E J" and "others_event (je_me E) e"
  shows "\<exists>J'. jo_step E (JoShare e) J = Done J' \<and> jo_ok E J'"
proof -
  have ok: "fh_ok (je_share E) (jo_fs J)" "sv_alone (je_me E) (jo_server J)" "sv_sent (jo_server J) = []"
    using assms(1) by (simp_all add: jo_ok_def)
  from step_told [OF ok(1) assms(2) ok(2)] obtain fs ms where
    fs: "fh_step (je_share E) e (jo_fs J) = Done fs" "fh_ok (je_share E) fs" "told (je_me E) (jo_fs J) ms fs" by blast
  let ?J = "jo_from_server E fs J"
  have to: "sv_to (je_me E) (fh_server fs) = ms" using fs(3) ok(3) by (simp add: told_def sv_to_def)
  have nts: "list_all list_note ms" and lis: "listens (je_me E) fs = listens (je_me E) (jo_fs J)"
    and none: "\<not> listens (je_me E) (jo_fs J) \<Longrightarrow> ms = []" and alone: "sv_alone (je_me E) (fh_server fs)"
    and same: "listens (je_me E) (jo_fs J) \<Longrightarrow> ms = [] \<Longrightarrow> sl_list (fh_listServer fs) = sl_list (fh_listServer (jo_fs J))"
    using fs(3) by (auto simp: told_def)
  have revs: "jo_revs ?J = jo_revs J @ map (\<lambda>m. (note_rev m, True)) ms" using nts by (simp add: jo_revs_def to note_revs)
  have "jo_ordered rv ?J" if "jo_ordered rv J" for rv using ordered_notes [OF that fs(3) revs] by simp
  moreover have "jo_asking E ?J" if "jo_asking E J"
    using that none lis by (auto simp: jo_asking_def to)
  moreover have "jo_accepted E ?J" if "jo_accepted E J" using that nts lis by (auto simp: jo_accepted_def to)
  moreover have "jo_following E ?J" if "jo_following E J"
  proof -
    have lj: "listens (je_me E) (jo_fs J)" using that by (simp add: jo_following_def)
    have ids: "jo_ids ?J = jo_ids J" by (simp add: jo_ids_def to note_ids [OF nts])
    have "jo_busy ?J \<or> jo_current E ?J"
    proof (cases "ms = []")
      case True
      have "jo_busy ?J = jo_busy J" by (simp add: jo_busy_def to True)
      moreover have "jo_current E ?J = jo_current E J" using same [OF lj True] by (simp add: jo_current_def jo_coming_def to True)
      ultimately show ?thesis using that by (simp add: jo_following_def)
    next
      case False
      then show ?thesis using nts by (cases ms) (simp_all add: jo_busy_def to)
    qed
    then show ?thesis
      using that nts lis by (auto simp: jo_following_def to ids list_all_iff)
  qed
  ultimately have "jo_ok E ?J" using assms(1) fs(2) alone by (auto simp: jo_ok_def)
  then show ?thesis using fs(1) by simp
qed

lemma subscribe_served:
  assumes "fh_ok F fs" and "sb_path q = gSharedName" and "sb_mark q = SB_NoMark" and "sv_sent (fh_server fs) = []"
    and "se_perm V = Some (onCheckPermissions userOf fs)" and "sv_alone me (fh_server fs)"
  shows "\<exists>sv r. sv_onSubscribe V me q (fh_server fs) = sv \<and> sv_to me sv = [MSubscribeReply r] \<and> sr_err r = NoError \<and>
     sr_path r = gSharedName \<and> sr_id r = sb_id q \<and> subscribed gSharedName me sv \<and> sv_alone me sv \<and>
     sv_rev sv = sv_rev (fh_server fs) \<and> fh_ok F (fs\<lparr>fh_server := sv\<rparr>)"
proof -
  obtain d where d: "map_of (sv_shared (fh_server fs)) gSharedName = Some d"
    using published_shared [OF assms(1)] by (auto simp: sv_proms_def)
  let ?sv = "sv_onSubscribe V me q (fh_server fs)"
  have perm: "sv_permits V me (sb_path q)" using assms(2,5) by (simp add: sv_permits_def onCheckPermissions_def)
  have "fh_ok F (fs\<lparr>fh_server := ?sv\<rparr>)" using fh_server_ok [OF assms(1)] by (simp add: sv_onSubscribe_proms)
  moreover have "subscribed p me ?sv = (p = gSharedName \<or> subscribed p me (fh_server fs))" for p
    using d perm assms(2,3) by (auto simp: sv_onSubscribe_def Let_def sv_send_def subscribed_def)
  moreover have "sv_rev ?sv = sv_rev (fh_server fs)"
    using d perm assms(2,3) by (simp add: sv_onSubscribe_def Let_def sv_send_def sv_rev_def)
  moreover have "\<exists>r. sv_to me ?sv = [MSubscribeReply r] \<and> sr_err r = NoError \<and> sr_path r = gSharedName \<and> sr_id r = sb_id q"
    using d perm assms(2-4) by (simp add: sv_onSubscribe_def Let_def sv_send_def sv_to_def new_subscribe_reply_def)
  ultimately show ?thesis using assms(6) by (auto simp: sv_alone_def)
qed

lemma request_served:
  assumes "fh_ok F fs" and "se_perm V = Some (onCheckPermissions userOf fs)"
  shows "\<exists>r. sv_onRequest V me (new_request\<lparr>rq_path := gSharedName, rq_id := i\<rparr>) (fh_server fs) =
     Done (sv_send me (MRequestReply r (he_encodeShared F (sl_list (fh_listServer fs)))) (fh_server fs)) \<and>
     rr_err r = NoError \<and> rr_id r = i \<and> rr_revision r = sv_rev (fh_server fs)"
proof -
  obtain d where d: "map_of (sv_shared (fh_server fs)) gSharedName = Some d" "sd_promise d = Some (sl_promise F fs)"
    using assms(1) by (auto simp: fh_ok_def fh_published_def sv_proms_def)
  have "path_head gSharedName = ''shared''" by code_simp
  moreover define r where "r = \<lparr>rr_path = gSharedName, rr_err = NoError, rr_id = i, rr_desc = no_desc,
    rr_revision = sd_revision d, rr_range = mk_range 0 0, rr_mark = RR_NoMark\<rparr>"
  ultimately have "sv_onRequest V me (new_request\<lparr>rq_path := gSharedName, rq_id := i\<rparr>) (fh_server fs) =
     Done (sv_send me (MRequestReply r (he_encodeShared F (sl_list (fh_listServer fs)))) (fh_server fs))"
    using d assms(2)
    by (simp add: sv_onRequest_def sv_request_answer_def sv_find_def sv_permits_def onCheckPermissions_def new_request_def
        Let_def sl_promise_def createPromise_def fixedSharingPromise_def createDataPromise_def byteArrayPromise_def
        r_isDefault_def dp_read_all_def byteArrayRead_def new_request_reply_def)
  moreover have "rr_err r = NoError \<and> rr_id r = i \<and> rr_revision r = sv_rev (fh_server fs)"
    using d(1) by (simp add: r_def sv_rev_def)
  ultimately show ?thesis by blast
qed

lemma jo_from_client_fields [simp]:
  "jo_fs (jo_from_client E l J) = jo_fs J" "jo_down (jo_from_client E l J) = jo_down J"
  "jo_lt (jo_from_client E l J) = lt_set_client ((lt_client l)\<lparr>cl_sent := [], cl_calls := []\<rparr>) l"
  "jo_up (jo_from_client E l J) = jo_up J @ map snd (filter (\<lambda>x. fst x = je_srv E) (cl_sent (lt_client l)))"
  "jo_posted (jo_from_client E l J) = jo_posted J @ cl_calls (lt_client l)"
  by (simp_all add: jo_from_client_def)

lemma lt_set_client_fields [simp]:
  "lt_client (lt_set_client c l) = c" "lt_lists (lt_set_client c l) = lt_lists l"
  "lt_following srv info (lt_set_client c l) \<longleftrightarrow> cl_ok c \<and> map_of (dk_heap (lt_tracker l)) 0 = Some info \<and>
     ki_uri info = Uri srv gSharedName True \<and> (ki_state info = TrEstablishing \<or> ki_state info = TrTracking)"
  by (auto simp: lt_set_client_def lt_following_def)

lemma ordered_drop:
  assumes "jo_ordered rv J" and "jo_revs J = as @ x # bs" and "jo_revs J' = as @ bs" and "jo_server J' = jo_server J"
  shows "jo_ordered rv J'"
  using assms by (auto simp: jo_ordered_def sorted_wrt_append)

lemma ordered_head:
  assumes "jo_ordered rv J" and "jo_revs J = (k, False) # bs" and "jo_revs J' = bs" and "jo_server J' = jo_server J"
    and "rv' = rv \<or> rv' = k"
  shows "jo_ordered rv' J'"
  using assms by (auto simp: jo_ordered_def)

lemma ordered_add:
  assumes "jo_ordered rv J" and "jo_revs J' = jo_revs J @ [(sv_rev (jo_server J), False)]"
    and "sv_rev (jo_server J') = sv_rev (jo_server J)"
  shows "jo_ordered rv J'"
  using assms by (auto simp: jo_ordered_def sorted_wrt_append rev_before_def)

lemma ordered_same:
  assumes "jo_ordered rv J" and "jo_revs J' = jo_revs J" and "sv_rev (jo_server J') = sv_rev (jo_server J)"
  shows "jo_ordered rv J'"
  using assms by (simp add: jo_ordered_def)

lemma up_step_ok:
  assumes "jo_ok E J" and "je_ok E"
  shows "\<exists>J'. jo_step E JoUp J = Done J' \<and> jo_ok E J' \<and> fh_listServer (jo_fs J') = fh_listServer (jo_fs J) \<and>
     (jo_up J \<noteq> [] \<longrightarrow> jo_weight J' < jo_weight J)"
proof (cases "jo_up J")
  case Nil
  then show ?thesis using assms by simp
next
  case (Cons m ms)
  let ?V = "jo_server_env E (J\<lparr>jo_up := ms\<rparr>)"
  have V: "se_perm ?V = Some (onCheckPermissions (je_user E) (jo_fs J))" by (simp add: jo_server_env_def)
  have ok: "fh_ok (je_share E) (jo_fs J)" "sv_alone (je_me E) (jo_server J)" "sv_sent (jo_server J) = []"
    using assms(1) by (simp_all add: jo_ok_def)
  obtain info where info: "lt_following (je_srv E) info (jo_lt J)" "jo_ordered (ki_revision info) J"
    using assms(1) by (auto simp: jo_ok_def)
  have "\<not> jo_accepted E J" using Cons by (simp add: jo_accepted_def)
  then consider "jo_asking E J" | "jo_following E J" using assms(1) by (auto simp: jo_ok_def)
  then show ?thesis
  proof cases
    case 1
    then obtain q where q: "m = MSubscribe q" "ms = []" "jo_down J = []" "jo_posted J = []" "sb_path q = gSharedName"
      "sb_mark q = SB_NoMark" "cl_pend (jo_client J) (sb_id q) = Some sub_op"
      using Cons by (auto simp: jo_asking_def)
    obtain sv r where sv: "sv_onSubscribe ?V (je_me E) q (jo_server J) = sv" "sv_to (je_me E) sv = [MSubscribeReply r]"
      "sr_err r = NoError" "sr_path r = gSharedName" "sr_id r = sb_id q" "subscribed gSharedName (je_me E) sv"
      "sv_alone (je_me E) sv" "sv_rev sv = sv_rev (jo_server J)" "fh_ok (je_share E) ((jo_fs J)\<lparr>fh_server := sv\<rparr>)"
      using subscribe_served [OF ok(1) q(5,6) ok(3) V ok(2)] by blast
    define J' where "J' = jo_from_server E (jo_set_server sv (J\<lparr>jo_up := ms\<rparr>)) (J\<lparr>jo_up := ms\<rparr>)"
    have step: "jo_step E JoUp J = Done J'" using Cons q(1) sv(1) by (simp add: J'_def)
    have fields: "jo_up J' = []" "jo_down J' = [MSubscribeReply r]" "jo_posted J' = []" "jo_lt J' = jo_lt J"
      "jo_fs J' = (jo_fs J)\<lparr>fh_server := sv\<lparr>sv_sent := []\<rparr>\<rparr>"
      using q(2-4) sv(2) by (simp_all add: J'_def jo_set_server_def)
    have "fh_ok (je_share E) (jo_fs J')"
      using fh_ok_sent [where E = "je_share E" and s = "(jo_fs J)\<lparr>fh_server := sv\<rparr>" and x = "[]"] sv(9) by (simp add: fields)
    moreover have "jo_accepted E J'" using sv q(7) by (simp add: jo_accepted_def fields)
    moreover have "jo_ordered (ki_revision info) J'"
      using ordered_same [OF info(2)] sv(8) q(3,4) by (simp add: fields jo_revs_def)
    ultimately have "jo_ok E J'" using assms(1) info(1) sv(7) by (auto simp: jo_ok_def fields)
    moreover have "jo_weight J' < jo_weight J" using Cons q(1-4) by (simp add: jo_weight_def fields)
    ultimately show ?thesis using step fields(5) by auto
  next
    case 2
    then obtain i where m: "m = list_request i" using Cons by (auto simp: jo_following_def)
    obtain r where r: "sv_onRequest ?V (je_me E) (new_request\<lparr>rq_path := gSharedName, rq_id := i\<rparr>) (jo_server J) =
        Done (sv_send (je_me E) (MRequestReply r (he_encodeShared (je_share E) (sl_list (fh_listServer (jo_fs J))))) (jo_server J))"
      "rr_err r = NoError" "rr_id r = i" "rr_revision r = sv_rev (jo_server J)"
      using request_served [OF ok(1) V] by blast
    let ?x = "he_encodeShared (je_share E) (sl_list (fh_listServer (jo_fs J)))"
    define J' where "J' = jo_from_server E
      (jo_set_server (sv_send (je_me E) (MRequestReply r ?x) (jo_server J)) (J\<lparr>jo_up := ms\<rparr>)) (J\<lparr>jo_up := ms\<rparr>)"
    have step: "jo_step E JoUp J = Done J'" using Cons r(1) by (simp add: J'_def m list_request_def)
    have fields: "jo_up J' = ms" "jo_down J' = jo_down J @ [MRequestReply r ?x]" "jo_posted J' = jo_posted J" "jo_lt J' = jo_lt J"
      "jo_fs J' = jo_fs J"
      using ok(3) by (simp_all add: J'_def jo_set_server_def sv_send_def sv_to_def)
    have dec: "le_decode (je_list E) ?x = Some (sl_list (fh_listServer (jo_fs J)))" using assms(2) by (simp add: je_ok_def)
    have "jo_ordered (ki_revision info) J'"
      using ordered_add [OF info(2)] by (simp add: fields jo_revs_def r(4))
    moreover have "jo_following E J'"
    proof -
      have ids: "jo_ids J = i # concat (map up_ids ms) @ concat (map down_ids (jo_down J))"
        "jo_ids J' = concat (map up_ids ms) @ concat (map down_ids (jo_down J)) @ [i]"
        using Cons by (simp_all add: jo_ids_def fields m list_request_def r(3))
      have "distinct (jo_ids J)" "\<forall>i \<in> set (jo_ids J). cl_pend (jo_client J) i = Some list_op"
        using 2 by (simp_all add: jo_following_def)
      then have "distinct (jo_ids J')" "\<forall>i \<in> set (jo_ids J'). cl_pend (jo_client J) i = Some list_op"
        unfolding ids by auto
      moreover have "jo_current E J'" by (simp add: jo_current_def jo_coming_def fields dec)
      ultimately show ?thesis using 2 Cons by (simp add: jo_following_def fields dec r(2))
    qed
    ultimately have "jo_ok E J'" using assms(1) info(1) by (auto simp: jo_ok_def fields)
    moreover have "jo_weight J' < jo_weight J" using Cons by (simp add: jo_weight_def fields m list_request_def)
    ultimately show ?thesis using step fields(5) by auto
  qed
qed

text \<open>After the list was asked for again.\<close>

lemma asked_following:
  assumes "lt_asked srv i rv l l'" and "cl_sent (lt_client l) = []" and "cl_calls (lt_client l) = []" and "srv = je_srv E"
    and "jo_lt J0 = l0" and "J' = jo_from_client E l' J0"
  shows "jo_up J' = jo_up J0 @ [list_request i] \<and> jo_down J' = jo_down J0 \<and> jo_posted J' = jo_posted J0 \<and> jo_fs J' = jo_fs J0 \<and>
     (\<exists>info. lt_following srv info (jo_lt J') \<and> ki_revision info = rv) \<and>
     cl_pend (jo_client J') = (cl_pend (lt_client l))(i \<mapsto> list_op) \<and> cl_pend (lt_client l) i = None \<and>
     cl_subs (jo_client J') = cl_subs (lt_client l) \<and> cl_sent (jo_client J') = [] \<and> cl_calls (jo_client J') = []"
  using assms by (auto simp: lt_asked_def lt_following_def lt_set_client_def)

lemma ids_asked:
  assumes "distinct ids" and "\<forall>j \<in> set ids. c j = Some list_op" and "c i = None" and "set ids' = insert i (set ids)"
    and "length ids' = Suc (length ids)"
  shows "distinct ids' \<and> (\<forall>j \<in> set ids'. (c(i \<mapsto> list_op)) j = Some list_op)"
proof -
  have "i \<notin> set ids" using assms(2,3) by auto
  then have "card (set ids') = length ids'" using assms(1,4,5) by (simp add: distinct_card)
  then show ?thesis using assms(2,4) by (auto intro: card_distinct)
qed

lemma call_step_ok:
  assumes "jo_ok E J" and "je_ok E"
  shows "\<exists>J'. jo_step E JoCall J = Done J' \<and> jo_ok E J' \<and> fh_listServer (jo_fs J') = fh_listServer (jo_fs J) \<and>
     (jo_posted J \<noteq> [] \<longrightarrow> jo_weight J' < jo_weight J)"
proof (cases "jo_posted J")
  case Nil
  then show ?thesis using assms by simp
next
  case (Cons c cs)
  let ?J0 = "J\<lparr>jo_posted := cs\<rparr>"
  obtain info where info: "lt_following (je_srv E) info (jo_lt J)" "jo_ordered (ki_revision info) J"
    using assms(1) by (auto simp: jo_ok_def)
  have log: "cl_sent (jo_client J) = []" "cl_calls (jo_client J) = []" using assms(1) by (simp_all add: jo_ok_def)
  have send: "ce_send (le_client (je_list E)) h m = NoError" for h m using assms(2) by (simp add: je_ok_def)
  have "\<not> jo_accepted E J" "\<not> jo_asking E J" using Cons by (simp_all add: jo_accepted_def jo_asking_def)
  then have f: "jo_following E J" using assms(1) by (auto simp: jo_ok_def)
  then have "list_call (je_list E) c" using Cons by (simp add: jo_following_def)
  then consider h r where "c = CallSubscribe 0 h r" "sr_err r = NoError"
    | h r x lst where "c = CallRequest 0 h r x" "rr_err r = NoError" "le_decode (je_list E) x = Some lst"
    by (cases c) auto
  then show ?thesis
  proof cases
    case 1
    obtain l i where l: "lt_called (je_list E) c (jo_lt J) = Done l" "lt_asked (je_srv E) i (ki_revision info) (jo_lt J) l"
      using called_subscribed [OF info(1) send 1(2)] 1(1) by blast
    define J' where "J' = jo_from_client E l ?J0"
    have step: "jo_step E JoCall J = Done J'" using Cons l(1) by (simp add: J'_def)
    note J' = asked_following [OF l(2) log HOL.refl HOL.refl J'_def]
    have revs: "jo_revs J' = jo_revs J" using J' Cons 1(1) by (simp add: jo_revs_def)
    have "length (jo_ids J') = Suc (length (jo_ids J))" "set (jo_ids J') = insert i (set (jo_ids J))"
      using J' by (auto simp: jo_ids_def list_request_def)
    with ids_asked [of "jo_ids J" "cl_pend (jo_client J)" i "jo_ids J'"] f J'
    have "distinct (jo_ids J') \<and> (\<forall>j \<in> set (jo_ids J'). cl_pend (jo_client J') j = Some list_op)"
      by (simp add: jo_following_def)
    moreover have "jo_busy J'" using J' by (simp add: jo_busy_def)
    ultimately have "jo_following E J'" using f J' Cons by (auto simp: jo_following_def)
    moreover have "jo_ordered (ki_revision info) J'" using ordered_same [OF info(2) revs] J' by simp
    ultimately have "jo_ok E J'" using assms(1) J' by (auto simp: jo_ok_def)
    moreover have "jo_weight J' < jo_weight J" using J' Cons 1(1) by (simp add: jo_weight_def list_request_def)
    ultimately show ?thesis using step J' by auto
  next
    case 2
    obtain l info' where l: "lt_called (je_list E) c (jo_lt J) = Done l" "lt_following (je_srv E) info' l"
      "ki_revision info' = ki_revision info \<or> ki_revision info' = rr_revision r" "lt_client l = jo_client J"
      "lt_lists l = sm_insert (je_srv E) lst (lt_lists (jo_lt J))"
      using called_reply [OF info(1) 2(2,3)] 2(1) by blast
    define J' where "J' = jo_from_client E l ?J0"
    have step: "jo_step E JoCall J = Done J'" using Cons l(1) by (simp add: J'_def)
    have J': "jo_up J' = jo_up J" "jo_down J' = jo_down J" "jo_posted J' = cs" "jo_fs J' = jo_fs J"
      "jo_client J' = jo_client J" "lt_lists (jo_lt J') = sm_insert (je_srv E) lst (lt_lists (jo_lt J))"
      using log l(4,5) by (simp_all add: J'_def)
    have "lt_following (je_srv E) info' (jo_lt J')" using l(2) by (simp add: J'_def lt_following_def lt_set_client_def)
    moreover have "jo_ordered (ki_revision info') J'"
      by (rule ordered_head [OF info(2)]) (use l(3) J' Cons 2(1) in \<open>auto simp: jo_revs_def\<close>)
    moreover have "jo_following E J'"
    proof -
      have "jo_coming (je_list E) J = Some lst # jo_coming (je_list E) J'"
        using J' Cons 2(1,3) by (simp add: jo_coming_def)
      then have "jo_current E J' = jo_current E J" using J' by (simp add: jo_current_def)
      moreover have "jo_busy J' = jo_busy J" "jo_ids J' = jo_ids J" using J' Cons 2(1) by (simp_all add: jo_busy_def jo_ids_def)
      ultimately show ?thesis using f J' Cons by (simp add: jo_following_def)
    qed
    ultimately have "jo_ok E J'" using assms(1) J' by (auto simp: jo_ok_def)
    moreover have "jo_weight J' < jo_weight J" using J' Cons 2(1) by (simp add: jo_weight_def)
    ultimately show ?thesis using step J' by auto
  qed
qed

lemma down_step_ok:
  assumes "jo_ok E J" and "je_ok E"
  shows "\<exists>J'. jo_step E JoDown J = Done J' \<and> jo_ok E J' \<and> fh_listServer (jo_fs J') = fh_listServer (jo_fs J) \<and>
     (jo_down J \<noteq> [] \<longrightarrow> jo_weight J' < jo_weight J)"
proof (cases "jo_down J")
  case Nil
  then show ?thesis using assms by simp
next
  case (Cons m ms)
  let ?J0 = "J\<lparr>jo_down := ms\<rparr>" and ?u = "Uri (je_srv E) gSharedName True"
  obtain info where info: "lt_following (je_srv E) info (jo_lt J)" "jo_ordered (ki_revision info) J"
    using assms(1) by (auto simp: jo_ok_def)
  have log: "cl_sent (jo_client J) = []" "cl_calls (jo_client J) = []" using assms(1) by (simp_all add: jo_ok_def)
  have clok: "cl_ok (jo_client J)" using info(1) by (simp add: lt_following_def)
  have send: "ce_send (le_client (je_list E)) h m = NoError" for h m using assms(2) by (simp add: je_ok_def)
  have uri: "uri_make (je_srv E) gSharedName = ?u" using assms(2) uri_make_inj by (simp add: je_ok_def)
  have "\<not> jo_asking E J" using Cons by (simp add: jo_asking_def)
  then consider "jo_accepted E J" | "jo_following E J" "list_note m" | "jo_following E J" "list_reply (je_list E) m"
    using assms(1) Cons by (auto simp: jo_ok_def jo_following_def)
  then show ?thesis
  proof cases
    case 1
    then obtain r where r: "m = MSubscribeReply r" "list_all list_note ms" "jo_up J = []" "jo_posted J = []"
      "sr_err r = NoError" "sr_path r = gSharedName" "cl_pend (jo_client J) (sr_id r) = Some sub_op" "listens (je_me E) (jo_fs J)"
      using Cons by (auto simp: jo_accepted_def)
    obtain c si where c: "cl_onSubscribeReply (je_srv E) r (jo_client J) = c" "cl_ok c"
      "cl_calls c = [CallSubscribe 0 (je_srv E) r]" "cl_sent c = []" "si_delegate si = Some 0" "map_of (cl_subs c) ?u = Some si"
      using cl_subscribed_ok [OF clok r(7,5), of "je_srv E"] log r(6) uri by auto
    define J' where "J' = jo_from_client E (lt_set_client c (jo_lt J)) ?J0"
    have step: "jo_step E JoDown J = Done J'" using Cons r(1) c(1) by (simp add: J'_def)
    have J': "jo_up J' = []" "jo_down J' = ms" "jo_posted J' = [CallSubscribe 0 (je_srv E) r]" "jo_fs J' = jo_fs J"
      "cl_subs (jo_client J') = cl_subs c" "cl_sent (jo_client J') = []" "cl_calls (jo_client J') = []"
      using r(3,4) c(3,4) by (simp_all add: J'_def)
    have "lt_following (je_srv E) info (jo_lt J')" using info(1) c(2) by (simp add: J'_def lt_following_def lt_set_client_def)
    moreover have "jo_ordered (ki_revision info) J'"
      by (rule ordered_same [OF info(2)]) (use J' r(1,4) Cons in \<open>simp_all add: jo_revs_def\<close>)
    moreover have "jo_ids J' = []" using J' note_ids [OF r(2)] by (simp add: jo_ids_def)
    then have "jo_following E J'"
      using J' r(2,5,8) c(5,6) by (auto simp: jo_following_def jo_busy_def list_all_iff)
    ultimately have "jo_ok E J'" using assms(1) J' by (auto simp: jo_ok_def)
    moreover have "jo_weight J' < jo_weight J" using J' Cons r(1,3,4) by (simp add: jo_weight_def)
    ultimately show ?thesis using step J' by auto
  next
    case 2
    then obtain n where n: "m = MNotify n" "nt_path n = gSharedName" "nt_mark n = NT_NoMark"
      by (auto simp: list_note_def split: ds_msg.splits)
    obtain si where si: "map_of (cl_subs (jo_client J)) ?u = Some si" "si_delegate si = Some 0"
      using 2(1) by (auto simp: jo_following_def)
    have c: "cl_onNotify (je_srv E) n (jo_client J) = (jo_client J)\<lparr>cl_calls := [CallNotify 0 (je_srv E) n]\<rparr>"
      using si uri n(2) log by (simp add: cl_onNotify_def cl_call_def)
    have revs: "jo_revs J = concat (map call_revs (jo_posted J)) @ (nt_revision n, True) # concat (map msg_revs ms)"
      using Cons n(1) by (simp add: jo_revs_def)
    then have "rev_before (ki_revision info, False) (nt_revision n, True)" using info(2) by (simp add: jo_ordered_def)
    then have later: "ki_revision info < nt_revision n" by (simp add: rev_before_def)
    have unlog: "lt_set_client ((jo_client J)\<lparr>cl_calls := []\<rparr>) (jo_lt J) = jo_lt J"
      using log by (cases "jo_lt J", cases "lt_tracker (jo_lt J)", cases "jo_client J") (simp add: lt_set_client_def)
    obtain l i where l: "lt_called (je_list E) (CallNotify 0 (je_srv E) n) (jo_lt J) = Done l"
      "lt_asked (je_srv E) i (ki_revision info) (jo_lt J) l"
      using called_notify [OF info(1) send n(3) later] by blast
    define J' where "J' = jo_from_client E l ?J0"
    have step: "jo_step E JoDown J = Done J'" using Cons n(1) l(1) c unlog by (simp add: J'_def Let_def)
    note J' = asked_following [OF l(2) log HOL.refl HOL.refl J'_def]
    have "jo_ordered (ki_revision info) J'"
      by (rule ordered_drop [OF info(2) revs]) (use J' in \<open>simp_all add: jo_revs_def\<close>)
    moreover have "length (jo_ids J') = Suc (length (jo_ids J))" "set (jo_ids J') = insert i (set (jo_ids J))"
      using J' Cons n(1) by (auto simp: jo_ids_def list_request_def)
    with ids_asked [of "jo_ids J" "cl_pend (jo_client J)" i "jo_ids J'"] 2(1) J'
    have "distinct (jo_ids J') \<and> (\<forall>j \<in> set (jo_ids J'). cl_pend (jo_client J') j = Some list_op)"
      by (simp add: jo_following_def)
    moreover have "jo_busy J'" using J' by (simp add: jo_busy_def)
    ultimately have "jo_following E J'" using 2(1) J' Cons by (auto simp: jo_following_def)
    moreover have "jo_ordered (ki_revision info) J'" by fact
    ultimately have "jo_ok E J'" using assms(1) J' by (auto simp: jo_ok_def)
    moreover have "jo_weight J' < jo_weight J" using J' Cons n(1) by (simp add: jo_weight_def list_request_def)
    ultimately show ?thesis using step J' by auto
  next
    case 3
    then obtain r x lst where r: "m = MRequestReply r x" "rr_err r = NoError" "le_decode (je_list E) x = Some lst"
      by (cases m) auto
    have "rr_id r \<in> set (jo_ids J)" using Cons r(1) by (simp add: jo_ids_def)
    then have pend: "cl_pend (jo_client J) (rr_id r) = Some list_op" using 3(1) by (simp add: jo_following_def)
    let ?r = "filled_reply gSharedName r"
    have r': "rr_err ?r = NoError" "rr_revision ?r = rr_revision r" using r(2) by (simp_all add: filled_reply_def)
    obtain c where c: "cl_onRequestReply (le_client (je_list E)) (je_srv E) r x (jo_client J) = c" "cl_ok c"
      "cl_pend c = (cl_pend (jo_client J))(rr_id r := None)" "cl_calls c = [CallRequest 0 (je_srv E) ?r x]" "cl_sent c = []"
      "cl_subs c = cl_subs (jo_client J)"
      using cl_reply_ok [OF clok pend, of "le_client (je_list E)" "je_srv E" x] log by auto
    define J' where "J' = jo_from_client E (lt_set_client c (jo_lt J)) ?J0"
    have step: "jo_step E JoDown J = Done J'" using Cons r(1) c(1) by (simp add: J'_def)
    have J': "jo_up J' = jo_up J" "jo_down J' = ms" "jo_posted J' = jo_posted J @ [CallRequest 0 (je_srv E) ?r x]"
      "jo_fs J' = jo_fs J" "cl_pend (jo_client J') = cl_pend c" "cl_subs (jo_client J') = cl_subs (jo_client J)"
      "cl_sent (jo_client J') = []" "cl_calls (jo_client J') = []" "lt_lists (jo_lt J') = lt_lists (jo_lt J)"
      using c(4-6) by (simp_all add: J'_def)
    have "lt_following (je_srv E) info (jo_lt J')" using info(1) c(2) by (simp add: J'_def lt_following_def lt_set_client_def)
    moreover have "jo_ordered (ki_revision info) J'"
      by (rule ordered_same [OF info(2)]) (use J' r(1) r'(2) Cons in \<open>simp_all add: jo_revs_def\<close>)
    moreover have "jo_following E J'"
    proof -
      have ids: "jo_ids J = concat (map up_ids (jo_up J)) @ rr_id r # concat (map down_ids ms)"
        "jo_ids J' = concat (map up_ids (jo_up J)) @ concat (map down_ids ms)"
        using Cons r(1) J' by (simp_all add: jo_ids_def)
      have "distinct (jo_ids J)" "\<forall>i \<in> set (jo_ids J). cl_pend (jo_client J) i = Some list_op"
        using 3(1) by (simp_all add: jo_following_def)
      then have "distinct (jo_ids J')" "\<forall>i \<in> set (jo_ids J'). cl_pend (jo_client J') i = Some list_op"
        unfolding J'(5) c(3) ids by auto
      moreover have "jo_busy J' = jo_busy J" using J' Cons r(1) by (simp add: jo_busy_def list_note_def)
      moreover have "jo_current E J' = jo_current E J" using J' Cons r(1) by (simp add: jo_current_def jo_coming_def)
      ultimately show ?thesis using 3(1) J' Cons r(2,3) r'(1) by (simp add: jo_following_def)
    qed
    ultimately have "jo_ok E J'" using assms(1) J' by (auto simp: jo_ok_def)
    moreover have "jo_weight J' < jo_weight J" using J' Cons r(1) by (simp add: jo_weight_def)
    ultimately show ?thesis using step J' by auto
  qed
qed

subsection \<open>The list that is shown\<close>

definition jo_event_ok :: "joint_env \<Rightarrow> jo_event \<Rightarrow> bool" where
  "jo_event_ok E e \<longleftrightarrow> (case e of JoShare x \<Rightarrow> others_event (je_me E) x | _ \<Rightarrow> True)"

lemma jo_step_ok:
  assumes "jo_ok E J" and "je_ok E" and "jo_event_ok E e"
  shows "\<exists>J'. jo_step E e J = Done J' \<and> jo_ok E J'"
  using share_step_ok [OF assms(1)] up_step_ok [OF assms(1,2)] down_step_ok [OF assms(1,2)] call_step_ok [OF assms(1,2)] assms(3)
  by (cases e) (auto simp: jo_event_ok_def)

lemma jo_run_ok:
  "jo_ok E J \<Longrightarrow> je_ok E \<Longrightarrow> \<forall>e \<in> set es. jo_event_ok E e \<Longrightarrow> \<exists>J'. jo_run E es J = Done J' \<and> jo_ok E J'"
proof (induction es arbitrary: J)
  case (Cons e es)
  then obtain J1 where "jo_step E e J = Done J1" "jo_ok E J1" using jo_step_ok [of E J e] by auto
  then show ?case using Cons by simp
qed simp

lemma cl_new_ok: "cl_ok cl_new"
  by (simp add: cl_ok_def cl_new_def) (simp add: ab_init_def)

lemma jo_start_ok:
  assumes "je_ok E"
  shows "jo_ok E (jo_start E)"
proof -
  have uri: "uri_make (je_srv E) gSharedName = Uri (je_srv E) gSharedName True"
    using assms uri_make_inj by (simp add: je_ok_def)
  have send: "ce_send (le_client (je_list E)) h m = NoError" for h m using assms by (simp add: je_ok_def)
  let ?q = "new_subscribe\<lparr>sb_path := gSharedName\<rparr>"
  obtain i c where c: "cl_subscribe (le_client (je_list E)) (je_srv E) ?q 0 (Some 0) 10000 cl_new = (NoError, i, c)" "cl_ok c"
    "cl_pend c = (cl_pend cl_new)(i \<mapsto> sub_op)" "cl_sent c = [(je_srv E, MSubscribe (?q\<lparr>sb_id := i\<rparr>))]" "cl_calls c = []"
    using cl_subscribe_ok [OF cl_new_ok send, of "je_srv E" ?q 0 "Some 0" 10000] by (auto simp: cl_new_def)
  define k where "k = snd (dk_track (le_client (je_list E)) (Uri (je_srv E) gSharedName True) (dk_new cl_new))"
  have k: "dk_client k = c" "map_of (dk_heap k) 0 = Some \<lparr>ki_state = TrEstablishing, ki_uri = Uri (je_srv E) gSharedName True,
      ki_awaitSubscribe = True, ki_awaitRequest = False, ki_revision = -1\<rparr>"
    using c(1) by (simp_all add: k_def dk_track_def dk_new_def Let_def dk_put_def)
  have l: "snd (lt_trackShared (je_list E) (je_srv E) (lt_new cl_new)) = (lt_new cl_new)\<lparr>lt_tracker := k\<rparr>"
    by (simp add: lt_trackShared_def uri lt_new_def k_def split: prod.split)
  have s: "jo_up (jo_start E) = [MSubscribe (?q\<lparr>sb_id := i\<rparr>)]" "jo_down (jo_start E) = []" "jo_posted (jo_start E) = []"
    "jo_fs (jo_start E) = fh_started (je_share E)" "jo_client (jo_start E) = c\<lparr>cl_sent := [], cl_calls := []\<rparr>"
    "jo_lt (jo_start E) = lt_set_client (c\<lparr>cl_sent := [], cl_calls := []\<rparr>) ((lt_new cl_new)\<lparr>lt_tracker := k\<rparr>)"
    using c(4,5) k(1) by (simp_all add: jo_start_def l)
  have sv: "sv_shared (fh_server (fh_started F)) = [(gSharedName, \<lparr>sd_promise = Some (sl_promise F (fh_new sv_new)),
      sd_revision = 1, sd_subscribers = []\<rparr>)]" "sv_sent (fh_server (fh_started F)) = []" for F
    by (simp_all add: fh_started_def sl_init_def sl_uninit_def fh_new_def fh_on_server_def sv_share_def sv_new_def
        path_hasSubPath_iff Let_def)
  have "jo_asking E (jo_start E)"
    using c(3) by (simp add: jo_asking_def s subscribed_def sv new_subscribe_def)
  moreover have "sv_alone (je_me E) (jo_server (jo_start E))" by (simp add: sv_alone_def subscribed_def s sv)
  moreover have "jo_ordered (-1) (jo_start E)" by (simp add: jo_ordered_def jo_revs_def s sv_rev_def sv)
  moreover have "lt_following (je_srv E) \<lparr>ki_state = TrEstablishing, ki_uri = Uri (je_srv E) gSharedName True,
      ki_awaitSubscribe = True, ki_awaitRequest = False, ki_revision = -1\<rparr> (jo_lt (jo_start E))"
    using c(2) k(2) by (simp add: s lt_new_def)
  moreover have "sv_sent (jo_server (jo_start E)) = []" by (simp add: s sv)
  moreover have "fh_ok (je_share E) (jo_fs (jo_start E))" using fh_started_ok by (simp add: s)
  ultimately show ?thesis by (force simp: jo_ok_def s)
qed

lemma quiet_shown:
  assumes "jo_ok E J" and "jo_quiet J"
  shows "map_of (lt_lists (jo_lt J)) (je_srv E) = Some (sl_list (fh_listServer (jo_fs J)))"
  using assms
  by (auto simp: jo_ok_def jo_quiet_def jo_asking_def jo_accepted_def jo_following_def jo_busy_def jo_current_def jo_coming_def)

text \<open>What is under way comes to rest.\<close>

lemma jo_settles:
  assumes "jo_ok E J" and "je_ok E"
  shows "\<exists>ds J'. set ds \<subseteq> {JoUp, JoDown, JoCall} \<and> jo_run E ds J = Done J' \<and> jo_quiet J' \<and>
     fh_listServer (jo_fs J') = fh_listServer (jo_fs J) \<and> jo_ok E J'"
  using assms
proof (induction "jo_weight J" arbitrary: J rule: less_induct)
  case less
  show ?case
  proof (cases "jo_quiet J")
    case True
    then show ?thesis using less.prems by (intro exI [of _ "[]"] exI [of _ J]) simp
  next
    case False
    then obtain d J1 where d: "d \<in> {JoUp, JoDown, JoCall}" "jo_step E d J = Done J1" "jo_ok E J1"
      "fh_listServer (jo_fs J1) = fh_listServer (jo_fs J)" "jo_weight J1 < jo_weight J"
      using up_step_ok [OF less.prems] down_step_ok [OF less.prems] call_step_ok [OF less.prems]
      unfolding jo_quiet_def by blast
    from less.hyps [OF d(5,3) less.prems(2)] obtain ds J' where "set ds \<subseteq> {JoUp, JoDown, JoCall}" "jo_run E ds J1 = Done J'"
      "jo_quiet J'" "fh_listServer (jo_fs J') = fh_listServer (jo_fs J)" "jo_ok E J'" using d(4) by auto
    then show ?thesis using d(1,2) by (intro exI [of _ "d # ds"] exI [of _ J']) simp
  qed
qed

text \<open>
  C2. A host that tracks another one shows what that one shares: in every run, whatever is shared,
  changed and unshared and however the messages and posted callbacks of both ends are interleaved,
  nothing faults, and when nothing is under way the shown list is the published one.
\<close>

theorem list_followed:
  assumes "je_ok E" and "\<forall>e \<in> set es. jo_event_ok E e"
  shows "\<exists>J. jo_run E es (jo_start E) = Done J \<and>
     (jo_quiet J \<longrightarrow> map_of (lt_lists (jo_lt J)) (je_srv E) = Some (sl_list (fh_listServer (jo_fs J))))"
proof -
  obtain J where J: "jo_run E es (jo_start E) = Done J" "jo_ok E J"
    using jo_run_ok [OF jo_start_ok [OF assms(1)] assms] by blast
  then show ?thesis using quiet_shown by blast
qed

text \<open>
  C13. What is under way arrives: from any point of such a run, messages and posted callbacks can be
  delivered until nothing is left, and then the list is shown as it was shared at that point.
\<close>

theorem list_arrives:
  assumes "je_ok E" and "\<forall>e \<in> set es. jo_event_ok E e"
  shows "\<exists>J ds J'. jo_run E es (jo_start E) = Done J \<and> set ds \<subseteq> {JoUp, JoDown, JoCall} \<and> jo_run E ds J = Done J' \<and>
     jo_quiet J' \<and> map_of (lt_lists (jo_lt J')) (je_srv E) = Some (sl_list (fh_listServer (jo_fs J)))"
proof -
  obtain J where J: "jo_run E es (jo_start E) = Done J" "jo_ok E J"
    using jo_run_ok [OF jo_start_ok [OF assms(1)] assms] by blast
  from jo_settles [OF J(2) assms(1)] obtain ds J' where ds: "set ds \<subseteq> {JoUp, JoDown, JoCall}" "jo_run E ds J = Done J'"
    "jo_quiet J'" "fh_listServer (jo_fs J') = fh_listServer (jo_fs J)" "jo_ok E J'" by blast
  with J(1) show ?thesis using quiet_shown [OF ds(5,3)] by metis
qed

subsection \<open>A text for lists\<close>

text \<open>Lengths in unary: enough to see that lists can be read back.\<close>

definition put_string :: "string \<Rightarrow> string" where
  "put_string s = replicate (length s) (CHR ''1'') @ ''0'' @ s"

definition get_string :: "string \<Rightarrow> string \<times> string" where
  "get_string t =
     (let n = length (takeWhile (\<lambda>c. c = CHR ''1'') t); r = drop (n + 1) t in (take n r, drop n r))"

lemma get_put_string [simp]: "get_string (put_string s @ r) = (s, r)"
proof -
  have "takeWhile (\<lambda>c. c = CHR ''1'') (replicate n (CHR ''1'') @ ''0'' @ t) = replicate n (CHR ''1'')" for n t
    by (induction n) simp_all
  then show ?thesis by (simp add: put_string_def get_string_def)
qed

definition put_int :: "int \<Rightarrow> string" where
  "put_int n = put_string (replicate (nat n) (CHR ''+'')) @ put_string (replicate (nat (- n)) (CHR ''-''))"

fun put_list :: "shared_list \<Rightarrow> string" where
  "put_list [] = ''.''"
| "put_list ((n, e) # l) = '';'' @ put_string n @ put_string (mPath (se_path e)) @ put_int (se_size e) @
     put_string (dd_mime (se_desc e)) @ put_string (dd_storage (se_desc e)) @ put_string (dd_user (se_desc e)) @ put_list l"

fun get_list :: "nat \<Rightarrow> string \<Rightarrow> shared_list option" where
  "get_list 0 t = None"
| "get_list (Suc k) t =
     (if t = [] then None
      else if hd t = CHR ''.'' then Some []
      else
        (case get_string (tl t) of (n, t) \<Rightarrow> case get_string t of (p, t) \<Rightarrow>
         case get_string t of (a, t) \<Rightarrow> case get_string t of (b, t) \<Rightarrow>
         case get_string t of (m, t) \<Rightarrow> case get_string t of (st, t) \<Rightarrow> case get_string t of (u, t) \<Rightarrow>
           map_option (\<lambda>l. (n, \<lparr>se_path = Path p, se_size = int (length a) - int (length b),
               se_desc = \<lparr>dd_mime = m, dd_storage = st, dd_user = u\<rparr>\<rparr>) # l) (get_list k t)))"

lemma get_put_list: "length (put_list l) \<le> k \<Longrightarrow> get_list k (put_list l) = Some l"
proof (induction l arbitrary: k)
  case Nil
  then show ?case by (cases k) simp_all
next
  case (Cons x l)
  obtain n e where x: "x = (n, e)" by (cases x)
  obtain j where k: "k = Suc j" using Cons.prems by (cases k) (auto simp: x)
  have "length (put_list l) \<le> j" using Cons.prems by (simp add: x k)
  from Cons.IH [OF this] show ?case by (simp add: x k put_int_def)
qed

definition demo_joint :: joint_env where
  "demo_joint = \<lparr>je_share = demo_share_env\<lparr>he_encodeShared := put_list\<rparr>,
     je_list = \<lparr>le_client = demo_cl_env, le_decode = (\<lambda>t. get_list (length t) t)\<rparr>,
     je_server = demo_sv_env, je_user = (\<lambda>h. h), je_me = ''me'', je_srv = ''srv''\<rparr>"

lemma demo_joint_ok: "je_ok demo_joint"
  by (simp add: je_ok_def demo_joint_def demo_cl_env_def get_put_list)

abbreviation demo_joint_run :: "jo_event list" where
  "demo_joint_run \<equiv> [JoUp, JoShare (FhShare ''f'' ''f'' False []), JoDown, JoCall, JoShare (FhUnshare ''f'')]"

lemma demo_joint_events: "\<forall>e \<in> set demo_joint_run. jo_event_ok demo_joint e"
  by (simp add: jo_event_ok_def others_event_def named_event_def)

lemma list_followed_witness:
  "\<exists>J. jo_run demo_joint demo_joint_run (jo_start demo_joint) = Done J \<and>
     (jo_quiet J \<longrightarrow> map_of (lt_lists (jo_lt J)) ''srv'' = Some (sl_list (fh_listServer (jo_fs J))))"
proof -
  have "je_srv demo_joint = ''srv''" by (simp add: demo_joint_def)
  then show ?thesis using list_followed [OF demo_joint_ok demo_joint_events] by simp
qed

lemma list_arrives_witness:
  "\<exists>J ds J'. jo_run demo_joint demo_joint_run (jo_start demo_joint) = Done J \<and> jo_run demo_joint ds J = Done J' \<and>
     jo_quiet J' \<and> map_of (lt_lists (jo_lt J')) ''srv'' = Some (sl_list (fh_listServer (jo_fs J)))"
proof -
  have "je_srv demo_joint = ''srv''" by (simp add: demo_joint_def)
  then show ?thesis using list_arrives [OF demo_joint_ok demo_joint_events] by (simp, blast)
qed

subsection \<open>What a tracker says too much\<close>

text \<open>A tracked uri that was given up is told about when its subscription ends.\<close>

lemma untracked_told:
  assumes "map_of (dk_tracked k) u = Some n" and "map_of (dk_heap k) n = Some i" and "ki_uri i = u"
    and "nt_mark m = NT_SubscriptionCancel"
  shows "\<exists>k' k''. dk_untrack u k = Done (NoError, k') \<and> map_of (dk_tracked k') u = None \<and>
     dk_onNotify E m n k' = Done ([TrackChanged u TrLost], k'')"
  using assms by (auto simp: dk_untrack_def dk_onNotify_def Let_def dk_put_def)

text \<open>A list that arrives after tracking was lost is shown as if it were current.\<close>

lemma lost_shown:
  assumes "map_of (dk_heap (lt_tracker l)) n = Some i" and "ki_uri i = Uri srv gSharedName True" and "ki_state i = TrTracking"
    and "nt_mark m = NT_SubscriptionCancel" and "rr_err r = NoError" and "le_decode E x = Some lst"
  shows "\<exists>l1 l2 i2. lt_called E (CallNotify n h m) l = Done l1 \<and> map_of (lt_lists l1) srv = None \<and>
     lt_called E (CallRequest n h r x) l1 = Done l2 \<and> map_of (lt_lists l2) srv = Some lst \<and>
     map_of (dk_heap (lt_tracker l2)) n = Some i2 \<and> ki_state i2 = TrLost"
  using assms
  by (auto simp: lt_called_def dk_called_def dk_onNotify_def dk_onRequestReply_def Let_def dk_put_def
      lt_onStateChange_def lt_onDataUpdate_def)

lemma request_sent:
  assumes "\<And>h m. ce_send E h m = NoError" and "rq_id q = 0"
  shows "\<exists>j q' c'. cl_request E src q cb t c = Done (NoError, j, c') \<and> cl_sent c' = cl_sent c @ [(src, MRequest q')]"
proof -
  obtain i b where g: "genFreeId (cl_ops c) = (i, b)" by fastforce
  obtain key s2 where hk: "hostKey src (cl_send src (MRequest (q\<lparr>rq_id := i\<rparr>)) (c\<lparr>cl_ops := b\<rparr>)) = (key, s2)" by fastforce
  from hostKey_props [OF hk] have "cl_sent s2 = cl_sent c @ [(src, MRequest (q\<lparr>rq_id := i\<rparr>))]" by (simp add: cl_send_def)
  then show ?thesis using assms g hk by (simp add: cl_request_def cl_start_def Let_def)
qed

text \<open>The revision stays that of the first reply, so data that is there already is asked for again.\<close>

lemma revision_kept:
  assumes "map_of (dk_heap k) n = Some i" and "ki_state i = TrTracking" and "rr_err r = NoError"
    and "ki_revision i < rr_revision r" and "nt_mark m = NT_NoMark" and "nt_revision m = rr_revision r"
    and "\<And>h m. ce_send E h m = NoError"
  shows "\<exists>calls k' k'' q. dk_onRequestReply r x n k = Done (calls, k') \<and> dk_onNotify E m n k' = Done ([], k'') \<and>
     cl_sent (dk_client k'') = cl_sent (dk_client k') @ [(u_host (ki_uri i), MRequest q)]"
proof -
  let ?i = "i\<lparr>ki_awaitRequest := False\<rparr>" and ?k = "dk_put n (i\<lparr>ki_awaitRequest := False\<rparr>) k"
  have "\<exists>q c. dk_request E n ?i ?k = Done (NoError, ?k\<lparr>dk_client := c\<rparr>) \<and>
     cl_sent c = cl_sent (dk_client ?k) @ [(u_host (ki_uri i), MRequest q)]"
    using request_sent [OF assms(7), of "new_request\<lparr>rq_path := u_path (ki_uri i)\<rparr>" "u_host (ki_uri i)" n 10000 "dk_client ?k"]
    by (auto simp: dk_request_def new_request_def)
  then obtain q c where "dk_request E n ?i ?k = Done (NoError, ?k\<lparr>dk_client := c\<rparr>)"
    "cl_sent c = cl_sent (dk_client ?k) @ [(u_host (ki_uri i), MRequest q)]" by blast
  moreover have "dk_onRequestReply r x n k = Done ([DataUpdated (ki_uri i) (rr_revision r) x], ?k)"
    using assms(1-3) by (simp add: dk_onRequestReply_def Let_def)
  moreover have "map_of (dk_heap ?k) n = Some ?i" by (simp add: dk_put_def)
  ultimately show ?thesis using assms(4-6) by (auto simp: dk_onNotify_def) (auto simp: dk_put_def)
qed

end
