(* ===== verification/Sf_Getting.thy ===== *)
theory Sf_Getting
  imports Sf_FileSharing Sf_DirTransfer
begin

text \<open>
  Getting files: \<open>libflocke/flocke/filesharing/FileGetting\<close>, which owns the transfers, names their
  destinations, and downloads the files of a directory two at a time.

  A call through \<open>xcall\<close> or \<open>notifyAsync\<close>, and a reply that the data sharing client passes on, is
  an entry of the queue \<open>fg_posted\<close>, which the main loop works off in order; calls of the delegates
  are logged.  Which requests are open at the client is \<open>fg_pending\<close>.  The file system may change
  with every event, so its environment is an argument of each operation.
\<close>

datatype transfer = FileT file_transfer | DirT dir_transfer

fun xfer_info :: "transfer \<Rightarrow> transfer_info" where
  "xfer_info (FileT t) = ft_info t"
| "xfer_info (DirT t) = dt_info t"

datatype fg_posted =
    PostedChange int tf_update
  | PostedTold int tf_update transfer_info
  | PostedReply int host_id ds_request_reply bytes

record file_getting =
  fg_transfers :: "(int, transfer) smap"
  fg_nextId :: int
  fg_destDir :: string
  fg_posted :: "fg_posted list"
  fg_pending :: "int list"
  fg_told :: "(int \<times> tf_update \<times> transfer_info) list"
  fg_cancels :: "(host_id \<times> int \<times> path) list"

record get_env =
  ge_tf :: tf_env
  ge_parentPath :: "string \<Rightarrow> string"
  ge_stem :: "string \<Rightarrow> string"
  ge_extension :: "string \<Rightarrow> string"

definition fg_new :: file_getting where
  "fg_new = \<lparr>fg_transfers = [], fg_nextId = 1, fg_destDir = [], fg_posted = [], fg_pending = [], fg_told = [], fg_cancels = []\<rparr>"

definition filesPerDirectory :: nat where
  "filesPerDirectory = 2"

subsection \<open>Names\<close>

definition base_name :: "string \<Rightarrow> string" where
  "base_name x = rev (takeWhile (\<lambda>c. c \<noteq> CHR ''/'') (rev (cstr x)))"

definition fileStem :: "get_env \<Rightarrow> string \<Rightarrow> string" where
  "fileStem E p =
     (if ge_parentPath E p \<noteq> [] then ge_parentPath E p @ gDirectoryDelimiter @ ge_stem E p else ge_stem E p)"

text \<open>The loop that counts up to 256, from the number it is at.\<close>

fun free_name :: "get_env \<Rightarrow> string \<Rightarrow> string \<Rightarrow> nat \<Rightarrow> string \<Rightarrow> nat \<Rightarrow> string \<times> nat" where
  "free_name E stem ext k c 0 = (c, k)"
| "free_name E stem ext k c (Suc n) =
     (if te_exists (ge_tf E) c then free_name E stem ext (k + 1) (stem @ show_nat k @ ext) n
      else (c, k))"

definition nonExistingName :: "get_env \<Rightarrow> string \<Rightarrow> bool \<times> string" where
  "nonExistingName E base =
     (case free_name E (fileStem E base) (ge_extension E base) 0 base 256 of (c, k) \<Rightarrow> (k < 256, c))"

definition removeTrailingSlashes :: "string \<Rightarrow> string" where
  "removeTrailingSlashes x = rev (dropWhile (\<lambda>c. c = CHR ''/'') (rev x))"

definition generateName :: "get_env \<Rightarrow> string \<Rightarrow> uri \<Rightarrow> bool \<times> string" where
  "generateName E dstDir u =
     (let path = removeTrailingSlashes (mPath (u_path u))
      in nonExistingName E (if dstDir = [] then base_name path else dstDir @ gDirectoryDelimiter @ base_name path))"

subsection \<open>Starting transfers\<close>

definition fg_put :: "int \<Rightarrow> transfer \<Rightarrow> file_getting \<Rightarrow> file_getting" where
  "fg_put i t s = s\<lparr>fg_transfers := sm_insert i t (fg_transfers s)\<rparr>"

definition fg_post :: "fg_posted list \<Rightarrow> file_getting \<Rightarrow> file_getting" where
  "fg_post ps s = s\<lparr>fg_posted := fg_posted s @ ps\<rparr>"

text \<open>What a transfer asks for, apart from the direct call.\<close>

fun act_posts :: "int \<Rightarrow> tf_action \<Rightarrow> fg_posted list" where
  "act_posts i PostStateChanged = [PostedChange i UT_Changed]"
| "act_posts i _ = []"

fun act_cancels :: "tf_action \<Rightarrow> (host_id \<times> int \<times> path) list" where
  "act_cancels (CancelTransmission h i p) = [(h, i, p)]"
| "act_cancels _ = []"

definition fg_acts :: "int \<Rightarrow> tf_action list \<Rightarrow> file_getting \<Rightarrow> file_getting" where
  "fg_acts i acts s =
     (fg_post (concat (map (act_posts i) acts)) s)\<lparr>fg_cancels := fg_cancels s @ concat (map act_cancels acts)\<rparr>"

definition fg_requestFileTransfer ::
  "get_env \<Rightarrow> uri \<Rightarrow> string \<Rightarrow> int \<Rightarrow> file_getting \<Rightarrow> error \<times> int \<times> file_getting" where
  "fg_requestFileTransfer E u fileName parent s =
     (let i = fg_nextId s
      in case ft_start (ge_tf E) u fileName (ft_new parent) of (e, t) \<Rightarrow>
           let s1 = fg_post [PostedChange i UT_Added] (fg_put i (FileT t) (s\<lparr>fg_nextId := i + 1\<rparr>))
           in (e, i, if failed e then s1 else s1\<lparr>fg_pending := i # fg_pending s1\<rparr>))"

definition fg_request :: "get_env \<Rightarrow> uri \<Rightarrow> file_getting \<Rightarrow> error \<times> file_getting" where
  "fg_request E u s =
     (case generateName E (fg_destDir s) u of
        (False, _) \<Rightarrow> (ExistsAlready, s)
      | (True, name) \<Rightarrow> (case fg_requestFileTransfer E u name 0 s of (e, _, s1) \<Rightarrow> (e, s1)))"

definition fg_requestDirectory :: "get_env \<Rightarrow> uri \<Rightarrow> file_getting \<Rightarrow> error \<times> file_getting" where
  "fg_requestDirectory E u s =
     (case generateName E (fg_destDir s) u of
        (False, _) \<Rightarrow> (ExistsAlready, s)
      | (True, name) \<Rightarrow>
          let i = fg_nextId s
          in case dt_start (ge_tf E) u name dt_new of (e, t) \<Rightarrow>
               let s1 = fg_post [PostedChange i UT_Added] (fg_put i (DirT t) (s\<lparr>fg_nextId := i + 1\<rparr>))
               in (e, if failed e then s1 else s1\<lparr>fg_pending := i # fg_pending s1\<rparr>))"

definition fg_cancel :: "int \<Rightarrow> error \<Rightarrow> transfer \<Rightarrow> file_getting \<Rightarrow> file_getting" where
  "fg_cancel i cause t s =
     (case t of
        FileT f \<Rightarrow> (case ft_cancel cause f of (acts, f') \<Rightarrow> fg_acts i acts (fg_put i (FileT f') s))
      | DirT d \<Rightarrow> (case dt_cancel cause d of (acts, d') \<Rightarrow> fg_acts i acts (fg_put i (DirT d') s)))"

subsection \<open>The files of a directory\<close>

text \<open>An operation that may not return, or leave the defined behaviour.\<close>

definition oo_bind :: "'a outcome option \<Rightarrow> ('a \<Rightarrow> 'b outcome option) \<Rightarrow> 'b outcome option" where
  "oo_bind m f = (case m of None \<Rightarrow> None | Some (Fault x) \<Rightarrow> Some (Fault x) | Some (Done y) \<Rightarrow> f y)"

abbreviation oo_done :: "'a \<Rightarrow> 'a outcome option" where
  "oo_done y \<equiv> Some (Done y)"

lemma oo_bind_simps [simp]:
  "oo_bind (oo_done y) f = f y" "oo_bind (Some (Fault x)) f = Some (Fault x)" "oo_bind None f = None"
  by (simp_all add: oo_bind_def)

lemma oo_bind_done: "oo_bind m f = oo_done y \<longleftrightarrow> (\<exists>x. m = oo_done x \<and> f x = oo_done y)"
  by (auto simp: oo_bind_def split: option.splits outcome.splits)

definition fg_startNext :: "get_env \<Rightarrow> int \<Rightarrow> file_getting \<Rightarrow> (error \<times> file_getting) outcome option" where
  "fg_startNext E i s =
     (case map_of (fg_transfers s) i of
        None \<Rightarrow> Some (Fault AssertFailed)
      | Some (FileT f) \<Rightarrow> Some (Fault AssertFailed)
      | Some (DirT d) \<Rightarrow>
          oo_bind (dt_nextTransfer (ge_tf E) d) (\<lambda>(e, task, _, acts, d').
            let s1 = fg_acts i acts (fg_put i (DirT d') s)
            in if e = Eof then oo_done (NoError, s1)
               else if failed e then oo_done (e, fg_cancel i e (DirT d') s1)
               else
                 (case task of
                    None \<Rightarrow> Some (Fault NullDeref)
                  | Some (u, name) \<Rightarrow>
                      (case fg_requestFileTransfer E u name i s1 of (e2, _, s2) \<Rightarrow>
                         oo_done (e2, if failed e2 then fg_cancel i e2 (DirT d') s2 else s2)))))"

fun fg_startSome :: "get_env \<Rightarrow> int \<Rightarrow> nat \<Rightarrow> file_getting \<Rightarrow> file_getting outcome option" where
  "fg_startSome E i 0 s = oo_done s"
| "fg_startSome E i (Suc n) s =
     oo_bind (fg_startNext E i s) (\<lambda>(e, s1). if failed e then oo_done s1 else fg_startSome E i n s1)"

definition fg_onTransferChange :: "get_env \<Rightarrow> int \<Rightarrow> tf_update \<Rightarrow> file_getting \<Rightarrow> file_getting outcome option" where
  "fg_onTransferChange E i change s =
     (case map_of (fg_transfers s) i of
        None \<Rightarrow> oo_done s
      | Some t \<Rightarrow>
          let info = xfer_info t
          in oo_bind (if tf_state info = TS_TransferredListing then
                        if tf_type info \<noteq> DIR_TRANSFER then Some (Fault AssertFailed)
                        else fg_startSome E i filesPerDirectory s
                      else oo_done s) (\<lambda>s1.
             oo_bind (if tf_state info = TS_Finished \<and> tf_parent info \<noteq> 0
                      then oo_bind (fg_startNext E (tf_parent info) s1) (\<lambda>(_, s2). oo_done s2)
                      else oo_done s1) (\<lambda>s2.
               oo_done (s2\<lparr>fg_told := fg_told s2 @ [(i, change, info)]\<rparr>))))"

subsection \<open>Cancelling and removing\<close>

definition fg_cancelTransfer :: "int \<Rightarrow> file_getting \<Rightarrow> error \<times> file_getting" where
  "fg_cancelTransfer i s =
     (case map_of (fg_transfers s) i of None \<Rightarrow> (NotFound, s) | Some t \<Rightarrow> (NoError, fg_cancel i NoError t s))"

definition fg_removed :: "int \<Rightarrow> fg_posted" where
  "fg_removed i = PostedTold i UT_Removed (new_transfer FILE_TRANSFER 0)"

definition fg_removeTransfer :: "int \<Rightarrow> file_getting \<Rightarrow> error \<times> file_getting" where
  "fg_removeTransfer i s =
     (case map_of (fg_transfers s) i of
        None \<Rightarrow> (NotFound, s)
      | Some t \<Rightarrow>
          let s1 = fg_post [fg_removed i] (fg_cancel i NoError t s)
          in (NoError, s1\<lparr>fg_transfers := sm_erase i (fg_transfers s1)\<rparr>))"

definition fg_removeFinishedTransfers :: "file_getting \<Rightarrow> file_getting" where
  "fg_removeFinishedTransfers s =
     (fg_post (map (fg_removed \<circ> fst) (filter (\<lambda>x. tf_ended (xfer_info (snd x))) (fg_transfers s))) s)
       \<lparr>fg_transfers := filter (\<lambda>x. \<not> tf_ended (xfer_info (snd x))) (fg_transfers s)\<rparr>"

definition fg_transfers_of :: "file_getting \<Rightarrow> (int \<times> transfer_info) list" where
  "fg_transfers_of s = map (\<lambda>(i, t). (i, xfer_info t)) (fg_transfers s)"

subsection \<open>Replies\<close>

text \<open>The callback of a transfer that was deleted is not called.\<close>

definition fg_reply ::
  "get_env \<Rightarrow> int \<Rightarrow> host_id \<Rightarrow> ds_request_reply \<Rightarrow> bytes \<Rightarrow> file_getting \<Rightarrow> file_getting outcome option" where
  "fg_reply E i h r x s =
     (case map_of (fg_transfers s) i of
        None \<Rightarrow> oo_done s
      | Some (FileT f) \<Rightarrow>
          oo_bind (Some (ft_onRequestReply (ge_tf E) h r x f)) (\<lambda>(acts, f').
            fg_onTransferChange E i UT_Changed (fg_acts i acts (fg_put i (FileT f') s)))
      | Some (DirT d) \<Rightarrow>
          oo_bind (Some (dt_onRequestReply (ge_tf E) h r x d)) (\<lambda>(acts, d').
            fg_onTransferChange E i UT_Changed (fg_acts i acts (fg_put i (DirT d') s))))"

subsection \<open>Listings\<close>

definition list_request_of :: "uri \<Rightarrow> ds_request" where
  "list_request_of u = new_request\<lparr>rq_path := u_path u, rq_user := ''list''\<rparr>"

definition fg_listDirectory :: "get_env \<Rightarrow> uri \<Rightarrow> error" where
  "fg_listDirectory E u =
     (if \<not> u_valid u then InvalidUri else te_request (ge_tf E) (u_host u) (list_request_of u))"

text \<open>What \<open>gotListing\<close> is called with; a listing that cannot be read, or none, is the empty one.\<close>

definition fg_onListingReply ::
  "(bytes \<Rightarrow> dir_entry list option) \<Rightarrow> host_id \<Rightarrow> ds_request_reply \<Rightarrow> bytes \<Rightarrow> uri \<times> error \<times> dir_entry list" where
  "fg_onListingReply decode h r x =
     (if failed (rr_err r) then (uri_make h (rr_path r), rr_err r, [])
      else
        (case decode x of
           None \<Rightarrow> (uri_make h (rr_path r), BadDeserialization, [])
         | Some l \<Rightarrow> (uri_make h (rr_path r), NoError, l)))"

subsection \<open>Runs\<close>

text \<open>
  What the user does, what the client gets, and one turn of the main loop.  A request stays open at
  the client until a reply that does not announce more, or until it times out, which is told at once.
\<close>

datatype fg_event =
    FgRequest get_env uri
  | FgRequestDirectory get_env uri
  | FgCancel int
  | FgRemove int
  | FgRemoveFinished
  | FgArrive int host_id ds_request_reply bytes
  | FgTimeOut get_env int error path
  | FgTurn get_env

definition last_reply :: "ds_request_reply \<Rightarrow> bool" where
  "last_reply r \<longleftrightarrow> \<not> cl_follows True (rr_mark r)"

definition fg_arrive :: "int \<Rightarrow> host_id \<Rightarrow> ds_request_reply \<Rightarrow> bytes \<Rightarrow> file_getting \<Rightarrow> file_getting" where
  "fg_arrive i h r x s =
     (if i \<in> set (fg_pending s) then
        (fg_post [PostedReply i h r x] s)
          \<lparr>fg_pending := (if last_reply r then removeAll i (fg_pending s) else fg_pending s)\<rparr>
      else s)"

definition fg_turn :: "get_env \<Rightarrow> file_getting \<Rightarrow> file_getting outcome option" where
  "fg_turn E s =
     (case fg_posted s of
        [] \<Rightarrow> oo_done s
      | p # ps \<Rightarrow>
          let s1 = s\<lparr>fg_posted := ps\<rparr>
          in case p of
               PostedChange i change \<Rightarrow> fg_onTransferChange E i change s1
             | PostedTold i change info \<Rightarrow> oo_done (s1\<lparr>fg_told := fg_told s1 @ [(i, change, info)]\<rparr>)
             | PostedReply i h r x \<Rightarrow> fg_reply E i h r x s1)"

definition fg_timeOut :: "get_env \<Rightarrow> int \<Rightarrow> error \<Rightarrow> path \<Rightarrow> file_getting \<Rightarrow> file_getting outcome option" where
  "fg_timeOut E i e p s =
     (if i \<in> set (fg_pending s) then
        fg_reply E i [] (new_request_reply\<lparr>rr_path := p, rr_err := e\<rparr>) [] (s\<lparr>fg_pending := removeAll i (fg_pending s)\<rparr>)
      else oo_done s)"

fun fg_step :: "fg_event \<Rightarrow> file_getting \<Rightarrow> file_getting outcome option" where
  "fg_step (FgRequest E u) s = oo_done (snd (fg_request E u s))"
| "fg_step (FgRequestDirectory E u) s = oo_done (snd (fg_requestDirectory E u s))"
| "fg_step (FgCancel i) s = oo_done (snd (fg_cancelTransfer i s))"
| "fg_step (FgRemove i) s = oo_done (snd (fg_removeTransfer i s))"
| "fg_step FgRemoveFinished s = oo_done (fg_removeFinishedTransfers s)"
| "fg_step (FgArrive i h r x) s = oo_done (fg_arrive i h r x s)"
| "fg_step (FgTimeOut E i e p) s = fg_timeOut E i e p s"
| "fg_step (FgTurn E) s = fg_turn E s"

fun fg_run :: "fg_event list \<Rightarrow> file_getting \<Rightarrow> file_getting outcome option" where
  "fg_run [] s = oo_done s"
| "fg_run (e # es) s = oo_bind (fg_step e s) (fg_run es)"

end
