(* ===== verification/Sf_GettingInv.thy ===== *)
theory Sf_GettingInv
  imports Sf_Getting
begin

text \<open>
  What a file getting keeps in every run: its transfers are in order, a file transfer that has
  finished is never heard of again, and at most two files of a directory are under way at a time.
\<close>

subsection \<open>Single transfers\<close>

definition alive :: "transfer option \<Rightarrow> bool" where
  "alive t \<longleftrightarrow> (case t of Some (FileT f) \<Rightarrow> tf_state (ft_info f) = TS_Starting \<or> tf_state (ft_info f) = TS_Transferring
                     | _ \<Rightarrow> False)"

definition finished_child :: "transfer option \<Rightarrow> bool" where
  "finished_child t \<longleftrightarrow>
     (case t of Some (FileT f) \<Rightarrow> tf_state (ft_info f) = TS_Finished \<and> tf_parent (ft_info f) \<noteq> 0 | _ \<Rightarrow> False)"

definition child :: "int \<Rightarrow> transfer option \<Rightarrow> bool" where
  "child p t \<longleftrightarrow> (case t of Some (FileT f) \<Rightarrow> tf_parent (ft_info f) = p | _ \<Rightarrow> False)"

text \<open>A directory whose files have not been handed out yet.\<close>

definition early_state :: "tf_state \<Rightarrow> bool" where
  "early_state st \<longleftrightarrow> st = TS_NoState \<or> st = TS_Starting \<or> st = TS_Transferring \<or> st = TS_TransferredListing"

definition early :: "transfer option \<Rightarrow> bool" where
  "early t \<longleftrightarrow> (case t of Some (DirT d) \<Rightarrow> early_state (tf_state (dt_info d)) | _ \<Rightarrow> False)"

lemmas transfer_simps = alive_def finished_child_def child_def early_def

definition file_ok :: "int \<Rightarrow> file_transfer \<Rightarrow> bool" where
  "file_ok i f \<longleftrightarrow> ft_ok f \<and> tf_state (ft_info f) \<noteq> TS_TransferredListing \<and> tf_state (ft_info f) \<noteq> TS_PendingFiles \<and>
     0 \<le> tf_parent (ft_info f) \<and> tf_parent (ft_info f) < i"

definition dir_ok :: "dir_transfer \<Rightarrow> bool" where
  "dir_ok d \<longleftrightarrow> tf_parent (dt_info d) = 0 \<and> tf_type (dt_info d) = DIR_TRANSFER \<and>
     (tf_state (dt_info d) = TS_Starting \<longrightarrow> tf_transferred (dt_info d) = 0) \<and>
     (tf_state (dt_info d) = TS_TransferredListing \<or> tf_state (dt_info d) = TS_PendingFiles \<longrightarrow> it_ok (dt_iter d))"

fun xfer_ok :: "int \<Rightarrow> transfer \<Rightarrow> bool" where
  "xfer_ok i (FileT f) \<longleftrightarrow> file_ok i f"
| "xfer_ok i (DirT d) \<longleftrightarrow> dir_ok d"

subsection \<open>The invariant\<close>

fun reply_to :: "fg_posted \<Rightarrow> int option" where
  "reply_to (PostedReply i h r x) = Some i"
| "reply_to _ = None"

fun change_of :: "fg_posted \<Rightarrow> int option" where
  "change_of (PostedChange i c) = Some i"
| "change_of _ = None"

fun is_last :: "fg_posted \<Rightarrow> bool" where
  "is_last (PostedReply i h r x) \<longleftrightarrow> last_reply r"
| "is_last _ \<longleftrightarrow> False"

definition concerns :: "int \<Rightarrow> fg_posted \<Rightarrow> bool" where
  "concerns i a \<longleftrightarrow> reply_to a = Some i \<or> change_of a = Some i"

type_synonym xfers = "int \<Rightarrow> transfer option"

text \<open>In the queue, nothing is behind the last reply of a request, and no replies are before a change.\<close>

definition in_order :: "xfers \<Rightarrow> fg_posted \<Rightarrow> fg_posted \<Rightarrow> bool" where
  "in_order m a b \<longleftrightarrow> (\<forall>i. reply_to a = Some i \<longrightarrow>
     (reply_to b = Some i \<longrightarrow> \<not> is_last a) \<and> (change_of b = Some i \<longrightarrow> \<not> alive (m i)))"

definition active :: "xfers \<Rightarrow> int \<Rightarrow> int set" where
  "active m p = {i. child p (m i) \<and> alive (m i)}"

definition fgv :: "xfers \<Rightarrow> fg_posted list \<Rightarrow> int list \<Rightarrow> int \<Rightarrow> bool" where
  "fgv m q pend n \<longleftrightarrow> finite (dom m) \<and> 0 < n \<and> (\<forall>i \<in> dom m. 0 < i \<and> i < n) \<and>
     (\<forall>a \<in> set q. \<forall>i. concerns i a \<longrightarrow> i < n) \<and> (\<forall>i \<in> set pend. i < n) \<and>
     (\<forall>i t. m i = Some t \<longrightarrow> xfer_ok i t) \<and> sorted_wrt (in_order m) q \<and>
     (\<forall>a \<in> set q. \<forall>i. reply_to a = Some i \<and> is_last a \<longrightarrow> i \<notin> set pend) \<and>
     (\<forall>i. finished_child (m i) \<longrightarrow> i \<notin> set pend \<and> (\<forall>a \<in> set q. \<not> concerns i a)) \<and>
     (\<forall>p. p \<noteq> 0 \<longrightarrow> card (active m p) \<le> 2) \<and> (\<forall>p. early (m p) \<longrightarrow> (\<forall>i. \<not> child p (m i)))"

lemma fgv_D:
  assumes "fgv m q pend n"
  shows "finite (dom m)" "0 < n" "m i = Some t \<Longrightarrow> 0 < i \<and> i < n" "a \<in> set q \<Longrightarrow> concerns i a \<Longrightarrow> i < n"
    "i \<in> set pend \<Longrightarrow> i < n" "m i = Some t \<Longrightarrow> xfer_ok i t" "sorted_wrt (in_order m) q"
    "a \<in> set q \<Longrightarrow> reply_to a = Some i \<Longrightarrow> is_last a \<Longrightarrow> i \<notin> set pend"
    "finished_child (m i) \<Longrightarrow> i \<notin> set pend" "finished_child (m i) \<Longrightarrow> a \<in> set q \<Longrightarrow> \<not> concerns i a"
    "p \<noteq> 0 \<Longrightarrow> card (active m p) \<le> 2" "early (m p) \<Longrightarrow> \<not> child p (m i)"
  using assms unfolding fgv_def by auto

lemma fgv_I:
  assumes "finite (dom m)" and "0 < n" and "\<And>i t. m i = Some t \<Longrightarrow> 0 < i \<and> i < n"
    and "\<And>a i. a \<in> set q \<Longrightarrow> concerns i a \<Longrightarrow> i < n" and "\<And>i. i \<in> set pend \<Longrightarrow> i < n"
    and "\<And>i t. m i = Some t \<Longrightarrow> xfer_ok i t" and "sorted_wrt (in_order m) q"
    and "\<And>a i. a \<in> set q \<Longrightarrow> reply_to a = Some i \<Longrightarrow> is_last a \<Longrightarrow> i \<notin> set pend"
    and "\<And>i. finished_child (m i) \<Longrightarrow> i \<notin> set pend" and "\<And>i a. finished_child (m i) \<Longrightarrow> a \<in> set q \<Longrightarrow> \<not> concerns i a"
    and "\<And>p. p \<noteq> 0 \<Longrightarrow> card (active m p) \<le> 2" and "\<And>p i. early (m p) \<Longrightarrow> \<not> child p (m i)"
  shows "fgv m q pend n"
  using assms unfolding fgv_def by (auto simp: dom_def)

lemma finite_active: "finite (dom m) \<Longrightarrow> finite (active m p)"
  by (rule finite_subset [of _ "dom m"]) (auto simp: active_def child_def split: option.splits)

lemma in_order_weaken:
  assumes "sorted_wrt (in_order m) q" and "\<And>i. alive (m' i) \<Longrightarrow> alive (m i) \<or> (\<forall>a \<in> set q. reply_to a \<noteq> Some i)"
  shows "sorted_wrt (in_order m') q"
proof (rule sorted_wrt_mono_rel [OF _ assms(1)])
  fix x y assume xy: "x \<in> set q" "in_order m x y"
  have "alive (m i)" if "reply_to x = Some i" "alive (m' i)" for i using assms(2) [OF that(2)] that(1) xy(1) by blast
  then show "in_order m' x y" using xy(2) unfolding in_order_def by blast
qed

text \<open>A transfer changes.\<close>

lemma fgv_file:
  assumes ok: "fgv m q pend n" and i: "m i = Some (FileT f)" and f': "file_ok i f'" "tf_parent (ft_info f') = tf_parent (ft_info f)"
    and mono: "alive (Some (FileT f')) \<Longrightarrow> alive (Some (FileT f))"
    and fin: "finished_child (Some (FileT f')) \<Longrightarrow> i \<notin> set pend \<and> (\<forall>a \<in> set q. \<not> concerns i a)"
  shows "fgv (m(i \<mapsto> FileT f')) q pend n"
    "active (m(i \<mapsto> FileT f')) p = (if alive (Some (FileT f')) then active m p else active m p - {i})"
proof -
  let ?m = "m(i \<mapsto> FileT f')"
  have al: "alive (?m j) \<Longrightarrow> alive (m j)" for j using mono i by (simp split: if_splits)
  have ch: "child p (?m j) = child p (m j)" for p j using i f'(2) by (simp add: child_def)
  have sub: "active ?m p \<subseteq> active m p" for p using al by (auto simp: active_def ch simp del: fun_upd_apply)
  show "active ?m p = (if alive (Some (FileT f')) then active m p else active m p - {i})"
  proof (rule set_eqI)
    fix x
    have "x \<in> active ?m p \<longleftrightarrow> child p (m x) \<and> alive (?m x)" using ch [of p x] by (simp only: active_def mem_Collect_eq)
    then show "x \<in> active ?m p \<longleftrightarrow> x \<in> (if alive (Some (FileT f')) then active m p else active m p - {i})"
      using mono i by (auto simp: active_def)
  qed
  have "card (active ?m p) \<le> 2" if "p \<noteq> 0" for p
    using card_mono [OF finite_active [OF fgv_D(1) [OF ok]] sub [of p]] fgv_D(11) [OF ok that] by simp
  moreover have er: "early (?m p) = early (m p)" for p using i by (simp add: early_def)
  have "\<not> child p (?m j)" if "early (?m p)" for p j using that unfolding er ch by (rule fgv_D(12) [OF ok])
  moreover have "sorted_wrt (in_order ?m) q" by (rule in_order_weaken [OF fgv_D(7) [OF ok]]) (use al in blast)
  moreover have "finite (dom ?m)" using fgv_D(1) [OF ok] by simp
  moreover have "0 < j \<and> j < n" "xfer_ok j t" if "?m j = Some t" for j t
    using that fgv_D(3,6) [OF ok] i f'(1) by (auto split: if_splits)
  moreover have "j \<notin> set pend" "a \<in> set q \<Longrightarrow> \<not> concerns j a" if "finished_child (?m j)" for j a
    using that fgv_D(9,10) [OF ok, of j] fin by (cases "j = i"; auto)+
  ultimately show "fgv ?m q pend n" using fgv_D(2,4,5,8) [OF ok] by (intro fgv_I) assumption+
qed

lemma fgv_dir:
  assumes ok: "fgv m q pend n" and i: "m i = Some (DirT d)" and d': "dir_ok d'"
    and mono: "early (Some (DirT d')) \<Longrightarrow> early (Some (DirT d))"
  shows "fgv (m(i \<mapsto> DirT d')) q pend n" "active (m(i \<mapsto> DirT d')) p = active m p"
proof -
  let ?m = "m(i \<mapsto> DirT d')"
  have same: "alive (?m j) = alive (m j)" "child p (?m j) = child p (m j)" "finished_child (?m j) = finished_child (m j)" for p j
    using i by (simp_all add: alive_def child_def finished_child_def)
  show act: "active ?m p = active m p" for p by (simp only: active_def same)
  have "early (?m p) \<Longrightarrow> early (m p)" for p using mono i by (simp split: if_splits)
  moreover have "sorted_wrt (in_order ?m) q" by (rule in_order_weaken [OF fgv_D(7) [OF ok]]) (use same in blast)
  ultimately show "fgv ?m q pend n"
    using fgv_D [OF ok] i d' unfolding fgv_def same act by (auto split: if_splits)
qed

text \<open>Something is posted, or the first entry of the queue is taken.\<close>

lemma fgv_post:
  assumes ok: "fgv m q pend n" and "\<And>i. concerns i a \<Longrightarrow> i < n \<and> \<not> finished_child (m i)"
    and "\<And>i b. reply_to a = Some i \<Longrightarrow> is_last a \<Longrightarrow> i \<notin> set pend"
    and "\<And>i b. reply_to a = Some i \<Longrightarrow> b \<in> set q \<Longrightarrow> reply_to b = Some i \<Longrightarrow> \<not> is_last b"
    and "\<And>i b. change_of a = Some i \<Longrightarrow> alive (m i) \<Longrightarrow> b \<in> set q \<Longrightarrow> reply_to b \<noteq> Some i"
  shows "fgv m (q @ [a]) pend n"
proof -
  have "in_order m b a" if "b \<in> set q" for b using assms(4,5) that by (fastforce simp: in_order_def)
  then have "sorted_wrt (in_order m) (q @ [a])" using fgv_D(7) [OF ok] by (simp add: sorted_wrt_append)
  then show ?thesis
    using fgv_D [OF ok] assms(2,3) unfolding fgv_def by (simp, blast)
qed

lemma fgv_pop: "fgv m (a # q) pend n \<Longrightarrow> fgv m q pend n"
  unfolding fgv_def by simp

text \<open>A request is no longer open, or transfers are removed.\<close>

lemma fgv_pending: "fgv m q pend n \<Longrightarrow> set pend' \<subseteq> set pend \<Longrightarrow> fgv m q pend' n"
  unfolding fgv_def by blast

lemma fgv_remove:
  assumes ok: "fgv m q pend n" and sub: "\<And>i t. m' i = Some t \<Longrightarrow> m i = Some t"
  shows "fgv m' q pend n"
proof -
  have part: "m' i = None \<or> m' i = m i" for i using sub by (cases "m' i") auto
  have al: "alive (m' i) \<Longrightarrow> alive (m i)" "child p (m' i) \<Longrightarrow> child p (m i)" "finished_child (m' i) \<Longrightarrow> finished_child (m i)"
    "early (m' i) \<Longrightarrow> early (m i)" for i p
    using part [of i] by (auto simp: transfer_simps)
  have dom: "dom m' \<subseteq> dom m" using sub by blast
  have "card (active m' p) \<le> 2" if "p \<noteq> 0" for p
    using card_mono [OF finite_active [OF fgv_D(1) [OF ok]], of "active m' p" p] fgv_D(11) [OF ok that] al by (fastforce simp: active_def)
  moreover have "sorted_wrt (in_order m') q" by (rule in_order_weaken [OF fgv_D(7) [OF ok]]) (use al in blast)
  moreover have "finite (dom m')" using dom fgv_D(1) [OF ok] by (rule finite_subset)
  ultimately show ?thesis
  proof (intro fgv_I)
    show "0 < n" by (rule fgv_D(2) [OF ok])
    show "m' i = Some t \<Longrightarrow> 0 < i \<and> i < n" "m' i = Some t \<Longrightarrow> xfer_ok i t" for i t
      using fgv_D(3,6) [OF ok sub] by blast+
    show "a \<in> set q \<Longrightarrow> concerns i a \<Longrightarrow> i < n" "i \<in> set pend \<Longrightarrow> i < n"
      "a \<in> set q \<Longrightarrow> reply_to a = Some i \<Longrightarrow> is_last a \<Longrightarrow> i \<notin> set pend" for a i
      using fgv_D(4,5,8) [OF ok] by blast+
    show "finished_child (m' i) \<Longrightarrow> i \<notin> set pend" "finished_child (m' i) \<Longrightarrow> a \<in> set q \<Longrightarrow> \<not> concerns i a" for a i
      using fgv_D(9,10) [OF ok al(3)] by blast+
    show "early (m' p) \<Longrightarrow> \<not> child p (m' i)" for p i using fgv_D(12) [OF ok al(4)] al(2) by blast
  qed
qed

text \<open>A new transfer.\<close>

lemma fgv_new:
  assumes ok: "fgv m q pend n" and t: "xfer_ok n t" "\<not> finished_child (Some t)"
    and par: "\<And>p. child p (Some t) \<Longrightarrow> p \<noteq> 0 \<Longrightarrow> \<not> early (m p) \<and> (alive (Some t) \<longrightarrow> card (active m p) < 2)"
    and pend': "pend' = pend \<or> pend' = n # pend"
  shows "fgv (m(n \<mapsto> t)) (q @ [PostedChange n c]) pend' (n + 1)"
    "active (m(n \<mapsto> t)) p = (if child p (Some t) \<and> alive (Some t) then insert n (active m p) else active m p)"
proof -
  let ?m = "m(n \<mapsto> t)"
  have none: "m n = None" using fgv_D(3) [OF ok, of n] by fastforce
  show act: "active ?m p = (if child p (Some t) \<and> alive (Some t) then insert n (active m p) else active m p)" for p
    using none by (auto simp: active_def child_def split: if_splits option.splits)
  have new: "\<not> concerns n a" if "a \<in> set q" for a using fgv_D(4) [OF ok that, of n] by auto
  then have q: "\<not> concerns n a" "a \<in> set q \<Longrightarrow> reply_to a \<noteq> Some n" if "a \<in> set q" for a
    using that by (auto simp: concerns_def)
  have ord: "sorted_wrt (in_order ?m) (q @ [PostedChange n c])"
  proof -
    have "alive (m j) \<or> (\<forall>a \<in> set q. reply_to a \<noteq> Some j)" if "alive (?m j)" for j
      using that q by (cases "j = n") auto
    then have "sorted_wrt (in_order ?m) q" by (rule in_order_weaken [OF fgv_D(7) [OF ok]])
    moreover have "in_order ?m a (PostedChange n c)" if "a \<in> set q" for a using q [OF that] that by (auto simp: in_order_def)
    ultimately show ?thesis by (simp add: sorted_wrt_append)
  qed
  have card: "card (active ?m p) \<le> 2" if p: "p \<noteq> 0" for p
  proof (cases "child p (Some t) \<and> alive (Some t)")
    case True
    then have "card (active m p) < 2" using par p by blast
    then show ?thesis using True card_insert_le_m1 [of 2 "active m p" n] by (simp add: act)
  next
    case False
    then show ?thesis using fgv_D(11) [OF ok p] by (auto simp: act)
  qed
  have early: "\<not> child p (?m i)" if "early (?m p)" for p i
  proof
    assume ch: "child p (?m i)"
    have "i \<noteq> n \<Longrightarrow> p \<noteq> n"
      using ch fgv_D(3,6) [OF ok, of i] by (auto simp: child_def file_ok_def split: option.splits transfer.splits)
    moreover have "i = n \<Longrightarrow> p \<noteq> n"
      using ch t(1) by (auto simp: child_def file_ok_def split: transfer.splits)
    ultimately have p: "p \<noteq> n" by blast
    with that have "early (m p)" by simp
    moreover from this have "p \<noteq> 0" using fgv_D(3) [OF ok, of p] by (auto simp: early_def split: option.splits)
    ultimately show False using ch par fgv_D(12) [OF ok, of p i] by (auto split: if_splits)
  qed
  have "i < n + 1" if "i < n \<or> i = n" for i using that by auto
  then show "fgv ?m (q @ [PostedChange n c]) pend' (n + 1)"
    using fgv_D [OF ok] t pend' none ord card early q new unfolding fgv_def
    by (auto simp: concerns_def split: if_splits)
qed

end
