(* ===== verification/Sf_GettingProps.thy ===== *)
theory Sf_GettingProps
  imports Sf_GettingInv
begin

text \<open>
  The runs of a file getting: its operations and handlers keep the invariant, and what follows.
\<close>

subsection \<open>What the transfers do\<close>

lemma dt_seek_total:
  assumes "it_ok st"
  shows "\<exists>f made it. dt_seek E dir st = oo_done (f, made, it) \<and> it_ok it \<and> (\<forall>p x n. f = AtFile p x n \<longrightarrow> it \<noteq> []) \<and>
     (\<forall>e. f = MkdirFailed e \<longrightarrow> failed e)"
  using assms
proof (induction "length (it_rest st)" arbitrary: st)
  case 0
  then have "st = []" by (simp add: it_rest_Nil)
  then show ?case by (simp add: dt_seek.simps)
next
  case (Suc n)
  then have ne: "st \<noteq> []" by (auto simp: it_rest_def)
  from ne Suc.prems obtain e p st' where st: "it_deref st = Done e" "it_path st = Done p" "it_next st = Done st'"
    "it_ok st'" "it_rest st = (p, e) # it_rest st'" by (rule it_next_rest)
  show ?case
  proof (cases "re_type e = EDirectory \<and> \<not> failed (te_mkdir E (dt_destination dir p))")
    case True
    obtain f made it where "dt_seek E dir st' = oo_done (f, made, it)" "it_ok it" "\<forall>p x n. f = AtFile p x n \<longrightarrow> it \<noteq> []"
      "\<forall>e. f = MkdirFailed e \<longrightarrow> failed e"
      using Suc.hyps(1) [of st'] Suc.hyps(2) st(4,5) by auto
    then show ?thesis using True st ne by (subst dt_seek.simps) simp
  next
    case False
    then show ?thesis using st ne Suc.prems by (subst dt_seek.simps) auto
  qed
qed

definition next_ok :: "dir_transfer \<Rightarrow> error \<Rightarrow> transfer_task option \<Rightarrow> tf_action list \<Rightarrow> dir_transfer \<Rightarrow> bool" where
  "next_ok d e task acts d' \<longleftrightarrow> dir_ok d' \<and> tf_state (dt_info d') \<noteq> TS_TransferredListing \<and>
     set acts \<subseteq> {PostStateChanged} \<and> (e = NoError \<longrightarrow> task \<noteq> None \<and> tf_state (dt_info d') = TS_PendingFiles) \<and>
     (early_state (tf_state (dt_info d')) \<longrightarrow> d' = d)"

lemma dt_next_total:
  assumes d: "dir_ok d"
  shows "\<exists>e task made acts d'. dt_nextTransfer E d = oo_done (e, task, made, acts, d') \<and> next_ok d e task acts d'"
proof (cases "tf_state (dt_info d) = TS_TransferredListing \<or> tf_state (dt_info d) = TS_PendingFiles")
  case False
  then show ?thesis
    using d by (cases "tf_state (dt_info d) = TS_Finished") (auto simp: dt_nextTransfer_def next_ok_def Let_def)
next
  case True
  define d0 where "d0 = (if tf_state (dt_info d) = TS_TransferredListing then dt_set TS_PendingFiles d else d)"
  have d0: "tf_state (dt_info d0) = TS_PendingFiles" "dt_iter d0 = dt_iter d" "dir_ok d0" "tf_state (dt_info d) \<noteq> TS_Finished"
    using True d by (auto simp: d0_def dt_set_def dir_ok_def)
  have "it_ok (dt_iter d)" using True d by (auto simp: dir_ok_def)
  from dt_seek_total [OF this, of E "tf_filename (dt_info d0)"] obtain f made it where
    it: "dt_seek E (tf_filename (dt_info d0)) (dt_iter d0) = oo_done (f, made, it)" "it_ok it"
    "\<forall>p x n. f = AtFile p x n \<longrightarrow> it \<noteq> []" "\<forall>e. f = MkdirFailed e \<longrightarrow> failed e" using d0(2) by auto
  show ?thesis
  proof (cases f)
    case AtEnd
    then show ?thesis unfolding dt_nextTransfer_def Let_def d0_def [symmetric]
      using d0 it by (simp add: next_ok_def dir_ok_def dt_set_def early_state_def)
  next
    case (MkdirFailed e)
    then show ?thesis unfolding dt_nextTransfer_def Let_def d0_def [symmetric]
      using d0 it by (auto simp: next_ok_def dir_ok_def dt_set_def early_state_def)
  next
    case (AtFile p dest n)
    with it have "it \<noteq> []" by simp
    from this it(2) obtain e q it' where "it_next it = Done it'" "it_ok it'" by (rule it_next_rest)
    then show ?thesis unfolding dt_nextTransfer_def Let_def d0_def [symmetric]
      using d0 it AtFile by (simp add: next_ok_def dir_ok_def dt_set_def early_state_def)
  qed
qed

lemma no_posts: "PostStateChanged \<notin> set acts \<Longrightarrow> concat (map (act_posts i) acts) = []"
proof (induction acts)
  case (Cons a acts)
  then show ?case by (cases a) auto
qed simp

lemma refuse_posts: "PostStateChanged \<notin> set (tf_refuse h r i)"
  by (simp add: tf_refuse_def)

lemma dt_reply_ok:
  assumes "dir_ok d" and "tf_state (dt_info d) \<noteq> TS_TransferredListing"
  shows "\<exists>acts d'. dt_onRequestReply E h r x d = Done (acts, d') \<and> dir_ok d' \<and> PostStateChanged \<notin> set acts \<and>
     (early_state (tf_state (dt_info d')) \<longrightarrow> early_state (tf_state (dt_info d)))"
proof -
  have ing: "dir_ok (dt_transferring E r x t) \<and> tf_state (dt_info (dt_transferring E r x t)) \<noteq> TS_Starting"
    if "tf_parent (dt_info t) = 0" "tf_type (dt_info t) = DIR_TRANSFER" "tf_state (dt_info t) = TS_Transferring" for t
    using that it_begin_ok
    by (auto simp: dt_transferring_def Let_def dir_ok_def dt_set_def errorState_def split: option.split)
  have "\<exists>d'. dt_handle E r x d = Done d' \<and> dir_ok d' \<and>
     (early_state (tf_state (dt_info d')) \<longrightarrow> early_state (tf_state (dt_info d)))"
  proof (cases "failed (rr_err r) \<or> rr_mark r = RR_TransmissionCancel")
    case True
    then show ?thesis using assms(1) by (auto simp: dt_handle_def dir_ok_def errorState_def early_state_def dt_set_def)
  next
    case False
    then have eq: "dt_handle E r x d = (case tf_state (dt_info d) of TS_Starting \<Rightarrow> dt_starting E r x d
        | TS_Transferring \<Rightarrow> Done (dt_transferring E r x d) | _ \<Rightarrow> Done d)"
      by (simp add: dt_handle_def Let_def)
    show ?thesis
    proof (cases "tf_state (dt_info d) = TS_Starting")
      case True
      let ?t = "d\<lparr>dt_info := (dt_info d)\<lparr>tf_desc := rr_desc r, tf_size := r_length (rr_range r), tf_state := TS_Transferring\<rparr>\<rparr>"
      have "dir_ok (dt_transferring E r x ?t)" using ing [of ?t] assms(1) by (simp add: dir_ok_def)
      then show ?thesis using True assms(1) by (auto simp: eq dt_starting_def Let_def dir_ok_def dt_set_def early_state_def)
    next
      case False
      then show ?thesis using assms ing [of d] unfolding eq
        by (cases "tf_state (dt_info d)") (auto simp: early_state_def dir_ok_def)
    qed
  qed
  then show ?thesis using refuse_posts by (auto simp: dt_onRequestReply_def)
qed

text \<open>A file transfer after a reply: it finishes only with the last one.\<close>

lemma ft_transferring_fields:
  assumes "ft_transferring E r x f = Done f'" and "tf_state (ft_info f) = TS_Transferring"
  shows "tf_parent (ft_info f') = tf_parent (ft_info f)"
    "tf_state (ft_info f') \<in> {TS_Transferring, TS_Canceled, TS_Error} \<or>
     tf_state (ft_info f') = TS_Finished \<and> rr_mark r = RR_TransmissionFinish"
  using assms by (auto simp: ft_transferring_def Let_def ft_set_def split: if_splits)

lemma ft_reply_fields:
  assumes "file_ok i f"
  shows "\<exists>acts f'. ft_onRequestReply E h r x f = Done (acts, f') \<and> file_ok i f' \<and> tf_parent (ft_info f') = tf_parent (ft_info f) \<and>
     PostStateChanged \<notin> set acts \<and> (alive (Some (FileT f')) \<longrightarrow> alive (Some (FileT f))) \<and>
     (tf_state (ft_info f') = TS_Finished \<longrightarrow> tf_state (ft_info f) = TS_Finished \<or> alive (Some (FileT f)) \<and> last_reply r \<and> rr_err r = NoError)"
proof -
  have ok: "ft_ok f" using assms by (simp add: file_ok_def)
  obtain acts f' where run: "ft_onRequestReply E h r x f = Done (acts, f')" "ft_ok f'" using ft_reply_ok [OF ok] by blast
  have lst: "last_reply r" if "rr_mark r = RR_TransmissionFinish" using that by (simp add: last_reply_def cl_follows_def)
  obtain f1 where handle: "ft_handle E r x f = Done f1" "f' = f1" "acts = tf_refuse h r (ft_info f1)"
    using run(1) by (auto simp: ft_onRequestReply_def)
  have "tf_parent (ft_info f1) = tf_parent (ft_info f) \<and>
     tf_state (ft_info f1) \<noteq> TS_TransferredListing \<and> tf_state (ft_info f1) \<noteq> TS_PendingFiles \<and>
     (alive (Some (FileT f1)) \<longrightarrow> alive (Some (FileT f))) \<and>
     (tf_state (ft_info f1) = TS_Finished \<longrightarrow> tf_state (ft_info f) = TS_Finished \<or> alive (Some (FileT f)) \<and> last_reply r \<and> rr_err r = NoError)"
  proof (cases "failed (rr_err r) \<or> rr_mark r = RR_TransmissionCancel \<or> tf_state (ft_info f) = TS_Canceled")
    case True
    then show ?thesis using handle(1) assms
      by (auto simp: ft_handle_def Let_def ft_simps file_ok_def alive_def split: if_splits)
  next
    case False
    define f2 where "f2 = (if ft_id f = 0 then f\<lparr>ft_id := rr_id r\<rparr> else f)"
    have f2: "ft_info f2 = ft_info f" by (simp add: f2_def)
    have eq: "ft_handle E r x f = outcome_bind (case tf_state (ft_info f2) of TS_Starting \<Rightarrow> ft_starting E r x f2
        | TS_Transferring \<Rightarrow> ft_transferring E r x f2 | _ \<Rightarrow> Done f2)
        (\<lambda>f3. Done (if tf_ended (ft_info f3) then ft_cleanup f3 else f3))"
      using False by (cases "tf_state (ft_info f)") (auto simp: ft_handle_def Let_def f2_def)
    obtain f3 where f3: "(case tf_state (ft_info f2) of TS_Starting \<Rightarrow> ft_starting E r x f2
        | TS_Transferring \<Rightarrow> ft_transferring E r x f2 | _ \<Rightarrow> Done f2) = Done f3"
      and f1: "f1 = (if tf_ended (ft_info f3) then ft_cleanup f3 else f3)"
      using handle(1) unfolding eq by (auto simp del: if_split)
    have info: "ft_info f1 = ft_info f3" by (simp add: f1 ft_cleanup_def)
    consider "tf_state (ft_info f) = TS_Starting" | "tf_state (ft_info f) = TS_Transferring" | "f3 = f2"
      using f3 f2 by (cases "tf_state (ft_info f)") auto
    then show ?thesis
    proof cases
      case 1
      let ?t = "ft_set TS_Transferring (f2\<lparr>ft_info := (ft_info f2)\<lparr>tf_desc := rr_desc r, tf_size := r_length (rr_range r)\<rparr>,
        ft_open := True, ft_written := []\<rparr>)"
      have "f3 = ft_set TS_Canceled f2 \<or> f3 = ft_set TS_Canceled (f2\<lparr>ft_info := (ft_info f2)\<lparr>tf_desc := rr_desc r,
          tf_size := r_length (rr_range r)\<rparr>\<rparr>) \<or> ft_transferring E r x ?t = Done f3"
        using f3 1 f2 by (auto simp: ft_starting_def Let_def split: if_splits)
      then show ?thesis using ft_transferring_fields [of E r x ?t f3] 1 f2 lst False
        by (auto simp: info ft_set_def alive_def)
    next
      case 2
      then show ?thesis using ft_transferring_fields [of E r x f2 f3] f3 f2 lst False by (auto simp: info alive_def)
    next
      case 3
      then show ?thesis using assms f2 by (auto simp: info file_ok_def alive_def)
    qed
  qed
  then show ?thesis using run handle refuse_posts assms by (auto simp: file_ok_def)
qed

lemma ft_cancel_fields:
  assumes "file_ok i f" and "ft_cancel c f = (acts, f')"
  shows "file_ok i f'" "tf_parent (ft_info f') = tf_parent (ft_info f)"
    "f' = f \<and> acts = [] \<or> \<not> alive (Some (FileT f')) \<and> \<not> finished_child (Some (FileT f'))"
  using assms ft_cancel_ok [of f c]
  by (auto simp: ft_cancel_def Let_def file_ok_def errorState_def alive_def finished_child_def split: if_splits)

lemma ft_start_fields:
  assumes "ft_start E u name (ft_new p) = (e, f)" and "0 \<le> p" and "p < i"
  shows "file_ok i f" "tf_parent (ft_info f) = p" "\<not> finished_child (Some (FileT f))" "alive (Some (FileT f)) \<longleftrightarrow> \<not> failed e"
  using assms
  by (auto simp: ft_start_def ft_new_def new_transfer_def Let_def file_ok_def ft_ok_def errorState_def alive_def
      finished_child_def split: if_splits)

lemma dt_start_fields:
  assumes "dt_start E u name dt_new = (e, d)"
  shows "dir_ok d" "tf_state (dt_info d) \<noteq> TS_TransferredListing"
  using assms
  by (auto simp: dt_start_def dt_new_def new_transfer_def Let_def dir_ok_def errorState_def split: if_splits)

lemma dt_cancel_fields:
  assumes "dt_cancel c d = (acts, d')" and "dir_ok d"
  shows "dir_ok d'" "\<not> early_state (tf_state (dt_info d'))"
  using assms by (auto simp: dt_cancel_def dir_ok_def errorState_def early_state_def split: if_splits)

subsection \<open>The operations keep the invariant\<close>

abbreviation fg_m :: "file_getting \<Rightarrow> xfers" where
  "fg_m s \<equiv> map_of (fg_transfers s)"

definition fg_ok :: "file_getting \<Rightarrow> bool" where
  "fg_ok s \<longleftrightarrow> fgv (fg_m s) (fg_posted s) (fg_pending s) (fg_nextId s)"

definition calm :: "xfers \<Rightarrow> bool" where
  "calm m \<longleftrightarrow> (\<forall>i d. m i = Some (DirT d) \<longrightarrow> tf_state (dt_info d) \<noteq> TS_TransferredListing)"

definition parents_ok :: "xfers \<Rightarrow> bool" where
  "parents_ok m \<longleftrightarrow> (\<forall>i f. m i = Some (FileT f) \<and> tf_parent (ft_info f) \<noteq> 0 \<longrightarrow> (\<exists>d. m (tf_parent (ft_info f)) = Some (DirT d)))"

lemma fgv_posts:
  assumes "fgv m q pend n" and "m i = Some t" and "\<not> finished_child (Some t)"
    and "alive (Some t) \<Longrightarrow> \<forall>b \<in> set q. reply_to b \<noteq> Some i"
  shows "fgv m (q @ concat (map (act_posts i) acts)) pend n"
  using assms(1,4)
proof (induction acts arbitrary: q)
  case (Cons a acts)
  show ?case
  proof (cases "a = PostStateChanged")
    case True
    have "fgv m (q @ [PostedChange i UT_Changed]) pend n"
      by (rule fgv_post [OF Cons.prems(1)])
        (use assms(2,3) Cons.prems(2) fgv_D(3) [OF Cons.prems(1) assms(2)] in \<open>auto simp: concerns_def\<close>)
    from Cons.IH [OF this] Cons.prems(2) True show ?thesis by auto
  next
    case False
    then have "act_posts i a = []" by (cases a) auto
    then show ?thesis using Cons.IH [OF Cons.prems] by simp
  qed
qed simp

lemma fg_acts_fields [simp]:
  "fg_transfers (fg_acts i acts s) = fg_transfers s" "fg_pending (fg_acts i acts s) = fg_pending s"
  "fg_nextId (fg_acts i acts s) = fg_nextId s" "fg_posted (fg_acts i acts s) = fg_posted s @ concat (map (act_posts i) acts)"
  by (simp_all add: fg_acts_def fg_post_def)

lemma fg_put_fields [simp]:
  "fg_transfers (fg_put i t s) = sm_insert i t (fg_transfers s)" "fg_pending (fg_put i t s) = fg_pending s"
  "fg_nextId (fg_put i t s) = fg_nextId s" "fg_posted (fg_put i t s) = fg_posted s"
  by (simp_all add: fg_put_def)

lemma dir_acts_ok:
  assumes "fg_ok s" and "fg_m s i = Some (DirT d)" and "dir_ok d'" and "early (Some (DirT d')) \<Longrightarrow> early (Some (DirT d))"
  shows "fg_ok (fg_acts i acts (fg_put i (DirT d') s))" "active (fg_m (fg_acts i acts (fg_put i (DirT d') s))) p = active (fg_m s) p"
proof -
  note put = fgv_dir [OF assms(1) [unfolded fg_ok_def] assms(2-4)]
  have "fgv ((fg_m s)(i \<mapsto> DirT d')) (fg_posted s @ concat (map (act_posts i) acts)) (fg_pending s) (fg_nextId s)"
    by (rule fgv_posts [OF put(1), of i "DirT d'"]) (simp_all add: finished_child_def alive_def)
  then show "fg_ok (fg_acts i acts (fg_put i (DirT d') s))" by (simp add: fg_ok_def)
  show "active (fg_m (fg_acts i acts (fg_put i (DirT d') s))) p = active (fg_m s) p" using put(2) by simp
qed

lemma dir_cancel_ok:
  assumes "fg_ok s" and "fg_m s i = Some (DirT d)"
  shows "\<exists>d'. fg_ok (fg_cancel i e (DirT d) s) \<and> active (fg_m (fg_cancel i e (DirT d) s)) p = active (fg_m s) p \<and>
     fg_m (fg_cancel i e (DirT d) s) = (fg_m s)(i \<mapsto> DirT d') \<and> \<not> early_state (tf_state (dt_info d'))"
proof -
  obtain acts d' where c: "dt_cancel e d = (acts, d')" by fastforce
  have "dir_ok d" using fgv_D(6) [OF assms(1) [unfolded fg_ok_def] assms(2)] by simp
  note f = dt_cancel_fields [OF c this]
  show ?thesis
    using dir_acts_ok(1) [OF assms f(1), where acts = acts] dir_acts_ok(2) [OF assms f(1), where acts = acts and p = p] f(2) c
    by (auto simp: fg_cancel_def early_def)
qed

text \<open>A new file transfer.\<close>

lemma request_file_ok:
  assumes ok: "fg_ok s" and p: "0 \<le> p" "p < fg_nextId s" "p \<noteq> 0 \<Longrightarrow> \<not> early (fg_m s p) \<and> card (active (fg_m s) p) < 2"
    and run: "fg_requestFileTransfer E u name p s = (e, i, s')"
  shows "fg_ok s'" "i = fg_nextId s" "\<exists>f. fg_m s' = (fg_m s)(fg_nextId s \<mapsto> FileT f) \<and> tf_parent (ft_info f) = p"
    "card (active (fg_m s') p) \<le> Suc (card (active (fg_m s) p))"
proof -
  obtain f where st: "ft_start (ge_tf E) u name (ft_new p) = (e, f)" and i: "i = fg_nextId s"
    and s': "fg_m s' = (fg_m s)(fg_nextId s \<mapsto> FileT f)" "fg_posted s' = fg_posted s @ [PostedChange (fg_nextId s) UT_Added]"
      "fg_pending s' = (if failed e then fg_pending s else fg_nextId s # fg_pending s)" "fg_nextId s' = fg_nextId s + 1"
    using run by (auto simp: fg_requestFileTransfer_def Let_def fg_post_def split: prod.splits)
  note f = ft_start_fields [OF st p(1,2)]
  have par: "\<not> early (fg_m s q) \<and> (alive (Some (FileT f)) \<longrightarrow> card (active (fg_m s) q) < 2)"
    if "child q (Some (FileT f))" "q \<noteq> 0" for q
    using that f(2) p(3) by (simp add: child_def)
  have pend: "fg_pending s' = fg_pending s \<or> fg_pending s' = fg_nextId s # fg_pending s" by (simp add: s'(3))
  have xok: "xfer_ok (fg_nextId s) (FileT f)" using f(1) by simp
  note new = fgv_new(1) [OF ok [unfolded fg_ok_def] xok f(3) par pend, where c = UT_Added]
    fgv_new(2) [OF ok [unfolded fg_ok_def] xok f(3) par pend]
  show "fg_ok s'" using new(1) by (simp add: fg_ok_def s')
  show "i = fg_nextId s" by fact
  show "\<exists>f. fg_m s' = (fg_m s)(fg_nextId s \<mapsto> FileT f) \<and> tf_parent (ft_info f) = p" using s'(1) f(2) by blast
  show "card (active (fg_m s') p) \<le> Suc (card (active (fg_m s) p))"
    using finite_active [OF fgv_D(1) [OF ok [unfolded fg_ok_def]], of p] by (simp add: s'(1) new(2) card_insert_if)
qed

text \<open>Only one directory changes, and files are added.\<close>

definition frame :: "int \<Rightarrow> xfers \<Rightarrow> xfers \<Rightarrow> bool" where
  "frame p m m' \<longleftrightarrow> (\<forall>j. j \<noteq> p \<longrightarrow> (\<forall>t. m j = Some t \<longrightarrow> m' j = Some t) \<and> (\<forall>d. m' j = Some (DirT d) \<longrightarrow> m j = Some (DirT d))) \<and>
     (\<exists>d. m' p = Some (DirT d) \<and> tf_state (dt_info d) \<noteq> TS_TransferredListing) \<and> (parents_ok m \<longrightarrow> parents_ok m')"

lemma frame_trans: "frame p m m1 \<Longrightarrow> frame p m1 m2 \<Longrightarrow> frame p m m2"
  unfolding frame_def by blast

lemma frame_calm: "frame p m m' \<Longrightarrow> (\<And>i d. i \<noteq> p \<Longrightarrow> m i = Some (DirT d) \<Longrightarrow> tf_state (dt_info d) \<noteq> TS_TransferredListing) \<Longrightarrow> calm m'"
  unfolding calm_def
proof (intro allI impI)
  fix i d
  assume fr: "frame p m m'" and rest: "\<And>i d. i \<noteq> p \<Longrightarrow> m i = Some (DirT d) \<Longrightarrow> tf_state (dt_info d) \<noteq> TS_TransferredListing"
    and i: "m' i = Some (DirT d)"
  show "tf_state (dt_info d) \<noteq> TS_TransferredListing"
  proof (cases "i = p")
    case True
    then show ?thesis using fr i by (auto simp: frame_def)
  next
    case False
    then have "m i = Some (DirT d)" using fr i unfolding frame_def by blast
    then show ?thesis using rest False by blast
  qed
qed

lemma parents_dir:
  assumes "parents_ok m" and "m p = Some (DirT d)"
  shows "parents_ok (m(p \<mapsto> DirT d'))"
  using assms unfolding parents_ok_def by (metis (no_types, lifting) fun_upd_apply option.inject transfer.distinct(1))

lemma parents_file:
  assumes par: "parents_ok m" and i: "m i = Some (FileT f)" and f': "tf_parent (ft_info f') = tf_parent (ft_info f)"
  shows "parents_ok (m(i \<mapsto> FileT f'))"
  unfolding parents_ok_def
proof (intro allI impI, elim conjE)
  fix j g assume g: "(m(i \<mapsto> FileT f')) j = Some (FileT g)" "tf_parent (ft_info g) \<noteq> 0"
  have "\<exists>d. m (tf_parent (ft_info g)) = Some (DirT d)"
  proof (cases "j = i")
    case True
    then have "tf_parent (ft_info g) = tf_parent (ft_info f)" using g(1) f' by simp
    then show ?thesis using par i g(2) unfolding parents_ok_def by metis
  next
    case False
    then show ?thesis using par g unfolding parents_ok_def by auto
  qed
  then show "\<exists>d. (m(i \<mapsto> FileT f')) (tf_parent (ft_info g)) = Some (DirT d)" using i by auto
qed

lemma frame_dir: "m p = Some (DirT d) \<Longrightarrow> tf_state (dt_info d') \<noteq> TS_TransferredListing \<Longrightarrow> frame p m (m(p \<mapsto> DirT d'))"
  using parents_dir by (auto simp: frame_def)

lemma frame_new:
  assumes "m p = Some (DirT d)" and "tf_state (dt_info d) \<noteq> TS_TransferredListing" and "m n = None" and "tf_parent (ft_info f) = p"
  shows "frame p m (m(n \<mapsto> FileT f))"
proof -
  have "n \<noteq> p" using assms(1,3) by auto
  moreover have "parents_ok (m(n \<mapsto> FileT f))" if par: "parents_ok m"
    unfolding parents_ok_def
  proof (intro allI impI, elim conjE)
    fix i g assume g: "(m(n \<mapsto> FileT f)) i = Some (FileT g)" "tf_parent (ft_info g) \<noteq> 0"
    have "\<exists>d. m (tf_parent (ft_info g)) = Some (DirT d)"
      using g assms(1,4) par unfolding parents_ok_def by (cases "i = n") auto
    then show "\<exists>d. (m(n \<mapsto> FileT f)) (tf_parent (ft_info g)) = Some (DirT d)" using assms(3) by auto
  qed
  ultimately show ?thesis using assms by (auto simp: frame_def)
qed

lemma start_next_ok:
  assumes ok: "fg_ok s" and p: "fg_m s p = Some (DirT d)" and few: "card (active (fg_m s) p) < 2"
  shows "\<exists>e s'. fg_startNext E p s = oo_done (e, s') \<and> fg_ok s' \<and> frame p (fg_m s) (fg_m s') \<and>
     card (active (fg_m s') p) \<le> Suc (card (active (fg_m s) p))"
proof -
  note okv = ok [unfolded fg_ok_def]
  have "dir_ok d" using fgv_D(6) [OF okv p] by simp
  from dt_next_total [OF this, of "ge_tf E"] obtain e task made acts d' where
    nxt: "dt_nextTransfer (ge_tf E) d = oo_done (e, task, made, acts, d')" and n: "next_ok d e task acts d'" by blast
  have d': "dir_ok d'" "tf_state (dt_info d') \<noteq> TS_TransferredListing" using n by (simp_all add: next_ok_def)
  have mono: "early (Some (DirT d')) \<Longrightarrow> early (Some (DirT d))" using n by (auto simp: next_ok_def early_def)
  define s1 where "s1 = fg_acts p acts (fg_put p (DirT d') s)"
  have s1: "fg_ok s1" "active (fg_m s1) q = active (fg_m s) q" "fg_m s1 = (fg_m s)(p \<mapsto> DirT d')" "fg_nextId s1 = fg_nextId s" for q
    using dir_acts_ok [OF ok p d'(1) mono] by (simp_all add: s1_def)
  have s1p: "fg_m s1 p = Some (DirT d')" by (simp add: s1(3))
  have fr1: "frame p (fg_m s) (fg_m s1)" unfolding s1(3) using p d'(2) by (rule frame_dir)
  have cancelled: "fg_ok (fg_cancel p c (DirT x) t) \<and> frame p (fg_m t) (fg_m (fg_cancel p c (DirT x) t)) \<and>
      active (fg_m (fg_cancel p c (DirT x) t)) p = active (fg_m t) p"
    if t: "fg_ok t" "fg_m t p = Some (DirT x)" for t c x
  proof -
    obtain y where y: "fg_ok (fg_cancel p c (DirT x) t)" "active (fg_m (fg_cancel p c (DirT x) t)) p = active (fg_m t) p"
      "fg_m (fg_cancel p c (DirT x) t) = (fg_m t)(p \<mapsto> DirT y)" "\<not> early_state (tf_state (dt_info y))"
      using dir_cancel_ok [OF t, where p = p and e = c] by blast
    have "frame p (fg_m t) (fg_m (fg_cancel p c (DirT x) t))"
      unfolding y(3) using t(2) by (rule frame_dir) (use y(4) in \<open>auto simp: early_state_def\<close>)
    then show ?thesis using y by simp
  qed
  have eq: "fg_startNext E p s = (if e = Eof then oo_done (NoError, s1)
      else if failed e then oo_done (e, fg_cancel p e (DirT d') s1)
      else case task of None \<Rightarrow> Some (Fault NullDeref)
        | Some (u, name) \<Rightarrow> (case fg_requestFileTransfer E u name p s1 of (e2, _, s2) \<Rightarrow>
            oo_done (e2, if failed e2 then fg_cancel p e2 (DirT d') s2 else s2)))"
    unfolding s1_def using p nxt by (simp add: fg_startNext_def Let_def)
  consider "e = Eof" | "failed e" "e \<noteq> Eof" | "e = NoError" by (cases e) auto
  then show ?thesis
  proof cases
    case 1
    then show ?thesis using s1(1,2) fr1 by (simp add: eq)
  next
    case 2
    then show ?thesis using cancelled [OF s1(1) s1p, of e] frame_trans [OF fr1] s1(2) by (simp add: eq)
  next
    case 3
    then obtain u name where task: "task = Some (u, name)" and st: "tf_state (dt_info d') = TS_PendingFiles"
      using n by (auto simp: next_ok_def)
    obtain e2 j s2 where req: "fg_requestFileTransfer E u name p s1 = (e2, j, s2)" by (metis prod_cases3)
    have bound: "0 \<le> p" "p < fg_nextId s1" using fgv_D(3) [OF okv p] by (simp_all add: s1(4))
    have room: "\<not> early (fg_m s1 p) \<and> card (active (fg_m s1) p) < 2"
      using few st s1(2) by (simp add: s1p early_def early_state_def)
    note new = request_file_ok [OF s1(1) bound room req]
    from new(3) obtain f where f: "fg_m s2 = (fg_m s1)(fg_nextId s1 \<mapsto> FileT f)" "tf_parent (ft_info f) = p" by blast
    have none: "fg_m s1 (fg_nextId s1) = None"
      using fgv_D(3) [OF s1(1) [unfolded fg_ok_def], of "fg_nextId s1"] by fastforce
    have fr2: "frame p (fg_m s) (fg_m s2)"
      unfolding f(1) using s1p d'(2) none f(2) by (intro frame_trans [OF fr1] frame_new)
    have s2p: "fg_m s2 p = Some (DirT d')" using bound(2) by (simp add: f(1) s1p)
    have run: "fg_startNext E p s = oo_done (e2, if failed e2 then fg_cancel p e2 (DirT d') s2 else s2)"
      using 3 task req by (simp add: eq)
    show ?thesis
    proof (cases "failed e2")
      case True
      then show ?thesis using cancelled [OF new(1) s2p, of e2] frame_trans [OF fr2] new(4) s1(2) run by simp
    next
      case False
      then show ?thesis using new(1,4) fr2 s1(2) run by simp
    qed
  qed
qed

lemma start_some_ok:
  assumes "fg_ok s" and "fg_m s p = Some (DirT d)" and "card (active (fg_m s) p) + Suc n \<le> 2"
  shows "\<exists>s'. fg_startSome E p (Suc n) s = oo_done s' \<and> fg_ok s' \<and> frame p (fg_m s) (fg_m s')"
  using assms
proof (induction n arbitrary: s d)
  case 0
  obtain e s' where "fg_startNext E p s = oo_done (e, s')" "fg_ok s'" "frame p (fg_m s) (fg_m s')"
    using start_next_ok [OF 0(1,2), of E] 0(3) by auto
  then show ?case by simp
next
  case (Suc n)
  obtain e s1 where s1: "fg_startNext E p s = oo_done (e, s1)" "fg_ok s1" "frame p (fg_m s) (fg_m s1)"
    "card (active (fg_m s1) p) \<le> Suc (card (active (fg_m s) p))"
    using start_next_ok [OF Suc.prems(1,2), of E] Suc.prems(3) by auto
  obtain d1 where d1: "fg_m s1 p = Some (DirT d1)" using s1(3) by (auto simp: frame_def)
  have "card (active (fg_m s1) p) + Suc n \<le> 2" using s1(4) Suc.prems(3) by simp
  from Suc.IH [OF s1(2) d1 this] obtain s2 where "fg_startSome E p (Suc n) s1 = oo_done s2" "fg_ok s2" "frame p (fg_m s1) (fg_m s2)"
    by blast
  then show ?case using s1(1-3) frame_trans [OF s1(3)]
    by (cases "failed e") (auto simp del: fg_startSome.simps(2) simp: fg_startSome.simps(2) [of E p "Suc n" s])
qed

definition good :: "file_getting \<Rightarrow> file_getting outcome option \<Rightarrow> bool" where
  "good s r \<longleftrightarrow> (\<exists>s'. r = oo_done s' \<and> fg_ok s' \<and> calm (fg_m s') \<and> (parents_ok (fg_m s) \<longrightarrow> parents_ok (fg_m s'))) \<or>
     (\<exists>x. r = Some (Fault x)) \<and> \<not> parents_ok (fg_m s)"

lemma fg_ok_told [simp]: "fg_ok (s\<lparr>fg_told := x\<rparr>) = fg_ok s"
  by (simp add: fg_ok_def)

lemma change_ok:
  assumes ok: "fg_ok s" and rest: "\<And>j d. j \<noteq> i \<Longrightarrow> fg_m s j = Some (DirT d) \<Longrightarrow> tf_state (dt_info d) \<noteq> TS_TransferredListing"
    and few: "\<And>f. fg_m s i = Some (FileT f) \<Longrightarrow> finished_child (Some (FileT f)) \<Longrightarrow> card (active (fg_m s) (tf_parent (ft_info f))) < 2"
  shows "good s (fg_onTransferChange E i c s)"
proof (cases "fg_m s i")
  case None
  then have "calm (fg_m s)" using rest unfolding calm_def by (metis option.distinct(1))
  then show ?thesis using ok None by (simp add: good_def fg_onTransferChange_def)
next
  case (Some t)
  note okv = ok [unfolded fg_ok_def]
  show ?thesis
  proof (cases t)
    case (DirT d)
    have par: "tf_parent (dt_info d) = 0" "tf_type (dt_info d) = DIR_TRANSFER"
      using fgv_D(6) [OF okv Some] DirT by (simp_all add: dir_ok_def)
    show ?thesis
    proof (cases "tf_state (dt_info d) = TS_TransferredListing")
      case True
      have "early (fg_m s i)" using Some DirT True by (simp add: early_def early_state_def)
      then have "active (fg_m s) i = {}" using fgv_D(12) [OF okv] by (auto simp: active_def)
      then obtain s' where s': "fg_startSome E i (Suc 1) s = oo_done s'" "fg_ok s'" "frame i (fg_m s) (fg_m s')"
        using start_some_ok [OF ok, of i d 1 E] Some DirT by auto
      have "calm (fg_m s')" using frame_calm [OF s'(3)] rest by blast
      moreover have "parents_ok (fg_m s) \<longrightarrow> parents_ok (fg_m s')" using s'(3) by (simp add: frame_def)
      ultimately show ?thesis using Some DirT True par s'(1,2)
        by (simp add: good_def fg_onTransferChange_def Let_def filesPerDirectory_def numeral_2_eq_2 del: fg_startSome.simps)
    next
      case False
      then have "calm (fg_m s)" using rest Some DirT unfolding calm_def by (metis option.inject transfer.inject(2))
      then show ?thesis using Some DirT False par ok by (simp add: good_def fg_onTransferChange_def Let_def)
    qed
  next
    case (FileT f)
    have calm: "calm (fg_m s)" using rest Some FileT unfolding calm_def by (metis option.inject transfer.distinct(1))
    have st: "tf_state (ft_info f) \<noteq> TS_TransferredListing" using fgv_D(6) [OF okv Some] FileT by (simp add: file_ok_def)
    let ?p = "tf_parent (ft_info f)"
    show ?thesis
    proof (cases "finished_child (Some (FileT f))")
      case False
      then show ?thesis using Some FileT st calm ok
        by (auto simp: good_def fg_onTransferChange_def Let_def finished_child_def)
    next
      case True
      then have fin: "tf_state (ft_info f) = TS_Finished" "?p \<noteq> 0" by (auto simp: finished_child_def)
      have eq: "fg_onTransferChange E i c s = oo_bind (oo_bind (fg_startNext E ?p s) (\<lambda>(_, s2). oo_done s2)) (\<lambda>s2.
          oo_done (s2\<lparr>fg_told := fg_told s2 @ [(i, c, ft_info f)]\<rparr>))"
        using Some FileT fin by (simp add: fg_onTransferChange_def Let_def)
      show ?thesis
      proof (cases "\<exists>d. fg_m s ?p = Some (DirT d)")
        case True
        then obtain d where d: "fg_m s ?p = Some (DirT d)" by blast
        have "card (active (fg_m s) ?p) < 2" using few Some FileT \<open>finished_child (Some (FileT f))\<close> by blast
        from start_next_ok [OF ok d this, of E] obtain e s' where s': "fg_startNext E ?p s = oo_done (e, s')" "fg_ok s'"
          "frame ?p (fg_m s) (fg_m s')" by blast
        have "calm (fg_m s')" by (rule frame_calm [OF s'(3)]) (use calm in \<open>auto simp: calm_def\<close>)
        moreover have "parents_ok (fg_m s) \<longrightarrow> parents_ok (fg_m s')" using s'(3) by (simp add: frame_def)
        ultimately show ?thesis using s'(1,2) by (simp add: eq good_def)
      next
        case False
        then have "\<not> parents_ok (fg_m s)" using Some FileT fin(2) unfolding parents_ok_def by blast
        moreover have "fg_startNext E ?p s = Some (Fault AssertFailed)"
          using False by (auto simp: fg_startNext_def split: option.split transfer.split)
        ultimately show ?thesis by (simp add: eq good_def)
      qed
    qed
  qed
qed

lemma good_from:
  assumes "good s1 r" and "parents_ok (fg_m s) \<Longrightarrow> parents_ok (fg_m s1)"
  shows "good s r"
  using assms by (auto simp: good_def)

text \<open>
  A reply is passed to its transfer.  It may finish a file only if it is the last that concerns it.
\<close>

lemma reply_ok:
  assumes ok: "fg_ok s" and calm: "calm (fg_m s)" and open_still: "\<not> finished_child (fg_m s i)"
    and at_end: "alive (fg_m s i) \<Longrightarrow> last_reply r \<Longrightarrow> rr_err r = NoError \<Longrightarrow>
      i \<notin> set (fg_pending s) \<and> (\<forall>a \<in> set (fg_posted s). \<not> concerns i a)"
  shows "good s (fg_reply E i h r x s)"
proof (cases "fg_m s i")
  case None
  then show ?thesis using ok calm by (simp add: good_def fg_reply_def)
next
  case (Some t)
  note okv = ok [unfolded fg_ok_def]
  show ?thesis
  proof (cases t)
    case (DirT d)
    have "dir_ok d" "tf_state (dt_info d) \<noteq> TS_TransferredListing"
      using fgv_D(6) [OF okv Some] calm Some DirT by (auto simp: calm_def)
    from dt_reply_ok [OF this, of "ge_tf E" h r x] obtain acts d' where
      run: "dt_onRequestReply (ge_tf E) h r x d = Done (acts, d')" "dir_ok d'" "PostStateChanged \<notin> set acts"
      "early_state (tf_state (dt_info d')) \<longrightarrow> early_state (tf_state (dt_info d))" by blast
    let ?s = "fg_acts i acts (fg_put i (DirT d') s)"
    have "fg_ok ?s" using dir_acts_ok(1) [OF ok _ run(2)] Some DirT run(4) by (simp add: early_def)
    then have "good ?s (fg_onTransferChange E i UT_Changed ?s)"
      by (rule change_ok) (use calm in \<open>auto simp: calm_def split: if_splits\<close>)
    moreover have "parents_ok (fg_m ?s)" if "parents_ok (fg_m s)"
      using parents_dir [OF that] Some DirT by simp
    ultimately have "good s (fg_onTransferChange E i UT_Changed ?s)" by (rule good_from)
    then show ?thesis using Some DirT run(1) by (simp add: fg_reply_def)
  next
    case (FileT f)
    have f: "file_ok i f" using fgv_D(6) [OF okv Some] FileT by simp
    from ft_reply_fields [OF this, of "ge_tf E" h r x] obtain acts f' where
      run: "ft_onRequestReply (ge_tf E) h r x f = Done (acts, f')" "file_ok i f'" "tf_parent (ft_info f') = tf_parent (ft_info f)"
      "PostStateChanged \<notin> set acts" "alive (Some (FileT f')) \<longrightarrow> alive (Some (FileT f))"
      "tf_state (ft_info f') = TS_Finished \<longrightarrow> tf_state (ft_info f) = TS_Finished \<or>
         alive (Some (FileT f)) \<and> last_reply r \<and> rr_err r = NoError" by blast
    have was: "alive (Some (FileT f)) \<and> last_reply r \<and> rr_err r = NoError" if "finished_child (Some (FileT f'))"
      using that run(3,6) open_still Some FileT by (auto simp: finished_child_def)
    have fin: "i \<notin> set (fg_pending s) \<and> (\<forall>a \<in> set (fg_posted s). \<not> concerns i a)" if "finished_child (Some (FileT f'))"
      using was [OF that] at_end Some FileT by simp
    have i: "fg_m s i = Some (FileT f)" using Some FileT by simp
    have put: "fgv ((fg_m s)(i \<mapsto> FileT f')) (fg_posted s) (fg_pending s) (fg_nextId s)"
      "active ((fg_m s)(i \<mapsto> FileT f')) p = (if alive (Some (FileT f')) then active (fg_m s) p else active (fg_m s) p - {i})" for p
      using fgv_file [OF okv i run(2,3)] run(5) fin by blast+
    let ?s = "fg_acts i acts (fg_put i (FileT f') s)"
    have m: "fg_m ?s = (fg_m s)(i \<mapsto> FileT f')" by simp
    have np: "concat (map (act_posts i) acts) = []" by (rule no_posts [OF run(4)])
    have "fg_ok ?s" using put(1) unfolding fg_ok_def fg_acts_fields fg_put_fields np by simp
    then have "good ?s (fg_onTransferChange E i UT_Changed ?s)"
    proof (rule change_ok)
      fix j d assume "j \<noteq> i" "fg_m ?s j = Some (DirT d)"
      then show "tf_state (dt_info d) \<noteq> TS_TransferredListing" using calm by (auto simp: calm_def)
    next
      fix g assume "fg_m ?s i = Some (FileT g)" "finished_child (Some (FileT g))"
      then have g: "g = f'" "finished_child (Some (FileT f'))" by auto
      let ?p = "tf_parent (ft_info f)"
      have "?p \<noteq> 0" using g(2) run(3) by (simp add: finished_child_def)
      have "i \<in> active (fg_m s) ?p" using was [OF g(2)] i by (simp add: active_def child_def)
      moreover have "finite (active (fg_m s) ?p)" using finite_active [OF fgv_D(1) [OF okv]] .
      ultimately have "card (active (fg_m s) ?p - {i}) < card (active (fg_m s) ?p)" by (rule card_Diff1_less [rotated])
      moreover have "card (active (fg_m s) ?p) \<le> 2" using fgv_D(11) [OF okv \<open>?p \<noteq> 0\<close>] .
      moreover have "\<not> alive (Some (FileT f'))" using g(2) by (auto simp: finished_child_def alive_def)
      ultimately show "card (active (fg_m ?s) (tf_parent (ft_info g))) < 2"
        by (simp add: m put(2) g(1) run(3))
    qed
    moreover have "parents_ok (fg_m ?s)" if par: "parents_ok (fg_m s)"
      using parents_file [OF par i run(3)] by simp
    ultimately have "good s (fg_onTransferChange E i UT_Changed ?s)" by (rule good_from)
    then show ?thesis using Some FileT run(1) by (simp add: fg_reply_def)
  qed
qed

definition fg_inv :: "file_getting \<Rightarrow> bool" where
  "fg_inv s \<longleftrightarrow> fg_ok s \<and> calm (fg_m s)"

lemma turn_ok:
  assumes "fg_inv s"
  shows "good s (fg_turn E s)"
proof (cases "fg_posted s")
  case Nil
  then show ?thesis using assms by (simp add: fg_turn_def good_def fg_inv_def)
next
  case (Cons a q)
  have ok: "fg_ok s" and calm: "calm (fg_m s)" using assms by (simp_all add: fg_inv_def)
  note okv = ok [unfolded fg_ok_def Cons]
  let ?s = "s\<lparr>fg_posted := q\<rparr>"
  have ok1: "fg_ok ?s" using fgv_pop [OF okv] by (simp add: fg_ok_def)
  have unfinished: "\<not> finished_child (fg_m s i)" if "concerns i a" for i
    using fgv_D(10) [OF okv, of i a] that by auto
  show ?thesis
  proof (cases a)
    case (PostedChange i c)
    have "good ?s (fg_onTransferChange E i c ?s)"
      by (rule change_ok [OF ok1]) (use calm unfinished [of i] PostedChange in \<open>auto simp: calm_def concerns_def\<close>)
    then show ?thesis using Cons PostedChange by (simp add: fg_turn_def good_def)
  next
    case (PostedTold i c info)
    then show ?thesis using Cons ok1 calm by (simp add: fg_turn_def good_def)
  next
    case (PostedReply i h r x)
    have "good ?s (fg_reply E i h r x ?s)"
    proof (rule reply_ok [OF ok1])
      show "calm (fg_m ?s)" using calm by simp
      show "\<not> finished_child (fg_m ?s i)" using unfinished [of i] PostedReply by (simp add: concerns_def)
      assume al: "alive (fg_m ?s i)" and lr: "last_reply r"
      have "i \<notin> set (fg_pending s)" using fgv_D(8) [OF okv, of a i] PostedReply lr by simp
      moreover have "\<not> concerns i b" if "b \<in> set q" for b
        using fgv_D(7) [OF okv] that PostedReply lr al by (auto simp: in_order_def concerns_def)
      ultimately show "i \<notin> set (fg_pending ?s) \<and> (\<forall>b \<in> set (fg_posted ?s). \<not> concerns i b)" by simp
    qed
    then show ?thesis using Cons PostedReply by (simp add: fg_turn_def good_def)
  qed
qed

lemma time_out_ok:
  assumes "fg_inv s" and "failed e"
  shows "good s (fg_timeOut E i e p s)"
proof (cases "i \<in> set (fg_pending s)")
  case False
  then show ?thesis using assms by (simp add: fg_timeOut_def good_def fg_inv_def)
next
  case True
  have ok: "fg_ok s" and calm: "calm (fg_m s)" using assms by (simp_all add: fg_inv_def)
  note okv = ok [unfolded fg_ok_def]
  let ?s = "s\<lparr>fg_pending := removeAll i (fg_pending s)\<rparr>" and ?r = "new_request_reply\<lparr>rr_path := p, rr_err := e\<rparr>"
  have "fg_ok ?s" using fgv_pending [OF okv, of "removeAll i (fg_pending s)"] by (auto simp: fg_ok_def)
  moreover have "\<not> finished_child (fg_m ?s i)" using fgv_D(9) [OF okv, of i] True by auto
  ultimately have "good ?s (fg_reply E i [] ?r [] ?s)"
    using calm assms(2) by (intro reply_ok) (auto simp: new_request_reply_def)
  then show ?thesis using True by (simp add: fg_timeOut_def good_def)
qed

lemma arrive_ok:
  assumes "fg_inv s"
  shows "fg_inv (fg_arrive i h r x s)" "fg_m (fg_arrive i h r x s) = fg_m s"
proof -
  have okv: "fgv (fg_m s) (fg_posted s) (fg_pending s) (fg_nextId s)" using assms by (simp add: fg_inv_def fg_ok_def)
  show "fg_m (fg_arrive i h r x s) = fg_m s" by (simp add: fg_arrive_def fg_post_def)
  show "fg_inv (fg_arrive i h r x s)"
  proof (cases "i \<in> set (fg_pending s)")
    case False
    then show ?thesis using assms by (simp add: fg_arrive_def)
  next
    case True
    let ?pend = "if last_reply r then removeAll i (fg_pending s) else fg_pending s"
    have sub: "set ?pend \<subseteq> set (fg_pending s)" by auto
    have "fgv (fg_m s) (fg_posted s @ [PostedReply i h r x]) ?pend (fg_nextId s)"
      by (rule fgv_post [OF fgv_pending [OF okv sub]])
        (use True fgv_D(5,8,9) [OF okv] in \<open>auto simp: concerns_def\<close>)
    then show ?thesis using True assms by (simp add: fg_inv_def fg_ok_def fg_arrive_def fg_post_def)
  qed
qed

lemma request_ok:
  assumes "fg_inv s"
  shows "fg_inv (snd (fg_request E u s))" "parents_ok (fg_m s) \<Longrightarrow> parents_ok (fg_m (snd (fg_request E u s)))"
proof -
  have ok: "fg_ok s" and calm: "calm (fg_m s)" using assms by (simp_all add: fg_inv_def)
  have pos: "(0::int) \<le> 0" "0 < fg_nextId s" using fgv_D(2) [OF ok [unfolded fg_ok_def]] by simp_all
  obtain e i s' where req: "fg_requestFileTransfer E u (snd (generateName E (fg_destDir s) u)) 0 s = (e, i, s')" by (metis prod_cases3)
  note new = request_file_ok [OF ok pos _ req, simplified]
  from new(3) obtain f where f: "fg_m s' = (fg_m s)(fg_nextId s \<mapsto> FileT f)" "tf_parent (ft_info f) = 0" by blast
  have none: "fg_m s (fg_nextId s) = None" using fgv_D(3) [OF ok [unfolded fg_ok_def], of "fg_nextId s"] by fastforce
  have c: "calm (fg_m s')" using calm by (simp add: calm_def f(1))
  have p: "parents_ok (fg_m s')" if par: "parents_ok (fg_m s)"
    unfolding parents_ok_def
  proof (intro allI impI, elim conjE)
    fix j g assume g: "fg_m s' j = Some (FileT g)" "tf_parent (ft_info g) \<noteq> 0"
    then have "fg_m s j = Some (FileT g)" using f by (auto split: if_splits)
    then obtain d where "fg_m s (tf_parent (ft_info g)) = Some (DirT d)" using par g(2) unfolding parents_ok_def by blast
    then show "\<exists>d. fg_m s' (tf_parent (ft_info g)) = Some (DirT d)" using none f(1) by (intro exI [of _ d]) auto
  qed
  have "snd (fg_request E u s) = s \<or> snd (fg_request E u s) = s'"
    using req by (auto simp: fg_request_def split: prod.splits bool.splits)
  then show "fg_inv (snd (fg_request E u s))" "parents_ok (fg_m s) \<Longrightarrow> parents_ok (fg_m (snd (fg_request E u s)))"
    using assms new(1) c p by (auto simp: fg_inv_def)
qed

lemma request_directory_ok:
  assumes "fg_inv s"
  shows "fg_inv (snd (fg_requestDirectory E u s))" "parents_ok (fg_m s) \<Longrightarrow> parents_ok (fg_m (snd (fg_requestDirectory E u s)))"
proof -
  have ok: "fg_ok s" and calm: "calm (fg_m s)" using assms by (simp_all add: fg_inv_def)
  note okv = ok [unfolded fg_ok_def]
  obtain e d where st: "dt_start (ge_tf E) u (snd (generateName E (fg_destDir s) u)) dt_new = (e, d)" by fastforce
  note d = dt_start_fields [OF st]
  have none: "fg_m s (fg_nextId s) = None" using fgv_D(3) [OF okv, of "fg_nextId s"] by fastforce
  let ?m = "(fg_m s)(fg_nextId s \<mapsto> DirT d)" and ?pend = "if failed e then fg_pending s else fg_nextId s # fg_pending s"
  have "fgv ?m (fg_posted s @ [PostedChange (fg_nextId s) UT_Added]) ?pend (fg_nextId s + 1)"
    by (rule fgv_new(1) [OF okv]) (use d in \<open>simp_all add: finished_child_def child_def\<close>)
  moreover have "calm ?m" using calm d(2) by (auto simp: calm_def)
  moreover have "parents_ok ?m" if par: "parents_ok (fg_m s)"
    unfolding parents_ok_def
  proof (intro allI impI, elim conjE)
    fix j g assume g: "?m j = Some (FileT g)" "tf_parent (ft_info g) \<noteq> 0"
    then have "fg_m s j = Some (FileT g)" by (auto split: if_splits)
    then obtain c where "fg_m s (tf_parent (ft_info g)) = Some (DirT c)" using par g(2) unfolding parents_ok_def by blast
    then show "\<exists>d. ?m (tf_parent (ft_info g)) = Some (DirT d)" using none by (intro exI [of _ c]) auto
  qed
  moreover have "snd (fg_requestDirectory E u s) = s \<or>
      fg_m (snd (fg_requestDirectory E u s)) = ?m \<and> fg_pending (snd (fg_requestDirectory E u s)) = ?pend \<and>
      fg_posted (snd (fg_requestDirectory E u s)) = fg_posted s @ [PostedChange (fg_nextId s) UT_Added] \<and>
      fg_nextId (snd (fg_requestDirectory E u s)) = fg_nextId s + 1"
    using st by (auto simp: fg_requestDirectory_def Let_def fg_post_def split: prod.splits bool.splits)
  ultimately show "fg_inv (snd (fg_requestDirectory E u s))"
    "parents_ok (fg_m s) \<Longrightarrow> parents_ok (fg_m (snd (fg_requestDirectory E u s)))"
    using assms by (auto simp: fg_inv_def fg_ok_def)
qed

lemma cancel_ok:
  assumes "fg_inv s" and i: "fg_m s i = Some t"
  shows "fg_inv (fg_cancel i c t s)" "parents_ok (fg_m s) \<Longrightarrow> parents_ok (fg_m (fg_cancel i c t s))"
proof -
  have ok: "fg_ok s" and calm: "calm (fg_m s)" using assms(1) by (simp_all add: fg_inv_def)
  note okv = ok [unfolded fg_ok_def]
  have "fg_inv (fg_cancel i c t s) \<and> (parents_ok (fg_m s) \<longrightarrow> parents_ok (fg_m (fg_cancel i c t s)))"
  proof (cases t)
    case (DirT d)
    from dir_cancel_ok [OF ok i [unfolded DirT], of c 0] obtain d' where d': "fg_ok (fg_cancel i c (DirT d) s)"
      "fg_m (fg_cancel i c (DirT d) s) = (fg_m s)(i \<mapsto> DirT d')" "\<not> early_state (tf_state (dt_info d'))" by blast
    have "calm (fg_m (fg_cancel i c (DirT d) s))" using calm d'(3) unfolding d'(2) by (auto simp: calm_def early_state_def)
    then show ?thesis using d'(1,2) parents_dir [of "fg_m s" i d d'] i DirT by (simp add: fg_inv_def)
  next
    case (FileT f)
    have f: "file_ok i f" using fgv_D(6) [OF okv i] FileT by simp
    have i': "fg_m s i = Some (FileT f)" using i FileT by simp
    obtain acts f' where run: "ft_cancel c f = (acts, f')" by fastforce
    note c = ft_cancel_fields [OF f run]
    let ?s = "fg_acts i acts (fg_put i (FileT f') s)"
    have eq: "fg_cancel i c t s = ?s" using FileT run by (simp add: fg_cancel_def)
    have "fg_ok ?s"
    proof (cases "f' = f \<and> acts = []")
      case True
      then have "fg_m ?s = fg_m s" using i' by auto
      then show ?thesis using ok True by (simp add: fg_ok_def)
    next
      case False
      then have dead: "\<not> alive (Some (FileT f'))" "\<not> finished_child (Some (FileT f'))" using c(3) by blast+
      have "fgv ((fg_m s)(i \<mapsto> FileT f')) (fg_posted s) (fg_pending s) (fg_nextId s)"
        using fgv_file(1) [OF okv i' c(1,2)] dead by blast
      from fgv_posts [OF this, of i "FileT f'" acts] dead show ?thesis by (simp add: fg_ok_def)
    qed
    moreover have "calm (fg_m ?s)" using calm by (auto simp: calm_def)
    moreover have "parents_ok (fg_m ?s)" if par: "parents_ok (fg_m s)"
      using parents_file [OF par i' c(2)] by simp
    ultimately show ?thesis unfolding eq by (simp add: fg_inv_def)
  qed
  then show "fg_inv (fg_cancel i c t s)" "parents_ok (fg_m s) \<Longrightarrow> parents_ok (fg_m (fg_cancel i c t s))" by blast+
qed

text \<open>Transfers that are removed, with a message for each.\<close>

lemma told_ok:
  assumes "fgv m q pend n" and "\<And>i t. m' i = Some t \<Longrightarrow> m i = Some t"
  shows "fgv m' (q @ map (\<lambda>x. fg_removed (f x)) xs) pend n"
proof (induction xs rule: rev_induct)
  case Nil
  then show ?case using fgv_remove [OF assms] by simp
next
  case (snoc x xs)
  from fgv_post [OF snoc, of "fg_removed (f x)"] show ?case by (simp add: fg_removed_def concerns_def)
qed

lemma calm_part: "calm m \<Longrightarrow> (\<And>i t. m' i = Some t \<Longrightarrow> m i = Some t) \<Longrightarrow> calm m'"
  unfolding calm_def by blast

lemma remove_ok:
  assumes "fg_inv s"
  shows "fg_inv (snd (fg_removeTransfer i s))"
proof (cases "fg_m s i")
  case None
  then show ?thesis using assms by (simp add: fg_removeTransfer_def)
next
  case (Some t)
  let ?s = "fg_cancel i NoError t s"
  have inv: "fg_inv ?s" by (rule cancel_ok(1) [OF assms Some])
  have part: "map_of (sm_erase i (fg_transfers ?s)) j = Some u \<Longrightarrow> fg_m ?s j = Some u" for j u
    by (auto split: if_splits)
  have "fgv (map_of (sm_erase i (fg_transfers ?s))) (fg_posted ?s @ map (\<lambda>x. fg_removed (id x)) [i]) (fg_pending ?s) (fg_nextId ?s)"
    by (rule told_ok [OF _ part]) (use inv in \<open>simp_all add: fg_inv_def fg_ok_def\<close>)
  moreover have "calm (map_of (sm_erase i (fg_transfers ?s)))" by (rule calm_part [OF _ part]) (use inv in \<open>simp_all add: fg_inv_def\<close>)
  ultimately show ?thesis using Some by (simp add: fg_removeTransfer_def Let_def fg_post_def fg_inv_def fg_ok_def)
qed

lemma map_of_filter_part:
  assumes "distinct (map fst xs)" and "map_of (filter P xs) k = Some v"
  shows "map_of xs k = Some v"
  using map_of_SomeD [OF assms(2)] assms(1) by (simp add: map_of_eq_Some_iff)

lemma remove_finished_ok:
  assumes "fg_inv s" and "sm_ok (fg_transfers s)"
  shows "fg_inv (fg_removeFinishedTransfers s)"
proof -
  have d: "distinct (map fst (fg_transfers s))" by (rule sm_ok_distinct [OF assms(2)])
  let ?m = "map_of (filter (\<lambda>x. \<not> tf_ended (xfer_info (snd x))) (fg_transfers s))"
  have part: "?m j = Some u \<Longrightarrow> fg_m s j = Some u" for j u by (rule map_of_filter_part [OF d])
  have "fgv ?m (fg_posted s @ map (\<lambda>x. fg_removed (fst x)) (filter (\<lambda>x. tf_ended (xfer_info (snd x))) (fg_transfers s)))
      (fg_pending s) (fg_nextId s)"
    by (rule told_ok [OF _ part]) (use assms(1) in \<open>simp_all add: fg_inv_def fg_ok_def\<close>)
  moreover have "calm ?m" by (rule calm_part [OF _ part]) (use assms(1) in \<open>simp_all add: fg_inv_def\<close>)
  ultimately show ?thesis by (simp add: fg_removeFinishedTransfers_def fg_post_def fg_inv_def fg_ok_def comp_def)
qed

text \<open>The transfers are in the order of their ids.\<close>

lemma cancel_sorted: "sm_ok (fg_transfers s) \<Longrightarrow> sm_ok (fg_transfers (fg_cancel i c t s))"
  by (auto simp: fg_cancel_def split: transfer.split prod.split)

lemma request_file_sorted:
  "sm_ok (fg_transfers s) \<Longrightarrow> fg_requestFileTransfer E u n p s = (e, i, s') \<Longrightarrow> sm_ok (fg_transfers s')"
  by (auto simp: fg_requestFileTransfer_def Let_def fg_post_def split: prod.splits if_splits)

lemma start_next_sorted:
  assumes "sm_ok (fg_transfers s)" and "fg_startNext E p s = oo_done (e, s')"
  shows "sm_ok (fg_transfers s')"
proof -
  obtain d where d: "fg_m s p = Some (DirT d)"
    using assms(2) by (auto simp: fg_startNext_def split: option.splits transfer.splits)
  then obtain e1 task made acts d' where n: "dt_nextTransfer (ge_tf E) d = oo_done (e1, task, made, acts, d')"
    using assms(2) by (auto simp: fg_startNext_def oo_bind_done)
  define s1 where "s1 = fg_acts p acts (fg_put p (DirT d') s)"
  have s1: "sm_ok (fg_transfers s1)" using assms(1) by (simp add: s1_def)
  have eq: "fg_startNext E p s = (if e1 = Eof then oo_done (NoError, s1)
      else if failed e1 then oo_done (e1, fg_cancel p e1 (DirT d') s1)
      else case task of None \<Rightarrow> Some (Fault NullDeref)
        | Some (u, name) \<Rightarrow> (case fg_requestFileTransfer E u name p s1 of (e2, _, s2) \<Rightarrow>
            oo_done (e2, if failed e2 then fg_cancel p e2 (DirT d') s2 else s2)))"
    unfolding s1_def using d n by (simp add: fg_startNext_def Let_def)
  have "sm_ok (fg_transfers s2)" if "fg_requestFileTransfer E u name p s1 = (e2, j, s2)" for u name e2 j s2
    by (rule request_file_sorted [OF s1 that])
  then show ?thesis using assms(2) s1 cancel_sorted
    unfolding eq by (auto split: if_splits option.splits prod.splits)
qed

lemma start_some_sorted:
  "sm_ok (fg_transfers s) \<Longrightarrow> fg_startSome E p n s = oo_done s' \<Longrightarrow> sm_ok (fg_transfers s')"
proof (induction n arbitrary: s)
  case (Suc n)
  then obtain e s1 where s1: "fg_startNext E p s = oo_done (e, s1)" by (auto simp: oo_bind_done)
  have "sm_ok (fg_transfers s1)" by (rule start_next_sorted [OF Suc.prems(1) s1])
  then show ?case using Suc s1 by (auto split: if_splits)
qed simp

lemma change_sorted:
  assumes "sm_ok (fg_transfers s)" and "fg_onTransferChange E i c s = oo_done s'"
  shows "sm_ok (fg_transfers s')"
proof (cases "fg_m s i")
  case (Some t)
  obtain s1 s2 where s1: "s1 = s \<or> fg_startSome E i filesPerDirectory s = oo_done s1"
    and s2: "s2 = s1 \<or> (\<exists>e. fg_startNext E (tf_parent (xfer_info t)) s1 = oo_done (e, s2))"
    and s': "fg_transfers s' = fg_transfers s2"
    using assms(2) Some by (auto simp: fg_onTransferChange_def Let_def oo_bind_done split: if_splits) blast+
  have "sm_ok (fg_transfers s1)" using s1 assms(1) start_some_sorted by blast
  then show ?thesis using s2 s' start_next_sorted by auto
qed (use assms in \<open>simp add: fg_onTransferChange_def\<close>)

lemma reply_sorted:
  assumes "sm_ok (fg_transfers s)" and "fg_reply E i h r x s = oo_done s'"
  shows "sm_ok (fg_transfers s')"
proof (cases "fg_m s i")
  case (Some t)
  then obtain acts t' where "fg_onTransferChange E i UT_Changed (fg_acts i acts (fg_put i t' s)) = oo_done s'"
    using assms(2) by (cases t) (auto simp: fg_reply_def oo_bind_done)
  then show ?thesis by (rule change_sorted [rotated]) (use assms(1) in simp)
qed (use assms in \<open>simp add: fg_reply_def\<close>)

lemma turn_sorted:
  assumes "sm_ok (fg_transfers s)" and "fg_turn E s = oo_done s'"
  shows "sm_ok (fg_transfers s')"
proof (cases "fg_posted s")
  case (Cons a q)
  have ok: "sm_ok (fg_transfers (s\<lparr>fg_posted := q\<rparr>))" using assms(1) by simp
  show ?thesis
  proof (cases a)
    case (PostedChange i c)
    then have "fg_onTransferChange E i c (s\<lparr>fg_posted := q\<rparr>) = oo_done s'" using assms(2) Cons by (simp add: fg_turn_def)
    then show ?thesis by (rule change_sorted [OF ok])
  next
    case (PostedTold i c info)
    then show ?thesis using assms Cons by (auto simp: fg_turn_def)
  next
    case (PostedReply i h r x)
    then have "fg_reply E i h r x (s\<lparr>fg_posted := q\<rparr>) = oo_done s'" using assms(2) Cons by (simp add: fg_turn_def)
    then show ?thesis by (rule reply_sorted [OF ok])
  qed
qed (use assms in \<open>simp add: fg_turn_def\<close>)

lemma step_sorted:
  assumes "sm_ok (fg_transfers s)" and "fg_step e s = oo_done s'"
  shows "sm_ok (fg_transfers s')"
proof (cases e)
  case (FgRequest E u)
  obtain er i s1 where req: "fg_requestFileTransfer E u (snd (generateName E (fg_destDir s) u)) 0 s = (er, i, s1)" by (metis prod_cases3)
  then have "s' = s \<or> s' = s1" using assms(2) FgRequest by (auto simp: fg_request_def split: prod.splits bool.splits)
  then show ?thesis using assms(1) request_file_sorted [OF assms(1) req] by blast
next
  case (FgRequestDirectory E u)
  obtain er d where st: "dt_start (ge_tf E) u (snd (generateName E (fg_destDir s) u)) dt_new = (er, d)" by fastforce
  then have "fg_transfers s' = fg_transfers s \<or> fg_transfers s' = sm_insert (fg_nextId s) (DirT d) (fg_transfers s)"
    using assms(2) FgRequestDirectory
    by (auto simp: fg_requestDirectory_def Let_def fg_post_def split: prod.splits bool.splits)
  then show ?thesis using assms(1) by auto
next
  case (FgCancel i)
  then show ?thesis using assms cancel_sorted by (auto simp: fg_cancelTransfer_def split: option.splits)
next
  case (FgRemove i)
  then show ?thesis using assms cancel_sorted [OF assms(1)]
    by (auto simp: fg_removeTransfer_def Let_def fg_post_def split: option.splits)
next
  case (FgTurn E)
  then show ?thesis using assms turn_sorted by simp
next
  case (FgTimeOut E i err p)
  show ?thesis
  proof (cases "i \<in> set (fg_pending s)")
    case True
    then show ?thesis using assms FgTimeOut
        reply_sorted [of "s\<lparr>fg_pending := removeAll i (fg_pending s)\<rparr>" E i "[]" "new_request_reply\<lparr>rr_path := p, rr_err := err\<rparr>" "[]" s']
      by (simp add: fg_timeOut_def)
  qed (use assms FgTimeOut in \<open>simp add: fg_timeOut_def\<close>)
qed (use assms in \<open>auto simp: fg_removeFinishedTransfers_def fg_arrive_def fg_post_def\<close>)

subsection \<open>Runs\<close>

fun fails_late :: "fg_event \<Rightarrow> bool" where
  "fails_late (FgTimeOut E i e p) \<longleftrightarrow> failed e"
| "fails_late _ \<longleftrightarrow> True"

fun removes :: "fg_event \<Rightarrow> bool" where
  "removes (FgRemove i) \<longleftrightarrow> True"
| "removes FgRemoveFinished \<longleftrightarrow> True"
| "removes _ \<longleftrightarrow> False"

lemma good_run:
  "good s r \<Longrightarrow> (\<forall>s'. r = oo_done s' \<longrightarrow> fg_inv s') \<and> (parents_ok (fg_m s) \<longrightarrow> (\<exists>s'. r = oo_done s' \<and> parents_ok (fg_m s')))"
  by (auto simp: good_def fg_inv_def)

lemma step_ok:
  assumes inv: "fg_inv s" "sm_ok (fg_transfers s)" and late: "fails_late e"
  shows "(\<forall>s'. fg_step e s = oo_done s' \<longrightarrow> fg_inv s') \<and>
     (parents_ok (fg_m s) \<and> \<not> removes e \<longrightarrow> (\<exists>s'. fg_step e s = oo_done s' \<and> parents_ok (fg_m s')))"
proof (cases e)
  case (FgRequest E u)
  then show ?thesis using request_ok [OF inv(1)] by simp
next
  case (FgRequestDirectory E u)
  then show ?thesis using request_directory_ok [OF inv(1)] by simp
next
  case (FgCancel i)
  then show ?thesis using cancel_ok(1,2) [OF inv(1)] inv(1) by (auto simp: fg_cancelTransfer_def split: option.splits)
next
  case (FgArrive i h r x)
  then show ?thesis using arrive_ok [OF inv(1)] by simp
next
  case (FgTimeOut E i err p)
  then show ?thesis using good_run [OF time_out_ok [OF inv(1)]] late by simp
next
  case (FgTurn E)
  then show ?thesis using good_run [OF turn_ok [OF inv(1)]] by simp
qed (use remove_ok [OF inv(1)] remove_finished_ok [OF inv] in simp_all)

lemma run_ok:
  assumes "fg_inv s" and "sm_ok (fg_transfers s)" and "\<forall>e \<in> set es. fails_late e"
  shows "(\<forall>s'. fg_run es s = oo_done s' \<longrightarrow> fg_inv s') \<and>
     (parents_ok (fg_m s) \<and> (\<forall>e \<in> set es. \<not> removes e) \<longrightarrow> (\<exists>s'. fg_run es s = oo_done s' \<and> parents_ok (fg_m s')))"
  using assms
proof (induction es arbitrary: s)
  case (Cons e es)
  note st = step_ok [OF Cons.prems(1,2), of e] step_sorted [OF Cons.prems(2), of e]
  have ih: "(\<forall>s'. fg_run es s1 = oo_done s' \<longrightarrow> fg_inv s') \<and>
      (parents_ok (fg_m s1) \<and> (\<forall>e \<in> set es. \<not> removes e) \<longrightarrow> (\<exists>s'. fg_run es s1 = oo_done s' \<and> parents_ok (fg_m s')))"
    if "fg_step e s = oo_done s1" for s1
    using Cons.IH [of s1] st that Cons.prems(3) by simp
  show ?case
  proof (intro conjI allI impI)
    fix s' assume "fg_run (e # es) s = oo_done s'"
    then show "fg_inv s'" using ih by (auto simp: oo_bind_done)
  next
    assume p: "parents_ok (fg_m s) \<and> (\<forall>e \<in> set (e # es). \<not> removes e)"
    then obtain s1 where "fg_step e s = oo_done s1" "parents_ok (fg_m s1)" using st(1) Cons.prems(3) by auto
    then show "\<exists>s'. fg_run (e # es) s = oo_done s' \<and> parents_ok (fg_m s')" using ih [of s1] p by simp
  qed
qed simp

lemma new_ok: "fg_inv fg_new" "sm_ok (fg_transfers fg_new)" "parents_ok (fg_m fg_new)"
  by (simp_all add: fg_inv_def fg_ok_def fgv_def fg_new_def calm_def parents_ok_def transfer_simps active_def)

end
