(* ===== verification/Sf_GettingSpec.thy ===== *)
theory Sf_GettingSpec
  imports Sf_GettingProps
begin

text \<open>
  What getting files promises, and where it does not keep what it means to.
\<close>

definition demo_get_env :: "rec_entry list \<Rightarrow> get_env" where
  "demo_get_env l = \<lparr>ge_tf = demo_tf_env\<lparr>te_decode := (\<lambda>_. Some l)\<rparr>, ge_parentPath = (\<lambda>_. []), ge_stem = (\<lambda>x. x), ge_extension = (\<lambda>_. [])\<rparr>"

definition demo_part :: "int \<Rightarrow> reply_mark \<Rightarrow> bytes \<Rightarrow> fg_event" where
  "demo_part i m x = FgArrive i ''srv'' (new_request_reply\<lparr>rr_mark := m, rr_range := mk_range 0 1\<rparr>) x"

text \<open>A directory whose listing arrives, and the first turns of the loop.\<close>

definition demo_listed :: "rec_entry list \<Rightarrow> fg_event list" where
  "demo_listed l =
     [FgRequestDirectory (demo_get_env l) (Uri ''srv'' (Path ''f'') True), demo_part 1 RR_TransmissionStart [],
      demo_part 1 RR_TransmissionFinish ''x'', FgTurn (demo_get_env l), FgTurn (demo_get_env l), FgTurn (demo_get_env l)]"

definition demo_files3 :: "rec_entry list" where
  "demo_files3 = [RecEntry ''a'' EFile 1 [], RecEntry ''b'' EFile 1 [], RecEntry ''c'' EFile 1 []]"

lemma free_name_free: "\<not> te_exists (ge_tf E) c \<Longrightarrow> free_name E stem ext k c n = (c, k)"
  by (cases n) simp_all

lemmas get_defs = free_name_free numeral_2_eq_2 Let_def fg_removed_def uri_make_def path_plus_def
  errorState_def r_length_def demo_listed_def demo_part_def fg_new_def fg_requestDirectory_def
  generateName_def nonExistingName_def removeTrailingSlashes_def base_name_def fileStem_def
  demo_get_env_def demo_tf_env_def dt_start_def dt_new_def new_transfer_def fg_post_def fg_put_def
  fg_arrive_def fg_turn_def fg_reply_def fg_onTransferChange_def fg_startNext_def fg_acts_def
  fg_cancel_def fg_requestFileTransfer_def last_reply_def cl_follows_def new_request_reply_def
  dt_onRequestReply_def dt_handle_def dt_starting_def dt_transferring_def dt_nextTransfer_def
  dt_set_def dt_seek.simps dt_destination_def it_begin_def it_next_def it_deref_def it_path_def
  ft_start_def ft_new_def ft_onRequestReply_def ft_handle_def ft_starting_def ft_transferring_def
  ft_set_def ft_cleanup_def tf_refuse_def tf_ended_def strange_mark_def filesPerDirectory_def
  fg_removeFinishedTransfers_def

text \<open>
  C10. At most two files of a directory are under way: in every run that has not failed an assertion,
  whatever is requested, cancelled, removed or arrives, and however the file system behaves, a
  directory never has more than \<open>mFilesPerDirectory\<close> files that are starting or transferring.
\<close>

lemma two_at_once:
  assumes "fg_run es fg_new = oo_done s" and "\<forall>e \<in> set es. fails_late e" and "p \<noteq> 0"
  shows "card {i. \<exists>f. map_of (fg_transfers s) i = Some (FileT f) \<and> tf_parent (ft_info f) = p \<and>
      (tf_state (ft_info f) = TS_Starting \<or> tf_state (ft_info f) = TS_Transferring)} \<le> filesPerDirectory"
proof -
  have "child p t \<and> alive t \<longleftrightarrow> (\<exists>f. t = Some (FileT f) \<and> tf_parent (ft_info f) = p \<and>
      (tf_state (ft_info f) = TS_Starting \<or> tf_state (ft_info f) = TS_Transferring))" for t
    by (auto simp: child_def alive_def split: option.splits transfer.splits)
  then have "{i. \<exists>f. map_of (fg_transfers s) i = Some (FileT f) \<and> tf_parent (ft_info f) = p \<and>
      (tf_state (ft_info f) = TS_Starting \<or> tf_state (ft_info f) = TS_Transferring)} = active (fg_m s) p"
    unfolding active_def by simp
  moreover have "fg_inv s" using run_ok [OF new_ok(1,2) assms(2)] assms(1) by blast
  then have "card (active (fg_m s) p) \<le> 2" using fgv_D(11) assms(3) unfolding fg_inv_def fg_ok_def by blast
  ultimately show ?thesis by (simp add: filesPerDirectory_def)
qed

lemma two_at_once_witness:
  "\<exists>s. fg_run (demo_listed demo_files3) fg_new = oo_done s \<and>
     card {i. \<exists>f. map_of (fg_transfers s) i = Some (FileT f) \<and> tf_parent (ft_info f) = 1 \<and>
      (tf_state (ft_info f) = TS_Starting \<or> tf_state (ft_info f) = TS_Transferring)} \<le> filesPerDirectory"
proof -
  have late: "\<forall>e \<in> set (demo_listed demo_files3). fails_late e" by (simp add: demo_listed_def demo_part_def)
  obtain s where s: "fg_run (demo_listed demo_files3) fg_new = oo_done s" by (simp add: get_defs demo_files3_def)
  show ?thesis using two_at_once [OF s late, of 1] s by simp
qed

text \<open>
  C15. As long as no transfer is removed, getting files never fails an assertion and every loop
  over a listing ends; and a file that is reported as finished has as many bytes as were announced.
\<close>

lemma getting_never_faults:
  assumes "\<forall>e \<in> set es. fails_late e \<and> \<not> removes e"
  shows "\<exists>s. fg_run es fg_new = oo_done s \<and>
    (\<forall>i f. map_of (fg_transfers s) i = Some (FileT f) \<and> tf_state (ft_info f) = TS_Finished \<longrightarrow>
       int (length (ft_written f)) = tf_size (ft_info f))"
proof -
  note run = run_ok [OF new_ok(1,2), of es]
  obtain s where s: "fg_run es fg_new = oo_done s" using run new_ok(3) assms by blast
  have "fg_inv s" using run s assms by blast
  then have "fgv (fg_m s) (fg_posted s) (fg_pending s) (fg_nextId s)" by (simp add: fg_inv_def fg_ok_def)
  then have "xfer_ok i (FileT f)" if "fg_m s i = Some (FileT f)" for i f using fgv_D(6) that by blast
  then show ?thesis using s by (auto simp: file_ok_def ft_ok_def)
qed

lemma getting_never_faults_witness:
  "\<exists>s. fg_run (demo_listed demo_files3 @ [FgCancel 2, demo_part 3 RR_TransmissionStart [], demo_part 3 RR_TransmissionFinish ''x'']
      @ replicate 6 (FgTurn (demo_get_env []))) fg_new = oo_done s \<and>
    (\<forall>i f. map_of (fg_transfers s) i = Some (FileT f) \<and> tf_state (ft_info f) = TS_Finished \<longrightarrow>
       int (length (ft_written f)) = tf_size (ft_info f))"
  by (rule getting_never_faults) (auto simp: demo_listed_def demo_part_def)

subsection \<open>Where it falls short\<close>

text \<open>
  The parent of a file may have been removed when the file finishes: the assertion of
  \<open>onTransferChange\<close> fails.  The directory is finished as soon as its last file has been handed out,
  so \<open>removeFinishedTransfers\<close> is enough.
\<close>

lemma removed_parent_asserts:
  "fg_run (demo_listed [RecEntry ''a'' EFile 1 []] @ [FgRemoveFinished, demo_part 2 RR_TransmissionStart [],
     demo_part 2 RR_TransmissionFinish ''x''] @ replicate 6 (FgTurn (demo_get_env []))) fg_new = Some (Fault AssertFailed)"
  by (simp add: get_defs numeral_eq_Suc)

lemma finished_too_early:
  "\<exists>s d f. fg_run (demo_listed [RecEntry ''a'' EFile 1 []]) fg_new = oo_done s \<and>
     map_of (fg_transfers s) 1 = Some (DirT d) \<and> tf_state (dt_info d) = TS_Finished \<and> tf_transferred (dt_info d) = 1 \<and>
     map_of (fg_transfers s) 2 = Some (FileT f) \<and> tf_parent (ft_info f) = 1 \<and> tf_state (ft_info f) = TS_Starting"
  by (simp add: get_defs)

text \<open>
  Only a file that has finished starts the next one: when the two that are under way fail, the
  directory stays with files pending for ever, and nothing is under way.
\<close>

lemma failed_files_stall:
  "\<exists>s d. fg_run (demo_listed demo_files3 @
       [FgTimeOut (demo_get_env []) 2 TimeOut (Path []), FgTimeOut (demo_get_env []) 3 TimeOut (Path [])] @ replicate 6 (FgTurn (demo_get_env []))) fg_new = oo_done s \<and>
     map_of (fg_transfers s) 1 = Some (DirT d) \<and> tf_state (dt_info d) = TS_PendingFiles \<and>
     fg_posted s = [] \<and> fg_pending s = []"
  by (simp add: get_defs numeral_eq_Suc demo_files3_def fg_timeOut_def)

text \<open>
  A cancelled directory becomes one with an error when a file of it finishes.
\<close>

lemma cancelled_directory_fails:
  "\<exists>s d. fg_run (demo_listed demo_files3 @
       [FgCancel 1, demo_part 2 RR_TransmissionStart [], demo_part 2 RR_TransmissionFinish ''x''] @ replicate 9 (FgTurn (demo_get_env []))) fg_new = oo_done s \<and>
     map_of (fg_transfers s) 1 = Some (DirT d) \<and> tf_state (dt_info d) = TS_Error \<and> tf_error (dt_info d) = InvalidArgument"
  by (simp add: get_defs numeral_eq_Suc demo_files3_def fg_cancelTransfer_def dt_cancel_def)

text \<open>
  A file that exists already is kept as a transfer without a state, which is never removed with
  the finished ones.
\<close>

lemma existing_file_stays:
  "\<exists>s f. fg_run ([FgRequestDirectory (demo_get_env []) (Uri ''srv'' (Path ''f'') True), demo_part 1 RR_TransmissionStart [],
        demo_part 1 RR_TransmissionFinish ''x''] @
      replicate 6 (FgTurn ((demo_get_env [RecEntry ''a'' EFile 1 []])\<lparr>ge_tf := demo_tf_env\<lparr>te_exists := (\<lambda>x. x = ''f/a''),
        te_decode := (\<lambda>_. Some [RecEntry ''a'' EFile 1 []])\<rparr>\<rparr>)) @ [FgRemoveFinished]) fg_new = oo_done s \<and>
     map_of (fg_transfers s) 1 = None \<and> map_of (fg_transfers s) 2 = Some (FileT f) \<and> tf_state (ft_info f) = TS_NoState"
  by (simp add: get_defs numeral_eq_Suc dt_cancel_def)

text \<open>
  The last name that is tried is refused even if it is free.
\<close>

lemma free_name_taken:
  assumes "\<And>j. k \<le> j \<Longrightarrow> j < k + n \<Longrightarrow> te_exists (ge_tf E) (stem @ show_nat j @ ext)" and "te_exists (ge_tf E) c"
  shows "free_name E stem ext k c (Suc n) = (stem @ show_nat (k + n) @ ext, k + Suc n)"
  using assms
proof (induction n arbitrary: k c)
  case (Suc n)
  have "free_name E stem ext (k + 1) (stem @ show_nat k @ ext) (Suc n) = (stem @ show_nat (k + 1 + n) @ ext, k + 1 + Suc n)"
    by (rule Suc.IH) (use Suc.prems(1) in auto)
  then show ?case using Suc.prems(2) by simp
qed simp

lemma last_name_refused:
  assumes "te_exists (ge_tf E) base" and "\<And>j. j < 255 \<Longrightarrow> te_exists (ge_tf E) (fileStem E base @ show_nat j @ ge_extension E base)"
  shows "nonExistingName E base = (False, fileStem E base @ show_nat 255 @ ge_extension E base)"
  using free_name_taken [of 0 255 E "fileStem E base" "ge_extension E base" base] assms
  by (simp add: nonExistingName_def eval_nat_numeral)

text \<open>
  A name is not taken before the file is made: two downloads have the same destination.
\<close>

lemma same_destination:
  "\<exists>s f g. fg_run [FgRequest (demo_get_env []) (Uri ''srv'' (Path ''f'') True), FgRequest (demo_get_env []) (Uri ''srv'' (Path ''d/f'') True)] fg_new = oo_done s \<and>
     map_of (fg_transfers s) 1 = Some (FileT f) \<and> map_of (fg_transfers s) 2 = Some (FileT g) \<and>
     tf_state (ft_info f) = TS_Starting \<and> tf_state (ft_info g) = TS_Starting \<and> tf_filename (ft_info f) = tf_filename (ft_info g)"
  by (simp add: get_defs fg_request_def)

text \<open>
  A request that timed out has no sender, so its transmission is cancelled at the empty host.
\<close>

lemma timed_out_cancels_nobody:
  "\<exists>s. fg_run [FgRequest (demo_get_env []) (Uri ''srv'' (Path ''f'') True), FgTimeOut (demo_get_env []) 1 TimeOut (Path [])] fg_new = oo_done s \<and>
     fg_cancels s = [([], 0, Path [])]"
  by (simp add: get_defs fg_request_def fg_timeOut_def)

end
