(* ===== verification/Sf_AuthEnd.thy ===== *)
theory Sf_AuthEnd
  imports Sf_AuthQuiet Sf_AuthPair
begin

text \<open>
  One end of the handshake of \<open>AuthProtocol\<close> (\<open>libschnee/schnee/p2p/channels/AuthProtocol.cpp\<close>)
  against any peer: whatever bytes its channel gives, whatever they decode to, and whenever the
  main loop runs its posted calls and its timer.
\<close>

subsection \<open>Runs of one end\<close>

text \<open>The answers are the calls of the finished delegate.\<close>

fun ap_run :: "('c, 'k) auth_env \<Rightarrow> 'c auth_event list \<Rightarrow> ('c, 'k) auth_proto \<Rightarrow> (error list \<times> ('c, 'k) auth_proto) outcome" where
  "ap_run E [] p = Done ([], p)"
| "ap_run E (ev # evs) p =
     outcome_bind (auth_event E ev p) (\<lambda>(r, q).
       outcome_bind (ap_run E evs q) (\<lambda>(rs, q'). Done (case r of None \<Rightarrow> rs | Some e \<Rightarrow> e # rs, q')))"

text \<open>An end that connects or waits, with an authentication or without.\<close>

definition ap_begin ::
  "('c, 'k) auth_env \<Rightarrow> bool \<Rightarrow> host_id \<Rightarrow> int \<Rightarrow> 'k authentication option \<Rightarrow> ('c, 'k) auth_proto \<Rightarrow> ('c, 'k) auth_proto outcome" where
  "ap_begin E active other ms au p =
     (let p1 = p\<lparr>ap_auth := au, ap_hasFinished := True\<rparr>
      in if active then ap_connect E other ms p1 else Done (ap_passive E other ms p1))"

subsection \<open>What a step leaves\<close>

definition ap_own :: "'k authentication option \<Rightarrow> bool" where
  "ap_own au \<longleftrightarrow> (\<forall>a. au = Some a \<longrightarrow> au_certificate a \<noteq> None)"

text \<open>Only over a channel that calls itself authenticated may the authentication be changed.\<close>

definition trusts :: "('c, 'k) auth_env \<Rightarrow> bool" where
  "trusts E \<longleftrightarrow> (\<exists>c. ci_authenticated (vt_info (ae_vt E) c))"

definition ap_kept :: "('c, 'k) auth_env \<Rightarrow> ('c, 'k) auth_proto \<Rightarrow> ('c, 'k) auth_proto \<Rightarrow> bool" where
  "ap_kept E p q \<longleftrightarrow> ap_hasFinished q = ap_hasFinished p \<and> ap_reader q = ap_reader p \<and>
     (ap_own (ap_auth p) \<longrightarrow> ap_own (ap_auth q)) \<and> (\<not> trusts E \<longrightarrow> ap_auth q = ap_auth p) \<and>
     (ap_auth p = None \<longrightarrow> ap_auth q = None)"

text \<open>The end goes on, or it is over and its result is posted.\<close>

definition ap_posted :: "error \<Rightarrow> ('c, 'k) auth_proto \<Rightarrow> ('c, 'k) auth_proto \<Rightarrow> bool" where
  "ap_posted e p q \<longleftrightarrow> ap_done q \<and> ap_timer q = None \<and> ap_tasks q = ap_tasks p @ [Task_Finished e] \<and>
     (e = NoError \<longleftrightarrow> ap_state q = FINISHED)"

definition ap_turn :: "('c, 'k) auth_env \<Rightarrow> ('c, 'k) auth_proto \<Rightarrow> ('c, 'k) auth_proto \<Rightarrow> bool" where
  "ap_turn E p q \<longleftrightarrow> ap_kept E p q \<and> (\<not> ap_done q \<and> ap_tasks q = ap_tasks p \<or> (\<exists>e. ap_posted e p q))"

lemma ap_kept_refl [simp]: "ap_kept E p p"
  by (simp add: ap_kept_def)

lemma ap_kept_trans: "ap_kept E p q \<Longrightarrow> ap_kept E q r \<Longrightarrow> ap_kept E p r"
  by (simp add: ap_kept_def)

lemma send_kept: "ap_send E m p = (e, q) \<Longrightarrow> ap_kept E p q \<and> ap_tasks q = ap_tasks p \<and> ap_state q = ap_state p"
  by (auto simp: ap_send_def ap_kept_def split: prod.splits)

lemma params_kept:
  "ap_checkParams d desired setOther p = (ok, q) \<Longrightarrow>
     ap_kept E p q \<and> ap_tasks q = ap_tasks p \<and> ap_state q = ap_state p \<and> ap_auth q = ap_auth p"
  by (auto simp: ap_checkParams_def ap_kept_def Let_def split: if_splits option.splits)

lemma updateOtherCert_kept:
  assumes "keyExchange E p"
  shows "ap_kept E p (ap_updateOtherCert E p)"
proof -
  have "trusts E" using assms by (auto simp: keyExchange_def trusts_def)
  then show ?thesis
    by (auto simp: ap_updateOtherCert_def ap_kept_def ap_own_def au_update_def split: option.split)
qed

lemma onError_turn: "ap_hasFinished p \<Longrightarrow> ap_turn E p (ap_onError E e p)"
  by (auto simp: ap_onError_def Let_def ap_turn_def ap_kept_def ap_posted_def ap_done_def ap_post_def)

lemma onFinish_turn: "ap_turn E p (ap_onFinish p)"
  by (auto simp: ap_onFinish_def ap_turn_def ap_kept_def ap_posted_def ap_done_def ap_post_def)

lemma ap_turn_kept:
  "ap_kept E p q \<Longrightarrow> ap_tasks q = ap_tasks p \<Longrightarrow> ap_turn E q r \<Longrightarrow> ap_turn E p r"
  unfolding ap_turn_def ap_posted_def by (auto intro: ap_kept_trans)

lemma ap_kept_finished: "ap_kept E p q \<Longrightarrow> ap_hasFinished p \<Longrightarrow> ap_hasFinished q"
  by (simp add: ap_kept_def)

lemma reject_turn:
  assumes "ap_hasFinished p" shows "ap_turn E p (ap_reject E d p)"
proof -
  obtain e q where s: "ap_send E (ChannelFail \<lparr>cf_error = BadProtocol, cf_msg = []\<rparr>) p = (e, q)" by fastforce
  have "ap_turn E p (ap_onError E BadProtocol q)"
    by (rule ap_turn_kept [OF _ _ onError_turn]) (use send_kept [OF s] assms in \<open>auto dest: ap_kept_finished\<close>)
  then show ?thesis using onError_turn [OF assms] by (simp add: ap_reject_def s)
qed

lemma ownCert_Done:
  assumes "ap_own (ap_auth p)"
  shows "\<exists>c. (if keyExchange E p then ap_ownCert E p else Done []) = Done c"
  using assms by (auto simp: keyExchange_def ap_ownCert_def ap_own_def split: option.split)

text \<open>The three handlers of a message.\<close>

lemma accepted_turn:
  assumes "ap_hasFinished p" and "ap_own (ap_auth p)"
  shows "\<exists>q. ap_onAccepted E d p = Done q \<and> ap_turn E p q"
proof -
  obtain ok p1 where p1: "ap_checkParams d ''createChannelAccept'' False p = (ok, p1)" by fastforce
  note k1 = params_kept [OF p1, of E]
  have fin: "ap_hasFinished p1" using k1 assms(1) by (auto dest: ap_kept_finished)
  show ?thesis
  proof (cases ok)
    case False
    have "ap_turn E p (ap_reject E d p1)" by (rule ap_turn_kept [OF _ _ reject_turn]) (use k1 fin in auto)
    with False p1 show ?thesis by (simp add: ap_onAccepted_def)
  next
    case True
    obtain cert where cert: "(if keyExchange E p1 then ap_ownCert E p1 else Done []) = Done cert"
      using ownCert_Done [of p1 E] k1 assms(2) by auto
    define p2 where "p2 = (if keyExchange E p1 then ap_updateOtherCert E p1 else p1)"
    have k2: "ap_kept E p1 p2" "ap_tasks p2 = ap_tasks p1" using updateOtherCert_kept by (auto simp: p2_def)
    obtain e p3 where p3: "ap_send E (ChannelAccept \<lparr>ac_from = ap_me p1, ac_to = ap_other p1, ac_cert = cert\<rparr>) p2 = (e, p3)"
      by fastforce
    have k3: "ap_kept E p p3" "ap_tasks p3 = ap_tasks p"
      using k1 k2 send_kept [OF p3] by (auto intro: ap_kept_trans)
    have "ap_turn E p (if failed e then ap_onError E ConnectionError p3 else ap_onFinish p3)"
      by (cases "failed e")
        (use ap_turn_kept [OF k3 onError_turn] ap_turn_kept [OF k3 onFinish_turn] ap_kept_finished [OF k3(1) assms(1)] in auto)
    then show ?thesis using True p1 cert p3 by (simp add: ap_onAccepted_def Let_def p2_def)
  qed
qed

lemma create_turn:
  assumes "ap_hasFinished p" and "ap_own (ap_auth p)"
  shows "\<exists>q. ap_onCreate E d p = Done q \<and> ap_turn E p q"
proof -
  obtain ok p1 where p1: "ap_checkParams d ''createChannel'' (ap_other p = []) p = (ok, p1)" by fastforce
  note k1 = params_kept [OF p1, of E]
  have fin: "ap_hasFinished p1" using k1 assms(1) by (auto dest: ap_kept_finished)
  show ?thesis
  proof (cases ok)
    case False
    have "ap_turn E p (ap_reject E d p1)" by (rule ap_turn_kept [OF _ _ reject_turn]) (use k1 fin in auto)
    with False p1 show ?thesis by (simp add: ap_onCreate_def)
  next
    case True
    obtain cert where cert: "(if keyExchange E p1 then ap_ownCert E p1 else Done []) = Done cert"
      using ownCert_Done [of p1 E] k1 assms(2) by auto
    obtain e p2 where p2: "ap_send E (CreateChannelAccept \<lparr>ca_from = ap_me p1, ca_to = ap_other p1,
        ca_version = ae_version E, ca_cert = cert, ca_toCertFp = []\<rparr>) p1 = (e, p2)" by fastforce
    have k2: "ap_kept E p p2" "ap_tasks p2 = ap_tasks p"
      using k1 send_kept [OF p2] by (auto intro: ap_kept_trans)
    have "ap_turn E p (if failed e then ap_onError E ConnectionError p2 else p2\<lparr>ap_state := SENT_CREATE_CHANNEL_ACCEPT\<rparr>)"
    proof (cases "failed e")
      case True
      with ap_turn_kept [OF k2] onError_turn ap_kept_finished [OF k2(1) assms(1)] show ?thesis by auto
    next
      case False
      with k2 show ?thesis by (auto simp: ap_turn_def ap_kept_def ap_done_def)
    qed
    then show ?thesis using True p1 cert p2 by (simp add: ap_onCreate_def Let_def)
  qed
qed

lemma channelAccept_turn:
  assumes "ap_hasFinished p" shows "ap_turn E p (ap_onChannelAccept E d p)"
proof -
  obtain ok p1 where p1: "ap_checkParams d ''channelAccept'' False p = (ok, p1)" by fastforce
  note k1 = params_kept [OF p1, of E]
  have fin: "ap_hasFinished p1" using k1 assms(1) by (auto dest: ap_kept_finished)
  let ?q = "if keyExchange E p1 then ap_updateOtherCert E p1 else p1"
  have "ap_kept E p ?q" "ap_tasks ?q = ap_tasks p"
    using k1 updateOtherCert_kept [of E p1] by (auto intro: ap_kept_trans)
  then have "ap_turn E p (ap_onFinish ?q)" using ap_turn_kept onFinish_turn by blast
  moreover have "ap_turn E p (ap_reject E d p1)" by (rule ap_turn_kept [OF _ _ reject_turn]) (use k1 fin in auto)
  ultimately show ?thesis by (simp add: ap_onChannelAccept_def p1)
qed

subsection \<open>The invariant\<close>

text \<open>\<open>rs\<close>: the answers given.\<close>

definition ap_fine :: "('c, 'k) auth_env \<Rightarrow> 'k authentication option \<Rightarrow> error list \<Rightarrow> ('c, 'k) auth_proto \<Rightarrow> bool" where
  "ap_fine E au rs p \<longleftrightarrow> ap_hasFinished p \<and> ap_own (ap_auth p) \<and> dr_live (ap_reader p) \<and>
     (\<not> trusts E \<longrightarrow> ap_auth p = au) \<and>
     (if ap_done p
      then ap_timer p = None \<and> length rs + ap_ends p = 1 \<and>
        (NoError \<in> set rs \<or> Task_Finished NoError \<in> set (ap_tasks p) \<longleftrightarrow> ap_state p = FINISHED)
      else rs = [] \<and> ap_ends p = 0)"

lemma ap_ends_tasks: "ap_ends p = 0 \<longleftrightarrow> (\<forall>t \<in> set (ap_tasks p). t = Task_ChannelChange)"
  by (auto simp: ap_ends_def is_end_def filter_empty_conv)

lemma turn_fine:
  assumes "ap_turn E p q" and "ap_fine E au [] p" and "\<not> ap_done p"
  shows "ap_fine E au [] q"
proof -
  have p: "\<forall>t \<in> set (ap_tasks p). t = Task_ChannelChange" "filter is_end (ap_tasks p) = []"
    using assms(2,3) ap_ends_tasks [of p] by (auto simp: ap_fine_def ap_ends_def)
  consider "\<not> ap_done q" "ap_tasks q = ap_tasks p" | e where "ap_posted e p q"
    using assms(1) by (auto simp: ap_turn_def)
  then show ?thesis
  proof cases
    case 1
    with assms show ?thesis by (auto simp: ap_turn_def ap_fine_def ap_kept_def ap_ends_def)
  next
    case 2
    then have "NoError = e \<longleftrightarrow> ap_state q = FINISHED" by (auto simp: ap_posted_def)
    with 2 assms p show ?thesis by (auto simp: ap_turn_def ap_fine_def ap_kept_def ap_posted_def ap_ends_def)
  qed
qed

lemma change_turn:
  assumes "ap_hasFinished p" and "ap_own (ap_auth p)" and "dr_live (ap_reader p)" and "\<not> ap_done p"
    and rd: "reads_within (vt_read (ae_vt E))"
  shows "\<exists>r c q. dr_live r \<and> ap_onChannelChange E p = Done q \<and>
     (q = p\<lparr>ap_reader := r, ap_channel := c\<rparr> \<or> ap_turn E (p\<lparr>ap_reader := r, ap_channel := c\<rparr>) q)"
proof -
  obtain e r c where read: "dr_read (vt_read (ae_vt E)) (ap_reader p) (ap_channel p) = (e, r, c)" by (metis prod_cases3)
  note r = dr_read_keeps [OF read assms(3) rd]
  define p1 where "p1 = p\<lparr>ap_reader := r, ap_channel := c\<rparr>"
  have p1: "ap_hasFinished p1" "ap_own (ap_auth p1)" using assms by (simp_all add: p1_def)
  have st: "ap_state p \<notin> {AUTH_ERROR, TIMEOUT, FINISHED}" using assms(4) by (simp add: ap_done_def)
  consider "e = NotEnough" | "e \<noteq> NotEnough" "failed e" | h where "e = NoError" "dg_header (dr_datagram r) = Some h"
    using r by (cases "e = NoError") auto
  then have "\<exists>q. ap_onChannelChange E p = Done q \<and> (q = p1 \<or> ap_turn E p1 q)"
  proof cases
    case 1
    with read st show ?thesis by (simp add: ap_onChannelChange_def p1_def)
  next
    case 2
    with read st onError_turn [OF p1(1)] show ?thesis by (simp add: ap_onChannelChange_def p1_def)
  next
    case 3
    then have eq: "ap_onChannelChange E p = (case ap_state p of
         SENT_CREATE_CHANNEL \<Rightarrow> ap_onAccepted E (ae_dec E h) p1
       | WAIT_FOR_CREATE_CHANNEL \<Rightarrow> ap_onCreate E (ae_dec E h) p1
       | SENT_CREATE_CHANNEL_ACCEPT \<Rightarrow> Done (ap_onChannelAccept E (ae_dec E h) p1)
       | _ \<Rightarrow> Fault AssertFailed)"
      using read st unfolding ap_onChannelChange_def p1_def by (cases "ap_state p") (simp_all add: Let_def)
    show ?thesis
      using st accepted_turn [OF p1, of E "ae_dec E h"] create_turn [OF p1, of E "ae_dec E h"]
        channelAccept_turn [OF p1(1), of E "ae_dec E h"]
      by (cases "ap_state p") (auto simp: eq)
  qed
  with r show ?thesis unfolding p1_def by blast
qed

lemma change_fine:
  assumes "ap_fine E au rs p" and rd: "reads_within (vt_read (ae_vt E))"
  shows "\<exists>q. ap_onChannelChange E p = Done q \<and> ap_fine E au rs q"
proof (cases "ap_done p")
  case True
  with assms(1) show ?thesis by (simp add: ap_onChannelChange_def ap_done_def)
next
  case False
  with assms(1) have rs: "rs = []" by (simp add: ap_fine_def)
  obtain r c q where q: "dr_live r" "ap_onChannelChange E p = Done q"
    "q = p\<lparr>ap_reader := r, ap_channel := c\<rparr> \<or> ap_turn E (p\<lparr>ap_reader := r, ap_channel := c\<rparr>) q"
    using change_turn [of p E] assms False by (auto simp: ap_fine_def)
  have "ap_fine E au [] (p\<lparr>ap_reader := r, ap_channel := c\<rparr>)" "\<not> ap_done (p\<lparr>ap_reader := r, ap_channel := c\<rparr>)"
    using assms(1) False rs q(1) by (auto simp: ap_fine_def ap_done_def ap_ends_def)
  with q(2,3) turn_fine rs show ?thesis by blast
qed

lemma timeOut_fine:
  assumes "ap_fine E au rs p" and "ap_timer p \<noteq> None"
  shows "ap_fine E au rs (ap_onTimeOut p)"
proof -
  have nd: "\<not> ap_done p" using assms by (auto simp: ap_fine_def)
  then have st: "ap_state p \<noteq> FINISHED" by (simp add: ap_done_def)
  have "ap_turn E p (ap_onTimeOut p)"
    using st by (auto simp: ap_onTimeOut_def ap_turn_def ap_kept_def ap_posted_def ap_done_def ap_post_def)
  moreover have "rs = []" using nd assms(1) by (simp add: ap_fine_def)
  ultimately show ?thesis using turn_fine [OF _ _ nd] assms(1) by simp
qed

lemma run_fine:
  assumes "ap_fine E au rs p" and rd: "reads_within (vt_read (ae_vt E))"
  shows "\<exists>r q. ap_runTask E p = Done (r, q) \<and> ap_fine E au (rs @ (case r of None \<Rightarrow> [] | Some e \<Rightarrow> [e])) q"
proof (cases "ap_tasks p")
  case Nil
  with assms(1) show ?thesis by (simp add: ap_runTask_def)
next
  case (Cons t ts)
  let ?p = "p\<lparr>ap_tasks := ts\<rparr>"
  show ?thesis
  proof (cases t)
    case Task_ChannelChange
    have "ap_fine E au rs ?p"
      using assms(1) Cons Task_ChannelChange by (auto simp: ap_fine_def ap_ends_def ap_done_def split: if_splits)
    from change_fine [OF this rd] Cons Task_ChannelChange show ?thesis by (auto simp: ap_runTask_def)
  next
    case (Task_Error e)
    then have ends: "filter is_end ts = []" "rs = []" "ap_done p"
      using assms(1) Cons by (auto simp: ap_fine_def ap_ends_def split: if_splits)
    then have "Task_Finished NoError \<notin> set ts" by (auto simp: filter_empty_conv)
    with assms(1) Cons Task_Error ends show ?thesis
      by (auto simp: ap_runTask_def ap_fine_def ap_onError_def Let_def ap_post_def ap_done_def ap_ends_def)
  next
    case (Task_Finished e)
    then have ends: "filter is_end ts = []" "rs = []" "ap_done p"
      using assms(1) Cons by (auto simp: ap_fine_def ap_ends_def split: if_splits)
    then have "Task_Finished NoError \<notin> set ts" by (auto simp: filter_empty_conv)
    with assms(1) Cons Task_Finished ends show ?thesis
      by (auto simp: ap_runTask_def ap_fine_def ap_done_def ap_ends_def)
  qed
qed

lemma event_fine:
  assumes "ap_fine E au rs p" and rd: "reads_within (vt_read (ae_vt E))"
  shows "\<exists>r q. auth_event E ev p = Done (r, q) \<and> ap_fine E au (rs @ (case r of None \<Rightarrow> [] | Some e \<Rightarrow> [e])) q"
proof (cases ev)
  case Auth_Run
  with run_fine [OF assms] show ?thesis by (simp add: auth_event_def)
next
  case Auth_TimeOut
  with timeOut_fine [OF assms(1)] assms(1) show ?thesis by (auto simp: auth_event_def)
next
  case (Auth_Stream c)
  have "ap_fine E au rs (p\<lparr>ap_channel := c\<rparr>)" using assms(1) by (auto simp: ap_fine_def ap_done_def ap_ends_def)
  from this change_fine [OF this rd] Auth_Stream show ?thesis by (auto simp: auth_event_def Let_def)
qed

lemma ap_run_fine:
  assumes "ap_fine E au rs p" and rd: "reads_within (vt_read (ae_vt E))"
  shows "\<exists>rs' q. ap_run E evs p = Done (rs', q) \<and> ap_fine E au (rs @ rs') q"
  using assms(1)
proof (induction evs arbitrary: rs p)
  case (Cons ev evs)
  obtain r q where ev: "auth_event E ev p = Done (r, q)" "ap_fine E au (rs @ (case r of None \<Rightarrow> [] | Some e \<Rightarrow> [e])) q"
    using event_fine [OF Cons.prems rd] by blast
  from Cons.IH [OF ev(2)] ev(1) show ?case by (cases r) auto
qed simp

lemma begin_fine:
  assumes "ap_own au" and "dr_live (ap_reader p)" and "ap_ends p = 0"
  shows "\<exists>q. ap_begin E active other ms au p = Done q \<and> ap_fine E au [] q"
proof (cases active)
  case False
  have "Task_Finished NoError \<notin> set (ap_tasks p)" using assms(3) by (auto simp: ap_ends_tasks)
  with False assms show ?thesis
    by (auto simp: ap_begin_def ap_passive_def ap_fine_def ap_done_def ap_post_def ap_ends_def)
next
  case True
  let ?p = "p\<lparr>ap_auth := au, ap_hasFinished := True\<rparr>"
  let ?p1 = "?p\<lparr>ap_timer := None, ap_other := other, ap_hooked := True\<rparr>"
  have "Task_Finished NoError \<notin> set (ap_tasks p)" using assms(3) by (auto simp: ap_ends_tasks)
  then have sent: "ap_fine E au [] (if failed e then ap_post (Task_Error ConnectionError) (p2\<lparr>ap_state := AUTH_ERROR\<rparr>)
      else p2\<lparr>ap_state := SENT_CREATE_CHANNEL, ap_timer := t, ap_wasActive := True\<rparr>)"
    if "ap_send E m ?p1 = (e, p2)" for m e p2 t
    using that assms by (auto simp: ap_send_def ap_fine_def ap_done_def ap_post_def ap_ends_def split: prod.splits)
  have "ap_fine E au [] (ap_connect_with E other ms fp ?p)" for fp
    using sent by (simp add: ap_connect_with_def Let_def split: prod.split)
  moreover obtain q where "ap_connect E other ms ?p = Done q" using ap_connect_Done by blast
  ultimately show ?thesis
    using True by (auto simp: ap_begin_def ap_connect_def ap_knownFp_def split: if_splits option.splits)
qed

text \<open>What an owner of such an end has to know: no event makes it fault.\<close>

definition ap_solid :: "('c, 'k) auth_proto \<Rightarrow> bool" where
  "ap_solid p \<longleftrightarrow> ap_hasFinished p \<and> ap_own (ap_auth p) \<and> dr_live (ap_reader p)"

lemma kept_solid: "ap_kept E p q \<Longrightarrow> ap_solid p \<Longrightarrow> ap_solid q \<and> (ap_auth p = None \<longrightarrow> ap_auth q = None)"
  by (simp add: ap_kept_def ap_solid_def)

lemma change_solid:
  assumes "ap_solid p" and rd: "reads_within (vt_read (ae_vt E))"
  shows "\<exists>q. ap_onChannelChange E p = Done q \<and> ap_solid q \<and> (ap_auth p = None \<longrightarrow> ap_auth q = None)"
proof (cases "ap_done p")
  case True
  with assms(1) show ?thesis by (simp add: ap_onChannelChange_def ap_done_def)
next
  case False
  obtain r c q where q: "dr_live r" "ap_onChannelChange E p = Done q"
    "q = p\<lparr>ap_reader := r, ap_channel := c\<rparr> \<or> ap_turn E (p\<lparr>ap_reader := r, ap_channel := c\<rparr>) q"
    using change_turn [OF _ _ _ False rd] assms(1) by (auto simp: ap_solid_def)
  have "ap_solid (p\<lparr>ap_reader := r, ap_channel := c\<rparr>)" using assms(1) q(1) by (simp add: ap_solid_def)
  with q(2,3) kept_solid [of E "p\<lparr>ap_reader := r, ap_channel := c\<rparr>" q] show ?thesis by (auto simp: ap_turn_def)
qed

lemma event_solid:
  assumes "ap_solid p" and rd: "reads_within (vt_read (ae_vt E))"
  shows "\<exists>r q. auth_event E ev p = Done (r, q) \<and> ap_solid q \<and> (ap_auth p = None \<longrightarrow> ap_auth q = None)"
proof (cases ev)
  case Auth_Run
  show ?thesis
  proof (cases "ap_tasks p")
    case Nil
    with Auth_Run assms(1) show ?thesis by (simp add: auth_event_def ap_runTask_def)
  next
    case (Cons t ts)
    let ?p = "p\<lparr>ap_tasks := ts\<rparr>"
    have solid: "ap_solid ?p" using assms(1) by (simp add: ap_solid_def)
    have "ap_solid (ap_onError E e ?p) \<and> ap_auth (ap_onError E e ?p) = ap_auth p" for e
      using solid by (simp add: ap_onError_def Let_def ap_solid_def ap_post_def)
    with Auth_Run Cons change_solid [OF solid rd] solid show ?thesis
      by (cases t) (auto simp: auth_event_def ap_runTask_def)
  qed
next
  case Auth_TimeOut
  with assms(1) show ?thesis by (simp add: auth_event_def ap_onTimeOut_def ap_post_def ap_solid_def)
next
  case (Auth_Stream c)
  have "ap_solid (p\<lparr>ap_channel := c\<rparr>)" using assms(1) by (simp add: ap_solid_def)
  from this change_solid [OF this rd] Auth_Stream show ?thesis by (auto simp: auth_event_def Let_def)
qed

text \<open>
  C34. An end of the handshake survives every peer and answers once.  It is started by \<open>connect\<close> or
  \<open>passive\<close>, without an authentication or with one whose own certificate is there, on a channel
  that reads no more than it is asked for.  Then, whatever the channel gives, whatever
  the received headers decode to, and in whatever order the posted calls, the timer and the
  changes of the channel come: nothing dereferences null or fails an assertion; as long as the
  state is not final, the finished delegate was not called and no such call is posted, and in
  a final state exactly one was made or is posted; it reports success exactly in the state
  FINISHED; and over channels that are not authenticated no certificate is changed.
\<close>

theorem auth_answers_once:
  assumes "reads_within (vt_read (ae_vt E))" and "\<And>a. au = Some a \<Longrightarrow> au_certificate a \<noteq> None"
  shows "\<exists>p rs q. ap_begin E active other ms au (ap_new st ch me) = Done p \<and> ap_run E evs p = Done (rs, q) \<and>
     length rs + ap_ends q = (if ap_state q \<in> {AUTH_ERROR, TIMEOUT, FINISHED} then 1 else 0) \<and>
     (NoError \<in> set rs \<or> Task_Finished NoError \<in> set (ap_tasks q) \<longleftrightarrow> ap_state q = FINISHED) \<and>
     ((\<forall>c. \<not> ci_authenticated (vt_info (ae_vt E) c)) \<longrightarrow> ap_auth q = au)"
proof -
  have own: "ap_own au" using assms(2) by (simp add: ap_own_def)
  have "dr_live (ap_reader (ap_new st ch me))" "ap_ends (ap_new st ch me) = 0"
    by (simp_all add: ap_new_def ap_init_def dr_init_def dr_clear_def dr_live_def dr_ok_def ap_ends_def)
  from begin_fine [OF own this] obtain p where p: "ap_begin E active other ms au (ap_new st ch me) = Done p"
    "ap_fine E au [] p" by blast
  obtain rs q where q: "ap_run E evs p = Done (rs, q)" "ap_fine E au rs q"
    using ap_run_fine [OF p(2) assms(1), of evs] by auto
  have "length rs + ap_ends q = (if ap_state q \<in> {AUTH_ERROR, TIMEOUT, FINISHED} then 1 else 0)"
    using q(2) by (auto simp: ap_fine_def ap_done_def split: if_splits)
  moreover have "NoError \<in> set rs \<or> Task_Finished NoError \<in> set (ap_tasks q) \<longleftrightarrow> ap_state q = FINISHED"
  proof (cases "ap_done q")
    case False
    then have "rs = []" "Task_Finished NoError \<notin> set (ap_tasks q)" "ap_state q \<noteq> FINISHED"
      using q(2) ap_ends_tasks [of q] by (auto simp: ap_fine_def ap_done_def)
    then show ?thesis by simp
  qed (use q(2) in \<open>simp add: ap_fine_def\<close>)
  moreover have "(\<forall>c. \<not> ci_authenticated (vt_info (ae_vt E) c)) \<longrightarrow> ap_auth q = au"
    using q(2) by (auto simp: ap_fine_def trusts_def)
  ultimately show ?thesis using p(1) q(1) by blast
qed

lemma auth_answers_once_witness:
  "\<exists>p rs q. ap_begin demo_auth_env True ''b'' 1000 None (ap_new TIMEOUT \<lparr>ln_in = [], ln_out = [], ln_trusted = True\<rparr> ''a'') = Done p \<and>
     ap_run demo_auth_env [Auth_Run, Auth_Stream \<lparr>ln_in = ''xyz'', ln_out = [], ln_trusted = True\<rparr>, Auth_TimeOut, Auth_Run] p = Done (rs, q) \<and>
     length rs + ap_ends q = (if ap_state q \<in> {AUTH_ERROR, TIMEOUT, FINISHED} then 1 else 0)"
proof -
  have "reads_within (vt_read (ae_vt demo_auth_env))"
    by (auto simp: reads_within_def demo_auth_env_def link_vt_def)
  from auth_answers_once [OF this, of None True "''b''" 1000 TIMEOUT "\<lparr>ln_in = [], ln_out = [], ln_trusted = True\<rparr>" "''a''"
      "[Auth_Run, Auth_Stream \<lparr>ln_in = ''xyz'', ln_out = [], ln_trusted = True\<rparr>, Auth_TimeOut, Auth_Run]"]
  show ?thesis by fast
qed

end
