(* ===== verification/Sf_TCPSafe.thy ===== *)
theory Sf_TCPSafe
  imports Sf_TCPProps Sf_AuthEnd
begin

text \<open>
  The connector of \<open>libschnee/schnee/p2p/channels/TCPChannelConnector.cpp\<close> stays in defined behaviour:
  whatever comes next in a run, a posted call, an answer, a message, an event of an
  authentication or a timer, its handler returns.
\<close>

subsection \<open>The authentications of the operations\<close>

text \<open>The \<open>AuthProtocol\<close> of an operation is never given an \<open>Authentication\<close>: no keys are exchanged.\<close>

definition safe_data :: "('c, 'k) tcp_data \<Rightarrow> bool" where
  "safe_data d \<longleftrightarrow> (\<forall>p. authp_of d = Some p \<longrightarrow> ap_solid p \<and> ap_auth p = None)"

definition tn_safe :: "('c, 'k) tcp_connector \<Rightarrow> bool" where
  "tn_safe s \<longleftrightarrow> tp_own (tn_protocol s) \<noteq> None \<and>
     (\<forall>i op. map_of (ab_map (tn_ops s)) i = Some op \<longrightarrow> safe_data (op_data op))"

lemma tn_safe_cong:
  "tn_safe s \<Longrightarrow> tn_ops s' = tn_ops s \<Longrightarrow> tp_own (tn_protocol s') = tp_own (tn_protocol s) \<Longrightarrow> tn_safe s'"
  by (simp add: tn_safe_def)

lemma safe_data_simps [simp]:
  "safe_data (Create (c\<lparr>tc_socket := x\<rparr>)) = safe_data (Create c)"
  "safe_data (Create (c\<lparr>tc_next := n\<rparr>)) = safe_data (Create c)"
  "safe_data (Create (c\<lparr>tc_tls := x\<rparr>)) = safe_data (Create c)"
  "safe_data (Create (c\<lparr>tc_details := d\<rparr>)) = safe_data (Create c)"
  "safe_data (Create (c\<lparr>tc_failedAuth := b\<rparr>)) = safe_data (Create c)"
  "safe_data (Create (c\<lparr>tc_failedEnc := b\<rparr>)) = safe_data (Create c)"
  "safe_data (Create (new_create target cb))" "safe_data (Accept (new_accept socket tls))"
  by (simp_all add: safe_data_def new_create_def new_accept_def)

lemma tn_add_safe: "tn_safe s \<Longrightarrow> safe_data (op_data op) \<Longrightarrow> tn_safe (tn_add op s)"
  by (auto simp: tn_safe_def tn_add_def addAsyncOp_def Let_def)

lemma tn_simple_safe [simp]:
  "tn_safe (tn_notify cb e s) = tn_safe s" "tn_safe (tn_post c e s) = tn_safe s" "tn_safe (tn_await c s) = tn_safe s"
  "tn_safe (s\<lparr>tn_objects := n\<rparr>) = tn_safe s" "tn_safe (s\<lparr>tn_connects := x\<rparr>) = tn_safe s"
  "tn_safe (s\<lparr>tn_created := y\<rparr>) = tn_safe s" "tn_safe (s\<lparr>tn_alloc := a\<rparr>) = tn_safe s"
  "tn_safe (s\<lparr>tn_tasks := ts\<rparr>) = tn_safe s" "tn_safe (s\<lparr>tn_pending := ps\<rparr>) = tn_safe s"
  by (simp_all add: tn_safe_def tn_post_def tn_await_def)

lemma connect_safe:
  assumes "ap_connect E other ms p = Done q" and "ap_solid p" and "ap_auth p = None"
  shows "ap_solid q \<and> ap_auth q = None"
  using assms
  by (auto simp: ap_connect_def ap_connect_with_def keyExchange_def Let_def ap_send_def ap_solid_def ap_post_def
      split: prod.splits if_splits)

lemma passive_safe:
  "ap_solid p \<Longrightarrow> ap_auth p = None \<Longrightarrow> ap_solid (ap_passive E other ms p) \<and> ap_auth (ap_passive E other ms p) = None"
  by (simp add: ap_passive_def ap_post_def ap_solid_def)

lemma auth_init_safe:
  assumes "\<forall>q. p = Some q \<longrightarrow> ap_solid q \<and> ap_auth q = None"
  shows "ap_solid ((auth_init E tls me p)\<lparr>ap_hasFinished := True\<rparr>) \<and> ap_auth (auth_init E tls me p) = None"
proof (cases p)
  case None
  then show ?thesis
    by (simp add: auth_init_def ap_new_def ap_init_def ap_solid_def ap_own_def dr_init_def dr_clear_def dr_live_def dr_ok_def)
next
  case (Some q)
  with assms show ?thesis by (simp add: auth_init_def ap_init_def ap_solid_def ap_own_def)
qed

subsection \<open>Every handler keeps them\<close>

lemma startConnecting_safe:
  assumes "tn_safe s" and "safe_data (Create c)" and "op_data op = Create c"
  shows "tn_safe (startConnecting E op c s)"
proof -
  obtain e p where r: "requestDetails (te_now E) (te_send E) (tc_target c)
      (Some (aOpMemFun K_onTcpConnectResult (op\<lparr>op_state := create_code TC_AwaitTcpInfo\<rparr>)))
      (lastingTimeMs (te_now E) (1 / 2) op) (tn_protocol s) = (e, p)" by fastforce
  then have "tp_own p = tp_own (tn_protocol s)"
    by (auto simp: requestDetails_def Let_def split: prod.splits if_splits)
  with assms(1) have "tn_safe (s\<lparr>tn_protocol := p\<rparr>)" by (simp add: tn_safe_def)
  then show ?thesis
    using assms(2,3) r by (simp add: startConnecting_def Let_def tn_add_safe)
qed

lemma connectNext_safe:
  assumes "connectNext E op c s = Done s'" and "tn_safe s" and "safe_data (Create c)"
  shows "tn_safe s'"
  using assms by (auto simp: connectNext_def Let_def intro!: tn_add_safe split: if_splits)

lemma onConnect_safe:
  assumes "onConnect E op c e s = Done s'" and "tn_safe s" and "safe_data (Create c)"
  shows "tn_safe s'"
  using assms by (auto simp: onConnect_def Let_def intro!: tn_add_safe dest: connectNext_safe split: if_splits)

lemma onTlsHandshake_safe:
  assumes "onTlsHandshake E op c e s = Done s'" and "tn_safe s" and "safe_data (Create c)"
  shows "tn_safe s'"
proof (cases "failed e")
  case True
  with assms show ?thesis by (auto simp: onTlsHandshake_def Let_def dest: connectNext_safe)
next
  case False
  have "tn_safe (tn_add (op'\<lparr>op_data := Create (c\<lparr>tc_authp := Some p, tc_finished := f\<rparr>)\<rparr>) s)"
    if "ap_connect A t ms ((auth_init E tls me (tc_authp c))\<lparr>ap_hasFinished := True\<rparr>) = Done p" for A t ms tls me p op' f
    using connect_safe [OF that] auth_init_safe [of "tc_authp c" E tls me] assms(2,3)
    by (auto intro!: tn_add_safe simp: safe_data_def)
  with False assms show ?thesis
    by (auto simp: onTlsHandshake_def Let_def outcome_bind_Done dest: connectNext_safe split: option.splits if_splits)
qed

lemma onAuthProtocolFinished_safe:
  assumes "onAuthProtocolFinished E op c e s = Done s'" and "tn_safe s" and "safe_data (Create c)"
  shows "tn_safe s'"
  using assms
  by (auto simp: onAuthProtocolFinished_def Let_def dest: connectNext_safe split: option.splits if_splits)

lemma onAcceptTlsHandshake_safe:
  assumes "onAcceptTlsHandshake E op a e s = Done s'" and "tn_safe s" and "safe_data (Accept a)"
  shows "tn_safe s'"
proof -
  have "tn_safe (tn_add (op'\<lparr>op_data := Accept (x\<lparr>ta_authp := Some (ap_passive A h ms
      ((auth_init E tls me (ta_authp a))\<lparr>ap_hasFinished := True\<rparr>)), ta_finished := f\<rparr>)\<rparr>) s)" for A h ms tls me op' f x
    using passive_safe [of _ A h ms] auth_init_safe [of "ta_authp a" E tls me] assms(2,3)
    by (auto intro!: tn_add_safe simp: safe_data_def)
  with assms show ?thesis
    by (auto simp: onAcceptTlsHandshake_def Let_def split: option.splits if_splits)
qed

lemma onAcceptAuthFinished_safe: "onAcceptAuthFinished op a e s = Done s' \<Longrightarrow> tn_safe s \<Longrightarrow> tn_safe s'"
  by (auto simp: onAcceptAuthFinished_def split: option.splits if_splits)

lemma handler_safe:
  assumes "tn_handler E k op e d s = Done s'" and "tn_safe s" and "safe_data (op_data op)"
  shows "tn_safe s'"
proof (cases "op_data op")
  case (Create c)
  with assms show ?thesis
    by (cases k)
      (auto simp: tn_handler_def onTcpConnectResult_def Let_def startConnecting_safe tn_add_safe
        intro: connectNext_safe onConnect_safe onTlsHandshake_safe onAuthProtocolFinished_safe split: if_splits)
next
  case (Accept a)
  with assms show ?thesis
    by (cases k) (auto simp: tn_handler_def intro: onAcceptTlsHandshake_safe onAcceptAuthFinished_safe)
qed

lemma execute_safe:
  assumes "executeOpCheck E cb e d s = Done s'" and "tn_safe s"
  shows "tn_safe s'"
proof -
  obtain x b where get: "getReadyAsyncOpInState (cb_id cb) (cb_type cb) (cb_state cb) (tn_ops s) = (x, b)" by fastforce
  then have b: "tn_safe (s\<lparr>tn_ops := b\<rparr>)" and op: "\<And>op. x = Some op \<Longrightarrow> safe_data (op_data op)"
    using assms(2)
    by (auto simp: getReadyAsyncOpInState_def getReadyAsyncOpOf_def getReadyAsyncOp_def ab_remove_def tn_safe_def
        split: option.splits if_splits)
  show ?thesis
  proof (cases x)
    case None
    with assms(1) get b show ?thesis by (simp add: executeOpCheck_def)
  next
    case (Some op)
    with assms(1) get have "tn_handler E (cb_kind cb) op e d (s\<lparr>tn_ops := b\<rparr>) = Done s'" by (simp add: executeOpCheck_def)
    from handler_safe [OF this b op [OF Some]] show ?thesis .
  qed
qed

lemma runCalls_safe: "tn_runCalls E calls s = Done s' \<Longrightarrow> tn_safe s \<Longrightarrow> tn_safe s'"
proof (induction calls arbitrary: s)
  case (Cons call calls)
  obtain cb e d where call: "call = (cb, e, d)" by (cases call)
  with Cons.prems(1) obtain t where "executeOpCheck E cb e d s = Done t" "tn_runCalls E calls t = Done s'"
    by (auto simp: outcome_bind_Done)
  with Cons.IH execute_safe Cons.prems(2) show ?case by blast
qed simp

lemma protocolDo_safe:
  assumes "tn_protocolDo E p s = Done s'" and "tn_safe s" and "tp_own p \<noteq> None"
  shows "tn_safe s'"
proof (rule runCalls_safe)
  show "tn_runCalls E (tp_calls p) (s\<lparr>tn_protocol := p\<lparr>tp_calls := []\<rparr>\<rparr>) = Done s'"
    using assms(1) by (simp add: tn_protocolDo_def)
  show "tn_safe (s\<lparr>tn_protocol := p\<lparr>tp_calls := []\<rparr>\<rparr>)" using assms(2,3) by (simp add: tn_safe_def)
qed

lemma reply_own: "tp_own (tp_onReply sender i d p) = tp_own p"
  by (auto simp: tp_onReply_def split: prod.split option.split)

lemma protocol_timer_own:
  assumes "tp_onTimer ct p = Some p'" and "ab_ok (tp_ops p)"
  shows "tp_own p' = tp_own p"
proof -
  let ?P = "\<lambda>q :: 'a tcp_protocol. ab_ok (tp_ops q) \<and> tp_own q = tp_own p"
  have "?P p'"
  proof (rule protocol.timer_keeps [OF assms(1) [unfolded tp_onTimer_def], where P = ?P])
    show "?P (tp_onCancel TimeOut op (tp_put_ops (ab_remove op (op_id op) (tp_ops r)) r))"
      if "?P r" "map_of (ab_map (tp_ops r)) (op_id op) = Some op" for r op
      using that ab_remove_ok by (auto simp: tp_onCancel_def tp_put_ops_def split: option.split)
  qed (use assms(2) in \<open>simp_all add: tp_put_ops_def\<close>)
  then show ?thesis by simp
qed

lemma authEvent_safe:
  assumes "tn_authEvent E i ev s = Done s'" and s: "tn_safe s" and rd: "reads_within (vt_read (ae_vt (te_authEnv E)))"
  shows "tn_safe s'"
proof (cases "map_of (ab_map (tn_ops s)) i")
  case None
  with assms show ?thesis by (simp add: tn_authEvent_def)
next
  case (Some op)
  then have op: "safe_data (op_data op)" using s by (auto simp: tn_safe_def)
  show ?thesis
  proof (cases "authp_of (op_data op)")
    case None
    with Some assms show ?thesis by (simp add: tn_authEvent_def)
  next
    case p: (Some p)
    with op have "ap_solid p" "ap_auth p = None" by (simp_all add: safe_data_def)
    with event_solid [OF _ rd, of p ev] obtain r q where q: "auth_event (te_authEnv E) ev p = Done (r, q)"
      "ap_solid q" "ap_auth q = None" by auto
    let ?s = "s\<lparr>tn_ops := ab_modify i (set_authp q) (tn_ops s)\<rparr>"
    have "authp_of (set_authp q d) = Some q" for d :: "('a, 'b) tcp_data" by (cases d) simp_all
    with q(2,3) have set: "safe_data (set_authp q d)" for d :: "('a, 'b) tcp_data" by (simp add: safe_data_def)
    have "tn_safe ?s"
      using s set by (auto simp: tn_safe_def ab_modify_def Let_def map_of_map split: if_splits)
    with assms(1) Some p q(1) show ?thesis
      by (auto simp: tn_authEvent_def Let_def intro: execute_safe split: option.splits)
  qed
qed

lemma authEvent_returns:
  assumes inv: "tcp_inv E {#} s" and s: "tn_safe s" and rd: "reads_within (vt_read (ae_vt (te_authEnv E)))"
  shows "\<exists>s'. tn_authEvent E i ev s = Done s'"
proof -
  have "False" if "map_of (ab_map (tn_ops s)) i = Some op" "authp_of (op_data op) = Some p"
      "auth_event (te_authEnv E) ev p = Fault f" for f p op
    using s that event_solid [OF _ rd, of p ev] by (auto simp: tn_safe_def safe_data_def)
  then show ?thesis using authEvent_good [OF inv HOL.refl, of i ev] by (auto simp: good_def)
qed

lemma timer_safe:
  assumes "tn_onTimer ct s = Some s'" and "ab_ok (tn_ops s)" and "tn_safe s"
  shows "tn_safe s'"
proof -
  let ?P = "\<lambda>r :: ('a, 'b) tcp_connector. ab_ok (tn_ops r) \<and> tn_safe r"
  have "?P s'"
  proof (rule connector.timer_keeps [OF assms(1) [unfolded tn_onTimer_def], where P = ?P])
    show "?P (tn_onCancel TimeOut op (tn_put_ops (ab_remove op (op_id op) (tn_ops r)) r))"
      if "?P r" "map_of (ab_map (tn_ops r)) (op_id op) = Some op" for r op
    proof -
      have "tn_safe (tn_put_ops (ab_remove op (op_id op) (tn_ops r)) r)"
        using that(1) by (auto simp: tn_safe_def tn_put_ops_def ab_remove_def split: if_splits)
      then show ?thesis using that ab_remove_ok by (auto simp: tn_onCancel_def tn_put_ops_def split: tcp_data.split)
    qed
  qed (use assms(2,3) in \<open>auto simp: tn_put_ops_def tn_safe_def\<close>)
  then show ?thesis by simp
qed

subsection \<open>Runs\<close>

lemma step_safe:
  assumes "tcp_step E s new s'" and inv: "tcp_inv E {#} s" and s: "tn_safe s"
    and rd: "reads_within (vt_read (ae_vt (te_authEnv E)))"
  shows "tn_safe s'"
  using assms(1)
proof cases
  case (create now target cb ms e)
  with s show ?thesis
    by (auto simp: tn_createChannel_def Let_def genFreeId_def new_op_def tn_safe_def tn_add_def addAsyncOp_def tn_post_def
        split: if_splits)
next
  case (task cb e ts now)
  with s show ?thesis by (auto intro: execute_safe)
next
  case (answer xs cb ys now e)
  with s show ?thesis by (auto intro: execute_safe)
next
  case (rpc now sender m)
  show ?thesis
  proof (cases m)
    case (RequestConnectDetails i)
    with rpc s show ?thesis by (auto simp: tn_onRpc_def outcome_bind_Done tp_onRequest_def tn_safe_def split: option.splits)
  next
    case (ConnectDetailsReply i d)
    have "tp_own (tp_onReply sender i d (tn_protocol s)) \<noteq> None" using s by (simp add: reply_own tn_safe_def)
    with rpc s ConnectDetailsReply show ?thesis by (auto simp: tn_onRpc_def intro: protocolDo_safe)
  qed
next
  case (protocol_timer ct p now)
  have "ab_ok (tp_ops (tn_protocol s))" using inv by (simp add: tcp_inv_def tcp_core_def tp_ok_def)
  with protocol_timer_own [OF protocol_timer(2)] s have "tp_own p \<noteq> None" by (simp add: tn_safe_def)
  with protocolDo_safe protocol_timer(3) s show ?thesis by blast
next
  case (connection now)
  with s show ?thesis
    by (auto simp: onNewConnection_def Let_def genFreeId_def new_op_def tn_safe_def tn_add_def addAsyncOp_def tn_await_def
        split: if_splits)
next
  case (auth now i ev)
  with authEvent_safe [of "env_at now E" i ev s s'] s rd show ?thesis by (simp add: env_at_def)
next
  case (timer ct)
  have "ab_ok (tn_ops s)" using inv by (simp add: tcp_inv_def)
  from timer_safe [OF timer(2) this s] show ?thesis .
qed

lemma run_safe:
  assumes "tcp_run E s cbs s'" and "tcp_inv E {#} s" and "tn_safe s"
    and "reads_within (vt_read (ae_vt (te_authEnv E)))"
  shows "tn_safe s'"
  using assms
proof induction
  case (step s cbs s' new s'')
  have "tcp_inv E {#} s'" using run_good [OF step.hyps(1) step.prems(1)] by simp
  with step step_safe show ?case by blast
qed

lemma good_returns: "good E X n r \<Longrightarrow> \<exists>t. r = Done t"
  by (auto simp: good_def)

lemma ready_safe: "tn_ready s \<Longrightarrow> tn_safe s"
  by (auto simp: tn_ready_def tn_safe_def tn_setTimeOut_def tn_setAuthentication_def tn_setHostId_def tn_start_def
      tn_new_def Let_def setOwnDetails_def ab_init_def split: option.splits)

text \<open>
  C27. Nothing makes the connector fault.  In every state that a connector can get to after it was
  started, over streams that read no more than they are asked for: the next posted call, any
  answer of a socket or TLS channel, any message of any peer, the requests for connection
  details included, any event of the authentication of any operation (a call it has posted, its
  timer, a change of its stream), the timer of the protocol with the callbacks it calls, and the timer of
  the connector all end with a new state: no wrong cast, no null pointer, no address read past the
  end, no failed assertion, no loop without end.  (The owner's call and an incoming connection cannot
  fault by their definition.)
\<close>

theorem tcp_never_faults:
  assumes "tn_ready s" and "tcp_run E s cbs s'" and "reads_within (vt_read (ae_vt (te_authEnv E)))"
  shows "(\<forall>now cb e ts. tn_tasks s' = (cb, e) # ts \<longrightarrow>
       (\<exists>t. executeOpCheck (env_at now E) cb e new_details (s'\<lparr>tn_tasks := ts\<rparr>) = Done t)) \<and>
    (\<forall>now xs cb ys e. tn_pending s' = xs @ cb # ys \<longrightarrow>
       (\<exists>t. executeOpCheck (env_at now E) cb e new_details (s'\<lparr>tn_pending := xs @ ys\<rparr>) = Done t)) \<and>
    (\<forall>now sender m. \<exists>t. tn_onRpc (env_at now E) sender m s' = Done t) \<and>
    (\<forall>now i ev. \<exists>t. tn_authEvent (env_at now E) i ev s' = Done t) \<and>
    (\<forall>now ct. \<exists>p t. tp_onTimer ct (tn_protocol s') = Some p \<and> tn_protocolDo (env_at now E) p s' = Done t) \<and>
    (\<forall>ct. \<exists>t. tn_onTimer ct s' = Some t)"
proof -
  have inv: "tcp_inv E {#} s'" using run_good [OF assms(2) ready_inv(1) [OF assms(1)]] by simp
  have s: "tn_safe s'" using run_safe [OF assms(2) ready_inv(1) [OF assms(1)] ready_safe [OF assms(1)] assms(3)] .
  have inv': "tcp_inv (env_at now E) {#} s'" for now using inv by simp
  have rd: "reads_within (vt_read (ae_vt (te_authEnv (env_at now E))))" for now using assms(3) by (simp add: env_at_def)
  have ok: "ab_ok (tn_ops s')" "tp_ok (tn_protocol s')" "tp_calls (tn_protocol s') = []"
    using inv by (simp_all add: tcp_inv_def tcp_core_def)
  have own: "tp_own (tn_protocol s') \<noteq> None" using s by (simp add: tn_safe_def)
  have "\<exists>t. executeOpCheck (env_at now E) cb e new_details (s'\<lparr>tn_tasks := ts\<rparr>) = Done t"
    if "tn_tasks s' = (cb, e) # ts" for now cb e ts
    by (rule good_returns [OF task_good [OF inv' that]])
  moreover have "\<exists>t. executeOpCheck (env_at now E) cb e new_details (s'\<lparr>tn_pending := xs @ ys\<rparr>) = Done t"
    if "tn_pending s' = xs @ cb # ys" for now xs cb ys e
    by (rule good_returns [OF answer_good [OF inv' that]])
  moreover have "\<exists>t. tn_onRpc (env_at now E) sender m s' = Done t" for now sender m
    by (rule good_returns [OF rpc_good [OF inv']]) (use own in simp)
  moreover have "\<exists>t. tn_authEvent (env_at now E) i ev s' = Done t" for now i ev
    using authEvent_returns [OF inv' s rd] .
  moreover have "\<exists>p t. tp_onTimer ct (tn_protocol s') = Some p \<and> tn_protocolDo (env_at now E) p s' = Done t" for now ct
  proof -
    obtain p where p: "tp_onTimer ct (tn_protocol s') = Some p"
      using protocol.timer_expires [of "tn_protocol s'" ct] ok(2) by (auto simp: tp_onTimer_def tp_ok_def)
    from good_returns [OF protocolDo_good [OF inv' protocol_timer_cbs [OF ok(2,3) p]]] p show ?thesis by blast
  qed
  moreover have "\<exists>t. tn_onTimer ct s' = Some t" for ct
    using connector.timer_expires [of s' ct] ok(1) by (auto simp: tn_onTimer_def)
  ultimately show ?thesis by blast
qed

lemma tcp_never_faults_witness:
  "\<exists>t. tn_onRpc (env_at 9 demo_tcp_env) ''b'' (RequestConnectDetails 4) demo_tcp5 = Done t"
proof -
  have "reads_within (vt_read (ae_vt (te_authEnv demo_tcp_env)))" by (simp add: reads_within_def demo_tcp_env_def)
  from tcp_never_faults [OF demo_run(1,2) this] show ?thesis by blast
qed

end
