(* ===== verification/Sf_RxPrint.thy ===== *)
theory Sf_RxPrint
  imports Sf_XML
begin

text \<open>
  How rapidxml prints a tree (\<open>external/rapidxml/rapidxml_print.hpp\<close>, with the default flags), and the
  two classes that wrap it for BOSH: \<open>im/xmpp/bosh_impl/BoshNodeBuilder\<close> and \<open>BoshNodeParser\<close>.
\<close>

subsection \<open>Printing\<close>

fun expand_char :: "char option \<Rightarrow> char \<Rightarrow> string" where
  "expand_char noexpand c =
     (if noexpand = Some c then [c]
      else if c = CHR ''<'' then ''&lt;''
      else if c = CHR ''>'' then ''&gt;''
      else if c = CHR 0x27 then ''&apos;''
      else if c = CHR 0x22 then ''&quot;''
      else if c = CHR ''&'' then ''&amp;''
      else [c])"

definition copy_and_expand_chars :: "char option \<Rightarrow> string \<Rightarrow> string" where
  "copy_and_expand_chars noexpand s = concat (map (expand_char noexpand) s)"

definition rx_attribute :: "string \<times> string \<Rightarrow> string" where
  "rx_attribute a =
     '' '' @ fst a @ ''='' @
     (if CHR 0x22 \<in> set (snd a)
      then [CHR 0x27] @ copy_and_expand_chars (Some (CHR 0x22)) (snd a) @ [CHR 0x27]
      else [CHR 0x22] @ copy_and_expand_chars (Some (CHR 0x27)) (snd a) @ [CHR 0x22])"

definition printAttributes :: "(string \<times> string) list \<Rightarrow> string" where
  "printAttributes l = concat (map rx_attribute l)"

definition indent_by :: "nat \<Rightarrow> string" where
  "indent_by n = replicate n (CHR 0x09)"

text \<open>A sole data child is printed like the value of an element without children.\<close>

definition sole_data :: "rx_node list \<Rightarrow> string option" where
  "sole_data cs = (case cs of [c] \<Rightarrow> if rx_type c = RX_data then Some (rx_value c) else None | _ \<Rightarrow> None)"

fun print_node :: "nat \<Rightarrow> rx_node \<Rightarrow> string" and
    print_children :: "nat \<Rightarrow> rx_node list \<Rightarrow> string" where
  "print_node ind (RX ty name val ats cs) =
     (case ty of
        RX_document \<Rightarrow> print_children ind cs
      | RX_element \<Rightarrow>
          indent_by ind @ ''<'' @ name @ printAttributes ats @
          (if val = [] \<and> cs = [] then ''/>''
           else ''>'' @
             (if cs = [] then copy_and_expand_chars None val
              else
                (case sole_data cs of
                   Some d \<Rightarrow> copy_and_expand_chars None d
                 | None \<Rightarrow> [CHR 0x0A] @ print_children (ind + 1) cs @ indent_by ind)) @
             ''</'' @ name @ ''>'')
      | RX_data \<Rightarrow> indent_by ind @ copy_and_expand_chars None val
      | RX_cdata \<Rightarrow> indent_by ind @ ''<![CDATA['' @ val @ '']]>''
      | RX_declaration \<Rightarrow> indent_by ind @ ''<?xml'' @ printAttributes ats @ ''?>''
      | RX_comment \<Rightarrow> indent_by ind @ ''<!--'' @ val @ ''-->''
      | RX_doctype \<Rightarrow> indent_by ind @ ''<!DOCTYPE '' @ val @ ''>''
      | RX_pi \<Rightarrow> indent_by ind @ ''<?'' @ name @ '' '' @ val @ ''?>'')
     @ [CHR 0x0A]"
| "print_children ind [] = []"
| "print_children ind (c # cs) = print_node ind c @ print_children ind cs"

subsection \<open>The node builder\<close>

definition g_MagicContentMarker :: string where
  "g_MagicContentMarker = ''CONTENTCOMESHERE''"

record node_builder =
  nb_attributes :: "(string \<times> string) list"
  nb_contents :: "bytes list"

definition nb_new :: node_builder where
  "nb_new = \<lparr>nb_attributes = [], nb_contents = []\<rparr>"

definition nb_addAttribute :: "string \<Rightarrow> string \<Rightarrow> node_builder \<Rightarrow> node_builder outcome" where
  "nb_addAttribute name val b =
     (if name = g_MagicContentMarker \<or> val = g_MagicContentMarker then Fault AssertFailed
      else Done (b\<lparr>nb_attributes := nb_attributes b @ [(cstr name, cstr val)]\<rparr>))"

definition nb_addContent :: "bytes \<Rightarrow> node_builder \<Rightarrow> node_builder" where
  "nb_addContent c b = b\<lparr>nb_contents := nb_contents b @ [c]\<rparr>"

fun nb_addAttributes :: "(string \<times> string) list \<Rightarrow> node_builder \<Rightarrow> node_builder outcome" where
  "nb_addAttributes [] b = Done b"
| "nb_addAttributes ((n, v) # r) b = outcome_bind (nb_addAttribute n v b) (nb_addAttributes r)"

text \<open>The document: the body with the marker as its value.\<close>

definition nb_doc :: "node_builder \<Rightarrow> rx_node" where
  "nb_doc b = RX RX_document [] [] [] [RX RX_element ''body'' g_MagicContentMarker (nb_attributes b) []]"

definition nb_toString :: "node_builder \<Rightarrow> string outcome" where
  "nb_toString b =
     (case str_search g_MagicContentMarker (print_node 0 (nb_doc b)) of
        None \<Rightarrow> Fault AssertFailed
      | Some (before, rest) \<Rightarrow>
          Done (before @ concat (nb_contents b) @ drop (length g_MagicContentMarker) rest))"

subsection \<open>The node parser\<close>

text \<open>
  rapidxml's parser is the environment: a C string to its tree, without translating entities, as the
  flag \<open>parse_non_destructive\<close> asks for.
\<close>

definition np_parse :: "(string \<Rightarrow> rx_node option) \<Rightarrow> bytes \<Rightarrow> error + rx_node" where
  "np_parse parse content =
     (case parse (cstr content) of
        None \<Rightarrow> Inl BadProtocol
      | Some doc \<Rightarrow>
          (case find (\<lambda>n. rx_name n = ''body'') (rx_children doc) of
             None \<Rightarrow> Inl BadProtocol
           | Some body \<Rightarrow> if rx_type body \<noteq> RX_element then Inl BadProtocol else Inr body))"

definition np_attribute :: "string \<Rightarrow> rx_node \<Rightarrow> string" where
  "np_attribute name body =
     (case find (\<lambda>a. fst a = name) (rx_attributes body) of None \<Rightarrow> [] | Some a \<Rightarrow> snd a)"

definition np_content :: "rx_node \<Rightarrow> string" where
  "np_content body = concat (map (print_node 0) (rx_children body))"

subsection \<open>What the builder makes\<close>

definition nb_text :: "(string \<times> string) list \<Rightarrow> bytes list \<Rightarrow> string" where
  "nb_text ats cs = ''<body'' @ printAttributes ats @ ''>'' @ concat cs @ ''</body>'' @ [CHR 0x0A, CHR 0x0A]"

end
