(* ===== verification/Sf_Bosh.thy ===== *)
theory Sf_Bosh
  imports Sf_RxPrint Sf_Http Sf_IMChannel
begin

text \<open>
  The BOSH transport: \<open>im/xmpp/bosh_impl/BoshTransport\<close>, a channel whose data travels in HTTP requests
  that are numbered by \<open>rid\<close>.

  A request that was given to the HTTP context is a flight until its callback is called.  Calls that are
  posted to the main loop are tasks; \<open>bt_sent\<close> logs the requests; \<open>bt_timed\<close> counts the timed calls of \<open>continueWorking\<close>.  How a
  document is parsed, the number \<open>boost::lexical_cast\<close> reads and the random number are the environment.
\<close>

datatype bosh_callback =
    ConnectReply "nat option"
  | RequestReply int "nat option"

datatype bosh_task =
    BoshCall "nat option" error
  | BoshChanged

record bosh_flight =
  bf_request :: http_request
  bf_timeOut :: int
  bf_callback :: bosh_callback

record bosh_transport =
  bt_output :: "bytes list"
  bt_input :: bytes
  bt_open :: "(int, bytes) smap"
  bt_waiting :: "(int, bytes) smap"
  bt_openCount :: int
  bt_rid :: int
  bt_ridRecv :: int
  bt_sid :: string
  bt_state :: channel_state
  bt_url :: url
  bt_longPoll :: int
  bt_error :: error
  bt_errorMessage :: string
  bt_changed :: bool
  bt_authenticated :: bool
  bt_errors :: int
  bt_sumErrors :: int
  bt_successes :: int
  bt_flights :: "bosh_flight list"
  bt_sent :: "bosh_flight list"
  bt_tasks :: "bosh_task list"
  bt_timed :: nat

record bosh_env =
  be_parse :: "string \<Rightarrow> rx_node option"
  be_int :: "string \<Rightarrow> int option"
  be_random :: int

definition no_url :: url where
  "no_url = \<lparr>u_protocol = [], u_host = [], u_path = [], u_query = []\<rparr>"

definition bt_new :: bosh_transport where
  "bt_new = \<lparr>bt_output = [], bt_input = [], bt_open = [], bt_waiting = [], bt_openCount = 0, bt_rid = 0, bt_ridRecv = 0,
     bt_sid = [], bt_state = CH_Unconnected, bt_url = no_url, bt_longPoll = 0, bt_error = NoError, bt_errorMessage = [],
     bt_changed = False, bt_authenticated = False, bt_errors = 0, bt_sumErrors = 0, bt_successes = 0, bt_flights = [], bt_sent = [],
     bt_tasks = [], bt_timed = 0\<rparr>"

definition mMaxErrorCount :: int where
  "mMaxErrorCount = 10"

definition show_int :: "int \<Rightarrow> string" where
  "show_int i = (if i < 0 then ''-'' @ dec_string (nat (- i)) else dec_string (nat i))"

definition setIfNotSet :: "string \<Rightarrow> string \<Rightarrow> (string, string) smap \<Rightarrow> (string, string) smap" where
  "setIfNotSet key val dst = (if map_of dst key = None then sm_insert key val dst else dst)"

subsection \<open>Posting\<close>

definition bt_post :: "bosh_task list \<Rightarrow> bosh_transport \<Rightarrow> bosh_transport" where
  "bt_post ts s = s\<lparr>bt_tasks := bt_tasks s @ ts\<rparr>"

definition asyncNotify :: "nat option \<Rightarrow> error \<Rightarrow> bosh_transport \<Rightarrow> bosh_transport" where
  "asyncNotify cb e s = (case cb of None \<Rightarrow> s | Some n \<Rightarrow> bt_post [BoshCall (Some n) e] s)"

definition notify_changed :: "bosh_transport \<Rightarrow> bosh_transport" where
  "notify_changed s = (if bt_changed s then bt_post [BoshChanged] s else s)"

subsection \<open>Requests\<close>

definition bosh_post :: "url \<Rightarrow> bytes \<Rightarrow> http_request" where
  "bosh_post u content =
     hr_end (hr_addContent content (hr_addHeader ''Content-Type'' ''text/xml; charset=utf-8'' (hr_start ''POST'' u HTTP_11 hr_new)))"

definition executeRequest :: "bytes \<Rightarrow> int \<Rightarrow> bosh_callback \<Rightarrow> bosh_transport \<Rightarrow> bosh_transport" where
  "executeRequest content timeOutMs cb s =
     (let f = \<lparr>bf_request = bosh_post (bt_url s) content, bf_timeOut = timeOutMs, bf_callback = cb\<rparr>
      in s\<lparr>bt_flights := bt_flights s @ [f], bt_sent := bt_sent s @ [f]\<rparr>)"

definition bosh_args :: "int \<Rightarrow> (string, string) smap \<Rightarrow> (string, string) smap" where
  "bosh_args rid args =
     setIfNotSet ''xmlns'' ''http://jabber.org/protocol/httpbind'' (setIfNotSet ''hold'' ''1''
       (setIfNotSet ''wait'' ''60'' (setIfNotSet ''ver'' ''1.10'' (sm_insert ''rid'' (show_int rid) args))))"

definition bt_connect ::
  "bosh_env \<Rightarrow> url \<Rightarrow> (string, string) smap \<Rightarrow> int \<Rightarrow> nat option \<Rightarrow> bosh_transport \<Rightarrow> bosh_transport outcome" where
  "bt_connect E u args timeOutMs cb s =
     (if bt_state s \<noteq> CH_Unconnected then Done (bt_post [BoshCall cb WrongState] s)
      else
        let s1 = s\<lparr>bt_url := u, bt_rid := be_random E, bt_ridRecv := be_random E\<rparr>
        in outcome_bind (nb_addAttributes (bosh_args (be_random E) args) nb_new) (\<lambda>b.
           outcome_bind (nb_toString b) (\<lambda>txt.
             Done (executeRequest txt timeOutMs (ConnectReply cb) (s1\<lparr>bt_state := CH_Connecting\<rparr>)))))"

definition startNextRequest ::
  "(string, string) smap \<Rightarrow> nat option \<Rightarrow> bosh_transport \<Rightarrow> bosh_transport outcome" where
  "startNextRequest args cb s =
     (if bt_state s \<noteq> CH_Connected \<and> bt_state s \<noteq> CH_Closing then Done (asyncNotify cb WrongState s)
      else
        let rid = bt_rid s + 1;
            fixed = [(''rid'', show_int rid), (''sid'', bt_sid s), (''xmlns'', ''http://jabber.org/protocol/httpbind'')]
        in outcome_bind (nb_addAttributes (fixed @ args) nb_new) (\<lambda>b.
           outcome_bind (nb_toString (fold nb_addContent (bt_output s) b)) (\<lambda>txt.
             Done (executeRequest txt (bt_longPoll s) (RequestReply rid cb)
               (s\<lparr>bt_rid := rid, bt_output := [], bt_open := sm_insert rid txt (bt_open s), bt_openCount := bt_openCount s + 1\<rparr>)))))"

definition continueWorking :: "bosh_transport \<Rightarrow> bosh_transport outcome" where
  "continueWorking s =
     (if bt_openCount s \<ge> 2 then Done s
      else if bt_openCount s \<ge> 1 \<and> bt_output s = [] then Done s
      else startNextRequest [] None s)"

definition bt_restart :: "bosh_transport \<Rightarrow> bosh_transport outcome" where
  "bt_restart s =
     (if bt_state s \<noteq> CH_Connected then Done s
      else startNextRequest (sm_insert ''xmlns:xmpp'' ''urn:xmpp:xbosh'' (sm_insert ''xmpp:restart'' ''true'' [])) None s)"

definition bt_write :: "bytes \<Rightarrow> bosh_transport \<Rightarrow> error \<times> bosh_transport" where
  "bt_write content s =
     (if bt_state s \<noteq> CH_Connected then (WrongState, s)
      else (NoError, s\<lparr>bt_output := bt_output s @ [content], bt_timed := bt_timed s + 1\<rparr>))"

definition bt_read :: "int \<Rightarrow> bosh_transport \<Rightarrow> bytes \<times> bosh_transport" where
  "bt_read maxSize s =
     (if maxSize < 0 \<or> maxSize \<ge> int (length (bt_input s)) then (bt_input s, s\<lparr>bt_input := []\<rparr>)
      else (take (nat maxSize) (bt_input s), s\<lparr>bt_input := drop (nat maxSize) (bt_input s)\<rparr>))"

definition bt_close :: "nat option \<Rightarrow> bosh_transport \<Rightarrow> bosh_transport outcome" where
  "bt_close cb s =
     (if bt_state s = CH_Connected
      then outcome_bind (startNextRequest [(''type'', ''terminate'')] cb s) (\<lambda>s1. Done (s1\<lparr>bt_state := CH_Closing\<rparr>))
      else Done s)"

subsection \<open>Replies\<close>

definition failConnect :: "error \<Rightarrow> nat option \<Rightarrow> string \<Rightarrow> bosh_transport \<Rightarrow> bosh_transport" where
  "failConnect result cb msg s =
     (notify_changed (asyncNotify cb result s))\<lparr>bt_state := CH_Other, bt_error := result, bt_errorMessage := msg\<rparr>"

definition failRequest :: "error \<Rightarrow> string \<Rightarrow> nat option \<Rightarrow> bosh_transport \<Rightarrow> bosh_transport" where
  "failRequest result msg cb s0 =
     (let s = notify_changed s0
      in if result = Eof then asyncNotify cb NoError (s\<lparr>bt_state := CH_Unconnected\<rparr>)
         else (asyncNotify cb (bt_error s) s)\<lparr>bt_state := CH_Other, bt_error := result, bt_errorMessage := msg\<rparr>)"

fun insertWaiting :: "(int, bytes) smap \<Rightarrow> int \<Rightarrow> bytes \<Rightarrow> (int, bytes) smap \<times> int \<times> bytes" where
  "insertWaiting [] recv input = ([], recv, input)"
| "insertWaiting ((r, d) # m) recv input =
     (if r < recv then insertWaiting m recv input
      else if r = recv then insertWaiting m (recv + 1) (input @ d)
      else ((r, d) # m, recv, input))"

definition insertWaitingInputData :: "bosh_transport \<Rightarrow> bosh_transport" where
  "insertWaitingInputData s =
     (case insertWaiting (bt_waiting s) (bt_ridRecv s) (bt_input s) of
        (m, recv, input) \<Rightarrow> s\<lparr>bt_waiting := m, bt_ridRecv := recv, bt_input := input\<rparr>)"

text \<open>The product overflows an \<open>int\<close> for a large answer of the server; it is taken to wrap.\<close>

definition to_ms :: "int \<Rightarrow> int" where
  "to_ms n = to_int32 (n * 1000)"

definition bt_connected :: "rx_node \<Rightarrow> int \<Rightarrow> nat option \<Rightarrow> bosh_transport \<Rightarrow> bosh_transport outcome" where
  "bt_connected body wait cb s =
     (let s1 = s\<lparr>bt_longPoll := wait\<rparr>
      in if np_attribute ''type'' body \<noteq> []
         then Done (failConnect CouldNotConnectHost cb (''opponent sent type='' @ np_attribute ''type'' body) s1)
         else
           let s2 = s1\<lparr>bt_state := CH_Connected, bt_input := bt_input s1 @ np_content body, bt_ridRecv := bt_ridRecv s1 + 1\<rparr>
           in outcome_bind (continueWorking (asyncNotify cb NoError s2)) (\<lambda>s3. Done (notify_changed s3)))"

definition onConnectReply ::
  "bosh_env \<Rightarrow> error \<Rightarrow> http_response option \<Rightarrow> nat option \<Rightarrow> bosh_transport \<Rightarrow> bosh_transport outcome" where
  "onConnectReply E result response cb s =
     (if bt_state s \<noteq> CH_Connecting then Done s
      else if failed result then Done (failConnect result cb ''error on http connect'' s)
      else
        (case response of
           None \<Rightarrow> Fault NullDeref
         | Some r \<Rightarrow>
             if rs_resultCode r \<noteq> 200
             then Done (failConnect ConnectionError cb (''bad http result='' @ show_int (rs_resultCode r)) s)
             else
               let s1 = s\<lparr>bt_authenticated := rs_authenticated r\<rparr>
               in (case rs_data r of
                     None \<Rightarrow> Fault NullDeref
                   | Some x \<Rightarrow>
                       (case np_parse (be_parse E) x of
                          Inl e \<Rightarrow> Done (failConnect e cb ''parse'' s1)
                        | Inr body \<Rightarrow>
                            let s2 = s1\<lparr>bt_sid := np_attribute ''sid'' body\<rparr>
                            in if bt_sid s2 = [] then Done (failConnect BadProtocol cb ''parse'' s2)
                               else if np_attribute ''wait'' body = [] then bt_connected body 60000 cb s2
                               else
                                 (case be_int E (np_attribute ''wait'' body) of
                                    None \<Rightarrow> Done (failConnect BadProtocol cb ''bad wait response'' s2)
                                  | Some n \<Rightarrow> bt_connected body (to_ms n) cb s2)))))"

definition bt_answered :: "rx_node \<Rightarrow> int \<Rightarrow> nat option \<Rightarrow> bosh_transport \<Rightarrow> bosh_transport" where
  "bt_answered body rid cb s =
     (let s1 = s\<lparr>bt_open := sm_erase rid (bt_open s), bt_openCount := bt_openCount s - 1,
                 bt_waiting := sm_insert rid (np_content body) (bt_waiting s)\<rparr>;
          s2 = (if np_attribute ''type'' body \<noteq> []
                then failRequest Eof (''Server sent type='' @ np_attribute ''type'' body) cb s1
                else asyncNotify cb NoError s1);
          s3 = insertWaitingInputData s2
      in notify_changed (s3\<lparr>bt_timed := bt_timed s3 + 1\<rparr>))"

definition bt_retry :: "error \<Rightarrow> int \<Rightarrow> nat option \<Rightarrow> bosh_transport \<Rightarrow> bosh_transport outcome" where
  "bt_retry result rid cb s =
     (let s1 = s\<lparr>bt_errors := bt_errors s + 1, bt_sumErrors := bt_sumErrors s + 1\<rparr>
      in if bt_errors s1 > mMaxErrorCount then Done (failRequest result ''To many HTTP errors'' cb s1)
         else
           (case map_of (bt_open s1) rid of
              None \<Rightarrow> Fault AssertFailed
            | Some txt \<Rightarrow> Done (executeRequest txt (bt_longPoll s1) (RequestReply rid cb) s1)))"

definition onRequestReply ::
  "bosh_env \<Rightarrow> error \<Rightarrow> http_response option \<Rightarrow> int \<Rightarrow> nat option \<Rightarrow> bosh_transport \<Rightarrow> bosh_transport outcome" where
  "onRequestReply E result response rid cb s =
     (if bt_state s \<noteq> CH_Connected \<and> bt_state s \<noteq> CH_Closing then Done s
      else if bt_authenticated s \<and> response = None then Fault NullDeref
      else if bt_authenticated s \<and> \<not> rs_authenticated (the response)
      then Done (failRequest AuthError ''Lost authentication'' cb s)
      else if failed result then bt_retry result rid cb s
      else
        (case response of
           None \<Rightarrow> Fault NullDeref
         | Some r \<Rightarrow>
             if rs_resultCode r \<noteq> 200 then bt_retry result rid cb s
             else
               let s1 = s\<lparr>bt_successes := bt_successes s + 1,
                          bt_errors := (if bt_errors s > 0 then bt_errors s - 1 else bt_errors s)\<rparr>
               in (case rs_data r of
                     None \<Rightarrow> Fault NullDeref
                   | Some x \<Rightarrow>
                       (case np_parse (be_parse E) x of
                          Inl e \<Rightarrow> Done (failRequest e ''Parse error'' cb s1)
                        | Inr body \<Rightarrow> Done (bt_answered body rid cb s1)))))"

subsection \<open>The main loop\<close>

text \<open>A call of an empty function object leaves the defined behaviour.\<close>

definition bt_runTask :: "bosh_transport \<Rightarrow> bosh_transport outcome" where
  "bt_runTask s =
     (case bt_tasks s of
        [] \<Rightarrow> Done s
      | BoshCall None e # ts \<Rightarrow> Fault NullDeref
      | _ # ts \<Rightarrow> Done (s\<lparr>bt_tasks := ts\<rparr>))"

definition bt_runTimed :: "bosh_transport \<Rightarrow> bosh_transport outcome" where
  "bt_runTimed s = (if bt_timed s = 0 then Done s else continueWorking (s\<lparr>bt_timed := bt_timed s - 1\<rparr>))"

text \<open>The HTTP context calls back for one of its requests.\<close>

definition bt_reply :: "bosh_env \<Rightarrow> nat \<Rightarrow> error \<Rightarrow> http_response option \<Rightarrow> bosh_transport \<Rightarrow> bosh_transport outcome" where
  "bt_reply E n result response s =
     (if n < length (bt_flights s) then
        let s1 = s\<lparr>bt_flights := take n (bt_flights s) @ drop (Suc n) (bt_flights s)\<rparr>
        in (case bf_callback (bt_flights s ! n) of
              ConnectReply cb \<Rightarrow> onConnectReply E result response cb s1
            | RequestReply rid cb \<Rightarrow> onRequestReply E result response rid cb s1)
      else Done s)"

datatype bosh_event =
    BtSetChanged bool
  | BtConnect url "(string, string) smap" int "nat option"
  | BtRestart
  | BtWrite bytes
  | BtRead int
  | BtClose "nat option"
  | BtReply nat error "http_response option"
  | BtTask
  | BtTimed

fun bt_step :: "bosh_env \<Rightarrow> bosh_event \<Rightarrow> bosh_transport \<Rightarrow> bosh_transport outcome" where
  "bt_step E (BtSetChanged b) s = Done (s\<lparr>bt_changed := b\<rparr>)"
| "bt_step E (BtConnect u args t cb) s = bt_connect E u args t cb s"
| "bt_step E BtRestart s = bt_restart s"
| "bt_step E (BtWrite x) s = Done (snd (bt_write x s))"
| "bt_step E (BtRead n) s = Done (snd (bt_read n s))"
| "bt_step E (BtClose cb) s = bt_close cb s"
| "bt_step E (BtReply n e r) s = bt_reply E n e r s"
| "bt_step E BtTask s = bt_runTask s"
| "bt_step E BtTimed s = bt_runTimed s"

text \<open>
  A run, with what the user wrote and read, and the answers that were taken: their number and content.
\<close>

record bosh_run =
  br_bosh :: bosh_transport
  br_written :: bytes
  br_read :: bytes
  br_answers :: "(int \<times> bytes) list"

definition br_new :: bosh_run where
  "br_new = \<lparr>br_bosh = bt_new, br_written = [], br_read = [], br_answers = []\<rparr>"

definition answer_body :: "bosh_env \<Rightarrow> http_response option \<Rightarrow> rx_node option" where
  "answer_body E response =
     (case response of
        None \<Rightarrow> None
      | Some r \<Rightarrow>
          (case rs_data r of
             None \<Rightarrow> None
           | Some x \<Rightarrow> (case np_parse (be_parse E) x of Inl e \<Rightarrow> None | Inr b \<Rightarrow> Some b)))"

text \<open>An answer is taken if it opens the connection, or makes a request answered.\<close>

definition taken :: "bosh_env \<Rightarrow> bosh_event \<Rightarrow> bosh_transport \<Rightarrow> bosh_transport \<Rightarrow> (int \<times> bytes) list" where
  "taken E ev s s' =
     (case ev of
        BtReply n e r \<Rightarrow>
          (if n < length (bt_flights s) then
             (case (bf_callback (bt_flights s ! n), answer_body E r) of
                (ConnectReply cb, Some b) \<Rightarrow>
                  if bt_state s = CH_Connecting \<and> bt_state s' = CH_Connected then [(bt_rid s, np_content b)] else []
              | (RequestReply rid cb, Some b) \<Rightarrow>
                  if bt_successes s' \<noteq> bt_successes s then [(rid, np_content b)] else []
              | _ \<Rightarrow> [])
           else [])
      | _ \<Rightarrow> [])"

definition br_step :: "bosh_env \<Rightarrow> bosh_event \<Rightarrow> bosh_run \<Rightarrow> bosh_run outcome" where
  "br_step E ev w =
     outcome_bind (bt_step E ev (br_bosh w)) (\<lambda>s'.
       Done \<lparr>br_bosh = s',
             br_written = br_written w @ (case ev of BtWrite x \<Rightarrow> if fst (bt_write x (br_bosh w)) = NoError then x else [] | _ \<Rightarrow> []),
             br_read = br_read w @ (case ev of BtRead n \<Rightarrow> fst (bt_read n (br_bosh w)) | _ \<Rightarrow> []),
             br_answers = br_answers w @ taken E ev (br_bosh w) s'\<rparr>)"

fun br_run :: "bosh_env \<Rightarrow> bosh_event list \<Rightarrow> bosh_run \<Rightarrow> bosh_run outcome" where
  "br_run E [] w = Done w"
| "br_run E (ev # es) w = outcome_bind (br_step E ev w) (br_run E es)"

end
