(* ===== verification/Sf_BoshInv.thy ===== *)
theory Sf_BoshInv
  imports Sf_Bosh
begin

text \<open>
  What a BOSH transport keeps in every run of one connection.
\<close>

subsection \<open>Bodies\<close>

lemma str_search_append: "str_search pat (a @ pat @ b) \<noteq> None"
proof (induction a)
  case Nil
  have "take (length pat) (pat @ b) = pat" by simp
  then show ?case by (cases "pat @ b") auto
next
  case (Cons c a)
  then show ?case by (auto split: if_splits)
qed

lemma str_search_at:
  assumes "str_search pat (a @ [c]) = None" and "c \<notin> set pat"
  shows "str_search pat (a @ c # pat @ b) = Some (a @ [c], pat @ b)"
  using assms
proof (induction a)
  case Nil
  then show ?case by (cases pat) (auto split: if_splits)
next
  case (Cons x a)
  have no: "take (length pat) (x # a @ c # pat @ b) \<noteq> pat"
  proof
    assume eq: "take (length pat) (x # a @ c # pat @ b) = pat"
    show False
    proof (cases "length pat \<le> Suc (length a)")
      case True
      then have "take (length pat) (x # a @ [c]) = pat" using eq by (cases pat) (auto simp: take_Cons')
      then show False using Cons.prems(1) by (simp split: if_splits)
    next
      case False
      then have "c \<in> set (take (length pat) (x # a @ c # pat @ b))"
        by (cases pat) (auto simp: take_Cons' in_set_conv_nth)
      then show False using Cons.prems(2) eq by simp
    qed
  qed
  have "str_search pat (a @ [c]) = None" using Cons.prems(1) by (auto split: if_splits)
  then show ?case using Cons.IH Cons.prems(2) no by simp
qed

lemma print_doc:
  "print_node 0 (nb_doc b) =
     ''<body'' @ printAttributes (nb_attributes b) @ ''>'' @ g_MagicContentMarker @ ''</body>'' @ [CHR 0x0A, CHR 0x0A]"
  by (simp add: nb_doc_def indent_by_def g_MagicContentMarker_def copy_and_expand_chars_def)

lemma nb_toString_done: "\<exists>txt. nb_toString b = Done txt"
proof -
  have "str_search g_MagicContentMarker (print_node 0 (nb_doc b)) \<noteq> None"
    using str_search_append [of g_MagicContentMarker "''<body'' @ printAttributes (nb_attributes b) @ ''>''" "''</body>'' @ [CHR 0x0A, CHR 0x0A]"]
    unfolding print_doc by simp
  then show ?thesis by (auto simp: nb_toString_def split: option.splits)
qed

lemma nb_toString_text:
  assumes "str_search g_MagicContentMarker (''<body'' @ printAttributes (nb_attributes b) @ ''>'') = None"
  shows "nb_toString b = Done (nb_text (nb_attributes b) (nb_contents b))"
proof -
  have "CHR ''>'' \<notin> set g_MagicContentMarker" by (simp add: g_MagicContentMarker_def)
  from str_search_at [OF _ this, of "''<body'' @ printAttributes (nb_attributes b)"] assms
  have "str_search g_MagicContentMarker (print_node 0 (nb_doc b)) =
      Some (''<body'' @ printAttributes (nb_attributes b) @ ''>'', g_MagicContentMarker @ ''</body>'' @ [CHR 0x0A, CHR 0x0A])"
    unfolding print_doc by simp
  then show ?thesis by (simp add: nb_toString_def nb_text_def)
qed

subsection \<open>What arrives\<close>

definition in_inv :: "int \<Rightarrow> (int \<times> bytes) list \<Rightarrow> bytes \<Rightarrow> (int, bytes) smap \<Rightarrow> int \<Rightarrow> bytes \<Rightarrow> bool" where
  "in_inv r0 A rd W n inp \<longleftrightarrow> distinct (map fst A) \<and> sm_ok W \<and> r0 \<le> n \<and>
     (\<forall>k d. map_of W k = Some d \<longrightarrow> n \<le> k \<and> map_of A k = Some d) \<and>
     (\<forall>k. k \<in> fst ` set A \<longleftrightarrow> r0 \<le> k \<and> k < n \<or> map_of W k \<noteq> None) \<and>
     rd @ inp = concat (map (\<lambda>k. the (map_of A k)) [r0..n - 1])"

lemma in_inv_answer:
  assumes ok: "in_inv r0 A rd W n inp" and new: "k \<notin> fst ` set A" "r0 \<le> k"
  shows "in_inv r0 (A @ [(k, d)]) rd (sm_insert k d W) n inp"
proof -
  have k: "n \<le> k" "map_of W k = None" "map_of A k = None"
    using ok new by (auto simp: in_inv_def map_of_eq_None_iff)
  define B where "B = A @ [(k, d)]"
  have old: "map_of B j = (if j = k then Some d else map_of A j)" for j
    using k(3) by (auto simp: B_def map_add_def split: option.split)
  have dom: "distinct (map fst B)" "fst ` set B = insert k (fst ` set A)" using ok new by (auto simp: B_def in_inv_def)
  have m: "map (\<lambda>j. the (map_of B j)) [r0..n - 1] = map (\<lambda>j. the (map_of A j)) [r0..n - 1]"
    using k(1) by (intro map_cong HOL.refl) (auto simp: old)
  have "in_inv r0 B rd (sm_insert k d W) n inp"
    unfolding in_inv_def
  proof (intro conjI)
    show "rd @ inp = concat (map (\<lambda>j. the (map_of B j)) [r0..n - 1])" unfolding m using ok by (simp only: in_inv_def)
    show "\<forall>j e. map_of (sm_insert k d W) j = Some e \<longrightarrow> n \<le> j \<and> map_of B j = Some e"
      using ok k(1) by (auto simp: in_inv_def old)
    show "\<forall>j. j \<in> fst ` set B \<longleftrightarrow> r0 \<le> j \<and> j < n \<or> map_of (sm_insert k d W) j \<noteq> None"
      using ok by (auto simp: in_inv_def dom(2))
  qed (use ok dom in \<open>auto simp: in_inv_def\<close>)
  then show ?thesis by (simp only: B_def)
qed

lemma in_inv_drain:
  assumes "in_inv r0 A rd W n inp" and "insertWaiting W n inp = (W', n', inp')"
  shows "in_inv r0 A rd W' n' inp' \<and> n \<le> n'"
  using assms
proof (induction W n inp rule: insertWaiting.induct)
  case (2 r d m n inp)
  consider "r < n" | "r = n" | "n < r" by linarith
  then show ?case
  proof cases
    case 1
    have "map_of ((r, d) # m) r = Some d" by simp
    then have "n \<le> r" using "2.prems"(1) unfolding in_inv_def by blast
    then show ?thesis using 1 by simp
  next
    case 2
    note ok = "2.prems"(1) [unfolded 2]
    have keys: "\<forall>j \<in> fst ` set m. n < j" "sm_ok m" using ok by (simp_all add: in_inv_def)
    have an: "map_of A n = Some d" "r0 \<le> n" using ok by (auto simp: in_inv_def)
    have none: "map_of m n = None" using keys(1) by (auto simp: map_of_eq_None_iff)
    have "in_inv r0 A rd m (n + 1) (inp @ d)"
      unfolding in_inv_def
    proof (intro conjI allI impI)
      show "distinct (map fst A)" "sm_ok m" "r0 \<le> n + 1" using ok keys by (auto simp: in_inv_def)
      show "n + 1 \<le> k" "map_of A k = Some e" if "map_of m k = Some e" for k e
        using that keys(1) ok map_of_SomeD [OF that] by (force simp: in_inv_def)+
      show "k \<in> fst ` set A \<longleftrightarrow> r0 \<le> k \<and> k < n + 1 \<or> map_of m k \<noteq> None" for k
      proof -
        have "k \<in> fst ` set A \<longleftrightarrow> r0 \<le> k \<and> k < n \<or> map_of ((n, d) # m) k \<noteq> None" using ok by (simp add: in_inv_def)
        then show ?thesis using an(2) by (auto split: if_splits)
      qed
      have "[r0..n + 1 - 1] = [r0..n - 1] @ [n]" using an(2) upto_rec2 [of r0 n] by simp
      then show "rd @ inp @ d = concat (map (\<lambda>k. the (map_of A k)) [r0..n + 1 - 1])"
        using ok an(1) by (simp add: in_inv_def)
    qed
    then show ?thesis using "2.IH"(2) 2 "2.prems"(2) by force
  next
    case 3
    then show ?thesis using 2(3,4) by auto
  qed
qed simp

lemma in_inv_read: "in_inv r0 A rd W n (x @ inp) \<Longrightarrow> in_inv r0 A (rd @ x) W n inp"
  by (simp add: in_inv_def)

subsection \<open>Requests on their way\<close>

definition flight_rid :: "bosh_flight \<Rightarrow> int option" where
  "flight_rid f = (case bf_callback f of ConnectReply cb \<Rightarrow> None | RequestReply r cb \<Rightarrow> Some r)"

fun rids :: "bosh_flight list \<Rightarrow> int list" where
  "rids [] = []"
| "rids (f # fs) = (case flight_rid f of None \<Rightarrow> rids fs | Some r \<Rightarrow> r # rids fs)"

lemma rids_append [simp]: "rids (a @ b) = rids a @ rids b"
  by (induction a) (auto split: option.split)

lemma rids_all: "(\<forall>f \<in> set fs. flight_rid f \<noteq> None) \<Longrightarrow> length (rids fs) = length fs"
  by (induction fs) auto

lemma flight_split:
  assumes "n < length fs"
  obtains a b where "fs = a @ fs ! n # b" and "take n fs @ drop (Suc n) fs = a @ b"
  using id_take_nth_drop [OF assms] that by blast

definition live :: "bosh_transport \<Rightarrow> bool" where
  "live s \<longleftrightarrow> bt_state s = CH_Connected \<or> bt_state s = CH_Closing"

definition fl_inv :: "int \<Rightarrow> (int \<times> bytes) list \<Rightarrow> bosh_transport \<Rightarrow> bool" where
  "fl_inv r0 A s \<longleftrightarrow> distinct (rids (bt_flights s)) \<and> r0 \<le> bt_rid s \<and>
     (\<forall>k \<in> set (rids (bt_flights s)). r0 < k \<and> k \<le> bt_rid s \<and> k \<notin> fst ` set A) \<and> (\<forall>k \<in> fst ` set A. k \<le> bt_rid s) \<and>
     (bt_state s \<noteq> CH_Connecting \<longrightarrow> (\<forall>f \<in> set (bt_flights s). flight_rid f \<noteq> None)) \<and>
     (live s \<longrightarrow> bt_openCount s = int (length (bt_flights s)) \<and>
        (\<forall>k. map_of (bt_open s) k \<noteq> None \<longleftrightarrow> k \<in> set (rids (bt_flights s)))) \<and>
     (bt_state s = CH_Connecting \<longrightarrow> bt_rid s = r0 \<and> bt_ridRecv s = r0 \<and> A = [] \<and> bt_open s = [] \<and> bt_openCount s = 0 \<and>
        (\<exists>f. bt_flights s = [f] \<and> flight_rid f = None))"

definition nb_body :: "(string \<times> string) list \<Rightarrow> bytes list \<Rightarrow> string outcome" where
  "nb_body ats cs = outcome_bind (nb_addAttributes ats nb_new) (\<lambda>b. nb_toString (fold nb_addContent cs b))"

definition out_inv :: "int \<Rightarrow> bytes \<Rightarrow> bosh_transport \<Rightarrow> bool" where
  "out_inv r0 wr s \<longleftrightarrow> r0 \<le> bt_rid s \<and> (\<exists>ats parts.
     (\<forall>f r. f \<in> set (bt_sent s) \<and> flight_rid f = Some r \<longrightarrow> r0 < r \<and> r \<le> bt_rid s \<and>
        (\<exists>txt. nb_body (ats r) (parts r) = Done txt \<and> bf_request f = bosh_post (bt_url s) txt)) \<and>
     (\<forall>r. r0 < r \<and> r \<le> bt_rid s \<longrightarrow> (\<exists>f \<in> set (bt_sent s). flight_rid f = Some r)) \<and>
     (\<forall>r txt. map_of (bt_open s) r = Some txt \<longrightarrow> r0 < r \<and> r \<le> bt_rid s \<and> nb_body (ats r) (parts r) = Done txt) \<and>
     concat (map (\<lambda>r. concat (parts r)) [r0 + 1..bt_rid s]) @ concat (bt_output s) = wr)"

lemma out_invI:
  assumes "r0 \<le> bt_rid s"
    and "\<And>f r. f \<in> set (bt_sent s) \<Longrightarrow> flight_rid f = Some r \<Longrightarrow> r0 < r \<and> r \<le> bt_rid s \<and>
        (\<exists>tx. nb_body (ats r) (parts r) = Done tx \<and> bf_request f = bosh_post (bt_url s) tx)"
    and "\<And>r. r0 < r \<Longrightarrow> r \<le> bt_rid s \<Longrightarrow> \<exists>f \<in> set (bt_sent s). flight_rid f = Some r"
    and "\<And>r tx. map_of (bt_open s) r = Some tx \<Longrightarrow> r0 < r \<and> r \<le> bt_rid s \<and> nb_body (ats r) (parts r) = Done tx"
    and "concat (map (\<lambda>r. concat (parts r)) [r0 + 1..bt_rid s]) @ concat (bt_output s) = wr"
  shows "out_inv r0 wr s"
  unfolding out_inv_def using assms by (intro conjI exI [of _ ats] exI [of _ parts]) (assumption | blast)+

lemma out_invE:
  assumes "out_inv r0 wr s"
  obtains ats parts where "r0 \<le> bt_rid s"
    "\<And>f r. f \<in> set (bt_sent s) \<Longrightarrow> flight_rid f = Some r \<Longrightarrow> r0 < r \<and> r \<le> bt_rid s \<and>
        (\<exists>tx. nb_body (ats r) (parts r) = Done tx \<and> bf_request f = bosh_post (bt_url s) tx)"
    "\<And>r. r0 < r \<Longrightarrow> r \<le> bt_rid s \<Longrightarrow> \<exists>f \<in> set (bt_sent s). flight_rid f = Some r"
    "\<And>r tx. map_of (bt_open s) r = Some tx \<Longrightarrow> r0 < r \<and> r \<le> bt_rid s \<and> nb_body (ats r) (parts r) = Done tx"
    "concat (map (\<lambda>r. concat (parts r)) [r0 + 1..bt_rid s]) @ concat (bt_output s) = wr"
proof -
  from assms obtain ats parts where *: "r0 \<le> bt_rid s"
    "\<forall>f r. f \<in> set (bt_sent s) \<and> flight_rid f = Some r \<longrightarrow> r0 < r \<and> r \<le> bt_rid s \<and>
        (\<exists>txt. nb_body (ats r) (parts r) = Done txt \<and> bf_request f = bosh_post (bt_url s) txt)"
    "\<forall>r. r0 < r \<and> r \<le> bt_rid s \<longrightarrow> (\<exists>f \<in> set (bt_sent s). flight_rid f = Some r)"
    "\<forall>r txt. map_of (bt_open s) r = Some txt \<longrightarrow> r0 < r \<and> r \<le> bt_rid s \<and> nb_body (ats r) (parts r) = Done txt"
    "concat (map (\<lambda>r. concat (parts r)) [r0 + 1..bt_rid s]) @ concat (bt_output s) = wr"
    unfolding out_inv_def by blast
  show thesis by (rule that [of ats parts]) (use * in blast)+
qed

lemma launch_ok:
  assumes run: "startNextRequest args cb s = Done s'" and l: "live s"
  shows "fl_inv r0 A s \<Longrightarrow> fl_inv r0 A s'" "out_inv r0 wr s \<Longrightarrow> out_inv r0 wr s'"
    "bt_waiting s' = bt_waiting s" "bt_ridRecv s' = bt_ridRecv s" "bt_input s' = bt_input s" "bt_state s' = bt_state s"
    "bt_flights s' \<noteq> []" "bt_successes s' = bt_successes s" "bt_rid s' = bt_rid s + 1" "bt_tasks s' = bt_tasks s"
    "bt_sid s' = bt_sid s" "bt_authenticated s' = bt_authenticated s" "bt_output s' = []"
proof -
  define rid where "rid = bt_rid s + 1"
  define ats where "ats = [(''rid'', show_int rid), (''sid'', bt_sid s), (''xmlns'', ''http://jabber.org/protocol/httpbind'')] @ args"
  obtain b where b: "nb_addAttributes ats nb_new = Done b"
    using run l unfolding startNextRequest_def Let_def live_def ats_def rid_def
    by (cases "nb_addAttributes ([(''rid'', show_int (bt_rid s + 1)), (''sid'', bt_sid s), (''xmlns'', ''http://jabber.org/protocol/httpbind'')] @ args) nb_new") auto
  obtain tx where tx: "nb_toString (fold nb_addContent (bt_output s) b) = Done tx" using nb_toString_done by blast
  define f where "f = \<lparr>bf_request = bosh_post (bt_url s) tx, bf_timeOut = bt_longPoll s, bf_callback = RequestReply rid cb\<rparr>"
  have s': "s' = s\<lparr>bt_rid := rid, bt_output := [], bt_open := sm_insert rid tx (bt_open s), bt_openCount := bt_openCount s + 1,
      bt_flights := bt_flights s @ [f], bt_sent := bt_sent s @ [f]\<rparr>"
    using run l b tx unfolding startNextRequest_def Let_def live_def ats_def rid_def
    by (auto simp: executeRequest_def f_def rid_def Let_def)
  have rid: "flight_rid f = Some rid" by (simp add: flight_rid_def f_def)
  have body: "nb_body ats (bt_output s) = Done tx" using b tx by (simp add: nb_body_def)
  show "bt_waiting s' = bt_waiting s" "bt_ridRecv s' = bt_ridRecv s" "bt_input s' = bt_input s" "bt_state s' = bt_state s"
    "bt_flights s' \<noteq> []" "bt_successes s' = bt_successes s" "bt_rid s' = bt_rid s + 1" "bt_tasks s' = bt_tasks s"
    "bt_sid s' = bt_sid s" "bt_authenticated s' = bt_authenticated s" "bt_output s' = []"
    by (simp_all add: s' rid_def)
  show "fl_inv r0 A s'" if inv: "fl_inv r0 A s"
  proof -
    have "rid \<notin> set (rids (bt_flights s))" "rid \<notin> fst ` set A" using inv by (force simp: fl_inv_def rid_def)+
    then show ?thesis using inv l rid unfolding fl_inv_def s' by (auto simp: rid_def live_def)
  qed
  show "out_inv r0 wr s'" if inv: "out_inv r0 wr s"
  proof -
    obtain aa parts where *: "r0 \<le> bt_rid s"
      "\<forall>f r. f \<in> set (bt_sent s) \<and> flight_rid f = Some r \<longrightarrow> r0 < r \<and> r \<le> bt_rid s \<and>
        (\<exists>tx. nb_body (aa r) (parts r) = Done tx \<and> bf_request f = bosh_post (bt_url s) tx)"
      "\<forall>r. r0 < r \<and> r \<le> bt_rid s \<longrightarrow> (\<exists>f \<in> set (bt_sent s). flight_rid f = Some r)"
      "\<forall>r tx. map_of (bt_open s) r = Some tx \<longrightarrow> r0 < r \<and> r \<le> bt_rid s \<and> nb_body (aa r) (parts r) = Done tx"
      "concat (map (\<lambda>r. concat (parts r)) [r0 + 1..bt_rid s]) @ concat (bt_output s) = wr"
      using inv unfolding out_inv_def by blast
    let ?at = "aa(rid := ats)" and ?parts = "parts(rid := bt_output s)"
    have same: "?at r = aa r" "?parts r = parts r" if "r \<le> bt_rid s" for r using that by (simp_all add: rid_def)
    have m: "map (\<lambda>r. concat (?parts r)) [r0 + 1..bt_rid s] = map (\<lambda>r. concat (parts r)) [r0 + 1..bt_rid s]"
      by (intro map_cong HOL.refl) (auto simp: rid_def)
    have u: "[r0 + 1..rid] = [r0 + 1..bt_rid s] @ [rid]" using *(1) upto_rec2 [of "r0 + 1" rid] by (simp add: rid_def)
    have "concat (map (\<lambda>r. concat (?parts r)) [r0 + 1..rid]) = concat (map (\<lambda>r. concat (parts r)) [r0 + 1..bt_rid s]) @ concat (bt_output s)"
      unfolding u map_append concat_append m by simp
    then have "concat (map (\<lambda>r. concat (?parts r)) [r0 + 1..rid]) = wr" using *(5) by simp
    moreover have "r0 < r \<and> r \<le> rid \<and> (\<exists>tx. nb_body (?at r) (?parts r) = Done tx \<and> bf_request g = bosh_post (bt_url s) tx)"
      if "g \<in> set (bt_sent s @ [f])" "flight_rid g = Some r" for g r
    proof (cases "g = f")
      case True
      then show ?thesis using that(2) rid body *(1) by (simp add: f_def rid_def)
    next
      case False
      then have "r0 < r \<and> r \<le> bt_rid s \<and> (\<exists>tx. nb_body (aa r) (parts r) = Done tx \<and> bf_request g = bosh_post (bt_url s) tx)"
        using that *(2) by simp
      then show ?thesis by (auto simp: rid_def)
    qed
    moreover have "\<exists>g \<in> set (bt_sent s @ [f]). flight_rid g = Some r" if "r0 < r" "r \<le> rid" for r
      using that *(3) rid by (cases "r = rid") (auto simp: rid_def)
    moreover have "r0 < r \<and> r \<le> rid \<and> nb_body (?at r) (?parts r) = Done u" if "map_of (sm_insert rid tx (bt_open s)) r = Some u" for r u
      using that *(1) *(4) [rule_format, of r u] body by (auto simp: rid_def split: if_splits)
    ultimately show ?thesis using *(1)
      by (intro out_invI [where ats = ?at and parts = ?parts]) (simp_all add: s' rid_def)
  qed
qed

subsection \<open>Operations\<close>

lemma asyncNotify_eq:
  "asyncNotify cb e s = s\<lparr>bt_tasks := bt_tasks s @ (case cb of None \<Rightarrow> [] | Some n \<Rightarrow> [BoshCall (Some n) e])\<rparr>"
  by (simp add: asyncNotify_def bt_post_def split: option.split)

lemma notify_changed_eq: "notify_changed s = s\<lparr>bt_tasks := bt_tasks s @ (if bt_changed s then [BoshChanged] else [])\<rparr>"
  by (simp add: notify_changed_def bt_post_def)

lemma fl_inv_cong:
  assumes "fl_inv r0 A s" and "bt_flights s' = bt_flights s" "bt_rid s' = bt_rid s" "bt_openCount s' = bt_openCount s"
    "bt_open s' = bt_open s" "bt_ridRecv s' = bt_ridRecv s"
    and "bt_state s' = bt_state s \<or> \<not> live s' \<and> bt_state s' \<noteq> CH_Connecting \<and> (\<forall>f \<in> set (bt_flights s). flight_rid f \<noteq> None)"
  shows "fl_inv r0 A s'"
  using assms by (auto simp: fl_inv_def live_def)

lemma out_inv_cong:
  assumes "out_inv r0 wr s" and "bt_sent s' = bt_sent s" "bt_rid s' = bt_rid s" "bt_open s' = bt_open s"
    "bt_url s' = bt_url s" "bt_output s' = bt_output s"
  shows "out_inv r0 wr s'"
  using assms by (simp add: out_inv_def)

lemma out_inv_less:
  assumes "out_inv r0 wr s" and "bt_sent s' = bt_sent s" "bt_rid s' = bt_rid s" "bt_url s' = bt_url s" "bt_output s' = bt_output s"
    and "\<And>k x. map_of (bt_open s') k = Some x \<Longrightarrow> map_of (bt_open s) k = Some x"
  shows "out_inv r0 wr s'"
proof -
  from assms(1) obtain ats parts where *: "r0 \<le> bt_rid s"
    "\<And>f r. f \<in> set (bt_sent s) \<Longrightarrow> flight_rid f = Some r \<Longrightarrow> r0 < r \<and> r \<le> bt_rid s \<and>
        (\<exists>tx. nb_body (ats r) (parts r) = Done tx \<and> bf_request f = bosh_post (bt_url s) tx)"
    "\<And>r. r0 < r \<Longrightarrow> r \<le> bt_rid s \<Longrightarrow> \<exists>f \<in> set (bt_sent s). flight_rid f = Some r"
    "\<And>r tx. map_of (bt_open s) r = Some tx \<Longrightarrow> r0 < r \<and> r \<le> bt_rid s \<and> nb_body (ats r) (parts r) = Done tx"
    "concat (map (\<lambda>r. concat (parts r)) [r0 + 1..bt_rid s]) @ concat (bt_output s) = wr"
    by (rule out_invE) blast
  show ?thesis by (rule out_invI [where ats = ats and parts = parts]) (use * assms(2-6) in simp_all)
qed

lemma out_inv_write: "out_inv r0 wr s \<Longrightarrow> bt_output s' = bt_output s @ [x] \<Longrightarrow> bt_sent s' = bt_sent s \<Longrightarrow> bt_rid s' = bt_rid s \<Longrightarrow>
    bt_open s' = bt_open s \<Longrightarrow> bt_url s' = bt_url s \<Longrightarrow> out_inv r0 (wr @ x) s'"
  by (auto simp: out_inv_def)

lemma continue_ok:
  assumes "continueWorking s = Done s'"
  shows "fl_inv r0 A s \<Longrightarrow> fl_inv r0 A s'" "out_inv r0 wr s \<Longrightarrow> out_inv r0 wr s'"
    "bt_waiting s' = bt_waiting s" "bt_ridRecv s' = bt_ridRecv s" "bt_input s' = bt_input s" "bt_state s' = bt_state s"
    "bt_successes s' = bt_successes s" "fl_inv r0 A s \<Longrightarrow> live s \<Longrightarrow> bt_flights s' \<noteq> []"
proof -
  consider "s' = s" "live s \<longrightarrow> bt_openCount s \<ge> 1" | "live s" "startNextRequest [] None s = Done s'"
  proof (cases "bt_openCount s \<ge> 2 \<or> bt_openCount s \<ge> 1 \<and> bt_output s = []")
    case True
    then have "s' = s" "bt_openCount s \<ge> 1" using assms by (auto simp: continueWorking_def split: if_splits)
    then show thesis using that(1) by blast
  next
    case False
    then have run: "startNextRequest [] None s = Done s'" using assms by (auto simp: continueWorking_def split: if_splits)
    show thesis
    proof (cases "live s")
      case True
      then show thesis using that(2) run by blast
    next
      case False
      then have "s' = s" using run by (auto simp: startNextRequest_def live_def asyncNotify_eq)
      then show thesis using that(1) False by blast
    qed
  qed
  note cs = this
  show "fl_inv r0 A s'" if "fl_inv r0 A s" using cs that launch_ok(1) by cases blast+
  show "out_inv r0 wr s'" if "out_inv r0 wr s" using cs that launch_ok(2) by cases blast+
  have "bt_waiting s' = bt_waiting s \<and> bt_ridRecv s' = bt_ridRecv s \<and> bt_input s' = bt_input s \<and> bt_state s' = bt_state s \<and>
      bt_successes s' = bt_successes s"
    using cs
  proof cases
    case 2
    show ?thesis using launch_ok(3-6,8) [OF 2(2,1)] by simp
  qed simp
  then show "bt_waiting s' = bt_waiting s" "bt_ridRecv s' = bt_ridRecv s" "bt_input s' = bt_input s" "bt_state s' = bt_state s"
    "bt_successes s' = bt_successes s" by simp_all
  show "bt_flights s' \<noteq> []" if "fl_inv r0 A s" "live s"
    using cs
  proof cases
    case 1
    then have "bt_openCount s = int (length (bt_flights s))" "1 \<le> bt_openCount s" using that by (simp_all add: fl_inv_def)
    then show ?thesis using 1(1) by auto
  next
    case 2
    then show ?thesis using launch_ok(7) by blast
  qed
qed

definition bo_inv :: "int \<Rightarrow> bosh_run \<Rightarrow> bool" where
  "bo_inv r0 w \<longleftrightarrow> in_inv r0 (br_answers w) (br_read w) (bt_waiting (br_bosh w)) (bt_ridRecv (br_bosh w)) (bt_input (br_bosh w)) \<and>
     fl_inv r0 (br_answers w) (br_bosh w) \<and> out_inv r0 (br_written w) (br_bosh w) \<and>
     (bt_state (br_bosh w) = CH_Connected \<longrightarrow> bt_flights (br_bosh w) \<noteq> [] \<or> 0 < bt_timed (br_bosh w))"

text \<open>A reply whose flight has been taken.\<close>

lemma fl_inv_take:
  assumes "fl_inv r0 A s" and "bt_flights s = a @ f # b" and "\<not> live s" and "bt_state s \<noteq> CH_Connecting"
  shows "fl_inv r0 A (s\<lparr>bt_flights := a @ b\<rparr>)"
  using assms by (auto simp: fl_inv_def live_def split: option.splits)

lemma fl_inv_fail:
  assumes "fl_inv r0 A s" and "bt_flights s = a @ f # b" and "live s" and "bt_flights s' = a @ b" and "bt_rid s' = bt_rid s"
    and "\<not> live s'" and "bt_state s' \<noteq> CH_Connecting"
  shows "fl_inv r0 A s'"
  using assms by (auto simp: fl_inv_def live_def split: option.splits)

lemma fl_inv_retry:
  assumes "fl_inv r0 A s" and "bt_flights s = a @ f # b" and "flight_rid f = Some r" and "live s" and "flight_rid g = Some r"
    and "bt_flights s' = a @ b @ [g]" "bt_rid s' = bt_rid s" "bt_openCount s' = bt_openCount s" "bt_open s' = bt_open s"
    and "bt_state s' = bt_state s"
  shows "fl_inv r0 A s'"
  using assms by (auto simp: fl_inv_def live_def)

lemma fl_inv_answer:
  assumes inv: "fl_inv r0 A s" and f: "bt_flights s = a @ f # b" "flight_rid f = Some r" and l: "live s"
    and s': "bt_flights s' = a @ b" "bt_rid s' = bt_rid s" "bt_openCount s' = bt_openCount s - 1" "bt_open s' = sm_erase r (bt_open s)"
    and st: "bt_state s' = bt_state s \<or> bt_state s' = CH_Unconnected"
  shows "fl_inv r0 (A @ [(r, d)]) s'"
proof -
  have d: "distinct (rids a @ r # rids b)" using inv f by (simp add: fl_inv_def)
  have er: "map_of (sm_erase r (bt_open s)) k \<noteq> None \<longleftrightarrow> k \<in> set (rids (a @ b))" for k
  proof -
    have "map_of (bt_open s) k \<noteq> None \<longleftrightarrow> k \<in> set (rids a @ r # rids b)" using inv f l unfolding fl_inv_def by simp
    then show ?thesis using d by auto
  qed
  have len: "bt_openCount s - 1 = int (length (a @ b))" using inv l f(1) by (simp add: fl_inv_def)
  have r: "r0 < r" "r \<le> bt_rid s" "r \<notin> fst ` set A" using inv f by (auto simp: fl_inv_def)
  have st': "bt_state s' \<noteq> CH_Connecting" using st l by (auto simp: live_def)
  have all: "\<forall>g \<in> set (a @ b). flight_rid g \<noteq> None" using inv f l by (auto simp: fl_inv_def live_def)
  have old: "\<forall>k \<in> set (rids (a @ b)). r0 < k \<and> k \<le> bt_rid s \<and> k \<notin> fst ` set A" "\<forall>k \<in> fst ` set A. k \<le> bt_rid s" "r0 \<le> bt_rid s"
    using inv f by (simp_all add: fl_inv_def)
  show ?thesis unfolding fl_inv_def s'
  proof (intro conjI impI)
    show "distinct (rids (a @ b))" using d by auto
    show "\<forall>k \<in> set (rids (a @ b)). r0 < k \<and> k \<le> bt_rid s \<and> k \<notin> fst ` set (A @ [(r, d)])" using old(1) d by auto
    show "\<forall>k \<in> fst ` set (A @ [(r, d)]). k \<le> bt_rid s" using old(2) r by auto
  qed (use er len st' all old(3) in \<open>simp_all\<close>)
qed

subsection \<open>Replies\<close>

lemma insert_waiting_ok:
  assumes "in_inv r0 A rd (bt_waiting s) (bt_ridRecv s) (bt_input s)"
  obtains W n i where "insertWaitingInputData s = s\<lparr>bt_waiting := W, bt_ridRecv := n, bt_input := i\<rparr>" "in_inv r0 A rd W n i"
proof -
  obtain W n i where e: "insertWaiting (bt_waiting s) (bt_ridRecv s) (bt_input s) = (W, n, i)" by (metis prod_cases3)
  then have "in_inv r0 A rd W n i" using in_inv_drain [OF assms] by blast
  then show thesis using that e by (simp add: insertWaitingInputData_def)
qed

text \<open>The run before the transport changed, and after.\<close>

lemma answered_ok:
  assumes inv: "in_inv r0 A rd (bt_waiting s) (bt_ridRecv s) (bt_input s)" "fl_inv r0 A s" "out_inv r0 wr s"
    and f: "bt_flights s = a @ f # b" "flight_rid f = Some r" "live s"
    and s1: "s1 = s\<lparr>bt_flights := a @ b, bt_successes := x, bt_errors := y\<rparr>" and s': "s' = bt_answered body r cb s1"
  shows "in_inv r0 (A @ [(r, np_content body)]) rd (bt_waiting s') (bt_ridRecv s') (bt_input s')"
    "fl_inv r0 (A @ [(r, np_content body)]) s'" "out_inv r0 wr s'" "0 < bt_timed s'" "bt_successes s' = x"
proof -
  have r: "r0 < r" "r \<notin> fst ` set A" using inv(2) f by (auto simp: fl_inv_def)
  define s2 where "s2 = s1\<lparr>bt_open := sm_erase r (bt_open s1), bt_openCount := bt_openCount s1 - 1,
      bt_waiting := sm_insert r (np_content body) (bt_waiting s1)\<rparr>"
  define t where "t = (if np_attribute ''type'' body \<noteq> [] then failRequest Eof (''Server sent type='' @ np_attribute ''type'' body) cb s2
      else asyncNotify cb NoError s2)"
  have t: "s' = notify_changed ((insertWaitingInputData t)\<lparr>bt_timed := bt_timed (insertWaitingInputData t) + 1\<rparr>)"
    unfolding s' bt_answered_def Let_def t_def s2_def by simp
  let ?q = "case cb of None \<Rightarrow> [] | Some n \<Rightarrow> [BoshCall (Some n) NoError]"
  have "\<exists>q st. t = s2\<lparr>bt_tasks := q, bt_state := st\<rparr> \<and> (st = bt_state s2 \<or> st = CH_Unconnected)"
  proof (cases "np_attribute ''type'' body = []")
    case True
    then have "t = s2\<lparr>bt_tasks := bt_tasks s2 @ ?q, bt_state := bt_state s2\<rparr>" by (simp add: t_def asyncNotify_eq)
    then show ?thesis by blast
  next
    case False
    then have "t = s2\<lparr>bt_tasks := (bt_tasks s2 @ (if bt_changed s2 then [BoshChanged] else [])) @ ?q, bt_state := CH_Unconnected\<rparr>"
      by (simp add: t_def failRequest_def asyncNotify_eq notify_changed_eq Let_def)
    then show ?thesis by blast
  qed
  then obtain q st where q: "t = s2\<lparr>bt_tasks := q, bt_state := st\<rparr>" "st = bt_state s2 \<or> st = CH_Unconnected" by blast
  have "in_inv r0 (A @ [(r, np_content body)]) rd (bt_waiting t) (bt_ridRecv t) (bt_input t)"
    using in_inv_answer [OF inv(1) r(2)] r(1) by (simp add: q(1) s2_def s1)
  then obtain W n i where i: "insertWaitingInputData t = t\<lparr>bt_waiting := W, bt_ridRecv := n, bt_input := i\<rparr>"
    "in_inv r0 (A @ [(r, np_content body)]) rd W n i" by (rule insert_waiting_ok)
  have e: "s' = notify_changed (t\<lparr>bt_waiting := W, bt_ridRecv := n, bt_input := i, bt_timed := bt_timed t + 1\<rparr>)"
    unfolding t i(1) by simp
  show "in_inv r0 (A @ [(r, np_content body)]) rd (bt_waiting s') (bt_ridRecv s') (bt_input s')" "0 < bt_timed s'" "bt_successes s' = x"
    using i(2) by (simp_all add: e notify_changed_eq q(1) s2_def s1)
  show "fl_inv r0 (A @ [(r, np_content body)]) s'"
    by (rule fl_inv_answer [OF inv(2) f]) (use q(2) in \<open>simp_all add: e notify_changed_eq q(1) s2_def s1\<close>)
  show "out_inv r0 wr s'"
    by (rule out_inv_less [OF inv(3)]) (simp_all add: e notify_changed_eq q(1) s2_def s1 split: if_splits)
qed

end
