(* ===== verification/Sf_BoshProps.thy ===== *)
theory Sf_BoshProps
  imports Sf_BoshInv
begin

text \<open>
  The steps of a BOSH transport keep the invariant, and what follows for every run.
\<close>

subsection \<open>What a reply does\<close>

lemma failRequest_eq:
  "\<exists>q st e m. failRequest r msg cb s = s\<lparr>bt_tasks := q, bt_state := st, bt_error := e, bt_errorMessage := m\<rparr> \<and>
     (st = CH_Unconnected \<or> st = CH_Other)"
proof (cases "r = Eof")
  case True
  have "failRequest r msg cb s = s\<lparr>bt_tasks := (bt_tasks s @ (if bt_changed s then [BoshChanged] else [])) @
      (case cb of None \<Rightarrow> [] | Some n \<Rightarrow> [BoshCall (Some n) NoError]), bt_state := CH_Unconnected, bt_error := bt_error s,
      bt_errorMessage := bt_errorMessage s\<rparr>"
    using True by (simp add: failRequest_def asyncNotify_eq notify_changed_eq Let_def)
  then show ?thesis by blast
next
  case False
  have "failRequest r msg cb s = s\<lparr>bt_tasks := (bt_tasks s @ (if bt_changed s then [BoshChanged] else [])) @
      (case cb of None \<Rightarrow> [] | Some n \<Rightarrow> [BoshCall (Some n) (bt_error s)]), bt_state := CH_Other, bt_error := r,
      bt_errorMessage := msg\<rparr>"
    using False by (simp add: failRequest_def asyncNotify_eq notify_changed_eq Let_def split: option.split)
  then show ?thesis by blast
qed

definition fails_to :: "bosh_env \<Rightarrow> http_response option \<Rightarrow> bosh_transport \<Rightarrow> bosh_transport \<Rightarrow> bool" where
  "fails_to E response s s' \<longleftrightarrow>
     (\<exists>q st e m x y z. s' = s\<lparr>bt_tasks := q, bt_state := st, bt_error := e, bt_errorMessage := m, bt_successes := x,
        bt_errors := y, bt_sumErrors := z\<rparr> \<and> (st = CH_Unconnected \<or> st = CH_Other) \<and>
        (x \<noteq> bt_successes s \<longrightarrow> answer_body E response = None))"

definition retries_to :: "int \<Rightarrow> nat option \<Rightarrow> bosh_transport \<Rightarrow> bosh_transport \<Rightarrow> bool" where
  "retries_to rid cb s s' \<longleftrightarrow>
     (\<exists>x y z. map_of (bt_open s) rid = Some x \<and>
        s' = executeRequest x (bt_longPoll s) (RequestReply rid cb) (s\<lparr>bt_errors := y, bt_sumErrors := z\<rparr>))"

definition answers_to :: "bosh_env \<Rightarrow> http_response option \<Rightarrow> int \<Rightarrow> nat option \<Rightarrow> bosh_transport \<Rightarrow> bosh_transport \<Rightarrow> bool" where
  "answers_to E response rid cb s s' \<longleftrightarrow>
     (\<exists>b y. answer_body E response = Some b \<and>
        s' = bt_answered b rid cb (s\<lparr>bt_successes := bt_successes s + 1, bt_errors := y\<rparr>))"

lemma failRequest_fails:
  assumes "x \<noteq> bt_successes s \<Longrightarrow> answer_body E response = None"
  shows "fails_to E response s (failRequest r msg cb (s\<lparr>bt_successes := x, bt_errors := y, bt_sumErrors := z\<rparr>))"
proof -
  let ?s = "s\<lparr>bt_successes := x, bt_errors := y, bt_sumErrors := z\<rparr>"
  obtain q st e m where "failRequest r msg cb ?s = ?s\<lparr>bt_tasks := q, bt_state := st, bt_error := e, bt_errorMessage := m\<rparr>"
    "st = CH_Unconnected \<or> st = CH_Other" using failRequest_eq by metis
  then show ?thesis using assms unfolding fails_to_def
    by (intro exI [of _ q] exI [of _ st] exI [of _ e] exI [of _ m] exI [of _ x] exI [of _ y] exI [of _ z]) simp
qed

lemma retry_cases:
  assumes "bt_retry result rid cb s = Done s'"
  shows "fails_to E response s s' \<or> retries_to rid cb s s'"
proof (cases "bt_errors s + 1 > mMaxErrorCount")
  case True
  then have "s' = failRequest result ''To many HTTP errors'' cb
      (s\<lparr>bt_successes := bt_successes s, bt_errors := bt_errors s + 1, bt_sumErrors := bt_sumErrors s + 1\<rparr>)"
    using assms by (simp add: bt_retry_def Let_def)
  then show ?thesis using failRequest_fails by blast
next
  case False
  then obtain x where "map_of (bt_open s) rid = Some x"
    "s' = executeRequest x (bt_longPoll s) (RequestReply rid cb) (s\<lparr>bt_errors := bt_errors s + 1, bt_sumErrors := bt_sumErrors s + 1\<rparr>)"
    using assms by (auto simp: bt_retry_def Let_def split: option.splits)
  then show ?thesis unfolding retries_to_def by blast
qed

lemma reply_cases:
  assumes run: "onRequestReply E result response rid cb s = Done s'" and l: "live s"
  shows "fails_to E response s s' \<or> retries_to rid cb s s' \<or> answers_to E response rid cb s s'"
proof (cases "bt_authenticated s \<and> (response = None \<or> \<not> rs_authenticated (the response))")
  case True
  then have "s' = failRequest AuthError ''Lost authentication'' cb
      (s\<lparr>bt_successes := bt_successes s, bt_errors := bt_errors s, bt_sumErrors := bt_sumErrors s\<rparr>)"
    using run l by (auto simp: onRequestReply_def live_def split: if_splits)
  then show ?thesis using failRequest_fails by blast
next
  case False
  note auth = this
  show ?thesis
  proof (cases "failed result \<or> (\<exists>r. response = Some r \<and> rs_resultCode r \<noteq> 200)")
    case True
    then have "bt_retry result rid cb s = Done s'"
      using run l auth by (auto simp: onRequestReply_def live_def split: if_splits)
    then show ?thesis using retry_cases by blast
  next
    case False
    define y where "y = (if bt_errors s > 0 then bt_errors s - 1 else bt_errors s)"
    define s1 where "s1 = s\<lparr>bt_successes := bt_successes s + 1, bt_errors := y\<rparr>"
    obtain r x where r: "response = Some r" "rs_resultCode r = 200" "rs_data r = Some x"
      using run l auth False by (auto simp: onRequestReply_def live_def Let_def split: if_splits option.splits)
    have eq: "(case np_parse (be_parse E) x of Inl e \<Rightarrow> Done (failRequest e ''Parse error'' cb s1)
        | Inr body \<Rightarrow> Done (bt_answered body rid cb s1)) = Done s'"
    proof -
      have "bt_state s = CH_Connected \<or> bt_state s = CH_Closing" using l by (simp add: live_def)
      then have "onRequestReply E result response rid cb s = (case np_parse (be_parse E) x of
          Inl e \<Rightarrow> Done (failRequest e ''Parse error'' cb s1) | Inr body \<Rightarrow> Done (bt_answered body rid cb s1))"
        using auth False r unfolding onRequestReply_def Let_def s1_def y_def by (auto split del: if_split)
      then show ?thesis using run by simp
    qed
    show ?thesis
    proof (cases "np_parse (be_parse E) x")
      case (Inl e)
      then have "s' = failRequest e ''Parse error'' cb (s\<lparr>bt_successes := bt_successes s + 1, bt_errors := y, bt_sumErrors := bt_sumErrors s\<rparr>)"
        "answer_body E response = None"
        using eq r by (simp_all add: s1_def answer_body_def)
      then show ?thesis using failRequest_fails by blast
    next
      case (Inr b)
      then have "s' = bt_answered b rid cb s1" "answer_body E response = Some b" using eq r by (simp_all add: answer_body_def)
      then show ?thesis unfolding answers_to_def s1_def by blast
    qed
  qed
qed

text \<open>The invariant of a run, with its parts named.\<close>

definition bo :: "int \<Rightarrow> (int \<times> bytes) list \<Rightarrow> bytes \<Rightarrow> bytes \<Rightarrow> bosh_transport \<Rightarrow> bool" where
  "bo r0 A rd wr s \<longleftrightarrow> in_inv r0 A rd (bt_waiting s) (bt_ridRecv s) (bt_input s) \<and> fl_inv r0 A s \<and> out_inv r0 wr s \<and>
     (bt_state s = CH_Connected \<longrightarrow> bt_flights s \<noteq> [] \<or> 0 < bt_timed s)"

lemma bo_inv_bo: "bo_inv r0 w \<longleftrightarrow> bo r0 (br_answers w) (br_read w) (br_written w) (br_bosh w)"
  by (simp add: bo_inv_def bo_def)

lemma bo_cong:
  assumes "bo r0 A rd wr s" and "bt_flights s' = bt_flights s" "bt_rid s' = bt_rid s" "bt_openCount s' = bt_openCount s"
    "bt_open s' = bt_open s" "bt_ridRecv s' = bt_ridRecv s" "bt_waiting s' = bt_waiting s" "bt_input s' = bt_input s"
    "bt_sent s' = bt_sent s" "bt_url s' = bt_url s" "bt_output s' = bt_output s" "bt_state s' = bt_state s" "bt_timed s \<le> bt_timed s'"
  shows "bo r0 A rd wr s'"
  using assms fl_inv_cong [of r0 A s s'] out_inv_cong [of r0 wr s s'] by (auto simp: bo_def)

lemma connected_not_connecting: "live s \<Longrightarrow> bt_state s \<noteq> CH_Connecting"
  by (auto simp: live_def)

lemma retried_out:
  assumes "out_inv r0 wr s" and "map_of (bt_open s) r = Some x" and "flight_rid g = Some r"
    and "bf_request g = bosh_post (bt_url s) x"
    and "bt_sent s' = bt_sent s @ [g]" "bt_rid s' = bt_rid s" "bt_open s' = bt_open s" "bt_url s' = bt_url s" "bt_output s' = bt_output s"
  shows "out_inv r0 wr s'"
proof -
  from assms(1) obtain ats parts where *: "r0 \<le> bt_rid s"
    "\<And>f r. f \<in> set (bt_sent s) \<Longrightarrow> flight_rid f = Some r \<Longrightarrow> r0 < r \<and> r \<le> bt_rid s \<and>
        (\<exists>tx. nb_body (ats r) (parts r) = Done tx \<and> bf_request f = bosh_post (bt_url s) tx)"
    "\<And>r. r0 < r \<Longrightarrow> r \<le> bt_rid s \<Longrightarrow> \<exists>f \<in> set (bt_sent s). flight_rid f = Some r"
    "\<And>r tx. map_of (bt_open s) r = Some tx \<Longrightarrow> r0 < r \<and> r \<le> bt_rid s \<and> nb_body (ats r) (parts r) = Done tx"
    "concat (map (\<lambda>r. concat (parts r)) [r0 + 1..bt_rid s]) @ concat (bt_output s) = wr"
    by (rule out_invE) blast
  show ?thesis
  proof (rule out_invI [where ats = ats and parts = parts])
    fix f k assume "f \<in> set (bt_sent s')" "flight_rid f = Some k"
    then show "r0 < k \<and> k \<le> bt_rid s' \<and> (\<exists>tx. nb_body (ats k) (parts k) = Done tx \<and> bf_request f = bosh_post (bt_url s') tx)"
      using *(2) *(4) [OF assms(2)] assms(3-9) by auto
  next
    fix k assume "r0 < k" "k \<le> bt_rid s'"
    then show "\<exists>f \<in> set (bt_sent s'). flight_rid f = Some k" using *(3) assms(5,6) by auto
  qed (use *(1,4,5) assms(5-9) in simp_all)
qed

text \<open>One of the requests is answered by the HTTP context.\<close>

lemma bosh_reply_ok:
  assumes inv: "bo r0 A rd wr s" and n: "n < length (bt_flights s)" and cb: "bf_callback (bt_flights s ! n) = RequestReply rid cb"
    and run: "bt_reply E n e resp s = Done s'"
  shows "bo r0 (A @ taken E (BtReply n e resp) s s') rd wr s'"
proof -
  have inI: "in_inv r0 A rd (bt_waiting s) (bt_ridRecv s) (bt_input s)" and fl: "fl_inv r0 A s" and out: "out_inv r0 wr s"
    using inv by (simp_all add: bo_def)
  obtain a b where ab: "bt_flights s = a @ bt_flights s ! n # b" "take n (bt_flights s) @ drop (Suc n) (bt_flights s) = a @ b"
    using flight_split [OF n] .
  let ?f = "bt_flights s ! n" and ?s = "s\<lparr>bt_flights := a @ b\<rparr>"
  have f: "flight_rid ?f = Some rid" using cb by (simp add: flight_rid_def)
  have r: "onRequestReply E e resp rid cb ?s = Done s'" using run n cb ab(2) by (simp add: bt_reply_def)
  have nc: "bt_state s \<noteq> CH_Connecting"
  proof
    assume "bt_state s = CH_Connecting"
    then obtain g where "bt_flights s = [g]" "flight_rid g = None" using fl by (auto simp: fl_inv_def)
    then show False using f n by simp
  qed
  have tk: "taken E (BtReply n e resp) s s' = (case answer_body E resp of None \<Rightarrow> [] | Some b \<Rightarrow>
      if bt_successes s' \<noteq> bt_successes s then [(rid, np_content b)] else [])"
    using n cb by (simp add: taken_def split: option.split)
  show ?thesis
  proof (cases "live s")
    case False
    then have "s' = ?s" using r by (auto simp: onRequestReply_def live_def)
    moreover have "bo r0 A rd wr ?s"
      using inI out fl_inv_take [OF fl ab(1) False nc] out_inv_cong [OF out, of ?s] False by (simp add: bo_def live_def)
    ultimately show ?thesis unfolding tk by (auto split: option.split)
  next
    case True
    then have l: "live ?s" by (simp add: live_def)
    from reply_cases [OF r l] consider "fails_to E resp ?s s'" | "retries_to rid cb ?s s'" | "answers_to E resp rid cb ?s s'" by blast
    then show ?thesis
    proof cases
      case 1
      then obtain q st er m x y z where s': "s' = ?s\<lparr>bt_tasks := q, bt_state := st, bt_error := er, bt_errorMessage := m, bt_successes := x,
          bt_errors := y, bt_sumErrors := z\<rparr>" "st = CH_Unconnected \<or> st = CH_Other"
        and x: "x \<noteq> bt_successes ?s \<longrightarrow> answer_body E resp = None" unfolding fails_to_def by blast
      have "bt_successes s' = x" by (simp add: s'(1))
      then have "taken E (BtReply n e resp) s s' = []" unfolding tk using x by (auto split: option.split)
      moreover have "fl_inv r0 A s'"
        by (rule fl_inv_fail [OF fl ab(1) True]) (use s' in \<open>auto simp: live_def\<close>)
      moreover have "out_inv r0 wr s'" by (rule out_inv_cong [OF out]) (simp_all add: s'(1))
      ultimately show ?thesis using inI s' by (auto simp: bo_def)
    next
      case 2
      then obtain x y z where x: "map_of (bt_open s) rid = Some x"
        "s' = executeRequest x (bt_longPoll ?s) (RequestReply rid cb) (?s\<lparr>bt_errors := y, bt_sumErrors := z\<rparr>)" unfolding retries_to_def by auto
      let ?g = "\<lparr>bf_request = bosh_post (bt_url s) x, bf_timeOut = bt_longPoll s, bf_callback = RequestReply rid cb\<rparr>"
      have s': "s' = s\<lparr>bt_flights := a @ b @ [?g], bt_sent := bt_sent s @ [?g], bt_errors := y, bt_sumErrors := z\<rparr>"
        unfolding x(2) by (simp add: executeRequest_def Let_def)
      have g: "flight_rid ?g = Some rid" by (simp add: flight_rid_def)
      have "bt_successes s' = bt_successes s" by (simp add: s')
      then have "taken E (BtReply n e resp) s s' = []" unfolding tk by (simp split: option.split)
      moreover have "fl_inv r0 A s'" by (rule fl_inv_retry [OF fl ab(1) f True g]) (simp_all add: s')
      moreover have "out_inv r0 wr s'" by (rule retried_out [OF out x(1) g]) (simp_all add: s')
      ultimately show ?thesis using inI by (simp add: bo_def s')
    next
      case 3
      then obtain body y where bd: "answer_body E resp = Some body"
        "s' = bt_answered body rid cb (?s\<lparr>bt_successes := bt_successes ?s + 1, bt_errors := y\<rparr>)" unfolding answers_to_def by blast
      note an = answered_ok [OF inI fl out ab(1) f True _ bd(2), where x = "bt_successes s + 1" and y = y, simplified]
      have "taken E (BtReply n e resp) s s' = [(rid, np_content body)]" using an(5) bd(1) by (simp add: tk)
      then show ?thesis using an(1-4) by (simp add: bo_def)
    qed
  qed
qed

text \<open>The connection is answered.\<close>

definition refused_to :: "bosh_transport \<Rightarrow> bosh_transport \<Rightarrow> bool" where
  "refused_to s s' \<longleftrightarrow>
     (\<exists>q er m au sid lp. s' = s\<lparr>bt_tasks := q, bt_state := CH_Other, bt_error := er, bt_errorMessage := m,
        bt_authenticated := au, bt_sid := sid, bt_longPoll := lp\<rparr>)"

definition connected_to :: "bosh_env \<Rightarrow> http_response option \<Rightarrow> bosh_transport \<Rightarrow> bosh_transport \<Rightarrow> bool" where
  "connected_to E response s s' \<longleftrightarrow>
     (\<exists>b t q q' au sid lp. answer_body E response = Some b \<and>
        continueWorking (s\<lparr>bt_tasks := q, bt_authenticated := au, bt_sid := sid, bt_longPoll := lp, bt_state := CH_Connected,
          bt_input := bt_input s @ np_content b, bt_ridRecv := bt_ridRecv s + 1\<rparr>) = Done t \<and> s' = t\<lparr>bt_tasks := q'\<rparr>)"

lemma failConnect_refused:
  "refused_to s (failConnect e cb msg (s\<lparr>bt_authenticated := au, bt_sid := sid, bt_longPoll := lp\<rparr>))"
proof -
  let ?s = "s\<lparr>bt_authenticated := au, bt_sid := sid, bt_longPoll := lp\<rparr>"
  obtain q where "notify_changed (asyncNotify cb e ?s) = ?s\<lparr>bt_tasks := q\<rparr>" by (simp add: notify_changed_eq asyncNotify_eq)
  then show ?thesis unfolding refused_to_def failConnect_def
    by (intro exI [of _ q] exI [of _ e] exI [of _ msg] exI [of _ au] exI [of _ sid] exI [of _ lp]) simp
qed

lemma connected_cases:
  assumes run: "bt_connected b lp cb (s\<lparr>bt_authenticated := au, bt_sid := sid\<rparr>) = Done s'" and b: "answer_body E response = Some b"
  shows "refused_to s s' \<or> connected_to E response s s'"
proof (cases "np_attribute ''type'' b = []")
  case False
  then have "s' = failConnect CouldNotConnectHost cb (''opponent sent type='' @ np_attribute ''type'' b)
      (s\<lparr>bt_authenticated := au, bt_sid := sid, bt_longPoll := lp\<rparr>)"
    using run by (simp add: bt_connected_def Let_def)
  then show ?thesis using failConnect_refused by blast
next
  case True
  let ?s2 = "s\<lparr>bt_authenticated := au, bt_sid := sid, bt_longPoll := lp, bt_state := CH_Connected,
      bt_input := bt_input s @ np_content b, bt_ridRecv := bt_ridRecv s + 1\<rparr>"
  let ?q = "bt_tasks s @ (case cb of None \<Rightarrow> [] | Some n \<Rightarrow> [BoshCall (Some n) NoError])"
  obtain t where t: "continueWorking (asyncNotify cb NoError ?s2) = Done t" "s' = notify_changed t"
    using run True by (cases "continueWorking (asyncNotify cb NoError ?s2)") (auto simp: bt_connected_def Let_def)
  have "asyncNotify cb NoError ?s2 = s\<lparr>bt_tasks := ?q, bt_authenticated := au, bt_sid := sid, bt_longPoll := lp, bt_state := CH_Connected,
      bt_input := bt_input s @ np_content b, bt_ridRecv := bt_ridRecv s + 1\<rparr>"
    by (simp add: asyncNotify_eq)
  then show ?thesis using t b unfolding connected_to_def notify_changed_eq by metis
qed

lemma connect_cases:
  assumes run: "onConnectReply E e response cb s = Done s'" and st: "bt_state s = CH_Connecting"
  shows "refused_to s s' \<or> connected_to E response s s'"
proof (cases "failed e \<or> (\<exists>r. response = Some r \<and> rs_resultCode r \<noteq> 200)")
  case True
  then obtain er msg where "s' = failConnect er cb msg
      (s\<lparr>bt_authenticated := bt_authenticated s, bt_sid := bt_sid s, bt_longPoll := bt_longPoll s\<rparr>)"
    using run st by (auto simp: onConnectReply_def split: if_splits)
  then show ?thesis using failConnect_refused by blast
next
  case False
  then obtain r x where r: "response = Some r" "rs_resultCode r = 200" "rs_data r = Some x"
    using run st by (auto simp: onConnectReply_def Let_def split: option.splits)
  let ?s1 = "s\<lparr>bt_authenticated := rs_authenticated r\<rparr>"
  show ?thesis
  proof (cases "np_parse (be_parse E) x")
    case (Inl er)
    then have "s' = failConnect er cb ''parse''
        (s\<lparr>bt_authenticated := rs_authenticated r, bt_sid := bt_sid s, bt_longPoll := bt_longPoll s\<rparr>)"
      using run st False r by (simp add: onConnectReply_def Let_def)
    then show ?thesis using failConnect_refused by blast
  next
    case (Inr b)
    have ab: "answer_body E response = Some b" using r Inr by (simp add: answer_body_def)
    let ?s2 = "?s1\<lparr>bt_sid := np_attribute ''sid'' b\<rparr>"
    have eq: "(if bt_sid ?s2 = [] then Done (failConnect BadProtocol cb ''parse'' ?s2)
       else if np_attribute ''wait'' b = [] then bt_connected b 60000 cb ?s2
       else (case be_int E (np_attribute ''wait'' b) of
               None \<Rightarrow> Done (failConnect BadProtocol cb ''bad wait response'' ?s2)
             | Some n \<Rightarrow> bt_connected b (to_ms n) cb ?s2)) = Done s'"
      using run st False r Inr by (simp add: onConnectReply_def Let_def split del: if_split)
    consider msg where "s' = failConnect BadProtocol cb msg
        (s\<lparr>bt_authenticated := rs_authenticated r, bt_sid := np_attribute ''sid'' b, bt_longPoll := bt_longPoll s\<rparr>)"
      | lp where "bt_connected b lp cb ?s2 = Done s'"
      using eq by (auto split: if_splits option.splits)
    then show ?thesis
    proof cases
      case 1
      then show ?thesis using failConnect_refused by blast
    next
      case 2
      then show ?thesis using connected_cases [OF _ ab] by blast
    qed
  qed
qed

lemma connect_reply_ok:
  assumes inv: "bo r0 A rd wr s" and n: "n < length (bt_flights s)" and cb: "bf_callback (bt_flights s ! n) = ConnectReply cb"
    and run: "bt_reply E n e resp s = Done s'"
  shows "bo r0 (A @ taken E (BtReply n e resp) s s') rd wr s'"
proof -
  have inI: "in_inv r0 A rd (bt_waiting s) (bt_ridRecv s) (bt_input s)" and fl: "fl_inv r0 A s" and out: "out_inv r0 wr s"
    using inv by (simp_all add: bo_def)
  have "flight_rid (bt_flights s ! n) = None" "bt_flights s ! n \<in> set (bt_flights s)" using n cb by (simp_all add: flight_rid_def)
  then have st: "bt_state s = CH_Connecting" using fl unfolding fl_inv_def by blast
  then obtain f where f: "bt_flights s = [f]" "bt_rid s = r0" "bt_ridRecv s = r0" "A = []" "bt_open s = []" "bt_openCount s = 0"
    using fl by (auto simp: fl_inv_def)
  let ?s = "s\<lparr>bt_flights := []\<rparr>"
  have r: "onConnectReply E e resp cb ?s = Done s'" using run n cb f(1) by (simp add: bt_reply_def)
  have tk: "taken E (BtReply n e resp) s s' = (case answer_body E resp of None \<Rightarrow> [] | Some b \<Rightarrow>
      if bt_state s' = CH_Connected then [(r0, np_content b)] else [])"
    using n cb st f(2) by (simp add: taken_def split: option.split)
  have none: "map_of (bt_waiting s) k = None" for k using inI f(3,4) unfolding in_inv_def by simp
  have wt: "bt_waiting s = []"
  proof (cases "bt_waiting s")
    case (Cons x m)
    then show ?thesis using none [of "fst x"] by (cases x) simp
  qed simp
  have "rd @ bt_input s = []" using inI f(3,4) unfolding in_inv_def by simp
  then have rd: "rd = []" "bt_input s = []" by simp_all
  from connect_cases [OF r] st consider "refused_to ?s s'" | "connected_to E resp ?s s'" by auto
  then show ?thesis
  proof cases
    case 1
    then obtain q er m au sid lp where s': "s' = ?s\<lparr>bt_tasks := q, bt_state := CH_Other, bt_error := er, bt_errorMessage := m,
        bt_authenticated := au, bt_sid := sid, bt_longPoll := lp\<rparr>" unfolding refused_to_def by blast
    have "bt_state s' = CH_Other" by (simp add: s')
    then have "taken E (BtReply n e resp) s s' = []" unfolding tk by (simp split: option.split)
    moreover have "fl_inv r0 A s'" using f by (simp add: fl_inv_def s' live_def)
    moreover have "out_inv r0 wr s'" by (rule out_inv_cong [OF out]) (simp_all add: s')
    ultimately show ?thesis using inI by (simp add: bo_def s')
  next
    case 2
    then obtain b t q q' au sid lp where b: "answer_body E resp = Some b" and s': "s' = t\<lparr>bt_tasks := q'\<rparr>"
      and run: "continueWorking (?s\<lparr>bt_tasks := q, bt_authenticated := au, bt_sid := sid, bt_longPoll := lp, bt_state := CH_Connected,
          bt_input := bt_input ?s @ np_content b, bt_ridRecv := bt_ridRecv ?s + 1\<rparr>) = Done t" unfolding connected_to_def by blast
    let ?c = "?s\<lparr>bt_tasks := q, bt_authenticated := au, bt_sid := sid, bt_longPoll := lp, bt_state := CH_Connected,
          bt_input := bt_input ?s @ np_content b, bt_ridRecv := bt_ridRecv ?s + 1\<rparr>"
    note c = continue_ok [OF run]
    have fc: "fl_inv r0 [(r0, np_content b)] ?c" using f by (simp add: fl_inv_def live_def)
    have oc: "out_inv r0 wr ?c" by (rule out_inv_cong [OF out]) simp_all
    have "bt_state s' = CH_Connected" using c(6) by (simp add: s')
    then have t: "taken E (BtReply n e resp) s s' = [(r0, np_content b)]" using b by (simp add: tk)
    have "in_inv r0 [(r0, np_content b)] [] [] (r0 + 1) (np_content b)" by (auto simp: in_inv_def)
    moreover have "fl_inv r0 [(r0, np_content b)] s'" by (rule fl_inv_cong [OF c(1) [OF fc]]) (simp_all add: s')
    moreover have "out_inv r0 wr s'" by (rule out_inv_cong [OF c(2) [OF oc]]) (simp_all add: s')
    moreover have "bt_flights s' \<noteq> []" using c(8) [OF fc] by (simp add: s' live_def)
    ultimately show ?thesis unfolding t using c(3-5) f(3,4) wt rd by (simp add: bo_def s')
  qed
qed

subsection \<open>Runs\<close>

fun connects :: "bosh_event \<Rightarrow> bool" where
  "connects (BtConnect u args t cb) \<longleftrightarrow> True"
| "connects _ \<longleftrightarrow> False"

lemma launch_bo:
  assumes "bo r0 A rd wr s" and "startNextRequest args cb s = Done s'" and "live s"
  shows "bo r0 A rd wr s'"
  using assms(1) launch_ok [OF assms(2,3)] by (simp add: bo_def)

lemma timed_bo:
  assumes inv: "bo r0 A rd wr s" and run: "continueWorking (s\<lparr>bt_timed := n\<rparr>) = Done s'"
  shows "bo r0 A rd wr s'"
proof -
  have fl: "fl_inv r0 A (s\<lparr>bt_timed := n\<rparr>)" by (rule fl_inv_cong [of r0 A s]) (use inv in \<open>simp_all add: bo_def\<close>)
  have out: "out_inv r0 wr (s\<lparr>bt_timed := n\<rparr>)" by (rule out_inv_cong [of r0 wr s]) (use inv in \<open>simp_all add: bo_def\<close>)
  note c = continue_ok [OF run]
  show ?thesis using inv c(1) [OF fl] c(2) [OF out] c(3-6) c(8) [OF fl] by (auto simp: bo_def live_def)
qed

lemma close_bo:
  assumes inv: "bo r0 A rd wr s" and run: "bt_close cb s = Done s'"
  shows "bo r0 A rd wr s'"
proof (cases "bt_state s = CH_Connected")
  case True
  then obtain t where t: "startNextRequest [(''type'', ''terminate'')] cb s = Done t" "s' = t\<lparr>bt_state := CH_Closing\<rparr>"
    using run by (cases "startNextRequest [(''type'', ''terminate'')] cb s") (auto simp: bt_close_def)
  have l: "live s" using True by (simp add: live_def)
  have bt: "bo r0 A rd wr t" by (rule launch_bo [OF inv t(1) l])
  have "bt_state t = CH_Connected" using launch_ok(6) [OF t(1) l] True by simp
  then have "fl_inv r0 A s'" using bt by (auto simp: bo_def fl_inv_def live_def t(2))
  moreover have "out_inv r0 wr s'" by (rule out_inv_cong [of r0 wr t]) (use bt in \<open>simp_all add: bo_def t(2)\<close>)
  ultimately show ?thesis using bt by (simp add: bo_def t(2))
qed (use assms in \<open>simp add: bt_close_def\<close>)

lemma br_step_ok:
  assumes inv: "bo_inv r0 w" and run: "br_step E ev w = Done w'" and nc: "\<not> connects ev"
  shows "bo_inv r0 w'"
proof -
  let ?s = "br_bosh w"
  obtain s' where st: "bt_step E ev ?s = Done s'" and w': "br_bosh w' = s'" "br_answers w' = br_answers w @ taken E ev ?s s'"
    "br_written w' = br_written w @ (case ev of BtWrite x \<Rightarrow> if fst (bt_write x ?s) = NoError then x else [] | _ \<Rightarrow> [])"
    "br_read w' = br_read w @ (case ev of BtRead n \<Rightarrow> fst (bt_read n ?s) | _ \<Rightarrow> [])"
    using run by (cases "bt_step E ev ?s") (auto simp: br_step_def)
  have bo: "bo r0 (br_answers w) (br_read w) (br_written w) ?s" using inv by (simp add: bo_inv_bo)
  show ?thesis
  proof (cases ev)
    case (BtSetChanged b)
    then have "bo r0 (br_answers w) (br_read w) (br_written w) s'" using st by (intro bo_cong [OF bo]) auto
    then show ?thesis using BtSetChanged w' by (simp add: bo_inv_bo taken_def)
  next
    case (BtConnect u args t cb)
    then show ?thesis using nc by simp
  next
    case BtRestart
    have "bo r0 (br_answers w) (br_read w) (br_written w) s'"
    proof (cases "bt_state ?s = CH_Connected")
      case True
      then show ?thesis using st BtRestart launch_bo [OF bo] by (simp add: bt_restart_def live_def)
    qed (use st BtRestart bo in \<open>simp add: bt_restart_def\<close>)
    then show ?thesis using BtRestart w' by (simp add: bo_inv_bo taken_def)
  next
    case (BtWrite x)
    show ?thesis
    proof (cases "bt_state ?s = CH_Connected")
      case True
      then have s': "s' = ?s\<lparr>bt_output := bt_output ?s @ [x], bt_timed := bt_timed ?s + 1\<rparr>" "fst (bt_write x ?s) = NoError"
        using st BtWrite by (auto simp: bt_write_def)
      have "out_inv r0 (br_written w @ x) s'" by (rule out_inv_write [of r0 "br_written w" ?s]) (use bo in \<open>simp_all add: bo_def s'(1)\<close>)
      moreover have "fl_inv r0 (br_answers w) s'" by (rule fl_inv_cong [of r0 _ ?s]) (use bo in \<open>simp_all add: bo_def s'(1)\<close>)
      ultimately have "bo r0 (br_answers w) (br_read w) (br_written w @ x) s'" using bo by (simp add: bo_def s'(1))
      then show ?thesis using BtWrite w' s'(2) by (simp add: bo_inv_bo taken_def)
    next
      case False
      then have "s' = ?s" "fst (bt_write x ?s) \<noteq> NoError" using st BtWrite by (auto simp: bt_write_def)
      then show ?thesis using bo BtWrite w' by (simp add: bo_inv_bo taken_def)
    qed
  next
    case (BtRead n)
    define x i where "x = fst (bt_read n ?s)" and "i = (if n < 0 \<or> n \<ge> int (length (bt_input ?s)) then [] else drop (nat n) (bt_input ?s))"
    have x: "bt_input ?s = x @ i" "fst (bt_read n ?s) = x" "s' = ?s\<lparr>bt_input := i\<rparr>"
      using st BtRead by (auto simp: bt_read_def x_def i_def)
    have "bo r0 (br_answers w) (br_read w @ x) (br_written w) s'"
    proof -
      have "in_inv r0 (br_answers w) (br_read w @ x) (bt_waiting ?s) (bt_ridRecv ?s) i"
        using in_inv_read [of r0 _ _ _ _ x i] bo x(1) by (simp add: bo_def)
      moreover have "fl_inv r0 (br_answers w) s'" by (rule fl_inv_cong [of r0 _ ?s]) (use bo in \<open>simp_all add: bo_def x(3)\<close>)
      moreover have "out_inv r0 (br_written w) s'" by (rule out_inv_cong [of r0 _ ?s]) (use bo in \<open>simp_all add: bo_def x(3)\<close>)
      ultimately show ?thesis using bo by (simp add: bo_def x(3))
    qed
    then show ?thesis using BtRead w' x(2) by (simp add: bo_inv_bo taken_def)
  next
    case (BtClose cb)
    then have "bo r0 (br_answers w) (br_read w) (br_written w) s'" using st close_bo [OF bo] by simp
    then show ?thesis using BtClose w' by (simp add: bo_inv_bo taken_def)
  next
    case (BtReply n e resp)
    have "bo r0 (br_answers w @ taken E ev ?s s') (br_read w) (br_written w) s'"
    proof (cases "n < length (bt_flights ?s)")
      case True
      then show ?thesis using st BtReply bosh_reply_ok [OF bo True] connect_reply_ok [OF bo True]
        by (cases "bf_callback (bt_flights ?s ! n)") simp_all
    qed (use st BtReply bo in \<open>simp add: bt_reply_def taken_def\<close>)
    then show ?thesis using BtReply w' by (simp add: bo_inv_bo)
  next
    case BtTask
    then have "bo r0 (br_answers w) (br_read w) (br_written w) s'" using st
      by (intro bo_cong [OF bo]) (auto simp: bt_runTask_def split: list.splits bosh_task.splits option.splits)
    then show ?thesis using BtTask w' by (simp add: bo_inv_bo taken_def)
  next
    case BtTimed
    have "bo r0 (br_answers w) (br_read w) (br_written w) s'"
      using st BtTimed bo timed_bo [OF bo] by (auto simp: bt_runTimed_def split: if_splits)
    then show ?thesis using BtTimed w' by (simp add: bo_inv_bo taken_def)
  qed
qed

lemma br_run_ok:
  "bo_inv r0 w \<Longrightarrow> br_run E es w = Done w' \<Longrightarrow> \<forall>ev \<in> set es. \<not> connects ev \<Longrightarrow> bo_inv r0 w'"
proof (induction es arbitrary: w)
  case (Cons ev es)
  then obtain v where v: "br_step E ev w = Done v" "br_run E es v = Done w'" by (cases "br_step E ev w") auto
  then show ?case using Cons br_step_ok [OF Cons.prems(1) v(1)] by simp
qed simp

lemma connected_run:
  assumes "br_step E (BtConnect u args t cb) br_new = Done w"
  shows "bo_inv (be_random E) w"
proof -
  obtain b where "nb_addAttributes (bosh_args (be_random E) args) nb_new = Done b"
    using assms by (cases "nb_addAttributes (bosh_args (be_random E) args) nb_new") (auto simp: br_step_def bt_connect_def br_new_def bt_new_def Let_def)
  moreover obtain tx where "nb_toString b = Done tx" using nb_toString_done by blast
  ultimately have w: "w = \<lparr>br_bosh = executeRequest tx t (ConnectReply cb)
      (bt_new\<lparr>bt_url := u, bt_rid := be_random E, bt_ridRecv := be_random E, bt_state := CH_Connecting\<rparr>),
      br_written = [], br_read = [], br_answers = []\<rparr>"
    using assms by (simp add: br_step_def bt_connect_def br_new_def bt_new_def Let_def taken_def)
  have "out_inv (be_random E) [] (br_bosh w)"
    by (rule out_invI [where ats = "\<lambda>_. []" and parts = "\<lambda>_. []"])
      (auto simp: w executeRequest_def Let_def bt_new_def flight_rid_def)
  then show ?thesis
    by (auto simp: w bo_inv_def in_inv_def fl_inv_def executeRequest_def Let_def bt_new_def flight_rid_def live_def)
qed

end
