(* ===== verification/Sf_BoshSpec.thy ===== *)
theory Sf_BoshSpec
  imports Sf_BoshProps
begin

text \<open>
  What the BOSH transport promises, and where it falls short.
\<close>

subsection \<open>No undefined behaviour\<close>

definition no_marker :: "(string \<times> string) list \<Rightarrow> bool" where
  "no_marker l \<longleftrightarrow> (\<forall>a \<in> set l. fst a \<noteq> g_MagicContentMarker \<and> snd a \<noteq> g_MagicContentMarker)"

text \<open>What the user hands over, and what the HTTP context answers, with or without authentication.\<close>

definition ok_event :: "bosh_env \<Rightarrow> bool \<Rightarrow> bosh_event \<Rightarrow> bool" where
  "ok_event E auth ev \<longleftrightarrow>
     (case ev of
        BtConnect u args t cb \<Rightarrow> cb \<noteq> None \<and> no_marker args
      | BtReply n e None \<Rightarrow> failed e \<and> \<not> auth
      | BtReply n e (Some r) \<Rightarrow> (\<not> auth \<longrightarrow> \<not> rs_authenticated r) \<and> (\<not> failed e \<longrightarrow> rs_data r \<noteq> None) \<and>
          (\<forall>b. answer_body E (Some r) = Some b \<longrightarrow> np_attribute ''sid'' b \<noteq> g_MagicContentMarker)
      | _ \<Rightarrow> True)"

definition sane :: "bool \<Rightarrow> bosh_transport \<Rightarrow> bool" where
  "sane auth s \<longleftrightarrow> (live s \<longrightarrow> bt_sid s \<noteq> g_MagicContentMarker) \<and> (\<forall>e. BoshCall None e \<notin> set (bt_tasks s)) \<and>
     (bt_authenticated s \<longrightarrow> auth)"

lemma addAttributes_done: "no_marker l \<Longrightarrow> \<exists>b'. nb_addAttributes l b = Done b'"
proof (induction l arbitrary: b)
  case (Cons a l)
  then show ?case by (cases a) (simp add: no_marker_def nb_addAttribute_def)
qed simp

lemma no_C_dec: "CHR ''C'' \<notin> set (dec_string n)"
proof (induction n rule: dec_string.induct)
  case (1 n)
  have d: "CHR ''C'' \<noteq> char_of (48 + m)" if "m < 10" for m :: nat
  proof
    assume "CHR ''C'' = char_of (48 + m)"
    then have "of_char (CHR ''C'') = (of_char (char_of (48 + m) :: char) :: nat)" by simp
    then show False using that by simp
  qed
  show ?case
  proof (cases "n < 10")
    case True
    then show ?thesis using d [OF True] by (subst dec_string.simps) simp
  next
    case False
    then show ?thesis using d [of "n mod 10"] 1 by (subst dec_string.simps) simp
  qed
qed

lemma show_int_marker: "show_int i \<noteq> g_MagicContentMarker"
proof -
  have "CHR ''C'' \<notin> set (show_int i)" using no_C_dec by (simp add: show_int_def)
  moreover have "CHR ''C'' \<in> set g_MagicContentMarker" by (simp add: g_MagicContentMarker_def)
  ultimately show ?thesis by metis
qed

lemma sm_insert_subset: "set (sm_insert k v m) \<subseteq> insert (k, v) (set m)"
  by (induction k v m rule: sm_insert.induct) auto

lemma no_marker_insert: "no_marker m \<Longrightarrow> k \<noteq> g_MagicContentMarker \<Longrightarrow> v \<noteq> g_MagicContentMarker \<Longrightarrow> no_marker (sm_insert k v m)"
  using sm_insert_subset [of k v m] unfolding no_marker_def by fastforce

lemma no_marker_set: "no_marker m \<Longrightarrow> k \<noteq> g_MagicContentMarker \<Longrightarrow> v \<noteq> g_MagicContentMarker \<Longrightarrow> no_marker (setIfNotSet k v m)"
  by (simp add: setIfNotSet_def no_marker_insert)

lemma bosh_args_no_marker: "no_marker args \<Longrightarrow> no_marker (bosh_args rid args)"
  unfolding bosh_args_def by (intro no_marker_set no_marker_insert) (simp_all add: show_int_marker, simp_all add: g_MagicContentMarker_def)

lemma notify_sane: "sane auth s \<Longrightarrow> sane auth (asyncNotify cb e s)" "sane auth s \<Longrightarrow> sane auth (notify_changed s)"
  by (auto simp: sane_def asyncNotify_eq notify_changed_eq live_def split: option.splits)

lemma launch_done:
  assumes "sane auth s" and "no_marker args"
  shows "\<exists>s'. startNextRequest args cb s = Done s' \<and> sane auth s'"
proof (cases "live s")
  case False
  then show ?thesis using notify_sane(1) [OF assms(1)] by (simp add: startNextRequest_def live_def)
next
  case True
  let ?ats = "[(''rid'', show_int (bt_rid s + 1)), (''sid'', bt_sid s), (''xmlns'', ''http://jabber.org/protocol/httpbind'')] @ args"
  have "no_marker ?ats"
    using assms True show_int_marker [of "bt_rid s + 1"] by (simp add: no_marker_def sane_def) (simp add: g_MagicContentMarker_def)
  then obtain b where b: "nb_addAttributes ?ats nb_new = Done b" using addAttributes_done by blast
  obtain tx where tx: "nb_toString (fold nb_addContent (bt_output s) b) = Done tx" using nb_toString_done by blast
  obtain s' where run: "startNextRequest args cb s = Done s'"
    using True b tx by (auto simp: startNextRequest_def live_def Let_def)
  then show ?thesis using launch_ok(6,10,11,12) [OF run True] assms(1) by (auto simp: sane_def live_def)
qed

lemma continue_done: "sane auth s \<Longrightarrow> \<exists>s'. continueWorking s = Done s' \<and> sane auth s'"
  using launch_done [of auth s "[]" None] by (auto simp: continueWorking_def no_marker_def)


lemma failRequest_sane: "sane auth s \<Longrightarrow> sane auth (failRequest r msg cb s)"
  by (auto simp: failRequest_def Let_def sane_def asyncNotify_eq notify_changed_eq live_def split: option.splits)

lemma failConnect_sane: "sane auth s \<Longrightarrow> sane auth (failConnect r cb msg s)"
  by (auto simp: failConnect_def sane_def asyncNotify_eq notify_changed_eq live_def split: option.splits)

lemma sane_cong:
  assumes "sane auth s" and "bt_sid s' = bt_sid s" "bt_tasks s' = bt_tasks s" "bt_authenticated s' = bt_authenticated s"
    and "live s' \<longrightarrow> live s"
  shows "sane auth s'"
  using assms by (simp add: sane_def)

lemma answered_sane: "sane auth s \<Longrightarrow> sane auth (bt_answered body rid cb s)"
proof -
  assume s: "sane auth s"
  let ?s1 = "s\<lparr>bt_open := sm_erase rid (bt_open s), bt_openCount := bt_openCount s - 1, bt_waiting := sm_insert rid (np_content body) (bt_waiting s)\<rparr>"
  have "sane auth ?s1" by (rule sane_cong [OF s]) (simp_all add: live_def)
  moreover define t where "t = (if np_attribute ''type'' body \<noteq> []
      then failRequest Eof (''Server sent type='' @ np_attribute ''type'' body) cb ?s1 else asyncNotify cb NoError ?s1)"
  ultimately have t: "sane auth t" using failRequest_sane notify_sane by simp
  obtain W n i where w: "insertWaiting (bt_waiting t) (bt_ridRecv t) (bt_input t) = (W, n, i)" by (metis prod_cases3)
  have "sane auth ((insertWaitingInputData t)\<lparr>bt_timed := bt_timed (insertWaitingInputData t) + 1\<rparr>)"
    by (rule sane_cong [OF t]) (simp_all add: live_def insertWaitingInputData_def w)
  from notify_sane(2) [OF this] show ?thesis unfolding bt_answered_def Let_def t_def by simp
qed

text \<open>A reply is handled, whatever it says.\<close>

lemma reply_done:
  assumes s: "sane auth s" and opened: "live s \<Longrightarrow> map_of (bt_open s) rid \<noteq> None" and ev: "ok_event E auth (BtReply n e resp)"
  shows "\<exists>s'. onRequestReply E e resp rid cb s = Done s' \<and> sane auth s'"
proof (cases "live s")
  case False
  then show ?thesis using s by (simp add: onRequestReply_def live_def)
next
  case True
  then have st: "\<not> (bt_state s \<noteq> CH_Connected \<and> bt_state s \<noteq> CH_Closing)" by (simp add: live_def)
  have retry: "\<exists>s'. bt_retry e rid cb s = Done s' \<and> sane auth s'"
  proof -
    let ?s = "s\<lparr>bt_errors := bt_errors s + 1, bt_sumErrors := bt_sumErrors s + 1\<rparr>"
    have ok: "sane auth ?s" by (rule sane_cong [OF s]) (simp_all add: live_def)
    obtain x where x: "map_of (bt_open s) rid = Some x" using opened [OF True] by blast
    have "sane auth (executeRequest x (bt_longPoll ?s) (RequestReply rid cb) ?s)"
      by (rule sane_cong [OF s]) (simp_all add: executeRequest_def Let_def live_def)
    then show ?thesis using failRequest_sane [OF ok] x by (simp add: bt_retry_def Let_def)
  qed
  show ?thesis
  proof (cases resp)
    case None
    then have "failed e" "\<not> bt_authenticated s" using ev s by (auto simp: ok_event_def sane_def)
    then show ?thesis using st None retry s by (simp add: onRequestReply_def)
  next
    case (Some r)
    show ?thesis
    proof (cases "bt_authenticated s \<and> \<not> rs_authenticated r")
      case True
      then show ?thesis using st Some failRequest_sane [OF s] s by (simp add: onRequestReply_def)
    next
      case auth: False
      show ?thesis
      proof (cases "failed e \<or> rs_resultCode r \<noteq> 200")
        case True
        then show ?thesis using st Some auth retry by (auto simp: onRequestReply_def)
      next
        case False
        then obtain x where x: "rs_data r = Some x" using ev Some by (auto simp: ok_event_def)
        define s1 where "s1 = s\<lparr>bt_successes := bt_successes s + 1, bt_errors := (if bt_errors s > 0 then bt_errors s - 1 else bt_errors s)\<rparr>"
        have ok: "sane auth s1" by (rule sane_cong [OF s]) (simp_all add: live_def s1_def)
        have "onRequestReply E e resp rid cb s = (case np_parse (be_parse E) x of
            Inl er \<Rightarrow> Done (failRequest er ''Parse error'' cb s1) | Inr body \<Rightarrow> Done (bt_answered body rid cb s1))"
          using auth False st x Some unfolding onRequestReply_def Let_def s1_def by (auto split del: if_split)
        then show ?thesis using failRequest_sane [OF ok] answered_sane [OF ok] by (simp split: sum.split)
      qed
    qed
  qed
qed

lemma connected_done:
  assumes s: "sane auth s" and sid: "bt_sid s \<noteq> g_MagicContentMarker"
  shows "\<exists>s'. bt_connected b lp cb s = Done s' \<and> sane auth s'"
proof -
  let ?s1 = "s\<lparr>bt_longPoll := lp\<rparr>" and ?s2 = "s\<lparr>bt_longPoll := lp, bt_state := CH_Connected, bt_input := bt_input s @ np_content b, bt_ridRecv := bt_ridRecv s + 1\<rparr>"
  have "sane auth ?s1" by (rule sane_cong [OF s]) (simp_all add: live_def)
  moreover have "sane auth ?s2" using s sid by (simp add: sane_def)
  then have "sane auth (asyncNotify cb NoError ?s2)" by (rule notify_sane(1))
  then obtain s3 where "continueWorking (asyncNotify cb NoError ?s2) = Done s3" "sane auth s3" using continue_done by blast
  ultimately show ?thesis using failConnect_sane notify_sane(2) by (simp add: bt_connected_def Let_def)
qed

lemma connect_done:
  assumes s: "sane auth s" and ev: "ok_event E auth (BtReply n e resp)"
  shows "\<exists>s'. onConnectReply E e resp cb s = Done s' \<and> sane auth s'"
proof (cases "bt_state s = CH_Connecting \<and> \<not> failed e")
  case False
  then show ?thesis using s failConnect_sane by (auto simp: onConnectReply_def)
next
  case True
  then obtain r where r: "resp = Some r" using ev by (cases resp) (auto simp: ok_event_def)
  then obtain x where x: "rs_data r = Some x" using ev True by (auto simp: ok_event_def)
  let ?s1 = "s\<lparr>bt_authenticated := rs_authenticated r\<rparr>"
  have s1: "sane auth ?s1" using s ev r True by (auto simp: sane_def ok_event_def live_def)
  show ?thesis
  proof (cases "rs_resultCode r = 200 \<and> (\<exists>b. np_parse (be_parse E) x = Inr b)")
    case False
    then show ?thesis using True r x failConnect_sane [OF s] failConnect_sane [OF s1]
      by (cases "np_parse (be_parse E) x") (auto simp: onConnectReply_def Let_def)
  next
    case tr: True
    then obtain b where b: "np_parse (be_parse E) x = Inr b" by blast
    let ?s2 = "?s1\<lparr>bt_sid := np_attribute ''sid'' b\<rparr>"
    have sid: "np_attribute ''sid'' b \<noteq> g_MagicContentMarker" using ev r x b by (simp add: ok_event_def answer_body_def)
    have s2: "sane auth ?s2" using s1 sid by (simp add: sane_def live_def)
    have "\<exists>s'. bt_connected b lp cb ?s2 = Done s' \<and> sane auth s'" for lp by (rule connected_done [OF s2]) (use sid in simp)
    then show ?thesis using True tr r x b failConnect_sane [OF s2]
      by (auto simp: onConnectReply_def Let_def split: option.split)
  qed
qed

lemma rids_mem: "f \<in> set fs \<Longrightarrow> flight_rid f = Some r \<Longrightarrow> r \<in> set (rids fs)"
  by (induction fs) (auto split: option.split)

lemma step_done:
  assumes bo: "bo r0 A rd wr s" and s: "sane auth s" and ev: "ok_event E auth ev" "\<not> connects ev"
  shows "\<exists>s'. bt_step E ev s = Done s' \<and> sane auth s'"
proof (cases ev)
  case (BtReply n e resp)
  note ev' = ev(1) [unfolded BtReply]
  show ?thesis
  proof (cases "n < length (bt_flights s)")
    case True
    obtain a b where ab: "bt_flights s = a @ bt_flights s ! n # b" "take n (bt_flights s) @ drop (Suc n) (bt_flights s) = a @ b"
      using flight_split [OF True] .
    let ?s = "s\<lparr>bt_flights := a @ b\<rparr>"
    have s1: "sane auth ?s" by (rule sane_cong [OF s]) (simp_all add: live_def)
    show ?thesis
    proof (cases "bf_callback (bt_flights s ! n)")
      case (ConnectReply cb)
      then show ?thesis using BtReply True ab(2) connect_done [OF s1 ev'] by (simp add: bt_reply_def)
    next
      case (RequestReply rid cb)
      have "rid \<in> set (rids (bt_flights s))"
        by (rule rids_mem [of "bt_flights s ! n"]) (use True RequestReply in \<open>simp_all add: flight_rid_def\<close>)
      then have "live ?s \<Longrightarrow> map_of (bt_open ?s) rid \<noteq> None" using bo unfolding bo_def fl_inv_def live_def by simp
      then show ?thesis using BtReply True ab(2) RequestReply reply_done [OF s1 _ ev'] by (simp add: bt_reply_def)
    qed
  qed (use BtReply s in \<open>simp add: bt_reply_def\<close>)
next
  case BtRestart
  have "no_marker (sm_insert ''xmlns:xmpp'' ''urn:xmpp:xbosh'' (sm_insert ''xmpp:restart'' ''true'' []))"
    by (simp add: no_marker_def g_MagicContentMarker_def)
  from launch_done [OF s this] show ?thesis using BtRestart s by (simp add: bt_restart_def)
next
  case (BtClose cb)
  have "no_marker [(''type'', ''terminate'')]" by (simp add: no_marker_def g_MagicContentMarker_def)
  from launch_done [OF s this] obtain s1 where s1: "startNextRequest [(''type'', ''terminate'')] cb s = Done s1" "sane auth s1" by blast
  show ?thesis
  proof (cases "bt_state s = CH_Connected")
    case True
    then have "bt_state s1 = CH_Connected" using launch_ok(6) [OF s1(1)] by (simp add: live_def)
    then have "sane auth (s1\<lparr>bt_state := CH_Closing\<rparr>)" by (intro sane_cong [OF s1(2)]) (simp_all add: live_def)
    then show ?thesis using BtClose True s1(1) by (simp add: bt_close_def)
  qed (use BtClose s in \<open>simp add: bt_close_def\<close>)
next
  case BtTask
  have no: "BoshCall None e \<notin> set (bt_tasks s)" for e using s by (simp add: sane_def)
  show ?thesis
  proof (cases "bt_tasks s")
    case (Cons x ts)
    have "x \<noteq> BoshCall None e" for e using no [of e] Cons by auto
    then have "bt_runTask s = Done (s\<lparr>bt_tasks := ts\<rparr>)"
      using Cons by (auto simp: bt_runTask_def split: bosh_task.split option.split)
    moreover have "sane auth (s\<lparr>bt_tasks := ts\<rparr>)" using s Cons by (auto simp: sane_def live_def)
    ultimately show ?thesis using BtTask by simp
  qed (use s BtTask in \<open>simp add: bt_runTask_def\<close>)
next
  case BtTimed
  have "sane auth (s\<lparr>bt_timed := bt_timed s - 1\<rparr>)" by (rule sane_cong [OF s]) (simp_all add: live_def)
  then show ?thesis using BtTimed s continue_done by (simp add: bt_runTimed_def)
next
  case (BtWrite x)
  then show ?thesis using s by (auto simp: bt_write_def sane_def live_def)
next
  case (BtRead n)
  then show ?thesis using s by (auto simp: bt_read_def sane_def live_def)
next
  case (BtSetChanged b)
  then show ?thesis using s by (auto simp: sane_def live_def)
qed (use ev(2) in simp)

lemma run_done:
  "bo_inv r0 w \<Longrightarrow> sane auth (br_bosh w) \<Longrightarrow> \<forall>ev \<in> set es. ok_event E auth ev \<and> \<not> connects ev \<Longrightarrow> \<exists>w'. br_run E es w = Done w'"
proof (induction es arbitrary: w)
  case (Cons ev es)
  have ev: "ok_event E auth ev" "\<not> connects ev" using Cons.prems(3) by simp_all
  obtain s' where st: "bt_step E ev (br_bosh w) = Done s'" "sane auth s'"
    using step_done [OF Cons.prems(1) [unfolded bo_inv_bo] Cons.prems(2) ev] by blast
  then obtain v where v: "br_step E ev w = Done v" "br_bosh v = s'" by (simp add: br_step_def)
  have "bo_inv r0 v" using br_step_ok [OF Cons.prems(1) v(1)] Cons.prems(3) by simp
  then show ?case using Cons.IH [of v] Cons.prems(3) st v by simp
qed simp

lemma connect_step_done:
  assumes "ok_event E auth (BtConnect u args t cb)"
  shows "\<exists>w. br_step E (BtConnect u args t cb) br_new = Done w \<and> sane auth (br_bosh w)"
proof -
  have "no_marker args" using assms by (simp add: ok_event_def)
  then obtain b where b: "nb_addAttributes (bosh_args (be_random E) args) nb_new = Done b"
    using addAttributes_done [OF bosh_args_no_marker] by blast
  obtain tx where "nb_toString b = Done tx" using nb_toString_done by blast
  then show ?thesis using b
    by (simp add: br_step_def bt_connect_def br_new_def bt_new_def Let_def sane_def executeRequest_def live_def)
qed

subsection \<open>The promises\<close>

definition demo_bosh_env :: bosh_env where
  "demo_bosh_env = \<lparr>be_parse = (\<lambda>x. Some (RX RX_document [] [] [] [RX RX_element ''body'' [] [(''sid'', ''s1'')] [RX RX_element x [] [] []]])),
     be_int = (\<lambda>_. None), be_random = 7\<rparr>"

definition demo_answer :: "string \<Rightarrow> http_response option" where
  "demo_answer x = Some (rs_new\<lparr>rs_resultCode := 200, rs_data := Some x\<rparr>)"

text \<open>Two requests are on their way; one fails and is repeated, and the other is answered first.\<close>

definition demo_bosh_events :: "bosh_event list" where
  "demo_bosh_events = [BtReply 0 NoError (demo_answer ''a''), BtWrite ''x'', BtTimed, BtReply 0 TimeOut None, BtReply 0 NoError (demo_answer ''c''),
     BtReply 0 NoError (demo_answer ''b''), BtRead 3, BtTimed, BtTask]"

lemma demo_bosh_ok:
  "\<forall>ev \<in> set demo_bosh_events. \<not> connects ev"
  "\<forall>ev \<in> set (BtConnect no_url [] 1000 (Some 0) # demo_bosh_events). ok_event demo_bosh_env False ev"
  by (simp_all add: demo_bosh_events_def demo_answer_def ok_event_def rs_new_def no_marker_def answer_body_def np_parse_def
      demo_bosh_env_def np_attribute_def g_MagicContentMarker_def)

lemma demo_bosh_run:
  "\<exists>w. br_run demo_bosh_env (BtConnect no_url [] 1000 (Some 0) # demo_bosh_events) br_new = Done w"
proof -
  obtain v where v: "br_step demo_bosh_env (BtConnect no_url [] 1000 (Some 0)) br_new = Done v" "sane False (br_bosh v)"
    using connect_step_done [of demo_bosh_env False] demo_bosh_ok(2) by fastforce
  then show ?thesis using run_done [OF connected_run [OF v(1)] v(2)] demo_bosh_ok by simp
qed

text \<open>
  In every run of a BOSH transport after one connect, in whatever order its requests are answered, fail
  or are repeated: no number is answered twice, and what was read, with what can still be read, are the
  contents of the answers in the order of their numbers, without a gap.
\<close>

lemma bosh_in_order:
  assumes "br_run E (BtConnect u args t cb # es) br_new = Done w" and "\<forall>ev \<in> set es. \<not> connects ev"
  shows "distinct (map fst (br_answers w)) \<and> br_read w @ bt_input (br_bosh w) =
    concat (map (\<lambda>r. the (map_of (br_answers w) r)) [be_random E..bt_ridRecv (br_bosh w) - 1])"
proof -
  obtain v where v: "br_step E (BtConnect u args t cb) br_new = Done v" "br_run E es v = Done w"
    using assms(1) by (cases "br_step E (BtConnect u args t cb) br_new") auto
  have "bo_inv (be_random E) w" by (rule br_run_ok [OF connected_run [OF v(1)] v(2) assms(2)])
  then show ?thesis by (simp add: bo_inv_def in_inv_def)
qed

lemma bosh_in_order_witness:
  "\<exists>w. br_run demo_bosh_env (BtConnect no_url [] 1000 (Some 0) # demo_bosh_events) br_new = Done w \<and>
     distinct (map fst (br_answers w)) \<and> br_read w @ bt_input (br_bosh w) =
     concat (map (\<lambda>r. the (map_of (br_answers w) r)) [be_random demo_bosh_env..bt_ridRecv (br_bosh w) - 1])"
  using demo_bosh_run bosh_in_order [OF _ demo_bosh_ok(1)] by blast

text \<open>
  What was written is sent once and in order: every numbered request, however often it is repeated, has
  the same body, and the contents of the bodies in the order of the numbers, with the output that waits,
  are the bytes that were written.
\<close>

lemma bosh_sends_once:
  assumes "br_run E (BtConnect u args t cb # es) br_new = Done w" and "\<forall>ev \<in> set es. \<not> connects ev"
  shows "\<exists>ats parts.
    (\<forall>f \<in> set (bt_sent (br_bosh w)). \<forall>r c. bf_callback f = RequestReply r c \<longrightarrow> be_random E < r \<and> r \<le> bt_rid (br_bosh w) \<and>
       (\<exists>txt. nb_body (ats r) (parts r) = Done txt \<and> bf_request f = bosh_post (bt_url (br_bosh w)) txt)) \<and>
    concat (map (\<lambda>r. concat (parts r)) [be_random E + 1..bt_rid (br_bosh w)]) @ concat (bt_output (br_bosh w)) = br_written w"
proof -
  obtain v where v: "br_step E (BtConnect u args t cb) br_new = Done v" "br_run E es v = Done w"
    using assms(1) by (cases "br_step E (BtConnect u args t cb) br_new") auto
  have "bo_inv (be_random E) w" by (rule br_run_ok [OF connected_run [OF v(1)] v(2) assms(2)])
  then have "out_inv (be_random E) (br_written w) (br_bosh w)" by (simp add: bo_inv_def)
  then obtain ats parts where
    "\<And>f r. f \<in> set (bt_sent (br_bosh w)) \<Longrightarrow> flight_rid f = Some r \<Longrightarrow> be_random E < r \<and> r \<le> bt_rid (br_bosh w) \<and>
        (\<exists>tx. nb_body (ats r) (parts r) = Done tx \<and> bf_request f = bosh_post (bt_url (br_bosh w)) tx)"
    "concat (map (\<lambda>r. concat (parts r)) [be_random E + 1..bt_rid (br_bosh w)]) @ concat (bt_output (br_bosh w)) = br_written w"
    by (rule out_invE) blast
  then show ?thesis by (intro exI [of _ ats] exI [of _ parts]) (simp add: flight_rid_def)
qed

lemma bosh_sends_once_witness:
  "\<exists>w ats parts. br_run demo_bosh_env (BtConnect no_url [] 1000 (Some 0) # demo_bosh_events) br_new = Done w \<and>
    (\<forall>f \<in> set (bt_sent (br_bosh w)). \<forall>r c. bf_callback f = RequestReply r c \<longrightarrow>
       be_random demo_bosh_env < r \<and> r \<le> bt_rid (br_bosh w) \<and>
       (\<exists>txt. nb_body (ats r) (parts r) = Done txt \<and> bf_request f = bosh_post (bt_url (br_bosh w)) txt)) \<and>
    concat (map (\<lambda>r. concat (parts r)) [be_random demo_bosh_env + 1..bt_rid (br_bosh w)]) @ concat (bt_output (br_bosh w)) = br_written w"
proof -
  obtain w where w: "br_run demo_bosh_env (BtConnect no_url [] 1000 (Some 0) # demo_bosh_events) br_new = Done w"
    using demo_bosh_run by blast
  show ?thesis using bosh_sends_once [OF w demo_bosh_ok(1)] w by blast
qed

text \<open>
  A connected transport never stops asking: in every run after one connect, a request is on its way or
  the next look is posted.
\<close>

lemma bosh_keeps_asking:
  assumes "br_run E (BtConnect u args t cb # es) br_new = Done w" and "\<forall>ev \<in> set es. \<not> connects ev"
    and "bt_state (br_bosh w) = CH_Connected"
  shows "bt_flights (br_bosh w) \<noteq> [] \<or> 0 < bt_timed (br_bosh w)"
proof -
  obtain v where v: "br_step E (BtConnect u args t cb) br_new = Done v" "br_run E es v = Done w"
    using assms(1) by (cases "br_step E (BtConnect u args t cb) br_new") auto
  have "bo_inv (be_random E) w" by (rule br_run_ok [OF connected_run [OF v(1)] v(2) assms(2)])
  then show ?thesis using assms(3) by (simp add: bo_inv_def)
qed

text \<open>
  No run leaves the defined behaviour, as long as the marker of the node builder is no attribute, and
  either every answer comes with a response or none is authenticated.
\<close>

lemma bosh_never_faults:
  assumes "\<forall>ev \<in> set (BtConnect u args t cb # es). ok_event E auth ev" and "\<forall>ev \<in> set es. \<not> connects ev"
  shows "\<exists>w. br_run E (BtConnect u args t cb # es) br_new = Done w"
proof -
  obtain v where v: "br_step E (BtConnect u args t cb) br_new = Done v" "sane auth (br_bosh v)"
    using connect_step_done [of E auth] assms(1) by fastforce
  then show ?thesis using run_done [OF connected_run [OF v(1)] v(2)] assms by simp
qed

lemma bosh_never_faults_witness:
  "\<exists>w. br_run demo_bosh_env (BtConnect no_url [] 1000 (Some 0) # demo_bosh_events) br_new = Done w"
  by (rule bosh_never_faults [OF demo_bosh_ok(2,1)])


subsection \<open>Where it falls short\<close>

text \<open>
  A request of an authenticated transport that fails without a response, as one that timed out, is
  answered by a null pointer that is followed.
\<close>

lemma authenticated_error_faults:
  assumes "bt_state s = CH_Connected" and "bt_authenticated s"
  shows "onRequestReply E e None rid cb s = Fault NullDeref"
  using assms by (simp add: onRequestReply_def)

text \<open>The caller of a close that failed is told the error from before, which is none.\<close>

lemma failed_close_told_success:
  assumes "r \<noteq> Eof" and "bt_error s = NoError"
  shows "BoshCall (Some n) NoError \<in> set (bt_tasks (failRequest r msg (Some n) s))"
  using assms by (simp add: failRequest_def Let_def asyncNotify_eq notify_changed_eq)

text \<open>After too many bad result codes the channel is dead, and its error is none.\<close>

lemma dead_without_error:
  assumes "bt_errors s = mMaxErrorCount"
  shows "\<exists>s'. bt_retry NoError rid cb s = Done s' \<and> bt_state s' = CH_Other \<and> bt_error s' = NoError"
  using assms by (simp add: bt_retry_def Let_def failRequest_def asyncNotify_eq notify_changed_eq)

text \<open>
  A transport whose session was ended may connect again, but it still counts the requests of the
  old session: if there are two, the new session never asks for anything.
\<close>

lemma old_requests_counted:
  assumes "bt_connect E u args t cb s = Done s'"
  shows "bt_openCount s' = bt_openCount s"
  using assms by (auto simp: bt_connect_def Let_def bt_post_def executeRequest_def split: if_splits)

lemma reconnect_stalls:
  assumes "bt_openCount s \<ge> 2" and "bt_state s = CH_Connecting" and "onConnectReply E e resp cb s = Done s'"
  shows "bt_flights s' = bt_flights s \<and> bt_timed s' = bt_timed s"
proof -
  from connect_cases [OF assms(3,2)] show ?thesis
  proof
    assume "refused_to s s'"
    then show ?thesis by (auto simp: refused_to_def)
  next
    assume "connected_to E resp s s'"
    then show ?thesis using assms(1) by (auto simp: connected_to_def continueWorking_def)
  qed
qed

text \<open>The content is parsed without translating entities, but printed with.\<close>

lemma entities_twice:
  "np_content (RX RX_element ''body'' [] [] [RX RX_element ''b'' ''&amp;'' [] [RX RX_data [] ''&amp;'' [] []]]) =
     ''<b>&amp;amp;</b>'' @ [CHR 0x0A]"
  by (simp add: np_content_def sole_data_def indent_by_def printAttributes_def copy_and_expand_chars_def)

text \<open>The content takes the place of the first marker, also inside of an attribute.\<close>

lemma content_in_attribute:
  "nb_toString \<lparr>nb_attributes = [(''sid'', ''1CONTENTCOMESHERE'')], nb_contents = [''data'']\<rparr> =
     Done (''<body sid='' @ [CHR 0x22] @ ''1data'' @ [CHR 0x22] @ ''>CONTENTCOMESHERE</body>'' @ [CHR 0x0A, CHR 0x0A])"
  by (simp add: nb_toString_def nb_doc_def g_MagicContentMarker_def indent_by_def printAttributes_def rx_attribute_def
      copy_and_expand_chars_def)

end
