(* ===== verification/Spec2Isabelle.thy ===== *)
theory Spec2Isabelle
  imports Sf_Path Sf_IMChannel Sf_HolderProps Sf_ConnMgmt Sf_DSClient
    Sf_AuthPair Sf_Entities Sf_XMLStream Sf_HttpProps Sf_HttpPieces
    Sf_AsyncSpec Sf_TCPProps Sf_HttpService Sf_IMProps
    Sf_ArgSplit Sf_GlobProps Sf_DirTransfer Sf_Promises Sf_SharingProps Sf_TrackProps Sf_GettingSpec
    Sf_AuthEnd Sf_TCPSafe Sf_BoshSpec
begin

text \<open>
  A model of schneeflocke's peer-to-peer library \<open>libschnee\<close>.

  \<^bold>\<open>The program.\<close>  Peers find each other over instant messaging.  Bytes travel over channels
  (instant messages, TCP, UDT), one datagram after the other; a channel holder keeps all
  channels and their levels, a connection manager lifts a connection to the best level the
  channel providers offer, and a multiplexer hands every datagram to the protocol component
  that declares its command.  The data sharing protocol on top serves shared bytes to
  requests, transmissions and subscribers.  Every component keeps its pending operations in
  the table it inherits from \<open>AsyncOpBase\<close>.

  \<^bold>\<open>The theories\<close>, in the order they build on each other; each opens with a text that names
  the files it models.

  \<^item> \<open>Sf_Prelude\<close>: error codes, C strings, undefined behaviour as \<open>Fault\<close>, \<open>std::map\<close> as a sorted
    association list.
  \<^item> \<open>Sf_Path\<close>: \<open>tools/Path\<close> and \<open>tools/Uri\<close>, instances of \<open>linorder\<close> as they are map keys.
  \<^item> \<open>Sf_Bytes\<close>: \<open>tools/ByteArray\<close> and \<open>tools/Base64\<close>.
  \<^item> \<open>Sf_Datagram\<close>: \<open>p2p/Datagram\<close> and \<open>p2p/DatagramReader\<close>, with the specification \<open>dg_parse\<close> of
    the reader; what a channel promises a reader is the locale \<open>byte_source\<close>.
  \<^item> \<open>Sf_IMChannel\<close>: \<open>p2p/channels/IMChannel\<close>, which interprets \<open>byte_source\<close>.
  \<^item> \<open>Sf_Time\<close>, \<open>Sf_AsyncOp\<close>: timeouts and \<open>tools/async/AsyncOpBase\<close>; the owner of a table whose
    handlers leave it alone is the locale \<open>cancel_handler\<close>, interpreted here and by every
    component that uses cancellation.
  \<^item> \<open>Sf_ChannelHolder\<close>, \<open>Sf_HolderInv\<close>, \<open>Sf_HolderProps\<close>: \<open>p2p/impl/ChannelHolder\<close> and
    \<open>SmoothingFilter\<close>; the step relation, its invariant, and what follows from it.
  \<^item> \<open>Sf_Ping\<close>: \<open>p2p/impl/ChannelPinger\<close> and \<open>p2p/com/PingProtocol\<close>.
  \<^item> \<open>Sf_Multiplex\<close>: \<open>p2p/CommunicationMultiplex\<close>.
  \<^item> \<open>Sf_ConnMgmt\<close>: \<open>p2p/impl/GenericConnectionManagement\<close>.
  \<^item> \<open>Sf_DataSharing\<close>, \<open>Sf_DSServer\<close>, \<open>Sf_DSServerProps\<close>, \<open>Sf_DSClient\<close>: the data sharing protocol,
    \<open>p2p/DataSharingElements.h\<close>, \<open>p2p/DataPromise.h\<close>, \<open>p2p/com/DataSharingServerImpl\<close> and
    \<open>DataSharingClientImpl\<close>.

  \<^item> \<open>Sf_AsyncSpec\<close>: the table of operations as a map from ids, which the detailed table refines.
  \<^item> \<open>Sf_Auth\<close>, \<open>Sf_AuthPair\<close>, \<open>Sf_AuthQuiet\<close>, \<open>Sf_AuthEnd\<close>: \<open>p2p/channels/AuthProtocol\<close> and
    \<open>net/Authentication\<close>; two ends over a network that delivers in order, what a handshake that has
    ended does, and one end against any peer.
  \<^item> \<open>Sf_TCPConnect\<close>, \<open>Sf_TCPConnector\<close>, \<open>Sf_TCPProps\<close>, \<open>Sf_TCPSafe\<close>: \<open>p2p/com/TCPConnectProtocol\<close>
    and \<open>p2p/channels/TCPChannelConnector\<close>, its runs and their invariant, and that every step of a run
    stays in defined behaviour.
  \<^item> \<open>Sf_IMDispatcher\<close>, \<open>Sf_IMRuns\<close>, \<open>Sf_IMProps\<close>: \<open>p2p/channels/IMDispatcher\<close> with the data of
    \<open>im/IMClient.h\<close> and \<open>p2p/PresenceManagement.h\<close>, its runs and their invariant, and what follows.
  \<^item> \<open>Sf_XML\<close>, \<open>Sf_XMLProps\<close>, \<open>Sf_Entities\<close>, \<open>Sf_XMLStream\<close>: \<open>tools/XMLChunk\<close> and
    \<open>im/xmpp/XMLStreamDecoder\<close>.
  \<^item> \<open>Sf_Http\<close>, \<open>Sf_HttpProps\<close>, \<open>Sf_HttpPieces\<close>: \<open>net/http/Url\<close>, \<open>HttpRequest\<close>, \<open>HttpResponse\<close> and
    \<open>impl/HttpResponseParser\<close>.
  \<^item> \<open>Sf_HttpPool\<close>, \<open>Sf_HttpContext\<close>: \<open>net/http/impl/HttpConnectionManager\<close> and \<open>net/http/HttpContext\<close> over
    it, with the runs of both; \<open>Sf_HttpPoolInv\<close>, \<open>Sf_HttpPoolOps\<close>, \<open>Sf_HttpRuns\<close>: the invariants of the
    pool and of the requests; \<open>Sf_HttpService\<close>: what follows for every run.
  \<^item> \<open>Sf_RxPrint\<close>: the printer of \<open>external/rapidxml/rapidxml_print.hpp\<close>, \<open>im/xmpp/bosh_impl/BoshNodeBuilder\<close> and
    \<open>BoshNodeParser\<close>.  \<open>Sf_Bosh\<close>, \<open>Sf_BoshInv\<close>, \<open>Sf_BoshProps\<close>, \<open>Sf_BoshSpec\<close>: \<open>bosh_impl/BoshTransport\<close>, its
    runs, their invariant and what follows.
  \<^item> \<open>Sf_ArgSplit\<close>: \<open>tools/ArgSplit\<close>.
  \<^item> \<open>Sf_Listing\<close>, \<open>Sf_Globber\<close>, \<open>Sf_GlobProps\<close>: \<open>filesharing/file_io/DirectoryListing\<close>,
    \<open>RecursiveDirectoryListing\<close> and \<open>Globber\<close> of \<open>libflocke\<close>.
  \<^item> \<open>Sf_Transfer\<close>, \<open>Sf_TransferProps\<close>, \<open>Sf_DirTransfer\<close>: \<open>file_io/FileTransfer\<close> and
    \<open>file_io/DirectoryTransfer\<close>, on top of the data sharing client.
  \<^item> \<open>Sf_Promises\<close>: \<open>file_io/FileSharingPromise\<close>, \<open>GlobPromise\<close> and \<open>DirectorySharingPromise\<close>.
  \<^item> \<open>Sf_FileSharing\<close>, \<open>Sf_SharingProps\<close>: \<open>sharedlists/SharedListServer\<close> and \<open>filesharing/FileSharing\<close> of
    \<open>libflocke\<close>, the permission check of \<open>apps/schneeflocke/src/Model\<close>, and the runs of all three
    over the data sharing server.
  \<^item> \<open>Sf_Tracker\<close>, \<open>Sf_TrackRuns\<close>, \<open>Sf_TrackProps\<close>: \<open>objsync/DataTracker\<close> and
    \<open>sharedlists/SharedListTracker\<close> of \<open>libflocke\<close>; the runs of a sharing host and a tracking one with
    the network between them, their invariant and what follows.
  \<^item> \<open>Sf_Getting\<close>, \<open>Sf_GettingInv\<close>, \<open>Sf_GettingProps\<close>, \<open>Sf_GettingSpec\<close>: \<open>filesharing/FileGetting\<close> of
    \<open>libflocke\<close> over both kinds of transfers; its runs, their invariant and what follows.

  \<^bold>\<open>Conventions.\<close>  A class is a record, an operation a function on it with the result and the
  new state as a pair.  A null pointer is \<open>None\<close>.  An execution that leaves defined behaviour
  is \<open>Fault\<close>.  A call posted to the main loop (\<open>xcall\<close>, \<open>notifyAsync\<close>) is an entry of a task
  list, a datagram sent or a delegate called an entry of a log, and what the callee answers
  is a function in an environment record.  A loop that may not end is a \<open>partial_function\<close>
  with result \<open>None\<close> for not ending; no fuel is used, and where a property says that an
  operation returns, it says that the result is \<open>Some\<close>.  Sockets, TLS channels and certificates are
  functions of the environment; in a run of the TCP connector they are fixed, and every callback
  that was given away may come at any time after.

  \<^bold>\<open>What the lemmas show.\<close>  Encodings are undone by their decoders; the reader cuts any byte
  stream as \<open>dg_parse\<close> does, so datagrams survive any fragmentation; the operation table and
  the channel holder keep their invariants under every operation; lifting ends and serves its
  caller when the priorities are positive; the server answers a request with data that was shared
  with the asker or with an error, and a transmission carries the data unchanged from the server's
  share to the client's callback, for ids and sizes within 32 bits.
  Two ends of the authentication handshake never finish without knowing each other, in any
  interleaving, and one end answers its caller once and stays defined, whatever the peer sends; in
  every run of the TCP connector and of HTTP requests each caller is answered exactly once, a channel is announced only for the host whose certificate vouches for it, a
  request is written only to its server, and no callback, message or timer of a connector that knows its
  own details meets a null pointer or an object of another class.  The BOSH transport delivers what the answers hold in the order of their
  requests, sends every request it numbers and keeps asking while it is connected.
  The dispatcher of instant messages answers each caller once, lists exactly its open channels
  and shows exactly the visible hosts of the roster.
  The scanners for XML elements and the parsers of streams and responses give the same result
  however their input is cut into pieces.
  A shared file arrives as it was; a directory is listed completely however the work is cut into
  slices, and its download hands out exactly the files of the listing.  What is shared, what is
  listed and what the server gives out agree in every run, and a share under its own name is
  refused to everybody it is not meant for.  A host that tracks another one shows its list, whatever
  is shared and however messages and posted calls are interleaved.  The files of a directory are
  fetched two at a time at most, and what is reported as finished is complete.
  The lemmas that state where the code goes wrong prove it for the code as it is.

  \<^bold>\<open>Not modelled.\<close>  The JSON texts of commands (generated serialisation and a vendored parser:
  a message is its structure, or its command is given by the environment), floating point
  rounding, the sockets, TLS and UDT libraries, logging, and the user interfaces.  The
  XMPP stanzas, stream and client (their text layout is a parameter of the models above), the UDT
  connector (hole punching with an echo server, over a socket library that is not part of the
  program) and \<open>GenericInterplexBeacon\<close> (wiring of the components) have no theory.
\<close>

end
